(* ===== verification/C_Prelude.thy ===== *)
theory C_Prelude
  imports "HOL-Library.Word" "HOL-Library.Monad_Syntax"
begin

text \<open>
  Shared vocabulary of the development: the machine integer types of the C code, the
  counted loops the code writes as \<^verbatim>\<open>for (i = a; i < b; i++)\<close>, bounds-checked writes to
  C arrays, and the word and list lemmas the component theories share.
\<close>

unbundle bit_operations_syntax

section \<open>Machine integers and C arrays\<close>

type_synonym u8 = "8 word"
type_synonym u16 = "16 word"
type_synonym u32 = "32 word"
type_synonym u64 = "64 word"

text \<open>
  A counted loop runs its body for every index from the first bound up to, and without,
  the second. The body receives the index as a natural number.
\<close>

definition for_loop :: "nat \<Rightarrow> nat \<Rightarrow> (nat \<Rightarrow> 's \<Rightarrow> 's) \<Rightarrow> 's \<Rightarrow> 's" where
  "for_loop a b body s = fold body [a..<b] s"

text \<open>
  A store through an array pointer: defined inside the object, undefined behaviour
  (the value \<^const>\<open>None\<close>) outside it.
\<close>

definition array_store :: "'a list \<Rightarrow> nat \<Rightarrow> 'a \<Rightarrow> 'a list option" where
  "array_store xs i v = (if i < length xs then Some (xs[i := v]) else None)"

text \<open>
  A loop whose number of rounds is not known: one round either leaves the loop with a
  result or goes on with the next state, and may itself fail to return (\<^const>\<open>None\<close>). The
  loop is \<^const>\<open>None\<close> when it does not return.
\<close>

partial_function (option) loop_until ::
  "('s \<Rightarrow> ('r option \<times> 's) option) \<Rightarrow> 's \<Rightarrow> ('r \<times> 's) option" where
  "loop_until round s =
     (case round s of
        None \<Rightarrow> None
      | Some (r, s') \<Rightarrow> (case r of Some x \<Rightarrow> Some (x, s') | None \<Rightarrow> loop_until round s'))"

section \<open>Collections\<close>

named_theorems mem_simps \<open>reads after writes of the packet buffer\<close>
named_theorems loop_simps \<open>unrolling of the counted loops\<close>
named_theorems state_simps \<open>fields a step leaves alone\<close>

section \<open>Counted loops\<close>

lemma for_loop_empty [loop_simps]: "b \<le> a \<Longrightarrow> for_loop a b body s = s"
  by (simp add: for_loop_def)

lemma for_loop_first: "a < b \<Longrightarrow> for_loop a b body s = for_loop (Suc a) b body (body a s)"
  by (simp add: for_loop_def upt_conv_Cons)

lemma for_loop_last:
  "a \<le> b \<Longrightarrow> for_loop a (Suc b) body s = body b (for_loop a b body s)"
  by (simp add: for_loop_def)

lemma for_loop_cong:
  "(\<And>i s. a \<le> i \<Longrightarrow> i < b \<Longrightarrow> f i s = g i s) \<Longrightarrow> for_loop a b f s = for_loop a b g s"
  unfolding for_loop_def by (intro fold_cong) (auto simp: fun_eq_iff)

lemma for_loop_zero [loop_simps]: "for_loop 0 0 body s = s"
  by (simp add: for_loop_def)

lemma for_loop_Suc: "for_loop 0 (Suc n) body s = body n (for_loop 0 n body s)"
  by (simp add: for_loop_def)

lemma for_loop_numeral [loop_simps]:
  "for_loop 0 (numeral k) body s = body (pred_numeral k) (for_loop 0 (pred_numeral k) body s)"
  by (simp add: numeral_eq_Suc for_loop_Suc)

text \<open>The invariant rule of a counted loop.\<close>

lemma for_loop_invariant:
  assumes "P a s" and "\<And>i s. a \<le> i \<Longrightarrow> i < b \<Longrightarrow> P i s \<Longrightarrow> P (Suc i) (body i s)" and "a \<le> b"
  shows "P b (for_loop a b body s)"
  using assms(3) assms(1,2)
proof (induction b rule: dec_induct)
  case base
  then show ?case by (simp add: for_loop_def)
next
  case (step n)
  then show ?case by (simp add: for_loop_last)
qed

text \<open>Copying an array element by element.\<close>

lemma copy_loop_take:
  "n \<le> length xs \<Longrightarrow> n \<le> length ys \<Longrightarrow>
     for_loop 0 n (\<lambda>j xs. xs[j := ys ! j]) xs = take n ys @ drop n xs"
proof (induction n)
  case 0
  then show ?case by (simp add: for_loop_def)
next
  case (Suc n)
  then have "(take n ys @ drop n xs)[n := ys ! n] = take (Suc n) ys @ drop (Suc n) xs"
    by (intro nth_equalityI) (auto simp: nth_append nth_list_update min_def less_Suc_eq)
  with Suc show ?case by (simp add: for_loop_Suc)
qed

lemma copy_loop: "length xs = n \<Longrightarrow> length ys = n \<Longrightarrow> for_loop 0 n (\<lambda>j xs. xs[j := ys ! j]) xs = ys"
  by (simp add: copy_loop_take)

text \<open>
  Filling an array through checked stores: defined exactly when the array is long enough.
\<close>

lemma store_loop_take:
  "n \<le> length d \<Longrightarrow>
     for_loop 0 n (\<lambda>i r. do { d \<leftarrow> r; array_store d i (f i) }) (Some d) = Some (map f [0..<n] @ drop n d)"
proof (induction n)
  case 0
  then show ?case by (simp add: for_loop_zero)
next
  case (Suc n)
  have "(map f [0..<n] @ drop n d)[n := f n] = map f [0..<Suc n] @ drop (Suc n) d"
    by (intro nth_equalityI) (use Suc.prems in \<open>auto simp: nth_append nth_list_update less_Suc_eq\<close>)
  with Suc show ?case by (simp add: for_loop_Suc array_store_def)
qed

lemma store_loop_overflow:
  "length d < n \<Longrightarrow> for_loop 0 n (\<lambda>i r. do { d \<leftarrow> r; array_store d i (f i) }) (Some d) = None"
proof (induction n)
  case 0
  then show ?case by simp
next
  case (Suc n)
  show ?case
  proof (cases "length d < n")
    case True
    with Suc show ?thesis by (simp add: for_loop_Suc)
  next
    case False
    with Suc.prems have n: "n = length d" by simp
    then show ?thesis by (simp add: for_loop_Suc store_loop_take) (simp add: array_store_def)
  qed
qed

text \<open>A loop that rewrites the elements with a property and remembers whether it found one.\<close>

lemma mark_loop_take:
  "n \<le> length xs \<Longrightarrow>
     for_loop 0 n (\<lambda>i (ans, xs). if P (xs ! i) then (1, xs[i := f (xs ! i)]) else (ans, xs)) (a, xs) =
     (if \<exists>x\<in>set (take n xs). P x then 1 else a,
      map (\<lambda>x. if P x then f x else x) (take n xs) @ drop n xs)"
proof (induction n)
  case 0
  then show ?case by (simp add: for_loop_def)
next
  case (Suc n)
  let ?g = "\<lambda>x. if P x then f x else x"
  have upd: "(map ?g (take n xs) @ drop n xs)[n := y] = map ?g (take n xs) @ y # drop (Suc n) xs" for y
    using Suc.prems by (simp add: list_update_append min_def flip: Cons_nth_drop_Suc)
  have nth: "(map ?g (take n xs) @ drop n xs) ! n = xs ! n"
    using Suc.prems by (simp add: nth_append min_def)
  have take: "take (Suc n) xs = take n xs @ [xs ! n]"
    using Suc.prems by (simp add: take_Suc_conv_app_nth)
  have drop: "drop n xs = xs ! n # drop (Suc n) xs"
    using Suc.prems by (simp add: Cons_nth_drop_Suc)
  show ?case
    using Suc by (simp add: for_loop_Suc nth upd take) (simp add: drop)
qed

lemma mark_loop:
  "length xs = n \<Longrightarrow>
     for_loop 0 n (\<lambda>i (ans, xs). if P (xs ! i) then (1, xs[i := f (xs ! i)]) else (ans, xs)) (a, xs) =
     (if \<exists>x\<in>set xs. P x then 1 else a, map (\<lambda>x. if P x then f x else x) xs)"
  by (simp add: mark_loop_take)

text \<open>Searching a list after one element was replaced.\<close>

lemma find_update_hit:
  "\<forall>x\<in>set xs. \<not> P x \<Longrightarrow> P e \<Longrightarrow> i < length xs \<Longrightarrow> List.find P (xs[i := e]) = Some e"
  by (induction xs arbitrary: i) (auto split: nat.splits)

lemma find_update_miss:
  "\<not> P e \<Longrightarrow> \<not> P (xs ! i) \<Longrightarrow> i < length xs \<Longrightarrow> List.find P (xs[i := e]) = List.find P xs"
  by (induction xs arbitrary: i) (auto split: nat.splits)

section \<open>Loops that run until an exit\<close>

lemma loop_until_exit: "round s = Some (Some x, s') \<Longrightarrow> loop_until round s = Some (x, s')"
  by (simp add: loop_until.simps)

lemma loop_until_next: "round s = Some (None, s') \<Longrightarrow> loop_until round s = loop_until round s'"
  by (simp add: loop_until.simps [of round s])

lemma loop_until_stuck: "round s = None \<Longrightarrow> loop_until round s = None"
  by (simp add: loop_until.simps)

text \<open>Partial correctness: an invariant of the rounds holds where the loop exits.\<close>

lemma loop_until_rule:
  assumes ret: "loop_until round s = Some (x, t)"
    and "I s"
    and round: "\<And>s s'. I s \<Longrightarrow> round s = Some (None, s') \<Longrightarrow> I s'"
    and exit: "\<And>s x t. I s \<Longrightarrow> round s = Some (Some x, t) \<Longrightarrow> Q x t"
  shows "Q x t"
proof -
  have main: "round' = round \<longrightarrow> I s \<longrightarrow> Q (fst xt) (snd xt)"
    if "loop_until round' s = Some xt" for round' s xt
  proof (rule loop_until.raw_induct
      [where P = "\<lambda>round' s xt. round' = round \<longrightarrow> I s \<longrightarrow> Q (fst xt) (snd xt)", OF _ that])
    fix lu round' s xt
    assume IH: "\<And>r' s xt. lu r' s = Some xt \<Longrightarrow> r' = round \<longrightarrow> I s \<longrightarrow> Q (fst xt) (snd xt)"
      and eq: "(case round' s of None \<Rightarrow> None
        | Some (r, s') \<Rightarrow> (case r of Some x \<Rightarrow> Some (x, s') | None \<Rightarrow> lu round' s')) = Some xt"
    show "round' = round \<longrightarrow> I s \<longrightarrow> Q (fst xt) (snd xt)"
    proof (intro impI)
      assume [simp]: "round' = round" and "I s"
      show "Q (fst xt) (snd xt)"
      proof (cases "round s")
        case None
        with eq show ?thesis by simp
      next
        case (Some rs)
        obtain r s' where rs: "rs = (r, s')" by (cases rs)
        show ?thesis
        proof (cases r)
          case None
          with eq Some rs have "lu round s' = Some xt" by simp
          moreover from \<open>I s\<close> Some rs None have "I s'" by (auto intro: round)
          ultimately show ?thesis using IH by blast
        next
          case (Some y)
          with eq \<open>round s = Some rs\<close> rs \<open>I s\<close> show ?thesis by (auto intro: exit)
        qed
      qed
    qed
  qed
  from main [OF ret] \<open>I s\<close> show ?thesis by simp
qed

text \<open>Total correctness: with a measure that every round that goes on decreases.\<close>

lemma loop_until_total:
  fixes m :: "'s \<Rightarrow> nat"
  assumes "I s"
    and step: "\<And>s. I s \<Longrightarrow> (\<exists>x t. round s = Some (Some x, t) \<and> Q x t) \<or>
                         (\<exists>t. round s = Some (None, t) \<and> I t \<and> m t < m s)"
  shows "\<exists>x t. loop_until round s = Some (x, t) \<and> Q x t"
  using \<open>I s\<close>
proof (induction "m s" arbitrary: s rule: less_induct)
  case less
  from step [OF less.prems] show ?case
  proof
    assume "\<exists>x t. round s = Some (Some x, t) \<and> Q x t"
    then show ?case by (auto intro: loop_until_exit)
  next
    assume "\<exists>t. round s = Some (None, t) \<and> I t \<and> m t < m s"
    then obtain t where t: "round s = Some (None, t)" "I t" "m t < m s" by blast
    from less.hyps [OF t(3) t(2)] show ?case by (simp add: loop_until_next [where round = round, OF t(1)])
  qed
qed

text \<open>A search through numbered places: it exits at the first hit, or after the last place.\<close>

lemma loop_until_search:
  assumes "I k x" and "k < N"
    and step: "\<And>k x. I k x \<Longrightarrow> k < N \<Longrightarrow> \<exists>x'.
      if hit k then round x = Some (Some True, x') \<and> J k x'
      else if Suc k < N then round x = Some (None, x') \<and> I (Suc k) x'
      else round x = Some (Some False, x') \<and> K x'"
  shows "(\<exists>j x'. k \<le> j \<and> j < N \<and> hit j \<and> (\<forall>i. k \<le> i \<and> i < j \<longrightarrow> \<not> hit i) \<and> loop_until round x = Some (True, x') \<and> J j x') \<or>
    (\<forall>i. k \<le> i \<and> i < N \<longrightarrow> \<not> hit i) \<and> (\<exists>x'. loop_until round x = Some (False, x') \<and> K x')"
  using assms(1,2)
proof (induction "N - k" arbitrary: k x)
  case (Suc n)
  show ?case
  proof (cases "hit k")
    case True
    with step [OF Suc.prems] obtain x' where "round x = Some (Some True, x')" "J k x'" by auto
    with True Suc.prems(2) show ?thesis by (intro disjI1 exI [of _ k] exI [of _ x']) (auto intro: loop_until_exit)
  next
    case no: False
    show ?thesis
    proof (cases "Suc k < N")
      case True
      with no step [OF Suc.prems] obtain x' where x': "round x = Some (None, x')" "I (Suc k) x'" by auto
      have "n = N - Suc k" using Suc.hyps(2) by simp
      note loop_until_next [where round = round, OF x'(1)]
      moreover have less: "k \<le> i \<longleftrightarrow> i = k \<or> Suc k \<le> i" for i by auto
      ultimately show ?thesis using Suc.hyps(1) [OF \<open>n = N - Suc k\<close> x'(2) True] no unfolding less by auto
    next
      case False
      with no step [OF Suc.prems] obtain x' where "round x = Some (Some False, x')" "K x'" by auto
      moreover have "i = k" if "k \<le> i" "i < N" for i using False that by simp
      ultimately show ?thesis using no by (auto intro: loop_until_exit)
    qed
  qed
qed simp

section \<open>Words\<close>

lemma of_nat_word_eq:
  "a < 2 ^ LENGTH('a::len) \<Longrightarrow> b < 2 ^ LENGTH('a) \<Longrightarrow> (of_nat a :: 'a word) = of_nat b \<longleftrightarrow> a = b"
  by (simp add: word_of_nat_eq_iff take_bit_nat_eq_self)

lemma unat_of_nat_word: "a < 2 ^ LENGTH('a::len) \<Longrightarrow> unat (of_nat a :: 'a word) = a"
  by (simp add: unat_of_nat take_bit_nat_eq_self)

text \<open>The bytes of a value.\<close>

lemma unat_and_byte_u32: "unat (c AND (0xFF :: u32)) = unat c mod 256"
proof -
  have "c AND 0xFF = take_bit 8 c" by (simp add: take_bit_eq_mask mask_eq_exp_minus_1)
  then show ?thesis by (simp only: unsigned_take_bit_eq) (simp add: take_bit_eq_mod)
qed

lemma unat_and_byte_u16: "unat (c AND (0xFF :: u16)) = unat c mod 256"
proof -
  have "c AND 0xFF = take_bit 8 c" by (simp add: take_bit_eq_mask mask_eq_exp_minus_1)
  then show ?thesis by (simp only: unsigned_take_bit_eq) (simp add: take_bit_eq_mod)
qed

lemma unat_high_byte_u16: "unat (drop_bit 8 (c :: u16)) = unat c div 256"
  by (simp add: unsigned_drop_bit_eq drop_bit_eq_div unat_div)

lemma u16_less: "unat (c :: u16) < 65536"
proof -
  have "unat c < 2 ^ LENGTH(16)" by (rule unsigned_less)
  then show ?thesis by simp
qed

lemma u8_less: "unat (c :: u8) < 256"
proof -
  have "unat c < 2 ^ LENGTH(8)" by (rule unsigned_less)
  then show ?thesis by simp
qed

lemma unat_u16_to_u32 [simp]: "unat (ucast (c :: u16) :: u32) = unat c"
  using u16_less [of c] by (simp add: unsigned_ucast_eq take_bit_eq_mod)

lemma unat_u8_to_u32 [simp]: "unat (ucast (c :: u8) :: u32) = unat c"
  using u8_less [of c] by (simp add: unsigned_ucast_eq take_bit_eq_mod)

lemma unat_u32_to_u64 [simp]: "unat (ucast (c :: u32) :: u64) = unat c"
proof -
  have "unat c < 2 ^ 32" using unsigned_less [of c] by simp
  then show ?thesis by (simp add: unsigned_ucast_eq take_bit_nat_eq_self)
qed

end
