(* ===== verification/Eth_Buffer.thy ===== *)
theory Eth_Buffer
  imports C_Prelude
begin

text \<open>
  The packet buffers of the two Ethernet controllers (\<^verbatim>\<open>ethlib/eth_patmos_io.c\<close>): the
  word and byte accessors, the interface \<^verbatim>\<open>byte_store\<close> that every protocol layer uses
  them through (a byte written is read back, no other byte changes), and the lemmas about
  loops that fill or copy a range of bytes, proved once inside that interface.

  The C code addresses the buffer by byte offset and reaches the word with
  \<^verbatim>\<open>*(BUFF_BASE + (addr >> 2))\<close>. Pointer arithmetic scales the index by four inside a
  32-bit address space, so only the low 30 bits of \<^verbatim>\<open>addr >> 2\<close> select the word: the buffer
  is a function on 30-bit indices.
\<close>

section \<open>Accessors\<close>

type_synonym buffer = "30 word \<Rightarrow> u32"

definition word_slot :: "u32 \<Rightarrow> 30 word" where
  "word_slot addr = ucast (drop_bit 2 addr)"

definition word_slot_int :: "u32 \<Rightarrow> 30 word" where
  "word_slot_int addr = ucast (signed_drop_bit 2 addr)"

definition mem_iowr :: "u32 \<Rightarrow> u32 \<Rightarrow> buffer \<Rightarrow> buffer" where
  "mem_iowr addr data b = b(word_slot addr := data)"

definition mem_iowr_byte :: "u32 \<Rightarrow> u32 \<Rightarrow> buffer \<Rightarrow> buffer" where
  "mem_iowr_byte addr data b =
     (let previous_data = b (word_slot addr);
          shift_factor = 24 - 8 * (addr AND 0x03);
          mask = NOT (push_bit (unat shift_factor) 0x000000FF);
          data = push_bit (unat shift_factor) (0x000000FF AND data);
          data = (previous_data AND mask) + data
      in b(word_slot addr := data))"

definition mem_iord :: "buffer \<Rightarrow> u32 \<Rightarrow> u32" where
  "mem_iord b addr = b (word_slot_int addr)"

definition mem_iord_byte :: "buffer \<Rightarrow> u32 \<Rightarrow> u32" where
  "mem_iord_byte b addr =
     (let full_data = b (word_slot addr);
          shift_factor = 24 - 8 * (addr AND 0x03);
          mask = push_bit (unat shift_factor) 0x000000FF
      in drop_bit (unat shift_factor) (full_data AND mask))"

text \<open>The accessors of the second controller, on its own buffer.\<close>

definition mem_iowr1 :: "u32 \<Rightarrow> u32 \<Rightarrow> buffer \<Rightarrow> buffer" where
  "mem_iowr1 addr data b = b(word_slot addr := data)"

definition mem_iowr1_byte :: "u32 \<Rightarrow> u32 \<Rightarrow> buffer \<Rightarrow> buffer" where
  "mem_iowr1_byte addr data b =
     (let previous_data = b (word_slot addr);
          shift_factor = 24 - 8 * (addr AND 0x03);
          mask = NOT (push_bit (unat shift_factor) 0x000000FF);
          data = push_bit (unat shift_factor) (0x000000FF AND data);
          data = (previous_data AND mask) + data
      in b(word_slot addr := data))"

definition mem_iord1 :: "buffer \<Rightarrow> u32 \<Rightarrow> u32" where
  "mem_iord1 b addr = b (word_slot_int addr)"

definition mem_iord_byte1 :: "buffer \<Rightarrow> u32 \<Rightarrow> u32" where
  "mem_iord_byte1 b addr =
     (let full_data = b (word_slot addr);
          shift_factor = 24 - 8 * (addr AND 0x03);
          mask = push_bit (unat shift_factor) 0x000000FF
      in drop_bit (unat shift_factor) (full_data AND mask))"

section \<open>Bytes inside words\<close>

lemma low_bits_cases:
  fixes a :: u32
  obtains "a AND 3 = 0" | "a AND 3 = 1" | "a AND 3 = 2" | "a AND 3 = 3"
proof -
  have "a AND 3 = take_bit 2 a" by (simp add: take_bit_eq_mask mask_eq_exp_minus_1)
  then have "unat (a AND 3) = take_bit 2 (unat a)" by (simp only: unsigned_take_bit_eq)
  then have "unat (a AND 3) < 4" by (simp add: take_bit_eq_mod)
  then have "unat (a AND 3) \<in> {0,1,2,3}" by auto
  then show ?thesis using that by (auto simp: word_unat_eq_iff)
qed

lemma slot_and_low_bits_eq:
  fixes a a' :: u32
  assumes slot: "word_slot a = word_slot a'"
    and low: "a AND 3 = a' AND 3"
  shows "a = a'"
proof (rule bit_word_eqI)
  fix n assume n: "n < LENGTH(32)"
  show "bit a n = bit a' n"
  proof (cases "n < 2")
    case True
    from low have "bit (a AND 3) n = bit (a' AND 3) n" by simp
    with True show ?thesis
      by (auto simp: bit_simps less_2_cases_iff)
  next
    case False
    then obtain m where m: "n = m + 2" by (metis add.commute le_Suc_ex not_less)
    from slot have "bit (word_slot a) m = bit (word_slot a') m" by simp
    with n m show ?thesis by (simp add: word_slot_def bit_simps)
  qed
qed

lemma byte_mask: "(0xFF :: u32) = mask 8"
  by (simp add: mask_eq_exp_minus_1)

lemma insert_byte_disjoint:
  fixes w d :: u32
  shows "(w AND NOT (push_bit k 0xFF)) + push_bit k (0xFF AND d)
       = (w AND NOT (push_bit k 0xFF)) OR push_bit k (0xFF AND d)"
  by (rule disjunctive_add) (simp add: bit_simps)

lemma extract_inserted_byte:
  fixes w d :: u32
  assumes "k \<in> {0, 8, 16, 24}" and "l \<in> {0, 8, 16, 24}"
  shows "drop_bit l (((w AND NOT (push_bit k 0xFF)) + push_bit k (0xFF AND d)) AND push_bit l 0xFF)
       = (if k = l then d AND 0xFF else drop_bit l (w AND push_bit l 0xFF))"
  unfolding insert_byte_disjoint
  unfolding byte_mask
  by (rule bit_word_eqI) (use assms in \<open>auto simp: bit_simps\<close>)

lemma shift_factor_cases:
  fixes a :: u32
  shows "unat (24 - 8 * (a AND 0x03)) \<in> {0, 8, 16, 24}"
  by (rule low_bits_cases [of a]) simp_all

lemma shift_factor_inj:
  fixes a a' :: u32
  shows "unat (24 - 8 * (a AND 0x03)) = unat (24 - 8 * (a' AND 0x03)) \<longleftrightarrow> a AND 3 = a' AND 3"
  by (rule low_bits_cases [of a]; rule low_bits_cases [of a']) simp_all

lemma mem_iord_byte_after_iowr_byte:
  "mem_iord_byte (mem_iowr_byte a v b) a' = (if a = a' then v AND 0xFF else mem_iord_byte b a')"
proof (cases "word_slot a = word_slot a'")
  case True
  then have eq: "a = a' \<longleftrightarrow> unat (24 - 8 * (a AND 0x03)) = unat (24 - 8 * (a' AND 0x03))"
    using slot_and_low_bits_eq shift_factor_inj by blast
  show ?thesis
    by (simp only: mem_iord_byte_def mem_iowr_byte_def Let_def fun_upd_same True eq
        extract_inserted_byte [OF shift_factor_cases shift_factor_cases])
next
  case False
  then show ?thesis
    by (auto simp: mem_iord_byte_def mem_iowr_byte_def Let_def)
qed

lemma mem_iord_byte_mask: "mem_iord_byte b a AND 0xFF = mem_iord_byte b a"
  unfolding mem_iord_byte_def Let_def byte_mask
  by (rule bit_word_eqI) (use shift_factor_cases [of a] in \<open>auto simp: bit_simps\<close>)

text \<open>The signed shift of \<^verbatim>\<open>mem_iord(int addr)\<close> selects the same word.\<close>

lemma signed_slot: "word_slot_int a = word_slot a"
  unfolding word_slot_int_def word_slot_def by (rule bit_word_eqI) (simp add: bit_simps)

lemma mem_iord_slot: "mem_iord b a = b (word_slot a)"
  by (simp add: mem_iord_def signed_slot)

lemma mem_iowr_same: "mem_iord (mem_iowr a v b) a = v"
  by (simp add: mem_iord_slot mem_iowr_def)

text \<open>A word written, seen as bytes: the most significant byte has the lowest address.\<close>

lemma mem_iord_byte_after_iowr:
  "mem_iord_byte (mem_iowr a v b) a' =
     (if word_slot a = word_slot a'
      then drop_bit (unat (24 - 8 * (a' AND 3))) v AND 0xFF
      else mem_iord_byte b a')"
proof -
  have "drop_bit k (v AND push_bit k 0xFF) = drop_bit k v AND 0xFF" if "k \<in> {0, 8, 16, 24}" for k
    unfolding byte_mask by (rule bit_word_eqI) (use that in \<open>auto simp: bit_simps\<close>)
  from this [OF shift_factor_cases [of a']] show ?thesis
    by (simp only: mem_iord_byte_def mem_iowr_def Let_def fun_upd_apply) simp
qed

text \<open>Packets start at word-aligned addresses; offsets then add up slot by slot.\<close>

definition aligned :: "u32 \<Rightarrow> bool" where
  "aligned p \<longleftrightarrow> p AND 3 = 0"

lemma unat_low_bits: "unat (a AND (3 :: u32)) = unat a mod 4"
proof -
  have "a AND 3 = take_bit 2 a" by (simp add: take_bit_eq_mask mask_eq_exp_minus_1)
  then have "unat (a AND 3) = take_bit 2 (unat a)" by (simp only: unsigned_take_bit_eq)
  then show ?thesis by (simp add: take_bit_eq_mod)
qed

lemma aligned_unat: "aligned p \<longleftrightarrow> unat p mod 4 = 0"
  by (simp add: aligned_def unsigned_eq_0_iff flip: unat_low_bits)

lemma aligned_add_low:
  assumes "aligned p" shows "(p + y) AND 3 = y AND 3"
proof -
  have "unat ((p + y) AND 3) = (unat p + unat y) mod 2 ^ 32 mod 4"
    by (simp add: unat_low_bits unat_word_ariths)
  also have "\<dots> = (unat p mod 4 + unat y) mod 4"
    by (simp add: mod_mod_cancel mod_simps)
  also have "\<dots> = unat (y AND 3)"
    using assms by (simp add: aligned_unat unat_low_bits)
  finally show ?thesis by (simp add: word_unat_eq_iff)
qed

lemma unat_word_slot: "unat (word_slot a) = unat a div 4"
proof -
  have "unat a < 2 ^ 32" using unsigned_less [of a] by simp
  then have "unat a div 4 < 2 ^ 30" by simp
  then show ?thesis
    by (simp add: word_slot_def unsigned_ucast_eq unsigned_drop_bit_eq take_bit_eq_mod
        drop_bit_eq_div unat_div)
qed

lemma aligned_add_slot:
  assumes "aligned p" shows "word_slot (p + y) = word_slot p + word_slot y"
proof -
  obtain k where k: "unat p = 4 * k"
    using assms by (auto simp: aligned_unat)
  have "unat (word_slot (p + y)) = (4 * k + unat y) mod (4 * 2 ^ 30) div 4"
    by (simp add: unat_word_slot unat_word_ariths k)
  also have "\<dots> = (k + unat y div 4) mod 2 ^ 30"
    by (simp only: mod_mult2_eq) simp
  also have "\<dots> = unat (word_slot p + word_slot y)"
    by (simp add: unat_word_slot unat_word_ariths k)
  finally show ?thesis by (simp add: word_unat_eq_iff)
qed

section \<open>The byte interface\<close>

text \<open>
  What the protocol layers rely on: a byte that is written is read back (its low eight
  bits), every other byte keeps its value, and a read returns a byte. The loops of the C
  code that fill or copy a range are analysed here once, for any provider.
\<close>

locale byte_store =
  fixes rd :: "'m \<Rightarrow> u32 \<Rightarrow> u32"
    and wr :: "u32 \<Rightarrow> u32 \<Rightarrow> 'm \<Rightarrow> 'm"
  assumes rd_wr: "rd (wr a v m) a' = (if a = a' then v AND 0xFF else rd m a')"
    and rd_byte: "rd m a AND 0xFF = rd m a"
begin

lemma rd_wr_same: "rd (wr a v m) a = v AND 0xFF"
  by (simp add: rd_wr)

lemma rd_wr_other: "a \<noteq> a' \<Longrightarrow> rd (wr a v m) a' = rd m a'"
  by (simp add: rd_wr)

lemma rd_of_byte: "rd m a = ucast (ucast (rd m a) :: u8)"
proof -
  have "ucast (ucast (rd m a) :: u8) = rd m a AND 0xFF"
    unfolding byte_mask by (rule bit_word_eqI) (auto simp: bit_simps)
  then show ?thesis by (simp add: rd_byte)
qed

text \<open>A loop that writes \<open>n\<close> consecutive bytes, outside the range and at index \<open>j\<close>.\<close>

lemma fill_outside:
  assumes "\<And>i. i < n \<Longrightarrow> x \<noteq> t + of_nat i"
  shows "rd (for_loop 0 n (\<lambda>i. wr (t + of_nat i) (f i)) m) x = rd m x"
  using assms
proof (induction n)
  case 0
  then show ?case by (simp add: loop_simps)
next
  case (Suc n)
  have "t + of_nat n \<noteq> x" using Suc.prems [of n] by auto
  with Suc show ?case by (simp add: for_loop_Suc rd_wr)
qed

lemma fill_inside:
  assumes "j < n" and "n \<le> 2 ^ 32"
  shows "rd (for_loop 0 n (\<lambda>i. wr (t + of_nat i) (f i)) m) (t + of_nat j) = f j AND 0xFF"
  using assms
proof (induction n)
  case 0
  then show ?case by simp
next
  case (Suc n)
  show ?case
  proof (cases "j = n")
    case True
    then show ?thesis by (simp add: for_loop_Suc rd_wr)
  next
    case False
    with Suc.prems have "j < n" and lt: "j < 2 ^ 32" "n < 2 ^ 32" by auto
    have "(of_nat n :: u32) \<noteq> of_nat j"
      using lt False by (simp add: of_nat_word_eq)
    with Suc \<open>j < n\<close> show ?thesis by (simp add: for_loop_Suc rd_wr)
  qed
qed

text \<open>
  A loop that moves \<open>n\<close> bytes from offset \<open>r\<close> to offset \<open>d\<close> of a packet and puts new ones in
  their place, one at a time.
\<close>

lemma move_loop:
  assumes "d + n \<le> r \<or> r + n \<le> d" and "d + n \<le> 2 ^ 32" and "r + n \<le> 2 ^ 32" and "j < 2 ^ 32"
  shows "rd (for_loop 0 n (\<lambda>i m. wr (t + of_nat r + of_nat i) (f i)
              (wr (t + of_nat d + of_nat i) (rd m (t + of_nat r + of_nat i)) m)) m) (t + of_nat j) =
    (if d \<le> j \<and> j < d + n then rd m (t + of_nat (r + (j - d)))
     else if r \<le> j \<and> j < r + n then f (j - r) AND 0xFF
     else rd m (t + of_nat j))"
  using assms
proof (induction n arbitrary: j)
  case 0
  then show ?case by (auto simp: for_loop_zero)
next
  case (Suc n)
  let ?m = "for_loop 0 n (\<lambda>i m. wr (t + of_nat r + of_nat i) (f i)
              (wr (t + of_nat d + of_nat i) (rd m (t + of_nat r + of_nat i)) m)) m"
  have eq: "t + of_nat a + of_nat b = t + of_nat c \<longleftrightarrow> a + b = c"
    if "a + b < 2 ^ 32" "c < 2 ^ 32" for a b c
  proof -
    have "t + of_nat a + of_nat b = t + of_nat c \<longleftrightarrow> (of_nat (a + b) :: u32) = of_nat c"
      by (simp add: add.assoc)
    also have "\<dots> \<longleftrightarrow> a + b = c" by (rule of_nat_word_eq) (use that in simp_all)
    finally show ?thesis .
  qed
  have last: "rd ?m (t + of_nat r + of_nat n) = rd m (t + of_nat (r + n))"
    using Suc.IH [of "r + n"] Suc.prems by (auto simp: add.assoc)
  have "rd ?m (t + of_nat j) = (if d \<le> j \<and> j < d + n then rd m (t + of_nat (r + (j - d)))
     else if r \<le> j \<and> j < r + n then f (j - r) AND 0xFF else rd m (t + of_nat j))"
    by (rule Suc.IH) (use Suc.prems in auto)
  moreover have "r + n = j \<or> r + n \<noteq> j" "d + n = j \<or> d + n \<noteq> j" by auto
  ultimately show ?case
    using Suc.prems by (auto simp: for_loop_Suc rd_wr eq last rd_byte)
qed

text \<open>
  A loop that copies \<open>n\<close> bytes from \<open>r\<close> to \<open>t\<close>, one at a time and in order. When no byte of
  the source is overwritten before it is read, the target receives the original source.
\<close>

lemma copy_outside:
  assumes "\<And>i. i < n \<Longrightarrow> x \<noteq> t + of_nat i"
  shows "rd (for_loop 0 n (\<lambda>i m. wr (t + of_nat i) (rd m (r + of_nat i)) m) m) x = rd m x"
  using assms
proof (induction n)
  case 0
  then show ?case by (simp add: loop_simps)
next
  case (Suc n)
  have "t + of_nat n \<noteq> x" using Suc.prems [of n] by auto
  with Suc show ?case by (simp add: for_loop_Suc rd_wr)
qed

lemma copy_inside:
  assumes "j < n" and "n \<le> 2 ^ 32"
    and disj: "\<And>i k. i < k \<Longrightarrow> k < n \<Longrightarrow> t + of_nat i \<noteq> r + of_nat k"
  shows "rd (for_loop 0 n (\<lambda>i m. wr (t + of_nat i) (rd m (r + of_nat i)) m) m) (t + of_nat j)
       = rd m (r + of_nat j)"
  using assms
proof (induction n)
  case 0
  then show ?case by simp
next
  case (Suc n)
  let ?m = "for_loop 0 n (\<lambda>i m. wr (t + of_nat i) (rd m (r + of_nat i)) m) m"
  have last: "rd ?m (r + of_nat n) = rd m (r + of_nat n)"
    by (rule copy_outside) (use Suc.prems(3) in \<open>metis lessI\<close>)
  show ?case
  proof (cases "j = n")
    case True
    then show ?thesis by (simp add: for_loop_Suc rd_wr last rd_byte)
  next
    case False
    with Suc.prems have "j < n" and "n \<le> 2 ^ 32" by auto
    moreover have "rd ?m (t + of_nat j) = rd m (r + of_nat j)"
      using Suc.IH [OF \<open>j < n\<close> \<open>n \<le> 2 ^ 32\<close>] Suc.prems(3) by (metis less_SucI)
    moreover have "(of_nat n :: u32) \<noteq> of_nat j"
      using Suc.prems False by (simp add: of_nat_word_eq)
    ultimately show ?thesis by (simp add: for_loop_Suc rd_wr)
  qed
qed

end

interpretation buf: byte_store mem_iord_byte mem_iowr_byte
  by unfold_locales (rule mem_iord_byte_after_iowr_byte, rule mem_iord_byte_mask)

lemma second_controller_same:
  "mem_iowr1_byte = mem_iowr_byte" "mem_iord_byte1 = mem_iord_byte"
  by (simp_all add: fun_eq_iff mem_iowr1_byte_def mem_iowr_byte_def mem_iord_byte1_def
      mem_iord_byte_def)

interpretation buf1: byte_store mem_iord_byte1 mem_iowr1_byte
  unfolding second_controller_same by (rule buf.byte_store_axioms)

lemmas buf_rd_wr [mem_simps] = buf.rd_wr

text \<open>
  Reads of bytes after word writes at offsets of an aligned packet address. With numerals
  for the offsets both sides evaluate, which decides where each field of a header lies.
\<close>

lemma byte_after_word [mem_simps]:
  assumes "aligned p"
  shows "mem_iord_byte (mem_iowr (p + y) v b) (p + z) =
      (if word_slot y = word_slot z then drop_bit (unat (24 - 8 * (z AND 3))) v AND 0xFF
       else mem_iord_byte b (p + z))"
    and "mem_iord_byte (mem_iowr p v b) (p + z) =
      (if word_slot z = 0 then drop_bit (unat (24 - 8 * (z AND 3))) v AND 0xFF
       else mem_iord_byte b (p + z))"
    and "mem_iord_byte (mem_iowr (p + y) v b) p =
      (if word_slot y = 0 then drop_bit 24 v AND 0xFF else mem_iord_byte b p)"
    and "mem_iord_byte (mem_iowr p v b) p = drop_bit 24 v AND 0xFF"
  using assms aligned_add_low [OF assms, of z] aligned_add_slot [OF assms, of y]
    aligned_add_slot [OF assms, of z]
  by (auto simp: mem_iord_byte_after_iowr aligned_def)

lemma slot_numeral [mem_simps]:
  "word_slot (numeral k) = ucast (drop_bit 2 (numeral k :: u32))" "word_slot 1 = 0" "word_slot 0 = 0"
  by (simp_all add: word_slot_def)

section \<open>Frames as byte sequences\<close>

text \<open>Byte \<open>j\<close> of the frame that starts at \<open>t\<close>.\<close>

definition frame_byte :: "buffer \<Rightarrow> u32 \<Rightarrow> nat \<Rightarrow> u32" where
  "frame_byte m t j = mem_iord_byte m (t + of_nat j)"

text \<open>Two buffer areas of \<open>n\<close> bytes with no byte in common.\<close>

definition disjoint_areas :: "nat \<Rightarrow> u32 \<Rightarrow> u32 \<Rightarrow> bool" where
  "disjoint_areas n a b \<longleftrightarrow> (\<forall>i<n. \<forall>k<n. a + of_nat i \<noteq> b + of_nat k)"

lemma frame_byte_numeral:
  "mem_iord_byte m (t + numeral k) = frame_byte m t (numeral k)"
  "mem_iord_byte m (t + 1) = frame_byte m t 1" "mem_iord_byte m t = frame_byte m t 0"
  by (simp_all add: frame_byte_def)

lemma frame_byte_write:
  assumes "d < 2 ^ 32" and "j < 2 ^ 32"
  shows "frame_byte (mem_iowr_byte (t + of_nat d) v m) t j = (if j = d then v AND 0xFF else frame_byte m t j)"
  using of_nat_word_eq [of d j, where 'a = 32] assms by (auto simp: frame_byte_def buf.rd_wr)

lemma frame_byte_write_at:
  assumes "d + i < 2 ^ 32" and "j < 2 ^ 32"
  shows "frame_byte (mem_iowr_byte (t + of_nat d + of_nat i) v m) t j =
    (if j = d + i then v AND 0xFF else frame_byte m t j)"
  using frame_byte_write [OF assms] by (simp add: add.assoc)

lemma frame_byte_write_numeral_at [mem_simps]:
  assumes "j < 2 ^ 32"
  shows "numeral d + i < (2 ^ 32 :: nat) \<Longrightarrow>
      frame_byte (mem_iowr_byte (t + numeral d + of_nat i) v m) t j =
        (if j = numeral d + i then v AND 0xFF else frame_byte m t j)"
    and "i < 2 ^ 32 \<Longrightarrow> frame_byte (mem_iowr_byte (t + of_nat i) v m) t j =
        (if j = i then v AND 0xFF else frame_byte m t j)"
  using frame_byte_write_at [of "numeral d" i j t v m] frame_byte_write [of i j t v m] assms by simp_all

lemma frame_byte_write_numeral [mem_simps]:
  assumes "j < 2 ^ 32"
  shows "(numeral d :: nat) < 2 ^ 32 \<Longrightarrow> frame_byte (mem_iowr_byte (t + numeral d) v m) t j =
      (if j = numeral d then v AND 0xFF else frame_byte m t j)"
    and "frame_byte (mem_iowr_byte (t + 1) v m) t j = (if j = 1 then v AND 0xFF else frame_byte m t j)"
    and "frame_byte (mem_iowr_byte t v m) t j = (if j = 0 then v AND 0xFF else frame_byte m t j)"
  using frame_byte_write [of "numeral d" j t v m] frame_byte_write [of 1 j t v m]
    frame_byte_write [of 0 j t v m] assms
  by simp_all

lemma frame_byte_move:
  assumes "d + n \<le> r \<or> r + n \<le> d" and "d + n \<le> 2 ^ 32" and "r + n \<le> 2 ^ 32" and "j < 2 ^ 32"
  shows "frame_byte (for_loop 0 n (\<lambda>i m. mem_iowr_byte (t + of_nat r + of_nat i) (f i)
          (mem_iowr_byte (t + of_nat d + of_nat i) (mem_iord_byte m (t + of_nat r + of_nat i)) m)) m) t j =
    (if d \<le> j \<and> j < d + n then frame_byte m t (r + (j - d))
     else if r \<le> j \<and> j < r + n then f (j - r) AND 0xFF
     else frame_byte m t j)"
  unfolding frame_byte_def by (rule buf.move_loop [OF assms])

lemma frame_byte_copy:
  assumes "rx = tx \<or> disjoint_areas n tx rx" and "j < n" and "n \<le> 2 ^ 32"
  shows "frame_byte (if rx \<noteq> tx
               then for_loop 0 n (\<lambda>i m. mem_iowr_byte (tx + of_nat i) (mem_iord_byte m (rx + of_nat i)) m) m
               else m) tx j = frame_byte m rx j"
  using assms by (auto intro!: buf.copy_inside simp: disjoint_areas_def frame_byte_def)

text \<open>A word write at a multiple of four inside an aligned frame.\<close>

lemma unat_shift_factor: "unat (24 - 8 * ((of_nat j :: u32) AND 3)) = 24 - 8 * (unat (of_nat j :: u32) mod 4)"
proof -
  have "unat (24 - 8 * ((a :: u32) AND 3)) = 24 - 8 * unat (a AND 3)" for a
    by (rule low_bits_cases [of a]) simp_all
  then show ?thesis by (simp only: unat_low_bits)
qed

lemma same_slot: "d mod 4 = (0 :: nat) \<Longrightarrow> d div 4 = j div 4 \<longleftrightarrow> d \<le> j \<and> j < d + 4"
proof -
  assume "d mod 4 = 0"
  then obtain k where "d = 4 * k" by auto
  then show ?thesis by auto
qed

lemma place_in_slot:
  assumes "d mod 4 = (0 :: nat)" "d \<le> j" "j < d + 4" shows "j mod 4 = j - d"
proof -
  obtain k where k: "d = 4 * k" using assms by auto
  obtain i where "j = d + i" using assms(2) le_Suc_ex by blast
  with k assms show ?thesis by simp
qed

lemma frame_byte_word:
  assumes "aligned t" and "d mod 4 = 0" and "d < 2 ^ 32" and "j < 2 ^ 32"
  shows "frame_byte (mem_iowr (t + of_nat d) v m) t j =
    (if d \<le> j \<and> j < d + 4 then drop_bit (24 - 8 * (j - d)) v AND 0xFF else frame_byte m t j)"
proof -
  have u: "unat (of_nat k :: u32) = k" if "k < 2 ^ 32" for k
    using that by (simp add: unat_of_nat_word)
  have "word_slot (of_nat d) = word_slot (of_nat j) \<longleftrightarrow> d div 4 = j div 4"
    by (simp only: word_unat_eq_iff unat_word_slot u [OF assms(3)] u [OF assms(4)])
  also have "\<dots> \<longleftrightarrow> d \<le> j \<and> j < d + 4" using assms(2) by (rule same_slot)
  finally have slot: "word_slot (of_nat d) = word_slot (of_nat j) \<longleftrightarrow> d \<le> j \<and> j < d + 4" .
  note low = place_in_slot [OF assms(2)]
  have "frame_byte (mem_iowr (t + of_nat d) v m) t j =
    (if d \<le> j \<and> j < d + 4 then drop_bit (24 - 8 * (j mod 4)) v AND 0xFF else frame_byte m t j)"
    by (simp only: frame_byte_def byte_after_word(1) [OF assms(1)] slot unat_shift_factor
        u [OF assms(4)])
  then show ?thesis using low [of j] by (auto split: if_splits)
qed

lemma frame_byte_word_numeral [mem_simps]:
  assumes "aligned t" and "j < 2 ^ 32"
  shows "(numeral d :: nat) < 2 ^ 32 \<Longrightarrow> numeral d mod 4 = (0 :: nat) \<Longrightarrow>
      frame_byte (mem_iowr (t + numeral d) v m) t j =
      (if numeral d \<le> j \<and> j < numeral d + 4 then drop_bit (24 - 8 * (j - numeral d)) v AND 0xFF
       else frame_byte m t j)"
    and "frame_byte (mem_iowr t v m) t j =
      (if j < 4 then drop_bit (24 - 8 * j) v AND 0xFF else frame_byte m t j)"
  using frame_byte_word [of t "numeral d" j v m] frame_byte_word [of t 0 j v m] assms by simp_all

text \<open>A loop that writes consecutive bytes from offset \<open>d\<close>.\<close>

lemma frame_byte_fill:
  assumes "d + n \<le> 2 ^ 32" and "j < 2 ^ 32"
  shows "frame_byte (for_loop 0 n (\<lambda>i. mem_iowr_byte (t + of_nat d + of_nat i) (f i)) m) t j =
    (if d \<le> j \<and> j < d + n then f (j - d) AND 0xFF else frame_byte m t j)"
  using assms(1)
proof (induction n)
  case 0
  then show ?case by (auto simp: for_loop_zero)
next
  case (Suc n)
  have "frame_byte (mem_iowr_byte (t + of_nat (d + n)) v m') t j =
      (if j = d + n then v AND 0xFF else frame_byte m' t j)" for v m'
    by (rule frame_byte_write) (use Suc.prems assms(2) in auto)
  then show ?case
    using Suc by (auto simp: for_loop_Suc add.assoc)
qed

lemma ucast_u8_byte [simp]: "(ucast (c :: u8) :: u32) AND 0xFF = ucast c"
proof -
  have "ucast c AND mask 8 = (ucast c :: u32)"
    by (rule bit_word_eqI) (auto simp: bit_simps dest: bit_imp_le_length)
  then show ?thesis by (simp add: byte_mask)
qed

text \<open>A word of an aligned frame, from its four bytes.\<close>

lemma split_32:
  assumes "(n :: nat) < 4294967296"
  shows "n = 16777216 * (n div 16777216 mod 256) + 65536 * (n div 65536 mod 256) + 256 * (n div 256 mod 256) + n mod 256"
proof -
  have a: "n = 256 * (n div 256) + n mod 256" by simp
  have b: "n div 256 = 256 * (n div 65536) + n div 256 mod 256"
    using div_mult2_eq [of n 256 256] by simp
  have c: "n div 65536 = 256 * (n div 16777216) + n div 65536 mod 256"
    using div_mult2_eq [of n 65536 256] by simp
  have d: "n div 16777216 = n div 16777216 mod 256" using assms by simp
  show ?thesis using a b c d by linarith
qed

lemma frame_word:
  assumes "aligned t" and "d mod 4 = 0" and "d + 3 < 2 ^ 32"
  shows "unat (mem_iord m (t + of_nat d)) = 16777216 * unat (frame_byte m t d) +
    65536 * unat (frame_byte m t (d + 1)) + 256 * unat (frame_byte m t (d + 2)) + unat (frame_byte m t (d + 3))"
proof -
  let ?w = "mem_iord m (t + of_nat d)"
  have same: "mem_iowr (t + of_nat d) ?w m = m" by (simp add: mem_iowr_def mem_iord_slot)
  have "unat ?w < 2 ^ LENGTH(32)" by (rule unsigned_less)
  then have lt: "unat ?w < 4294967296" by simp
  then have tb: "take_bit 32 (unat ?w) = unat ?w" by (simp add: take_bit_nat_eq_self)
  have byte: "unat (frame_byte m t (d + k)) = unat ?w div 2 ^ (24 - 8 * k) mod 256" if "k < 4" for k
  proof -
    have "frame_byte m t (d + k) = frame_byte (mem_iowr (t + of_nat d) ?w m) t (d + k)" by (simp add: same)
    also have "\<dots> = drop_bit (24 - 8 * k) ?w AND 0xFF"
      using frame_byte_word [OF assms(1,2), of "d + k"] assms(3) that by simp
    finally show ?thesis
      by (simp only: unat_and_byte_u32 unsigned_drop_bit_eq) (simp add: drop_bit_eq_div tb)
  qed
  have "unat (frame_byte m t d) = unat ?w div 16777216 mod 256"
    "unat (frame_byte m t (d + 1)) = unat ?w div 65536 mod 256"
    "unat (frame_byte m t (d + 2)) = unat ?w div 256 mod 256"
    "unat (frame_byte m t (d + 3)) = unat ?w mod 256"
    using byte [of 0] byte [of 1] byte [of 2] byte [of 3] by simp_all
  then show ?thesis by (simp only: split_32 [OF lt, symmetric])
qed

lemma unat_low16: "unat (ucast (w AND (0xFFFF :: u32)) :: u16) = unat w mod 65536"
proof -
  have "w AND 0xFFFF = take_bit 16 w" by (simp add: take_bit_eq_mask mask_eq_exp_minus_1)
  then show ?thesis
    by (simp only: unsigned_ucast_eq unsigned_take_bit_eq) (simp add: take_bit_eq_mod mod_mod_cancel)
qed

lemma unat_high16: "unat (ucast (drop_bit 16 (w :: u32)) :: u16) = unat w div 65536"
proof -
  have "unat w < 2 ^ LENGTH(32)" by (rule unsigned_less)
  then have "unat w div 65536 < 65536" by simp
  then show ?thesis by (simp add: unsigned_ucast_eq unsigned_drop_bit_eq drop_bit_eq_div unat_div take_bit_eq_mod)
qed

text \<open>The four bytes of a header word, as the C code shifts them together.\<close>

definition word_of_bytes :: "u8 \<Rightarrow> u8 \<Rightarrow> u8 \<Rightarrow> u8 \<Rightarrow> u32" where
  "word_of_bytes a b c d =
     push_bit 24 (ucast a) OR push_bit 16 (ucast b) OR push_bit 8 (ucast c) OR ucast d"

text \<open>The bytes of the header words.\<close>

lemma bytes_of_word:
  fixes a b c d :: u8 and x y :: u16
  shows "drop_bit 24 (word_of_bytes a b c d) AND 0xFF = ucast a"
    and "drop_bit 16 (word_of_bytes a b c d) AND 0xFF = ucast b"
    and "drop_bit 8 (word_of_bytes a b c d) AND 0xFF = ucast c"
    and "word_of_bytes a b c d AND 0xFF = ucast d"
    and "drop_bit 8 (push_bit 8 (ucast a) OR ucast b) AND (0xFF :: u32) = ucast a"
    and "(push_bit 8 (ucast a) OR ucast b) AND (0xFF :: u32) = ucast b"
    and "drop_bit 16 (push_bit 8 (ucast a) OR ucast b) AND (0xFF :: u32) = 0"
    and "drop_bit 24 (push_bit 8 (ucast a) OR ucast b) AND (0xFF :: u32) = 0"
    and "drop_bit 24 (push_bit 24 (ucast a) OR push_bit 16 (ucast b) OR ucast x) AND (0xFF :: u32) = ucast a"
    and "drop_bit 16 (push_bit 24 (ucast a) OR push_bit 16 (ucast b) OR ucast x) AND (0xFF :: u32) = ucast b"
  unfolding byte_mask word_of_bytes_def
  by (rule bit_word_eqI; auto simp: bit_simps dest: bit_imp_le_length)+

lemma half_mask: "(0xFFFF :: u32) = mask 16"
  by (simp add: mask_eq_exp_minus_1)

lemma halves_of_word:
  fixes a b :: u8 and x y :: u16
  shows "ucast ((push_bit 24 (ucast a) OR push_bit 16 (ucast b) OR ucast x) AND (0xFFFF :: u32)) = x"
    and "ucast ((push_bit 16 (ucast y) OR ucast x) AND (0xFFFF :: u32)) = x"
    and "ucast (drop_bit 16 (push_bit 16 (ucast y) OR ucast x :: u32)) = y"
  unfolding half_mask
  by (rule bit_word_eqI; auto simp: bit_simps dest: bit_imp_le_length)+

lemma word_after_word [mem_simps]:
  assumes "aligned p"
  shows "mem_iord (mem_iowr (p + y) v b) (p + z) = (if word_slot y = word_slot z then v else mem_iord b (p + z))"
    and "mem_iord (mem_iowr p v b) (p + z) = (if word_slot z = 0 then v else mem_iord b (p + z))"
  using aligned_add_slot [OF assms, of y] aligned_add_slot [OF assms, of z]
  by (auto simp: mem_iord_slot mem_iowr_def)

text \<open>A word read depends on its four bytes only.\<close>

lemma mem_iord_cong:
  assumes "aligned p" and "d mod 4 = 0" and "d + 3 < 2 ^ 32"
    and "\<And>k. k < 4 \<Longrightarrow> frame_byte m p (d + k) = frame_byte m' p (d + k)"
  shows "mem_iord m (p + of_nat d) = mem_iord m' (p + of_nat d)"
  using frame_word [OF assms(1-3), of m] frame_word [OF assms(1-3), of m']
    assms(4) [of 0] assms(4) [of 1] assms(4) [of 2] assms(4) [of 3]
  by (simp add: word_unat_eq_iff)

section \<open>Properties\<close>

text \<open>the byte accessors implement a byte memory, on both controllers: a byte that was written is read back
  (its low eight bits), and no other byte of the buffer changes.\<close>

theorem packet_buffer_bytes:
  "mem_iord_byte (mem_iowr_byte a v m) a' = (if a = a' then v AND 0xFF else mem_iord_byte m a') \<and>
   mem_iord_byte1 (mem_iowr1_byte a v m) a' = (if a = a' then v AND 0xFF else mem_iord_byte1 m a')"
  by (simp add: buf.rd_wr buf1.rd_wr)

lemma buffer_eqI:
  assumes "\<And>a. mem_iord_byte m a = mem_iord_byte m' a"
  shows "m = m'"
proof
  fix k :: "30 word"
  let ?a = "push_bit 2 (ucast k) :: u32"
  have "?a AND 3 = 0"
  proof (rule bit_word_eqI)
    have three: "(3 :: u32) = mask 2" by (simp add: mask_eq_exp_minus_1)
    fix n :: nat assume "n < LENGTH(32)"
    show "bit (?a AND 3) n = bit (0 :: u32) n" unfolding three by (auto simp: bit_simps)
  qed
  then have al: "aligned ?a" by (simp add: aligned_def)
  have slot: "word_slot ?a = k"
    unfolding word_slot_def by (rule bit_word_eqI) (auto simp: bit_simps)
  have "frame_byte m ?a j = frame_byte m' ?a j" for j by (simp add: frame_byte_def assms)
  from mem_iord_cong [OF al, of 0, OF _ _ this] have "mem_iord m ?a = mem_iord m' ?a" by simp
  then show "m k = m' k" by (simp add: mem_iord_slot slot)
qed

lemma byte_of_slot:
  assumes "aligned p" and "word_slot a = word_slot p"
  shows "a = p + (a AND 3)"
proof -
  have s: "word_slot (a AND 3) = 0"
    by (simp add: word_unat_eq_iff unat_word_slot unat_low_bits)
  show ?thesis
  proof (rule slot_and_low_bits_eq)
    show "word_slot a = word_slot (p + (a AND 3))"
      by (simp add: aligned_add_slot [OF assms(1)] s assms(2))
    show "a AND 3 = (p + (a AND 3)) AND 3"
      by (simp add: aligned_add_low [OF assms(1)] and.assoc)
  qed
qed

text \<open>Words and bytes agree, big-endian. Writing a word at an aligned address is the same as writing its
  four bytes, the most significant one first, and a word that is read is made of its four bytes.\<close>

theorem word_is_four_bytes:
  assumes "aligned p"
  shows "mem_iowr p v m = mem_iowr_byte (p + 3) v (mem_iowr_byte (p + 2) (drop_bit 8 v)
      (mem_iowr_byte (p + 1) (drop_bit 16 v) (mem_iowr_byte p (drop_bit 24 v) m))) \<and>
    unat (mem_iord m p) = 16777216 * unat (mem_iord_byte m p) + 65536 * unat (mem_iord_byte m (p + 1)) +
      256 * unat (mem_iord_byte m (p + 2)) + unat (mem_iord_byte m (p + 3))"
proof
  show "mem_iowr p v m = mem_iowr_byte (p + 3) v (mem_iowr_byte (p + 2) (drop_bit 8 v)
      (mem_iowr_byte (p + 1) (drop_bit 16 v) (mem_iowr_byte p (drop_bit 24 v) m)))"
  proof (rule buffer_eqI)
    fix a
    have w: "word_slot (p + 1) = word_slot p" "word_slot (p + 2) = word_slot p" "word_slot (p + 3) = word_slot p"
      by (simp_all add: aligned_add_slot [OF assms] mem_simps)
    show "mem_iord_byte (mem_iowr p v m) a = mem_iord_byte (mem_iowr_byte (p + 3) v (mem_iowr_byte (p + 2) (drop_bit 8 v)
      (mem_iowr_byte (p + 1) (drop_bit 16 v) (mem_iowr_byte p (drop_bit 24 v) m)))) a"
    proof (cases "word_slot p = word_slot a")
      case True
      then have a: "a = p + (a AND 3)" using byte_of_slot [OF assms] by simp
      have "mem_iord_byte (mem_iowr p v m) a = drop_bit (unat (24 - 8 * (a AND 3))) v AND 0xFF"
        using True by (simp add: mem_iord_byte_after_iowr)
      moreover have "a AND 3 = 0 \<or> a AND 3 = 1 \<or> a AND 3 = 2 \<or> a AND 3 = 3"
        by (rule low_bits_cases [of a]) simp_all
      ultimately show ?thesis using a by (auto simp: buf.rd_wr)
    next
      case False
      then have "a \<noteq> p" "a \<noteq> p + 1" "a \<noteq> p + 2" "a \<noteq> p + 3" using w by auto
      with False show ?thesis by (auto simp: mem_iord_byte_after_iowr buf.rd_wr)
    qed
  qed
  show "unat (mem_iord m p) = 16777216 * unat (mem_iord_byte m p) + 65536 * unat (mem_iord_byte m (p + 1)) +
      256 * unat (mem_iord_byte m (p + 2)) + unat (mem_iord_byte m (p + 3))"
    using frame_word [OF assms, of 0 m] by (simp add: frame_byte_def)
qed

lemma word_is_four_bytes_witness:
  "mem_iowr 0x80 0x08004500 (\<lambda>_. 7) = mem_iowr_byte 0x83 0x08004500 (mem_iowr_byte 0x82 0x00080045
     (mem_iowr_byte 0x81 0x0800 (mem_iowr_byte 0x80 0x08 (\<lambda>_. 7))))"
  using word_is_four_bytes [of "0x80" "0x08004500" "\<lambda>_. 7"]
  by (simp add: aligned_def)

end
