(* ===== verification/Eth_Device.thy ===== *)
theory Eth_Device
  imports Eth_Buffer
begin

text \<open>
  The Ethernet controller as the C code sees it (\<^verbatim>\<open>ethlib/eth_patmos_io.c\<close>, register access)
  and the driver on top of it (\<^verbatim>\<open>ethlib/eth_mac_driver.c\<close>): sending and receiving a frame,
  with their polling loops, and the register helpers.

  The controller, the clocks and the other memory-mapped devices are hardware outside the C
  code. They are an arbitrary value of the type \<^verbatim>\<open>env\<close>: an object that answers every read
  and moves to a next object, so that two reads of a register may differ. A register access
  may also change the packet buffer (the controller delivers a received frame there); between
  two accesses the buffer is the program's.
\<close>

section \<open>The environment and the state\<close>

codatatype env = Env
  (env_eth_rd: "30 word \<Rightarrow> buffer \<Rightarrow> u32 \<times> buffer \<times> env")
  (env_eth_wr: "30 word \<Rightarrow> u32 \<Rightarrow> buffer \<Rightarrow> buffer \<times> env")
  (env_eth1_rd: "30 word \<Rightarrow> buffer \<Rightarrow> u32 \<times> buffer \<times> env")
  (env_eth1_wr: "30 word \<Rightarrow> u32 \<Rightarrow> buffer \<Rightarrow> buffer \<times> env")
  (env_usecs: "u64 \<times> env")
  (env_cycles: "u64 \<times> env")
  (env_io_rd: "u32 \<Rightarrow> u32 \<times> env")
  (env_io_wr: "u32 \<Rightarrow> u32 \<Rightarrow> env")

record eth_state =
  buff :: buffer
  buff1 :: buffer
  dev :: env

definition eth_iord :: "u32 \<Rightarrow> 'a eth_state_scheme \<Rightarrow> u32 \<times> 'a eth_state_scheme" where
  "eth_iord addr s =
     (let (v, b, d) = env_eth_rd (dev s) (word_slot addr) (buff s) in (v, s\<lparr>buff := b, dev := d\<rparr>))"

definition eth_iowr :: "u32 \<Rightarrow> u32 \<Rightarrow> 'a eth_state_scheme \<Rightarrow> 'a eth_state_scheme" where
  "eth_iowr addr data s =
     (let (b, d) = env_eth_wr (dev s) (word_slot addr) data (buff s) in s\<lparr>buff := b, dev := d\<rparr>)"

definition eth_iord1 :: "u32 \<Rightarrow> 'a eth_state_scheme \<Rightarrow> u32 \<times> 'a eth_state_scheme" where
  "eth_iord1 addr s =
     (let (v, b, d) = env_eth1_rd (dev s) (word_slot addr) (buff1 s) in (v, s\<lparr>buff1 := b, dev := d\<rparr>))"

definition eth_iowr1 :: "u32 \<Rightarrow> u32 \<Rightarrow> 'a eth_state_scheme \<Rightarrow> 'a eth_state_scheme" where
  "eth_iowr1 addr data s =
     (let (b, d) = env_eth1_wr (dev s) (word_slot addr) data (buff1 s) in s\<lparr>buff1 := b, dev := d\<rparr>)"

text \<open>The clocks of the run-time library: microseconds and cycles since start.\<close>

definition get_cpu_usecs :: "'a eth_state_scheme \<Rightarrow> u64 \<times> 'a eth_state_scheme" where
  "get_cpu_usecs s = (let (t, d) = env_usecs (dev s) in (t, s\<lparr>dev := d\<rparr>))"

definition get_cpu_cycles :: "'a eth_state_scheme \<Rightarrow> u64 \<times> 'a eth_state_scheme" where
  "get_cpu_cycles s = (let (t, d) = env_cycles (dev s) in (t, s\<lparr>dev := d\<rparr>))"

section \<open>Registers and descriptor bits\<close>

abbreviation (input) "INT_SOURCE_ADDR \<equiv> 0x04 :: u32"
abbreviation (input) "TX_BD_NUM_ADDR \<equiv> 0x20 :: u32"
abbreviation (input) "TX_BD_ADDR_BASE \<equiv> 0x400 :: u32"
abbreviation (input) "INT_SOURCE_RXB_BIT \<equiv> 0x0004 :: u32"
abbreviation (input) "INT_SOURCE_TXB_BIT \<equiv> 0x0001 :: u32"
abbreviation (input) "RX_BD_EMPTY_BIT \<equiv> 0x8000 :: u32"
abbreviation (input) "RX_BD_IRQEN_BIT \<equiv> 0x4000 :: u32"
abbreviation (input) "RX_BD_WRAP_BIT \<equiv> 0x2000 :: u32"
abbreviation (input) "TX_BD_READY_BIT \<equiv> 0x8000 :: u32"
abbreviation (input) "TX_BD_IRQEN_BIT \<equiv> 0x4000 :: u32"
abbreviation (input) "TX_BD_WRAP_BIT \<equiv> 0x2000 :: u32"
abbreviation (input) "TX_BD_PAD_EN_BIT \<equiv> 0x1000 :: u32"

text \<open>The macro \<^verbatim>\<open>RX_BD_ADDR_BASE(TX_BD_NUM)\<close>.\<close>

definition RX_BD_ADDR_BASE :: "u32 \<Rightarrow> u32" where
  "RX_BD_ADDR_BASE tx_bd_num = TX_BD_ADDR_BASE + tx_bd_num * 8"

section \<open>Sending\<close>

text \<open>
  The wait for a free descriptor keeps the masked register in an \<^verbatim>\<open>unsigned char\<close> and goes
  on while it is 1; the wait for completion goes on while the masked flag is 0.
\<close>

definition wait_tx_free :: "'a eth_state_scheme \<Rightarrow> 'a eth_state_scheme option" where
  "wait_tx_free s = map_option snd (loop_until (\<lambda>s.
     let (v, s) = eth_iord TX_BD_ADDR_BASE s;
         free = (ucast (v AND 0x8000) :: u8)
     in Some (if free = 1 then None else Some (), s)) s)"

definition wait_tx_done :: "'a eth_state_scheme \<Rightarrow> 'a eth_state_scheme option" where
  "wait_tx_done s = map_option snd (loop_until (\<lambda>s.
     let (v, s) = eth_iord INT_SOURCE_ADDR s;
         done_flag = (ucast (v AND 0x1) :: u8)
     in Some (if done_flag = 0 then None else Some (), s)) s)"

definition eth_mac_send :: "u32 \<Rightarrow> u32 \<Rightarrow> 'a eth_state_scheme \<Rightarrow> 'a eth_state_scheme option" where
  "eth_mac_send tx_addr frame_length s = do {
     s \<leftarrow> wait_tx_free s;
     let s = eth_iowr INT_SOURCE_ADDR 0x00000001 s;
     let s = eth_iowr (TX_BD_ADDR_BASE + 4) tx_addr s;
     let s = eth_iowr TX_BD_ADDR_BASE (push_bit 16 frame_length OR 0xF000) s;
     wait_tx_done s
   }"

definition eth_mac_send_nb :: "u32 \<Rightarrow> u32 \<Rightarrow> 'a eth_state_scheme \<Rightarrow> u32 \<times> 'a eth_state_scheme" where
  "eth_mac_send_nb tx_addr frame_length s =
     (let (v, s) = eth_iord TX_BD_ADDR_BASE s
      in if v AND TX_BD_READY_BIT = 1 then (0, s)
         else let s = eth_iowr (TX_BD_ADDR_BASE + 4) tx_addr s;
                  s = eth_iowr TX_BD_ADDR_BASE (push_bit 16 frame_length OR 0xF000) s;
                  s = eth_iowr INT_SOURCE_ADDR INT_SOURCE_TXB_BIT s;
                  s = eth_iowr TX_BD_ADDR_BASE
                        (TX_BD_READY_BIT OR TX_BD_IRQEN_BIT OR TX_BD_WRAP_BIT OR TX_BD_PAD_EN_BIT) s
              in (1, s))"

section \<open>Receiving\<close>

definition wait_rx :: "'a eth_state_scheme \<Rightarrow> 'a eth_state_scheme option" where
  "wait_rx s = map_option snd (loop_until (\<lambda>s.
     let (v, s) = eth_iord INT_SOURCE_ADDR s
     in Some (if v AND INT_SOURCE_RXB_BIT = 0 then None else Some (), s)) s)"

text \<open>The wait with a timeout: \<^const>\<open>True\<close> when a frame arrived, \<^const>\<open>False\<close> on timeout.\<close>

definition wait_rx_until ::
  "u64 \<Rightarrow> u64 \<Rightarrow> 'a eth_state_scheme \<Rightarrow> (bool \<times> 'a eth_state_scheme) option" where
  "wait_rx_until start_time timeout = loop_until (\<lambda>s.
     let (v, s) = eth_iord INT_SOURCE_ADDR s
     in if v AND INT_SOURCE_RXB_BIT = 0
        then let (now, s) = get_cpu_usecs s
             in Some (if now - start_time \<ge> timeout then Some False else None, s)
        else Some (Some True, s))"

definition rx_rearm :: "'a eth_state_scheme \<Rightarrow> 'a eth_state_scheme" where
  "rx_rearm s =
     (let s = eth_iowr INT_SOURCE_ADDR INT_SOURCE_RXB_BIT s;
          (n, s) = eth_iord TX_BD_NUM_ADDR s
      in eth_iowr (RX_BD_ADDR_BASE n) (RX_BD_EMPTY_BIT OR RX_BD_IRQEN_BIT OR RX_BD_WRAP_BIT) s)"

definition rx_set_pointer :: "u32 \<Rightarrow> 'a eth_state_scheme \<Rightarrow> 'a eth_state_scheme" where
  "rx_set_pointer rx_addr s =
     (let (n, s) = eth_iord TX_BD_NUM_ADDR s in eth_iowr (RX_BD_ADDR_BASE n + 4) rx_addr s)"

definition eth_mac_receive ::
  "u32 \<Rightarrow> u64 \<Rightarrow> 'a eth_state_scheme \<Rightarrow> (u32 \<times> 'a eth_state_scheme) option" where
  "eth_mac_receive rx_addr timeout s =
     (let s = rx_set_pointer rx_addr s
      in if timeout = 0 then do { s \<leftarrow> wait_rx s; Some (1, rx_rearm s) }
         else let (start_time, s) = get_cpu_usecs s
              in do {
                (arrived, s) \<leftarrow> wait_rx_until start_time timeout s;
                if arrived then Some (1, rx_rearm s) else Some (0, s)
              })"

definition eth_mac_receive_nb :: "u32 \<Rightarrow> 'a eth_state_scheme \<Rightarrow> u32 \<times> 'a eth_state_scheme" where
  "eth_mac_receive_nb rx_addr s =
     (let s = rx_set_pointer rx_addr s;
          (v, s) = eth_iord INT_SOURCE_ADDR s;
          ans = (if v AND INT_SOURCE_RXB_BIT = 0 then 0 else 1)
      in (ans, rx_rearm s))"

definition eth_mac_has_frame :: "u32 \<Rightarrow> 'a eth_state_scheme \<Rightarrow> u32 \<times> 'a eth_state_scheme" where
  "eth_mac_has_frame rx_addr s =
     (let (v, s) = eth_iord INT_SOURCE_ADDR s
      in (if v AND INT_SOURCE_RXB_BIT = 0 then 0 else 1, s))"

definition eth_mac_isready_rx_buffer ::
  "u32 \<Rightarrow> u32 \<Rightarrow> 'a eth_state_scheme \<Rightarrow> u32 \<times> 'a eth_state_scheme" where
  "eth_mac_isready_rx_buffer rx_buff rx_bd s =
     (let (v, s) = eth_iord rx_bd s in (if v AND RX_BD_EMPTY_BIT = 0 then 0 else 1, s))"

definition eth_mac_clear_rx_buffer ::
  "u32 \<Rightarrow> u32 \<Rightarrow> 'a eth_state_scheme \<Rightarrow> 'a eth_state_scheme" where
  "eth_mac_clear_rx_buffer rx_buff rx_bd s =
     (let (temp_config, s) = eth_iord INT_SOURCE_ADDR s;
          s = eth_iowr INT_SOURCE_ADDR (temp_config OR INT_SOURCE_RXB_BIT) s;
          (temp_config, s) = eth_iord rx_bd s
      in eth_iowr rx_bd (temp_config OR RX_BD_EMPTY_BIT) s)"

definition eth_mac_initialize :: "'a eth_state_scheme \<Rightarrow> 'a eth_state_scheme" where
  "eth_mac_initialize s =
     (let s = eth_iowr 0x40 0xEEF0DA42 s;
          s = eth_iowr 0x44 0x000000FF s
      in eth_iowr 0x00 0x0000A423 s)"

section \<open>Register helpers\<close>

definition set_tx_enable :: "'a eth_state_scheme \<Rightarrow> 'a eth_state_scheme" where
  "set_tx_enable s = (let (data, s) = eth_iord 0x00 s in eth_iowr 0x00 (data OR 0x0002) s)"

definition get_tx_enable :: "'a eth_state_scheme \<Rightarrow> u32 \<times> 'a eth_state_scheme" where
  "get_tx_enable s = (let (data, s) = eth_iord 0x00 s in (data AND 0x0002, s))"

definition set_rx_enable :: "'a eth_state_scheme \<Rightarrow> 'a eth_state_scheme" where
  "set_rx_enable s = (let (data, s) = eth_iord 0x00 s in eth_iowr 0x00 (data OR 0x0001) s)"

definition get_rx_enable :: "'a eth_state_scheme \<Rightarrow> u32 \<times> 'a eth_state_scheme" where
  "get_rx_enable s = (let (data, s) = eth_iord 0x00 s in (data AND 0x0001, s))"

definition set_int_source_rxb :: "'a eth_state_scheme \<Rightarrow> 'a eth_state_scheme" where
  "set_int_source_rxb s = (let (data, s) = eth_iord 0x04 s in eth_iowr 0x04 (data OR push_bit 3 1) s)"

definition get_int_source_rxb :: "'a eth_state_scheme \<Rightarrow> u32 \<times> 'a eth_state_scheme" where
  "get_int_source_rxb s = (let (data, s) = eth_iord 0x04 s in (drop_bit 3 data AND 1, s))"

text \<open>The rejected branch only prints an error.\<close>

definition set_tx_db_num :: "u32 \<Rightarrow> 'a eth_state_scheme \<Rightarrow> 'a eth_state_scheme" where
  "set_tx_db_num data s = (if data < 0x80 then eth_iowr 0x20 data s else s)"

definition get_tx_db_num :: "'a eth_state_scheme \<Rightarrow> u32 \<times> 'a eth_state_scheme" where
  "get_tx_db_num s = eth_iord 0x20 s"

definition set_mac_address :: "u32 \<Rightarrow> u32 \<Rightarrow> 'a eth_state_scheme \<Rightarrow> 'a eth_state_scheme" where
  "set_mac_address my_mac0 my_mac1 s =
     (let s = eth_iowr 0x40 my_mac0 s in eth_iowr 0x44 my_mac1 s)"

definition get_mac_address :: "'a eth_state_scheme \<Rightarrow> u64 \<times> 'a eth_state_scheme" where
  "get_mac_address s =
     (let (hi, s) = eth_iord 0x44 s;
          (lo, s) = eth_iord 0x40 s
      in (push_bit 32 (ucast hi) + ucast lo, s))"

definition set_tx_bd :: "u32 \<Rightarrow> 'a eth_state_scheme \<Rightarrow> 'a eth_state_scheme" where
  "set_tx_bd data s = eth_iowr 0x400 data s"

definition get_tx_db :: "'a eth_state_scheme \<Rightarrow> u32 \<times> 'a eth_state_scheme" where
  "get_tx_db s = eth_iord 0x400 s"

definition get_tx_db_mem_pointer :: "'a eth_state_scheme \<Rightarrow> u32 \<times> 'a eth_state_scheme" where
  "get_tx_db_mem_pointer s = eth_iord (0x400 + 0x04) s"

definition set_rx_bd :: "u32 \<Rightarrow> 'a eth_state_scheme \<Rightarrow> 'a eth_state_scheme" where
  "set_rx_bd data s =
     (let (tx_db_num, s) = get_tx_db_num s in eth_iowr (0x400 + tx_db_num * 0x08) data s)"

definition get_rx_db :: "'a eth_state_scheme \<Rightarrow> u32 \<times> 'a eth_state_scheme" where
  "get_rx_db s = (let (tx_db_num, s) = get_tx_db_num s in eth_iord (0x400 + tx_db_num * 0x08) s)"

text \<open>The length helper also reads the descriptor count once before it calls \<^const>\<open>get_rx_db\<close>.\<close>

definition get_rx_db_length :: "'a eth_state_scheme \<Rightarrow> u32 \<times> 'a eth_state_scheme" where
  "get_rx_db_length s =
     (let (tx_db_num, s) = get_tx_db_num s;
          (rx_db, s) = get_rx_db s
      in (drop_bit 16 rx_db, s))"

definition get_rx_db_mem_pointer :: "'a eth_state_scheme \<Rightarrow> u32 \<times> 'a eth_state_scheme" where
  "get_rx_db_mem_pointer s =
     (let (tx_db_num, s) = get_tx_db_num s in eth_iord (0x400 + tx_db_num * 0x08 + 0x04) s)"

definition set_rx_db_empty :: "'a eth_state_scheme \<Rightarrow> 'a eth_state_scheme" where
  "set_rx_db_empty s =
     (let (tx_db_num, s) = get_tx_db_num s;
          cur_addr_rx_db = 0x400 + tx_db_num * 0x08;
          (cur_data, s) = eth_iord cur_addr_rx_db s
      in eth_iowr cur_addr_rx_db (cur_data OR push_bit 15 1) s)"

definition get_rx_db_empty :: "'a eth_state_scheme \<Rightarrow> u32 \<times> 'a eth_state_scheme" where
  "get_rx_db_empty s =
     (let (tx_db_num, s) = get_tx_db_num s;
          (cur_data, s) = eth_iord (0x400 + tx_db_num * 0x08) s
      in (drop_bit 15 cur_data AND 1, s))"

definition set_rx_db_irq :: "'a eth_state_scheme \<Rightarrow> 'a eth_state_scheme" where
  "set_rx_db_irq s =
     (let (tx_db_num, s) = get_tx_db_num s;
          cur_addr_rx_db = 0x400 + tx_db_num * 0x08;
          (cur_data, s) = eth_iord cur_addr_rx_db s
      in eth_iowr cur_addr_rx_db (cur_data OR push_bit 14 1) s)"

definition get_rx_db_irq :: "'a eth_state_scheme \<Rightarrow> u32 \<times> 'a eth_state_scheme" where
  "get_rx_db_irq s =
     (let (tx_db_num, s) = get_tx_db_num s;
          (cur_data, s) = eth_iord (0x400 + tx_db_num * 0x08) s
      in (drop_bit 14 cur_data AND 1, s))"

definition send_phy_command ::
  "u16 \<Rightarrow> u8 \<Rightarrow> u8 \<Rightarrow> 'a eth_state_scheme \<Rightarrow> u32 \<times> 'a eth_state_scheme" where
  "send_phy_command cmd reg_addr phy_addr s =
     (let (st, s) = eth_iord 0x3C s
      in if st AND 0x2 \<noteq> 0x2
         then let s = eth_iowr 0x34 (ucast cmd) s;
                  s = eth_iowr 0x30 (push_bit 8 (ucast reg_addr AND 0xF) OR (ucast phy_addr AND 0xF)) s;
                  s = eth_iowr 0x2C 0x4 s
              in (1, s)
         else (0, s))"

text \<open>The register dump: the address and value of each register, in the order they are printed.\<close>

definition eth_read_register :: "u32 \<Rightarrow> 'a eth_state_scheme \<Rightarrow> u32 \<times> 'a eth_state_scheme" where
  "eth_read_register addr s = eth_iord addr s"

definition print_register ::
  "u32 \<Rightarrow> (u32 \<times> u32) list \<times> 'a eth_state_scheme \<Rightarrow> (u32 \<times> u32) list \<times> 'a eth_state_scheme" where
  "print_register addr = (\<lambda>(out, s). let (data, s) = eth_read_register addr s in (out @ [(addr, data)], s))"

definition print_all_register ::
  "(u32 \<times> u32) list \<times> 'a eth_state_scheme \<Rightarrow> (u32 \<times> u32) list \<times> 'a eth_state_scheme" where
  "print_all_register = for_loop 0 21 (\<lambda>i. print_register (of_nat (4 * i)))"

section \<open>Frames: what an access leaves alone\<close>

text \<open>An access to the controller can change the buffer and the device, nothing else.\<close>

lemma eth_iord_more [state_simps]: "eth_state.more (snd (eth_iord a s)) = eth_state.more s"
  by (simp add: eth_iord_def split: prod.split)

lemma eth_iowr_more [state_simps]: "eth_state.more (eth_iowr a v s) = eth_state.more s"
  by (simp add: eth_iowr_def split: prod.split)

lemma get_cpu_usecs_more [state_simps]: "eth_state.more (snd (get_cpu_usecs s)) = eth_state.more s"
  by (simp add: get_cpu_usecs_def split: prod.split)

section \<open>A controller for the examples\<close>

text \<open>
  A controller that is always done: its interrupt source register reads 5 (a frame was sent,
  a frame was received), every other register reads 0, writes change nothing, and its clock
  advances by one at every reading.
\<close>

primcorec ready_env :: "u64 \<Rightarrow> env" where
  "env_eth_rd (ready_env t) = (\<lambda>a b. (if a = 1 then 5 else 0, b, ready_env t))"
| "env_eth_wr (ready_env t) = (\<lambda>a v b. (b, ready_env t))"
| "env_eth1_rd (ready_env t) = (\<lambda>a b. (if a = 1 then 5 else 0, b, ready_env t))"
| "env_eth1_wr (ready_env t) = (\<lambda>a v b. (b, ready_env t))"
| "env_usecs (ready_env t) = (t, ready_env (t + 1))"
| "env_cycles (ready_env t) = (t, ready_env (t + 1))"
| "env_io_rd (ready_env t) = (\<lambda>a. (0, ready_env t))"
| "env_io_wr (ready_env t) = (\<lambda>a v. ready_env t)"

text \<open>
  A controller that is always done and delivers the same buffer contents with every read.
\<close>

primcorec deliver_env :: "buffer \<Rightarrow> u64 \<Rightarrow> env" where
  "env_eth_rd (deliver_env m t) = (\<lambda>a b. (if a = 1 then 5 else 0, m, deliver_env m t))"
| "env_eth_wr (deliver_env m t) = (\<lambda>a v b. (b, deliver_env m t))"
| "env_eth1_rd (deliver_env m t) = (\<lambda>a b. (if a = 1 then 5 else 0, m, deliver_env m t))"
| "env_eth1_wr (deliver_env m t) = (\<lambda>a v b. (b, deliver_env m t))"
| "env_usecs (deliver_env m t) = (t, deliver_env m (t + 1))"
| "env_cycles (deliver_env m t) = (t, deliver_env m (t + 1))"
| "env_io_rd (deliver_env m t) = (\<lambda>a. (0, deliver_env m t))"
| "env_io_wr (deliver_env m t) = (\<lambda>a v. deliver_env m t)"

section \<open>Polling\<close>

text \<open>
  \<^verbatim>\<open>raises a m n s\<close>: of the next reads of register \<open>a\<close>, the first \<open>n\<close> have no bit of the mask
  \<open>m\<close> set, and the one after them has. \<^verbatim>\<open>polled a n s\<close> is the state after \<open>n\<close> reads.
\<close>

fun raises :: "u32 \<Rightarrow> u32 \<Rightarrow> nat \<Rightarrow> 'a eth_state_scheme \<Rightarrow> bool" where
  "raises a m 0 s \<longleftrightarrow> fst (eth_iord a s) AND m \<noteq> 0"
| "raises a m (Suc n) s \<longleftrightarrow> fst (eth_iord a s) AND m = 0 \<and> raises a m n (snd (eth_iord a s))"

fun polled :: "u32 \<Rightarrow> nat \<Rightarrow> 'a eth_state_scheme \<Rightarrow> 'a eth_state_scheme" where
  "polled a 0 s = s"
| "polled a (Suc n) s = polled a n (snd (eth_iord a s))"

lemma polled_more [state_simps]: "eth_state.more (polled a n s) = eth_state.more s"
  by (induction n arbitrary: s) (simp_all add: state_simps)

lemma low_byte_flag: "(ucast ((v :: u32) AND 1) :: u8) = 0 \<longleftrightarrow> v AND 1 = 0"
proof -
  have "v AND 1 = 0 \<or> v AND 1 = 1"
    by (simp add: and_one_eq mod2_eq_if)
  then show ?thesis by auto
qed

lemma poll_loop:
  assumes "raises a m n s"
    and "\<And>s. body s = (let (v, s) = eth_iord a s in Some (if v AND m = 0 then None else Some (), s))"
  shows "loop_until body s = Some ((), polled a (Suc n) s)"
  using assms(1)
proof (induction n arbitrary: s)
  case 0
  then have "body s = Some (Some (), snd (eth_iord a s))"
    by (simp add: assms(2) Let_def split_beta)
  then show ?case by (simp add: loop_until_exit)
next
  case (Suc n)
  then have "body s = Some (None, snd (eth_iord a s))"
    by (simp add: assms(2) Let_def split_beta)
  moreover from Suc have "loop_until body (snd (eth_iord a s)) = Some ((), polled a (Suc n) (snd (eth_iord a s)))"
    by simp
  ultimately show ?case by (simp add: loop_until_next)
qed

lemma wait_tx_done_returns:
  assumes "raises INT_SOURCE_ADDR 1 n s"
  shows "wait_tx_done s = Some (polled INT_SOURCE_ADDR (Suc n) s)"
  unfolding wait_tx_done_def
  by (subst poll_loop [OF assms]) (simp_all add: Let_def low_byte_flag split_beta)

lemma wait_rx_returns:
  assumes "raises INT_SOURCE_ADDR INT_SOURCE_RXB_BIT n s"
  shows "wait_rx s = Some (polled INT_SOURCE_ADDR (Suc n) s)"
  unfolding wait_rx_def by (subst poll_loop [OF assms]) (simp_all add: split_beta)

text \<open>Masking with 0x8000 and keeping eight bits leaves nothing: the wait is one read.\<close>

lemma wait_tx_free_once: "wait_tx_free s = Some (snd (eth_iord TX_BD_ADDR_BASE s))"
proof -
  have low: "(ucast ((v :: u32) AND 0x8000) :: u8) = 0" for v
  proof (rule bit_word_eqI)
    fix n :: nat assume "n < LENGTH(8)"
    moreover have "(0x8000 :: u32) = push_bit 15 1" by simp
    ultimately show "bit (ucast (v AND 0x8000) :: u8) n = bit (0 :: u8) n"
      by (simp only: bit_simps) auto
  qed
  show ?thesis
    unfolding wait_tx_free_def
    by (subst loop_until_exit [where s = s and x = "()" and s' = "snd (eth_iord TX_BD_ADDR_BASE s)"])
      (simp_all add: Let_def low split_beta)
qed

text \<open>The three register writes that hand a frame to the controller.\<close>

definition tx_start :: "u32 \<Rightarrow> u32 \<Rightarrow> 'a eth_state_scheme \<Rightarrow> 'a eth_state_scheme" where
  "tx_start tx_addr frame_length s =
     eth_iowr TX_BD_ADDR_BASE (push_bit 16 frame_length OR 0xF000)
       (eth_iowr (TX_BD_ADDR_BASE + 4) tx_addr
         (eth_iowr INT_SOURCE_ADDR 1 (snd (eth_iord TX_BD_ADDR_BASE s))))"

lemma eth_mac_send_returns:
  assumes "raises INT_SOURCE_ADDR INT_SOURCE_TXB_BIT n (tx_start tx_addr frame_length s)"
  shows "eth_mac_send tx_addr frame_length s =
    Some (polled INT_SOURCE_ADDR (Suc n) (tx_start tx_addr frame_length s))"
  using wait_tx_done_returns [OF assms]
  by (simp add: eth_mac_send_def wait_tx_free_once tx_start_def Let_def)

lemma eth_mac_send_nb_never_refuses: "fst (eth_mac_send_nb tx_addr frame_length s) = 1"
proof -
  have "v AND 0x8000 \<noteq> (1 :: u32)" for v :: u32
  proof
    assume "v AND 0x8000 = 1"
    then have "bit (v AND 0x8000) 0 = bit (1 :: u32) 0" by simp
    then show False by (simp add: bit_simps)
  qed
  then show ?thesis by (simp add: eth_mac_send_nb_def Let_def split: prod.split)
qed

lemma wait_rx_until_timeout:
  assumes "wait_rx_until start_time timeout s = Some (r, s')"
  shows "r \<or> (\<exists>u. fst (eth_iord INT_SOURCE_ADDR u) AND INT_SOURCE_RXB_BIT = 0 \<and>
      fst (get_cpu_usecs (snd (eth_iord INT_SOURCE_ADDR u))) - start_time \<ge> timeout \<and>
      s' = snd (get_cpu_usecs (snd (eth_iord INT_SOURCE_ADDR u))))"
  using assms unfolding wait_rx_until_def
  by (rule loop_until_rule [where I = "\<lambda>_. True"]) (auto simp: Let_def split_beta split: if_splits)

section \<open>The driver leaves the upper layers alone\<close>

lemma loop_until_more:
  assumes "loop_until round s = Some (x, t)"
    and "\<And>s r t. round s = Some (r, t) \<Longrightarrow> eth_state.more t = eth_state.more s"
  shows "eth_state.more t = eth_state.more s"
  using assms(1)
  by (rule loop_until_rule [where I = "\<lambda>u. eth_state.more u = eth_state.more s"])
    (auto dest: assms(2))

lemma wait_tx_done_more: "wait_tx_done s = Some t \<Longrightarrow> eth_state.more t = eth_state.more s"
  unfolding wait_tx_done_def
  by (clarsimp, erule loop_until_more) (auto simp: Let_def split_beta state_simps)

lemma eth_mac_send_more: "eth_mac_send a n s = Some t \<Longrightarrow> eth_state.more t = eth_state.more s"
  by (auto simp: eth_mac_send_def wait_tx_free_once Let_def state_simps dest: wait_tx_done_more)

lemma wait_rx_more: "wait_rx s = Some t \<Longrightarrow> eth_state.more t = eth_state.more s"
  unfolding wait_rx_def
  by (clarsimp, erule loop_until_more) (auto simp: Let_def split_beta state_simps)

lemma wait_rx_until_more:
  "wait_rx_until a b s = Some (r, t) \<Longrightarrow> eth_state.more t = eth_state.more s"
  unfolding wait_rx_until_def
  by (erule loop_until_more) (auto simp: Let_def split_beta state_simps split: if_splits)

lemma rx_rearm_more [state_simps]: "eth_state.more (rx_rearm s) = eth_state.more s"
  by (simp add: rx_rearm_def Let_def split_beta state_simps)

lemma rx_set_pointer_more [state_simps]: "eth_state.more (rx_set_pointer a s) = eth_state.more s"
  by (simp add: rx_set_pointer_def Let_def split_beta state_simps)

lemma eth_mac_receive_more:
  "eth_mac_receive a timeout s = Some (r, t) \<Longrightarrow> eth_state.more t = eth_state.more s"
  by (auto simp: eth_mac_receive_def Let_def split_beta state_simps split: if_splits bind_splits
      dest!: wait_rx_more wait_rx_until_more)

section \<open>The driver on the example controllers\<close>

lemma deliver_accesses:
  assumes "dev s = deliver_env m t"
  shows "eth_iord a s = (if word_slot a = 1 then 5 else 0, s\<lparr>buff := m\<rparr>)"
    and "eth_iowr a v s = s"
    and "get_cpu_usecs s = (t, s\<lparr>dev := deliver_env m (t + 1)\<rparr>)"
  using assms by (cases s; simp add: eth_iord_def eth_iowr_def get_cpu_usecs_def)+

lemma deliver_send:
  assumes "dev s = deliver_env m t"
  shows "eth_mac_send a n s = Some (s\<lparr>buff := m\<rparr>)"
proof -
  have "raises INT_SOURCE_ADDR INT_SOURCE_TXB_BIT 0 (tx_start a n s)"
    using assms by (simp add: tx_start_def deliver_accesses mem_simps)
  then have "eth_mac_send a n s = Some (polled INT_SOURCE_ADDR (Suc 0) (tx_start a n s))"
    by (rule eth_mac_send_returns)
  then show ?thesis using assms by (simp add: tx_start_def deliver_accesses)
qed

lemma ready_accesses:
  assumes "dev s = ready_env t"
  shows "eth_iord a s = (if word_slot a = 1 then 5 else 0, s)"
    and "eth_iowr a v s = s"
  using assms by (cases s; simp add: eth_iord_def eth_iowr_def)+

lemma ready_send:
  assumes "dev s = ready_env t"
  shows "eth_mac_send a n s = Some s"
proof -
  have "raises INT_SOURCE_ADDR INT_SOURCE_TXB_BIT 0 (tx_start a n s)"
    using assms by (simp add: tx_start_def ready_accesses mem_simps)
  then have "eth_mac_send a n s = Some (polled INT_SOURCE_ADDR (Suc 0) (tx_start a n s))"
    by (rule eth_mac_send_returns)
  then show ?thesis using assms by (simp add: tx_start_def ready_accesses)
qed

lemma deliver_receive:
  assumes "dev s = deliver_env m t" and "timeout \<noteq> 0"
  shows "eth_mac_receive a timeout s = Some (1, s\<lparr>buff := m, dev := deliver_env m (t + 1)\<rparr>)"
proof -
  have "wait_rx_until t timeout u = Some (True, u\<lparr>buff := m\<rparr>)" if "dev u = deliver_env m (t + 1)" for u :: "'a eth_state_scheme"
    unfolding wait_rx_until_def
    by (rule loop_until_exit) (simp add: deliver_accesses [OF that] mem_simps)
  then show ?thesis
    using assms by (simp add: eth_mac_receive_def rx_set_pointer_def rx_rearm_def Let_def deliver_accesses)
qed

section \<open>Properties\<close>

text \<open>A poll that returns has seen the flag.\<close>

lemma poll_returned:
  assumes "loop_until body s = Some (x, t)"
    and "\<And>s. body s = (let (v, s) = eth_iord a s in Some (if v AND m = 0 then None else Some (), s))"
  shows "\<exists>n. raises a m n s"
  using assms(1)
proof (rule loop_until_rule [where I = "\<lambda>u. \<exists>k. \<forall>n. raises a m n u \<longrightarrow> raises a m (n + k) s"])
  show "\<exists>k. \<forall>n. raises a m n s \<longrightarrow> raises a m (n + k) s" by (intro exI [of _ 0]) simp
next
  fix u u' assume "\<exists>k. \<forall>n. raises a m n u \<longrightarrow> raises a m (n + k) s" "body u = Some (None, u')"
  then obtain k where k: "\<And>n. raises a m n u \<Longrightarrow> raises a m (n + k) s"
    and u: "fst (eth_iord a u) AND m = 0" "u' = snd (eth_iord a u)"
    by (auto simp: assms(2) split_beta split: if_splits)
  have "raises a m n u' \<Longrightarrow> raises a m (n + Suc k) s" for n
    using k [of "Suc n"] u by simp
  then show "\<exists>k. \<forall>n. raises a m n u' \<longrightarrow> raises a m (n + k) s" by blast
next
  fix u x t assume "\<exists>k. \<forall>n. raises a m n u \<longrightarrow> raises a m (n + k) s" "body u = Some (Some x, t)"
  then obtain k where "\<And>n. raises a m n u \<Longrightarrow> raises a m (n + k) s" "raises a m 0 u"
    by (auto simp: assms(2) split_beta split: if_splits)
  then show "\<exists>n. raises a m n s" by blast
qed

text \<open>C32: when the blocking send returns. It hands the frame to the controller in three register writes, after
  one read of the descriptor (which never delays it), and returns exactly when the controller raises the
  sent flag at some later read; otherwise it polls for ever.\<close>

theorem eth_mac_send_returns_iff:
  "(\<exists>t. eth_mac_send tx_addr frame_length s = Some t) \<longleftrightarrow>
     (\<exists>n. raises INT_SOURCE_ADDR INT_SOURCE_TXB_BIT n
        (eth_iowr TX_BD_ADDR_BASE (push_bit 16 frame_length OR 0xF000)
          (eth_iowr (TX_BD_ADDR_BASE + 4) tx_addr
            (eth_iowr INT_SOURCE_ADDR 1 (snd (eth_iord TX_BD_ADDR_BASE s))))))"
proof
  assume "\<exists>t. eth_mac_send tx_addr frame_length s = Some t"
  then have "\<exists>t. wait_tx_done (tx_start tx_addr frame_length s) = Some t"
    by (simp add: eth_mac_send_def wait_tx_free_once tx_start_def Let_def)
  then obtain x t where "loop_until (\<lambda>s.
      let (v, s) = eth_iord INT_SOURCE_ADDR s; done_flag = (ucast (v AND 0x1) :: u8)
      in Some (if done_flag = 0 then None else Some (), s)) (tx_start tx_addr frame_length s) = Some (x, t)"
    by (auto simp: wait_tx_done_def)
  from poll_returned [OF this, of INT_SOURCE_ADDR INT_SOURCE_TXB_BIT]
  show "\<exists>n. raises INT_SOURCE_ADDR INT_SOURCE_TXB_BIT n
        (eth_iowr TX_BD_ADDR_BASE (push_bit 16 frame_length OR 0xF000)
          (eth_iowr (TX_BD_ADDR_BASE + 4) tx_addr
            (eth_iowr INT_SOURCE_ADDR 1 (snd (eth_iord TX_BD_ADDR_BASE s)))))"
    by (simp add: Let_def low_byte_flag split_beta tx_start_def)
next
  assume "\<exists>n. raises INT_SOURCE_ADDR INT_SOURCE_TXB_BIT n
        (eth_iowr TX_BD_ADDR_BASE (push_bit 16 frame_length OR 0xF000)
          (eth_iowr (TX_BD_ADDR_BASE + 4) tx_addr
            (eth_iowr INT_SOURCE_ADDR 1 (snd (eth_iord TX_BD_ADDR_BASE s)))))"
  then show "\<exists>t. eth_mac_send tx_addr frame_length s = Some t"
    using eth_mac_send_returns [of _ tx_addr frame_length s] by (auto simp: tx_start_def)
qed

text \<open>The non-blocking send never refuses. It reports 1 whatever the descriptor says, because the masked ready
  bit is compared with 1; and its last register write replaces the length it has just written by 0.\<close>

theorem eth_mac_send_nb_result:
  "eth_mac_send_nb tx_addr frame_length s =
     (1, eth_iowr TX_BD_ADDR_BASE 0x0000F000 (eth_iowr INT_SOURCE_ADDR 1
        (eth_iowr TX_BD_ADDR_BASE (push_bit 16 frame_length OR 0xF000)
          (eth_iowr (TX_BD_ADDR_BASE + 4) tx_addr (snd (eth_iord TX_BD_ADDR_BASE s))))))"
proof -
  have "fst (eth_mac_send_nb tx_addr frame_length s) = 1" by (rule eth_mac_send_nb_never_refuses)
  then show ?thesis
    by (auto simp: eth_mac_send_nb_def Let_def split_beta split: if_splits)
qed

text \<open>the result of a receive. It is 1 or 0, and 0 only when a timeout was asked for and was over: at the last
  poll the receive flag was clear and the clock had advanced by the timeout since the start.\<close>

theorem eth_mac_receive_result:
  fixes s t :: "'a eth_state_scheme"
  assumes "eth_mac_receive rx_addr timeout s = Some (r, t)"
  shows "r = 1 \<or> (r = 0 \<and> timeout \<noteq> 0 \<and>
    (\<exists>u. fst (eth_iord INT_SOURCE_ADDR u) AND INT_SOURCE_RXB_BIT = 0 \<and>
      timeout \<le> fst (get_cpu_usecs (snd (eth_iord INT_SOURCE_ADDR u))) - fst (get_cpu_usecs (rx_set_pointer rx_addr s)) \<and>
      t = snd (get_cpu_usecs (snd (eth_iord INT_SOURCE_ADDR u)))))"
proof (cases "timeout = 0")
  case False
  let ?c = "get_cpu_usecs (rx_set_pointer rx_addr s)"
  from assms False obtain a w where w: "wait_rx_until (fst ?c) timeout (snd ?c) = Some (a, w)"
    and r: "if a then r = 1 else r = 0 \<and> t = w"
    by (auto simp: eth_mac_receive_def Let_def split_beta split: bind_splits if_splits)
  from wait_rx_until_timeout [OF w] r False show ?thesis by (auto split: if_splits)
qed (use assms in \<open>auto simp: eth_mac_receive_def Let_def split: bind_splits\<close>)

text \<open>A controller that never receives anything, with a running clock.\<close>

primcorec silent_env :: "u64 \<Rightarrow> env" where
  "env_eth_rd (silent_env t) = (\<lambda>a b. (0, b, silent_env t))"
| "env_eth_wr (silent_env t) = (\<lambda>a v b. (b, silent_env t))"
| "env_eth1_rd (silent_env t) = (\<lambda>a b. (0, b, silent_env t))"
| "env_eth1_wr (silent_env t) = (\<lambda>a v b. (b, silent_env t))"
| "env_usecs (silent_env t) = (t, silent_env (t + 1))"
| "env_cycles (silent_env t) = (t, silent_env (t + 1))"
| "env_io_rd (silent_env t) = (\<lambda>a. (0, silent_env t))"
| "env_io_wr (silent_env t) = (\<lambda>a v. silent_env t)"

lemma eth_mac_receive_result_witness:
  "\<exists>r t. eth_mac_receive 0x800 1 \<lparr>buff = (\<lambda>_. 0), buff1 = (\<lambda>_. 0), dev = silent_env 7\<rparr> = Some (r, t) \<and> r = 0 \<and>
    (\<exists>u. fst (eth_iord INT_SOURCE_ADDR u) AND INT_SOURCE_RXB_BIT = 0 \<and>
      t = snd (get_cpu_usecs (snd (eth_iord INT_SOURCE_ADDR u))))"
proof -
  let ?s = "\<lparr>buff = (\<lambda>_. 0), buff1 = (\<lambda>_. 0), dev = silent_env 7\<rparr> :: eth_state"
  let ?t = "\<lparr>buff = (\<lambda>_. 0), buff1 = (\<lambda>_. 0), dev = silent_env 9\<rparr> :: eth_state"
  have "wait_rx_until 7 1 \<lparr>buff = (\<lambda>_. 0), buff1 = (\<lambda>_. 0), dev = silent_env 8\<rparr> = Some (False, ?t)"
    unfolding wait_rx_until_def by (rule loop_until_exit) (simp add: eth_iord_def get_cpu_usecs_def)
  then have "eth_mac_receive 0x800 1 ?s = Some (0, ?t)"
    by (simp add: eth_mac_receive_def rx_set_pointer_def eth_iord_def eth_iowr_def get_cpu_usecs_def)
  from this eth_mac_receive_result [OF this] show ?thesis by auto
qed

end
