(* ===== verification/Inet_Checksum.thy ===== *)
theory Inet_Checksum
  imports Eth_Buffer
begin

text \<open>
  The Internet checksum as the IPv4, UDP and TCP code computes it: a 32-bit sum of
  big-endian 16-bit words, three conditional folds of the carries, and a complement. The
  theory states what that computes over the natural numbers (the one's complement sum),
  which is what makes a packet with its checksum filled in verify.
\<close>

section \<open>The folds of the code\<close>

definition fold_carry :: "u32 \<Rightarrow> u32" where
  "fold_carry checksum =
     (if checksum AND 0xFFFF0000 > 0 then (checksum AND 0xFFFF) + drop_bit 16 checksum else checksum)"

text \<open>The statements that end every checksum function: three folds and the complement.\<close>

definition checksum_finish :: "u32 \<Rightarrow> u32" where
  "checksum_finish checksum = NOT (fold_carry (fold_carry (fold_carry checksum))) AND 0xFFFF"

text \<open>One 16-bit word of a packet, as the loops of the code add it up.\<close>

definition packet_word :: "buffer \<Rightarrow> u32 \<Rightarrow> u32" where
  "packet_word b a = push_bit 8 (mem_iord_byte b a) + (mem_iord_byte b (a + 1) AND 0xFF)"

section \<open>The one's complement sum\<close>

definition ones_sum :: "nat \<Rightarrow> nat" where
  "ones_sum n = (if n = 0 then 0 else Suc ((n - 1) mod 65535))"

lemma ones_sum_le: "ones_sum n \<le> 65535"
  by (simp add: ones_sum_def Suc_le_eq)

lemma ones_sum_small: "n \<le> 65535 \<Longrightarrow> ones_sum n = n"
  by (simp add: ones_sum_def)

lemma ones_sum_fold: "ones_sum (n mod 65536 + n div 65536) = ones_sum n"
proof (cases "n = 0")
  case False
  let ?f = "n mod 65536 + n div 65536"
  have "n = 65536 * (n div 65536) + n mod 65536" by simp
  then have n: "n = ?f + 65535 * (n div 65536)" by linarith
  with False have f: "?f \<noteq> 0" by (intro notI) simp
  with n have "n - 1 = (?f - 1) + 65535 * (n div 65536)" by linarith
  then have "(n - 1) mod 65535 = (?f - 1) mod 65535" by (metis mod_mult_self2)
  with False f show ?thesis by (simp add: ones_sum_def)
qed (simp add: ones_sum_def)

text \<open>The sum is full exactly for the positive multiples of 65535.\<close>

lemma ones_sum_full: "ones_sum n = 65535 \<longleftrightarrow> 0 < n \<and> 65535 dvd n"
proof (cases "n = 0")
  case False
  then obtain m where m: "n = Suc m" by (cases n) auto
  have "Suc (m mod 65535) = 65535 \<longleftrightarrow> Suc m mod 65535 = 0"
    by (metis mod_Suc nat.distinct(1))
  with m show ?thesis by (simp add: ones_sum_def dvd_eq_mod_eq_0)
qed (simp add: ones_sum_def)

section \<open>The folds compute the one's complement sum\<close>

lemma low_mask: "(0xFFFF :: u32) = mask 16"
  by (simp add: mask_eq_exp_minus_1)

lemma high_mask: "(0xFFFF0000 :: u32) = NOT (mask 16)"
  by (simp add: mask_eq_exp_minus_1)

lemma unat_low: "unat (c AND (0xFFFF :: u32)) = unat c mod 65536"
proof -
  have "c AND 0xFFFF = take_bit 16 c" by (simp add: low_mask take_bit_eq_mask)
  then have "unat (c AND 0xFFFF) = take_bit 16 (unat c)" by (simp only: unsigned_take_bit_eq)
  then show ?thesis by (simp add: take_bit_eq_mod)
qed

lemma unat_high: "unat (drop_bit 16 (c :: u32)) = unat c div 65536"
  by (simp add: unsigned_drop_bit_eq drop_bit_eq_div unat_div)

lemma high_zero: "c AND (0xFFFF0000 :: u32) > 0 \<longleftrightarrow> 65536 \<le> unat c"
proof -
  have "c AND 0xFFFF0000 = 0 \<longleftrightarrow> take_bit 16 c = c"
    unfolding high_mask by (auto simp: bit_eq_iff bit_simps)
  also have "\<dots> \<longleftrightarrow> unat c mod 65536 = unat c"
    by (metis low_mask take_bit_eq_mask unat_low word_unat_eq_iff)
  also have "\<dots> \<longleftrightarrow> unat c < 65536"
    by (metis mod_less mod_less_divisor zero_less_numeral)
  finally show ?thesis by (auto simp: word_gt_0 not_less)
qed

lemma unat_fold_carry:
  "unat (fold_carry c) = (if 65536 \<le> unat c then unat c mod 65536 + unat c div 65536 else unat c)"
proof -
  have "unat c < 2 ^ 32" using unsigned_less [of c] by simp
  then have "unat c mod 65536 + unat c div 65536 < 2 ^ 32" by simp
  then show ?thesis
    by (simp add: fold_carry_def high_zero unat_word_ariths unat_low unat_high)
qed

lemma ones_sum_fold_carry: "ones_sum (unat (fold_carry c)) = ones_sum (unat c)"
  by (simp add: unat_fold_carry ones_sum_fold)

lemma fold_carry_bound: "unat (fold_carry c) \<le> 131070"
proof -
  have "unat c < 4294967296" using unsigned_less [of c] by simp
  then have "unat c div 65536 \<le> 65535" by simp
  then have "unat c mod 65536 + unat c div 65536 \<le> 131070"
    using mod_less_divisor [of 65536 "unat c"] by linarith
  then show ?thesis by (auto simp: unat_fold_carry)
qed

lemma fold_carry_bound_again:
  assumes "unat c \<le> 131070" shows "unat (fold_carry c) \<le> 65535"
proof (cases "unat c < 65536")
  case True
  then show ?thesis by (simp add: unat_fold_carry)
next
  case False
  with assms have "unat c div 65536 = 1" "unat c mod 65536 = unat c - 65536"
    by (auto simp: div_nat_eqI le_mod_geq)
  with False assms show ?thesis by (simp add: unat_fold_carry)
qed

lemma unat_three_folds: "unat (fold_carry (fold_carry (fold_carry c))) = ones_sum (unat c)"
proof -
  let ?d = "fold_carry (fold_carry c)"
  have small: "unat ?d \<le> 65535" by (intro fold_carry_bound_again fold_carry_bound)
  then have "unat (fold_carry ?d) = unat ?d" by (simp add: unat_fold_carry)
  also have "\<dots> = ones_sum (unat ?d)" using small by (simp add: ones_sum_small)
  finally show ?thesis by (simp add: ones_sum_fold_carry)
qed

lemma unat_not_u32: "unat (NOT (f :: u32)) = 4294967295 - unat f"
proof -
  have "unat f < 2 ^ LENGTH(32)" by (rule unsigned_less)
  then have le: "unat f \<le> 4294967295" by simp
  have "NOT f = - 1 - f" by (simp add: not_eq_complement)
  moreover have "unat (4294967295 - f) = unat (4294967295 :: u32) - unat f"
    by (rule unat_sub) (use le in \<open>simp add: word_le_nat_alt\<close>)
  moreover have "(- 1 :: u32) = 4294967295" by simp
  ultimately show ?thesis by simp
qed

lemma unat_checksum_finish: "unat (checksum_finish c) = 65535 - ones_sum (unat c)"
proof -
  let ?o = "ones_sum (unat c)"
  have "unat (checksum_finish c) = (4294967295 - ?o) mod 65536"
    by (simp add: checksum_finish_def unat_low unat_not_u32 unat_three_folds)
  also have "4294967295 - ?o = (65535 - ?o) + 65536 * 65535"
    using ones_sum_le [of "unat c"] by simp
  also have "\<dots> mod 65536 = (65535 - ?o) mod 65536" by (rule mod_mult_self2)
  finally show ?thesis by simp
qed

lemma checksum_finish_zero: "checksum_finish c = 0 \<longleftrightarrow> ones_sum (unat c) = 65535"
  using unat_checksum_finish [of c] ones_sum_le [of "unat c"]
  by (metis diff_is_0_eq' diff_self_eq_0 eq_iff unat_eq_zero diff_is_0_eq)

text \<open>
  A packet whose words sum to \<open>s\<close> without the checksum field verifies once the field holds
  the checksum of \<open>s\<close>.
\<close>

lemma checksum_completes:
  assumes "0 < s" shows "ones_sum (s + (65535 - ones_sum s)) = 65535"
proof -
  have le: "ones_sum s \<le> 65535" by (rule ones_sum_le)
  obtain q where q: "s = ones_sum s + 65535 * q"
  proof
    show "s = ones_sum s + 65535 * ((s - 1) div 65535)"
      using assms by (simp add: ones_sum_def)
  qed
  then have "s + (65535 - ones_sum s) = 65535 * (q + 1)" using le by simp
  then show ?thesis unfolding ones_sum_full using assms by (metis add_gr_0 dvd_triv_left)
qed

text \<open>One 16-bit word of the sum, as a number.\<close>

lemma mem_iord_byte_less: "unat (mem_iord_byte b a) < 256"
proof -
  have "mem_iord_byte b a = take_bit 8 (mem_iord_byte b a)"
    using mem_iord_byte_mask [of b a] by (simp only: take_bit_eq_mask byte_mask)
  then have "unat (mem_iord_byte b a) = take_bit 8 (unat (mem_iord_byte b a))"
    by (metis unsigned_take_bit_eq)
  then have "unat (mem_iord_byte b a) = unat (mem_iord_byte b a) mod 256"
    by (simp add: take_bit_eq_mod)
  then show ?thesis by (metis mod_less_divisor zero_less_numeral)
qed

lemma unat_packet_word:
  "unat (packet_word b a) = 256 * unat (mem_iord_byte b a) + unat (mem_iord_byte b (a + 1))"
proof -
  have hi: "unat (mem_iord_byte b a) < 256" and lo: "unat (mem_iord_byte b (a + 1)) < 256"
    by (rule mem_iord_byte_less)+
  have "unat (push_bit 8 (mem_iord_byte b a)) = 256 * unat (mem_iord_byte b a)"
    using hi by (simp add: push_bit_eq_mult unat_word_ariths)
  with hi lo show ?thesis
    by (simp add: packet_word_def mem_iord_byte_mask unat_word_ariths)
qed

lemma unat_packet_word_le: "unat (packet_word b a) \<le> 65535"
  using mem_iord_byte_less [of b a] mem_iord_byte_less [of b "a + 1"]
  by (simp add: unat_packet_word)

text \<open>A loop that adds \<open>n\<close> consecutive words, while the sum cannot overflow.\<close>

lemma unat_sum_loop:
  assumes "n \<le> 65536"
  shows "unat (for_loop 0 n (\<lambda>k c. c + packet_word b (f k)) 0) = (\<Sum>k<n. unat (packet_word b (f k)))"
  using assms
proof (induction n)
  case 0
  then show ?case by (simp add: loop_simps)
next
  case (Suc n)
  have "(\<Sum>k<Suc n. unat (packet_word b (f k))) \<le> (\<Sum>k<Suc n. 65535)"
    by (rule sum_mono) (rule unat_packet_word_le)
  also have "\<dots> < 2 ^ 32" using Suc.prems by simp
  finally show ?case using Suc by (simp add: for_loop_Suc unat_word_ariths)
qed

end
