(* ===== verification/Eth_Cable.thy ===== *)
theory Eth_Cable
  imports Eth_Device
begin

text \<open>
  A controller with a cable, on which protocols are run between nodes. It keeps what the register
  interface of \<^verbatim>\<open>eth_mac_driver.c\<close> is for: the bytes of a frame leave the buffer when the transmit
  descriptor is written with a length, from the address in its pointer register; a frame that has arrived is
  stored where the receive pointer says when the program looks for it, and acknowledged by a write to the
  interrupt source register. The other memory-mapped devices are a map of registers. Like
  \<^const>\<open>ready_env\<close> it is one concrete value of the type \<^typ>\<open>env\<close>; the drivers and protocols
  are not defined in terms of it.
\<close>

section \<open>Frames as bytes\<close>

definition frame_bytes :: "buffer \<Rightarrow> u32 \<Rightarrow> nat \<Rightarrow> u32 list" where
  "frame_bytes b p n = map (frame_byte b p) [0..<n]"

definition put_frame :: "u32 list \<Rightarrow> u32 \<Rightarrow> buffer \<Rightarrow> buffer" where
  "put_frame F p b = for_loop 0 (length F) (\<lambda>i. mem_iowr_byte (p + of_nat i) (F ! i)) b"

definition same_frame :: "nat \<Rightarrow> buffer \<Rightarrow> u32 \<Rightarrow> buffer \<Rightarrow> u32 \<Rightarrow> bool" where
  "same_frame n m p m' p' \<longleftrightarrow> (\<forall>j<n. frame_byte m p j = frame_byte m' p' j)"

lemma length_frame_bytes [simp]: "length (frame_bytes b p n) = n"
  by (simp add: frame_bytes_def)

lemma nth_frame_bytes [simp]: "j < n \<Longrightarrow> frame_bytes b p n ! j = frame_byte b p j"
  by (simp add: frame_bytes_def)

text \<open>A frame is the same after it was sent and stored, at whatever addresses.\<close>

lemma same_frame_put:
  assumes "n \<le> 65536"
  shows "same_frame n (put_frame (frame_bytes m q n) p b) p m q"
proof -
  have "frame_byte (put_frame (frame_bytes m q n) p b) p j = frame_byte m q j" if "j < n" for j
    using frame_byte_fill [of 0 n j p "\<lambda>i. frame_bytes m q n ! i" b] that assms
    by (simp add: put_frame_def frame_byte_def mem_iord_byte_mask)
  then show ?thesis by (simp add: same_frame_def)
qed

section \<open>The controller\<close>

record cable =
  cab_ptr :: u32
  cab_sent :: "u32 list list"
  cab_rx :: u32
  cab_in :: "u32 list option"
  cab_time :: u64
  cab_io :: "u32 \<Rightarrow> u32"

definition cable_rd :: "30 word \<Rightarrow> buffer \<Rightarrow> cable \<Rightarrow> u32 \<times> buffer" where
  "cable_rd a b c =
     (if a = 1 then case cab_in c of None \<Rightarrow> (1, b) | Some F \<Rightarrow> (5, put_frame F (cab_rx c) b)
      else if a = 8 then (1, b) else (0, b))"

definition cable_wr :: "30 word \<Rightarrow> u32 \<Rightarrow> buffer \<Rightarrow> cable \<Rightarrow> cable" where
  "cable_wr a v b c =
     (if a = 0x101 then c\<lparr>cab_ptr := v\<rparr>
      else if a = 0x100 \<and> drop_bit 16 v \<noteq> 0
      then c\<lparr>cab_sent := cab_sent c @ [frame_bytes b (cab_ptr c) (unat (drop_bit 16 v))]\<rparr>
      else if a = 0x103 then c\<lparr>cab_rx := v\<rparr>
      else if a = 1 \<and> v AND 4 \<noteq> 0 then c\<lparr>cab_in := None\<rparr>
      else c)"

text \<open>
  The second controller is the other end of the cable: it hands out the bytes of the frames, one at a
  time. The answer is 0 when there is none, 1 at the end of a frame, and 2 with a byte.
\<close>

definition cable_end :: "cable \<Rightarrow> u32 \<times> u32 \<times> cable" where
  "cable_end c =
     (case cab_sent c of
        [] \<Rightarrow> (0, 0, c)
      | [] # Fs \<Rightarrow> (1, 0, c\<lparr>cab_sent := Fs\<rparr>)
      | (x # F) # Fs \<Rightarrow> (2, x, c\<lparr>cab_sent := F # Fs\<rparr>))"

primcorec cable_env :: "cable \<Rightarrow> env" where
  "env_eth_rd (cable_env c) = (\<lambda>a b. (fst (cable_rd a b c), snd (cable_rd a b c), cable_env c))"
| "env_eth_wr (cable_env c) = (\<lambda>a v b. (b, cable_env (cable_wr a v b c)))"
| "env_eth1_rd (cable_env c) =
     (\<lambda>a b. (fst (cable_end c), (\<lambda>_. fst (snd (cable_end c))), cable_env (snd (snd (cable_end c)))))"
| "env_eth1_wr (cable_env c) = (\<lambda>a v b. (b, cable_env c))"
| "env_usecs (cable_env c) = (cab_time c, cable_env (c\<lparr>cab_time := cab_time c + 1\<rparr>))"
| "env_cycles (cable_env c) = (cab_time c, cable_env (c\<lparr>cab_time := cab_time c + 1\<rparr>))"
| "env_io_rd (cable_env c) = (\<lambda>a. (cab_io c a, cable_env c))"
| "env_io_wr (cable_env c) = (\<lambda>a v. cable_env (c\<lparr>cab_io := (cab_io c)(a := v)\<rparr>))"

text \<open>What was sent, and the registers, are observable: two cables that behave alike agree on them.\<close>

lemma cable_end_sent: "cable_env c = cable_env d \<Longrightarrow> fst (cable_end c) = fst (cable_end d) \<and>
    fst (snd (cable_end c)) = fst (snd (cable_end d)) \<and> cable_env (snd (snd (cable_end c))) = cable_env (snd (snd (cable_end d)))"
proof -
  assume "cable_env c = cable_env d"
  then have "env_eth1_rd (cable_env c) 0 (\<lambda>_. 0) = env_eth1_rd (cable_env d) 0 (\<lambda>_. 0)" by simp
  then show ?thesis by (simp add: fun_eq_iff)
qed

lemma cable_env_sent: "cable_env c = cable_env d \<Longrightarrow> cab_sent c = cab_sent d"
proof (induction "sum_list (map (\<lambda>F. Suc (length F)) (cab_sent c))" arbitrary: c d rule: less_induct)
  case less
  note e = cable_end_sent [OF less.prems]
  then have v: "fst (cable_end c) = fst (cable_end d)" "fst (snd (cable_end c)) = fst (snd (cable_end d))" by simp_all
  show ?case
  proof (cases "cab_sent c")
    case Nil
    with v show ?thesis by (auto simp: cable_end_def split: list.splits)
  next
    case (Cons F Fs)
    then have "sum_list (map (\<lambda>F. Suc (length F)) (cab_sent (snd (snd (cable_end c))))) <
        sum_list (map (\<lambda>F. Suc (length F)) (cab_sent c))"
      by (cases F) (simp_all add: cable_end_def)
    with less.hyps e have "cab_sent (snd (snd (cable_end c))) = cab_sent (snd (snd (cable_end d)))" by blast
    with Cons v show ?thesis by (cases F) (auto simp: cable_end_def split: list.splits)
  qed
qed

lemma cable_env_io: "cable_env c = cable_env d \<Longrightarrow> cab_io c = cab_io d"
proof
  fix a assume "cable_env c = cable_env d"
  then have "fst (env_io_rd (cable_env c) a) = fst (env_io_rd (cable_env d) a)" by simp
  then show "cab_io c a = cab_io d a" by simp
qed

text \<open>The frames sent on a cable; by \<open>cable_env_sent\<close> the device determines them.\<close>

definition on_cable :: "env \<Rightarrow> u32 list list \<Rightarrow> bool" where
  "on_cable d Fs \<longleftrightarrow> (\<exists>c. d = cable_env c \<and> cab_sent c = Fs)"

lemma on_cable_unique: "on_cable d Fs \<Longrightarrow> on_cable d Gs \<Longrightarrow> Fs = Gs"
  unfolding on_cable_def using cable_env_sent by blast

lemma on_cable_env [simp]: "on_cable (cable_env c) Fs \<longleftrightarrow> cab_sent c = Fs"
  unfolding on_cable_def using cable_env_sent by blast

text \<open>A cable on which nothing was sent yet and nothing has arrived.\<close>

definition quiet_cable :: cable where
  "quiet_cable = \<lparr>cab_ptr = 0, cab_sent = [], cab_rx = 0, cab_in = None, cab_time = 0, cab_io = \<lambda>_. 0\<rparr>"

section \<open>Accesses\<close>

lemma cable_iord: "dev s = cable_env c \<Longrightarrow> eth_iord a s =
    (fst (cable_rd (word_slot a) (buff s) c), s\<lparr>buff := snd (cable_rd (word_slot a) (buff s) c)\<rparr>)"
  by (cases s) (simp add: eth_iord_def)

lemma cable_iowr: "dev s = cable_env c \<Longrightarrow> eth_iowr a v s = s\<lparr>dev := cable_env (cable_wr (word_slot a) v (buff s) c)\<rparr>"
  by (cases s) (simp add: eth_iowr_def)

lemma cable_usecs: "dev s = cable_env c \<Longrightarrow>
    get_cpu_usecs s = (cab_time c, s\<lparr>dev := cable_env (c\<lparr>cab_time := cab_time c + 1\<rparr>)\<rparr>)"
  by (simp add: get_cpu_usecs_def)

lemma cable_slots: "word_slot 4 = 1" "word_slot 0x20 = 8" "word_slot 0x400 = 0x100" "word_slot 0x404 = 0x101"
    "word_slot 0x40C = 0x103" "word_slot 0x408 = 0x102"
  by (simp_all add: word_slot_def)

lemma cable_length: "n < 2 ^ 16 \<Longrightarrow> drop_bit 16 (push_bit 16 n) = (n :: u32)"
proof (rule bit_word_eqI)
  fix i :: nat assume n: "n < 2 ^ 16" and "i < LENGTH(32)"
  have "\<not> bit n i" if "16 \<le> i"
    using n that by (metis bit_take_bit_iff less_mask_eq not_less take_bit_eq_mask and.commute word_less_nat_alt)
  then show "bit (drop_bit 16 (push_bit 16 n)) i = bit n i"
    using \<open>i < LENGTH(32)\<close> by (cases "16 \<le> i") (auto simp: bit_simps add.commute)
qed

text \<open>The cable after a frame of \<open>n\<close> bytes at \<open>p\<close> was sent.\<close>

definition with_frame :: "u32 list \<Rightarrow> u32 \<Rightarrow> cable \<Rightarrow> cable" where
  "with_frame F p c = c\<lparr>cab_ptr := p, cab_sent := cab_sent c @ [F]\<rparr>"

lemma cable_send:
  assumes "dev s = cable_env c" and "cab_in c = None" and "0 < n" and "n < 2 ^ 16"
  shows "eth_mac_send tx n s = Some (s\<lparr>dev := cable_env (with_frame (frame_bytes (buff s) tx (unat n)) tx c)\<rparr>)"
proof -
  have "n \<noteq> 0" using assms(3) by auto
  with assms show ?thesis
    by (simp add: eth_mac_send_def wait_tx_free_once wait_tx_done_def cable_iord cable_iowr cable_slots cable_rd_def cable_wr_def
        cable_length with_frame_def loop_until_exit)
qed

lemma cable_send_nb:
  assumes "dev s = cable_env c" and "0 < n" and "n < 2 ^ 16"
  shows "eth_mac_send_nb tx n s =
    (1, s\<lparr>dev := cable_env (with_frame (frame_bytes (buff s) tx (unat n)) tx c)\<rparr>)"
proof -
  have "n \<noteq> 0" using assms(2) by auto
  with assms show ?thesis
    by (simp add: eth_mac_send_nb_def cable_iord cable_iowr cable_slots cable_rd_def cable_wr_def cable_length with_frame_def Let_def)
qed

text \<open>A frame that has arrived is received at once, into the place asked for.\<close>

lemma cable_receive:
  assumes "dev s = cable_env c" and "cab_in c = Some F"
  shows "\<exists>t. eth_mac_receive rx 1 s =
    Some (1, s\<lparr>buff := put_frame F rx (buff s), dev := cable_env (c\<lparr>cab_rx := rx, cab_time := t, cab_in := None\<rparr>)\<rparr>)"
  using assms
  by (intro exI [of _ "cab_time c + 1"])
    (simp add: eth_mac_receive_def rx_set_pointer_def rx_rearm_def wait_rx_until_def RX_BD_ADDR_BASE_def
      cable_iord cable_iowr cable_usecs cable_slots cable_rd_def cable_wr_def loop_until_exit Let_def)

end
