(* ===== verification/Mac_Layer.thy ===== *)
theory Mac_Layer
  imports Eth_Cable
begin

text \<open>
  The MAC layer (\<^verbatim>\<open>ethlib/mac.c\<close>): the system's MAC address, the classification of a
  received frame by its Ethernet type and IP protocol, and the address fields.
\<close>

section \<open>Data\<close>

datatype eth_protocol =
  TIMEOUT | UNSUPPORTED | IP | ICMP | UDP | TCP | PTP | ARP | LLDP | MDNS | TTE_PCF | TTE_MSG
| INTERNOC_MSG

record mac_state = eth_state +
  my_mac :: "u8 list"

text \<open>The initial value of the global \<^verbatim>\<open>my_mac\<close>.\<close>

definition my_mac_init :: "u8 list" where
  "my_mac_init = [0x00, 0x80, 0x6e, 0xF0, 0xDA, 0x42]"

section \<open>Operations\<close>

definition mac_packet_type :: "buffer \<Rightarrow> u32 \<Rightarrow> eth_protocol" where
  "mac_packet_type m addr =
     (let b = (ucast (mem_iord_byte m (addr + 13)) :: u8)
      in if mem_iord_byte m (addr + 12) = 0x08
         then if b = 0x00
              then let b = (ucast (mem_iord_byte m (addr + 23)) :: u8)
                   in if b = 0x01 then ICMP
                      else if b = 0x11 then UDP
                      else if b = 0x06 then TCP
                      else UNSUPPORTED
              else if b = 0x06 then ARP
              else UNSUPPORTED
         else if mem_iord_byte m (addr + 12) = 0x88
         then if b = 0xc then LLDP
              else if b = 0xf7 then PTP
              else UNSUPPORTED
         else if mem_iord_byte m (addr + 12) = 0x89
         then if b = 0x1d then TTE_PCF else UNSUPPORTED
         else UNSUPPORTED)"

text \<open>
  A function that fills a caller's array with consecutive packet bytes: the list of the
  bytes it stores.
\<close>

definition packet_bytes :: "buffer \<Rightarrow> u32 \<Rightarrow> nat \<Rightarrow> u8 list" where
  "packet_bytes m a n = map (\<lambda>i. ucast (mem_iord_byte m (a + of_nat i))) [0..<n]"

definition mac_addr_sender :: "buffer \<Rightarrow> u32 \<Rightarrow> u8 list" where
  "mac_addr_sender m rx_addr = packet_bytes m (rx_addr + 6) 6"

definition mac_addr_dest :: "buffer \<Rightarrow> u32 \<Rightarrow> u8 list" where
  "mac_addr_dest m rx_addr = packet_bytes m rx_addr 6"

definition mac_compare_mac :: "u8 list \<Rightarrow> u8 list \<Rightarrow> u8" where
  "mac_compare_mac mac1 mac2 =
     (if mac1 ! 0 = mac2 ! 0 \<and> mac1 ! 1 = mac2 ! 1 \<and> mac1 ! 2 = mac2 ! 2 \<and>
         mac1 ! 3 = mac2 ! 3 \<and> mac1 ! 4 = mac2 ! 4 \<and> mac1 ! 5 = mac2 ! 5
      then 1 else 0)"

section \<open>Facts\<close>

lemma length_packet_bytes [simp]: "length (packet_bytes m a n) = n"
  by (simp add: packet_bytes_def)

lemma nth_packet_bytes: "i < n \<Longrightarrow> packet_bytes m a n ! i = ucast (mem_iord_byte m (a + of_nat i))"
  by (simp add: packet_bytes_def)

lemma packet_bytes_4:
  "packet_bytes m a 4 = map (\<lambda>x. ucast (mem_iord_byte m x)) [a, a + 1, a + 2, a + 3]"
proof -
  have "[0..<4] = [0, 1, 2, 3 :: nat]" by (simp add: upt_conv_Cons)
  then show ?thesis by (simp add: packet_bytes_def)
qed

lemma packet_bytes_6:
  "packet_bytes m a 6 = map (\<lambda>x. ucast (mem_iord_byte m x)) [a, a + 1, a + 2, a + 3, a + 4, a + 5]"
proof -
  have "[0..<6] = [0, 1, 2, 3, 4, 5 :: nat]" by (simp add: upt_conv_Cons)
  then show ?thesis by (simp add: packet_bytes_def)
qed

lemma nth_equal_6:
  assumes "length xs = 6" "length ys = 6"
  shows "xs ! 0 = ys ! 0 \<and> xs ! 1 = ys ! 1 \<and> xs ! 2 = ys ! 2 \<and> xs ! 3 = ys ! 3 \<and>
    xs ! 4 = ys ! 4 \<and> xs ! 5 = ys ! 5 \<longleftrightarrow> xs = ys"
  using assms by (auto simp: numeral_eq_Suc length_Suc_conv)

lemma mac_compare_mac_eq:
  "length a = 6 \<Longrightarrow> length b = 6 \<Longrightarrow> mac_compare_mac a b = (if a = b then 1 else 0)"
  by (simp only: mac_compare_mac_def nth_equal_6)

text \<open>A byte value and its 8-bit word say the same.\<close>

lemma byte_eq_iff: "(ucast (mem_iord_byte m a) :: u8) = ucast (mem_iord_byte m' a') \<longleftrightarrow>
    mem_iord_byte m a = mem_iord_byte m' a'"
  by (metis buf.rd_of_byte)

lemma u8_u32_u8 [simp]: "ucast (ucast (c :: u8) :: u32) = c"
  by (rule bit_word_eqI) (simp add: bit_simps)

lemma byte_literal:
  "(ucast (mem_iord_byte m a) :: u8) = c \<longleftrightarrow> mem_iord_byte m a = ucast c"
  by (metis buf.rd_of_byte u8_u32_u8)

text \<open>The classification reads bytes 12, 13 and 23 of the frame.\<close>

lemma mac_packet_type_frame:
  assumes "packet_bytes m t n = fr" and "23 < n"
  shows "mac_packet_type m t =
    (if fr ! 12 = 0x08 then
       if fr ! 13 = 0x00 then
         if fr ! 23 = 0x01 then ICMP else if fr ! 23 = 0x11 then UDP else if fr ! 23 = 0x06 then TCP
         else UNSUPPORTED
       else if fr ! 13 = 0x06 then ARP else UNSUPPORTED
     else if fr ! 12 = 0x88 then
       if fr ! 13 = 0x0c then LLDP else if fr ! 13 = 0xf7 then PTP else UNSUPPORTED
     else if fr ! 12 = 0x89 then if fr ! 13 = 0x1d then TTE_PCF else UNSUPPORTED
     else UNSUPPORTED)"
proof -
  have fr: "fr ! 12 = ucast (mem_iord_byte m (t + 12))" "fr ! 13 = ucast (mem_iord_byte m (t + 13))"
    "fr ! 23 = ucast (mem_iord_byte m (t + 23))"
    using assms by (auto simp: nth_packet_bytes)
  have word: "mem_iord_byte m a = 0x08 \<longleftrightarrow> (ucast (mem_iord_byte m a) :: u8) = 0x08"
    "mem_iord_byte m a = 0x88 \<longleftrightarrow> (ucast (mem_iord_byte m a) :: u8) = 0x88"
    "mem_iord_byte m a = 0x89 \<longleftrightarrow> (ucast (mem_iord_byte m a) :: u8) = 0x89" for a
    by (simp_all add: byte_literal)
  show ?thesis unfolding mac_packet_type_def Let_def word fr by (rule refl)
qed

end
