(* ===== verification/Ipv4_Layer.thy ===== *)
theory Ipv4_Layer
  imports Mac_Layer Inet_Checksum
begin

text \<open>
  The IPv4 layer (\<^verbatim>\<open>ethlib/ipv4.c\<close>, \<^verbatim>\<open>ethlib/ipv4.h\<close>): the header fields of a received packet,
  the system's IP address, and the header checksum.
\<close>

section \<open>Data\<close>

record iphead_t =
  ver_headlen :: u8
  dscp_ecn :: u8
  ip_length :: u16
  identification :: u16
  flags_fragmentoff :: u16
  ttl :: u8
  protocol :: u8
  head_checksum :: u16
  source_ip :: "u8 list"
  destination_ip :: "u8 list"

record ip_t =
  ip_head :: iphead_t
  ip_data :: "u8 list"

record ip_state = mac_state +
  my_ip :: "u8 list"

definition my_ip_init :: "u8 list" where
  "my_ip_init = [192, 168, 24, 50]"

section \<open>Header fields\<close>

text \<open>
  Some accessors shift a plain \<^verbatim>\<open>char\<close>. Whether \<^verbatim>\<open>char\<close> is signed is the compiler's choice,
  so it is a parameter here: a signed value is shifted arithmetically after its promotion.
\<close>

definition char_shift_right :: "bool \<Rightarrow> nat \<Rightarrow> u8 \<Rightarrow> u8" where
  "char_shift_right char_signed n c = (if char_signed then signed_drop_bit n c else drop_bit n c)"

definition ipv4_get_version :: "bool \<Rightarrow> buffer \<Rightarrow> u32 \<Rightarrow> u8" where
  "ipv4_get_version char_signed m pkt_addr =
     (let version = ucast (mem_iord_byte m (pkt_addr + 14)) in char_shift_right char_signed 4 version)"

definition ipv4_get_type_of_service :: "bool \<Rightarrow> buffer \<Rightarrow> u32 \<Rightarrow> u8" where
  "ipv4_get_type_of_service char_signed m pkt_addr =
     (let tos = ucast (mem_iord_byte m (pkt_addr + 14 + 1)) in char_shift_right char_signed 2 tos)"

definition ipv4_get_length :: "buffer \<Rightarrow> u32 \<Rightarrow> u16" where
  "ipv4_get_length m pkt_addr =
     (let len = ucast (mem_iord_byte m (pkt_addr + 14 + 2));
          len = push_bit 8 len
      in len + ucast (mem_iord_byte m (pkt_addr + 14 + 3)))"

definition ipv4_get_identification :: "buffer \<Rightarrow> u32 \<Rightarrow> u32" where
  "ipv4_get_identification m pkt_addr =
     (let ident = mem_iord_byte m (pkt_addr + 14 + 4);
          ident = push_bit 8 ident
      in ident + mem_iord_byte m (pkt_addr + 14 + 5))"

definition ipv4_get_flags :: "bool \<Rightarrow> buffer \<Rightarrow> u32 \<Rightarrow> u8" where
  "ipv4_get_flags char_signed m pkt_addr =
     (let flags = ucast (mem_iord_byte m (pkt_addr + 14 + 6)) in char_shift_right char_signed 5 flags)"

definition ipv4_get_ttl :: "buffer \<Rightarrow> u32 \<Rightarrow> u8" where
  "ipv4_get_ttl m pkt_addr = ucast (mem_iord_byte m (pkt_addr + 14 + 8))"

definition ipv4_get_protocol :: "buffer \<Rightarrow> u32 \<Rightarrow> u8" where
  "ipv4_get_protocol m pkt_addr = ucast (mem_iord_byte m (pkt_addr + 14 + 9))"

definition ipv4_get_checksum :: "buffer \<Rightarrow> u32 \<Rightarrow> u32" where
  "ipv4_get_checksum m pkt_addr =
     push_bit 8 (mem_iord_byte m (pkt_addr + 24)) + (mem_iord_byte m (pkt_addr + 25) AND 0xFF)"

definition ipv4_get_source_ip :: "buffer \<Rightarrow> u32 \<Rightarrow> u8 list" where
  "ipv4_get_source_ip m pkt_addr = packet_bytes m (pkt_addr + 26) 4"

definition ipv4_get_destination_ip :: "buffer \<Rightarrow> u32 \<Rightarrow> u8 list" where
  "ipv4_get_destination_ip m pkt_addr = packet_bytes m (pkt_addr + 30) 4"

section \<open>Support functions\<close>

definition ipv4_compare_ip :: "u8 list \<Rightarrow> u8 list \<Rightarrow> u32" where
  "ipv4_compare_ip ip1 ip2 =
     (if ip1 ! 0 = ip2 ! 0 \<and> ip1 ! 1 = ip2 ! 1 \<and> ip1 ! 2 = ip2 ! 2 \<and> ip1 ! 3 = ip2 ! 3
      then 1 else 0)"

definition ipv4_set_my_ip :: "u8 list \<Rightarrow> 'a ip_state_scheme \<Rightarrow> 'a ip_state_scheme" where
  "ipv4_set_my_ip new_ip s =
     for_loop 0 4 (\<lambda>i s. s\<lparr>my_ip := (my_ip s)[i := new_ip ! i]\<rparr>) s"

text \<open>
  The loop both checksum functions start with. Its index in the C code runs over 0, 2,
  \<open>\<dots>\<close>, 18: ten words of the header.
\<close>

definition ipv4_header_sum :: "buffer \<Rightarrow> u32 \<Rightarrow> u32" where
  "ipv4_header_sum m pkt_addr = for_loop 0 10 (\<lambda>k checksum. checksum
              + push_bit 8 (mem_iord_byte m (pkt_addr + 14 + of_nat (2 * k)))
              + (mem_iord_byte m (pkt_addr + 15 + of_nat (2 * k)) AND 0xFF)) 0"

text \<open>The statement after the loop is \<^verbatim>\<open>checksum - (high << 8) + (low & 0xFF)\<close>.\<close>

definition ipv4_compute_checksum :: "buffer \<Rightarrow> u32 \<Rightarrow> u16" where
  "ipv4_compute_checksum m pkt_addr =
     (let checksum = ipv4_header_sum m pkt_addr;
          checksum = checksum - push_bit 8 (mem_iord_byte m (pkt_addr + 24))
              + (mem_iord_byte m (pkt_addr + 25) AND 0xFF)
      in ucast (checksum_finish checksum))"

definition ipv4_verify_checksum :: "buffer \<Rightarrow> u32 \<Rightarrow> u32" where
  "ipv4_verify_checksum m pkt_addr =
     (let checksum = ipv4_header_sum m pkt_addr;
          checksum = checksum_finish checksum
      in if checksum = 0 then 1 else 0)"

section \<open>The header sum\<close>

text \<open>The ten words of a header, their sum, and the sum without the checksum field.\<close>

definition header_word :: "buffer \<Rightarrow> u32 \<Rightarrow> nat \<Rightarrow> nat" where
  "header_word m pkt_addr k = unat (packet_word m (pkt_addr + 14 + of_nat (2 * k)))"

definition header_sum :: "buffer \<Rightarrow> u32 \<Rightarrow> nat" where
  "header_sum m pkt_addr = (\<Sum>k<10. header_word m pkt_addr k)"

definition header_sum_rest :: "buffer \<Rightarrow> u32 \<Rightarrow> nat" where
  "header_sum_rest m pkt_addr = (\<Sum>k\<in>{..<10} - {5}. header_word m pkt_addr k)"

lemma header_word_le: "header_word m p k \<le> 65535"
  by (simp add: header_word_def unat_packet_word_le)

lemma header_sum_split: "header_sum m p = header_word m p 5 + header_sum_rest m p"
  unfolding header_sum_def header_sum_rest_def by (subst sum.remove [of _ 5]) simp_all

lemma header_checksum_word:
  "header_word m p 5 = 256 * unat (mem_iord_byte m (p + 24)) + unat (mem_iord_byte m (p + 25))"
  by (simp add: header_word_def unat_packet_word add.assoc)

lemma header_loop: "unat (ipv4_header_sum m p) = header_sum m p"
proof -
  have "(\<lambda>k checksum. checksum + push_bit 8 (mem_iord_byte m (p + 14 + of_nat (2 * k)))
       + (mem_iord_byte m (p + 15 + of_nat (2 * k)) AND 0xFF))
     = (\<lambda>k checksum. checksum + packet_word m (p + 14 + of_nat (2 * k)))"
    by (simp add: packet_word_def fun_eq_iff add_ac)
  then show ?thesis
    by (simp add: ipv4_header_sum_def unat_sum_loop header_sum_def header_word_def)
qed

lemma header_sum_bound: "header_sum m p \<le> 655350"
proof -
  have "header_sum m p \<le> (\<Sum>k<(10::nat). 65535)"
    unfolding header_sum_def by (rule sum_mono) (rule header_word_le)
  then show ?thesis by simp
qed

section \<open>What the checksum functions compute\<close>

text \<open>
  The sum that is complemented: the other nine words, plus twice the low byte of the
  checksum field, because the code subtracts the high byte and adds the low one.
\<close>

lemma compute_checksum_value:
  "unat (ipv4_compute_checksum m p) =
     65535 - ones_sum (header_sum_rest m p + 2 * unat (mem_iord_byte m (p + 25)))"
proof -
  let ?hi = "mem_iord_byte m (p + 24)" and ?lo = "mem_iord_byte m (p + 25)"
  let ?c = "ipv4_header_sum m p"
  have hi: "unat (push_bit 8 ?hi) = 256 * unat ?hi"
    using mem_iord_byte_less [of m "p + 24"] by (simp add: push_bit_eq_mult unat_word_ariths)
  have c: "unat ?c = 256 * unat ?hi + unat ?lo + header_sum_rest m p"
    by (simp only: header_loop header_sum_split header_checksum_word)
  have bound: "unat ?c \<le> 655350" by (simp only: header_loop header_sum_bound)
  have "unat (?c - push_bit 8 ?hi) = unat ?c - unat (push_bit 8 ?hi)"
    by (rule unat_sub) (simp add: word_le_nat_alt hi c)
  then have sub: "unat (?c - push_bit 8 ?hi) = unat ?lo + header_sum_rest m p"
    by (simp add: hi c)
  have "unat (?c - push_bit 8 ?hi + (?lo AND 0xFF)) = header_sum_rest m p + 2 * unat ?lo"
    using mem_iord_byte_less [of m "p + 25"] bound
    by (simp add: unat_word_ariths mem_iord_byte_mask sub c)
  then show ?thesis
    by (simp add: ipv4_compute_checksum_def Let_def unsigned_ucast_eq take_bit_eq_mod
        unat_checksum_finish)
qed

lemma verify_checksum_iff:
  "ipv4_verify_checksum m p = 1 \<longleftrightarrow> 0 < header_sum m p \<and> 65535 dvd header_sum m p"
  by (simp add: ipv4_verify_checksum_def Let_def checksum_finish_zero header_loop ones_sum_full)

text \<open>The four statements with which the senders store the checksum.\<close>

definition store_ip_checksum :: "u32 \<Rightarrow> buffer \<Rightarrow> buffer" where
  "store_ip_checksum tx_addr m =
     (let checksum = ipv4_compute_checksum m tx_addr;
          m = mem_iowr_byte (tx_addr + 24) (ucast (drop_bit 8 checksum)) m
      in mem_iowr_byte (tx_addr + 25) (ucast (checksum AND 0xFF)) m)"

lemma header_offsets:
  "(p :: u32) + 14 + of_nat (2 * k) = p + (14 + of_nat (2 * k))"
  "(p :: u32) + 14 + of_nat (2 * k) + 1 = p + (15 + of_nat (2 * k))"
  by (simp_all add: add.assoc)

lemma header_word_other:
  assumes "k \<in> {..<10} - {5}" and "a = p + 24 \<or> a = p + 25"
  shows "header_word (mem_iowr_byte a v m) p k = header_word m p k"
proof -
  have "k \<in> {0, 1, 2, 3, 4, 6, 7, 8, 9}" using assms(1) by auto
  then have "a \<noteq> p + 14 + of_nat (2 * k)" "a \<noteq> p + 14 + of_nat (2 * k) + 1"
    using assms(2) unfolding header_offsets by auto
  then show ?thesis by (simp add: header_word_def unat_packet_word mem_simps)
qed

lemma header_sum_rest_other:
  assumes "a = p + 24 \<or> a = p + 25"
  shows "header_sum_rest (mem_iowr_byte a v m) p = header_sum_rest m p"
  unfolding header_sum_rest_def
  by (rule sum.cong) (simp_all only: header_word_other [OF _ assms])

lemma stored_checksum_word:
  "header_word (store_ip_checksum p m) p 5 = unat (ipv4_compute_checksum m p)"
  using u16_less [of "ipv4_compute_checksum m p"]
  by (simp add: header_checksum_word store_ip_checksum_def Let_def mem_simps unat_and_byte_u32
      unat_and_byte_u16 unat_high_byte_u16)

lemma store_then_verify:
  assumes low: "mem_iord_byte m (p + 25) = 0" and pos: "0 < header_sum_rest m p"
  shows "ipv4_verify_checksum (store_ip_checksum p m) p = 1"
proof -
  have rest: "header_sum_rest (store_ip_checksum p m) p = header_sum_rest m p"
    by (simp add: store_ip_checksum_def Let_def header_sum_rest_other)
  have "header_sum (store_ip_checksum p m) p =
      header_sum_rest m p + (65535 - ones_sum (header_sum_rest m p))"
    by (simp add: header_sum_split stored_checksum_word rest compute_checksum_value low)
  then show ?thesis
    using checksum_completes [OF pos] by (simp add: verify_checksum_iff ones_sum_full)
qed

lemma stored_sum_full:
  assumes "0 < s"
  shows "65535 dvd s + (65535 - ones_sum (s + 2 * l)) \<longleftrightarrow> 65535 dvd 2 * l"
proof -
  let ?t = "s + 2 * l"
  have c: "65535 dvd ?t + (65535 - ones_sum ?t)"
    using checksum_completes [of ?t] assms by (simp add: ones_sum_full)
  have "?t + (65535 - ones_sum ?t) = (s + (65535 - ones_sum ?t)) + 2 * l" by simp
  with c show ?thesis by (metis dvd_add_left_iff dvd_add_right_iff)
qed

text \<open>C33: the IP header checksum verifies after it was stored exactly when the low byte of the checksum field was
  zero before: the code is meant to leave the field out of the sum, but subtracts its high byte and adds its
  low byte once more.\<close>

theorem ipv4_checksum_roundtrip:
  assumes "0 < header_sum_rest m p"
  shows "ipv4_verify_checksum (store_ip_checksum p m) p = 1 \<longleftrightarrow> mem_iord_byte m (p + 25) = 0"
proof -
  let ?l = "unat (mem_iord_byte m (p + 25))"
  have rest: "header_sum_rest (store_ip_checksum p m) p = header_sum_rest m p"
    by (simp add: store_ip_checksum_def Let_def header_sum_rest_other)
  have sum: "header_sum (store_ip_checksum p m) p =
      header_sum_rest m p + (65535 - ones_sum (header_sum_rest m p + 2 * ?l))"
    by (simp add: header_sum_split stored_checksum_word rest compute_checksum_value)
  have "?l < 256" using mem_iord_byte_less [of m "p + 25"] by (simp add: word_less_nat_alt)
  then have "65535 dvd 2 * ?l \<longleftrightarrow> ?l = 0" by (auto dest: dvd_imp_le)
  with assms sum stored_sum_full [OF assms, of ?l] show ?thesis
    by (simp add: verify_checksum_iff unsigned_eq_0_iff)
qed

lemma ipv4_checksum_roundtrip_witness:
  "ipv4_verify_checksum (store_ip_checksum 0 (\<lambda>_. 0x45000000)) 0 = 1"
proof -
  have "header_word (\<lambda>_. 0x45000000) 0 1 = 0x4500"
    by (simp add: header_word_def packet_word_def mem_iord_byte_def word_slot_def)
  moreover have "header_word (\<lambda>_. 0x45000000) 0 1 \<le> header_sum_rest (\<lambda>_. 0x45000000) 0"
    unfolding header_sum_rest_def by (rule member_le_sum) auto
  ultimately have "0 < header_sum_rest (\<lambda>_. 0x45000000) 0" by simp
  from ipv4_checksum_roundtrip [OF this] show ?thesis by (simp add: mem_iord_byte_def word_slot_def)
qed

section \<open>Sums over the bytes of a frame\<close>

text \<open>The sum of the first \<open>n\<close> 16-bit words after the IP header.\<close>

definition payload_sum :: "buffer \<Rightarrow> u32 \<Rightarrow> nat \<Rightarrow> nat" where
  "payload_sum m p n = (\<Sum>k<n. unat (packet_word m (p + 34 + of_nat (2 * k))))"

lemma packet_word_frame:
  "unat (packet_word m (p + of_nat d)) = 256 * unat (frame_byte m p d) + unat (frame_byte m p (Suc d))"
  by (simp add: unat_packet_word frame_byte_def add_ac)

lemma payload_sum_frame:
  "payload_sum m p n = (\<Sum>k<n. 256 * unat (frame_byte m p (34 + 2 * k)) + unat (frame_byte m p (35 + 2 * k)))"
proof -
  have "unat (packet_word m (p + 34 + of_nat (2 * k))) =
      256 * unat (frame_byte m p (34 + 2 * k)) + unat (frame_byte m p (35 + 2 * k))" for k
    using packet_word_frame [of m p "34 + 2 * k"] by (simp add: add.assoc)
  then show ?thesis by (simp add: payload_sum_def)
qed

lemma header_sum_frame:
  "header_sum m p = (\<Sum>k<10. 256 * unat (frame_byte m p (14 + 2 * k)) + unat (frame_byte m p (15 + 2 * k)))"
proof -
  have "header_word m p k = 256 * unat (frame_byte m p (14 + 2 * k)) + unat (frame_byte m p (15 + 2 * k))" for k
    using packet_word_frame [of m p "14 + 2 * k"] by (simp add: header_word_def add.assoc)
  then show ?thesis by (simp add: header_sum_def)
qed

lemma two_bytes: "256 * (unat (ucast (drop_bit 8 c) AND (0xFF :: u32)) ) +
    unat (ucast (c AND 0xFF) AND (0xFF :: u32)) = unat (c :: u16)"
  using u16_less [of c] by (simp add: unat_and_byte_u32 unat_and_byte_u16 unat_high_byte_u16)

text \<open>At most 65535 per word.\<close>

lemma payload_sum_le: "payload_sum m p n \<le> n * 65535"
proof -
  have "payload_sum m p n \<le> (\<Sum>k<n. 65535)"
    unfolding payload_sum_def by (rule sum_mono) (rule unat_packet_word_le)
  then show ?thesis by simp
qed

text \<open>The pseudo header of UDP and TCP: the four address words, the protocol and the length.\<close>

definition pseudo_sum :: "buffer \<Rightarrow> u32 \<Rightarrow> nat \<Rightarrow> nat \<Rightarrow> nat" where
  "pseudo_sum m p proto len =
     unat (packet_word m (p + 26)) + unat (packet_word m (p + 30)) +
     (unat (packet_word m (p + 28)) + unat (packet_word m (p + 32))) + proto + len"

text \<open>Storing a checksum into the zeroed word \<open>q\<close> of the payload completes its sum.\<close>

lemma stored_sum:
  assumes n: "q < n" and b: "\<And>j. 26 \<le> j \<Longrightarrow> j < 34 + 2 * n \<Longrightarrow> j \<noteq> 34 + 2 * q \<Longrightarrow> j \<noteq> 35 + 2 * q \<Longrightarrow>
      frame_byte m' p j = frame_byte m p j"
    and zero: "frame_byte m p (34 + 2 * q) = 0" "frame_byte m p (35 + 2 * q) = 0"
    and c: "256 * unat (frame_byte m' p (34 + 2 * q)) + unat (frame_byte m' p (35 + 2 * q)) = c"
  shows "payload_sum m' p n = payload_sum m p n + c" and "pseudo_sum m' p proto len = pseudo_sum m p proto len"
proof -
  let ?s = "\<lambda>m k. 256 * unat (frame_byte m p (34 + 2 * k)) + unat (frame_byte m p (35 + 2 * k))"
  have at_q: "(\<Sum>k<n. ?s m k) = ?s m q + (\<Sum>k\<in>{..<n} - {q}. ?s m k)" for m
    using n by (subst sum.remove [of _ q]) auto
  have "(\<Sum>k\<in>{..<n} - {q}. ?s m' k) = (\<Sum>k\<in>{..<n} - {q}. ?s m k)"
  proof (rule sum.cong)
    fix k assume "k \<in> {..<n} - {q}"
    then have "k < n" "k \<noteq> q" by auto
    then have "34 + 2 * k \<noteq> 35 + 2 * q" "35 + 2 * k \<noteq> 34 + 2 * q" by presburger+
    with \<open>k < n\<close> \<open>k \<noteq> q\<close> show "?s m' k = ?s m k" by (simp add: b)
  qed simp
  then show "payload_sum m' p n = payload_sum m p n + c"
    unfolding payload_sum_frame at_q by (simp add: zero c)
  show "pseudo_sum m' p proto len = pseudo_sum m p proto len"
    using n packet_word_frame [of m' p 26] packet_word_frame [of m' p 28] packet_word_frame [of m' p 30]
      packet_word_frame [of m' p 32] packet_word_frame [of m p 26] packet_word_frame [of m p 28]
      packet_word_frame [of m p 30] packet_word_frame [of m p 32]
    by (simp add: pseudo_sum_def b)
qed

end
