(* ===== verification/Arp_Layer.thy ===== *)
theory Arp_Layer
  imports Ipv4_Layer
begin

text \<open>
  The ARP layer (\<^verbatim>\<open>ethlib/arp.c\<close>, \<^verbatim>\<open>ethlib/arp.h\<close>): the table of resolved addresses, the
  construction of requests and replies in the packet buffer, the handler of received ARP
  frames and the resolution loop.
\<close>

section \<open>Data\<close>

record arp_table_entry =
  used :: u8
  ip_addr :: "u8 list"
  mac_addr :: "u8 list"

definition ARP_TABLE_SIZE :: nat where
  "ARP_TABLE_SIZE = 8"

record arp_state = ip_state +
  arp_table :: "arp_table_entry list"

section \<open>The table\<close>

definition arp_table_init :: "arp_table_entry list \<Rightarrow> arp_table_entry list" where
  "arp_table_init tbl = for_loop 0 ARP_TABLE_SIZE (\<lambda>i tbl. tbl[i := (tbl ! i)\<lparr>used := 0\<rparr>]) tbl"

text \<open>The condition of the search and of the deletion.\<close>

definition arp_entry_matches :: "arp_table_entry \<Rightarrow> u8 list \<Rightarrow> bool" where
  "arp_entry_matches e ip \<longleftrightarrow>
     used e = 1 \<and> ip_addr e ! 0 = ip ! 0 \<and> ip_addr e ! 1 = ip ! 1 \<and>
     ip_addr e ! 2 = ip ! 2 \<and> ip_addr e ! 3 = ip ! 3"

text \<open>
  The search walks over the entries in index order and copies the hardware address of the
  first match into the caller's array \<open>mac\<close>, which it leaves alone otherwise.
\<close>

fun arp_table_search :: "arp_table_entry list \<Rightarrow> u8 list \<Rightarrow> u8 list \<Rightarrow> u32 \<times> u8 list" where
  "arp_table_search [] ip mac = (0, mac)"
| "arp_table_search (e # es) ip mac =
     (if arp_entry_matches e ip then (1, for_loop 0 6 (\<lambda>j mac. mac[j := mac_addr e ! j]) mac)
      else arp_table_search es ip mac)"

definition arp_table_delete_entry ::
  "arp_table_entry list \<Rightarrow> u8 list \<Rightarrow> u32 \<times> arp_table_entry list" where
  "arp_table_delete_entry tbl ip =
     for_loop 0 ARP_TABLE_SIZE (\<lambda>i (ans, tbl).
       if arp_entry_matches (tbl ! i) ip then (1, tbl[i := (tbl ! i)\<lparr>used := 0\<rparr>]) else (ans, tbl))
     (0, tbl)"

text \<open>
  The scan for a free slot. When every slot is taken the C loop condition first reads the
  entry after the last one; whatever it finds there, the bound ends the loop.
\<close>

fun arp_first_free :: "arp_table_entry list \<Rightarrow> nat" where
  "arp_first_free [] = 0"
| "arp_first_free (e # es) = (if used e = 1 then Suc (arp_first_free es) else 0)"

definition arp_table_new_entry ::
  "arp_table_entry list \<Rightarrow> u8 list \<Rightarrow> u8 list \<Rightarrow> arp_table_entry list" where
  "arp_table_new_entry tbl ip mac =
     (let previous_mac = replicate 6 0;
          tbl = (if fst (arp_table_search tbl ip previous_mac) = 1
                 then snd (arp_table_delete_entry tbl ip) else tbl);
          i = arp_first_free tbl;
          i = (if i = ARP_TABLE_SIZE then 0 else i);
          tbl = tbl[i := (tbl ! i)\<lparr>used := 1\<rparr>];
          tbl = for_loop 0 4 (\<lambda>j tbl. tbl[i := (tbl ! i)\<lparr>ip_addr := (ip_addr (tbl ! i))[j := ip ! j]\<rparr>]) tbl
      in for_loop 0 6 (\<lambda>j tbl. tbl[i := (tbl ! i)\<lparr>mac_addr := (mac_addr (tbl ! i))[j := mac ! j]\<rparr>]) tbl)"

section \<open>Packet fields\<close>

definition arp_get_target_ip :: "buffer \<Rightarrow> u32 \<Rightarrow> u8 list" where
  "arp_get_target_ip m pkt_addr = packet_bytes m (pkt_addr + 38) 4"

definition arp_get_target_mac :: "buffer \<Rightarrow> u32 \<Rightarrow> u8 list" where
  "arp_get_target_mac m pkt_addr = packet_bytes m (pkt_addr + 32) 6"

definition arp_get_sender_ip :: "buffer \<Rightarrow> u32 \<Rightarrow> u8 list" where
  "arp_get_sender_ip m pkt_addr = packet_bytes m (pkt_addr + 28) 4"

definition arp_get_operation :: "buffer \<Rightarrow> u32 \<Rightarrow> u16" where
  "arp_get_operation m pkt_addr =
     ucast (push_bit 8 (mem_iord_byte m (pkt_addr + 20)) + (mem_iord_byte m (pkt_addr + 21) AND 0xFF))"

definition arp_get_sender_mac :: "buffer \<Rightarrow> u32 \<Rightarrow> u8 list" where
  "arp_get_sender_mac m pkt_addr = packet_bytes m (pkt_addr + 22) 6"

section \<open>Building frames\<close>

definition arp_build_reply ::
  "u32 \<Rightarrow> u32 \<Rightarrow> u8 list \<Rightarrow> u8 list \<Rightarrow> buffer \<Rightarrow> u32 \<times> buffer" where
  "arp_build_reply rx_addr tx_addr mac ip m =
     (let frame_length = 42;
          m = (if rx_addr \<noteq> tx_addr
               then for_loop 0 42 (\<lambda>i m. mem_iowr_byte (tx_addr + of_nat i)
                                          (mem_iord_byte m (rx_addr + of_nat i)) m) m
               else m);
          m = for_loop 0 6 (\<lambda>i m.
                let m = mem_iowr_byte (tx_addr + of_nat i) (mem_iord_byte m (tx_addr + 6 + of_nat i)) m
                in mem_iowr_byte (tx_addr + 6 + of_nat i) (ucast (mac ! i)) m) m;
          m = mem_iowr_byte (tx_addr + 21) 2 m;
          m = for_loop 0 6 (\<lambda>i m.
                let m = mem_iowr_byte (tx_addr + 32 + of_nat i) (mem_iord_byte m (tx_addr + 22 + of_nat i)) m
                in mem_iowr_byte (tx_addr + 22 + of_nat i) (ucast (mac ! i)) m) m;
          m = for_loop 0 4 (\<lambda>i m.
                let m = mem_iowr_byte (tx_addr + 38 + of_nat i) (mem_iord_byte m (tx_addr + 28 + of_nat i)) m
                in mem_iowr_byte (tx_addr + 28 + of_nat i) (ucast (ip ! i)) m) m
      in (frame_length, m))"

definition arp_build_request ::
  "u32 \<Rightarrow> u8 list \<Rightarrow> u8 list \<Rightarrow> u8 list \<Rightarrow> buffer \<Rightarrow> u32 \<times> buffer" where
  "arp_build_request tx_addr target_ip mac ip m =
     (let frame_length = 42;
          m = for_loop 0 6 (\<lambda>i m.
                let m = mem_iowr_byte (tx_addr + of_nat i) 0xFF m;
                    m = mem_iowr_byte (tx_addr + 6 + of_nat i) (ucast (mac ! i)) m;
                    m = mem_iowr_byte (tx_addr + 22 + of_nat i) (ucast (mac ! i)) m
                in mem_iowr_byte (tx_addr + 32 + of_nat i) 0x00 m) m;
          m = for_loop 0 4 (\<lambda>i m.
                let m = mem_iowr_byte (tx_addr + 28 + of_nat i) (ucast (ip ! i)) m
                in mem_iowr_byte (tx_addr + 38 + of_nat i) (ucast (target_ip ! i)) m) m;
          m = mem_iowr (tx_addr + 12) 0x08060001 m;
          m = mem_iowr (tx_addr + 16) 0x08000604 m;
          m = mem_iowr_byte (tx_addr + 20) 0x00 m;
          m = mem_iowr_byte (tx_addr + 21) 0x01 m
      in (frame_length, m))"

section \<open>Handling and resolution\<close>

definition arp_process_received ::
  "u32 \<Rightarrow> u32 \<Rightarrow> 'a arp_state_scheme \<Rightarrow> (u32 \<times> 'a arp_state_scheme) option" where
  "arp_process_received rx_addr tx_addr s =
     (let target_ip = arp_get_target_ip (buff s) rx_addr
      in if ipv4_compare_ip target_ip (my_ip s) = 1
         then if mem_iord_byte (buff s) (rx_addr + 21) = 0x01
              then let (frame_length, m) = arp_build_reply rx_addr tx_addr (my_mac s) (my_ip s) (buff s);
                       s = s\<lparr>buff := m\<rparr>
                   in do { s \<leftarrow> eth_mac_send tx_addr frame_length s; Some (1, s) }
              else if mem_iord_byte (buff s) (rx_addr + 21) = 0x02
              then let target_mac = arp_get_target_mac (buff s) rx_addr
                   in if mac_compare_mac target_mac (my_mac s) = 1
                      then let sender_ip = arp_get_sender_ip (buff s) rx_addr;
                               sender_mac = arp_get_sender_mac (buff s) rx_addr
                           in Some (2, s\<lparr>arp_table := arp_table_new_entry (arp_table s) sender_ip sender_mac\<rparr>)
                      else Some (0, s)
              else Some (0, s)
         else Some (0, s))"

text \<open>One round of the resolution loop; \<open>start_time\<close> was read before the loop.\<close>

definition arp_resolve_round ::
  "u32 \<Rightarrow> u32 \<Rightarrow> u8 list \<Rightarrow> u64 \<Rightarrow> u64 \<Rightarrow> 'a arp_state_scheme \<Rightarrow> (u32 option \<times> 'a arp_state_scheme) option" where
  "arp_resolve_round rx_addr tx_addr target_ip timeout start_time s =
     (let (frame_length, m) = arp_build_request tx_addr target_ip (my_mac s) (my_ip s) (buff s);
          s = s\<lparr>buff := m\<rparr>
      in do {
        s \<leftarrow> eth_mac_send tx_addr frame_length s;
        (received, s) \<leftarrow> eth_mac_receive rx_addr 100000 s;
        (ans, s) \<leftarrow>
          (if received = 1 \<and> mac_packet_type (buff s) rx_addr = ARP
           then do {
             (processed, s) \<leftarrow> arp_process_received rx_addr tx_addr s;
             Some (if processed = 2 \<and> fst (arp_table_search (arp_table s) target_ip (replicate 6 0)) = 1
                   then 1 else 0, s)
           }
           else Some (0, s));
        if ans = 0
        then let (now, s) = get_cpu_usecs s
             in Some (if now - start_time < timeout then None else Some ans, s)
        else Some (Some ans, s)
      })"

definition arp_resolve_ip ::
  "u32 \<Rightarrow> u32 \<Rightarrow> u8 list \<Rightarrow> u64 \<Rightarrow> 'a arp_state_scheme \<Rightarrow> (u32 \<times> 'a arp_state_scheme) option" where
  "arp_resolve_ip rx_addr tx_addr target_ip timeout s =
     (let (start_time, s) = get_cpu_usecs s
      in loop_until (arp_resolve_round rx_addr tx_addr target_ip timeout start_time) s)"

section \<open>The table as a finite map\<close>

text \<open>
  The table stands for the map from the address of a used entry to its hardware address.
  The invariant: eight entries, addresses of four and six bytes, and no address twice.
\<close>

definition arp_lookup :: "arp_table_entry list \<Rightarrow> u8 list \<Rightarrow> u8 list option" where
  "arp_lookup tbl ip = map_option mac_addr (List.find (\<lambda>e. used e = 1 \<and> ip_addr e = ip) tbl)"

definition arp_shape :: "arp_table_entry list \<Rightarrow> bool" where
  "arp_shape tbl \<longleftrightarrow> length tbl = 8 \<and> (\<forall>e\<in>set tbl. length (ip_addr e) = 4 \<and> length (mac_addr e) = 6)"

definition arp_inv :: "arp_table_entry list \<Rightarrow> bool" where
  "arp_inv tbl \<longleftrightarrow> arp_shape tbl \<and>
     (\<forall>i<8. \<forall>j<8. used (tbl ! i) = 1 \<and> used (tbl ! j) = 1 \<and> ip_addr (tbl ! i) = ip_addr (tbl ! j)
        \<longrightarrow> i = j)"

lemma nth_equal_4:
  assumes "length xs = 4" "length ys = 4"
  shows "xs ! 0 = ys ! 0 \<and> xs ! 1 = ys ! 1 \<and> xs ! 2 = ys ! 2 \<and> xs ! 3 = ys ! 3 \<longleftrightarrow> xs = ys"
  using assms by (auto simp: numeral_eq_Suc length_Suc_conv)

lemma ipv4_compare_ip_eq:
  "length a = 4 \<Longrightarrow> length b = 4 \<Longrightarrow> ipv4_compare_ip a b = (if a = b then 1 else 0)"
  by (simp only: ipv4_compare_ip_def nth_equal_4)

lemma arp_entry_matches_iff:
  "length (ip_addr e) = 4 \<Longrightarrow> length ip = 4 \<Longrightarrow>
     arp_entry_matches e ip \<longleftrightarrow> used e = 1 \<and> ip_addr e = ip"
  by (simp only: arp_entry_matches_def nth_equal_4)

lemma arp_table_search_lookup:
  assumes "\<forall>e\<in>set tbl. length (ip_addr e) = 4 \<and> length (mac_addr e) = 6"
    and "length ip = 4" and "length mac = 6"
  shows "arp_table_search tbl ip mac =
    (case arp_lookup tbl ip of None \<Rightarrow> (0, mac) | Some found \<Rightarrow> (1, found))"
  using assms(1)
  by (induction tbl) (simp_all add: arp_lookup_def arp_entry_matches_iff copy_loop assms(2,3))

lemma arp_search_inv:
  assumes "arp_inv tbl" and "length ip = 4" and "length mac = 6"
  shows "arp_table_search tbl ip mac =
    (case arp_lookup tbl ip of None \<Rightarrow> (0, mac) | Some found \<Rightarrow> (1, found))"
  using assms by (intro arp_table_search_lookup) (simp_all add: arp_inv_def arp_shape_def)

text \<open>Deletion clears the flag of every entry that matches.\<close>

definition arp_clear :: "u8 list \<Rightarrow> arp_table_entry \<Rightarrow> arp_table_entry" where
  "arp_clear ip e = (if used e = 1 \<and> ip_addr e = ip then e\<lparr>used := 0\<rparr> else e)"

lemma arp_clear_simps [simp]:
  "ip_addr (arp_clear ip e) = ip_addr e" "mac_addr (arp_clear ip e) = mac_addr e"
  "used (arp_clear ip e) = 1 \<longleftrightarrow> used e = 1 \<and> ip_addr e \<noteq> ip"
  by (auto simp: arp_clear_def)

lemma arp_table_delete_entry_map:
  assumes "arp_shape tbl" and "length ip = 4"
  shows "arp_table_delete_entry tbl ip =
    (if arp_lookup tbl ip = None then 0 else 1, map (arp_clear ip) tbl)"
proof -
  have m: "arp_entry_matches e ip \<longleftrightarrow> used e = 1 \<and> ip_addr e = ip" if "e \<in> set tbl" for e
    using assms that by (auto simp: arp_shape_def arp_entry_matches_iff)
  have len: "length tbl = 8" using assms(1) by (simp add: arp_shape_def)
  have "arp_table_delete_entry tbl ip =
     (if \<exists>e\<in>set tbl. arp_entry_matches e ip then 1 else 0,
      map (\<lambda>e. if arp_entry_matches e ip then e\<lparr>used := 0\<rparr> else e) tbl)"
    unfolding arp_table_delete_entry_def ARP_TABLE_SIZE_def
    by (rule mark_loop [where P = "\<lambda>e. arp_entry_matches e ip", OF len])
  moreover have "(\<exists>e\<in>set tbl. arp_entry_matches e ip) \<longleftrightarrow> arp_lookup tbl ip \<noteq> None"
    by (auto simp: arp_lookup_def find_None_iff m)
  moreover have "map (\<lambda>e. if arp_entry_matches e ip then e\<lparr>used := 0\<rparr> else e) tbl = map (arp_clear ip) tbl"
    by (rule map_cong) (simp_all add: m arp_clear_def)
  ultimately show ?thesis by simp
qed

lemma arp_clear_absent: "arp_lookup tbl ip = None \<Longrightarrow> map (arp_clear ip) tbl = tbl"
  by (rule map_idI) (auto simp: arp_lookup_def arp_clear_def find_None_iff)

text \<open>Insertion writes one entry of the cleared table.\<close>

definition arp_slot :: "arp_table_entry list \<Rightarrow> nat" where
  "arp_slot tbl = (if arp_first_free tbl = 8 then 0 else arp_first_free tbl)"

lemma arp_first_free_le: "arp_first_free tbl \<le> length tbl"
  by (induction tbl) auto

lemma arp_first_free_free: "arp_first_free tbl < length tbl \<Longrightarrow> used (tbl ! arp_first_free tbl) \<noteq> 1"
  by (induction tbl) auto

lemma arp_first_free_full: "arp_first_free tbl = length tbl \<longleftrightarrow> (\<forall>e\<in>set tbl. used e = 1)"
  using arp_first_free_le by (induction tbl) (auto simp: Suc_le_eq less_le)

lemma arp_slot_less: "arp_shape tbl \<Longrightarrow> arp_slot tbl < 8"
  using arp_first_free_le [of tbl] by (auto simp: arp_slot_def arp_shape_def)

lemma arp_shape_clear: "arp_shape tbl \<Longrightarrow> arp_shape (map (arp_clear ip) tbl)"
  by (simp add: arp_shape_def)

lemma arp_table_new_entry_update:
  assumes "arp_shape tbl" and "length ip = 4" and "length mac = 6"
  shows "arp_table_new_entry tbl ip mac =
    (let tbl' = map (arp_clear ip) tbl; i = arp_slot tbl'
     in tbl'[i := (tbl' ! i)\<lparr>used := 1, ip_addr := ip, mac_addr := mac\<rparr>])"
proof -
  let ?t = "map (arp_clear ip) tbl" and ?i = "arp_slot (map (arp_clear ip) tbl)"
  have shape: "arp_shape ?t" using assms(1) by (rule arp_shape_clear)
  then have i: "?i < length ?t" and "?i < 8" using arp_slot_less by (auto simp: arp_shape_def)
  then have "?t ! ?i \<in> set ?t" by simp
  with shape have len: "length (ip_addr (?t ! ?i)) = 4" "length (mac_addr (?t ! ?i)) = 6"
    unfolding arp_shape_def by blast+
  have del: "(if fst (arp_table_search tbl ip (replicate 6 0)) = 1
       then snd (arp_table_delete_entry tbl ip) else tbl) = ?t"
    using assms
    by (auto simp: arp_table_search_lookup arp_table_delete_entry_map arp_shape_def arp_clear_absent
        split: option.splits)
  have copy_ip: "for_loop 0 4 (\<lambda>j tbl. tbl[?i := (tbl ! ?i)\<lparr>ip_addr := (ip_addr (tbl ! ?i))[j := ip ! j]\<rparr>])
      (?t[?i := e]) = ?t[?i := e\<lparr>ip_addr := ip\<rparr>]" if "length (ip_addr e) = 4" for e
  proof -
    have "for_loop 0 n (\<lambda>j tbl. tbl[?i := (tbl ! ?i)\<lparr>ip_addr := (ip_addr (tbl ! ?i))[j := ip ! j]\<rparr>])
      (?t[?i := e]) = ?t[?i := e\<lparr>ip_addr := for_loop 0 n (\<lambda>j xs. xs[j := ip ! j]) (ip_addr e)\<rparr>]" for n
      by (induction n) (use i in \<open>simp_all add: for_loop_zero for_loop_Suc del: length_map\<close>)
    with that assms(2) show ?thesis by (simp add: copy_loop)
  qed
  have copy_mac: "for_loop 0 6 (\<lambda>j tbl. tbl[?i := (tbl ! ?i)\<lparr>mac_addr := (mac_addr (tbl ! ?i))[j := mac ! j]\<rparr>])
      (?t[?i := e]) = ?t[?i := e\<lparr>mac_addr := mac\<rparr>]" if "length (mac_addr e) = 6" for e
  proof -
    have "for_loop 0 n (\<lambda>j tbl. tbl[?i := (tbl ! ?i)\<lparr>mac_addr := (mac_addr (tbl ! ?i))[j := mac ! j]\<rparr>])
      (?t[?i := e]) = ?t[?i := e\<lparr>mac_addr := for_loop 0 n (\<lambda>j xs. xs[j := mac ! j]) (mac_addr e)\<rparr>]" for n
      by (induction n) (use i in \<open>simp_all add: for_loop_zero for_loop_Suc del: length_map\<close>)
    with that assms(3) show ?thesis by (simp add: copy_loop)
  qed
  show ?thesis
    unfolding arp_table_new_entry_def Let_def del ARP_TABLE_SIZE_def
    by (simp only: copy_ip copy_mac len flip: arp_slot_def) (simp add: copy_ip copy_mac len)
qed

section \<open>The table refines a cache\<close>

text \<open>
  What a resolution layer relies on, whatever the replacement policy: a key just inserted is
  found with its value, and an insertion of another key keeps a binding or forgets it.
\<close>

locale resolution_cache =
  fixes lookup :: "'t \<Rightarrow> 'k \<Rightarrow> 'v option"
    and insert :: "'t \<Rightarrow> 'k \<Rightarrow> 'v \<Rightarrow> 't"
    and inv :: "'t \<Rightarrow> bool"
    and key :: "'k \<Rightarrow> bool"
    and val :: "'v \<Rightarrow> bool"
  assumes inv_insert: "inv t \<Longrightarrow> key k \<Longrightarrow> val v \<Longrightarrow> inv (insert t k v)"
    and lookup_insert_same: "inv t \<Longrightarrow> key k \<Longrightarrow> val v \<Longrightarrow> lookup (insert t k v) k = Some v"
    and lookup_insert_other: "inv t \<Longrightarrow> key k \<Longrightarrow> val v \<Longrightarrow> k' \<noteq> k \<Longrightarrow>
      lookup (insert t k v) k' = lookup t k' \<or> lookup (insert t k v) k' = None"
begin

definition inserts :: "('k \<times> 'v) list \<Rightarrow> 't \<Rightarrow> 't" where
  "inserts kvs t = foldl (\<lambda>t (k, v). insert t k v) t kvs"

definition good :: "('k \<times> 'v) list \<Rightarrow> bool" where
  "good kvs \<longleftrightarrow> (\<forall>(k, v) \<in> set kvs. key k \<and> val v)"

lemma inv_inserts: "inv t \<Longrightarrow> good kvs \<Longrightarrow> inv (inserts kvs t)"
  by (induction kvs arbitrary: t) (auto simp: inserts_def good_def inv_insert)

lemma lookup_insert_le:
  assumes "inv t" "key k" "val v" shows "lookup (insert t k v) \<subseteq>\<^sub>m (lookup t)(k \<mapsto> v)"
  unfolding map_le_def
proof
  fix a assume "a \<in> dom (lookup (insert t k v))"
  then have "lookup (insert t k v) a \<noteq> None" by blast
  then show "lookup (insert t k v) a = ((lookup t)(k \<mapsto> v)) a"
    using lookup_insert_same [OF assms] lookup_insert_other [OF assms, of a] by (cases "a = k") auto
qed

lemma map_add_mono_left: "f \<subseteq>\<^sub>m g \<Longrightarrow> f ++ h \<subseteq>\<^sub>m g ++ h"
  by (auto simp: map_le_def map_add_def dom_def split: option.splits)

text \<open>After any sequence of insertions the cache only answers with the latest value.\<close>

lemma lookup_inserts_le:
  "inv t \<Longrightarrow> good kvs \<Longrightarrow> lookup (inserts kvs t) \<subseteq>\<^sub>m lookup t ++ map_of (rev kvs)"
proof (induction kvs arbitrary: t)
  case Nil
  then show ?case by (simp add: inserts_def)
next
  case (Cons kv kvs)
  obtain k v where kv: "kv = (k, v)" by (cases kv)
  with Cons.prems have ok: "key k" "val v" "good kvs" by (auto simp: good_def)
  have "lookup (inserts kvs (insert t k v)) \<subseteq>\<^sub>m lookup (insert t k v) ++ map_of (rev kvs)"
    using Cons ok inv_insert by blast
  also have "\<dots> \<subseteq>\<^sub>m (lookup t)(k \<mapsto> v) ++ map_of (rev kvs)"
    by (rule map_add_mono_left [OF lookup_insert_le [OF Cons.prems(1) ok(1,2)]])
  finally show ?case by (simp add: inserts_def kv)
qed

end

lemma arp_lookup_clear:
  "arp_lookup (map (arp_clear ip) tbl) ip' = (if ip' = ip then None else arp_lookup tbl ip')"
proof (cases "ip' = ip")
  case True
  then show ?thesis by (simp add: arp_lookup_def find_None_iff)
next
  case False
  then show ?thesis by (induction tbl) (auto simp: arp_lookup_def)
qed

text \<open>The table is full and does not hold \<open>ip\<close>: the insertion of \<open>ip\<close> evicts entry 0.\<close>

definition arp_full_without :: "arp_table_entry list \<Rightarrow> u8 list \<Rightarrow> bool" where
  "arp_full_without tbl ip \<longleftrightarrow> (\<forall>e\<in>set tbl. used e = 1 \<and> ip_addr e \<noteq> ip)"

lemma arp_inv_clear: "arp_inv tbl \<Longrightarrow> arp_inv (map (arp_clear ip) tbl)"
  by (auto simp: arp_inv_def arp_shape_clear arp_shape_def)

lemma arp_slot_cases:
  assumes "arp_shape tbl"
  shows "(\<forall>e\<in>set tbl. used e = 1) \<and> arp_slot tbl = 0 \<or>
    \<not> (\<forall>e\<in>set tbl. used e = 1) \<and> used (tbl ! arp_slot tbl) \<noteq> 1"
  using assms arp_first_free_full [of tbl] arp_first_free_free [of tbl] arp_first_free_le [of tbl]
  by (auto simp: arp_slot_def arp_shape_def)

lemma arp_lookup_update:
  assumes inv: "arp_inv tbl" and i: "i < 8" and e: "used e = 1"
    and free: "\<And>e'. e' \<in> set tbl \<Longrightarrow> used e' = 1 \<Longrightarrow> ip_addr e' \<noteq> ip_addr e"
  shows "arp_lookup (tbl[i := e]) ip' =
    (if ip' = ip_addr e then Some (mac_addr e)
     else if used (tbl ! i) = 1 \<and> ip_addr (tbl ! i) = ip' then None
     else arp_lookup tbl ip')"
proof -
  have len: "length tbl = 8" using inv by (simp add: arp_inv_def arp_shape_def)
  show ?thesis
  proof (cases "ip' = ip_addr e")
    case True
    then show ?thesis
      unfolding arp_lookup_def by (subst find_update_hit) (use free i len e in auto)
  next
    case other: False
    show ?thesis
    proof (cases "used (tbl ! i) = 1 \<and> ip_addr (tbl ! i) = ip'")
      case True
      have "\<not> (used e' = 1 \<and> ip_addr e' = ip')" if "e' \<in> set (tbl[i := e])" for e'
      proof -
        from that obtain j where "j < 8" "e' = tbl[i := e] ! j" using len by (auto simp: in_set_conv_nth)
        then show ?thesis
          using True other inv i len by (auto simp: nth_list_update arp_inv_def)
      qed
      then have "List.find (\<lambda>e. used e = 1 \<and> ip_addr e = ip') (tbl[i := e]) = None"
        by (auto simp: find_None_iff)
      with True other show ?thesis by (simp add: arp_lookup_def)
    next
      case False
      then show ?thesis
        unfolding arp_lookup_def by (subst find_update_miss) (use other i len in auto)
    qed
  qed
qed

lemma arp_inv_update:
  assumes inv: "arp_inv tbl" and i: "i < 8" and len: "length (ip_addr e) = 4" "length (mac_addr e) = 6"
    and free: "\<And>e'. e' \<in> set tbl \<Longrightarrow> used e' = 1 \<Longrightarrow> ip_addr e' \<noteq> ip_addr e"
  shows "arp_inv (tbl[i := e])"
proof -
  have "length tbl = 8" using inv by (simp add: arp_inv_def arp_shape_def)
  then have free': "used (tbl ! j) = 1 \<Longrightarrow> ip_addr (tbl ! j) \<noteq> ip_addr e" if "j < 8" for j
    using free that by simp
  show ?thesis
    using inv i len set_update_subset_insert [of tbl i e] free' \<open>length tbl = 8\<close>
    unfolding arp_inv_def arp_shape_def
    by (auto simp: nth_list_update) (metis free')+
qed

lemma arp_new_entry_facts:
  assumes inv: "arp_inv tbl" and "length ip = 4" "length mac = 6"
  shows "arp_inv (arp_table_new_entry tbl ip mac)"
    and "arp_lookup (arp_table_new_entry tbl ip mac) ip' =
      (if ip' = ip then Some mac
       else if arp_full_without tbl ip \<and> ip_addr (tbl ! 0) = ip' then None
       else arp_lookup tbl ip')"
proof -
  let ?t = "map (arp_clear ip) tbl"
  let ?i = "arp_slot ?t"
  let ?e = "(?t ! ?i)\<lparr>used := 1, ip_addr := ip, mac_addr := mac\<rparr>"
  have shape: "arp_shape tbl" and len: "length tbl = 8" using inv by (simp_all add: arp_inv_def arp_shape_def)
  have inv': "arp_inv ?t" using inv by (rule arp_inv_clear)
  have i: "?i < 8" using arp_slot_less [OF arp_shape_clear [OF shape]] .
  have eq: "arp_table_new_entry tbl ip mac = ?t[?i := ?e]"
    using arp_table_new_entry_update [OF shape assms(2,3)] by (simp add: Let_def)
  have free: "ip_addr e' \<noteq> ip_addr ?e" if "e' \<in> set ?t" "used e' = 1" for e'
    using that by auto
  show "arp_inv (arp_table_new_entry tbl ip mac)"
    unfolding eq by (rule arp_inv_update [OF inv' i _ _ free]) (simp_all add: assms)
  have full: "(\<forall>e\<in>set ?t. used e = 1) \<longleftrightarrow> arp_full_without tbl ip"
    by (simp add: arp_full_without_def)
  have full0: "used (?t ! ?i) = 1 \<longleftrightarrow> arp_full_without tbl ip \<and> ?i = 0"
    using arp_slot_cases [OF arp_shape_clear [OF shape, of ip]] i len unfolding full by (auto simp: arp_full_without_def)
  have "arp_lookup (?t[?i := ?e]) ip' =
      (if ip' = ip then Some mac
       else if used (?t ! ?i) = 1 \<and> ip_addr (?t ! ?i) = ip' then None else arp_lookup ?t ip')"
    by (subst arp_lookup_update [OF inv' i _ free]) simp_all
  moreover have "used (?t ! ?i) = 1 \<and> ip_addr (?t ! ?i) = ip' \<longleftrightarrow>
      arp_full_without tbl ip \<and> ip_addr (tbl ! 0) = ip'"
    using full0 len arp_slot_cases [OF arp_shape_clear [OF shape, of ip]] unfolding full by auto
  ultimately show "arp_lookup (arp_table_new_entry tbl ip mac) ip' =
      (if ip' = ip then Some mac
       else if arp_full_without tbl ip \<and> ip_addr (tbl ! 0) = ip' then None
       else arp_lookup tbl ip')"
    unfolding eq by (simp add: arp_lookup_clear)
qed

interpretation arp: resolution_cache arp_lookup arp_table_new_entry arp_inv
  "\<lambda>ip. length ip = 4" "\<lambda>mac. length mac = 6"
  by unfold_locales (auto simp: arp_new_entry_facts)

lemma arp_table_init_map:
  assumes "length tbl = 8" shows "arp_table_init tbl = map (\<lambda>e. e\<lparr>used := 0\<rparr>) tbl"
proof -
  have "for_loop 0 n (\<lambda>i tbl. tbl[i := (tbl ! i)\<lparr>used := 0\<rparr>]) tbl =
      map (\<lambda>e. e\<lparr>used := 0\<rparr>) (take n tbl) @ drop n tbl" if "n \<le> length tbl" for n
    using that
  proof (induction n)
    case 0
    then show ?case by (simp add: for_loop_zero)
  next
    case (Suc n)
    then show ?case
      by (simp add: for_loop_Suc nth_append list_update_append min_def take_Suc_conv_app_nth
          flip: Cons_nth_drop_Suc)
  qed
  from this [of 8] assms show ?thesis by (simp add: arp_table_init_def ARP_TABLE_SIZE_def)
qed

lemma arp_inv_init:
  assumes "arp_shape tbl" shows "arp_inv (arp_table_init tbl)" "arp_lookup (arp_table_init tbl) ip = None"
proof -
  have "length tbl = 8" using assms by (simp add: arp_shape_def)
  note eq = arp_table_init_map [OF this]
  show "arp_inv (arp_table_init tbl)"
    using assms by (auto simp: eq arp_inv_def arp_shape_def)
  show "arp_lookup (arp_table_init tbl) ip = None"
    by (auto simp: eq arp_lookup_def find_None_iff)
qed

text \<open>An example table: eight cleared entries.\<close>

definition arp_blank :: "arp_table_entry list" where
  "arp_blank = replicate 8 \<lparr>used = 0, ip_addr = replicate 4 0, mac_addr = replicate 6 0\<rparr>"

lemma arp_blank_inv: "arp_shape arp_blank" "arp_inv arp_blank"
  by (auto simp: arp_blank_def arp_inv_def arp_shape_def nth_replicate)

section \<open>The frames that are built\<close>

text \<open>The loops of the reply, as they are written for each pair of fields.\<close>

lemmas arp_swap_mac = frame_byte_move [where d = 0 and r = 6 and n = 6, simplified]
lemmas arp_swap_hw = frame_byte_move [where d = 32 and r = 22 and n = 6, simplified]
lemmas arp_swap_ip = frame_byte_move [where d = 38 and r = 28 and n = 4, simplified]

lemma arp_build_reply_byte:
  assumes "rx = tx \<or> disjoint_areas 42 tx rx" and "j < 42"
  shows "frame_byte (snd (arp_build_reply rx tx mac ip m)) tx j =
    (if j < 6 then frame_byte m rx (6 + j)
     else if j < 12 then ucast (mac ! (j - 6))
     else if j < 21 then frame_byte m rx j
     else if j = 21 then 2
     else if j < 28 then ucast (mac ! (j - 22))
     else if j < 32 then ucast (ip ! (j - 28))
     else frame_byte m rx (j - 10))"
  using assms(2)
  by (simp add: arp_build_reply_def Let_def arp_swap_mac arp_swap_hw arp_swap_ip mem_simps
      frame_byte_copy [OF assms(1)]) (auto simp: frame_byte_copy [OF assms(1)])

lemma arp_build_reply_frame:
  assumes "rx = tx \<or> disjoint_areas 42 tx rx" and "length mac = 6" and "length ip = 4"
  shows "packet_bytes (snd (arp_build_reply rx tx mac ip m)) tx 42 =
    packet_bytes m (rx + 6) 6 @ mac @ packet_bytes m (rx + 12) 9 @ [2] @ mac @ ip @
    packet_bytes m (rx + 22) 6 @ packet_bytes m (rx + 28) 4"
  by (rule nth_equalityI)
    (auto simp: assms nth_packet_bytes nth_append nth_Cons' add.assoc arp_build_reply_byte [OF assms(1), unfolded frame_byte_def])

text \<open>The two loops of the request, after \<open>n\<close> rounds.\<close>

lemma arp_request_loops:
  fixes mac ip target :: "u8 list"
  assumes "j < 42"
  shows "n \<le> 6 \<Longrightarrow> frame_byte (for_loop 0 n (\<lambda>i m. mem_iowr_byte (tx + 32 + of_nat i) 0
        (mem_iowr_byte (tx + 22 + of_nat i) (ucast (mac ! i))
          (mem_iowr_byte (tx + 6 + of_nat i) (ucast (mac ! i))
            (mem_iowr_byte (tx + of_nat i) 0xFF m)))) m) tx j =
    (if j < n then 0xFF
     else if 6 \<le> j \<and> j < 6 + n then ucast (mac ! (j - 6))
     else if 22 \<le> j \<and> j < 22 + n then ucast (mac ! (j - 22))
     else if 32 \<le> j \<and> j < 32 + n then 0 else frame_byte m tx j)"
    and "n \<le> 4 \<Longrightarrow> frame_byte (for_loop 0 n (\<lambda>i m. mem_iowr_byte (tx + 38 + of_nat i) (ucast (target ! i))
        (mem_iowr_byte (tx + 28 + of_nat i) (ucast (ip ! i)) m)) m) tx j =
    (if 28 \<le> j \<and> j < 28 + n then ucast (ip ! (j - 28))
     else if 38 \<le> j \<and> j < 38 + n then ucast (target ! (j - 38)) else frame_byte m tx j)"
  using assms by (induction n) (auto simp: for_loop_zero for_loop_Suc mem_simps)

lemma arp_request_words:
  "j < 4 \<Longrightarrow> drop_bit (24 - 8 * j) (0x08060001 :: u32) AND 0xFF = [0x08, 0x06, 0x00, 0x01] ! j"
  "j < 4 \<Longrightarrow> drop_bit (24 - 8 * j) (0x08000604 :: u32) AND 0xFF = [0x08, 0x00, 0x06, 0x04] ! j"
proof -
  have "j \<in> {0, 1, 2, 3}" if "j < 4" using that by auto
  then show
    "j < 4 \<Longrightarrow> drop_bit (24 - 8 * j) (0x08060001 :: u32) AND 0xFF = [0x08, 0x06, 0x00, 0x01] ! j"
    "j < 4 \<Longrightarrow> drop_bit (24 - 8 * j) (0x08000604 :: u32) AND 0xFF = [0x08, 0x00, 0x06, 0x04] ! j"
    by auto
qed

lemma arp_build_request_byte:
  assumes "aligned tx" and "j < 42"
  shows "frame_byte (snd (arp_build_request tx target mac ip m)) tx j =
    (if j < 6 then 0xFF
     else if j < 12 then ucast (mac ! (j - 6))
     else if j < 16 then [0x08, 0x06, 0x00, 0x01] ! (j - 12)
     else if j < 20 then [0x08, 0x00, 0x06, 0x04] ! (j - 16)
     else if j < 22 then (if j = 20 then 0 else 1)
     else if j < 28 then ucast (mac ! (j - 22))
     else if j < 32 then ucast (ip ! (j - 28))
     else if j < 38 then 0
     else ucast (target ! (j - 38)))"
  using assms by (simp add: arp_build_request_def Let_def arp_request_loops mem_simps arp_request_words)

section \<open>The handler\<close>

lemma packet_bytes_frame: "packet_bytes m t n ! i = ucast (frame_byte m t i)" if "i < n"
  using that by (simp add: nth_packet_bytes frame_byte_def)

text \<open>A field of a frame whose bytes are known.\<close>

lemma packet_bytes_sub:
  "packet_bytes m (t + of_nat k) n = take n (drop k (packet_bytes m t (k + n)))"
  by (rule nth_equalityI) (simp_all add: nth_packet_bytes add.assoc)

lemma packet_bytes_take:
  assumes "k + n \<le> len" shows "packet_bytes m (t + of_nat k) n = take n (drop k (packet_bytes m t len))"
  by (rule nth_equalityI) (use assms in \<open>simp_all add: nth_packet_bytes add.assoc\<close>)

lemma arp_fields:
  "arp_get_target_ip m t = drop 38 (packet_bytes m t 42)"
  "arp_get_target_mac m t = take 6 (drop 32 (packet_bytes m t 42))"
  "arp_get_sender_ip m t = take 4 (drop 28 (packet_bytes m t 42))"
  "arp_get_sender_mac m t = take 6 (drop 22 (packet_bytes m t 42))"
  "(ucast (mem_iord_byte m (t + 21)) :: u8) = packet_bytes m t 42 ! 21"
  using packet_bytes_take [of 38 4 42 m t] packet_bytes_take [of 32 6 42 m t]
    packet_bytes_take [of 28 4 42 m t] packet_bytes_take [of 22 6 42 m t]
  by (simp_all add: arp_get_target_ip_def arp_get_target_mac_def arp_get_sender_ip_def
      arp_get_sender_mac_def nth_packet_bytes)

text \<open>The handler as a function of the bytes of the frame.\<close>

lemma arp_process_received_frame:
  assumes "length (my_ip s) = 4" and "length (my_mac s) = 6"
    and fr: "packet_bytes (buff s) rx 42 = fr"
  shows "arp_process_received rx tx s =
    (if drop 38 fr \<noteq> my_ip s then Some (0, s)
     else if fr ! 21 = 1
     then map_option (Pair 1)
       (eth_mac_send tx 42 (s\<lparr>buff := snd (arp_build_reply rx tx (my_mac s) (my_ip s) (buff s))\<rparr>))
     else if fr ! 21 = 2 \<and> take 6 (drop 32 fr) = my_mac s
     then Some (2, s\<lparr>arp_table := arp_table_new_entry (arp_table s) (take 4 (drop 28 fr)) (take 6 (drop 22 fr))\<rparr>)
     else Some (0, s))"
proof -
  have len: "length fr = 42" using fr by auto
  have code: "mem_iord_byte (buff s) (rx + 21) = c \<longleftrightarrow> fr ! 21 = ucast c" if "c = 1 \<or> c = 2" for c
    using that arp_fields(5) [of "buff s" rx] byte_literal [of "buff s" "rx + 21" 1]
      byte_literal [of "buff s" "rx + 21" 2] by (auto simp: fr)
  have frame_length: "arp_build_reply rx tx mac ip m = (42, snd (arp_build_reply rx tx mac ip m))" for mac ip m
    by (simp add: arp_build_reply_def Let_def)
  show ?thesis
    by (subst arp_process_received_def, subst frame_length)
      (simp add: Let_def arp_fields(1-4) fr code ipv4_compare_ip_eq mac_compare_mac_eq assms len
        map_option_case split: bind_split option.split)
qed

lemma arp_build_request_frame:
  assumes "aligned tx" "length mac = 6" "length ip = 4" "length target = 4"
  shows "packet_bytes (snd (arp_build_request tx target mac ip m)) tx 42 =
    replicate 6 0xFF @ mac @ [0x08, 0x06, 0x00, 0x01] @ [0x08, 0x00, 0x06, 0x04] @ [0x00, 0x01] @
    mac @ ip @ replicate 6 0 @ target"
    (is "_ = ?fr")
proof (rule nth_equalityI)
  show "length (packet_bytes (snd (arp_build_request tx target mac ip m)) tx 42) = length ?fr"
    by (simp add: assms)
  fix j assume "j < length (packet_bytes (snd (arp_build_request tx target mac ip m)) tx 42)"
  then have j: "j < 42" by simp
  show "packet_bytes (snd (arp_build_request tx target mac ip m)) tx 42 ! j = ?fr ! j"
    using j
    by (simp only: packet_bytes_frame arp_build_request_byte [OF assms(1) j])
      (auto simp: nth_append assms nth_Cons')
qed

section \<open>The resolution loop\<close>

text \<open>What every step of the layer keeps: the two own addresses and the table invariant.\<close>

definition arp_ready :: "'a arp_state_scheme \<Rightarrow> bool" where
  "arp_ready s \<longleftrightarrow> length (my_mac s) = 6 \<and> length (my_ip s) = 4 \<and> arp_inv (arp_table s)"

lemma arp_more:
  fixes s t :: "'a arp_state_scheme"
  assumes "eth_state.more t = eth_state.more s"
  shows "my_mac t = my_mac s" "my_ip t = my_ip s" "arp_table t = arp_table s" "arp_ready t = arp_ready s"
  using assms by (cases s; cases t; simp add: arp_ready_def)+

lemma arp_process_received_ready:
  assumes "arp_ready s" and "arp_process_received rx tx s = Some (r, t)"
  shows "arp_ready t"
  using assms arp_process_received_frame [of s rx _ tx, OF _ _ refl]
  by (auto simp: arp_ready_def arp_fields split: if_splits
      dest!: eth_mac_send_more arp_more intro!: arp_new_entry_facts)

lemma arp_resolve_round_ready:
  assumes "arp_ready s" and "arp_resolve_round rx tx ip timeout start s = Some (r, t)"
    and "length ip = 4"
  shows "arp_ready t \<and> (\<forall>x. r = Some x \<longrightarrow> x = 0 \<or> x = 1 \<and> arp_lookup (arp_table t) ip \<noteq> None)"
proof -
  obtain n m where req: "arp_build_request tx ip (my_mac s) (my_ip s) (buff s) = (n, m)" by fastforce
  from assms(2) obtain s1 where send: "eth_mac_send tx n (s\<lparr>buff := m\<rparr>) = Some s1"
    by (auto simp: arp_resolve_round_def req Let_def split: bind_splits)
  with assms(2) obtain c s2 where recv: "eth_mac_receive rx 100000 s1 = Some (c, s2)"
    by (auto simp: arp_resolve_round_def req Let_def split: bind_splits)
  have ready2: "arp_ready s2"
    using arp_more(4) [OF eth_mac_send_more [OF send]] arp_more(4) [OF eth_mac_receive_more [OF recv]]
      assms(1) by (simp add: arp_ready_def)
  show ?thesis
  proof (cases "c = 1 \<and> mac_packet_type (buff s2) rx = ARP")
    case True
    with assms(2) send recv obtain p s3 where proc: "arp_process_received rx tx s2 = Some (p, s3)"
      by (auto simp: arp_resolve_round_def req Let_def split: bind_splits)
    have ready3: "arp_ready s3" by (rule arp_process_received_ready [OF ready2 proc])
    then have search: "fst (arp_table_search (arp_table s3) ip (replicate 6 0)) =
        (if arp_lookup (arp_table s3) ip = None then 0 else 1)"
      using assms(3) by (auto simp: arp_search_inv arp_ready_def split: option.splits)
    show ?thesis
      using assms(2) True send recv proc ready3 arp_more [OF get_cpu_usecs_more [of s3]] search
      by (auto simp: arp_resolve_round_def req Let_def split_beta split: if_splits)
  next
    case False
    then show ?thesis
      using assms(2) send recv ready2 arp_more [OF get_cpu_usecs_more [of s2]]
      by (auto simp: arp_resolve_round_def req Let_def split_beta split: if_splits)
  qed
qed

text \<open>One round in which the reply of the target arrives.\<close>

lemma arp_resolve_round_answered:
  assumes "arp_ready s" and "length ip = 4" and "length mac = 6"
    and send: "eth_mac_send tx 42 (s\<lparr>buff := snd (arp_build_request tx ip (my_mac s) (my_ip s) (buff s))\<rparr>)
      = Some s1"
    and recv: "eth_mac_receive rx 100000 s1 = Some (1, s2)"
    and type: "mac_packet_type (buff s2) rx = ARP"
    and reply: "packet_bytes (buff s2) rx 42 = header @ [2] @ mac @ ip @ my_mac s @ my_ip s" "length header = 21"
  shows "\<exists>s'. arp_resolve_round rx tx ip timeout now s = Some (Some 1, s') \<and>
    arp_table_search (arp_table s') ip (replicate 6 0) = (1, mac)"
proof -
  note more = arp_more [OF eth_mac_receive_more [OF recv]] arp_more [OF eth_mac_send_more [OF send]]
  have own: "arp_ready s2" "my_mac s2 = my_mac s" "my_ip s2 = my_ip s"
    using more assms(1) by (simp_all add: arp_ready_def)
  let ?t = "s2\<lparr>arp_table := arp_table_new_entry (arp_table s2) ip mac\<rparr>"
  have len: "length (my_ip s2) = 4" "length (my_mac s2) = 6" "arp_inv (arp_table s2)"
    using own(1) by (simp_all add: arp_ready_def)
  have "arp_process_received rx tx s2 = Some (2, ?t)"
    using own len assms(2,3) reply(2)
    by (subst arp_process_received_frame [OF len(1,2) reply(1)]) (simp add: nth_append)
  moreover have search: "arp_table_search (arp_table ?t) ip (replicate 6 0) = (1, mac)"
    using arp_new_entry_facts [OF len(3) assms(2,3)] assms(2) by (simp add: arp_search_inv)
  moreover have "fst (arp_build_request tx ip mac' ip' m) = 42" for mac' ip' m
    by (simp add: arp_build_request_def Let_def)
  ultimately have "arp_resolve_round rx tx ip timeout now s = Some (Some 1, ?t)"
    using send recv type by (simp add: arp_resolve_round_def Let_def split_beta)
  with search show ?thesis by blast
qed

section \<open>Properties\<close>

text \<open>
  Inserting a binding into the ARP table (delete the old entry, take the first free slot, or
  entry 0 when all are taken, copy both addresses) keeps the table invariant, makes the address
  resolve to the new hardware address, and changes no other binding, except that a full table
  forgets the one in entry 0.
\<close>

theorem arp_table_new_entry_lookup:
  assumes "arp_inv tbl" and "length ip = 4" and "length mac = 6" and "length buf = 6"
  shows "arp_inv (arp_table_new_entry tbl ip mac) \<and>
    arp_table_search (arp_table_new_entry tbl ip mac) ip buf = (1, mac) \<and>
    (\<forall>ip'. length ip' = 4 \<and> ip' \<noteq> ip \<longrightarrow>
       arp_table_search (arp_table_new_entry tbl ip mac) ip' buf =
         (if arp_full_without tbl ip \<and> ip_addr (tbl ! 0) = ip' then (0, buf)
          else arp_table_search tbl ip' buf))"
  using assms arp_new_entry_facts [OF assms(1-3)] by (simp add: arp_search_inv)

lemma arp_table_new_entry_lookup_witness:
  "arp_table_search (arp_table_new_entry arp_blank [10, 0, 0, 2] [1, 2, 3, 4, 5, 6]) [10, 0, 0, 2]
     (replicate 6 0) = (1, [1, 2, 3, 4, 5, 6])"
  using arp_table_new_entry_lookup [of arp_blank "[10, 0, 0, 2]" "[1, 2, 3, 4, 5, 6]" "replicate 6 0"]
  by (simp add: arp_blank_inv)

text \<open>
  deleting an address from the ARP table reports whether it was there, and afterwards the
  address does not resolve while every other one resolves as before.
\<close>

theorem arp_table_delete_entry_lookup:
  assumes "arp_inv tbl" and "length ip = 4"
  shows "arp_inv (snd (arp_table_delete_entry tbl ip)) \<and>
    fst (arp_table_delete_entry tbl ip) = (if arp_lookup tbl ip = None then 0 else 1) \<and>
    (\<forall>ip'. arp_lookup (snd (arp_table_delete_entry tbl ip)) ip' =
       (if ip' = ip then None else arp_lookup tbl ip'))"
proof -
  have "arp_shape tbl" using assms(1) by (simp add: arp_inv_def)
  from arp_table_delete_entry_map [OF this assms(2)] assms(1) show ?thesis
    by (simp add: arp_lookup_clear arp_inv_clear)
qed

lemma arp_table_delete_entry_lookup_witness:
  "fst (arp_table_delete_entry arp_blank [10, 0, 0, 2]) = 0"
proof -
  have "arp_lookup arp_blank [10, 0, 0, 2] = None"
    by (simp add: arp_lookup_def arp_blank_def find_None_iff)
  then show ?thesis
    using arp_table_delete_entry_lookup [OF arp_blank_inv(2), of "[10, 0, 0, 2]"] by simp
qed

text \<open>
  C18: after the table was initialised and any sequence of bindings was inserted, a search never
  answers with a stale or invented hardware address: what it finds is the most recently
  inserted one for that address.
\<close>

theorem arp_table_never_stale:
  assumes "arp_shape tbl" and "length ip = 4" and "length buf = 6"
    and "\<forall>(k, v) \<in> set kvs. length k = 4 \<and> length v = 6"
    and "arp_table_search (foldl (\<lambda>t (k, v). arp_table_new_entry t k v) (arp_table_init tbl) kvs) ip buf
      = (1, mac)"
  shows "map_of (rev kvs) ip = Some mac"
proof -
  let ?t = "foldl (\<lambda>t (k, v). arp_table_new_entry t k v) (arp_table_init tbl) kvs"
  have good: "arp.good kvs" using assms(4) by (simp add: arp.good_def)
  have t: "?t = arp.inserts kvs (arp_table_init tbl)" by (simp add: arp.inserts_def)
  have "arp_inv ?t" unfolding t by (rule arp.inv_inserts [OF arp_inv_init(1) [OF assms(1)] good])
  then have "arp_table_search ?t ip buf = (case arp_lookup ?t ip of None \<Rightarrow> (0, buf) | Some m \<Rightarrow> (1, m))"
    using assms(2,3) by (rule arp_search_inv)
  with assms(5) have "arp_lookup ?t ip = Some mac" by (simp split: option.splits)
  moreover have "arp_lookup ?t \<subseteq>\<^sub>m arp_lookup (arp_table_init tbl) ++ map_of (rev kvs)"
    unfolding t by (rule arp.lookup_inserts_le [OF arp_inv_init(1) [OF assms(1)] good])
  ultimately have "(arp_lookup (arp_table_init tbl) ++ map_of (rev kvs)) ip = Some mac"
    unfolding map_le_def by (metis domI)
  then show ?thesis using arp_inv_init(2) [OF assms(1)] by (simp add: map_add_Some_iff)
qed

lemma arp_table_never_stale_witness:
  "map_of (rev [([10, 0, 0, 2], [1, 2, 3, 4, 5, 6])]) [10, 0, 0, 2 :: u8] = Some [1, 2, 3, 4, 5, 6 :: u8]"
proof (rule arp_table_never_stale [OF arp_blank_inv(1), where buf = "replicate 6 0"])
  show "arp_table_search (foldl (\<lambda>t (k, v). arp_table_new_entry t k v) (arp_table_init arp_blank)
      [([10, 0, 0, 2], [1, 2, 3, 4, 5, 6])]) [10, 0, 0, 2] (replicate 6 0) = (1, [1, 2, 3, 4, 5, 6])"
    by (simp only: foldl.simps prod.case)
      (simp add: arp_search_inv arp_new_entry_facts arp_inv_init(1) [OF arp_blank_inv(1)])
qed simp_all

text \<open>
  C27: the ARP exchange between two nodes resolves an address. When the request that node A
  builds arrives at B, B answers it (and sends its 42 bytes); when that reply arrives at A, A
  accepts it, and its table then maps B's IP address to B's hardware address.
\<close>

theorem arp_exchange_resolves:
  fixes sA sB :: "'a arp_state_scheme"
  assumes "arp_ready sA" and "arp_ready sB" and "aligned txA"
    and "rxB = txB \<or> disjoint_areas 42 txB rxB"
    and request: "packet_bytes (buff sB) rxB 42 =
      packet_bytes (snd (arp_build_request txA (my_ip sB) (my_mac sA) (my_ip sA) mA)) txA 42"
    and reply: "packet_bytes (buff sA) rxA 42 =
      packet_bytes (snd (arp_build_reply rxB txB (my_mac sB) (my_ip sB) (buff sB))) txB 42"
  shows "arp_process_received rxB txB sB = map_option (Pair 1) (eth_mac_send txB 42
      (sB\<lparr>buff := snd (arp_build_reply rxB txB (my_mac sB) (my_ip sB) (buff sB))\<rparr>)) \<and>
    (\<exists>s'. arp_process_received rxA txA sA = Some (2, s') \<and>
      arp_table_search (arp_table s') (my_ip sB) (replicate 6 0) = (1, my_mac sB))"
proof -
  have len: "length (my_mac sA) = 6" "length (my_ip sA) = 4" "length (my_mac sB) = 6"
    "length (my_ip sB) = 4" and inv: "arp_inv (arp_table sA)"
    using assms(1,2) by (auto simp: arp_ready_def)
  note req = request [unfolded arp_build_request_frame [OF assms(3) len(1,2,4)]]
  have fields: "packet_bytes (buff sB) (rxB + of_nat k) n =
      take n (drop k (packet_bytes (buff sB) rxB 42))" if "k + n \<le> 42" for k n
    using that by (rule packet_bytes_take)
  have sender: "packet_bytes (buff sB) (rxB + 6) 6 = my_mac sA"
    "packet_bytes (buff sB) (rxB + 22) 6 = my_mac sA" "packet_bytes (buff sB) (rxB + 28) 4 = my_ip sA"
    using fields [of 6 6] fields [of 22 6] fields [of 28 4] by (simp_all add: req len)
  note rep = reply [unfolded arp_build_reply_frame [OF assms(4) len(3,4)] sender]
  have "arp_process_received rxB txB sB = map_option (Pair 1) (eth_mac_send txB 42
      (sB\<lparr>buff := snd (arp_build_reply rxB txB (my_mac sB) (my_ip sB) (buff sB))\<rparr>))"
    by (subst arp_process_received_frame [OF len(4,3) req]) (simp add: len nth_append)
  moreover have "arp_process_received rxA txA sA =
      Some (2, sA\<lparr>arp_table := arp_table_new_entry (arp_table sA) (my_ip sB) (my_mac sB)\<rparr>)"
    by (subst arp_process_received_frame [OF len(2,1) rep]) (simp add: len nth_append)
  moreover have "arp_table_search (arp_table_new_entry (arp_table sA) (my_ip sB) (my_mac sB)) (my_ip sB)
      (replicate 6 0) = (1, my_mac sB)"
    using arp_new_entry_facts [OF inv len(4,3)] len by (simp add: arp_search_inv)
  ultimately show ?thesis by simp
qed

text \<open>Two nodes with a blank table; the second one holds the request, the first one the reply.\<close>

definition arp_node :: "u8 list \<Rightarrow> u8 list \<Rightarrow> buffer \<Rightarrow> arp_state" where
  "arp_node mac ip m = \<lparr>buff = m, buff1 = \<lambda>_. 0, dev = ready_env 0, my_mac = mac, my_ip = ip,
     arp_table = arp_blank\<rparr>"

lemma arp_exchange_resolves_witness:
  "\<exists>s'. arp_process_received 0 0 (arp_node [1, 2, 3, 4, 5, 6] [10, 0, 0, 1]
      (snd (arp_build_reply 0 0 [7, 8, 9, 10, 11, 12] [10, 0, 0, 2]
        (snd (arp_build_request 0 [10, 0, 0, 2] [1, 2, 3, 4, 5, 6] [10, 0, 0, 1] (\<lambda>_. 0)))))) = Some (2, s') \<and>
    arp_table_search (arp_table s') [10, 0, 0, 2] (replicate 6 0) = (1, [7, 8, 9, 10, 11, 12])"
  using arp_exchange_resolves [of "arp_node [1, 2, 3, 4, 5, 6] [10, 0, 0, 1]
      (snd (arp_build_reply 0 0 [7, 8, 9, 10, 11, 12] [10, 0, 0, 2]
        (snd (arp_build_request 0 [10, 0, 0, 2] [1, 2, 3, 4, 5, 6] [10, 0, 0, 1] (\<lambda>_. 0)))))"
      "arp_node [7, 8, 9, 10, 11, 12] [10, 0, 0, 2]
        (snd (arp_build_request 0 [10, 0, 0, 2] [1, 2, 3, 4, 5, 6] [10, 0, 0, 1] (\<lambda>_. 0)))" 0 0 0 "\<lambda>_. 0" 0]
  by (simp add: arp_node_def arp_ready_def arp_blank_inv aligned_def)

text \<open>
  when the resolution loop reports success, the address really is in the ARP table, and
  the table still satisfies its invariant, whatever frames arrived in the meantime and whatever
  the controller did.
\<close>

theorem arp_resolve_ip_success:
  assumes "arp_ready s" and "length ip = 4"
    and "arp_resolve_ip rx tx ip timeout s = Some (r, s')"
  shows "arp_ready s' \<and> (r = 0 \<or> r = 1 \<and> arp_lookup (arp_table s') ip \<noteq> None)"
proof -
  let ?start = "fst (get_cpu_usecs s)"
  have "loop_until (arp_resolve_round rx tx ip timeout ?start) (snd (get_cpu_usecs s)) = Some (r, s')"
    using assms(3) by (simp add: arp_resolve_ip_def Let_def split_beta)
  then show ?thesis
  proof (rule loop_until_rule [where I = arp_ready])
    show "arp_ready (snd (get_cpu_usecs s))"
      using assms(1) arp_more(4) [OF get_cpu_usecs_more [of s]] by simp
  qed (use arp_resolve_round_ready [OF _ _ assms(2)] in blast)+
qed

text \<open>The node of the example asks for 10.0.0.2 and the controller delivers the answer.\<close>

definition arp_answer :: buffer where
  "arp_answer = snd (arp_build_reply 0 0 [7, 8, 9, 10, 11, 12] [10, 0, 0, 2]
     (snd (arp_build_request 0 [10, 0, 0, 2] [1, 2, 3, 4, 5, 6] [10, 0, 0, 1] (\<lambda>_. 0))))"

definition arp_asker :: arp_state where
  "arp_asker = (arp_node [1, 2, 3, 4, 5, 6] [10, 0, 0, 1] (\<lambda>_. 0))\<lparr>dev := deliver_env arp_answer 0\<rparr>"

lemma arp_answer_frame: "packet_bytes arp_answer 0 42 =
    ([1, 2, 3, 4, 5, 6] @ [7, 8, 9, 10, 11, 12] @ [8, 6, 0, 1, 8, 0, 6, 4, 0]) @ [2] @
    [7, 8, 9, 10, 11, 12] @ [10, 0, 0, 2] @ my_mac arp_asker @ my_ip arp_asker"
proof -
  let ?m = "snd (arp_build_request 0 [10, 0, 0, 2] [1, 2, 3, 4, 5, 6] [10, 0, 0, 1] (\<lambda>_. 0))"
  have req: "packet_bytes ?m 0 42 = replicate 6 0xFF @ [1, 2, 3, 4, 5, 6] @ [0x08, 0x06, 0x00, 0x01] @
    [0x08, 0x00, 0x06, 0x04] @ [0x00, 0x01] @ [1, 2, 3, 4, 5, 6] @ [10, 0, 0, 1] @ replicate 6 0 @ [10, 0, 0, 2]"
    by (rule arp_build_request_frame) (simp_all add: aligned_def)
  show ?thesis
    using packet_bytes_take [of 6 6 42 ?m 0] packet_bytes_take [of 12 9 42 ?m 0]
      packet_bytes_take [of 22 6 42 ?m 0] packet_bytes_take [of 28 4 42 ?m 0]
      arp_build_reply_frame [of 0 0 "[7, 8, 9, 10, 11, 12]" "[10, 0, 0, 2]" ?m]
    by (simp add: req arp_answer_def arp_asker_def arp_node_def)
qed

lemma arp_asker_steps:
  "arp_ready arp_asker" "dev arp_asker = deliver_env arp_answer 0"
  "mac_packet_type arp_answer 0 = ARP"
  by (simp_all add: arp_asker_def arp_node_def arp_ready_def arp_blank_inv
      mac_packet_type_frame [OF arp_answer_frame] nth_append)

text \<open>The round of the example.\<close>

lemma arp_asker_round:
  "\<exists>s'. arp_resolve_round 0 64 [10, 0, 0, 2] timeout now (snd (get_cpu_usecs arp_asker)) = Some (Some 1, s') \<and>
    arp_table_search (arp_table s') [10, 0, 0, 2] (replicate 6 0) = (1, [7, 8, 9, 10, 11, 12])"
proof -
  let ?start = "snd (get_cpu_usecs arp_asker)"
  let ?s1 = "?start\<lparr>buff := arp_answer\<rparr>"
  have start: "?start = arp_asker\<lparr>dev := deliver_env arp_answer 1\<rparr>"
    using deliver_accesses(3) [OF arp_asker_steps(2)] by simp
  then have own: "my_mac ?start = my_mac arp_asker" "my_ip ?start = my_ip arp_asker" by simp_all
  show ?thesis
  proof (rule arp_resolve_round_answered [where ?s1.0 = ?s1 and ?s2.0 = "?s1\<lparr>dev := deliver_env arp_answer 2\<rparr>"
        and header = "[1, 2, 3, 4, 5, 6] @ [7, 8, 9, 10, 11, 12] @ [8, 6, 0, 1, 8, 0, 6, 4, 0]"])
    show "arp_ready ?start"
      using arp_asker_steps(1) arp_more(4) [OF get_cpu_usecs_more [of arp_asker]] by simp
    show "eth_mac_send 64 42 (?start\<lparr>buff := snd (arp_build_request 64 [10, 0, 0, 2] (my_mac ?start)
        (my_ip ?start) (buff ?start))\<rparr>) = Some ?s1"
      by (subst deliver_send [where m = arp_answer and t = 1]) (simp_all add: start)
    show "eth_mac_receive 0 100000 ?s1 = Some (1, ?s1\<lparr>dev := deliver_env arp_answer 2\<rparr>)"
      by (subst deliver_receive [where m = arp_answer and t = 1]) (simp_all add: start)
  qed (simp_all add: arp_asker_steps(3) arp_answer_frame own)
qed

lemma arp_asker_returns: "\<exists>s'. arp_resolve_ip 0 64 [10, 0, 0, 2] 1000 arp_asker = Some (1, s')"
  using arp_asker_round [of 1000 "fst (get_cpu_usecs arp_asker)"]
  by (auto simp: arp_resolve_ip_def Let_def split_beta loop_until_exit)

lemma arp_resolve_ip_success_witness:
  "\<exists>s'. arp_resolve_ip 0 64 [10, 0, 0, 2] 1000 arp_asker = Some (1, s') \<and>
    arp_ready s' \<and> arp_lookup (arp_table s') [10, 0, 0, 2] \<noteq> None"
proof -
  obtain s' where s': "arp_resolve_ip 0 64 [10, 0, 0, 2] 1000 arp_asker = Some (1, s')"
    using arp_asker_returns by blast
  with arp_resolve_ip_success [OF arp_asker_steps(1) _ s'] show ?thesis by auto
qed

text \<open>
  A resolution that is answered succeeds at once. When the request is sent and the frame
  received next is the ARP reply of the target to this node, the loop returns 1 after one round
  and the table holds the address in the reply.
\<close>

theorem arp_resolve_ip_answered:
  assumes "arp_ready s" and "length ip = 4" and "length mac = 6" and "start = snd (get_cpu_usecs s)"
    and send: "eth_mac_send tx 42 (start\<lparr>buff := snd (arp_build_request tx ip (my_mac s) (my_ip s) (buff start))\<rparr>)
      = Some s1"
    and recv: "eth_mac_receive rx 100000 s1 = Some (1, s2)"
    and type: "mac_packet_type (buff s2) rx = ARP"
    and reply: "packet_bytes (buff s2) rx 42 = header @ [2] @ mac @ ip @ my_mac s @ my_ip s" "length header = 21"
  shows "\<exists>s'. arp_resolve_ip rx tx ip timeout s = Some (1, s') \<and>
    arp_table_search (arp_table s') ip (replicate 6 0) = (1, mac)"
proof -
  have "eth_state.more start = eth_state.more s" using assms(4) by (simp add: get_cpu_usecs_more)
  note own = arp_more [OF this]
  obtain s' where "arp_resolve_round rx tx ip timeout (fst (get_cpu_usecs s)) start = Some (Some 1, s')"
    and search: "arp_table_search (arp_table s') ip (replicate 6 0) = (1, mac)"
    using arp_resolve_round_answered [of start ip mac tx s1 rx s2 header] assms own by auto
  then have "arp_resolve_ip rx tx ip timeout s = Some (1, s')"
    by (simp add: arp_resolve_ip_def Let_def split_beta loop_until_exit assms(4))
  with search show ?thesis by blast
qed

lemma arp_resolve_ip_answered_witness:
  "\<exists>s'. arp_resolve_ip 0 64 [10, 0, 0, 2] 1000 arp_asker = Some (1, s') \<and>
    arp_table_search (arp_table s') [10, 0, 0, 2] (replicate 6 0) = (1, [7, 8, 9, 10, 11, 12])"
proof -
  let ?start = "snd (get_cpu_usecs arp_asker)"
  let ?s1 = "?start\<lparr>buff := arp_answer\<rparr>"
  have start: "?start = arp_asker\<lparr>dev := deliver_env arp_answer 1\<rparr>"
    using deliver_accesses(3) [OF arp_asker_steps(2)] by simp
  show ?thesis
  proof (rule arp_resolve_ip_answered [OF arp_asker_steps(1) _ _ refl,
        where ?s1.0 = ?s1 and ?s2.0 = "?s1\<lparr>dev := deliver_env arp_answer 2\<rparr>"
        and header = "[1, 2, 3, 4, 5, 6] @ [7, 8, 9, 10, 11, 12] @ [8, 6, 0, 1, 8, 0, 6, 4, 0]"])
    show "eth_mac_send 64 42 (?start\<lparr>buff := snd (arp_build_request 64 [10, 0, 0, 2] (my_mac arp_asker)
        (my_ip arp_asker) (buff ?start))\<rparr>) = Some ?s1"
      by (subst deliver_send [where m = arp_answer and t = 1]) (simp_all add: start)
    show "eth_mac_receive 0 100000 ?s1 = Some (1, ?s1\<lparr>dev := deliver_env arp_answer 2\<rparr>)"
      by (subst deliver_receive [where m = arp_answer and t = 1]) (simp_all add: start)
  qed (simp_all add: arp_asker_steps(3) arp_answer_frame)
qed

end
