(* ===== verification/Icmp_Layer.thy ===== *)
theory Icmp_Layer
  imports Arp_Layer
begin

text \<open>
  The ICMP layer (\<^verbatim>\<open>ethlib/icmp.c\<close>): the answer to a ping. The reply is the request with the
  addresses swapped, the type changed and the checksum updated instead of recomputed; the
  lemmas say which bytes change and when the updated checksum is still right.
\<close>

section \<open>Operations\<close>

definition icmp_get_type :: "buffer \<Rightarrow> u32 \<Rightarrow> u8" where
  "icmp_get_type m pkt_addr = ucast (mem_iord_byte m (pkt_addr + 34))"

definition icmp_get_code :: "buffer \<Rightarrow> u32 \<Rightarrow> u8" where
  "icmp_get_code m pkt_addr = ucast (mem_iord_byte m (pkt_addr + 35))"

definition icmp_get_quench :: "buffer \<Rightarrow> u32 \<Rightarrow> u32" where
  "icmp_get_quench m pkt_addr = mem_iord m (pkt_addr + 38)"

definition icmp_build_ping_reply ::
  "u32 \<Rightarrow> u32 \<Rightarrow> u8 list \<Rightarrow> u8 list \<Rightarrow> buffer \<Rightarrow> u32 \<times> buffer" where
  "icmp_build_ping_reply rx_addr tx_addr mac ip m =
     (let frame_length = 14 + (push_bit 8 (mem_iord_byte m (rx_addr + 16)) OR mem_iord_byte m (rx_addr + 17));
          m = (if rx_addr \<noteq> tx_addr
               then for_loop 0 (unat frame_length) (\<lambda>i m. mem_iowr_byte (tx_addr + of_nat i)
                                          (mem_iord_byte m (rx_addr + of_nat i)) m) m
               else m);
          m = for_loop 0 6 (\<lambda>i m.
                let m = mem_iowr_byte (tx_addr + of_nat i) (mem_iord_byte m (tx_addr + 6 + of_nat i)) m
                in mem_iowr_byte (tx_addr + 6 + of_nat i) (ucast (mac ! i)) m) m;
          m = for_loop 0 4 (\<lambda>i m.
                let m = mem_iowr_byte (tx_addr + 30 + of_nat i) (mem_iord_byte m (tx_addr + 26 + of_nat i)) m
                in mem_iowr_byte (tx_addr + 26 + of_nat i) (ucast (ip ! i)) m) m;
          m = mem_iowr_byte (tx_addr + 34) 0x00 m;
          checksum = (ucast (push_bit 8 (mem_iord_byte m (tx_addr + 36)) OR mem_iord_byte m (tx_addr + 37)) :: u16);
          checksum = (ucast (NOT (NOT (ucast checksum :: u32) - 0x0800)) :: u16);
          m = mem_iowr_byte (tx_addr + 36) (ucast (drop_bit 8 checksum)) m;
          m = mem_iowr_byte (tx_addr + 37) (ucast (checksum AND 0xff)) m
      in (frame_length, m))"

definition icmp_process_received ::
  "u32 \<Rightarrow> u32 \<Rightarrow> 'a ip_state_scheme \<Rightarrow> (u32 \<times> 'a ip_state_scheme) option" where
  "icmp_process_received rx_addr tx_addr s =
     (if icmp_get_type (buff s) rx_addr = 0x08
      then let destination_ip = ipv4_get_destination_ip (buff s) rx_addr
           in if ipv4_compare_ip destination_ip (my_ip s) \<noteq> 0
              then let (frame_length, m) = icmp_build_ping_reply rx_addr tx_addr (my_mac s) (my_ip s) (buff s);
                       s = s\<lparr>buff := m\<rparr>
                   in do { s \<leftarrow> eth_mac_send tx_addr frame_length s; Some (1, s) }
              else Some (0, s)
      else Some (0, s))"

section \<open>The bytes of the reply\<close>

definition ping_frame_length :: "buffer \<Rightarrow> u32 \<Rightarrow> u32" where
  "ping_frame_length m rx_addr =
     14 + (push_bit 8 (mem_iord_byte m (rx_addr + 16)) OR mem_iord_byte m (rx_addr + 17))"

text \<open>The updated checksum: 0x0800 more, modulo 2^16.\<close>

definition ping_checksum :: "u16 \<Rightarrow> u16" where
  "ping_checksum c = ucast (NOT (NOT (ucast c :: u32) - 0x0800))"

lemma ping_checksum_add: "ping_checksum c = c + 0x0800"
proof -
  have "NOT (NOT (ucast c :: u32) - 0x0800) = ucast c + 0x0800"
    by (simp add: not_eq_complement)
  then show ?thesis
    by (simp add: ping_checksum_def word_unat_eq_iff unsigned_ucast_eq take_bit_eq_mod
        unat_word_ariths mod_mod_cancel)
qed

lemmas icmp_swap_mac = frame_byte_move [where d = 0 and r = 6 and n = 6, simplified]
lemmas icmp_swap_ip = frame_byte_move [where d = 30 and r = 26 and n = 4, simplified]

lemma ping_frame_length_bound: "unat (ping_frame_length m rx) \<le> 65549"
proof -
  have "push_bit 8 (mem_iord_byte m (rx + 16)) OR mem_iord_byte m (rx + 17) =
      push_bit 8 (mem_iord_byte m (rx + 16)) + mem_iord_byte m (rx + 17)"
    by (rule disjunctive_add [symmetric])
      (metis mem_iord_byte_mask byte_mask bit_and_iff bit_mask_iff bit_push_bit_iff not_le)
  moreover have "unat (push_bit 8 (mem_iord_byte m (rx + 16)) + mem_iord_byte m (rx + 17)) \<le> 65535"
    using unat_packet_word_le [of m "rx + 16"] by (simp add: packet_word_def mem_iord_byte_mask add.assoc)
  ultimately show ?thesis by (simp add: ping_frame_length_def unat_word_ariths)
qed

definition icmp_checksum_field :: "buffer \<Rightarrow> u32 \<Rightarrow> u16" where
  "icmp_checksum_field m p = ucast (push_bit 8 (frame_byte m p 36) OR frame_byte m p 37)"

lemma ping_reply_byte:
  assumes "rx = tx \<or> disjoint_areas len tx rx" and len: "len = unat (ping_frame_length m rx)"
    and "38 \<le> len" and "j < len"
  shows "frame_byte (snd (icmp_build_ping_reply rx tx mac ip m)) tx j =
    (if j < 6 then frame_byte m rx (6 + j)
     else if j < 12 then ucast (mac ! (j - 6))
     else if j < 26 then frame_byte m rx j
     else if j < 30 then ucast (ip ! (j - 26))
     else if j < 34 then frame_byte m rx (j - 4)
     else if j = 34 then 0
     else if j = 36 then ucast (drop_bit 8 (ping_checksum (icmp_checksum_field m rx))) AND 0xFF
     else if j = 37 then ucast (ping_checksum (icmp_checksum_field m rx) AND 0xFF) AND 0xFF
     else frame_byte m rx j)"
proof -
  have bound: "len \<le> 65549" using ping_frame_length_bound len by simp
  note copy = frame_byte_copy [OF assms(1)]
  have j: "j < 65549" using assms(4) bound by simp
  show ?thesis
    unfolding icmp_build_ping_reply_def Let_def snd_conv
    unfolding ping_frame_length_def [symmetric] len [symmetric] ping_checksum_def [symmetric]
    unfolding frame_byte_numeral(1) icmp_checksum_field_def
    using assms(3,4) bound j
    by (simp add: icmp_swap_mac icmp_swap_ip mem_simps copy) (auto simp: copy)
qed

text \<open>The addresses of the reply, read back, and its bytes after the ICMP checksum.\<close>

lemma ping_reply_addresses:
  assumes "rx = tx \<or> disjoint_areas len tx rx" and "len = unat (ping_frame_length m rx)" and "38 \<le> len"
    and "length ip = 4" and "length mac = 6" and m': "m' = snd (icmp_build_ping_reply rx tx mac ip m)"
  shows "ipv4_get_source_ip m' tx = ip" and "ipv4_get_destination_ip m' tx = ipv4_get_source_ip m rx"
    and "packet_bytes m' tx 6 = mac_addr_sender m rx" and "mac_addr_sender m' tx = mac"
proof -
  note byte = ping_reply_byte [OF assms(1,2,3), of _ mac ip, folded m', unfolded frame_byte_def]
  show "ipv4_get_source_ip m' tx = ip"
    using assms(3,4) byte [of "26 + _"]
    by (intro nth_equalityI) (simp_all add: ipv4_get_source_ip_def nth_packet_bytes add.assoc)
  show "ipv4_get_destination_ip m' tx = ipv4_get_source_ip m rx"
    using assms(3) byte [of "30 + _"]
    by (intro nth_equalityI) (simp_all add: ipv4_get_source_ip_def ipv4_get_destination_ip_def nth_packet_bytes add.assoc)
  show "packet_bytes m' tx 6 = mac_addr_sender m rx"
    using assms(3) byte
    by (intro nth_equalityI) (simp_all add: mac_addr_sender_def nth_packet_bytes add.assoc)
  show "mac_addr_sender m' tx = mac"
    using assms(3,5) byte [of "6 + _"]
    by (intro nth_equalityI) (simp_all add: mac_addr_sender_def nth_packet_bytes add.assoc)
qed

section \<open>Checksums of the reply\<close>

text \<open>The first two words, which the reply changes, and the rest.\<close>

lemma sum_first_two:
  fixes g :: "nat \<Rightarrow> nat"
  assumes "2 \<le> n" shows "(\<Sum>k<n. g k) = g 0 + g 1 + (\<Sum>k\<in>{2..<n}. g k)"
proof -
  obtain i where n: "n = 2 + i" using assms le_Suc_ex by blast
  show ?thesis unfolding n by (induction i) (simp_all add: numeral_2_eq_2)
qed

lemma payload_sum_split:
  assumes "2 \<le> n"
  shows "payload_sum m p n = 256 * unat (frame_byte m p 34) + unat (frame_byte m p 35) +
    (256 * unat (frame_byte m p 36) + unat (frame_byte m p 37)) +
    (\<Sum>k\<in>{2..<n}. 256 * unat (frame_byte m p (34 + 2 * k)) + unat (frame_byte m p (35 + 2 * k)))"
  using sum_first_two [OF assms] by (simp only: payload_sum_frame) simp

lemma icmp_checksum_word:
  "256 * unat (frame_byte m p 36) + unat (frame_byte m p 37) = unat (icmp_checksum_field m p)"
proof -
  have "push_bit 8 (frame_byte m p 36) OR frame_byte m p 37 = push_bit 8 (frame_byte m p 36) + frame_byte m p 37"
    by (rule disjunctive_add [symmetric])
      (metis frame_byte_def mem_iord_byte_mask byte_mask bit_and_iff bit_mask_iff bit_push_bit_iff not_le)
  moreover have "unat (push_bit 8 (frame_byte m p 36) + frame_byte m p 37) =
      256 * unat (frame_byte m p 36) + unat (frame_byte m p 37)"
    using packet_word_frame [of m p 36]
    by (simp add: packet_word_def frame_byte_def mem_iord_byte_mask add.assoc)
  moreover have "256 * unat (frame_byte m p 36) + unat (frame_byte m p 37) < 65536"
    using mem_iord_byte_less [of m "p + 36"] mem_iord_byte_less [of m "p + 37"] by (simp add: frame_byte_def)
  ultimately show ?thesis
    by (simp add: icmp_checksum_field_def unsigned_ucast_eq take_bit_eq_mod)
qed

lemma ping_checksum_small:
  "unat c < 0xF800 \<Longrightarrow> unat (ping_checksum c) = unat c + 0x0800"
  "\<not> unat c < 0xF800 \<Longrightarrow> unat (ping_checksum c) + 0x10000 = unat c + 0x0800"
  using u16_less [of c] by (auto simp: ping_checksum_add unat_word_ariths mod_if)

section \<open>Properties\<close>

text \<open>
  C29: the reply to a ping swaps the addresses and leaves both checksums consistent. For a
  request whose IP destination is this node, the reply goes from this node's IP and hardware address
  to those the request came from, its bytes after the ICMP checksum are those of the request, and
  the IP header checksum of the reply verifies exactly when that of the request did. For a request (type 8) whose ICMP words sum to zero in one's
  complement arithmetic, those of the reply do too exactly when the checksum field of the
  request is below 0xF800: above that the update loses the end-around carry.
\<close>

theorem icmp_ping_reply_checksums:
  assumes disj: "rx = tx \<or> disjoint_areas len tx rx" and len: "len = unat (ping_frame_length m rx)"
    and n: "2 \<le> n" "34 + 2 * n \<le> len" and ip: "length ip = 4"
    and mac: "length mac = 6" and dest: "ipv4_get_destination_ip m rx = ip"
    and type: "icmp_get_type m rx = 8"
    and valid: "0 < payload_sum m rx n" "65535 dvd payload_sum m rx n"
    and reply: "m' = snd (icmp_build_ping_reply rx tx mac ip m)"
  shows "ipv4_get_source_ip m' tx = ipv4_get_destination_ip m rx \<and>
    ipv4_get_destination_ip m' tx = ipv4_get_source_ip m rx \<and>
    mac_addr_sender m' tx = mac \<and> packet_bytes m' tx 6 = mac_addr_sender m rx \<and>
    (\<forall>j. 38 \<le> j \<and> j < len \<longrightarrow> frame_byte m' tx j = frame_byte m rx j) \<and>
    ipv4_verify_checksum m' tx = ipv4_verify_checksum m rx \<and>
    icmp_get_type m' tx = 0 \<and>
    (0 < payload_sum m' tx n \<and> 65535 dvd payload_sum m' tx n \<longleftrightarrow> unat (icmp_checksum_field m rx) < 0xF800)"
proof -
  have len38: "38 \<le> len" using n by simp
  note byte = ping_reply_byte [OF disj len len38, of _ mac ip, folded reply]
  let ?f = "frame_byte m rx" and ?g = "frame_byte m' tx" and ?c = "icmp_checksum_field m rx"
  have dst: "ip ! k = ucast (?f (30 + k))" if "k < 4" for k
    using that by (simp add: dest [symmetric] ipv4_get_destination_ip_def nth_packet_bytes frame_byte_def add.assoc)
  have byte_id: "unat (ucast (?f k) :: u8) = unat (?f k)" for k
    by (metis buf.rd_of_byte frame_byte_def unat_u8_to_u32)
  have head: "unat (?g (26 + k)) = unat (?f (30 + k))" "unat (?g (30 + k)) = unat (?f (26 + k))" if "k < 4" for k
    using that len38 by (simp_all add: byte dst byte_id)
  have "header_sum m' tx = header_sum m rx"
    using len38 head [of 0] head [of 1] head [of 2] head [of 3]
    by (simp add: header_sum_frame lessThan_nat_numeral lessThan_Suc byte)
  then have "ipv4_header_sum m' tx = ipv4_header_sum m rx" by (simp add: word_unat_eq_iff header_loop)
  then have verify: "ipv4_verify_checksum m' tx = ipv4_verify_checksum m rx"
    by (simp add: ipv4_verify_checksum_def)
  have f34: "?f 34 = 8" using type by (simp add: icmp_get_type_def byte_literal frame_byte_def)
  have "(\<Sum>k\<in>{2..<n}. 256 * unat (?g (34 + 2 * k)) + unat (?g (35 + 2 * k))) =
      (\<Sum>k\<in>{2..<n}. 256 * unat (?f (34 + 2 * k)) + unat (?f (35 + 2 * k)))" (is "?R' = ?R")
    by (rule sum.cong) (use n in \<open>simp_all add: byte\<close>)
  moreover have "256 * unat (?g 36) + unat (?g 37) = unat (ping_checksum ?c)"
    using len38 by (simp add: byte two_bytes)
  moreover have "?g 34 = 0" "?g 35 = ?f 35" using len38 by (simp_all add: byte)
  ultimately have new: "payload_sum m' tx n = unat (?f 35) + unat (ping_checksum ?c) + ?R"
    by (simp add: payload_sum_split [OF n(1)])
  have old: "payload_sum m rx n = 2048 + unat (?f 35) + unat ?c + ?R"
    by (simp only: payload_sum_split [OF n(1)] icmp_checksum_word f34) simp
  have iff: "0 < payload_sum m' tx n \<and> 65535 dvd payload_sum m' tx n \<longleftrightarrow> unat ?c < 0xF800"
  proof (cases "unat ?c < 0xF800")
    case True
    with new old ping_checksum_small(1) [of ?c] have "payload_sum m' tx n = payload_sum m rx n" by simp
    with valid True show ?thesis by simp
  next
    case False
    with new old ping_checksum_small(2) [of ?c] have step: "payload_sum m rx n = payload_sum m' tx n + 65536" by simp
    have "\<not> 65535 dvd payload_sum m' tx n"
    proof
      assume "65535 dvd payload_sum m' tx n"
      with valid(2) step have "(65535 :: nat) dvd 65536" by (metis dvd_add_right_iff)
      then show False by simp
    qed
    with False show ?thesis by simp
  qed
  have "icmp_get_type m' tx = 0"
    using \<open>?g 34 = 0\<close> by (simp add: icmp_get_type_def frame_byte_def)
  moreover have "\<forall>j. 38 \<le> j \<and> j < len \<longrightarrow> ?g j = ?f j" by (simp add: byte)
  moreover note ping_reply_addresses(2-4) [OF disj len len38 ip mac reply] verify iff
  moreover have "ipv4_get_source_ip m' tx = ipv4_get_destination_ip m rx"
    unfolding dest by (rule ping_reply_addresses(1) [OF disj len len38 ip mac reply])
  ultimately show ?thesis by blast
qed

text \<open>A ping request of 38 bytes for 10.0.0.2, in a buffer that is otherwise zero.\<close>

definition ping_request :: buffer where
  "ping_request = (\<lambda>w. if w = 4 then 0x00180000 else if w = 7 then 0x00000a00
     else if w = 8 then 0x00020800 else if w = 9 then 0xF7FF0000 else 0)"

lemma ping_request_byte:
  "mem_iord_byte ping_request 16 = 0" "mem_iord_byte ping_request 17 = 0x18"
  "mem_iord_byte ping_request 30 = 10" "mem_iord_byte ping_request 31 = 0"
  "mem_iord_byte ping_request 32 = 0" "mem_iord_byte ping_request 33 = 2"
  "mem_iord_byte ping_request 34 = 8" "mem_iord_byte ping_request 35 = 0"
  "mem_iord_byte ping_request 36 = 0xF7" "mem_iord_byte ping_request 37 = 0xFF"
  by (simp_all add: mem_iord_byte_def ping_request_def mem_simps)

lemma icmp_ping_reply_checksums_witness:
  "let m' = snd (icmp_build_ping_reply 0 0 [1, 2, 3, 4, 5, 6] [10, 0, 0, 2] ping_request)
   in ipv4_get_source_ip m' 0 = [10, 0, 0, 2] \<and> ipv4_get_destination_ip m' 0 = ipv4_get_source_ip ping_request 0 \<and>
      mac_addr_sender m' 0 = [1, 2, 3, 4, 5, 6] \<and> ipv4_verify_checksum m' 0 = ipv4_verify_checksum ping_request 0 \<and>
      65535 dvd payload_sum m' 0 2"
proof -
  have sum: "payload_sum ping_request 0 2 = 65535"
    by (simp add: payload_sum_def lessThan_nat_numeral lessThan_Suc unat_packet_word ping_request_byte)
  have len: "ping_frame_length ping_request 0 = 38"
    by (simp add: ping_frame_length_def ping_request_byte)
  have dest: "ipv4_get_destination_ip ping_request 0 = [10, 0, 0, 2]"
    by (simp add: ipv4_get_destination_ip_def packet_bytes_4 ping_request_byte)
  have type: "icmp_get_type ping_request 0 = 8"
    by (simp add: icmp_get_type_def ping_request_byte)
  have low: "unat (icmp_checksum_field ping_request 0) < 0xF800"
    by (simp add: icmp_checksum_field_def frame_byte_def ping_request_byte)
  have l: "38 = unat (ping_frame_length ping_request 0)" by (simp add: len)
  have v: "0 < payload_sum ping_request 0 2" "65535 dvd payload_sum ping_request 0 2" by (simp_all add: sum)
  define m' where "m' = snd (icmp_build_ping_reply 0 0 [1, 2, 3, 4, 5, 6] [10, 0, 0, 2] ping_request)"
  note reply = icmp_ping_reply_checksums [OF disjI1 [OF refl] l _ _ _ _ dest type v m'_def]
  have "ipv4_get_source_ip m' 0 = [10, 0, 0, 2]" using reply by (simp add: dest)
  moreover have "ipv4_get_destination_ip m' 0 = ipv4_get_source_ip ping_request 0" using reply by simp
  moreover have "mac_addr_sender m' 0 = [1, 2, 3, 4, 5, 6]" using reply by simp
  moreover have "ipv4_verify_checksum m' 0 = ipv4_verify_checksum ping_request 0" using reply by simp
  moreover have "65535 dvd payload_sum m' 0 2" using reply low by simp
  ultimately show ?thesis unfolding Let_def m'_def by blast
qed

end
