(* ===== verification/Udp_Layer.thy ===== *)
theory Udp_Layer
  imports Icmp_Layer
begin

text \<open>
  The UDP layer (\<^verbatim>\<open>ethlib/udp.c\<close>, \<^verbatim>\<open>ethlib/udp.h\<close>): field accessors, the checksum with its pseudo
  header, and the three senders. The lemmas show that a frame that is sent reads back with the
  fields it was built from and that both of its checksums verify.
\<close>

section \<open>Data\<close>

record udphead_t =
  source_port :: u16
  destination_port :: u16
  data_length :: u16
  udp_checksum :: u16

record udp_t =
  ip_head :: iphead_t
  udp_head :: udphead_t
  udp_data :: "u8 list"

text \<open>The layer's own state is the identification of the next IP packet, initially 0x1111.\<close>

record udp_state = arp_state +
  ipv4_id :: u16

definition ipv4_id_init :: u16 where
  "ipv4_id_init = 0x1111"

section \<open>Packet fields\<close>

definition udp_get_source_port :: "buffer \<Rightarrow> u32 \<Rightarrow> u16" where
  "udp_get_source_port m pkt_addr = ucast (mem_iord m (pkt_addr + 32) AND 0x0000FFFF)"

definition udp_get_destination_port :: "buffer \<Rightarrow> u32 \<Rightarrow> u16" where
  "udp_get_destination_port m pkt_addr = ucast (drop_bit 16 (mem_iord m (pkt_addr + 36)))"

definition udp_get_packet_length :: "buffer \<Rightarrow> u32 \<Rightarrow> u16" where
  "udp_get_packet_length m pkt_addr = ucast (mem_iord m (pkt_addr + 36) AND 0x0000FFFF)"

definition udp_get_checksum :: "buffer \<Rightarrow> u32 \<Rightarrow> u16" where
  "udp_get_checksum m pkt_addr = ucast (drop_bit 16 (mem_iord m (pkt_addr + 40)))"

definition udp_get_data_length :: "buffer \<Rightarrow> u32 \<Rightarrow> u16" where
  "udp_get_data_length m pkt_addr = udp_get_packet_length m pkt_addr - 8"

text \<open>Copies into the caller's array: \<^const>\<open>None\<close> when the array is shorter than the length asked for.\<close>

definition udp_get_data :: "buffer \<Rightarrow> u32 \<Rightarrow> u8 list \<Rightarrow> u32 \<Rightarrow> (u8 \<times> u8 list) option" where
  "udp_get_data m pkt_addr data len = do {
     data \<leftarrow> for_loop 0 (unat len) (\<lambda>i r. do {
               data \<leftarrow> r;
               array_store data i (ucast (mem_iord_byte m (pkt_addr + 42 + of_nat i)))
             }) (Some data);
     Some (1, data)
   }"

text \<open>Building a packet also reads the caller's array, which has to be as long as the length given.\<close>

definition udp_build_packet ::
  "udp_t \<Rightarrow> u8 list \<Rightarrow> u8 list \<Rightarrow> u16 \<Rightarrow> u16 \<Rightarrow> u8 list \<Rightarrow> u16 \<Rightarrow> u16 \<Rightarrow> udp_t option" where
  "udp_build_packet packet src_ip dst_ip src_port dst_port data len ident =
     (let head = (udp_t.ip_head packet)\<lparr>
            ver_headlen := 0x45, dscp_ecn := 0x00, ip_length := 20 + 8 + len, identification := ident,
            flags_fragmentoff := 0x4000, ttl := 0x40, protocol := 0x11, head_checksum := 0x0,
            source_ip := [src_ip ! 0, src_ip ! 1, src_ip ! 2, src_ip ! 3],
            destination_ip := [dst_ip ! 0, dst_ip ! 1, dst_ip ! 2, dst_ip ! 3]\<rparr>;
          uhead = (udp_head packet)\<lparr>source_port := src_port, destination_port := dst_port,
            data_length := len, udp_checksum := 0x0\<rparr>
      in do {
        d \<leftarrow> for_loop 0 (unat len) (\<lambda>i r. do {
               d \<leftarrow> r;
               if i < length data then array_store d i (data ! i) else None
             }) (Some (udp_data packet));
        Some (packet\<lparr>udp_t.ip_head := head, udp_head := uhead, udp_data := d\<rparr>)
      })"

section \<open>Checksum\<close>

text \<open>
  Both checksum functions begin by rounding an odd length up, with a zero byte written after
  the data, and by adding the words up to that length (in the C code, index 0, 2, 4, \<open>\<dots>\<close>).
\<close>

definition udp_padded :: "buffer \<Rightarrow> u32 \<Rightarrow> u16 \<times> u16 \<times> buffer" where
  "udp_padded m pkt_addr =
     (let udp_length = (ucast (mem_iord m (pkt_addr + 36) AND 0xFFFF) :: u16)
      in if udp_length AND 0x1 = 0 then (udp_length, udp_length, m)
         else (udp_length, udp_length + 1, mem_iowr_byte (pkt_addr + ucast udp_length + 34) 0x00 m))"

definition udp_data_sum :: "buffer \<Rightarrow> u32 \<Rightarrow> u16 \<Rightarrow> u32" where
  "udp_data_sum m pkt_addr corrected_length =
     for_loop 0 (unat corrected_length div 2) (\<lambda>k checksum. checksum
        + push_bit 8 (mem_iord_byte m (pkt_addr + 34 + of_nat (2 * k)))
        + (mem_iord_byte m (pkt_addr + 35 + of_nat (2 * k)) AND 0xFF)) 0"

definition udp_pseudo_sum :: "buffer \<Rightarrow> u32 \<Rightarrow> u16 \<Rightarrow> u32 \<Rightarrow> u32" where
  "udp_pseudo_sum m pkt_addr udp_length checksum =
     for_loop 0 2 (\<lambda>k checksum.
        let checksum = checksum + push_bit 8 (mem_iord_byte m (pkt_addr + 26 + of_nat (2 * k)))
              + (mem_iord_byte m (pkt_addr + 27 + of_nat (2 * k)) AND 0xFF)
        in checksum + push_bit 8 (mem_iord_byte m (pkt_addr + 30 + of_nat (2 * k)))
              + (mem_iord_byte m (pkt_addr + 31 + of_nat (2 * k)) AND 0xFF)) checksum
     + 0x0011 + ucast udp_length"

definition udp_compute_checksum :: "buffer \<Rightarrow> u32 \<Rightarrow> u16 \<times> buffer" where
  "udp_compute_checksum m pkt_addr =
     (let (udp_length, corrected_length, m) = udp_padded m pkt_addr;
          checksum = udp_data_sum m pkt_addr corrected_length;
          checksum = checksum - push_bit 8 (mem_iord_byte m (pkt_addr + 40))
              + (mem_iord_byte m (pkt_addr + 41) AND 0xFF);
          checksum = udp_pseudo_sum m pkt_addr udp_length checksum
      in (ucast (checksum_finish checksum), m))"

definition udp_verify_checksum :: "buffer \<Rightarrow> u32 \<Rightarrow> u32 \<times> buffer" where
  "udp_verify_checksum m pkt_addr =
     (let (udp_length, corrected_length, m) = udp_padded m pkt_addr;
          checksum = udp_data_sum m pkt_addr corrected_length;
          checksum = udp_pseudo_sum m pkt_addr udp_length checksum;
          checksum = checksum_finish checksum
      in (if checksum = 0 then 1 else 0, m))"

section \<open>Senders\<close>

definition store_udp_checksum :: "u32 \<Rightarrow> buffer \<Rightarrow> buffer" where
  "store_udp_checksum tx_addr m =
     (let (checksum, m) = udp_compute_checksum m tx_addr;
          m = mem_iowr_byte (tx_addr + 40) (ucast (drop_bit 8 checksum)) m
      in mem_iowr_byte (tx_addr + 41) (ucast (checksum AND 0xFF)) m)"

text \<open>
  The statements the three senders share, from the MAC addresses to the UDP checksum; they
  differ in where the destination MAC, the source IP, the ports and the data come from.
\<close>

definition udp_write_headers ::
  "u32 \<Rightarrow> u8 list \<Rightarrow> u8 list \<Rightarrow> u8 list \<Rightarrow> u8 list \<Rightarrow> u16 \<Rightarrow> u16 \<Rightarrow> u16 \<Rightarrow> u16 \<Rightarrow> buffer \<Rightarrow> buffer" where
  "udp_write_headers tx_addr dst_mac src_mac src_ip dst_ip ident src_port dst_port udp_length m =
     (let ip_length = udp_length + 20;
          m = mem_iowr tx_addr (word_of_bytes (dst_mac ! 0) (dst_mac ! 1) (dst_mac ! 2) (dst_mac ! 3)) m;
          m = mem_iowr (tx_addr + 4) (word_of_bytes (dst_mac ! 4) (dst_mac ! 5) (src_mac ! 0) (src_mac ! 1)) m;
          m = mem_iowr (tx_addr + 8) (word_of_bytes (src_mac ! 2) (src_mac ! 3) (src_mac ! 4) (src_mac ! 5)) m;
          m = mem_iowr (tx_addr + 12) 0x08004500 m;
          m = mem_iowr (tx_addr + 16) (push_bit 16 (ucast ip_length) OR ucast ident) m;
          m = mem_iowr (tx_addr + 20) 0x40004011 m;
          m = mem_iowr (tx_addr + 24) (push_bit 8 (ucast (src_ip ! 0)) OR ucast (src_ip ! 1)) m;
          m = mem_iowr (tx_addr + 28) (word_of_bytes (src_ip ! 2) (src_ip ! 3) (dst_ip ! 0) (dst_ip ! 1)) m;
          m = mem_iowr (tx_addr + 32)
                (push_bit 24 (ucast (dst_ip ! 2)) OR push_bit 16 (ucast (dst_ip ! 3)) OR ucast src_port) m;
          m = mem_iowr (tx_addr + 36) (push_bit 16 (ucast dst_port) OR ucast udp_length) m
      in mem_iowr (tx_addr + 40) 0x0000 m)"

definition udp_write_frame ::
  "u32 \<Rightarrow> u8 list \<Rightarrow> u8 list \<Rightarrow> u8 list \<Rightarrow> u8 list \<Rightarrow> u16 \<Rightarrow> u16 \<Rightarrow> u16 \<Rightarrow> u8 list \<Rightarrow> u16 \<Rightarrow> buffer \<Rightarrow> buffer" where
  "udp_write_frame tx_addr dst_mac src_mac src_ip dst_ip ident src_port dst_port data len m =
     (let udp_length = len + 8;
          m = udp_write_headers tx_addr dst_mac src_mac src_ip dst_ip ident src_port dst_port udp_length m;
          m = for_loop 0 (unat len) (\<lambda>i. mem_iowr_byte (tx_addr + 42 + of_nat i) (ucast (data ! i))) m;
          m = store_ip_checksum tx_addr m
      in store_udp_checksum tx_addr m)"

definition udp_frame_length :: "u16 \<Rightarrow> u16" where
  "udp_frame_length len =
     (let udp_length = len + 8; ip_length = udp_length + 20 in ip_length + 14)"

text \<open>The update \<^verbatim>\<open>ipv4_id += 0x10000\<close> is made in 32 bits and stored in 16.\<close>

definition next_ipv4_id :: "u16 \<Rightarrow> u16" where
  "next_ipv4_id ident = ucast ((ucast ident :: u32) + 0x10000)"

definition udp_resolve ::
  "u32 \<Rightarrow> u32 \<Rightarrow> u8 list \<Rightarrow> u64 \<Rightarrow> 'a udp_state_scheme \<Rightarrow> (u8 list \<times> 'a udp_state_scheme) option" where
  "udp_resolve tx_addr rx_addr dst_ip timeout s =
     (let destination_mac = [0xFF, 0xFF, 0xFF, 0xFF, 0xFF, 0xFF];
          (found, destination_mac) = arp_table_search (arp_table s) dst_ip destination_mac
      in if found = 0
         then do {
           (resolved, s) \<leftarrow> arp_resolve_ip rx_addr tx_addr dst_ip timeout s;
           Some (if resolved \<noteq> 0
                 then snd (arp_table_search (arp_table s) dst_ip destination_mac)
                 else destination_mac, s)
         }
         else Some (destination_mac, s))"

definition udp_send_mac ::
  "u32 \<Rightarrow> u32 \<Rightarrow> u8 list \<Rightarrow> u8 list \<Rightarrow> u16 \<Rightarrow> u16 \<Rightarrow> u8 list \<Rightarrow> u16 \<Rightarrow> u64 \<Rightarrow> 'a udp_state_scheme
     \<Rightarrow> (u32 \<times> 'a udp_state_scheme) option" where
  "udp_send_mac tx_addr rx_addr destination_mac dst_ip src_port dst_port data len timeout s =
     (let s = s\<lparr>buff := udp_write_frame tx_addr destination_mac (my_mac s) (my_ip s) dst_ip (ipv4_id s)
                          src_port dst_port data len (buff s)\<rparr>
      in do {
        s \<leftarrow> eth_mac_send tx_addr (ucast (udp_frame_length len)) s;
        Some (1, s\<lparr>ipv4_id := next_ipv4_id (ipv4_id s)\<rparr>)
      })"

definition udp_send ::
  "u32 \<Rightarrow> u32 \<Rightarrow> u8 list \<Rightarrow> u16 \<Rightarrow> u16 \<Rightarrow> u8 list \<Rightarrow> u16 \<Rightarrow> u64 \<Rightarrow> 'a udp_state_scheme
     \<Rightarrow> (u32 \<times> 'a udp_state_scheme) option" where
  "udp_send tx_addr rx_addr dst_ip src_port dst_port data len timeout s = do {
     (destination_mac, s) \<leftarrow> udp_resolve tx_addr rx_addr dst_ip timeout s;
     let s = s\<lparr>buff := udp_write_frame tx_addr destination_mac (my_mac s) (my_ip s) dst_ip (ipv4_id s)
                         src_port dst_port data len (buff s)\<rparr>;
     s \<leftarrow> eth_mac_send tx_addr (ucast (udp_frame_length len)) s;
     Some (1, s\<lparr>ipv4_id := next_ipv4_id (ipv4_id s)\<rparr>)
   }"

text \<open>The sender of a prepared packet takes the source IP from it.\<close>

definition udp_send_packet ::
  "u32 \<Rightarrow> u32 \<Rightarrow> udp_t \<Rightarrow> u64 \<Rightarrow> 'a udp_state_scheme \<Rightarrow> (u32 \<times> 'a udp_state_scheme) option" where
  "udp_send_packet tx_addr rx_addr packet timeout s = do {
     (destination_mac, s) \<leftarrow> udp_resolve tx_addr rx_addr (destination_ip (udp_t.ip_head packet)) timeout s;
     let s = s\<lparr>buff := udp_write_frame tx_addr destination_mac (my_mac s)
                         (source_ip (udp_t.ip_head packet)) (destination_ip (udp_t.ip_head packet)) (ipv4_id s)
                         (source_port (udp_head packet)) (destination_port (udp_head packet))
                         (udp_data packet) (data_length (udp_head packet)) (buff s)\<rparr>;
     s \<leftarrow> eth_mac_send tx_addr (ucast (udp_frame_length (data_length (udp_head packet)))) s;
     Some (1, s\<lparr>ipv4_id := next_ipv4_id (ipv4_id s)\<rparr>)
   }"

section \<open>What the checksum functions compute\<close>

text \<open>The sum over the pseudo header and the rounded-up message, as a number.\<close>

definition udp_length_field :: "buffer \<Rightarrow> u32 \<Rightarrow> u16" where
  "udp_length_field m p = ucast (mem_iord m (p + 36) AND 0xFFFF)"

lemma unat_udp_data_sum:
  "unat (udp_data_sum m p c) = payload_sum m p (unat c div 2)"
proof -
  have "unat c div 2 \<le> 65536" using u16_less [of c] by simp
  moreover have "(\<lambda>k checksum. checksum + push_bit 8 (mem_iord_byte m (p + 34 + of_nat (2 * k)))
       + (mem_iord_byte m (p + 35 + of_nat (2 * k)) AND 0xFF))
     = (\<lambda>k checksum. checksum + packet_word m (p + 34 + of_nat (2 * k)))"
    by (simp add: packet_word_def fun_eq_iff add_ac)
  ultimately show ?thesis
    by (simp add: udp_data_sum_def unat_sum_loop payload_sum_def)
qed

lemma unat_udp_pseudo_sum:
  assumes "unat c \<le> 2147450880"
  shows "unat (udp_pseudo_sum m p len c) = unat c + pseudo_sum m p 17 (unat len)"
proof -
  let ?w = "\<lambda>a. packet_word m (p + a)"
  have eq: "udp_pseudo_sum m p len c = c + ?w 26 + ?w 30 + ?w 28 + ?w 32 + 17 + ucast len"
    by (simp add: udp_pseudo_sum_def Let_def loop_simps for_loop_Suc packet_word_def add_ac)
  have "unat (?w 26) \<le> 65535" "unat (?w 30) \<le> 65535" "unat (?w 28) \<le> 65535" "unat (?w 32) \<le> 65535"
    "unat len \<le> 65535"
    using u16_less [of len] by (simp_all add: unat_packet_word_le)
  with assms show ?thesis
    unfolding eq pseudo_sum_def by (simp add: unat_word_ariths)
qed

text \<open>The padding byte.\<close>

definition udp_pad :: "buffer \<Rightarrow> u32 \<Rightarrow> buffer" where
  "udp_pad m p = snd (snd (udp_padded m p))"

lemma u16_odd: "(c :: u16) AND 1 = 0 \<longleftrightarrow> even (unat c)"
proof -
  have "c AND 1 = 0 \<longleftrightarrow> even c" by (simp add: and_one_eq mod2_eq_if)
  also have "\<dots> \<longleftrightarrow> even (unat c)" by transfer (simp add: even_nat_iff)
  finally show ?thesis .
qed

lemma udp_padded_length:
  assumes "unat (udp_length_field m p) < 65535"
  obtains c where "udp_padded m p = (udp_length_field m p, c, udp_pad m p)"
    "unat c div 2 = (unat (udp_length_field m p) + 1) div 2"
proof -
  have suc: "unat (udp_length_field m p + 1) = unat (udp_length_field m p) + 1"
    using assms by (simp add: unat_word_ariths)
  show ?thesis
  proof (cases "even (unat (udp_length_field m p))")
    case True
    then show ?thesis
      by (intro that [of "udp_length_field m p"])
        (simp_all add: udp_pad_def udp_padded_def Let_def u16_odd flip: udp_length_field_def)
  next
    case False
    then show ?thesis
      by (intro that [of "udp_length_field m p + 1"])
        (simp_all add: udp_pad_def udp_padded_def Let_def u16_odd suc flip: udp_length_field_def)
  qed
qed

lemma udp_pad_byte:
  assumes "j < 2 ^ 32"
  shows "frame_byte (udp_pad m p) p j =
    (if odd (unat (udp_length_field m p)) \<and> j = unat (udp_length_field m p) + 34 then 0 else frame_byte m p j)"
proof -
  let ?len = "udp_length_field m p"
  have "p + ucast ?len + 34 = p + of_nat (unat ?len + 34)" by (simp add: add.assoc)
  moreover have "unat ?len + 34 < 2 ^ 32" using u16_less [of ?len] by simp
  ultimately show ?thesis
    using frame_byte_write [of "unat ?len + 34" j p 0 m] assms
    by (auto simp: udp_pad_def udp_padded_def Let_def u16_odd add.assoc simp flip: udp_length_field_def)
qed

lemma udp_checksum_value:
  assumes len: "unat (udp_length_field m p) < 65535"
    and zero: "frame_byte (udp_pad m p) p 40 = 0" "frame_byte (udp_pad m p) p 41 = 0"
  shows "unat (fst (udp_compute_checksum m p)) = 65535 - ones_sum
     (payload_sum (udp_pad m p) p ((unat (udp_length_field m p) + 1) div 2)
        + pseudo_sum (udp_pad m p) p 17 (unat (udp_length_field m p)))"
    and "snd (udp_compute_checksum m p) = udp_pad m p"
proof -
  let ?m = "udp_pad m p" and ?len = "udp_length_field m p"
  obtain c where pad: "udp_padded m p = (?len, c, ?m)" and c: "unat c div 2 = (unat ?len + 1) div 2"
    using udp_padded_length [OF len] by blast
  have bound: "unat (udp_data_sum ?m p c) \<le> 2147450880"
    using payload_sum_le [of ?m p "unat c div 2"] c len by (simp add: unat_udp_data_sum)
  have "udp_compute_checksum m p = (ucast (checksum_finish (udp_pseudo_sum ?m p ?len (udp_data_sum ?m p c))), ?m)"
    using zero by (simp add: udp_compute_checksum_def pad Let_def frame_byte_def)
  then show "unat (fst (udp_compute_checksum m p)) = 65535 - ones_sum
     (payload_sum ?m p ((unat ?len + 1) div 2) + pseudo_sum ?m p 17 (unat ?len))"
    and "snd (udp_compute_checksum m p) = ?m"
    by (simp_all add: unsigned_ucast_eq take_bit_eq_mod unat_checksum_finish
        unat_udp_pseudo_sum [OF bound] unat_udp_data_sum c)
qed

lemma udp_verify_iff:
  assumes len: "unat (udp_length_field m p) < 65535"
  shows "fst (udp_verify_checksum m p) = 1 \<longleftrightarrow> ones_sum
     (payload_sum (udp_pad m p) p ((unat (udp_length_field m p) + 1) div 2)
        + pseudo_sum (udp_pad m p) p 17 (unat (udp_length_field m p))) = 65535"
proof -
  let ?m = "udp_pad m p" and ?len = "udp_length_field m p"
  obtain c where pad: "udp_padded m p = (?len, c, ?m)" and c: "unat c div 2 = (unat ?len + 1) div 2"
    using udp_padded_length [OF len] by blast
  have bound: "unat (udp_data_sum ?m p c) \<le> 2147450880"
    using payload_sum_le [of ?m p "unat c div 2"] c len by (simp add: unat_udp_data_sum)
  show ?thesis
    by (simp add: udp_verify_checksum_def pad Let_def checksum_finish_zero
        unat_udp_pseudo_sum [OF bound] unat_udp_data_sum c)
qed

section \<open>The frame that is built\<close>

text \<open>The buffer after the headers and the data, before the checksums.\<close>

definition udp_write_data :: "u32 \<Rightarrow> u8 list \<Rightarrow> u16 \<Rightarrow> buffer \<Rightarrow> buffer" where
  "udp_write_data tx data len m =
     for_loop 0 (unat len) (\<lambda>i. mem_iowr_byte (tx + 42 + of_nat i) (ucast (data ! i))) m"

lemma udp_write_data_byte:
  assumes "j < 2 ^ 32"
  shows "frame_byte (udp_write_data tx data len m) tx j =
    (if 42 \<le> j \<and> j < 42 + unat len then ucast (data ! (j - 42)) else frame_byte m tx j)"
  using frame_byte_fill [of 42 "unat len" j tx "\<lambda>i. ucast (data ! i)" m] assms u16_less [of len]
  by (simp add: udp_write_data_def)

lemma store_ip_checksum_byte:
  "j < 2 ^ 32 \<Longrightarrow> j \<noteq> 24 \<Longrightarrow> j \<noteq> 25 \<Longrightarrow> frame_byte (store_ip_checksum tx m) tx j = frame_byte m tx j"
  by (simp add: store_ip_checksum_def Let_def mem_simps)

lemma store_udp_checksum_byte:
  assumes "snd (udp_compute_checksum m tx) = udp_pad m tx" and "j < 2 ^ 32" and "j \<noteq> 40" and "j \<noteq> 41"
  shows "frame_byte (store_udp_checksum tx m) tx j = frame_byte (udp_pad m tx) tx j"
  using assms by (simp add: store_udp_checksum_def Let_def split_beta mem_simps)

lemma udp_header_words:
  assumes "aligned tx"
  shows "mem_iord (udp_write_headers tx dm sm si di ident sp dp ul m) (tx + 32) =
      push_bit 24 (ucast (di ! 2)) OR push_bit 16 (ucast (di ! 3)) OR ucast sp"
    and "mem_iord (udp_write_headers tx dm sm si di ident sp dp ul m) (tx + 36) =
      push_bit 16 (ucast dp) OR ucast ul"
  by (simp_all add: udp_write_headers_def Let_def mem_simps assms)

lemma udp_header_bytes:
  assumes "aligned tx"
  shows "map (frame_byte (udp_write_headers tx dm sm si di ident sp dp ul m) tx)
      [12, 13, 22, 23, 24, 25, 26, 27, 28, 29, 30, 31, 32, 33, 40, 41] =
    [0x08, 0x00, 0x40, 0x11, 0, 0, ucast (si ! 0), ucast (si ! 1), ucast (si ! 2), ucast (si ! 3),
     ucast (di ! 0), ucast (di ! 1), ucast (di ! 2), ucast (di ! 3), 0, 0]"
  by (simp add: udp_write_headers_def Let_def mem_simps assms bytes_of_word del: drop_bit_or)

text \<open>The stages of the frame: headers, data, IP checksum, padding byte, UDP checksum.\<close>

lemma udp_frame_stages:
  fixes tx dm sm si di ident sp dp data len m
  defines "mh \<equiv> udp_write_headers tx dm sm si di ident sp dp (len + 8) m"
  defines "mi \<equiv> store_ip_checksum tx (udp_write_data tx data len mh)"
  assumes al: "aligned tx" and len: "unat len < 65494"
  shows "udp_write_frame tx dm sm si di ident sp dp data len m = store_udp_checksum tx mi"
    and "unat (udp_length_field mi tx) = unat len + 8"
    and "snd (udp_compute_checksum mi tx) = udp_pad mi tx"
    and "unat (fst (udp_compute_checksum mi tx)) = 65535 - ones_sum
      (payload_sum (udp_pad mi tx) tx ((9 + unat len) div 2) + pseudo_sum (udp_pad mi tx) tx 17 (unat len + 8))"
    and "frame_byte (udp_pad mi tx) tx 40 = 0" "frame_byte (udp_pad mi tx) tx 41 = 0"
    and "\<And>j. j < 2 ^ 32 \<Longrightarrow> j \<notin> {24, 25, 40, 41} \<Longrightarrow>
      frame_byte (store_udp_checksum tx mi) tx j =
        (if 42 \<le> j \<and> j < 42 + unat len then ucast (data ! (j - 42))
         else if odd (unat len) \<and> j = unat len + 42 then 0 else frame_byte mh tx j)"
proof -
  show "udp_write_frame tx dm sm si di ident sp dp data len m = store_udp_checksum tx mi"
    by (simp add: udp_write_frame_def Let_def mi_def mh_def udp_write_data_def)
  have mi: "frame_byte mi tx j = frame_byte mh tx j" if "j < 42" "j \<noteq> 24" "j \<noteq> 25" for j
    using that by (simp add: mi_def store_ip_checksum_byte udp_write_data_byte)
  have "mem_iord mi (tx + of_nat 36) = mem_iord mh (tx + of_nat 36)"
    by (rule mem_iord_cong [OF al]) (simp_all add: mi)
  then have "udp_length_field mi tx = len + 8"
    using udp_header_words(2) [OF al] by (simp add: udp_length_field_def mh_def halves_of_word)
  then show length: "unat (udp_length_field mi tx) = unat len + 8"
    using len by (simp add: unat_word_ariths)
  have "map (frame_byte mh tx) [12, 13, 22, 23, 24, 25, 26, 27, 28, 29, 30, 31, 32, 33, 40, 41] =
    [0x08, 0x00, 0x40, 0x11, 0, 0, ucast (si ! 0), ucast (si ! 1), ucast (si ! 2), ucast (si ! 3),
     ucast (di ! 0), ucast (di ! 1), ucast (di ! 2), ucast (di ! 3), 0, 0]"
    unfolding mh_def by (rule udp_header_bytes [OF al])
  then show zero: "frame_byte (udp_pad mi tx) tx 40 = 0" "frame_byte (udp_pad mi tx) tx 41 = 0"
    by (simp_all add: udp_pad_byte length mi)
  from udp_checksum_value [OF _ this] length len
  show computed: "snd (udp_compute_checksum mi tx) = udp_pad mi tx"
    "unat (fst (udp_compute_checksum mi tx)) = 65535 - ones_sum
      (payload_sum (udp_pad mi tx) tx ((9 + unat len) div 2) + pseudo_sum (udp_pad mi tx) tx 17 (unat len + 8))"
    by simp_all
  show "frame_byte (store_udp_checksum tx mi) tx j =
        (if 42 \<le> j \<and> j < 42 + unat len then ucast (data ! (j - 42))
         else if odd (unat len) \<and> j = unat len + 42 then 0 else frame_byte mh tx j)"
    if "j < 2 ^ 32" "j \<notin> {24, 25, 40, 41}" for j
    using that by (simp add: store_udp_checksum_byte [OF computed(1)] udp_pad_byte length)
      (auto simp: mi_def store_ip_checksum_byte udp_write_data_byte)
qed

section \<open>Both checksums verify\<close>

lemma udp_frame_verifies:
  assumes al: "aligned tx" and len: "unat len < 65494"
  shows "fst (udp_verify_checksum (udp_write_frame tx dm sm si di ident sp dp data len m) tx) = 1"
proof -
  define mi where "mi = store_ip_checksum tx (udp_write_data tx data len
      (udp_write_headers tx dm sm si di ident sp dp (len + 8) m))"
  note st = udp_frame_stages [OF al len, where dm = dm and sm = sm and si = si and di = di and ident = ident
      and sp = sp and dp = dp and m = m and data = data, folded mi_def]
  let ?mp = "udp_pad mi tx" and ?mf = "store_udp_checksum tx mi" and ?n = "(9 + unat len) div 2"
  let ?S = "payload_sum ?mp tx ?n + pseudo_sum ?mp tx 17 (unat len + 8)"
  have other: "frame_byte ?mf tx j = frame_byte ?mp tx j" if "j < 2 ^ 32" "j \<noteq> 40" "j \<noteq> 41" for j
    by (rule store_udp_checksum_byte [OF st(3) that])
  have field: "256 * unat (frame_byte ?mf tx 40) + unat (frame_byte ?mf tx 41) = 65535 - ones_sum ?S"
    by (simp add: store_udp_checksum_def Let_def split_beta mem_simps two_bytes st(4))
  have "mem_iord ?mf (tx + of_nat 36) = mem_iord mi (tx + of_nat 36)"
    by (rule mem_iord_cong [OF al]) (simp_all add: other udp_pad_byte st(2))
  then have lf: "unat (udp_length_field ?mf tx) = unat len + 8"
    using st(2) by (simp add: udp_length_field_def)
  have pad: "frame_byte (udp_pad ?mf tx) tx j = frame_byte ?mf tx j" if "j < 2 ^ 32" for j
    using that other [of j] by (auto simp: udp_pad_byte lf st(2))
  have n: "3 < ?n" "34 + 2 * ?n < 2 ^ 32" using len by simp_all
  have "payload_sum (udp_pad ?mf tx) tx ?n = payload_sum ?mp tx ?n + (65535 - ones_sum ?S)"
    "pseudo_sum (udp_pad ?mf tx) tx 17 (unat len + 8) = pseudo_sum ?mp tx 17 (unat len + 8)"
    by (rule stored_sum [where q = 3 and n = ?n, OF n(1)]; use n(2) in \<open>simp add: pad other field st(5,6)\<close>)+
  then have total: "payload_sum (udp_pad ?mf tx) tx ?n + pseudo_sum (udp_pad ?mf tx) tx 17 (unat len + 8)
      = ?S + (65535 - ones_sum ?S)" by simp
  have "0 < ?S" by (simp add: pseudo_sum_def)
  then have "ones_sum (payload_sum (udp_pad ?mf tx) tx ?n + pseudo_sum (udp_pad ?mf tx) tx 17 (unat len + 8)) = 65535"
    unfolding total by (rule checksum_completes)
  moreover have "(unat (udp_length_field ?mf tx) + 1) div 2 = ?n" by (simp add: lf)
  moreover have "unat (udp_length_field ?mf tx) < 65535" using len lf by simp
  ultimately have "fst (udp_verify_checksum ?mf tx) = 1" by (simp add: udp_verify_iff lf)
  then show ?thesis by (simp add: st(1))
qed

lemma udp_frame_header:
  fixes tx dm sm si di ident sp dp data len m
  assumes al: "aligned tx" and len: "unat len < 65494"
  defines "mf \<equiv> udp_write_frame tx dm sm si di ident sp dp data len m"
  shows "map (frame_byte mf tx) [12, 13, 23, 26, 27, 28, 29, 30, 31, 32, 33] =
    [0x08, 0x00, 0x11, ucast (si ! 0), ucast (si ! 1), ucast (si ! 2), ucast (si ! 3),
     ucast (di ! 0), ucast (di ! 1), ucast (di ! 2), ucast (di ! 3)]"
    and "mem_iord mf (tx + 32) = push_bit 24 (ucast (di ! 2)) OR push_bit 16 (ucast (di ! 3)) OR ucast sp"
    and "mem_iord mf (tx + 36) = push_bit 16 (ucast dp) OR ucast (len + 8)"
    and "\<And>j. j < unat len \<Longrightarrow> frame_byte mf tx (42 + j) = ucast (data ! j)"
    and "ipv4_verify_checksum mf tx = 1"
proof -
  define mh where "mh = udp_write_headers tx dm sm si di ident sp dp (len + 8) m"
  define mi where "mi = store_ip_checksum tx (udp_write_data tx data len mh)"
  note st = udp_frame_stages [OF al len, where dm = dm and sm = sm and si = si and di = di and ident = ident
      and sp = sp and dp = dp and m = m and data = data, folded mh_def, folded mi_def]
  have mf: "mf = store_udp_checksum tx mi" by (simp add: mf_def st(1))
  note head = udp_header_bytes [OF al, of dm sm si di ident sp dp "len + 8" m, folded mh_def]
  have same: "frame_byte mf tx j = frame_byte mh tx j" if "j < 42" "j \<notin> {24, 25, 40, 41}" for j
    using that by (simp add: mf st(7))
  show "map (frame_byte mf tx) [12, 13, 23, 26, 27, 28, 29, 30, 31, 32, 33] =
    [0x08, 0x00, 0x11, ucast (si ! 0), ucast (si ! 1), ucast (si ! 2), ucast (si ! 3),
     ucast (di ! 0), ucast (di ! 1), ucast (di ! 2), ucast (di ! 3)]"
    using head by (simp add: same)
  have "mem_iord mf (tx + of_nat 32) = mem_iord mh (tx + of_nat 32)"
    "mem_iord mf (tx + of_nat 36) = mem_iord mh (tx + of_nat 36)"
    by (rule mem_iord_cong [OF al]; simp add: same)+
  then show "mem_iord mf (tx + 32) = push_bit 24 (ucast (di ! 2)) OR push_bit 16 (ucast (di ! 3)) OR ucast sp"
    "mem_iord mf (tx + 36) = push_bit 16 (ucast dp) OR ucast (len + 8)"
    by (simp_all add: mh_def udp_header_words [OF al])
  show "frame_byte mf tx (42 + j) = ucast (data ! j)" if "j < unat len" for j
    using that len by (simp add: mf st(7))
  have data: "frame_byte (udp_write_data tx data len mh) tx j = frame_byte mh tx j" if "j < 42" for j
    using that by (simp add: udp_write_data_byte)
  have low: "mem_iord_byte (udp_write_data tx data len mh) (tx + 25) = 0"
    using head data [of 25] by (simp add: frame_byte_numeral(1))
  have "header_word (udp_write_data tx data len mh) tx 4 > 0"
    using head data [of 22] packet_word_frame [of "udp_write_data tx data len mh" tx 22]
    by (simp add: header_word_def add.assoc)
  then have "0 < header_sum_rest (udp_write_data tx data len mh) tx"
    unfolding header_sum_rest_def by (intro sum_pos2 [where i = 4]) auto
  from store_then_verify [OF low this] have "ipv4_verify_checksum mi tx = 1" by (simp add: mi_def)
  moreover have "header_sum mf tx = header_sum mi tx"
  proof -
    have "frame_byte mf tx j = frame_byte mi tx j" if "j < 34" for j
      using that by (simp add: mf store_udp_checksum_byte [OF st(3)] udp_pad_byte st(2))
    then show ?thesis unfolding header_sum_frame by (intro sum.cong) simp_all
  qed
  ultimately show "ipv4_verify_checksum mf tx = 1" by (simp add: verify_checksum_iff)
qed

section \<open>Properties\<close>

text \<open>
  C15: a UDP frame is read back as it was built. The frame the senders write for any data of
  less than 65494 bytes is classified as UDP; the accessors return the addresses, ports, length
  and data it was built from; and both the IP header checksum and the UDP checksum verify.
\<close>

theorem udp_frame_roundtrip:
  assumes "aligned tx" and "unat len < 65494"
    and "length si = 4" and "length di = 4" and "length data = unat len" and "length buf = unat len"
    and "mf = udp_write_frame tx dm sm si di ident sp dp data len m"
  shows "mac_packet_type mf tx = UDP \<and>
    ipv4_get_source_ip mf tx = si \<and> ipv4_get_destination_ip mf tx = di \<and>
    udp_get_source_port mf tx = sp \<and> udp_get_destination_port mf tx = dp \<and>
    udp_get_data_length mf tx = len \<and> udp_get_data mf tx buf (ucast len) = Some (1, data) \<and>
    ipv4_verify_checksum mf tx = 1 \<and> fst (udp_verify_checksum mf tx) = 1"
proof -
  note facts = udp_frame_header [OF assms(1,2), where dm = dm and sm = sm and si = si and di = di and
      ident = ident and sp = sp and dp = dp and m = m and data = data, folded assms(7)]
  have bytes: "map (mem_iord_byte mf) [tx + 12, tx + 13, tx + 23, tx + 26, tx + 27, tx + 28, tx + 29, tx + 30,
      tx + 31, tx + 32, tx + 33] = [0x08, 0x00, 0x11, ucast (si ! 0), ucast (si ! 1), ucast (si ! 2), ucast (si ! 3),
     ucast (di ! 0), ucast (di ! 1), ucast (di ! 2), ucast (di ! 3)]"
    using facts(1) by (simp add: frame_byte_numeral(1))
  have four: "xs = [xs ! 0, xs ! 1, xs ! 2, xs ! 3]" if "length xs = 4" for xs :: "u8 list"
    using that by (auto simp: numeral_eq_Suc length_Suc_conv)
  have "mac_packet_type mf tx = UDP" using bytes by (simp add: mac_packet_type_def)
  moreover have "ipv4_get_source_ip mf tx = si" "ipv4_get_destination_ip mf tx = di"
    using bytes four [OF assms(3)] four [OF assms(4)]
    by (simp_all add: ipv4_get_source_ip_def ipv4_get_destination_ip_def packet_bytes_4 add.assoc)
  moreover have "udp_get_source_port mf tx = sp" "udp_get_destination_port mf tx = dp"
    "udp_get_data_length mf tx = len"
    using facts(2,3)
    by (simp_all add: udp_get_source_port_def udp_get_destination_port_def udp_get_data_length_def
        udp_get_packet_length_def halves_of_word del: drop_bit_or)
  moreover have "udp_get_data mf tx buf (ucast len) = Some (1, data)"
  proof -
    have "map (\<lambda>i. ucast (mem_iord_byte mf (tx + 42 + of_nat i))) [0..<unat len] = data"
      by (rule nth_equalityI) (use facts(4) assms(5) in \<open>simp_all add: frame_byte_def add.assoc\<close>)
    then show ?thesis
      using assms(6) by (simp add: udp_get_data_def store_loop_take)
  qed
  moreover have "fst (udp_verify_checksum mf tx) = 1"
    unfolding assms(7) by (rule udp_frame_verifies [OF assms(1,2)])
  ultimately show ?thesis using facts(5) by blast
qed

lemma udp_frame_roundtrip_witness:
  "udp_get_data (udp_write_frame 0 [1, 2, 3, 4, 5, 6] [7, 8, 9, 10, 11, 12] [10, 0, 0, 1] [10, 0, 0, 2]
     0x1111 4000 5000 [104, 105, 33] 3 (\<lambda>_. 0)) 0 [0, 0, 0] 3 = Some (1, [104, 105, 33])"
proof -
  have "(ucast (3 :: u16) :: u32) = 3" by simp
  then show ?thesis
    using udp_frame_roundtrip [where tx = 0 and len = 3 and si = "[10, 0, 0, 1]" and di = "[10, 0, 0, 2]"
        and data = "[104, 105, 33]" and buf = "[0, 0, 0]" and dm = "[1, 2, 3, 4, 5, 6]"
        and sm = "[7, 8, 9, 10, 11, 12]" and ident = "0x1111" and sp = 4000 and dp = 5000 and m = "\<lambda>_. 0",
        OF _ _ _ _ _ _ refl]
    by (simp add: aligned_def)
qed

text \<open>
  The two copies of user data. Reading the data of a packet succeeds exactly when the caller's array is
  at least as long as the length asked for; building a packet exactly when the caller's array has that
  many bytes and the packet's data buffer room for them. The C code checks neither.
\<close>

lemma checked_copy_loop:
  "for_loop 0 n (\<lambda>i r. do { d \<leftarrow> r; if i < length xs then array_store d i (xs ! i) else None }) (Some d) =
     (if n \<le> length xs \<and> n \<le> length d then Some (take n xs @ drop n d) else None)"
proof (induction n)
  case 0
  then show ?case by (simp add: for_loop_def)
next
  case (Suc n)
  then show ?case
    by (auto simp: for_loop_Suc array_store_def list_update_append take_Suc_conv_app_nth Cons_nth_drop_Suc [symmetric])
qed

lemma udp_get_data_bounds: "udp_get_data m p buf len \<noteq> None \<longleftrightarrow> unat len \<le> length buf"
  by (cases "unat len \<le> length buf")
    (simp_all add: udp_get_data_def store_loop_take store_loop_overflow)

lemma udp_build_packet_data:
  "map_option udp_data (udp_build_packet packet si di sp dp data n ident) =
     (if unat n \<le> length data \<and> unat n \<le> length (udp_data packet)
      then Some (take (unat n) data @ drop (unat n) (udp_data packet)) else None)"
  by (simp add: udp_build_packet_def Let_def checked_copy_loop)

lemma next_ipv4_id_same [simp]: "next_ipv4_id ident = ident"
proof -
  have "unat (ucast ident + 0x10000 :: u32) = unat ident + 65536"
    using u16_less [of ident] by (simp add: unat_word_ariths)
  then show ?thesis
    using u16_less [of ident] by (simp add: next_ipv4_id_def word_unat_eq_iff unsigned_ucast_eq take_bit_eq_mod)
qed

lemma ipv4_id_update_same [simp]: "s\<lparr>ipv4_id := ipv4_id s\<rparr> = s" for s :: "'a udp_state_scheme"
  by (cases s) simp

text \<open>
  sending to an address that is in the ARP table starts no resolution: the frame carries the
  hardware address from the table, is handed to the controller with its length (42 bytes of
  headers and the data), and the send reports 1. The identification of the next packet is the
  same again: adding 0x10000 to a 16-bit counter does nothing.
\<close>

theorem udp_send_resolved:
  fixes s :: "'a udp_state_scheme"
  assumes "arp_inv (arp_table s)" and "length dst_ip = 4" and "arp_lookup (arp_table s) dst_ip = Some mac"
  shows "udp_send tx rx dst_ip sp dp data len timeout s = map_option (Pair 1)
      (eth_mac_send tx (ucast (len + 42)) (s\<lparr>buff := udp_write_frame tx mac (my_mac s) (my_ip s) dst_ip
         (ipv4_id s) sp dp data len (buff s)\<rparr>))"
proof -
  have "arp_table_search (arp_table s) dst_ip [0xFF, 0xFF, 0xFF, 0xFF, 0xFF, 0xFF] = (1, mac)"
    using assms by (simp add: arp_search_inv)
  then have "udp_resolve tx rx dst_ip timeout s = Some (mac, s)"
    by (simp add: udp_resolve_def)
  moreover have "udp_frame_length len = len + 42"
    by (simp add: udp_frame_length_def Let_def)
  ultimately show ?thesis
    by (simp add: udp_send_def Let_def map_option_case split: bind_split option.split)
qed

text \<open>A node that knows 10.0.0.2, with a controller that is always done.\<close>

definition udp_node :: udp_state where
  "udp_node = \<lparr>buff = \<lambda>_. 0, buff1 = \<lambda>_. 0, dev = ready_env 0, my_mac = [7, 8, 9, 10, 11, 12],
     my_ip = [10, 0, 0, 1], arp_table = arp_table_new_entry arp_blank [10, 0, 0, 2] [1, 2, 3, 4, 5, 6],
     ipv4_id = ipv4_id_init\<rparr>"

lemma udp_send_resolved_witness:
  "udp_send 0 64 [10, 0, 0, 2] 4000 5000 [104, 105, 33] 3 1000 udp_node = map_option (Pair 1)
     (eth_mac_send 0 45 (udp_node\<lparr>buff := udp_write_frame 0 [1, 2, 3, 4, 5, 6] [7, 8, 9, 10, 11, 12] [10, 0, 0, 1]
        [10, 0, 0, 2] 0x1111 4000 5000 [104, 105, 33] 3 (\<lambda>_. 0)\<rparr>))"
proof -
  have "arp_inv (arp_table udp_node)" "arp_lookup (arp_table udp_node) [10, 0, 0, 2] = Some [1, 2, 3, 4, 5, 6]"
    by (simp_all add: udp_node_def arp_new_entry_facts arp_blank_inv)
  from udp_send_resolved [OF this(1) _ this(2), of 0 64 4000 5000 "[104, 105, 33]" 3 1000] show ?thesis
    by (simp add: udp_node_def ipv4_id_init_def)
qed

end
