(* ===== verification/Tcp_Layer.thy ===== *)
theory Tcp_Layer
  imports Udp_Layer
begin

text \<open>
  The TCP layer (\<^verbatim>\<open>ethlib/tcp.c\<close>, \<^verbatim>\<open>ethlib/tcp.h\<close>): field accessors, the checksum, the segment
  that \<^verbatim>\<open>tcp_send\<close> builds, and the connection state machine. The lemmas show that a segment reads
  back with the fields of the connection, that its checksum is right, which transitions the
  handler makes, and that a three-way handshake establishes both ends.
\<close>

section \<open>Data\<close>

datatype tcpstate =
  CLOSED | LISTEN | SYN_SENT | SYN_RCVD | ESTABLISHED | FIN_WAIT_1 | FIN_WAIT_2 | TIME_WAIT
| CLOSE_WAIT | CLOSING | LAST_ACK

abbreviation (input) "FIN \<equiv> 0x1"
abbreviation (input) "SYN \<equiv> 0x2"
abbreviation (input) "RST \<equiv> 0x4"
abbreviation (input) "PSH \<equiv> 0x8"
abbreviation (input) "ACK \<equiv> 0x10"

record tcp_connection =
  eth_tx_addr :: u32
  eth_rx_addr :: u32
  dstMAC :: "u8 list"
  srcMAC :: "u8 list"
  srcIP :: "u8 list"
  dstIP :: "u8 list"
  srcport :: u16
  dstport :: u16
  seqNum :: u32
  ackNum :: u32
  status :: tcpstate
  ipv4_id :: u16
  send_buffer :: "u8 list"
  send_buffer_size :: u16
  recv_buffer :: "u8 list"
  recv_buffer_size :: u16

section \<open>Packet fields\<close>

definition tcp_get_source_port :: "buffer \<Rightarrow> u32 \<Rightarrow> u16" where
  "tcp_get_source_port m pkt_addr =
     ucast (push_bit 8 (mem_iord_byte m (pkt_addr + 34)) + mem_iord_byte m (pkt_addr + 35))"

definition tcp_get_destination_port :: "buffer \<Rightarrow> u32 \<Rightarrow> u16" where
  "tcp_get_destination_port m pkt_addr =
     ucast (push_bit 8 (mem_iord_byte m (pkt_addr + 36)) + mem_iord_byte m (pkt_addr + 37))"

definition tcp_get_seqnum :: "buffer \<Rightarrow> u32 \<Rightarrow> u32" where
  "tcp_get_seqnum m pkt_addr =
     push_bit 24 (mem_iord_byte m (pkt_addr + 38)) + push_bit 16 (mem_iord_byte m (pkt_addr + 39))
     + push_bit 8 (mem_iord_byte m (pkt_addr + 40)) + mem_iord_byte m (pkt_addr + 41)"

definition tcp_get_acknum :: "buffer \<Rightarrow> u32 \<Rightarrow> u32" where
  "tcp_get_acknum m pkt_addr =
     push_bit 24 (mem_iord_byte m (pkt_addr + 42)) + push_bit 16 (mem_iord_byte m (pkt_addr + 43))
     + push_bit 8 (mem_iord_byte m (pkt_addr + 44)) + mem_iord_byte m (pkt_addr + 45)"

definition tcp_get_header_length :: "buffer \<Rightarrow> u32 \<Rightarrow> u8" where
  "tcp_get_header_length m pkt_addr = ucast (drop_bit 2 (mem_iord_byte m (pkt_addr + 46)))"

definition tcp_get_flags :: "buffer \<Rightarrow> u32 \<Rightarrow> u8" where
  "tcp_get_flags m pkt_addr = ucast (mem_iord_byte m (pkt_addr + 47) AND 0xFF)"

definition tcp_get_checksum :: "buffer \<Rightarrow> u32 \<Rightarrow> u16" where
  "tcp_get_checksum m pkt_addr = ucast (drop_bit 16 (mem_iord m (pkt_addr + 50)))"

definition tcp_get_data_length :: "buffer \<Rightarrow> u32 \<Rightarrow> u16" where
  "tcp_get_data_length m pkt_addr =
     ipv4_get_length m pkt_addr - 20 - ucast (tcp_get_header_length m pkt_addr)"

text \<open>
  The copy is bounded by the packet's own length field; the length the caller passes is unused.
  \<^const>\<open>None\<close> when the caller's array is shorter.
\<close>

definition tcp_get_data :: "buffer \<Rightarrow> u32 \<Rightarrow> u8 list \<Rightarrow> u32 \<Rightarrow> (u32 \<times> u8 list) option" where
  "tcp_get_data m pkt_addr data len = do {
     data \<leftarrow> for_loop 0 (unat (tcp_get_data_length m pkt_addr)) (\<lambda>i r. do {
               data \<leftarrow> r;
               array_store data i
                 (ucast (mem_iord_byte m (pkt_addr + 34 + ucast (tcp_get_header_length m pkt_addr) + of_nat i)))
             }) (Some data);
     Some (ucast (tcp_get_data_length m pkt_addr), data)
   }"

section \<open>Checksum and sending\<close>

text \<open>Index \<open>i\<close> of the C loops runs over 0, 2, \<open>\<dots>\<close>; \<^verbatim>\<open>hex\<close> is a 16-bit variable.\<close>

definition tcp_compute_checksum :: "buffer \<Rightarrow> u32 \<Rightarrow> u16 \<Rightarrow> u16 \<Rightarrow> u16 \<times> buffer" where
  "tcp_compute_checksum m pkt_addr tcp_length len =
     (let (corrected_length, m) =
            (if tcp_length AND 0x1 = 0 then (tcp_length, m)
             else (tcp_length + 1, mem_iowr_byte (pkt_addr + 34 + ucast tcp_length) 0x00 m));
          checksum = for_loop 0 2 (\<lambda>k checksum.
            let hex = (ucast (push_bit 8 (mem_iord_byte m (pkt_addr + 26 + of_nat (2 * k)))
                        + mem_iord_byte m (pkt_addr + 26 + of_nat (2 * k) + 1)) :: u16)
            in checksum + ucast hex) 0;
          checksum = for_loop 0 2 (\<lambda>k checksum.
            let hex = (ucast (push_bit 8 (mem_iord_byte m (pkt_addr + 30 + of_nat (2 * k)))
                        + mem_iord_byte m (pkt_addr + 30 + of_nat (2 * k) + 1)) :: u16)
            in checksum + ucast hex) checksum;
          checksum = checksum + 0x0006;
          checksum = checksum + ucast tcp_length;
          checksum = for_loop 0 (unat corrected_length div 2) (\<lambda>k checksum.
            checksum + (push_bit 8 (mem_iord_byte m (pkt_addr + 34 + of_nat (2 * k)))
              + mem_iord_byte m (pkt_addr + 34 + of_nat (2 * k) + 1))) checksum
      in (ucast (checksum_finish checksum), m))"

definition tcp_verify_checksum :: "buffer \<Rightarrow> u32 \<Rightarrow> u32" where
  "tcp_verify_checksum m pkt_addr = 1"

text \<open>The header words of a segment, up to the urgent pointer.\<close>

definition tcp_write_headers :: "tcp_connection \<Rightarrow> u16 \<Rightarrow> u16 \<Rightarrow> u16 \<Rightarrow> buffer \<Rightarrow> buffer" where
  "tcp_write_headers conn flags tcp_length len m =
     (let ip_length = tcp_length + 20;
          tx = eth_tx_addr conn;
          m = mem_iowr tx (word_of_bytes (dstMAC conn ! 0) (dstMAC conn ! 1) (dstMAC conn ! 2) (dstMAC conn ! 3)) m;
          m = mem_iowr (tx + 4)
                (word_of_bytes (dstMAC conn ! 4) (dstMAC conn ! 5) (srcMAC conn ! 0) (srcMAC conn ! 1)) m;
          m = mem_iowr (tx + 8)
                (word_of_bytes (srcMAC conn ! 2) (srcMAC conn ! 3) (srcMAC conn ! 4) (srcMAC conn ! 5)) m;
          m = mem_iowr (tx + 12) 0x08004500 m;
          m = mem_iowr (tx + 16) (push_bit 16 (ucast ip_length) OR ucast (ipv4_id conn)) m;
          m = mem_iowr (tx + 20) 0x40004006 m;
          m = mem_iowr (tx + 24) (push_bit 8 (ucast (srcIP conn ! 0)) OR ucast (srcIP conn ! 1)) m;
          m = mem_iowr (tx + 28)
                (word_of_bytes (srcIP conn ! 2) (srcIP conn ! 3) (dstIP conn ! 0) (dstIP conn ! 1)) m;
          m = mem_iowr (tx + 32) (push_bit 24 (ucast (dstIP conn ! 2)) OR push_bit 16 (ucast (dstIP conn ! 3))
                OR ucast (srcport conn)) m;
          m = mem_iowr (tx + 36) (push_bit 16 (ucast (dstport conn)) OR push_bit 8 (drop_bit 24 (seqNum conn))
                OR (drop_bit 16 (seqNum conn) AND 0xFF)) m;
          m = mem_iowr (tx + 40) (push_bit 24 (drop_bit 8 (seqNum conn) AND 0xFF)
                OR push_bit 16 (seqNum conn AND 0xFF) OR push_bit 8 (drop_bit 24 (ackNum conn))
                OR (drop_bit 16 (ackNum conn) AND 0xFF)) m;
          m = mem_iowr (tx + 44) (push_bit 24 (drop_bit 8 (ackNum conn) AND 0xFF)
                OR push_bit 16 (ackNum conn AND 0xFF)
                OR push_bit 8 (push_bit 2 (ucast tcp_length - ucast len))
                OR (ucast (ucast flags :: u8) AND 0xFF)) m;
          m = mem_iowr (tx + 48) (push_bit 24 0x72 OR push_bit 16 0x10 OR 0x0000) m
      in mem_iowr (tx + 52) 0x0000 m)"

definition tcp_build :: "tcp_connection \<Rightarrow> u16 \<Rightarrow> u8 list \<Rightarrow> u16 \<Rightarrow> buffer \<Rightarrow> buffer" where
  "tcp_build conn flags data len m =
     (let tcp_length = len + 20;
          tx = eth_tx_addr conn;
          m = tcp_write_headers conn flags tcp_length len m;
          m = for_loop 0 (unat len) (\<lambda>i. mem_iowr_byte (tx + 54 + of_nat i) (ucast (data ! i))) m;
          m = store_ip_checksum tx m;
          (checksum, m) = tcp_compute_checksum m tx tcp_length len;
          m = mem_iowr_byte (tx + 50) (ucast (drop_bit 8 checksum)) m
      in mem_iowr_byte (tx + 51) (ucast (checksum AND 0xFF)) m)"

definition tcp_send ::
  "tcp_connection \<Rightarrow> u16 \<Rightarrow> u8 list \<Rightarrow> u16 \<Rightarrow> 'a eth_state_scheme \<Rightarrow> u32 \<times> 'a eth_state_scheme" where
  "tcp_send conn flags data len s =
     (let tcp_length = len + 20; ip_length = tcp_length + 20; frame_length = ip_length + 14
      in eth_mac_send_nb (eth_tx_addr conn) (ucast frame_length)
           (s\<lparr>buff := tcp_build conn flags data len (buff s)\<rparr>))"

section \<open>Connections\<close>

text \<open>\<^verbatim>\<open>memset\<close> on a buffer: defined when the buffer is long enough.\<close>

definition memset :: "u8 list \<Rightarrow> u8 \<Rightarrow> nat \<Rightarrow> u8 list option" where
  "memset xs c n = (if n \<le> length xs then Some (replicate n c @ drop n xs) else None)"

definition tcp_init_connection ::
  "tcp_connection \<Rightarrow> u32 \<Rightarrow> u32 \<Rightarrow> u8 list \<Rightarrow> u8 list \<Rightarrow> u8 list \<Rightarrow> u8 list \<Rightarrow> u16 \<Rightarrow> u16 \<Rightarrow> u16 \<Rightarrow> u16
     \<Rightarrow> tcp_connection option" where
  "tcp_init_connection conn tx rx src_mac dst_mac src_ip dst_ip src_port dst_port send_size recv_size =
     (let conn = conn\<lparr>eth_tx_addr := tx, eth_rx_addr := rx\<rparr>;
          conn = for_loop 0 6 (\<lambda>i conn. conn\<lparr>srcMAC := (srcMAC conn)[i := src_mac ! i],
                                             dstMAC := (dstMAC conn)[i := dst_mac ! i]\<rparr>) conn;
          conn = for_loop 0 4 (\<lambda>i conn. conn\<lparr>srcIP := (srcIP conn)[i := src_ip ! i],
                                             dstIP := (dstIP conn)[i := dst_ip ! i]\<rparr>) conn;
          conn = conn\<lparr>srcport := src_port, dstport := dst_port, status := CLOSED, ipv4_id := 0x1111,
                      seqNum := 0x12345678, ackNum := 0x0\<rparr>
      in do {
        sb \<leftarrow> memset (send_buffer conn) 48 (unat send_size);
        let conn = conn\<lparr>send_buffer := sb, send_buffer_size := send_size\<rparr>;
        rb \<leftarrow> memset (recv_buffer conn) 48 (unat recv_size);
        Some (conn\<lparr>recv_buffer := rb, recv_buffer_size := recv_size\<rparr>)
      })"

text \<open>The data argument of the control segments.\<close>

abbreviation (input) "zero_char \<equiv> [48 :: u8]"

definition tcp_handle ::
  "tcp_connection \<Rightarrow> 'a eth_state_scheme \<Rightarrow> u32 \<times> tcp_connection \<times> 'a eth_state_scheme" where
  "tcp_handle conn s =
     (let flags = tcp_get_flags (buff s) (eth_rx_addr conn);
          rx_dst_port = tcp_get_destination_port (buff s) (eth_rx_addr conn)
      in if rx_dst_port = srcport conn
         then (case status conn of
             CLOSED \<Rightarrow>
               (let (_, s) = tcp_send conn (RST OR ACK) zero_char 0 s in (1, conn, s))
           | LISTEN \<Rightarrow>
               (if flags AND SYN = SYN
                then let (_, s) = tcp_send conn (SYN OR ACK) zero_char 0 s
                     in (0, conn\<lparr>status := SYN_RCVD\<rparr>, s)
                else (0, conn, s))
           | SYN_SENT \<Rightarrow>
               (if flags = SYN OR ACK
                then let conn = conn\<lparr>seqNum := tcp_get_acknum (buff s) (eth_rx_addr conn)\<rparr>;
                         conn = conn\<lparr>ackNum := tcp_get_seqnum (buff s) (eth_rx_addr conn) + 1\<rparr>;
                         (_, s) = tcp_send conn ACK zero_char 0 s
                     in (1, conn\<lparr>status := ESTABLISHED\<rparr>, s)
                else if flags = SYN
                then let (_, s) = tcp_send conn (SYN OR ACK) zero_char 0 s
                     in (0, conn\<lparr>status := SYN_RCVD\<rparr>, s)
                else if flags = RST OR ACK
                then (0, conn\<lparr>status := CLOSED\<rparr>, s)
                else let (_, s) = tcp_send conn RST zero_char 0 s
                     in (0, conn\<lparr>status := CLOSED\<rparr>, s))
           | SYN_RCVD \<Rightarrow>
               (if flags AND ACK = ACK then (1, conn\<lparr>status := ESTABLISHED\<rparr>, s) else (0, conn, s))
           | ESTABLISHED \<Rightarrow>
               (let (resolved, conn) =
                      (if flags = FIN then (0, conn\<lparr>status := CLOSE_WAIT\<rparr>) else (1, conn));
                    (_, s) = tcp_send conn ACK zero_char 0 s
                in (resolved, conn, s))
           | FIN_WAIT_1 \<Rightarrow>
               (if flags = FIN OR ACK
                then let (_, s) = tcp_send conn ACK zero_char 0 s in (0, conn\<lparr>status := TIME_WAIT\<rparr>, s)
                else if flags = FIN
                then let (_, s) = tcp_send conn ACK zero_char 0 s in (0, conn\<lparr>status := CLOSING\<rparr>, s)
                else if flags = ACK
                then let (_, s) = tcp_send conn ACK zero_char 0 s in (0, conn\<lparr>status := FIN_WAIT_2\<rparr>, s)
                else (0, conn, s))
           | FIN_WAIT_2 \<Rightarrow>
               (if flags AND FIN = FIN
                then let (_, s) = tcp_send conn ACK zero_char 0 s in (0, conn\<lparr>status := CLOSING\<rparr>, s)
                else (0, conn, s))
           | CLOSE_WAIT \<Rightarrow> (0, conn\<lparr>status := LAST_ACK\<rparr>, s)
           | CLOSING \<Rightarrow> (0, if flags = ACK then conn\<lparr>status := TIME_WAIT\<rparr> else conn, s)
           | TIME_WAIT \<Rightarrow> (1, conn\<lparr>status := CLOSED\<rparr>, s)
           | LAST_ACK \<Rightarrow>
               (if flags = ACK then (1, conn\<lparr>status := CLOSED\<rparr>, s) else (0, conn, s)))
         else (1, conn, s))"

text \<open>The statements after the sends: wait for a frame and handle it when it is TCP.\<close>

definition tcp_receive_handle ::
  "tcp_connection \<Rightarrow> 'a eth_state_scheme \<Rightarrow> (u32 \<times> tcp_connection \<times> 'a eth_state_scheme) option" where
  "tcp_receive_handle conn s = do {
     (received, s) \<leftarrow> eth_mac_receive (eth_rx_addr conn) 1 s;
     Some (if received \<noteq> 0 \<and> mac_packet_type (buff s) (eth_rx_addr conn) = TCP
           then tcp_handle conn s else (0, conn, s))
   }"

definition tcp_connect ::
  "tcp_connection \<Rightarrow> 'a eth_state_scheme \<Rightarrow> (u32 \<times> tcp_connection \<times> 'a eth_state_scheme) option" where
  "tcp_connect conn s =
     (let (sent, s) = tcp_send conn SYN zero_char 1 s
      in if sent \<noteq> 0 then tcp_receive_handle (conn\<lparr>status := SYN_SENT\<rparr>) s else Some (0, conn, s))"

definition tcp_listen ::
  "tcp_connection \<Rightarrow> 'a eth_state_scheme \<Rightarrow> (u32 \<times> tcp_connection \<times> 'a eth_state_scheme) option" where
  "tcp_listen conn s =
     (let (sent, s) = tcp_send conn SYN zero_char 1 s
      in if sent \<noteq> 0 then tcp_receive_handle (conn\<lparr>status := LISTEN\<rparr>) s else Some (0, conn, s))"

definition tcp_close ::
  "tcp_connection \<Rightarrow> 'a eth_state_scheme \<Rightarrow> (u32 \<times> tcp_connection \<times> 'a eth_state_scheme) option" where
  "tcp_close conn s =
     (if status conn \<in> {SYN_RCVD, ESTABLISHED}
      then let (_, s) = tcp_send conn FIN zero_char 0 s in tcp_receive_handle (conn\<lparr>status := FIN_WAIT_1\<rparr>) s
      else if status conn = CLOSE_WAIT
      then let (_, s) = tcp_send conn FIN zero_char 0 s in tcp_receive_handle (conn\<lparr>status := LAST_ACK\<rparr>) s
      else if status conn \<in> {FIN_WAIT_1, FIN_WAIT_2, CLOSING, LAST_ACK}
      then tcp_receive_handle conn s
      else Some (1, conn\<lparr>status := CLOSED\<rparr>, s))"

definition tcp_push ::
  "tcp_connection \<Rightarrow> 'a eth_state_scheme \<Rightarrow> (u32 \<times> tcp_connection \<times> 'a eth_state_scheme) option" where
  "tcp_push conn s =
     (let (_, s) = tcp_send conn (PSH OR ACK) (send_buffer conn) (send_buffer_size conn) s
      in do {
        (received, s) \<leftarrow> eth_mac_receive (eth_rx_addr conn) 1 s;
        Some (if received \<noteq> 0 \<and> mac_packet_type (buff s) (eth_rx_addr conn) = TCP
              then if tcp_get_destination_port (buff s) (eth_rx_addr conn) = srcport conn \<and>
                      tcp_get_flags (buff s) (eth_rx_addr conn) AND ACK = ACK
                   then (1, conn, s)
                   else let (_, s) = tcp_send conn (PSH OR ACK) (send_buffer conn) (send_buffer_size conn) s
                        in (0, conn, s)
              else (0, conn, s))
      })"

definition tcp_recv ::
  "tcp_connection \<Rightarrow> 'a eth_state_scheme \<Rightarrow> (u32 \<times> tcp_connection \<times> 'a eth_state_scheme) option" where
  "tcp_recv conn s = do {
     (received, s) \<leftarrow> eth_mac_receive (eth_rx_addr conn) 1 s;
     if received \<noteq> 0 \<and> mac_packet_type (buff s) (eth_rx_addr conn) = TCP \<and>
        tcp_get_destination_port (buff s) (eth_rx_addr conn) = srcport conn \<and>
        tcp_get_flags (buff s) (eth_rx_addr conn) AND PSH = PSH
     then do {
       (n, data) \<leftarrow> tcp_get_data (buff s) (eth_rx_addr conn) (recv_buffer conn) (ucast (recv_buffer_size conn));
       let conn = conn\<lparr>recv_buffer := data, recv_buffer_size := ucast n\<rparr>;
       let (_, s) = tcp_send conn ACK zero_char 0 s;
       Some (1, conn, s)
     }
     else Some (0, conn, s)
   }"

section \<open>The checksum of a segment\<close>

definition tcp_pad :: "buffer \<Rightarrow> u32 \<Rightarrow> u16 \<Rightarrow> buffer" where
  "tcp_pad m p tlen = (if tlen AND 0x1 = 0 then m else mem_iowr_byte (p + 34 + ucast tlen) 0x00 m)"

lemma tcp_pad_byte:
  assumes "j < 2 ^ 32"
  shows "frame_byte (tcp_pad m p tlen) p j = (if odd (unat tlen) \<and> j = unat tlen + 34 then 0 else frame_byte m p j)"
proof -
  have "p + 34 + ucast tlen = p + of_nat (unat tlen + 34)" by (simp add: add.assoc)
  moreover have "unat tlen + 34 < 2 ^ 32" using u16_less [of tlen] by simp
  ultimately show ?thesis
    using frame_byte_write [of "unat tlen + 34" j p 0 m] assms
    by (auto simp: tcp_pad_def u16_odd add_ac)
qed

lemma u16_of_packet_word:
  "ucast (ucast (push_bit 8 (mem_iord_byte m a) + mem_iord_byte m (a + 1)) :: u16) = packet_word m a"
proof -
  have "unat (packet_word m a) < 65536" using unat_packet_word_le [of m a] by simp
  then have "unat (ucast (packet_word m a) :: u16) = unat (packet_word m a)"
    by (simp add: unsigned_ucast_eq take_bit_eq_mod)
  then have "ucast (ucast (packet_word m a) :: u16) = packet_word m a"
    unfolding word_unat_eq_iff unat_u16_to_u32 .
  then show ?thesis by (simp add: packet_word_def mem_iord_byte_mask)
qed

text \<open>A loop that adds words to a sum already begun.\<close>

lemma unat_sum_loop_from:
  assumes "n \<le> 32768" and "unat c \<le> 2147418112"
  shows "unat (for_loop 0 n (\<lambda>k c. c + packet_word b (f k)) c) = unat c + (\<Sum>k<n. unat (packet_word b (f k)))"
  using assms(1)
proof (induction n)
  case 0
  then show ?case by (simp add: loop_simps)
next
  case (Suc n)
  have "(\<Sum>k<Suc n. unat (packet_word b (f k))) \<le> (\<Sum>k<Suc n. 65535)"
    by (rule sum_mono) (rule unat_packet_word_le)
  also have "\<dots> \<le> 2147450880" using Suc.prems by simp
  finally show ?case using Suc assms(2) by (simp add: for_loop_Suc unat_word_ariths)
qed

lemma tcp_checksum_value:
  assumes "unat tlen < 65535"
  shows "unat (fst (tcp_compute_checksum m p tlen dl)) = 65535 - ones_sum
      (payload_sum (tcp_pad m p tlen) p ((unat tlen + 1) div 2) + pseudo_sum (tcp_pad m p tlen) p 6 (unat tlen))"
    and "snd (tcp_compute_checksum m p tlen dl) = tcp_pad m p tlen"
proof -
  let ?m = "tcp_pad m p tlen" and ?n = "(unat tlen + 1) div 2"
  define cl where "cl = (if tlen AND 1 = 0 then tlen else tlen + 1)"
  have cl: "unat cl div 2 = ?n" using assms by (auto simp: cl_def u16_odd unat_word_ariths)
  let ?w = "\<lambda>a. packet_word ?m (p + a)"
  define c where "c = ?w 26 + ?w 28 + ?w 30 + ?w 32 + 6 + ucast tlen"
  have le: "unat (?w 26) \<le> 65535" "unat (?w 30) \<le> 65535" "unat (?w 28) \<le> 65535" "unat (?w 32) \<le> 65535"
    "unat tlen \<le> 65535"
    using u16_less [of tlen] by (simp_all add: unat_packet_word_le)
  have uc: "unat c = pseudo_sum ?m p 6 (unat tlen)"
    using le unfolding c_def pseudo_sum_def by (simp add: unat_word_ariths)
  have body: "push_bit 8 (mem_iord_byte ?m a) + mem_iord_byte ?m (a + 1) = packet_word ?m a" for a
    by (simp add: packet_word_def mem_iord_byte_mask)
  have "(if tlen AND 1 = 0 then (tlen, m) else (tlen + 1, mem_iowr_byte (p + 34 + ucast tlen) 0 m)) = (cl, ?m)"
    by (simp add: cl_def tcp_pad_def)
  moreover have "for_loop 0 2 (\<lambda>k c. c + packet_word ?m (p + a + of_nat (2 * k))) x =
      x + ?w a + packet_word ?m (p + a + 2)" for a x
    by (simp add: loop_simps for_loop_Suc)
  moreover have "0 + ?w 26 + packet_word ?m (p + 26 + 2) + ?w 30 + packet_word ?m (p + 30 + 2) + 6 + ucast tlen = c"
    by (simp add: c_def add.assoc)
  ultimately have eq: "tcp_compute_checksum m p tlen dl =
      (ucast (checksum_finish (for_loop 0 ?n (\<lambda>k c. c + packet_word ?m (p + 34 + of_nat (2 * k))) c)), ?m)"
    unfolding tcp_compute_checksum_def Let_def
    by (simp only: prod.case u16_of_packet_word body cl)
  have "unat (for_loop 0 ?n (\<lambda>k c. c + packet_word ?m (p + 34 + of_nat (2 * k))) c) =
      unat c + payload_sum ?m p ?n"
    unfolding payload_sum_def
  proof (rule unat_sum_loop_from)
    show "?n \<le> 32768" using assms by linarith
    show "unat c \<le> 2147418112" unfolding uc pseudo_sum_def using le by linarith
  qed
  then have total: "unat (for_loop 0 ?n (\<lambda>k c. c + packet_word ?m (p + 34 + of_nat (2 * k))) c) =
      payload_sum ?m p ?n + pseudo_sum ?m p 6 (unat tlen)"
    unfolding uc by linarith
  have cast: "unat (ucast (checksum_finish x) :: u16) = 65535 - ones_sum (unat x)" for x
    by (simp add: unsigned_ucast_eq take_bit_eq_mod unat_checksum_finish)
  show "unat (fst (tcp_compute_checksum m p tlen dl)) = 65535 - ones_sum
      (payload_sum ?m p ?n + pseudo_sum ?m p 6 (unat tlen))"
    unfolding eq fst_conv cast total ..
  show "snd (tcp_compute_checksum m p tlen dl) = ?m" unfolding eq snd_conv ..
qed

section \<open>The segment that is built\<close>

text \<open>Bytes of the header words, as bytes of the fields.\<close>

lemma bytes_of_fields:
  fixes a b :: u8 and x y :: u16 and q r v :: u32
  shows "drop_bit 24 (push_bit 16 (ucast x) OR ucast y) AND (0xFF :: u32) = drop_bit 8 (ucast x) AND 0xFF"
    and "drop_bit 16 (push_bit 16 (ucast x) OR ucast y) AND (0xFF :: u32) = ucast x AND 0xFF"
    and "drop_bit 8 (push_bit 24 (ucast a) OR push_bit 16 (ucast b) OR ucast x) AND (0xFF :: u32) =
      drop_bit 8 (ucast x) AND 0xFF"
    and "(push_bit 24 (ucast a) OR push_bit 16 (ucast b) OR ucast x) AND (0xFF :: u32) = ucast x AND 0xFF"
    and "drop_bit 24 (push_bit 16 (ucast x) OR push_bit 8 (drop_bit 24 q) OR (drop_bit 16 q AND 0xFF)) AND 0xFF =
      drop_bit 8 (ucast x) AND 0xFF"
    and "drop_bit 16 (push_bit 16 (ucast x) OR push_bit 8 (drop_bit 24 q) OR (drop_bit 16 q AND 0xFF)) AND 0xFF =
      ucast x AND 0xFF"
    and "drop_bit 8 (push_bit 16 (ucast x) OR push_bit 8 (drop_bit 24 q) OR (drop_bit 16 q AND 0xFF)) AND 0xFF =
      drop_bit 24 q AND 0xFF"
    and "(push_bit 16 (ucast x) OR push_bit 8 (drop_bit 24 q) OR (drop_bit 16 q AND 0xFF)) AND 0xFF =
      drop_bit 16 q AND 0xFF"
    and "drop_bit 24 (push_bit 24 (drop_bit 8 q AND 0xFF) OR push_bit 16 (q AND 0xFF) OR
        push_bit 8 (drop_bit 24 r) OR (drop_bit 16 r AND 0xFF)) AND 0xFF = drop_bit 8 q AND 0xFF"
    and "drop_bit 16 (push_bit 24 (drop_bit 8 q AND 0xFF) OR push_bit 16 (q AND 0xFF) OR
        push_bit 8 (drop_bit 24 r) OR (drop_bit 16 r AND 0xFF)) AND 0xFF = q AND 0xFF"
    and "drop_bit 8 (push_bit 24 (drop_bit 8 q AND 0xFF) OR push_bit 16 (q AND 0xFF) OR
        push_bit 8 (drop_bit 24 r) OR (drop_bit 16 r AND 0xFF)) AND 0xFF = drop_bit 24 r AND 0xFF"
    and "(push_bit 24 (drop_bit 8 q AND 0xFF) OR push_bit 16 (q AND 0xFF) OR
        push_bit 8 (drop_bit 24 r) OR (drop_bit 16 r AND 0xFF)) AND 0xFF = drop_bit 16 r AND 0xFF"
  unfolding byte_mask
  by (rule bit_word_eqI; auto simp: bit_simps dest: bit_imp_le_length)+

lemma bytes_of_flags_word:
  fixes f h :: u8 and r :: u32
  shows "drop_bit 24 (push_bit 24 (drop_bit 8 r AND 0xFF) OR push_bit 16 (r AND 0xFF) OR
        push_bit 8 (ucast h) OR (ucast f AND 0xFF)) AND 0xFF = drop_bit 8 r AND 0xFF"
    and "drop_bit 16 (push_bit 24 (drop_bit 8 r AND 0xFF) OR push_bit 16 (r AND 0xFF) OR
        push_bit 8 (ucast h) OR (ucast f AND 0xFF)) AND 0xFF = r AND 0xFF"
    and "drop_bit 8 (push_bit 24 (drop_bit 8 r AND 0xFF) OR push_bit 16 (r AND 0xFF) OR
        push_bit 8 (ucast h) OR (ucast f AND 0xFF)) AND 0xFF = ucast h"
    and "(push_bit 24 (drop_bit 8 r AND 0xFF) OR push_bit 16 (r AND 0xFF) OR
        push_bit 8 (ucast h) OR (ucast f AND 0xFF)) AND 0xFF = ucast f"
  unfolding byte_mask
  by (rule bit_word_eqI; auto simp: bit_simps dest: bit_imp_le_length)+

text \<open>The header length is five words, in the upper half of its byte.\<close>

lemma header_length_byte: "push_bit 8 (80 :: u32) = 20480" "ucast (80 :: u8) = (80 :: u32)"
  by simp_all

lemmas bytes_of_flags = bytes_of_flags_word [where h = 80, unfolded header_length_byte ucast_u8_byte]

text \<open>A field put together from its bytes.\<close>

lemma join_32:
  "push_bit 24 (drop_bit 24 s AND 0xFF) + push_bit 16 (drop_bit 16 s AND 0xFF) +
     push_bit 8 (drop_bit 8 s AND 0xFF) + (s AND 0xFF) = (s :: u32)"
proof -
  have "unat s < 2 ^ LENGTH(32)" by (rule unsigned_less)
  then have lt: "unat s < 4294967296" by simp
  have byte: "drop_bit k s AND 0xFF = of_nat (unat s div 2 ^ k mod 256)" for k
  proof -
    have "take_bit 32 (unat s) = unat s" using lt by (simp add: take_bit_nat_eq_self)
    then have "unat (drop_bit k s AND 0xFF) = unat s div 2 ^ k mod 256"
      by (simp only: unat_and_byte_u32 unsigned_drop_bit_eq) (simp add: drop_bit_eq_div)
    then have "(of_nat (unat (drop_bit k s AND 0xFF)) :: u32) = of_nat (unat s div 2 ^ k mod 256)"
      by (rule arg_cong)
    then show ?thesis by (simp only: of_nat_unat ucast_id)
  qed
  have "s = of_nat (unat s)" by (simp only: of_nat_unat ucast_id)
  also have "\<dots> = of_nat (16777216 * (unat s div 16777216 mod 256) + 65536 * (unat s div 65536 mod 256) +
      256 * (unat s div 256 mod 256) + unat s mod 256)"
    by (subst split_32 [OF lt]) (rule refl)
  finally show ?thesis
    using byte [of 24] byte [of 16] byte [of 8] byte [of 0]
    by (simp only: push_bit_eq_mult of_nat_add of_nat_mult of_nat_numeral drop_bit_0 id_apply power_0 div_by_1)
      (simp add: mult.commute)
qed

lemma join_16: "ucast (push_bit 8 (drop_bit 8 (ucast x) AND 0xFF) + (ucast x AND (0xFF :: u32))) = (x :: u16)"
proof -
  have "push_bit 8 (drop_bit 8 (ucast x) AND 0xFF) + (ucast x AND (0xFF :: u32)) =
      push_bit 8 (drop_bit 8 (ucast x) AND 0xFF) OR (ucast x AND 0xFF)"
    unfolding byte_mask by (rule disjunctive_add) (simp add: bit_simps)
  also have "ucast \<dots> = x"
    unfolding byte_mask by (rule bit_word_eqI) (auto simp: bit_simps)
  finally show ?thesis .
qed

lemma join_16_narrow:
  "push_bit 8 (ucast (drop_bit 8 (ucast x) AND (0xFF :: u32))) + ucast (ucast x AND (0xFF :: u32)) = (x :: u16)"
proof -
  have "push_bit 8 (ucast (drop_bit 8 (ucast x) AND (0xFF :: u32))) + ucast (ucast x AND (0xFF :: u32)) =
      push_bit 8 (ucast (drop_bit 8 (ucast x) AND (0xFF :: u32))) OR (ucast (ucast x AND (0xFF :: u32)) :: u16)"
    unfolding byte_mask by (rule disjunctive_add) (simp add: bit_simps)
  also have "\<dots> = x"
    unfolding byte_mask by (rule bit_word_eqI) (auto simp: bit_simps)
  finally show ?thesis .
qed

lemma tcp_length_difference:
  assumes "unat len < 65516" shows "(ucast (len + 20 :: u16) :: u32) - ucast len = 20"
proof -
  have "unat (ucast (len + 20) :: u32) = unat (ucast len + 20 :: u32)"
    using assms by (simp add: unat_word_ariths)
  then have "ucast (len + 20) = (ucast len + 20 :: u32)" by (simp only: word_unat_eq_iff)
  then show ?thesis by simp
qed

lemma tcp_header_bytes:
  assumes "aligned (eth_tx_addr c)" and "unat len < 65516"
  shows "map (frame_byte (tcp_write_headers c flags (len + 20) len m) (eth_tx_addr c))
      [12, 13, 16, 17, 22, 23, 24, 25, 26, 27, 28, 29, 30, 31, 32, 33] =
    [0x08, 0x00, drop_bit 8 (ucast (40 + len)) AND 0xFF, ucast (40 + len) AND 0xFF, 0x40, 0x06, 0, 0,
     ucast (srcIP c ! 0), ucast (srcIP c ! 1), ucast (srcIP c ! 2), ucast (srcIP c ! 3),
     ucast (dstIP c ! 0), ucast (dstIP c ! 1), ucast (dstIP c ! 2), ucast (dstIP c ! 3)]"
    and "map (frame_byte (tcp_write_headers c flags (len + 20) len m) (eth_tx_addr c))
      [34, 35, 36, 37, 38, 39, 40, 41, 42, 43, 44, 45, 46, 47, 50, 51] =
    [drop_bit 8 (ucast (srcport c)) AND 0xFF, ucast (srcport c) AND 0xFF,
     drop_bit 8 (ucast (dstport c)) AND 0xFF, ucast (dstport c) AND 0xFF,
     drop_bit 24 (seqNum c) AND 0xFF, drop_bit 16 (seqNum c) AND 0xFF, drop_bit 8 (seqNum c) AND 0xFF,
     seqNum c AND 0xFF,
     drop_bit 24 (ackNum c) AND 0xFF, drop_bit 16 (ackNum c) AND 0xFF, drop_bit 8 (ackNum c) AND 0xFF,
     ackNum c AND 0xFF, 80, ucast (ucast flags :: u8), 0, 0]"
  by (simp_all add: tcp_write_headers_def Let_def mem_simps assms bytes_of_word bytes_of_fields bytes_of_flags
      tcp_length_difference [OF assms(2)] del: drop_bit_or push_bit_and bit.conj_disj_distrib2 bit.conj_disj_distrib)

text \<open>The stages of the segment: headers, data, IP checksum, padding byte, TCP checksum.\<close>

lemma tcp_segment_stages:
  fixes c flags data len m
  defines "tx \<equiv> eth_tx_addr c"
  defines "mh \<equiv> tcp_write_headers c flags (len + 20) len m"
  defines "mf \<equiv> tcp_build c flags data len m"
  assumes al: "aligned tx" and len: "unat len < 65482"
  shows "\<And>j. j < 2 ^ 32 \<Longrightarrow> j \<notin> {24, 25, 50, 51} \<Longrightarrow> frame_byte mf tx j =
        (if 54 \<le> j \<and> j < 54 + unat len then ucast (data ! (j - 54))
         else if odd (unat len) \<and> j = unat len + 54 then 0 else frame_byte mh tx j)"
    and "ones_sum (payload_sum mf tx ((21 + unat len) div 2) + pseudo_sum mf tx 6 (unat len + 20)) = 65535"
    and "ipv4_verify_checksum mf tx = 1"
proof -
  define md where "md = for_loop 0 (unat len) (\<lambda>i. mem_iowr_byte (tx + 54 + of_nat i) (ucast (data ! i))) mh"
  define mi where "mi = store_ip_checksum tx md"
  define mp where "mp = tcp_pad mi tx (len + 20)"
  define ck where "ck = fst (tcp_compute_checksum mi tx (len + 20) len)"
  have tlen: "unat (len + 20) = unat len + 20" "unat (len + 20) < 65535"
    using len by (simp_all add: unat_word_ariths)
  note comp = tcp_checksum_value [OF tlen(2), of mi tx len, folded ck_def mp_def]
  have mf: "mf = mem_iowr_byte (tx + 51) (ucast (ck AND 0xFF)) (mem_iowr_byte (tx + 50) (ucast (drop_bit 8 ck)) mp)"
    by (simp add: mf_def tcp_build_def Let_def split_beta ck_def comp(2)
        flip: tx_def mh_def md_def mi_def)
  have md: "frame_byte md tx j = (if 54 \<le> j \<and> j < 54 + unat len then ucast (data ! (j - 54)) else frame_byte mh tx j)"
    if "j < 2 ^ 32" for j
    using frame_byte_fill [of 54 "unat len" j tx "\<lambda>i. ucast (data ! i)" mh] that u16_less [of len]
    by (simp add: md_def)
  have mp: "frame_byte mp tx j = (if odd (unat len) \<and> j = unat len + 54 then 0 else frame_byte mi tx j)"
    if "j < 2 ^ 32" for j
    using that by (simp add: mp_def tcp_pad_byte tlen)
  have other: "frame_byte mf tx j = frame_byte mp tx j" if "j < 2 ^ 32" "j \<noteq> 50" "j \<noteq> 51" for j
    using that by (simp add: mf mem_simps)
  show "frame_byte mf tx j =
        (if 54 \<le> j \<and> j < 54 + unat len then ucast (data ! (j - 54))
         else if odd (unat len) \<and> j = unat len + 54 then 0 else frame_byte mh tx j)"
    if "j < 2 ^ 32" "j \<notin> {24, 25, 50, 51}" for j
    using that by (auto simp: other mp mi_def store_ip_checksum_byte md)
  have len': "unat len < 65516" using len by simp
  note head = tcp_header_bytes [OF al [unfolded tx_def] len', of flags m, folded tx_def mh_def]
  have low: "frame_byte mh tx 22 = 0x40" "frame_byte mh tx 25 = 0" "frame_byte mh tx 50 = 0" "frame_byte mh tx 51 = 0"
    using head by simp_all
  have "mem_iord_byte md (tx + 25) = 0"
    using low md [of 25] by (simp add: frame_byte_numeral(1))
  moreover have "0 < header_sum_rest md tx"
  proof -
    have "header_word md tx 4 > 0"
      using low(1) md [of 22] packet_word_frame [of md tx 22] by (simp add: header_word_def add.assoc)
    then show ?thesis unfolding header_sum_rest_def by (intro sum_pos2 [where i = 4]) auto
  qed
  ultimately have "ipv4_verify_checksum mi tx = 1" unfolding mi_def by (rule store_then_verify)
  moreover have "header_sum mf tx = header_sum mi tx"
  proof -
    have "frame_byte mf tx j = frame_byte mi tx j" if "j < 34" for j
      using that by (simp add: other mp)
    then show ?thesis unfolding header_sum_frame by (intro sum.cong) simp_all
  qed
  ultimately show "ipv4_verify_checksum mf tx = 1" by (simp add: verify_checksum_iff)
  let ?n = "(21 + unat len) div 2"
  let ?S = "payload_sum mp tx ?n + pseudo_sum mp tx 6 (unat len + 20)"
  have n: "(unat (len + 20) + 1) div 2 = ?n" "8 < ?n" "34 + 2 * ?n < 2 ^ 32"
    unfolding tlen(1) using len by simp_all
  have field: "256 * unat (frame_byte mf tx 50) + unat (frame_byte mf tx 51) = 65535 - ones_sum ?S"
    using comp(1) by (simp add: mf mem_simps two_bytes n(1) [unfolded tlen(1)] tlen(1))
  have zero: "frame_byte mp tx 50 = 0" "frame_byte mp tx 51 = 0"
    using low by (simp_all add: mp mi_def store_ip_checksum_byte md)
  have "payload_sum mf tx ?n = payload_sum mp tx ?n + (65535 - ones_sum ?S)"
    "pseudo_sum mf tx 6 (unat len + 20) = pseudo_sum mp tx 6 (unat len + 20)"
    by (rule stored_sum [where q = 8 and n = ?n, OF n(2)]; use n(3) in \<open>simp add: other field zero\<close>)+
  then have total: "payload_sum mf tx ?n + pseudo_sum mf tx 6 (unat len + 20) = ?S + (65535 - ones_sum ?S)" by simp
  have "0 < ?S" by (simp add: pseudo_sum_def)
  then show "ones_sum (payload_sum mf tx ?n + pseudo_sum mf tx 6 (unat len + 20)) = 65535"
    unfolding total by (rule checksum_completes)
qed

text \<open>The fields of a segment wherever its bytes are.\<close>

lemma tcp_segment_fields:
  assumes al: "aligned (eth_tx_addr c)" and len: "unat len < 65482"
    and copy: "same_frame (54 + unat len) m' p (tcp_build c flags data len m) (eth_tx_addr c)"
  shows "mac_packet_type m' p = TCP"
    and "tcp_get_source_port m' p = srcport c" "tcp_get_destination_port m' p = dstport c"
    and "tcp_get_seqnum m' p = seqNum c" "tcp_get_acknum m' p = ackNum c"
    and "tcp_get_flags m' p = ucast flags" "tcp_get_header_length m' p = 20"
    and "tcp_get_data_length m' p = len"
    and "map (\<lambda>i. ucast (mem_iord_byte m' (p + 54 + of_nat i))) [0..<unat len] = map (\<lambda>i. data ! i) [0..<unat len]"
    and "map (\<lambda>a. ucast (mem_iord_byte m' a)) [p + 26, p + 27, p + 28, p + 29, p + 30, p + 31, p + 32, p + 33] =
      [srcIP c ! 0, srcIP c ! 1, srcIP c ! 2, srcIP c ! 3, dstIP c ! 0, dstIP c ! 1, dstIP c ! 2, dstIP c ! 3]"
proof -
  have len': "unat len < 65516" using len by simp
  note st = tcp_segment_stages(1) [OF al len, of _ flags data m]
  note head = tcp_header_bytes [OF al len', of flags m]
  have b: "frame_byte m' p j = frame_byte (tcp_build c flags data len m) (eth_tx_addr c) j" if "j < 54 + unat len" for j
    using copy that by (simp add: same_frame_def)
  have bytes: "frame_byte m' p j = frame_byte (tcp_write_headers c flags (len + 20) len m) (eth_tx_addr c) j"
    if "j < 54" "j \<notin> {24, 25, 50, 51}" for j
    using that by (simp add: b st)
  show "mac_packet_type m' p = TCP"
    using head(1) unfolding mac_packet_type_def frame_byte_numeral(1) by (simp add: bytes)
  show "tcp_get_source_port m' p = srcport c" "tcp_get_destination_port m' p = dstport c"
    unfolding tcp_get_source_port_def tcp_get_destination_port_def frame_byte_numeral(1)
    using head(2) by (simp_all add: bytes join_16 del: push_bit_and)
  show "tcp_get_seqnum m' p = seqNum c" "tcp_get_acknum m' p = ackNum c"
    unfolding tcp_get_seqnum_def tcp_get_acknum_def frame_byte_numeral(1)
    using head(2) by (simp_all add: bytes join_32 del: push_bit_and)
  show "tcp_get_flags m' p = ucast flags"
    unfolding tcp_get_flags_def frame_byte_numeral(1) using head(2) by (simp add: bytes)
  show hl: "tcp_get_header_length m' p = 20"
    unfolding tcp_get_header_length_def frame_byte_numeral(1) using head(2) by (simp add: bytes)
  have "ipv4_get_length m' p = 40 + len"
    using head(1) by (simp add: ipv4_get_length_def Let_def add.assoc frame_byte_numeral(1) bytes join_16_narrow del: push_bit_and)
  then show "tcp_get_data_length m' p = len" by (simp add: tcp_get_data_length_def hl)
  have "ucast (mem_iord_byte m' (p + 54 + of_nat i)) = data ! i" if "i < unat len" for i
    using that len b [of "54 + i"] st [of "54 + i"] by (simp add: frame_byte_def add.assoc)
  then show "map (\<lambda>i. ucast (mem_iord_byte m' (p + 54 + of_nat i))) [0..<unat len] = map (\<lambda>i. data ! i) [0..<unat len]"
    by simp
  show "map (\<lambda>a. ucast (mem_iord_byte m' a)) [p + 26, p + 27, p + 28, p + 29, p + 30, p + 31, p + 32, p + 33] =
      [srcIP c ! 0, srcIP c ! 1, srcIP c ! 2, srcIP c ! 3, dstIP c ! 0, dstIP c ! 1, dstIP c ! 2, dstIP c ! 3]"
    using head(1) by (simp add: frame_byte_numeral(1) bytes)
qed

lemma tcp_get_data_frame:
  assumes "tcp_get_header_length m p = 20"
  shows "tcp_get_data m p buf n =
    (if unat (tcp_get_data_length m p) \<le> length buf
     then Some (ucast (tcp_get_data_length m p),
        map (\<lambda>i. ucast (mem_iord_byte m (p + 54 + of_nat i))) [0..<unat (tcp_get_data_length m p)]
          @ drop (unat (tcp_get_data_length m p)) buf)
     else None)"
proof -
  have eq: "p + 34 + ucast (20 :: u8) = p + 54" by simp
  show ?thesis
    unfolding tcp_get_data_def assms eq
    by (cases "unat (tcp_get_data_length m p) \<le> length buf")
      (simp_all add: store_loop_take store_loop_overflow)
qed

lemma tcp_send_returns: "fst (tcp_send conn flags data len s) = 1"
  by (simp add: tcp_send_def Let_def eth_mac_send_nb_never_refuses)

section \<open>The state machine\<close>

text \<open>
  The transitions of RFC 793 that the code implements, and what makes them: the flags of a
  received segment, or a call of the user.
\<close>

datatype tcp_event = Received u8 | Connect | Listen | Close

inductive tcp_trans :: "tcpstate \<Rightarrow> tcp_event \<Rightarrow> tcpstate \<Rightarrow> bool" where
  connect: "tcp_trans st Connect SYN_SENT"
| listen: "tcp_trans st Listen LISTEN"
| close_open: "st \<in> {SYN_RCVD, ESTABLISHED} \<Longrightarrow> tcp_trans st Close FIN_WAIT_1"
| close_wait: "tcp_trans CLOSE_WAIT Close LAST_ACK"
| close_idle: "st \<in> {TIME_WAIT, CLOSED, LISTEN, SYN_SENT} \<Longrightarrow> tcp_trans st Close CLOSED"
| passive_open: "f AND SYN = SYN \<Longrightarrow> tcp_trans LISTEN (Received f) SYN_RCVD"
| active_open: "tcp_trans SYN_SENT (Received (SYN OR ACK)) ESTABLISHED"
| simultaneous_open: "tcp_trans SYN_SENT (Received SYN) SYN_RCVD"
| refused: "f \<notin> {SYN, SYN OR ACK} \<Longrightarrow> tcp_trans SYN_SENT (Received f) CLOSED"
| opened: "f AND ACK = ACK \<Longrightarrow> tcp_trans SYN_RCVD (Received f) ESTABLISHED"
| peer_closed: "tcp_trans ESTABLISHED (Received FIN) CLOSE_WAIT"
| fin_acked: "tcp_trans FIN_WAIT_1 (Received ACK) FIN_WAIT_2"
| both_closed: "tcp_trans FIN_WAIT_1 (Received (FIN OR ACK)) TIME_WAIT"
| simultaneous_close: "tcp_trans FIN_WAIT_1 (Received FIN) CLOSING"
| late_fin: "f AND FIN = FIN \<Longrightarrow> tcp_trans FIN_WAIT_2 (Received f) CLOSING"
| closing_acked: "tcp_trans CLOSING (Received ACK) TIME_WAIT"
| last_acked: "tcp_trans LAST_ACK (Received ACK) CLOSED"
| half_closed: "tcp_trans CLOSE_WAIT (Received f) LAST_ACK"
| timed_out: "tcp_trans TIME_WAIT (Received f) CLOSED"

text \<open>Everything of a connection but its state and its two sequence numbers.\<close>

definition tcp_fixed :: "tcp_connection \<Rightarrow> tcp_connection" where
  "tcp_fixed c = c\<lparr>status := CLOSED, seqNum := 0, ackNum := 0\<rparr>"

text \<open>The next state as a function of the state and the flags received.\<close>

definition tcp_next :: "tcpstate \<Rightarrow> u8 \<Rightarrow> tcpstate" where
  "tcp_next st f = (case st of
     LISTEN \<Rightarrow> if f AND SYN = SYN then SYN_RCVD else LISTEN
   | SYN_SENT \<Rightarrow> if f = SYN OR ACK then ESTABLISHED else if f = SYN then SYN_RCVD else CLOSED
   | SYN_RCVD \<Rightarrow> if f AND ACK = ACK then ESTABLISHED else SYN_RCVD
   | ESTABLISHED \<Rightarrow> if f = FIN then CLOSE_WAIT else ESTABLISHED
   | FIN_WAIT_1 \<Rightarrow> if f = FIN OR ACK then TIME_WAIT else if f = FIN then CLOSING
                   else if f = ACK then FIN_WAIT_2 else FIN_WAIT_1
   | FIN_WAIT_2 \<Rightarrow> if f AND FIN = FIN then CLOSING else FIN_WAIT_2
   | CLOSE_WAIT \<Rightarrow> LAST_ACK
   | CLOSING \<Rightarrow> if f = ACK then TIME_WAIT else CLOSING
   | TIME_WAIT \<Rightarrow> CLOSED
   | LAST_ACK \<Rightarrow> if f = ACK then CLOSED else LAST_ACK
   | CLOSED \<Rightarrow> CLOSED)"

lemma tcp_handle_status:
  "status (fst (snd (tcp_handle conn s))) =
     (if tcp_get_destination_port (buff s) (eth_rx_addr conn) = srcport conn
      then tcp_next (status conn) (tcp_get_flags (buff s) (eth_rx_addr conn)) else status conn)"
  by (cases "status conn") (simp_all add: tcp_handle_def tcp_next_def Let_def split_beta)

lemma tcp_handle_fixed: "tcp_fixed (fst (snd (tcp_handle conn s))) = tcp_fixed conn"
  by (cases "status conn") (simp_all add: tcp_handle_def tcp_fixed_def Let_def split_beta)

lemma tcp_handle_numbers:
  "seqNum (fst (snd (tcp_handle conn s))) =
     (if tcp_get_destination_port (buff s) (eth_rx_addr conn) = srcport conn \<and> status conn = SYN_SENT \<and>
         tcp_get_flags (buff s) (eth_rx_addr conn) = SYN OR ACK
      then tcp_get_acknum (buff s) (eth_rx_addr conn) else seqNum conn)"
  "ackNum (fst (snd (tcp_handle conn s))) =
     (if tcp_get_destination_port (buff s) (eth_rx_addr conn) = srcport conn \<and> status conn = SYN_SENT \<and>
         tcp_get_flags (buff s) (eth_rx_addr conn) = SYN OR ACK
      then tcp_get_seqnum (buff s) (eth_rx_addr conn) + 1 else ackNum conn)"
  by (cases "status conn"; simp add: tcp_handle_def Let_def split_beta)+

lemma tcp_next_trans: "tcp_next st f = st \<or> tcp_trans st (Received f) (tcp_next st f)"
  by (cases st) (simp_all add: tcp_next_def tcp_trans.intros active_open [simplified] both_closed [simplified])

text \<open>Sequences of transitions.\<close>

inductive tcp_trace :: "tcpstate \<Rightarrow> tcp_event list \<Rightarrow> tcpstate \<Rightarrow> bool" where
  nothing: "tcp_trace st [] st"
| more: "tcp_trans st e st' \<Longrightarrow> tcp_trace st' es st'' \<Longrightarrow> tcp_trace st (e # es) st''"

inductive_simps tcp_trace_simps: "tcp_trace st [] st'" "tcp_trace st (e # es) st'"
inductive_cases tcp_trans_established: "tcp_trans st e ESTABLISHED"

text \<open>At most one segment was received.\<close>

definition at_most_one_segment :: "tcp_event list \<Rightarrow> bool" where
  "at_most_one_segment es \<longleftrightarrow> es = [] \<or> (\<exists>f. es = [Received f])"

lemma tcp_receive_handle_trace:
  assumes "tcp_receive_handle c s = Some (r, c', s')"
  shows "\<exists>es. at_most_one_segment es \<and> tcp_trace (status c) es (status c')" and "tcp_fixed c' = tcp_fixed c"
proof -
  obtain n u where recv: "eth_mac_receive (eth_rx_addr c) 1 s = Some (n, u)"
    using assms by (auto simp: tcp_receive_handle_def split: bind_splits)
  let ?f = "tcp_get_flags (buff u) (eth_rx_addr c)"
  have "c' = c \<or> c' = fst (snd (tcp_handle c u))"
    using assms recv by (auto simp: tcp_receive_handle_def split: if_splits)
  then have st: "status c' = status c \<or> status c' = tcp_next (status c) ?f" and fixed: "tcp_fixed c' = tcp_fixed c"
    by (auto simp: tcp_handle_status tcp_handle_fixed)
  show "tcp_fixed c' = tcp_fixed c" by (rule fixed)
  from st tcp_next_trans [of "status c" ?f] have
    "status c' = status c \<or> tcp_trans (status c) (Received ?f) (status c')" by auto
  then show "\<exists>es. at_most_one_segment es \<and> tcp_trace (status c) es (status c')"
  proof
    assume "status c' = status c"
    then show ?thesis by (intro exI [of _ "[]"]) (simp add: at_most_one_segment_def tcp_trace_simps)
  next
    assume "tcp_trans (status c) (Received ?f) (status c')"
    then show ?thesis by (intro exI [of _ "[Received ?f]"]) (simp add: at_most_one_segment_def tcp_trace_simps)
  qed
qed

text \<open>
  A path from the closed state to the established one contains an acknowledgement: no
  sequence of calls and segments without the ACK flag establishes a connection.
\<close>

lemma tcp_trace_established:
  "tcp_trace st es st' \<Longrightarrow> st \<noteq> ESTABLISHED \<Longrightarrow> st' = ESTABLISHED \<Longrightarrow>
     \<exists>f. Received f \<in> set es \<and> f AND ACK = ACK"
proof (induction rule: tcp_trace.induct)
  case (more st e st' es st'')
  show ?case
  proof (cases "st' = ESTABLISHED")
    case True
    with more.hyps(1) have "tcp_trans st e ESTABLISHED" by simp
    then have "\<exists>f. e = Received f \<and> f AND ACK = ACK"
      by (rule tcp_trans_established) simp_all
    then show ?thesis by auto
  next
    case False
    with more show ?thesis by auto
  qed
qed simp

lemma tcp_fixed_status: "tcp_fixed (c\<lparr>status := st\<rparr>) = tcp_fixed c"
  by (simp add: tcp_fixed_def)

section \<open>Properties\<close>

text \<open>
  C28: a TCP segment is read back as it was built, wherever the receiver's controller stores it.
  For less than 65482 bytes of data the frame is classified as TCP; the accessors return the
  addresses, ports, sequence and acknowledgement numbers, flags, length and data it was built
  from; its IP checksum verifies; and the one's complement sum over pseudo header and segment
  is full, which is what RFC 793 asks a receiver to check.
\<close>

theorem tcp_segment_roundtrip:
  assumes "aligned (eth_tx_addr c)" and "unat len < 65482"
    and "length (srcIP c) = 4" and "length (dstIP c) = 4" and "length data = unat len" and "length buf = unat len"
    and "mf = tcp_build c flags data len m"
    and "same_frame (54 + unat len) m' p mf (eth_tx_addr c)"
  shows "mac_packet_type m' p = TCP \<and>
    ipv4_get_source_ip m' p = srcIP c \<and> ipv4_get_destination_ip m' p = dstIP c \<and>
    tcp_get_source_port m' p = srcport c \<and> tcp_get_destination_port m' p = dstport c \<and>
    tcp_get_seqnum m' p = seqNum c \<and> tcp_get_acknum m' p = ackNum c \<and>
    tcp_get_flags m' p = ucast flags \<and> tcp_get_data_length m' p = len \<and>
    tcp_get_data m' p buf n = Some (ucast len, data) \<and>
    ipv4_verify_checksum mf (eth_tx_addr c) = 1 \<and>
    ones_sum (payload_sum mf (eth_tx_addr c) ((21 + unat len) div 2)
      + pseudo_sum mf (eth_tx_addr c) 6 (unat len + 20)) = 65535"
proof -
  note f = tcp_segment_fields [OF assms(1,2) assms(8) [unfolded assms(7)]]
  note st = tcp_segment_stages(2,3) [OF assms(1,2), of flags data m, folded assms(7)]
  have four: "xs = [xs ! 0, xs ! 1, xs ! 2, xs ! 3]" if "length xs = 4" for xs :: "u8 list"
    using that by (auto simp: numeral_eq_Suc length_Suc_conv)
  have "ipv4_get_source_ip m' p = srcIP c" "ipv4_get_destination_ip m' p = dstIP c"
    using f(10) four [OF assms(3)] four [OF assms(4)]
    by (simp_all add: ipv4_get_source_ip_def ipv4_get_destination_ip_def packet_bytes_4 add.assoc)
  moreover have "tcp_get_data m' p buf n = Some (ucast len, data)"
    unfolding tcp_get_data_frame [OF f(7)] f(8) f(9) using assms(5,6) by (simp add: map_nth flip: assms(5))
  ultimately show ?thesis using f st by blast
qed

text \<open>A connection for the examples.\<close>

definition tcp_example :: "u16 \<Rightarrow> u16 \<Rightarrow> tcpstate \<Rightarrow> tcp_connection" where
  "tcp_example sp dp st = \<lparr>eth_tx_addr = 0, eth_rx_addr = 0, dstMAC = [1, 2, 3, 4, 5, 6],
     srcMAC = [7, 8, 9, 10, 11, 12], srcIP = [10, 0, 0, 1], dstIP = [10, 0, 0, 2], srcport = sp, dstport = dp,
     seqNum = 0x12345678, ackNum = 0, status = st, ipv4_id = 0x1111, send_buffer = [],
     send_buffer_size = 0, recv_buffer = [], recv_buffer_size = 0\<rparr>"

lemma tcp_segment_roundtrip_witness:
  "tcp_get_data (tcp_build (tcp_example 80 4000 ESTABLISHED) 0x18 [104, 105, 33] 3 (\<lambda>_. 0)) 0 [0, 0, 0] 3 =
     Some (3, [104, 105, 33])"
proof -
  let ?m = "tcp_build (tcp_example 80 4000 ESTABLISHED) 0x18 [104, 105, 33] 3 (\<lambda>_. 0)"
  have "same_frame (54 + unat (3 :: u16)) ?m 0 ?m (eth_tx_addr (tcp_example 80 4000 ESTABLISHED))"
    by (simp add: same_frame_def tcp_example_def)
  then show ?thesis
    using tcp_segment_roundtrip [where c = "tcp_example 80 4000 ESTABLISHED" and len = 3 and data = "[104, 105, 33]"
        and buf = "[0, 0, 0]" and flags = "0x18" and m = "\<lambda>_. 0" and m' = ?m and p = 0 and n = 3, OF _ _ _ _ _ _ refl]
    by (simp add: tcp_example_def aligned_def)
qed

text \<open>
  C7: the handler of received segments makes the transitions of the state machine and no
  others. A segment for another port changes nothing; otherwise the next state is the one of
  the transition table, addresses, ports and buffers stay as they are, and the sequence numbers
  are set only by the segment that answers an active open: the peer's acknowledgement becomes
  the own sequence number, its sequence number plus one the acknowledgement.
\<close>

theorem tcp_handle_transition:
  assumes "conn' = fst (snd (tcp_handle conn s))"
    and "f = tcp_get_flags (buff s) (eth_rx_addr conn)"
  shows "tcp_fixed conn' = tcp_fixed conn \<and>
    (tcp_get_destination_port (buff s) (eth_rx_addr conn) \<noteq> srcport conn \<longrightarrow> tcp_handle conn s = (1, conn, s)) \<and>
    (tcp_get_destination_port (buff s) (eth_rx_addr conn) = srcport conn \<longrightarrow>
       status conn' = tcp_next (status conn) f \<and>
       (status conn' = status conn \<or> tcp_trans (status conn) (Received f) (status conn')) \<and>
       (if status conn = SYN_SENT \<and> f = SYN OR ACK
        then seqNum conn' = tcp_get_acknum (buff s) (eth_rx_addr conn) \<and>
             ackNum conn' = tcp_get_seqnum (buff s) (eth_rx_addr conn) + 1
        else seqNum conn' = seqNum conn \<and> ackNum conn' = ackNum conn))"
proof -
  have "tcp_get_destination_port (buff s) (eth_rx_addr conn) \<noteq> srcport conn \<Longrightarrow> tcp_handle conn s = (1, conn, s)"
    by (simp add: tcp_handle_def Let_def)
  then show ?thesis
    using tcp_next_trans [of "status conn" f]
    by (simp add: assms tcp_handle_fixed tcp_handle_status tcp_handle_numbers)
qed

definition tcp_node :: "buffer \<Rightarrow> eth_state" where
  "tcp_node m = \<lparr>buff = m, buff1 = \<lambda>_. 0, dev = ready_env 0\<rparr>"

lemma tcp_send_cable:
  assumes "dev s = cable_env c" and "unat len < 65482" and "m = tcp_build conn flags data len (buff s)"
  shows "tcp_send conn flags data len s =
    (1, s\<lparr>buff := m, dev := cable_env (with_frame (frame_bytes m (eth_tx_addr conn) (54 + unat len)) (eth_tx_addr conn) c)\<rparr>)"
proof -
  have u: "unat (54 + len) = 54 + unat len" using assms(2) by (simp add: unat_word_ariths)
  then have "0 < (ucast (54 + len :: u16) :: u32)" "(ucast (54 + len :: u16) :: u32) < 2 ^ 16"
    using assms(2) by (simp_all add: word_less_nat_alt)
  with cable_send_nb [of "s\<lparr>buff := m\<rparr>" c "ucast (54 + len)" "eth_tx_addr conn"] assms(1) show ?thesis
    by (simp add: tcp_send_def Let_def assms(3) [symmetric] u)
qed

text \<open>A segment that was sent and stored, at whatever address.\<close>

lemma tcp_stored_fields:
  assumes "aligned (eth_tx_addr c)" and "unat len < 65482"
    and "b = put_frame (frame_bytes (tcp_build c flags data len m) (eth_tx_addr c) (54 + unat len)) p b'"
  shows "mac_packet_type b p = TCP" and "tcp_get_destination_port b p = dstport c" and "tcp_get_flags b p = ucast flags"
    and "tcp_get_seqnum b p = seqNum c" and "tcp_get_acknum b p = ackNum c"
proof -
  have "same_frame (54 + unat len) b p (tcp_build c flags data len m) (eth_tx_addr c)"
    unfolding assms(3) by (rule same_frame_put) (use assms(2) in simp)
  note f = tcp_segment_fields [OF assms(1,2) this]
  show "mac_packet_type b p = TCP" "tcp_get_destination_port b p = dstport c" "tcp_get_flags b p = ucast flags"
    "tcp_get_seqnum b p = seqNum c" "tcp_get_acknum b p = ackNum c" by (rule f)+
qed

lemma tcp_handle_transition_witness:
  "let s = tcp_node (tcp_build (tcp_example 4000 80 SYN_SENT) SYN zero_char 1 (\<lambda>_. 0))
   in status (fst (snd (tcp_handle (tcp_example 80 4000 LISTEN) s))) = SYN_RCVD \<and>
      tcp_handle (tcp_example 81 4000 LISTEN) s = (1, tcp_example 81 4000 LISTEN, s)"
proof -
  let ?cl = "tcp_example 4000 80 SYN_SENT"
  define s where "s = tcp_node (tcp_build ?cl SYN zero_char 1 (\<lambda>_. 0))"
  have "same_frame (54 + unat (1 :: u16)) (buff s) 0 (tcp_build ?cl SYN zero_char 1 (\<lambda>_. 0)) (eth_tx_addr ?cl)"
    by (simp add: same_frame_def s_def tcp_node_def tcp_example_def)
  then have f: "tcp_get_destination_port (buff s) 0 = 80" "tcp_get_flags (buff s) 0 = SYN"
    using tcp_segment_fields(3,6) [where c = ?cl and len = 1 and m' = "buff s" and p = 0]
    by (simp_all add: tcp_example_def aligned_def)
  have e: "eth_rx_addr (tcp_example sp dp st) = 0" "srcport (tcp_example sp dp st) = sp" "status (tcp_example sp dp st) = st"
    for sp dp st by (simp_all add: tcp_example_def)
  have "status (fst (snd (tcp_handle (tcp_example 80 4000 LISTEN) s))) = SYN_RCVD"
    using tcp_handle_transition [OF refl refl, of "tcp_example 80 4000 LISTEN" s] by (simp add: e f tcp_next_def)
  moreover have "tcp_handle (tcp_example 81 4000 LISTEN) s = (1, tcp_example 81 4000 LISTEN, s)"
    using tcp_handle_transition [OF refl refl, of "tcp_example 81 4000 LISTEN" s] by (simp add: e f)
  ultimately show ?thesis by (simp add: s_def [symmetric])
qed

text \<open>
  C14: the three-way handshake establishes both ends. The client calls \<^verbatim>\<open>tcp_connect\<close>; the first frame
  it puts on its cable, stored in the buffer of a listening server, moves the server to SYN-RECEIVED
  and makes it send a frame; when that one arrives while the client waits, \<^verbatim>\<open>tcp_connect\<close> returns 1
  with the client established and the server's sequence number plus one as acknowledgement, after sending
  one more frame, which establishes the server. No other frame is sent. (The server does not
  take over the client's sequence number, so the acknowledgement it offers is its old one, and
  the client adopts that as its own sequence number.)
\<close>

theorem tcp_handshake:
  assumes al: "aligned (eth_tx_addr cl)" "aligned (eth_tx_addr sv)"
    and ports: "dstport cl = srcport sv" "dstport sv = srcport cl" and listens: "status sv = LISTEN"
    and client: "dev s = cable_env c" "cab_sent c = []" and server: "dev t = cable_env e" "cab_sent e = []"
  shows "\<exists>syn syn_ack ack sv1 t1 cl' s' sv2 t2.
    tcp_connect cl (s\<lparr>dev := cable_env (c\<lparr>cab_in := Some syn_ack\<rparr>)\<rparr>) = Some (1, cl', s') \<and>
    on_cable (dev s') [syn, ack] \<and> status cl' = ESTABLISHED \<and> ackNum cl' = seqNum sv + 1 \<and> seqNum cl' = ackNum sv \<and>
    tcp_handle sv (t\<lparr>buff := put_frame syn (eth_rx_addr sv) (buff t)\<rparr>) = (0, sv1, t1) \<and>
    on_cable (dev t1) [syn_ack] \<and> status sv1 = SYN_RCVD \<and>
    tcp_handle sv1 (t1\<lparr>buff := put_frame ack (eth_rx_addr sv1) (buff t1)\<rparr>) = (1, sv2, t2) \<and>
    on_cable (dev t2) [syn_ack] \<and> status sv2 = ESTABLISHED"
proof -
  define m1 where "m1 = tcp_build cl SYN zero_char 1 (buff s)"
  define syn where "syn = frame_bytes m1 (eth_tx_addr cl) 55"
  define t0 where "t0 = t\<lparr>buff := put_frame syn (eth_rx_addr sv) (buff t)\<rparr>"
  define m2 where "m2 = tcp_build sv (SYN OR ACK) zero_char 0 (buff t0)"
  define syn_ack where "syn_ack = frame_bytes m2 (eth_tx_addr sv) 54"
  define sv1 where "sv1 = sv\<lparr>status := SYN_RCVD\<rparr>"
  define t1 where "t1 = t0\<lparr>buff := m2, dev := cable_env (with_frame syn_ack (eth_tx_addr sv) e)\<rparr>"
  have f1: "tcp_get_destination_port (buff t0) (eth_rx_addr sv) = srcport sv" "tcp_get_flags (buff t0) (eth_rx_addr sv) = SYN"
    using tcp_stored_fields [OF al(1), of 1 "buff t0" SYN zero_char "buff s" "eth_rx_addr sv" "buff t"] ports
    by (simp_all add: t0_def syn_def m1_def)
  have step1: "tcp_handle sv t0 = (0, sv1, t1)"
    using f1 listens tcp_send_cable [of t0 e 0 m2 sv "SYN OR ACK" zero_char] server(1)
    by (simp add: tcp_handle_def t0_def [symmetric] t1_def sv1_def m2_def syn_ack_def) (simp add: t0_def)
  define c0 where "c0 = c\<lparr>cab_in := Some syn_ack\<rparr>"
  define cl0 where "cl0 = cl\<lparr>status := SYN_SENT\<rparr>"
  obtain tm where recv: "eth_mac_receive (eth_rx_addr cl0) 1 (s\<lparr>buff := m1, dev := cable_env (with_frame syn (eth_tx_addr cl) c0)\<rparr>) =
      Some (1, s\<lparr>buff := put_frame syn_ack (eth_rx_addr cl0) m1, dev := cable_env ((with_frame syn (eth_tx_addr cl) c0)
        \<lparr>cab_rx := eth_rx_addr cl0, cab_time := tm, cab_in := None\<rparr>)\<rparr>)"
    using cable_receive [of "s\<lparr>buff := m1, dev := cable_env (with_frame syn (eth_tx_addr cl) c0)\<rparr>"
        "with_frame syn (eth_tx_addr cl) c0" syn_ack "eth_rx_addr cl0"]
    by (auto simp: with_frame_def c0_def)
  define c1 where "c1 = (with_frame syn (eth_tx_addr cl) c0)\<lparr>cab_rx := eth_rx_addr cl0, cab_time := tm, cab_in := None\<rparr>"
  define s1 where "s1 = s\<lparr>buff := put_frame syn_ack (eth_rx_addr cl0) m1, dev := cable_env c1\<rparr>"
  have f2: "mac_packet_type (buff s1) (eth_rx_addr cl0) = TCP" "tcp_get_destination_port (buff s1) (eth_rx_addr cl0) = srcport cl0"
    "tcp_get_flags (buff s1) (eth_rx_addr cl0) = SYN OR ACK" "tcp_get_seqnum (buff s1) (eth_rx_addr cl0) = seqNum sv"
    "tcp_get_acknum (buff s1) (eth_rx_addr cl0) = ackNum sv"
    using tcp_stored_fields [OF al(2), of 0 "buff s1" "SYN OR ACK" zero_char "buff t0" "eth_rx_addr cl0" m1] ports
    by (simp_all add: s1_def syn_ack_def m2_def cl0_def)
  define cl1 where "cl1 = cl0\<lparr>seqNum := ackNum sv, ackNum := seqNum sv + 1\<rparr>"
  define m3 where "m3 = tcp_build cl1 ACK zero_char 0 (buff s1)"
  define ack where "ack = frame_bytes m3 (eth_tx_addr cl1) 54"
  define s' where "s' = s1\<lparr>buff := m3, dev := cable_env (with_frame ack (eth_tx_addr cl1) c1)\<rparr>"
  have "status cl0 = SYN_SENT" "dev s1 = cable_env c1" by (simp_all add: cl0_def s1_def)
  then have "tcp_handle cl0 s1 = (1, cl1\<lparr>status := ESTABLISHED\<rparr>, s')"
    using f2 tcp_send_cable [of s1 c1 0 m3 cl1 ACK zero_char]
    by (simp add: tcp_handle_def cl1_def [symmetric] s'_def m3_def [symmetric] ack_def)
  moreover have "tcp_send cl SYN zero_char 1 (s\<lparr>dev := cable_env c0\<rparr>) =
      (1, s\<lparr>buff := m1, dev := cable_env (with_frame syn (eth_tx_addr cl) c0)\<rparr>)"
    using tcp_send_cable [of "s\<lparr>dev := cable_env c0\<rparr>" c0 1 m1 cl SYN zero_char] by (simp add: m1_def syn_def)
  ultimately have connect: "tcp_connect cl (s\<lparr>dev := cable_env c0\<rparr>) = Some (1, cl1\<lparr>status := ESTABLISHED\<rparr>, s')"
    using recv f2(1) by (simp add: tcp_connect_def tcp_receive_handle_def cl0_def [symmetric] c1_def [symmetric] s1_def [symmetric])
  define t2 where "t2 = t1\<lparr>buff := put_frame ack (eth_rx_addr sv1) (buff t1)\<rparr>"
  have "aligned (eth_tx_addr cl1)" using al(1) by (simp add: cl1_def cl0_def)
  from tcp_stored_fields [OF this, of 0 "buff t2" ACK zero_char "buff s1" "eth_rx_addr sv1" "buff t1"]
  have f3: "tcp_get_destination_port (buff t2) (eth_rx_addr sv1) = srcport sv1" "tcp_get_flags (buff t2) (eth_rx_addr sv1) = ACK"
    using ports by (simp_all add: t2_def ack_def m3_def cl1_def cl0_def sv1_def)
  then have step3: "tcp_handle sv1 t2 = (1, sv1\<lparr>status := ESTABLISHED\<rparr>, t2)"
    by (simp add: tcp_handle_def) (simp add: sv1_def)
  have sent: "on_cable (dev s') [syn, ack]" "on_cable (dev t1) [syn_ack]" "on_cable (dev t2) [syn_ack]"
    using client server by (simp_all add: s'_def t1_def t2_def c1_def c0_def with_frame_def)
  have st: "status (cl1\<lparr>status := ESTABLISHED\<rparr>) = ESTABLISHED" "ackNum (cl1\<lparr>status := ESTABLISHED\<rparr>) = seqNum sv + 1"
    "seqNum (cl1\<lparr>status := ESTABLISHED\<rparr>) = ackNum sv" "status sv1 = SYN_RCVD" "status (sv1\<lparr>status := ESTABLISHED\<rparr>) = ESTABLISHED"
    by (simp_all add: cl1_def sv1_def)
  show ?thesis
    by (intro exI conjI) (fact connect [unfolded c0_def] sent st step1 [unfolded t0_def] step3 [unfolded t2_def] sent [unfolded t2_def])+
qed

lemma tcp_handshake_witness:
  "let s = \<lparr>buff = \<lambda>_. 0, buff1 = \<lambda>_. 0, dev = cable_env quiet_cable\<rparr>
   in \<exists>syn_ack cl' s'. tcp_connect (tcp_example 4000 80 CLOSED) (s\<lparr>dev := cable_env (quiet_cable\<lparr>cab_in := Some syn_ack\<rparr>)\<rparr>) =
     Some (1, cl', s') \<and> status cl' = ESTABLISHED \<and> ackNum cl' = 0x12345679"
proof -
  let ?s = "\<lparr>buff = \<lambda>_. 0, buff1 = \<lambda>_. 0, dev = cable_env quiet_cable\<rparr> :: eth_state"
  have "aligned (eth_tx_addr (tcp_example sp dp st))" for sp dp st by (simp add: tcp_example_def aligned_def)
  with tcp_handshake [of "tcp_example 4000 80 CLOSED" "tcp_example 80 4000 LISTEN" ?s quiet_cable ?s quiet_cable]
  show ?thesis by (simp add: tcp_example_def quiet_cable_def) blast
qed

text \<open>
  The calls of the user. Each call makes its own transition (and at most one more, from a
  segment received while it waits), keeps addresses, ports and buffers, and cannot establish a
  connection unless a segment with the ACK flag was received.
\<close>

theorem tcp_calls_transitions:
  assumes "call = Connect \<and> tcp_connect c s = Some (r, c', s') \<or>
           call = Listen \<and> tcp_listen c s = Some (r, c', s') \<or>
           call = Close \<and> tcp_close c s = Some (r, c', s')"
  shows "tcp_fixed c' = tcp_fixed c \<and>
    (\<exists>es. at_most_one_segment es \<and>
       (tcp_trace (status c) (call # es) (status c') \<or>
        call = Close \<and> status c \<in> {FIN_WAIT_1, FIN_WAIT_2, CLOSING, LAST_ACK} \<and> tcp_trace (status c) es (status c')) \<and>
       (status c' = ESTABLISHED \<longrightarrow> (\<exists>f. es = [Received f] \<and> f AND ACK = ACK)))"
proof -
  have wait: "tcp_fixed c' = tcp_fixed u \<and> (\<exists>es. at_most_one_segment es \<and> tcp_trace (status u) es (status c') \<and>
      (status c' = ESTABLISHED \<longrightarrow> (\<exists>f. es = [Received f] \<and> f AND ACK = ACK)))"
    if recv: "tcp_receive_handle u t = Some (r, c', s')" and ne: "status u \<noteq> ESTABLISHED" for u and t :: "'a eth_state_scheme"
  proof -
    obtain es where es: "at_most_one_segment es" "tcp_trace (status u) es (status c')"
      using tcp_receive_handle_trace(1) [OF recv] by blast
    moreover have "\<exists>f. es = [Received f] \<and> f AND ACK = ACK" if established: "status c' = ESTABLISHED"
    proof -
      obtain f where "Received f \<in> set es" "f AND ACK = ACK"
        using tcp_trace_established [OF es(2) ne established] by blast
      with es(1) show ?thesis by (auto simp: at_most_one_segment_def)
    qed
    ultimately show ?thesis using tcp_receive_handle_trace(2) [OF recv] by blast
  qed
  have after: ?thesis
    if "tcp_receive_handle (c\<lparr>status := st\<rparr>) t = Some (r, c', s')" "st \<noteq> ESTABLISHED" "tcp_trans (status c) call st"
    for st and t :: "'a eth_state_scheme"
    using wait [OF that(1)] that(2,3) by (auto simp: tcp_fixed_status tcp_trace_simps)
  note sent = tcp_send_returns
  from assms consider
      (connect) "call = Connect" "tcp_connect c s = Some (r, c', s')"
    | (listen) "call = Listen" "tcp_listen c s = Some (r, c', s')"
    | (close) "call = Close" "tcp_close c s = Some (r, c', s')" by blast
  then show ?thesis
  proof cases
    case connect
    then show ?thesis
      by (intro after [of SYN_SENT "snd (tcp_send c SYN zero_char 1 s)"])
        (auto simp: tcp_connect_def split_beta sent intro: tcp_trans.connect)
  next
    case listen
    then show ?thesis
      by (intro after [of LISTEN "snd (tcp_send c SYN zero_char 1 s)"])
        (auto simp: tcp_listen_def split_beta sent intro: tcp_trans.listen)
  next
    case close
    consider (open_st) "status c \<in> {SYN_RCVD, ESTABLISHED}" | (wait_st) "status c = CLOSE_WAIT"
      | (closing_st) "status c \<in> {FIN_WAIT_1, FIN_WAIT_2, CLOSING, LAST_ACK}"
      | (idle_st) "status c \<in> {TIME_WAIT, CLOSED, LISTEN, SYN_SENT}"
      by (cases "status c") auto
    then show ?thesis
    proof cases
      case open_st
      with close show ?thesis
        by (intro after [of FIN_WAIT_1 "snd (tcp_send c FIN zero_char 0 s)"])
          (auto simp: tcp_close_def split_beta intro: tcp_trans.close_open)
    next
      case wait_st
      with close show ?thesis
        by (intro after [of LAST_ACK "snd (tcp_send c FIN zero_char 0 s)"])
          (auto simp: tcp_close_def split_beta intro: tcp_trans.close_wait)
    next
      case closing_st
      with close have "tcp_receive_handle c s = Some (r, c', s')" by (auto simp: tcp_close_def)
      moreover have "status c \<noteq> ESTABLISHED" using closing_st by auto
      ultimately show ?thesis using wait closing_st close(1) by blast
    next
      case idle_st
      with close have "c' = c\<lparr>status := CLOSED\<rparr>" by (auto simp: tcp_close_def)
      with idle_st close(1) show ?thesis
        by (intro conjI exI [of _ "[]"])
          (auto simp: tcp_fixed_status at_most_one_segment_def tcp_trace_simps intro: tcp_trans.close_idle)
    qed
  qed
qed

lemma tcp_calls_transitions_witness:
  "\<exists>es. at_most_one_segment es \<and> tcp_trace TIME_WAIT (Close # es) CLOSED"
proof -
  have "tcp_close (tcp_example 80 4000 TIME_WAIT) (tcp_node (\<lambda>_. 0)) =
      Some (1, (tcp_example 80 4000 TIME_WAIT)\<lparr>status := CLOSED\<rparr>, tcp_node (\<lambda>_. 0))"
    by (simp add: tcp_close_def tcp_example_def)
  with tcp_calls_transitions [of Close "tcp_example 80 4000 TIME_WAIT" "tcp_node (\<lambda>_. 0)"] show ?thesis
    by (auto simp: tcp_example_def)
qed

end
