(* ===== verification/Accelerator_HW.thy ===== *)
theory Accelerator_HW
  imports C_Prelude
begin

text \<open>
  The neural network accelerator (\<^verbatim>\<open>hardware/src/main/scala/io/Accelerator.scala\<close> and its memory
  \<^verbatim>\<open>hardware/src/main/scala/util/MemorySInt.scala\<close>): one clock cycle of the state machine, the
  synchronous memory, and what a run of the machine computes. The lemmas go from one
  multiply-accumulate step over a node and a layer to a whole inference.

  A memory port that no statement of the current cycle assigns is a value outside the code:
  the cycle takes the values of the undriven ports as a parameter, and the results about whole
  runs assume only that an undriven write enable is low.
\<close>

section \<open>Data\<close>

datatype accel_state =
  noNN | loadNN | idle | infLoad | nextNode | loadpx | mac0 | addb0 | writeNode | nextOutput
| loadNode | mac1 | addb1 | writeRes | clearMem | clearOut

text \<open>The value of the state register that a status read returns: the position in the enumeration.\<close>

definition state_code :: "accel_state \<Rightarrow> u32" where
  "state_code st = (case st of noNN \<Rightarrow> 0 | loadNN \<Rightarrow> 1 | idle \<Rightarrow> 2 | infLoad \<Rightarrow> 3 | nextNode \<Rightarrow> 4
     | loadpx \<Rightarrow> 5 | mac0 \<Rightarrow> 6 | addb0 \<Rightarrow> 7 | writeNode \<Rightarrow> 8 | nextOutput \<Rightarrow> 9 | loadNode \<Rightarrow> 10
     | mac1 \<Rightarrow> 11 | addb1 \<Rightarrow> 12 | writeRes \<Rightarrow> 13 | clearMem \<Rightarrow> 14 | clearOut \<Rightarrow> 15)"

type_synonym maddr = "18 word"

datatype ocp_cmd = NoCmd | WR | RD

record ocp_master =
  Cmd :: ocp_cmd
  Addr :: u32
  Data :: u32

record mem_ports =
  rdAddr :: maddr
  wrEna :: bool
  wrAddr :: maddr
  wrData :: u32

record accelerator =
  readAddrP :: maddr
  readAddrW :: maddr
  readAddrB :: maddr
  writeAddr :: maddr
  nodeIdx :: maddr
  outputIdx :: maddr
  layer2 :: "u32 list"
  pReg :: u32
  wReg :: u32
  bReg :: u32
  outputReg :: u32
  nReg :: u32
  memoryAddress :: maddr
  stateReg :: accel_state
  mem :: "maddr \<Rightarrow> u32"
  rdData :: u32

definition accel_init :: "(maddr \<Rightarrow> u32) \<Rightarrow> u32 list \<Rightarrow> u32 \<Rightarrow> accelerator" where
  "accel_init m l2 r = \<lparr>readAddrP = 0, readAddrW = 0, readAddrB = 0, writeAddr = 0, nodeIdx = 0,
     outputIdx = 0, layer2 = l2, pReg = 0, wReg = 0, bReg = 0, outputReg = 10, nReg = 0,
     memoryAddress = 783, stateReg = noNN, mem = m, rdData = r\<rparr>"

abbreviation (input) "imgAddrZero \<equiv> 0 :: maddr"
abbreviation (input) "weightAddrZero \<equiv> 784 :: maddr"
abbreviation (input) "biasAddrZero \<equiv> 80184 :: maddr"
abbreviation (input) "nodeAddrZero \<equiv> 80293 :: maddr"

section \<open>The memory\<close>

text \<open>The read is registered; a write takes effect with the next cycle.\<close>

definition mem_cycle :: "mem_ports \<Rightarrow> accelerator \<Rightarrow> accelerator" where
  "mem_cycle p s = s\<lparr>rdData := mem s (rdAddr p),
     mem := (if wrEna p then (mem s)(wrAddr p := wrData p) else mem s)\<rparr>"

section \<open>The result register\<close>

text \<open>The comparators of state \<^verbatim>\<open>writeRes\<close>: signed, and the left operand wins a tie.\<close>

definition pick :: "u32 \<times> u32 \<Rightarrow> u32 \<times> u32 \<Rightarrow> u32 \<times> u32" where
  "pick x y = (if snd y \<le>s snd x then x else y)"

definition max_index :: "u32 list \<Rightarrow> u32" where
  "max_index l =
     (let m01 = pick (0, l ! 0) (1, l ! 1);
          m23 = pick (2, l ! 2) (3, l ! 3);
          m45 = pick (4, l ! 4) (5, l ! 5);
          m67 = pick (6, l ! 6) (7, l ! 7);
          m89 = pick (8, l ! 8) (9, l ! 9);
          m0123 = pick m01 m23;
          m4567 = pick m45 m67;
          m127 = pick m0123 m4567
      in fst (pick m127 m89))"

section \<open>The state machine\<close>

text \<open>
  One cycle of the state machine, for the master command \<open>m\<close> in \<^verbatim>\<open>masterReg\<close>: the registers and
  the memory ports that it assigns, and whether it responds to a write.
\<close>

definition accel_fsm ::
  "ocp_master \<Rightarrow> accelerator \<Rightarrow> mem_ports \<Rightarrow> accelerator \<times> mem_ports \<times> bool" where
  "accel_fsm m s p = (case stateReg s of
     noNN \<Rightarrow>
       if Cmd m = WR
       then (if Data m = 0 then s\<lparr>stateReg := loadNN, writeAddr := weightAddrZero\<rparr> else s, p, True)
       else (s, p, False)
   | loadNN \<Rightarrow>
       if Cmd m = WR
       then (s\<lparr>stateReg := (if writeAddr s = nodeAddrZero then idle else loadNN), writeAddr := writeAddr s + 1\<rparr>,
             p\<lparr>wrEna := True, wrAddr := writeAddr s, wrData := Data m\<rparr>, True)
       else (s, p, False)
   | idle \<Rightarrow>
       if Cmd m = WR
       then (if \<not> bit (Data m) 0 then s\<lparr>stateReg := loadNN, writeAddr := weightAddrZero\<rparr>
             else s\<lparr>stateReg := infLoad, writeAddr := imgAddrZero\<rparr>,
             p\<lparr>wrEna := False\<rparr>, True)
       else (s, p, False)
   | infLoad \<Rightarrow>
       if Cmd m = WR
       then let p = p\<lparr>wrEna := True, wrAddr := writeAddr s, wrData := Data m\<rparr>;
                (s', p) = (if writeAddr s = weightAddrZero - 1
                           then (s\<lparr>readAddrP := imgAddrZero, readAddrW := weightAddrZero,
                                   readAddrB := biasAddrZero, stateReg := nextNode\<rparr>, p\<lparr>rdAddr := imgAddrZero\<rparr>)
                           else (s, p))
            in (s'\<lparr>writeAddr := writeAddr s + 1\<rparr>, p, True)
       else (s, p, False)
   | nextNode \<Rightarrow>
       (s\<lparr>readAddrP := 0, readAddrW := weightAddrZero + nodeIdx s, readAddrB := biasAddrZero + nodeIdx s,
          nReg := 0, stateReg := loadpx\<rparr>,
        p\<lparr>rdAddr := 0, wrEna := False\<rparr>, False)
   | loadpx \<Rightarrow>
       (s\<lparr>pReg := rdData s, readAddrP := readAddrP s + 1, readAddrW := readAddrW s + 100, stateReg := mac0\<rparr>,
        p\<lparr>rdAddr := readAddrW s\<rparr>, False)
   | mac0 \<Rightarrow>
       if readAddrP s \<le> weightAddrZero
       then (s\<lparr>nReg := nReg s + pReg s * rdData s, stateReg := loadpx\<rparr>, p\<lparr>rdAddr := readAddrP s\<rparr>, False)
       else (s\<lparr>stateReg := addb0\<rparr>, p\<lparr>rdAddr := readAddrB s\<rparr>, False)
   | addb0 \<Rightarrow>
       let relu = nReg s + rdData s
       in (s\<lparr>nReg := (if 0 <s relu then relu else 0), stateReg := writeNode\<rparr>, p, False)
   | writeNode \<Rightarrow>
       (if nodeIdx s < 100 then s\<lparr>nodeIdx := nodeIdx s + 1, stateReg := nextNode\<rparr>
        else s\<lparr>outputIdx := 0, stateReg := nextOutput\<rparr>,
        p\<lparr>wrEna := True, wrAddr := nodeAddrZero + nodeIdx s, wrData := nReg s\<rparr>, False)
   | nextOutput \<Rightarrow>
       (s\<lparr>nodeIdx := 0, readAddrW := biasAddrZero - 1000 + outputIdx s,
          readAddrB := biasAddrZero + 100 + outputIdx s, nReg := 0, stateReg := loadNode\<rparr>,
        p\<lparr>rdAddr := nodeAddrZero, wrEna := False\<rparr>, False)
   | loadNode \<Rightarrow>
       (s\<lparr>pReg := rdData s, readAddrW := readAddrW s + 10, nodeIdx := nodeIdx s + 1, stateReg := mac1\<rparr>,
        p\<lparr>rdAddr := readAddrW s\<rparr>, False)
   | mac1 \<Rightarrow>
       (let s' = s\<lparr>nReg := nReg s + pReg s * rdData s\<rparr>
        in if nodeIdx s < 100
           then (s'\<lparr>stateReg := loadNode\<rparr>, p\<lparr>rdAddr := nodeAddrZero + nodeIdx s\<rparr>, False)
           else (s'\<lparr>stateReg := addb1\<rparr>, p\<lparr>rdAddr := readAddrB s\<rparr>, False))
   | addb1 \<Rightarrow>
       (let s' = s\<lparr>layer2 := (layer2 s)[unat (outputIdx s) := nReg s + rdData s]\<rparr>
        in (if outputIdx s < 9 then s'\<lparr>outputIdx := outputIdx s + 1, stateReg := nextOutput\<rparr>
            else s'\<lparr>stateReg := writeRes\<rparr>, p, False))
   | writeRes \<Rightarrow>
       (s\<lparr>outputReg := max_index (layer2 s), nodeIdx := 0, stateReg := clearMem\<rparr>, p, False)
   | clearMem \<Rightarrow>
       (if nodeIdx s < 99 then s\<lparr>nodeIdx := nodeIdx s + 1, stateReg := clearMem\<rparr>
        else s\<lparr>stateReg := clearOut\<rparr>,
        p\<lparr>wrEna := True, wrAddr := nodeAddrZero + nodeIdx s, wrData := 0\<rparr>, False)
   | clearOut \<Rightarrow>
       (s\<lparr>outputIdx := 0, nodeIdx := 0, layer2 := replicate 10 0, stateReg := idle\<rparr>, p, False))"

text \<open>
  One cycle of the whole device. A write to address 0x10 only sets the address of the debug
  read; a read answers with the status, the result or the last memory output, and the debug read
  takes over the read port.
\<close>

definition accel_cycle ::
  "mem_ports \<Rightarrow> ocp_master \<Rightarrow> accelerator \<Rightarrow> accelerator \<times> (bool \<times> u32)" where
  "accel_cycle undriven m s =
     (let (s', p, resp) =
            (if Cmd m = WR \<and> Addr m AND 0x1F = 0x10
             then (s\<lparr>memoryAddress := ucast (Data m)\<rparr>, undriven, True)
             else accel_fsm m s undriven);
          (p, resp, data) =
            (if Cmd m = RD
             then if Addr m AND 0x1F = 0x4 then (p, True, state_code (stateReg s))
                  else if Addr m AND 0x1F = 0xC then (p\<lparr>rdAddr := memoryAddress s\<rparr>, True, rdData s)
                  else if Addr m AND 0x1F = 0x8 then (p, True, outputReg s)
                  else (p, True, 15)
             else (p, resp, 15))
      in (mem_cycle p s', (resp, data)))"

text \<open>With the input register: the command that arrives now is served in the next cycle.\<close>

definition accel_clock ::
  "mem_ports \<Rightarrow> ocp_master \<Rightarrow> ocp_master \<times> accelerator \<Rightarrow> (ocp_master \<times> accelerator) \<times> (bool \<times> u32)" where
  "accel_clock undriven M ms =
     (let (s, out) = accel_cycle undriven (fst ms) (snd ms) in ((M, s), out))"

section \<open>Runs\<close>

text \<open>
  Undriven write enables are low, and the processor neither moves the debug address nor makes
  a debug read: status and result may be polled.
\<close>

definition quiet :: "mem_ports \<Rightarrow> bool" where
  "quiet p \<longleftrightarrow> \<not> wrEna p"

definition calm :: "ocp_master \<Rightarrow> bool" where
  "calm m \<longleftrightarrow> \<not> (Cmd m = WR \<and> Addr m AND 0x1F = 0x10) \<and> \<not> (Cmd m = RD \<and> Addr m AND 0x1F = 0xC)"

inductive accel_run :: "nat \<Rightarrow> accelerator \<Rightarrow> accelerator \<Rightarrow> bool" where
  stay: "accel_run 0 s s"
| tick: "quiet p \<Longrightarrow> calm m \<Longrightarrow> accel_run n (fst (accel_cycle p m s)) t \<Longrightarrow> accel_run (Suc n) s t"

inductive_simps accel_run_0: "accel_run 0 s t"
inductive_cases accel_run_SucE: "accel_run (Suc n) s t"

lemma accel_run_add: "accel_run (m + n) s t \<Longrightarrow> \<exists>u. accel_run m s u \<and> accel_run n u t"
proof (induction m arbitrary: s)
  case 0
  then show ?case by (auto intro: accel_run.stay)
next
  case (Suc m)
  from Suc.prems obtain p c where c: "quiet p" "calm c" "accel_run (m + n) (fst (accel_cycle p c s)) t"
    by (auto elim!: accel_run_SucE)
  with Suc.IH show ?case by (meson accel_run.tick)
qed

lemma accel_run_Suc:
  assumes "accel_run (Suc n) s t"
  obtains p m where "quiet p" "calm m" "accel_run n (fst (accel_cycle p m s)) t"
  using assms by (rule accel_run_SucE) auto

text \<open>Some run of every length exists: the device is never stuck.\<close>

definition no_ports :: mem_ports where
  "no_ports = \<lparr>rdAddr = 0, wrEna = False, wrAddr = 0, wrData = 0\<rparr>"

definition no_command :: ocp_master where
  "no_command = \<lparr>Cmd = NoCmd, Addr = 0, Data = 0\<rparr>"

lemma accel_run_exists: "\<exists>t. accel_run n s t"
proof (induction n arbitrary: s)
  case 0
  then show ?case by (auto intro: accel_run.stay)
next
  case (Suc n)
  have "quiet no_ports" "calm no_command"
    by (simp_all add: quiet_def no_ports_def calm_def no_command_def)
  with Suc show ?case by (blast intro: accel_run.tick)
qed

text \<open>A calm cycle is one of the state machine and the memory.\<close>

lemma accel_cycle_calm:
  "calm m \<Longrightarrow> fst (accel_cycle p m s) =
     mem_cycle (fst (snd (accel_fsm m s p))) (fst (accel_fsm m s p))"
  by (auto simp: accel_cycle_def calm_def Let_def split_beta)

section \<open>One node of the hidden layer\<close>

abbreviation word_at :: "(maddr \<Rightarrow> u32) \<Rightarrow> nat \<Rightarrow> u32" where
  "word_at M a \<equiv> M (of_nat a)"

text \<open>What all inference states share: the state, the memory, the outputs and the result so far.\<close>

definition acc_at ::
  "accel_state \<Rightarrow> (maddr \<Rightarrow> u32) \<Rightarrow> u32 list \<Rightarrow> u32 \<Rightarrow> accelerator \<Rightarrow> bool" where
  "acc_at st M l2 out s \<longleftrightarrow> stateReg s = st \<and> mem s = M \<and> layer2 s = l2 \<and> outputReg s = out"

definition node_px ::
  "(maddr \<Rightarrow> u32) \<Rightarrow> u32 list \<Rightarrow> u32 \<Rightarrow> nat \<Rightarrow> nat \<Rightarrow> u32 \<Rightarrow> accelerator \<Rightarrow> bool" where
  "node_px M l2 out n k acc s \<longleftrightarrow> acc_at loadpx M l2 out s \<and> nodeIdx s = of_nat n \<and>
     readAddrP s = of_nat k \<and> readAddrW s = of_nat (784 + n + 100 * k) \<and>
     readAddrB s = of_nat (80184 + n) \<and> nReg s = acc \<and> rdData s = word_at M k"

lemma maddr_le: "k < 262144 \<Longrightarrow> (of_nat k :: maddr) \<le> numeral j \<longleftrightarrow> k \<le> unat (numeral j :: maddr)"
  by (simp add: word_le_nat_alt unat_of_nat_word)

lemma maddr_less: "k < 262144 \<Longrightarrow> (of_nat k :: maddr) < numeral j \<longleftrightarrow> k < unat (numeral j :: maddr)"
  by (simp add: word_less_nat_alt unat_of_nat_word)

text \<open>One pixel: fetch it, fetch its weight, multiply and accumulate.\<close>

lemma node_px_step:
  assumes "node_px M l2 out n k acc s" and "k < 784" and "accel_run 2 s t"
  shows "node_px M l2 out n (Suc k) (acc + word_at M k * word_at M (784 + n + 100 * k)) t"
proof -
  obtain p1 m1 p2 m2 where q: "quiet p1" "quiet p2" "calm m1" "calm m2"
    and t: "t = fst (accel_cycle p2 m2 (fst (accel_cycle p1 m1 s)))"
    using assms(3) by (auto simp: numeral_2_eq_2 accel_run_0 elim!: accel_run_SucE)
  have "(of_nat (Suc k) :: maddr) \<le> 784"
    using assms(2) maddr_le [of "Suc k"] by simp
  with assms(1) q show ?thesis
    unfolding t
    by (simp add: accel_cycle_calm node_px_def acc_at_def accel_fsm_def mem_cycle_def quiet_def add_ac)
qed

lemma node_px_steps:
  assumes "node_px M l2 out n 0 0 s" and "k \<le> 784" and "accel_run (2 * k) s t"
  shows "node_px M l2 out n k (\<Sum>i<k. word_at M i * word_at M (784 + n + 100 * i)) t"
  using assms(2,3)
proof (induction k arbitrary: t)
  case 0
  then show ?case using assms(1) by (simp add: accel_run_0)
next
  case (Suc k)
  then obtain u where "accel_run (2 * k) s u" "accel_run 2 u t"
    using accel_run_add [of "2 * k" 2 s t] by (auto simp: add.commute)
  with Suc show ?case using node_px_step [of M l2 out n k _ u t] by simp
qed

text \<open>A whole node, from \<^verbatim>\<open>nextNode\<close> to the write of its value: 1573 cycles.\<close>

definition relu :: "u32 \<Rightarrow> u32" where
  "relu x = (if 0 <s x then x else 0)"

definition hw_node :: "(maddr \<Rightarrow> u32) \<Rightarrow> nat \<Rightarrow> u32" where
  "hw_node M n = relu ((\<Sum>i<784. word_at M i * word_at M (784 + n + 100 * i)) + word_at M (80184 + n))"

lemma accel_run_two:
  assumes "accel_run 2 s t"
  obtains p m q c where "quiet p" "calm m" "quiet q" "calm c"
    "t = fst (accel_cycle q c (fst (accel_cycle p m s)))"
  using assms by (auto simp: numeral_2_eq_2 accel_run_0 elim!: accel_run_Suc)

text \<open>After the last pixel one more word is fetched and dropped, then the bias is fetched.\<close>

lemma node_px_last:
  assumes "node_px M l2 out n 784 acc s" and "accel_run 2 s t"
  shows "acc_at addb0 M l2 out t \<and> nodeIdx t = of_nat n \<and> nReg t = acc \<and> rdData t = word_at M (80184 + n)"
proof -
  obtain p m q c where q: "quiet p" "calm m" "quiet q" "calm c"
    and t: "t = fst (accel_cycle q c (fst (accel_cycle p m s)))"
    using assms(2) by (rule accel_run_two)
  from assms(1) q show ?thesis
    unfolding t
    by (simp add: accel_cycle_calm node_px_def acc_at_def accel_fsm_def mem_cycle_def quiet_def)
qed

lemma node_write:
  assumes "acc_at addb0 M l2 out s" and "nodeIdx s = of_nat n" and "nReg s = acc" and "rdData s = b"
    and "n \<le> 100" and "accel_run 2 s t"
  shows "acc_at (if n < 100 then nextNode else nextOutput) (M(of_nat (80293 + n) := relu (acc + b))) l2 out t \<and>
    nodeIdx t = (if n < 100 then of_nat (Suc n) else of_nat n) \<and> (n = 100 \<longrightarrow> outputIdx t = 0)"
proof -
  obtain p m q c where q: "quiet p" "calm m" "quiet q" "calm c"
    and t: "t = fst (accel_cycle q c (fst (accel_cycle p m s)))"
    using assms(6) by (rule accel_run_two)
  have "(of_nat n :: maddr) < 100 \<longleftrightarrow> n < 100"
    using assms(5) maddr_less [of n] by simp
  with assms q show ?thesis
    unfolding t
    by (simp add: accel_cycle_calm acc_at_def accel_fsm_def mem_cycle_def quiet_def Let_def relu_def)
qed

lemma node_run:
  assumes "acc_at nextNode M l2 out s" and "nodeIdx s = of_nat n" and "n \<le> 100" and "accel_run 1573 s t"
  shows "acc_at (if n < 100 then nextNode else nextOutput) (M(of_nat (80293 + n) := hw_node M n)) l2 out t \<and>
    nodeIdx t = (if n < 100 then of_nat (Suc n) else of_nat n) \<and> (n = 100 \<longrightarrow> outputIdx t = 0)"
proof -
  have "accel_run (Suc 0 + (2 * 784 + (2 + 2))) s t" using assms(4) by simp
  then obtain u v w where u: "accel_run (Suc 0) s u" and v: "accel_run (2 * 784) u v"
    and w: "accel_run 2 v w" and t: "accel_run 2 w t"
    by (blast dest: accel_run_add)
  have start: "node_px M l2 out n 0 0 u"
    using u assms(1,2)
    by (auto simp: accel_run_0 accel_cycle_calm node_px_def acc_at_def accel_fsm_def mem_cycle_def quiet_def
        elim!: accel_run_Suc)
  have "node_px M l2 out n 784 (\<Sum>i<784. word_at M i * word_at M (784 + n + 100 * i)) v"
    by (rule node_px_steps [OF start _ v]) simp
  from node_px_last [OF this w] have bias: "acc_at addb0 M l2 out w" "nodeIdx w = of_nat n"
    "nReg w = (\<Sum>i<784. word_at M i * word_at M (784 + n + 100 * i))" "rdData w = word_at M (80184 + n)"
    by blast+
  show ?thesis
    unfolding hw_node_def by (rule node_write [OF bias assms(3) t])
qed

section \<open>The hidden layer\<close>

text \<open>The memory after the first \<open>n\<close> nodes were written.\<close>

primrec hw_hidden :: "(maddr \<Rightarrow> u32) \<Rightarrow> nat \<Rightarrow> maddr \<Rightarrow> u32" where
  "hw_hidden M 0 = M"
| "hw_hidden M (Suc n) = (hw_hidden M n)(of_nat (80293 + n) := hw_node M n)"

lemma maddr_eq: "a < 262144 \<Longrightarrow> b < 262144 \<Longrightarrow> (of_nat a :: maddr) = of_nat b \<longleftrightarrow> a = b"
  by (rule of_nat_word_eq) simp_all

lemma word_at_update:
  "a < 262144 \<Longrightarrow> b < 262144 \<Longrightarrow> word_at (M(of_nat a := v)) b = (if a = b then v else word_at M b)"
  using maddr_eq [of a b] by auto

lemma word_at_hidden:
  "n \<le> 101 \<Longrightarrow> a < 262144 \<Longrightarrow>
     word_at (hw_hidden M n) a = (if 80293 \<le> a \<and> a < 80293 + n then hw_node M (a - 80293) else word_at M a)"
  by (induction n) (auto simp: word_at_update simp del: of_nat_add of_nat_numeral fun_upd_apply)

lemma hw_node_hidden: "j \<le> 101 \<Longrightarrow> n \<le> 100 \<Longrightarrow> hw_node (hw_hidden M j) n = hw_node M n"
proof -
  assume "j \<le> 101" "n \<le> 100"
  then have "(\<Sum>i<784. word_at (hw_hidden M j) i * word_at (hw_hidden M j) (784 + n + 100 * i)) =
      (\<Sum>i<784. word_at M i * word_at M (784 + n + 100 * i))"
    by (intro sum.cong refl) (simp add: word_at_hidden del: of_nat_add of_nat_mult of_nat_numeral)
  moreover have "word_at (hw_hidden M j) (80184 + n) = word_at M (80184 + n)"
    using \<open>j \<le> 101\<close> \<open>n \<le> 100\<close> by (simp add: word_at_hidden del: of_nat_add of_nat_numeral)
  ultimately show ?thesis by (simp only: hw_node_def)
qed

lemma nodes_run:
  assumes "acc_at nextNode M l2 out s" and "nodeIdx s = 0"
  shows "n \<le> 100 \<Longrightarrow> accel_run (1573 * n) s t \<Longrightarrow>
    acc_at nextNode (hw_hidden M n) l2 out t \<and> nodeIdx t = of_nat n"
proof (induction n arbitrary: t)
  case 0
  then show ?case using assms by (simp add: accel_run_0)
next
  case (Suc n)
  then obtain u where u: "accel_run (1573 * n) s u" and t: "accel_run 1573 u t"
    using accel_run_add [of "1573 * n" 1573 s t] by (auto simp: add.commute)
  from Suc.IH [OF _ u] Suc.prems have "acc_at nextNode (hw_hidden M n) l2 out u" "nodeIdx u = of_nat n" by simp_all
  from node_run [OF this _ t] Suc.prems show ?case by (simp add: hw_node_hidden fun_upd_def del: of_nat_Suc)
qed

lemma hidden_run:
  assumes "acc_at nextNode M l2 out s" and "nodeIdx s = 0" and "accel_run (1573 * 101) s t"
  shows "acc_at nextOutput (hw_hidden M 101) l2 out t \<and> outputIdx t = 0"
proof -
  obtain u where u: "accel_run (1573 * 100) s u" and t: "accel_run 1573 u t"
    using accel_run_add [of "1573 * 100" 1573 s t] assms(3) by auto
  have "acc_at nextNode (hw_hidden M 100) l2 out u" "nodeIdx u = of_nat 100"
    using nodes_run [OF assms(1,2) _ u] by simp_all
  from node_run [OF this _ t]
  have "acc_at nextOutput ((hw_hidden M 100)(of_nat (80293 + 100) := hw_node M 100)) l2 out t \<and> outputIdx t = 0"
    by (simp add: hw_node_hidden)
  moreover have "hw_hidden M 101 = (hw_hidden M 100)(of_nat (80293 + 100) := hw_node M 100)"
    using hw_hidden.simps(2) [of M 100] by simp
  ultimately show ?thesis by simp
qed

section \<open>The output layer\<close>

definition out_nd ::
  "(maddr \<Rightarrow> u32) \<Rightarrow> u32 list \<Rightarrow> u32 \<Rightarrow> nat \<Rightarrow> nat \<Rightarrow> u32 \<Rightarrow> accelerator \<Rightarrow> bool" where
  "out_nd N l2 out j k acc s \<longleftrightarrow> acc_at loadNode N l2 out s \<and> outputIdx s = of_nat j \<and> nodeIdx s = of_nat k \<and>
     readAddrW s = of_nat (79184 + j + 10 * k) \<and> readAddrB s = of_nat (80284 + j) \<and> nReg s = acc \<and>
     rdData s = word_at N (80293 + k)"

definition hw_output :: "(maddr \<Rightarrow> u32) \<Rightarrow> nat \<Rightarrow> u32" where
  "hw_output N j = (\<Sum>k<100. word_at N (80293 + k) * word_at N (79184 + j + 10 * k)) + word_at N (80284 + j)"

lemma out_nd_step:
  assumes "out_nd N l2 out j k acc s" and "Suc k < 100" and "accel_run 2 s t"
  shows "out_nd N l2 out j (Suc k) (acc + word_at N (80293 + k) * word_at N (79184 + j + 10 * k)) t"
proof -
  obtain p m q c where q: "quiet p" "calm m" "quiet q" "calm c"
    and t: "t = fst (accel_cycle q c (fst (accel_cycle p m s)))"
    using assms(3) by (rule accel_run_two)
  have "(of_nat (Suc k) :: maddr) < 100" using assms(2) maddr_less [of "Suc k"] by simp
  with assms(1) q show ?thesis
    unfolding t
    by (simp add: accel_cycle_calm out_nd_def acc_at_def accel_fsm_def mem_cycle_def quiet_def Let_def add_ac)
qed

lemma out_nd_last:
  assumes "out_nd N l2 out j 99 acc s" and "accel_run 2 s t"
  shows "acc_at addb1 N l2 out t \<and> outputIdx t = of_nat j \<and>
    nReg t = acc + word_at N (80293 + 99) * word_at N (79184 + j + 10 * 99) \<and> rdData t = word_at N (80284 + j)"
proof -
  obtain p m q c where q: "quiet p" "calm m" "quiet q" "calm c"
    and t: "t = fst (accel_cycle q c (fst (accel_cycle p m s)))"
    using assms(2) by (rule accel_run_two)
  from assms(1) q show ?thesis
    unfolding t
    by (simp add: accel_cycle_calm out_nd_def acc_at_def accel_fsm_def mem_cycle_def quiet_def Let_def add_ac)
qed

lemma out_nd_steps:
  assumes "out_nd N l2 out j 0 0 s" and "k < 100" and "accel_run (2 * k) s t"
  shows "out_nd N l2 out j k (\<Sum>i<k. word_at N (80293 + i) * word_at N (79184 + j + 10 * i)) t"
  using assms(2,3)
proof (induction k arbitrary: t)
  case 0
  then show ?case using assms(1) by (simp add: accel_run_0)
next
  case (Suc k)
  then obtain u where "accel_run (2 * k) s u" "accel_run 2 u t"
    using accel_run_add [of "2 * k" 2 s t] by (auto simp: add.commute)
  with Suc show ?case using out_nd_step [of N l2 out j k _ u t] by simp
qed

lemma out_store:
  assumes "acc_at addb1 N l2 out s" and "outputIdx s = of_nat j" and "nReg s = acc" and "rdData s = b"
    and "j < 10" and "accel_run (Suc 0) s t"
  shows "acc_at (if j < 9 then nextOutput else writeRes) N (l2[j := acc + b]) out t \<and>
    (j < 9 \<longrightarrow> outputIdx t = of_nat (Suc j))"
proof -
  have "(of_nat j :: maddr) < 9 \<longleftrightarrow> j < 9" using assms(5) maddr_less [of j] by simp
  moreover have "unat (of_nat j :: maddr) = j" using assms(5) by (simp add: unat_of_nat_word)
  ultimately show ?thesis
    using assms
    by (auto simp: accel_run_0 accel_cycle_calm acc_at_def accel_fsm_def mem_cycle_def quiet_def Let_def
        elim!: accel_run_Suc)
qed

lemma output_run:
  assumes "acc_at nextOutput N l2 out s" and "outputIdx s = of_nat j" and "j < 10" and "accel_run 202 s t"
  shows "acc_at (if j < 9 then nextOutput else writeRes) N (l2[j := hw_output N j]) out t \<and>
    (j < 9 \<longrightarrow> outputIdx t = of_nat (Suc j))"
proof -
  have "accel_run (Suc 0 + (2 * 99 + (2 + Suc 0))) s t" using assms(4) by simp
  then obtain u v w where u: "accel_run (Suc 0) s u" and v: "accel_run (2 * 99) u v"
    and w: "accel_run 2 v w" and t: "accel_run (Suc 0) w t"
    by (blast dest: accel_run_add)
  have start: "out_nd N l2 out j 0 0 u"
    using u assms(1,2)
    by (auto simp: accel_run_0 accel_cycle_calm out_nd_def acc_at_def accel_fsm_def mem_cycle_def quiet_def
        elim!: accel_run_Suc)
  have "out_nd N l2 out j 99 (\<Sum>i<99. word_at N (80293 + i) * word_at N (79184 + j + 10 * i)) v"
    by (rule out_nd_steps [OF start _ v]) simp
  from out_nd_last [OF this w] have last: "acc_at addb1 N l2 out w" "outputIdx w = of_nat j"
    "nReg w = (\<Sum>i<99. word_at N (80293 + i) * word_at N (79184 + j + 10 * i)) +
       word_at N (80293 + 99) * word_at N (79184 + j + 10 * 99)"
    "rdData w = word_at N (80284 + j)" by blast+
  have "hw_output N j = (\<Sum>i<99. word_at N (80293 + i) * word_at N (79184 + j + 10 * i)) +
       word_at N (80293 + 99) * word_at N (79184 + j + 10 * 99) + word_at N (80284 + j)"
    using sum.lessThan_Suc [of "\<lambda>i. word_at N (80293 + i) * word_at N (79184 + j + 10 * i)" 99]
    by (simp add: hw_output_def)
  then show ?thesis using out_store [OF last assms(3) t] by simp
qed

lemma outputs_run:
  assumes "acc_at nextOutput N l2 out s" and "outputIdx s = 0" and "length l2 = 10"
  shows "j \<le> 9 \<Longrightarrow> accel_run (202 * j) s t \<Longrightarrow>
    acc_at nextOutput N (map (hw_output N) [0..<j] @ drop j l2) out t \<and> outputIdx t = of_nat j"
proof (induction j arbitrary: t)
  case 0
  then show ?case using assms by (simp add: accel_run_0)
next
  case (Suc j)
  then obtain u where u: "accel_run (202 * j) s u" and t: "accel_run 202 u t"
    using accel_run_add [of "202 * j" 202 s t] by (auto simp: add.commute)
  from Suc.IH [OF _ u] Suc.prems
  have at_u: "acc_at nextOutput N (map (hw_output N) [0..<j] @ drop j l2) out u" "outputIdx u = of_nat j" by simp_all
  have "(map (hw_output N) [0..<j] @ drop j l2)[j := hw_output N j] =
      map (hw_output N) [0..<Suc j] @ drop (Suc j) l2"
    by (intro nth_equalityI) (use Suc.prems assms(3) in \<open>auto simp: nth_append nth_list_update less_Suc_eq\<close>)
  with output_run [OF at_u _ t] Suc.prems show ?case by (simp del: upt_Suc of_nat_Suc)
qed

lemma all_outputs_run:
  assumes "acc_at nextOutput N l2 out s" and "outputIdx s = 0" and "length l2 = 10" and "accel_run (202 * 10) s t"
  shows "acc_at writeRes N (map (hw_output N) [0..<10]) out t"
proof -
  obtain u where u: "accel_run (202 * 9) s u" and t: "accel_run 202 u t"
    using accel_run_add [of "202 * 9" 202 s t] assms(4) by auto
  from outputs_run [OF assms(1-3) _ u]
  have "acc_at nextOutput N (map (hw_output N) [0..<9] @ drop 9 l2) out u" "outputIdx u = of_nat 9" by simp_all
  from output_run [OF this _ t]
  have "acc_at writeRes N ((map (hw_output N) [0..<9] @ drop 9 l2)[9 := hw_output N 9]) out t" by simp
  moreover have "(map (hw_output N) [0..<9] @ drop 9 l2)[9 := hw_output N 9] = map (hw_output N) [0..<10]"
    by (intro nth_equalityI) (use assms(3) in \<open>auto simp: nth_append nth_list_update\<close>)
  ultimately show ?thesis by simp
qed

section \<open>The result and the clearing of the nodes\<close>

primrec hw_cleared :: "(maddr \<Rightarrow> u32) \<Rightarrow> nat \<Rightarrow> maddr \<Rightarrow> u32" where
  "hw_cleared M 0 = M"
| "hw_cleared M (Suc n) = (hw_cleared M n)(of_nat (80293 + n) := 0)"

lemma word_at_cleared:
  "n \<le> 100 \<Longrightarrow> a < 262144 \<Longrightarrow>
     word_at (hw_cleared M n) a = (if 80293 \<le> a \<and> a < 80293 + n then 0 else word_at M a)"
  by (induction n) (auto simp: word_at_update simp del: of_nat_add of_nat_numeral fun_upd_apply)

lemma write_result:
  "acc_at writeRes N l2 out s \<Longrightarrow> accel_run (Suc 0) s t \<Longrightarrow>
     acc_at clearMem N l2 (max_index l2) t \<and> nodeIdx t = 0"
  by (auto simp: accel_run_0 accel_cycle_calm acc_at_def accel_fsm_def mem_cycle_def quiet_def
      elim!: accel_run_Suc)

lemma clear_step:
  assumes "acc_at clearMem N l2 out s" and "nodeIdx s = of_nat n" and "n < 100" and "accel_run (Suc 0) s t"
  shows "acc_at (if n < 99 then clearMem else clearOut) (N(of_nat (80293 + n) := 0)) l2 out t \<and>
    (n < 99 \<longrightarrow> nodeIdx t = of_nat (Suc n))"
proof -
  have "(of_nat n :: maddr) < 99 \<longleftrightarrow> n < 99" using assms(3) maddr_less [of n] by simp
  then show ?thesis
    using assms
    by (auto simp: accel_run_0 accel_cycle_calm acc_at_def accel_fsm_def mem_cycle_def quiet_def
        elim!: accel_run_Suc)
qed

lemma clear_steps:
  assumes "acc_at clearMem N l2 out s" and "nodeIdx s = 0"
  shows "n \<le> 99 \<Longrightarrow> accel_run n s t \<Longrightarrow> acc_at clearMem (hw_cleared N n) l2 out t \<and> nodeIdx t = of_nat n"
proof (induction n arbitrary: t)
  case 0
  then show ?case using assms by (simp add: accel_run_0)
next
  case (Suc n)
  then obtain u where u: "accel_run n s u" and t: "accel_run (Suc 0) u t"
    using accel_run_add [of n "Suc 0" s t] by auto
  from Suc.IH [OF _ u] Suc.prems have "acc_at clearMem (hw_cleared N n) l2 out u" "nodeIdx u = of_nat n" by simp_all
  from clear_step [OF this _ t] Suc.prems show ?case by (simp add: fun_upd_def del: of_nat_Suc)
qed

lemma clear_run:
  assumes "acc_at clearMem N l2 out s" and "nodeIdx s = 0" and "accel_run 101 s t"
  shows "acc_at idle (hw_cleared N 100) (replicate 10 0) out t \<and> nodeIdx t = 0"
proof -
  have "accel_run (99 + (Suc 0 + Suc 0)) s t" using assms(3) by simp
  then obtain u v where u: "accel_run 99 s u" and v: "accel_run (Suc 0) u v" and t: "accel_run (Suc 0) v t"
    by (blast dest: accel_run_add)
  have "acc_at clearMem (hw_cleared N 99) l2 out u" "nodeIdx u = of_nat 99"
    using clear_steps [OF assms(1,2) _ u] by simp_all
  from clear_step [OF this _ v]
  have "acc_at clearOut ((hw_cleared N 99)(of_nat (80293 + 99) := 0)) l2 out v" by simp
  moreover have "hw_cleared N 100 = (hw_cleared N 99)(of_nat (80293 + 99) := 0)"
    using hw_cleared.simps(2) [of N 99] by simp
  ultimately have "acc_at clearOut (hw_cleared N 100) l2 out v" by simp
  then show ?thesis
    using t by (auto simp: accel_run_0 accel_cycle_calm acc_at_def accel_fsm_def mem_cycle_def quiet_def
        elim!: accel_run_Suc)
qed

section \<open>A whole inference\<close>

text \<open>101 nodes (the last one is not used), ten outputs, the result, and the clearing.\<close>

definition inference_cycles :: nat where
  "inference_cycles = 1573 * 101 + (202 * 10 + (1 + 101))"

definition hw_result :: "(maddr \<Rightarrow> u32) \<Rightarrow> u32" where
  "hw_result M = max_index (map (hw_output (hw_hidden M 101)) [0..<10])"

lemma result_run:
  assumes "acc_at nextNode M l2 out s" and "nodeIdx s = 0" and "length l2 = 10"
    and "accel_run (1573 * 101 + (202 * 10 + 1)) s t"
  shows "acc_at clearMem (hw_hidden M 101) (map (hw_output (hw_hidden M 101)) [0..<10]) (hw_result M) t \<and>
    nodeIdx t = 0"
proof -
  have "accel_run (1573 * 101 + (202 * 10 + Suc 0)) s t" using assms(4) by simp
  then obtain u v where u: "accel_run (1573 * 101) s u" and v: "accel_run (202 * 10) u v"
    and t: "accel_run (Suc 0) v t"
    by (blast dest: accel_run_add)
  have "acc_at nextOutput (hw_hidden M 101) l2 out u" "outputIdx u = 0"
    using hidden_run [OF assms(1,2) u] by simp_all
  from all_outputs_run [OF this assms(3) v]
  have "acc_at writeRes (hw_hidden M 101) (map (hw_output (hw_hidden M 101)) [0..<10]) out v" .
  from write_result [OF this t] show ?thesis by (simp add: hw_result_def)
qed

lemma inference_run:
  assumes "acc_at nextNode M l2 out s" and "nodeIdx s = 0" and "length l2 = 10"
    and "accel_run inference_cycles s t"
  shows "acc_at idle (hw_cleared (hw_hidden M 101) 100) (replicate 10 0) (hw_result M) t \<and> nodeIdx t = 0"
proof -
  have "accel_run (1573 * 101 + (202 * 10 + 1) + 101) s t"
    using assms(4) by (simp add: inference_cycles_def)
  then obtain w where w: "accel_run (1573 * 101 + (202 * 10 + 1)) s w" and t: "accel_run 101 w t"
    by (blast dest: accel_run_add)
  from result_run [OF assms(1-3) w] clear_run [OF _ _ t] show ?thesis by blast
qed

text \<open>One cycle before the end the device still clears its outputs.\<close>

lemma inference_last:
  assumes "acc_at nextNode M l2 out s" and "nodeIdx s = 0" and "length l2 = 10"
    and "accel_run (inference_cycles - 1) s t"
  shows "stateReg t = clearOut"
proof -
  have "accel_run (1573 * 101 + (202 * 10 + 1) + (99 + Suc 0)) s t"
    using assms(4) by (simp add: inference_cycles_def)
  then obtain w u where w: "accel_run (1573 * 101 + (202 * 10 + 1)) s w" and u: "accel_run 99 w u"
    and t: "accel_run (Suc 0) u t"
    by (blast dest: accel_run_add)
  from result_run [OF assms(1-3) w]
  have "acc_at clearMem (hw_hidden M 101) (map (hw_output (hw_hidden M 101)) [0..<10]) (hw_result M) w"
    "nodeIdx w = 0" by simp_all
  from clear_steps [OF this _ u] clear_step [OF _ _ _ t, of _ _ _ 99] show ?thesis by (auto simp: acc_at_def)
qed

end
