(* ===== verification/Accelerator_Inference.thy ===== *)
theory Accelerator_Inference
  imports Accelerator_HW
begin

text \<open>
  The accelerator as the processor uses it: the network and the images arrive as write
  commands, between which the bus may be idle or poll the device. The theory states the network
  function on lists of parameters and shows that the device computes it, image after image, with
  one exception: its memory map gives the last output bias and the first hidden node the same
  address, so the bias of output 9 is the value of node 0.
\<close>

section \<open>The largest output\<close>

text \<open>The first index of a largest signed value among the entries below \<open>n\<close>.\<close>

definition first_max :: "u32 list \<Rightarrow> nat \<Rightarrow> nat \<Rightarrow> bool" where
  "first_max l n i \<longleftrightarrow> i < n \<and> (\<forall>j<n. l ! j \<le>s l ! i) \<and> (\<forall>j<i. l ! j <s l ! i)"

lemma first_max_unique: "first_max l n i \<Longrightarrow> first_max l n j \<Longrightarrow> i = j"
  by (metis first_max_def linorder_neqE_nat signed.not_le)

text \<open>A candidate of the comparator tree: the first maximum of the entries \<open>[a, b)\<close>.\<close>

definition best_of :: "u32 list \<Rightarrow> nat \<Rightarrow> nat \<Rightarrow> u32 \<times> u32 \<Rightarrow> bool" where
  "best_of l a b c \<longleftrightarrow> (\<exists>i. a \<le> i \<and> i < b \<and> c = (of_nat i, l ! i) \<and>
     (\<forall>j. a \<le> j \<and> j < b \<longrightarrow> l ! j \<le>s l ! i) \<and> (\<forall>j. a \<le> j \<and> j < i \<longrightarrow> l ! j <s l ! i))"

lemma best_of_single: "c = (of_nat a, l ! a) \<Longrightarrow> best_of l a (Suc a) c"
  by (auto simp: best_of_def intro!: exI [of _ a]) (metis Suc_leI le_antisym less_Suc_eq_le signed.order_refl)

lemma best_of_pick:
  assumes "best_of l a b x" and "best_of l b c y"
  shows "best_of l a c (pick x y)"
proof -
  obtain i where i: "a \<le> i" "i < b" "x = (of_nat i, l ! i)"
    "\<And>j. a \<le> j \<Longrightarrow> j < b \<Longrightarrow> l ! j \<le>s l ! i" "\<And>j. a \<le> j \<Longrightarrow> j < i \<Longrightarrow> l ! j <s l ! i"
    using assms(1) by (auto simp: best_of_def)
  obtain k where k: "b \<le> k" "k < c" "y = (of_nat k, l ! k)"
    "\<And>j. b \<le> j \<Longrightarrow> j < c \<Longrightarrow> l ! j \<le>s l ! k" "\<And>j. b \<le> j \<Longrightarrow> j < k \<Longrightarrow> l ! j <s l ! k"
    using assms(2) by (auto simp: best_of_def)
  show ?thesis
  proof (cases "l ! k \<le>s l ! i")
    case True
    then show ?thesis
      unfolding best_of_def pick_def using i k
      by (intro exI [of _ i]) (auto simp: not_less intro: signed.order_trans, metis linorder_not_less signed.order_trans)
  next
    case False
    then have "l ! i <s l ! k" by (simp add: signed.not_le)
    then show ?thesis
      unfolding best_of_def pick_def using i k False
      by (intro exI [of _ k]) (auto, metis linorder_not_less signed.less_imp_le signed.order_trans,
          metis linorder_not_less signed.le_less_trans)
  qed
qed

lemma max_index_first: "\<exists>i. first_max l 10 i \<and> max_index l = of_nat i"
proof -
  have p: "best_of l a (a + 2) (pick (of_nat a, l ! a) (of_nat (a + 1), l ! (a + 1)))" for a
    using best_of_pick [OF best_of_single best_of_single] by (simp add: eval_nat_numeral)
  have p0: "best_of l 0 2 (pick (0, l ! 0) (1, l ! 1))"
    using p [of 0] by (simp add: numeral_2_eq_2)
  have l: "best_of l 0 4 (pick (pick (0, l ! 0) (1, l ! 1)) (pick (2, l ! 2) (3, l ! 3)))"
    using best_of_pick [of l 0 2 _ 4, OF p0] p [of 2] by simp
  have r: "best_of l 4 8 (pick (pick (4, l ! 4) (5, l ! 5)) (pick (6, l ! 6) (7, l ! 7)))"
    using best_of_pick [of l 4 6 _ 8] p [of 4] p [of 6] by simp
  have "best_of l 0 10 (pick (pick (pick (pick (0, l ! 0) (1, l ! 1)) (pick (2, l ! 2) (3, l ! 3)))
      (pick (pick (4, l ! 4) (5, l ! 5)) (pick (6, l ! 6) (7, l ! 7)))) (pick (8, l ! 8) (9, l ! 9)))"
    using best_of_pick [of l 0 8 _ 10, OF best_of_pick [OF l r]] p [of 8] by simp
  then show ?thesis
    by (auto simp: best_of_def max_index_def Let_def first_max_def)
qed

section \<open>The commands of the processor\<close>

text \<open>A sequence of cycles, each with the undriven ports and the command it serves.\<close>

definition feed :: "(mem_ports \<times> ocp_master) list \<Rightarrow> accelerator \<Rightarrow> accelerator" where
  "feed cs s = fold (\<lambda>(p, m) s. fst (accel_cycle p m s)) cs s"

definition tame :: "(mem_ports \<times> ocp_master) list \<Rightarrow> bool" where
  "tame cs \<longleftrightarrow> (\<forall>(p, m) \<in> set cs. quiet p \<and> calm m)"

definition writes :: "(mem_ports \<times> ocp_master) list \<Rightarrow> u32 list" where
  "writes cs = map (\<lambda>(p, m). Data m) (filter (\<lambda>(p, m). Cmd m = WR) cs)"

lemma feed_simps [simp]:
  "feed [] s = s"
  "feed ((p, m) # cs) s = feed cs (fst (accel_cycle p m s))"
  "feed (cs @ ds) s = feed ds (feed cs s)"
  by (simp_all add: feed_def)

lemma tame_simps [simp]:
  "tame []"
  "tame ((p, m) # cs) \<longleftrightarrow> quiet p \<and> calm m \<and> tame cs"
  "tame (cs @ ds) \<longleftrightarrow> tame cs \<and> tame ds"
  by (auto simp: tame_def)

lemma writes_simps [simp]:
  "writes [] = []"
  "writes ((p, m) # cs) = (if Cmd m = WR then Data m # writes cs else writes cs)"
  "writes (cs @ ds) = writes cs @ writes ds"
  by (simp_all add: writes_def)

text \<open>Words stored one after the other, and a memory that holds them.\<close>

primrec store_list :: "(maddr \<Rightarrow> u32) \<Rightarrow> nat \<Rightarrow> u32 list \<Rightarrow> maddr \<Rightarrow> u32" where
  "store_list M a [] = M"
| "store_list M a (x # xs) = store_list (M(of_nat a := x)) (Suc a) xs"

definition holds :: "(maddr \<Rightarrow> u32) \<Rightarrow> nat \<Rightarrow> u32 list \<Rightarrow> bool" where
  "holds M a xs \<longleftrightarrow> (\<forall>i<length xs. word_at M (a + i) = xs ! i)"

lemma word_at_store_list:
  "a + length xs \<le> 262144 \<Longrightarrow> b < 262144 \<Longrightarrow>
     word_at (store_list M a xs) b = (if a \<le> b \<and> b < a + length xs then xs ! (b - a) else word_at M b)"
proof (induction xs arbitrary: M a)
  case (Cons x xs)
  have "word_at (store_list (M(of_nat a := x)) (Suc a) xs) b =
      (if Suc a \<le> b \<and> b < Suc a + length xs then xs ! (b - Suc a) else word_at (M(of_nat a := x)) b)"
    using Cons.prems by (intro Cons.IH) simp_all
  moreover have "word_at (M(of_nat a := x)) b = (if a = b then x else word_at M b)"
    using Cons.prems by (intro word_at_update) simp_all
  ultimately show ?case
    by (auto simp: nth_Cons' Suc_diff_Suc simp del: fun_upd_apply)
qed auto

lemma store_list_holds: "a + length xs \<le> 262144 \<Longrightarrow> holds (store_list M a xs) a xs"
  by (simp add: holds_def word_at_store_list del: of_nat_add)

lemma store_list_append: "store_list M a (xs @ ys) = store_list (store_list M a xs) (a + length xs) ys"
  by (induction xs arbitrary: M a) simp_all

lemma holds_append: "holds M a (xs @ ys) \<longleftrightarrow> holds M a xs \<and> holds M (a + length xs) ys"
proof -
  have "holds M (a + length xs) ys" if h: "holds M a (xs @ ys)"
    unfolding holds_def
  proof (intro allI impI)
    fix i assume "i < length ys"
    with h [unfolded holds_def, rule_format, of "length xs + i"]
    show "word_at M (a + length xs + i) = ys ! i" by (simp add: add.assoc del: of_nat_add)
  qed
  moreover have "holds M a (xs @ ys)" if "holds M a xs" "holds M (a + length xs) ys"
    unfolding holds_def
  proof (intro allI impI)
    fix i assume "i < length (xs @ ys)"
    with that(1) [unfolded holds_def, rule_format, of i] that(2) [unfolded holds_def, rule_format, of "i - length xs"]
    show "word_at M (a + i) = (xs @ ys) ! i" by (auto simp: nth_append not_less simp del: of_nat_add)
  qed
  ultimately show ?thesis by (auto simp: holds_def nth_append)
qed

text \<open>The shortest sequence: one write in every cycle.\<close>

definition write_cycles :: "u32 list \<Rightarrow> (mem_ports \<times> ocp_master) list" where
  "write_cycles ds = map (\<lambda>d. (no_ports, \<lparr>Cmd = WR, Addr = 0, Data = d\<rparr>)) ds"

lemma write_cycles_simps [simp]:
  "tame (write_cycles ds)"
  "writes (write_cycles ds) = ds"
  "write_cycles ds = [] \<longleftrightarrow> ds = []"
  by (auto simp: write_cycles_def tame_def writes_def quiet_def calm_def no_ports_def filter_map o_def
      split_beta)

lemma last_write_cycles [simp]: "ds \<noteq> [] \<Longrightarrow> Cmd (snd (last (write_cycles ds))) = WR"
  by (simp add: write_cycles_def last_map)

section \<open>Loading the network\<close>

definition load_inv :: "accelerator \<Rightarrow> nat \<Rightarrow> accelerator \<Rightarrow> bool" where
  "load_inv s a t \<longleftrightarrow> (if a \<le> 80293 then stateReg t = loadNN \<and> writeAddr t = of_nat a else stateReg t = idle) \<and>
     nodeIdx t = nodeIdx s \<and> layer2 t = layer2 s \<and> outputReg t = outputReg s"

lemma load_cycles:
  assumes "load_inv s a t" and "a \<le> 80294" and "tame cs" and "a + length (writes cs) \<le> 80294"
  shows "load_inv s (a + length (writes cs)) (feed cs t) \<and>
    mem (feed cs t) = store_list (mem t) a (writes cs)"
  using assms
proof (induction cs arbitrary: a t)
  case (Cons c cs)
  obtain p m where c: "c = (p, m)" by (cases c)
  have eq: "a \<le> 80293 \<Longrightarrow> ((of_nat a :: maddr) = 80293) = (a = 80293)"
    using maddr_eq [of a 80293] by simp
  show ?case
  proof (cases "Cmd m = WR")
    case True
    then have "load_inv s (Suc a) (fst (accel_cycle p m t)) \<and>
        mem (fst (accel_cycle p m t)) = (mem t)(of_nat a := Data m)"
      using Cons.prems c eq
      by (auto simp: load_inv_def accel_cycle_calm accel_fsm_def mem_cycle_def)
    with Cons.IH [of "Suc a" "fst (accel_cycle p m t)"] Cons.prems c True show ?thesis by (simp add: fun_upd_def)
  next
    case False
    then have "load_inv s a (fst (accel_cycle p m t)) \<and> mem (fst (accel_cycle p m t)) = mem t"
      using Cons.prems c
      by (auto simp: load_inv_def accel_cycle_calm accel_fsm_def mem_cycle_def quiet_def)
    with Cons.IH [of a "fst (accel_cycle p m t)"] Cons.prems c False show ?thesis by simp
  qed
qed simp

text \<open>
  The load from the initial state or from \<^verbatim>\<open>idle\<close>: the command word 0 and then 79510 parameters.
  The device is idle after the last one, and the parameters are in the memory from address 784.
\<close>

definition awaits :: "accelerator \<Rightarrow> bool" where
  "awaits s \<longleftrightarrow> stateReg s = noNN \<or> stateReg s = idle"

lemma wait_write:
  assumes "awaits s" and "quiet p" and "calm m" and "Cmd m = WR" and "Data m = 0"
  shows "load_inv s 784 (fst (accel_cycle p m s)) \<and> mem (fst (accel_cycle p m s)) = mem s"
  using assms(1) unfolding awaits_def
  by (elim disjE)
    (use assms(2-) in \<open>simp_all add: load_inv_def accel_cycle_calm accel_fsm_def mem_cycle_def quiet_def\<close>)

text \<open>Before the next write nothing changes but the memory output.\<close>

lemma wait_other:
  assumes "awaits s" and "quiet p" and "calm m" and "Cmd m \<noteq> WR"
  shows "fst (accel_cycle p m s) = s\<lparr>rdData := mem s (rdAddr p)\<rparr>"
  using assms(1) unfolding awaits_def
  by (elim disjE)
    (use assms(2-) in \<open>simp_all add: accel_cycle_calm accel_fsm_def mem_cycle_def quiet_def\<close>)

lemma wait_load:
  assumes "awaits s" and "tame cs" and "writes cs = 0 # ps" and "length ps \<le> 79510"
  shows "load_inv s (784 + length ps) (feed cs s) \<and> mem (feed cs s) = store_list (mem s) 784 ps"
  using assms
proof (induction cs arbitrary: s)
  case (Cons c cs)
  obtain p m where c: "c = (p, m)" by (cases c)
  show ?case
  proof (cases "Cmd m = WR")
    case True
    with Cons.prems c wait_write [of s p m]
    have "load_inv s 784 (fst (accel_cycle p m s))" "mem (fst (accel_cycle p m s)) = mem s" by simp_all
    with load_cycles [of s 784 "fst (accel_cycle p m s)" cs] Cons.prems c True show ?thesis by simp
  next
    case False
    with Cons.prems c have "fst (accel_cycle p m s) = s\<lparr>rdData := mem s (rdAddr p)\<rparr>"
      by (simp add: wait_other)
    with Cons.IH [of "s\<lparr>rdData := mem s (rdAddr p)\<rparr>"] Cons.prems c False
    show ?thesis by (simp add: load_inv_def awaits_def)
  qed
qed simp

section \<open>The network function\<close>

text \<open>
  The parameters as the arrays of \<^verbatim>\<open>parameters.h\<close> hold them, and the function of the network on
  an image, with the weights in the order in which the accelerator reads them: the weights of one
  pixel (or node) for all nodes (or outputs) follow each other.
\<close>

record network =
  weights_1 :: "u32 list"
  weights_2 :: "u32 list"
  biases_1 :: "u32 list"
  biases_2 :: "u32 list"

definition network_shape :: "network \<Rightarrow> bool" where
  "network_shape net \<longleftrightarrow> length (weights_1 net) = 78400 \<and> length (weights_2 net) = 1000 \<and>
     length (biases_1 net) = 100 \<and> length (biases_2 net) = 10"

definition parameters :: "network \<Rightarrow> u32 list" where
  "parameters net = weights_1 net @ weights_2 net @ biases_1 net @ biases_2 net"

definition nn_hidden :: "network \<Rightarrow> u32 list \<Rightarrow> nat \<Rightarrow> u32" where
  "nn_hidden net img n = relu ((\<Sum>i<784. img ! i * weights_1 net ! (n + 100 * i)) + biases_1 net ! n)"

definition nn_output :: "network \<Rightarrow> (nat \<Rightarrow> u32) \<Rightarrow> nat \<Rightarrow> u32" where
  "nn_output net h j = (\<Sum>k<100. h k * weights_2 net ! (j + 10 * k)) + biases_2 net ! j"

definition nn_outputs :: "network \<Rightarrow> u32 list \<Rightarrow> u32 list" where
  "nn_outputs net img = map (nn_output net (nn_hidden net img)) [0..<10]"

text \<open>The network the device evaluates on an image: the last output bias is the first hidden node.\<close>

definition aliased :: "network \<Rightarrow> u32 list \<Rightarrow> network" where
  "aliased net img = net\<lparr>biases_2 := (biases_2 net)[9 := nn_hidden net img 0]\<rparr>"

definition accel_digit :: "network \<Rightarrow> u32 list \<Rightarrow> u32" where
  "accel_digit net img = max_index (nn_outputs (aliased net img) img)"

text \<open>A memory that holds the network except its last bias, and an image.\<close>

definition net_in :: "(maddr \<Rightarrow> u32) \<Rightarrow> network \<Rightarrow> bool" where
  "net_in M net \<longleftrightarrow> (\<forall>i<79509. word_at M (784 + i) = parameters net ! i)"

lemma parameters_nth:
  assumes "network_shape net"
  shows "i < 78400 \<Longrightarrow> parameters net ! i = weights_1 net ! i"
    and "i < 1000 \<Longrightarrow> parameters net ! (78400 + i) = weights_2 net ! i"
    and "i < 100 \<Longrightarrow> parameters net ! (79400 + i) = biases_1 net ! i"
    and "i < 10 \<Longrightarrow> parameters net ! (79500 + i) = biases_2 net ! i"
  using assms by (simp_all add: parameters_def network_shape_def nth_append)

lemma net_in_words:
  assumes "net_in M net" and "network_shape net"
  shows "i < 78400 \<Longrightarrow> word_at M (784 + i) = weights_1 net ! i"
    and "i < 1000 \<Longrightarrow> word_at M (79184 + i) = weights_2 net ! i"
    and "i < 100 \<Longrightarrow> word_at M (80184 + i) = biases_1 net ! i"
    and "i < 9 \<Longrightarrow> word_at M (80284 + i) = biases_2 net ! i"
proof -
  have m: "word_at M (784 + i) = parameters net ! i" if "i < 79509" for i
    using assms(1) that unfolding net_in_def by blast
  show "i < 78400 \<Longrightarrow> word_at M (784 + i) = weights_1 net ! i"
    using m [of i] parameters_nth(1) [OF assms(2)] by (simp del: of_nat_add)
  show "i < 1000 \<Longrightarrow> word_at M (79184 + i) = weights_2 net ! i"
    using m [of "78400 + i"] parameters_nth(2) [OF assms(2)] by (simp del: of_nat_add)
  show "i < 100 \<Longrightarrow> word_at M (80184 + i) = biases_1 net ! i"
    using m [of "79400 + i"] parameters_nth(3) [OF assms(2)] by (simp del: of_nat_add)
  show "i < 9 \<Longrightarrow> word_at M (80284 + i) = biases_2 net ! i"
    using m [of "79500 + i"] parameters_nth(4) [OF assms(2), of i] by (simp del: of_nat_add)
qed

lemma hw_node_network:
  assumes "net_in M net" and "network_shape net" and "holds M 0 img" and "length img = 784" and "n < 100"
  shows "hw_node M n = nn_hidden net img n"
proof -
  have "(\<Sum>i<784. word_at M i * word_at M (784 + n + 100 * i)) =
      (\<Sum>i<784. img ! i * weights_1 net ! (n + 100 * i))"
  proof (rule sum.cong)
    fix i :: nat assume "i \<in> {..<784}"
    then show "word_at M i * word_at M (784 + n + 100 * i) = img ! i * weights_1 net ! (n + 100 * i)"
      using assms(3-5) net_in_words(1) [OF assms(1,2), of "n + 100 * i"]
      by (simp add: holds_def add.assoc del: of_nat_add of_nat_mult)
  qed simp
  with net_in_words(3) [OF assms(1,2,5)] show ?thesis by (simp add: hw_node_def nn_hidden_def)
qed

lemma hw_output_network:
  assumes "net_in M net" and "network_shape net" and "holds M 0 img" and "length img = 784" and "j < 10"
  shows "hw_output (hw_hidden M 101) j = nn_output (aliased net img) (nn_hidden net img) j"
proof -
  let ?N = "hw_hidden M 101"
  have h: "word_at ?N (80293 + k) = nn_hidden net img k" if "k < 100" for k
    using that hw_node_network [OF assms(1-4) that] by (simp add: word_at_hidden del: of_nat_add)
  have w: "word_at ?N (79184 + i) = weights_2 net ! i" if "i < 1000" for i
    using that net_in_words(2) [OF assms(1,2) that] by (simp add: word_at_hidden del: of_nat_add)
  have "(\<Sum>k<100. word_at ?N (80293 + k) * word_at ?N (79184 + j + 10 * k)) =
      (\<Sum>k<100. nn_hidden net img k * weights_2 net ! (j + 10 * k))"
  proof (rule sum.cong)
    fix k :: nat assume "k \<in> {..<100}"
    then show "word_at ?N (80293 + k) * word_at ?N (79184 + j + 10 * k) =
        nn_hidden net img k * weights_2 net ! (j + 10 * k)"
      using h [of k] w [of "j + 10 * k"] assms(5) by (simp add: add.assoc del: of_nat_add of_nat_mult)
  qed simp
  moreover have "word_at ?N (80284 + j) = biases_2 (aliased net img) ! j"
  proof (cases "j = 9")
    case True
    with h [of 0] assms(2) show ?thesis by (simp add: aliased_def network_shape_def)
  next
    case False
    with net_in_words(4) [OF assms(1,2), of j] assms(5) show ?thesis
      by (simp add: aliased_def word_at_hidden del: of_nat_add)
  qed
  ultimately show ?thesis by (simp add: hw_output_def nn_output_def aliased_def)
qed

lemma hw_result_network:
  assumes "net_in M net" and "network_shape net" and "holds M 0 img" and "length img = 784"
  shows "hw_result M = accel_digit net img"
proof -
  have "nn_hidden (aliased net img) img = nn_hidden net img"
    by (simp add: fun_eq_iff nn_hidden_def aliased_def)
  then have "map (hw_output (hw_hidden M 101)) [0..<10] = nn_outputs (aliased net img) img"
    using hw_output_network [OF assms] by (simp add: nn_outputs_def del: upt_rec_numeral)
  then show ?thesis by (simp add: hw_result_def accel_digit_def)
qed

section \<open>Loading an image\<close>

definition image_inv :: "accelerator \<Rightarrow> nat \<Rightarrow> accelerator \<Rightarrow> bool" where
  "image_inv s a t \<longleftrightarrow> stateReg t = infLoad \<and> writeAddr t = of_nat a \<and>
     nodeIdx t = nodeIdx s \<and> layer2 t = layer2 s \<and> outputReg t = outputReg s"

lemma image_cycles:
  assumes "image_inv s a t" and "tame cs" and "a + length (writes cs) \<le> 783"
  shows "image_inv s (a + length (writes cs)) (feed cs t) \<and>
    mem (feed cs t) = store_list (mem t) a (writes cs)"
  using assms
proof (induction cs arbitrary: a t)
  case (Cons c cs)
  obtain p m where c: "c = (p, m)" by (cases c)
  show ?case
  proof (cases "Cmd m = WR")
    case True
    then have "((of_nat a :: maddr) = 783) = (a = 783)" "a \<noteq> 783"
      using maddr_eq [of a 783] Cons.prems c by simp_all
    with True have "image_inv s (Suc a) (fst (accel_cycle p m t)) \<and>
        mem (fst (accel_cycle p m t)) = (mem t)(of_nat a := Data m)"
      using Cons.prems c
      by (auto simp: image_inv_def accel_cycle_calm accel_fsm_def mem_cycle_def Let_def)
    with Cons.IH [of "Suc a" "fst (accel_cycle p m t)"] Cons.prems c True show ?thesis
      by (simp add: fun_upd_def)
  next
    case False
    then have "image_inv s a (fst (accel_cycle p m t)) \<and> mem (fst (accel_cycle p m t)) = mem t"
      using Cons.prems c
      by (auto simp: image_inv_def accel_cycle_calm accel_fsm_def mem_cycle_def quiet_def)
    with Cons.IH [of a "fst (accel_cycle p m t)"] Cons.prems c False show ?thesis by simp
  qed
qed simp

lemma image_last:
  assumes "image_inv s 783 t" and "quiet p" and "calm m" and "Cmd m = WR"
  shows "acc_at nextNode ((mem t)(783 := Data m)) (layer2 s) (outputReg s) (fst (accel_cycle p m t)) \<and>
    nodeIdx (fst (accel_cycle p m t)) = nodeIdx s"
  using assms by (simp add: image_inv_def acc_at_def accel_cycle_calm accel_fsm_def mem_cycle_def)

lemma wait_image:
  assumes "stateReg s = idle" and "tame cs" and "writes cs = c # px" and "bit c 0" and "length px \<le> 783"
  shows "image_inv s (length px) (feed cs s) \<and> mem (feed cs s) = store_list (mem s) 0 px"
  using assms
proof (induction cs arbitrary: s)
  case (Cons d cs)
  obtain p m where d: "d = (p, m)" by (cases d)
  show ?case
  proof (cases "Cmd m = WR")
    case True
    with Cons.prems d have "image_inv s 0 (fst (accel_cycle p m s))" "mem (fst (accel_cycle p m s)) = mem s"
      by (simp_all add: image_inv_def accel_cycle_calm accel_fsm_def mem_cycle_def quiet_def)
    with image_cycles [of s 0 "fst (accel_cycle p m s)" cs] Cons.prems d True show ?thesis by simp
  next
    case False
    with Cons.prems d have "fst (accel_cycle p m s) = s\<lparr>rdData := mem s (rdAddr p)\<rparr>"
      by (simp add: wait_other awaits_def)
    with Cons.IH [of "s\<lparr>rdData := mem s (rdAddr p)\<rparr>"] Cons.prems d False
    show ?thesis by (simp add: image_inv_def)
  qed
qed simp

text \<open>
  An image load: a command word with bit 0 set and 784 pixels, the last of them in the last
  cycle. It ends in \<^verbatim>\<open>nextNode\<close> with the pixels in the memory from address 0.
\<close>

definition image_load :: "(mem_ports \<times> ocp_master) list \<Rightarrow> u32 list \<Rightarrow> bool" where
  "image_load cs img \<longleftrightarrow> tame cs \<and> cs \<noteq> [] \<and> Cmd (snd (last cs)) = WR \<and> length img = 784 \<and>
     writes cs = 1 # img"

lemma image_load_run:
  assumes "stateReg s = idle" and "image_load cs img"
  shows "acc_at nextNode (store_list (mem s) 0 img) (layer2 s) (outputReg s) (feed cs s) \<and>
    nodeIdx (feed cs s) = nodeIdx s"
proof -
  obtain ds p m where cs: "cs = ds @ [(p, m)]" "Cmd m = WR" "tame ds" "quiet p" "calm m"
    using assms(2) by (cases cs rule: rev_cases) (auto simp: image_load_def)
  with assms(2) have w: "writes ds = 1 # butlast img" and l: "last img = Data m" "length img = 784"
    by (cases img rule: rev_cases; simp add: image_load_def)+
  then have img: "img = butlast img @ [Data m]" by (metis append_butlast_last_id list.size(3) zero_neq_numeral)
  have "image_inv s 783 (feed ds s)" and M: "mem (feed ds s) = store_list (mem s) 0 (butlast img)"
    using wait_image [OF assms(1) cs(3) w] l by simp_all
  from image_last [OF this(1) cs(4,5,2)]
  have "acc_at nextNode ((mem (feed ds s))(783 := Data m)) (layer2 s) (outputReg s) (feed cs s) \<and>
      nodeIdx (feed cs s) = nodeIdx s" by (simp add: cs(1))
  moreover have "store_list (mem s) 0 img = (mem (feed ds s))(783 := Data m)"
    unfolding M by (subst img) (simp add: store_list_append l)
  ultimately show ?thesis by simp
qed

section \<open>A session\<close>

text \<open>The device with a network, ready for the next image.\<close>

definition ready :: "network \<Rightarrow> accelerator \<Rightarrow> bool" where
  "ready net s \<longleftrightarrow> network_shape net \<and> stateReg s = idle \<and> nodeIdx s = 0 \<and> length (layer2 s) = 10 \<and>
     net_in (mem s) net"

lemma ready_load:
  assumes "awaits s" and "nodeIdx s = 0" and "length (layer2 s) = 10" and "network_shape net"
    and "tame cs" and "writes cs = 0 # parameters net"
  shows "ready net (feed cs s)"
proof -
  have l: "length (parameters net) = 79510" using assms(4) by (simp add: parameters_def network_shape_def)
  from wait_load [OF assms(1,5,6)] l
  have i: "load_inv s 80294 (feed cs s)" and M: "mem (feed cs s) = store_list (mem s) 784 (parameters net)"
    by simp_all
  have "net_in (mem (feed cs s)) net"
    unfolding M net_in_def by (simp add: word_at_store_list l del: of_nat_add)
  with i assms show ?thesis by (simp add: ready_def load_inv_def)
qed

lemma ready_image:
  assumes "ready net s" and "image_load cs img" and "accel_run inference_cycles (feed cs s) t"
  shows "ready net t \<and> outputReg t = accel_digit net img"
proof -
  from assms(1) have s: "stateReg s = idle" "nodeIdx s = 0" "length (layer2 s) = 10"
    "net_in (mem s) net" "network_shape net" by (simp_all add: ready_def)
  let ?M = "store_list (mem s) 0 img"
  have img: "length img = 784" using assms(2) by (simp add: image_load_def)
  have run: "acc_at idle (hw_cleared (hw_hidden ?M 101) 100) (replicate 10 0) (hw_result ?M) t \<and> nodeIdx t = 0"
    using inference_run [OF conjunct1 [OF image_load_run [OF s(1) assms(2)]] _ s(3) assms(3)]
      image_load_run [OF s(1) assms(2)] s(2) by simp
  have "holds ?M 0 img" using store_list_holds [of 0 img] img by simp
  moreover have net: "net_in ?M net"
    using s(4) img by (simp add: net_in_def word_at_store_list del: of_nat_add)
  ultimately have "hw_result ?M = accel_digit net img"
    using hw_result_network s(5) img by blast
  moreover have "net_in (hw_cleared (hw_hidden ?M 101) 100) net"
    using net by (simp add: net_in_def word_at_cleared word_at_hidden del: of_nat_add)
  ultimately show ?thesis using run s(5) by (simp add: ready_def acc_at_def)
qed

text \<open>
  A session classifies images one after the other: each is loaded, computed on for the cycles
  an inference takes, and its result read from the register.
\<close>

inductive session :: "accelerator \<Rightarrow> u32 list list \<Rightarrow> u32 list \<Rightarrow> accelerator \<Rightarrow> bool" where
  no_image: "session s [] [] s"
| next_image: "image_load cs img \<Longrightarrow> accel_run inference_cycles (feed cs s) t \<Longrightarrow> session t imgs rs u \<Longrightarrow>
    session s (img # imgs) (outputReg t # rs) u"

lemma session_ready: "session s imgs rs t \<Longrightarrow> ready net s \<Longrightarrow> ready net t \<and> rs = map (accel_digit net) imgs"
  by (induction rule: session.induct) (auto dest: ready_image)

lemma session_exists:
  assumes "\<forall>img \<in> set imgs. length img = 784"
  shows "\<exists>rs t. session s imgs rs t"
  using assms
proof (induction imgs arbitrary: s)
  case Nil
  then show ?case by (blast intro: session.no_image)
next
  case (Cons img imgs)
  have "image_load (write_cycles (1 # img)) img"
    using Cons.prems by (simp add: image_load_def)
  moreover obtain t where "accel_run inference_cycles (feed (write_cycles (1 # img)) s) t"
    using accel_run_exists by blast
  moreover obtain rs u where "session t imgs rs u" using Cons.IH [of t] Cons.prems by auto
  ultimately show ?case by (blast intro: session.next_image)
qed

section \<open>Properties\<close>

text \<open>the network load. From reset or from the idle state, the command word 0 and the 79510
  parameters, sent with any idle or status-polling cycles in between, leave the accelerator idle
  with the parameters in its memory, first-layer weights at 784, second-layer weights at 79184,
  first biases at 80184 and second biases at 80284, and every other word of the memory
  unchanged.\<close>

theorem accelerator_load_network:
  assumes "stateReg s = noNN \<or> stateReg s = idle" and "network_shape net"
    and "tame cs" and "writes cs = 0 # parameters net"
  shows "stateReg (feed cs s) = idle \<and> (\<forall>a<262144. mem (feed cs s) (of_nat a) =
      (if 784 \<le> a \<and> a < 79184 then weights_1 net ! (a - 784)
       else if 79184 \<le> a \<and> a < 80184 then weights_2 net ! (a - 79184)
       else if 80184 \<le> a \<and> a < 80284 then biases_1 net ! (a - 80184)
       else if 80284 \<le> a \<and> a < 80294 then biases_2 net ! (a - 80284)
       else mem s (of_nat a)))"
proof -
  have l: "length (parameters net) = 79510" using assms(2) by (simp add: parameters_def network_shape_def)
  from wait_load [OF _ assms(3,4)] assms(1) l
  have i: "load_inv s 80294 (feed cs s)" and M: "mem (feed cs s) = store_list (mem s) 784 (parameters net)"
    by (simp_all add: awaits_def)
  have "word_at (mem (feed cs s)) a =
      (if 784 \<le> a \<and> a < 79184 then weights_1 net ! (a - 784)
       else if 79184 \<le> a \<and> a < 80184 then weights_2 net ! (a - 79184)
       else if 80184 \<le> a \<and> a < 80284 then biases_1 net ! (a - 80184)
       else if 80284 \<le> a \<and> a < 80294 then biases_2 net ! (a - 80284)
       else word_at (mem s) a)" if "a < 262144" for a
    using that assms(2) unfolding M
    by (auto simp: word_at_store_list l parameters_def network_shape_def nth_append simp del: of_nat_eq_iff)
  with i show ?thesis by (simp add: load_inv_def)
qed

definition zero_network :: network where
  "zero_network = \<lparr>weights_1 = replicate 78400 0, weights_2 = replicate 1000 0,
     biases_1 = replicate 100 0, biases_2 = replicate 10 7\<rparr>"

lemma zero_network_shape: "network_shape zero_network"
  by (simp add: network_shape_def zero_network_def)

lemma accelerator_load_network_witness:
  "mem (feed (write_cycles (0 # parameters zero_network)) (accel_init (\<lambda>_. 5) (replicate 10 0) 0)) (of_nat 80290) = 7"
proof -
  let ?s = "accel_init (\<lambda>_. 5) (replicate 10 0) 0"
  have "stateReg ?s = noNN \<or> stateReg ?s = idle" by (simp add: accel_init_def)
  from accelerator_load_network [OF this zero_network_shape, of "write_cycles (0 # parameters zero_network)"]
  have "\<forall>a<262144. mem (feed (write_cycles (0 # parameters zero_network)) ?s) (of_nat a) =
      (if 784 \<le> a \<and> a < 79184 then weights_1 zero_network ! (a - 784)
       else if 79184 \<le> a \<and> a < 80184 then weights_2 zero_network ! (a - 79184)
       else if 80184 \<le> a \<and> a < 80284 then biases_1 zero_network ! (a - 80184)
       else if 80284 \<le> a \<and> a < 80294 then biases_2 zero_network ! (a - 80284)
       else mem ?s (of_nat a))" by simp
  from this [rule_format, of 80290] show ?thesis by (simp add: zero_network_def)
qed

text \<open>C1: a session. After a reset and the load of a network, the accelerator serves any number of
  images: whatever idle and polling cycles lie between the words of a load, 784 pixels and
  160995 cycles later the result register holds the digit of the image, for the first
  image as for every later one, and the network stays loaded. The digit is that of the network in which
  the bias of output 9 is replaced by the first hidden node.\<close>

theorem accelerator_session:
  assumes "network_shape net" and "length l2 = 10" and "tame cs" and "writes cs = 0 # parameters net"
    and "session (feed cs (accel_init M l2 r)) imgs rs t"
  shows "rs = map (accel_digit net) imgs \<and> ready net t"
proof -
  have "ready net (feed cs (accel_init M l2 r))"
    by (rule ready_load) (use assms(1-4) in \<open>simp_all add: awaits_def accel_init_def\<close>)
  with session_ready [OF assms(5)] show ?thesis by blast
qed

lemma accelerator_session_witness:
  "\<exists>rs t. session (feed (write_cycles (0 # parameters zero_network)) (accel_init (\<lambda>_. 5) (replicate 10 0) 0))
     [replicate 784 1, replicate 784 2] rs t \<and>
     rs = [accel_digit zero_network (replicate 784 1), accel_digit zero_network (replicate 784 2)]"
proof -
  let ?s = "feed (write_cycles (0 # parameters zero_network)) (accel_init (\<lambda>_. 5) (replicate 10 0) 0)"
  obtain rs t where "session ?s [replicate 784 1, replicate 784 2] rs t"
    using session_exists [of "[replicate 784 1, replicate 784 2]" ?s] by auto
  moreover from accelerator_session [OF zero_network_shape _ _ _ this]
  have "rs = map (accel_digit zero_network) [replicate 784 1, replicate 784 2]" by simp
  ultimately show ?thesis by auto
qed

text \<open>the accelerator always serves. With a network loaded, every list of images of 784 pixels has a
  session that classifies all of them.\<close>

theorem accelerator_serves:
  assumes "ready net s" and "\<forall>img \<in> set imgs. length img = 784"
  shows "\<exists>t. session s imgs (map (accel_digit net) imgs) t"
  using session_exists [OF assms(2)] session_ready [OF _ assms(1)] by blast

lemma accelerator_serves_witness:
  "\<exists>t. session (feed (write_cycles (0 # parameters zero_network)) (accel_init (\<lambda>_. 5) (replicate 10 0) 0))
     [replicate 784 3] [accel_digit zero_network (replicate 784 3)] t"
proof -
  have "ready zero_network (feed (write_cycles (0 # parameters zero_network)) (accel_init (\<lambda>_. 5) (replicate 10 0) 0))"
    by (rule ready_load) (simp_all add: awaits_def accel_init_def zero_network_shape)
  from accelerator_serves [OF this, of "[replicate 784 3]"] show ?thesis by simp
qed

text \<open>what the digit is. The comparator tree returns the lowest index of a largest output, in signed
  order. Outputs 0 to 8 are those of the network; output 9 has the value of the first hidden node
  in the place of its bias, because both have the address 80293.\<close>

theorem accel_digit_first_max:
  assumes "length (biases_2 net) = 10"
  shows "(\<exists>i. first_max (nn_outputs (aliased net img) img) 10 i \<and> accel_digit net img = of_nat i) \<and>
    nn_outputs (aliased net img) img =
      (nn_outputs net img)[9 := nn_outputs net img ! 9 - biases_2 net ! 9 + nn_hidden net img 0]"
proof -
  have h: "nn_hidden (aliased net img) img = nn_hidden net img"
    by (simp add: fun_eq_iff nn_hidden_def aliased_def)
  have "nn_outputs (aliased net img) img =
      (nn_outputs net img)[9 := nn_outputs net img ! 9 - biases_2 net ! 9 + nn_hidden net img 0]"
    unfolding nn_outputs_def h
    by (rule nth_equalityI)
      (use assms in \<open>auto simp: nn_output_def aliased_def nth_list_update simp del: upt_rec_numeral\<close>)
  with max_index_first show ?thesis by (simp add: accel_digit_def)
qed

lemma accel_digit_first_max_witness:
  "nn_outputs (aliased zero_network (replicate 784 1)) (replicate 784 1) =
     (nn_outputs zero_network (replicate 784 1))[9 := nn_outputs zero_network (replicate 784 1) ! 9
        - 7 + nn_hidden zero_network (replicate 784 1) 0]"
proof -
  have "length (biases_2 zero_network) = 10" "biases_2 zero_network ! 9 = 7"
    by (simp_all add: zero_network_def)
  with accel_digit_first_max [of zero_network "replicate 784 1"] show ?thesis by simp
qed

end
