(* ===== verification/Accelerator_SW.thy ===== *)
theory Accelerator_SW
  imports Accelerator_Inference "HOL-Library.Signed_Division"
begin

text \<open>
  The programs of the processor: \<^verbatim>\<open>c/accelerator/neuralNetwork.h\<close>, \<^verbatim>\<open>c/accelerator/counter.h\<close> and
  \<^verbatim>\<open>c/accelerator_main.c\<close>. They reach the devices through two functions, \<open>rd\<close> and \<open>wr\<close>, on a device
  state of their own type; the text they print is a list of formats and arguments. A C \<^verbatim>\<open>int\<close> is a
  32-bit word, compared as a signed number. The parameter and image arrays are arguments.
\<close>

section \<open>Devices and output\<close>

type_synonym 'd bus_rd = "u32 \<Rightarrow> 'd \<Rightarrow> u32 \<times> 'd"
type_synonym 'd bus_wr = "u32 \<Rightarrow> u32 \<Rightarrow> 'd \<Rightarrow> 'd"

record 'd program =
  io :: 'd
  printed :: "(string \<times> u32 list) list"

definition printf :: "string \<Rightarrow> u32 list \<Rightarrow> 'd program \<Rightarrow> 'd program" where
  "printf fmt args s = s\<lparr>printed := printed s @ [(fmt, args)]\<rparr>"

definition io_rd :: "'d bus_rd \<Rightarrow> u32 \<Rightarrow> 'd program \<Rightarrow> u32 \<times> 'd program" where
  "io_rd rd addr s = (let (v, d) = rd addr (io s) in (v, s\<lparr>io := d\<rparr>))"

definition io_wr :: "'d bus_wr \<Rightarrow> u32 \<Rightarrow> u32 \<Rightarrow> 'd program \<Rightarrow> 'd program" where
  "io_wr wr addr data s = s\<lparr>io := wr addr data (io s)\<rparr>"

abbreviation (input) "ADR_ACCELERATOR_INPUT \<equiv> 0xf00c0000 :: u32"
abbreviation (input) "ADR_ACCELERATOR_STATUS \<equiv> 0xf00c0004 :: u32"
abbreviation (input) "ADR_ACCELERATOR_RESULT \<equiv> 0xf00c0008 :: u32"
abbreviation (input) "ADR_ACCELERATOR_MEMORY_TEST_READ \<equiv> 0xf00c000c :: u32"
abbreviation (input) "ADR_ACCELERATOR_SET_MEM_ADDR \<equiv> 0xf00c0010 :: u32"
abbreviation (input) "IO_PTR_CNT \<equiv> 0xf00b0000 :: u32"

text \<open>The cycle counter.\<close>

definition cntReset :: "'d bus_wr \<Rightarrow> 'd program \<Rightarrow> 'd program" where
  "cntReset wr s = io_wr wr IO_PTR_CNT 0 s"

definition cntRead :: "'d bus_rd \<Rightarrow> 'd program \<Rightarrow> u32 \<times> 'd program" where
  "cntRead rd s = io_rd rd IO_PTR_CNT s"

section \<open>Driving the accelerator\<close>

definition fillNeuralNetwork ::
  "'d bus_rd \<Rightarrow> 'd bus_wr \<Rightarrow> network \<Rightarrow> bool \<Rightarrow> 'd program \<Rightarrow> 'd program" where
  "fillNeuralNetwork rd wr net v s =
     (let s = (if v then printf ''Loading weights and biases into NN'' [] s else s);
          s = io_wr wr ADR_ACCELERATOR_INPUT 0 s;
          s = (if v
               then let (status, s) = io_rd rd ADR_ACCELERATOR_STATUS s;
                        s = printf ''transitioned to state: %d'' [status] s;
                        s = printf ''Parameter transfer to accelerator has started'' [] s
                    in printf ''Transfering weights'' [] s
               else s);
          s = for_loop 0 78400 (\<lambda>i. io_wr wr ADR_ACCELERATOR_INPUT (weights_1 net ! i)) s;
          s = for_loop 0 1000 (\<lambda>i. io_wr wr ADR_ACCELERATOR_INPUT (weights_2 net ! i)) s;
          s = (if v
               then printf ''Transfering biases'' [] (printf ''Weights transferred successfully'' [] s)
               else s);
          s = for_loop 0 100 (\<lambda>i. io_wr wr ADR_ACCELERATOR_INPUT (biases_1 net ! i)) s;
          s = for_loop 0 10 (\<lambda>i. io_wr wr ADR_ACCELERATOR_INPUT (biases_2 net ! i)) s
      in if v then printf ''Biases transferred successfully'' [] s else s)"

definition loadImg ::
  "'d bus_rd \<Rightarrow> 'd bus_wr \<Rightarrow> u32 list list \<Rightarrow> nat \<Rightarrow> bool \<Rightarrow> 'd program \<Rightarrow> 'd program" where
  "loadImg rd wr images imageIndex v s =
     (let s = io_wr wr ADR_ACCELERATOR_INPUT 1 s;
          s = (if v
               then let (status, s) = io_rd rd ADR_ACCELERATOR_STATUS s
                    in printf ''inf load state: %d'' [status] s
               else s)
      in for_loop 0 784 (\<lambda>i. io_wr wr ADR_ACCELERATOR_INPUT (images ! imageIndex ! i)) s)"

text \<open>The debug read: set the address, read twice, return the second value.\<close>

definition readFromMem :: "'d bus_rd \<Rightarrow> 'd bus_wr \<Rightarrow> u32 \<Rightarrow> 'd program \<Rightarrow> u32 \<times> 'd program" where
  "readFromMem rd wr addr s =
     (let s = printf ''checking value at address %d'' [addr] s;
          s = io_wr wr ADR_ACCELERATOR_SET_MEM_ADDR addr s;
          (val, s) = io_rd rd ADR_ACCELERATOR_MEMORY_TEST_READ s
      in io_rd rd ADR_ACCELERATOR_MEMORY_TEST_READ s)"

definition check_word ::
  "'d bus_rd \<Rightarrow> 'd bus_wr \<Rightarrow> u32 \<Rightarrow> u32 \<Rightarrow> 'd program \<Rightarrow> 'd program" where
  "check_word rd wr addr expected s =
     (let (rsp, s) = readFromMem rd wr addr s in printf ''Expected: %d, Read: %d'' [expected, rsp] s)"

definition loadNetworkCheck :: "'d bus_rd \<Rightarrow> 'd bus_wr \<Rightarrow> network \<Rightarrow> 'd program \<Rightarrow> 'd program" where
  "loadNetworkCheck rd wr net s =
     (let (status, s) = io_rd rd ADR_ACCELERATOR_STATUS s;
          s = printf ''init state: %d'' [status] s;
          s = fillNeuralNetwork rd wr net True s;
          (status, s) = io_rd rd ADR_ACCELERATOR_STATUS s;
          s = printf ''state after network load: %d'' [status] s;
          s = check_word rd wr 784 (weights_1 net ! 0) s;
          s = check_word rd wr 10000 (weights_1 net ! 9216) s;
          s = check_word rd wr 79183 (weights_1 net ! 78399) s;
          s = check_word rd wr 79184 (weights_2 net ! 0) s;
          s = check_word rd wr 79185 (weights_2 net ! 1) s;
          s = check_word rd wr 80182 (weights_2 net ! 998) s;
          s = check_word rd wr 80183 (weights_2 net ! 999) s;
          s = check_word rd wr 80184 (biases_1 net ! 0) s;
          s = check_word rd wr 80292 (biases_2 net ! 8) s;
          s = check_word rd wr 80293 (biases_2 net ! 9) s;
          s = printf ''=================='' [] s;
          s = printf ''network check done'' [] s
      in printf ''=================='' [] s)"

section \<open>The network in software\<close>

text \<open>
  The reference computation. The two local arrays are not initialised, so their first contents
  are arguments.
\<close>

definition nn_layer ::
  "u32 list \<Rightarrow> u32 list \<Rightarrow> nat \<Rightarrow> nat \<Rightarrow> u32 list \<Rightarrow> u32 list" where
  "nn_layer inputs weights n m layer =
     fst (for_loop 0 n (\<lambda>i. for_loop 0 m (\<lambda>p (layer, weightIndex).
       (layer[i := layer ! i + inputs ! p * weights ! weightIndex], weightIndex + 1))) (layer, 0))"

definition add_biases :: "u32 list \<Rightarrow> nat \<Rightarrow> u32 list \<Rightarrow> u32 list" where
  "add_biases biases n layer = for_loop 0 n (\<lambda>i layer. layer[i := layer ! i + biases ! i]) layer"

definition apply_relu :: "nat \<Rightarrow> u32 list \<Rightarrow> u32 list" where
  "apply_relu n layer = for_loop 0 n (\<lambda>i layer. if layer ! i \<le>s 0 then layer[i := 0] else layer) layer"

definition find_maximum :: "u32 list \<Rightarrow> u32" where
  "find_maximum layer =
     fst (for_loop 0 10 (\<lambda>i (result, resultnum).
       if resultnum <s layer ! i then (of_nat i, layer ! i) else (result, resultnum)) (0, layer ! 0))"

definition calculateNNCPU ::
  "'d bus_rd \<Rightarrow> 'd bus_wr \<Rightarrow> network \<Rightarrow> u32 list list \<Rightarrow> u32 list \<Rightarrow> u32 list \<Rightarrow> nat
     \<Rightarrow> u32 list \<Rightarrow> 'd program \<Rightarrow> u32 \<times> u32 list \<times> 'd program" where
  "calculateNNCPU rd wr net images layer1_0 layer2_0 aImageIndex executionTimes s =
     (let s = cntReset wr s;
          layer1 = nn_layer (images ! aImageIndex) (weights_1 net) 100 784 layer1_0;
          layer1 = add_biases (biases_1 net) 100 layer1;
          layer1 = apply_relu 100 layer1;
          layer2 = nn_layer layer1 (weights_2 net) 10 100 layer2_0;
          layer2 = add_biases (biases_2 net) 10 layer2;
          result = find_maximum layer2;
          (t, s) = cntRead rd s
      in (result, executionTimes[aImageIndex := t], s))"

section \<open>The test program\<close>

text \<open>
  The poll loop: read the status, leave at 2 (idle), otherwise read the result and go on. It is
  \<^const>\<open>None\<close> when it does not return. \<^verbatim>\<open>result\<close> keeps its old value when the first status is 2.
\<close>

definition await_result :: "'d bus_rd \<Rightarrow> u32 \<Rightarrow> 'd program \<Rightarrow> (u32 \<times> 'd program) option" where
  "await_result rd result s = map_option snd (loop_until (\<lambda>(result, s).
     let (status, s) = io_rd rd ADR_ACCELERATOR_STATUS s
     in if status \<noteq> 2
        then let (result, s) = io_rd rd ADR_ACCELERATOR_RESULT s in Some (None, (result, s))
        else Some (Some (), (result, s))) (result, s))"

definition test_image ::
  "'d bus_rd \<Rightarrow> 'd bus_wr \<Rightarrow> u32 list list \<Rightarrow> u32 list \<Rightarrow> nat \<Rightarrow> u32 \<times> u32 \<times> 'd program
     \<Rightarrow> (u32 \<times> u32 \<times> 'd program) option" where
  "test_image rd wr images results i = (\<lambda>(result, errorCounter, s). do {
     let s = loadImg rd wr images i False s;
     (result, s) \<leftarrow> await_result rd result s;
     Some (if result = results ! i
           then (result, errorCounter, printf ''CORRECT. Expected %d and got %d'' [results ! i, result] s)
           else (result, errorCounter + 1,
             printf ''INCORRECT. Expected %d and got %d at image %d'' [results ! i, result, of_nat i] s))
   })"

primrec for_each :: "nat list \<Rightarrow> (nat \<Rightarrow> 's \<Rightarrow> 's option) \<Rightarrow> 's \<Rightarrow> 's option" where
  "for_each [] body s = Some s"
| "for_each (i # is) body s = Option.bind (body i s) (for_each is body)"

text \<open>
  The whole program. The variables without an initial value are arguments: \<open>result_0\<close>, and for
  every call of the software network its two arrays.
\<close>

definition accelerator_main ::
  "'d bus_rd \<Rightarrow> 'd bus_wr \<Rightarrow> network \<Rightarrow> u32 list list \<Rightarrow> u32 list \<Rightarrow> u32 list \<Rightarrow> u32
     \<Rightarrow> (nat \<Rightarrow> u32 list) \<Rightarrow> (nat \<Rightarrow> u32 list) \<Rightarrow> 'd program \<Rightarrow> 'd program option" where
  "accelerator_main rd wr net images results executionTimes result_0 layer1_0 layer2_0 s = do {
     let s = printf ''Program started'' [] s;
     let s = loadNetworkCheck rd wr net s;
     let s = printf ''=========================='' [] s;
     let s = printf ''Starting inference test...'' [] s;
     let s = printf ''=========================='' [] s;
     (result, errorCounter, s) \<leftarrow> for_each [0..<100] (test_image rd wr images results) (result_0, 0, s);
     let s = printf ''100 tests done. Number of errors: %d'' [errorCounter] s;
     let s = printf ''Measuring execution time with no printf...'' [] s;
     let s = cntReset wr s;
     let s = loadImg rd wr images 0 False s;
     (result, s) \<leftarrow> await_result rd result s;
     let (hwExecTime, s) = cntRead rd s;
     let s = printf ''Execution time was %d'' [hwExecTime] s;
     let s = printf ''=========================='' [] s;
     let s = printf ''Run software NN tests and measuring execution times (no printf-s)...'' [] s;
     let (executionTimes, s) = for_loop 0 100 (\<lambda>i (executionTimes, s).
       snd (calculateNNCPU rd wr net images (layer1_0 i) (layer2_0 i) i executionTimes s)) (executionTimes, s);
     let s = printf ''100 tests done!'' [] s;
     let avarageRuntime = for_loop 0 100 (\<lambda>i t. t + executionTimes ! i) 0;
     let avarageRuntime = word_of_int (sint avarageRuntime sdiv 100);
     Some (printf ''The avarage software runtime was: %d'' [avarageRuntime] s)
   }"

section \<open>The accelerator on the bus\<close>

text \<open>
  A bus access of the processor: one cycle that serves the command and any number of further cycles until
  the next access. The timing \<open>T\<close> gives for the \<open>k\<close>-th access the values of the undriven memory ports in its
  first cycle and in each of the cycles after it; the bus counts the accesses. The device answers the addresses
  of its page; others leave it alone and are answered by \<open>other\<close>.
\<close>

type_synonym timing = "nat \<Rightarrow> mem_ports \<times> mem_ports list"
type_synonym timed = "accelerator \<times> nat"

definition access_cycles :: "mem_ports \<times> mem_ports list \<Rightarrow> ocp_master \<Rightarrow> (mem_ports \<times> ocp_master) list" where
  "access_cycles t m = (fst t, m) # map (\<lambda>p. (p, no_command)) (snd t)"

definition bus_access :: "timing \<Rightarrow> ocp_master \<Rightarrow> timed \<Rightarrow> timed" where
  "bus_access T m d = (feed (access_cycles (T (snd d)) m) (fst d), Suc (snd d))"

definition accel_wr :: "timing \<Rightarrow> timed bus_wr" where
  "accel_wr T addr data d =
     bus_access T (if addr AND 0xFFFF0000 = 0xf00c0000 then \<lparr>Cmd = WR, Addr = addr, Data = data\<rparr> else no_command) d"

definition accel_rd :: "timing \<Rightarrow> (nat \<Rightarrow> u32 \<Rightarrow> u32) \<Rightarrow> timed bus_rd" where
  "accel_rd T other addr d =
     (if addr AND 0xFFFF0000 = 0xf00c0000
      then let m = \<lparr>Cmd = RD, Addr = addr, Data = 0\<rparr>
           in (snd (snd (accel_cycle (fst (T (snd d))) m (fst d))), bus_access T m d)
      else (other (snd d) addr, bus_access T no_command d))"

text \<open>A timing in which the undriven ports write nothing, and one with a bound on the cycles between accesses.\<close>

definition quiet_timing :: "timing \<Rightarrow> bool" where
  "quiet_timing T \<longleftrightarrow> (\<forall>k. quiet (fst (T k)) \<and> (\<forall>p \<in> set (snd (T k)). quiet p))"

definition gaps_upto :: "nat \<Rightarrow> timing \<Rightarrow> bool" where
  "gaps_upto n T \<longleftrightarrow> (\<forall>k. length (snd (T k)) \<le> n)"

abbreviation (input) idle_cycles :: "mem_ports list \<Rightarrow> (mem_ports \<times> ocp_master) list" where
  "idle_cycles ps \<equiv> map (\<lambda>p. (p, no_command)) ps"

text \<open>A list of words written to the input address, from the \<open>k\<close>-th access on.\<close>

fun write_accesses :: "timing \<Rightarrow> nat \<Rightarrow> u32 list \<Rightarrow> (mem_ports \<times> ocp_master) list" where
  "write_accesses T k [] = []"
| "write_accesses T k (d # ds) =
     access_cycles (T k) \<lparr>Cmd = WR, Addr = ADR_ACCELERATOR_INPUT, Data = d\<rparr> @ write_accesses T (Suc k) ds"

lemma idle_cycles_tame:
  "\<forall>p \<in> set ps. quiet p \<Longrightarrow> tame (idle_cycles ps)"
  "writes (idle_cycles ps) = []"
  by (auto simp: tame_def writes_def no_command_def calm_def)

lemma idle_replicate [simp]:
  "tame (replicate g (p, no_command)) \<longleftrightarrow> g = 0 \<or> quiet p"
  "writes (replicate g (p, no_command)) = []"
  by (auto simp: tame_def writes_def no_command_def calm_def)

lemma access_cycles_simps [simp]:
  "quiet_timing T \<Longrightarrow> tame (access_cycles (T k) m) \<longleftrightarrow> calm m"
  "writes (access_cycles t m) = (if Cmd m = WR then [Data m] else [])"
  "length (access_cycles t m) = Suc (length (snd t))"
  using idle_cycles_tame by (auto simp: access_cycles_def quiet_timing_def)

lemma write_accesses_append [simp]:
  "write_accesses T k (ds @ es) = write_accesses T k ds @ write_accesses T (k + length ds) es"
  by (induction ds arbitrary: k) simp_all

lemma write_accesses_tame [simp]:
  "quiet_timing T \<Longrightarrow> tame (write_accesses T k ds)"
  "writes (write_accesses T k ds) = ds"
  by (induction ds arbitrary: k) (simp_all add: calm_def)

lemma io_wr_input:
  "io_wr (accel_wr T) ADR_ACCELERATOR_INPUT d s =
     s\<lparr>io := bus_access T \<lparr>Cmd = WR, Addr = ADR_ACCELERATOR_INPUT, Data = d\<rparr> (io s)\<rparr>"
  by (simp add: io_wr_def accel_wr_def)

lemma write_loop:
  "n = length ds \<Longrightarrow> for_loop 0 n (\<lambda>i. io_wr (accel_wr T) ADR_ACCELERATOR_INPUT (ds ! i)) s =
     s\<lparr>io := (feed (write_accesses T (snd (io s)) ds) (fst (io s)), snd (io s) + n)\<rparr>"
proof (induction ds arbitrary: n rule: rev_induct)
  case Nil
  then show ?case by (simp add: for_loop_empty)
next
  case (snoc d ds)
  let ?F = "\<lambda>i. io_wr (accel_wr T) ADR_ACCELERATOR_INPUT ((ds @ [d]) ! i)"
  have "for_loop 0 (length ds) ?F s =
      for_loop 0 (length ds) (\<lambda>i. io_wr (accel_wr T) ADR_ACCELERATOR_INPUT (ds ! i)) s"
    by (rule for_loop_cong) (simp add: nth_append)
  also have "\<dots> = s\<lparr>io := (feed (write_accesses T (snd (io s)) ds) (fst (io s)), snd (io s) + length ds)\<rparr>"
    by (rule snoc.IH) simp
  finally have "for_loop 0 (Suc (length ds)) ?F s = ?F (length ds)
      (s\<lparr>io := (feed (write_accesses T (snd (io s)) ds) (fst (io s)), snd (io s) + length ds)\<rparr>)"
    by (subst for_loop_last) simp_all
  also have "\<dots> = s\<lparr>io := (feed (write_accesses T (snd (io s)) (ds @ [d])) (fst (io s)), snd (io s) + Suc (length ds))\<rparr>"
    by (simp add: io_wr_input bus_access_def)
  finally show ?case using snoc.prems by simp
qed

text \<open>Loading through the bus is one sequence of writes.\<close>

lemma fill_writes:
  assumes "network_shape net"
  shows "fst (io (fillNeuralNetwork (accel_rd T other) (accel_wr T) net False s)) =
    feed (write_accesses T (snd (io s)) (0 # parameters net)) (fst (io s))"
  using assms
  by (simp add: fillNeuralNetwork_def network_shape_def write_loop io_wr_input parameters_def bus_access_def Let_def add.assoc)

lemma load_writes:
  assumes "length (images ! i) = 784"
  shows "\<exists>k. loadImg (accel_rd T other) (accel_wr T) images i False s =
    s\<lparr>io := (feed (write_accesses T (snd (io s)) (1 # images ! i)) (fst (io s)), k)\<rparr>"
  using assms by (intro exI [of _ "Suc (snd (io s) + 784)"]) (simp add: loadImg_def write_loop io_wr_input bus_access_def Let_def)

section \<open>Polling\<close>

definition watching :: "(mem_ports \<times> ocp_master) list \<Rightarrow> bool" where
  "watching ds \<longleftrightarrow> tame ds \<and> writes ds = []"

lemma watching_simps [simp]:
  "watching []"
  "watching ((p, m) # ds) \<longleftrightarrow> quiet p \<and> calm m \<and> Cmd m \<noteq> WR \<and> watching ds"
  "watching (cs @ ds) \<longleftrightarrow> watching cs \<and> watching ds"
  by (auto simp: watching_def)

lemma watching_take_drop: "watching ds \<Longrightarrow> watching (take n ds) \<and> watching (drop n ds)"
  by (metis append_take_drop_id watching_simps(3))

lemma feed_run: "tame ds \<Longrightarrow> accel_run (length ds) s (feed ds s)"
  by (induction ds arbitrary: s) (auto intro: accel_run.intros)

lemma finished_watch:
  "stateReg s \<in> {clearMem, clearOut, idle} \<Longrightarrow> watching ds \<Longrightarrow>
     stateReg (feed ds s) \<in> {clearMem, clearOut, idle} \<and> outputReg (feed ds s) = outputReg s"
proof (induction ds arbitrary: s)
  case (Cons d ds)
  obtain p m where d: "d = (p, m)" by (cases d)
  have "stateReg (fst (accel_cycle p m s)) \<in> {clearMem, clearOut, idle} \<and>
      outputReg (fst (accel_cycle p m s)) = outputReg s"
    using Cons.prems d
    by (elim insertE) (auto simp: accel_cycle_calm accel_fsm_def mem_cycle_def)
  with Cons d show ?case by simp
qed simp

lemma idle_watch:
  "stateReg s = idle \<Longrightarrow> watching ds \<Longrightarrow> \<exists>v. feed ds s = s\<lparr>rdData := v\<rparr>"
proof (induction ds arbitrary: s)
  case Nil
  then show ?case by (intro exI [of _ "rdData s"]) simp
next
  case (Cons d ds)
  obtain p m where d: "d = (p, m)" by (cases d)
  with Cons.prems have c: "fst (accel_cycle p m s) = s\<lparr>rdData := mem s (rdAddr p)\<rparr>"
    by (simp add: wait_other awaits_def)
  from Cons.IH [of "s\<lparr>rdData := mem s (rdAddr p)\<rparr>"] Cons.prems d c show ?case by auto
qed

text \<open>The device right after the last pixel.\<close>

definition computing :: "accelerator \<Rightarrow> bool" where
  "computing s \<longleftrightarrow> stateReg s = nextNode \<and> nodeIdx s = 0 \<and> length (layer2 s) = 10"

lemma computing_acc: "computing s \<Longrightarrow> acc_at nextNode (mem s) (layer2 s) (outputReg s) s"
  by (simp add: computing_def acc_at_def)

lemma busy_before:
  assumes "computing s" and "watching ds" and "length ds < inference_cycles"
  shows "stateReg (feed ds s) \<noteq> idle"
proof
  assume i: "stateReg (feed ds s) = idle"
  let ?es = "replicate (inference_cycles - 1 - length ds) (no_ports, no_command)"
  have q: "watching ?es" by (simp add: watching_def quiet_def no_ports_def)
  have "accel_run (length (ds @ ?es)) s (feed (ds @ ?es) s)"
    using assms(2) q by (intro feed_run) (simp add: watching_def)
  then have "accel_run (inference_cycles - 1) s (feed (ds @ ?es) s)" using assms(3) by simp
  from inference_last [OF computing_acc _ _ this] assms(1)
  have "stateReg (feed ?es (feed ds s)) = clearOut" by (simp add: computing_def)
  with idle_watch [OF i q] i show False by auto
qed

lemma result_after:
  assumes "computing s" and "watching ds" and "inference_cycles \<le> length ds + 101"
  shows "outputReg (feed ds s) = hw_result (mem s)"
proof -
  let ?W = "1573 * 101 + (202 * 10 + 1)"
  let ?u = "feed (take ?W ds) s"
  have W: "min (length ds) ?W = ?W" using assms(3) by (simp add: inference_cycles_def)
  have t: "watching (take ?W ds)" "watching (drop ?W ds)"
    using watching_take_drop [OF assms(2)] by blast+
  then have "accel_run ?W s ?u" using feed_run [of "take ?W ds" s] W by (simp add: watching_def)
  from result_run [OF computing_acc _ _ this] assms(1)
  have u: "stateReg ?u = clearMem" "outputReg ?u = hw_result (mem s)" by (simp_all add: computing_def acc_at_def)
  have "feed ds s = feed (drop ?W ds) ?u" by (metis append_take_drop_id feed_simps(3))
  with finished_watch [of ?u "drop ?W ds"] u t show ?thesis by simp
qed

lemma idle_after:
  assumes "computing s" and "watching ds" and "inference_cycles \<le> length ds"
  shows "\<exists>u v. accel_run inference_cycles s u \<and> feed ds s = u\<lparr>rdData := v\<rparr> \<and> stateReg u = idle"
proof -
  let ?u = "feed (take inference_cycles ds) s"
  have t: "watching (take inference_cycles ds)" "watching (drop inference_cycles ds)"
    using watching_take_drop [OF assms(2)] by blast+
  then have r: "accel_run inference_cycles s ?u"
    using feed_run [of "take inference_cycles ds" s] assms(3) by (simp add: watching_def min_absorb2)
  from inference_run [OF computing_acc _ _ this] assms(1)
  have u: "stateReg ?u = idle" by (simp add: computing_def acc_at_def)
  moreover have "feed ds s = feed (drop inference_cycles ds) ?u" by (metis append_take_drop_id feed_simps(3))
  ultimately show ?thesis using idle_watch [OF u t(2)] r by auto
qed

lemma state_code_idle: "state_code st = 2 \<longleftrightarrow> st = idle"
  by (cases st) (simp_all add: state_code_def)

abbreviation (input) read_cycles :: "mem_ports \<times> mem_ports list \<Rightarrow> u32 \<Rightarrow> (mem_ports \<times> ocp_master) list" where
  "read_cycles t addr \<equiv> access_cycles t \<lparr>Cmd = RD, Addr = addr, Data = 0\<rparr>"

lemma io_rd_status:
  "io_rd (accel_rd T other) ADR_ACCELERATOR_STATUS s =
     (state_code (stateReg (fst (io s))),
      s\<lparr>io := (feed (read_cycles (T (snd (io s))) ADR_ACCELERATOR_STATUS) (fst (io s)), Suc (snd (io s)))\<rparr>)"
  by (simp add: io_rd_def accel_rd_def bus_access_def accel_cycle_def Let_def split_beta)

lemma io_rd_result:
  "io_rd (accel_rd T other) ADR_ACCELERATOR_RESULT s =
     (outputReg (fst (io s)),
      s\<lparr>io := (feed (read_cycles (T (snd (io s))) ADR_ACCELERATOR_RESULT) (fst (io s)), Suc (snd (io s)))\<rparr>)"
  by (simp add: io_rd_def accel_rd_def bus_access_def accel_cycle_def Let_def split_beta)

lemma watching_read:
  "quiet_timing T \<Longrightarrow> watching (read_cycles (T k) ADR_ACCELERATOR_STATUS)"
  "quiet_timing T \<Longrightarrow> watching (read_cycles (T k) ADR_ACCELERATOR_RESULT)"
  by (simp_all add: watching_def calm_def)

lemma watching_idle: "\<forall>p \<in> set ps. quiet p \<Longrightarrow> watching (idle_cycles ps)"
  by (simp add: watching_def idle_cycles_tame)

text \<open>
  The poll loop, started while the device computes. It makes progress in every round, and the
  round in which the result becomes valid still reads it, because two reads are at most 101
  cycles apart.
\<close>

lemma await_result_returns:
  assumes "quiet_timing T" and "gaps_upto 100 T" and "computing c"
  shows "fst (io s) = feed ds c \<Longrightarrow> watching ds \<Longrightarrow> (inference_cycles \<le> length ds \<longrightarrow> result = hw_result (mem c)) \<Longrightarrow>
    \<exists>es k. await_result (accel_rd T other) result s = Some (hw_result (mem c), s\<lparr>io := (feed es c, k)\<rparr>) \<and>
      watching es \<and> inference_cycles \<le> length es"
proof (induction "inference_cycles - length ds" arbitrary: s ds result rule: less_induct)
  case less
  let ?k = "snd (io s)"
  let ?st = "ds @ read_cycles (T ?k) ADR_ACCELERATOR_STATUS"
  let ?res = "?st @ read_cycles (T (Suc ?k)) ADR_ACCELERATOR_RESULT"
  have w: "watching ?st" "watching ?res"
    using less.prems(2) watching_read [OF assms(1)] by simp_all
  show ?case
  proof (cases "inference_cycles \<le> length ds")
    case True
    then have "stateReg (fst (io s)) = idle" using idle_after [OF assms(3) less.prems(2)] less.prems(1) by auto
    then have "await_result (accel_rd T other) result s = Some (result, s\<lparr>io := (feed ?st c, Suc ?k)\<rparr>)"
      using less.prems(1)
      by (simp add: await_result_def loop_until.simps [of _ "(result, s)"] io_rd_status state_code_idle)
    moreover have "inference_cycles \<le> length ?st" using True by simp
    ultimately show ?thesis using w(1) less.prems(3) True by blast
  next
    case False
    then have b: "stateReg (fst (io s)) \<noteq> idle"
      using busy_before [OF assms(3) less.prems(2)] less.prems(1) by simp
    let ?t = "s\<lparr>io := (feed ?res c, Suc (Suc ?k))\<rparr>"
    have step: "await_result (accel_rd T other) result s =
        await_result (accel_rd T other) (outputReg (feed ?st c)) ?t"
      using less.prems(1) b
      by (simp add: await_result_def loop_until.simps [of _ "(result, s)"] io_rd_status io_rd_result state_code_idle)
    have "\<exists>es k. await_result (accel_rd T other) (outputReg (feed ?st c)) ?t =
        Some (hw_result (mem c), ?t\<lparr>io := (feed es c, k)\<rparr>) \<and> watching es \<and> inference_cycles \<le> length es"
    proof (rule less.hyps)
      show "inference_cycles - length ?res < inference_cycles - length ds" using False by simp
      show "fst (io ?t) = feed ?res c" by simp
      show "watching ?res" by (rule w(2))
      have "length (snd (T (Suc ?k))) \<le> 100" using assms(2) by (simp add: gaps_upto_def)
      then show "inference_cycles \<le> length ?res \<longrightarrow> outputReg (feed ?st c) = hw_result (mem c)"
        using result_after [OF assms(3) w(1)] by simp
    qed
    with step show ?thesis by simp
  qed
qed

lemma computing_load:
  assumes "ready net s" and "length img = 784" and "quiet_timing T"
  shows "\<exists>cs ps. image_load cs img \<and> computing (feed cs s) \<and> mem (feed cs s) = store_list (mem s) 0 img \<and>
    feed (write_accesses T k (1 # img)) s = feed (idle_cycles ps) (feed cs s) \<and> (\<exists>j. ps = snd (T j))"
proof -
  let ?m = "\<lparr>Cmd = WR, Addr = ADR_ACCELERATOR_INPUT, Data = last img\<rparr>" and ?j = "k + 784"
  let ?cs = "write_accesses T k (1 # butlast img) @ [(fst (T ?j), ?m)]"
  have img: "img = butlast img @ [last img]" using assms(2) by (intro append_butlast_last_id [symmetric]) auto
  have "write_accesses T k ((1 # butlast img) @ [last img]) =
      write_accesses T k (1 # butlast img) @ write_accesses T (k + length (1 # butlast img)) [last img]"
    by (rule write_accesses_append)
  also have "k + length (1 # butlast img) = ?j" using assms(2) by simp
  finally have w: "write_accesses T k (1 # img) = ?cs @ idle_cycles (snd (T ?j))"
    by (subst img) (simp add: access_cycles_def)
  have "writes ?cs = 1 # img"
    by (subst (2) img) (simp del: write_accesses.simps)
  then have load: "image_load ?cs img"
    using assms(2,3) by (simp add: image_load_def calm_def quiet_timing_def del: write_accesses.simps)
  from image_load_run [OF _ this] assms(1)
  have "acc_at nextNode (store_list (mem s) 0 img) (layer2 s) (outputReg s) (feed ?cs s) \<and> nodeIdx (feed ?cs s) = 0"
    by (simp add: ready_def)
  with load w assms(1) show ?thesis
    by (intro exI [of _ ?cs] exI [of _ "snd (T ?j)"]) (auto simp: computing_def acc_at_def ready_def)
qed

text \<open>Loading an image and polling for its digit.\<close>

lemma classify_returns:
  assumes "ready net (fst (io s))" and "length (images ! i) = 784" and "quiet_timing T" and "gaps_upto 100 T"
  shows "\<exists>d. await_result (accel_rd T other) result (loadImg (accel_rd T other) (accel_wr T) images i False s) =
      Some (accel_digit net (images ! i), s\<lparr>io := d\<rparr>) \<and> ready net (fst d)"
proof -
  let ?img = "images ! i" and ?s = "fst (io s)"
  obtain cs ps j where load: "image_load cs ?img" and c: "computing (feed cs ?s)"
    and M: "mem (feed cs ?s) = store_list (mem ?s) 0 ?img" and ps: "ps = snd (T j)"
    and f: "feed (write_accesses T (snd (io s)) (1 # ?img)) ?s = feed (idle_cycles ps) (feed cs ?s)"
    using computing_load [OF assms(1-3)] by blast
  let ?c = "feed cs ?s"
  obtain k where l: "loadImg (accel_rd T other) (accel_wr T) images i False s = s\<lparr>io := (feed (idle_cycles ps) ?c, k)\<rparr>"
    using load_writes [OF assms(2)] f by metis
  have w: "watching (idle_cycles ps)" using assms(3) ps by (intro watching_idle) (simp add: quiet_timing_def)
  have "length ps \<le> 100" using assms(4) ps by (simp add: gaps_upto_def)
  then have "\<not> inference_cycles \<le> length (idle_cycles ps)" by (simp add: inference_cycles_def)
  then have "\<exists>es k'. await_result (accel_rd T other) result (s\<lparr>io := (feed (idle_cycles ps) ?c, k)\<rparr>) =
      Some (hw_result (mem ?c), s\<lparr>io := (feed es ?c, k')\<rparr>) \<and> watching es \<and> inference_cycles \<le> length es"
    using await_result_returns [OF assms(3,4) c _ w, of "s\<lparr>io := (feed (idle_cycles ps) ?c, k)\<rparr>" result other] by simp
  then obtain es k' where r: "await_result (accel_rd T other) result
        (loadImg (accel_rd T other) (accel_wr T) images i False s) =
      Some (hw_result (mem ?c), s\<lparr>io := (feed es ?c, k')\<rparr>)" and es: "watching es" "inference_cycles \<le> length es"
    unfolding l by blast
  from idle_after [OF c es] obtain u v where u: "accel_run inference_cycles ?c u" "feed es ?c = u\<lparr>rdData := v\<rparr>"
    by blast
  have "ready net u" using ready_image [OF assms(1) load u(1)] by blast
  then have "ready net (feed es ?c)" by (simp add: u(2) ready_def)
  moreover have "hw_result (mem ?c) = accel_digit net ?img"
  proof -
    have "holds (mem ?c) 0 ?img" "net_in (mem ?c) net"
      using assms(1,2) store_list_holds [of 0 ?img]
      by (simp_all add: M ready_def net_in_def word_at_store_list del: of_nat_add)
    with assms(1,2) show ?thesis by (intro hw_result_network) (simp_all add: ready_def)
  qed
  ultimately show ?thesis using r by auto
qed

definition miss :: "network \<Rightarrow> u32 list list \<Rightarrow> u32 list \<Rightarrow> nat \<Rightarrow> bool" where
  "miss net images results i \<longleftrightarrow> accel_digit net (images ! i) \<noteq> results ! i"

lemma test_image_returns:
  assumes "ready net (fst (io s))" and "length (images ! i) = 784" and "quiet_timing T" and "gaps_upto 100 T"
  shows "\<exists>t. test_image (accel_rd T other) (accel_wr T) images results i (r, e, s) =
      Some (accel_digit net (images ! i), if miss net images results i then e + 1 else e, t) \<and> ready net (fst (io t))"
  using classify_returns [OF assms, of other r] by (auto simp: test_image_def printf_def miss_def)

lemma test_loop_returns:
  assumes "quiet_timing T" and "gaps_upto 100 T"
  shows "ready net (fst (io s)) \<Longrightarrow> \<forall>i \<in> set is. length (images ! i) = 784 \<Longrightarrow>
    \<exists>r t. for_each is (test_image (accel_rd T other) (accel_wr T) images results) (r_0, e, s) =
      Some (r, e + of_nat (length (filter (miss net images results) is)), t) \<and> ready net (fst (io t))"
proof (induction "is" arbitrary: r_0 e s)
  case (Cons i "is")
  let ?e = "if miss net images results i then e + 1 else e"
  obtain t where t: "test_image (accel_rd T other) (accel_wr T) images results i (r_0, e, s) =
      Some (accel_digit net (images ! i), ?e, t)" "ready net (fst (io t))"
    using test_image_returns [OF Cons.prems(1) _ assms] Cons.prems(2) by fastforce
  from Cons.IH [OF t(2), of "accel_digit net (images ! i)" ?e] Cons.prems(2)
  show ?case by (auto simp: t(1) add.assoc)
qed simp

section \<open>Software against hardware\<close>

text \<open>The loops of the software network, as sums.\<close>

lemma update_loop:
  "n \<le> length l \<Longrightarrow> for_loop 0 n (\<lambda>i l. l[i := f i (l ! i)]) l = map (\<lambda>i. f i (l ! i)) [0..<n] @ drop n l"
proof (induction n)
  case (Suc n)
  then have "for_loop 0 (Suc n) (\<lambda>i l. l[i := f i (l ! i)]) l =
      (map (\<lambda>i. f i (l ! i)) [0..<n] @ drop n l)[n := f n (l ! n)]"
    by (simp add: for_loop_Suc nth_append)
  also have "drop n l = l ! n # drop (Suc n) l" using Suc.prems by (intro Cons_nth_drop_Suc [symmetric]) simp
  finally show ?case by (simp add: list_update_append)
qed (simp add: for_loop_zero)

lemma add_biases_eq: "n = length l \<Longrightarrow> add_biases b n l = map (\<lambda>i. l ! i + b ! i) [0..<n]"
  using update_loop [of n l "\<lambda>i x. x + b ! i"] by (simp add: add_biases_def)

lemma apply_relu_eq: "n = length l \<Longrightarrow> apply_relu n l = map (\<lambda>i. relu (l ! i)) [0..<n]"
proof -
  assume n: "n = length l"
  have "apply_relu n l = for_loop 0 n (\<lambda>i l. l[i := relu (l ! i)]) l"
    unfolding apply_relu_def
    by (rule for_loop_cong) (auto simp: relu_def not_le signed.not_less signed.not_le)
  with n update_loop [of n l "\<lambda>i. relu"] show ?thesis by simp
qed

lemma nn_layer_inner:
  "i < length l \<Longrightarrow>
     for_loop 0 k (\<lambda>p (layer, w). (layer[i := layer ! i + inputs ! p * weights ! w], Suc w)) (l, w) =
       (l[i := l ! i + (\<Sum>p<k. inputs ! p * weights ! (w + p))], w + k)"
  by (induction k) (simp_all add: for_loop_zero for_loop_Suc add.assoc)

lemma nn_layer_outer:
  "n \<le> length l \<Longrightarrow>
     for_loop 0 n (\<lambda>i. for_loop 0 m (\<lambda>p (layer, w). (layer[i := layer ! i + inputs ! p * weights ! w], Suc w))) (l, 0) =
       (map (\<lambda>i. l ! i + (\<Sum>p<m. inputs ! p * weights ! (i * m + p))) [0..<n] @ drop n l, n * m)"
proof (induction n)
  case (Suc n)
  let ?f = "\<lambda>i. l ! i + (\<Sum>p<m. inputs ! p * weights ! (i * m + p))"
  have d: "drop n l = l ! n # drop (Suc n) l" using Suc.prems by (intro Cons_nth_drop_Suc [symmetric]) simp
  have "(map ?f [0..<n] @ drop n l)[n := ?f n] = map ?f [0..<Suc n] @ drop (Suc n) l"
    by (simp add: d list_update_append)
  with Suc show ?case
    by (simp add: for_loop_Suc nn_layer_inner nth_append mult.commute add.commute)
qed (simp add: for_loop_zero)

lemma nn_layer_eq:
  "n = length l \<Longrightarrow>
     nn_layer inputs weights n m l = map (\<lambda>i. l ! i + (\<Sum>p<m. inputs ! p * weights ! (i * m + p))) [0..<n]"
  using nn_layer_outer [of n l m inputs weights] by (simp add: nn_layer_def)

text \<open>The software loop and the comparator tree find the same index.\<close>

lemma find_maximum_eq: "find_maximum l = max_index l"
proof -
  define f where "f = (\<lambda>i :: nat. \<lambda>(result :: u32, resultnum).
    if resultnum <s l ! i then (of_nat i, l ! i) else (result, resultnum))"
  have "best_of l 0 (max 1 n) (for_loop 0 n f (0, l ! 0))" for n
  proof (induction n)
    case 0
    then show ?case using best_of_single [of "(0, l ! 0)" 0 l] by (simp add: for_loop_zero)
  next
    case (Suc n)
    let ?c = "for_loop 0 n f (0, l ! 0)"
    have p: "for_loop 0 (Suc n) f (0, l ! 0) = pick ?c (of_nat n, l ! n)"
      by (auto simp: for_loop_Suc f_def pick_def split_beta prod_eq_iff signed.not_less signed.not_le)
    show ?case
    proof (cases n)
      case 0
      then show ?thesis
        unfolding p using best_of_single [of "(0, l ! 0)" 0 l] by (simp add: for_loop_zero pick_def)
    next
      case (Suc k)
      with best_of_pick [OF Suc.IH best_of_single [of _ "max 1 n"]] p show ?thesis by simp
    qed
  qed
  from this [of 10] have "best_of l 0 10 (for_loop 0 10 f (0, l ! 0))" by simp
  then obtain i where "first_max l 10 i" "find_maximum l = of_nat i"
    unfolding find_maximum_def f_def [symmetric] by (auto simp: best_of_def first_max_def)
  with max_index_first [of l] show ?thesis by (metis first_max_unique)
qed

text \<open>The order of the weights the software expects: all weights of one node (or output) together.\<close>

definition software_order :: "network \<Rightarrow> network" where
  "software_order net = net
     \<lparr>weights_1 := map (\<lambda>k. weights_1 net ! (k div 784 + 100 * (k mod 784))) [0..<78400],
      weights_2 := map (\<lambda>k. weights_2 net ! (k div 100 + 10 * (k mod 100))) [0..<1000]\<rparr>"

lemma software_weights:
  assumes "n < 100" and "p < 784"
  shows "weights_1 (software_order net) ! (n * 784 + p) = weights_1 net ! (n + 100 * p)"
  using assms by (simp add: software_order_def nth_map_upt [of "n * 784 + p" 78400 0] del: upt_rec_numeral)

lemma software_weights_2:
  assumes "j < 10" and "k < 100"
  shows "weights_2 (software_order net) ! (j * 100 + k) = weights_2 net ! (j + 10 * k)"
  using assms by (simp add: software_order_def nth_map_upt [of "j * 100 + k" 1000 0] del: upt_rec_numeral)

section \<open>Debug accesses and the whole program\<close>

text \<open>In the idle state every access but a write to the input leaves the network in place.\<close>

lemma idle_access:
  assumes "stateReg s = idle" and "quiet p" and "Cmd m = WR \<longrightarrow> Addr m AND 0x1F = 0x10"
  shows "\<exists>v a. fst (accel_cycle p m s) = s\<lparr>memoryAddress := a, rdData := v\<rparr>"
proof (cases "Cmd m = WR")
  case True
  with assms have "fst (accel_cycle p m s) = s\<lparr>memoryAddress := ucast (Data m), rdData := mem s (rdAddr p)\<rparr>"
    by (simp add: accel_cycle_def mem_cycle_def quiet_def)
  then show ?thesis by blast
next
  case False
  with assms have "fst (accel_cycle p m s) = s\<lparr>memoryAddress := memoryAddress s,
      rdData := mem s (if Cmd m = RD \<and> Addr m AND 0x1F = 0xC then memoryAddress s else rdAddr p)\<rparr>"
    by (auto simp: accel_cycle_def accel_fsm_def mem_cycle_def quiet_def Let_def)
  then show ?thesis by blast
qed

lemma ready_access:
  assumes "ready net (fst d)" and "quiet_timing T" and "Cmd m = WR \<longrightarrow> Addr m AND 0x1F = 0x10"
  shows "ready net (fst (bus_access T m d))"
proof -
  let ?p = "fst (T (snd d))" and ?ps = "snd (T (snd d))" and ?s = "fst d"
  have q: "quiet ?p" "watching (idle_cycles ?ps)"
    using assms(2) watching_idle [of ?ps] by (simp_all add: quiet_timing_def)
  obtain v a where "fst (accel_cycle ?p m ?s) = ?s\<lparr>memoryAddress := a, rdData := v\<rparr>"
    using idle_access [OF _ q(1) assms(3), of ?s] assms(1) by (auto simp: ready_def)
  moreover from this obtain w where "feed (idle_cycles ?ps) (fst (accel_cycle ?p m ?s)) =
      fst (accel_cycle ?p m ?s)\<lparr>rdData := w\<rparr>"
    using idle_watch [of "fst (accel_cycle ?p m ?s)", OF _ q(2)] assms(1) by (auto simp: ready_def)
  ultimately show ?thesis using assms(1) by (simp add: bus_access_def access_cycles_def ready_def)
qed

lemma ready_io_rd:
  "quiet_timing T \<Longrightarrow> ready net (fst (io s)) \<Longrightarrow> ready net (fst (io (snd (io_rd (accel_rd T other) addr s))))"
  by (auto simp: io_rd_def accel_rd_def Let_def no_command_def intro!: ready_access)

lemma ready_set_address:
  "quiet_timing T \<Longrightarrow> ready net (fst (io s)) \<Longrightarrow>
     ready net (fst (io (io_wr (accel_wr T) ADR_ACCELERATOR_SET_MEM_ADDR a s)))"
  by (simp add: io_wr_def accel_wr_def ready_access)

lemma ready_cntReset: "quiet_timing T \<Longrightarrow> ready net (fst (io s)) \<Longrightarrow> ready net (fst (io (cntReset (accel_wr T) s)))"
  by (simp add: cntReset_def io_wr_def accel_wr_def ready_access no_command_def)

lemma ready_cntRead:
  "quiet_timing T \<Longrightarrow> ready net (fst (io s)) \<Longrightarrow> ready net (fst (io (snd (cntRead (accel_rd T other) s))))"
  by (simp add: cntRead_def ready_io_rd)

lemma io_printf [simp]: "io (printf f args s) = io s" "printed (printf f args s) = printed s @ [(f, args)]"
  by (simp_all add: printf_def)

lemma ready_check_word:
  "quiet_timing T \<Longrightarrow> ready net (fst (io s)) \<Longrightarrow>
     ready net (fst (io (check_word (accel_rd T other) (accel_wr T) a v s)))"
  by (simp add: check_word_def readFromMem_def Let_def split_beta ready_io_rd ready_set_address)

lemma ready_fill:
  assumes "awaits (fst (io s))" and "nodeIdx (fst (io s)) = 0" and "length (layer2 (fst (io s))) = 10"
    and "network_shape net" and "quiet_timing T"
  shows "ready net (fst (io (fillNeuralNetwork (accel_rd T other) (accel_wr T) net v s)))"
proof -
  let ?m = "\<lparr>Cmd = WR, Addr = ADR_ACCELERATOR_INPUT, Data = 0 :: u32\<rparr>" and ?k = "snd (io s)"
  let ?j = "if v then Suc (Suc ?k) else Suc ?k"
  let ?cs = "access_cycles (T ?k) ?m @ (if v then read_cycles (T (Suc ?k)) ADR_ACCELERATOR_STATUS else []) @
    write_accesses T ?j (parameters net)"
  have "fst (io (fillNeuralNetwork (accel_rd T other) (accel_wr T) net v s)) = feed ?cs (fst (io s))"
    using assms(4)
    by (cases v) (simp_all add: fillNeuralNetwork_def network_shape_def write_loop io_wr_input io_rd_status
      bus_access_def parameters_def ac_simps)
  moreover have "ready net (feed ?cs (fst (io s)))"
    by (rule ready_load [OF assms(1-4)])
      (use assms(5) watching_read(1) [OF assms(5)] in \<open>simp_all add: calm_def watching_def\<close>)
  ultimately show ?thesis by simp
qed

lemma awaits_read:
  assumes "stateReg (fst (io s)) = noNN" and "quiet_timing T"
  shows "awaits (fst (io (snd (io_rd (accel_rd T other) ADR_ACCELERATOR_STATUS s)))) \<and>
    nodeIdx (fst (io (snd (io_rd (accel_rd T other) ADR_ACCELERATOR_STATUS s)))) = nodeIdx (fst (io s)) \<and>
    layer2 (fst (io (snd (io_rd (accel_rd T other) ADR_ACCELERATOR_STATUS s)))) = layer2 (fst (io s))"
proof -
  have "watching ds \<Longrightarrow> stateReg d = noNN \<Longrightarrow> \<exists>v. feed ds d = d\<lparr>rdData := v\<rparr>" for ds d
  proof (induction ds arbitrary: d)
    case Nil
    then show ?case by (intro exI [of _ "rdData d"]) simp
  next
    case (Cons c ds)
    obtain p m where c: "c = (p, m)" by (cases c)
    with Cons.prems have "fst (accel_cycle p m d) = d\<lparr>rdData := mem d (rdAddr p)\<rparr>"
      by (simp add: wait_other awaits_def)
    with Cons.IH [of "d\<lparr>rdData := mem d (rdAddr p)\<rparr>"] Cons.prems c show ?case by auto
  qed
  from this [OF watching_read(1) [OF assms(2), of "snd (io s)"] assms(1)]
  obtain v where "feed (read_cycles (T (snd (io s))) ADR_ACCELERATOR_STATUS) (fst (io s)) = fst (io s)\<lparr>rdData := v\<rparr>" ..
  with assms(1) show ?thesis by (simp add: io_rd_status awaits_def)
qed

lemma ready_loadNetworkCheck:
  assumes "stateReg (fst (io s)) = noNN" and "nodeIdx (fst (io s)) = 0" and "length (layer2 (fst (io s))) = 10"
    and "network_shape net" and "quiet_timing T"
  shows "ready net (fst (io (loadNetworkCheck (accel_rd T other) (accel_wr T) net s)))"
  unfolding loadNetworkCheck_def Let_def split_beta
  by (simp only: io_printf) (intro ready_check_word ready_io_rd assms(5);
      simp only: io_printf; intro ready_io_rd ready_fill assms(4,5);
      use awaits_read [OF assms(1,5)] assms(2,3) in simp)

lemma printed_bus [simp]:
  "printed (io_wr wr a d s) = printed s"
  "printed (snd (io_rd rd a s)) = printed s"
  "printed (cntReset wr s) = printed s"
  "printed (snd (cntRead rd s)) = printed s"
  by (simp_all add: io_wr_def io_rd_def cntReset_def cntRead_def split_beta)

lemma calculateNNCPU_printed:
  "printed (snd (snd (calculateNNCPU rd wr net images l1 l2 i xts s))) = printed s"
  by (simp add: calculateNNCPU_def Let_def split_beta)

lemma software_runs_printed:
  "printed (snd (for_loop 0 n (\<lambda>i (xts, s). snd (calculateNNCPU rd wr net images (l1 i) (l2 i) i xts s)) (xts, s))) =
     printed s"
  by (induction n) (simp_all add: for_loop_zero for_loop_Suc split_beta calculateNNCPU_printed)

lemma test_phase_returns:
  assumes "ready net (fst (io s))" and "\<forall>i<100. length (images ! i) = 784" and "quiet_timing T" and "gaps_upto 100 T"
  shows "\<exists>r t. for_each [0..<100] (test_image (accel_rd T other) (accel_wr T) images results) (r_0, 0, s) =
      Some (r, of_nat (length (filter (miss net images results) [0..<100])), t) \<and> ready net (fst (io t))"
  using test_loop_returns [OF assms(3,4,1), of "[0..<100]" images other results r_0 0] assms(2)
  by (simp del: upt_rec_numeral)

section \<open>Properties\<close>

text \<open>C3: software against hardware. The software network, started with zeroed arrays, computes the same
  digit as the accelerator when its parameters are laid out node by node instead of pixel by pixel
  (\<^const>\<open>software_order\<close>) and the last output bias is the first hidden node, as in the accelerator.
  The parameter file has one layout only, and the C code starts from uninitialised arrays.\<close>

theorem software_network_equivalence:
  assumes "network_shape net" and "length (images ! i) = 784"
  shows "fst (calculateNNCPU rd wr (software_order (aliased net (images ! i))) images (replicate 100 0) (replicate 10 0)
     i xts s) = accel_digit net (images ! i)"
proof -
  let ?img = "images ! i" and ?net = "aliased net (images ! i)"
  have shape: "length (weights_1 ?net) = 78400" "biases_1 (software_order ?net) = biases_1 net"
    "biases_2 (software_order ?net) = biases_2 ?net" "weights_1 ?net = weights_1 net" "weights_2 ?net = weights_2 net"
    using assms(1) by (simp_all add: network_shape_def aliased_def software_order_def)
  have h: "apply_relu 100 (add_biases (biases_1 net) 100
      (nn_layer ?img (weights_1 (software_order ?net)) 100 784 (replicate 100 0))) = map (nn_hidden net ?img) [0..<100]"
    by (rule nth_equalityI)
      (simp_all add: apply_relu_eq add_biases_eq nn_layer_eq nn_hidden_def software_weights shape(4)
        del: upt_rec_numeral)
  have "add_biases (biases_2 ?net) 10 (nn_layer (map (nn_hidden net ?img) [0..<100])
      (weights_2 (software_order ?net)) 10 100 (replicate 10 0)) = nn_outputs ?net ?img"
  proof (rule nth_equalityI)
    have hid: "nn_hidden ?net ?img = nn_hidden net ?img"
      by (simp add: fun_eq_iff nn_hidden_def aliased_def)
    fix j assume "j < length (add_biases (biases_2 ?net) 10 (nn_layer (map (nn_hidden net ?img) [0..<100])
        (weights_2 (software_order ?net)) 10 100 (replicate 10 0)))"
    then have "j < 10" by (simp add: add_biases_eq nn_layer_eq del: upt_rec_numeral)
    then show "add_biases (biases_2 ?net) 10 (nn_layer (map (nn_hidden net ?img) [0..<100])
        (weights_2 (software_order ?net)) 10 100 (replicate 10 0)) ! j = nn_outputs ?net ?img ! j"
      by (simp add: add_biases_eq nn_layer_eq nn_outputs_def nn_output_def software_weights_2 hid
          del: upt_rec_numeral)
  qed (simp add: add_biases_eq nn_layer_eq nn_outputs_def del: upt_rec_numeral)
  with h show ?thesis
    by (simp add: calculateNNCPU_def Let_def split_beta shape(2,3) find_maximum_eq accel_digit_def)
qed

text \<open>A timing with seven cycles after each access, and one whose accesses drift apart.\<close>

definition steady_timing :: timing where
  "steady_timing = (\<lambda>_. (no_ports, replicate 7 no_ports))"

definition uneven_timing :: timing where
  "uneven_timing = (\<lambda>k. (no_ports\<lparr>rdAddr := of_nat k\<rparr>, replicate (k mod 101) no_ports))"

lemma example_timings:
  "quiet_timing steady_timing" "gaps_upto 100 steady_timing" "quiet_timing uneven_timing" "gaps_upto 100 uneven_timing"
proof -
  have "k mod 101 \<le> 100" for k :: nat by (simp add: less_Suc_eq_le [symmetric])
  then show "quiet_timing steady_timing" "gaps_upto 100 steady_timing" "quiet_timing uneven_timing" "gaps_upto 100 uneven_timing"
    by (simp_all add: quiet_timing_def gaps_upto_def steady_timing_def uneven_timing_def quiet_def no_ports_def)
qed

lemma software_network_equivalence_witness:
  "fst (calculateNNCPU (accel_rd steady_timing (\<lambda>_ _. 0)) (accel_wr steady_timing)
     (software_order (aliased zero_network (replicate 784 1))) [replicate 784 1] (replicate 100 0) (replicate 10 0)
     0 (replicate 100 0) \<lparr>io = (accel_init (\<lambda>_. 0) (replicate 10 0) 0, 0), printed = []\<rparr>) =
   accel_digit zero_network (replicate 784 1)"
  using software_network_equivalence [OF zero_network_shape, of "[replicate 784 1]" 0] by simp

text \<open>
  The debug read. It returns the word at the address only when the two reads of the memory output
  follow each other without a cycle between; any idle cycle lets the undriven read port replace the word by the one
  at its own address. The network stays loaded.
\<close>

theorem readFromMem_value:
  assumes "ready net (fst (io s))" and "quiet_timing T" and "ps = snd (T (Suc (snd (io s))))"
  shows "fst (readFromMem (accel_rd T other) (accel_wr T) a s) =
      mem (fst (io s)) (if ps = [] then ucast a else rdAddr (last ps)) \<and>
    ready net (fst (io (snd (readFromMem (accel_rd T other) (accel_wr T) a s))))"
proof -
  let ?s = "fst (io s)" and ?k = "snd (io s)"
  let ?p = "fst (T ?k)" and ?q = "fst (T (Suc ?k))"
  have idle: "stateReg ?s = idle" using assms(1) by (simp add: ready_def)
  have q: "quiet ?p" "quiet ?q" "\<forall>p \<in> set ps. quiet p" "watching (idle_cycles (snd (T ?k)))"
    using assms(2,3) watching_idle by (simp_all add: quiet_timing_def)
  let ?d = "?s\<lparr>memoryAddress := ucast a, rdData := mem ?s (rdAddr ?p)\<rparr>"
  have "fst (accel_cycle ?p \<lparr>Cmd = WR, Addr = ADR_ACCELERATOR_SET_MEM_ADDR, Data = a\<rparr> ?s) = ?d"
    using idle q(1) by (simp add: accel_cycle_def mem_cycle_def quiet_def)
  moreover obtain u where "feed (idle_cycles (snd (T ?k))) ?d = ?d\<lparr>rdData := u\<rparr>"
    using idle_watch [of ?d, OF _ q(4)] idle by auto
  ultimately have d: "accel_wr T ADR_ACCELERATOR_SET_MEM_ADDR a (io s) = (?d\<lparr>rdData := u\<rparr>, Suc ?k)"
    by (simp add: accel_wr_def bus_access_def access_cycles_def)
  let ?e = "?d\<lparr>rdData := mem ?s (ucast a)\<rparr>"
  have "fst (accel_cycle ?q \<lparr>Cmd = RD, Addr = ADR_ACCELERATOR_MEMORY_TEST_READ, Data = 0\<rparr> (?d\<lparr>rdData := u\<rparr>)) = ?e"
    using idle q(2) by (simp add: accel_cycle_def accel_fsm_def mem_cycle_def quiet_def)
  then have "snd (accel_rd T other ADR_ACCELERATOR_MEMORY_TEST_READ (?d\<lparr>rdData := u\<rparr>, Suc ?k)) =
      (feed (idle_cycles ps) ?e, Suc (Suc ?k))"
    by (simp add: accel_rd_def bus_access_def access_cycles_def assms(3))
  moreover have rd: "fst (accel_rd T other ADR_ACCELERATOR_MEMORY_TEST_READ x) = rdData (fst x)" for x
    by (simp add: accel_rd_def accel_cycle_def Let_def split_beta)
  moreover have "rdData (feed (idle_cycles ps) ?e) = mem ?s (if ps = [] then ucast a else rdAddr (last ps))"
    using q(3)
  proof (cases ps rule: rev_cases)
    case (snoc qs p)
    obtain v where "feed (idle_cycles qs) ?e = ?e\<lparr>rdData := v\<rparr>"
      using idle_watch [of ?e "idle_cycles qs"] watching_idle [of qs] idle q(3) snoc by auto
    then have "feed (idle_cycles ps) ?e = fst (accel_cycle p no_command (?e\<lparr>rdData := v\<rparr>))"
      unfolding snoc by simp
    with snoc idle q(3) show ?thesis
      by (simp add: accel_cycle_def accel_fsm_def mem_cycle_def quiet_def no_command_def)
  qed simp
  ultimately have "fst (readFromMem (accel_rd T other) (accel_wr T) a s) =
      mem ?s (if ps = [] then ucast a else rdAddr (last ps))"
    using d rd by (simp add: readFromMem_def Let_def split_beta io_rd_def io_wr_def)
  moreover have "ready net (fst (io (snd (readFromMem (accel_rd T other) (accel_wr T) a s))))"
    using assms by (simp add: readFromMem_def Let_def split_beta ready_io_rd ready_set_address)
  ultimately show ?thesis by blast
qed

lemma zero_network_ready:
  "quiet_timing T \<Longrightarrow> ready zero_network (fst (io (fillNeuralNetwork (accel_rd T other) (accel_wr T) zero_network True
     \<lparr>io = (accel_init (\<lambda>_. 0) (replicate 10 0) 0, k), printed = []\<rparr>)))"
  by (rule ready_fill) (simp_all add: awaits_def accel_init_def zero_network_shape)

text \<open>
  The test of one image on the accelerator. With a network loaded and at most 100 cycles between
  two bus accesses, loading an image and polling for the result returns, the result is the digit of
  this image, the error count goes up exactly when that is not the expected one, and the device is
  ready for the next image.\<close>

theorem image_test_returns:
  assumes "ready net (fst (io s))" and "length (images ! i) = 784" and "quiet_timing T" and "gaps_upto 100 T"
  shows "\<exists>t. test_image (accel_rd T other) (accel_wr T) images results i (r, e, s) =
      Some (accel_digit net (images ! i),
        if accel_digit net (images ! i) = results ! i then e else e + 1, t) \<and> ready net (fst (io t))"
  using test_image_returns [OF assms, of other results r e] by (auto simp: miss_def)

lemma image_test_returns_witness:
  "\<exists>t. test_image (accel_rd uneven_timing (\<lambda>_ _. 0)) (accel_wr uneven_timing) [replicate 784 1] [0] 0 (0, 0,
      fillNeuralNetwork (accel_rd uneven_timing (\<lambda>_ _. 0)) (accel_wr uneven_timing) zero_network True
        \<lparr>io = (accel_init (\<lambda>_. 0) (replicate 10 0) 0, 0), printed = []\<rparr>) =
    Some (accel_digit zero_network ([replicate 784 1] ! 0),
      if accel_digit zero_network ([replicate 784 1] ! 0) = [0] ! 0 then 0 else 0 + 1, t) \<and>
    ready zero_network (fst (io t))"
  by (rule image_test_returns [OF zero_network_ready]) (simp_all add: example_timings)

text \<open>C2: the whole test program. Started with the device in its initial state, and with at most 100 cycles
  between two bus accesses, in which the undriven memory ports write nothing but may change at any time, it returns, and the number of errors it prints is the number of images
  whose digit is not the expected one.\<close>

theorem accelerator_main_counts:
  assumes "stateReg (fst (io s)) = noNN" and "nodeIdx (fst (io s)) = 0" and "length (layer2 (fst (io s))) = 10"
    and "network_shape net" and "\<forall>i<100. length (images ! i) = 784" and "quiet_timing T" and "gaps_upto 100 T"
  shows "\<exists>t. accelerator_main (accel_rd T other) (accel_wr T) net images results xts r_0 l1 l2 s = Some t \<and>
    (''100 tests done. Number of errors: %d'',
      [of_nat (length (filter (\<lambda>i. accel_digit net (images ! i) \<noteq> results ! i) [0..<100]))]) \<in> set (printed t)"
proof -
  let ?rd = "accel_rd T other" and ?wr = "accel_wr T"
  let ?n = "of_nat (length (filter (miss net images results) [0..<100])) :: u32"
  let ?msg = "(''100 tests done. Number of errors: %d'', [?n])"
  let ?a = "printf ''=========================='' [] (printf ''Starting inference test...'' []
    (printf ''=========================='' [] (loadNetworkCheck ?rd ?wr net (printf ''Program started'' [] s))))"
  have "ready net (fst (io ?a))"
    using ready_loadNetworkCheck [OF _ _ _ assms(4,6), of "printf ''Program started'' [] s" other] assms(1-3) by simp
  from test_phase_returns [OF this assms(5-7)] obtain r b where
    b: "for_each [0..<100] (test_image ?rd ?wr images results) (r_0, 0, ?a) = Some (r, ?n, b)" "ready net (fst (io b))"
    by blast
  let ?c = "cntReset ?wr (printf ''Measuring execution time with no printf...'' []
    (printf ''100 tests done. Number of errors: %d'' [?n] b))"
  have "ready net (fst (io ?c))" using b(2) by (simp add: ready_cntReset assms(6))
  from classify_returns [OF this _ assms(6,7), of images 0 other r] assms(5) obtain r' d where
    d: "await_result ?rd r (loadImg ?rd ?wr images 0 False ?c) = Some (r', ?c\<lparr>io := d\<rparr>)" by auto
  have "?msg \<in> set (printed (?c\<lparr>io := d\<rparr>))" by simp
  then have "\<exists>t. accelerator_main ?rd ?wr net images results xts r_0 l1 l2 s = Some t \<and> ?msg \<in> set (printed t)"
    by (simp add: accelerator_main_def b(1) d Let_def split_beta software_runs_printed del: upt_rec_numeral)
  then show ?thesis by (simp add: miss_def [abs_def] del: upt_rec_numeral)
qed

lemma accelerator_main_counts_witness:
  "\<exists>t. accelerator_main (accel_rd uneven_timing (\<lambda>_ _. 0)) (accel_wr uneven_timing) zero_network
      (replicate 100 (replicate 784 1)) (replicate 100 3) (replicate 100 0) 0 (\<lambda>_. replicate 100 0) (\<lambda>_. replicate 10 0)
      \<lparr>io = (accel_init (\<lambda>_. 0) (replicate 10 0) 0, 0), printed = []\<rparr> = Some t \<and>
    (''100 tests done. Number of errors: %d'',
      [of_nat (length (filter (\<lambda>i. accel_digit zero_network (replicate 100 (replicate 784 1) ! i) \<noteq>
         replicate 100 3 ! i) [0..<100]))]) \<in> set (printed t)"
  by (rule accelerator_main_counts)
    (simp_all add: accel_init_def zero_network_shape example_timings)

end
