(* ===== verification/Accelerator_Params.thy ===== *)
theory Accelerator_Params
  imports Accelerator_Inference
begin

text \<open>
  The shipped parameters of the output layer and the biases of the hidden layer
  (\<^verbatim>\<open>c/accelerator/parameters.h\<close>), and the expected digits of the 100 test images
  (\<^verbatim>\<open>c/accelerator/collection.h\<close>), as the files list them; and that the accelerator's 32-bit
  arithmetic is exact on them.
\<close>

section \<open>The data\<close>

definition shipped_weights_2 :: "int list" where
  "shipped_weights_2 = [
    -4, -16, 22, 30, -83, -45, -53, 41, 2, -2, 15, 13, 20, 19, -42, 19, 14, -46, 26, -21, 20,
    -42, 11, -39, 6, -27, -13, -15, -11, 31, 25, 17, -9, -18, 5, -34, 30, -19, 25, -8, 2, -40,
    22, 34, -65, -4, 40, -44, -1, -31, -47, 11, -34, 20, -3, -1, -15, -47, 35, 24, -36, 2, -3,
    27, -35, 31, 35, 22, -27, -80, -53, -51, -13, 18, 7, 16, -48, -31, 9, 1, 26, -26, -27, -1,
    -5, 2, 16, 23, -40, 12, 28, -42, 26, 1, -91, 46, -1, 11, -26, -48, 16, 35, 11, -34, -18,
    -103, -31, 27, 8, -27, -28, 17, -62, 22, 34, -39, 6, 16, -1, 32, -40, -38, -4, -47, -81,
    57, 47, -26, -29, 10, -8, 17, 25, 20, -71, 12, 0, 31, -25, -83, 6, -7, 35, -10, 11, -61,
    -8, 16, -30, -2, -33, 67, 23, -26, 35, -19, 14, -40, -20, -42, 22, 5, 18, -5, -33, 13, 31,
    -26, -3, -15, -57, 60, 51, -19, -33, 11, 6, 55, -1, -86, -7, 6, 34, -26, 10, -25, 12, -62,
    4, 15, -31, -26, 24, 13, -42, -26, 28, 4, 21, 10, 21, 9, 20, 19, -81, -13, -38, 7, -7, 16,
    -54, -5, -6, -36, 51, -62, -34, 16, -27, -14, -47, 20, -44, 24, 1, 25, -49, 11, -23, 19,
    -29, 21, -47, -58, 13, 26, -12, -30, -2, 28, 21, -2, 26, -18, -1, -3, -41, -26, -3, 0, -61,
    34, 9, 24, 24, 17, -16, -37, -4, -2, -3, 27, 9, 22, -11, -22, -24, -8, 27, 6, 21, 35, -14,
    23, -27, 25, -56, -50, -36, 13, -35, 1, -17, 54, 36, -68, 13, 2, 10, -23, 4, 3, -25, 7,
    -63, 1, 11, -2, -3, -13, 28, -17, 24, -20, 18, 35, -58, 23, -50, 21, 23, -9, 16, 19, 16,
    -6, 6, -20, -14, -47, 20, -46, 14, -30, -48, -15, 13, -14, 24, -57, 25, -22, 17, -8, -28,
    -8, -34, 4, -41, -48, 18, -30, 16, 24, 10, -7, 20, -2, 11, 18, 35, -5, -26, 59, -44, -19,
    8, 5, -37, 12, -20, -28, -23, -18, -4, -3, 5, -15, 8, 7, -33, -10, -39, 15, 11, -1, -33,
    18, -22, 3, 18, 11, 4, -70, 34, 6, -23, 30, -10, 19, -39, 10, -14, 37, 17, -27, -6, 27,
    -74, 13, 24, -39, 13, -23, 30, 12, 27, -48, 1, -4, 2, 68, -27, -1, 52, -31, 40, -27, -37,
    -56, -34, 10, 15, 14, 27, 12, -41, 7, -62, 17, -1, 0, 20, -56, 17, -40, 40, 14, 29, -23,
    -80, 2, -52, 43, -12, 20, -127, -4, -95, 45, -21, 36, 24, 28, 0, 23, -29, 34, -53, -21,
    -33, 10, 52, -24, 58, 7, -54, -18, -14, -35, -6, -1, -7, -12, -15, -11, -9, -15, 3, -13,
    -25, 30, 32, 4, 37, -82, -68, -2, -34, 22, -32, 67, -40, -50, -68, 62, 40, 2, -28, 13, -34,
    7, 18, -23, 26, -11, 22, -2, -64, 30, -16, 12, -43, -39, -19, 21, 31, -24, -10, 5, -65, 10,
    14, -7, -25, 11, -21, 33, 12, -45, -11, -30, 2, 1, -10, 16, -1, -34, 23, 7, 5, 0, 10, 19,
    -18, -11, -14, -28, 15, -3, -27, 38, -11, -40, -1, -2, -50, 10, 22, 32, -3, -28, 14, 9, 11,
    -53, -6, 22, 2, 18, -45, 18, 20, 20, 26, 3, 16, 32, -8, -51, -45, -40, 4, 29, -17, -32,
    -51, 8, 6, 22, 12, -13, -1, 2, 29, 24, 22, -35, -50, -38, 7, -31, -4, -52, -13, 3, 10, 10,
    -14, 27, -16, 18, 14, 3, -15, -16, 20, -34, 21, -5, 45, 7, 22, 3, -41, -28, 18, 10, -52,
    34, 19, -43, -11, 7, 6, 6, -17, -9, -3, 1, -32, -46, -56, 7, -15, 21, -2, 10, 14, -9, -8,
    2, -33, 10, 18, -16, 13, -11, 11, 17, 15, -38, 8, 21, -15, 24, -41, 19, 22, 20, -30, -9,
    -58, -20, 31, 64, -3, 28, -9, -63, -48, 11, -2, 2, 16, 18, -24, -48, 23, 7, -27, -43, -31,
    22, 9, 25, -6, 16, 20, 18, -53, 22, 2, 3, 23, 19, 16, 3, -15, 8, 16, 13, 26, -7, -6, -40,
    20, 35, 2, -79, -4, -6, -4, -11, 5, -17, -51, 4, 9, 11, -7, 14, 19, -57, 9, 42, -29, 41,
    -46, 20, -4, 39, -25, -63, 37, -32, -12, 29, 18, -31, -24, 22, 36, -38, -2, -17, -15, -36,
    14, -10, -10, -65, 8, 35, 9, 32, -28, 8, 8, -4, -38, 28, 25, 16, -38, 17, -47, 37, 11, -67,
    -55, -7, 18, 15, -6, -7, -3, 2, 24, -24, 23, -40, -60, -52, 18, 2, -9, 32, -23, 25, 15, 33,
    17, 6, -64, 53, 2, 2, -52, -31, 13, -26, -13, -10, 21, -18, 13, -24, 24, -19, 13, 45, -52,
    -22, 25, -31, -30, 29, -49, 38, 14, -57, -66, -16, 8, 21, 32, -35, 1, 10, 11, 22, -7, -43,
    27, -41, 19, 49, -67, -33, -57, 7, 48, -19, -65, 28, 2, 6, 1, -71, 15, -14, -15, -20, -2,
    -19, -21, -9, -21, 5, -20, -74, -9, -64, 27, 33, -9, -27, 32, -8, -28, 4, -49, 21, 21, 23,
    -8, 10, 23, -9, 10, -19, 11, -22, -16, -12, 4, -19, -12, 11, 54, -6, 8, 0, 12, -21, -23, 0,
    -56, -11, 25, -16, -20, 3, -4, -11, 1, 19, 24, 28, 22, 5, 10, 21, 20, -22, 37, 11, -39,
    -50, 9, 0, -60, 12, -9, 35, 13, 14, 27, 20, 27, -1, 17, -25, 7, -39, 7, 14, 2, 9, 7, -18,
    34, -1, -62, -13, -45, -33, 0, 34, 16, 18, 16, 13, -3, -72, -59, 15, 3, 23, 37, -55, 32,
    14, -59, 9, -19, 15, 19, 34, 4, -17, 0, -45, 21, 16, -28, 24, 24, -7, 20, 2, -7, -22, -60,
    13, 23, 18, 16, -31]"

definition shipped_biases_1 :: "int list" where
  "shipped_biases_1 = [
    -4094, 2053, -1515, -1262, 1956, 1084, 959, -1936, -3020, 5581, -731, -960, 2804, 2524,
    409, 4813, 2554, 3454, 935, -1214, -2996, 2514, -1345, 7707, 1082, 1988, -914, 55, -323,
    -103, 4568, -1621, 3397, 2509, -4438, -2735, -219, -36, 3072, 185, 3685, 1767, 5657, 1897,
    -41, -1796, 6622, -711, 2585, 2611, 3304, 3399, 95, 3312, -2682, 6259, -222, 3771, -2450,
    931, 67, 1531, -1688, 1037, 812, -2479, -1815, 6147, 1440, 2641, 5055, -2323, -199, 4670,
    -979, 3315, 3418, -1882, 2049, -1327, 5971, 1606, 593, -4136, 4212, 2050, -629, 3657, 1333,
    -1293, 2063, -3593, -4021, 5207, -1011, -3055, -2114, -832, 3359, 2997]"

definition shipped_biases_2 :: "int list" where
  "shipped_biases_2 = [-285, 27, -41, -209, 165, 360, -74, -277, 276, -97]"

definition shipped_results :: "int list" where
  "shipped_results = [
    5, 0, 4, 1, 9, 2, 1, 3, 1, 4, 3, 5, 3, 6, 1, 7, 2, 8, 6, 9, 4, 0, 9, 1, 1, 2, 4, 3, 2, 7,
    3, 8, 6, 9, 0, 5, 6, 0, 7, 6, 1, 8, 7, 9, 3, 9, 8, 5, 9, 3, 3, 0, 7, 4, 9, 8, 0, 9, 4, 1,
    4, 4, 6, 0, 4, 5, 6, 1, 0, 0, 1, 7, 1, 6, 3, 0, 2, 1, 1, 7, 9, 0, 2, 6, 7, 8, 3, 9, 0, 4,
    6, 7, 4, 6, 8, 0, 7, 8, 3, 1]"

section \<open>Exact sums\<close>

text \<open>The sums over the weights of each output: ten entries of the list at a time.\<close>

fun sum_tens :: "(int \<Rightarrow> int) \<Rightarrow> int list \<Rightarrow> int list" where
  "sum_tens f (x0 # x1 # x2 # x3 # x4 # x5 # x6 # x7 # x8 # x9 # xs) =
     map2 (+) (map f [x0, x1, x2, x3, x4, x5, x6, x7, x8, x9]) (sum_tens f xs)"
| "sum_tens f xs = [0, 0, 0, 0, 0, 0, 0, 0, 0, 0]"

lemma length_sum_tens: "length (sum_tens f xs) = 10"
  by (induction f xs rule: sum_tens.induct) simp_all

lemma sum_tens_step:
  assumes "length xs = 10 + n"
  obtains h r where "xs = h @ r" and "length h = 10" and "length r = n"
    and "sum_tens f xs = map2 (+) (map f h) (sum_tens f r)"
proof -
  obtain x0 x1 x2 x3 x4 x5 x6 x7 x8 x9 r where
    xs: "xs = x0 # x1 # x2 # x3 # x4 # x5 # x6 # x7 # x8 # x9 # r" and "length r = n"
    using assms by (auto simp: length_Suc_conv eval_nat_numeral)
  then show ?thesis by (intro that [of "[x0, x1, x2, x3, x4, x5, x6, x7, x8, x9]" r]) simp_all
qed

lemma sum_tens_nth:
  "length xs = n * 10 \<Longrightarrow> j < 10 \<Longrightarrow> sum_tens f xs ! j = (\<Sum>k<n. f (xs ! (j + 10 * k)))"
proof (induction n arbitrary: xs)
  case 0
  then have "j \<in> {0, 1, 2, 3, 4, 5, 6, 7, 8, 9}" by auto
  with 0 show ?case by auto
next
  case (Suc n)
  from Suc.prems(1) have "length xs = 10 + n * 10" by simp
  then obtain h r where x: "xs = h @ r" "length h = 10" and r: "length r = n * 10"
    and s: "sum_tens f xs = map2 (+) (map f h) (sum_tens f r)"
    by (rule sum_tens_step [where f = f])
  have "sum_tens f xs ! j = f (h ! j) + sum_tens f r ! j"
    using Suc.prems(2) by (simp add: s x(2) length_sum_tens)
  also have "f (h ! j) = f (xs ! (j + 10 * 0))" using Suc.prems(2) by (simp add: x nth_append)
  also have "sum_tens f r ! j = (\<Sum>k<n. f (xs ! (j + 10 * Suc k)))"
    unfolding Suc.IH [OF r Suc.prems(2)] x by (simp add: nth_append x(2))
  finally show ?case by (simp only: sum.lessThan_Suc_shift)
qed

lemma shipped_sizes: "length shipped_weights_2 = 1000" "length shipped_biases_2 = 10"
  by (simp_all add: shipped_weights_2_def shipped_biases_2_def)

lemma positive_weights: "\<forall>s \<in> set (sum_tens (max 0) shipped_weights_2). s \<le> 1086"
  by (simp add: shipped_weights_2_def)

lemma negative_weights: "\<forall>s \<in> set (sum_tens (\<lambda>w. max 0 (- w)) shipped_weights_2). s \<le> 1604"
  by (simp add: shipped_weights_2_def)

lemma sint_exact: "- 2147483648 \<le> x \<Longrightarrow> x < 2147483648 \<Longrightarrow> sint (of_int x :: u32) = x"
  by (simp add: signed_of_int signed_take_bit_int_eq_self)

lemma relu_exact: "- 2147483648 \<le> x \<Longrightarrow> x < 2147483648 \<Longrightarrow> relu (of_int x) = of_int (max 0 x)"
  by (auto simp: relu_def word_sless_alt sint_exact max_def)

lemma product_bounds:
  fixes a b :: int
  assumes "0 \<le> a" and "a \<le> A"
  shows "a * b \<le> A * max 0 b" and "- (A * max 0 (- b)) \<le> a * b"
proof -
  have "a * b \<le> A * max 0 b" for b
  proof (cases "0 \<le> b")
    case False
    then show ?thesis using assms by (simp add: mult_nonneg_nonpos)
  qed (use assms in \<open>simp add: mult_right_mono\<close>)
  from this [of b] this [of "- b"]
  show "a * b \<le> A * max 0 b" and "- (A * max 0 (- b)) \<le> a * b" by simp_all
qed

lemma sum_bounds:
  fixes a b :: "nat \<Rightarrow> int"
  assumes "\<forall>k<n. 0 \<le> a k \<and> a k \<le> A" and "m \<le> n" and "0 \<le> A"
  shows "(\<Sum>k<m. a k * b k) \<le> A * (\<Sum>k<n. max 0 (b k))" and "- (A * (\<Sum>k<n. max 0 (- b k))) \<le> (\<Sum>k<m. a k * b k)"
proof -
  have g: "(\<Sum>k<m. A * max 0 (c k)) \<le> A * (\<Sum>k<n. max 0 (c k))" for c :: "nat \<Rightarrow> int"
    unfolding sum_distrib_left by (rule sum_mono2) (use assms(2,3) in auto)
  have "(\<Sum>k<m. a k * b k) \<le> (\<Sum>k<m. A * max 0 (b k))"
    by (rule sum_mono) (use assms(1,2) product_bounds(1) in fastforce)
  with g [of b] show "(\<Sum>k<m. a k * b k) \<le> A * (\<Sum>k<n. max 0 (b k))" by linarith
  have "(\<Sum>k<m. - (A * max 0 (- b k))) \<le> (\<Sum>k<m. a k * b k)"
    by (rule sum_mono) (use assms(1,2) product_bounds(2) in fastforce)
  with g [of "\<lambda>k. - b k"] show "- (A * (\<Sum>k<n. max 0 (- b k))) \<le> (\<Sum>k<m. a k * b k)"
    by (simp add: sum_negf)
qed

lemma column_sums:
  assumes "j < 10"
  shows "(\<Sum>k<100. max 0 (shipped_weights_2 ! (j + 10 * k))) \<le> 1086"
    and "(\<Sum>k<100. max 0 (- shipped_weights_2 ! (j + 10 * k))) \<le> 1604"
proof -
  have n: "length shipped_weights_2 = 100 * 10" by (simp add: shipped_sizes)
  have m: "sum_tens f shipped_weights_2 ! j \<in> set (sum_tens f shipped_weights_2)" for f
    using assms by (simp add: length_sum_tens)
  show "(\<Sum>k<100. max 0 (shipped_weights_2 ! (j + 10 * k))) \<le> 1086"
    using positive_weights m [of "max 0"] sum_tens_nth [OF n assms, of "max 0"] by fastforce
  show "(\<Sum>k<100. max 0 (- shipped_weights_2 ! (j + 10 * k))) \<le> 1604"
    using negative_weights m [of "\<lambda>w. max 0 (- w)"] sum_tens_nth [OF n assms, of "\<lambda>w. max 0 (- w)"] by fastforce
qed

lemma biases_2_bounds: "\<forall>b \<in> set shipped_biases_2. \<bar>b\<bar> \<le> 360"
  by (simp add: shipped_biases_2_def)

section \<open>Property\<close>

text \<open>No overflow with the shipped parameters. As long as the hidden values lie between 0 and 1338000,
  every partial sum of the output layer and the output itself fit into 32 bits, so that the
  accelerator's outputs are those of exact integer arithmetic.\<close>

theorem shipped_outputs_exact:
  assumes "weights_2 net = map of_int shipped_weights_2" and "biases_2 net = map of_int shipped_biases_2"
    and "\<forall>k<100. 0 \<le> a k \<and> a k \<le> (1338000 :: int)" and "j < 10"
  shows "(\<forall>m\<le>100. \<bar>\<Sum>k<m. a k * shipped_weights_2 ! (j + 10 * k)\<bar> < 2147483648) \<and>
    sint (nn_output net (\<lambda>k. of_int (a k)) j) =
      (\<Sum>k<100. a k * shipped_weights_2 ! (j + 10 * k)) + shipped_biases_2 ! j"
proof -
  let ?w = "\<lambda>k. shipped_weights_2 ! (j + 10 * k)"
  have b: "(\<Sum>k<m. a k * ?w k) \<le> 1338000 * 1086 \<and> - (1338000 * 1604) \<le> (\<Sum>k<m. a k * ?w k)"
    if "m \<le> 100" for m
    using sum_bounds [OF assms(3) that, where b = ?w] column_sums [OF assms(4)] by linarith
  have "nn_output net (\<lambda>k. of_int (a k)) j = of_int ((\<Sum>k<100. a k * ?w k) + shipped_biases_2 ! j)"
    using assms(1,2,4) by (simp add: nn_output_def shipped_sizes)
  moreover have "\<bar>shipped_biases_2 ! j\<bar> \<le> 360"
    using biases_2_bounds assms(4) by (simp add: shipped_sizes)
  ultimately have "sint (nn_output net (\<lambda>k. of_int (a k)) j) = (\<Sum>k<100. a k * ?w k) + shipped_biases_2 ! j"
    using b [of 100] by (simp only:) (rule sint_exact; simp; linarith)
  moreover have "\<bar>\<Sum>k<m. a k * ?w k\<bar> < 2147483648" if "m \<le> 100" for m
    using b [OF that] by linarith
  ultimately show ?thesis by blast
qed

lemma shipped_outputs_exact_witness:
  "sint (nn_output (zero_network\<lparr>weights_2 := map of_int shipped_weights_2, biases_2 := map of_int shipped_biases_2\<rparr>)
      (\<lambda>k. of_int 1000) 3) = (\<Sum>k<100. 1000 * shipped_weights_2 ! (3 + 10 * k)) + shipped_biases_2 ! 3"
  using shipped_outputs_exact [of "zero_network\<lparr>weights_2 := map of_int shipped_weights_2,
      biases_2 := map of_int shipped_biases_2\<rparr>" "\<lambda>_. 1000" 3] by simp

text \<open>
  The hidden layer never overflows when pixels are bytes and weights are at most 128 in size:
  the bounds the file keeps to. A hidden value is then the exact one, and below 26 million.
\<close>

lemma hidden_exact:
  assumes "length img = 784" and "\<forall>i<784. 0 \<le> x i \<and> x i \<le> (255 :: int)" and "\<forall>i<784. img ! i = of_int (x i)"
    and "\<forall>i<784. \<bar>w i\<bar> \<le> 128" and "\<forall>i<784. weights_1 net ! (n + 100 * i) = of_int (w i)"
    and "biases_1 net ! n = of_int b" and "\<bar>b\<bar> \<le> 1000000"
  shows "nn_hidden net img n = of_int (max 0 ((\<Sum>i<784. x i * w i) + b))"
proof -
  have "(\<Sum>i<784. max 0 (w i)) \<le> (\<Sum>i<784::nat. 128)" "(\<Sum>i<784. max 0 (- w i)) \<le> (\<Sum>i<784::nat. 128)"
    by (intro sum_mono; use assms(4) in fastforce)+
  with sum_bounds [OF assms(2), of 784, where b = w]
  have "(\<Sum>i<784. x i * w i) \<le> 255 * (784 * 128)" "- (255 * (784 * 128)) \<le> (\<Sum>i<784. x i * w i)"
    by simp_all
  moreover have "(\<Sum>i<784. img ! i * weights_1 net ! (n + 100 * i)) + biases_1 net ! n =
      of_int ((\<Sum>i<784. x i * w i) + b)"
    using assms(3,5,6) by simp
  ultimately show ?thesis
    using assms(7) by (simp add: nn_hidden_def relu_exact del: of_int_add of_int_sum of_int_mult)
qed

end
