(* ===== verification/Task_Queue.thy ===== *)
theory Task_Queue
  imports C_Prelude "HOL-Library.Multiset"
begin

text \<open>
  The linked lists of tasks that both schedulers of \<^verbatim>\<open>c/apps\<close> keep: the rate-monotonic one
  (\<^verbatim>\<open>rmscheduling/rm_minimal_scheduler.c\<close>) and the time-triggered one
  (\<^verbatim>\<open>ttscheduling/tt_minimal_scheduler.c\<close>), whose list functions are the same up to the type of the
  tasks. Nodes lie in a heap and are reached through \<^verbatim>\<open>next\<close> pointers. The lemmas show that the
  pointer operations implement insertion into, and removal from, a list.
\<close>

section \<open>Nodes and schedules\<close>

type_synonym addr = nat

record 't task_node =
  node_task :: 't
  link :: "addr option"

text \<open>
  A schedule with the heap its nodes lie in; \<open>fresh\<close> is the address of the next \<^verbatim>\<open>malloc\<close>, which is
  taken to succeed.
\<close>

record 't schedule =
  hyper_period :: u64
  start_time :: u64
  task_count :: u32
  head :: "addr option"
  tail :: "addr option"
  heap :: "addr \<Rightarrow> 't task_node"
  fresh :: addr

definition init_minimal_schedule :: "u64 \<Rightarrow> u32 \<Rightarrow> (addr \<Rightarrow> 't task_node) \<Rightarrow> 't schedule" where
  "init_minimal_schedule hyperperiod num_tasks h =
     \<lparr>hyper_period = hyperperiod, start_time = 0, task_count = num_tasks, head = None, tail = None,
      heap = h, fresh = 0\<rparr>"

definition create_tasknode :: "'t \<Rightarrow> 't schedule \<Rightarrow> addr \<times> 't schedule" where
  "create_tasknode task s =
     (fresh s, s\<lparr>heap := (heap s)(fresh s := \<lparr>node_task = task, link = None\<rparr>), fresh := fresh s + 1\<rparr>)"

definition set_link :: "addr \<Rightarrow> addr option \<Rightarrow> 't schedule \<Rightarrow> 't schedule" where
  "set_link a p s = s\<lparr>heap := (heap s)(a := (heap s a)\<lparr>link := p\<rparr>)\<rparr>"

definition set_task :: "addr \<Rightarrow> 't \<Rightarrow> 't schedule \<Rightarrow> 't schedule" where
  "set_task a t s = s\<lparr>heap := (heap s)(a := (heap s a)\<lparr>node_task := t\<rparr>)\<rparr>"

definition task_of :: "'t schedule \<Rightarrow> addr \<Rightarrow> 't" where
  "task_of s a = node_task (heap s a)"

definition next_of :: "'t schedule \<Rightarrow> addr \<Rightarrow> addr option" where
  "next_of s a = link (heap s a)"

text \<open>Appending at the tail.\<close>

definition schedule_enqueue :: "'t \<Rightarrow> 't schedule \<Rightarrow> 't schedule" where
  "schedule_enqueue task s =
     (let (temp, s) = create_tasknode task s;
          s = s\<lparr>task_count := task_count s + 1\<rparr>
      in case tail s of
           None \<Rightarrow> s\<lparr>head := Some temp, tail := Some temp\<rparr>
         | Some t \<Rightarrow> (set_link t (Some temp) s)\<lparr>tail := Some temp\<rparr>)"

text \<open>
  The walk to the node before the point of insertion. The key of a task is what the code reads to compare
  it; a read outside an array makes it, and with it the operation, \<^const>\<open>None\<close>.
\<close>

definition insertion_point :: "('t \<Rightarrow> u64 option) \<Rightarrow> u64 \<Rightarrow> 't schedule \<Rightarrow> addr \<Rightarrow> addr option" where
  "insertion_point key k s start = map_option snd (loop_until (\<lambda>current.
     case next_of s current of
       None \<Rightarrow> Some (Some (), current)
     | Some n \<Rightarrow> map_option (\<lambda>r. if r < k then (None, n) else (Some (), current)) (key (task_of s n))) start)"

definition schedule_sortedinsert :: "('t \<Rightarrow> u64 option) \<Rightarrow> addr \<Rightarrow> 't schedule \<Rightarrow> 't schedule option" where
  "schedule_sortedinsert key new_node s =
     (let at_head = Some ((set_link new_node (head s) s)\<lparr>head := Some new_node, task_count := task_count s + 1\<rparr>)
      in case head s of
           None \<Rightarrow> at_head
         | Some h \<Rightarrow> do {
             kh \<leftarrow> key (task_of s h);
             k \<leftarrow> key (task_of s new_node);
             if k \<le> kh then at_head
             else do {
               current \<leftarrow> insertion_point key k s h;
               let s = set_link new_node (next_of s current) s;
               let s = set_link current (Some new_node) s;
               Some (s\<lparr>task_count := task_count s + 1\<rparr>)
             } })"

definition schedule_dequeue :: "'t schedule \<Rightarrow> addr option \<times> 't schedule" where
  "schedule_dequeue s =
     (case head s of
        None \<Rightarrow> (None, s)
      | Some h \<Rightarrow>
          (let s = s\<lparr>head := next_of s h\<rparr>;
               s = (if head s = None then s\<lparr>tail := None\<rparr> else s)
           in (Some h, s\<lparr>task_count := task_count s - 1\<rparr>)))"

text \<open>The first node from \<open>p\<close> on whose task satisfies \<open>due\<close>.\<close>

definition find_node :: "('t \<Rightarrow> bool option) \<Rightarrow> 't schedule \<Rightarrow> addr option option" where
  "find_node due s = map_option fst (loop_until (\<lambda>node_itr.
     case node_itr of
       None \<Rightarrow> Some (Some None, None)
     | Some a \<Rightarrow> map_option (\<lambda>d. if d then (Some (Some a), Some a) else (None, next_of s a)) (due (task_of s a))) (head s))"

section \<open>Lists on the heap\<close>

fun path :: "'t schedule \<Rightarrow> addr option \<Rightarrow> addr list \<Rightarrow> addr option \<Rightarrow> bool" where
  "path s p [] q \<longleftrightarrow> p = q"
| "path s p (a # as) q \<longleftrightarrow> p = Some a \<and> path s (next_of s a) as q"

definition queue_at :: "'t schedule \<Rightarrow> addr list \<Rightarrow> bool" where
  "queue_at s as \<longleftrightarrow> path s (head s) as None \<and> distinct as \<and> (\<forall>a \<in> set as. a < fresh s)"

text \<open>The tasks of the list, in order: what the schedule means.\<close>

definition tasks_at :: "'t schedule \<Rightarrow> addr list \<Rightarrow> 't list" where
  "tasks_at s as = map (task_of s) as"

lemma path_append: "path s p (as @ bs) q \<longleftrightarrow> (\<exists>m. path s p as m \<and> path s m bs q)"
  by (induction as arbitrary: p) auto

lemma path_cong: "(\<And>a. a \<in> set as \<Longrightarrow> next_of s a = next_of t a) \<Longrightarrow> path s p as q = path t p as q"
  by (induction as arbitrary: p) auto

lemma set_link_simps [simp]:
  "next_of (set_link a p s) b = (if a = b then p else next_of s b)"
  "task_of (set_link a p s) b = task_of s b"
  "head (set_link a p s) = head s" "tail (set_link a p s) = tail s" "fresh (set_link a p s) = fresh s"
  "task_count (set_link a p s) = task_count s" "hyper_period (set_link a p s) = hyper_period s"
  "start_time (set_link a p s) = start_time s"
  by (simp_all add: set_link_def next_of_def task_of_def)

lemma set_link_update [simp]:
  "set_link a p (s\<lparr>task_count := n\<rparr>) = (set_link a p s)\<lparr>task_count := n\<rparr>"
  by (simp add: set_link_def)

lemma set_task_simps [simp]:
  "next_of (set_task a t s) b = next_of s b"
  "task_of (set_task a t s) b = (if a = b then t else task_of s b)"
  "head (set_task a t s) = head s" "tail (set_task a t s) = tail s" "fresh (set_task a t s) = fresh s"
  "task_count (set_task a t s) = task_count s" "hyper_period (set_task a t s) = hyper_period s"
  "start_time (set_task a t s) = start_time s"
  by (simp_all add: set_task_def next_of_def task_of_def)

lemma accessors_update [simp]:
  "next_of (s\<lparr>head := p\<rparr>) = next_of s" "next_of (s\<lparr>tail := p\<rparr>) = next_of s"
  "next_of (s\<lparr>task_count := n\<rparr>) = next_of s"
  "task_of (s\<lparr>head := p\<rparr>) = task_of s" "task_of (s\<lparr>tail := p\<rparr>) = task_of s"
  "task_of (s\<lparr>task_count := n\<rparr>) = task_of s"
  by (simp_all add: fun_eq_iff next_of_def task_of_def)

lemma path_set_task [simp]: "path (set_task a t s) = path s"
proof (intro ext)
  fix p as q show "path (set_task a t s) p as q = path s p as q" by (rule path_cong) simp
qed

lemma path_update [simp]:
  "path (s\<lparr>head := h\<rparr>) p as q = path s p as q" "path (s\<lparr>tail := h\<rparr>) p as q = path s p as q"
  "path (s\<lparr>task_count := n\<rparr>) p as q = path s p as q"
  by (rule path_cong; simp)+

lemma path_set_link: "a \<notin> set as \<Longrightarrow> path (set_link a l s) p as q = path s p as q"
  by (rule path_cong) auto

section \<open>The walks\<close>

lemma insertion_point_walk:
  assumes "path s (next_of s c) as None" and "\<forall>a \<in> set as. key (task_of s a) = Some (f (task_of s a))"
  shows "insertion_point key k s c = Some (last (c # takeWhile (\<lambda>a. f (task_of s a) < k) as))"
  using assms
proof (induction as arbitrary: c)
  case Nil
  then show ?case by (simp add: insertion_point_def loop_until_exit [where x = "()" and s' = c])
next
  case (Cons a as)
  then have a: "key (task_of s a) = Some (f (task_of s a))" by simp
  show ?case
  proof (cases "f (task_of s a) < k")
    case True
    then have "insertion_point key k s c = insertion_point key k s a"
      using Cons.prems(1) a by (simp add: insertion_point_def loop_until_next [where s' = a])
    with Cons True show ?thesis by simp
  next
    case False
    with Cons.prems(1) a show ?thesis by (simp add: insertion_point_def loop_until_exit [where x = "()" and s' = c])
  qed
qed

lemma find_node_walk:
  assumes "path s (head s) as None" and "\<forall>a \<in> set as. due (task_of s a) = Some (D (task_of s a))"
  shows "find_node due s = Some (List.find (D \<circ> task_of s) as)"
proof -
  have "map_option fst (loop_until (\<lambda>node_itr. case node_itr of
       None \<Rightarrow> Some (Some None, None)
     | Some a \<Rightarrow> map_option (\<lambda>d. if d then (Some (Some a), Some a) else (None, next_of s a)) (due (task_of s a))) p) =
      Some (List.find (D \<circ> task_of s) as)" if "path s p as None" for p
    using that assms(2)
  proof (induction as arbitrary: p)
    case Nil
    then show ?case by (simp add: loop_until_exit [where x = None and s' = None])
  next
    case (Cons a as)
    then have a: "due (task_of s a) = Some (D (task_of s a))" by simp
    show ?case
    proof (cases "D (task_of s a)")
      case True
      with Cons.prems(1) a show ?thesis by (simp add: loop_until_exit [where x = "Some a" and s' = "Some a"])
    next
      case False
      with Cons a show ?thesis by (simp add: loop_until_next [where s' = "next_of s a"])
    qed
  qed
  with assms show ?thesis by (simp add: find_node_def)
qed

section \<open>The operations refine list operations\<close>

lemma insort_split:
  "insort_key f x as = takeWhile (\<lambda>a. f a < f x) as @ x # dropWhile (\<lambda>a. f a < f x) as"
  by (induction as) (auto simp: not_le)

lemma queue_at_head: "queue_at s (a # as) \<Longrightarrow> head s = Some a"
  by (simp add: queue_at_def)

lemma queue_at_empty: "queue_at s [] \<longleftrightarrow> head s = None"
  by (simp add: queue_at_def)

lemma insert_after:
  assumes "queue_at s (bs @ c # cs)" and "n \<notin> set (bs @ c # cs)" and "n < fresh s"
  shows "queue_at (set_link c (Some n) (set_link n (next_of s c) s)) (bs @ c # n # cs)"
proof -
  let ?t = "set_link c (Some n) (set_link n (next_of s c) s)"
  from assms(1) obtain m where m: "path s (head s) bs m" "path s m (c # cs) None"
    and d: "distinct (bs @ c # cs)" "\<forall>a \<in> set (bs @ c # cs). a < fresh s"
    by (auto simp: queue_at_def path_append)
  have "path ?t (head s) bs m" using m(1) d(1) assms(2) by (simp add: path_set_link)
  moreover have "path ?t (next_of s c) cs None" using m(2) d(1) assms(2) by (simp add: path_set_link)
  ultimately have "path ?t (head s) (bs @ c # n # cs) None"
    using m(2) assms(2) by (auto simp: path_append)
  with d assms(2,3) show ?thesis by (auto simp: queue_at_def)
qed

lemma insert_head:
  assumes "queue_at s as" and "n \<notin> set as" and "n < fresh s"
  shows "queue_at ((set_link n (head s) s)\<lparr>head := Some n, task_count := k\<rparr>) (n # as)"
  using assms by (auto simp: queue_at_def path_set_link)

definition same_rest :: "'t schedule \<Rightarrow> 't schedule \<Rightarrow> bool" where
  "same_rest s t \<longleftrightarrow> task_of t = task_of s \<and> tail t = tail s \<and> fresh t = fresh s \<and>
     hyper_period t = hyper_period s \<and> start_time t = start_time s"

lemma sortedinsert_refines:
  assumes "queue_at s as" and "n \<notin> set as" and "n < fresh s"
    and keys: "\<forall>a \<in> set (n # as). key (task_of s a) = Some (f (task_of s a))"
  shows "\<exists>t. schedule_sortedinsert key n s = Some t \<and> queue_at t (insort_key (f \<circ> task_of s) n as) \<and>
    same_rest s t \<and> task_count t = task_count s + 1"
proof -
  let ?f = "f \<circ> task_of s"
  show ?thesis
  proof (cases "as = [] \<or> ?f n \<le> ?f (hd as)")
    case True
    then have "insort_key ?f n as = n # as" by (cases as) auto
    moreover have "schedule_sortedinsert key n s =
        Some ((set_link n (head s) s)\<lparr>head := Some n, task_count := task_count s + 1\<rparr>)"
      using True assms(1) keys by (cases as) (auto simp: schedule_sortedinsert_def queue_at_empty queue_at_head)
    ultimately show ?thesis
      using insert_head [OF assms(1-3)] by (simp add: same_rest_def fun_eq_iff)
  next
    case False
    then obtain h r where as: "as = h # r" and h: "?f h < ?f n" by (cases as) auto
    let ?P = "takeWhile (\<lambda>a. ?f a < ?f n) r" and ?Q = "dropWhile (\<lambda>a. ?f a < ?f n) r"
    obtain B c where split: "h # ?P = B @ [c]" by (cases "h # ?P" rule: rev_cases) auto
    have "\<not> ?f n \<le> ?f h" using h by (simp only: not_le)
    then have "as = (h # ?P) @ ?Q" "insort_key ?f n as = (h # ?P) @ n # ?Q"
      using as insort_split [of ?f n r] by simp_all
    then have list: "as = B @ c # ?Q" "insort_key ?f n as = B @ c # n # ?Q"
      by (simp_all only: split) simp_all
    have "last (h # ?P) = c" by (simp only: split) simp
    then have walk: "insertion_point key (f (task_of s n)) s h = Some c"
      using insertion_point_walk [of s h r key f "f (task_of s n)"] assms(1) keys as
      by (simp add: queue_at_def o_def)
    let ?t = "set_link c (Some n) (set_link n (next_of s c) s)"
    have "schedule_sortedinsert key n s = Some (?t\<lparr>task_count := task_count ?t + 1\<rparr>)"
      using h as assms(1) keys walk by (simp add: schedule_sortedinsert_def queue_at_head not_le Let_def)
    moreover have "queue_at ?t (B @ c # n # ?Q)"
      by (rule insert_after) (use assms list(1) in simp_all)
    ultimately show ?thesis
      using list(2) by (simp add: same_rest_def fun_eq_iff queue_at_def)
  qed
qed

lemma tasks_insort:
  "map f (insort_key (key \<circ> f) n as) = insort_key key (f n) (map f as)"
  by (induction as) auto

lemma dequeue_refines:
  assumes "queue_at s (a # as)"
  shows "fst (schedule_dequeue s) = Some a" and "queue_at (snd (schedule_dequeue s)) as"
    and "task_of (snd (schedule_dequeue s)) = task_of s"
    and "task_count (snd (schedule_dequeue s)) = task_count s - 1"
    and "fresh (snd (schedule_dequeue s)) = fresh s"
    and "hyper_period (snd (schedule_dequeue s)) = hyper_period s"
    and "start_time (snd (schedule_dequeue s)) = start_time s"
  using assms by (auto simp: schedule_dequeue_def queue_at_def Let_def split: option.splits)

text \<open>A new node at the end of the list, when \<^verbatim>\<open>tail\<close> points to the last node.\<close>

definition tail_ok :: "'t schedule \<Rightarrow> addr list \<Rightarrow> bool" where
  "tail_ok s as \<longleftrightarrow> tail s = (if as = [] then None else Some (last as))"

lemma create_simps:
  "next_of (snd (create_tasknode t s)) a = (if a = fresh s then None else next_of s a)"
  "task_of (snd (create_tasknode t s)) a = (if a = fresh s then t else task_of s a)"
  "fst (create_tasknode t s) = fresh s"
  "head (snd (create_tasknode t s)) = head s" "tail (snd (create_tasknode t s)) = tail s"
  "fresh (snd (create_tasknode t s)) = fresh s + 1" "task_count (snd (create_tasknode t s)) = task_count s"
  "hyper_period (snd (create_tasknode t s)) = hyper_period s"
  "start_time (snd (create_tasknode t s)) = start_time s"
  by (simp_all add: create_tasknode_def next_of_def task_of_def)

lemma create_queue:
  assumes "queue_at s as"
  shows "queue_at (snd (create_tasknode t s)) as" and "fresh s \<notin> set as"
    and "tasks_at (snd (create_tasknode t s)) as = tasks_at s as"
proof -
  have n: "fresh s \<notin> set as" using assms by (auto simp: queue_at_def)
  then have "path (snd (create_tasknode t s)) (head s) as None = path s (head s) as None"
    by (intro path_cong) (auto simp: create_simps)
  with assms show "queue_at (snd (create_tasknode t s)) as"
    by (auto simp: queue_at_def create_simps less_Suc_eq)
  show "fresh s \<notin> set as" by (rule n)
  then show "tasks_at (snd (create_tasknode t s)) as = tasks_at s as"
    by (auto simp: tasks_at_def create_simps)
qed

lemma enqueue_refines:
  assumes "queue_at s as" and "tail_ok s as"
  shows "queue_at (schedule_enqueue t s) (as @ [fresh s])" and "tail_ok (schedule_enqueue t s) (as @ [fresh s])"
    and "tasks_at (schedule_enqueue t s) (as @ [fresh s]) = tasks_at s as @ [t]"
proof -
  let ?s = "snd (create_tasknode t s)"
  have q: "queue_at ?s as" "fresh s \<notin> set as" using create_queue [OF assms(1)] by blast+
  have "queue_at (schedule_enqueue t s) (as @ [fresh s]) \<and> tail (schedule_enqueue t s) = Some (fresh s) \<and>
    task_of (schedule_enqueue t s) = task_of ?s"
  proof (cases as rule: rev_cases)
    case Nil
    with assms have "tail s = None" "head s = None" by (simp_all add: tail_ok_def queue_at_empty)
    with Nil show ?thesis
      by (simp add: schedule_enqueue_def Let_def split_beta create_simps queue_at_def)
  next
    case (snoc bs c)
    with assms(2) have t: "tail s = Some c" by (simp add: tail_ok_def)
    from q(1) snoc have n: "next_of ?s c = None" by (auto simp: queue_at_def path_append)
    have "set_link (fresh s) (next_of ?s c) ?s = ?s"
      using n by (simp add: set_link_def next_of_def create_tasknode_def)
    with insert_after [of ?s bs c "[]" "fresh s"] q snoc
    have "queue_at (set_link c (Some (fresh s)) ?s) (as @ [fresh s])" by (simp add: create_simps)
    with t show ?thesis
      by (simp add: schedule_enqueue_def Let_def split_beta create_simps queue_at_def fun_eq_iff)
  qed
  then show "queue_at (schedule_enqueue t s) (as @ [fresh s])" "tail_ok (schedule_enqueue t s) (as @ [fresh s])"
    "tasks_at (schedule_enqueue t s) (as @ [fresh s]) = tasks_at s as @ [t]"
    using create_queue(3) [OF assms(1), of t] by (simp_all add: tail_ok_def tasks_at_def create_simps)
qed

section \<open>One dispatch\<close>

text \<open>
  What both dispatchers do after they have executed a task: take the head of the list and insert it
  again, by the key.
\<close>

definition requeue :: "('t \<Rightarrow> u64 option) \<Rightarrow> 't schedule \<Rightarrow> 't schedule option" where
  "requeue key s =
     (case schedule_dequeue s of
        (None, s) \<Rightarrow> None
      | (Some exec_task, s) \<Rightarrow> schedule_sortedinsert key exec_task s)"

lemma requeue_refines:
  assumes "queue_at s (a # as)" and keys: "\<forall>t \<in> set (tasks_at s (a # as)). key t = Some (f t)"
  shows "\<exists>t bs. requeue key s = Some t \<and> queue_at t bs \<and>
    tasks_at t bs = insort_key f (task_of s a) (tasks_at s as) \<and> task_count t = task_count s \<and>
    fresh t = fresh s \<and> hyper_period t = hyper_period s \<and> start_time t = start_time s"
proof -
  let ?u = "snd (schedule_dequeue s)"
  note d = dequeue_refines [OF assms(1)]
  have a: "a \<notin> set as" "a < fresh s" using assms(1) by (auto simp: queue_at_def)
  have "\<forall>b \<in> set (a # as). key (task_of ?u b) = Some (f (task_of ?u b))" using keys by (simp add: d(3) tasks_at_def)
  with a d(2,5) obtain t where t: "schedule_sortedinsert key a ?u = Some t"
    "queue_at t (insort_key (f \<circ> task_of ?u) a as)" "same_rest ?u t" "task_count t = task_count ?u + 1"
    using sortedinsert_refines [of ?u as a key f] by auto
  have "requeue key s = Some t"
    using d(1) t(1) by (simp add: requeue_def split_beta split: option.split)
  moreover have "tasks_at t (insort_key (f \<circ> task_of s) a as) = insort_key f (task_of s a) (tasks_at s as)"
    using t(3) d(3) by (simp add: tasks_at_def same_rest_def tasks_insort)
  ultimately show ?thesis using t d by (auto simp: same_rest_def)
qed

text \<open>The abstract step: the first due task is replaced, then the head is inserted again.\<close>

definition dispatch :: "('t \<Rightarrow> u64) \<Rightarrow> ('t \<Rightarrow> bool) \<Rightarrow> ('t \<Rightarrow> 't) \<Rightarrow> 't list \<Rightarrow> 't list" where
  "dispatch key due upd ts =
     (let pre = takeWhile (\<lambda>t. \<not> due t) ts; rest = dropWhile (\<lambda>t. \<not> due t) ts;
          ts = pre @ upd (hd rest) # tl rest
      in insort_key key (hd ts) (tl ts))"

lemma find_takeWhile:
  "List.find P as = (case dropWhile (\<lambda>a. \<not> P a) as of [] \<Rightarrow> None | a # _ \<Rightarrow> Some a)"
  by (induction as) auto

lemma step_refines:
  assumes "queue_at s as" and reads: "\<forall>t \<in> set (tasks_at s as). due_read t = Some (due t) \<and> key_read t = Some (key t)"
  shows "(find_node due_read s = Some None \<and> (\<forall>t \<in> set (tasks_at s as). \<not> due t)) \<or>
    (\<exists>a. find_node due_read s = Some (Some a) \<and> a \<in> set as \<and> due (task_of s a) \<and>
      List.find due (tasks_at s as) = Some (task_of s a) \<and>
      (\<forall>t'. key_read t' = Some (key t') \<longrightarrow> (\<exists>t bs. requeue key_read (set_task a t' s) = Some t \<and> queue_at t bs \<and>
        tasks_at t bs = dispatch key due (\<lambda>_. t') (tasks_at s as) \<and> task_count t = task_count s \<and>
        fresh t = fresh s \<and> hyper_period t = hyper_period s \<and> start_time t = start_time s)))"
proof -
  have f: "find_node due_read s = Some (List.find (due \<circ> task_of s) as)"
    by (rule find_node_walk) (use assms in \<open>simp_all add: queue_at_def tasks_at_def\<close>)
  show ?thesis
  proof (cases "\<exists>t \<in> set (tasks_at s as). due t")
    case False
    then have "List.find (due \<circ> task_of s) as = None" by (auto simp: find_None_iff tasks_at_def)
    with f False show ?thesis by auto
  next
    case True
    let ?p = "\<lambda>a. \<not> due (task_of s a)"
    let ?pre = "takeWhile ?p as"
    have "dropWhile ?p as \<noteq> []" using True by (auto simp: tasks_at_def dropWhile_eq_Nil_conv)
    then obtain a post where drop: "dropWhile ?p as = a # post" by (cases "dropWhile ?p as") auto
    then have as: "as = ?pre @ a # post" by (metis takeWhile_dropWhile_id)
    have due: "due (task_of s a)" using hd_dropWhile [of ?p as] drop by auto
    have found: "find_node due_read s = Some (Some a)" "a \<in> set as"
      using f drop as by (simp_all add: find_takeWhile o_def) (metis in_set_conv_decomp)
    have listed: "List.find due (tasks_at s as) = Some (task_of s a)"
      using drop by (simp add: find_takeWhile tasks_at_def dropWhile_map o_def)
    have "\<exists>t bs. requeue key_read (set_task a t' s) = Some t \<and> queue_at t bs \<and>
        tasks_at t bs = dispatch key due (\<lambda>_. t') (tasks_at s as) \<and> task_count t = task_count s \<and>
        fresh t = fresh s \<and> hyper_period t = hyper_period s \<and> start_time t = start_time s" if t': "key_read t' = Some (key t')" for t'
    proof -
      let ?s = "set_task a t' s"
      have q: "queue_at ?s as" using assms by (simp add: queue_at_def)
      have d: "distinct (?pre @ a # post)" using assms as by (simp add: queue_at_def)
      have "tasks_at ?s (?pre @ a # post) = tasks_at s ?pre @ t' # tasks_at s post"
        using d by (auto simp: tasks_at_def)
      then have ts: "tasks_at ?s as = tasks_at s ?pre @ t' # tasks_at s post" using as by simp
      obtain h r where hr: "as = h # r" using as by (cases as) auto
      have "dispatch key due (\<lambda>_. t') (tasks_at s as) = insort_key key (hd (tasks_at ?s as)) (tl (tasks_at ?s as))"
        using drop unfolding ts by (simp add: dispatch_def tasks_at_def takeWhile_map dropWhile_map o_def Let_def)
      then have "dispatch key due (\<lambda>_. t') (tasks_at s as) = insort_key key (task_of ?s h) (tasks_at ?s r)"
        by (simp add: hr tasks_at_def)
      moreover have "\<forall>t \<in> set (tasks_at ?s (h # r)). key_read t = Some (key t)"
        using reads t' by (auto simp: hr [symmetric] tasks_at_def)
      ultimately show ?thesis using requeue_refines [OF q [unfolded hr], of key_read key] by auto
    qed
    with found due listed show ?thesis by blast
  qed
qed

section \<open>Queues in the order of their keys\<close>

text \<open>
  What a scheduler relies on when it searches a list that is sorted by the key: a task is due
  whenever one with a larger key is. Then the first due task is the head, and the step keeps the
  order and the tasks.
\<close>

locale release_queue =
  fixes key :: "'t \<Rightarrow> u64"
    and due :: "u64 \<Rightarrow> 't \<Rightarrow> bool"
  assumes due_earlier: "due now t \<Longrightarrow> key u \<le> key t \<Longrightarrow> due now u"
begin

lemma head_due:
  assumes "sorted (map key ts)" and "t \<in> set ts" and "due now t"
  shows "due now (hd ts)"
proof -
  obtain h r where ts: "ts = h # r" using assms(2) by (cases ts) auto
  with assms have "key h \<le> key t" by auto
  with assms(3) ts show ?thesis by (auto intro: due_earlier)
qed

lemma dispatch_head:
  assumes "due now (hd ts)" and "ts \<noteq> []"
  shows "dispatch key (due now) upd ts = insort_key key (upd (hd ts)) (tl ts)"
  using assms by (cases ts) (simp_all add: dispatch_def)

lemma dispatch_sorted:
  assumes "sorted (map key ts)" and "due now (hd ts)" and "ts \<noteq> []"
  shows "sorted (map key (dispatch key (due now) upd ts))"
    and "mset (dispatch key (due now) upd ts) = mset ts - {#hd ts#} + {#upd (hd ts)#}"
proof -
  obtain h r where ts: "ts = h # r" using assms(3) by (cases ts) auto
  show "sorted (map key (dispatch key (due now) upd ts))"
    using assms ts by (simp add: dispatch_head sorted_insort_key)
  show "mset (dispatch key (due now) upd ts) = mset ts - {#hd ts#} + {#upd (hd ts)#}"
    using assms(2) ts by (simp add: dispatch_head)
qed

end

end
