(* ===== verification/RM_Scheduler.thy ===== *)
theory RM_Scheduler
  imports Task_Queue
begin

text \<open>
  The rate-monotonic scheduler (\<^verbatim>\<open>c/apps/rmscheduling/rm_minimal_scheduler.c\<close> and its header). The
  clock and the effect of calling a task are arguments, over a world state of their own.
\<close>

section \<open>Tasks\<close>

datatype task_state = ELECTED | BLOCKED | READY | PASSIVE | NONEXIST

record rm_task =
  state :: task_state
  task_id :: u16
  period :: u64
  deadline :: u64
  wcet :: u32
  earliest_release :: u64
  release_time :: u64
  delta_sum :: u64
  last_release_time :: u64
  exec_count :: u32
  overruns :: u16
  func :: nat

definition init_minimal_rmtask ::
  "rm_task \<Rightarrow> u16 \<Rightarrow> u64 \<Rightarrow> u64 \<Rightarrow> u32 \<Rightarrow> u64 \<Rightarrow> nat \<Rightarrow> rm_task" where
  "init_minimal_rmtask new_task i p d w release f = new_task\<lparr>func := f, task_id := i, state := READY,
     period := p, deadline := d, wcet := w, release_time := release, last_release_time := 0,
     delta_sum := 0, exec_count := 0, overruns := 0\<rparr>"

section \<open>The schedule\<close>

definition init_minimal_rmschedule ::
  "u64 \<Rightarrow> u32 \<Rightarrow> (addr \<Rightarrow> rm_task task_node) \<Rightarrow> rm_task schedule" where
  "init_minimal_rmschedule hyperperiod num_tasks h = init_minimal_schedule hyperperiod 0 h"

definition create_rmtasknode :: "rm_task \<Rightarrow> rm_task schedule \<Rightarrow> addr \<times> rm_task schedule" where
  "create_rmtasknode = create_tasknode"

definition rmschedule_enqueue :: "rm_task \<Rightarrow> rm_task schedule \<Rightarrow> rm_task schedule" where
  "rmschedule_enqueue = schedule_enqueue"

definition rmschedule_sortedinsert_period :: "addr \<Rightarrow> rm_task schedule \<Rightarrow> rm_task schedule option" where
  "rmschedule_sortedinsert_period = schedule_sortedinsert (\<lambda>t. Some (period t))"

definition rmschedule_sortedinsert_deadline :: "addr \<Rightarrow> rm_task schedule \<Rightarrow> rm_task schedule option" where
  "rmschedule_sortedinsert_deadline = schedule_sortedinsert (\<lambda>t. Some (deadline t))"

definition rmschedule_sortedinsert_release :: "addr \<Rightarrow> rm_task schedule \<Rightarrow> rm_task schedule option" where
  "rmschedule_sortedinsert_release = schedule_sortedinsert (\<lambda>t. Some (release_time t))"

definition rmschedule_dequeue :: "rm_task schedule \<Rightarrow> addr option \<times> rm_task schedule" where
  "rmschedule_dequeue = schedule_dequeue"

text \<open>What the scheduler writes into an elected task before it calls it, and after.\<close>

definition elect :: "u64 \<Rightarrow> rm_task \<Rightarrow> rm_task" where
  "elect current_time t =
     (let t = t\<lparr>state := ELECTED\<rparr>;
          t = t\<lparr>release_time := current_time + period t\<rparr>;
          t = t\<lparr>delta_sum := delta_sum t +
                (if last_release_time t = 0 then period t else current_time - last_release_time t)\<rparr>
      in t\<lparr>last_release_time := current_time\<rparr>)"

definition account :: "u64 \<Rightarrow> u64 \<Rightarrow> rm_task \<Rightarrow> rm_task" where
  "account current_time elapsed t =
     (let t = t\<lparr>exec_count := exec_count t + 1\<rparr>;
          t = t\<lparr>overruns := overruns t +
                (if elapsed - current_time > ucast (exec_count t) * period t + deadline t then 1 else 0)\<rparr>
      in t\<lparr>state := READY\<rparr>)"

definition minimal_rm_scheduler ::
  "('w \<Rightarrow> u64 \<times> 'w) \<Rightarrow> (nat \<Rightarrow> rm_task \<Rightarrow> 'w \<Rightarrow> 'w) \<Rightarrow> rm_task schedule \<Rightarrow> 'w
     \<Rightarrow> (u8 \<times> rm_task schedule \<times> 'w) option" where
  "minimal_rm_scheduler get_time call schedule w =
     (let (now, w) = get_time w;
          current_time = now - start_time schedule
      in do {
        node \<leftarrow> find_node (\<lambda>t. Some (release_time t \<le> current_time)) schedule;
        case node of
          None \<Rightarrow> Some (0, schedule, w)
        | Some node_itr \<Rightarrow>
            (let t = elect current_time (task_of schedule node_itr);
                 w = call (func t) t w;
                 (now, w) = get_time w;
                 t = account current_time (now - start_time schedule) t;
                 schedule = set_task node_itr t schedule
             in do {
               schedule \<leftarrow> (case rmschedule_dequeue schedule of
                  (None, s) \<Rightarrow> None
                | (Some exec_task, s) \<Rightarrow> rmschedule_sortedinsert_release exec_task s);
               Some (1, schedule, w)
             })
      })"

text \<open>
  The search for the hyper period: one pass over the tasks, which adds to a count that starts
  where the last pass ended, and the loop, which adds a step until the count is that of the tasks.
\<close>

definition longest_period :: "rm_task list \<Rightarrow> u64" where
  "longest_period ts = fold (\<lambda>t hyper. if period t > hyper then period t else hyper) ts 0"

definition lcm_pass :: "rm_task list \<Rightarrow> u64 \<Rightarrow> u32 \<Rightarrow> u32" where
  "lcm_pass ts hyper found_lcm = fold (\<lambda>t found. if hyper mod period t = 0 then found + 1 else 0) ts found_lcm"

definition calc_hyperperiod :: "rm_task list \<Rightarrow> u32 \<Rightarrow> u32 \<Rightarrow> u64 option" where
  "calc_hyperperiod ts num step = map_option fst (loop_until (\<lambda>(hyper, found_lcm).
     let found_lcm = lcm_pass ts hyper found_lcm
     in Some (if found_lcm = num then (Some hyper, (hyper, found_lcm))
              else (None, (hyper + ucast step, found_lcm)))) (longest_period ts, 0))"

section \<open>The scheduler as a step on the list of tasks\<close>

interpretation rm: release_queue release_time "\<lambda>now t. release_time t \<le> now"
  by unfold_locales (rule order_trans)

text \<open>The task after its execution, when the second clock reading is \<open>later\<close>.\<close>

definition executed :: "u64 \<Rightarrow> u64 \<Rightarrow> rm_task \<Rightarrow> rm_task" where
  "executed now later t = account now later (elect now t)"

lemma scheduler_step:
  assumes "queue_at s as"
  shows "\<exists>r t w' bs. minimal_rm_scheduler get_time call s w = Some (r, t, w') \<and> queue_at t bs \<and>
    task_count t = task_count s \<and>
    (let now = fst (get_time w) - start_time s; due = (\<lambda>t. release_time t \<le> now)
     in case List.find due (tasks_at s as) of
          None \<Rightarrow> r = 0 \<and> t = s \<and> bs = as \<and> w' = snd (get_time w)
        | Some x \<Rightarrow> r = 1 \<and>
            (\<exists>later. later = fst (get_time (call (func x) (elect now x) (snd (get_time w)))) - start_time s \<and>
              tasks_at t bs = dispatch release_time due (\<lambda>_. executed now later x) (tasks_at s as) \<and>
              w' = snd (get_time (call (func x) (elect now x) (snd (get_time w))))))"
proof -
  let ?now = "fst (get_time w) - start_time s"
  let ?due = "\<lambda>t. release_time t \<le> ?now"
  have fe: "func (elect n x) = func x" for n x by (simp add: elect_def Let_def)
  let ?read = "\<lambda>t. Some (?due t)" and ?key = "\<lambda>t. Some (release_time t)"
  consider "find_node ?read s = Some None" "\<forall>t \<in> set (tasks_at s as). \<not> ?due t"
    | a where "find_node ?read s = Some (Some a)" "List.find ?due (tasks_at s as) = Some (task_of s a)"
      "\<And>t'. \<exists>t bs. requeue ?key (set_task a t' s) = Some t \<and> queue_at t bs \<and>
        tasks_at t bs = dispatch release_time ?due (\<lambda>_. t') (tasks_at s as) \<and> task_count t = task_count s"
    using step_refines [OF assms, of ?read ?due ?key release_time] by simp metis
  then show ?thesis
  proof cases
    case 1
    then have "List.find ?due (tasks_at s as) = None" by (auto simp: find_None_iff)
    with 1 assms show ?thesis by (auto simp: minimal_rm_scheduler_def Let_def split_beta)
  next
    case (2 a)
    let ?x = "task_of s a"
    let ?w = "call (func ?x) (elect ?now ?x) (snd (get_time w))"
    let ?t = "account ?now (fst (get_time ?w) - start_time s) (elect ?now ?x)"
    obtain t bs where t: "requeue ?key (set_task a ?t s) = Some t" "queue_at t bs"
      "tasks_at t bs = dispatch release_time ?due (\<lambda>_. ?t) (tasks_at s as)" "task_count t = task_count s"
      using 2(3) [of ?t] by blast
    have "minimal_rm_scheduler get_time call s w = Some (1, t, snd (get_time ?w))"
      using 2(1) t(1)
      by (simp add: minimal_rm_scheduler_def Let_def split_beta fe requeue_def rmschedule_dequeue_def
          rmschedule_sortedinsert_release_def split: option.splits)
    with 2(2) t(2-) show ?thesis by (auto simp: Let_def executed_def)
  qed
qed

lemma find_head:
  assumes "sorted (map release_time ts)" and "List.find (\<lambda>t. release_time t \<le> now) ts = Some x"
  shows "ts \<noteq> []" and "x = hd ts" and "release_time (hd ts) \<le> now"
proof -
  have x: "x \<in> set ts" "release_time x \<le> now"
    using assms(2) by (auto simp: find_Some_iff in_set_conv_nth)
  show "ts \<noteq> []" and h: "release_time (hd ts) \<le> now"
    using x rm.head_due [OF assms(1) x] by auto
  with assms(2) show "x = hd ts" by (cases ts) auto
qed

section \<open>The passes over the periods\<close>

lemma lcm_pass_ok: "\<forall>t \<in> set ts. h mod period t = 0 \<Longrightarrow> lcm_pass ts h f = f + of_nat (length ts)"
  by (induction ts arbitrary: f) (simp_all add: lcm_pass_def add_ac)

lemma lcm_pass_append: "lcm_pass (ts @ us) h f = lcm_pass us h (lcm_pass ts h f)"
  by (simp add: lcm_pass_def)

lemma lcm_pass_count:
  assumes "lcm_pass ts h f = of_nat (length ts)" and "length ts < 2 ^ 32"
  shows "\<forall>t \<in> set ts. h mod period t = 0"
proof (rule ccontr)
  assume "\<not> (\<forall>t \<in> set ts. h mod period t = 0)"
  then have "\<exists>t \<in> set ts. h mod period t \<noteq> 0" by blast
  from split_list_last_prop [OF this] obtain pre t post where
    ts: "ts = pre @ t # post" "h mod period t \<noteq> 0" and ok: "\<forall>u \<in> set post. \<not> h mod period u \<noteq> 0"
    by blast
  have "lcm_pass ts h f = lcm_pass post h 0"
    using ts by (simp add: lcm_pass_append lcm_pass_def [of "t # post"] lcm_pass_def [of post])
  also have "\<dots> = of_nat (length post)" using ok by (simp add: lcm_pass_ok)
  finally have eq: "(of_nat (length post) :: u32) = of_nat (length ts)" using assms(1) by simp
  have "length post < 2 ^ LENGTH(32)" "length ts < 2 ^ LENGTH(32)" using assms(2) ts by simp_all
  from of_nat_word_eq [OF this] eq have "length post = length ts" by blast
  with ts show False by simp
qed

section \<open>Properties\<close>

text \<open>C11: one step of the rate-monotonic scheduler, on the heap. When the list is in the order of the release
  times and the release of the first task has come, exactly that task is called, marked as elected, with its next
  release one period from now and its interval and last release written; after the call it is put back with one
  more execution, an overrun more if the call took longer than the bound on it, and ready again, and the clock
  has been read once before and once after the call. Otherwise nothing is called or changed. No task is lost or
  duplicated, and the list is in the order of the release times again, so that the next step meets the same
  conditions.\<close>

theorem rm_scheduler_sorted:
  assumes "queue_at s as" and "sorted (map release_time (tasks_at s as))"
  shows "\<exists>r t w' bs. minimal_rm_scheduler get_time call s w = Some (r, t, w') \<and> queue_at t bs \<and>
    sorted (map release_time (tasks_at t bs)) \<and> task_count t = task_count s \<and>
    (let now = fst (get_time w) - start_time s; w1 = snd (get_time w); first = hd (tasks_at s as)
     in if as \<noteq> [] \<and> release_time first \<le> now
        then (let elected = first\<lparr>state := ELECTED, release_time := now + period first,
                    delta_sum := delta_sum first +
                      (if last_release_time first = 0 then period first else now - last_release_time first),
                    last_release_time := now\<rparr>;
                  w2 = call (func first) elected w1;
                  later = fst (get_time w2) - start_time s
              in r = 1 \<and> w' = snd (get_time w2) \<and>
                 mset (tasks_at t bs) = mset (tasks_at s as) - {#first#} + {#elected\<lparr>
                   state := READY, exec_count := exec_count first + 1,
                   overruns := overruns first +
                     (if later - now > ucast (exec_count first + 1) * period first + deadline first then 1 else 0)\<rparr>#})
        else r = 0 \<and> t = s \<and> bs = as \<and> w' = w1)"
proof -
  let ?now = "fst (get_time w) - start_time s" and ?ts = "tasks_at s as"
  let ?w = "\<lambda>x. get_time (call (func x) (elect ?now x) (snd (get_time w)))"
  let ?x = "\<lambda>x. executed ?now (fst (?w x) - start_time s) x"
  obtain r t w' bs where step: "minimal_rm_scheduler get_time call s w = Some (r, t, w')" "queue_at t bs"
    "task_count t = task_count s"
    and c: "case List.find (\<lambda>t. release_time t \<le> ?now) ?ts of
          None \<Rightarrow> r = 0 \<and> t = s \<and> bs = as \<and> w' = snd (get_time w)
        | Some x \<Rightarrow> r = 1 \<and> tasks_at t bs = dispatch release_time (\<lambda>t. release_time t \<le> ?now) (\<lambda>_. ?x x) ?ts \<and>
            w' = snd (?w x)"
    using scheduler_step [OF assms(1), of get_time call w] by (fastforce simp: Let_def split: option.splits)
  show ?thesis
  proof (cases "List.find (\<lambda>t. release_time t \<le> ?now) ?ts")
    case None
    then have "\<not> (as \<noteq> [] \<and> release_time (hd ?ts) \<le> ?now)"
      by (cases as) (auto simp: find_None_iff tasks_at_def)
    with None c step assms show ?thesis by (auto simp: Let_def)
  next
    case (Some x)
    from find_head [OF assms(2) Some] have h: "as \<noteq> []" "?ts \<noteq> []" "x = hd ?ts" "release_time (hd ?ts) \<le> ?now"
      by (auto simp: tasks_at_def)
    from Some c h(3) have x: "r = 1" "w' = snd (?w (hd ?ts))"
      "tasks_at t bs = dispatch release_time (\<lambda>t. release_time t \<le> ?now) (\<lambda>_. ?x (hd ?ts)) ?ts" by auto
    note d = rm.dispatch_sorted [OF assms(2) h(4) h(2), of "\<lambda>_. ?x (hd ?ts)", folded x(3)]
    from step h(1,4) d x(1,2) show ?thesis
      by (intro exI [of _ r] exI [of _ t] exI [of _ w'] exI [of _ bs])
        (simp add: Let_def executed_def account_def elect_def)
  qed
qed

definition example_task :: "u16 \<Rightarrow> u64 \<Rightarrow> u64 \<Rightarrow> rm_task" where
  "example_task i p release = \<lparr>state = READY, task_id = i, period = p, deadline = p, wcet = 1, earliest_release = 0,
     release_time = release, delta_sum = 0, last_release_time = 0, exec_count = 0, overruns = 0, func = 0\<rparr>"

definition example_schedule :: "rm_task schedule" where
  "example_schedule = rmschedule_enqueue (example_task 2 30 40) (rmschedule_enqueue (example_task 1 20 5)
     (init_minimal_rmschedule 60 2 (\<lambda>_. \<lparr>node_task = example_task 0 0 0, link = None\<rparr>)))"

lemma example_schedule_queue: "queue_at example_schedule [0, Suc 0]"
  "tasks_at example_schedule [0, Suc 0] = [example_task 1 20 5, example_task 2 30 40]"
  "start_time example_schedule = 0"
proof -
  let ?e = "init_minimal_rmschedule 60 2 (\<lambda>_. \<lparr>node_task = example_task 0 0 0, link = None\<rparr>)"
  have e: "queue_at ?e []" "tail_ok ?e []" "fresh ?e = 0" "start_time ?e = 0" "tasks_at ?e [] = []"
    by (simp_all add: init_minimal_rmschedule_def init_minimal_schedule_def queue_at_def tail_ok_def tasks_at_def)
  let ?f = "schedule_enqueue (example_task 1 20 5) ?e"
  have f: "fresh ?f = 1" "start_time ?f = 0"
    using e by (simp_all add: schedule_enqueue_def Let_def split_beta create_simps split: option.split)
  note f2 = enqueue_refines [OF e(1,2), of "example_task 1 20 5"]
  from enqueue_refines [OF f2(1,2), of "example_task 2 30 40"] f2(3) f e(3,5)
  show "queue_at example_schedule [0, Suc 0]"
    "tasks_at example_schedule [0, Suc 0] = [example_task 1 20 5, example_task 2 30 40]"
    by (simp_all add: example_schedule_def rmschedule_enqueue_def)
  show "start_time example_schedule = 0"
    using f by (simp add: example_schedule_def rmschedule_enqueue_def
        schedule_enqueue_def [of "example_task 2 30 40"] Let_def split_beta create_simps split: option.split)
qed

lemma rm_scheduler_sorted_witness:
  "\<exists>t bs. minimal_rm_scheduler (\<lambda>w :: u64. (w, w + 1)) (\<lambda>f t w. w + release_time t) example_schedule 10 = Some (1, t, 42) \<and>
    queue_at t bs \<and> sorted (map release_time (tasks_at t bs)) \<and>
    image_mset release_time (mset (tasks_at t bs)) = {#30, 40#} \<and>
    image_mset exec_count (mset (tasks_at t bs)) = {#1, 0#}"
proof -
  have "sorted (map release_time (tasks_at example_schedule [0, Suc 0]))"
    by (simp add: example_schedule_queue example_task_def)
  from rm_scheduler_sorted [OF example_schedule_queue(1) this, of "\<lambda>w :: u64. (w, w + 1)" "\<lambda>f t w. w + release_time t" 10]
  obtain t bs where "minimal_rm_scheduler (\<lambda>w :: u64. (w, w + 1)) (\<lambda>f t w. w + release_time t) example_schedule 10 = Some (1, t, 42)"
    "queue_at t bs" "sorted (map release_time (tasks_at t bs))"
    "mset (tasks_at t bs) = {#(example_task 1 20 30)\<lparr>delta_sum := 20, last_release_time := 10, exec_count := 1\<rparr>, example_task 2 30 40#}"
    by (auto simp: example_schedule_queue example_task_def Let_def)
  then show ?thesis by (intro exI [of _ t] exI [of _ bs]) (simp add: example_task_def)
qed

text \<open>What the search for the hyper period returns. When it returns, and the task count is that of the list,
  the result is a multiple of every period. (It need not return: the count of one pass goes on
  from the last one, so that a common multiple can be passed over.)\<close>

theorem calc_hyperperiod_common_multiple:
  assumes "calc_hyperperiod ts (of_nat (length ts)) step = Some h" and "length ts < 2 ^ 32"
  shows "\<forall>t \<in> set ts. h mod period t = 0"
proof -
  obtain u where "loop_until (\<lambda>(hyper, found_lcm).
     let found_lcm = lcm_pass ts hyper found_lcm
     in Some (if found_lcm = of_nat (length ts) then (Some hyper, (hyper, found_lcm))
              else (None, (hyper + ucast step, found_lcm)))) (longest_period ts, 0) = Some (h, u)"
    using assms(1) by (auto simp: calc_hyperperiod_def)
  then show ?thesis
    by (rule loop_until_rule [where I = "\<lambda>_. True"])
      (auto simp: Let_def split_beta split: if_splits dest: lcm_pass_count [OF _ assms(2)])
qed

lemma calc_hyperperiod_common_multiple_witness:
  "calc_hyperperiod [example_task 1 3 0, example_task 2 2 0] 2 1 = Some 6 \<and> (6 :: u64) mod 3 = 0 \<and> (6 :: u64) mod 2 = 0"
proof -
  have c: "calc_hyperperiod [example_task 1 3 0, example_task 2 2 0] 2 1 = Some 6"
    by (simp add: calc_hyperperiod_def longest_period_def loop_until.simps lcm_pass_def example_task_def)
  have "\<forall>t \<in> set [example_task 1 3 0, example_task 2 2 0]. 6 mod period t = 0"
    by (rule calc_hyperperiod_common_multiple [where step = 1]) (use c in simp_all)
  with c show ?thesis by (simp add: example_task_def)
qed

end
