(* ===== verification/TT_Scheduler.thy ===== *)
theory TT_Scheduler
  imports Task_Queue
begin

text \<open>
  The time-triggered scheduler (\<^verbatim>\<open>c/apps/ttscheduling/tt_minimal_scheduler.c\<close> and its header). A task has
  a table of release times, of which the current one orders the list; an execution moves it one
  hyper period ahead and goes on to the next.
\<close>

section \<open>Tasks\<close>

record tt_task =
  tt_id :: u16
  tt_period :: u64
  release_times :: "u64 list"
  tt_deadline :: u64
  tt_wcet :: u32
  release_inst :: u32
  nr_releases :: u32
  tt_delta_sum :: u64
  tt_last_release_time :: u64
  tt_exec_count :: u32
  tt_func :: nat

definition init_minimal_tttask :: "tt_task \<Rightarrow> u16 \<Rightarrow> u64 \<Rightarrow> u64 list \<Rightarrow> u64 \<Rightarrow> nat \<Rightarrow> tt_task" where
  "init_minimal_tttask newTask i p rel_times nr f = newTask\<lparr>tt_func := f, tt_id := i, tt_period := p,
     tt_last_release_time := 0, tt_delta_sum := 0, tt_exec_count := 0, release_inst := 0,
     nr_releases := ucast nr, release_times := rel_times\<rparr>"

section \<open>The schedule\<close>

definition init_minimal_ttschedule ::
  "u64 \<Rightarrow> u32 \<Rightarrow> (addr \<Rightarrow> tt_task task_node) \<Rightarrow> tt_task schedule" where
  "init_minimal_ttschedule hyperperiod num_tasks h = init_minimal_schedule hyperperiod num_tasks h"

definition create_tttasknode :: "tt_task \<Rightarrow> tt_task schedule \<Rightarrow> addr \<times> tt_task schedule" where
  "create_tttasknode = create_tasknode"

definition ttschedule_enqueue :: "tt_task \<Rightarrow> tt_task schedule \<Rightarrow> tt_task schedule" where
  "ttschedule_enqueue = schedule_enqueue"

definition ttschedule_sortedinsert_period :: "addr \<Rightarrow> tt_task schedule \<Rightarrow> tt_task schedule option" where
  "ttschedule_sortedinsert_period = schedule_sortedinsert (\<lambda>t. Some (tt_period t))"

text \<open>\<^verbatim>\<open>release_times[release_inst]\<close>; a read outside the table is \<^const>\<open>None\<close>.\<close>

definition current_release :: "tt_task \<Rightarrow> u64 option" where
  "current_release t =
     (let i = unat (release_inst t) in if i < length (release_times t) then Some (release_times t ! i) else None)"

definition ttschedule_sortedinsert_release :: "addr \<Rightarrow> tt_task schedule \<Rightarrow> tt_task schedule option" where
  "ttschedule_sortedinsert_release = schedule_sortedinsert current_release"

definition ttschedule_dequeue :: "tt_task schedule \<Rightarrow> addr option \<times> tt_task schedule" where
  "ttschedule_dequeue = schedule_dequeue"

text \<open>
  What the dispatcher writes into a task after it has called it. An access outside the table, and the
  remainder by a number of releases that is 0, are \<^const>\<open>None\<close>.
\<close>

definition tt_executed :: "u64 \<Rightarrow> u64 \<Rightarrow> tt_task \<Rightarrow> tt_task option" where
  "tt_executed hyper current_time t = do {
     release \<leftarrow> current_release t;
     let t = t\<lparr>release_times := (release_times t)[unat (release_inst t) := release + hyper]\<rparr>;
     if nr_releases t = 0 then None
     else (let t = t\<lparr>release_inst := (release_inst t + 1) mod nr_releases t\<rparr>;
               t = t\<lparr>tt_delta_sum := tt_delta_sum t +
                     (if tt_last_release_time t = 0 then tt_period t else current_time - tt_last_release_time t)\<rparr>;
               t = t\<lparr>tt_last_release_time := current_time\<rparr>
           in Some (t\<lparr>tt_exec_count := tt_exec_count t + 1\<rparr>))
   }"

definition tt_minimal_dispatcher ::
  "(nat \<Rightarrow> tt_task \<Rightarrow> 'w \<Rightarrow> 'w) \<Rightarrow> tt_task schedule \<Rightarrow> u64 \<Rightarrow> 'w \<Rightarrow> (u8 \<times> tt_task schedule \<times> 'w) option" where
  "tt_minimal_dispatcher call schedule current_time w = do {
     node \<leftarrow> find_node (\<lambda>t. map_option (\<lambda>release. release \<le> current_time) (current_release t)) schedule;
     case node of
       None \<Rightarrow> Some (0, schedule, w)
     | Some node_itr \<Rightarrow>
         (let t = task_of schedule node_itr;
              w = call (tt_func t) t w
          in do {
            t \<leftarrow> tt_executed (hyper_period schedule) current_time t;
            let schedule = set_task node_itr t schedule;
            schedule \<leftarrow> (case ttschedule_dequeue schedule of
               (None, s) \<Rightarrow> None
             | (Some exec_task, s) \<Rightarrow> ttschedule_sortedinsert_release exec_task s);
            Some (1, schedule, w)
          })
   }"

text \<open>The scheduler loop; it is \<^const>\<open>None\<close> when it does not return.\<close>

definition tt_minimal_schedule_loop ::
  "('w \<Rightarrow> u64 \<times> 'w) \<Rightarrow> (nat \<Rightarrow> tt_task \<Rightarrow> 'w \<Rightarrow> 'w) \<Rightarrow> tt_task schedule \<Rightarrow> u32 \<Rightarrow> bool \<Rightarrow> 'w
     \<Rightarrow> (u32 \<times> tt_task schedule \<times> 'w) option" where
  "tt_minimal_schedule_loop get_time call schedule noLoops forever w =
     (let (start, w) = get_time w;
          (now, w) = get_time w
      in map_option (\<lambda>(n, (_, _, s, w)). (n, s, w)) (loop_until (\<lambda>(current_time, executed_tasks, s, w).
           if forever \<or> current_time < ucast noLoops * hyper_period s
           then do {
             (r, s, w) \<leftarrow> tt_minimal_dispatcher call s current_time w;
             let (now, w) = get_time w;
             Some (None, (now - start, executed_tasks + ucast r, s, w))
           }
           else Some (Some executed_tasks, (current_time, executed_tasks, s, w))) (now - start, 0, schedule, w)))"

section \<open>The dispatcher as a step on the list of tasks\<close>

text \<open>
  A task as its user builds it: the current release lies in the table, which has as many entries as the
  task has releases. Then every access of the dispatcher is inside the table.
\<close>

definition tt_ok :: "tt_task \<Rightarrow> bool" where
  "tt_ok t \<longleftrightarrow> unat (release_inst t) < length (release_times t) \<and> unat (nr_releases t) = length (release_times t)"

definition next_release :: "tt_task \<Rightarrow> u64" where
  "next_release t = release_times t ! unat (release_inst t)"

lemma current_release_ok: "tt_ok t \<Longrightarrow> current_release t = Some (next_release t)"
  by (simp add: tt_ok_def current_release_def next_release_def)

interpretation tt: release_queue next_release "\<lambda>now t. next_release t \<le> now"
  by unfold_locales (rule order_trans)

lemma next_index:
  assumes "unat i < n" and "unat (nr :: u32) = n"
  shows "unat ((i + 1) mod nr) = Suc (unat i) mod n"
proof -
  have "Suc (unat i) < 2 ^ 32" using assms unsigned_less [of nr, where 'a = nat] by simp
  then have "unat (i + 1) = Suc (unat i)" by (simp add: unat_word_ariths)
  with assms show ?thesis by (simp add: unat_mod_distrib)
qed

lemma tt_executed_ok:
  assumes "tt_ok t"
  shows "tt_executed hyper now t = Some (t\<lparr>
      release_times := (release_times t)[unat (release_inst t) := next_release t + hyper],
      release_inst := of_nat (Suc (unat (release_inst t)) mod length (release_times t)),
      tt_delta_sum := tt_delta_sum t + (if tt_last_release_time t = 0 then tt_period t else now - tt_last_release_time t),
      tt_last_release_time := now,
      tt_exec_count := tt_exec_count t + 1\<rparr>)"
    and "\<And>x. tt_executed hyper now t = Some x \<Longrightarrow> tt_ok x"
proof -
  have n: "nr_releases t \<noteq> 0" using assms by (auto simp: tt_ok_def)
  have "unat ((release_inst t + 1) mod nr_releases t) = Suc (unat (release_inst t)) mod length (release_times t)"
    using next_index assms by (simp add: tt_ok_def)
  then have i: "(release_inst t + 1) mod nr_releases t = of_nat (Suc (unat (release_inst t)) mod length (release_times t))"
    by (metis of_nat_unat ucast_id)
  show e: "tt_executed hyper now t = Some (t\<lparr>
      release_times := (release_times t)[unat (release_inst t) := next_release t + hyper],
      release_inst := of_nat (Suc (unat (release_inst t)) mod length (release_times t)),
      tt_delta_sum := tt_delta_sum t + (if tt_last_release_time t = 0 then tt_period t else now - tt_last_release_time t),
      tt_last_release_time := now,
      tt_exec_count := tt_exec_count t + 1\<rparr>)"
    using n by (simp add: tt_executed_def current_release_ok assms i)
  fix x assume "tt_executed hyper now t = Some x"
  then have "release_inst x = (release_inst t + 1) mod nr_releases t" "nr_releases x = nr_releases t"
    "length (release_times x) = length (release_times t)"
    by (auto simp: e i)
  with assms next_index [of "release_inst t" "length (release_times t)" "nr_releases t"] show "tt_ok x"
    by (auto simp: tt_ok_def intro!: mod_less_divisor)
qed

lemma dispatcher_step:
  assumes "queue_at s as" and ok: "\<forall>t \<in> set (tasks_at s as). tt_ok t"
  shows "\<exists>r t w' bs. tt_minimal_dispatcher call s now w = Some (r, t, w') \<and> queue_at t bs \<and>
    task_count t = task_count s \<and> hyper_period t = hyper_period s \<and>
    (case List.find (\<lambda>t. next_release t \<le> now) (tasks_at s as) of
       None \<Rightarrow> r = 0 \<and> t = s \<and> bs = as \<and> w' = w
     | Some x \<Rightarrow> r = 1 \<and> w' = call (tt_func x) x w \<and> tt_ok x \<and>
         tasks_at t bs = dispatch next_release (\<lambda>t. next_release t \<le> now)
           (\<lambda>_. the (tt_executed (hyper_period s) now x)) (tasks_at s as))"
proof -
  let ?due = "\<lambda>t. next_release t \<le> now" and ?read = "\<lambda>t. map_option (\<lambda>release. release \<le> now) (current_release t)"
  have reads: "\<forall>t \<in> set (tasks_at s as). ?read t = Some (?due t) \<and> current_release t = Some (next_release t)"
    using ok by (simp add: current_release_ok)
  consider "find_node ?read s = Some None" "\<forall>t \<in> set (tasks_at s as). \<not> ?due t"
    | a where "find_node ?read s = Some (Some a)" "a \<in> set as" "List.find ?due (tasks_at s as) = Some (task_of s a)"
      "\<And>t'. tt_ok t' \<Longrightarrow> \<exists>t bs. requeue current_release (set_task a t' s) = Some t \<and> queue_at t bs \<and>
        tasks_at t bs = dispatch next_release ?due (\<lambda>_. t') (tasks_at s as) \<and> task_count t = task_count s \<and>
        hyper_period t = hyper_period s"
    using step_refines [OF assms(1) reads] current_release_ok by metis
  then show ?thesis
  proof cases
    case 1
    then have "List.find ?due (tasks_at s as) = None" by (auto simp: find_None_iff)
    with 1 assms show ?thesis by (auto simp: tt_minimal_dispatcher_def)
  next
    case (2 a)
    let ?x = "task_of s a"
    have x: "tt_ok ?x" using ok 2(2) by (simp add: tasks_at_def)
    then obtain t' where t': "tt_executed (hyper_period s) now ?x = Some t'" "tt_ok t'"
      using tt_executed_ok by blast
    obtain t bs where t: "requeue current_release (set_task a t' s) = Some t" "queue_at t bs"
      "tasks_at t bs = dispatch next_release ?due (\<lambda>_. t') (tasks_at s as)" "task_count t = task_count s"
      "hyper_period t = hyper_period s"
      using 2(4) [OF t'(2)] by blast
    have "tt_minimal_dispatcher call s now w = Some (1, t, call (tt_func ?x) ?x w)"
      using 2(1) t(1) t'(1)
      by (simp add: tt_minimal_dispatcher_def Let_def split_beta requeue_def ttschedule_dequeue_def
          ttschedule_sortedinsert_release_def split: option.splits)
    with 2(3) t(2-) t'(1) x show ?thesis by auto
  qed
qed

lemma tt_find_head:
  assumes "sorted (map next_release ts)" and "List.find (\<lambda>t. next_release t \<le> now) ts = Some x"
  shows "ts \<noteq> []" and "x = hd ts" and "next_release (hd ts) \<le> now"
proof -
  have x: "x \<in> set ts" "next_release x \<le> now"
    using assms(2) by (auto simp: find_Some_iff in_set_conv_nth)
  show "ts \<noteq> []" and h: "next_release (hd ts) \<le> now"
    using x tt.head_due [OF assms(1) x] by auto
  with assms(2) show "x = hd ts" by (cases ts) auto
qed

section \<open>Properties\<close>

text \<open>C35: one step of the time-triggered dispatcher, on the heap. For a list of tasks, each with its current
  release inside its table, in the order of the current releases: when the release of the first task has come,
  exactly that task is called and put back with this release one hyper period later, at its next release (the
  first after the last), with its interval, its last release and its count written; otherwise nothing is called
  or changed. No access falls outside a table, no task is lost or duplicated, every task is again as it
  should be, and the list is in the order of the releases again.\<close>

theorem tt_dispatcher_sorted:
  assumes "queue_at s as" and "\<forall>t \<in> set (tasks_at s as). tt_ok t" and "sorted (map next_release (tasks_at s as))"
  shows "\<exists>r t w' bs. tt_minimal_dispatcher call s now w = Some (r, t, w') \<and> queue_at t bs \<and>
    sorted (map next_release (tasks_at t bs)) \<and> (\<forall>t' \<in> set (tasks_at t bs). tt_ok t') \<and> task_count t = task_count s \<and>
    (let first = hd (tasks_at s as); i = unat (release_inst first); releases = release_times first
     in if as \<noteq> [] \<and> releases ! i \<le> now
        then r = 1 \<and> w' = call (tt_func first) first w \<and>
          mset (tasks_at t bs) = mset (tasks_at s as) - {#first#} + {#first\<lparr>
            release_times := releases[i := releases ! i + hyper_period s],
            release_inst := of_nat (Suc i mod length releases),
            tt_delta_sum := tt_delta_sum first +
              (if tt_last_release_time first = 0 then tt_period first else now - tt_last_release_time first),
            tt_last_release_time := now,
            tt_exec_count := tt_exec_count first + 1\<rparr>#}
        else r = 0 \<and> t = s \<and> bs = as \<and> w' = w)"
proof -
  let ?ts = "tasks_at s as" and ?due = "\<lambda>t. next_release t \<le> now"
  let ?x = "the (tt_executed (hyper_period s) now (hd ?ts))"
  obtain r t w' bs where step: "tt_minimal_dispatcher call s now w = Some (r, t, w')" "queue_at t bs"
    "task_count t = task_count s"
    and c: "case List.find ?due ?ts of None \<Rightarrow> r = 0 \<and> t = s \<and> bs = as \<and> w' = w
        | Some x \<Rightarrow> r = 1 \<and> w' = call (tt_func x) x w \<and> tt_ok x \<and>
            tasks_at t bs = dispatch next_release ?due (\<lambda>_. the (tt_executed (hyper_period s) now x)) ?ts"
    using dispatcher_step [OF assms(1,2), of call now w] by blast
  show ?thesis
  proof (cases "List.find ?due ?ts")
    case None
    then have "\<not> (as \<noteq> [] \<and> next_release (hd ?ts) \<le> now)"
      by (cases as) (auto simp: find_None_iff tasks_at_def)
    with None c step assms show ?thesis by (auto simp: Let_def next_release_def)
  next
    case (Some x)
    from tt_find_head [OF assms(3) Some] have h: "as \<noteq> []" "?ts \<noteq> []" "x = hd ?ts" "next_release (hd ?ts) \<le> now"
      by (auto simp: tasks_at_def)
    from Some c h(3) have x: "r = 1" "w' = call (tt_func (hd ?ts)) (hd ?ts) w" "tt_ok (hd ?ts)"
      "tasks_at t bs = dispatch next_release ?due (\<lambda>_. ?x) ?ts" by auto
    note d = tt.dispatch_sorted [OF assms(3) h(4) h(2), of "\<lambda>_. ?x", folded x(4)]
    have "\<forall>t' \<in># mset (tasks_at t bs). tt_ok t'"
      unfolding d(2) using assms(2) tt_executed_ok [OF x(3), of "hyper_period s" now] by (auto dest: in_diffD)
    with d step h(1,4) x(1,2) show ?thesis
      by (intro exI [of _ r] exI [of _ t] exI [of _ w'] exI [of _ bs])
        (simp add: Let_def next_release_def tt_executed_ok(1) [OF x(3)] flip: set_mset_mset)
  qed
qed

definition example_tttask :: "u16 \<Rightarrow> u64 \<Rightarrow> u64 list \<Rightarrow> tt_task" where
  "example_tttask i p rs = \<lparr>tt_id = i, tt_period = p, release_times = rs, tt_deadline = p, tt_wcet = 1,
     release_inst = 0, nr_releases = of_nat (length rs), tt_delta_sum = 0, tt_last_release_time = 0,
     tt_exec_count = 0, tt_func = 0\<rparr>"

definition example_ttschedule :: "tt_task schedule" where
  "example_ttschedule = ttschedule_enqueue (example_tttask 2 60 [40]) (ttschedule_enqueue (example_tttask 1 30 [5, 35])
     (init_minimal_ttschedule 60 2 (\<lambda>_. \<lparr>node_task = example_tttask 0 0 [], link = None\<rparr>)))"

lemma example_ttschedule_queue: "queue_at example_ttschedule [0, Suc 0]"
  "tasks_at example_ttschedule [0, Suc 0] = [example_tttask 1 30 [5, 35], example_tttask 2 60 [40]]"
proof -
  let ?e = "init_minimal_ttschedule 60 2 (\<lambda>_. \<lparr>node_task = example_tttask 0 0 [], link = None\<rparr>)"
  have e: "queue_at ?e []" "tail_ok ?e []" "fresh ?e = 0" "tasks_at ?e [] = []"
    by (simp_all add: init_minimal_ttschedule_def init_minimal_schedule_def queue_at_def tail_ok_def tasks_at_def)
  let ?f = "schedule_enqueue (example_tttask 1 30 [5, 35]) ?e"
  have f: "fresh ?f = 1"
    using e by (simp add: schedule_enqueue_def Let_def split_beta create_simps split: option.split)
  note f2 = enqueue_refines [OF e(1,2), of "example_tttask 1 30 [5, 35]"]
  from enqueue_refines [OF f2(1,2), of "example_tttask 2 60 [40]"] f2(3) f e(3,4)
  show "queue_at example_ttschedule [0, Suc 0]"
    "tasks_at example_ttschedule [0, Suc 0] = [example_tttask 1 30 [5, 35], example_tttask 2 60 [40]]"
    by (simp_all add: example_ttschedule_def ttschedule_enqueue_def)
qed

lemma example_ttschedule_hyper: "hyper_period example_ttschedule = 60"
  by (simp add: example_ttschedule_def ttschedule_enqueue_def schedule_enqueue_def Let_def split_beta create_simps
      init_minimal_ttschedule_def init_minimal_schedule_def split: option.split)

lemma tt_dispatcher_sorted_witness:
  "\<exists>t bs. tt_minimal_dispatcher (\<lambda>f t w. w + 3) example_ttschedule 10 (0 :: nat) = Some (1, t, 3) \<and>
    queue_at t bs \<and> sorted (map next_release (tasks_at t bs)) \<and>
    image_mset release_times (mset (tasks_at t bs)) = {#[65, 35], [40]#} \<and>
    image_mset next_release (mset (tasks_at t bs)) = {#35, 40#}"
proof -
  have "sorted (map next_release (tasks_at example_ttschedule [0, Suc 0]))"
    "\<forall>t \<in> set (tasks_at example_ttschedule [0, Suc 0]). tt_ok t"
    by (simp_all add: example_ttschedule_queue example_tttask_def next_release_def tt_ok_def)
  from tt_dispatcher_sorted [OF example_ttschedule_queue(1) this(2,1), of "\<lambda>f t w. w + 3" 10 "0 :: nat"]
  obtain t bs where "tt_minimal_dispatcher (\<lambda>f t w. w + 3) example_ttschedule 10 (0 :: nat) = Some (1, t, 3)"
    "queue_at t bs" "sorted (map next_release (tasks_at t bs))"
    "mset (tasks_at t bs) = {#(example_tttask 1 30 [65, 35])\<lparr>release_inst := 1, tt_delta_sum := 30,
       tt_last_release_time := 10, tt_exec_count := 1\<rparr>, example_tttask 2 60 [40]#}"
    by (auto simp: example_ttschedule_queue example_ttschedule_hyper example_tttask_def Let_def)
  then show ?thesis
    by (intro exI [of _ t] exI [of _ bs]) (simp add: example_tttask_def next_release_def)
qed

text \<open>The executions of a task at a list of times, one after the other.\<close>

fun executions :: "u64 \<Rightarrow> u64 list \<Rightarrow> tt_task \<Rightarrow> tt_task option" where
  "executions hyper [] t = Some t"
| "executions hyper (now # nows) t = tt_executed hyper now t \<bind> executions hyper nows"

lemma executions_snoc: "executions hyper (nows @ [now]) t = executions hyper nows t \<bind> tt_executed hyper now"
  by (induction nows arbitrary: t) (simp_all add: bind_assoc split: Option.bind_split)

lemma executed_rounds:
  assumes "release_inst t = 0" and "nr_releases t = of_nat (length (release_times t))"
    and "length (release_times t) < 2 ^ 32" and "length nows \<le> length (release_times t)" and "release_times t \<noteq> []"
  shows "\<exists>t'. executions hyper nows t = Some t' \<and> tt_ok t' \<and>
    release_times t' = map (\<lambda>r. r + hyper) (take (length nows) (release_times t)) @ drop (length nows) (release_times t) \<and>
    release_inst t' = of_nat (length nows mod length (release_times t)) \<and>
    tt_exec_count t' = tt_exec_count t + of_nat (length nows)"
  using assms(4)
proof (induction nows rule: rev_induct)
  case Nil
  with assms show ?case by (simp add: tt_ok_def unat_of_nat)
next
  case (snoc now nows)
  let ?rs = "release_times t" and ?k = "length nows"
  from snoc obtain x where x: "executions hyper nows t = Some x" "tt_ok x"
    "release_times x = map (\<lambda>r. r + hyper) (take ?k ?rs) @ drop ?k ?rs" "release_inst x = of_nat ?k"
    "tt_exec_count x = tt_exec_count t + of_nat ?k"
    by auto
  have k: "?k < length ?rs" using snoc.prems by simp
  then have u: "unat (of_nat ?k :: u32) = ?k" using assms(3) by (simp add: unat_of_nat)
  have "(release_times x)[?k := release_times x ! ?k + hyper] = map (\<lambda>r. r + hyper) (take (Suc ?k) ?rs) @ drop (Suc ?k) ?rs"
    using k by (simp add: x(3) nth_append list_update_append take_Suc_conv_app_nth Cons_nth_drop_Suc [symmetric] min_def)
  moreover have "length (release_times x) = length ?rs" using k by (simp add: x(3))
  ultimately show ?case
    using x(1,4,5) u tt_executed_ok [OF x(2), of hyper now]
    by (simp add: executions_snoc next_release_def add.assoc)
qed

text \<open>C36: the releases of a task repeat with the hyper period. As many executions as the task has releases,
  at whatever times they are, leave it at its first release with every release time one hyper period later; no
  access falls outside the table.\<close>

theorem tt_task_periodic:
  assumes "release_inst t = 0" and "nr_releases t = of_nat (length (release_times t))"
    and "length (release_times t) < 2 ^ 32" and "length nows = length (release_times t)"
  shows "\<exists>t'. executions hyper nows t = Some t' \<and>
    release_times t' = map (\<lambda>r. r + hyper) (release_times t) \<and> release_inst t' = 0 \<and>
    tt_exec_count t' = tt_exec_count t + nr_releases t"
proof (cases "release_times t = []")
  case True
  with assms show ?thesis by simp
next
  case False
  with executed_rounds [OF assms(1-3), of nows hyper] assms(2,4) show ?thesis by auto
qed

lemma tt_task_periodic_witness:
  "\<exists>t'. executions 60 [7, 36] (example_tttask 1 30 [5, 35]) = Some t' \<and> release_times t' = [65, 95]"
  using tt_task_periodic [of "example_tttask 1 30 [5, 35]" "[7, 36]" 60] by (auto simp: example_tttask_def simp del: executions.simps)

end
