(* ===== verification/Tte_Node.thy ===== *)
theory Tte_Node
  imports Eth_Device
begin

text \<open>
  The TTEthernet library (\<^verbatim>\<open>c/ethlib/tte.c\<close>, \<^verbatim>\<open>tte.h\<close>): the state of a node, the reception of
  integration frames, which correct its clock, the virtual links with their transmit queues, the
  construction of the transmission schedule and the timer interrupt that follows it.

  The run-time library of the processor (exception table, clock timer) is not part of the
  repository: the calls to it are recorded in the order they are made. The low word of the cycle
  clock is a memory-mapped register, whose address the state holds.
\<close>

section \<open>State\<close>

datatype handler = Int_handler | Tte_clock_tick | Tte_clock_tick_log

datatype rts_call =
    Arm_clock_timer u64
  | Exc_register nat handler
  | Intr_unmask nat
  | Intr_clear_all_pending
  | Intr_enable

record virtual_link =
  max_queue :: u8
  startTime :: u32
  link_period :: u32
  queue :: "u32 list"
  sizeQueue :: "u32 list"
  addplace :: u8
  rmplace :: u8

record tte_state = eth_state +
  timer_loclk :: u32
  tte_max_trans_delay :: u32
  tte_comp_delay :: u32
  tte_precision :: u32
  integration_period :: u32
  integration_cycle :: u32
  cluster_period :: u32
  tte_current_time :: u64
  timer_time :: u64
  clock_err :: u64
  clock_err_integral :: u64
  CT_marker :: "u8 list"
  max_sched :: u8
  mac :: "u8 list"
  send_times :: "u64 list"
  send_time_i :: u32
  VLarray :: "virtual_link list"
  VLsize :: u8
  sched :: "u32 list"
  VLsched :: "u32 list"
  startTick :: u32
  schedplace :: u8
  tte_receive_log_max_time :: u32
  handle_integration_frame_log_max_time :: u32
  tte_clear_free_rx_buffer_max_time :: u32
  rts :: "rts_call list"

definition CYCLES_PER_UNIT :: u32 where
  "CYCLES_PER_UNIT = 8000"

definition rts_do :: "rts_call \<Rightarrow> tte_state \<Rightarrow> tte_state" where
  "rts_do c s = s\<lparr>rts := rts s @ [c]\<rparr>"

definition read_loclk :: "tte_state \<Rightarrow> u32 \<times> tte_state" where
  "read_loclk s = (let (t, d) = env_io_rd (dev s) (timer_loclk s) in (t, s\<lparr>dev := d\<rparr>))"

section \<open>Received frames\<close>

definition is_pcf :: "buffer \<Rightarrow> u32 \<Rightarrow> u8" where
  "is_pcf b addr =
     (let type_1 = mem_iord_byte b (addr + 12);
          type_2 = mem_iord_byte b (addr + 13)
      in if type_1 = 0x89 \<and> type_2 = 0x1D then 1 else 0)"

definition is_tte :: "u8 list \<Rightarrow> buffer \<Rightarrow> u32 \<Rightarrow> u8" where
  "is_tte marker b addr =
     (if \<forall>i \<in> set [0..<4]. mem_iord_byte b (addr + of_nat i) = ucast (marker ! i) then 1 else 0)"

text \<open>
  The wait for a frame. Both its loops begin with a \<^verbatim>\<open>continue\<close>, which goes straight to the loop
  condition, so that the time of reception is not written and the timeout is not tested.
\<close>

definition tte_wait_for_message :: "u64 \<Rightarrow> u64 \<Rightarrow> tte_state \<Rightarrow> ((u8 \<times> u64) \<times> tte_state) option" where
  "tte_wait_for_message receive_point timeout s =
     (if timeout = 0
      then do {
        s \<leftarrow> wait_rx s;
        Some ((1, receive_point), s)
      }
      else let (start_time, s) = get_cpu_cycles s in do {
        s \<leftarrow> wait_rx s;
        Some ((1, receive_point), s)
      })"

definition tte_clear_free_rx_buffer :: "u32 \<Rightarrow> tte_state \<Rightarrow> tte_state" where
  "tte_clear_free_rx_buffer addr s =
     (let (initMeasurement, s) = read_loclk s;
          s = eth_iowr 0x04 0x00000004 s;
          (cur_data, s) = eth_iord addr s;
          s = eth_iowr addr (cur_data OR push_bit 15 1) s;
          (now, s) = read_loclk s;
          diffTemp = now - initMeasurement
      in if diffTemp > tte_clear_free_rx_buffer_max_time s
         then s\<lparr>tte_clear_free_rx_buffer_max_time := diffTemp\<rparr> else s)"

section \<open>Integration frames\<close>

text \<open>From the transparent clock of a frame to cycles.\<close>

definition transClk_to_clk :: "u64 \<Rightarrow> u64" where
  "transClk_to_clk transClk = drop_bit 26 (drop_bit 16 (transClk * 10) * 536871)"

definition frame_trans_clock :: "buffer \<Rightarrow> u32 \<Rightarrow> u64" where
  "frame_trans_clock b addr = fold (\<lambda>i c. push_bit 8 c OR ucast (mem_iord_byte b (addr + of_nat i)))
     [35..<42] (ucast (mem_iord_byte b (addr + 34)))"

definition frame_integration_cycle :: "buffer \<Rightarrow> u32 \<Rightarrow> u32" where
  "frame_integration_cycle b addr = fold (\<lambda>i c. push_bit 8 c OR mem_iord_byte b (addr + of_nat i))
     [15..<18] (mem_iord_byte b (addr + 14))"

text \<open>The constant part of the time between sending and the scheduled reception, computed in 32 bits.\<close>

definition receive_delay :: "tte_state \<Rightarrow> u64" where
  "receive_delay s = ucast (2 * tte_max_trans_delay s + tte_comp_delay s)"

definition sched_receive_pit :: "tte_state \<Rightarrow> u64" where
  "sched_receive_pit s = tte_current_time s + ucast (2 * tte_max_trans_delay s) + ucast (tte_comp_delay s)"

text \<open>What happens at the beginning of a cluster cycle: the schedule starts again.\<close>

definition restart_schedule :: "tte_state \<Rightarrow> tte_state" where
  "restart_schedule s =
     (if integration_cycle s = 0
      then let s = s\<lparr>schedplace := 0\<rparr>;
               s = s\<lparr>timer_time := tte_current_time s + ucast (CYCLES_PER_UNIT * startTick s)\<rparr>
           in rts_do (Arm_clock_timer (timer_time s)) s
      else s)"

definition permanence :: "u32 \<Rightarrow> u64 \<Rightarrow> tte_state \<Rightarrow> u64" where
  "permanence addr receive_pit s =
     receive_pit + (ucast (tte_max_trans_delay s) - transClk_to_clk (frame_trans_clock (buff s) addr))"

definition in_window :: "u64 \<Rightarrow> u64 \<Rightarrow> tte_state \<Rightarrow> bool" where
  "in_window permanence_pit sched_rec_pit s \<longleftrightarrow>
     permanence_pit > sched_rec_pit - ucast (tte_precision s) \<and>
     permanence_pit < sched_rec_pit + ucast (tte_precision s)"

definition handle_integration_frame :: "u32 \<Rightarrow> u64 \<Rightarrow> tte_state \<Rightarrow> u32 \<times> tte_state" where
  "handle_integration_frame addr receive_pit s =
     (let s = s\<lparr>integration_cycle := frame_integration_cycle (buff s) addr\<rparr>;
          permanence_pit = permanence addr receive_pit s;
          s = (if tte_current_time s = 0 then s\<lparr>tte_current_time := permanence_pit - receive_delay s\<rparr> else s);
          sched_rec_pit = sched_receive_pit s;
          err = permanence_pit - sched_rec_pit
      in if in_window permanence_pit sched_rec_pit s
         then let s = s\<lparr>tte_current_time := tte_current_time s + err\<rparr>;
                  s = restart_schedule s
              in (1, s\<lparr>tte_current_time := tte_current_time s + ucast (integration_period s)\<rparr>)
         else (0, s\<lparr>tte_current_time := 0\<rparr>))"

text \<open>
  The logging variant, with a proportional and integral correction; it also keeps the longest time
  it took. The error array is the caller's.
\<close>

definition handle_integration_frame_log ::
  "u32 \<Rightarrow> u64 \<Rightarrow> u64 list \<Rightarrow> u32 \<Rightarrow> tte_state \<Rightarrow> ((u32 \<times> u64 list) \<times> tte_state) option" where
  "handle_integration_frame_log addr receive_pit err i s =
     (let (initMeasurement, s) = read_loclk s;
          s = s\<lparr>integration_cycle := frame_integration_cycle (buff s) addr\<rparr>;
          permanence_pit = permanence addr receive_pit s;
          s = (if tte_current_time s = 0 then s\<lparr>tte_current_time := permanence_pit - receive_delay s\<rparr> else s);
          sched_rec_pit = sched_receive_pit s;
          s = s\<lparr>clock_err := permanence_pit - sched_rec_pit\<rparr>
      in do {
        err \<leftarrow> array_store err (unat i) (clock_err s);
        let (ans, s) =
          (if in_window permanence_pit sched_rec_pit s
           then let s = s\<lparr>clock_err_integral := clock_err_integral s + clock_err s\<rparr>;
                    s = s\<lparr>tte_current_time := tte_current_time s + signed_drop_bit 10 (300 * clock_err s) +
                           signed_drop_bit 10 (700 * clock_err_integral s)\<rparr>;
                    s = restart_schedule s
                in (1, s\<lparr>tte_current_time := tte_current_time s + ucast (integration_period s)\<rparr>)
           else (0, s));
        let (now, s) = read_loclk s;
        let diffTemp = now - initMeasurement;
        Some ((ans, err), if diffTemp > handle_integration_frame_log_max_time s
                          then s\<lparr>handle_integration_frame_log_max_time := diffTemp\<rparr> else s)
      })"

text \<open>0 is a failed integration frame, 1 a successful one, 2 a TTEthernet frame, 3 another frame.\<close>

definition tte_receive :: "u32 \<Rightarrow> u64 \<Rightarrow> tte_state \<Rightarrow> u8 \<times> tte_state" where
  "tte_receive addr rec_start s =
     (if is_pcf (buff s) addr \<noteq> 0
      then if mem_iord_byte (buff s) (addr + 28) = 0x2
           then let (r, s) = handle_integration_frame addr rec_start s in (if r \<noteq> 0 then 1 else 0, s)
           else (3, s)
      else if is_tte (CT_marker s) (buff s) addr \<noteq> 0 then (2, s) else (3, s))"

definition tte_receive_log ::
  "u32 \<Rightarrow> u64 \<Rightarrow> u64 list \<Rightarrow> u32 \<Rightarrow> tte_state \<Rightarrow> ((u8 \<times> u64 list) \<times> tte_state) option" where
  "tte_receive_log addr rec_start err i s =
     (let (initMeasurement, s) = read_loclk s
      in do {
        ((ans, err), s) \<leftarrow>
          (if is_pcf (buff s) addr \<noteq> 0
           then if mem_iord_byte (buff s) (addr + 28) = 0x2
                then do {
                  ((r, err), s) \<leftarrow> handle_integration_frame_log addr rec_start err i s;
                  Some ((if r \<noteq> 0 then 1 else 0, err), s)
                }
                else Some ((3, err), s)
           else if is_tte (CT_marker s) (buff s) addr \<noteq> 0 then Some ((2, err), s) else Some ((3, err), s));
        let (now, s) = read_loclk s;
        let diffTemp = now - initMeasurement;
        Some ((ans, err), if diffTemp > tte_receive_log_max_time s
                          then s\<lparr>tte_receive_log_max_time := diffTemp\<rparr> else s)
      })"

section \<open>Virtual links\<close>

definition VL_at :: "tte_state \<Rightarrow> nat \<Rightarrow> virtual_link" where
  "VL_at s i = VLarray s ! i"

definition set_VL :: "nat \<Rightarrow> virtual_link \<Rightarrow> tte_state \<Rightarrow> tte_state" where
  "set_VL i v s = s\<lparr>VLarray := (VLarray s)[i := v]\<rparr>"

text \<open>
  A new link. The number of its queue slots divides the low byte of the cluster period by the
  period. The arrays it allocates are cleared.
\<close>

definition tte_init_VL :: "u8 \<Rightarrow> u32 \<Rightarrow> u32 \<Rightarrow> tte_state \<Rightarrow> tte_state option" where
  "tte_init_VL i start period s =
     (if length (VLarray s) \<le> unat i \<or> period = 0 then None
      else let slots = ucast (ucast (ucast (cluster_period s) :: u8) div period) :: u8;
               v = (VL_at s (unat i))\<lparr>max_queue := slots, startTime := start, link_period := period,
                     queue := replicate (unat slots) 0, sizeQueue := replicate (unat slots) 0,
                     addplace := 0, rmplace := 0\<rparr>
           in Some (set_VL (unat i) v s))"

text \<open>
  The set-up of the node. The links are allocated, with contents that nothing determines, and one
  more than asked for is made, which places the integration frames in the schedule.
\<close>

definition tte_initialize ::
  "u32 \<Rightarrow> u32 \<Rightarrow> u8 list \<Rightarrow> u8 \<Rightarrow> u32 \<Rightarrow> u32 \<Rightarrow> u32 \<Rightarrow> (nat \<Rightarrow> virtual_link) \<Rightarrow> tte_state \<Rightarrow> tte_state option" where
  "tte_initialize int_period cl_period CT VLcount max_delay comp_delay precision garbage s =
     (let s = s\<lparr>integration_period := int_period * CYCLES_PER_UNIT\<rparr>;
          s = s\<lparr>cluster_period := cl_period\<rparr>;
          s = s\<lparr>CT_marker := map ((!) CT) [0..<4]\<rparr>;
          s = s\<lparr>tte_max_trans_delay := max_delay, tte_comp_delay := comp_delay, tte_precision := precision\<rparr>;
          (macAdd, s) = get_mac_address s;
          s = s\<lparr>mac := map (\<lambda>i. ucast (drop_bit (8 * (5 - i)) macAdd AND 0xFF)) [0..<6]\<rparr>;
          s = eth_iowr 0x00 0x0000A423 s;
          s = eth_iowr 0x08 0x00000004 s;
          s = s\<lparr>VLarray := map garbage [0..<unat VLcount + 1]\<rparr>;
          s = s\<lparr>VLsize := VLcount + 1\<rparr>
      in tte_init_VL VLcount int_period int_period s)"

definition tte_stop_ticking :: "tte_state \<Rightarrow> tte_state option" where
  "tte_stop_ticking s = (if unat (VLsize s) \<le> length (VLarray s) then Some (s\<lparr>VLarray := []\<rparr>) else None)"

text \<open>A frame is queued in the next free slot, if that is empty. An address of 0 marks an empty slot.\<close>

definition tte_schedule_send :: "u32 \<Rightarrow> u32 \<Rightarrow> u8 \<Rightarrow> tte_state \<Rightarrow> (u8 \<times> tte_state) option" where
  "tte_schedule_send addr sz i s =
     (if length (VLarray s) \<le> unat i \<or> length (queue (VL_at s (unat i))) \<le> unat (addplace (VL_at s (unat i))) then None
      else let v = VL_at s (unat i)
           in if queue v ! unat (addplace v) = 0
              then let v = v\<lparr>queue := (queue v)[unat (addplace v) := addr]\<rparr>;
                       v = v\<lparr>sizeQueue := (sizeQueue v)[unat (addplace v) := sz]\<rparr>;
                       v = v\<lparr>addplace := addplace v + 1\<rparr>;
                       v = (if addplace v = max_queue v then v\<lparr>addplace := 0\<rparr> else v)
                   in Some (1, set_VL (unat i) v s)
              else Some (0, s))"

definition tte_send_data :: "u8 \<Rightarrow> tte_state \<Rightarrow> tte_state option" where
  "tte_send_data i s =
     (if length (VLarray s) \<le> unat i \<or> length (queue (VL_at s (unat i))) \<le> unat (rmplace (VL_at s (unat i))) then None
      else let v = VL_at s (unat i);
               tx_addr = queue v ! unat (rmplace v);
               v = v\<lparr>queue := (queue v)[unat (rmplace v) := 0]\<rparr>;
               s = set_VL (unat i) v s
           in do {
             s \<leftarrow> eth_mac_send tx_addr (sizeQueue v ! unat (rmplace v)) s;
             let v = (VL_at s (unat i))\<lparr>rmplace := rmplace (VL_at s (unat i)) + 1\<rparr>;
             let v = (if rmplace v = max_queue v then v\<lparr>rmplace := 0\<rparr> else v);
             Some (set_VL (unat i) v s)
           })"

section \<open>The schedule\<close>

text \<open>
  The pass over the links that finds the first with the smallest time below \<open>least\<close>: the link
  found, if one is, and its time.
\<close>

definition earliest :: "(nat \<Rightarrow> u32) \<Rightarrow> nat \<Rightarrow> u32 \<Rightarrow> nat option \<Rightarrow> u32 \<times> nat option" where
  "earliest time n least VL = fold (\<lambda>i (least, VL). if time i < least then (time i, Some i) else (least, VL))
     [0..<n] (least, VL)"

text \<open>
  The loop that fills the schedule. Its state is the index, the time of the last transmission, the
  link found last, the next time of each link and the two arrays. A store outside them is undefined.
\<close>

record schedule_loop =
  sl_index :: nat
  sl_current :: u32
  sl_VL :: nat
  sl_VLcurrent :: "u32 list"
  sl_sched :: "u32 list"
  sl_VLsched :: "u32 list"

definition advance_link :: "(nat \<Rightarrow> u32) \<Rightarrow> schedule_loop \<Rightarrow> schedule_loop" where
  "advance_link period l =
     l\<lparr>sl_VLcurrent := (sl_VLcurrent l)[sl_VL l := sl_VLcurrent l ! sl_VL l + period (sl_VL l)]\<rparr>"

definition schedule_round ::
  "(nat \<Rightarrow> u32) \<Rightarrow> nat \<Rightarrow> u32 \<Rightarrow> nat \<Rightarrow> schedule_loop \<Rightarrow> (unit option \<times> schedule_loop) option" where
  "schedule_round period n cluster slots l =
     (let (least, VL) = earliest ((!) (sl_VLcurrent l)) n (cluster * 2) (Some (sl_VL l));
          l = l\<lparr>sl_VL := the VL\<rparr>
      in do {
        sch \<leftarrow> array_store (sl_sched l) (sl_index l) (least - sl_current l);
        let l = l\<lparr>sl_sched := sch\<rparr>;
        let l = (if sl_index l + 1 < slots
                 then l\<lparr>sl_VLsched := (sl_VLsched l)[sl_index l + 1 := of_nat (sl_VL l)]\<rparr> else l);
        let l = l\<lparr>sl_current := least\<rparr>;
        let l = advance_link period l;
        Some (if least \<ge> cluster then (Some (), l) else (None, l\<lparr>sl_index := sl_index l + 1\<rparr>))
      })"

definition tte_generate_schedule :: "(nat \<Rightarrow> u32) \<Rightarrow> tte_state \<Rightarrow> tte_state option" where
  "tte_generate_schedule garbage s =
     (let n = unat (VLsize s);
          start = (\<lambda>i. startTime (VL_at s i));
          period = (\<lambda>i. link_period (VL_at s i));
          (least, VL) = earliest start n (cluster_period s) None;
          s = s\<lparr>max_sched := fold (\<lambda>i m. m + max_queue (VL_at s i)) [0..<n] 0\<rparr>;
          s = s\<lparr>startTick := least\<rparr>;
          slots = unat (max_sched s)
      in case VL of
           None \<Rightarrow> None
         | Some vl \<Rightarrow> do {
             VLs \<leftarrow> array_store (map garbage [0..<slots]) 0 (of_nat vl);
             (u, l) \<leftarrow> loop_until (schedule_round period n (cluster_period s) slots)
               (advance_link period \<lparr>sl_index = 0, sl_current = least, sl_VL = vl,
                  sl_VLcurrent = map start [0..<n], sl_sched = map garbage [0..<slots], sl_VLsched = VLs\<rparr>);
             Some (s\<lparr>sched := sl_sched l, VLsched := sl_VLsched l\<rparr>)
           })"

definition tte_start_ticking :: "u8 \<Rightarrow> u8 \<Rightarrow> (nat \<Rightarrow> u32) \<Rightarrow> tte_state \<Rightarrow> tte_state option" where
  "tte_start_ticking log_sending enable_int garbage s = do {
     s \<leftarrow> tte_generate_schedule garbage s;
     let timer_handler = (if log_sending \<noteq> 0 then Tte_clock_tick_log else Tte_clock_tick);
     let s = (if enable_int \<noteq> 0
              then fold rts_do [Exc_register 16 Int_handler, Exc_register 17 timer_handler,
                     Intr_unmask 16, Intr_unmask 17] s
              else fold rts_do [Exc_register 16 timer_handler, Intr_unmask 16] s);
     let s = rts_do Intr_clear_all_pending s;
     let s = rts_do Intr_enable s;
     Some (s\<lparr>tte_current_time := 0\<rparr>)
   }"

section \<open>Frames to send\<close>

definition tte_prepare_header :: "tte_state \<Rightarrow> u32 \<Rightarrow> u8 list \<Rightarrow> u8 list \<Rightarrow> buffer \<Rightarrow> buffer" where
  "tte_prepare_header s tx_addr VL ethType b =
     (let b = for_loop 0 4 (\<lambda>i. mem_iowr_byte (tx_addr + of_nat i) (ucast (CT_marker s ! i))) b;
          b = mem_iowr_byte (tx_addr + 4) (ucast (VL ! 0)) b;
          b = mem_iowr_byte (tx_addr + 5) (ucast (VL ! 1)) b;
          b = for_loop 6 12 (\<lambda>i. mem_iowr_byte (tx_addr + of_nat i) (ucast (mac s ! (i - 6)))) b;
          b = mem_iowr_byte (tx_addr + 12) (ucast (ethType ! 0)) b
      in mem_iowr_byte (tx_addr + 13) (ucast (ethType ! 1)) b)"

text \<open>The length is a number that fits the C type \<^verbatim>\<open>int\<close>; the data has as many bytes.\<close>

definition tte_prepare_data :: "u32 \<Rightarrow> u8 list \<Rightarrow> u8 list \<Rightarrow> nat \<Rightarrow> tte_state \<Rightarrow> tte_state" where
  "tte_prepare_data tx_addr VL data len s =
     (let field = (of_nat len - 14 :: u32);
          ethType = [ucast (drop_bit 8 field AND 0xFF), ucast (field AND 0xFF)];
          b = tte_prepare_header s tx_addr VL ethType (buff s);
          b = for_loop 14 len (\<lambda>i. mem_iowr_byte (tx_addr + of_nat i) (ucast (data ! i))) b
      in s\<lparr>buff := b\<rparr>)"

definition tte_prepare_pcf :: "u32 \<Rightarrow> u8 list \<Rightarrow> u8 \<Rightarrow> tte_state \<Rightarrow> tte_state" where
  "tte_prepare_pcf addr VL frame_type s =
     (let b = tte_prepare_header s addr VL [0x89, 0x1D] (buff s);
          b = for_loop 14 18 (\<lambda>i. mem_iowr_byte (addr + of_nat i) 0x00) b;
          b = for_loop 18 21 (\<lambda>i. mem_iowr_byte (addr + of_nat i) 0x00) b;
          b = mem_iowr_byte (addr + 21) 0x02 b;
          b = mem_iowr_byte (addr + 26) 0x01 b;
          b = mem_iowr_byte (addr + 27) 0x01 b;
          b = mem_iowr_byte (addr + 28) (ucast frame_type) b;
          b = for_loop 34 42 (\<lambda>i. mem_iowr_byte (addr + of_nat i) 0x00) b
      in s\<lparr>buff := b\<rparr>)"

section \<open>The timer interrupt\<close>

text \<open>What both handlers do before they send: the link to serve and the next interrupt.\<close>

definition tick_advance :: "tte_state \<Rightarrow> (nat \<times> tte_state) option" where
  "tick_advance s =
     (if length (sched s) \<le> unat (schedplace s) \<or> length (VLsched s) \<le> unat (schedplace s) then None
      else let s = s\<lparr>timer_time := timer_time s + ucast (CYCLES_PER_UNIT * sched s ! unat (schedplace s))\<rparr>;
               i = VLsched s ! unat (schedplace s);
               s = s\<lparr>schedplace := schedplace s + 1\<rparr>
           in if schedplace s < max_sched s
              then if length (VLsched s) \<le> unat (schedplace s) then None
                   else let s = (if VLsched s ! unat (schedplace s) = ucast (VLsize s) - 1
                                 then s\<lparr>timer_time := tte_current_time s\<rparr> else s)
                        in Some (unat i, rts_do (Arm_clock_timer (timer_time s)) s)
              else Some (unat i, s))"

definition frame_waiting :: "nat \<Rightarrow> tte_state \<Rightarrow> bool option" where
  "frame_waiting i s =
     (if length (VLarray s) \<le> i \<or> length (queue (VL_at s i)) \<le> unat (rmplace (VL_at s i)) then None
      else Some (queue (VL_at s i) ! unat (rmplace (VL_at s i)) > 0))"

definition tte_clock_tick :: "tte_state \<Rightarrow> tte_state option" where
  "tte_clock_tick s = do {
     (i, s) \<leftarrow> tick_advance s;
     waiting \<leftarrow> frame_waiting i s;
     if waiting then tte_send_data (of_nat i) s else Some s
   }"

definition tte_clock_tick_log :: "tte_state \<Rightarrow> tte_state option" where
  "tte_clock_tick_log s = do {
     (i, s) \<leftarrow> tick_advance s;
     waiting \<leftarrow> frame_waiting i s;
     if waiting
     then let (now, s) = get_cpu_cycles s in do {
       stamps \<leftarrow> array_store (send_times s) (unat (send_time_i s)) now;
       let s = s\<lparr>send_times := stamps, send_time_i := send_time_i s + 1\<rparr>;
       tte_send_data (of_nat i) s
     }
     else Some s
   }"

section \<open>Nodes for the examples\<close>

definition example_link :: "u8 \<Rightarrow> u32 \<Rightarrow> u32 \<Rightarrow> virtual_link" where
  "example_link slots start period = \<lparr>max_queue = slots, startTime = start, link_period = period,
     queue = replicate (unat slots) 0, sizeQueue = replicate (unat slots) 0, addplace = 0, rmplace = 0\<rparr>"

definition example_node :: "u32 \<Rightarrow> virtual_link list \<Rightarrow> tte_state" where
  "example_node cl vls = \<lparr>buff = \<lambda>_. 0, buff1 = \<lambda>_. 0, dev = ready_env 0, timer_loclk = 0,
     tte_max_trans_delay = 10848, tte_comp_delay = 4000, tte_precision = 800, integration_period = 800000,
     integration_cycle = 0, cluster_period = cl, tte_current_time = 0, timer_time = 0, clock_err = 0,
     clock_err_integral = 0, CT_marker = [0xAB, 0xAD, 0xBA, 0xBE], max_sched = 0, mac = [1, 2, 3, 4, 5, 6],
     send_times = [], send_time_i = 0, VLarray = vls, VLsize = of_nat (length vls), sched = [], VLsched = [],
     startTick = 0, schedplace = 0, tte_receive_log_max_time = 0, handle_integration_frame_log_max_time = 0,
     tte_clear_free_rx_buffer_max_time = 0, rts = []\<rparr>"

lemmas example_node_simps = example_node_def example_link_def VL_at_def

end
