(* ===== verification/Tte_Schedule.thy ===== *)
theory Tte_Schedule
  imports Tte_Node "HOL-Library.Multiset" "HOL-Library.Product_Lexorder"
begin

text \<open>
  The transmission schedule of a TTEthernet node: the loop of \<^verbatim>\<open>tte_generate_schedule\<close> merges the
  periodic releases of the virtual links. The reference is the sorted list of all releases before
  the end of the cluster period.
\<close>

section \<open>Releases of the links\<close>

text \<open>The times from \<open>t\<close> on, one period apart, before \<open>c\<close>.\<close>

function ticks :: "nat \<Rightarrow> nat \<Rightarrow> nat \<Rightarrow> nat list" where
  "ticks c p t = (if t < c \<and> 0 < p then t # ticks c p (t + p) else [])"
  by auto
termination by (relation "measure (\<lambda>(c, p, t). c - t)") auto

declare ticks.simps [simp del]

definition releases :: "nat \<Rightarrow> (nat \<Rightarrow> nat) \<Rightarrow> (nat \<Rightarrow> nat) \<Rightarrow> nat \<Rightarrow> (nat \<times> nat) list" where
  "releases c period cur n = sort (concat (map (\<lambda>i. map (\<lambda>t. (t, i)) (ticks c (period i) (cur i))) [0..<n]))"

text \<open>The releases of the links of a node, from their start times on.\<close>

definition link_releases :: "tte_state \<Rightarrow> (nat \<times> nat) list" where
  "link_releases s = releases (unat (cluster_period s)) (\<lambda>i. unat (link_period (VL_at s i)))
     (\<lambda>i. unat (startTime (VL_at s i))) (unat (VLsize s))"

lemma ticks_ge: "x \<in> set (ticks c p t) \<Longrightarrow> t \<le> x"
  by (induction c p t rule: ticks.induct) (subst (asm) (2) ticks.simps, force split: if_splits)

lemma ticks_less: "x \<in> set (ticks c p t) \<Longrightarrow> x < c"
  by (induction c p t rule: ticks.induct) (subst (asm) (2) ticks.simps, force split: if_splits)

lemma ticks_step: "t < c \<Longrightarrow> 0 < p \<Longrightarrow> ticks c p t = t # ticks c p (t + p)"
  by (subst ticks.simps) simp

lemma ticks_end: "c \<le> t \<Longrightarrow> ticks c p t = []"
  by (subst ticks.simps) simp

lemma set_releases: "set (releases c period cur n) = {(x, i). i < n \<and> x \<in> set (ticks c (period i) (cur i))}"
  by (auto simp: releases_def)

lemma releases_cong:
  "(\<And>i. i < n \<Longrightarrow> cur i = cur' i) \<Longrightarrow> (\<And>i. i < n \<Longrightarrow> period i = period' i) \<Longrightarrow>
    releases c period cur n = releases c period' cur' n"
  unfolding releases_def by (intro arg_cong [where f = sort] arg_cong [where f = concat] map_cong) auto

lemma releases_empty: "(\<And>i. i < n \<Longrightarrow> c \<le> cur i) \<Longrightarrow> releases c period cur n = []"
  by (auto simp: set_releases ticks_end simp flip: set_empty)

text \<open>The earliest next time is the first release; the others are those after advancing its link.\<close>

lemma releases_step:
  assumes i: "i < n" "cur i < c" "0 < period i"
    and first: "\<And>k. k < n \<Longrightarrow> cur i \<le> cur k" "\<And>k. k < i \<Longrightarrow> cur i < cur k"
  shows "releases c period cur n = (cur i, i) # releases c period (cur(i := cur i + period i)) n"
proof -
  let ?f = "\<lambda>cur i. map (\<lambda>t. (t, i)) (ticks c (period i) (cur i))"
  let ?cur = "cur(i := cur i + period i)"
  have split: "[0..<n] = [0..<i] @ i # [Suc i..<n]"
    using upt_add_eq_append [of 0 i "n - i"] upt_conv_Cons [OF i(1)] i(1) by simp
  have same: "map (?f ?cur) [0..<i] = map (?f cur) [0..<i]" "map (?f ?cur) [Suc i..<n] = map (?f cur) [Suc i..<n]"
    by auto
  have "mset (concat (map (?f cur) [0..<n])) = {#(cur i, i)#} + mset (concat (map (?f ?cur) [0..<n]))"
    unfolding split map_append list.map concat_append concat.simps mset_append same
      ticks_step [OF i(2,3)] by simp
  then have m: "mset ((cur i, i) # releases c period ?cur n) = mset (concat (map (?f cur) [0..<n]))"
    by (simp add: releases_def)
  have "(cur i, i) \<le> e" if "e \<in> set (releases c period ?cur n)" for e
  proof -
    from that obtain x k where e: "e = (x, k)" "k < n" "x \<in> set (ticks c (period k) (?cur k))"
      by (auto simp: set_releases)
    then have x: "?cur k \<le> x" by (simp add: ticks_ge)
    show ?thesis
    proof (cases "k = i")
      case True
      with e(1) x i(3) show ?thesis by simp
    next
      case False
      with x first(1) [OF e(2)] have le: "cur i \<le> cur k" "cur k \<le> x" by simp_all
      show ?thesis
      proof (cases "cur i < x")
        case True
        with e(1) show ?thesis by simp
      next
        case eq: False
        with le have "cur k \<le> cur i" by simp
        with first(2) [of k] have "\<not> k < i" by auto
        with False have "i < k" by simp
        with e(1) le eq show ?thesis by simp
      qed
    qed
  qed
  moreover have "sorted (releases c period ?cur n)" by (simp add: releases_def)
  ultimately have "sorted ((cur i, i) # releases c period ?cur n)" by simp
  with m show ?thesis unfolding releases_def [of c period cur n] by (rule properties_for_sort)
qed

section \<open>The pass that finds the earliest link\<close>

lemma earliest_cases:
  "earliest time n least VL = (least, VL) \<and> (\<forall>k<n. least \<le> time k) \<or>
   (\<exists>i<n. earliest time n least VL = (time i, Some i) \<and> time i < least \<and> (\<forall>k<n. time i \<le> time k) \<and>
     (\<forall>k<i. time i < time k))"
proof (induction n)
  case 0
  then show ?case by (simp add: earliest_def)
next
  case (Suc n)
  have step: "earliest time (Suc n) least VL =
    (let (least, VL) = earliest time n least VL in if time n < least then (time n, Some n) else (least, VL))"
    by (simp add: earliest_def split_beta)
  from Suc show ?case
  proof (elim disjE exE conjE)
    assume a: "earliest time n least VL = (least, VL)" "\<forall>k<n. least \<le> time k"
    show ?thesis
    proof (cases "time n < least")
      case True
      with a have "\<forall>k<n. time n < time k" by (auto intro: less_le_trans)
      with True a step show ?thesis by (intro disjI2 exI [of _ n]) (auto simp: less_Suc_eq)
    next
      case False
      with a step show ?thesis by (auto simp: less_Suc_eq)
    qed
  next
    fix i
    assume a: "i < n" "earliest time n least VL = (time i, Some i)" "time i < least" "\<forall>k<n. time i \<le> time k"
      "\<forall>k<i. time i < time k"
    show ?thesis
    proof (cases "time n < time i")
      case True
      with a have "\<forall>k<n. time n < time k" by (auto intro: less_le_trans)
      with True a step show ?thesis by (intro disjI2 exI [of _ n]) (auto simp: less_Suc_eq)
    next
      case False
      with a step show ?thesis by (intro disjI2 exI [of _ i]) (auto simp: less_Suc_eq)
    qed
  qed
qed

section \<open>The loop\<close>

text \<open>What the loop may assume of the links: the clock does not wrap around before the end.\<close>

definition clock_fits :: "(nat \<Rightarrow> u32) \<Rightarrow> nat \<Rightarrow> u32 \<Rightarrow> bool" where
  "clock_fits period n cluster \<longleftrightarrow> 0 < cluster \<and> unat cluster < 2 ^ 31 \<and>
     (\<forall>i<n. 0 < period i \<and> unat (period i) < 2 ^ 31)"

lemma clock_fits_upt: "clock_fits period n cluster \<longleftrightarrow> 0 < cluster \<and> unat cluster < 2 ^ 31 \<and>
    list_all (\<lambda>i. 0 < period i \<and> unat (period i) < 2 ^ 31) [0..<n]"
  by (auto simp: clock_fits_def list_all_iff)

definition remaining :: "(nat \<Rightarrow> u32) \<Rightarrow> nat \<Rightarrow> u32 \<Rightarrow> schedule_loop \<Rightarrow> (nat \<times> nat) list" where
  "remaining period n cluster l =
     releases (unat cluster) (\<lambda>i. unat (period i)) (\<lambda>i. unat (sl_VLcurrent l ! i)) n"

text \<open>What is left after the earliest link, whose time is before the end, was advanced.\<close>

lemma releases_advance:
  assumes fits: "clock_fits period n cluster"
    and i: "i < n" "cur i < cluster" "\<And>k. k < n \<Longrightarrow> cur i \<le> cur k" "\<And>k. k < i \<Longrightarrow> cur i < cur k"
  shows "releases (unat cluster) (\<lambda>i. unat (period i)) (\<lambda>k. unat (cur k)) n =
    (unat (cur i), i) # releases (unat cluster) (\<lambda>i. unat (period i)) (\<lambda>k. unat ((cur(i := cur i + period i)) k)) n"
proof -
  have p: "unat (period i) < 2 ^ 31" "0 < unat (period i)" "unat cluster < 2 ^ 31"
    using fits i(1) by (auto simp: clock_fits_def word_less_nat_alt)
  have "unat (cur i + period i) = unat (cur i) + unat (period i)"
    using p i(2) by (intro unat_add_lem [THEN iffD1]) (simp add: word_less_nat_alt)
  then have "(\<lambda>k. unat ((cur(i := cur i + period i)) k)) =
      (\<lambda>k. unat (cur k))(i := unat (cur i) + unat (period i))" by auto
  then show ?thesis
    using releases_step [of i n "\<lambda>k. unat (cur k)" "unat cluster" "\<lambda>i. unat (period i)"] p i
    by (simp add: word_less_nat_alt word_le_nat_alt)
qed

definition loop_ok :: "nat \<Rightarrow> nat \<Rightarrow> schedule_loop \<Rightarrow> bool" where
  "loop_ok n slots l \<longleftrightarrow> sl_VL l < n \<and> length (sl_VLcurrent l) = n \<and> length (sl_sched l) = slots \<and>
     length (sl_VLsched l) = slots"

lemma round_full: "loop_ok n slots l \<Longrightarrow> slots \<le> sl_index l \<Longrightarrow> schedule_round period n cluster slots l = None"
  by (simp add: schedule_round_def array_store_def loop_ok_def split_beta Let_def)

text \<open>A round with nothing left to release ends the loop.\<close>

lemma round_end:
  assumes fits: "clock_fits period n cluster" and ok: "loop_ok n slots l" and "sl_index l < slots"
    and "remaining period n cluster l = []"
  shows "\<exists>l'. schedule_round period n cluster slots l = Some (Some (), l') \<and>
    take (sl_index l) (sl_sched l') = take (sl_index l) (sl_sched l) \<and>
    take (Suc (sl_index l)) (sl_VLsched l') = take (Suc (sl_index l)) (sl_VLsched l)"
proof -
  let ?cur = "(!) (sl_VLcurrent l)"
  have "\<not> unat (?cur i) < unat cluster" if "i < n" for i
  proof
    assume lt: "unat (?cur i) < unat cluster"
    have "unat (period i) > 0" using fits that by (auto simp: clock_fits_def word_less_nat_alt)
    with lt have "unat (?cur i) \<in> set (ticks (unat cluster) (unat (period i)) (unat (?cur i)))"
      by (simp add: ticks_step)
    with that have "(unat (?cur i), i) \<in> set (remaining period n cluster l)"
      by (simp add: remaining_def set_releases)
    with assms(4) show False by simp
  qed
  then have late: "cluster \<le> ?cur i" if "i < n" for i using that by (simp add: word_le_nat_alt not_less)
  have double: "cluster \<le> cluster * 2"
    using fits by (simp add: clock_fits_def word_le_nat_alt unat_mult_lem [THEN iffD1])
  obtain t V where e: "earliest ?cur n (cluster * 2) (Some (sl_VL l)) = (t, Some V)" "cluster \<le> t"
    using earliest_cases [of ?cur n "cluster * 2" "Some (sl_VL l)"] late double by metis
  show ?thesis
    using assms(3) ok e
    by (simp add: schedule_round_def array_store_def loop_ok_def Let_def advance_link_def split: if_splits)
qed

text \<open>A round before that enters the next release.\<close>

lemma round_next:
  assumes fits: "clock_fits period n cluster" and ok: "loop_ok n slots l" and lt: "sl_index l < slots"
    and rem: "remaining period n cluster l = (t, i) # rest"
  shows "\<exists>l'. schedule_round period n cluster slots l = Some (None, l') \<and> loop_ok n slots l' \<and>
    sl_index l' = Suc (sl_index l) \<and> sl_current l' = of_nat t \<and> remaining period n cluster l' = rest \<and>
    sl_sched l' = (sl_sched l)[sl_index l := of_nat t - sl_current l] \<and>
    sl_VLsched l' = (if Suc (sl_index l) < slots then (sl_VLsched l)[Suc (sl_index l) := of_nat i] else sl_VLsched l)"
proof -
  let ?cur = "(!) (sl_VLcurrent l)"
  have n: "length (sl_VLcurrent l) = n" using ok by (simp add: loop_ok_def)
  have "(t, i) \<in> set (remaining period n cluster l)" using rem by simp
  then have i: "i < n" "unat (?cur i) \<le> t" "t < unat cluster"
    by (auto simp: remaining_def set_releases dest: ticks_ge ticks_less)
  then have "?cur i < cluster" by (simp add: word_less_nat_alt)
  moreover have double: "cluster \<le> cluster * 2"
    using fits by (simp add: clock_fits_def word_le_nat_alt unat_mult_lem [THEN iffD1])
  ultimately have below: "?cur i < cluster * 2" by simp
  obtain m where m: "m < n" "earliest ?cur n (cluster * 2) (Some (sl_VL l)) = (?cur m, Some m)"
    "\<forall>k<n. ?cur m \<le> ?cur k" "\<forall>k<m. ?cur m < ?cur k"
    using earliest_cases [of ?cur n "cluster * 2" "Some (sl_VL l)"] below i(1) by (meson leD)
  have mc: "?cur m < cluster" using m(3) i(1) \<open>?cur i < cluster\<close> by (meson le_less_trans)
  let ?next = "(sl_VLcurrent l)[m := ?cur m + period m]"
  have "remaining period n cluster l = (unat (?cur m), m) #
      releases (unat cluster) (\<lambda>i. unat (period i)) (\<lambda>k. unat ((?cur(m := ?cur m + period m)) k)) n"
    unfolding remaining_def using m mc by (intro releases_advance [OF fits]) auto
  also have "releases (unat cluster) (\<lambda>i. unat (period i)) (\<lambda>k. unat ((?cur(m := ?cur m + period m)) k)) n =
      releases (unat cluster) (\<lambda>i. unat (period i)) (\<lambda>k. unat (?next ! k)) n"
    using n m(1) by (intro releases_cong) auto
  finally have r: "t = unat (?cur m)" "i = m"
    "rest = releases (unat cluster) (\<lambda>i. unat (period i)) (\<lambda>k. unat (?next ! k)) n"
    using rem by auto
  show ?thesis
    using m mc ok lt r
    by (simp add: schedule_round_def array_store_def loop_ok_def Let_def advance_link_def remaining_def)
qed

text \<open>The gaps between consecutive releases.\<close>

fun gaps :: "u32 \<Rightarrow> (nat \<times> nat) list \<Rightarrow> u32 list" where
  "gaps c [] = []"
| "gaps c ((t, i) # rs) = (of_nat t - c) # gaps (of_nat t) rs"

lemma length_gaps [simp]: "length (gaps c rs) = length rs"
  by (induction c rs rule: gaps.induct) auto

lemma gaps_sum: "k < length rs \<Longrightarrow> c + sum_list (take (Suc k) (gaps c rs)) = of_nat (fst (rs ! k))"
proof (induction c rs arbitrary: k rule: gaps.induct)
  case (2 c t i rs)
  then show ?case by (cases k) (auto simp: algebra_simps)
qed simp

lemma schedule_loop_result:
  assumes fits: "clock_fits period n cluster"
  shows "loop_ok n slots l \<Longrightarrow> remaining period n cluster l = rs \<Longrightarrow>
    (if sl_index l + length rs < slots
     then \<exists>l'. loop_until (schedule_round period n cluster slots) l = Some ((), l') \<and>
       take (sl_index l + length rs) (sl_sched l') = take (sl_index l) (sl_sched l) @ gaps (sl_current l) rs \<and>
       take (Suc (sl_index l + length rs)) (sl_VLsched l') =
         take (Suc (sl_index l)) (sl_VLsched l) @ map (\<lambda>r. of_nat (snd r)) rs
     else loop_until (schedule_round period n cluster slots) l = None)"
proof (induction rs arbitrary: l)
  case Nil
  show ?case
  proof (cases "sl_index l < slots")
    case True
    from round_end [OF fits Nil.prems(1) True Nil.prems(2)] True show ?thesis by (auto dest: loop_until_exit)
  next
    case False
    with round_full [OF Nil.prems(1)] show ?thesis by (simp add: loop_until_stuck)
  qed
next
  case (Cons r rs)
  obtain t i where r: "r = (t, i)" by (cases r)
  show ?case
  proof (cases "sl_index l < slots")
    case True
    obtain l' where l': "schedule_round period n cluster slots l = Some (None, l')" "loop_ok n slots l'"
      "sl_index l' = Suc (sl_index l)" "sl_current l' = of_nat t" "remaining period n cluster l' = rs"
      "sl_sched l' = (sl_sched l)[sl_index l := of_nat t - sl_current l]"
      "sl_VLsched l' = (if Suc (sl_index l) < slots then (sl_VLsched l)[Suc (sl_index l) := of_nat i] else sl_VLsched l)"
      using round_next [OF fits Cons.prems(1) True] Cons.prems(2) r by blast
    have len: "length (sl_sched l) = slots" "length (sl_VLsched l) = slots"
      using Cons.prems(1) by (simp_all add: loop_ok_def)
    have step: "loop_until (schedule_round period n cluster slots) l =
        loop_until (schedule_round period n cluster slots) l'"
      by (rule loop_until_next) (rule l'(1))
    show ?thesis
      using Cons.IH [OF l'(2,5)] True len
      by (auto simp: step l'(3,4,6,7) r take_Suc_conv_app_nth)
  next
    case False
    with round_full [OF Cons.prems(1)] show ?thesis by (simp add: loop_until_stuck)
  qed
qed

lemma bind_pair_Some: "(x \<bind> (\<lambda>(u, l). Some (f u l))) = map_option (\<lambda>(u, l). f u l) x"
  by (cases x) auto

section \<open>Properties\<close>

definition queue_slots :: "tte_state \<Rightarrow> u8" where
  "queue_slots s = fold (\<lambda>i m. m + max_queue (VL_at s i)) [0..<unat (VLsize s)] 0"

text \<open>C17: the schedule that is generated is the merge of the releases of the virtual links. The start tick and
  the waiting times before the k-th entry add up to the time of the k-th release in order of time,
  and the entry names its link. This holds when the releases of a cluster period are at most as
  many as the queue slots, counted in eight bits; otherwise the arrays, which have that size, are
  overrun.\<close>

theorem tte_generate_schedule_correct:
  assumes fits: "clock_fits (\<lambda>i. link_period (VL_at s i)) (unat (VLsize s)) (cluster_period s)"
    and some: "link_releases s \<noteq> []"
  shows "if length (link_releases s) \<le> unat (queue_slots s)
    then \<exists>s'. tte_generate_schedule garbage s = Some s' \<and> max_sched s' = queue_slots s \<and>
      (\<forall>k < length (link_releases s).
         startTick s' + sum_list (take k (sched s')) = of_nat (fst (link_releases s ! k)) \<and>
         VLsched s' ! k = of_nat (snd (link_releases s ! k)))
    else tte_generate_schedule garbage s = None"
proof -
  let ?n = "unat (VLsize s)" and ?c = "cluster_period s" and ?slots = "unat (queue_slots s)"
  define start where "start = (\<lambda>i. startTime (VL_at s i))"
  define period where "period = (\<lambda>i. link_period (VL_at s i))"
  note fits = fits [folded period_def]
  obtain t0 i0 where "(t0, i0) \<in> set (link_releases s)" using some by (cases "link_releases s") auto
  then have early: "i0 < ?n" "start i0 < ?c"
    by (auto simp: link_releases_def set_releases start_def word_less_nat_alt intro: le_less_trans [OF ticks_ge ticks_less])
  obtain i where i: "i < ?n" "earliest start ?n ?c None = (start i, Some i)" "start i < ?c"
    "\<forall>k<?n. start i \<le> start k" "\<forall>k<i. start i < start k"
    using earliest_cases [of start ?n ?c None] early by (meson leD)
  have rel: "link_releases s = (unat (start i), i) # releases (unat ?c) (\<lambda>i. unat (period i))
      (\<lambda>k. unat ((start(i := start i + period i)) k)) ?n"
    using releases_advance [of period ?n ?c i start, OF fits i(1,3)] i(4,5)
    by (simp add: link_releases_def start_def period_def)
  show ?thesis
  proof (cases "?slots = 0")
    case True
    then show ?thesis
      using some i(2) by (simp add: tte_generate_schedule_def Let_def array_store_def queue_slots_def VL_at_def start_def)
  next
    case False
    define l where "l = advance_link period \<lparr>sl_index = 0, sl_current = start i, sl_VL = i,
      sl_VLcurrent = map start [0..<?n], sl_sched = map garbage [0..<?slots],
      sl_VLsched = (map garbage [0..<?slots])[0 := of_nat i]\<rparr>"
    define rs where "rs = releases (unat ?c) (\<lambda>i. unat (period i)) (\<lambda>k. unat ((start(i := start i + period i)) k)) ?n"
    have l: "loop_ok ?n ?slots l" "sl_index l = 0" "sl_current l = start i" "take (Suc 0) (sl_VLsched l) = [of_nat i]"
      using i(1) False by (auto simp: l_def loop_ok_def advance_link_def take_Suc_conv_app_nth)
    have "remaining period ?n ?c l = rs"
      using i(1) by (auto simp: remaining_def rs_def l_def advance_link_def nth_list_update intro!: releases_cong)
    from schedule_loop_result [OF fits l(1) this]
    have loop: "if length rs < ?slots
      then \<exists>l'. loop_until (schedule_round period ?n ?c ?slots) l = Some ((), l') \<and>
        take (length rs) (sl_sched l') = gaps (start i) rs \<and>
        take (Suc (length rs)) (sl_VLsched l') = of_nat i # map (\<lambda>r. of_nat (snd r)) rs
      else loop_until (schedule_round period ?n ?c ?slots) l = None"
      using l by (auto split: if_splits)
    have gen: "tte_generate_schedule garbage s = map_option (\<lambda>(u, l'). s\<lparr>max_sched := queue_slots s,
        startTick := start i, sched := sl_sched l', VLsched := sl_VLsched l'\<rparr>)
        (loop_until (schedule_round period ?n ?c ?slots) l)"
      using i(2) False
      by (simp add: tte_generate_schedule_def Let_def array_store_def queue_slots_def start_def period_def l_def
          VL_at_def bind_pair_Some)
    have rl: "link_releases s = (unat (start i), i) # rs" by (simp add: rel rs_def)
    show ?thesis
    proof (cases "length rs < ?slots")
      case True
      with loop obtain l' where l': "loop_until (schedule_round period ?n ?c ?slots) l = Some ((), l')"
        "take (length rs) (sl_sched l') = gaps (start i) rs"
        "take (Suc (length rs)) (sl_VLsched l') = of_nat i # map (\<lambda>r. of_nat (snd r)) rs" by auto
      have "start i + sum_list (take k (sl_sched l')) = of_nat (fst (link_releases s ! k))"
        "sl_VLsched l' ! k = of_nat (snd (link_releases s ! k))" if "k < length (link_releases s)" for k
      proof -
        have k: "k < Suc (length rs)" using that by (simp add: rl)
        have "take k (sl_sched l') = take k (gaps (start i) rs)"
          using k l'(2) by (metis less_Suc_eq_le min.absorb1 take_take)
        then show "start i + sum_list (take k (sl_sched l')) = of_nat (fst (link_releases s ! k))"
          using k gaps_sum [of _ rs "start i"] by (cases k) (auto simp: rl)
        have "sl_VLsched l' ! k = (of_nat i # map (\<lambda>r. of_nat (snd r)) rs) ! k"
          using k l'(3) by (metis nth_take)
        then show "sl_VLsched l' ! k = of_nat (snd (link_releases s ! k))"
          using k by (cases k) (auto simp: rl)
      qed
      with True show ?thesis by (simp add: rl gen l'(1))
    next
      case False
      with loop show ?thesis by (simp add: rl gen)
    qed
  qed
qed

lemma tte_generate_schedule_correct_witness:
  "(\<exists>s'. tte_generate_schedule (\<lambda>_. 0) (example_node 200 [example_link 5 8 40, example_link 10 10 20,
      example_link 2 100 100]) = Some s' \<and> startTick s' + sum_list (take 3 (sched s')) = 48 \<and> VLsched s' ! 3 = 0) \<and>
   tte_generate_schedule (\<lambda>_. 0) (example_node 1000 [example_link 5 8 40, example_link 11 10 20,
      example_link 2 100 100]) = None"
proof -
  let ?ok = "example_node 200 [example_link 5 8 40, example_link 10 10 20, example_link 2 100 100]"
  let ?over = "example_node 1000 [example_link 5 8 40, example_link 11 10 20, example_link 2 100 100]"
  have r: "link_releases ?ok = [(8, 0), (10, 1), (30, 1), (48, 0), (50, 1), (70, 1), (88, 0), (90, 1), (100, 2), (110, 1),
      (128, 0), (130, 1), (150, 1), (168, 0), (170, 1), (190, 1)]"
    by (simp add: link_releases_def releases_def example_node_simps ticks.simps upt_rec)
  have len: "18 < length (link_releases ?over)"
    by (simp add: link_releases_def releases_def example_node_simps ticks.simps upt_rec)
  have slots: "unat (queue_slots ?ok) = 17" "unat (queue_slots ?over) = 18"
    by (simp_all add: queue_slots_def example_node_simps upt_rec)
  have fits: "clock_fits (\<lambda>i. link_period (VL_at ?ok i)) (unat (VLsize ?ok)) (cluster_period ?ok)"
    "clock_fits (\<lambda>i. link_period (VL_at ?over i)) (unat (VLsize ?over)) (cluster_period ?over)"
    by (simp_all add: clock_fits_upt example_node_simps upt_rec)
  have "link_releases ?over \<noteq> []" using len by auto
  with tte_generate_schedule_correct [OF fits(2)] slots(2) len
  have "tte_generate_schedule (\<lambda>_. 0) ?over = None" by (metis not_less)
  moreover have "\<exists>s'. tte_generate_schedule (\<lambda>_. 0) ?ok = Some s' \<and>
      startTick s' + sum_list (take 3 (sched s')) = 48 \<and> VLsched s' ! 3 = 0"
    using tte_generate_schedule_correct [OF fits(1), of "\<lambda>_. 0"] slots(1) by (auto simp: r)
  ultimately show ?thesis by blast
qed

end
