(* ===== verification/Bounded_Queue.thy ===== *)
theory Bounded_Queue
  imports C_Prelude
begin

text \<open>
  Two interfaces of first-in-first-out transport. A channel may refuse to accept or to deliver at
  any time, and does other things in between that do not change what is under way: the queuing
  ports of the message passing library. A queue with a fixed number of places refuses only when it
  is full or empty: the transmit queues of TTEthernet. Every queue is a channel. A run of either, in
  any order of its operations, delivers the elements in the order they were accepted, and loses none.
\<close>

section \<open>Channels\<close>

datatype ('i, 'a) channel_op = Offer 'i | Take | Act 'a

text \<open>A run: the elements accepted, the elements delivered, and the channel at the end.\<close>

fun channel_run ::
  "('i \<Rightarrow> 'q \<Rightarrow> 'e option \<times> 'q) \<Rightarrow> ('q \<Rightarrow> 'e option \<times> 'q) \<Rightarrow> ('a \<Rightarrow> 'q \<Rightarrow> 'q) \<Rightarrow> ('i, 'a) channel_op list \<Rightarrow> 'q \<Rightarrow>
     'e list \<times> 'e list \<times> 'q" where
  "channel_run offer deliver act [] q = ([], [], q)"
| "channel_run offer deliver act (Offer i # ops) q =
     (let (a, q) = offer i q; (acc, out, q) = channel_run offer deliver act ops q
      in (case a of None \<Rightarrow> acc | Some e \<Rightarrow> e # acc, out, q))"
| "channel_run offer deliver act (Take # ops) q =
     (let (r, q) = deliver q; (acc, out, q) = channel_run offer deliver act ops q
      in (acc, case r of None \<Rightarrow> out | Some e \<Rightarrow> e # out, q))"
| "channel_run offer deliver act (Act a # ops) q = channel_run offer deliver act ops (act a q)"

locale fifo_channel =
  fixes inv :: "'q \<Rightarrow> bool"
    and contents :: "'q \<Rightarrow> 'e list"
    and valid :: "'i \<Rightarrow> bool"
    and offer :: "'i \<Rightarrow> 'q \<Rightarrow> 'e option \<times> 'q"
    and deliver :: "'q \<Rightarrow> 'e option \<times> 'q"
    and act :: "'a \<Rightarrow> 'q \<Rightarrow> 'q"
  assumes offer_law: "inv q \<Longrightarrow> valid i \<Longrightarrow> offer i q = (a, q') \<Longrightarrow>
      inv q' \<and> contents q' = contents q @ (case a of None \<Rightarrow> [] | Some e \<Rightarrow> [e])"
    and take_law: "inv q \<Longrightarrow> deliver q = (r, q') \<Longrightarrow>
      inv q' \<and> contents q = (case r of None \<Rightarrow> [] | Some e \<Rightarrow> [e]) @ contents q'"
    and act_law: "inv q \<Longrightarrow> inv (act x q) \<and> contents (act x q) = contents q"
begin

lemma channel_fifo:
  "inv q \<Longrightarrow> \<forall>op \<in> set ops. case op of Offer i \<Rightarrow> valid i | _ \<Rightarrow> True \<Longrightarrow>
    channel_run offer deliver act ops q = (acc, out, q') \<Longrightarrow>
    contents q @ acc = out @ contents q' \<and> inv q'"
proof (induction ops arbitrary: q acc out q')
  case Nil
  then show ?case by simp
next
  case (Cons op ops)
  show ?case
  proof (cases op)
    case (Offer i)
    obtain a q1 where o: "offer i q = (a, q1)" by fastforce
    obtain acc1 out1 q2 where r: "channel_run offer deliver act ops q1 = (acc1, out1, q2)" by (metis prod_cases3)
    from offer_law [OF Cons.prems(1) _ o] Cons.prems(2) Offer
    have q1: "inv q1" "contents q1 = contents q @ (case a of None \<Rightarrow> [] | Some e \<Rightarrow> [e])" by simp_all
    with Cons.IH [OF q1(1) _ r] Cons.prems Offer o r show ?thesis by (cases a) auto
  next
    case Take
    obtain x q1 where t: "deliver q = (x, q1)" by fastforce
    obtain acc1 out1 q2 where r: "channel_run offer deliver act ops q1 = (acc1, out1, q2)" by (metis prod_cases3)
    from take_law [OF Cons.prems(1) t]
    have q1: "inv q1" "contents q = (case x of None \<Rightarrow> [] | Some e \<Rightarrow> [e]) @ contents q1" by simp_all
    with Cons.IH [OF q1(1) _ r] Cons.prems Take t r show ?thesis by (cases x) auto
  next
    case (Act x)
    with act_law [OF Cons.prems(1), of x] Cons.IH [of "act x q"] Cons.prems show ?thesis by simp
  qed
qed

end

section \<open>Queues\<close>

datatype 'e queue_op = Put 'e | Get

text \<open>A run: the elements accepted, the elements taken, and the queue at the end.\<close>

fun queue_run ::
  "('e \<Rightarrow> 'q \<Rightarrow> 'q option) \<Rightarrow> ('q \<Rightarrow> ('e \<times> 'q) option) \<Rightarrow> 'e queue_op list \<Rightarrow> 'q \<Rightarrow> 'e list \<times> 'e list \<times> 'q" where
  "queue_run put get [] q = ([], [], q)"
| "queue_run put get (Put e # ops) q =
     (case put e q of
        None \<Rightarrow> queue_run put get ops q
      | Some q \<Rightarrow> (let (acc, out, q) = queue_run put get ops q in (e # acc, out, q)))"
| "queue_run put get (Get # ops) q =
     (case get q of
        None \<Rightarrow> queue_run put get ops q
      | Some (e, q) \<Rightarrow> (let (acc, out, q) = queue_run put get ops q in (acc, e # out, q)))"

locale bounded_queue =
  fixes inv :: "'q \<Rightarrow> bool"
    and contents :: "'q \<Rightarrow> 'e list"
    and capacity :: "'q \<Rightarrow> nat"
    and valid :: "'e \<Rightarrow> bool"
    and put :: "'e \<Rightarrow> 'q \<Rightarrow> 'q option"
    and get :: "'q \<Rightarrow> ('e \<times> 'q) option"
  assumes contents_le: "inv q \<Longrightarrow> length (contents q) \<le> capacity q"
    and put_room: "inv q \<Longrightarrow> valid e \<Longrightarrow> length (contents q) < capacity q \<Longrightarrow>
      \<exists>q'. put e q = Some q' \<and> inv q' \<and> contents q' = contents q @ [e] \<and> capacity q' = capacity q"
    and put_full: "inv q \<Longrightarrow> length (contents q) = capacity q \<Longrightarrow> put e q = None"
    and get_first: "inv q \<Longrightarrow> contents q = e # es \<Longrightarrow>
      \<exists>q'. get q = Some (e, q') \<and> inv q' \<and> contents q' = es \<and> capacity q' = capacity q"
    and get_empty: "inv q \<Longrightarrow> contents q = [] \<Longrightarrow> get q = None"
begin

lemma put_cases:
  assumes "inv q" and "valid e"
  shows "(put e q = None \<and> length (contents q) = capacity q) \<or>
    (\<exists>q'. put e q = Some q' \<and> inv q' \<and> contents q' = contents q @ [e] \<and> capacity q' = capacity q)"
  using put_room [OF assms] put_full [OF assms(1)] contents_le [OF assms(1)] by (meson le_neq_implies_less)

lemma get_cases:
  assumes "inv q"
  shows "(get q = None \<and> contents q = []) \<or>
    (\<exists>e q'. get q = Some (e, q') \<and> inv q' \<and> contents q = e # contents q' \<and> capacity q' = capacity q)"
proof (cases "contents q")
  case Nil
  with get_empty [OF assms] show ?thesis by simp
next
  case (Cons e es)
  with get_first [OF assms Cons] show ?thesis by auto
qed

lemma run_fifo:
  "inv q \<Longrightarrow> \<forall>op \<in> set ops. case op of Put e \<Rightarrow> valid e | Get \<Rightarrow> True \<Longrightarrow> queue_run put get ops q = (acc, out, q') \<Longrightarrow>
    contents q @ acc = out @ contents q' \<and> inv q' \<and> capacity q' = capacity q"
proof (induction ops arbitrary: q acc out q')
  case Nil
  then show ?case by simp
next
  case (Cons op ops)
  show ?case
  proof (cases op)
    case (Put e)
    with Cons.prems have e: "valid e" by simp
    from put_cases [OF Cons.prems(1) e] show ?thesis
    proof (elim disjE exE conjE)
      assume "put e q = None"
      with Cons Put show ?thesis by auto
    next
      fix q1
      assume q1: "put e q = Some q1" "inv q1" "contents q1 = contents q @ [e]" "capacity q1 = capacity q"
      obtain acc1 out1 q2 where r: "queue_run put get ops q1 = (acc1, out1, q2)" by (metis prod_cases3)
      with Cons.IH [OF q1(2) _ r] Cons.prems Put q1 show ?thesis by auto
    qed
  next
    case Get
    from get_cases [OF Cons.prems(1)] show ?thesis
    proof (elim disjE exE conjE)
      assume "get q = None"
      with Cons Get show ?thesis by auto
    next
      fix e q1
      assume q1: "get q = Some (e, q1)" "inv q1" "contents q = e # contents q1" "capacity q1 = capacity q"
      obtain acc1 out1 q2 where r: "queue_run put get ops q1 = (acc1, out1, q2)" by (metis prod_cases3)
      with Cons.IH [OF q1(2) _ r] Cons.prems Get q1 show ?thesis by auto
    qed
  qed
qed

end

text \<open>A queue is a channel that does nothing in between.\<close>

definition offer_of :: "('e \<Rightarrow> 'q \<Rightarrow> 'q option) \<Rightarrow> 'e \<Rightarrow> 'q \<Rightarrow> 'e option \<times> 'q" where
  "offer_of put e q = (case put e q of None \<Rightarrow> (None, q) | Some q' \<Rightarrow> (Some e, q'))"

definition take_of :: "('q \<Rightarrow> ('e \<times> 'q) option) \<Rightarrow> 'q \<Rightarrow> 'e option \<times> 'q" where
  "take_of get q = (case get q of None \<Rightarrow> (None, q) | Some (e, q') \<Rightarrow> (Some e, q'))"

sublocale bounded_queue \<subseteq> ch: fifo_channel inv contents valid "offer_of put" "take_of get" "\<lambda>_ q. q"
proof unfold_locales
  fix q i a q'
  assume "inv q" "valid i" "offer_of put i q = (a, q')"
  with put_cases [of q i] show "inv q' \<and> contents q' = contents q @ (case a of None \<Rightarrow> [] | Some e \<Rightarrow> [e])"
    by (auto simp: offer_of_def)
next
  fix q r q'
  assume "inv q" "take_of get q = (r, q')"
  with get_cases [of q] show "inv q' \<and> contents q = (case r of None \<Rightarrow> [] | Some e \<Rightarrow> [e]) @ contents q'"
    by (auto simp: take_of_def)
qed simp

section \<open>Positions on a ring\<close>

text \<open>
  The elements of a ring of \<open>n\<close> places, from \<open>r\<close> on: what the providers of the interface read their
  contents from.
\<close>

definition ring :: "nat \<Rightarrow> nat \<Rightarrow> nat \<Rightarrow> (nat \<Rightarrow> 'a) \<Rightarrow> 'a list" where
  "ring n r k f = map (\<lambda>j. f ((r + j) mod n)) [0..<k]"

lemma length_ring [simp]: "length (ring n r k f) = k"
  by (simp add: ring_def)

lemma ring_snoc: "ring n r (Suc k) f = ring n r k f @ [f ((r + k) mod n)]"
  by (simp add: ring_def)

lemma ring_Cons:
  assumes "r < n"
  shows "ring n r (Suc k) f = f r # ring n (Suc r mod n) k f"
proof -
  have "[0..<Suc k] = 0 # map Suc [0..<k]" by (simp add: map_Suc_upt upt_conv_Cons del: upt_Suc)
  with assms show ?thesis by (simp add: ring_def mod_add_left_eq comp_def del: upt_Suc)
qed

lemma ring_cong: "(\<And>j. j < k \<Longrightarrow> f ((r + j) mod n) = g ((r + j) mod n)) \<Longrightarrow> ring n r k f = ring n r k g"
  by (simp add: ring_def)

lemma ring_inj:
  fixes r n :: nat
  assumes "r < n" and "j < n" and "k < n"
  shows "(r + j) mod n = (r + k) mod n \<longleftrightarrow> j = k"
proof -
  have m: "(r + i) mod n = (if r + i < n then r + i else r + i - n)" if "i < n" for i
    using assms(1) that by (simp add: mod_if)
  show ?thesis unfolding m [OF assms(2)] m [OF assms(3)] using assms by auto
qed

end
