(* ===== verification/Tte_Links.thy ===== *)
theory Tte_Links
  imports Tte_Node Eth_Cable Bounded_Queue
begin

text \<open>
  The transmit queue of a virtual link as a bounded queue: \<^verbatim>\<open>tte_schedule_send\<close> puts a frame into it
  and \<^verbatim>\<open>tte_send_data\<close> takes the oldest one and sends it. An empty slot is one whose address is 0.
\<close>

section \<open>A link as a ring\<close>

abbreviation slots :: "virtual_link \<Rightarrow> nat" where
  "slots v \<equiv> unat (max_queue v)"

definition slot_at :: "virtual_link \<Rightarrow> nat \<Rightarrow> u32 \<times> u32" where
  "slot_at v p = (queue v ! p, sizeQueue v ! p)"

text \<open>The frames that wait, the oldest first: addresses and sizes.\<close>

definition waiting :: "virtual_link \<Rightarrow> (u32 \<times> u32) list" where
  "waiting v = takeWhile (\<lambda>f. fst f \<noteq> 0) (ring (slots v) (unat (rmplace v)) (slots v) (slot_at v))"

definition link_holds :: "virtual_link \<Rightarrow> nat \<Rightarrow> bool" where
  "link_holds v k \<longleftrightarrow> length (queue v) = slots v \<and> length (sizeQueue v) = slots v \<and>
     unat (rmplace v) < slots v \<and> k \<le> slots v \<and> unat (addplace v) = (unat (rmplace v) + k) mod slots v \<and>
     (\<forall>j < slots v. fst (slot_at v ((unat (rmplace v) + j) mod slots v)) \<noteq> 0 \<longleftrightarrow> j < k)"

definition link_inv :: "virtual_link \<Rightarrow> bool" where
  "link_inv v \<longleftrightarrow> (\<exists>k. link_holds v k)"

text \<open>What the two operations do to the link they are called for.\<close>

definition link_put :: "u32 \<times> u32 \<Rightarrow> virtual_link \<Rightarrow> virtual_link option" where
  "link_put f v =
     (if queue v ! unat (addplace v) = 0
      then let v = v\<lparr>queue := (queue v)[unat (addplace v) := fst f],
                     sizeQueue := (sizeQueue v)[unat (addplace v) := snd f], addplace := addplace v + 1\<rparr>
           in Some (if addplace v = max_queue v then v\<lparr>addplace := 0\<rparr> else v)
      else None)"

definition link_get :: "virtual_link \<Rightarrow> ((u32 \<times> u32) \<times> virtual_link) option" where
  "link_get v =
     (if queue v ! unat (rmplace v) = 0 then None
      else let f = slot_at v (unat (rmplace v));
               v = v\<lparr>queue := (queue v)[unat (rmplace v) := 0], rmplace := rmplace v + 1\<rparr>
           in Some (f, if rmplace v = max_queue v then v\<lparr>rmplace := 0\<rparr> else v))"

lemma waiting_ring:
  assumes "link_holds v k"
  shows "waiting v = ring (slots v) (unat (rmplace v)) k (slot_at v)"
proof -
  let ?r = "unat (rmplace v)" and ?n = "slots v"
  have k: "k \<le> ?n" using assms by (simp add: link_holds_def)
  have "takeWhile (\<lambda>f. fst f \<noteq> 0) (ring ?n ?r ?n (slot_at v)) = take k (ring ?n ?r ?n (slot_at v))"
    using assms by (intro takeWhile_eq_take_P_nth) (auto simp: ring_def link_holds_def)
  then show ?thesis using k by (simp add: waiting_def ring_def take_map)
qed

lemma holds_at: "link_holds v k \<Longrightarrow> j < slots v \<Longrightarrow>
    fst (slot_at v ((unat (rmplace v) + j) mod slots v)) \<noteq> 0 \<longleftrightarrow> j < k"
  by (simp add: link_holds_def)

lemma holds_first: "link_holds v k \<Longrightarrow> queue v ! unat (rmplace v) \<noteq> 0 \<longleftrightarrow> 0 < k"
  using holds_at [of v k 0] by (auto simp: link_holds_def slot_at_def)

text \<open>The counter of a ring, kept in a byte.\<close>

lemma ring_counter:
  fixes p m :: u8
  assumes "unat p < unat m"
  shows "unat (if p + 1 = m then 0 else p + 1) = Suc (unat p) mod unat m"
proof -
  have "unat (p + 1) = Suc (unat p)" 
    using assms u8_less [of m] by (simp add: unat_add_lem [THEN iffD1])
  with assms show ?thesis by (auto simp: word_unat_eq_iff)
qed

lemma link_put_room:
  assumes h: "link_holds v k" and k: "k < slots v" and f: "fst f \<noteq> 0"
  shows "\<exists>v'. link_put f v = Some v' \<and> link_holds v' (Suc k) \<and> waiting v' = waiting v @ [f] \<and> slots v' = slots v"
proof -
  let ?r = "unat (rmplace v)" and ?a = "unat (addplace v)" and ?n = "slots v"
  have i: "length (queue v) = ?n" "length (sizeQueue v) = ?n" "?r < ?n" "?a = (?r + k) mod ?n"
    "\<forall>j < ?n. fst (slot_at v ((?r + j) mod ?n)) \<noteq> 0 \<longleftrightarrow> j < k"
    using h by (auto simp: link_holds_def)
  have a: "?a < ?n" using i(3,4) by simp
  have empty: "queue v ! ?a = 0" using i(5) k by (auto simp: i(4) slot_at_def)
  define v' where "v' = v\<lparr>queue := (queue v)[?a := fst f], sizeQueue := (sizeQueue v)[?a := snd f],
    addplace := (if addplace v + 1 = max_queue v then 0 else addplace v + 1)\<rparr>"
  have put: "link_put f v = Some v'" using empty by (simp add: link_put_def Let_def v'_def)
  have slot: "slot_at v' p = (if p = ?a then f else slot_at v p)" if "p < ?n" for p
    using that a i(1,2) by (simp add: slot_at_def v'_def)
  have same: "max_queue v' = max_queue v" "rmplace v' = rmplace v" by (simp_all add: v'_def)
  have "unat (addplace v') = Suc ?a mod ?n" using ring_counter [OF a] by (simp add: v'_def)
  also have "\<dots> = (?r + Suc k) mod ?n" using i(4) by (simp add: mod_Suc_eq)
  finally have a': "unat (addplace v') = (?r + Suc k) mod ?n" .
  have "fst (slot_at v' ((?r + j) mod ?n)) \<noteq> 0 \<longleftrightarrow> j < Suc k" if "j < ?n" for j
    using that holds_at [OF h that] i(3) k f by (auto simp: slot i(4) ring_inj)
  then have "link_holds v' (Suc k)"
    unfolding link_holds_def same a' using i(1-3) k by (simp add: v'_def)
  moreover have "waiting v' = waiting v @ [f]"
    unfolding waiting_ring [OF \<open>link_holds v' (Suc k)\<close>] waiting_ring [OF h] same
    using i(3,4) k by (simp add: ring_snoc slot) (intro ring_cong, simp add: slot i(4) ring_inj)
  ultimately show ?thesis using put same by auto
qed

lemma link_put_full:
  assumes h: "link_holds v k" and k: "k = slots v"
  shows "link_put f v = None"
proof -
  have "unat (addplace v) = unat (rmplace v)" "0 < k" using h k by (auto simp: link_holds_def)
  then show ?thesis using holds_first [OF h] by (simp add: link_put_def)
qed

lemma link_get_first:
  assumes h: "link_holds v (Suc k)"
  shows "\<exists>v'. link_get v = Some (slot_at v (unat (rmplace v)), v') \<and> link_holds v' k \<and>
    waiting v = slot_at v (unat (rmplace v)) # waiting v' \<and> slots v' = slots v"
proof -
  let ?r = "unat (rmplace v)" and ?n = "slots v"
  have i: "length (queue v) = ?n" "length (sizeQueue v) = ?n" "?r < ?n" "unat (addplace v) = (?r + Suc k) mod ?n"
    "Suc k \<le> ?n" "\<forall>j < ?n. fst (slot_at v ((?r + j) mod ?n)) \<noteq> 0 \<longleftrightarrow> j < Suc k"
    using h by (auto simp: link_holds_def)
  have full: "queue v ! ?r \<noteq> 0" using holds_first [OF h] by simp
  define v' where "v' = v\<lparr>queue := (queue v)[?r := 0],
    rmplace := (if rmplace v + 1 = max_queue v then 0 else rmplace v + 1)\<rparr>"
  have get: "link_get v = Some (slot_at v ?r, v')" using full by (simp add: link_get_def Let_def v'_def)
  have same: "max_queue v' = max_queue v" "addplace v' = addplace v" by (simp_all add: v'_def)
  have r': "unat (rmplace v') = Suc ?r mod ?n" using ring_counter [OF i(3)] by (simp add: v'_def)
  have slot: "slot_at v' p = (if p = ?r then (0, snd (slot_at v p)) else slot_at v p)" if "p < ?n" for p
    using that i(1) by (simp add: slot_at_def v'_def)
  have shift: "(Suc ?r mod ?n + j) mod ?n = (?r + Suc j) mod ?n" for j by (simp add: mod_add_left_eq)
  have ne: "(?r + Suc j) mod ?n \<noteq> ?r" if "Suc j < ?n" for j
    using ring_inj [OF i(3) that, of 0] i(3) by simp
  have "link_holds v' k"
  proof -
    have "fst (slot_at v' ((?r + Suc j) mod ?n)) \<noteq> 0 \<longleftrightarrow> j < k" if "j < ?n" for j
    proof (cases "Suc j < ?n")
      case True
      with i(3) ne [OF True] holds_at [OF h True] show ?thesis by (simp add: slot)
    next
      case False
      with that have "Suc j = ?n" by simp
      with i(3,5) slot [of ?r] show ?thesis by simp
    qed
    then show ?thesis unfolding link_holds_def same r' shift using i by (auto simp: v'_def mod_add_left_eq)
  qed
  moreover have "waiting v = slot_at v ?r # waiting v'"
    unfolding waiting_ring [OF h] waiting_ring [OF \<open>link_holds v' k\<close>] same r' ring_Cons [OF i(3)]
  proof -
    have "slot_at v ((Suc ?r mod ?n + j) mod ?n) = slot_at v' ((Suc ?r mod ?n + j) mod ?n)" if "j < k" for j
      using ne [of j] that i(3,5) by (simp add: slot shift)
    then show "slot_at v ?r # ring ?n (Suc ?r mod ?n) k (slot_at v) =
        slot_at v ?r # ring ?n (Suc ?r mod ?n) k (slot_at v')"
      by (intro arg_cong [where f = "(#) (slot_at v ?r)"] ring_cong)
  qed
  ultimately show ?thesis using get same by auto
qed

interpretation link: bounded_queue link_inv waiting slots "\<lambda>f. fst f \<noteq> 0" link_put link_get
proof unfold_locales
  fix v :: virtual_link assume "link_inv v"
  then obtain k where h: "link_holds v k" by (auto simp: link_inv_def)
  have len: "length (waiting v) = k" "k \<le> slots v" using h by (auto simp: waiting_ring [OF h] link_holds_def)
  then show "length (waiting v) \<le> slots v" by simp
  show "\<exists>v'. link_put f v = Some v' \<and> link_inv v' \<and> waiting v' = waiting v @ [f] \<and> slots v' = slots v"
    if "fst f \<noteq> 0" "length (waiting v) < slots v" for f
    using link_put_room [OF h _ that(1)] that(2) len(1) by (auto simp: link_inv_def)
  show "link_put f v = None" if "length (waiting v) = slots v" for f
    using link_put_full [OF h] that len(1) by simp
  show "\<exists>v'. link_get v = Some (f, v') \<and> link_inv v' \<and> waiting v' = fs \<and> slots v' = slots v"
    if w: "waiting v = f # fs" for f fs
  proof -
    obtain k' where "k = Suc k'" using w len(1) by (cases k) auto
    with link_get_first [of v k'] h w show ?thesis by (auto simp: link_inv_def)
  qed
  show "link_get v = None" if "waiting v = []"
    using holds_first [OF h] that len(1) by (simp add: link_get_def)
qed

section \<open>The operations of the node\<close>

lemma tte_schedule_send_put:
  assumes "unat i < length (VLarray s)" and "link_inv (VL_at s (unat i))"
  shows "tte_schedule_send addr sz i s = Some (case link_put (addr, sz) (VL_at s (unat i)) of
    None \<Rightarrow> (0, s) | Some v \<Rightarrow> (1, set_VL (unat i) v s))"
proof -
  have "unat (addplace (VL_at s (unat i))) < length (queue (VL_at s (unat i)))"
    using assms(2) by (auto simp: link_inv_def link_holds_def)
  with assms(1) show ?thesis by (simp add: tte_schedule_send_def link_put_def Let_def)
qed

text \<open>The bytes of a frame of the packet buffer, given by its address and its size, and when it can be sent.\<close>

definition frame_of :: "buffer \<Rightarrow> u32 \<times> u32 \<Rightarrow> u32 list" where
  "frame_of b f = frame_bytes b (fst f) (unat (snd f))"

definition sendable :: "u32 \<times> u32 \<Rightarrow> bool" where
  "sendable f \<longleftrightarrow> fst f \<noteq> 0 \<and> 0 < snd f \<and> snd f < 2 ^ 16"

lemma VL_at_set_VL [simp]: "i < length (VLarray s) \<Longrightarrow> VL_at (set_VL i v s) i = v"
  "length (VLarray (set_VL i v s)) = length (VLarray s)" "buff (set_VL i v s) = buff s" "dev (set_VL i v s) = dev s"
  by (simp_all add: VL_at_def set_VL_def)

lemma set_VL_dev: "(set_VL i v s)\<lparr>dev := d\<rparr> = set_VL i v (s\<lparr>dev := d\<rparr>)"
  "set_VL i w (set_VL i v s) = set_VL i w s" "VL_at (s\<lparr>dev := d\<rparr>) i = VL_at s i" "VLarray (s\<lparr>dev := d\<rparr>) = VLarray s"
  by (simp_all add: set_VL_def VL_at_def)

text \<open>\<^verbatim>\<open>tte_send_data\<close> puts the bytes of the oldest frame on the cable, and takes it from the queue.\<close>

lemma tte_send_data_cable:
  assumes "unat i < length (VLarray s)" and "link_inv (VL_at s (unat i))"
    and "link_get (VL_at s (unat i)) = Some (f, v)" and "sendable f" and "dev s = cable_env c" and "cab_in c = None"
  shows "tte_send_data i s =
    Some (set_VL (unat i) v (s\<lparr>dev := cable_env (with_frame (frame_of (buff s) f) (fst f) c)\<rparr>))"
proof -
  let ?i = "unat i" and ?v = "VL_at s (unat i)"
  let ?w = "?v\<lparr>queue := (queue ?v)[unat (rmplace ?v) := 0]\<rparr>"
  have r: "unat (rmplace ?v) < length (queue ?v)" using assms(2) by (auto simp: link_inv_def link_holds_def)
  have f: "f = (queue ?v ! unat (rmplace ?v), sizeQueue ?v ! unat (rmplace ?v))"
    and v: "v = (if rmplace ?v + 1 = max_queue ?v then ?w\<lparr>rmplace := 0\<rparr> else ?w\<lparr>rmplace := rmplace ?v + 1\<rparr>)"
    using assms(3) by (auto simp: link_get_def slot_at_def Let_def split: if_splits)
  have send: "eth_mac_send (fst f) (snd f) (set_VL ?i ?w s) = Some (set_VL ?i ?w
      (s\<lparr>dev := cable_env (with_frame (frame_of (buff s) f) (fst f) c)\<rparr>))"
    using cable_send [of "set_VL ?i ?w s" c "snd f" "fst f"] assms(4-6)
    by (simp add: sendable_def frame_of_def set_VL_dev)
  show ?thesis
    using assms(1) r send f v by (simp add: tte_send_data_def Let_def set_VL_dev)
qed

text \<open>
  A run of the node on one link: frames handed to it and ticks that serve it, in any order. It
  gives the frames that were accepted; those that were sent are on the cable.
\<close>

fun node_run :: "u8 \<Rightarrow> (u32 \<times> u32) queue_op list \<Rightarrow> tte_state \<Rightarrow> ((u32 \<times> u32) list \<times> tte_state) option" where
  "node_run i [] s = Some ([], s)"
| "node_run i (Put f # ops) s = do {
     (r, s) \<leftarrow> tte_schedule_send (fst f) (snd f) i s;
     (acc, s) \<leftarrow> node_run i ops s;
     Some (if r = 0 then acc else f # acc, s)
   }"
| "node_run i (Get # ops) s = do {
     w \<leftarrow> frame_waiting (unat i) s;
     s \<leftarrow> (if w then tte_send_data i s else Some s);
     node_run i ops s
   }"

lemma link_get_None: "link_get v = None \<longleftrightarrow> queue v ! unat (rmplace v) = 0"
  by (simp add: link_get_def Let_def)

lemma node_run_cable:
  assumes "unat i < length (VLarray s)" and "link_inv (VL_at s (unat i))"
    and "\<forall>f \<in> set (waiting (VL_at s (unat i))). sendable f"
    and "\<forall>op \<in> set ops. case op of Put f \<Rightarrow> sendable f | Get \<Rightarrow> True"
    and "dev s = cable_env c" and "cab_in c = None"
  shows "\<exists>acc out s' c'. node_run i ops s = Some (acc, s') \<and>
    queue_run link_put link_get ops (VL_at s (unat i)) = (acc, out, VL_at s' (unat i)) \<and>
    dev s' = cable_env c' \<and> cab_sent c' = cab_sent c @ map (frame_of (buff s)) out \<and>
    length (VLarray s') = length (VLarray s)"
  using assms
proof (induction ops arbitrary: s c)
  case Nil
  then show ?case by auto
next
  case (Cons op ops)
  let ?i = "unat i"
  show ?case
  proof (cases op)
    case (Put f)
    then have f: "fst f \<noteq> 0" using Cons.prems(4) by (simp add: sendable_def)
    note snd = tte_schedule_send_put [OF Cons.prems(1,2), of "fst f" "snd f"]
    from link.put_cases [OF Cons.prems(2) f] show ?thesis
    proof (elim disjE exE conjE)
      assume n: "link_put f (VL_at s ?i) = None"
      from Cons.IH [OF Cons.prems(1-3) _ Cons.prems(5,6)] Cons.prems(4) Put snd n show ?thesis by fastforce
    next
      fix v assume v: "link_put f (VL_at s ?i) = Some v" "link_inv v" "waiting v = waiting (VL_at s ?i) @ [f]"
      from Cons.IH [of "set_VL ?i v s" c] Cons.prems v Put snd show ?thesis by fastforce
    qed
  next
    case Get
    have w: "frame_waiting ?i s = Some (\<not> link_get (VL_at s ?i) = None)"
      using Cons.prems(1,2)
      by (auto simp: frame_waiting_def link_get_None link_inv_def link_holds_def word_gt_0 simp del: not_None_eq)
    from link.get_cases [OF Cons.prems(2)] show ?thesis
    proof (elim disjE exE conjE)
      assume n: "link_get (VL_at s ?i) = None"
      from Cons.IH [OF Cons.prems(1-3) _ Cons.prems(5,6)] Cons.prems(4) Get w n show ?thesis by fastforce
    next
      fix f v
      assume v: "link_get (VL_at s ?i) = Some (f, v)" "link_inv v" "waiting (VL_at s ?i) = f # waiting v"
      let ?c = "with_frame (frame_of (buff s) f) (fst f) c"
      have t: "tte_send_data i s = Some (set_VL ?i v (s\<lparr>dev := cable_env ?c\<rparr>))"
        by (rule tte_send_data_cable [OF Cons.prems(1,2) v(1) _ Cons.prems(5,6)]) (use Cons.prems(3) v(3) in simp)
      have c: "cab_in ?c = None" "cab_sent ?c = cab_sent c @ [frame_of (buff s) f]"
        using Cons.prems(6) by (simp_all add: with_frame_def)
      from Cons.IH [of "set_VL ?i v (s\<lparr>dev := cable_env ?c\<rparr>)" ?c] Cons.prems v(2,3) c
      obtain acc out s' c' where "node_run i ops (set_VL ?i v (s\<lparr>dev := cable_env ?c\<rparr>)) = Some (acc, s')"
        "queue_run link_put link_get ops v = (acc, out, VL_at s' ?i)" "dev s' = cable_env c'"
        "cab_sent c' = cab_sent c @ frame_of (buff s) f # map (frame_of (buff s)) out"
        "length (VLarray s') = length (VLarray s)"
        by (fastforce simp: set_VL_dev)
      with Get w t v(1) show ?thesis by (intro exI [of _ acc] exI [of _ "f # out"] exI [of _ s'] exI [of _ c']) simp
    qed
  qed
qed

text \<open>C12: the transmit queue of a virtual link is first in, first out. A node whose controller is a cable on
  which nothing arrives is run on the link: frames are queued and ticks send, in any order; all frames, those that
  waited before too, have nonzero addresses and lengths that fit the controller's length field. The run is not
  stuck; the frames that waited at the beginning and those accepted since are, in this order, the frames whose
  bytes were put on the cable, one after the other, and those that still wait; and a frame is refused just when all
  slots are taken.\<close>

theorem tte_link_fifo:
  assumes "unat i < length (VLarray s)" and "link_inv (VL_at s (unat i))"
    and "\<forall>f \<in> set (waiting (VL_at s (unat i))). sendable f"
    and "\<forall>op \<in> set ops. case op of Put f \<Rightarrow> sendable f | Get \<Rightarrow> True"
    and "dev s = cable_env c" and "cab_in c = None"
  shows "\<exists>acc out s'. node_run i ops s = Some (acc, s') \<and>
    waiting (VL_at s (unat i)) @ acc = out @ waiting (VL_at s' (unat i)) \<and>
    on_cable (dev s') (cab_sent c @ map (frame_of (buff s)) out) \<and>
    (addr \<noteq> 0 \<longrightarrow> (\<exists>s''. tte_schedule_send addr sz i s' =
       Some (if length (waiting (VL_at s' (unat i))) = slots (VL_at s' (unat i)) then 0 else 1, s'')))"
proof -
  from node_run_cable [OF assms] obtain acc out s' c'
    where run: "node_run i ops s = Some (acc, s')" "queue_run link_put link_get ops (VL_at s (unat i)) = (acc, out, VL_at s' (unat i))"
      "dev s' = cable_env c'" "cab_sent c' = cab_sent c @ map (frame_of (buff s)) out"
    and len: "unat i < length (VLarray s')" using assms(1) by auto
  let ?v = "VL_at s' (unat i)"
  have valid: "\<forall>op \<in> set ops. case op of Put f \<Rightarrow> fst f \<noteq> 0 | Get \<Rightarrow> True"
    using assms(4) by (auto simp: sendable_def split: queue_op.splits)
  from link.run_fifo [OF assms(2) valid run(2)]
  have r: "waiting (VL_at s (unat i)) @ acc = out @ waiting ?v" "link_inv ?v" by auto
  have "\<exists>s''. tte_schedule_send addr sz i s' = Some (if length (waiting ?v) = slots ?v then 0 else 1, s'')"
    if "addr \<noteq> 0"
    using tte_schedule_send_put [OF len r(2), of addr sz] link.put_full [OF r(2), of "(addr, sz)"]
      link.put_room [OF r(2), of "(addr, sz)"] link.contents_le [OF r(2)] that
    by (cases "length (waiting ?v) = slots ?v") (auto simp: order_less_le)
  with r run show ?thesis by auto
qed

definition cable_node :: tte_state where
  "cable_node = (example_node 200 [example_link 2 8 100])\<lparr>buff := ucast, dev := cable_env quiet_cable\<rparr>"

lemma tte_link_fifo_witness:
  "\<exists>s'. node_run 0 [Put (0x2000, 4), Put (0x2600, 8), Put (0x2C00, 6), Get, Get] cable_node =
     Some ([(0x2000, 4), (0x2600, 8)], s') \<and>
   on_cable (dev s') [[0, 0, 8, 0], [0, 0, 9, 0x80, 0, 0, 9, 0x81]] \<and> waiting (VL_at s' 0) = []"
proof -
  let ?ops = "[Put (0x2000, 4), Put (0x2600, 8), Put (0x2C00, 6), Get, Get] :: (u32 \<times> u32) queue_op list"
  have v: "VL_at cable_node (unat (0 :: u8)) = example_link 2 8 100" "unat (0 :: u8) < length (VLarray cable_node)"
    "buff cable_node = ucast" "dev cable_node = cable_env quiet_cable" "cab_in quiet_cable = None" "cab_sent quiet_cable = []"
    by (simp_all add: cable_node_def example_node_def VL_at_def quiet_cable_def)
  have link2: "example_link 2 8 100 = \<lparr>max_queue = 2, startTime = 8, link_period = 100, queue = [0, 0], sizeQueue = [0, 0],
      addplace = 0, rmplace = 0\<rparr>"
    by (simp add: example_link_def) (simp add: numeral_2_eq_2)
  have "\<forall>j < 2. fst (slot_at (example_link 2 8 100) j) = 0"
    by (auto simp: link2 slot_at_def less_2_cases_iff)
  then have h: "link_holds (example_link 2 8 100) 0"
    by (simp add: link_holds_def) (simp add: example_link_def)
  then have inv: "link_inv (VL_at cable_node (unat (0 :: u8)))" unfolding v link_inv_def by blast
  have empty: "waiting (VL_at cable_node (unat (0 :: u8))) = []" unfolding v using waiting_ring [OF h] by (simp add: ring_def)
  then have w: "\<forall>f \<in> set (waiting (VL_at cable_node (unat (0 :: u8)))). sendable f" by simp
  have ops: "\<forall>op \<in> set ?ops. case op of Put f \<Rightarrow> sendable f | Get \<Rightarrow> True" by (simp add: sendable_def)
  from node_run_cable [OF v(2) inv w ops v(4,5)] obtain acc out s'
    where run: "node_run 0 ?ops cable_node = Some (acc, s')"
      "queue_run link_put link_get ?ops (example_link 2 8 100) = (acc, out, VL_at s' 0)" unfolding v by auto
  have "queue_run link_put link_get ?ops (example_link 2 8 100) =
      ([(0x2000, 4), (0x2600, 8)], [(0x2000, 4), (0x2600, 8)],
       (example_link 2 8 100)\<lparr>sizeQueue := [4, 8]\<rparr>)"
    by (simp add: link2 link_put_def link_get_def slot_at_def Let_def)
  with run(2) have acc: "acc = [(0x2000, 4), (0x2600, 8)]" "waiting (VL_at s' 0) = []"
    by (auto simp: waiting_def ring_def slot_at_def link2 upt_rec)
  have bytes: "frame_of ucast (0x2000, 4) = [0, 0, 8, 0]"
    "frame_of ucast (0x2600, 8) = [0, 0, 9, 0x80, 0, 0, 9, 0x81]"
    by (simp_all add: frame_of_def frame_bytes_def frame_byte_def upt_rec mem_iord_byte_def word_slot_def)
  from tte_link_fifo [OF v(2) inv w ops v(4,5), of 1 1] run(1) acc empty bytes
  show ?thesis by (auto simp: v)
qed

end
