(* ===== verification/Tte_Frames.thy ===== *)
theory Tte_Frames
  imports Tte_Node
begin

text \<open>
  The frames a TTEthernet node builds and those it receives: a node takes its own data frames and
  protocol control frames for what they are, and a sequence of integration frames that arrive within
  the precision keeps the clock of the node at the time they set.
\<close>

section \<open>Frames that are built\<close>

lemma frame_byte_range:
  assumes "b \<le> 2 ^ 32" and "j < 2 ^ 32" and "a \<le> b"
  shows "frame_byte (for_loop a b (\<lambda>i. mem_iowr_byte (t + of_nat i) (f i)) m) t j =
    (if a \<le> j \<and> j < b then f j AND 0xFF else frame_byte m t j)"
  using assms(3,1)
proof (induction b rule: dec_induct)
  case base
  then show ?case by (auto simp: for_loop_empty)
next
  case (step n)
  then have "frame_byte (mem_iowr_byte (t + of_nat n) v m') t j =
      (if j = n then v AND 0xFF else frame_byte m' t j)" for v m'
    using assms(2) by (intro frame_byte_write) auto
  with step show ?case by (auto simp: for_loop_last)
qed

text \<open>The header: the marker, the virtual link, the sender and the type.\<close>

definition header_bytes :: "tte_state \<Rightarrow> u8 list \<Rightarrow> u8 list \<Rightarrow> u8 list" where
  "header_bytes s VL ethType = CT_marker s @ VL @ mac s @ ethType"

definition node_shape :: "tte_state \<Rightarrow> u8 list \<Rightarrow> bool" where
  "node_shape s VL \<longleftrightarrow> length (CT_marker s) = 4 \<and> length VL = 2 \<and> length (mac s) = 6"

lemma frame_byte_header:
  assumes "node_shape s VL" and "length ty = 2" and "j < 2 ^ 32"
  shows "frame_byte (tte_prepare_header s t VL ty b) t j =
    (if j < 14 then ucast (header_bytes s VL ty ! j) else frame_byte b t j)"
proof -
  have n: "length (CT_marker s) = 4" "length VL = 2" "length (mac s) = 6" using assms(1) by (simp_all add: node_shape_def)
  have nth: "header_bytes s VL ty ! j = (if j < 4 then CT_marker s ! j else if j < 6 then VL ! (j - 4)
      else if j < 12 then mac s ! (j - 6) else ty ! (j - 12))" if "j < 14"
    using that unfolding header_bytes_def nth_append n by auto
  have f: "frame_byte (tte_prepare_header s t VL ty b) t j =
      (if j = 13 then ucast (ty ! 1) else if j = 12 then ucast (ty ! 0)
       else if 6 \<le> j \<and> j < 12 then ucast (mac s ! (j - 6)) else if j = 5 then ucast (VL ! 1)
       else if j = 4 then ucast (VL ! 0) else if j < 4 then ucast (CT_marker s ! j) else frame_byte b t j)"
    using assms(3) by (simp add: tte_prepare_header_def Let_def mem_simps frame_byte_range)
  show ?thesis
  proof (cases "j < 14")
    case True
    show ?thesis unfolding f nth [OF True] using True by auto
  qed (simp add: f)
qed

definition length_field :: "nat \<Rightarrow> u8 list" where
  "length_field len = [of_nat ((len - 14) div 256), of_nat (len - 14)]"

lemma frame_byte_data:
  assumes "node_shape s VL" and "14 \<le> len" and "len \<le> 1514" and "j < 2 ^ 32"
  shows "frame_byte (buff (tte_prepare_data t VL data len s)) t j =
    (if j < 14 then ucast (header_bytes s VL (length_field len) ! j)
     else if j < len then ucast (data ! j) else frame_byte (buff s) t j)"
proof -
  obtain m where m: "len = m + 14" "m \<le> 1500" using that [of "len - 14"] assms(2,3) by simp
  have "ucast (drop_bit 8 (of_nat m :: u32) AND 0xFF) = (of_nat (m div 256) :: u8)"
    "ucast ((of_nat m :: u32) AND 0xFF) = (of_nat m :: u8)"
    using m(2) by (simp_all add: word_unat_eq_iff unsigned_ucast_eq unat_and_byte_u32 unat_of_nat
        unsigned_drop_bit_eq drop_bit_eq_div take_bit_eq_mod unat_div)
  then have ty: "[ucast (drop_bit 8 (of_nat len - 14 :: u32) AND 0xFF), ucast ((of_nat len - 14 :: u32) AND 0xFF)] =
      length_field len" by (simp add: m length_field_def)
  show ?thesis
    using assms ty by (simp add: tte_prepare_data_def Let_def frame_byte_range frame_byte_header length_field_def)
qed

lemma frame_byte_pcf:
  assumes "node_shape s VL" and "j < 2 ^ 32"
  shows "frame_byte (buff (tte_prepare_pcf t VL ty s)) t j =
    (if j < 14 then ucast (header_bytes s VL [0x89, 0x1D] ! j)
     else if j < 21 then 0 else if j = 21 then 2 else if j = 26 then 1 else if j = 27 then 1
     else if j = 28 then ucast ty else if 34 \<le> j \<and> j < 42 then 0 else frame_byte (buff s) t j)"
  using assms
  by (simp add: tte_prepare_pcf_def Let_def mem_simps frame_byte_range frame_byte_header)

lemma header_length: "node_shape s VL \<Longrightarrow> length ty = 2 \<Longrightarrow> length (header_bytes s VL ty) = 14"
  by (simp add: node_shape_def header_bytes_def)

lemma header_type:
  assumes "node_shape s VL"
  shows "header_bytes s VL [a, b] ! 12 = a" "header_bytes s VL [a, b] ! 13 = b"
  using assms by (simp_all add: node_shape_def header_bytes_def nth_append)

lemma header_marker: "node_shape s VL \<Longrightarrow> j < 4 \<Longrightarrow> header_bytes s VL ty ! j = CT_marker s ! j"
  by (simp add: node_shape_def header_bytes_def nth_append)

lemma is_tte_header:
  assumes "node_shape s VL" and "\<And>j. j < 4 \<Longrightarrow> frame_byte b t j = ucast (header_bytes s VL ty ! j)"
  shows "is_tte (CT_marker s) b t = 1"
  using assms by (auto simp: is_tte_def header_marker simp flip: frame_byte_def)

lemma prepared_pcf:
  assumes "node_shape s VL" and b_def: "b = buff (tte_prepare_pcf t VL ty s)"
  shows "is_pcf b t = 1" and "mem_iord_byte b (t + 28) = ucast ty"
    and "frame_trans_clock b t = 0" and "frame_integration_cycle b t = 0" and "is_tte (CT_marker s) b t = 1"
proof -
  note f = frame_byte_pcf [OF assms(1)]
  show "is_pcf b t = 1"
    by (simp add: is_pcf_def frame_byte_numeral(1) b_def f header_type [OF assms(1)])
  show "mem_iord_byte b (t + 28) = ucast ty" by (simp add: frame_byte_numeral(1) b_def f)
  show "frame_trans_clock b t = 0"
    by (simp add: frame_trans_clock_def upt_rec frame_byte_numeral(1) b_def f)
  show "frame_integration_cycle b t = 0"
    by (simp add: frame_integration_cycle_def upt_rec frame_byte_numeral(1) b_def f)
  show "is_tte (CT_marker s) b t = 1"
    by (rule is_tte_header [OF assms(1)]) (simp add: b_def f)
qed

lemma ucast_is_0x89: "(ucast (c :: u8) :: u32) = 0x89 \<longleftrightarrow> c = 0x89"
  by (simp add: word_unat_eq_iff)

text \<open>C37: the frames a node builds are received for what they are. A data frame of legal length reads as the
  marker, the virtual link, the sender, the length of the data and the data, and is classified as a
  TTEthernet frame; a protocol control frame keeps its type and carries the clock and the cycle 0.\<close>

theorem tte_frames_roundtrip:
  assumes "node_shape s VL" and "14 \<le> len" and "len \<le> 1514" and "len \<le> length data"
  shows "(let b = buff (tte_prepare_data t VL data len s)
     in map (frame_byte b t) [0..<len] = map ucast (header_bytes s VL (length_field len) @ drop 14 (take len data)) \<and>
        is_pcf b t = 0 \<and> is_tte (CT_marker s) b t = 1) \<and>
    (let b = buff (tte_prepare_pcf t VL ty s)
     in is_pcf b t = 1 \<and> mem_iord_byte b (t + 28) = ucast ty \<and> frame_trans_clock b t = 0 \<and>
        frame_integration_cycle b t = 0)"
proof -
  note f = frame_byte_data [OF assms(1-3)]
  let ?b = "buff (tte_prepare_data t VL data len s)"
  have "(len - 14) div 256 < 0x89" using assms(3) by simp
  then have "(of_nat ((len - 14) div 256) :: u8) \<noteq> 0x89" using assms(3) by (simp add: word_unat_eq_iff unat_of_nat)
  then have "length_field len ! 0 \<noteq> 0x89" by (simp add: length_field_def)
  moreover have "header_bytes s VL (length_field len) ! 12 = length_field len ! 0"
    using header_type [OF assms(1)] by (simp add: length_field_def)
  ultimately have "is_pcf ?b t = 0"
    by (simp add: is_pcf_def frame_byte_numeral(1) f ucast_is_0x89)
  moreover have "is_tte (CT_marker s) ?b t = 1"
    by (rule is_tte_header [OF assms(1), where ty = "length_field len"]) (simp add: f)
  moreover have "map (frame_byte ?b t) [0..<len] =
      map ucast (header_bytes s VL (length_field len) @ drop 14 (take len data))"
    using assms header_length [OF assms(1), of "length_field len"]
    by (intro nth_equalityI) (auto simp: f nth_append length_field_def)
  ultimately show ?thesis using prepared_pcf [OF assms(1) refl] by simp
qed

lemma tte_frames_roundtrip_witness:
  "is_tte [0xAB, 0xAD, 0xBA, 0xBE]
     (buff (tte_prepare_data 0x2000 [0x0F, 0xA1] (replicate 60 7) 60 (example_node 200 []))) 0x2000 = 1"
  using tte_frames_roundtrip [of "example_node 200 []" "[0x0F, 0xA1]" 60 "replicate 60 7" "0x2000"]
  by (simp add: node_shape_def Let_def) (simp add: example_node_def)

section \<open>The clock\<close>

text \<open>Integration frames, each with the buffer it arrives in, its address and the time of its reception.\<close>

fun receive_frames :: "(buffer \<times> u32 \<times> u64) list \<Rightarrow> tte_state \<Rightarrow> u8 list \<times> tte_state" where
  "receive_frames [] s = ([], s)"
| "receive_frames ((b, addr, receive_pit) # fs) s =
     (let (r, s) = tte_receive addr receive_pit (s\<lparr>buff := b\<rparr>);
          (rs, s) = receive_frames fs s
      in (r # rs, s))"

definition integration_frame :: "buffer \<times> u32 \<times> u64 \<Rightarrow> bool" where
  "integration_frame f = (case f of (b, addr, receive_pit) \<Rightarrow>
     is_pcf b addr \<noteq> 0 \<and> mem_iord_byte b (addr + 28) = 0x2)"

definition frame_permanence :: "u32 \<Rightarrow> buffer \<times> u32 \<times> u64 \<Rightarrow> u64" where
  "frame_permanence max_delay f = (case f of (b, addr, receive_pit) \<Rightarrow>
     receive_pit + (ucast max_delay - transClk_to_clk (frame_trans_clock b addr)))"

text \<open>The delays of the node, added up in 32 bits, do not wrap around.\<close>

definition delays_fit :: "tte_state \<Rightarrow> bool" where
  "delays_fit s \<longleftrightarrow> 2 * unat (tte_max_trans_delay s) + unat (tte_comp_delay s) < 2 ^ 32"

lemma sched_receive:
  assumes "delays_fit s"
  shows "sched_receive_pit s = tte_current_time s + receive_delay s"
proof -
  have d: "unat (2 * tte_max_trans_delay s) = 2 * unat (tte_max_trans_delay s)"
    using assms unat_mult_lem [of 2 "tte_max_trans_delay s"] by (simp add: delays_fit_def)
  have u: "unat (2 * tte_max_trans_delay s + tte_comp_delay s) = unat (2 * tte_max_trans_delay s) + unat (tte_comp_delay s)"
    using assms d unat_add_lem [of "2 * tte_max_trans_delay s" "tte_comp_delay s"] by (simp add: delays_fit_def)
  have "receive_delay s = of_nat (unat (2 * tte_max_trans_delay s + tte_comp_delay s))"
    by (simp add: receive_delay_def)
  also have "\<dots> = ucast (2 * tte_max_trans_delay s) + ucast (tte_comp_delay s)" unfolding u by simp
  finally have "receive_delay s = ucast (2 * tte_max_trans_delay s) + ucast (tte_comp_delay s)" .
  then show ?thesis by (simp add: sched_receive_pit_def)
qed

definition same_node :: "tte_state \<Rightarrow> tte_state \<Rightarrow> bool" where
  "same_node s t \<longleftrightarrow> tte_max_trans_delay t = tte_max_trans_delay s \<and> tte_comp_delay t = tte_comp_delay s \<and>
     tte_precision t = tte_precision s \<and> integration_period t = integration_period s"

lemma restart_schedule_same: "same_node s (restart_schedule s)" "tte_current_time (restart_schedule s) = tte_current_time s"
  "integration_period (restart_schedule s) = integration_period s"
  by (simp_all add: restart_schedule_def same_node_def rts_do_def Let_def)

lemma same_node_trans: "same_node s t \<Longrightarrow> same_node t u \<Longrightarrow> same_node s u"
  by (simp add: same_node_def)

lemma same_node_delays: "same_node s t \<Longrightarrow> delays_fit t = delays_fit s" "same_node s t \<Longrightarrow> receive_delay t = receive_delay s"
  by (simp_all add: same_node_def delays_fit_def receive_delay_def)

text \<open>
  An integration frame that arrives when the clock is not set, or in the window around the scheduled
  time, is accepted and sets the clock to the time of the next frame.
\<close>

lemma frame_accepted:
  assumes f: "integration_frame (b, addr, r)" and d: "delays_fit s"
    and p: "p = frame_permanence (tte_max_trans_delay s) (b, addr, r)"
    and win: "in_window p (if tte_current_time s = 0 then p else tte_current_time s + receive_delay s) s"
  shows "\<exists>s'. tte_receive addr r (s\<lparr>buff := b\<rparr>) = (1, s') \<and> same_node s s' \<and>
    tte_current_time s' = p - receive_delay s + ucast (integration_period s)"
proof -
  let ?s = "s\<lparr>buff := b, integration_cycle := frame_integration_cycle b addr\<rparr>"
  let ?t = "if tte_current_time s = 0 then ?s\<lparr>tte_current_time := p - receive_delay s\<rparr> else ?s"
  have perm: "permanence addr r ?s = p" by (simp add: permanence_def p frame_permanence_def)
  have same: "same_node s ?t" by (simp add: same_node_def)
  have delay: "receive_delay ?s = receive_delay s" by (simp add: receive_delay_def)
  have sched: "sched_receive_pit ?t = (if tte_current_time s = 0 then p else tte_current_time s + receive_delay s)"
    using sched_receive [of ?t] d same_node_delays [OF same] by auto
  have win': "in_window p (sched_receive_pit ?t) ?t" using win unfolding sched
    by (cases "tte_current_time s = 0") (simp_all add: in_window_def)
  let ?u = "restart_schedule (?t\<lparr>tte_current_time := tte_current_time ?t + (p - sched_receive_pit ?t)\<rparr>)"
  let ?s' = "?u\<lparr>tte_current_time := tte_current_time ?u + ucast (integration_period ?u)\<rparr>"
  have "handle_integration_frame addr r (s\<lparr>buff := b\<rparr>) = (1, ?s')"
    using win'
    by (cases "tte_current_time s = 0") (simp_all add: handle_integration_frame_def Let_def perm delay)
  then have rec: "tte_receive addr r (s\<lparr>buff := b\<rparr>) = (1, ?s')"
    using f by (simp add: tte_receive_def integration_frame_def)
  have "same_node s ?u"
    by (rule same_node_trans [OF _ restart_schedule_same(1)]) (use same in \<open>simp add: same_node_def\<close>)
  then have "same_node s ?s'" by (simp add: same_node_def)
  moreover have "tte_current_time ?s' = p - receive_delay s + ucast (integration_period s)"
    using \<open>same_node s ?u\<close> by (simp add: restart_schedule_same(2,3) sched)
  ultimately show ?thesis using rec by blast
qed

lemma in_window_near:
  assumes "0 < unat (tte_precision s)" and "unat (tte_precision s) \<le> unat c" and "unat c + unat (tte_precision s) < 2 ^ 64"
    and "unat p < unat c + unat (tte_precision s)" and "unat c < unat p + unat (tte_precision s)"
  shows "in_window p c s"
proof -
  let ?P = "ucast (tte_precision s) :: u64"
  have P: "unat ?P = unat (tte_precision s)" by (rule unat_u32_to_u64)
  have "unat (c - ?P) = unat c - unat (tte_precision s)" using assms(2) by (simp add: unat_sub word_le_nat_alt P)
  moreover have "unat (c + ?P) = unat c + unat (tte_precision s)" using assms(3) P unat_add_lem [of c ?P] by simp
  ultimately show ?thesis using assms by (auto simp: in_window_def word_less_nat_alt)
qed

text \<open>
  Frames that arrive on time: each permanence time is within the precision of one integration period
  after the one before, and the clock does not wrap around.
\<close>

definition on_time :: "tte_state \<Rightarrow> (buffer \<times> u32 \<times> u64) list \<Rightarrow> bool" where
  "on_time s fs \<longleftrightarrow> (let time = (\<lambda>f. unat (frame_permanence (tte_max_trans_delay s) f));
       ip = unat (integration_period s); precision = unat (tte_precision s)
     in successively (\<lambda>f g. time g < time f + ip + precision \<and> time f + ip < time g + precision) fs \<and>
        (\<forall>f \<in> set fs. integration_frame f \<and> precision \<le> time f \<and> time f + ip + precision < 2 ^ 64))"

lemma first_accepted:
  assumes "delays_fit s" and "0 < tte_precision s" and "on_time s (f # fs)"
    and "tte_current_time s = 0 \<or>
      in_window (frame_permanence (tte_max_trans_delay s) f) (tte_current_time s + receive_delay s) s"
  shows "\<exists>s'. tte_receive (fst (snd f)) (snd (snd f)) (s\<lparr>buff := fst f\<rparr>) = (1, s') \<and> same_node s s' \<and>
    tte_current_time s' = frame_permanence (tte_max_trans_delay s) f - receive_delay s + ucast (integration_period s) \<and>
    tte_current_time s' + receive_delay s' = frame_permanence (tte_max_trans_delay s) f + ucast (integration_period s)"
proof -
  let ?p = "frame_permanence (tte_max_trans_delay s) f"
  have "in_window ?p ?p s"
    using assms(2,3) by (intro in_window_near) (auto simp: on_time_def Let_def word_less_nat_alt)
  with assms(4) have "in_window ?p (if tte_current_time s = 0 then ?p else tte_current_time s + receive_delay s) s"
    by auto
  with frame_accepted [of "fst f" "fst (snd f)" "snd (snd f)" s ?p] assms(1,3) obtain s' where
    "tte_receive (fst (snd f)) (snd (snd f)) (s\<lparr>buff := fst f\<rparr>) = (1, s')" "same_node s s'"
    "tte_current_time s' = ?p - receive_delay s + ucast (integration_period s)"
    by (auto simp: on_time_def Let_def)
  with same_node_delays(2) [of s s'] show ?thesis by (auto simp: algebra_simps)
qed

lemma frames_accepted:
  assumes "delays_fit s" and "0 < tte_precision s" and "on_time s (f # fs)"
    and "tte_current_time s = 0 \<or>
      in_window (frame_permanence (tte_max_trans_delay s) f) (tte_current_time s + receive_delay s) s"
  shows "\<exists>s'. receive_frames (f # fs) s = (replicate (Suc (length fs)) 1, s') \<and>
    tte_current_time s' = frame_permanence (tte_max_trans_delay s) (last (f # fs)) - receive_delay s +
      ucast (integration_period s)"
  using assms
proof (induction fs arbitrary: f s)
  case Nil
  obtain b addr r where f: "f = (b, addr, r)" by (cases f)
  from first_accepted [OF Nil.prems] show ?case by (auto simp: f)
next
  case (Cons g fs)
  obtain b addr r where f: "f = (b, addr, r)" by (cases f)
  from first_accepted [OF Cons.prems] obtain s1 where s1: "tte_receive addr r (s\<lparr>buff := b\<rparr>) = (1, s1)"
    "same_node s s1" "tte_current_time s1 + receive_delay s1 = frame_permanence (tte_max_trans_delay s) f + ucast (integration_period s)"
    by (auto simp: f)
  let ?p = "frame_permanence (tte_max_trans_delay s)"
  have same: "tte_max_trans_delay s1 = tte_max_trans_delay s" "tte_precision s1 = tte_precision s"
    "integration_period s1 = integration_period s" "receive_delay s1 = receive_delay s" "delays_fit s1"
    using s1(2) same_node_delays [OF s1(2)] Cons.prems(1) by (simp_all add: same_node_def)
  have IP: "unat (ucast (integration_period s) :: u64) = unat (integration_period s)" by (rule unat_u32_to_u64)
  have fit: "unat (?p f) + unat (integration_period s) + unat (tte_precision s) < 2 ^ 64"
    "unat (tte_precision s) \<le> unat (?p f)"
    and near: "unat (?p g) < unat (?p f) + unat (integration_period s) + unat (tte_precision s)"
      "unat (?p f) + unat (integration_period s) < unat (?p g) + unat (tte_precision s)"
    using Cons.prems(3) by (auto simp: on_time_def Let_def)
  have c: "unat (?p f + ucast (integration_period s)) = unat (?p f) + unat (integration_period s)"
    using fit(1) unat_add_lem [of "?p f" "ucast (integration_period s)"] by (simp add: IP)
  have "in_window (?p g) (tte_current_time s1 + receive_delay s1) s1"
    unfolding s1(3) using Cons.prems(2) fit near
    by (intro in_window_near) (simp_all add: c same word_less_nat_alt)
  moreover have "on_time s1 (g # fs)" using Cons.prems(3) by (simp add: on_time_def Let_def same)
  ultimately obtain s2 where "receive_frames (g # fs) s1 = (replicate (Suc (length fs)) 1, s2)"
    "tte_current_time s2 = ?p (last (g # fs)) - receive_delay s + ucast (integration_period s)"
    using Cons.IH [of s1 g] Cons.prems(2) same by auto
  then show ?case using s1(1) by (simp add: f)
qed

text \<open>C16: a node stays synchronised. From the state in which the clock is not set, a sequence of integration
  frames whose permanence times lie within the precision of one integration period after each other is
  accepted frame by frame, and the clock is then that of the last frame, one integration period ahead.\<close>

theorem tte_stays_synchronized:
  assumes "delays_fit s" and "0 < tte_precision s" and "tte_current_time s = 0" and "fs \<noteq> []" and "on_time s fs"
  shows "\<exists>s'. receive_frames fs s = (replicate (length fs) 1, s') \<and>
    tte_current_time s' = frame_permanence (tte_max_trans_delay s) (last fs) - receive_delay s +
      ucast (integration_period s)"
proof (cases fs)
  case (Cons f gs)
  with frames_accepted [of s f gs] assms show ?thesis by simp
qed (use assms in simp)

lemma tte_stays_synchronized_witness:
  "\<exists>s'. receive_frames
     [(buff (tte_prepare_pcf 0 [0x0F, 0xA1] 2 (example_node 200 [])), 0, 1000000),
      (buff (tte_prepare_pcf 0 [0x0F, 0xA1] 2 (example_node 200 [])), 0, 1800700)] (example_node 200 []) = ([1, 1], s') \<and>
   tte_current_time s' = 2585852"
proof -
  let ?s = "example_node 200 []" and ?VL = "[0x0F, 0xA1] :: u8 list"
  let ?b = "buff (tte_prepare_pcf 0 ?VL 2 ?s)"
  note pcf = prepared_pcf [of ?s ?VL ?b 0 2]
  have shape: "node_shape ?s ?VL" by (simp add: node_shape_def example_node_def)
  have p: "frame_permanence (tte_max_trans_delay ?s) (?b, 0, r) = r + 10848" for r
    using pcf [OF shape refl] by (simp add: frame_permanence_def transClk_to_clk_def) (simp add: example_node_def)
  have f: "integration_frame (?b, 0, r)" for r
    using pcf [OF shape refl] by (simp add: integration_frame_def)
  let ?fs = "[(?b, 0, 1000000), (?b, 0, 1800700)] :: (buffer \<times> u32 \<times> u64) list"
  have "on_time ?s ?fs"
    using f by (simp add: on_time_def p Let_def) (simp add: example_node_def)
  moreover have c: "delays_fit ?s" "0 < tte_precision ?s" "tte_current_time ?s = 0" "receive_delay ?s = 25696"
    "integration_period ?s = 800000"
    by (simp_all add: delays_fit_def receive_delay_def example_node_def)
  ultimately obtain s' where r: "receive_frames ?fs ?s = (replicate (length ?fs) 1, s')"
    "tte_current_time s' = frame_permanence (tte_max_trans_delay ?s) (last ?fs) - receive_delay ?s +
      ucast (integration_period ?s)"
    using tte_stays_synchronized [of ?s ?fs] by blast
  have "replicate (length ?fs) 1 = ([1, 1] :: u8 list)" by simp
  moreover have "tte_current_time s' = 2585852" unfolding r(2) c(4,5) by (simp add: p)
  ultimately show ?thesis using r(1) by metis
qed

end
