(* ===== verification/Ptp_Layer.thy ===== *)
theory Ptp_Layer
  imports Udp_Layer "HOL-Library.Signed_Division"
begin

text \<open>
  The Precision Time Protocol (\<^verbatim>\<open>ethlib/ptp1588.c\<close>, \<^verbatim>\<open>ptp1588.h\<close>): a master and a slave exchange
  messages over UDP, the slave computes its offset from the master's clock and corrects its own.

  A message is a structure that is sent and received as the bytes it is stored in. The processor is
  big-endian and aligns to at most four bytes (the lengths 44 and 54 that the code gives its messages are
  those of this layout), so that the structure is a list of 56 bytes with its fields at fixed offsets. The
  clock and the time stamps are memory-mapped registers at offsets from the port's base address.
\<close>

section \<open>Messages\<close>

type_synonym ptp_msg = "u8 list"

definition bytes_16 :: "u16 \<Rightarrow> u8 list" where
  "bytes_16 v = [ucast (drop_bit 8 v), ucast v]"

definition bytes_32 :: "u32 \<Rightarrow> u8 list" where
  "bytes_32 v = [ucast (drop_bit 24 v), ucast (drop_bit 16 v), ucast (drop_bit 8 v), ucast v]"

definition field_16 :: "ptp_msg \<Rightarrow> nat \<Rightarrow> u16" where
  "field_16 m off = push_bit 8 (ucast (m ! off)) OR ucast (m ! (off + 1))"


definition put_bytes :: "nat \<Rightarrow> u8 list \<Rightarrow> ptp_msg \<Rightarrow> ptp_msg" where
  "put_bytes off bs m = take off m @ bs @ drop (off + length bs) m"

text \<open>The offsets of the fields of \<^verbatim>\<open>PTPv2MsgHeader\<close> and of \<^verbatim>\<open>PTPMsgBody\<close>.\<close>

abbreviation (input) "at_msgType \<equiv> 0 :: nat"
abbreviation (input) "at_version \<equiv> 1 :: nat"
abbreviation (input) "at_messageLength \<equiv> 2 :: nat"
abbreviation (input) "at_flagField \<equiv> 6 :: nat"
abbreviation (input) "at_correctionField \<equiv> 8 :: nat"
abbreviation (input) "at_portIdentity \<equiv> 20 :: nat"
abbreviation (input) "at_portId \<equiv> 28 :: nat"
abbreviation (input) "at_sequenceId \<equiv> 30 :: nat"
abbreviation (input) "at_controlField \<equiv> 32 :: nat"
abbreviation (input) "at_logMessageInterval \<equiv> 33 :: nat"
abbreviation (input) "at_seconds \<equiv> 36 :: nat"
abbreviation (input) "at_nanoseconds \<equiv> 40 :: nat"
abbreviation (input) "at_requestingSourcePort \<equiv> 44 :: nat"
abbreviation (input) "at_requestingSourceId \<equiv> 52 :: nat"

section \<open>State\<close>

record ptp_time_record =
  tr_syncInterval :: u8
  offsetSeconds :: u32
  offsetNanoseconds :: u32
  t1Seconds :: u32
  t1Nanoseconds :: u32
  t2Seconds :: u32
  t2Nanoseconds :: u32
  delaySeconds :: u32
  delayNanoseconds :: u32
  t3Seconds :: u32
  t3Nanoseconds :: u32
  t4Seconds :: u32
  t4Nanoseconds :: u32

record ptp_port_info =
  eth_base :: u32
  port_ip :: "u8 list"
  port_mac :: "u8 list"
  clockId :: "u8 list"
  port_id :: u16
  portRole :: u32
  port_syncInterval :: u8

record ptp_state = udp_state +
  txPTPMsg :: ptp_msg
  rxPTPMsg :: ptp_msg
  ptpTimeRecord :: ptp_time_record
  thisPtpPortInfo :: ptp_port_info
  lastMasterInfo :: ptp_port_info
  lastSlaveInfo :: ptp_port_info

definition ptp_rd :: "u32 \<Rightarrow> u32 \<Rightarrow> ptp_state \<Rightarrow> u32 \<times> ptp_state" where
  "ptp_rd base off s = (let (v, d) = env_io_rd (dev s) (base + off) in (v, s\<lparr>dev := d\<rparr>))"


abbreviation (input) "PTP_RXCHAN_TIMESTAMP_NS \<equiv> 0xE000 :: u32"
abbreviation (input) "PTP_RXCHAN_TIMESTAMP_SEC \<equiv> 0xE004 :: u32"
abbreviation (input) "PTP_RXCHAN_STATUS \<equiv> 0xE008 :: u32"
abbreviation (input) "PTP_TXCHAN_TIMESTAMP_NS \<equiv> 0xE400 :: u32"
abbreviation (input) "PTP_TXCHAN_TIMESTAMP_SEC \<equiv> 0xE404 :: u32"
abbreviation (input) "PTP_TXCHAN_STATUS \<equiv> 0xE408 :: u32"
abbreviation (input) "RTC_TIME_NS \<equiv> 0xE800 :: u32"
abbreviation (input) "RTC_TIME_SEC \<equiv> 0xE804 :: u32"
abbreviation (input) "RTC_ADJUST_OFFSET \<equiv> 0xE820 :: u32"

abbreviation (input) "PTP_SYNC_MSGTYPE \<equiv> 0x00"
abbreviation (input) "PTP_FOLLOW_MSGTYPE \<equiv> 0x08"
abbreviation (input) "PTP_DLYREQ_MSGTYPE \<equiv> 0x01"
abbreviation (input) "PTP_DLYRPLY_MSGTYPE \<equiv> 0x09"
abbreviation (input) "PTP_BROADCAST_MAC \<equiv> [0xFF, 0xFF, 0xFF, 0xFF, 0xFF, 0xFF] :: u8 list"
abbreviation (input) "FLAG_PTP_TWO_STEP_MASK \<equiv> 0x0200 :: u16"
abbreviation (input) "FLAG_PTP_UNICAST_MASK \<equiv> 0x400 :: u16"
abbreviation (input) "PTP_EVENT_PORT \<equiv> 319 :: u16"
abbreviation (input) "PTP_GENERAL_PORT \<equiv> 320 :: u16"


section \<open>Offset and delay\<close>




definition ptp_filter_clockport :: "u8 list \<Rightarrow> u16 \<Rightarrow> u8 list \<Rightarrow> u16 \<Rightarrow> u8" where
  "ptp_filter_clockport sourceId sourcePortId matchId matchPortId =
     (if (\<forall>i \<in> set [0..<8]. sourceId ! i = matchId ! i) \<and> sourcePortId = matchPortId then 1 else 0)"

section \<open>Sending\<close>

text \<open>The header fields that every message gets.\<close>

definition ptp_fill_header :: "ptp_port_info \<Rightarrow> u32 \<Rightarrow> u32 \<Rightarrow> ptp_msg \<Rightarrow> ptp_msg" where
  "ptp_fill_header info seqId msgType m =
     (let m = put_bytes at_sequenceId (bytes_16 (ucast seqId)) m;
          m = put_bytes at_msgType [ucast msgType] m;
          m = put_bytes at_version [0x02] m;
          m = put_bytes at_flagField (bytes_16 (field_16 m at_flagField OR FLAG_PTP_TWO_STEP_MASK)) m;
          m = put_bytes at_flagField (bytes_16 (field_16 m at_flagField OR FLAG_PTP_UNICAST_MASK)) m;
          m = put_bytes at_correctionField (replicate 8 0) m;
          m = put_bytes at_portIdentity (map ((!) (clockId info)) [0..<8]) m;
          m = put_bytes at_portId (bytes_16 (port_id info)) m
      in put_bytes at_logMessageInterval [port_syncInterval info] m)"




section \<open>Receiving\<close>






section \<open>The clock\<close>

definition get_ptp_nanos :: "u32 \<Rightarrow> ptp_state \<Rightarrow> u64 \<times> ptp_state" where
  "get_ptp_nanos base s =
     (let (sec, s) = ptp_rd base RTC_TIME_SEC s; (ns, s) = ptp_rd base RTC_TIME_NS s
      in (1000000000 * ucast sec + ucast ns, s))"

definition get_ptp_secs :: "u32 \<Rightarrow> ptp_state \<Rightarrow> u32 \<times> ptp_state" where
  "get_ptp_secs base s = ptp_rd base RTC_TIME_SEC s"

definition get_rx_timestamp_nanos :: "u32 \<Rightarrow> ptp_state \<Rightarrow> u64 \<times> ptp_state" where
  "get_rx_timestamp_nanos base s =
     (let (sec, s) = ptp_rd base PTP_RXCHAN_TIMESTAMP_SEC s; (ns, s) = ptp_rd base PTP_RXCHAN_TIMESTAMP_NS s
      in (1000000000 * ucast sec + ucast ns, s))"

definition get_tx_timestamp_nanos :: "u32 \<Rightarrow> ptp_state \<Rightarrow> u64 \<times> ptp_state" where
  "get_tx_timestamp_nanos base s =
     (let (sec, s) = ptp_rd base PTP_TXCHAN_TIMESTAMP_SEC s; (ns, s) = ptp_rd base PTP_TXCHAN_TIMESTAMP_NS s
      in (1000000000 * ucast sec + ucast ns, s))"

section \<open>Fields after writes\<close>

lemma length_put_bytes [simp]: "off + length bs \<le> length m \<Longrightarrow> length (put_bytes off bs m) = length m"
  by (simp add: put_bytes_def)


lemma length_bytes [simp]: "length (bytes_16 v) = 2" "length (bytes_32 w) = 4"
  by (simp_all add: bytes_16_def bytes_32_def)




section \<open>What is sent\<close>

lemma length_fill_header [simp]: "length m = 56 \<Longrightarrow> length (ptp_fill_header info seqId msgType m) = 56"
  by (simp add: ptp_fill_header_def Let_def)








section \<open>Messages on the cable\<close>






section \<open>What the slave computes\<close>



section \<open>The steps of the exchange\<close>






















end
