(* ===== verification/Mp_Lock.thy ===== *)
theory Mp_Lock
  imports C_Prelude
begin

text \<open>
  The lock of the message passing library (libmp/lock.c): a bakery lock of two cores that see each
  other only through words copied over the network-on-chip. Every statement of
  \<open>acquire_lock\<close> and \<open>release_lock\<close> is a step of its core, a started transfer arrives at some later
  step of the network, and the steps of both cores and of the network interleave freely.
\<close>

section \<open>The lock and the place a core has reached\<close>

record lock_t =
  remote_entering :: u32
  remote_number :: u32
  local_entering :: u32
  local_number :: u32
  remote_cpuid :: u8

definition initialize_lock :: "u8 \<Rightarrow> lock_t" where
  "initialize_lock remote =
     \<lparr>remote_entering = 0, remote_number = 0, local_entering = 0, local_number = 0, remote_cpuid = remote\<rparr>"

text \<open>The field a transfer copies into the lock of the other core.\<close>

datatype lock_field = Entering | Number

text \<open>
  The next statement of a core: outside, in \<open>acquire_lock\<close> (in the order of the code), holding the
  lock, in \<open>release_lock\<close>.
\<close>

datatype lock_point =
    Outside
  | Send_Entering | Await_Entering | Choose | Store_Number | Send_Number | Await_Number
  | Clear_Entering | Send_Cleared | Await_Remote | Read_Remote | Test_Remote
  | Holding
  | Send_Release | Await_Release

record lock_core =
  lock :: lock_t
  point :: lock_point
  transfer :: "lock_field option"
  var_n :: u32
  var_m :: u32

definition lock_idle :: "u8 \<Rightarrow> lock_core" where
  "lock_idle remote = \<lparr>lock = initialize_lock remote, point = Outside, transfer = None, var_n = 0, var_m = 0\<rparr>"

text \<open>
  \<open>noc_write\<close> repeats \<open>noc_nbwrite\<close> until the transfer unit of the other core is free, so the
  statement is left when no transfer is under way, and has then started its own.
\<close>

definition lock_send :: "lock_field \<Rightarrow> lock_point \<Rightarrow> lock_core \<Rightarrow> lock_core" where
  "lock_send f p c = (if transfer c = None then c\<lparr>transfer := Some f, point := p\<rparr> else c)"

definition lock_await :: "lock_point \<Rightarrow> lock_core \<Rightarrow> lock_core" where
  "lock_await p c = (if transfer c = None then c\<lparr>point := p\<rparr> else c)"

text \<open>The condition on which a core keeps waiting for the other.\<close>

definition must_wait :: "u8 \<Rightarrow> lock_core \<Rightarrow> bool" where
  "must_wait me c \<longleftrightarrow>
     var_m c \<noteq> 0 \<and> (var_m c < var_n c \<or> (var_m c = var_n c \<and> remote_cpuid (lock c) < me))"

fun acquire_step :: "u8 \<Rightarrow> lock_core \<Rightarrow> lock_core" where
  "acquire_step me c =
     (case point c of
        Outside \<Rightarrow> c\<lparr>lock := (lock c)\<lparr>local_entering := 1\<rparr>, point := Send_Entering\<rparr>
      | Send_Entering \<Rightarrow> lock_send Entering Await_Entering c
      | Await_Entering \<Rightarrow> lock_await Choose c
      | Choose \<Rightarrow> c\<lparr>var_n := remote_number (lock c) + 1, point := Store_Number\<rparr>
      | Store_Number \<Rightarrow> c\<lparr>lock := (lock c)\<lparr>local_number := var_n c\<rparr>, point := Send_Number\<rparr>
      | Send_Number \<Rightarrow> lock_send Number Await_Number c
      | Await_Number \<Rightarrow> lock_await Clear_Entering c
      | Clear_Entering \<Rightarrow> c\<lparr>lock := (lock c)\<lparr>local_entering := 0\<rparr>, point := Send_Cleared\<rparr>
      | Send_Cleared \<Rightarrow> lock_send Entering Await_Remote c
      | Await_Remote \<Rightarrow> if remote_entering (lock c) = 1 then c else c\<lparr>point := Read_Remote\<rparr>
      | Read_Remote \<Rightarrow> c\<lparr>var_m := remote_number (lock c), point := Test_Remote\<rparr>
      | Test_Remote \<Rightarrow> if must_wait me c then c\<lparr>point := Read_Remote\<rparr> else c\<lparr>point := Holding\<rparr>
      | _ \<Rightarrow> c)"

fun release_step :: "lock_core \<Rightarrow> lock_core" where
  "release_step c =
     (case point c of
        Holding \<Rightarrow> c\<lparr>lock := (lock c)\<lparr>local_number := 0\<rparr>, point := Send_Release\<rparr>
      | Send_Release \<Rightarrow> lock_send Number Await_Release c
      | Await_Release \<Rightarrow> lock_await Outside c
      | _ \<Rightarrow> c)"

definition core_step :: "u8 \<Rightarrow> lock_core \<Rightarrow> lock_core" where
  "core_step me c =
     (if point c \<in> {Holding, Send_Release, Await_Release} then release_step c else acquire_step me c)"

text \<open>The arrival of a transfer: the word as it is in the sender's memory now.\<close>

definition arrive :: "lock_t \<Rightarrow> lock_field \<Rightarrow> lock_t \<Rightarrow> lock_t" where
  "arrive from f l =
     (case f of
        Entering \<Rightarrow> l\<lparr>remote_entering := local_entering from\<rparr>
      | Number \<Rightarrow> l\<lparr>remote_number := local_number from\<rparr>)"

section \<open>The system\<close>

type_synonym lock_system = "u8 \<Rightarrow> lock_core"

datatype lock_action = Core u8 | Network u8

fun lock_act :: "lock_action \<Rightarrow> lock_system \<Rightarrow> lock_system" where
  "lock_act (Core c) s = s(c := core_step c (s c))"
| "lock_act (Network c) s =
     (case transfer (s c) of
        None \<Rightarrow> s
      | Some f \<Rightarrow>
          (let d = remote_cpuid (lock (s c)); s' = s(c := (s c)\<lparr>transfer := None\<rparr>)
           in s'(d := (s' d)\<lparr>lock := arrive (lock (s c)) f (lock (s' d))\<rparr>)))"

definition lock_run :: "lock_action list \<Rightarrow> lock_system \<Rightarrow> lock_system" where
  "lock_run acts s = fold lock_act acts s"

definition lock_start :: "u8 \<Rightarrow> u8 \<Rightarrow> lock_system" where
  "lock_start p q = (\<lambda>c. if c = p then lock_idle q else lock_idle p)"

text \<open>
  The steps of the system. The number a core chooses is one more than the number of the other
  core; the choice that would wrap around to 0 is left out of the relation.
\<close>

definition number_wraps :: "lock_core \<Rightarrow> bool" where
  "number_wraps c \<longleftrightarrow> point c = Choose \<and> remote_number (lock c) = - 1"

inductive lock_step :: "u8 \<Rightarrow> u8 \<Rightarrow> lock_system \<Rightarrow> lock_system \<Rightarrow> bool" for p q where
  core: "c = p \<or> c = q \<Longrightarrow> \<not> number_wraps (s c) \<Longrightarrow> lock_step p q s (lock_act (Core c) s)"
| network: "c = p \<or> c = q \<Longrightarrow> lock_step p q s (lock_act (Network c) s)"

declare lock_act.simps [simp del]

inductive_cases lock_stepE: "lock_step p q s s'"

inductive lock_reach :: "u8 \<Rightarrow> u8 \<Rightarrow> lock_system \<Rightarrow> bool" for p q where
  start: "lock_reach p q (lock_start p q)"
| step: "lock_reach p q s \<Longrightarrow> lock_step p q s s' \<Longrightarrow> lock_reach p q s'"

text \<open>A run is a path of the relation when none of its choices wraps.\<close>

fun safe_run :: "u8 \<Rightarrow> u8 \<Rightarrow> lock_action list \<Rightarrow> lock_system \<Rightarrow> bool" where
  "safe_run p q [] s = True"
| "safe_run p q (Core c # as) s =
     ((c = p \<or> c = q) \<and> \<not> number_wraps (s c) \<and> safe_run p q as (lock_act (Core c) s))"
| "safe_run p q (Network c # as) s =
     ((c = p \<or> c = q) \<and> safe_run p q as (lock_act (Network c) s))"

lemma safe_run_reach: "lock_reach p q s \<Longrightarrow> safe_run p q acts s \<Longrightarrow> lock_reach p q (lock_run acts s)"
proof (induction acts arbitrary: s)
  case Nil
  then show ?case by (simp add: lock_run_def)
next
  case (Cons a acts)
  have "lock_step p q s (lock_act a s) \<and> safe_run p q acts (lock_act a s)"
    using Cons.prems(2) lock_step.intros by (cases a) auto
  with Cons.IH [OF lock_reach.step [OF Cons.prems(1)]] show ?case by (simp add: lock_run_def)
qed

section \<open>The invariant\<close>

text \<open>What a core has written itself, by the place it has reached.\<close>

definition own_ok :: "lock_core \<Rightarrow> bool" where
  "own_ok c \<longleftrightarrow>
     (let e = local_entering (lock c); k = local_number (lock c); n = var_n c; t = transfer c in
      case point c of
        Outside \<Rightarrow> e = 0 \<and> k = 0 \<and> t = None
      | Send_Entering \<Rightarrow> e = 1 \<and> k = 0 \<and> t = None
      | Await_Entering \<Rightarrow> e = 1 \<and> k = 0 \<and> t \<noteq> Some Number
      | Choose \<Rightarrow> e = 1 \<and> k = 0 \<and> t = None
      | Store_Number \<Rightarrow> e = 1 \<and> k = 0 \<and> n \<noteq> 0 \<and> t = None
      | Send_Number \<Rightarrow> e = 1 \<and> k = n \<and> n \<noteq> 0 \<and> t = None
      | Await_Number \<Rightarrow> e = 1 \<and> k = n \<and> n \<noteq> 0 \<and> t \<noteq> Some Entering
      | Clear_Entering \<Rightarrow> e = 1 \<and> k = n \<and> n \<noteq> 0 \<and> t = None
      | Send_Cleared \<Rightarrow> e = 0 \<and> k = n \<and> n \<noteq> 0 \<and> t = None
      | Send_Release \<Rightarrow> e = 0 \<and> k = 0 \<and> t \<noteq> Some Number
      | Await_Release \<Rightarrow> e = 0 \<and> k = 0 \<and> t \<noteq> Some Entering
      | _ \<Rightarrow> e = 0 \<and> k = n \<and> n \<noteq> 0 \<and> t \<noteq> Some Number)"

text \<open>What the other core sees of it, by the place it has reached.\<close>

definition seen_ok :: "lock_core \<Rightarrow> lock_core \<Rightarrow> bool" where
  "seen_ok c d \<longleftrightarrow>
     (let e = remote_entering (lock d); k = remote_number (lock d); n = var_n c; t = transfer c in
      case point c of
        Outside \<Rightarrow> e = 0 \<and> k = 0
      | Send_Entering \<Rightarrow> k = 0
      | Await_Entering \<Rightarrow> k = 0 \<and> (t = None \<longrightarrow> e = 1)
      | Choose \<Rightarrow> e = 1 \<and> k = 0
      | Store_Number \<Rightarrow> e = 1 \<and> k = 0
      | Send_Number \<Rightarrow> e = 1 \<and> k = 0
      | Await_Number \<Rightarrow> e = 1 \<and> (t = None \<longrightarrow> k = n)
      | Clear_Entering \<Rightarrow> e = 1 \<and> k = n
      | Send_Cleared \<Rightarrow> e = 1 \<and> k = n
      | Await_Release \<Rightarrow> e = 0 \<and> (t = None \<longrightarrow> k = 0)
      | _ \<Rightarrow> k = n \<and> (t = None \<longrightarrow> e = 0))"

text \<open>
  Who goes first: a core that has seen the other one outside its choice of a number has a smaller
  number than any the other chooses from then on; a core that has compared numbers with a core
  that has announced its own comes first in the order of numbers, then core identifiers.
\<close>

definition choosing :: "lock_core \<Rightarrow> bool" where
  "choosing d \<longleftrightarrow> point d \<in> {Store_Number, Send_Number, Await_Number, Clear_Entering, Send_Cleared}"

definition announced :: "lock_core \<Rightarrow> bool" where
  "announced d \<longleftrightarrow> point d \<in> {Await_Remote, Read_Remote, Test_Remote, Holding}"

definition order_ok :: "u8 \<Rightarrow> lock_core \<Rightarrow> u8 \<Rightarrow> lock_core \<Rightarrow> bool" where
  "order_ok i c j d \<longleftrightarrow>
     (point c \<in> {Read_Remote, Test_Remote, Holding} \<and> choosing d \<longrightarrow> var_n c < var_n d) \<and>
     (point c = Test_Remote \<and> announced d \<longrightarrow> var_n c < var_n d \<or> var_n d = var_m c) \<and>
     (point c = Holding \<and> announced d \<longrightarrow> var_n c < var_n d \<or> (var_n c = var_n d \<and> i < j))"

definition lock_inv :: "u8 \<Rightarrow> u8 \<Rightarrow> lock_system \<Rightarrow> bool" where
  "lock_inv p q s \<longleftrightarrow>
     p \<noteq> q \<and> remote_cpuid (lock (s p)) = q \<and> remote_cpuid (lock (s q)) = p \<and>
     own_ok (s p) \<and> own_ok (s q) \<and> seen_ok (s p) (s q) \<and> seen_ok (s q) (s p) \<and>
     order_ok p (s p) q (s q) \<and> order_ok q (s q) p (s p)"

lemmas lock_inv_defs = own_ok_def seen_ok_def order_ok_def choosing_def announced_def Let_def

lemma lock_inv_swap: "lock_inv p q s \<Longrightarrow> lock_inv q p s"
  by (auto simp: lock_inv_def)

lemma lock_inv_start: "p \<noteq> q \<Longrightarrow> lock_inv p q (lock_start p q)"
  by (simp add: lock_inv_def lock_inv_defs lock_start_def lock_idle_def initialize_lock_def)

lemma chosen_above: "x \<noteq> - 1 \<Longrightarrow> x < x + (1 :: 'a :: len word)"
proof -
  assume "x \<noteq> - 1"
  then have "x + 1 \<noteq> 0" by (simp add: eq_neg_iff_add_eq_0)
  then show ?thesis by (simp add: word_less_nat_alt unatSuc add.commute)
qed

section \<open>The invariant is kept\<close>

lemma core_step_fixed [state_simps]:
  "remote_cpuid (lock (core_step i c)) = remote_cpuid (lock c)"
  "remote_entering (lock (core_step i c)) = remote_entering (lock c)"
  "remote_number (lock (core_step i c)) = remote_number (lock c)"
  by (cases "point c"; simp add: core_step_def lock_send_def lock_await_def)+

lemma seen_ok_cong:
  "remote_entering (lock d) = remote_entering (lock d') \<Longrightarrow> remote_number (lock d) = remote_number (lock d') \<Longrightarrow>
    seen_ok c d = seen_ok c d'"
  by (simp add: seen_ok_def)

lemma seen_announced: "seen_ok d c \<Longrightarrow> announced d \<Longrightarrow> remote_number (lock c) = var_n d"
  by (auto simp: seen_ok_def announced_def Let_def)

lemma seen_choosing: "seen_ok d c \<Longrightarrow> choosing d \<Longrightarrow> remote_entering (lock c) = 1"
  by (auto simp: seen_ok_def choosing_def Let_def)

lemma announced_nonzero: "own_ok d \<Longrightarrow> announced d \<Longrightarrow> var_n d \<noteq> 0"
  by (auto simp: own_ok_def announced_def Let_def)

lemma chooses_above:
  "seen_ok d c \<Longrightarrow> point d \<in> {Read_Remote, Test_Remote, Holding} \<Longrightarrow> \<not> number_wraps c \<Longrightarrow> point c = Choose \<Longrightarrow>
    var_n d < remote_number (lock c) + 1"
  using chosen_above [of "remote_number (lock c)"]
  by (auto simp: number_wraps_def seen_ok_def Let_def)

lemma own_ok_core: "own_ok c \<Longrightarrow> \<not> number_wraps c \<Longrightarrow> own_ok (core_step i c)"
  using chosen_above [of "remote_number (lock c)"]
  by (cases "point c") (auto simp: number_wraps_def own_ok_def core_step_def lock_send_def lock_await_def Let_def)

lemma seen_ok_core: "own_ok c \<Longrightarrow> seen_ok c d \<Longrightarrow> seen_ok (core_step i c) d"
  by (cases "point c") (auto simp: own_ok_def seen_ok_def core_step_def lock_send_def lock_await_def Let_def)

lemma order_ok_core:
  assumes "own_ok d" and "seen_ok d c" and "order_ok i c j d" and "remote_cpuid (lock c) = j" and "i \<noteq> j"
  shows "order_ok i (core_step i c) j d"
proof (cases "point c")
  case Test_Remote
  with assms announced_nonzero [OF assms(1)] show ?thesis
    by (auto simp: order_ok_def core_step_def must_wait_def not_less neq_iff)
next
  case Await_Remote
  with assms seen_choosing [OF assms(2)] show ?thesis by (auto simp: order_ok_def core_step_def)
next
  case Read_Remote
  with assms seen_announced [OF assms(2)] show ?thesis by (auto simp: order_ok_def core_step_def)
qed (use assms in \<open>simp_all add: order_ok_def core_step_def lock_send_def lock_await_def\<close>)

lemma order_ok_other:
  assumes "own_ok c" and "seen_ok c d" and "seen_ok d c" and "order_ok j d i c" and "\<not> number_wraps c"
  shows "order_ok j d i (core_step i c)"
proof (cases "point c")
  case Choose
  with assms chooses_above [OF assms(3) _ assms(5)] show ?thesis
    by (auto simp: order_ok_def core_step_def choosing_def announced_def)
next
  case Send_Cleared
  with assms show ?thesis
    by (auto simp: order_ok_def core_step_def choosing_def announced_def lock_send_def)
qed (use assms in \<open>auto simp: order_ok_def core_step_def choosing_def announced_def lock_send_def lock_await_def\<close>)

lemma lock_inv_core:
  assumes inv: "lock_inv p q s" and wrap: "\<not> number_wraps (s p)"
  shows "lock_inv p q (lock_act (Core p) s)"
  using assms own_ok_core [of "s p" p] seen_ok_core [of "s p" "s q" p]
    order_ok_core [of "s q" "s p" p q] order_ok_other [of "s p" "s q" q p]
    seen_ok_cong [of "core_step p (s p)" "s p" "s q"]
  by (auto simp: lock_inv_def core_step_fixed lock_act.simps)

text \<open>An arriving transfer changes what the other core sees, and nothing else.\<close>

lemma lock_act_network:
  assumes "p \<noteq> q" and "remote_cpuid (lock (s p)) = q" and "transfer (s p) = Some f"
  shows "lock_act (Network p) s =
    s(p := (s p)\<lparr>transfer := None\<rparr>, q := (s q)\<lparr>lock := arrive (lock (s p)) f (lock (s q))\<rparr>)"
  using assms by (simp add: lock_act.simps Let_def)

lemma arrive_own [state_simps]:
  "local_entering (arrive l f l') = local_entering l'" "local_number (arrive l f l') = local_number l'"
  "remote_cpuid (arrive l f l') = remote_cpuid l'"
  by (simp_all add: arrive_def split: lock_field.split)

lemma own_ok_network:
  "own_ok c \<Longrightarrow> own_ok (c\<lparr>transfer := None\<rparr>)" "own_ok d \<Longrightarrow> own_ok (d\<lparr>lock := arrive l f (lock d)\<rparr>)"
  by (cases "point c"; simp add: own_ok_def Let_def) (simp add: own_ok_def state_simps)

lemma seen_ok_network:
  assumes "own_ok c" and "seen_ok c d" and "transfer c = Some f"
  shows "seen_ok (c\<lparr>transfer := None\<rparr>) (d\<lparr>lock := arrive (lock c) f (lock d)\<rparr>)"
  using assms by (cases "point c"; cases f) (simp_all add: own_ok_def seen_ok_def arrive_def Let_def)

lemma seen_ok_network_other:
  "seen_ok d c \<Longrightarrow> seen_ok (d\<lparr>lock := l\<rparr>) (c\<lparr>transfer := t\<rparr>)"
  by (simp add: seen_ok_def)

lemma order_ok_network:
  "order_ok i c j d \<Longrightarrow> order_ok i (c\<lparr>transfer := t\<rparr>) j (d\<lparr>lock := l\<rparr>)"
  "order_ok j d i c \<Longrightarrow> order_ok j (d\<lparr>lock := l\<rparr>) i (c\<lparr>transfer := t\<rparr>)"
  by (simp_all add: order_ok_def choosing_def announced_def)

lemma lock_inv_network:
  assumes inv: "lock_inv p q s"
  shows "lock_inv p q (lock_act (Network p) s)"
proof (cases "transfer (s p)")
  case None
  with inv show ?thesis by (simp add: lock_act.simps)
next
  case (Some f)
  with inv have "lock_act (Network p) s =
      s(p := (s p)\<lparr>transfer := None\<rparr>, q := (s q)\<lparr>lock := arrive (lock (s p)) f (lock (s q))\<rparr>)"
    by (intro lock_act_network) (auto simp: lock_inv_def)
  moreover have "seen_ok (s q) (s p) \<Longrightarrow> seen_ok (s q\<lparr>lock := l\<rparr>) (s p\<lparr>transfer := None\<rparr>)" for l
    by (rule seen_ok_network_other)
  ultimately show ?thesis
    using inv Some by (simp add: lock_inv_def own_ok_network seen_ok_network seen_ok_network_other order_ok_network state_simps)
qed

lemma lock_inv_step: "lock_step p q s s' \<Longrightarrow> lock_inv p q s \<Longrightarrow> lock_inv p q s'"
  by (elim lock_stepE; elim disjE; hypsubst)
    (blast intro: lock_inv_core lock_inv_network lock_inv_swap)+

lemma lock_reach_inv:
  assumes "lock_reach p q s" and "p \<noteq> q"
  shows "lock_inv p q s"
  using assms(1)
proof induction
  case start
  show ?case using assms(2) by (rule lock_inv_start)
next
  case (step s s')
  from step.hyps(2) step.IH show ?case by (rule lock_inv_step)
qed

lemma holding_exclusive:
  assumes "lock_inv p q s"
  shows "\<not> (point (s p) = Holding \<and> point (s q) = Holding)"
proof
  assume h: "point (s p) = Holding \<and> point (s q) = Holding"
  with assms have "order_ok p (s p) q (s q)" "order_ok q (s q) p (s p)" by (simp_all add: lock_inv_def)
  with h show False unfolding order_ok_def announced_def by auto
qed

text \<open>
  Of two cores that compare their numbers, one goes ahead when it looks again: no deadlock.
\<close>

lemma reads_and_tests:
  assumes "point (s p) = Read_Remote"
  shows "point (lock_run [Core p, Core p] s p) = Holding \<longleftrightarrow>
    \<not> must_wait p ((s p)\<lparr>var_m := remote_number (lock (s p))\<rparr>)"
  using assms by (simp add: lock_run_def lock_act.simps core_step_def must_wait_def)

lemma one_goes_ahead:
  assumes inv: "lock_inv p q s" and "point (s p) = Read_Remote" and "point (s q) = Read_Remote"
  shows "\<exists>c \<in> {p, q}. point (lock_run [Core c, Core c] s c) = Holding"
proof -
  have a: "announced (s p)" "announced (s q)" using assms by (simp_all add: announced_def)
  have seen: "seen_ok (s p) (s q)" "seen_ok (s q) (s p)" using inv by (simp_all add: lock_inv_def)
  have n: "remote_number (lock (s p)) = var_n (s q)" "remote_number (lock (s q)) = var_n (s p)"
    by (rule seen_announced [OF seen(2) a(2)], rule seen_announced [OF seen(1) a(1)])
  have r: "remote_cpuid (lock (s p)) = q" "remote_cpuid (lock (s q)) = p" using inv by (simp_all add: lock_inv_def)
  have "\<not> must_wait p ((s p)\<lparr>var_m := var_n (s q)\<rparr>) \<or> \<not> must_wait q ((s q)\<lparr>var_m := var_n (s p)\<rparr>)"
    unfolding must_wait_def by (simp add: r) (metis order_less_asym)
  with reads_and_tests [of s p] reads_and_tests [of s q] assms(2,3) show ?thesis
    unfolding n by (meson insertI1 insertI2)
qed

section \<open>Handing the lock over\<close>

text \<open>The core \<open>p\<close> holds the lock with number \<open>k\<close>, the other one is outside, the network is quiet.\<close>

definition holds_alone :: "u8 \<Rightarrow> u8 \<Rightarrow> u32 \<Rightarrow> lock_system \<Rightarrow> bool" where
  "holds_alone p q k s \<longleftrightarrow>
     lock (s p) = \<lparr>remote_entering = 0, remote_number = 0, local_entering = 0, local_number = k, remote_cpuid = q\<rparr> \<and>
     point (s p) = Holding \<and> transfer (s p) = None \<and> var_n (s p) = k \<and>
     lock (s q) = \<lparr>remote_entering = 0, remote_number = k, local_entering = 0, local_number = 0, remote_cpuid = p\<rparr> \<and>
     point (s q) = Outside \<and> transfer (s q) = None"

text \<open>The actions of a core, and of the network for it, from outside up to the announced number.\<close>

definition announce :: "u8 \<Rightarrow> lock_action list" where
  "announce c =
     [Core c, Core c, Network c, Core c, Core c, Core c, Core c, Network c, Core c, Core c, Core c, Network c, Core c]"

definition leave :: "u8 \<Rightarrow> lock_action list" where
  "leave c = [Core c, Core c, Network c, Core c]"

lemmas lock_exec = lock_run_def lock_act.simps core_step_def lock_send_def lock_await_def arrive_def Let_def

lemma run_announce:
  assumes "p \<noteq> q"
    and "lock (s q) = \<lparr>remote_entering = 0, remote_number = k, local_entering = 0, local_number = 0, remote_cpuid = p\<rparr>"
    and "point (s q) = Outside" and "transfer (s q) = None"
  shows "lock_run (announce q) s =
    s(q := (s q)\<lparr>lock := (lock (s q))\<lparr>local_number := k + 1\<rparr>, point := Read_Remote, var_n := k + 1\<rparr>,
      p := (s p)\<lparr>lock := (lock (s p))\<lparr>remote_entering := 0, remote_number := k + 1\<rparr>\<rparr>)"
  using assms by (simp add: announce_def lock_exec fun_eq_iff)


lemma run_append: "lock_run (as @ bs) s = lock_run bs (lock_run as s)"
  by (simp add: lock_run_def)

lemma run_leave:
  assumes "p \<noteq> q" and "point (s p) = Holding" and "transfer (s p) = None" and "remote_cpuid (lock (s p)) = q"
  shows "lock_run (leave p) s =
    s(p := (s p)\<lparr>lock := (lock (s p))\<lparr>local_number := 0\<rparr>, point := Outside\<rparr>,
      q := (s q)\<lparr>lock := (lock (s q))\<lparr>remote_number := 0\<rparr>\<rparr>)"
  using assms by (simp add: leave_def lock_exec fun_eq_iff)

lemma handover:
  assumes "p \<noteq> q" and "holds_alone p q k s"
  shows "holds_alone q p (k + 1) (lock_run (announce q @ leave p @ [Core q, Core q]) s)"
proof -
  note h = assms(2) [unfolded holds_alone_def]
  define s1 where "s1 = lock_run (announce q) s"
  define s2 where "s2 = lock_run (leave p) s1"
  have s1: "s1 = s(q := (s q)\<lparr>lock := (lock (s q))\<lparr>local_number := k + 1\<rparr>, point := Read_Remote, var_n := k + 1\<rparr>,
      p := (s p)\<lparr>lock := (lock (s p))\<lparr>remote_entering := 0, remote_number := k + 1\<rparr>\<rparr>)"
    unfolding s1_def by (rule run_announce [OF assms(1)]) (use h in simp_all)
  have s2: "s2 = s1(p := (s1 p)\<lparr>lock := (lock (s1 p))\<lparr>local_number := 0\<rparr>, point := Outside\<rparr>,
      q := (s1 q)\<lparr>lock := (lock (s1 q))\<lparr>remote_number := 0\<rparr>\<rparr>)"
    unfolding s2_def by (rule run_leave [OF assms(1)]) (use h assms(1) in \<open>simp_all add: s1\<close>)
  have "holds_alone q p (k + 1) (lock_run [Core q, Core q] s2)"
    using h assms(1) by (simp add: s2 s1 holds_alone_def lock_exec must_wait_def)
  then show ?thesis by (simp add: run_append s2_def s1_def)
qed

lemma first_acquire:
  assumes "p \<noteq> q"
  shows "holds_alone p q 1 (lock_run (announce p @ [Core p, Core p]) (lock_start p q))"
proof -
  have r: "lock_run (announce p) (lock_start p q) =
      (lock_start p q)(p := (lock_start p q p)\<lparr>lock := (lock (lock_start p q p))\<lparr>local_number := 0 + 1\<rparr>, point := Read_Remote, var_n := 0 + 1\<rparr>,
        q := (lock_start p q q)\<lparr>lock := (lock (lock_start p q q))\<lparr>remote_entering := 0, remote_number := 0 + 1\<rparr>\<rparr>)"
    by (rule run_announce) (use assms in \<open>simp_all add: lock_start_def lock_idle_def initialize_lock_def\<close>)
  show ?thesis unfolding run_append r
    using assms by (simp add: holds_alone_def lock_exec must_wait_def lock_start_def lock_idle_def initialize_lock_def)
qed

lemma handover_safe:
  assumes "p \<noteq> q" and "holds_alone p q k s" and "k \<noteq> - 1"
  shows "safe_run p q (announce q @ leave p @ [Core q, Core q]) s"
  using assms by (simp add: announce_def leave_def holds_alone_def lock_exec number_wraps_def must_wait_def)

lemma safe_run_swap: "safe_run p q as s = safe_run q p as s"
  by (induction p q as s rule: safe_run.induct) auto

lemma safe_run_append: "safe_run p q (as @ bs) s \<longleftrightarrow> safe_run p q as s \<and> safe_run p q bs (lock_run as s)"
  by (induction p q as s rule: safe_run.induct) (simp_all add: lock_run_def)

text \<open>
  The core \<open>p\<close> acquires the lock, which is then handed over \<open>n\<close> times: the other core announces its number
  while the first still holds the lock, the first leaves, the other goes ahead.
\<close>

fun handover_run :: "u8 \<Rightarrow> u8 \<Rightarrow> nat \<Rightarrow> lock_action list" where
  "handover_run p q 0 = announce p @ [Core p, Core p]"
| "handover_run p q (Suc n) = handover_run p q n @
     (if even n then announce q @ leave p @ [Core q, Core q] else announce p @ leave q @ [Core p, Core p])"

lemma handovers_safe:
  assumes "p \<noteq> q" and "n < 2 ^ 32 - 1"
  shows "safe_run p q (handover_run p q n) (lock_start p q) \<and>
    (let s = lock_run (handover_run p q n) (lock_start p q); k = 1 + of_nat n
     in if even n then holds_alone p q k s else holds_alone q p k s)"
  using assms(2)
proof (induction n)
  case 0
  have "safe_run p q (announce p @ [Core p, Core p]) (lock_start p q)"
    using assms(1) by (simp add: announce_def lock_exec number_wraps_def must_wait_def lock_start_def lock_idle_def initialize_lock_def)
  with first_acquire [OF assms(1)] show ?case by simp
next
  case (Suc n)
  let ?s = "lock_run (handover_run p q n) (lock_start p q)" and ?k = "1 + of_nat n :: u32"
  have "unat ?k = 1 + n" using Suc.prems by (simp add: unat_word_ariths unat_of_nat)
  moreover have "unat (- 1 :: u32) = 2 ^ 32 - 1" by (simp add: unsigned_minus_1_eq_mask mask_eq_exp_minus_1)
  ultimately have k: "?k \<noteq> - 1" using Suc.prems by (metis Suc_eq_plus1_left less_irrefl)
  from Suc have IH: "safe_run p q (handover_run p q n) (lock_start p q)"
    "if even n then holds_alone p q ?k ?s else holds_alone q p ?k ?s" by (simp_all add: Let_def)
  show ?case
  proof (cases "even n")
    case True
    with IH(2) have h: "holds_alone p q ?k ?s" by simp
    show ?thesis
      using True IH(1) handover [OF assms(1) h] handover_safe [OF assms(1) h k]
      by (simp add: Let_def safe_run_append run_append ac_simps)
  next
    case False
    with IH(2) have h: "holds_alone q p ?k ?s" by simp
    show ?thesis
      using False IH(1) handover [OF assms(1) [symmetric] h] handover_safe [OF assms(1) [symmetric] h k]
      by (simp add: Let_def safe_run_append run_append safe_run_swap [of p q] ac_simps)
  qed
qed

text \<open>
  At the largest number the next core chooses 0, which reads as not competing, and goes ahead
  while the first still holds the lock.
\<close>

lemma wrap_breaks:
  assumes "p \<noteq> q" and "holds_alone p q (- 1) s"
  shows "let s' = lock_run (announce q @ [Core q, Core q]) s
    in point (s' p) = Holding \<and> point (s' q) = Holding \<and> local_number (lock (s' q)) = 0"
proof -
  note h = assms(2) [unfolded holds_alone_def]
  have r: "lock_run (announce q) s =
      s(q := (s q)\<lparr>lock := (lock (s q))\<lparr>local_number := - 1 + 1\<rparr>, point := Read_Remote, var_n := - 1 + 1\<rparr>,
        p := (s p)\<lparr>lock := (lock (s p))\<lparr>remote_entering := 0, remote_number := - 1 + 1\<rparr>\<rparr>)"
    by (rule run_announce [OF assms(1)]) (use h in simp_all)
  show ?thesis unfolding run_append r Let_def
    using h assms(1) by (simp add: lock_exec must_wait_def)
qed

lemma last_number:
  assumes "p \<noteq> q"
  shows "safe_run p q (handover_run p q (2 ^ 32 - 2)) (lock_start p q)"
    and "holds_alone p q (- 1) (lock_run (handover_run p q (2 ^ 32 - 2)) (lock_start p q))"
proof -
  have n: "(2 ^ 32 - 2 :: nat) < 2 ^ 32 - 1" "even (2 ^ 32 - 2 :: nat)" by simp_all
  have "1 + of_nat (2 ^ 32 - 2) = (- 1 :: u32)" by (simp add: word_eq_iff_unsigned)
  with handovers_safe [OF assms n(1)] n(2)
  show "safe_run p q (handover_run p q (2 ^ 32 - 2)) (lock_start p q)"
    and "holds_alone p q (- 1) (lock_run (handover_run p q (2 ^ 32 - 2)) (lock_start p q))"
    by (simp_all only: Let_def if_True)
qed

text \<open>Core 0 holds the lock while core 1 has announced the number 2 and looks at core 0.\<close>

definition contended_run :: "lock_action list" where
  "contended_run = announce 0 @ [Core 0, Core 0] @ announce 1"

lemma contended_run_safe: "safe_run 0 1 contended_run (lock_start 0 1)"
  by (simp add: contended_run_def announce_def lock_exec number_wraps_def must_wait_def lock_start_def lock_idle_def initialize_lock_def)

lemma contended_run_points:
  "point (lock_run contended_run (lock_start 0 1) 0) = Holding \<and>
   point (lock_run contended_run (lock_start 0 1) 1) = Read_Remote"
  by (simp add: contended_run_def announce_def lock_exec must_wait_def lock_start_def lock_idle_def initialize_lock_def)

text \<open>Both cores have announced a number and are about to compare.\<close>

definition rival_run :: "lock_action list" where
  "rival_run = announce 0 @ announce 1"

lemma rival_run_safe: "safe_run 0 1 rival_run (lock_start 0 1)"
  by (simp add: rival_run_def announce_def lock_exec number_wraps_def must_wait_def lock_start_def lock_idle_def initialize_lock_def)

lemma rival_run_points:
  "point (lock_run rival_run (lock_start 0 1) 0) = Read_Remote \<and>
   point (lock_run rival_run (lock_start 0 1) 1) = Read_Remote"
  by (simp add: rival_run_def announce_def lock_exec must_wait_def lock_start_def lock_idle_def initialize_lock_def)

section \<open>Properties\<close>

text \<open>C6: In every interleaving of two cores and the network the bakery lock is held by one core at
  most, as long as no chosen number wraps around, and of two cores that compare their numbers one
  goes ahead. Without that bound the exclusion is lost. After 2^32 - 2 handovers, in each of which a core
  takes its number while the other still holds the lock, the holder has the number 2^32 - 1, and all was
  within the bound; the next core then chooses 0, which reads as not competing, and holds the lock too.\<close>

theorem lock_mutual_exclusion:
  assumes "p \<noteq> q"
  shows "(\<forall>s. lock_reach p q s \<longrightarrow>
      \<not> (point (s p) = Holding \<and> point (s q) = Holding) \<and>
      (point (s p) = Read_Remote \<and> point (s q) = Read_Remote \<longrightarrow>
        (\<exists>c \<in> {p, q}. point (lock_run [Core c, Core c] s c) = Holding))) \<and>
    (let s = lock_run (handover_run p q (2 ^ 32 - 2)) (lock_start p q);
         s' = lock_run (announce q @ [Core q, Core q]) s
     in lock_reach p q s \<and>
        point (s p) = Holding \<and> point (s q) = Outside \<and> local_number (lock (s p)) = - 1 \<and>
        point (s' p) = Holding \<and> point (s' q) = Holding \<and> local_number (lock (s' q)) = 0)"
proof (rule conjI)
  show "\<forall>s. lock_reach p q s \<longrightarrow>
      \<not> (point (s p) = Holding \<and> point (s q) = Holding) \<and>
      (point (s p) = Read_Remote \<and> point (s q) = Read_Remote \<longrightarrow>
        (\<exists>c \<in> {p, q}. point (lock_run [Core c, Core c] s c) = Holding))"
    using lock_reach_inv [OF _ assms] holding_exclusive one_goes_ahead by blast
  define s where "s = lock_run (handover_run p q (2 ^ 32 - 2)) (lock_start p q)"
  note h = last_number [OF assms, folded s_def]
  have "lock_reach p q s" unfolding s_def by (rule safe_run_reach [OF lock_reach.start h(1)])
  moreover have "point (s p) = Holding" "point (s q) = Outside" "local_number (lock (s p)) = - 1"
    using h(2) by (simp_all add: holds_alone_def)
  ultimately show "let s = lock_run (handover_run p q (2 ^ 32 - 2)) (lock_start p q);
         s' = lock_run (announce q @ [Core q, Core q]) s
     in lock_reach p q s \<and>
        point (s p) = Holding \<and> point (s q) = Outside \<and> local_number (lock (s p)) = - 1 \<and>
        point (s' p) = Holding \<and> point (s' q) = Holding \<and> local_number (lock (s' q)) = 0"
    using wrap_breaks [OF assms h(2)] unfolding s_def [symmetric] Let_def by blast
qed

theorem lock_mutual_exclusion_witness:
  "(0 :: u8) \<noteq> 1 \<and>
   (let s = lock_run contended_run (lock_start 0 1)
    in lock_reach 0 1 s \<and> point (s 0) = Holding \<and> point (s 1) \<noteq> Holding) \<and>
   (let s = lock_run rival_run (lock_start 0 1)
    in lock_reach 0 1 s \<and> point (s 0) = Read_Remote \<and> point (s 1) = Read_Remote \<and>
      (\<exists>c \<in> {0, 1}. point (lock_run [Core c, Core c] s c) = Holding))"
proof -
  have d: "(0 :: u8) \<noteq> 1" by simp
  note r = safe_run_reach [OF lock_reach.start contended_run_safe] safe_run_reach [OF lock_reach.start rival_run_safe]
  note t = conjunct1 [OF lock_mutual_exclusion [OF d], rule_format]
  show ?thesis
    unfolding Let_def using d r contended_run_points rival_run_points t [OF r(1)] t [OF r(2)] by (intro conjI) blast+
qed

end
