(* ===== verification/Noc_Driver.thy ===== *)
theory Noc_Driver
  imports C_Prelude
begin

text \<open>
  The network-on-chip driver (libnoc/noc.c and libnoc/coreset.h): sets of cores, the table of
  transfers of a core's network interface, the schedule tables, and the calls that start, await and
  broadcast transfers. A core's memory, the registers and the tables are read and written as words;
  what the network does while a call polls is an argument of the call.
\<close>

section \<open>Sets of cores\<close>

type_synonym coreset_t = u32

definition coreset_clearall :: "coreset_t \<Rightarrow> coreset_t" where
  "coreset_clearall cs = 0"

definition coreset_add :: "u32 \<Rightarrow> coreset_t \<Rightarrow> coreset_t" where
  "coreset_add core cs = cs OR push_bit (unat (core mod 32)) 1"

definition coreset_remove :: "u32 \<Rightarrow> coreset_t \<Rightarrow> coreset_t" where
  "coreset_remove core cs = cs AND NOT (push_bit (unat (core mod 32)) 1)"

definition coreset_contains :: "u32 \<Rightarrow> coreset_t \<Rightarrow> bool" where
  "coreset_contains core cs \<longleftrightarrow> cs AND push_bit (unat (core mod 32)) 1 \<noteq> 0"

definition coreset_empty :: "coreset_t \<Rightarrow> bool" where
  "coreset_empty cs \<longleftrightarrow> \<not> cs \<noteq> 0"

lemma coreset_contains_bit: "coreset_contains core cs \<longleftrightarrow> bit cs (unat (core mod 32))"
  by (simp add: coreset_contains_def and_exp_eq_0_iff_not_bit push_bit_eq_mult)

lemma core_bit_less: "unat (core mod 32 :: u32) < 32"
  by (simp add: unat_mod_distrib)

text \<open>Cores below 32 behave as elements of a set; a larger number stands for its remainder.\<close>

lemma core_bit_iff:
  "bit (push_bit (unat (d mod 32)) (1 :: u32)) (unat (c mod 32 :: u32)) \<longleftrightarrow> c mod 32 = d mod 32"
  using core_bit_less [of c] by (auto simp: push_bit_eq_mult bit_exp_iff intro: unsigned_word_eqI)

lemma coreset_contains_add:
  "coreset_contains c (coreset_add d cs) \<longleftrightarrow> c mod 32 = d mod 32 \<or> coreset_contains c cs"
  by (auto simp: coreset_contains_bit coreset_add_def bit_or_iff core_bit_iff simp del: push_bit_of_1)

lemma coreset_contains_remove:
  "coreset_contains c (coreset_remove d cs) \<longleftrightarrow> c mod 32 \<noteq> d mod 32 \<and> coreset_contains c cs"
  using core_bit_less [of c]
  by (auto simp: coreset_contains_bit coreset_remove_def bit_and_iff bit_not_iff core_bit_iff simp del: push_bit_of_1)

lemma coreset_contains_clearall [simp]: "\<not> coreset_contains c (coreset_clearall cs)"
  by (simp add: coreset_contains_def coreset_clearall_def)

lemma coreset_empty_iff: "coreset_empty cs \<longleftrightarrow> (\<forall>c < 32. \<not> coreset_contains c cs)"
proof
  assume "coreset_empty cs"
  then show "\<forall>c < 32. \<not> coreset_contains c cs" by (simp add: coreset_empty_def coreset_contains_def)
next
  assume none: "\<forall>c < 32. \<not> coreset_contains c cs"
  have "\<not> bit cs n" if "n < 32" for n
  proof -
    have u: "unat (of_nat n :: u32) = n" using that by (simp add: unat_of_nat take_bit_eq_mod)
    then have "(of_nat n :: u32) < 32" and "unat (of_nat n mod 32 :: u32) = n"
      using that by (simp_all add: word_less_nat_alt unat_mod_distrib)
    with none show ?thesis by (auto simp: coreset_contains_bit)
  qed
  then have "cs = 0" by (intro bit_word_eqI) simp
  then show "coreset_empty cs" by (simp add: coreset_empty_def)
qed

section \<open>The network interface of a core\<close>

text \<open>
  The state of a core that the driver touches: its identifier, the address its communication
  memory is mapped at, the words of that memory, the table of transfers (two words for each
  receiver), and the schedule and mode change tables.
\<close>

record noc_core =
  core_id :: u32
  spm_base :: u32
  spm :: "nat \<Rightarrow> u32"
  dma_table :: "u32 \<Rightarrow> u32"
  sched_table :: "nat \<Rightarrow> u32"
  mc_table :: "nat \<Rightarrow> u32"
  tdm_table :: "nat \<Rightarrow> u32"

definition NOC_ACTIVE_BIT :: u32 where "NOC_ACTIVE_BIT = 0x80000000"
definition NOC_PTR_WIDTH :: nat where "NOC_PTR_WIDTH = 14"
definition DATA_PKT_TYPE :: u8 where "DATA_PKT_TYPE = 0"
definition DATA_IRQ_PKT_TYPE :: u8 where "DATA_IRQ_PKT_TYPE = 2"
definition CONFIG_PKT_TYPE :: u8 where "CONFIG_PKT_TYPE = 1"
definition IRQ_PKT_TYPE :: u8 where "IRQ_PKT_TYPE = 3"

text \<open>Words of the communication memory by their addresses.\<close>

definition spm_index :: "noc_core \<Rightarrow> u32 \<Rightarrow> nat" where
  "spm_index c a = unat (a - spm_base c) div 4"

definition spm_rd :: "noc_core \<Rightarrow> u32 \<Rightarrow> u32" where
  "spm_rd c a = spm c (spm_index c a)"

definition spm_wr :: "u32 \<Rightarrow> u32 \<Rightarrow> noc_core \<Rightarrow> noc_core" where
  "spm_wr a v c = c\<lparr>spm := (spm c)(spm_index c a := v)\<rparr>"

section \<open>Transfers\<close>

definition k_noc_dma_done :: "u32 \<Rightarrow> noc_core \<Rightarrow> bool" where
  "k_noc_dma_done dma_id c \<longleftrightarrow> \<not> dma_table c (push_bit 1 dma_id + 1) AND NOC_ACTIVE_BIT \<noteq> 0"

definition k_noc_dma_clear :: "u32 \<Rightarrow> noc_core \<Rightarrow> noc_core" where
  "k_noc_dma_clear dma_id c =
     c\<lparr>dma_table := (dma_table c)(push_bit 1 dma_id + 1 := 0, push_bit 1 dma_id := 0)\<rparr>"

definition k_noc_dma_write :: "u32 \<Rightarrow> u16 \<Rightarrow> u16 \<Rightarrow> u16 \<Rightarrow> u8 \<Rightarrow> noc_core \<Rightarrow> bool \<times> noc_core" where
  "k_noc_dma_write dma_id write_ptr read_ptr sz pkt_type c =
     (if \<not> k_noc_dma_done dma_id c then (False, c)
      else if pkt_type > 3 then (False, c)
      else (True, c\<lparr>dma_table := (dma_table c)
        (push_bit 1 dma_id := push_bit NOC_PTR_WIDTH (ucast pkt_type) OR ucast write_ptr,
         push_bit 1 dma_id + 1 := NOC_ACTIVE_BIT OR push_bit NOC_PTR_WIDTH (ucast sz) OR ucast read_ptr)\<rparr>))"

definition noc_dma_write :: "u32 \<Rightarrow> u16 \<Rightarrow> u16 \<Rightarrow> u16 \<Rightarrow> u8 \<Rightarrow> noc_core \<Rightarrow> bool \<times> noc_core" where
  "noc_dma_write = k_noc_dma_write"

definition noc_dma_done :: "u32 \<Rightarrow> noc_core \<Rightarrow> bool" where
  "noc_dma_done = k_noc_dma_done"

definition noc_dma_clear :: "u32 \<Rightarrow> noc_core \<Rightarrow> noc_core" where
  "noc_dma_clear = k_noc_dma_clear"

text \<open>From bytes to words; the results are cut to the 16 bits of the parameters they are passed in.\<close>

definition to_words :: "u32 \<Rightarrow> u16" where
  "to_words x = ucast ((x + 3) div 4)"

definition noc_conf :: "u32 \<Rightarrow> u32 \<Rightarrow> u32 \<Rightarrow> u32 \<Rightarrow> noc_core \<Rightarrow> bool \<times> noc_core" where
  "noc_conf dma_id dst src sz c =
     (let wp = dst - spm_base c; rp = src - spm_base c
      in noc_dma_write dma_id (to_words wp) (to_words rp) (to_words sz) CONFIG_PKT_TYPE c)"

definition noc_irq :: "u32 \<Rightarrow> u32 \<Rightarrow> u32 \<Rightarrow> noc_core \<Rightarrow> bool \<times> noc_core" where
  "noc_irq dma_id dst src c =
     (let wp = dst - spm_base c; rp = src - spm_base c
      in noc_dma_write dma_id (to_words wp) (to_words rp) 1 IRQ_PKT_TYPE c)"

definition noc_nbwrite :: "u32 \<Rightarrow> u32 \<Rightarrow> u32 \<Rightarrow> u32 \<Rightarrow> u32 \<Rightarrow> noc_core \<Rightarrow> bool \<times> noc_core" where
  "noc_nbwrite dma_id dst src sz irq_enable c =
     (if irq_enable = 1 \<or> irq_enable = 0
      then let pkt_type = if irq_enable = 1 then DATA_IRQ_PKT_TYPE else DATA_PKT_TYPE;
               wp = dst - spm_base c; rp = src - spm_base c
           in noc_dma_write dma_id (to_words wp) (to_words rp) (to_words sz) pkt_type c
      else (False, c))"

text \<open>A call that polls: the network \<open>net\<close> goes on between two rounds.\<close>

definition noc_write ::
  "(noc_core \<Rightarrow> noc_core) \<Rightarrow> u32 \<Rightarrow> u32 \<Rightarrow> u32 \<Rightarrow> u32 \<Rightarrow> u32 \<Rightarrow> noc_core \<Rightarrow> noc_core option" where
  "noc_write net dma_id dst src sz irq_enable c =
     map_option snd
       (loop_until (\<lambda>c. let (sent, c) = noc_nbwrite dma_id dst src sz irq_enable c
                        in Some (if sent then (Some (), c) else (None, net c))) c)"

definition wait_dma :: "(noc_core \<Rightarrow> noc_core) \<Rightarrow> u32 \<Rightarrow> noc_core \<Rightarrow> noc_core option" where
  "wait_dma net dma_id c =
     map_option snd (loop_until (\<lambda>c. Some (if noc_dma_done dma_id c then (Some (), c) else (None, net c))) c)"

text \<open>One round over the receivers: those not yet served are tried again.\<close>

definition multisend_round ::
  "u32 list \<Rightarrow> u32 list \<Rightarrow> u32 \<Rightarrow> u32 \<Rightarrow> u32 \<Rightarrow> coreset_t \<times> noc_core \<Rightarrow> bool \<times> coreset_t \<times> noc_core" where
  "multisend_round dma_id dst src sz irq_enable = (\<lambda>(sent, c).
     for_loop 0 (length dma_id) (\<lambda>i (d, sent, c).
       if \<not> coreset_contains (dma_id ! i) sent
       then let (ok, c) = noc_nbwrite (dma_id ! i) (dst ! i) src sz irq_enable c
            in if ok then (d, coreset_add (dma_id ! i) sent, c) else (False, sent, c)
       else (d, sent, c)) (True, sent, c))"

definition noc_multisend ::
  "(noc_core \<Rightarrow> noc_core) \<Rightarrow> u32 list \<Rightarrow> u32 list \<Rightarrow> u32 \<Rightarrow> u32 \<Rightarrow> u32 \<Rightarrow> noc_core \<Rightarrow> noc_core option" where
  "noc_multisend net dma_id dst src sz irq_enable c =
     map_option (snd \<circ> snd)
       (loop_until (\<lambda>(sent, c).
          let (d, sent, c) = multisend_round dma_id dst src sz irq_enable (sent, c)
          in Some (if d then (Some (), sent, c) else (None, sent, net c))) (coreset_clearall 0, c))"

definition noc_multisend_cs ::
  "(noc_core \<Rightarrow> noc_core) \<Rightarrow> nat \<Rightarrow> coreset_t \<Rightarrow> u32 list \<Rightarrow> u32 \<Rightarrow> u32 \<Rightarrow> u32 \<Rightarrow> u32 \<Rightarrow> noc_core \<Rightarrow> noc_core option" where
  "noc_multisend_cs net NOC_CORES receivers dst offset src sz irq_enable c =
     map_option snd
       (for_loop 0 NOC_CORES (\<lambda>i r. do {
          (index, c) \<leftarrow> r;
          if coreset_contains (of_nat i) receivers
          then do {
            c \<leftarrow> (if of_nat i \<noteq> core_id c
                 then noc_write net (of_nat i) (dst ! index + offset) src sz irq_enable c
                 else Some c);
            Some (index + 1, c) }
          else Some (index, c) }) (Some (0 :: nat, c)))"

definition noc_wait_dma :: "(noc_core \<Rightarrow> noc_core) \<Rightarrow> nat \<Rightarrow> coreset_t \<Rightarrow> noc_core \<Rightarrow> noc_core option" where
  "noc_wait_dma net NOC_CORES receivers c =
     for_loop 0 NOC_CORES (\<lambda>i r. do {
       c \<leftarrow> r;
       if coreset_contains (of_nat i) receivers \<and> of_nat i \<noteq> core_id c
       then wait_dma net (of_nat i) c
       else Some c }) (Some c)"

section \<open>Schedules and modes\<close>

text \<open>
  \<open>find_mem_size\<close> and the \<open>test_spm_size\<close> of the message passing library probe a memory of \<open>n\<close>
  words that repeats above its end. Both run this loop, with their own code for a failure; the old
  value of a probed word is put back after the offset has been doubled.
\<close>

definition probe_pattern :: u32 where
  "probe_pattern = 0xFFEEDDCC"

fun probe_loop :: "int \<Rightarrow> nat \<Rightarrow> nat \<Rightarrow> nat \<Rightarrow> u32 \<Rightarrow> (nat \<Rightarrow> u32) \<Rightarrow> int \<times> (nat \<Rightarrow> u32)" where
  "probe_loop failure n 0 i init m = (-1, m(0 := init))"
| "probe_loop failure n (Suc rounds) i init m =
     (let tmp = m (i mod n); m = m(i mod n := 0) in
      if m 0 = 0 then (int i * 4, m(i mod n := tmp, 0 := init))
      else let i = 2 * i in
        if m 0 \<noteq> probe_pattern then (failure, m(i mod n := tmp, 0 := init))
        else probe_loop failure n rounds i init (m(i mod n := tmp)))"

definition find_mem_size :: "nat \<Rightarrow> (nat \<Rightarrow> u32) \<Rightarrow> int \<times> (nat \<Rightarrow> u32)" where
  "find_mem_size n m = probe_loop (-1) n 28 2 (m 0) (m(0 := probe_pattern))"

text \<open>
  Loading the schedules of all modes. The generated tables (\<open>init_array\<close>, the numbers of modes,
  cores, tables and entries) are arguments. An entry count is cut to 16 bits; the size found is
  compared as an unsigned number.
\<close>

definition load_mode ::
  "(nat \<Rightarrow> u32) \<Rightarrow> nat \<Rightarrow> u32 \<Rightarrow> nat \<Rightarrow> u32 \<Rightarrow> noc_core \<Rightarrow> (u32 \<times> noc_core) option" where
  "load_mode init_array stride table_size j conf_base c =
     (let mode_idx = j * stride;
          entries = (ucast (ucast (init_array mode_idx) :: u16) :: u32)
      in if conf_base + entries \<ge> table_size then None
         else let c = for_loop 0 (unat entries) (\<lambda>i c.
                  c\<lparr>sched_table := (sched_table c)(unat conf_base + i := init_array (mode_idx + i + 1))\<rparr>) c
              in Some (conf_base + entries,
                   c\<lparr>mc_table := (mc_table c)(2 + j := push_bit 16 (entries + conf_base) OR conf_base)\<rparr>))"

fun load_modes ::
  "(nat \<Rightarrow> u32) \<Rightarrow> nat \<Rightarrow> u32 \<Rightarrow> nat \<Rightarrow> nat \<Rightarrow> u32 \<Rightarrow> noc_core \<Rightarrow> bool \<times> noc_core" where
  "load_modes init_array stride table_size j 0 conf_base c = (True, c)"
| "load_modes init_array stride table_size j (Suc confs) conf_base c =
     (case load_mode init_array stride table_size j conf_base c of
        None \<Rightarrow> (False, c)
      | Some (conf_base, c) \<Rightarrow> load_modes init_array stride table_size (Suc j) confs conf_base c)"

definition k_noc_sched_load ::
  "(nat \<Rightarrow> u32) \<Rightarrow> nat \<Rightarrow> nat \<Rightarrow> nat \<Rightarrow> nat \<Rightarrow> nat \<Rightarrow> noc_core \<Rightarrow> bool \<times> noc_core" where
  "k_noc_sched_load init_array n NOC_CONFS NOC_CORES NOC_TABLES NOC_SCHEDULE_ENTRIES c =
     (let (sz, t) = find_mem_size n (sched_table c);
          core_idx = unat (core_id c) * NOC_TABLES * NOC_SCHEDULE_ENTRIES
      in load_modes (\<lambda>i. init_array (core_idx + i)) (NOC_CORES * NOC_TABLES * NOC_SCHEDULE_ENTRIES)
           (of_int sz) 0 NOC_CONFS 0 (c\<lparr>sched_table := t\<rparr>))"

text \<open>Only the master sets the mode and the run state, and waits until the network shows it.\<close>

definition k_noc_sched_set :: "(noc_core \<Rightarrow> noc_core) \<Rightarrow> u32 \<Rightarrow> u8 \<Rightarrow> noc_core \<Rightarrow> noc_core option" where
  "k_noc_sched_set net NOC_MASTER config c =
     (if core_id c = NOC_MASTER
      then map_option snd (loop_until (\<lambda>c. Some (if mc_table c 0 \<noteq> ucast config then (None, net c) else (Some (), c)))
             (c\<lparr>mc_table := (mc_table c)(0 := ucast config)\<rparr>))
      else Some c)"

definition k_noc_state_set :: "(noc_core \<Rightarrow> noc_core) \<Rightarrow> u32 \<Rightarrow> u8 \<Rightarrow> noc_core \<Rightarrow> noc_core option" where
  "k_noc_state_set net NOC_MASTER state c =
     (if core_id c = NOC_MASTER
      then map_option snd (loop_until (\<lambda>c. Some (if tdm_table c 4 \<noteq> ucast state then (None, net c) else (Some (), c)))
             (c\<lparr>tdm_table := (tdm_table c)(4 := ucast state)\<rparr>))
      else Some c)"

definition noc_enable :: "(noc_core \<Rightarrow> noc_core) \<Rightarrow> u32 \<Rightarrow> noc_core \<Rightarrow> noc_core option" where
  "noc_enable net NOC_MASTER = k_noc_state_set net NOC_MASTER 1"

definition noc_disable :: "(noc_core \<Rightarrow> noc_core) \<Rightarrow> u32 \<Rightarrow> noc_core \<Rightarrow> noc_core option" where
  "noc_disable net NOC_MASTER = k_noc_state_set net NOC_MASTER 0"

section \<open>What a started transfer asks for\<close>

text \<open>
  The fields of an active entry as the driver lays them out: where to write, where to read (words
  from the start of the communication memories, 14 bits each) and how many words.
\<close>

definition dma_job :: "noc_core \<Rightarrow> u32 \<Rightarrow> (nat \<times> nat \<times> nat) option" where
  "dma_job c dma_id =
     (let w = dma_table c (push_bit 1 dma_id); r = dma_table c (push_bit 1 dma_id + 1)
      in if bit r 31
         then Some (unat (take_bit 14 w), unat (take_bit 14 r), unat (take_bit 16 (drop_bit 14 r)))
         else None)"

lemma active_bit: "r AND NOC_ACTIVE_BIT \<noteq> 0 \<longleftrightarrow> bit r 31"
proof -
  have e: "NOC_ACTIVE_BIT = 2 ^ 31" by (simp add: NOC_ACTIVE_BIT_def)
  show ?thesis unfolding e and_exp_eq_0_iff_not_bit by simp
qed

lemma dma_done_iff: "noc_dma_done d c \<longleftrightarrow> dma_job c d = None"
  by (simp add: noc_dma_done_def k_noc_dma_done_def active_bit dma_job_def Let_def)

lemma active_bit_iff: "bit NOC_ACTIVE_BIT k \<longleftrightarrow> k = 31"
proof -
  have e: "NOC_ACTIVE_BIT = 2 ^ 31" by (simp add: NOC_ACTIVE_BIT_def)
  show ?thesis unfolding e bit_exp_iff by auto
qed

lemma fits_bits: "unat (x :: 'a :: len word) < 2 ^ n \<Longrightarrow> n \<le> k \<Longrightarrow> \<not> bit x k"
  by (metis bit_take_bit_iff not_less take_bit_nat_eq_self unsigned_take_bit_eq unsigned_word_eqI)

lemma entry_fields:
  fixes wp rp sz :: u16
  assumes "unat wp < 2 ^ 14" and "unat rp < 2 ^ 14"
  shows "take_bit 14 (push_bit 14 x OR ucast wp :: u32) = ucast wp"
    and "bit (NOC_ACTIVE_BIT OR push_bit 14 (ucast sz) OR ucast rp :: u32) 31"
    and "take_bit 14 (NOC_ACTIVE_BIT OR push_bit 14 (ucast sz) OR ucast rp :: u32) = ucast rp"
    and "take_bit 16 (drop_bit 14 (NOC_ACTIVE_BIT OR push_bit 14 (ucast sz) OR ucast rp :: u32)) = ucast sz"
proof -
  show "take_bit 14 (push_bit 14 x OR ucast wp :: u32) = ucast wp"
    using fits_bits [OF assms(1)]
    by (intro bit_word_eqI) (auto simp: bit_take_bit_iff bit_or_iff bit_push_bit_iff bit_ucast_iff not_less)
  show "bit (NOC_ACTIVE_BIT OR push_bit 14 (ucast sz) OR ucast rp :: u32) 31"
    by (simp add: bit_or_iff active_bit_iff)
  show "take_bit 14 (NOC_ACTIVE_BIT OR push_bit 14 (ucast sz) OR ucast rp :: u32) = ucast rp"
    using fits_bits [OF assms(2)]
    by (intro bit_word_eqI) (auto simp: bit_take_bit_iff bit_or_iff bit_push_bit_iff bit_ucast_iff active_bit_iff not_less)
  show "take_bit 16 (drop_bit 14 (NOC_ACTIVE_BIT OR push_bit 14 (ucast sz) OR ucast rp :: u32)) = ucast sz"
    using fits_bits [OF assms(2)]
    by (intro bit_word_eqI) (auto simp: bit_take_bit_iff bit_drop_bit_eq bit_or_iff bit_push_bit_iff bit_ucast_iff active_bit_iff not_less dest: bit_imp_le_length)
qed

lemma unat_ucast_16 [simp]: "unat (ucast (x :: u16) :: u32) = unat x"
  using unsigned_less [of x] by (simp add: unsigned_ucast_eq take_bit_eq_mod)

text \<open>The address of the word \<open>k\<close> of the communication memory.\<close>

definition spm_addr :: "u32 \<Rightarrow> nat \<Rightarrow> u32" where
  "spm_addr base k = base + of_nat (4 * k)"

lemma spm_offset: "k < 2 ^ 30 \<Longrightarrow> unat (spm_addr base k - base) = 4 * k"
  unfolding spm_addr_def add_diff_cancel_left' by (subst unat_of_nat) (simp add: take_bit_eq_mod)

lemma spm_index_addr: "spm_base c = base \<Longrightarrow> k < 2 ^ 30 \<Longrightarrow> spm_index c (spm_addr base k) = k"
  by (simp add: spm_index_def spm_offset)

lemma spm_addr_add: "spm_addr base k + of_nat (4 * j) = spm_addr base (k + j)"
  by (simp add: spm_addr_def algebra_simps)

lemma to_words_offset:
  assumes "unat x = 4 * k" and "k < 2 ^ 16"
  shows "unat (to_words x) = k"
proof -
  have "unat (x + 3) = 4 * k + 3" using assms by (subst unat_add_lem [THEN iffD1]) auto
  then show ?thesis using assms(2)
    by (simp add: to_words_def unat_div unsigned_ucast_eq take_bit_eq_mod)
qed

text \<open>
  A transfer that is accepted asks for the words it was called with, as long as they lie in the
  first 2^14 words of the communication memories.
\<close>

lemma nbwrite_job:
  assumes base: "spm_base c = base" and irq: "irq = 0 \<or> irq = 1"
    and bounds: "w < 2 ^ 14" "r < 2 ^ 14" "n < 2 ^ 16" and sz: "unat sz = 4 * n"
  shows "case noc_nbwrite d (spm_addr base w) (spm_addr base r) sz irq c of
      (ok, c') \<Rightarrow> (ok \<longleftrightarrow> dma_job c d = None) \<and>
        (ok \<longrightarrow> dma_job c' d = Some (w, r, n) \<and>
          c' = c\<lparr>dma_table := dma_table c'\<rparr>) \<and> (\<not> ok \<longrightarrow> c' = c)"
proof -
  define pkt :: u8 where "pkt = (if irq = 1 then DATA_IRQ_PKT_TYPE else DATA_PKT_TYPE)"
  have pkt: "\<not> 3 < pkt" by (simp add: pkt_def DATA_IRQ_PKT_TYPE_def DATA_PKT_TYPE_def)
  have u: "unat (to_words (spm_addr base w - base)) = w" "unat (to_words (spm_addr base r - base)) = r"
      "unat (to_words sz) = n"
    using bounds sz by (auto intro!: to_words_offset spm_offset)
  have call: "noc_nbwrite d (spm_addr base w) (spm_addr base r) sz irq c =
      k_noc_dma_write d (to_words (spm_addr base w - base)) (to_words (spm_addr base r - base)) (to_words sz) pkt c"
    using irq by (auto simp: noc_nbwrite_def noc_dma_write_def pkt_def base Let_def)
  note fields = entry_fields [of "to_words (spm_addr base w - base)" "to_words (spm_addr base r - base)", unfolded u, OF bounds(1,2)]
  show ?thesis unfolding call k_noc_dma_write_def NOC_PTR_WIDTH_def
    using pkt u fields(2)
    by (simp add: dma_done_iff [unfolded noc_dma_done_def] dma_job_def Let_def del: take_bit_or push_bit_of_1 drop_bit_or take_bit_push_bit)
      (simp add: fields del: take_bit_or drop_bit_or take_bit_push_bit)
qed

lemma nbwrite_other:
  assumes "e \<noteq> push_bit 1 d" and "e \<noteq> push_bit 1 d + 1"
  shows "dma_table (snd (noc_nbwrite d dst src sz irq c)) e = dma_table c e"
  using assms by (simp add: noc_nbwrite_def noc_dma_write_def k_noc_dma_write_def Let_def)

text \<open>The blocking call returns as soon as the network has freed the entry.\<close>

lemma nbwrite_ok:
  assumes "irq = 0 \<or> irq = 1"
  shows "noc_nbwrite d dst src sz irq c =
    (if dma_job c d = None then (True, snd (noc_nbwrite d dst src sz irq c)) else (False, c))"
  using assms dma_done_iff [of d c]
  by (auto simp: noc_nbwrite_def noc_dma_write_def k_noc_dma_write_def noc_dma_done_def Let_def
      DATA_IRQ_PKT_TYPE_def DATA_PKT_TYPE_def)

lemma noc_write_step:
  assumes "irq = 0 \<or> irq = 1"
  shows "noc_write net d dst src sz irq c =
    (if dma_job c d = None then Some (snd (noc_nbwrite d dst src sz irq c)) else noc_write net d dst src sz irq (net c))"
proof (cases "dma_job c d = None")
  case True
  with nbwrite_ok [OF assms, of d dst src sz c] have "noc_nbwrite d dst src sz irq c = (True, snd (noc_nbwrite d dst src sz irq c))"
    by simp
  with True show ?thesis unfolding noc_write_def by (subst loop_until.simps) (auto split: prod.split)
next
  case False
  with nbwrite_ok [OF assms, of d dst src sz c] have "noc_nbwrite d dst src sz irq c = (False, c)" by simp
  with False show ?thesis unfolding noc_write_def by (subst loop_until.simps) auto
qed

lemma noc_write_returns:
  assumes irq: "irq = 0 \<or> irq = 1"
  shows "dma_job ((net ^^ k) c) d = None \<Longrightarrow>
    \<exists>i \<le> k. noc_write net d dst src sz irq c = Some (snd (noc_nbwrite d dst src sz irq ((net ^^ i) c)))"
proof (induction k arbitrary: c)
  case 0
  with noc_write_step [OF irq, of net d dst src sz c] show ?case by simp
next
  case (Suc k)
  show ?case
  proof (cases "dma_job c d = None")
    case True
    with noc_write_step [OF irq, of net d dst src sz c] show ?thesis by (intro exI [of _ 0]) simp
  next
    case False
    from Suc.prems have "dma_job ((net ^^ k) (net c)) d = None" by (simp add: funpow_swap1)
    then obtain i where "i \<le> k"
        "noc_write net d dst src sz irq (net c) = Some (snd (noc_nbwrite d dst src sz irq ((net ^^ i) (net c))))"
      using Suc.IH by blast
    with False noc_write_step [OF irq, of net d dst src sz c] show ?thesis
      by (intro exI [of _ "Suc i"]) (auto simp: funpow_swap1)
  qed
qed

section \<open>Probing a memory\<close>

text \<open>
  In a memory of \<open>2 ^ k\<close> words the probe finds the size in bytes, but the words at the powers of two
  are lost: each is put back one probe too late, at twice its place.
\<close>

lemma probe_loop_result:
  assumes "1 \<le> j" and "j \<le> k" and "k < j + rounds" and "j < k \<longrightarrow> m 0 = probe_pattern"
  shows "probe_loop failure (2 ^ k) rounds (2 ^ j) init m =
    (4 * 2 ^ k, (\<lambda>x. if x = 0 then init else if \<exists>i. j \<le> i \<and> i < k \<and> x = 2 ^ i then 0 else m x))"
  using assms
proof (induction rounds arbitrary: j m)
  case 0
  then show ?case by simp
next
  case (Suc rounds)
  show ?case
  proof (cases "j = k")
    case True
    then show ?thesis by (auto simp: fun_eq_iff)
  next
    case False
    with Suc.prems have j: "j < k" by simp
    then have small: "2 ^ j mod 2 ^ k = (2 :: nat) ^ j" by simp
    define m1 where "m1 = m(2 ^ j := 0)"
    define m2 where "m2 = m1(2 ^ Suc j mod 2 ^ k := m (2 ^ j))"
    have p: "m1 0 = probe_pattern" using Suc.prems j by (simp add: m1_def)
    have pm: "m2 0 = probe_pattern" if "Suc j < k"
    proof -
      have "2 ^ Suc j mod 2 ^ k = (2 :: nat) ^ Suc j" using that by (intro mod_less power_strict_increasing) auto
      with p show ?thesis by (simp add: m2_def)
    qed
    have "probe_loop failure (2 ^ k) (Suc rounds) (2 ^ j) init m = probe_loop failure (2 ^ k) rounds (2 ^ Suc j) init m2"
      using p by (simp add: small m1_def [symmetric] m2_def Let_def probe_pattern_def)
    also have "\<dots> = (4 * 2 ^ k, (\<lambda>x. if x = 0 then init else if \<exists>i. Suc j \<le> i \<and> i < k \<and> x = 2 ^ i then 0 else m2 x))"
      using Suc.prems j pm by (intro Suc.IH) auto
    also have "(\<lambda>x. if x = 0 then init else if \<exists>i. Suc j \<le> i \<and> i < k \<and> x = 2 ^ i then 0 else m2 x) =
        (\<lambda>x. if x = 0 then init else if \<exists>i. j \<le> i \<and> i < k \<and> x = 2 ^ i then 0 else m x)" (is "?l = ?r")
    proof
      fix x :: nat
      have e: "(\<exists>i. j \<le> i \<and> i < k \<and> x = 2 ^ i) \<longleftrightarrow> x = 2 ^ j \<or> (\<exists>i. Suc j \<le> i \<and> i < k \<and> x = 2 ^ i)"
        using j by (metis Suc_leD Suc_leI le_neq_implies_less order_refl)
      have "m2 x = (if x = 2 ^ j then 0 else m x)" if "x \<noteq> 0" "\<nexists>i. Suc j \<le> i \<and> i < k \<and> x = 2 ^ i"
      proof -
        have "x \<noteq> 2 ^ Suc j mod 2 ^ k"
          using that j by (cases "Suc j = k") (auto simp del: power_Suc)
        then show ?thesis by (simp add: m2_def m1_def)
      qed
      then show "?l x = ?r x" unfolding e by (cases "\<exists>i. Suc j \<le> i \<and> i < k \<and> x = 2 ^ i") auto
    qed
    finally show ?thesis .
  qed
qed

lemma find_mem_size_result:
  assumes "1 \<le> k" and "k \<le> 28"
  shows "find_mem_size (2 ^ k) m = (4 * 2 ^ k, (\<lambda>x. if \<exists>i. 1 \<le> i \<and> i < k \<and> x = 2 ^ i then 0 else m x))"
proof -
  have "find_mem_size (2 ^ k) m = probe_loop (-1) (2 ^ k) 28 (2 ^ 1) (m 0) (m(0 := probe_pattern))"
    by (simp add: find_mem_size_def)
  also have "\<dots> = (4 * 2 ^ k, (\<lambda>x. if x = 0 then m 0 else if \<exists>i. 1 \<le> i \<and> i < k \<and> x = 2 ^ i then 0 else (m(0 := probe_pattern)) x))"
    using assms by (intro probe_loop_result) auto
  finally show ?thesis by (auto simp: fun_eq_iff)
qed

end
