(* ===== verification/Mp_Port.thy ===== *)
theory Mp_Port
  imports Noc_Driver
begin

text \<open>
  The message passing library (libmp/mp.c, utils.c, queuing.c): the allocator of the communication
  memory, the creation and connection of queuing ports, and the calls that send, receive and
  acknowledge messages. A port is the descriptor of one end of a channel; the calls take and return
  it together with the state of their core. The traces and error messages are left out.
\<close>

section \<open>Allocation\<close>

definition walign :: "u32 \<Rightarrow> u32" where
  "walign x = (x + 3) AND NOT 3"

text \<open>The core with its entries of the allocator's two arrays.\<close>

record mp_core =
  noc :: noc_core
  alloc_ptr :: u32
  spm_size :: u32

text \<open>
  The limit is computed with a pointer to words, so the size, a number of bytes, is taken four
  times. The result 0 is \<open>NULL\<close>.
\<close>

definition mp_alloc :: "u32 \<Rightarrow> mp_core \<Rightarrow> u32 \<times> mp_core" where
  "mp_alloc sz c =
     (let w_size = walign sz; mem_ptr = alloc_ptr c; new_addr = mem_ptr + w_size; base = spm_base (noc c) in
      if new_addr < base then (0, c)
      else if new_addr > base + 4 * spm_size c then (0, c)
      else (mem_ptr, c\<lparr>alloc_ptr := new_addr\<rparr>))"

definition test_spm_size :: "nat \<Rightarrow> (nat \<Rightarrow> u32) \<Rightarrow> int \<times> (nat \<Rightarrow> u32)" where
  "test_spm_size n m = probe_loop (-2) n 28 2 (m 0) (m(0 := probe_pattern))"

definition BARRIER_SIZE :: u32 where "BARRIER_SIZE = walign 4"
definition BARRIER_INITIALIZED :: u32 where "BARRIER_INITIALIZED = 0"
definition MAX_CHANNELS :: nat where "MAX_CHANNELS = 256"
definition FLAG_SIZE :: u32 where "FLAG_SIZE = walign 4"
definition FLAG_VALID :: u32 where "FLAG_VALID = 0xFFFFFFFF"
definition FLAG_INVALID :: u32 where "FLAG_INVALID = 0"
definition NUM_WRITE_BUF :: u32 where "NUM_WRITE_BUF = 2"

section \<open>Ports and channels\<close>

datatype direction_t = SOURCE | SINK
datatype port_t = SAMPLING | QUEUING

record qpd_t =
  direction_type :: direction_t
  remote :: u32
  recv_addr :: u32
  send_recv_count :: u32
  buf_size :: u32
  num_buf :: u32
  write_buf :: u32
  shadow_write_buf :: u32
  send_count :: u32
  send_ptr :: u32
  read_buf :: u32
  recv_count :: u32
  recv_ptr :: u32

text \<open>The two ends of a channel meet in its entry; a descriptor stands there for the pointer to it.\<close>

record chan_info_t =
  port_type :: port_t
  src_id :: int
  sink_id :: int
  src_addr :: u32
  sink_addr :: u32
  src_qpd_ptr :: "qpd_t option"
  sink_qpd_ptr :: "qpd_t option"

definition chan_reset :: "chan_info_t \<Rightarrow> chan_info_t" where
  "chan_reset i = i\<lparr>src_id := -1, sink_id := -1, src_addr := 0, sink_addr := 0, src_qpd_ptr := None, sink_qpd_ptr := None\<rparr>"

text \<open>The start-up of the library on a core; the value \<^const>\<open>None\<close> is an abort.\<close>

definition mp_init :: "nat \<Rightarrow> mp_core \<Rightarrow> (nat \<Rightarrow> chan_info_t) \<Rightarrow> (mp_core \<times> (nat \<Rightarrow> chan_info_t)) option" where
  "mp_init n c chans =
     (let chans = (if core_id (noc c) = 0
                   then for_loop 0 MAX_CHANNELS (\<lambda>i ch. ch(i := chan_reset (ch i))) chans else chans);
          (sz, m) = test_spm_size n (spm (noc c)); c = c\<lparr>noc := (noc c)\<lparr>spm := m\<rparr>\<rparr>
      in if sz = -1 \<or> sz = -2 then None
         else let c = c\<lparr>spm_size := of_int sz, alloc_ptr := spm_base (noc c)\<rparr>;
                  (spm_zero, c) = mp_alloc BARRIER_SIZE c
              in Some (c\<lparr>noc := spm_wr spm_zero BARRIER_INITIALIZED (noc c)\<rparr>, chans))"

definition mp_send_alloc_size :: "qpd_t \<Rightarrow> u32" where
  "mp_send_alloc_size p = (buf_size p + FLAG_SIZE) * NUM_WRITE_BUF + walign 4"

definition mp_recv_alloc_size :: "qpd_t \<Rightarrow> u32" where
  "mp_recv_alloc_size p = (buf_size p + FLAG_SIZE) * num_buf p + walign 4"

definition new_qpd :: qpd_t where
  "new_qpd = \<lparr>direction_type = SOURCE, remote = 0, recv_addr = 0, send_recv_count = 0, buf_size = 0, num_buf = 0,
     write_buf = 0, shadow_write_buf = 0, send_count = 0, send_ptr = 0, read_buf = 0, recv_count = 0, recv_ptr = 0\<rparr>"

text \<open>
  The descriptor takes ten words of the communication memory. A core registers with its identifier
  as a signed character.
\<close>

definition sizeof_qpd :: u32 where "sizeof_qpd = 40"

definition create_source :: "qpd_t \<Rightarrow> mp_core \<Rightarrow> chan_info_t \<Rightarrow> qpd_t option \<times> mp_core \<times> chan_info_t" where
  "create_source p c i =
     (let (send_addr, c) = mp_alloc (mp_send_alloc_size p) c in
      if send_addr = 0 then (None, c, i)
      else let p = p\<lparr>send_recv_count := send_addr + (buf_size p + FLAG_SIZE) * NUM_WRITE_BUF,
                     send_count := 0, send_ptr := 0,
                     write_buf := send_addr, shadow_write_buf := send_addr + (buf_size p + FLAG_SIZE)\<rparr>;
               i = i\<lparr>src_qpd_ptr := Some p, src_addr := send_recv_count p, src_id := sint (ucast (core_id (noc c)) :: u8)\<rparr>
           in (Some p, c\<lparr>noc := spm_wr (send_recv_count p) 0 (noc c)\<rparr>, i))"

definition create_sink :: "qpd_t \<Rightarrow> mp_core \<Rightarrow> chan_info_t \<Rightarrow> qpd_t option \<times> mp_core \<times> chan_info_t" where
  "create_sink p c i =
     (let (addr, c) = mp_alloc (mp_recv_alloc_size p) c;
          p = p\<lparr>recv_addr := addr\<rparr>;
          i = i\<lparr>sink_qpd_ptr := Some p, sink_addr := addr, sink_id := sint (ucast (core_id (noc c)) :: u8)\<rparr>
      in if recv_addr p = 0 then (None, c, i)
         else let p = p\<lparr>read_buf := recv_addr p, recv_ptr := 0,
                        recv_count := recv_addr p + (buf_size p + FLAG_SIZE) * num_buf p\<rparr>;
                  n = spm_wr (recv_count p) 0 (noc c);
                  n = for_loop 0 (unat (num_buf p)) (\<lambda>k n.
                        spm_wr (recv_addr p + (buf_size p + FLAG_SIZE) * of_nat k + buf_size p) 0 n) n
              in (Some p, c\<lparr>noc := n\<rparr>, i\<lparr>sink_qpd_ptr := Some p\<rparr>))"

definition mp_create_qport ::
  "nat \<Rightarrow> direction_t \<Rightarrow> u32 \<Rightarrow> u32 \<Rightarrow> mp_core \<Rightarrow> (nat \<Rightarrow> chan_info_t) \<Rightarrow>
     qpd_t option \<times> mp_core \<times> (nat \<Rightarrow> chan_info_t)" where
  "mp_create_qport chan_id direction msg_size bufs c chans =
     (if chan_id \<ge> MAX_CHANNELS then (None, c, chans)
      else let (qpd, c) = mp_alloc sizeof_qpd c in
        if qpd = 0 then (None, c, chans)
        else let p = new_qpd\<lparr>direction_type := direction, buf_size := walign msg_size, num_buf := bufs\<rparr>;
                 i = (chans chan_id)\<lparr>port_type := QUEUING\<rparr>;
                 (r, c, i) = (case direction of SOURCE \<Rightarrow> create_source p c i | SINK \<Rightarrow> create_sink p c i)
             in (r, c, chans(chan_id := i)))"

text \<open>
  The part of \<open>mp_init_ports\<close> for one queuing channel: an end waits until the other one has
  registered (\<^const>\<open>None\<close> while it has not), and copies what it needs from it.
\<close>

definition connect_qport :: "int \<Rightarrow> chan_info_t \<Rightarrow> chan_info_t option" where
  "connect_qport cpuid i =
     (if src_id i = cpuid
      then (if sink_id i = -1 then None
            else Some (i\<lparr>src_qpd_ptr := map_option (\<lambda>p. p\<lparr>recv_addr := sink_addr i, remote := of_int (sink_id i)\<rparr>) (src_qpd_ptr i)\<rparr>))
      else if sink_id i = cpuid
      then (if src_id i = -1 then None
            else Some (i\<lparr>sink_qpd_ptr := map_option (\<lambda>p. p\<lparr>send_recv_count := src_addr i, remote := of_int (src_id i)\<rparr>) (sink_qpd_ptr i)\<rparr>))
      else Some i)"

section \<open>Sending, receiving, acknowledging\<close>

definition next_slot :: "u32 \<Rightarrow> u32 \<Rightarrow> u32" where
  "next_slot bufs k = (if k = bufs - 1 then 0 else k + 1)"

definition mp_nbsend :: "qpd_t \<Rightarrow> noc_core \<Rightarrow> bool \<times> qpd_t \<times> noc_core" where
  "mp_nbsend p c =
     (let rmt_addr = recv_addr p + (buf_size p + FLAG_SIZE) * send_ptr p;
          c = spm_wr (write_buf p + buf_size p) FLAG_VALID c in
      if send_count p - spm_rd c (send_recv_count p) = num_buf p then (False, p, c)
      else let (ok, c) = noc_nbwrite (remote p) rmt_addr (write_buf p) (buf_size p + FLAG_SIZE) 1 c in
        if \<not> ok then (False, p, c)
        else (True, p\<lparr>send_count := send_count p + 1, send_ptr := next_slot (num_buf p) (send_ptr p),
                write_buf := shadow_write_buf p, shadow_write_buf := write_buf p\<rparr>, c))"

definition mp_nbrecv :: "qpd_t \<Rightarrow> noc_core \<Rightarrow> bool \<times> qpd_t \<times> noc_core" where
  "mp_nbrecv p c =
     (let locl_addr = recv_addr p + (buf_size p + FLAG_SIZE) * recv_ptr p;
          recv_flag = locl_addr + buf_size p in
      if spm_rd c recv_flag = FLAG_INVALID then (False, p, c)
      else (True, p\<lparr>recv_ptr := next_slot (num_buf p) (recv_ptr p), read_buf := locl_addr\<rparr>,
              spm_wr recv_flag FLAG_INVALID c))"

definition mp_nback :: "qpd_t \<Rightarrow> noc_core \<Rightarrow> bool \<times> noc_core" where
  "mp_nback p c =
     (if \<not> noc_dma_done (remote p) c then (False, c)
      else let c = spm_wr (recv_count p) (spm_rd c (recv_count p) + 1) c;
               (success, c) = noc_nbwrite (remote p) (send_recv_count p) (recv_count p) 4 1 c
           in (success, if \<not> success then spm_wr (recv_count p) (spm_rd c (recv_count p) - 1) c else c))"

text \<open>
  The blocking calls repeat an attempt until it succeeds or the time is up (never, for the limit 0).
  The clock is read before the first and between any two attempts; \<open>env\<close> is what time and the rest
  of the system do meanwhile.
\<close>

definition retry_until ::
  "('s \<Rightarrow> u64) \<Rightarrow> ('s \<Rightarrow> 's) \<Rightarrow> ('s \<Rightarrow> bool \<times> 's) \<Rightarrow> u32 \<Rightarrow> u64 \<Rightarrow> 's \<Rightarrow> (bool \<times> 's) option" where
  "retry_until clock env attempt time_usecs timeout s =
     loop_until (\<lambda>s. if time_usecs = 0 \<or> clock s < timeout
                     then let (ok, s) = attempt s in Some (if ok then (Some True, s) else (None, env s))
                     else Some (Some False, s)) s"

text \<open>The calls on the state of a core and its port, for a given way \<open>clock\<close> to read the time.\<close>

definition mp_send ::
  "(qpd_t \<times> noc_core \<Rightarrow> u64) \<Rightarrow> (qpd_t \<times> noc_core \<Rightarrow> qpd_t \<times> noc_core) \<Rightarrow> u32 \<Rightarrow> qpd_t \<times> noc_core \<Rightarrow>
     (bool \<times> qpd_t \<times> noc_core) option" where
  "mp_send clock env time_usecs s =
     retry_until clock env (\<lambda>(p, c). mp_nbsend p c) time_usecs (clock s + ucast time_usecs) s"

definition mp_recv ::
  "(qpd_t \<times> noc_core \<Rightarrow> u64) \<Rightarrow> (qpd_t \<times> noc_core \<Rightarrow> qpd_t \<times> noc_core) \<Rightarrow> u32 \<Rightarrow> qpd_t \<times> noc_core \<Rightarrow>
     (bool \<times> qpd_t \<times> noc_core) option" where
  "mp_recv clock env time_usecs s =
     retry_until clock env (\<lambda>(p, c). mp_nbrecv p c) time_usecs (clock s + ucast time_usecs) s"

definition mp_ack_n ::
  "(qpd_t \<times> noc_core \<Rightarrow> u64) \<Rightarrow> (qpd_t \<times> noc_core \<Rightarrow> qpd_t \<times> noc_core) \<Rightarrow> u32 \<Rightarrow> u32 \<Rightarrow> qpd_t \<times> noc_core \<Rightarrow>
     (bool \<times> qpd_t \<times> noc_core) option" where
  "mp_ack_n clock env time_usecs num_acks s =
     (let timeout = clock s + ucast time_usecs in do {
        (free, p, c) \<leftarrow> retry_until clock env (\<lambda>(p, c). (noc_dma_done (remote p) c, p, c)) time_usecs timeout s;
        if \<not> free then Some (False, p, c)
        else do {
          (ok, p, c) \<leftarrow> retry_until clock env
            (\<lambda>(p, c). let (ok, c) = noc_nbwrite (remote p) (send_recv_count p) (recv_count p) 4 1 c in (ok, p, c))
            time_usecs timeout (p, spm_wr (recv_count p) (spm_rd c (recv_count p) + num_acks) c);
          Some (ok, p, if \<not> ok then spm_wr (recv_count p) (spm_rd c (recv_count p) - num_acks) c else c) }})"

definition mp_ack ::
  "(qpd_t \<times> noc_core \<Rightarrow> u64) \<Rightarrow> (qpd_t \<times> noc_core \<Rightarrow> qpd_t \<times> noc_core) \<Rightarrow> u32 \<Rightarrow> qpd_t \<times> noc_core \<Rightarrow>
     (bool \<times> qpd_t \<times> noc_core) option" where
  "mp_ack clock env time_usecs s = mp_ack_n clock env time_usecs 1 s"

end
