(* ===== verification/Mp_Queue.thy ===== *)
theory Mp_Queue
  imports Mp_Port Bounded_Queue
begin

text \<open>
  A channel of two connected queuing ports: the cores of both ends, their descriptors, and the
  transfers under way between their communication memories. The theory shows that it is a
  first-in-first-out channel, whatever the order of calls, transferred words and acknowledgements,
  and that creating and connecting the ports sets it up.
\<close>

section \<open>The channel\<close>

text \<open>
  A transfer arrives word by word, in order, and is done with its last word; this is what the
  driver documents and the flag at the end of a message relies on. The last four fields record the
  history of the channel: the messages accepted so far, how many of them were received, how many
  acknowledged, and how many acknowledgements have arrived at the source.
\<close>

record channel =
  src_core :: noc_core
  snk_core :: noc_core
  src_port :: qpd_t
  snk_port :: qpd_t
  src_moved :: nat
  snk_moved :: nat
  sent :: "u32 list list"
  received :: nat
  acked :: nat
  seen :: nat

definition dma_finish :: "u32 \<Rightarrow> noc_core \<Rightarrow> noc_core" where
  "dma_finish d c = c\<lparr>dma_table := (dma_table c)
     (push_bit 1 d + 1 := dma_table c (push_bit 1 d + 1) AND NOT NOC_ACTIVE_BIT)\<rparr>"

definition move_word :: "u32 \<Rightarrow> noc_core \<Rightarrow> nat \<Rightarrow> noc_core \<Rightarrow> noc_core \<times> nat \<times> noc_core" where
  "move_word d c m r =
     (case dma_job c d of
        None \<Rightarrow> (c, m, r)
      | Some (w, rd, n) \<Rightarrow>
          (let r = r\<lparr>spm := (spm r)(w + m := spm c (rd + m))\<rparr>
           in if m + 1 < n then (c, m + 1, r) else (dma_finish d c, 0, r)))"

text \<open>The words of a message at an address, as a client reads them.\<close>

definition words_at :: "noc_core \<Rightarrow> u32 \<Rightarrow> nat \<Rightarrow> u32 list" where
  "words_at c a n = map (\<lambda>j. spm_rd c (a + of_nat (4 * j))) [0..<n]"

definition channel_send :: "unit \<Rightarrow> channel \<Rightarrow> u32 list option \<times> channel" where
  "channel_send u q =
     (let m = words_at (src_core q) (write_buf (src_port q)) (unat (buf_size (src_port q)) div 4);
          (ok, p, c) = mp_nbsend (src_port q) (src_core q); q = q\<lparr>src_port := p, src_core := c\<rparr>
      in if ok then (Some m, q\<lparr>sent := sent q @ [m]\<rparr>) else (None, q))"

definition channel_recv :: "channel \<Rightarrow> u32 list option \<times> channel" where
  "channel_recv q =
     (let (ok, p, c) = mp_nbrecv (snk_port q) (snk_core q); q = q\<lparr>snk_port := p, snk_core := c\<rparr>
      in if ok then (Some (words_at c (read_buf p) (unat (buf_size p) div 4)), q\<lparr>received := received q + 1\<rparr>)
         else (None, q))"

text \<open>
  What else happens: the client of the source fills a word of the buffer it has, the client of the
  sink acknowledges a message it has received, a word of either transfer arrives.
\<close>

datatype port_action = Fill nat u32 | Acknowledge | Data_Word | Ack_Word

fun channel_act :: "port_action \<Rightarrow> channel \<Rightarrow> channel" where
  "channel_act (Fill i v) q =
     (if 4 * i < unat (buf_size (src_port q))
      then q\<lparr>src_core := spm_wr (write_buf (src_port q) + of_nat (4 * i)) v (src_core q)\<rparr> else q)"
| "channel_act Acknowledge q =
     (if acked q < received q
      then let (ok, c) = mp_nback (snk_port q) (snk_core q)
           in q\<lparr>snk_core := c, acked := acked q + (if ok then 1 else 0)\<rparr>
      else q)"
| "channel_act Data_Word q =
     (let (c, m, r) = move_word (remote (src_port q)) (src_core q) (src_moved q) (snk_core q)
      in q\<lparr>src_core := c, src_moved := m, snk_core := r\<rparr>)"
| "channel_act Ack_Word q =
     (let (c, m, r) = move_word (remote (snk_port q)) (snk_core q) (snk_moved q) (src_core q)
      in q\<lparr>snk_core := c, snk_moved := m, src_core := r, seen := acked q\<rparr>)"

definition channel_contents :: "channel \<Rightarrow> u32 list list" where
  "channel_contents q = drop (received q) (sent q)"

section \<open>Layout of the memories\<close>

text \<open>
  The places of a channel as word offsets: messages of \<open>words\<close> words, \<open>bufs\<close> of them at the sink, the
  blocks of both ends. A buffer has one word more, for the flag.
\<close>

record layout =
  base :: u32
  words :: nat
  bufs :: nat
  wbase :: nat
  rbase :: nat

definition slot :: "layout \<Rightarrow> nat \<Rightarrow> nat" where
  "slot L i = rbase L + (words L + 1) * (i mod bufs L)"

definition wslot :: "layout \<Rightarrow> nat \<Rightarrow> nat" where
  "wslot L i = wbase L + (words L + 1) * (i mod 2)"

definition count_at :: "layout \<Rightarrow> nat" where
  "count_at L = wbase L + (words L + 1) * 2"

definition rcount_at :: "layout \<Rightarrow> nat" where
  "rcount_at L = rbase L + (words L + 1) * bufs L"

definition layout_ok :: "layout \<Rightarrow> bool" where
  "layout_ok L \<longleftrightarrow> 0 < bufs L \<and> count_at L < 2 ^ 14 \<and> rcount_at L < 2 ^ 14"

lemma block_less: "x < n \<Longrightarrow> j < k \<Longrightarrow> a + k * x + j < a + k * (n :: nat)"
proof -
  assume "x < n" "j < k"
  then have "k * x + j < k * Suc x" by simp
  also have "\<dots> \<le> k * n" using \<open>x < n\<close> by (intro mult_le_mono2) simp
  finally show ?thesis by simp
qed

lemma block_inj: "j < k \<Longrightarrow> j' < k \<Longrightarrow> a + k * x + j = a + k * y + j' \<longleftrightarrow> x = y \<and> j = (j' :: nat)"
proof
  assume k: "j < k" "j' < k" and e: "a + k * x + j = a + k * y + j'"
  then have e: "k * x + j = k * y + j'" by simp
  then have "(k * x + j) div k = (k * y + j') div k" by simp
  then have "x = y" using k by simp
  with e show "x = y \<and> j = j'" by simp
qed auto

lemma slot_less: "layout_ok L \<Longrightarrow> j \<le> words L \<Longrightarrow> slot L i + j < rcount_at L"
  unfolding slot_def rcount_at_def by (intro block_less) (auto simp: layout_ok_def)

lemma wslot_less: "layout_ok L \<Longrightarrow> j \<le> words L \<Longrightarrow> wslot L i + j < count_at L"
  unfolding wslot_def count_at_def by (intro block_less) auto

lemma slot_eq: "j \<le> words L \<Longrightarrow> j' \<le> words L \<Longrightarrow>
    slot L i + j = slot L i' + j' \<longleftrightarrow> i mod bufs L = i' mod bufs L \<and> j = j'"
  unfolding slot_def by (intro block_inj) auto

lemma wslot_eq: "j \<le> words L \<Longrightarrow> j' \<le> words L \<Longrightarrow>
    wslot L i + j = wslot L i' + j' \<longleftrightarrow> i mod 2 = i' mod 2 \<and> j = j'"
  unfolding wslot_def by (intro block_inj) auto

lemma near_mod_eq: "i \<le> i' \<Longrightarrow> i' < i + n \<Longrightarrow> i mod n = i' mod n \<longleftrightarrow> i = (i' :: nat)"
proof
  assume "i \<le> i'" "i' < i + n" "i mod n = i' mod n"
  then have "n dvd i' - i" using mod_eq_dvd_iff_nat [of i i' n] by simp
  with \<open>i' < i + n\<close> \<open>i \<le> i'\<close> show "i = i'" by (auto dest: dvd_imp_le)
qed simp

section \<open>The invariant\<close>

text \<open>Messages that have arrived in full.\<close>

definition arrived :: "channel \<Rightarrow> nat" where
  "arrived q = (if dma_job (src_core q) (remote (src_port q)) = None then length (sent q) else length (sent q) - 1)"

definition src_ok :: "layout \<Rightarrow> channel \<Rightarrow> bool" where
  "src_ok L q \<longleftrightarrow>
     (let p = src_port q; n = length (sent q) in
      spm_base (src_core q) = base L \<and> recv_addr p = spm_addr (base L) (rbase L) \<and>
      send_recv_count p = spm_addr (base L) (count_at L) \<and>
      buf_size p = of_nat (4 * words L) \<and> num_buf p = of_nat (bufs L) \<and>
      send_count p = of_nat n \<and> send_ptr p = of_nat (n mod bufs L) \<and>
      write_buf p = spm_addr (base L) (wslot L n) \<and> shadow_write_buf p = spm_addr (base L) (wslot L (n + 1)) \<and>
      spm (src_core q) (count_at L) = of_nat (seen q))"

definition snk_ok :: "layout \<Rightarrow> channel \<Rightarrow> bool" where
  "snk_ok L q \<longleftrightarrow>
     (let p = snk_port q in
      spm_base (snk_core q) = base L \<and> recv_addr p = spm_addr (base L) (rbase L) \<and>
      send_recv_count p = spm_addr (base L) (count_at L) \<and> recv_count p = spm_addr (base L) (rcount_at L) \<and>
      buf_size p = of_nat (4 * words L) \<and> num_buf p = of_nat (bufs L) \<and>
      recv_ptr p = of_nat (received q mod bufs L) \<and>
      spm (snk_core q) (rcount_at L) = of_nat (acked q))"

definition counts_ok :: "layout \<Rightarrow> channel \<Rightarrow> bool" where
  "counts_ok L q \<longleftrightarrow> seen q \<le> acked q \<and> acked q \<le> received q \<and> received q \<le> arrived q \<and>
     length (sent q) \<le> seen q + bufs L \<and> (\<forall>m \<in> set (sent q). length m = words L)"

definition data_job_ok :: "layout \<Rightarrow> channel \<Rightarrow> bool" where
  "data_job_ok L q \<longleftrightarrow>
     (case dma_job (src_core q) (remote (src_port q)) of
        None \<Rightarrow> src_moved q = 0
      | Some job \<Rightarrow>
          (let n = length (sent q) - 1 in
           sent q \<noteq> [] \<and> job = (slot L n, wslot L n, words L + 1) \<and> src_moved q \<le> words L \<and>
           (\<forall>j \<le> words L. spm (src_core q) (wslot L n + j) = (sent q ! n @ [FLAG_VALID]) ! j) \<and>
           (\<forall>j < src_moved q. spm (snk_core q) (slot L n + j) = sent q ! n ! j)))"

definition ack_job_ok :: "layout \<Rightarrow> channel \<Rightarrow> bool" where
  "ack_job_ok L q \<longleftrightarrow> snk_moved q = 0 \<and>
     (case dma_job (snk_core q) (remote (snk_port q)) of
        None \<Rightarrow> seen q = acked q
      | Some job \<Rightarrow> job = (count_at L, rcount_at L, 1))"

text \<open>
  A message stays in its buffer from its arrival until it is acknowledged. A flag is set exactly at
  the messages that have arrived and were not received yet.
\<close>

definition slots_ok :: "layout \<Rightarrow> channel \<Rightarrow> bool" where
  "slots_ok L q \<longleftrightarrow>
     (\<forall>i. acked q \<le> i \<and> i < arrived q \<longrightarrow> (\<forall>j < words L. spm (snk_core q) (slot L i + j) = sent q ! i ! j)) \<and>
     (\<forall>i. received q \<le> i \<and> i < arrived q \<longrightarrow> spm (snk_core q) (slot L i + words L) = FLAG_VALID) \<and>
     (\<forall>i. arrived q \<le> i \<and> i < received q + bufs L \<longrightarrow> spm (snk_core q) (slot L i + words L) = FLAG_INVALID)"

definition port_inv :: "layout \<Rightarrow> channel \<Rightarrow> bool" where
  "port_inv L q \<longleftrightarrow> layout_ok L \<and> src_ok L q \<and> snk_ok L q \<and> counts_ok L q \<and> data_job_ok L q \<and> ack_job_ok L q \<and> slots_ok L q"

section \<open>Addresses\<close>

lemma of_nat_u32_eq: "x < 2 ^ 32 \<Longrightarrow> y < 2 ^ 32 \<Longrightarrow> (of_nat x :: u32) = of_nat y \<longleftrightarrow> x = y"
  by (simp add: word_of_nat_eq_iff take_bit_eq_mod)

lemma unat_u32: "x < 2 ^ 32 \<Longrightarrow> unat (of_nat x :: u32) = x"
  by (simp add: unat_of_nat take_bit_eq_mod)

lemma FLAG_SIZE_eq: "FLAG_SIZE = 4"
  by (simp add: FLAG_SIZE_def walign_def)

lemma layout_bounds:
  assumes "layout_ok L"
  shows "words L < 2 ^ 14" "bufs L < 2 ^ 14" "0 < bufs L" "rcount_at L < 2 ^ 14" "count_at L < 2 ^ 14"
proof -
  have "words L + 1 \<le> count_at L" "bufs L \<le> rcount_at L" by (simp_all add: count_at_def rcount_at_def)
  with assms show "words L < 2 ^ 14" "bufs L < 2 ^ 14" "0 < bufs L" "rcount_at L < 2 ^ 14" "count_at L < 2 ^ 14"
    by (simp_all add: layout_ok_def)
qed

lemma buf_words: "layout_ok L \<Longrightarrow> unat (of_nat (4 * words L) :: u32) = 4 * words L"
  using layout_bounds(1) [of L] by (intro unat_u32) simp

lemma flagged_size: "of_nat (4 * words L) + FLAG_SIZE = of_nat (4 * (words L + 1))"
  by (simp add: FLAG_SIZE_eq)

lemma slot_addr:
  "spm_addr b (rbase L) + of_nat (4 * (words L + 1)) * of_nat (i mod bufs L) = spm_addr b (slot L i)"
proof -
  have "(of_nat (4 * (words L + 1)) :: u32) * of_nat (i mod bufs L) = of_nat (4 * ((words L + 1) * (i mod bufs L)))"
    by (simp add: algebra_simps)
  then show ?thesis by (simp only: spm_addr_add slot_def)
qed

lemma next_slot_mod:
  assumes "0 < n" and "n < 2 ^ 14"
  shows "next_slot (of_nat n) (of_nat (i mod n)) = of_nat (Suc i mod n)"
proof -
  have "(of_nat n :: u32) - 1 = of_nat (n - 1)" using assms(1) by simp
  moreover have "i mod n < n" using assms(1) by simp
  ultimately have "of_nat (i mod n) = (of_nat n :: u32) - 1 \<longleftrightarrow> i mod n = n - 1"
    using assms(2) by (simp only:) (rule of_nat_u32_eq, auto)
  with assms(1) show ?thesis by (auto simp: next_slot_def mod_Suc)
qed

lemma spm_rd_addr: "spm_base c = b \<Longrightarrow> k < 2 ^ 30 \<Longrightarrow> spm_rd c (spm_addr b k) = spm c k"
  by (simp add: spm_rd_def spm_index_addr)

lemma spm_wr_addr: "spm_base c = b \<Longrightarrow> k < 2 ^ 30 \<Longrightarrow> spm_wr (spm_addr b k) v c = c\<lparr>spm := (spm c)(k := v)\<rparr>"
  by (simp add: spm_wr_def spm_index_addr)

lemma words_at_addr:
  "spm_base c = b \<Longrightarrow> k + n < 2 ^ 30 \<Longrightarrow> words_at c (spm_addr b k) n = map (\<lambda>j. spm c (k + j)) [0..<n]"
  unfolding words_at_def spm_addr_add by (intro map_cong refl) (auto intro!: spm_rd_addr)

text \<open>The transfer table does not depend on the memory, nor the memory on the table.\<close>

lemma dma_job_spm [simp]: "dma_job (c\<lparr>spm := m\<rparr>) d = dma_job c d"
  by (simp add: dma_job_def)

lemma dma_finish_simps [simp]:
  "spm (dma_finish d c) = spm c" "spm_base (dma_finish d c) = spm_base c" "dma_job (dma_finish d c) d = None"
  by (simp_all add: dma_finish_def dma_job_def Let_def bit_and_iff bit_not_iff active_bit_iff)

section \<open>Sending\<close>

lemma unsent_room:
  assumes "seen q \<le> length (sent q)" "length (sent q) \<le> seen q + bufs L" "bufs L < 2 ^ 14"
  shows "(of_nat (length (sent q)) :: u32) - of_nat (seen q) = of_nat (bufs L) \<longleftrightarrow> length (sent q) = seen q + bufs L"
proof -
  have "(of_nat (length (sent q)) :: u32) - of_nat (seen q) = of_nat (length (sent q) - seen q)"
    using assms(1) by simp
  moreover have "length (sent q) - seen q < 2 ^ 32" using assms by simp
  ultimately show ?thesis using assms of_nat_u32_eq [of "length (sent q) - seen q" "bufs L"] by auto
qed

lemmas port_inv_defs = port_inv_def src_ok_def snk_ok_def counts_ok_def Let_def

lemma wslot_bound: "layout_ok L \<Longrightarrow> j \<le> words L \<Longrightarrow> wslot L i + j < 2 ^ 14"
  using wslot_less [of L j i] layout_bounds(5) [of L] by simp

lemma slot_bound: "layout_ok L \<Longrightarrow> j \<le> words L \<Longrightarrow> slot L i + j < 2 ^ 14"
  using slot_less [of L j i] layout_bounds(4) [of L] by simp

text \<open>The flag is written first; what follows is decided by the room and the transfer under way.\<close>

definition flagged :: "layout \<Rightarrow> channel \<Rightarrow> noc_core" where
  "flagged L q = (src_core q)\<lparr>spm := (spm (src_core q))(wslot L (length (sent q)) + words L := FLAG_VALID)\<rparr>"

lemma flagged_simps [simp]:
  "dma_job (flagged L q) d = dma_job (src_core q) d" "spm_base (flagged L q) = spm_base (src_core q)"
  by (simp_all add: flagged_def)

lemma src_okD:
  assumes "src_ok L q"
  shows "spm_base (src_core q) = base L" "recv_addr (src_port q) = spm_addr (base L) (rbase L)"
    "send_recv_count (src_port q) = spm_addr (base L) (count_at L)" "buf_size (src_port q) = of_nat (4 * words L)"
    "num_buf (src_port q) = of_nat (bufs L)" "send_count (src_port q) = of_nat (length (sent q))"
    "send_ptr (src_port q) = of_nat (length (sent q) mod bufs L)"
    "write_buf (src_port q) = spm_addr (base L) (wslot L (length (sent q)))"
    "shadow_write_buf (src_port q) = spm_addr (base L) (wslot L (length (sent q) + 1))"
    "spm (src_core q) (count_at L) = of_nat (seen q)"
  using assms by (simp_all only: src_ok_def Let_def)

lemma snk_okD:
  assumes "snk_ok L q"
  shows "spm_base (snk_core q) = base L" "recv_addr (snk_port q) = spm_addr (base L) (rbase L)"
    "send_recv_count (snk_port q) = spm_addr (base L) (count_at L)" "recv_count (snk_port q) = spm_addr (base L) (rcount_at L)"
    "buf_size (snk_port q) = of_nat (4 * words L)" "num_buf (snk_port q) = of_nat (bufs L)"
    "recv_ptr (snk_port q) = of_nat (received q mod bufs L)"
    "spm (snk_core q) (rcount_at L) = of_nat (acked q)"
  using assms by (simp_all only: snk_ok_def Let_def)

lemma nbsend_unfold:
  assumes inv: "port_inv L q"
  shows "mp_nbsend (src_port q) (src_core q) =
    (if length (sent q) = seen q + bufs L then (False, src_port q, flagged L q)
     else let (ok, c) = noc_nbwrite (remote (src_port q)) (spm_addr (base L) (slot L (length (sent q))))
                (spm_addr (base L) (wslot L (length (sent q)))) (of_nat (4 * (words L + 1))) 1 (flagged L q)
          in if \<not> ok then (False, src_port q, c)
             else (True, (src_port q)\<lparr>send_count := of_nat (length (sent q)) + 1,
                     send_ptr := of_nat (Suc (length (sent q)) mod bufs L),
                     write_buf := shadow_write_buf (src_port q), shadow_write_buf := write_buf (src_port q)\<rparr>, c))"
proof -
  have ok: "layout_ok L" and s: "src_ok L q" and n: "counts_ok L q" using inv by (simp_all add: port_inv_def)
  note b = layout_bounds [OF ok]
  note p = src_okD [OF s]
  have "wslot L (length (sent q)) + words L < 2 ^ 30" using wslot_bound [OF ok, of "words L" "length (sent q)"] by simp
  from spm_wr_addr [OF p(1) this]
  have fl: "spm_wr (write_buf (src_port q) + buf_size (src_port q)) FLAG_VALID (src_core q) = flagged L q"
    unfolding p(4,8) spm_addr_add flagged_def .
  have ne: "count_at L \<noteq> wslot L i + words L" for i
    using wslot_less [OF ok, of "words L" i] by simp
  have "spm_base (flagged L q) = base L" "count_at L < 2 ^ 30" using p(1) b(5) by simp_all
  from spm_rd_addr [OF this] have rd: "spm_rd (flagged L q) (send_recv_count (src_port q)) = of_nat (seen q)"
    unfolding p(3) using ne p(10) by (simp add: flagged_def)
  have full: "send_count (src_port q) - of_nat (seen q) = num_buf (src_port q) \<longleftrightarrow> length (sent q) = seen q + bufs L"
    unfolding p(5,6) using n b(2) by (intro unsent_room) (auto simp: counts_ok_def arrived_def split: if_splits)
  show ?thesis
    unfolding mp_nbsend_def Let_def fl rd full
    unfolding p(2,4,5,6,7) slot_addr flagged_size next_slot_mod [OF b(3,2)]
    unfolding p(8) ..
qed

lemma nbsend_cases:
  assumes inv: "port_inv L q"
  obtains (refused) "mp_nbsend (src_port q) (src_core q) = (False, src_port q, flagged L q)"
      "length (sent q) = seen q + bufs L \<or> dma_job (src_core q) (remote (src_port q)) \<noteq> None"
  | (accepted) c where "length (sent q) < seen q + bufs L" "dma_job (src_core q) (remote (src_port q)) = None"
      "dma_job c (remote (src_port q)) = Some (slot L (length (sent q)), wslot L (length (sent q)), words L + 1)"
      "spm c = spm (flagged L q)" "spm_base c = base L"
      "mp_nbsend (src_port q) (src_core q) =
        (True, (src_port q)\<lparr>send_count := of_nat (length (sent q)) + 1,
                 send_ptr := of_nat (Suc (length (sent q)) mod bufs L),
                 write_buf := shadow_write_buf (src_port q), shadow_write_buf := write_buf (src_port q)\<rparr>, c)"
proof -
  have ok: "layout_ok L" and b: "spm_base (flagged L q) = base L" and le: "length (sent q) \<le> seen q + bufs L"
    using inv by (simp_all add: port_inv_defs)
  define n where "n = length (sent q)"
  obtain r c where w: "noc_nbwrite (remote (src_port q)) (spm_addr (base L) (slot L n))
      (spm_addr (base L) (wslot L n)) (of_nat (4 * (words L + 1))) 1 (flagged L q) = (r, c)" by fastforce
  have sz: "unat (of_nat (4 * (words L + 1)) :: u32) = 4 * (words L + 1)"
    using layout_bounds(1) [OF ok] by (intro unat_u32) simp
  have "words L + 1 < 2 ^ 16" using layout_bounds(1) [OF ok] by simp
  moreover have "slot L n < 2 ^ 14" "wslot L n < 2 ^ 14"
    using slot_bound [OF ok, of 0 n] wslot_bound [OF ok, of 0 n] by simp_all
  ultimately have "case (r, c) of (r, c) \<Rightarrow> (r \<longleftrightarrow> dma_job (flagged L q) (remote (src_port q)) = None) \<and>
      (r \<longrightarrow> dma_job c (remote (src_port q)) = Some (slot L n, wslot L n, words L + 1) \<and>
        c = (flagged L q)\<lparr>dma_table := dma_table c\<rparr>) \<and> (\<not> r \<longrightarrow> c = flagged L q)"
    unfolding w [symmetric] using b sz by (intro nbwrite_job) simp_all
  then have job: "r \<longleftrightarrow> dma_job (src_core q) (remote (src_port q)) = None"
      "r \<Longrightarrow> dma_job c (remote (src_port q)) = Some (slot L n, wslot L n, words L + 1)"
      "r \<Longrightarrow> c = (flagged L q)\<lparr>dma_table := dma_table c\<rparr>" "\<not> r \<Longrightarrow> c = flagged L q"
    by simp_all
  note u = nbsend_unfold [OF inv, folded n_def, unfolded w]
  show thesis
  proof (cases "n = seen q + bufs L \<or> \<not> r")
    case True
    with u job have "mp_nbsend (src_port q) (src_core q) = (False, src_port q, flagged L q)" by auto
    with True job(1) show thesis by (intro refused) (auto simp: n_def)
  next
    case False
    with job(3) obtain t where c: "c = (flagged L q)\<lparr>dma_table := t\<rparr>" by blast
    then have "spm c = spm (flagged L q)" "spm_base c = base L" using b by simp_all
    with False u job(1,2) le show thesis by (intro accepted [of c]) (auto simp: n_def)
  qed
qed

text \<open>
  The parts of the invariant that an update of the source core leaves alone: only the count of
  acknowledgements and the message under way are read from its memory.
\<close>

lemma flagged_spm:
  "layout_ok L \<Longrightarrow> spm (flagged L q) (count_at L) = spm (src_core q) (count_at L)"
  "sent q \<noteq> [] \<Longrightarrow> j \<le> words L \<Longrightarrow>
    spm (flagged L q) (wslot L (length (sent q) - 1) + j) = spm (src_core q) (wslot L (length (sent q) - 1) + j)"
proof -
  show "layout_ok L \<Longrightarrow> spm (flagged L q) (count_at L) = spm (src_core q) (count_at L)"
    using wslot_less [of L "words L" "length (sent q)"] by (simp add: flagged_def)
  assume "sent q \<noteq> []" "j \<le> words L"
  then have "(length (sent q) - 1) mod 2 \<noteq> length (sent q) mod 2" by (cases "length (sent q)") (auto simp: mod_Suc)
  then have "wslot L (length (sent q) - 1) + j \<noteq> wslot L (length (sent q)) + words L"
    using \<open>j \<le> words L\<close> by (simp add: wslot_eq)
  then show "spm (flagged L q) (wslot L (length (sent q) - 1) + j) = spm (src_core q) (wslot L (length (sent q) - 1) + j)"
    by (simp add: flagged_def)
qed

lemma inv_src_core:
  assumes inv: "port_inv L q" and base: "spm_base c = base L"
    and job: "dma_job c (remote (src_port q)) = dma_job (src_core q) (remote (src_port q))"
    and count: "spm c (count_at L) = of_nat (seen q)"
    and same: "\<And>j. sent q \<noteq> [] \<Longrightarrow> j \<le> words L \<Longrightarrow>
      spm c (wslot L (length (sent q) - 1) + j) = spm (src_core q) (wslot L (length (sent q) - 1) + j)"
  shows "port_inv L (q\<lparr>src_core := c\<rparr>)"
proof -
  have d: "arrived (q\<lparr>src_core := c\<rparr>) = arrived q" by (simp add: arrived_def job)
  have "src_ok L (q\<lparr>src_core := c\<rparr>)" using inv base count by (simp add: port_inv_def src_ok_def Let_def)
  moreover have "data_job_ok L (q\<lparr>src_core := c\<rparr>)"
    using inv same by (auto simp: port_inv_def data_job_ok_def job Let_def split: option.splits)
  ultimately show ?thesis
    using inv by (simp add: port_inv_def snk_ok_def counts_ok_def ack_job_ok_def slots_ok_def d cong: option.case_cong)
qed

lemma inv_refused: "port_inv L q \<Longrightarrow> port_inv L (q\<lparr>src_core := flagged L q\<rparr>)"
  using src_okD(1,10) [of L q] by (intro inv_src_core) (simp_all add: flagged_spm port_inv_def del: One_nat_def)

text \<open>The message as the client left it in the buffer.\<close>

definition written :: "layout \<Rightarrow> channel \<Rightarrow> u32 list" where
  "written L q = map (\<lambda>j. spm (src_core q) (wslot L (length (sent q)) + j)) [0..<words L]"

lemma written_flagged:
  assumes "j \<le> words L"
  shows "spm (flagged L q) (wslot L (length (sent q)) + j) = (written L q @ [FLAG_VALID]) ! j"
  using assms by (auto simp: flagged_def written_def nth_append)

lemma inv_accepted:
  assumes inv: "port_inv L q" and room: "length (sent q) < seen q + bufs L"
    and free: "dma_job (src_core q) (remote (src_port q)) = None"
    and job: "dma_job c (remote (src_port q)) = Some (slot L (length (sent q)), wslot L (length (sent q)), words L + 1)"
    and c: "spm c = spm (flagged L q)" "spm_base c = base L"
  shows "port_inv L (q\<lparr>src_port := (src_port q)\<lparr>send_count := of_nat (length (sent q)) + 1,
       send_ptr := of_nat (Suc (length (sent q)) mod bufs L),
       write_buf := shadow_write_buf (src_port q), shadow_write_buf := write_buf (src_port q)\<rparr>,
     src_core := c, sent := sent q @ [written L q]\<rparr>)" (is "port_inv L ?q")
proof -
  have ok: "layout_ok L" and s: "src_ok L q" using inv by (simp_all add: port_inv_def)
  note p = src_okD [OF s]
  have d: "arrived ?q = arrived q" using free job by (simp add: arrived_def)
  have dn: "arrived q = length (sent q)" using free by (simp add: arrived_def)
  have moved: "src_moved q = 0" using inv free by (simp add: port_inv_def data_job_ok_def)
  have wrap: "wslot L (length (sent q) + 1 + 1) = wslot L (length (sent q))" by (simp add: wslot_def)
  have "src_ok L ?q" using p c wrap flagged_spm(1) [OF ok, of q] by (simp add: src_ok_def del: of_nat_mult)
  moreover have "counts_ok L ?q"
    unfolding counts_ok_def d using inv room by (auto simp: port_inv_def counts_ok_def written_def)
  moreover have "data_job_ok L ?q"
    using job moved c(1) written_flagged [of _ L q] by (simp add: data_job_ok_def nth_append)
  moreover have "slots_ok L ?q"
    using inv dn by (auto simp: port_inv_def slots_ok_def d nth_append)
  ultimately show ?thesis using inv ok by (simp add: port_inv_def snk_ok_def ack_job_ok_def cong: option.case_cong)
qed

lemma channel_send_law:
  assumes inv: "port_inv L q" and r: "channel_send u q = (a, q')"
  shows "port_inv L q' \<and> channel_contents q' = channel_contents q @ (case a of None \<Rightarrow> [] | Some m \<Rightarrow> [m])"
proof -
  have ok: "layout_ok L" and s: "src_ok L q" and n: "counts_ok L q" using inv by (simp_all add: port_inv_def)
  note p = src_okD [OF s]
  have "wslot L (length (sent q)) + words L < 2 ^ 30" using wslot_bound [OF ok, of "words L" "length (sent q)"] by simp
  then have m: "words_at (src_core q) (write_buf (src_port q)) (unat (buf_size (src_port q)) div 4) = written L q"
    unfolding p(4,8) buf_words [OF ok] written_def using p(1) by (simp add: words_at_addr)
  have le: "received q \<le> length (sent q)" using n by (auto simp: counts_ok_def arrived_def split: if_splits)
  show ?thesis
  proof (cases rule: nbsend_cases [OF inv])
    case 1
    with r m have "a = None" "q' = q\<lparr>src_core := flagged L q\<rparr>" by (simp_all add: channel_send_def Let_def)
    with inv_refused [OF inv] show ?thesis by (simp add: channel_contents_def)
  next
    case (2 c)
    from r m 2(6) have a: "a = Some (written L q)" and q': "q' = q\<lparr>src_port := (src_port q)\<lparr>send_count := of_nat (length (sent q)) + 1,
       send_ptr := of_nat (Suc (length (sent q)) mod bufs L),
       write_buf := shadow_write_buf (src_port q), shadow_write_buf := write_buf (src_port q)\<rparr>,
       src_core := c, sent := sent q @ [written L q]\<rparr>"
      by (simp_all add: channel_send_def Let_def)
    show ?thesis unfolding a q' using inv_accepted [OF inv 2(1-5)] le by (simp add: channel_contents_def)
  qed
qed

section \<open>Receiving\<close>

lemma counts_okD:
  assumes "counts_ok L q"
  shows "seen q \<le> acked q" "acked q \<le> received q" "received q \<le> arrived q" "arrived q \<le> length (sent q)"
    "length (sent q) \<le> seen q + bufs L" "i < length (sent q) \<Longrightarrow> length (sent q ! i) = words L"
  using assms by (auto simp: counts_ok_def arrived_def)

lemma slots_okD:
  assumes "slots_ok L q"
  shows "acked q \<le> i \<Longrightarrow> i < arrived q \<Longrightarrow> j < words L \<Longrightarrow> spm (snk_core q) (slot L i + j) = sent q ! i ! j"
    "received q \<le> i \<Longrightarrow> i < arrived q \<Longrightarrow> spm (snk_core q) (slot L i + words L) = FLAG_VALID"
    "arrived q \<le> i \<Longrightarrow> i < received q + bufs L \<Longrightarrow> spm (snk_core q) (slot L i + words L) = FLAG_INVALID"
  using assms by (auto simp: slots_ok_def)

text \<open>The sink after taking the next message: its flag is cleared.\<close>

definition unflagged :: "layout \<Rightarrow> channel \<Rightarrow> noc_core" where
  "unflagged L q = (snk_core q)\<lparr>spm := (spm (snk_core q))(slot L (received q) + words L := FLAG_INVALID)\<rparr>"

lemma unflagged_simps [simp]:
  "dma_job (unflagged L q) d = dma_job (snk_core q) d" "spm_base (unflagged L q) = spm_base (snk_core q)"
  by (simp_all add: unflagged_def)

lemma nbrecv_result:
  assumes inv: "port_inv L q"
  shows "mp_nbrecv (snk_port q) (snk_core q) =
    (if received q = arrived q then (False, snk_port q, snk_core q)
     else (True, (snk_port q)\<lparr>recv_ptr := of_nat (Suc (received q) mod bufs L),
             read_buf := spm_addr (base L) (slot L (received q))\<rparr>, unflagged L q))"
proof -
  have ok: "layout_ok L" and s: "snk_ok L q" and n: "counts_ok L q" and sl: "slots_ok L q"
    using inv by (simp_all add: port_inv_def)
  note b = layout_bounds [OF ok]
  note p = snk_okD [OF s]
  note flags = slots_okD(2,3) [OF sl, of "received q"] counts_okD(3) [OF n]
  have lt: "slot L (received q) + words L < 2 ^ 30" using slot_bound [OF ok, of "words L" "received q"] by simp
  have valid: "FLAG_VALID \<noteq> FLAG_INVALID" by (simp add: FLAG_VALID_def FLAG_INVALID_def)
  have "spm (snk_core q) (slot L (received q) + words L) = FLAG_INVALID \<longleftrightarrow> received q = arrived q"
    using flags valid b(3) by (cases "received q = arrived q") auto
  with spm_rd_addr [OF p(1) lt]
  have rd: "spm_rd (snk_core q) (spm_addr (base L) (slot L (received q) + words L)) = FLAG_INVALID \<longleftrightarrow> received q = arrived q"
    by simp
  show ?thesis
    unfolding mp_nbrecv_def Let_def p(2,5,6,7) flagged_size slot_addr spm_addr_add next_slot_mod [OF b(3,2)] rd
      spm_wr_addr [OF p(1) lt] unflagged_def ..
qed

lemma inv_received:
  assumes inv: "port_inv L q" and more: "received q < arrived q"
  shows "port_inv L (q\<lparr>snk_port := (snk_port q)\<lparr>recv_ptr := of_nat (Suc (received q) mod bufs L),
       read_buf := spm_addr (base L) (slot L (received q))\<rparr>,
     snk_core := unflagged L q, received := received q + 1\<rparr>)" (is "port_inv L ?q")
proof -
  have ok: "layout_ok L" and s: "snk_ok L q" and n: "counts_ok L q" and sl: "slots_ok L q"
    using inv by (simp_all add: port_inv_def)
  note p = snk_okD [OF s] and c = counts_okD [OF n] and f = slots_okD [OF sl]
  have d: "arrived ?q = arrived q" by (simp add: arrived_def)
  have other: "spm (unflagged L q) (slot L i + j) = spm (snk_core q) (slot L i + j)" if "j < words L" for i j
    using that slot_eq [of j L "words L" i "received q"] by (simp add: unflagged_def)
  have flag: "spm (unflagged L q) (slot L i + words L) =
      (if i mod bufs L = received q mod bufs L then FLAG_INVALID else spm (snk_core q) (slot L i + words L))" for i
    using slot_eq [of "words L" L "words L" i "received q"] by (simp add: unflagged_def)
  have "rcount_at L \<noteq> slot L (received q) + words L" using slot_less [OF ok, of "words L" "received q"] by simp
  then have "snk_ok L ?q" using p by (simp add: snk_ok_def unflagged_def del: of_nat_mult)
  moreover have "counts_ok L ?q" unfolding counts_ok_def d using n more by (simp add: counts_ok_def)
  moreover have "data_job_ok L ?q"
    using inv other by (auto simp: port_inv_def data_job_ok_def Let_def split: option.splits)
  moreover have "slots_ok L ?q"
    unfolding slots_ok_def d
  proof (intro conjI allI impI)
    fix i j
    assume "acked ?q \<le> i \<and> i < arrived q" "j < words L"
    then show "spm (snk_core ?q) (slot L i + j) = sent ?q ! i ! j" using f(1) other by simp
  next
    fix i
    assume i: "received ?q \<le> i \<and> i < arrived q"
    then have "received q mod bufs L \<noteq> i mod bufs L" using c by (subst near_mod_eq) auto
    then show "spm (snk_core ?q) (slot L i + words L) = FLAG_VALID" using i f(2) [of i] by (simp add: flag)
  next
    fix i
    assume i: "arrived q \<le> i \<and> i < received ?q + bufs L"
    show "spm (snk_core ?q) (slot L i + words L) = FLAG_INVALID"
    proof (cases "i = received q + bufs L")
      case True
      then show ?thesis by (simp add: flag)
    next
      case False
      with i f(3) [of i] show ?thesis by (simp add: flag)
    qed
  qed
  ultimately show ?thesis using inv by (simp add: port_inv_def src_ok_def ack_job_ok_def cong: option.case_cong)
qed

lemma slot_words:
  assumes "port_inv L q" and "acked q \<le> i" and "i < arrived q"
  shows "map (\<lambda>j. spm (snk_core q) (slot L i + j)) [0..<words L] = sent q ! i"
  using assms slots_okD(1) [of L q i] counts_okD(4,6) [of L q]
  by (intro nth_equalityI) (auto simp: port_inv_def)

lemma channel_recv_law:
  assumes inv: "port_inv L q" and r: "channel_recv q = (a, q')"
  shows "port_inv L q' \<and> channel_contents q = (case a of None \<Rightarrow> [] | Some m \<Rightarrow> [m]) @ channel_contents q'"
proof (cases "received q = arrived q")
  case True
  with r nbrecv_result [OF inv] have "a = None" "q' = q" by (simp_all add: channel_recv_def Let_def)
  with inv show ?thesis by simp
next
  case False
  have ok: "layout_ok L" and s: "snk_ok L q" and n: "counts_ok L q" using inv by (simp_all add: port_inv_def)
  note p = snk_okD [OF s] and c = counts_okD [OF n]
  have more: "received q < arrived q" using False c by simp
  define q1 where "q1 = q\<lparr>snk_port := (snk_port q)\<lparr>recv_ptr := of_nat (Suc (received q) mod bufs L),
       read_buf := spm_addr (base L) (slot L (received q))\<rparr>,
     snk_core := unflagged L q, received := received q + 1\<rparr>"
  have inv1: "port_inv L q1" unfolding q1_def by (rule inv_received [OF inv more])
  have "slot L (received q) + words L < 2 ^ 30" using slot_bound [OF ok, of "words L" "received q"] by simp
  then have "words_at (unflagged L q) (spm_addr (base L) (slot L (received q))) (words L) =
      map (\<lambda>j. spm (snk_core q1) (slot L (received q) + j)) [0..<words L]"
    using p(1) by (simp add: words_at_addr q1_def)
  moreover have "arrived q1 = arrived q" by (simp add: q1_def arrived_def)
  then have "map (\<lambda>j. spm (snk_core q1) (slot L (received q) + j)) [0..<words L] = sent q1 ! received q"
    using c more by (intro slot_words [OF inv1]) (simp_all add: q1_def)
  ultimately have m: "words_at (unflagged L q) (spm_addr (base L) (slot L (received q))) (words L) = sent q ! received q"
    by (simp add: q1_def)
  have "unat (buf_size (snk_port q)) div 4 = words L" unfolding p(5) buf_words [OF ok] by simp
  with r nbrecv_result [OF inv] False m have "a = Some (sent q ! received q)" "q' = q1"
    by (simp_all add: channel_recv_def Let_def q1_def)
  then show ?thesis using inv1 c more by (simp add: channel_contents_def q1_def Cons_nth_drop_Suc)
qed

section \<open>Filling, acknowledging, transferring\<close>

lemma inv_fill:
  assumes inv: "port_inv L q"
  shows "port_inv L (channel_act (Fill i v) q)"
proof (cases "4 * i < unat (buf_size (src_port q))")
  case False
  with inv show ?thesis by simp
next
  case True
  have ok: "layout_ok L" and s: "src_ok L q" using inv by (simp_all add: port_inv_def)
  note p = src_okD [OF s]
  have i: "i < words L" using True unfolding p(4) buf_words [OF ok] by simp
  then have "wslot L (length (sent q)) + i < 2 ^ 30" using wslot_bound [OF ok, of i "length (sent q)"] by simp
  then have w: "spm_wr (write_buf (src_port q) + of_nat (4 * i)) v (src_core q) =
      (src_core q)\<lparr>spm := (spm (src_core q))(wslot L (length (sent q)) + i := v)\<rparr>"
    unfolding p(8) spm_addr_add by (rule spm_wr_addr [OF p(1)])
  have other: "wslot L (length (sent q) - 1) + j \<noteq> wslot L (length (sent q)) + i" if "sent q \<noteq> []" "j \<le> words L" for j
  proof -
    have "(length (sent q) - 1) mod 2 \<noteq> length (sent q) mod 2" using that(1) by (cases "length (sent q)") (auto simp: mod_Suc)
    with that(2) i show ?thesis by (simp add: wslot_eq)
  qed
  have ne: "count_at L \<noteq> wslot L (length (sent q)) + i" using wslot_less [OF ok, of i "length (sent q)"] i by simp
  have "port_inv L (q\<lparr>src_core := (src_core q)\<lparr>spm := (spm (src_core q))(wslot L (length (sent q)) + i := v)\<rparr>\<rparr>)"
    using p(1,10) other ne by (intro inv_src_core [OF inv]) simp_all
  with True show ?thesis unfolding channel_act.simps w by simp
qed

lemma nback_result:
  assumes inv: "port_inv L q"
  shows "(dma_job (snk_core q) (remote (snk_port q)) \<noteq> None \<and> mp_nback (snk_port q) (snk_core q) = (False, snk_core q)) \<or>
    (dma_job (snk_core q) (remote (snk_port q)) = None \<and>
      (\<exists>c. mp_nback (snk_port q) (snk_core q) = (True, c) \<and> spm_base c = base L \<and>
        spm c = (spm (snk_core q))(rcount_at L := of_nat (acked q + 1)) \<and>
        dma_job c (remote (snk_port q)) = Some (count_at L, rcount_at L, 1)))"
proof (cases "dma_job (snk_core q) (remote (snk_port q))")
  case (Some job)
  then have "mp_nback (snk_port q) (snk_core q) = (False, snk_core q)" by (simp add: mp_nback_def dma_done_iff)
  with Some show ?thesis by simp
next
  case None
  have ok: "layout_ok L" and s: "snk_ok L q" using inv by (simp_all add: port_inv_def)
  note p = snk_okD [OF s] and b = layout_bounds [OF ok]
  have lt: "rcount_at L < 2 ^ 30" using b(4) by simp
  define c1 where "c1 = (snk_core q)\<lparr>spm := (spm (snk_core q))(rcount_at L := of_nat (acked q + 1))\<rparr>"
  have w: "spm_wr (recv_count (snk_port q)) (spm_rd (snk_core q) (recv_count (snk_port q)) + 1) (snk_core q) = c1"
    unfolding p(4) spm_rd_addr [OF p(1) lt] spm_wr_addr [OF p(1) lt] p(8) c1_def by (simp add: add.commute)
  obtain r c where n: "noc_nbwrite (remote (snk_port q)) (spm_addr (base L) (count_at L)) (spm_addr (base L) (rcount_at L)) 4 1 c1 = (r, c)"
    by fastforce
  have "case (r, c) of (r, c) \<Rightarrow> (r \<longleftrightarrow> dma_job c1 (remote (snk_port q)) = None) \<and>
      (r \<longrightarrow> dma_job c (remote (snk_port q)) = Some (count_at L, rcount_at L, 1) \<and>
        c = c1\<lparr>dma_table := dma_table c\<rparr>) \<and> (\<not> r \<longrightarrow> c = c1)"
    unfolding n [symmetric] using b p(1) by (intro nbwrite_job) (simp_all add: c1_def)
  with None have r: "r" "dma_job c (remote (snk_port q)) = Some (count_at L, rcount_at L, 1)" and c: "c = c1\<lparr>dma_table := dma_table c\<rparr>"
    by (simp_all add: c1_def)
  from c obtain t where "c = c1\<lparr>dma_table := t\<rparr>" by blast
  then have "spm c = (spm (snk_core q))(rcount_at L := of_nat (acked q + 1))" "spm_base c = base L"
    using p(1) by (simp_all add: c1_def)
  moreover have "mp_nback (snk_port q) (snk_core q) = (True, c)"
    unfolding mp_nback_def Let_def w unfolding p(3,4) n using None r(1) by (simp add: dma_done_iff)
  ultimately show ?thesis using None r(2) by auto
qed

lemma inv_acknowledged:
  assumes inv: "port_inv L q" and less: "acked q < received q"
    and c: "spm_base c = base L" "spm c = (spm (snk_core q))(rcount_at L := of_nat (acked q + 1))"
      "dma_job c (remote (snk_port q)) = Some (count_at L, rcount_at L, 1)"
  shows "port_inv L (q\<lparr>snk_core := c, acked := acked q + 1\<rparr>)" (is "port_inv L ?q")
proof -
  have ok: "layout_ok L" and s: "snk_ok L q" and sl: "slots_ok L q" using inv by (simp_all add: port_inv_def)
  note p = snk_okD [OF s] and f = slots_okD [OF sl]
  have d: "arrived ?q = arrived q" by (simp add: arrived_def)
  have other: "spm c (slot L i + j) = spm (snk_core q) (slot L i + j)" if "j \<le> words L" for i j
    using slot_less [OF ok that, of i] by (simp add: c)
  have "snk_ok L ?q" using p c by (simp add: snk_ok_def add.commute del: of_nat_mult)
  moreover have "counts_ok L ?q" unfolding counts_ok_def d using inv less by (simp add: port_inv_def counts_ok_def)
  moreover have "data_job_ok L ?q"
    using inv other by (auto simp: port_inv_def data_job_ok_def Let_def split: option.splits)
  moreover have "slots_ok L ?q" unfolding slots_ok_def d using f other by simp
  moreover have "ack_job_ok L ?q" using inv c by (simp add: port_inv_def ack_job_ok_def)
  ultimately show ?thesis using inv by (simp add: port_inv_def src_ok_def)
qed

lemma inv_acknowledge: "port_inv L q \<Longrightarrow> port_inv L (channel_act Acknowledge q)"
  using nback_result [of L q] inv_acknowledged [of L q] by auto

lemma inv_ack_word:
  assumes inv: "port_inv L q"
  shows "port_inv L (channel_act Ack_Word q)"
proof (cases "dma_job (snk_core q) (remote (snk_port q))")
  case None
  with inv have "channel_act Ack_Word q = q" by (simp add: port_inv_def ack_job_ok_def move_word_def)
  with inv show ?thesis by simp
next
  case (Some job)
  have ok: "layout_ok L" and s: "src_ok L q" and k: "snk_ok L q" and n: "counts_ok L q"
    using inv by (simp_all add: port_inv_def)
  note p = src_okD [OF s]
  have j: "job = (count_at L, rcount_at L, 1)" "snk_moved q = 0" using inv Some by (simp_all add: port_inv_def ack_job_ok_def)
  define c where "c = (src_core q)\<lparr>spm := (spm (src_core q))(count_at L := of_nat (acked q))\<rparr>"
  have act: "channel_act Ack_Word q = q\<lparr>snk_core := dma_finish (remote (snk_port q)) (snk_core q), snk_moved := 0,
      src_core := c, seen := acked q\<rparr>" (is "_ = ?q")
    using Some j snk_okD(8) [OF k] by (simp add: move_word_def c_def)
  have d: "arrived ?q = arrived q" by (simp add: arrived_def c_def)
  have other: "spm c (wslot L i + j) = spm (src_core q) (wslot L i + j)" if "j \<le> words L" for i j
    using wslot_less [OF ok that, of i] by (simp add: c_def)
  have "src_ok L ?q" using p by (simp add: src_ok_def c_def del: of_nat_mult)
  moreover have "snk_ok L ?q" using k by (simp add: snk_ok_def)
  moreover have "counts_ok L ?q" unfolding counts_ok_def d using counts_okD [OF n] n by (simp add: counts_ok_def)
  moreover have "dma_job c d = dma_job (src_core q) d" for d by (simp add: c_def)
  then have "data_job_ok L ?q"
    using inv other by (auto simp: port_inv_def data_job_ok_def Let_def split: option.splits)
  moreover have "slots_ok L ?q" using inv unfolding port_inv_def slots_ok_def d by simp
  ultimately show ?thesis unfolding act using ok by (simp add: port_inv_def ack_job_ok_def)
qed

text \<open>A word of the message under way arrives; the last one is the flag.\<close>

lemma data_job_cases:
  assumes inv: "port_inv L q"
  obtains (none) "dma_job (src_core q) (remote (src_port q)) = None" "src_moved q = 0"
  | (some) n where "length (sent q) = Suc n" "arrived q = n"
      "dma_job (src_core q) (remote (src_port q)) = Some (slot L n, wslot L n, words L + 1)"
      "src_moved q \<le> words L" "\<forall>j \<le> words L. spm (src_core q) (wslot L n + j) = (sent q ! n @ [FLAG_VALID]) ! j"
      "\<forall>j < src_moved q. spm (snk_core q) (slot L n + j) = sent q ! n ! j"
proof (cases "dma_job (src_core q) (remote (src_port q))")
  case None
  with inv show thesis by (intro none) (simp_all add: port_inv_def data_job_ok_def)
next
  case (Some job)
  with inv have j: "sent q \<noteq> []" "job = (slot L (length (sent q) - 1), wslot L (length (sent q) - 1), words L + 1)"
      "src_moved q \<le> words L"
      "\<forall>j \<le> words L. spm (src_core q) (wslot L (length (sent q) - 1) + j) = (sent q ! (length (sent q) - 1) @ [FLAG_VALID]) ! j"
      "\<forall>j < src_moved q. spm (snk_core q) (slot L (length (sent q) - 1) + j) = sent q ! (length (sent q) - 1) ! j"
    by (simp_all add: port_inv_def data_job_ok_def Let_def)
  then obtain n where n: "length (sent q) = Suc n" by (cases "sent q") auto
  with Some j show thesis by (intro some [of n]) (simp_all add: arrived_def)
qed

lemma inv_data_word:
  assumes inv: "port_inv L q"
  shows "port_inv L (channel_act Data_Word q)"
proof (cases rule: data_job_cases [OF inv])
  case 1
  then have "channel_act Data_Word q = q" by (simp add: move_word_def)
  with inv show ?thesis by simp
next
  case (2 n)
  have ok: "layout_ok L" and s: "src_ok L q" and k: "snk_ok L q" and c: "counts_ok L q" and sl: "slots_ok L q"
    using inv by (simp_all add: port_inv_def)
  note ct = counts_okD [OF c] and f = slots_okD [OF sl]
  define m where "m = src_moved q"
  define v where "v = (sent q ! n @ [FLAG_VALID]) ! m"
  define r where "r = (snk_core q)\<lparr>spm := (spm (snk_core q))(slot L n + m := v)\<rparr>"
  have m: "m \<le> words L" using 2(4) by (simp add: m_def)
  have v: "spm (src_core q) (wslot L n + m) = v" using 2(5) m by (simp add: v_def)
  have len: "length (sent q ! n) = words L" using ct(6) [of n] 2(1) by simp
  have rspm: "spm r (slot L i + j) = (if i mod bufs L = n mod bufs L \<and> j = m then v else spm (snk_core q) (slot L i + j))"
    if "j \<le> words L" for i j
    using slot_eq [OF that m] by (simp add: r_def)
  have near: "i mod bufs L \<noteq> n mod bufs L" if "acked q \<le> i" "i < n" for i
    using that ct 2(1) by (subst near_mod_eq) auto
  have after: "i mod bufs L \<noteq> n mod bufs L" if "n < i" "i < received q + bufs L" for i
    using that ct 2(2) near_mod_eq [of n i "bufs L"] by auto
  have rcount: "spm r (rcount_at L) = spm (snk_core q) (rcount_at L)"
    using slot_less [OF ok m, of n] by (simp add: r_def)
  have snk: "snk_ok L (q\<lparr>src_core := c', src_moved := m', snk_core := r\<rparr>)" for c' m'
    using k rcount by (simp add: snk_ok_def r_def)
  have src: "src_ok L (q\<lparr>src_core := c', src_moved := m', snk_core := r\<rparr>)"
    if "spm c' = spm (src_core q)" "spm_base c' = spm_base (src_core q)" for c' m'
    using s that by (simp add: src_ok_def)
  have job: "dma_job r d = dma_job (snk_core q) d" for d by (simp add: r_def)
  have ack: "ack_job_ok L (q\<lparr>src_core := c', src_moved := m', snk_core := r\<rparr>)" for c' m'
    using inv by (simp add: port_inv_def ack_job_ok_def job cong: option.case_cong)
  show ?thesis
  proof (cases "m < words L")
    case True
    then have act: "channel_act Data_Word q = q\<lparr>src_core := src_core q, src_moved := m + 1, snk_core := r\<rparr>" (is "_ = ?q")
      using 2(3) v by (simp add: move_word_def r_def m_def)
    have d: "arrived ?q = n" using 2(1,3) by (simp add: arrived_def)
    have "v = sent q ! n ! m" using True len by (simp add: v_def nth_append)
    then have "data_job_ok L ?q"
      using 2 True rspm m by (auto simp: data_job_ok_def less_Suc_eq m_def)
    moreover have "counts_ok L ?q" unfolding counts_ok_def d using c 2(2) by (simp add: counts_ok_def)
    moreover have "slots_ok L ?q"
      unfolding slots_ok_def d using f near True 2(2) by (simp add: rspm)
    ultimately show ?thesis unfolding act port_inv_def using ok by (intro conjI snk src ack) simp_all
  next
    case False
    with m have mw: "m = words L" by simp
    define c' where "c' = dma_finish (remote (src_port q)) (src_core q)"
    have act: "channel_act Data_Word q = q\<lparr>src_core := c', src_moved := 0, snk_core := r\<rparr>" (is "_ = ?q")
      using 2(3) v mw by (simp add: move_word_def r_def m_def c'_def)
    have d: "arrived ?q = Suc n" using 2(1) by (simp add: arrived_def c'_def)
    have v: "v = FLAG_VALID" using len mw by (simp add: v_def nth_append)
    have "data_job_ok L ?q" by (simp add: data_job_ok_def c'_def)
    moreover have "counts_ok L ?q" unfolding counts_ok_def d using c 2(2) by (simp add: counts_ok_def)
    moreover have "slots_ok L ?q"
      unfolding slots_ok_def d
    proof (intro conjI allI impI)
      fix i j
      assume i: "acked ?q \<le> i \<and> i < Suc n" and j: "j < words L"
      show "spm (snk_core ?q) (slot L i + j) = sent ?q ! i ! j"
      proof (cases "i = n")
        case True
        with 2(6) j mw show ?thesis by (simp add: rspm m_def)
      next
        case False
        with i j f(1) [of i j] 2(2) mw show ?thesis by (simp add: rspm)
      qed
    next
      fix i
      assume i: "received ?q \<le> i \<and> i < Suc n"
      then show "spm (snk_core ?q) (slot L i + words L) = FLAG_VALID"
        using f(2) [of i] 2(2) mw v by (cases "i = n") (simp_all add: rspm)
    next
      fix i
      assume i: "Suc n \<le> i \<and> i < received ?q + bufs L"
      then show "spm (snk_core ?q) (slot L i + words L) = FLAG_INVALID"
        using f(3) [of i] after [of i] 2(2) by (simp add: rspm)
    qed
    ultimately show ?thesis unfolding act port_inv_def using ok by (intro conjI snk src ack) (simp_all add: c'_def)
  qed
qed

lemma channel_act_law: "port_inv L q \<Longrightarrow> port_inv L (channel_act a q) \<and> channel_contents (channel_act a q) = channel_contents q"
proof -
  assume inv: "port_inv L q"
  have "port_inv L (channel_act a q)"
    using inv_fill [OF inv] inv_acknowledge [OF inv] inv_data_word [OF inv] inv_ack_word [OF inv] by (cases a) auto
  moreover have "sent (channel_act a q) = sent q \<and> received (channel_act a q) = received q"
    by (cases a) (simp_all add: Let_def split: prod.split)
  ultimately show ?thesis by (simp add: channel_contents_def)
qed

interpretation mpq: fifo_channel "port_inv L" channel_contents "\<lambda>_. True" channel_send channel_recv channel_act for L
  by unfold_locales (use channel_send_law channel_recv_law channel_act_law in blast)+

end
