(* ===== verification/Mp_Channel.thy ===== *)
theory Mp_Channel
  imports Mp_Queue
begin

text \<open>
  From the creation of the two ports of a channel to its runs: \<open>mp_create_qport\<close> on both cores and the
  connection by \<open>mp_init_ports\<close> set up the invariant of \<open>Mp_Queue\<close>, so that every run of the calls of
  both clients and of the network delivers the messages unchanged and in order.
\<close>

section \<open>Allocation\<close>

lemma and_not_3: "(y :: u32) AND NOT 3 = push_bit 2 (drop_bit 2 y)"
proof -
  have m: "(3 :: u32) = mask 2" by (simp add: mask_eq_exp_minus_1)
  show ?thesis unfolding m
    by (intro bit_word_eqI) (auto simp: bit_and_iff bit_not_iff bit_mask_iff bit_push_bit_iff bit_drop_bit_eq
      simp flip: add_2_eq_Suc)
qed

lemma walign_words:
  assumes "unat x < 2 ^ 31"
  shows "walign x = of_nat (4 * ((unat x + 3) div 4))"
proof -
  have u: "unat (x + 3) = unat x + 3" using assms by (subst unat_add_lem [THEN iffD1]) simp_all
  have "walign x = drop_bit 2 (x + 3) * 4" unfolding walign_def and_not_3 by (simp add: push_bit_eq_mult)
  also have "drop_bit 2 (x + 3) = of_nat (unat (drop_bit 2 (x + 3)))" by simp
  also have "unat (drop_bit 2 (x + 3)) = (unat x + 3) div 4" unfolding unsigned_drop_bit_eq u using assms by (simp add: drop_bit_eq_div take_bit_eq_mod)
  finally show ?thesis by (simp add: mult.commute)
qed

text \<open>
  A core whose allocator stands at word \<open>k\<close> and has room for \<open>n\<close> more, in a memory the driver can
  address.
\<close>

definition has_room :: "nat \<Rightarrow> nat \<Rightarrow> mp_core \<Rightarrow> bool" where
  "has_room k n c \<longleftrightarrow>
     spm_base (noc c) \<noteq> 0 \<and> alloc_ptr c = spm_addr (spm_base (noc c)) k \<and> k + n \<le> 2 ^ 14 \<and>
     4 * (k + n) \<le> 4 * unat (spm_size c) \<and> unat (spm_base (noc c)) + 4 * unat (spm_size c) < 2 ^ 32"

lemma unat_base_add: "unat (b :: u32) + x < 2 ^ 32 \<Longrightarrow> unat (b + of_nat x) = unat b + x"
  by (subst unat_add_lem [THEN iffD1]) (simp_all add: unat_u32)

lemma mp_alloc_room:
  assumes room: "has_room k (n + r) c"
  shows "mp_alloc (of_nat (4 * n)) c = (spm_addr (spm_base (noc c)) k, c\<lparr>alloc_ptr := spm_addr (spm_base (noc c)) (k + n)\<rparr>)"
    and "has_room (k + n) r (c\<lparr>alloc_ptr := spm_addr (spm_base (noc c)) (k + n)\<rparr>)"
    and "spm_addr (spm_base (noc c)) k \<noteq> 0"
proof -
  define b where "b = spm_base (noc c)"
  have h: "b \<noteq> 0" "alloc_ptr c = spm_addr b k" "k + (n + r) \<le> 2 ^ 14"
      "4 * (k + (n + r)) \<le> 4 * unat (spm_size c)" "unat b + 4 * unat (spm_size c) < 2 ^ 32"
    using room by (simp_all add: has_room_def b_def)
  have u: "unat (of_nat (4 * n) :: u32) = 4 * n" using h(3) by (intro unat_u32) simp
  have w: "walign (of_nat (4 * n)) = of_nat (4 * n)"
  proof -
    have "(4 * n + 3) div 4 = n" by simp
    with walign_words [of "of_nat (4 * n)"] u h(3) show ?thesis by (simp only:) simp
  qed
  have top: "unat (spm_addr b (k + n)) = unat b + 4 * (k + n)"
    unfolding spm_addr_def using h by (intro unat_base_add) simp
  have "4 * spm_size c = of_nat (4 * unat (spm_size c))" by simp
  then have lim: "unat (b + 4 * spm_size c) = unat b + 4 * unat (spm_size c)"
    using h(5) unat_base_add by metis
  have new: "spm_addr b k + of_nat (4 * n) = spm_addr b (k + n)" by (rule spm_addr_add)
  have c1: "\<not> spm_addr b (k + n) < b" using top by (simp add: word_less_nat_alt)
  have c2: "\<not> b + 4 * spm_size c < spm_addr b (k + n)" using top lim h by (simp add: word_less_nat_alt)
  show "mp_alloc (of_nat (4 * n)) c = (spm_addr (spm_base (noc c)) k, c\<lparr>alloc_ptr := spm_addr (spm_base (noc c)) (k + n)\<rparr>)"
    unfolding mp_alloc_def w h(2) Let_def b_def [symmetric] new using c1 c2 by simp
  show "has_room (k + n) r (c\<lparr>alloc_ptr := spm_addr (spm_base (noc c)) (k + n)\<rparr>)"
    using room by (simp add: has_room_def)
  have "unat (spm_addr b k) = unat b + 4 * k"
    unfolding spm_addr_def using h by (intro unat_base_add) simp
  moreover have "unat b \<noteq> 0" using h(1) by (simp add: unat_eq_0)
  ultimately show "spm_addr (spm_base (noc c)) k \<noteq> 0" unfolding b_def by (metis add_is_0 unat_0)
qed

section \<open>Creation\<close>

definition words_of :: "u32 \<Rightarrow> nat" where
  "words_of msg_size = (unat msg_size + 3) div 4"

definition channel_layout :: "u32 \<Rightarrow> u32 \<Rightarrow> u32 \<Rightarrow> nat \<Rightarrow> nat \<Rightarrow> layout" where
  "channel_layout b msg_size n ka kb = \<lparr>base = b, words = words_of msg_size, bufs = unat n, wbase = ka + 10, rbase = kb + 10\<rparr>"

definition source_words :: "u32 \<Rightarrow> nat" where
  "source_words msg_size = 10 + ((words_of msg_size + 1) * 2 + 1)"

definition sink_words :: "u32 \<Rightarrow> u32 \<Rightarrow> nat" where
  "sink_words msg_size n = 10 + ((words_of msg_size + 1) * unat n + 1)"

lemma sizes:
  assumes "buf_size p = of_nat (4 * w)"
  shows "mp_send_alloc_size p = of_nat (4 * ((w + 1) * 2 + 1))"
    and "mp_recv_alloc_size p = of_nat (4 * ((w + 1) * unat (num_buf p) + 1))"
    and "(buf_size p + FLAG_SIZE) * NUM_WRITE_BUF = of_nat (4 * ((w + 1) * 2))"
    and "(buf_size p + FLAG_SIZE) * num_buf p = of_nat (4 * ((w + 1) * unat (num_buf p)))"
    and "buf_size p + FLAG_SIZE = of_nat (4 * (w + 1))"
proof -
  have w4: "walign 4 = 4" by (simp add: walign_def)
  show "mp_send_alloc_size p = of_nat (4 * ((w + 1) * 2 + 1))"
    by (simp add: mp_send_alloc_size_def assms FLAG_SIZE_eq NUM_WRITE_BUF_def w4 algebra_simps)
  show "mp_recv_alloc_size p = of_nat (4 * ((w + 1) * unat (num_buf p) + 1))"
    by (simp add: mp_recv_alloc_size_def assms FLAG_SIZE_eq w4 algebra_simps)
  show "(buf_size p + FLAG_SIZE) * NUM_WRITE_BUF = of_nat (4 * ((w + 1) * 2))"
    by (simp add: assms FLAG_SIZE_eq NUM_WRITE_BUF_def algebra_simps)
  show "(buf_size p + FLAG_SIZE) * num_buf p = of_nat (4 * ((w + 1) * unat (num_buf p)))"
    by (simp add: assms FLAG_SIZE_eq algebra_simps)
  show "buf_size p + FLAG_SIZE = of_nat (4 * (w + 1))" by (simp add: assms FLAG_SIZE_eq)
qed

text \<open>The descriptors as they are created, before the ends know each other.\<close>

definition source_port :: "layout \<Rightarrow> qpd_t" where
  "source_port L = new_qpd\<lparr>direction_type := SOURCE, buf_size := of_nat (4 * words L), num_buf := of_nat (bufs L),
     send_recv_count := spm_addr (base L) (count_at L), send_count := 0, send_ptr := 0,
     write_buf := spm_addr (base L) (wbase L), shadow_write_buf := spm_addr (base L) (wbase L + (words L + 1))\<rparr>"

definition sink_port :: "layout \<Rightarrow> qpd_t" where
  "sink_port L = new_qpd\<lparr>direction_type := SINK, buf_size := of_nat (4 * words L), num_buf := of_nat (bufs L),
     recv_addr := spm_addr (base L) (rbase L), read_buf := spm_addr (base L) (rbase L), recv_ptr := 0,
     recv_count := spm_addr (base L) (rcount_at L)\<rparr>"

lemma create_source_result:
  assumes room: "has_room ka (source_words msg_size) c" and chan: "chan_id < MAX_CHANNELS" and msg: "unat msg_size < 2 ^ 31"
    and L: "L = channel_layout (spm_base (noc c)) msg_size n ka kb"
  shows "\<exists>k. mp_create_qport chan_id SOURCE msg_size n c chans =
    (Some (source_port L),
     c\<lparr>alloc_ptr := k, noc := (noc c)\<lparr>spm := (spm (noc c))(count_at L := 0)\<rparr>\<rparr>,
     chans(chan_id := (chans chan_id)\<lparr>port_type := QUEUING, src_qpd_ptr := Some (source_port L),
       src_addr := spm_addr (base L) (count_at L), src_id := sint (ucast (core_id (noc c)) :: u8)\<rparr>))"
proof -
  define b where "b = spm_base (noc c)"
  define w where "w = words_of msg_size"
  have al: "walign msg_size = of_nat (4 * w)" using walign_words [OF msg] by (simp add: w_def words_of_def)
  have room: "has_room ka (10 + ((w + 1) * 2 + 1)) c" using room by (simp add: source_words_def w_def)
  have s40: "sizeof_qpd = of_nat (4 * 10)" by (simp add: sizeof_qpd_def)
  define c1 where "c1 = c\<lparr>alloc_ptr := spm_addr b (ka + 10)\<rparr>"
  note a1 = mp_alloc_room [OF room, folded b_def, folded c1_def]
  have b1: "spm_base (noc c1) = b" "noc c1 = noc c" by (simp_all add: c1_def b_def)
  define c2 where "c2 = c1\<lparr>alloc_ptr := spm_addr b (ka + 10 + ((w + 1) * 2 + 1))\<rparr>"
  have "has_room (ka + 10) ((w + 1) * 2 + 1 + 0) c1" using a1(2) by simp
  note a2 = mp_alloc_room [OF this, unfolded b1(1), folded c2_def]
  have n2: "noc c2 = noc c" by (simp add: c2_def b1)
  have cnt: "count_at L = ka + 10 + (w + 1) * 2" by (simp add: L channel_layout_def count_at_def w_def)
  have lt: "ka + 10 + (w + 1) * 2 < 2 ^ 30" using room by (simp add: has_room_def)
  define p where "p = new_qpd\<lparr>direction_type := SOURCE, buf_size := of_nat (4 * w), num_buf := n\<rparr>"
  have bs: "buf_size p = of_nat (4 * w)" by (simp add: p_def)
  note sz = sizes [OF bs]
  define sh where "sh = ka + 10 + (w + 1)"
  have bL: "base L = b" by (simp add: L channel_layout_def b_def)
  have sp: "source_port L = p\<lparr>send_recv_count := spm_addr b (count_at L), send_count := 0, send_ptr := 0,
     write_buf := spm_addr b (ka + 10), shadow_write_buf := spm_addr b sh\<rparr>"
    by (simp add: source_port_def p_def bL sh_def) (simp add: L channel_layout_def w_def)
  have e1: "spm_addr b (ka + 10) + (buf_size p + FLAG_SIZE) * NUM_WRITE_BUF = spm_addr b (count_at L)"
    unfolding sz(3) spm_addr_add cnt ..
  have e2: "spm_addr b (ka + 10) + (buf_size p + FLAG_SIZE) = spm_addr b sh"
    unfolding sz(5) spm_addr_add sh_def ..
  have wr: "spm_wr (spm_addr b (count_at L)) 0 (noc c) = (noc c)\<lparr>spm := (spm (noc c))(count_at L := 0)\<rparr>"
    unfolding cnt by (rule spm_wr_addr [OF b_def [symmetric] lt])
  have "create_source p c1 i =
    (Some (source_port L), c2\<lparr>noc := (noc c)\<lparr>spm := (spm (noc c))(count_at L := 0)\<rparr>\<rparr>,
     i\<lparr>src_qpd_ptr := Some (source_port L), src_addr := spm_addr (base L) (count_at L),
       src_id := sint (ucast (core_id (noc c)) :: u8)\<rparr>)" for i
    unfolding create_source_def sz(1) a2(1) using a2(3)
    by (simp add: e1 e2 n2 Let_def sp bL wr)
  then have "mp_create_qport chan_id SOURCE msg_size n c chans =
    (Some (source_port L), c2\<lparr>noc := (noc c)\<lparr>spm := (spm (noc c))(count_at L := 0)\<rparr>\<rparr>,
     chans(chan_id := (chans chan_id)\<lparr>port_type := QUEUING, src_qpd_ptr := Some (source_port L),
       src_addr := spm_addr (base L) (count_at L), src_id := sint (ucast (core_id (noc c)) :: u8)\<rparr>))"
    using chan a1(3) unfolding mp_create_qport_def s40 a1(1) al
    by (simp add: p_def [symmetric] del: of_nat_mult)
  then show ?thesis by (simp add: c2_def c1_def) blast
qed

text \<open>The sink clears the flags of all its buffers.\<close>

definition no_flags :: "layout \<Rightarrow> nat \<Rightarrow> (nat \<Rightarrow> u32) \<Rightarrow> nat \<Rightarrow> u32" where
  "no_flags L n m = (\<lambda>x. if \<exists>i < n. x = rbase L + (words L + 1) * i + words L then 0 else m x)"

lemma clear_flags:
  assumes base: "spm_base c = b" and room: "rbase L + (words L + 1) * n < 2 ^ 30"
  shows "for_loop 0 n (\<lambda>i c. spm_wr (spm_addr b (rbase L) + of_nat (4 * (words L + 1)) * of_nat i + of_nat (4 * words L)) 0 c) c =
    c\<lparr>spm := no_flags L n (spm c)\<rparr>"
  using room
proof (induction n)
  case 0
  then show ?case by (simp add: for_loop_zero no_flags_def)
next
  case (Suc n)
  define x where "x = rbase L + (words L + 1) * n + words L"
  have x: "x < 2 ^ 30" using Suc.prems by (simp add: x_def)
  have "(of_nat (4 * (words L + 1)) :: u32) * of_nat n = of_nat (4 * ((words L + 1) * n))" by (simp add: algebra_simps)
  then have a: "spm_addr b (rbase L) + of_nat (4 * (words L + 1)) * of_nat n + of_nat (4 * words L) = spm_addr b x"
    by (simp only: spm_addr_add x_def)
  have "spm_wr (spm_addr b x) 0 (c\<lparr>spm := no_flags L n (spm c)\<rparr>) = c\<lparr>spm := (no_flags L n (spm c))(x := 0)\<rparr>"
    using base x by (simp add: spm_wr_addr)
  moreover have "(no_flags L n (spm c))(x := 0) = no_flags L (Suc n) (spm c)"
    by (auto simp: no_flags_def fun_eq_iff x_def less_Suc_eq)
  ultimately show ?case using Suc unfolding for_loop_Suc a by simp
qed

lemma create_sink_result:
  assumes room: "has_room kb (sink_words msg_size n) c" and chan: "chan_id < MAX_CHANNELS" and msg: "unat msg_size < 2 ^ 31"
    and L: "L = channel_layout (spm_base (noc c)) msg_size n ka kb"
  shows "\<exists>k. mp_create_qport chan_id SINK msg_size n c chans =
    (Some (sink_port L),
     c\<lparr>alloc_ptr := k, noc := (noc c)\<lparr>spm := no_flags L (bufs L) ((spm (noc c))(rcount_at L := 0))\<rparr>\<rparr>,
     chans(chan_id := (chans chan_id)\<lparr>port_type := QUEUING, sink_qpd_ptr := Some (sink_port L),
       sink_addr := spm_addr (base L) (rbase L), sink_id := sint (ucast (core_id (noc c)) :: u8)\<rparr>))"
proof -
  define b where "b = spm_base (noc c)"
  define w where "w = words_of msg_size"
  have al: "walign msg_size = of_nat (4 * w)" using walign_words [OF msg] by (simp add: w_def words_of_def)
  have room: "has_room kb (10 + ((w + 1) * unat n + 1)) c" using room by (simp add: sink_words_def w_def)
  have s40: "sizeof_qpd = of_nat (4 * 10)" by (simp add: sizeof_qpd_def)
  define c1 where "c1 = c\<lparr>alloc_ptr := spm_addr b (kb + 10)\<rparr>"
  note a1 = mp_alloc_room [OF room, folded b_def, folded c1_def]
  have b1: "spm_base (noc c1) = b" "noc c1 = noc c" by (simp_all add: c1_def b_def)
  define c2 where "c2 = c1\<lparr>alloc_ptr := spm_addr b (kb + 10 + ((w + 1) * unat n + 1))\<rparr>"
  have "has_room (kb + 10) ((w + 1) * unat n + 1 + 0) c1" using a1(2) by simp
  note a2 = mp_alloc_room [OF this, unfolded b1(1), folded c2_def]
  have n2: "noc c2 = noc c" by (simp add: c2_def b1)
  have Ls: "base L = b" "words L = w" "bufs L = unat n" "rbase L = kb + 10" "rcount_at L = kb + 10 + (w + 1) * unat n"
    by (simp_all add: L channel_layout_def b_def w_def rcount_at_def)
  have lt: "rbase L + (words L + 1) * unat n < 2 ^ 30" "rcount_at L < 2 ^ 30" using room by (simp_all add: has_room_def Ls)
  define p where "p = new_qpd\<lparr>direction_type := SINK, buf_size := of_nat (4 * w), num_buf := n\<rparr>"
  have bs: "buf_size p = of_nat (4 * w)" and nb: "num_buf p = n" by (simp_all add: p_def)
  note sz = sizes [OF bs, unfolded nb]
  have sp: "sink_port L = p\<lparr>recv_addr := spm_addr b (rbase L), read_buf := spm_addr b (rbase L), recv_ptr := 0,
      recv_count := spm_addr b (rcount_at L)\<rparr>"
    by (simp add: sink_port_def p_def Ls del: of_nat_mult)
  have e1: "spm_addr b (kb + 10) + (buf_size p + FLAG_SIZE) * n = spm_addr b (rcount_at L)"
    unfolding sz(4) Ls(5) spm_addr_add ..
  define m where "m = (noc c)\<lparr>spm := (spm (noc c))(rcount_at L := 0)\<rparr>"
  have wr: "spm_wr (spm_addr b (rcount_at L)) 0 (noc c) = m"
    unfolding m_def by (rule spm_wr_addr [OF b_def [symmetric] lt(2)])
  have mb: "spm_base m = b" by (simp add: m_def b_def)
  have fl: "for_loop 0 (unat n) (\<lambda>i c. spm_wr (spm_addr b (kb + 10) + (buf_size p + FLAG_SIZE) * of_nat i + buf_size p) 0 c) m =
      (noc c)\<lparr>spm := no_flags L (bufs L) ((spm (noc c))(rcount_at L := 0))\<rparr>"
    using clear_flags [OF mb lt(1), unfolded Ls(2,4)] unfolding sz(5) unfolding bs m_def Ls(3) by simp
  have "create_sink p c1 i =
    (Some (sink_port L), c2\<lparr>noc := (noc c)\<lparr>spm := no_flags L (bufs L) ((spm (noc c))(rcount_at L := 0))\<rparr>\<rparr>,
     i\<lparr>sink_qpd_ptr := Some (sink_port L), sink_addr := spm_addr (base L) (rbase L),
       sink_id := sint (ucast (core_id (noc c)) :: u8)\<rparr>)" for i
    unfolding create_sink_def sz(2) nb a2(1) using a2(3)
    by (simp add: nb e1 wr fl n2 Let_def sp Ls(1,4))
  then have "mp_create_qport chan_id SINK msg_size n c chans =
    (Some (sink_port L), c2\<lparr>noc := (noc c)\<lparr>spm := no_flags L (bufs L) ((spm (noc c))(rcount_at L := 0))\<rparr>\<rparr>,
     chans(chan_id := (chans chan_id)\<lparr>port_type := QUEUING, sink_qpd_ptr := Some (sink_port L),
       sink_addr := spm_addr (base L) (rbase L), sink_id := sint (ucast (core_id (noc c)) :: u8)\<rparr>))"
    using chan a1(3) unfolding mp_create_qport_def s40 a1(1) al
    by (simp add: p_def [symmetric] del: of_nat_mult)
  then show ?thesis by (simp add: c2_def c1_def) blast
qed

section \<open>Opening a channel\<close>

text \<open>Both ends create their ports, then each connects to the other.\<close>

definition open_channel ::
  "nat \<Rightarrow> u32 \<Rightarrow> u32 \<Rightarrow> mp_core \<Rightarrow> mp_core \<Rightarrow> (nat \<Rightarrow> chan_info_t) \<Rightarrow> channel option" where
  "open_channel chan_id msg_size n a b chans =
     (let (_, a', ch) = mp_create_qport chan_id SOURCE msg_size n a chans;
          (_, b', ch) = mp_create_qport chan_id SINK msg_size n b ch
      in do {
        i \<leftarrow> connect_qport (uint (core_id (noc a))) (ch chan_id);
        i \<leftarrow> connect_qport (uint (core_id (noc b))) i;
        p \<leftarrow> src_qpd_ptr i;
        p' \<leftarrow> sink_qpd_ptr i;
        Some \<lparr>src_core = noc a', snk_core = noc b', src_port = p, snk_port = p', src_moved = 0, snk_moved = 0,
              sent = [], received = 0, acked = 0, seen = 0\<rparr> })"

text \<open>Two cores that can open a channel.\<close>

definition can_open :: "nat \<Rightarrow> u32 \<Rightarrow> u32 \<Rightarrow> nat \<Rightarrow> nat \<Rightarrow> mp_core \<Rightarrow> mp_core \<Rightarrow> bool" where
  "can_open chan_id msg_size n ka kb a b \<longleftrightarrow>
     chan_id < MAX_CHANNELS \<and> unat msg_size < 2 ^ 31 \<and> 0 < n \<and>
     core_id (noc a) < 128 \<and> core_id (noc b) < 128 \<and> core_id (noc a) \<noteq> core_id (noc b) \<and>
     spm_base (noc a) = spm_base (noc b) \<and>
     has_room ka (source_words msg_size) a \<and> has_room kb (sink_words msg_size n) b \<and>
     dma_job (noc a) (core_id (noc b)) = None \<and> dma_job (noc b) (core_id (noc a)) = None"

lemma core_char: "x < (128 :: u32) \<Longrightarrow> sint (ucast x :: u8) = uint x"
proof -
  assume "x < 128"
  then have x: "uint x < 128" by (simp add: word_less_def)
  have "- (2 ^ 7) \<le> uint x" by (rule order_trans [of _ 0]) simp_all
  then have "signed_take_bit 7 (uint x) = uint x" using x by (intro signed_take_bit_int_eq_self) simp_all
  moreover have "sint (ucast x :: u8) = signed_take_bit 7 (uint x)"
    by (simp add: sint_uint unsigned_ucast_eq signed_take_bit_take_bit)
  ultimately show ?thesis by simp
qed

lemma opened_layout:
  assumes "can_open chan_id msg_size n ka kb a b" and L: "L = channel_layout (spm_base (noc a)) msg_size n ka kb"
  shows "layout_ok L"
  using assms by (auto simp: can_open_def has_room_def layout_ok_def count_at_def rcount_at_def source_words_def
      sink_words_def channel_layout_def unat_gt_0 word_less_nat_alt)

lemma channel_opens:
  assumes can: "can_open chan_id msg_size n ka kb a b" and L: "L = channel_layout (spm_base (noc a)) msg_size n ka kb"
  shows "\<exists>q. open_channel chan_id msg_size n a b chans = Some q \<and> port_inv L q \<and> channel_contents q = [] \<and>
    sent q = [] \<and> received q = 0 \<and> acked q = 0"
proof -
  have h: "chan_id < MAX_CHANNELS" "unat msg_size < 2 ^ 31" "has_room ka (source_words msg_size) a"
      "has_room kb (sink_words msg_size n) b" "spm_base (noc a) = spm_base (noc b)"
      "core_id (noc a) < 128" "core_id (noc b) < 128" "core_id (noc a) \<noteq> core_id (noc b)"
      "dma_job (noc a) (core_id (noc b)) = None" "dma_job (noc b) (core_id (noc a)) = None"
    using can by (simp_all add: can_open_def)
  note ids = core_char [OF h(6)] core_char [OF h(7)]
  have ne: "uint (core_id (noc a)) \<noteq> uint (core_id (noc b))" using h(8) by (simp add: word_uint_eq_iff)
  have pos: "uint x \<noteq> - 1" for x :: u32 using uint_ge_0 [of x] by linarith
  have Lb: "L = channel_layout (spm_base (noc b)) msg_size n ka kb" using L h(5) by simp
  obtain ea where ca: "mp_create_qport chan_id SOURCE msg_size n a chans =
    (Some (source_port L), a\<lparr>alloc_ptr := ea, noc := (noc a)\<lparr>spm := (spm (noc a))(count_at L := 0)\<rparr>\<rparr>,
     chans(chan_id := (chans chan_id)\<lparr>port_type := QUEUING, src_qpd_ptr := Some (source_port L),
       src_addr := spm_addr (base L) (count_at L), src_id := sint (ucast (core_id (noc a)) :: u8)\<rparr>))"
    using create_source_result [OF h(3,1,2) L] by blast
  define ch where "ch = chans(chan_id := (chans chan_id)\<lparr>port_type := QUEUING, src_qpd_ptr := Some (source_port L),
       src_addr := spm_addr (base L) (count_at L), src_id := sint (ucast (core_id (noc a)) :: u8)\<rparr>)"
  obtain eb where cb: "mp_create_qport chan_id SINK msg_size n b ch =
    (Some (sink_port L),
     b\<lparr>alloc_ptr := eb, noc := (noc b)\<lparr>spm := no_flags L (bufs L) ((spm (noc b))(rcount_at L := 0))\<rparr>\<rparr>,
     ch(chan_id := (ch chan_id)\<lparr>port_type := QUEUING, sink_qpd_ptr := Some (sink_port L),
       sink_addr := spm_addr (base L) (rbase L), sink_id := sint (ucast (core_id (noc b)) :: u8)\<rparr>))"
    using create_sink_result [OF h(4,1,2) Lb] by blast
  define q where "q = \<lparr>src_core = (noc a)\<lparr>spm := (spm (noc a))(count_at L := 0)\<rparr>,
      snk_core = (noc b)\<lparr>spm := no_flags L (bufs L) ((spm (noc b))(rcount_at L := 0))\<rparr>,
      src_port = (source_port L)\<lparr>recv_addr := spm_addr (base L) (rbase L), remote := core_id (noc b)\<rparr>,
      snk_port = (sink_port L)\<lparr>send_recv_count := spm_addr (base L) (count_at L), remote := core_id (noc a)\<rparr>,
      src_moved = 0, snk_moved = 0, sent = [], received = 0, acked = 0, seen = 0\<rparr>"
  have opened: "open_channel chan_id msg_size n a b chans = Some q"
    unfolding open_channel_def ca ch_def [symmetric] prod.case Let_def cb
    using ne pos by (simp add: connect_qport_def ch_def ids q_def)
  have ok: "layout_ok L" by (rule opened_layout [OF can L])
  have d: "arrived q = 0" using h(9) by (simp add: arrived_def q_def)
  have Ls: "base L = spm_base (noc a)" "base L = spm_base (noc b)" using L h(5) by (simp_all add: channel_layout_def)
  have w: "wslot L 0 = wbase L" "wslot L (Suc 0) = wbase L + (words L + 1)" "slot L i = rbase L + (words L + 1) * (i mod bufs L)" for i
    by (simp_all add: wslot_def slot_def)
  have "src_ok L q" by (simp add: src_ok_def q_def source_port_def w Ls)
  moreover have "rcount_at L \<noteq> rbase L + (words L + 1) * i + words L" if "i < bufs L" for i
    using block_less [OF that, of "words L" "words L + 1" "rbase L"] by (simp add: rcount_at_def)
  then have "snk_ok L q" using Ls by (auto simp: snk_ok_def q_def sink_port_def no_flags_def)
  moreover have "counts_ok L q" unfolding counts_ok_def d by (simp add: q_def)
  moreover have "data_job_ok L q" using h(9) by (simp add: data_job_ok_def q_def)
  moreover have "ack_job_ok L q" using h(10) by (simp add: ack_job_ok_def q_def)
  moreover have "slots_ok L q" unfolding slots_ok_def d
    using layout_bounds(3) [OF ok] by (auto simp: q_def w no_flags_def FLAG_INVALID_def)
  ultimately have "port_inv L q" using ok by (simp add: port_inv_def)
  with opened show ?thesis by (simp add: channel_contents_def q_def)
qed

section \<open>Runs\<close>

lemma nbsend_more:
  "sent (snd (channel_send u q)) = sent q @ (case fst (channel_send u q) of None \<Rightarrow> [] | Some m \<Rightarrow> [m])"
  "received (snd (channel_send u q)) = received q"
  by (simp_all add: channel_send_def Let_def split: prod.split)

lemma nbrecv_more:
  "sent (snd (channel_recv q)) = sent q"
  "received (snd (channel_recv q)) = received q + length (case fst (channel_recv q) of None \<Rightarrow> [] | Some m \<Rightarrow> [m])"
  by (simp_all add: channel_recv_def Let_def split: prod.split)

lemma act_more: "sent (channel_act a q) = sent q" "received (channel_act a q) = received q"
  by (cases a; simp add: Let_def split: prod.split)+

lemma run_history:
  "channel_run channel_send channel_recv channel_act ops q = (acc, out, q') \<Longrightarrow>
    sent q' = sent q @ acc \<and> received q' = received q + length out"
proof (induction ops arbitrary: q acc out)
  case Nil
  then show ?case by simp
next
  case (Cons op ops)
  show ?case
  proof (cases op)
    case (Offer i)
    obtain a q1 where o: "channel_send i q = (a, q1)" by fastforce
    obtain acc1 out1 q2 where r: "channel_run channel_send channel_recv channel_act ops q1 = (acc1, out1, q2)" by (metis prod_cases3)
    with Cons.prems Offer o have e: "q2 = q'" "out1 = out" "acc = (case a of None \<Rightarrow> acc1 | Some e \<Rightarrow> e # acc1)" by simp_all
    with Cons.IH [of q1 acc1 out1] r nbsend_more [of i q] o show ?thesis by (cases a) simp_all
  next
    case Take
    obtain x q1 where t: "channel_recv q = (x, q1)" by fastforce
    obtain acc1 out1 q2 where r: "channel_run channel_send channel_recv channel_act ops q1 = (acc1, out1, q2)" by (metis prod_cases3)
    with Cons.prems Take t have e: "q2 = q'" "acc1 = acc" "out = (case x of None \<Rightarrow> out1 | Some e \<Rightarrow> e # out1)" by simp_all
    with Cons.IH [of q1 acc1 out1] r nbrecv_more [of q] t show ?thesis by (cases x) simp_all
  next
    case (Act a)
    with Cons.IH [of "channel_act a q" acc out] Cons.prems act_more [of a q] show ?thesis by simp
  qed
qed

text \<open>What the calls answer when no transfer is under way.\<close>

lemma recv_ready:
  assumes inv: "port_inv L q" and idle: "dma_job (src_core q) (remote (src_port q)) = None" and more: "channel_contents q \<noteq> []"
  shows "fst (mp_nbrecv (snk_port q) (snk_core q))"
proof -
  have "received q \<noteq> arrived q" using idle more by (auto simp: channel_contents_def arrived_def)
  then show ?thesis by (simp add: nbrecv_result [OF inv])
qed

lemma send_ready:
  assumes inv: "port_inv L q" and idle: "dma_job (src_core q) (remote (src_port q)) = None"
    and room: "length (sent q) < seen q + bufs L"
  shows "fst (mp_nbsend (src_port q) (src_core q))"
  by (cases rule: nbsend_cases [OF inv]) (use idle room in auto)

lemma ack_arrived:
  assumes inv: "port_inv L q" and idle: "dma_job (snk_core q) (remote (snk_port q)) = None"
  shows "seen q = acked q"
  using assms by (simp add: port_inv_def ack_job_ok_def)

lemma slot_content:
  assumes inv: "port_inv L q" and i: "acked q \<le> i" "i < received q"
  shows "words_at (snk_core q) (recv_addr (snk_port q) + of_nat (4 * ((words L + 1) * (i mod bufs L)))) (words L) = sent q ! i"
proof -
  have ok: "layout_ok L" and s: "snk_ok L q" and n: "counts_ok L q" using inv by (simp_all add: port_inv_def)
  note p = snk_okD [OF s]
  have "slot L i + words L < 2 ^ 30" using slot_bound [OF ok, of "words L" i] by simp
  then have "words_at (snk_core q) (spm_addr (base L) (slot L i)) (words L) = map (\<lambda>j. spm (snk_core q) (slot L i + j)) [0..<words L]"
    using p(1) by (simp add: words_at_addr)
  also have "\<dots> = sent q ! i" using counts_okD(3) [OF n] i by (intro slot_words [OF inv]) simp_all
  finally show ?thesis unfolding p(2) spm_addr_add slot_def .
qed

text \<open>A transfer under way ends with the last word of its message.\<close>

lemma data_word_job:
  assumes "port_inv L q"
  shows "(dma_job (src_core q) (remote (src_port q)) = None \<and> channel_act Data_Word q = q) \<or>
    (src_moved q < words L \<and> src_moved (channel_act Data_Word q) = Suc (src_moved q)) \<or>
    dma_job (src_core (channel_act Data_Word q)) (remote (src_port (channel_act Data_Word q))) = None"
  by (cases rule: data_job_cases [OF assms]; cases "src_moved q < words L") (simp_all add: move_word_def Let_def)

lemma transfer_completes:
  assumes "port_inv L q" and "words L < k + src_moved q"
  shows "dma_job (src_core ((channel_act Data_Word ^^ k) q)) (remote (src_port ((channel_act Data_Word ^^ k) q))) = None"
proof -
  have none: "dma_job (src_core q) (remote (src_port q)) = None \<Longrightarrow> (channel_act Data_Word ^^ k) q = q" for k q
  proof (induction k)
    case (Suc k)
    have "channel_act Data_Word q = q" using Suc.prems by (simp add: move_word_def)
    with Suc show ?case by (simp add: funpow_swap1 del: channel_act.simps)
  qed simp
  from assms show ?thesis
  proof (induction k arbitrary: q)
    case 0
    then show ?case by (cases rule: data_job_cases [OF 0(1)]) simp_all
  next
    case (Suc k)
    define q1 where "q1 = channel_act Data_Word q"
    have inv: "port_inv L q1" unfolding q1_def by (rule inv_data_word [OF Suc.prems(1)])
    have f: "(channel_act Data_Word ^^ Suc k) q = (channel_act Data_Word ^^ k) q1" by (simp add: funpow_swap1 q1_def)
    from data_word_job [OF Suc.prems(1), folded q1_def] show ?case
    proof (elim disjE conjE)
      assume h: "dma_job (src_core q) (remote (src_port q)) = None"
      show ?thesis unfolding none [OF h] by (rule h)
    next
      assume "src_moved q1 = Suc (src_moved q)"
      with Suc.prems(2) show ?thesis unfolding f by (intro Suc.IH [OF inv]) simp
    next
      assume h: "dma_job (src_core q1) (remote (src_port q1)) = None"
      show ?thesis unfolding f none [OF h] by (rule h)
    qed
  qed
qed

text \<open>C5: A channel opened by both ends delivers the messages in the order they were accepted, each
  with the words it had when it was sent, whatever the order of the clients' calls, of the words of
  the transfers and of the acknowledgements. No more messages than the sink has buffers are
  accepted and not acknowledged, and a message received stays where it is until it is acknowledged.
  A transfer ends after the words of a message and its flag; when none is under way a waiting message
  is received, and a send is accepted as long as a buffer is free.\<close>

theorem mp_channel_fifo:
  assumes can: "can_open chan_id msg_size n ka kb a b"
    and opened: "open_channel chan_id msg_size n a b chans = Some q"
    and run: "channel_run channel_send channel_recv channel_act ops q = (acc, out, q')"
  shows "acc = out @ channel_contents q' \<and> length acc \<le> acked q' + unat n \<and> acked q' \<le> length out \<and>
    (\<forall>i. acked q' \<le> i \<and> i < length out \<longrightarrow>
      words_at (snk_core q') (recv_addr (snk_port q') + of_nat (4 * ((words_of msg_size + 1) * (i mod unat n)))) (words_of msg_size) = out ! i) \<and>
    (dma_job (src_core q') (remote (src_port q')) = None \<longrightarrow>
      (channel_contents q' \<noteq> [] \<longrightarrow> fst (mp_nbrecv (snk_port q') (snk_core q'))) \<and>
      (dma_job (snk_core q') (remote (snk_port q')) = None \<and> length acc < acked q' + unat n \<longrightarrow>
        fst (mp_nbsend (src_port q') (src_core q')))) \<and>
    (let q'' = (channel_act Data_Word ^^ (words_of msg_size + 1)) q' in dma_job (src_core q'') (remote (src_port q'')) = None)"
proof -
  define L where "L = channel_layout (spm_base (noc a)) msg_size n ka kb"
  have Ls: "words L = words_of msg_size" "bufs L = unat n" by (simp_all add: L_def channel_layout_def)
  have q: "port_inv L q" "channel_contents q = []" "sent q = []" "received q = 0"
    using channel_opens [OF can L_def] opened by (metis option.inject)+
  from mpq.channel_fifo [OF q(1) _ run] have inv: "port_inv L q'" and acc: "acc = out @ channel_contents q'"
    by (auto simp: q(2) split: channel_op.splits)
  have hist: "sent q' = acc" "received q' = length out" using run_history [OF run] q by simp_all
  have n: "counts_ok L q'" using inv by (simp add: port_inv_def)
  note c = counts_okD [OF n, unfolded hist Ls]
  have "words_at (snk_core q') (recv_addr (snk_port q') + of_nat (4 * ((words_of msg_size + 1) * (i mod unat n)))) (words_of msg_size) = out ! i"
    if "acked q' \<le> i" "i < length out" for i
    using slot_content [OF inv that(1)] that(2) acc unfolding hist Ls by (simp add: nth_append)
  moreover have "fst (mp_nbsend (src_port q') (src_core q'))"
    if "dma_job (src_core q') (remote (src_port q')) = None" "dma_job (snk_core q') (remote (snk_port q')) = None"
      "length acc < acked q' + unat n"
    using send_ready [OF inv that(1)] ack_arrived [OF inv that(2)] that(3) by (simp add: hist Ls)
  moreover have "let q'' = (channel_act Data_Word ^^ (words_of msg_size + 1)) q' in dma_job (src_core q'') (remote (src_port q'')) = None"
    using transfer_completes [OF inv, of "words_of msg_size + 1"] by (simp add: Ls Let_def)
  ultimately show ?thesis using acc c recv_ready [OF inv] by auto
qed


text \<open>Two cores with 4 KB of communication memory each, and nothing allocated yet.\<close>

definition fresh_core :: "u32 \<Rightarrow> mp_core" where
  "fresh_core k = \<lparr>noc = \<lparr>core_id = k, spm_base = 0xE8000000, spm = (\<lambda>_. 0), dma_table = (\<lambda>_. 0), sched_table = (\<lambda>_. 0),
     mc_table = (\<lambda>_. 0), tdm_table = (\<lambda>_. 0)\<rparr>, alloc_ptr = 0xE8000000, spm_size = 4096\<rparr>"

definition unused_channel :: chan_info_t where
  "unused_channel = \<lparr>port_type = QUEUING, src_id = -1, sink_id = -1, src_addr = 0, sink_addr = 0,
     src_qpd_ptr = None, sink_qpd_ptr = None\<rparr>"

lemma fresh_can_open: "can_open 0 8 2 0 0 (fresh_core 0) (fresh_core 1)"
  by (simp add: can_open_def fresh_core_def has_room_def MAX_CHANNELS_def source_words_def sink_words_def words_of_def
      spm_addr_def dma_job_def)

lemma send_accepts: "fst (mp_nbsend (src_port q) (src_core q)) \<Longrightarrow> \<exists>m q'. channel_send u q = (Some m, q')"
  by (cases "mp_nbsend (src_port q) (src_core q)" rule: prod_cases3) (simp add: channel_send_def Let_def)

lemma recv_delivers: "fst (mp_nbrecv (snk_port q) (snk_core q)) \<Longrightarrow> \<exists>m q'. channel_recv q = (Some m, q')"
  by (cases "mp_nbrecv (snk_port q) (snk_core q)" rule: prod_cases3) (simp add: channel_recv_def Let_def)

text \<open>The first message of a channel is accepted, transferred and received.\<close>

lemma first_message:
  assumes can: "can_open chan_id msg_size n ka kb a b" and opened: "open_channel chan_id msg_size n a b chans = Some q"
  shows "\<exists>m q'. channel_run channel_send channel_recv channel_act
    (Offer () # replicate (words_of msg_size + 1) (Act Data_Word) @ [Take]) q = ([m], [m], q')"
proof -
  define L where "L = channel_layout (spm_base (noc a)) msg_size n ka kb"
  have Ls: "words L = words_of msg_size" "bufs L = unat n" by (simp_all add: L_def channel_layout_def)
  have q: "port_inv L q" "sent q = []" "received q = 0" using channel_opens [OF can L_def] opened by (metis option.inject)+
  have idle: "dma_job (src_core q) (remote (src_port q)) = None"
    using q(1,2) by (cases "dma_job (src_core q) (remote (src_port q))") (simp_all add: port_inv_def data_job_ok_def Let_def)
  have "0 < bufs L" using q(1) layout_bounds(3) by (simp add: port_inv_def)
  then have "fst (mp_nbsend (src_port q) (src_core q))" by (intro send_ready [OF q(1) idle]) (simp add: q(2))
  then obtain m q1 where o: "channel_send () q = (Some m, q1)" using send_accepts by blast
  have inv1: "port_inv L q1" using channel_send_law [OF q(1) o] by simp
  have h1: "sent q1 = [m]" "received q1 = 0" using nbsend_more [of "()" q] o q by simp_all
  define q2 where "q2 = (channel_act Data_Word ^^ (words_of msg_size + 1)) q1"
  have acts: "channel_run channel_send channel_recv channel_act (replicate k (Act Data_Word) @ ops) q =
      channel_run channel_send channel_recv channel_act ops ((channel_act Data_Word ^^ k) q)" for k ops q
    by (induction k arbitrary: q) (simp_all add: funpow_swap1 del: channel_act.simps)
  have "port_inv L ((channel_act Data_Word ^^ k) q1) \<and> sent ((channel_act Data_Word ^^ k) q1) = [m] \<and>
      received ((channel_act Data_Word ^^ k) q1) = 0" for k
    by (induction k) (simp_all add: inv1 h1 inv_data_word act_more del: channel_act.simps)
  then have q2: "port_inv L q2" "sent q2 = [m]" "received q2 = 0" unfolding q2_def by blast+
  have "dma_job (src_core q2) (remote (src_port q2)) = None"
    unfolding q2_def by (rule transfer_completes [OF inv1]) (simp add: Ls)
  then have "fst (mp_nbrecv (snk_port q2) (snk_core q2))"
    by (intro recv_ready [OF q2(1)]) (simp_all add: channel_contents_def q2)
  then obtain m' q3 where t: "channel_recv q2 = (Some m', q3)" using recv_delivers by blast
  have "m' = m" using channel_recv_law [OF q2(1) t] by (simp add: channel_contents_def q2)
  then have "channel_run channel_send channel_recv channel_act
      (Offer () # replicate (words_of msg_size + 1) (Act Data_Word) @ [Take]) q = ([m], [m], q3)"
    unfolding channel_run.simps o Let_def prod.case acts q2_def [symmetric] t by simp
  then show ?thesis by blast
qed

theorem mp_channel_fifo_witness:
  "\<exists>q m q'. can_open 0 8 2 0 0 (fresh_core 0) (fresh_core 1) \<and>
    open_channel 0 8 2 (fresh_core 0) (fresh_core 1) (\<lambda>_. unused_channel) = Some q \<and>
    channel_run channel_send channel_recv channel_act (Offer () # replicate 3 (Act Data_Word) @ [Take]) q = ([m], [m], q') \<and>
    [m] = [m] @ channel_contents q' \<and> length [m] \<le> acked q' + 2"
proof -
  obtain q where q: "open_channel 0 8 2 (fresh_core 0) (fresh_core 1) (\<lambda>_. unused_channel) = Some q"
    using channel_opens [OF fresh_can_open refl] by blast
  have "words_of 8 + 1 = 3" by (simp add: words_of_def)
  with first_message [OF fresh_can_open q] obtain m q' where
    r: "channel_run channel_send channel_recv channel_act (Offer () # replicate 3 (Act Data_Word) @ [Take]) q = ([m], [m], q')"
    by (metis (no_types, lifting))
  from mp_channel_fifo [OF fresh_can_open q r] have "[m] = [m] @ channel_contents q' \<and> length [m] \<le> acked q' + 2" by simp
  with fresh_can_open q r show ?thesis by blast
qed

end
