(* ===== verification/Block_Device.thy ===== *)
theory Block_Device
  imports C_Prelude
begin

text \<open>
  The interface between the file system and the disk: single blocks of 512 bytes are read and
  written by address, from and to a buffer that may be longer. \<open>holds B s\<close> says that the device in the state \<open>s\<close> works and keeps the blocks
  \<open>B\<close>, and \<open>clean s\<close> that no error is recorded. A run of any calls then answers as an array of
  blocks does.
\<close>

type_synonym blocks = "u32 \<Rightarrow> u8 list"

datatype block_op = Get u32 | Put u32 "u8 list"

text \<open>What an array of blocks answers: the blocks read, and the blocks at the end.\<close>

fun array_run :: "block_op list \<Rightarrow> blocks \<Rightarrow> u8 list list \<times> blocks" where
  "array_run [] B = ([], B)"
| "array_run (Get a # ops) B = (let (rs, B') = array_run ops B in (B a # rs, B'))"
| "array_run (Put a b # ops) B = array_run ops (B(a := b))"

text \<open>The same calls of a device, each with a fresh buffer of zeros; \<^const>\<open>None\<close> when one fails.\<close>

fun device_run ::
  "(u32 \<Rightarrow> u8 list \<Rightarrow> 's \<Rightarrow> (int \<times> u8 list \<times> 's) option) \<Rightarrow> (u32 \<Rightarrow> u8 list \<Rightarrow> 's \<Rightarrow> (int \<times> 's) option) \<Rightarrow>
     block_op list \<Rightarrow> 's \<Rightarrow> (u8 list list \<times> 's) option" where
  "device_run rd wr [] s = Some ([], s)"
| "device_run rd wr (Get a # ops) s = do {
     (e, b, s) \<leftarrow> rd a (replicate 512 0) s;
     if e \<noteq> 0 then None else do { (rs, s) \<leftarrow> device_run rd wr ops s; Some (b # rs, s) } }"
| "device_run rd wr (Put a b # ops) s = do {
     (e, s) \<leftarrow> wr a b s;
     if e \<noteq> 0 then None else device_run rd wr ops s }"

fun op_ok :: "block_op \<Rightarrow> bool" where
  "op_ok (Get a) = True"
| "op_ok (Put a b) = (length b = 512)"

locale block_device =
  fixes rd :: "u32 \<Rightarrow> u8 list \<Rightarrow> 's \<Rightarrow> (int \<times> u8 list \<times> 's) option"
    and wr :: "u32 \<Rightarrow> u8 list \<Rightarrow> 's \<Rightarrow> (int \<times> 's) option"
    and holds :: "blocks \<Rightarrow> 's \<Rightarrow> bool"
    and clean :: "'s \<Rightarrow> bool"
  assumes block_length: "holds B s \<Longrightarrow> length (B a) = 512"
    and rd_block: "holds B s \<Longrightarrow> 512 \<le> length buf \<Longrightarrow>
      \<exists>s'. rd a buf s = Some (0, B a @ drop 512 buf, s') \<and> holds B s' \<and> clean s'"
    and wr_block: "holds B s \<Longrightarrow> 512 \<le> length b \<Longrightarrow>
      \<exists>s'. wr a b s = Some (0, s') \<and> holds (B(a := take 512 b)) s' \<and> clean s'"
begin

lemma get_block:
  assumes "holds B s" and "length buf = 512"
  obtains s' where "rd a buf s = Some (0, B a, s')" and "holds B s'" and "clean s'"
  using rd_block [OF assms(1), of buf] assms(2) by auto

lemma put_block:
  assumes "holds B s" and "length b = 512"
  obtains s' where "wr a b s = Some (0, s')" and "holds (B(a := b)) s'" and "clean s'"
  using wr_block [OF assms(1), of b a] assms(2) by auto

lemma run_as_array:
  "holds B s \<Longrightarrow> list_all op_ok ops \<Longrightarrow>
    \<exists>s'. device_run rd wr ops s = Some (fst (array_run ops B), s') \<and> holds (snd (array_run ops B)) s'"
proof (induction ops arbitrary: B s)
  case Nil
  then show ?case by simp
next
  case (Cons op ops)
  show ?case
  proof (cases op)
    case (Get a)
    obtain s1 where "rd a (replicate 512 0) s = Some (0, B a, s1)" "holds B s1"
      using get_block [OF Cons.prems(1), of "replicate 512 0"] by (metis length_replicate)
    with Cons.IH [of B s1] Cons.prems Get show ?thesis by (auto split: prod.splits)
  next
    case (Put a b)
    with Cons.prems obtain s1 where s1: "wr a b s = Some (0, s1)" "holds (B(a := b)) s1"
      using put_block [of B s b] by auto
    from Cons.prems(2) have "list_all op_ok ops" by simp
    from Cons.IH [OF s1(2) this] s1(1) Put show ?thesis by (simp del: fun_upd_apply)
  qed
qed

end

end
