(* ===== verification/Sd_Card.thy ===== *)
theory Sd_Card
  imports Block_Device
begin

text \<open>
  The SD card driver (libsd/sd_spi.c) and the disk interface on top of it (libsd/sddisk.c). The host
  controller with the card behind it is an object that answers register accesses; what the SD
  specification promises of it, byte by byte on the serial line, is the predicate \<open>serves\<close>. The
  theory shows that the driver turns such a card into a block device.
\<close>

section \<open>The controller, the state, error codes\<close>

text \<open>
  A register access may change the object. The registers are given by their distance in bytes from
  the base address; the offsets of the source are added to a pointer to words.
\<close>

codatatype card = Card (card_rd: "u32 \<Rightarrow> u32 \<times> card") (card_wr: "u32 \<Rightarrow> u32 \<Rightarrow> card")

definition sd_ptr :: u32 where "sd_ptr = 0"
definition sd_cs_ptr :: u32 where "sd_cs_ptr = 4 * 0x04"
definition sd_en_ptr :: u32 where "sd_en_ptr = 4 * 0x08"
definition sd_clkdiv_ptr :: u32 where "sd_clkdiv_ptr = 4 * 0x0c"

datatype sd_err =
    SD_SUCCESS | SD_BADRES | SD_CLK_DIVISOR | SD_CLK_HIGH | SD_GOIDLE | SD_TIMEOUT
  | SD_SENDIFCOND_BADRES | SD_SENDOPCOND_BADRES | SD_SENDOPCOND_UNABLE | SD_CRC_BADRES
  | SD_BLKLEN_BADRES | SD_BADCRC | SD_WR

text \<open>The values of \<open>errno\<close> the library sets; \<open>OK\<close> is 0.\<close>

datatype errno =
    OK | EPERM | ENOENT | EIO | EBADF | EAGAIN | EFAULT | EBUSY | EEXIST | ENOTDIR | EISDIR | EINVAL
  | EMFILE | ENOSPC | EPIPE | ENAMETOOLONG | ENOTEMPTY

text \<open>
  The last response is a union of one byte and five bytes, kept as the five bytes.
\<close>

record sd_system =
  card :: card
  sd_res :: "u8 list"
  sd_global_info :: u32
  disk_initialized :: u8
  disk_block_sz :: u32
  errno :: errno

definition ACMD41_MAX_TRIES :: nat where "ACMD41_MAX_TRIES = 1000"
definition SD_WRITE_MAX_WAIT :: nat where "SD_WRITE_MAX_WAIT = 1000000"
definition SD_READ_MAX_WAIT :: nat where "SD_READ_MAX_WAIT = 1000000"
definition SD_BUSY_MAX_WAIT :: nat where "SD_BUSY_MAX_WAIT = 1000000"
definition SD_DATA_BEGIN_TOKEN :: u8 where "SD_DATA_BEGIN_TOKEN = 0xFE"

section \<open>The serial line\<close>

definition wait_enabled :: "card \<Rightarrow> card option" where
  "wait_enabled c = map_option snd (loop_until (\<lambda>c.
     let (v, c) = card_rd c sd_en_ptr in Some (if v \<noteq> 0 then None else Some (), c)) c)"

definition spi_send :: "u8 \<Rightarrow> card \<Rightarrow> (u8 \<times> card) option" where
  "spi_send dat c = do {
     c \<leftarrow> wait_enabled c;
     c \<leftarrow> wait_enabled (card_wr c sd_ptr (ucast dat));
     let (v, c) = card_rd c sd_ptr;
     Some (ucast v, c)
   }"

definition spi_set_clockrate :: "u32 \<Rightarrow> u32 \<Rightarrow> card \<Rightarrow> (sd_err \<times> card) option" where
  "spi_set_clockrate patmos_rate rate c =
     (if patmos_rate mod rate \<noteq> 0 then Some (SD_CLK_DIVISOR, c)
      else if rate > patmos_rate div 2 then Some (SD_CLK_HIGH, c)
      else do {
        c \<leftarrow> wait_enabled c;
        Some (SD_SUCCESS, card_wr c sd_clkdiv_ptr ((patmos_rate div rate) div 2)) })"

definition spi_clear :: "card \<Rightarrow> card option" where
  "spi_clear c = do {
     (r, c) \<leftarrow> spi_send 0xFF (card_wr c sd_cs_ptr 1);
     Some (card_wr c sd_cs_ptr 0)
   }"

text \<open>
  The bounded waits: at most \<open>n\<close> bytes are read until one satisfies \<open>P\<close>. The result is whether
  one did, and the last byte read.
\<close>

fun spi_poll :: "nat \<Rightarrow> (u8 \<Rightarrow> bool) \<Rightarrow> u8 \<Rightarrow> card \<Rightarrow> ((bool \<times> u8) \<times> card) option" where
  "spi_poll 0 P r c = Some ((False, r), c)"
| "spi_poll (Suc n) P _ c = do {
     (r, c) \<leftarrow> spi_send 0xFF c;
     if P r then Some ((True, r), c) else spi_poll n P r c
   }"

text \<open>Bytes sent with their answers dropped.\<close>

fun spi_send_all :: "u8 list \<Rightarrow> card \<Rightarrow> card option" where
  "spi_send_all [] c = Some c"
| "spi_send_all (v # vs) c = do { (r, c) \<leftarrow> spi_send v c; spi_send_all vs c }"

definition sd_cmd :: "u8 \<Rightarrow> u8 \<Rightarrow> u8 \<Rightarrow> u8 \<Rightarrow> u8 \<Rightarrow> u8 \<Rightarrow> card \<Rightarrow> (u8 \<times> card) option" where
  "sd_cmd cmd arg0 arg1 arg2 arg3 crc c = do {
     c \<leftarrow> spi_clear c;
     c \<leftarrow> spi_send_all [cmd OR 0x40, arg0, arg1, arg2, arg3, crc OR 1] c;
     ((found, response), c) \<leftarrow> spi_poll 10 (\<lambda>r. r \<noteq> 0xFF) 0 c;
     Some (response, c)
   }"

text \<open>A command whose response becomes the last one.\<close>

definition set_r1 :: "u8 \<Rightarrow> sd_system \<Rightarrow> sd_system" where
  "set_r1 r s = s\<lparr>sd_res := (sd_res s)[0 := r]\<rparr>"

definition sd_cmd_r1 :: "u8 \<Rightarrow> u8 \<Rightarrow> u8 \<Rightarrow> u8 \<Rightarrow> u8 \<Rightarrow> u8 \<Rightarrow> sd_system \<Rightarrow> (u8 \<times> sd_system) option" where
  "sd_cmd_r1 cmd arg0 arg1 arg2 arg3 crc s = do {
     (r, c) \<leftarrow> sd_cmd cmd arg0 arg1 arg2 arg3 crc (card s);
     Some (r, set_r1 r (s\<lparr>card := c\<rparr>))
   }"

section \<open>Blocks\<close>

text \<open>The bytes of the address, most significant first.\<close>

definition addr_byte :: "u32 \<Rightarrow> nat \<Rightarrow> u8" where
  "addr_byte a k = ucast (drop_bit k a)"

definition read_data :: "nat \<Rightarrow> u8 list \<Rightarrow> card \<Rightarrow> (u8 list \<times> card) option" where
  "read_data n buffer c =
     for_loop 0 n (\<lambda>i r. do {
       (buffer, c) \<leftarrow> r;
       (v, c) \<leftarrow> spi_send 0xFF c;
       buffer \<leftarrow> array_store buffer i v;
       Some (buffer, c) }) (Some (buffer, c))"

definition write_data :: "nat \<Rightarrow> u8 list \<Rightarrow> card \<Rightarrow> card option" where
  "write_data n buffer c = (if n \<le> length buffer then spi_send_all (take n buffer) c else None)"

definition sd_read_single_block ::
  "u32 \<Rightarrow> u8 list \<Rightarrow> u32 \<Rightarrow> sd_system \<Rightarrow> (sd_err \<times> u8 list \<times> sd_system) option" where
  "sd_read_single_block addr buffer block_sz s = do {
     (r, s) \<leftarrow> sd_cmd_r1 17 (addr_byte addr 24) (addr_byte addr 16) (addr_byte addr 8) (addr_byte addr 0) 0xFF s;
     if r \<noteq> 0 then Some (SD_BADRES, buffer, s)
     else do {
       ((found, r), c) \<leftarrow> spi_poll SD_READ_MAX_WAIT (\<lambda>r. r = SD_DATA_BEGIN_TOKEN) r (card s);
       let s = set_r1 r (s\<lparr>card := c\<rparr>);
       if \<not> found then Some (SD_TIMEOUT, buffer, s)
       else do {
         (buffer, c) \<leftarrow> read_data (unat block_sz) buffer (card s);
         c \<leftarrow> spi_send_all [0xFF, 0xFF] c;
         Some (SD_SUCCESS, buffer, s\<lparr>card := c\<rparr>) }}}"

text \<open>The data response token of a write.\<close>

definition write_result :: "u8 \<Rightarrow> sd_err" where
  "write_result r =
     (if r AND 0x1F = 0x05 then SD_SUCCESS
      else if r AND 0x1F = 0x0B then SD_BADCRC
      else if r AND 0x1F = 0x0D then SD_WR
      else SD_BADRES)"

definition sd_write_single_block ::
  "u32 \<Rightarrow> u8 list \<Rightarrow> u32 \<Rightarrow> sd_system \<Rightarrow> (sd_err \<times> sd_system) option" where
  "sd_write_single_block addr buffer block_sz s = do {
     (r, s) \<leftarrow> sd_cmd_r1 24 (addr_byte addr 24) (addr_byte addr 16) (addr_byte addr 8) (addr_byte addr 0) 0xFF s;
     if r \<noteq> 0 then Some (SD_BADRES, s)
     else do {
       (r, c) \<leftarrow> spi_send SD_DATA_BEGIN_TOKEN (card s);
       c \<leftarrow> write_data (unat block_sz) buffer c;
       ((found, r), c) \<leftarrow> spi_poll SD_WRITE_MAX_WAIT (\<lambda>r. r \<noteq> 0xFF) r c;
       let s = set_r1 r (s\<lparr>card := c\<rparr>);
       if \<not> found then Some (SD_TIMEOUT, s)
       else if write_result r \<noteq> SD_SUCCESS then Some (write_result r, s)
       else do {
         ((found, r), c) \<leftarrow> spi_poll SD_BUSY_MAX_WAIT (\<lambda>r. r \<noteq> 0x00) r (card s);
         let s = set_r1 r (s\<lparr>card := c\<rparr>);
         Some (if found then SD_SUCCESS else SD_TIMEOUT, s) }}}"

section \<open>Start-up\<close>

fun op_cond_tries :: "nat \<Rightarrow> u8 \<Rightarrow> sd_system \<Rightarrow> (sd_err \<times> sd_system) option" where
  "op_cond_tries 0 hcs s = Some (SD_SENDOPCOND_UNABLE, s)"
| "op_cond_tries (Suc n) hcs s = do {
     (r, s) \<leftarrow> sd_cmd_r1 55 0 0 0 0 0xFF s;
     (r, s) \<leftarrow> sd_cmd_r1 41 hcs 0 0 0 0xFF s;
     if r = 0 then Some (SD_SUCCESS, s)
     else if r \<noteq> 0x01 then Some (SD_SENDOPCOND_BADRES, s)
     else op_cond_tries n hcs s
   }"

definition sd_send_op_cond_cmd :: "u8 \<Rightarrow> sd_system \<Rightarrow> (sd_err \<times> sd_system) option" where
  "sd_send_op_cond_cmd hcs s = op_cond_tries ACMD41_MAX_TRIES (if hcs = 0 then 0x00 else 0x40) s"

definition read_r7 :: "sd_system \<Rightarrow> sd_system option" where
  "read_r7 s =
     for_loop 0 4 (\<lambda>i r. do {
       s \<leftarrow> r;
       (v, c) \<leftarrow> spi_send 0xFF (card s);
       Some (s\<lparr>card := c, sd_res := (sd_res s)[1 + i := v]\<rparr>) }) (Some s)"

definition sd_init :: "u32 \<Rightarrow> sd_system \<Rightarrow> (sd_err \<times> sd_system) option" where
  "sd_init patmos_rate s = do {
     (err, c) \<leftarrow> spi_set_clockrate patmos_rate 400000 (card s);
     let s = s\<lparr>card := c\<rparr>;
     if err \<noteq> SD_SUCCESS then Some (err, s)
     else do {
       c \<leftarrow> spi_send_all (replicate 10 0xFF) (card_wr (card s) sd_cs_ptr 1);
       let s = s\<lparr>card := card_wr c sd_cs_ptr 0\<rparr>;
       (r, s) \<leftarrow> sd_cmd_r1 0 0 0 0 0 0x94 s;
       if r \<noteq> 1 then Some (SD_GOIDLE, s)
       else do {
         (r, s) \<leftarrow> sd_cmd_r1 8 0 0 0x01 0xAA 0x86 s;
         s \<leftarrow> read_r7 s;
         if sd_res s ! 0 \<noteq> 0x01 \<or> sd_res s ! 1 \<noteq> 0x00 \<or> sd_res s ! 2 \<noteq> 0x00 \<or>
            sd_res s ! 3 \<noteq> 0x01 \<or> sd_res s ! 4 \<noteq> 0xAA
         then Some (SD_SENDIFCOND_BADRES, s)
         else do {
           (err, s) \<leftarrow> sd_send_op_cond_cmd 1 s;
           (err, s) \<leftarrow> (if err \<noteq> SD_SUCCESS then sd_send_op_cond_cmd 0 s else Some (SD_SUCCESS, s));
           if err \<noteq> SD_SUCCESS then Some (err, s)
           else do {
             (r, s) \<leftarrow> sd_cmd_r1 16 0 0 0x02 0 0xFF s;
             if r \<noteq> 0 then Some (SD_BLKLEN_BADRES, s)
             else do {
               let s = s\<lparr>sd_global_info := 512\<rparr>;
               (err, c) \<leftarrow> spi_set_clockrate patmos_rate 20000000 (card s);
               Some (err, s\<lparr>card := c\<rparr>) }}}}}}"

definition sd_info :: "sd_system \<Rightarrow> sd_err \<times> u32" where
  "sd_info s = (SD_SUCCESS, sd_global_info s)"

section \<open>The disk\<close>

definition disk_init :: "u32 \<Rightarrow> sd_system \<Rightarrow> (int \<times> sd_system) option" where
  "disk_init patmos_rate s = do {
     (res, s) \<leftarrow> sd_init patmos_rate s;
     Some (if res \<noteq> SD_SUCCESS then (-1, s\<lparr>errno := EIO\<rparr>)
           else (0, s\<lparr>disk_initialized := 1, disk_block_sz := snd (sd_info s), errno := OK\<rparr>)) }"

definition disk_info :: "sd_system \<Rightarrow> int \<times> u8 \<times> u32" where
  "disk_info s = (if disk_initialized s \<noteq> 0 then 0 else 1, disk_initialized s, disk_block_sz s)"

text \<open>
  A block goes to its own part of the buffer. The loops leave on the first error.
\<close>

definition read_part ::
  "u32 \<Rightarrow> u8 list \<Rightarrow> nat \<Rightarrow> nat \<Rightarrow> sd_system \<Rightarrow> (sd_err \<times> u8 list \<times> sd_system) option" where
  "read_part block buf i blksz s = do {
     (e, part, s) \<leftarrow> sd_read_single_block (block + of_nat i) (drop (i * blksz) buf) (of_nat blksz) s;
     Some (e, take (i * blksz) buf @ part, s) }"

fun disk_read_from ::
  "u32 \<Rightarrow> nat \<Rightarrow> nat \<Rightarrow> u8 list \<Rightarrow> sd_system \<Rightarrow> (int \<times> u8 list \<times> sd_system) option" where
  "disk_read_from block i 0 buf s = Some (0, buf, s\<lparr>errno := OK\<rparr>)"
| "disk_read_from block i (Suc n) buf s = do {
     (e, buf, s) \<leftarrow> read_part block buf i (unat (disk_block_sz s)) s;
     if e \<noteq> SD_SUCCESS then Some (-1, buf, s\<lparr>errno := EIO\<rparr>)
     else disk_read_from block (Suc i) n buf s }"

definition disk_read :: "u32 \<Rightarrow> u8 list \<Rightarrow> u32 \<Rightarrow> sd_system \<Rightarrow> (int \<times> u8 list \<times> sd_system) option" where
  "disk_read block buf num_blocks s = disk_read_from block 0 (unat num_blocks) buf s"

fun disk_write_from ::
  "u32 \<Rightarrow> nat \<Rightarrow> nat \<Rightarrow> u8 list \<Rightarrow> sd_system \<Rightarrow> (int \<times> sd_system) option" where
  "disk_write_from block i 0 buf s = Some (0, s\<lparr>errno := OK\<rparr>)"
| "disk_write_from block i (Suc n) buf s = do {
     (e, s) \<leftarrow> sd_write_single_block (block + of_nat i) (drop (i * unat (disk_block_sz s)) buf) (disk_block_sz s) s;
     if e \<noteq> SD_SUCCESS then Some (-1, s\<lparr>errno := EIO\<rparr>)
     else disk_write_from block (Suc i) n buf s }"

definition disk_write :: "u32 \<Rightarrow> u8 list \<Rightarrow> u32 \<Rightarrow> sd_system \<Rightarrow> (int \<times> sd_system) option" where
  "disk_write block buf num_blocks s = disk_write_from block 0 (unat num_blocks) buf s"

section \<open>What a card promises\<close>

text \<open>A conversation: bytes sent, bytes received.\<close>

fun talk :: "u8 list \<Rightarrow> card \<Rightarrow> (u8 list \<times> card) option" where
  "talk [] c = Some ([], c)"
| "talk (v # vs) c = do { (r, c) \<leftarrow> spi_send v c; (rs, c) \<leftarrow> talk vs c; Some (r # rs, c) }"

text \<open>After some other bytes, fewer than \<open>n\<close>, comes one with the property \<open>P\<close>.\<close>

definition answers_within :: "nat \<Rightarrow> (u8 \<Rightarrow> bool) \<Rightarrow> u8 \<Rightarrow> card \<Rightarrow> card \<Rightarrow> bool" where
  "answers_within n P r c c' \<longleftrightarrow>
     (\<exists>before. length before < n \<and> (\<forall>x \<in> set before. \<not> P x) \<and> P r \<and>
        talk (replicate (length before + 1) 0xFF) c = Some (before @ [r], c'))"

definition command :: "u8 \<Rightarrow> u32 \<Rightarrow> u8 \<Rightarrow> card \<Rightarrow> card \<Rightarrow> bool" where
  "command k a r c c' \<longleftrightarrow>
     (\<exists>c0 c1 echo. spi_clear c = Some c0 \<and>
        talk [0x40 OR k, addr_byte a 24, addr_byte a 16, addr_byte a 8, addr_byte a 0, 0xFF] c0 = Some (echo, c1) \<and>
        answers_within 10 (\<lambda>r. r \<noteq> 0xFF) r c1 c')"

text \<open>
  Command 17 with a block address is answered by 0, the token 0xFE, the block and a checksum;
  command 24 by 0, and the block that follows its token by an acceptance and a busy signal.
\<close>

definition reads_block :: "u32 \<Rightarrow> u8 list \<Rightarrow> card \<Rightarrow> card \<Rightarrow> bool" where
  "reads_block a b c c' \<longleftrightarrow>
     (\<exists>c1 c2 c3 crc. command 17 a 0 c c1 \<and> answers_within 1000000 (\<lambda>r. r = 0xFE) 0xFE c1 c2 \<and>
        talk (replicate (length b) 0xFF) c2 = Some (b, c3) \<and> talk [0xFF, 0xFF] c3 = Some (crc, c'))"

definition writes_block :: "u32 \<Rightarrow> u8 list \<Rightarrow> card \<Rightarrow> card \<Rightarrow> bool" where
  "writes_block a b c c' \<longleftrightarrow>
     (\<exists>c1 c2 c3 echo t d. command 24 a 0 c c1 \<and> talk (0xFE # b) c1 = Some (echo, c2) \<and>
        answers_within 1000000 (\<lambda>r. r \<noteq> 0xFF) t c2 c3 \<and> t AND 0x1F = 0x05 \<and>
        answers_within 1000000 (\<lambda>r. r \<noteq> 0x00) d c3 c')"

text \<open>A card that keeps the blocks \<open>B\<close>, for ever.\<close>

coinductive serves :: "blocks \<Rightarrow> card \<Rightarrow> bool" where
  serves: "(\<And>a. length (B a) = 512) \<Longrightarrow>
    (\<And>a. \<exists>c'. reads_block a (B a) c c' \<and> serves B c') \<Longrightarrow>
    (\<And>a b. length b = 512 \<Longrightarrow> \<exists>c'. writes_block a b c c' \<and> serves (B(a := b)) c') \<Longrightarrow> serves B c"

section \<open>The driver of such a card\<close>

lemma send_all_talk: "talk vs c = Some (rs, c') \<Longrightarrow> spi_send_all vs c = Some c'"
  by (induction vs arbitrary: c rs) (auto split: bind_splits)

lemma talk_length: "talk vs c = Some (rs, c') \<Longrightarrow> length rs = length vs"
  by (induction vs arbitrary: c rs) (auto split: bind_splits)

lemma poll_answers: "answers_within n P r c c' \<Longrightarrow> spi_poll n P x c = Some ((True, r), c')"
proof -
  have "spi_poll n P x c = Some ((True, r), c')"
    if "length before < n" "\<forall>x \<in> set before. \<not> P x" "P r"
      "talk (replicate (length before + 1) 0xFF) c = Some (before @ [r], c')" for before
    using that
  proof (induction n arbitrary: before c x)
    case (Suc n)
    show ?case
    proof (cases before)
      case Nil
      with Suc.prems show ?thesis by (auto split: bind_splits)
    next
      case (Cons y ys)
      with Suc.prems obtain c2 where y: "spi_send 0xFF c = Some (y, c2)"
        and t: "talk (replicate (length ys + 1) 0xFF) c2 = Some (ys @ [r], c')"
        by (auto split: bind_splits)
      from Suc.IH [OF _ _ Suc.prems(3) t] Suc.prems(1,2) Cons y show ?thesis by simp
    qed
  qed simp
  then show "answers_within n P r c c' \<Longrightarrow> ?thesis" by (auto simp: answers_within_def)
qed

lemma talk_append:
  "talk (us @ vs) c = do { (rs, c) \<leftarrow> talk us c; (qs, c) \<leftarrow> talk vs c; Some (rs @ qs, c) }"
  by (induction us arbitrary: c) (auto split: bind_splits prod.splits)

lemma read_data_talk:
  assumes "talk (replicate (length b) 0xFF) c = Some (b, c')" and "length b \<le> length buf"
  shows "read_data (length b) buf c = Some (b @ drop (length b) buf, c')"
proof -
  let ?loop = "\<lambda>k. read_data k buf c"
  have main: "\<exists>ck. talk (replicate k 0xFF) c = Some (take k b, ck) \<and>
      talk (replicate (length b - k) 0xFF) ck = Some (drop k b, c') \<and> ?loop k = Some (take k b @ drop k buf, ck)"
    if "k \<le> length b" for k
    using that
  proof (induction k)
    case 0
    with assms(1) show ?case by (simp add: read_data_def for_loop_zero)
  next
    case (Suc k)
    then obtain ck where ck: "talk (replicate k 0xFF) c = Some (take k b, ck)"
      "talk (replicate (length b - k) 0xFF) ck = Some (drop k b, c')" "?loop k = Some (take k b @ drop k buf, ck)"
      by auto
    have len: "length b - k = Suc (length b - Suc k)" using Suc.prems by simp
    from ck(2) obtain cl where cl: "spi_send 0xFF ck = Some (b ! k, cl)"
      "talk (replicate (length b - Suc k) 0xFF) cl = Some (drop (Suc k) b, c')"
      using Suc.prems by (auto simp: len simp flip: Cons_nth_drop_Suc split: bind_splits)
    have "talk (replicate (Suc k) 0xFF) c = Some (take (Suc k) b, cl)"
      using ck(1) cl(1) Suc.prems talk_append [of "replicate k 0xFF" "[0xFF]" c]
      by (simp add: take_Suc_conv_app_nth replicate_append_same)
    moreover have "(take k b @ drop k buf)[k := b ! k] = take (Suc k) b @ drop (Suc k) buf"
      using Suc.prems assms(2) by (simp add: list_update_append take_Suc_conv_app_nth flip: Cons_nth_drop_Suc)
    then have "?loop (Suc k) = Some (take (Suc k) b @ drop (Suc k) buf, cl)"
      using ck(3) cl(1) Suc.prems assms(2)
      by (simp add: read_data_def for_loop_Suc array_store_def)
    ultimately show ?case using cl(2) by blast
  qed
  from main [of "length b"] assms show ?thesis by auto
qed

lemma sd_cmd_command:
  assumes "command k a r c c'"
  shows "sd_cmd k (addr_byte a 24) (addr_byte a 16) (addr_byte a 8) (addr_byte a 0) 0xFF c = Some (r, c')"
proof -
  have crc: "(0xFF :: u8) OR 1 = 0xFF" by simp
  from assms show ?thesis
    unfolding command_def sd_cmd_def crc
    by (auto simp: or.commute simp del: spi_send_all.simps talk.simps dest!: send_all_talk poll_answers [where x = 0])
qed

lemma sd_cmd_r1_command:
  "command k a r (card s) c' \<Longrightarrow>
    sd_cmd_r1 k (addr_byte a 24) (addr_byte a 16) (addr_byte a 8) (addr_byte a 0) 0xFF s =
      Some (r, set_r1 r (s\<lparr>card := c'\<rparr>))"
  by (simp add: sd_cmd_r1_def sd_cmd_command)

text \<open>What a call leaves of the state: everything but the card and the last response.\<close>

definition same_disk :: "sd_system \<Rightarrow> sd_system \<Rightarrow> bool" where
  "same_disk s s' \<longleftrightarrow> disk_initialized s' = disk_initialized s \<and> disk_block_sz s' = disk_block_sz s \<and>
     sd_global_info s' = sd_global_info s"

lemma sd_read_block:
  assumes "reads_block a b (card s) c'" and "length b = unat sz" and "length b \<le> length buf"
  shows "\<exists>s'. sd_read_single_block a buf sz s = Some (SD_SUCCESS, b @ drop (length b) buf, s') \<and> card s' = c' \<and> same_disk s s'"
proof -
  from assms(1) obtain c1 c2 c3 crc where c: "command 17 a 0 (card s) c1"
    "answers_within 1000000 (\<lambda>r. r = 0xFE) 0xFE c1 c2"
    "talk (replicate (length b) 0xFF) c2 = Some (b, c3)" "talk [0xFF, 0xFF] c3 = Some (crc, c')"
    by (auto simp: reads_block_def)
  show ?thesis
    using assms(2,3) sd_cmd_r1_command [OF c(1)] poll_answers [OF c(2), of 0] read_data_talk [OF c(3) assms(3)]
      send_all_talk [OF c(4)]
    by (simp add: sd_read_single_block_def SD_READ_MAX_WAIT_def SD_DATA_BEGIN_TOKEN_def set_r1_def same_disk_def
        del: spi_send_all.simps)
qed

lemma sd_write_block:
  assumes "writes_block a (take (unat sz) b) (card s) c'" and "unat sz \<le> length b"
  shows "\<exists>s'. sd_write_single_block a b sz s = Some (SD_SUCCESS, s') \<and> card s' = c' \<and> same_disk s s'"
proof -
  from assms(1) obtain c1 c2 c3 echo t d where c: "command 24 a 0 (card s) c1"
    "talk (0xFE # take (unat sz) b) c1 = Some (echo, c2)" "answers_within 1000000 (\<lambda>r. r \<noteq> 0xFF) t c2 c3" "t AND 0x1F = 0x05"
    "answers_within 1000000 (\<lambda>r. r \<noteq> 0x00) d c3 c'"
    by (auto simp: writes_block_def)
  from c(2) obtain r ce where e: "spi_send 0xFE c1 = Some (r, ce)" "spi_send_all (take (unat sz) b) ce = Some c2"
    by (fastforce split: bind_splits dest: send_all_talk)
  show ?thesis
    using assms(2) sd_cmd_r1_command [OF c(1)] e poll_answers [OF c(3), of r] c(4) poll_answers [OF c(5), of t]
    by (simp add: sd_write_single_block_def SD_WRITE_MAX_WAIT_def SD_BUSY_MAX_WAIT_def SD_DATA_BEGIN_TOKEN_def
        set_r1_def same_disk_def write_data_def write_result_def)
qed

section \<open>The disk is a block device\<close>

text \<open>A started disk on a card that keeps the blocks \<open>B\<close>.\<close>

definition disk_holds :: "blocks \<Rightarrow> sd_system \<Rightarrow> bool" where
  "disk_holds B s \<longleftrightarrow> serves B (card s) \<and> disk_block_sz s = 512"

definition disk_clean :: "sd_system \<Rightarrow> bool" where
  "disk_clean s \<longleftrightarrow> errno s = OK"

lemma serves_length: "serves B c \<Longrightarrow> length (B a) = 512"
  by (auto elim: serves.cases)

lemma serves_read: "serves B c \<Longrightarrow> \<exists>c'. reads_block a (B a) c c' \<and> serves B c'"
  by (auto elim: serves.cases)

lemma serves_write: "serves B c \<Longrightarrow> length b = 512 \<Longrightarrow> \<exists>c'. writes_block a b c c' \<and> serves (B(a := b)) c'"
  by (erule serves.cases) blast

lemma disk_read_block:
  assumes "disk_holds B s" and "512 \<le> length buf"
  shows "\<exists>s'. disk_read a buf 1 s = Some (0, B a @ drop 512 buf, s') \<and> disk_holds B s' \<and> disk_clean s'"
proof -
  from assms(1) obtain c' where c': "reads_block a (B a) (card s) c'" "serves B c'" and len: "length (B a) = 512"
    using serves_read serves_length by (auto simp: disk_holds_def) metis
  from assms(1) have sz: "disk_block_sz s = 512" by (simp add: disk_holds_def)
  obtain s' where "sd_read_single_block a buf 512 s = Some (SD_SUCCESS, B a @ drop 512 buf, s')" "card s' = c'" "same_disk s s'"
    using sd_read_block [OF c'(1), of 512 buf] assms(2) len by auto
  with c'(2) sz show ?thesis
    by (simp add: disk_read_def read_part_def disk_holds_def disk_clean_def same_disk_def)
qed

lemma disk_write_block:
  assumes "disk_holds B s" and "512 \<le> length b"
  shows "\<exists>s'. disk_write a b 1 s = Some (0, s') \<and> disk_holds (B(a := take 512 b)) s' \<and> disk_clean s'"
proof -
  from assms(1) obtain c' where c': "writes_block a (take 512 b) (card s) c'" "serves (B(a := take 512 b)) c'"
    using serves_write [of B "card s" "take 512 b" a] assms(2) by (auto simp: disk_holds_def)
  from assms(1) have sz: "disk_block_sz s = 512" by (simp add: disk_holds_def)
  obtain s' where "sd_write_single_block a b 512 s = Some (SD_SUCCESS, s')" "card s' = c'" "same_disk s s'"
    using sd_write_block [of a 512 b s c'] c'(1) assms(2) by auto
  with c'(2) sz show ?thesis
    by (simp add: disk_write_def disk_holds_def disk_clean_def same_disk_def)
qed

interpretation disk: block_device "\<lambda>a buf. disk_read a buf 1" "\<lambda>a b. disk_write a b 1" disk_holds disk_clean
  using disk_read_block disk_write_block by unfold_locales (auto simp: disk_holds_def serves_length)

section \<open>Any card\<close>

text \<open>
  Whatever a card answers, a call that returns reports success or an input error, in its result and
  in \<open>errno\<close>; a failed read leaves the buffer alone, and only the card, the last response and \<open>errno\<close>
  change.
\<close>

lemma sd_cmd_r1_same: "sd_cmd_r1 k a0 a1 a2 a3 crc s = Some (r, s') \<Longrightarrow> same_disk s s'"
  by (auto simp: sd_cmd_r1_def same_disk_def set_r1_def split: bind_splits)

lemma sd_read_same:
  "sd_read_single_block a buf sz s = Some (e, buf', s') \<Longrightarrow> same_disk s s' \<and> (e \<noteq> SD_SUCCESS \<longrightarrow> buf' = buf)"
  by (auto simp: sd_read_single_block_def Let_def same_disk_def set_r1_def
      split: bind_splits if_splits prod.splits dest!: sd_cmd_r1_same)

lemma sd_write_same:
  "sd_write_single_block a b sz s = Some (e, s') \<Longrightarrow> same_disk s s'"
  by (auto simp: sd_write_single_block_def Let_def same_disk_def set_r1_def
      split: bind_splits if_splits prod.splits dest!: sd_cmd_r1_same)

lemma disk_read_result:
  assumes "disk_read a buf 1 s = Some (r, buf', s')"
  shows "(r = 0 \<and> errno s' = OK \<or> r = -1 \<and> errno s' = EIO \<and> buf' = buf) \<and> same_disk s s'"
  using assms
  by (auto simp: disk_read_def read_part_def same_disk_def split: bind_splits if_splits dest!: sd_read_same)

lemma disk_write_result:
  assumes "disk_write a buf 1 s = Some (r, s')"
  shows "(r = 0 \<and> errno s' = OK \<or> r = -1 \<and> errno s' = EIO) \<and> same_disk s s'"
  using assms by (auto simp: disk_write_def same_disk_def split: bind_splits if_splits dest!: sd_write_same)

text \<open>A successful start leaves a block size of 512 bytes; a failed one leaves the disk as it was.\<close>

lemma op_cond_same: "op_cond_tries n hcs s = Some (e, s') \<Longrightarrow> same_disk s s'"
  by (induction n arbitrary: s)
    (auto simp: same_disk_def split: bind_splits if_splits dest!: sd_cmd_r1_same)

lemma read_r7_same: "read_r7 s = Some s' \<Longrightarrow> same_disk s s'"
  by (auto simp: read_r7_def loop_simps same_disk_def eval_nat_numeral for_loop_Suc split: bind_splits)

lemma sd_init_result:
  assumes "sd_init rate s = Some (e, s')"
  shows "disk_initialized s' = disk_initialized s \<and> disk_block_sz s' = disk_block_sz s \<and>
    (e = SD_SUCCESS \<longrightarrow> sd_global_info s' = 512)"
  using assms
  by (auto simp: sd_init_def sd_send_op_cond_cmd_def Let_def same_disk_def set_r1_def spi_set_clockrate_def
      split: bind_splits if_splits prod.splits dest!: sd_cmd_r1_same op_cond_same read_r7_same)

lemma disk_init_result:
  assumes "disk_init rate s = Some (r, s')"
  shows "r = 0 \<and> errno s' = OK \<and> disk_initialized s' = 1 \<and> disk_block_sz s' = 512 \<or>
    r = -1 \<and> errno s' = EIO \<and> disk_initialized s' = disk_initialized s \<and> disk_block_sz s' = disk_block_sz s"
  using assms by (auto simp: disk_init_def sd_info_def split: bind_splits if_splits dest!: sd_init_result)

end
