(* ===== verification/Sd_Model.thy ===== *)
theory Sd_Model
  imports Sd_Card
begin

text \<open>
  A card that keeps its promise: it answers every command at once. It shows that the promise
  \<open>serves\<close> can be kept, and stands for the hardware where a property is evaluated on an example.
\<close>

datatype phase = Listening "u8 list" | Storing u32 "u8 list"

record model_card =
  model_blocks :: blocks
  model_phase :: phase
  model_out :: "u8 list"
  model_last :: u8
  model_cs :: bool

text \<open>The address of a command frame.\<close>

definition frame_addr :: "u8 list \<Rightarrow> u32" where
  "frame_addr f = push_bit 24 (ucast (f ! 1)) OR push_bit 16 (ucast (f ! 2)) OR push_bit 8 (ucast (f ! 3)) OR ucast (f ! 4)"

definition hear_command :: "u8 list \<Rightarrow> model_card \<Rightarrow> model_card" where
  "hear_command f m =
     (if length f < 6 then m\<lparr>model_phase := Listening f\<rparr>
      else if f ! 0 = 0x51
      then m\<lparr>model_phase := Listening [], model_out := [0, 0xFE] @ model_blocks m (frame_addr f) @ [0, 0]\<rparr>
      else if f ! 0 = 0x58 then m\<lparr>model_phase := Storing (frame_addr f) [], model_out := [0]\<rparr>
      else m\<lparr>model_phase := Listening [], model_out := [0]\<rparr>)"

text \<open>A block to store comes with its token.\<close>

definition hear_data :: "u32 \<Rightarrow> u8 list \<Rightarrow> model_card \<Rightarrow> model_card" where
  "hear_data a d m =
     (if length d < 513 then m\<lparr>model_phase := Storing a d\<rparr>
      else m\<lparr>model_phase := Listening [], model_out := [0x05, 0xFF], model_blocks := (model_blocks m)(a := tl d)\<rparr>)"

definition swap_byte :: "u8 \<Rightarrow> model_card \<Rightarrow> model_card" where
  "swap_byte v m =
     (if model_cs m then m\<lparr>model_last := 0xFF\<rparr>
      else case model_out m of
        r # rs \<Rightarrow> m\<lparr>model_last := r, model_out := rs\<rparr>
      | [] \<Rightarrow> (case model_phase m of
          Listening f \<Rightarrow> hear_command (f @ [v]) (m\<lparr>model_last := 0xFF\<rparr>)
        | Storing a d \<Rightarrow> hear_data a (d @ [v]) (m\<lparr>model_last := 0xFF\<rparr>)))"

definition model_wr :: "u32 \<Rightarrow> u32 \<Rightarrow> model_card \<Rightarrow> model_card" where
  "model_wr a v m =
     (if a = sd_ptr then swap_byte (ucast v) m else if a = sd_cs_ptr then m\<lparr>model_cs := v \<noteq> 0\<rparr> else m)"

primcorec make_card :: "model_card \<Rightarrow> card" where
  "make_card m = Card (\<lambda>a. (if a = sd_ptr then ucast (model_last m) else 0, make_card m)) (\<lambda>a v. make_card (model_wr a v m))"

section \<open>Conversations with it\<close>

lemma wait_enabled_model [simp]: "wait_enabled (make_card m) = Some (make_card m)"
  by (simp add: wait_enabled_def sd_en_ptr_def sd_ptr_def loop_until_exit)

lemma ucast_byte_back: "(ucast (ucast (v :: u8) :: u32) :: u8) = v"
  by (rule bit_word_eqI) (simp add: bit_simps)

lemma spi_send_model [simp]:
  "spi_send v (make_card m) = Some (model_last (swap_byte v m), make_card (swap_byte v m))"
  by (simp add: spi_send_def model_wr_def ucast_byte_back)

lemma spi_clear_model [simp]:
  "spi_clear (make_card m) = Some (make_card (m\<lparr>model_cs := False, model_last := 0xFF\<rparr>))"
  by (cases m) (simp add: spi_clear_def model_wr_def swap_byte_def sd_ptr_def sd_cs_ptr_def)

lemma model_updates:
  "m\<lparr>model_last := r, model_out := q\<rparr> = m\<lparr>model_out := q, model_last := r\<rparr>"
  by (cases m) simp

text \<open>Answers waiting in the queue.\<close>

lemma talk_queue:
  "\<not> model_cs m \<Longrightarrow> model_out m = rs @ q \<Longrightarrow> length vs = length rs \<Longrightarrow> rs \<noteq> [] \<Longrightarrow>
    talk vs (make_card m) = Some (rs, make_card (m\<lparr>model_out := q, model_last := last rs\<rparr>))"
proof (induction vs arbitrary: m rs)
  case (Cons v vs)
  then obtain r rs' where rs: "rs = r # rs'" by (cases rs) auto
  have s: "swap_byte v m = m\<lparr>model_last := r, model_out := rs' @ q\<rparr>"
    using Cons.prems(1,2) by (simp add: rs swap_byte_def)
  show ?case
  proof (cases rs')
    case Nil
    with Cons.prems show ?thesis by (simp add: s rs model_updates)
  next
    case (Cons x xs)
    with Cons.prems Cons.IH [of "swap_byte v m" rs'] show ?thesis by (simp add: s rs model_updates)
  qed
qed simp

lemma talk_storing:
  "\<not> model_cs m \<Longrightarrow> model_out m = [] \<Longrightarrow> model_phase m = Storing a d \<Longrightarrow> length d + length vs = 513 \<Longrightarrow> vs \<noteq> [] \<Longrightarrow>
    \<exists>echo. talk vs (make_card m) = Some (echo, make_card (hear_data a (d @ vs) (m\<lparr>model_last := 0xFF\<rparr>)))"
proof (induction vs arbitrary: m d)
  case (Cons v vs)
  have s: "swap_byte v m = hear_data a (d @ [v]) (m\<lparr>model_last := 0xFF\<rparr>)"
    using Cons.prems by (simp add: swap_byte_def)
  show ?case
  proof (cases vs)
    case Nil
    with Cons.prems show ?thesis by (simp add: s)
  next
    case (Cons x xs)
    with Cons.prems have "hear_data a (d @ [v]) (m\<lparr>model_last := 0xFF\<rparr>) = m\<lparr>model_last := 0xFF, model_phase := Storing a (d @ [v])\<rparr>"
      by (simp add: hear_data_def)
    then obtain echo where "talk vs (make_card (swap_byte v m)) =
        Some (echo, make_card (hear_data a (d @ v # vs) (m\<lparr>model_last := 0xFF\<rparr>)))"
      using Cons.prems Cons.IH [of "swap_byte v m" "d @ [v]"] Cons by (auto simp: s hear_data_def simp del: talk.simps)
    then show ?thesis by (simp add: talk.simps(2) [of v vs])
  qed
qed simp

section \<open>It serves\<close>

lemma frame_addr_bytes:
  "frame_addr [k, addr_byte a 24, addr_byte a 16, addr_byte a 8, addr_byte a 0, 0xFF] = a"
proof (rule bit_word_eqI)
  fix n assume "n < LENGTH(32)"
  then consider "n < 8" | "8 \<le> n \<and> n < 16" | "16 \<le> n \<and> n < 24" | "24 \<le> n \<and> n < 32" by fastforce
  then show "bit (frame_addr [k, addr_byte a 24, addr_byte a 16, addr_byte a 8, addr_byte a 0, 0xFF]) n = bit a n"
    by cases (auto simp: frame_addr_def addr_byte_def bit_simps)
qed

text \<open>A card that waits for a command.\<close>

definition resting :: "blocks \<Rightarrow> model_card \<Rightarrow> bool" where
  "resting B m \<longleftrightarrow> model_blocks m = B \<and> model_phase m = Listening [] \<and> model_out m = [] \<and> (\<forall>a. length (B a) = 512)"

lemma talk_frame:
  assumes "\<not> model_cs m" and "model_out m = []" and "model_phase m = Listening []"
  shows "\<exists>echo. talk [b0, b1, b2, b3, b4, b5] (make_card m) =
    Some (echo, make_card (hear_command [b0, b1, b2, b3, b4, b5] (m\<lparr>model_last := 0xFF\<rparr>)))"
  using assms by (simp add: swap_byte_def hear_command_def)

lemma resting_frame:
  assumes "resting B m"
  shows "\<exists>c0 c1 echo. spi_clear (make_card m) = Some c0 \<and>
    talk [0x40 OR k, addr_byte a 24, addr_byte a 16, addr_byte a 8, addr_byte a 0, 0xFF] c0 = Some (echo, c1) \<and>
    c1 = make_card (hear_command [0x40 OR k, addr_byte a 24, addr_byte a 16, addr_byte a 8, addr_byte a 0, 0xFF]
           (m\<lparr>model_cs := False, model_last := 0xFF\<rparr>))"
proof -
  let ?m = "m\<lparr>model_cs := False, model_last := 0xFF\<rparr>"
  have "?m\<lparr>model_last := 0xFF\<rparr> = ?m" by simp
  with talk_frame [of ?m] assms show ?thesis by (auto simp: resting_def simp del: talk.simps)
qed

lemma answers_at_once: "\<not> model_cs m \<Longrightarrow> model_out m = r # q \<Longrightarrow> P r \<Longrightarrow> 0 < n \<Longrightarrow>
    answers_within n P r (make_card m) (make_card (m\<lparr>model_out := q, model_last := r\<rparr>))"
  using talk_queue [of m "[r]" q "[0xFF]"] unfolding answers_within_def by (intro exI [of _ "[]"]) simp

lemma model_reads:
  assumes "resting B m"
  shows "\<exists>m'. reads_block a (B a) (make_card m) (make_card m') \<and> resting B m'"
proof -
  let ?m1 = "m\<lparr>model_cs := False, model_last := 0xFF, model_phase := Listening [], model_out := 0 # 0xFE # B a @ [0, 0]\<rparr>"
  let ?m2 = "?m1\<lparr>model_out := 0xFE # B a @ [0, 0], model_last := 0\<rparr>"
  let ?m3 = "?m2\<lparr>model_out := B a @ [0, 0], model_last := 0xFE\<rparr>"
  let ?m4 = "?m3\<lparr>model_out := [0, 0], model_last := last (B a)\<rparr>"
  let ?m5 = "?m4\<lparr>model_out := [], model_last := 0\<rparr>"
  have B: "model_blocks m = B" "length (B a) = 512" using assms by (auto simp: resting_def)
  then have ne: "B a \<noteq> []" by auto
  have k: "(0x40 OR 17 :: u8) = 0x51" by simp
  have "hear_command [0x51, addr_byte a 24, addr_byte a 16, addr_byte a 8, addr_byte a 0, 0xFF]
      (m\<lparr>model_cs := False, model_last := 0xFF\<rparr>) = ?m1"
    using B by (cases m) (simp add: hear_command_def frame_addr_bytes)
  with resting_frame [OF assms, of 17 a] answers_at_once [of ?m1 0 _ "\<lambda>r. r \<noteq> 0xFF" 10]
  have c: "command 17 a 0 (make_card m) (make_card ?m2)" unfolding command_def k by (auto simp del: talk.simps)
  have t: "answers_within 1000000 (\<lambda>r. r = 0xFE) 0xFE (make_card ?m2) (make_card ?m3)"
    by (rule answers_at_once) simp_all
  have d: "talk (replicate (length (B a)) 0xFF) (make_card ?m3) = Some (B a, make_card ?m4)"
    by (rule talk_queue) (use B ne in simp_all)
  have e: "talk [0xFF, 0xFF] (make_card ?m4) = Some ([0, 0], make_card ?m5)"
    using talk_queue [of ?m4 "[0, 0]" "[]" "[0xFF, 0xFF]"] by simp
  have "resting B ?m5" using assms by (simp add: resting_def)
  with c t d e show ?thesis unfolding reads_block_def by blast
qed

lemma model_writes:
  assumes "resting B m" and "length b = 512"
  shows "\<exists>m'. writes_block a b (make_card m) (make_card m') \<and> resting (B(a := b)) m'"
proof -
  let ?m1 = "m\<lparr>model_cs := False, model_last := 0xFF, model_phase := Storing a [], model_out := [0]\<rparr>"
  let ?m2 = "?m1\<lparr>model_out := [], model_last := 0\<rparr>"
  let ?m3 = "hear_data a (0xFE # b) (?m2\<lparr>model_last := 0xFF\<rparr>)"
  let ?m4 = "?m3\<lparr>model_out := [0xFF], model_last := 0x05\<rparr>"
  let ?m5 = "?m4\<lparr>model_out := [], model_last := 0xFF\<rparr>"
  have k: "(0x40 OR 24 :: u8) = 0x58" by simp
  have m3: "model_out ?m3 = [0x05, 0xFF]" "\<not> model_cs ?m3" "model_blocks ?m3 = B(a := b)" "model_phase ?m3 = Listening []"
    using assms by (simp_all add: hear_data_def resting_def)
  have "hear_command [0x58, addr_byte a 24, addr_byte a 16, addr_byte a 8, addr_byte a 0, 0xFF]
      (m\<lparr>model_cs := False, model_last := 0xFF\<rparr>) = ?m1"
    by (cases m) (simp add: hear_command_def frame_addr_bytes)
  with resting_frame [OF assms(1), of 24 a] answers_at_once [of ?m1 0 _ "\<lambda>r. r \<noteq> 0xFF" 10]
  have c: "command 24 a 0 (make_card m) (make_card ?m2)" unfolding command_def k by (auto simp del: talk.simps)
  obtain echo where d: "talk (0xFE # b) (make_card ?m2) = Some (echo, make_card ?m3)"
    using talk_storing [of ?m2 a "[]" "0xFE # b"] assms(2) by (auto simp del: talk.simps)
  have e: "answers_within 1000000 (\<lambda>r. r \<noteq> 0xFF) 0x05 (make_card ?m3) (make_card ?m4)"
    by (rule answers_at_once) (use m3 in simp_all)
  have f: "answers_within 1000000 (\<lambda>r. r \<noteq> 0x00) 0xFF (make_card ?m4) (make_card ?m5)"
    by (rule answers_at_once) (use m3 in simp_all)
  have tok: "(0x05 :: u8) AND 0x1F = 0x05" by simp
  have "resting (B(a := b)) ?m5" using assms m3 by (simp add: resting_def)
  with c d e f tok show ?thesis unfolding writes_block_def by blast
qed

lemma model_serves:
  assumes "resting B m"
  shows "serves B (make_card m)"
proof -
  define X where "X B c \<longleftrightarrow> (\<exists>m. c = make_card m \<and> resting B m)" for B c
  from assms have "X B (make_card m)" by (auto simp: X_def)
  then show ?thesis
  proof (coinduct rule: serves.coinduct)
    case (serves B c)
    then obtain m where m: "c = make_card m" "resting B m" by (auto simp: X_def)
    have r: "\<exists>c'. reads_block a (B a) c c' \<and> (X B c' \<or> serves B c')" for a
      using model_reads [OF m(2), of a] m(1) by (auto simp: X_def)
    have w: "\<exists>c'. writes_block a b c c' \<and> (X (B(a := b)) c' \<or> serves (B(a := b)) c')" if "length b = 512" for a b
      using model_writes [OF m(2) that, of a] m(1) by (auto simp: X_def)
    have len: "length (B a) = 512" for a using m(2) by (simp add: resting_def)
    from len r w show ?case by blast
  qed
qed

text \<open>A disk just started on it.\<close>

definition model_disk :: "blocks \<Rightarrow> sd_system" where
  "model_disk B = \<lparr>card = make_card \<lparr>model_blocks = B, model_phase = Listening [], model_out = [], model_last = 0, model_cs = False\<rparr>,
     sd_res = replicate 5 0, sd_global_info = 512, disk_initialized = 1, disk_block_sz = 512, errno = OK\<rparr>"

lemma model_disk_holds: "(\<And>a. length (B a) = 512) \<Longrightarrow> disk_holds B (model_disk B)"
  by (simp add: disk_holds_def model_disk_def model_serves resting_def)

text \<open>A card that is not there: the line stays high.\<close>

primcorec mute_card :: card where
  "mute_card = Card (\<lambda>a. (if a = sd_ptr then 0xFF else 0, mute_card)) (\<lambda>a v. mute_card)"

lemma wait_enabled_mute [simp]: "wait_enabled mute_card = Some mute_card"
  by (simp add: wait_enabled_def sd_en_ptr_def sd_ptr_def loop_until_exit)

lemma spi_send_mute [simp]: "spi_send v mute_card = Some (0xFF, mute_card)"
  by (simp add: spi_send_def)

lemma send_all_mute [simp]: "spi_send_all vs mute_card = Some mute_card"
  by (induction vs) simp_all

lemma sd_cmd_mute: "sd_cmd k a0 a1 a2 a3 crc mute_card = Some (0xFF, mute_card)"
  by (simp add: sd_cmd_def spi_clear_def eval_nat_numeral)

section \<open>Several blocks\<close>

lemma read_data_frame:
  "for_loop 0 n (\<lambda>i r. do {
       (buffer, c) \<leftarrow> r;
       (v, c) \<leftarrow> spi_send 0xFF c;
       buffer \<leftarrow> array_store buffer i v;
       Some (buffer, c) }) (Some (buf, c)) = Some (b, c') \<Longrightarrow> length b = length buf \<and> drop n b = drop n buf"
proof (induction n arbitrary: b c')
  case (Suc n)
  then obtain b1 v where b1: "length b1 = length buf" "drop n b1 = drop n buf" and b: "b = b1[n := v]"
    by (simp add: for_loop_Suc array_store_def split: bind_splits if_splits prod.splits) blast
  have "drop (Suc n) b = drop 1 (drop n b1)" by (simp add: b)
  with b1 b show ?case by simp
qed (simp add: for_loop_def)

lemma sd_read_frame:
  assumes "sd_read_single_block a buf sz s = Some (e, b, s')"
  shows "length b = length buf \<and> drop (unat sz) b = drop (unat sz) buf"
  using assms
  by (auto simp: sd_read_single_block_def read_data_def Let_def
      split: bind_splits if_splits prod.splits dest!: read_data_frame)

lemma read_part_frame:
  assumes "read_part a buf i (unat (disk_block_sz s)) s = Some (e, b, s')"
  shows "length b = length buf \<and> drop (Suc i * unat (disk_block_sz s)) b = drop (Suc i * unat (disk_block_sz s)) buf"
    and "same_disk s s'" and "e \<noteq> SD_SUCCESS \<Longrightarrow> b = buf"
proof -
  let ?n = "unat (disk_block_sz s)" and ?k = "i * unat (disk_block_sz s)"
  obtain part where p: "sd_read_single_block (a + of_nat i) (drop ?k buf) (of_nat ?n) s = Some (e, part, s')"
    "b = take ?k buf @ part"
    using assms by (auto simp: read_part_def split: bind_splits)
  from sd_read_frame [OF p(1)] have f: "length part = length buf - ?k" "drop ?n part = drop ?n (drop ?k buf)" by simp_all
  show "same_disk s s'" "e \<noteq> SD_SUCCESS \<Longrightarrow> b = buf" using sd_read_same [OF p(1)] p(2) by auto
  show "length b = length buf \<and> drop (Suc i * ?n) b = drop (Suc i * ?n) buf"
  proof (cases "?k \<le> length buf")
    case True
    then have "drop (Suc i * ?n) b = drop ?n part" by (simp add: p(2))
    with f True show ?thesis by (simp add: p(2) add.commute)
  next
    case False
    with f show ?thesis by (simp add: p(2))
  qed
qed

text \<open>
  A read of several blocks: what a failed one did is what a read of the blocks before the failing one does.
\<close>

lemma disk_read_from_result:
  assumes "disk_read_from a i n buf s = Some (r, b, s')"
  shows "length b = length buf \<and> drop ((i + n) * unat (disk_block_sz s)) b = drop ((i + n) * unat (disk_block_sz s)) buf \<and>
    (r = 0 \<and> errno s' = OK \<or>
     r = -1 \<and> errno s' = EIO \<and> (\<exists>k<n. \<exists>t. disk_read_from a i k buf s = Some (0, b, t)))"
  using assms
proof (induction n arbitrary: i buf s)
  case (Suc n)
  let ?n = "unat (disk_block_sz s)"
  from Suc.prems obtain e b1 s1 where p: "read_part a buf i ?n s = Some (e, b1, s1)"
    and rest: "if e \<noteq> SD_SUCCESS then r = -1 \<and> b = b1 \<and> s' = s1\<lparr>errno := EIO\<rparr>
      else disk_read_from a (Suc i) n b1 s1 = Some (r, b, s')"
    by (auto split: bind_splits if_splits)
  note f = read_part_frame [OF p]
  show ?case
  proof (cases "e = SD_SUCCESS")
    case False
    with rest f(3) show ?thesis by (intro conjI disjI2 exI [of _ 0]) auto
  next
    case True
    with rest have d: "disk_read_from a (Suc i) n b1 s1 = Some (r, b, s')" by simp
    have sz: "disk_block_sz s1 = disk_block_sz s" using f(2) by (simp add: same_disk_def)
    have up: "\<exists>t. disk_read_from a i (Suc k) buf s = Some (0, b, t)"
      if "\<exists>t. disk_read_from a (Suc i) k b1 s1 = Some (0, b, t)" for k
      using that p True by simp
    have "drop ((i + Suc n) * ?n) b1 = drop ((i + Suc n) * ?n) buf"
      using arg_cong [OF conjunct2 [OF f(1)], of "drop (n * ?n)"] by (simp add: algebra_simps)
    with Suc.IH [OF d] sz f(1) up show ?thesis by (auto simp del: disk_read_from.simps)
  qed
qed auto

lemma disk_write_from_result:
  assumes "disk_write_from a i n buf s = Some (r, s')"
  shows "r = 0 \<and> errno s' = OK \<or> r = -1 \<and> errno s' = EIO \<and> (\<exists>k<n. \<exists>t. disk_write_from a i k buf s = Some (0, t))"
  using assms
proof (induction n arbitrary: i s)
  case (Suc n)
  let ?n = "unat (disk_block_sz s)"
  from Suc.prems obtain e s1 where
    p: "sd_write_single_block (a + of_nat i) (drop (i * ?n) buf) (disk_block_sz s) s = Some (e, s1)"
    and rest: "if e \<noteq> SD_SUCCESS then r = -1 \<and> s' = s1\<lparr>errno := EIO\<rparr> else disk_write_from a (Suc i) n buf s1 = Some (r, s')"
    by (auto split: bind_splits if_splits)
  show ?case
  proof (cases "e = SD_SUCCESS")
    case False
    with rest show ?thesis by (intro disjI2 conjI exI [of _ 0]) auto
  next
    case True
    have up: "\<exists>t. disk_write_from a i (Suc k) buf s = Some (0, t)"
      if "\<exists>t. disk_write_from a (Suc i) k buf s1 = Some (0, t)" for k
      using that p True by simp
    from True rest Suc.IH [of "Suc i" s1] up show ?thesis by (auto simp del: disk_write_from.simps)
  qed
qed auto

section \<open>Properties\<close>

text \<open>C8: On a card that follows the SD protocol the driver is an array of blocks: whatever blocks
  are read and written, in any order, every call returns success, and every read returns the
  512 bytes last written to its block.\<close>

theorem sd_disk_array:
  assumes "serves B (card s)" and "disk_block_sz s = 512" and "list_all op_ok ops"
  shows "\<exists>s'. device_run (\<lambda>a buf. disk_read a buf 1) (\<lambda>a b. disk_write a b 1) ops s = Some (fst (array_run ops B), s') \<and>
    serves (snd (array_run ops B)) (card s')"
  using disk.run_as_array [of B s ops] assms unfolding disk_holds_def by blast

theorem sd_disk_array_witness:
  "\<exists>s'. device_run (\<lambda>a buf. disk_read a buf 1) (\<lambda>a b. disk_write a b 1)
      [Put 7 (replicate 512 1), Get 7, Get 8] (model_disk (\<lambda>a. replicate 512 0)) =
    Some ([replicate 512 1, replicate 512 0], s')"
  using sd_disk_array [of "\<lambda>a. replicate 512 0" "model_disk (\<lambda>a. replicate 512 0)" "[Put 7 (replicate 512 1), Get 7, Get 8]"]
    model_disk_holds [of "\<lambda>a. replicate 512 0"]
  by (auto simp: disk_holds_def)

text \<open>C38: Whatever a card answers, a read, a write or a start of the disk that returns reports success
  or an input error, in its result and in \<open>errno\<close>. A read of \<open>n\<close> blocks keeps the bytes of the buffer after
  them; one that fails leaves the buffer as a successful read of fewer blocks leaves it, so that the
  bytes from the failing block on are as they were. A write fails after successful writes of the blocks
  before. A successful start leaves a block size of 512 bytes, a failed one leaves the disk as it was.\<close>

theorem disk_calls_report:
  "(disk_read a buf n s = Some (r, buf', s') \<longrightarrow>
      length buf' = length buf \<and>
      drop (unat n * unat (disk_block_sz s)) buf' = drop (unat n * unat (disk_block_sz s)) buf \<and>
      (r = 0 \<and> errno s' = OK \<or>
       r = -1 \<and> errno s' = EIO \<and>
         (\<exists>k t. k < n \<and> disk_read a buf k s = Some (0, buf', t) \<and>
            drop (unat k * unat (disk_block_sz s)) buf' = drop (unat k * unat (disk_block_sz s)) buf))) \<and>
   (disk_write a b n s = Some (r, s') \<longrightarrow>
      r = 0 \<and> errno s' = OK \<or>
      r = -1 \<and> errno s' = EIO \<and> (\<exists>k t. k < n \<and> disk_write a b k s = Some (0, t))) \<and>
   (disk_init rate s = Some (r, s') \<longrightarrow>
      r = 0 \<and> errno s' = OK \<and> disk_initialized s' = 1 \<and> disk_block_sz s' = 512 \<or>
      r = -1 \<and> errno s' = EIO \<and> disk_initialized s' = disk_initialized s \<and> disk_block_sz s' = disk_block_sz s)"
proof (intro conjI impI)
  have fewer: "of_nat k < n \<and> unat (of_nat k :: u32) = k" if "k < unat n" for k
    using that unsigned_less [of n, where 'a = nat] by (simp add: word_less_nat_alt unat_of_nat)
  show "length buf' = length buf" "drop (unat n * unat (disk_block_sz s)) buf' = drop (unat n * unat (disk_block_sz s)) buf"
    if "disk_read a buf n s = Some (r, buf', s')"
    using disk_read_from_result [of a 0] that by (auto simp: disk_read_def)
  show "r = 0 \<and> errno s' = OK \<or> r = -1 \<and> errno s' = EIO \<and> (\<exists>k t. k < n \<and> disk_read a buf k s = Some (0, buf', t) \<and>
      drop (unat k * unat (disk_block_sz s)) buf' = drop (unat k * unat (disk_block_sz s)) buf)"
    if d: "disk_read a buf n s = Some (r, buf', s')"
  proof -
    from disk_read_from_result [OF d [unfolded disk_read_def]] show ?thesis
    proof (elim conjE disjE exE)
      fix k t assume k: "k < unat n" "disk_read_from a 0 k buf s = Some (0, buf', t)" and "r = -1" "errno s' = EIO"
      with fewer [OF k(1)] disk_read_from_result [OF k(2)] show ?thesis
        by (intro disjI2 conjI exI [of _ "of_nat k"] exI [of _ t]) (simp_all add: disk_read_def)
    qed simp
  qed
  show "r = 0 \<and> errno s' = OK \<or> r = -1 \<and> errno s' = EIO \<and> (\<exists>k t. k < n \<and> disk_write a b k s = Some (0, t))"
    if "disk_write a b n s = Some (r, s')"
    using disk_write_from_result [OF that [unfolded disk_write_def]] fewer unfolding disk_write_def by metis
qed (rule disk_init_result)

theorem disk_calls_report_witness:
  "let s = (model_disk (\<lambda>a. replicate 512 0))\<lparr>card := mute_card\<rparr>
   in \<exists>s' s''. disk_read 3 (replicate 1024 9) 2 s = Some (-1, replicate 1024 9, s') \<and> errno s' = EIO \<and>
        disk_init 80000000 s = Some (-1, s'') \<and> errno s'' = EIO \<and> disk_block_sz s'' = 512"
proof -
  define s where "s = (model_disk (\<lambda>a. replicate 512 0))\<lparr>card := mute_card\<rparr>"
  have s: "card s = mute_card" "disk_block_sz s = 512" by (simp_all add: s_def model_disk_def)
  have two: "unat (2 :: u32) = Suc 1" by simp
  obtain s' where r: "disk_read 3 (replicate 1024 9) 2 s = Some (-1, replicate 1024 9, s')"
    unfolding disk_read_def two
    by (simp add: read_part_def sd_read_single_block_def sd_cmd_r1_def sd_cmd_mute s)
  obtain s'' where i: "disk_init 80000000 s = Some (-1, s'')"
    by (simp add: disk_init_def sd_init_def spi_set_clockrate_def sd_cmd_r1_def sd_cmd_mute s)
  from r i disk_calls_report [of 3 "replicate 1024 9" 2 s "-1" "replicate 1024 9" s']
    disk_calls_report [of _ _ _ _ "-1" _ s'' _ 80000000] s
  show ?thesis by (fold s_def) (simp add: Let_def)
qed

end
