(* ===== verification/Fat_Table.thy ===== *)
theory Fat_Table
  imports Sd_Card
begin

text \<open>
  The FAT32 library (libsd/fat32.c, libsd/fat32.h), first part: the state of the library, little-endian
  values in sectors, the description of the partition, and the file allocation table: looking up an
  entry, following or extending a chain of clusters, freeing a chain.
\<close>

section \<open>State\<close>

record fat_partition_info =
  vol_begin_addr :: u32
  bytes_per_sector :: u32
  sectors_per_cluster :: u32
  num_res_sectors :: u32
  num_fats :: u32
  num_dir_entries :: u32
  num_total_sectors :: u32
  media_desc_type :: u32
  sectors_per_fat :: u32
  root_dir_cluster :: u32
  fat_begin_addr :: u32
  cluster_begin_addr :: u32
  entries_per_sector :: u32
  root_dir_addr :: u32

record fat_dir_entry_idx =
  dir_cluster :: u32
  dir_sector :: u32
  dir_index :: u32

record fat_file =
  file_free :: bool
  file_pos :: u32
  file_dir_idx :: fat_dir_entry_idx
  start_cluster :: u32
  current_cluster :: u32
  file_size :: u32

record fat_state =
  dev :: sd_system
  fat_pinfo :: fat_partition_info
  fat_open_files :: "fat_file list"
  long_name16 :: "u16 list"
  long_name8 :: "u8 list"
  fat_initialized :: bool

definition fat_errno :: "fat_state \<Rightarrow> errno" where
  "fat_errno s = errno (dev s)"

definition set_errno :: "errno \<Rightarrow> fat_state \<Rightarrow> fat_state" where
  "set_errno e s = s\<lparr>dev := (dev s)\<lparr>errno := e\<rparr>\<rparr>"

definition FAT_SUCCESS :: int where "FAT_SUCCESS = 0"
definition FAT_FAIL :: int where "FAT_FAIL = -1"

section \<open>Sectors and values in them\<close>

text \<open>The results are whether the call returned \<open>FAT_SUCCESS\<close>.\<close>

definition fat_read_single_block :: "u32 \<Rightarrow> u8 list \<Rightarrow> fat_state \<Rightarrow> (bool \<times> u8 list \<times> fat_state) option" where
  "fat_read_single_block addr buffer s = do {
     (r, buffer, d) \<leftarrow> disk_read addr buffer 1 (dev s);
     let s = s\<lparr>dev := d\<rparr>;
     Some (if r = 0 then (True, buffer, s) else (False, buffer, set_errno EIO s)) }"

definition fat_write_single_block :: "u32 \<Rightarrow> u8 list \<Rightarrow> fat_state \<Rightarrow> (bool \<times> fat_state) option" where
  "fat_write_single_block addr buffer s = do {
     (r, d) \<leftarrow> disk_write addr buffer 1 (dev s);
     let s = s\<lparr>dev := d\<rparr>;
     Some (if r = 0 then (True, s) else (False, set_errno EIO s)) }"

text \<open>A pointer into a buffer is the buffer and an offset.\<close>

definition fat_get_uint32 :: "u8 list \<Rightarrow> nat \<Rightarrow> u32" where
  "fat_get_uint32 buf k =
     ucast (buf ! k) + push_bit 8 (ucast (buf ! (k + 1))) +
     push_bit 16 (ucast (buf ! (k + 2))) + push_bit 24 (ucast (buf ! (k + 3)))"

definition fat_get_uint16 :: "u8 list \<Rightarrow> nat \<Rightarrow> u16" where
  "fat_get_uint16 buf k = ucast (buf ! k) + push_bit 8 (ucast (buf ! (k + 1)))"

definition fat_get_uint8 :: "u8 list \<Rightarrow> nat \<Rightarrow> u8" where
  "fat_get_uint8 buf k = buf ! k"

definition fat_set_uint32 :: "u32 \<Rightarrow> u8 list \<Rightarrow> nat \<Rightarrow> u8 list" where
  "fat_set_uint32 v buf k =
     buf[k := ucast v, k + 1 := ucast (drop_bit 8 v), k + 2 := ucast (drop_bit 16 v), k + 3 := ucast (drop_bit 24 v)]"

definition fat_set_uint16 :: "u16 \<Rightarrow> u8 list \<Rightarrow> nat \<Rightarrow> u8 list" where
  "fat_set_uint16 v buf k = buf[k := ucast v, k + 1 := ucast (drop_bit 8 v)]"

definition fat_set_uint8 :: "u8 \<Rightarrow> u8 list \<Rightarrow> nat \<Rightarrow> u8 list" where
  "fat_set_uint8 v buf k = buf[k := v]"

definition umin :: "u32 \<Rightarrow> u32 \<Rightarrow> u32" where
  "umin a b = (if a < b then a else b)"

text \<open>A sector buffer on the stack; its first contents are never looked at.\<close>

definition sector_buffer :: "fat_state \<Rightarrow> u8 list" where
  "sector_buffer s = replicate (unat (bytes_per_sector (fat_pinfo s))) 0"

definition FAT_DIR_ENTRY_WIDTH :: nat where "FAT_DIR_ENTRY_WIDTH = 32"

definition fat_attrib_of_dir_entry :: "u8 list \<Rightarrow> nat \<Rightarrow> u8" where
  "fat_attrib_of_dir_entry sector k = sector ! (k * FAT_DIR_ENTRY_WIDTH + 11)"

definition fat_cluster_of_dir_entry :: "u8 list \<Rightarrow> nat \<Rightarrow> u32" where
  "fat_cluster_of_dir_entry sector k =
     (let high = ucast (fat_get_uint16 sector (k * FAT_DIR_ENTRY_WIDTH + 0x14));
          low = ucast (fat_get_uint16 sector (k * FAT_DIR_ENTRY_WIDTH + 0x1a))
      in low OR push_bit 16 high)"

definition fat_size_of_dir_entry :: "u8 list \<Rightarrow> nat \<Rightarrow> u32" where
  "fat_size_of_dir_entry sector k = fat_get_uint32 sector (k * FAT_DIR_ENTRY_WIDTH + 0x1C)"

definition fat_first_sector_of_cluster :: "fat_partition_info \<Rightarrow> u32 \<Rightarrow> u32" where
  "fat_first_sector_of_cluster p c = cluster_begin_addr p + (c - 2) * sectors_per_cluster p"

section \<open>The partition\<close>

definition PTABLE_BEGIN :: nat where "PTABLE_BEGIN = 446"
definition PTABLE_ENTRY_SIZE :: nat where "PTABLE_ENTRY_SIZE = 16"
definition PTABLE_TYPE_OFFSET :: nat where "PTABLE_TYPE_OFFSET = 4"
definition PTABLE_VOL_ADDR_OFFSET :: nat where "PTABLE_VOL_ADDR_OFFSET = 8"
definition FAT_PARTITION_SIG_CHS :: u8 where "FAT_PARTITION_SIG_CHS = 0x0B"
definition FAT_PARTITION_SIG_LBA :: u8 where "FAT_PARTITION_SIG_LBA = 0x0C"

text \<open>The fields taken from the first sector of the volume, in the order of the assignments.\<close>

definition volume_info :: "u8 list \<Rightarrow> fat_partition_info \<Rightarrow> fat_partition_info" where
  "volume_info b p =
     (let p = p\<lparr>bytes_per_sector := ucast (fat_get_uint16 b 11),
                sectors_per_cluster := ucast (fat_get_uint8 b 13),
                num_res_sectors := ucast (fat_get_uint16 b 14),
                num_fats := ucast (fat_get_uint8 b 16),
                num_dir_entries := ucast (fat_get_uint16 b 17),
                num_total_sectors := ucast (fat_get_uint16 b 19),
                media_desc_type := ucast (fat_get_uint8 b 21),
                sectors_per_fat := fat_get_uint32 b 0x24,
                root_dir_cluster := fat_get_uint32 b 0x2C\<rparr>;
          p = p\<lparr>entries_per_sector := bytes_per_sector p div of_nat FAT_DIR_ENTRY_WIDTH,
                fat_begin_addr := vol_begin_addr p + num_res_sectors p\<rparr>;
          p = p\<lparr>cluster_begin_addr := fat_begin_addr p + num_fats p * sectors_per_fat p\<rparr>
      in p\<lparr>root_dir_addr := cluster_begin_addr p + (root_dir_cluster p - 2) * sectors_per_cluster p\<rparr>)"

definition fat_load_partition_info ::
  "u8 \<Rightarrow> fat_partition_info \<Rightarrow> fat_state \<Rightarrow> (bool \<times> fat_partition_info \<times> fat_state) option" where
  "fat_load_partition_info idx p s = do {
     (ok, buffer, s) \<leftarrow> fat_read_single_block 0 (replicate 512 0) s;
     let e = PTABLE_BEGIN + unat idx * PTABLE_ENTRY_SIZE;
         let ptype = fat_get_uint8 buffer (e + PTABLE_TYPE_OFFSET);
     if \<not> ok then Some (False, p, set_errno EIO s)
     else if idx \<ge> 4 then Some (False, p, set_errno EINVAL s)
     else if buffer ! 510 \<noteq> 0x55 \<and> buffer ! 511 \<noteq> 0xAA then Some (False, p, set_errno EFAULT s)
     else if ptype \<noteq> FAT_PARTITION_SIG_CHS \<and> ptype \<noteq> FAT_PARTITION_SIG_LBA then Some (False, p, set_errno EBADF s)
     else do {
       let p = p\<lparr>vol_begin_addr := fat_get_uint32 buffer (e + PTABLE_VOL_ADDR_OFFSET)\<rparr>;
       (ok, buffer, s) \<leftarrow> fat_read_single_block (vol_begin_addr p) buffer s;
       Some (if \<not> ok then (False, p, set_errno EIO s)
             else (True, volume_info buffer p, set_errno OK s)) }}"

fun load_from :: "nat \<Rightarrow> u8 \<Rightarrow> fat_partition_info \<Rightarrow> fat_state \<Rightarrow> (bool \<times> fat_partition_info \<times> fat_state) option" where
  "load_from 0 i p s = Some (False, p, s)"
| "load_from (Suc n) i p s = do {
     (ok, p, s) \<leftarrow> fat_load_partition_info i p s;
     if ok then Some (True, p, s) else load_from n (i + 1) p s }"

definition fat_load_first_partition_info ::
  "fat_partition_info \<Rightarrow> fat_state \<Rightarrow> (bool \<times> fat_partition_info \<times> fat_state) option" where
  "fat_load_first_partition_info p s = load_from 4 0 p s"

section \<open>The file allocation table\<close>

definition FAT_TV_LAST :: "u32 \<Rightarrow> bool" where "FAT_TV_LAST v \<longleftrightarrow> v \<ge> 0x0FFFFFF8"
definition FAT_TV_BAD :: "u32 \<Rightarrow> bool" where "FAT_TV_BAD v \<longleftrightarrow> v = 0x0FFFFFF7"
definition FAT_TV_FREE :: "u32 \<Rightarrow> bool" where "FAT_TV_FREE v \<longleftrightarrow> v = 0"

definition table_value :: "u8 list \<Rightarrow> nat \<Rightarrow> u32" where
  "table_value buf k = fat_get_uint32 buf k AND 0x0FFFFFFF"

text \<open>The result is the table value, or \<^const>\<open>None\<close> for a failed read.\<close>

definition fat_get_table_value :: "u32 \<Rightarrow> fat_state \<Rightarrow> (u32 option \<times> fat_state) option" where
  "fat_get_table_value c s = do {
     let p = fat_pinfo s; let idx = c * 4;
         let sec = fat_begin_addr p + idx div bytes_per_sector p; let entry_idx = idx mod bytes_per_sector p;
     (ok, buffer, s) \<leftarrow> fat_read_single_block sec (sector_buffer s) s;
     Some (if ok then Some (table_value buffer (unat entry_idx)) else None, s) }"

text \<open>
  The search for a free cluster starts at the entry of the old one and runs through all entries of
  a sector, then the next sector, around the table. Entry 0 is never taken.
\<close>

definition free_entry :: "u8 list \<Rightarrow> u32 \<Rightarrow> u32 \<Rightarrow> u32 \<Rightarrow> u32 option" where
  "free_entry buf eps first cur_sec =
     List.find (\<lambda>e. FAT_TV_FREE (table_value buf (4 * unat e)) \<and> cur_sec * eps + e \<noteq> 0)
       (map (\<lambda>j. (first + of_nat j) mod eps) [0..<unat eps])"

text \<open>
  A free entry is claimed: the old cluster is linked to it, if wanted, and the new one marked as
  the last. Both entries may lie in the same sector. The new cluster is returned even when a write
  fails.
\<close>

definition claim_entry ::
  "u32 \<Rightarrow> bool \<Rightarrow> u8 list \<Rightarrow> u32 \<Rightarrow> u32 \<Rightarrow> u8 list \<Rightarrow> fat_state \<Rightarrow> (bool \<times> u32 \<times> fat_state) option" where
  "claim_entry c link orig cur_sec e buf s = do {
     let p = fat_pinfo s; let fat_start = fat_begin_addr p; let eps = bytes_per_sector p div 4;
         let first_sec = c div eps; let first_ent = c mod eps; let new = cur_sec * eps + e;
         let same = (first_sec = cur_sec);
         let marked = fat_set_uint32 new (if same then buf else orig) (4 * unat first_ent);
         let buf = (if link \<and> same then marked else buf);
     (ok, s) \<leftarrow> (if link then fat_write_single_block (fat_start + first_sec) marked s else Some (True, s));
     if \<not> ok then Some (False, new, s)
     else do {
       (ok, s) \<leftarrow> fat_write_single_block (fat_start + cur_sec) (fat_set_uint32 0x0FFFFFFF buf (4 * unat e)) s;
       Some (ok, new, s) }}"

fun search_sectors ::
  "u32 \<Rightarrow> bool \<Rightarrow> u8 list \<Rightarrow> nat \<Rightarrow> nat \<Rightarrow> fat_state \<Rightarrow> (bool \<times> u32 \<times> fat_state) option" where
  "search_sectors c link orig i 0 s = Some (False, c, set_errno ENOSPC s)"
| "search_sectors c link orig i (Suc n) s = do {
     let p = fat_pinfo s; let eps = bytes_per_sector p div 4;
         let cur_sec = (c div eps + of_nat i) mod sectors_per_fat p;
     (ok, buf, s) \<leftarrow> fat_read_single_block (fat_begin_addr p + cur_sec) (sector_buffer s) s;
     if \<not> ok then Some (False, c, s)
     else case free_entry buf eps (c mod eps) cur_sec of
       Some e \<Rightarrow> claim_entry c link orig cur_sec e buf s
     | None \<Rightarrow> search_sectors c link orig (Suc i) n s }"

definition fat_acquire_next_cluster :: "u32 \<Rightarrow> bool \<Rightarrow> fat_state \<Rightarrow> (bool \<times> u32 \<times> fat_state) option" where
  "fat_acquire_next_cluster c link s = do {
     (tv, s) \<leftarrow> fat_get_table_value c s;
     case tv of
       None \<Rightarrow> Some (False, c, s)
     | Some tv \<Rightarrow>
         if FAT_TV_BAD tv then Some (False, c, set_errno EBADF s)
         else if FAT_TV_FREE tv then Some (False, c, set_errno EBADF s)
         else if \<not> FAT_TV_LAST tv then Some (True, tv, s)
         else do {
           let p = fat_pinfo s; let eps = bytes_per_sector p div 4;
           (ok, orig, s) \<leftarrow> fat_read_single_block (fat_begin_addr p + c div eps) (sector_buffer s) s;
           if \<not> ok then Some (False, c, s)
           else search_sectors c link orig 0 (unat (sectors_per_fat p)) s }}"

text \<open>One entry of a chain is freed; the loop goes on with the value it had.\<close>

definition free_step :: "u32 \<times> u8 list \<times> fat_state \<Rightarrow> (unit option \<times> u32 \<times> u8 list \<times> fat_state) option" where
  "free_step = (\<lambda>(tv, buf, s). do {
     let p = fat_pinfo s; let byteoff = tv * 4; let sec = fat_begin_addr p + byteoff div bytes_per_sector p;
         let off = unat (byteoff mod bytes_per_sector p);
     (ok, buf, s) \<leftarrow> fat_read_single_block sec buf s;
     if \<not> ok then Some (Some (), tv, buf, s)
     else do {
       let tv = table_value buf off;
       if FAT_TV_BAD tv \<or> FAT_TV_FREE tv then Some (Some (), tv, buf, set_errno EBADF s)
       else do {
         let buf = fat_set_uint32 0 buf off;
         (ok, s) \<leftarrow> fat_write_single_block sec buf s;
         Some (if \<not> ok \<or> FAT_TV_LAST tv then Some () else None, tv, buf, s) }}})"

definition fat_free_cluster_chain :: "u32 \<Rightarrow> fat_state \<Rightarrow> (bool \<times> fat_state) option" where
  "fat_free_cluster_chain c s = do {
     (u, tv, buf, s) \<leftarrow> loop_until free_step (c, sector_buffer s, set_errno OK s);
     Some (fat_errno s = OK, s) }"

end
