(* ===== verification/Fat_File.thy ===== *)
theory Fat_File
  imports Fat_Table
begin

text \<open>
  The FAT32 library (libsd/fat32.c), second part: open files. A file is named by a descriptor, an
  index into the table of open files shifted by three; it carries its position, its first cluster and
  the cluster the position lies in.
\<close>

section \<open>The table of open files\<close>

definition FAT_MAX_FILES :: nat where "FAT_MAX_FILES = 16"
definition FAT_FD_OFFSET :: int where "FAT_FD_OFFSET = 3"

definition fat_init :: "fat_partition_info \<Rightarrow> fat_state \<Rightarrow> int \<times> fat_state" where
  "fat_init pinfo s =
     (if fat_initialized s then (FAT_FAIL, set_errno EPERM s)
      else (FAT_SUCCESS, set_errno OK (s\<lparr>fat_pinfo := pinfo,
         fat_open_files := map (\<lambda>f. f\<lparr>file_free := True, file_pos := 0\<rparr>) (fat_open_files s), fat_initialized := True\<rparr>)))"

definition fat_open_dir_entry :: "u8 list \<Rightarrow> fat_dir_entry_idx \<Rightarrow> fat_state \<Rightarrow> int \<times> fat_state" where
  "fat_open_dir_entry sector entry_idx s =
     (case List.find (\<lambda>i. file_free (fat_open_files s ! i)) [0..<FAT_MAX_FILES] of
        None \<Rightarrow> (-1, s)
      | Some i \<Rightarrow>
          (let c = fat_cluster_of_dir_entry sector (unat (dir_index entry_idx));
               f = \<lparr>file_free = False, file_pos = 0, file_dir_idx = entry_idx, start_cluster = c, current_cluster = c,
                    file_size = fat_size_of_dir_entry sector (unat (dir_index entry_idx))\<rparr>
           in (int i + FAT_FD_OFFSET, s\<lparr>fat_open_files := (fat_open_files s)[i := f]\<rparr>)))"

definition file_index :: "int \<Rightarrow> nat" where
  "file_index fd = nat (fd - FAT_FD_OFFSET)"

definition open_file :: "int \<Rightarrow> fat_state \<Rightarrow> fat_file" where
  "open_file fd s = fat_open_files s ! file_index fd"

definition update_file :: "int \<Rightarrow> (fat_file \<Rightarrow> fat_file) \<Rightarrow> fat_state \<Rightarrow> fat_state" where
  "update_file fd g s = s\<lparr>fat_open_files := (fat_open_files s)[file_index fd := g (open_file fd s)]\<rparr>"

text \<open>The checks all calls on a descriptor begin with.\<close>

definition fd_error :: "int \<Rightarrow> fat_state \<Rightarrow> errno option" where
  "fd_error fd s =
     (if \<not> fat_initialized s then Some EPERM
      else if fd < FAT_FD_OFFSET \<or> fd \<ge> FAT_FD_OFFSET + int FAT_MAX_FILES then Some EINVAL
      else if file_free (open_file fd s) then Some EBADF
      else None)"

definition fat_close :: "int \<Rightarrow> fat_state \<Rightarrow> int \<times> fat_state" where
  "fat_close fd s =
     (case fd_error fd s of
        Some e \<Rightarrow> (FAT_FAIL, set_errno e s)
      | None \<Rightarrow> (FAT_SUCCESS, set_errno OK (update_file fd (\<lambda>f. f\<lparr>file_free := True\<rparr>) s)))"

section \<open>Moving bytes\<close>

text \<open>Copying inside the bounds of both arrays; \<^const>\<open>None\<close> outside.\<close>

definition memcpy :: "u8 list \<Rightarrow> nat \<Rightarrow> u8 list \<Rightarrow> nat \<Rightarrow> nat \<Rightarrow> u8 list option" where
  "memcpy dst k src j n =
     (if k + n \<le> length dst \<and> j + n \<le> length src
      then Some (take k dst @ take n (drop j src) @ drop (k + n) dst) else None)"

text \<open>The counters of the two loops.\<close>

record counters =
  moved :: u32
  left_over :: u32
  byteoff :: u32
  secoff :: u32
  secfirst :: u32

definition start_counters :: "fat_partition_info \<Rightarrow> fat_file \<Rightarrow> u32 \<Rightarrow> counters" where
  "start_counters p f sz =
     \<lparr>moved = 0, left_over = sz, byteoff = file_pos f mod bytes_per_sector p,
      secoff = (file_pos f div bytes_per_sector p) mod sectors_per_cluster p,
      secfirst = fat_first_sector_of_cluster p (current_cluster f)\<rparr>"

definition count_moved :: "u32 \<Rightarrow> counters \<Rightarrow> counters" where
  "count_moved n k = k\<lparr>moved := moved k + n, left_over := left_over k - n\<rparr>"

text \<open>
  One round of reading; the result \<open>Some ()\<close> leaves the loop. A part of a sector goes through a
  buffer of its own, a whole one straight to its place.
\<close>

definition read_chunk :: "u32 \<Rightarrow> u32 \<Rightarrow> u32 \<Rightarrow> u32 \<Rightarrow> u8 list \<Rightarrow> fat_state \<Rightarrow> (bool \<times> u8 list \<times> fat_state) option" where
  "read_chunk sector off rdsz got buf s =
     (if rdsz < bytes_per_sector (fat_pinfo s)
      then do {
        (ok, odd_buf, s) \<leftarrow> fat_read_single_block sector (sector_buffer s) s;
        if \<not> ok then Some (False, buf, s)
        else do { buf \<leftarrow> memcpy buf (unat got) odd_buf (unat off) (unat rdsz); Some (True, buf, s) }}
      else do {
        (ok, part, s) \<leftarrow> fat_read_single_block sector (drop (unat got) buf) s;
        Some (ok, take (unat got) buf @ part, s) })"

text \<open>The next sector; at the end of a cluster the next one of the chain.\<close>

definition read_advance :: "int \<Rightarrow> counters \<Rightarrow> fat_state \<Rightarrow> (unit option \<times> counters \<times> fat_state) option" where
  "read_advance fd k s =
     (let p = fat_pinfo s; k = k\<lparr>secoff := secoff k + 1\<rparr> in
      if secoff k \<ge> sectors_per_cluster p
      then do {
        (tv, s) \<leftarrow> fat_get_table_value (current_cluster (open_file fd s)) s;
        case tv of
          None \<Rightarrow> Some (Some (), k, set_errno ENOSPC s)
        | Some tv \<Rightarrow>
            if FAT_TV_BAD tv \<or> FAT_TV_LAST tv \<or> FAT_TV_FREE tv then Some (Some (), k, set_errno EBADF s)
            else Some (None, k\<lparr>secoff := 0, secfirst := fat_first_sector_of_cluster p tv\<rparr>,
                       update_file fd (\<lambda>f. f\<lparr>current_cluster := tv\<rparr>) s) }
      else Some (None, k, s))"

definition read_step ::
  "int \<Rightarrow> counters \<times> u8 list \<times> fat_state \<Rightarrow> (unit option \<times> counters \<times> u8 list \<times> fat_state) option" where
  "read_step fd = (\<lambda>(k, buf, s).
     let secsz = bytes_per_sector (fat_pinfo s); rdsz = umin (secsz - byteoff k) (left_over k) in
     if left_over k = 0 then Some (Some (), k, buf, s)
     else do {
       (ok, buf, s) \<leftarrow> read_chunk (secfirst k + secoff k) (byteoff k) rdsz (moved k) buf s;
       if \<not> ok then Some (Some (), k, buf, s)
       else do {
         let k' = count_moved rdsz k;
         (x, k', s) \<leftarrow> (if left_over k' > 0 \<and> byteoff k + rdsz \<ge> secsz then read_advance fd k' s else Some (None, k', s));
         Some (x, k'\<lparr>byteoff := 0\<rparr>, buf, s) }})"

text \<open>A read returns the number of bytes, as a signed number, and the buffer.\<close>

definition fat_read :: "int \<Rightarrow> u8 list \<Rightarrow> u32 \<Rightarrow> fat_state \<Rightarrow> (int \<times> u8 list \<times> fat_state) option" where
  "fat_read fd buf sz s =
     (case fd_error fd s of
        Some e \<Rightarrow> Some (FAT_FAIL, buf, set_errno e s)
      | None \<Rightarrow> do {
          let f = open_file fd s;
          let sz = (if file_pos f + sz > file_size f then file_size f - file_pos f else sz);
          (u, k, buf, s) \<leftarrow> loop_until (read_step fd) (start_counters (fat_pinfo s) f sz, buf, set_errno OK s);
          Some (sint (moved k), buf, update_file fd (\<lambda>f. f\<lparr>file_pos := file_pos f + moved k\<rparr>) s) })"

text \<open>One round of writing. A part of a sector is read, changed and written back.\<close>

definition write_chunk :: "u32 \<Rightarrow> u32 \<Rightarrow> u32 \<Rightarrow> u32 \<Rightarrow> u8 list \<Rightarrow> fat_state \<Rightarrow> (bool \<times> fat_state) option" where
  "write_chunk sector off wrsz got buf s =
     (if wrsz < bytes_per_sector (fat_pinfo s)
      then do {
        (ok, odd_buf, s) \<leftarrow> fat_read_single_block sector (sector_buffer s) s;
        if \<not> ok then Some (False, s)
        else do {
          wrbuf \<leftarrow> memcpy odd_buf (unat off) buf (unat got) (unat wrsz);
          fat_write_single_block sector wrbuf s }}
      else fat_write_single_block sector (drop (unat got) buf) s)"

text \<open>At the end of a cluster the chain is followed or extended.\<close>

definition write_advance :: "int \<Rightarrow> counters \<Rightarrow> fat_state \<Rightarrow> (unit option \<times> counters \<times> fat_state) option" where
  "write_advance fd k s =
     (let p = fat_pinfo s; k = k\<lparr>secoff := secoff k + 1\<rparr> in
      if secoff k \<ge> sectors_per_cluster p
      then do {
        (ok, c, s) \<leftarrow> fat_acquire_next_cluster (current_cluster (open_file fd s)) True s;
        let s = update_file fd (\<lambda>f. f\<lparr>current_cluster := c\<rparr>) s;
        Some (if \<not> ok then (Some (), k, set_errno ENOSPC s)
              else (None, k\<lparr>secoff := 0, secfirst := fat_first_sector_of_cluster p c\<rparr>, s)) }
      else Some (None, k, s))"

definition write_step ::
  "int \<Rightarrow> u8 list \<Rightarrow> counters \<times> fat_state \<Rightarrow> (unit option \<times> counters \<times> fat_state) option" where
  "write_step fd buf = (\<lambda>(k, s).
     let secsz = bytes_per_sector (fat_pinfo s); wrsz = umin (secsz - byteoff k) (left_over k) in
     if left_over k = 0 then Some (Some (), k, s)
     else do {
       (ok, s) \<leftarrow> write_chunk (secfirst k + secoff k) (byteoff k) wrsz (moved k) buf s;
       if \<not> ok then Some (Some (), k, s)
       else do {
         let k' = count_moved wrsz k;
         (x, k', s) \<leftarrow> (if byteoff k + wrsz \<ge> secsz then write_advance fd k' s else Some (None, k', s));
         Some (x, k'\<lparr>byteoff := 0\<rparr>, s) }})"

text \<open>The size in the directory entry grows with the file, unless the entry cannot be read.\<close>

definition grow_file :: "int \<Rightarrow> u32 \<Rightarrow> fat_state \<Rightarrow> fat_state option" where
  "grow_file fd new_size s = do {
     let f = open_file fd s;
     let sector = dir_sector (file_dir_idx f) + fat_first_sector_of_cluster (fat_pinfo s) (dir_cluster (file_dir_idx f));
     (ok, odd_buf, s) \<leftarrow> fat_read_single_block sector (sector_buffer s) s;
     if fat_errno s = EIO then Some s
     else do {
       (ok, s) \<leftarrow> fat_write_single_block sector
         (fat_set_uint32 new_size odd_buf (unat (dir_index (file_dir_idx f)) * FAT_DIR_ENTRY_WIDTH + 0x1C)) s;
       Some (update_file fd (\<lambda>f. f\<lparr>file_size := new_size\<rparr>) s) }}"

definition fat_write :: "int \<Rightarrow> u8 list \<Rightarrow> u32 \<Rightarrow> fat_state \<Rightarrow> (int \<times> fat_state) option" where
  "fat_write fd buf sz s =
     (case fd_error fd s of
        Some e \<Rightarrow> Some (FAT_FAIL, set_errno e s)
      | None \<Rightarrow> do {
          let f = open_file fd s;
          (u, k, s) \<leftarrow> loop_until (write_step fd buf) (start_counters (fat_pinfo s) f sz, set_errno OK s);
          let new_size = file_pos f + moved k;
          s \<leftarrow> (if new_size > file_size f then grow_file fd new_size s else Some s);
          Some (sint (moved k), update_file fd (\<lambda>f. f\<lparr>file_pos := file_pos f + moved k\<rparr>) s) })"

section \<open>Seeking\<close>

definition SEEK_SET :: int where "SEEK_SET = 0"
definition SEEK_CUR :: int where "SEEK_CUR = 1"
definition SEEK_END :: int where "SEEK_END = 2"

text \<open>
  The walk along the chain: the result is whether it went on to the end of the call, which a failed
  read or a bad cluster does too.
\<close>

fun seek_clusters :: "nat \<Rightarrow> u32 \<Rightarrow> fat_state \<Rightarrow> (bool \<times> u32 \<times> fat_state) option" where
  "seek_clusters 0 c s = Some (True, c, s)"
| "seek_clusters (Suc n) c s = do {
     (tv, s) \<leftarrow> fat_get_table_value c s;
     case tv of
       None \<Rightarrow> Some (True, c, s)
     | Some tv \<Rightarrow>
         if FAT_TV_BAD tv then Some (True, c, set_errno EAGAIN s)
         else if FAT_TV_LAST tv then Some (False, c, s)
         else seek_clusters n tv s }"

text \<open>Offsets are signed 32-bit numbers; where the code compares them with unsigned ones, they are unsigned.\<close>

definition seek_target :: "fat_file \<Rightarrow> u32 \<Rightarrow> int \<Rightarrow> u32 option" where
  "seek_target f pos whence =
     (if whence = SEEK_SET then Some pos
      else if whence = SEEK_CUR then Some (file_pos f + pos)
      else if whence = SEEK_END then Some (file_size f + pos)
      else None)"

definition fat_lseek :: "int \<Rightarrow> u32 \<Rightarrow> int \<Rightarrow> fat_state \<Rightarrow> (int \<times> fat_state) option" where
  "fat_lseek fd pos whence s =
     (case fd_error fd s of
        Some e \<Rightarrow> Some (FAT_FAIL, set_errno e s)
      | None \<Rightarrow>
          (let f = open_file fd s; s = set_errno OK s in
           case seek_target f pos whence of
             None \<Rightarrow> Some (FAT_FAIL, set_errno EINVAL s)
           | Some abs_pos \<Rightarrow>
               if sint abs_pos < 0 \<or> abs_pos > file_size f then Some (FAT_FAIL, set_errno EPIPE s)
               else do {
                 let per_cluster = bytes_per_sector (fat_pinfo s) * sectors_per_cluster (fat_pinfo s);
                 let (n, c) = (if abs_pos > file_pos f
                               then ((file_pos f mod per_cluster + (abs_pos - file_pos f)) div per_cluster, current_cluster f)
                               else (abs_pos div per_cluster, start_cluster f));
                 (go_on, c, s) \<leftarrow> seek_clusters (unat n) c s;
                 Some (if \<not> go_on then (FAT_FAIL, s)
                       else (sint abs_pos, set_errno OK (update_file fd (\<lambda>f. f\<lparr>current_cluster := c, file_pos := abs_pos\<rparr>) s))) }))"

end
