(* ===== verification/Fat_Name.thy ===== *)
theory Fat_Name
  imports Fat_File
begin

text \<open>
  The FAT32 library (libsd/fat32.c), third part: the names of directory entries and the resolution of
  paths. A directory is a chain of clusters full of entries of 32 bytes. A long name is kept in a run
  of entries before the one of the file, which the functions walk along, moving the index and loading
  the next sector as they go.
\<close>

section \<open>Strings\<close>

text \<open>Paths are lists of bytes with their final 0; a search past the end of the list is \<^const>\<open>None\<close>.\<close>

definition path_delim :: "u8 \<Rightarrow> bool" where
  "path_delim c \<longleftrightarrow> c = 0 \<or> c = 0x5C \<or> c = 0x2F \<or> c = 0x20"

definition fat_idx_of_next_path_delim :: "u8 list \<Rightarrow> nat \<Rightarrow> nat option" where
  "fat_idx_of_next_path_delim path start = List.find (\<lambda>i. path_delim (path ! i)) [start..<length path]"

text \<open>The library function, on ASCII.\<close>

definition toupper :: "u8 \<Rightarrow> u8" where
  "toupper c = (if 0x61 \<le> c \<and> c \<le> 0x7A then c - 0x20 else c)"

definition store_bytes :: "'a list \<Rightarrow> nat \<Rightarrow> 'a list \<Rightarrow> 'a list option" where
  "store_bytes dst k xs = (if k + length xs \<le> length dst then Some (take k dst @ xs @ drop (k + length xs) dst) else None)"

section \<open>Directory entries\<close>

definition FAT_DIR_ENTRY_FREE :: u8 where "FAT_DIR_ENTRY_FREE = 0xE5"
definition FAT_DIR_ENTRY_LAST :: u8 where "FAT_DIR_ENTRY_LAST = 0x00"
definition FAT_LAST_LONG :: u8 where "FAT_LAST_LONG = 0x40"
definition FAT_DIRECTORY :: u8 where "FAT_DIRECTORY = 0x10"
definition FAT_ARCHIVE :: u8 where "FAT_ARCHIVE = 0x20"
definition FAT_LONG_NAME_ENTRY :: u8 where "FAT_LONG_NAME_ENTRY = 0x0F"

definition entry_start :: "fat_dir_entry_idx \<Rightarrow> nat" where
  "entry_start i = unat (dir_index i) * FAT_DIR_ENTRY_WIDTH"

definition entries_in_sector :: "fat_state \<Rightarrow> u32" where
  "entries_in_sector s = bytes_per_sector (fat_pinfo s) div of_nat FAT_DIR_ENTRY_WIDTH"

definition empty_entry :: "u8 list \<Rightarrow> nat \<Rightarrow> bool" where
  "empty_entry buffer edx \<longleftrightarrow> 0xE5 = buffer ! edx \<or> 0x00 = buffer ! edx"

definition first_long_entry :: "u8 list \<Rightarrow> nat \<Rightarrow> bool" where
  "first_long_entry buffer edx \<longleftrightarrow> buffer ! (edx + 11) = FAT_LONG_NAME_ENTRY \<and> buffer ! edx AND FAT_LAST_LONG \<noteq> 0"

text \<open>The 13 characters of a long name entry, of which only the low bytes are read.\<close>

definition name_chunk :: "u8 list \<Rightarrow> nat \<Rightarrow> u16 list" where
  "name_chunk buffer edx =
     map (\<lambda>i. ucast (buffer ! (edx + 1 + i * 2))) [0..<5] @
     map (\<lambda>i. ucast (buffer ! (edx + 14 + i * 2))) [0..<6] @
     map (\<lambda>i. ucast (buffer ! (edx + 28 + i * 2))) [0..<2]"

datatype run_end = Broken_Run | Run_Complete | Sector_Complete

text \<open>
  One entry of the run: the name is filled from its end. The state is the start of the last part
  stored, the index and the name.
\<close>

definition long_name_step ::
  "u32 \<Rightarrow> u32 \<Rightarrow> u8 list \<Rightarrow> u32 \<times> u32 \<times> u16 list \<Rightarrow> (run_end option \<times> u32 \<times> u32 \<times> u16 list) option" where
  "long_name_step pmax eps buffer = (\<lambda>(pmin, index, name).
     let edx = unat index * FAT_DIR_ENTRY_WIDTH in
     if \<not> index < eps then Some (Some Sector_Complete, pmin, index, name)
     else if buffer ! (edx + 11) \<noteq> FAT_LONG_NAME_ENTRY then Some (Some Broken_Run, pmin, index, name)
     else do {
       let pmin = pmin - 13; let index = index + 1;
       name \<leftarrow> store_bytes name (unat pmin) (name_chunk buffer edx);
       let order = (if buffer ! edx AND FAT_LAST_LONG \<noteq> 0 then buffer ! edx XOR FAT_LAST_LONG else buffer ! edx);
       if order = 1
       then do { name \<leftarrow> array_store name (unat (umin 255 pmax)) 0; Some (Some Run_Complete, pmin, index, name) }
       else Some (None, pmin, index, name) })"

text \<open>The entries of one sector, then the next sector; the name ends when its first part was found.\<close>

definition long_name_sector ::
  "u32 \<Rightarrow> u32 \<Rightarrow> u32 \<times> u8 list \<times> fat_dir_entry_idx \<times> fat_state \<Rightarrow>
   (bool option \<times> u32 \<times> u8 list \<times> fat_dir_entry_idx \<times> fat_state) option" where
  "long_name_sector pmax sec_start = (\<lambda>(pmin, buffer, idx, s). do {
     let eps = bytes_per_sector (fat_pinfo s) div 32;
     (end, pmin, index, name) \<leftarrow> loop_until (long_name_step pmax eps buffer) (pmin, dir_index idx, long_name16 s);
     let idx = idx\<lparr>dir_index := index\<rparr>; let s = s\<lparr>long_name16 := name\<rparr>;
     if end = Broken_Run then Some (Some False, pmin, buffer, idx, s)
     else if end = Run_Complete \<and> index < eps then Some (Some True, pmin, buffer, idx, s)
     else if dir_sector idx \<ge> sectors_per_cluster (fat_pinfo s) - 1 then Some (Some False, pmin, buffer, idx, s)
     else do {
       let idx = idx\<lparr>dir_sector := dir_sector idx + 1, dir_index := 0\<rparr>;
       (ok, buffer, s) \<leftarrow> fat_read_single_block (sec_start + dir_sector idx) buffer s;
       Some (if \<not> ok then Some False else if end = Run_Complete then Some True else None, pmin, buffer, idx, s) }})"

definition fat_get_long_name_uint16 ::
  "u8 list \<Rightarrow> fat_dir_entry_idx \<Rightarrow> fat_state \<Rightarrow> (bool \<times> u8 list \<times> fat_dir_entry_idx \<times> fat_state) option" where
  "fat_get_long_name_uint16 buffer idx s =
     (let edx = entry_start idx; sec_start = fat_first_sector_of_cluster (fat_pinfo s) (dir_cluster idx) in
      if empty_entry buffer edx then Some (False, buffer, idx, s)
      else if \<not> first_long_entry buffer edx then Some (False, buffer, idx, s)
      else do {
        let order = buffer ! edx XOR FAT_LAST_LONG; let pmax = ucast order * 13;
        (ok, pmin, buffer, idx, s) \<leftarrow> loop_until (long_name_sector pmax sec_start) (pmax, buffer, idx, s);
        Some (ok, buffer, idx, s) })"

text \<open>A short name: up to eight characters, and up to three behind a dot.\<close>

definition short_name_text :: "u8 list \<Rightarrow> u8 list" where
  "short_name_text sn =
     takeWhile (\<lambda>c. c \<noteq> 0x20) (take 8 sn) @
     (if sn ! 8 \<noteq> 0x20 then 0x2E # takeWhile (\<lambda>c. c \<noteq> 0x20) (take 3 (drop 8 sn)) else [])"

definition fat_get_long_name_uint8 ::
  "u8 list \<Rightarrow> fat_dir_entry_idx \<Rightarrow> fat_state \<Rightarrow> (bool \<times> u8 list \<times> fat_dir_entry_idx \<times> fat_state) option" where
  "fat_get_long_name_uint8 buffer idx s =
     (let edx = entry_start idx in
      if empty_entry buffer edx then Some (False, buffer, idx, s)
      else if first_long_entry buffer edx
      then do {
        (ok, buffer, idx, s) \<leftarrow> fat_get_long_name_uint16 buffer idx s;
        if \<not> ok then Some (False, buffer, idx, s)
        else if length (long_name16 s) < 256 then None
        else do {
          name \<leftarrow> store_bytes (long_name8 s) 0 (map ucast (take 256 (long_name16 s)));
          Some (True, buffer, idx, s\<lparr>long_name8 := name\<rparr>) }}
      else do {
        name \<leftarrow> store_bytes (long_name8 s) 0 (short_name_text (take 11 (drop edx buffer)) @ [0]);
        Some (True, buffer, idx, s\<lparr>long_name8 := name\<rparr>) })"

section \<open>Paths\<close>

definition fat_compare_entry_name ::
  "u8 list \<Rightarrow> nat \<Rightarrow> nat \<Rightarrow> u8 list \<Rightarrow> fat_dir_entry_idx \<Rightarrow> fat_state \<Rightarrow>
   (bool \<times> u8 list \<times> fat_dir_entry_idx \<times> fat_state) option" where
  "fat_compare_entry_name path pmin pmax sector idx s = do {
     (ok, sector, idx, s) \<leftarrow> fat_get_long_name_uint8 sector idx s;
     if \<not> ok then Some (False, sector, idx, s)
     else do {
       n \<leftarrow> fat_idx_of_next_path_delim (long_name8 s) 0;
       Some (n = pmax - pmin \<and> (\<forall>k < n. toupper (long_name8 s ! k) = toupper (path ! (pmin + k))), sector, idx, s) }}"

text \<open>The search for a part of a path in a sector, a cluster, a directory; the results are whether it was found.\<close>

definition find_in_sector ::
  "u8 list \<Rightarrow> nat \<Rightarrow> nat \<Rightarrow> u8 list \<times> fat_dir_entry_idx \<times> fat_state \<Rightarrow>
   (bool option \<times> u8 list \<times> fat_dir_entry_idx \<times> fat_state) option" where
  "find_in_sector path pmin pmax = (\<lambda>(sector, idx, s).
     if \<not> dir_index idx < entries_in_sector s then Some (Some False, sector, idx, s)
     else do {
       (found, sector, idx, s) \<leftarrow> fat_compare_entry_name path pmin pmax sector idx s;
       Some (if found then (Some True, sector, idx, s)
             else (None, sector, idx\<lparr>dir_index := dir_index idx + 1\<rparr>, s)) })"

definition find_in_cluster ::
  "u8 list \<Rightarrow> nat \<Rightarrow> nat \<Rightarrow> u32 \<Rightarrow> u8 list \<times> fat_dir_entry_idx \<times> fat_state \<Rightarrow>
   (bool option \<times> u8 list \<times> fat_dir_entry_idx \<times> fat_state) option" where
  "find_in_cluster path pmin pmax first = (\<lambda>(sector, idx, s).
     if \<not> dir_sector idx < sectors_per_cluster (fat_pinfo s) then Some (Some False, sector, idx, s)
     else do {
       (ok, sector, s) \<leftarrow> fat_read_single_block (first + dir_sector idx) sector s;
       (found, sector, idx, s) \<leftarrow> loop_until (find_in_sector path pmin pmax) (sector, idx\<lparr>dir_index := 0\<rparr>, s);
       Some (if found then (Some True, sector, idx, s)
             else (None, sector, idx\<lparr>dir_sector := dir_sector idx + 1\<rparr>, s)) })"

definition find_in_directory ::
  "u8 list \<Rightarrow> nat \<Rightarrow> nat \<Rightarrow> u32 \<times> u8 list \<times> fat_dir_entry_idx \<times> fat_state \<Rightarrow>
   (bool option \<times> u32 \<times> u8 list \<times> fat_dir_entry_idx \<times> fat_state) option" where
  "find_in_directory path pmin pmax = (\<lambda>(cluster, sector, idx, s). do {
     let first = fat_first_sector_of_cluster (fat_pinfo s) cluster;
     (found, sector, idx, s) \<leftarrow> loop_until (find_in_cluster path pmin pmax first)
       (sector, idx\<lparr>dir_cluster := cluster, dir_sector := 0\<rparr>, s);
     if found then Some (Some True, cluster, sector, idx, s)
     else do {
       (tv, s) \<leftarrow> fat_get_table_value cluster s;
       Some (case tv of
           None \<Rightarrow> (Some False, cluster, sector, idx, s)
         | Some tv \<Rightarrow> if FAT_TV_LAST tv \<or> FAT_TV_BAD tv then (Some False, cluster, sector, idx, s)
                      else (None, tv, sector, idx, s)) }})"

text \<open>One part of a path; the result is an error, or success with the entry of the whole path.\<close>

definition resolve_step ::
  "u8 list \<Rightarrow> nat \<times> u32 \<times> u8 list \<times> fat_dir_entry_idx \<times> fat_state \<Rightarrow>
   (errno option \<times> nat \<times> u32 \<times> u8 list \<times> fat_dir_entry_idx \<times> fat_state) option" where
  "resolve_step path = (\<lambda>(pmin, cluster, sector, idx, s). do {
     pmax \<leftarrow> fat_idx_of_next_path_delim path pmin;
     (found, cluster, sector, idx, s) \<leftarrow> loop_until (find_in_directory path pmin pmax) (cluster, sector, idx, s);
     let isdir = (FAT_DIRECTORY AND fat_attrib_of_dir_entry sector (unat (dir_index idx)) \<noteq> 0);
     Some (if \<not> found then (Some ENOENT, pmin, cluster, sector, idx, s)
       else if path ! pmax \<noteq> 0
       then if \<not> isdir then (Some ENOTDIR, pmin, cluster, sector, idx, s)
            else (None, pmax + 1, fat_cluster_of_dir_entry sector (unat (dir_index idx)), sector, idx, s)
       else (Some OK, pmin, cluster, sector, idx, s)) })"

definition fat_resolve_path ::
  "u8 list \<Rightarrow> u8 list \<Rightarrow> fat_dir_entry_idx \<Rightarrow> fat_state \<Rightarrow> (bool \<times> u8 list \<times> fat_dir_entry_idx \<times> fat_state) option" where
  "fat_resolve_path path sector dir_idx s = do {
     (e, pmin, cluster, sector, idx, s) \<leftarrow> loop_until (resolve_step path) (0, root_dir_cluster (fat_pinfo s), sector, dir_idx, s);
     Some (e = OK, sector, if e = OK then idx else dir_idx, set_errno e s) }"

end
