(* ===== verification/Fat_Create.thy ===== *)
theory Fat_Create
  imports Fat_Name
begin

text \<open>
  The FAT32 library (libsd/fat32.c), fourth part: the creation of files and directories. A place for
  the entries of the new name is searched in the directory, which is extended when it is full, the
  short name gets a number if it must, a cluster is acquired, and the entries are written.
\<close>

section \<open>The name\<close>

text \<open>The last part of a path, from \<open>pmin\<close> to its final 0 at \<open>pmax\<close>.\<close>

definition last_part :: "u8 list \<Rightarrow> (nat \<times> nat) option" where
  "last_part path = map_option snd (loop_until (\<lambda>(pmin, pmax). do {
     pmax \<leftarrow> fat_idx_of_next_path_delim path pmin;
     Some (if path ! pmax = 0 then (Some (), pmin, pmax) else (None, pmax + 1, pmax)) }) (0, 0))"

text \<open>
  The path of the directory. The source writes the final 0 one byte behind its array, and the place
  before it too; the model gives it both.
\<close>

definition parent_path :: "u8 list \<Rightarrow> nat \<Rightarrow> u8 list" where
  "parent_path path pmin = take (pmin - 1) path @ [0, 0]"

text \<open>The clusters of the directory a path names, as an index of which only the cluster counts.\<close>

definition resolve_parent ::
  "u8 list \<Rightarrow> nat \<Rightarrow> fat_dir_entry_idx \<Rightarrow> u8 list \<Rightarrow> fat_state \<Rightarrow> (bool \<times> fat_dir_entry_idx \<times> u8 list \<times> fat_state) option" where
  "resolve_parent path pmin pdir_idx sector s =
     (if pmin = 0 then Some (True, pdir_idx\<lparr>dir_cluster := root_dir_cluster (fat_pinfo s)\<rparr>, sector, s)
      else do {
        (ok, sector, pdir_idx, s) \<leftarrow> fat_resolve_path (parent_path path pmin) sector pdir_idx s;
        Some (ok, if ok then pdir_idx\<lparr>dir_cluster := fat_cluster_of_dir_entry sector (unat (dir_index pdir_idx))\<rparr> else pdir_idx,
              sector, s) })"

record file_name =
  nm_min :: nat
  nm_max :: nat
  nm_dot :: "nat option"
  nm_len :: nat
  nm_req :: nat
  nm_short :: "u8 list"

definition nm_total :: "file_name \<Rightarrow> nat" where
  "nm_total nm = nm_max nm - nm_min nm"

text \<open>
  The loop runs down to the first dot, and a dot at the very start of the path does not count. The
  extension is three bytes, whatever they are.
\<close>

definition extension :: "u8 list \<Rightarrow> nat option \<Rightarrow> u8 list \<Rightarrow> u8 list option" where
  "extension path dot short =
     (case dot of
        None \<Rightarrow> Some short
      | Some d \<Rightarrow> if d + 3 < length path then store_bytes short 8 (map toupper (take 3 (drop (d + 1) path))) else None)"

definition split_name :: "u8 list \<Rightarrow> nat \<Rightarrow> nat \<Rightarrow> file_name option" where
  "split_name path pmin pmax = do {
     let total = pmax - pmin;
     let dot = (case List.find (\<lambda>i. path ! i = 0x2E) [pmin..<pmax] of Some d \<Rightarrow> if d > 0 then Some d else None | None \<Rightarrow> None);
     let name_len = (case dot of Some d \<Rightarrow> d - pmin | None \<Rightarrow> total);
     let extension_len = (case dot of Some d \<Rightarrow> total - name_len - 1 | None \<Rightarrow> 0);
     let req = 1 + (if name_len > 8 \<or> extension_len > 3 then total div 13 + (if total mod 13 \<noteq> 0 then 1 else 0) else 0);
     let copied = take 8 (map toupper (filter (\<lambda>c. c \<noteq> 0x20 \<and> c \<noteq> 0x2E) (take name_len (drop pmin path))));
     short \<leftarrow> extension path dot (copied @ replicate (11 - length copied) 0x20);
     Some \<lparr>nm_min = pmin, nm_max = pmax, nm_dot = dot, nm_len = name_len, nm_req = req, nm_short = short\<rparr> }"

section \<open>The search for a place\<close>

record scan =
  empty_seen :: nat
  first_idx :: fat_dir_entry_idx
  target_idx :: fat_dir_entry_idx
  short_nums :: "u32 list"
  reached_last :: bool
  found_index :: bool

definition scan_start :: "u32 \<Rightarrow> scan" where
  "scan_start cluster = \<lparr>empty_seen = 0, first_idx = \<lparr>dir_cluster = cluster, dir_sector = 0, dir_index = 0\<rparr>,
     target_idx = \<lparr>dir_cluster = 0, dir_sector = 0, dir_index = 0\<rparr>, short_nums = replicate 12 0,
     reached_last = False, found_index = False\<rparr>"

text \<open>How many characters from the start the short names share.\<close>

definition shared_chars :: "u8 list \<Rightarrow> u8 list \<Rightarrow> nat" where
  "shared_chars short ent = length (takeWhile (\<lambda>k. toupper (short ! k) = toupper (ent ! k)) [0..<11])"

definition free_place :: "nat \<Rightarrow> fat_dir_entry_idx \<Rightarrow> scan \<Rightarrow> scan" where
  "free_place req here sc =
     (let sc = sc\<lparr>empty_seen := empty_seen sc + 1\<rparr> in
      if found_index sc then sc
      else let sc = (if empty_seen sc = 1 then sc\<lparr>first_idx := here\<rparr> else sc)
           in if empty_seen sc \<ge> req then sc\<lparr>found_index := True, target_idx := here\<rparr> else sc)"

text \<open>An occupied entry; the result is whether it has the same short name.\<close>

definition taken_place :: "u8 list \<Rightarrow> u8 list \<Rightarrow> scan \<Rightarrow> bool \<times> scan" where
  "taken_place short ent sc =
     (let sc = sc\<lparr>empty_seen := 0\<rparr> in
      if ent ! 11 \<noteq> FAT_LONG_NAME_ENTRY
      then let k = shared_chars short ent
           in (k = 11, sc\<lparr>short_nums := map (\<lambda>i. if i \<le> k then short_nums sc ! i + 1 else short_nums sc ! i) [0..<12]\<rparr>)
      else (False, sc))"

fun scan_sector :: "file_name \<Rightarrow> u32 \<Rightarrow> u32 \<Rightarrow> u8 list \<Rightarrow> nat \<Rightarrow> nat \<Rightarrow> scan \<Rightarrow> bool \<times> scan" where
  "scan_sector nm cluster i sector j 0 sc = (False, sc)"
| "scan_sector nm cluster i sector j (Suc n) sc =
     (let ent = drop (FAT_DIR_ENTRY_WIDTH * j) sector;
          sc = sc\<lparr>reached_last := reached_last sc \<or> ent ! 0 = FAT_DIR_ENTRY_LAST\<rparr>
      in if reached_last sc \<or> ent ! 0 = FAT_DIR_ENTRY_FREE
         then scan_sector nm cluster i sector (j + 1) n
           (free_place (nm_req nm) \<lparr>dir_cluster = cluster, dir_sector = i, dir_index = of_nat j\<rparr> sc)
         else let (same, sc) = taken_place (nm_short nm) ent sc
              in if same then (True, sc) else scan_sector nm cluster i sector (j + 1) n sc)"

text \<open>
  The sectors of a cluster; \<open>stop\<close> is set by an equal short name, but the sectors behind it are still
  read, which resets \<open>errno\<close>.
\<close>

fun scan_cluster ::
  "file_name \<Rightarrow> u32 \<Rightarrow> u32 \<Rightarrow> nat \<Rightarrow> bool \<times> u8 list \<times> scan \<times> fat_state \<Rightarrow> (bool \<times> u8 list \<times> scan \<times> fat_state) option" where
  "scan_cluster nm cluster i 0 x = Some x"
| "scan_cluster nm cluster i (Suc n) (stop, sector, sc, s) = do {
     (ok, sector, s) \<leftarrow> fat_read_single_block (fat_first_sector_of_cluster (fat_pinfo s) cluster + i) sector s;
     let (same, sc) = scan_sector nm cluster i sector 0 (unat (entries_in_sector s)) sc;
     scan_cluster nm cluster (i + 1) n (stop \<or> same, sector, sc, if same then set_errno EEXIST s else s) }"

text \<open>The free entries at the end of the old last sector are marked as free, not as the last.\<close>

definition mark_free_from :: "nat \<Rightarrow> nat \<Rightarrow> u8 list \<Rightarrow> u8 list" where
  "mark_free_from k n sector = fold (\<lambda>j sector. sector[FAT_DIR_ENTRY_WIDTH * (k + j) := FAT_DIR_ENTRY_FREE]) [0..<n] sector"

definition scan_step ::
  "file_name \<Rightarrow> u32 \<times> u8 list \<times> scan \<times> fat_state \<Rightarrow> (unit option \<times> u32 \<times> u8 list \<times> scan \<times> fat_state) option" where
  "scan_step nm = (\<lambda>(cluster, sector, sc, s). do {
     let p = fat_pinfo s; let first = fat_first_sector_of_cluster p cluster;
     (stop, sector, sc, s) \<leftarrow> scan_cluster nm cluster 0 (unat (sectors_per_cluster p)) (False, sector, sc, s);
     if found_index sc then Some (Some (), cluster, sector, sc, s)
     else do {
       (ok, cluster, s) \<leftarrow> fat_acquire_next_cluster cluster True s;
       if \<not> ok then Some (Some (), cluster, sector, sc, s)
       else do {
         let sc = sc\<lparr>empty_seen := 0\<rparr>; let eps = unat (entries_in_sector s); let k = unat (dir_index (first_idx sc));
         if reached_last sc
         then if dir_sector (first_idx sc) \<noteq> sectors_per_cluster p - 1 then None
              else do {
                let sector = mark_free_from k (eps - k) sector;
                (ok, s) \<leftarrow> fat_write_single_block (first + dir_sector (first_idx sc)) sector s;
                Some (if \<not> ok \<or> stop then Some () else None, cluster, sector, sc, s) }
         else Some (if stop then Some () else None, cluster, sector, sc, s) }}})"

section \<open>Short names with numbers\<close>

text \<open>Where the number goes: as far left as its digits need; \<^const>\<open>None\<close> is the place before the name.\<close>

fun tail_place :: "u32 list \<Rightarrow> nat \<Rightarrow> u32 \<Rightarrow> nat option" where
  "tail_place nums c limit =
     (if nums ! c + 1 \<ge> limit then (case c of 0 \<Rightarrow> None | Suc c' \<Rightarrow> tail_place nums c' (limit * 10)) else Some c)"

fun decimal :: "nat \<Rightarrow> u8 list" where
  "decimal n = (if n < 10 then [0x30 + of_nat n] else decimal (n div 10) @ [0x30 + of_nat (n mod 10)])"

definition short_with_tail :: "u8 list \<Rightarrow> file_name \<Rightarrow> u32 list \<Rightarrow> u8 list option" where
  "short_with_tail path nm nums =
     (let place = tail_place nums (min (nm_len nm) (if nm_req nm > 1 then 6 else 8)) 10 in
      if nm_req nm > 1
      then do {
        c \<leftarrow> place;
        short \<leftarrow> store_bytes (nm_short nm) c (0x7E # decimal (unat (1 + nums ! c)) @ [0]);
        extension path (nm_dot nm) short }
      else Some (nm_short nm))"

definition name_checksum :: "u8 list \<Rightarrow> u8" where
  "name_checksum short = fold (\<lambda>c sum. drop_bit 1 sum + push_bit 7 sum + c) short 0"

section \<open>Writing the entries\<close>

text \<open>An entry that is being written: its place, and its sector in the buffer.\<close>

record place =
  at_cluster :: u32
  at_first :: u32
  at_sector :: u32
  at_entry :: u32
  at_buffer :: "u8 list"

definition place_of :: "fat_partition_info \<Rightarrow> fat_dir_entry_idx \<Rightarrow> u8 list \<Rightarrow> place" where
  "place_of p i sector = \<lparr>at_cluster = dir_cluster i, at_first = fat_first_sector_of_cluster p (dir_cluster i),
     at_sector = dir_sector i, at_entry = dir_index i, at_buffer = sector\<rparr>"

definition at_ent :: "place \<Rightarrow> nat" where
  "at_ent w = unat (at_entry w) * FAT_DIR_ENTRY_WIDTH"

definition next_place :: "place \<Rightarrow> fat_state \<Rightarrow> (place \<times> fat_state) option" where
  "next_place w s =
     (let w = w\<lparr>at_entry := at_entry w + 1\<rparr> in
      if at_entry w \<ge> entries_in_sector s
      then do {
        (ok, s) \<leftarrow> fat_write_single_block (at_first w + at_sector w) (at_buffer w) s;
        let w = w\<lparr>at_entry := 0, at_sector := at_sector w + 1\<rparr>;
        (w, s) \<leftarrow> (if at_sector w \<ge> sectors_per_cluster (fat_pinfo s)
          then do {
            (ok, c, s) \<leftarrow> fat_acquire_next_cluster (at_cluster w) False s;
            let w = w\<lparr>at_cluster := c\<rparr>;
            Some (if ok then w\<lparr>at_first := fat_first_sector_of_cluster (fat_pinfo s) c, at_sector := 0\<rparr> else w, s) }
          else Some (w, s));
        (ok, buf, s) \<leftarrow> fat_read_single_block (at_first w + at_sector w) (at_buffer w) s;
        Some (w\<lparr>at_buffer := buf\<rparr>, s) }
      else Some (w, s))"

definition short_entry_bytes :: "u8 list \<Rightarrow> bool \<Rightarrow> u32 \<Rightarrow> nat \<Rightarrow> u8 list \<Rightarrow> u8 list" where
  "short_entry_bytes short isfile new_cluster e b =
     (let b = take e b @ short @ drop (e + length short) b;
          b = fat_set_uint8 (FAT_ARCHIVE OR (if isfile then 0 else FAT_DIRECTORY)) b (e + 11);
          b = fat_set_uint8 0 b (e + 13); b = fat_set_uint16 0 b (e + 14); b = fat_set_uint16 0 b (e + 16);
          b = fat_set_uint16 0 b (e + 18); b = fat_set_uint16 0 b (e + 22); b = fat_set_uint16 0 b (e + 24);
          b = fat_set_uint16 (ucast (drop_bit 16 new_cluster)) b (e + 20);
          b = fat_set_uint16 (ucast new_cluster) b (e + 26)
      in fat_set_uint32 0 b (e + 28))"

text \<open>The character of a long name at a place of the path: filled up behind its end.\<close>

definition name_char :: "u8 list \<Rightarrow> nat \<Rightarrow> u32 \<Rightarrow> u16" where
  "name_char path pmax off =
     (if off > of_nat pmax then 0xFFFF else if off = of_nat pmax then 0 else ucast (path ! unat off))"

definition name_chars :: "u8 list \<Rightarrow> nat \<Rightarrow> u32 \<Rightarrow> nat \<Rightarrow> nat \<Rightarrow> u8 list \<Rightarrow> u8 list" where
  "name_chars path pmax off n k b = fold (\<lambda>i b. fat_set_uint16 (name_char path pmax (off + of_nat i)) b (k + 2 * i)) [0..<n] b"

definition long_entry_bytes ::
  "u8 list \<Rightarrow> nat \<Rightarrow> nat \<Rightarrow> nat \<Rightarrow> u8 \<Rightarrow> u32 \<Rightarrow> nat \<Rightarrow> u8 list \<Rightarrow> u8 list" where
  "long_entry_bytes path pmax req en checksum off e b =
     (let ord = (if en - 1 = req - 1 then of_nat (en - 1) OR FAT_LAST_LONG else of_nat (en - 1));
          b = fat_set_uint8 ord b e; b = fat_set_uint8 FAT_LONG_NAME_ENTRY b (e + 11);
          b = fat_set_uint8 0 b (e + 12); b = fat_set_uint8 checksum b (e + 13); b = fat_set_uint16 0 b (e + 26);
          b = name_chars path pmax off 5 (e + 1) b;
          b = name_chars path pmax (off + 5) 6 (e + 14) b
      in name_chars path pmax (off + 11) 2 (e + 28) b)"

text \<open>What is fixed while the entries are written.\<close>

record creation =
  cr_path :: "u8 list"
  cr_name :: file_name
  cr_short :: "u8 list"
  cr_cluster :: u32
  cr_target :: fat_dir_entry_idx
  cr_last :: bool
  cr_isfile :: bool

text \<open>
  The entries are numbered downwards: long ones, 1 for the short one, and 0 for the one behind it,
  which becomes the last one of the directory when the free entries behind the last were used.
\<close>

fun write_entries ::
  "creation \<Rightarrow> nat \<Rightarrow> u32 \<Rightarrow> place \<Rightarrow> fat_dir_entry_idx \<Rightarrow> int \<Rightarrow> fat_state \<Rightarrow>
   (place \<times> fat_dir_entry_idx \<times> int \<times> fat_state) option" where
  "write_entries cr 0 off w pdir fd s =
     (if fat_errno s \<noteq> OK then Some (w, pdir, fd, s)
      else do {
        let w = (if cr_last cr then w\<lparr>at_buffer := (at_buffer w)[at_ent w := FAT_DIR_ENTRY_LAST]\<rparr> else w);
        (ok, s) \<leftarrow> fat_write_single_block (at_first w + at_sector w) (at_buffer w) s;
        Some (w, pdir, fd, s) })"
| "write_entries cr (Suc n) off w pdir fd s =
     (if fat_errno s \<noteq> OK then Some (w, pdir, fd, s)
      else do {
        let e = at_ent w;
        let b = (if n = 0 then short_entry_bytes (cr_short cr) (cr_isfile cr) (cr_cluster cr) e (at_buffer w)
                 else long_entry_bytes (cr_path cr) (nm_max (cr_name cr)) (nm_req (cr_name cr)) (Suc n)
                        (name_checksum (cr_short cr)) off e (at_buffer w));
        let (fd, s) = (if n = 0 \<and> cr_isfile cr then fat_open_dir_entry b (cr_target cr) s else (fd, s));
        let pdir = (if n = 0 \<and> \<not> cr_isfile cr then pdir\<lparr>dir_cluster := cr_cluster cr\<rparr> else pdir);
        (w, s) \<leftarrow> next_place (w\<lparr>at_buffer := b\<rparr>) s;
        write_entries cr n (if n = 0 then off else off + 13 - 26) w pdir fd s })"

definition create_entries ::
  "u8 list \<Rightarrow> file_name \<Rightarrow> bool \<Rightarrow> scan \<Rightarrow> u8 list \<Rightarrow> fat_dir_entry_idx \<Rightarrow> int \<Rightarrow> fat_state \<Rightarrow>
   (u8 list \<times> fat_dir_entry_idx \<times> int \<times> fat_state) option" where
  "create_entries path nm isfile sc sector pdir fd s = do {
     short \<leftarrow> short_with_tail path nm (short_nums sc);
     (ok, new_cluster, s) \<leftarrow> fat_acquire_next_cluster (dir_cluster (target_idx sc)) False s;
     let rest = nm_total nm mod 13;
     let off = of_nat (nm_max nm) + (13 - of_nat rest) - 13 - (if rest = 0 then 13 else 0);
     let w = place_of (fat_pinfo s) (first_idx sc) sector;
     let cr = \<lparr>cr_path = path, cr_name = nm, cr_short = short, cr_cluster = new_cluster, cr_target = target_idx sc,
               cr_last = reached_last sc, cr_isfile = isfile\<rparr>;
     (ok, sector, s) \<leftarrow> fat_read_single_block (at_first w + at_sector w) sector s;
     (w, pdir, fd, s) \<leftarrow> write_entries cr (nm_req nm) off (w\<lparr>at_buffer := sector\<rparr>) pdir fd s;
     Some (at_buffer w, pdir, fd, s) }"

section \<open>The call\<close>

definition FAT_MAX_SHORT_PATH :: nat where "FAT_MAX_SHORT_PATH = 81"
definition FAT_MAX_LONG_PATH :: nat where "FAT_MAX_LONG_PATH = 261"
definition FAT_MAX_LONG_NAME :: nat where "FAT_MAX_LONG_NAME = 255"

text \<open>The checks after the search, in their order.\<close>

definition create_error :: "file_name \<Rightarrow> scan \<Rightarrow> fat_state \<Rightarrow> errno" where
  "create_error nm sc s =
     (if fat_errno s \<noteq> OK then fat_errno s
      else if \<not> found_index sc then ENOSPC
      else if nm_req nm = 1 \<and> nm_max nm \<ge> FAT_MAX_SHORT_PATH then ENAMETOOLONG
      else if nm_req nm \<ge> 2 \<and> (nm_max nm \<ge> FAT_MAX_LONG_PATH \<or> nm_total nm \<ge> FAT_MAX_LONG_NAME) then ENAMETOOLONG
      else OK)"

definition fat_create ::
  "u8 list \<Rightarrow> fat_dir_entry_idx \<Rightarrow> u8 list \<Rightarrow> int \<Rightarrow> bool \<Rightarrow> fat_state \<Rightarrow>
   (bool \<times> fat_dir_entry_idx \<times> u8 list \<times> int \<times> fat_state) option" where
  "fat_create path pdir sector fd isfile s = do {
     let s = set_errno OK s;
     (pmin, pmax) \<leftarrow> last_part path;
     (ok, pdir, sector, s) \<leftarrow> resolve_parent path pmin pdir sector s;
     (pdir, sector, fd, s) \<leftarrow> (if \<not> ok then Some (pdir, sector, fd, s)
       else do {
         let pdir = pdir\<lparr>dir_sector := 0, dir_index := 0\<rparr>;
         nm \<leftarrow> split_name path pmin pmax;
         (u, cluster, sector, sc, s) \<leftarrow> loop_until (scan_step nm) (dir_cluster pdir, sector, scan_start (dir_cluster pdir), s);
         if create_error nm sc s \<noteq> OK then Some (pdir, sector, fd, set_errno (create_error nm sc s) s)
         else do {
           (sector, pdir, fd, s) \<leftarrow> create_entries path nm isfile sc sector pdir fd s;
           Some (pdir, sector, fd, s) }});
     Some (fat_errno s = OK, pdir, sector, fd, s) }"

end
