(* ===== verification/Fat_Delete.thy ===== *)
theory Fat_Delete
  imports Fat_Create
begin

text \<open>
  The FAT32 library (libsd/fat32.c), last part: deleting entries, and the calls on paths: open,
  creat, unlink, mkdir, rmdir.
\<close>

section \<open>Searching the entry to delete\<close>

record deletion =
  free_seen :: nat
  first_empty :: fat_dir_entry_idx
  first_target :: fat_dir_entry_idx
  del_target :: fat_dir_entry_idx
  initial_cluster :: u32
  found_entry :: bool
  found_next :: bool
  del_last :: bool

definition deletion_start :: "u32 \<Rightarrow> deletion" where
  "deletion_start cluster =
     (let i = \<lparr>dir_cluster = cluster, dir_sector = 0, dir_index = 0\<rparr>
      in \<lparr>free_seen = 0, first_empty = i, first_target = i, del_target = i, initial_cluster = 0,
          found_entry = False, found_next = False, del_last = False\<rparr>)"

text \<open>One entry; the loop is left behind the end of the sector or when nothing more has to be seen.\<close>

definition delete_entry_step ::
  "u8 list \<Rightarrow> nat \<Rightarrow> nat \<Rightarrow> u8 list \<times> fat_dir_entry_idx \<times> deletion \<times> fat_state \<Rightarrow>
   (unit option \<times> u8 list \<times> fat_dir_entry_idx \<times> deletion \<times> fat_state) option" where
  "delete_entry_step path pmin pmax = (\<lambda>(sector, idx, d, s).
     if \<not> dir_index idx < entries_in_sector s then Some (Some (), sector, idx, d, s)
     else do {
       let first_byte = sector ! entry_start idx;
       let d = d\<lparr>del_last := del_last d \<or> first_byte = FAT_DIR_ENTRY_LAST\<rparr>;
       (sector, idx, d, s) \<leftarrow>
         (if first_byte = FAT_DIR_ENTRY_FREE
          then let d = d\<lparr>free_seen := free_seen d + 1\<rparr>
               in Some (sector, idx, if free_seen d = 1 then d\<lparr>first_empty := idx\<rparr> else d, s)
          else if found_entry d then Some (sector, idx, d\<lparr>found_next := True\<rparr>, s)
          else do {
            let d = d\<lparr>first_target := idx\<rparr>;
            (same, sector, idx, s) \<leftarrow> fat_compare_entry_name path pmin pmax sector idx s;
            Some (sector, idx,
              if same then d\<lparr>del_target := idx, found_entry := True,
                             initial_cluster := fat_cluster_of_dir_entry sector (unat (dir_index idx))\<rparr>
              else d\<lparr>free_seen := 0\<rparr>, s) });
       Some (if found_next d \<or> del_last d then (Some (), sector, idx, d, s)
             else (None, sector, idx\<lparr>dir_index := dir_index idx + 1\<rparr>, d, s)) })"

definition delete_sector_step ::
  "u8 list \<Rightarrow> nat \<Rightarrow> nat \<Rightarrow> u32 \<Rightarrow> u8 list \<times> fat_dir_entry_idx \<times> deletion \<times> fat_state \<Rightarrow>
   (unit option \<times> u8 list \<times> fat_dir_entry_idx \<times> deletion \<times> fat_state) option" where
  "delete_sector_step path pmin pmax first = (\<lambda>(sector, idx, d, s).
     if \<not> dir_sector idx < sectors_per_cluster (fat_pinfo s) then Some (Some (), sector, idx, d, s)
     else do {
       (ok, sector, s) \<leftarrow> fat_read_single_block (first + dir_sector idx) sector s;
       (u, sector, idx, d, s) \<leftarrow> loop_until (delete_entry_step path pmin pmax) (sector, idx\<lparr>dir_index := 0\<rparr>, d, s);
       Some (if found_next d \<or> del_last d then (Some (), sector, idx, d, s)
             else (None, sector, idx\<lparr>dir_sector := dir_sector idx + 1\<rparr>, d, s)) })"

definition delete_cluster_step ::
  "u8 list \<Rightarrow> nat \<Rightarrow> nat \<Rightarrow> u8 list \<times> fat_dir_entry_idx \<times> deletion \<times> fat_state \<Rightarrow>
   (unit option \<times> u8 list \<times> fat_dir_entry_idx \<times> deletion \<times> fat_state) option" where
  "delete_cluster_step path pmin pmax = (\<lambda>(sector, idx, d, s). do {
     (u, sector, idx, d, s) \<leftarrow> loop_until
       (delete_sector_step path pmin pmax (fat_first_sector_of_cluster (fat_pinfo s) (dir_cluster idx)))
       (sector, idx\<lparr>dir_sector := 0\<rparr>, d, s);
     if del_last d \<or> (found_entry d \<and> found_next d) then Some (Some (), sector, idx, d, s)
     else do {
       (ok, c, s) \<leftarrow> fat_acquire_next_cluster (dir_cluster idx) False s;
       Some (if ok then None else Some (), sector, idx\<lparr>dir_cluster := c\<rparr>, d, s) }})"

section \<open>Marking the entries\<close>

definition mark_step ::
  "u8 \<Rightarrow> fat_dir_entry_idx \<Rightarrow> place \<times> fat_state \<Rightarrow> (unit option \<times> place \<times> fat_state) option" where
  "mark_step mark target = (\<lambda>(w, s).
     if fat_errno s \<noteq> OK then Some (Some (), w, s)
     else
       let last = (at_cluster w = dir_cluster target \<and> at_sector w = dir_sector target \<and> at_entry w = dir_index target);
           w = w\<lparr>at_buffer := fat_set_uint8 mark (at_buffer w) (at_ent w)\<rparr>
       in if last
          then do {
            (ok, s) \<leftarrow> fat_write_single_block (at_first w + at_sector w) (at_buffer w) s;
            Some (Some (), w, s) }
          else do { (w, s) \<leftarrow> next_place w s; Some (None, w, s) })"

definition unlink_entries :: "deletion \<Rightarrow> u8 list \<Rightarrow> fat_state \<Rightarrow> (u8 list \<times> fat_state) option" where
  "unlink_entries d sector s =
     (if del_last d \<and> free_seen d > 0
      then do {
        let addr = fat_first_sector_of_cluster (fat_pinfo s) (dir_cluster (first_empty d)) + dir_sector (first_empty d);
        (ok, sector, s) \<leftarrow> fat_read_single_block addr sector s;
        let sector = fat_set_uint8 FAT_DIR_ENTRY_LAST sector (entry_start (first_empty d));
        (ok, s) \<leftarrow> fat_write_single_block addr sector s;
        Some (sector, s) }
      else do {
        let w = place_of (fat_pinfo s) (first_target d) sector;
        (ok, sector, s) \<leftarrow> fat_read_single_block (at_first w + at_sector w) sector s;
        (u, w, s) \<leftarrow> loop_until (mark_step (if del_last d then FAT_DIR_ENTRY_LAST else FAT_DIR_ENTRY_FREE) (del_target d))
          (w\<lparr>at_buffer := sector\<rparr>, s);
        Some (at_buffer w, s) })"

text \<open>An entry without a cluster belongs to an empty file.\<close>

definition fat_delete :: "u8 list \<Rightarrow> u8 list \<Rightarrow> fat_state \<Rightarrow> (bool \<times> u8 list \<times> fat_state) option" where
  "fat_delete path sector s = do {
     let s = set_errno OK s;
     (pmin, pmax) \<leftarrow> last_part path;
     (ok, pdir, sector, s) \<leftarrow> resolve_parent path pmin \<lparr>dir_cluster = 0, dir_sector = 0, dir_index = 0\<rparr> sector s;
     (sector, s) \<leftarrow> (if \<not> ok then Some (sector, s)
       else do {
         (u, sector, idx, d, s) \<leftarrow> loop_until (delete_cluster_step path pmin pmax)
           (sector, \<lparr>dir_cluster = dir_cluster pdir, dir_sector = 0, dir_index = 0\<rparr>, deletion_start (dir_cluster pdir), s);
         if fat_errno s \<noteq> OK then Some (sector, s)
         else if \<not> found_entry d then Some (sector, set_errno ENOENT s)
         else do {
           (ok, s) \<leftarrow> (if initial_cluster d = 0 then Some (True, s) else fat_free_cluster_chain (initial_cluster d) s);
           if ok then unlink_entries d sector s else Some (sector, s) }});
     Some (fat_errno s = OK, sector, s) }"

section \<open>The calls on paths\<close>

text \<open>The flags of the C library.\<close>

definition O_WRONLY :: u32 where "O_WRONLY = 0x0001"
definition O_APPEND :: u32 where "O_APPEND = 0x0008"
definition O_CREAT :: u32 where "O_CREAT = 0x0200"
definition O_TRUNC :: u32 where "O_TRUNC = 0x0400"
definition O_EXCL :: u32 where "O_EXCL = 0x0800"

definition no_entry :: fat_dir_entry_idx where
  "no_entry = \<lparr>dir_cluster = 0, dir_sector = 0, dir_index = 0\<rparr>"

text \<open>
  A file that is opened to be overwritten keeps its first cluster; the rest of its chain is freed and
  its size set to 0, in the table of open files and in the directory.
\<close>

definition truncate_file :: "int \<Rightarrow> fat_dir_entry_idx \<Rightarrow> u8 list \<Rightarrow> fat_state \<Rightarrow> fat_state option" where
  "truncate_file fd dir_idx sector s = do {
     let cluster = fat_cluster_of_dir_entry sector (unat (dir_index dir_idx));
     (tv, s) \<leftarrow> fat_get_table_value cluster s;
     case tv of
       None \<Rightarrow> Some s
     | Some tv \<Rightarrow>
         if FAT_TV_BAD tv \<or> FAT_TV_FREE tv then Some s
         else do {
           (ok, s) \<leftarrow> (if FAT_TV_LAST tv then Some (True, s) else fat_free_cluster_chain tv s);
           if \<not> ok then Some s
           else do {
             let s = update_file fd (\<lambda>f. f\<lparr>file_size := 0\<rparr>) s;
             let sector = fat_set_uint32 0 sector (28 + entry_start dir_idx);
             (ok, s) \<leftarrow> fat_write_single_block
               (dir_sector dir_idx + fat_first_sector_of_cluster (fat_pinfo s) (dir_cluster dir_idx)) sector s;
             Some s }}}"

text \<open>The descriptor, and the position the cursor goes to.\<close>

definition open_existing :: "u32 \<Rightarrow> u8 list \<Rightarrow> fat_dir_entry_idx \<Rightarrow> fat_state \<Rightarrow> (int \<times> u32 \<times> fat_state) option" where
  "open_existing oflag sector dir_idx s =
     (if oflag AND O_CREAT AND O_EXCL \<noteq> 0 then Some (-1, 0, set_errno EEXIST s)
      else let (fd, s) = fat_open_dir_entry sector dir_idx s in
        if fd < 0 then Some (fd, 0, set_errno EMFILE s)
        else if FAT_DIRECTORY AND fat_attrib_of_dir_entry sector (unat (dir_index dir_idx)) \<noteq> 0 then Some (fd, 0, set_errno EISDIR s)
        else do {
          s \<leftarrow> (if oflag AND O_TRUNC \<noteq> 0 then truncate_file fd dir_idx sector s else Some s);
          Some (fd, if oflag AND O_APPEND \<noteq> 0 then file_size (open_file fd s) else 0, s) })"

definition fat_open :: "u8 list \<Rightarrow> u32 \<Rightarrow> fat_state \<Rightarrow> (int \<times> fat_state) option" where
  "fat_open path oflag s =
     (if \<not> fat_initialized s then Some (FAT_FAIL, set_errno EPERM s)
      else do {
        (ok, sector, dir_idx, s) \<leftarrow> fat_resolve_path path (sector_buffer s) no_entry (set_errno OK s);
        (fd, target_pos, s) \<leftarrow>
          (if ok then open_existing oflag sector dir_idx s
           else if oflag AND O_CREAT \<noteq> 0
           then do { (ok, dir_idx, sector, fd, s) \<leftarrow> fat_create path dir_idx sector (-1) True s; Some (fd, 0, s) }
           else Some (-1, 0, s));
        s \<leftarrow> (if fat_errno s = OK then map_option snd (fat_lseek fd target_pos SEEK_SET s) else Some s);
        Some (if fat_errno s \<noteq> OK \<and> fd > 0 then (-1, snd (fat_close fd s)) else (fd, s)) })"

definition fat_creat :: "u8 list \<Rightarrow> fat_state \<Rightarrow> (int \<times> fat_state) option" where
  "fat_creat path s =
     (if \<not> fat_initialized s then Some (FAT_FAIL, set_errno EPERM s)
      else fat_open path (O_CREAT OR O_WRONLY OR O_TRUNC) s)"

definition fat_unlink :: "u8 list \<Rightarrow> fat_state \<Rightarrow> (int \<times> fat_state) option" where
  "fat_unlink path s =
     (if \<not> fat_initialized s then Some (FAT_FAIL, set_errno EPERM s)
      else do {
        (ok, buf, di, s) \<leftarrow> fat_resolve_path path (sector_buffer s) no_entry (set_errno OK s);
        if \<not> ok then Some (FAT_FAIL, s)
        else if list_ex (\<lambda>f. \<not> file_free f \<and> file_dir_idx f = di) (take FAT_MAX_FILES (fat_open_files s))
        then Some (FAT_FAIL, set_errno EBUSY s)
        else do { (ok, buf, s) \<leftarrow> fat_delete path buf s; Some (if ok then 0 else -1, s) }})"

definition fat_mkdir :: "u8 list \<Rightarrow> fat_state \<Rightarrow> (int \<times> fat_state) option" where
  "fat_mkdir path s =
     (if \<not> fat_initialized s then Some (FAT_FAIL, set_errno EPERM s)
      else do {
        (ok, sector, dir_idx, s) \<leftarrow> fat_resolve_path path (sector_buffer s) no_entry (set_errno OK s);
        if ok then Some (FAT_FAIL, set_errno EEXIST s)
        else do {
          (ok, dir_idx, sector, fd, s) \<leftarrow> fat_create path dir_idx sector 0 False s;
          if \<not> ok then Some (FAT_FAIL, s)
          else if fd \<noteq> 0 then None
          else do {
            let addr = fat_first_sector_of_cluster (fat_pinfo s) (dir_cluster dir_idx);
            (ok, sector, s) \<leftarrow> fat_read_single_block addr sector s;
            s \<leftarrow> (if ok
              then map_option snd (fat_write_single_block addr (sector[0 := FAT_DIR_ENTRY_LAST]) s)
              else Some (set_errno EIO s));
            Some (if fat_errno s = OK then FAT_SUCCESS else FAT_FAIL, s) }}})"

text \<open>One entry of the search for one that is not free; the state keeps the byte seen last.\<close>

definition empty_step ::
  "u8 \<times> u32 \<times> u32 \<times> u32 \<times> u32 \<times> u8 list \<times> fat_state \<Rightarrow>
   (unit option \<times> u8 \<times> u32 \<times> u32 \<times> u32 \<times> u32 \<times> u8 list \<times> fat_state) option" where
  "empty_step = (\<lambda>(entstat, cluster, sec_start, sec, ent, buf, s). do {
     let entstat = fat_get_uint8 buf (unat ent * FAT_DIR_ENTRY_WIDTH);
     let again = (\<lambda>s. if fat_errno s = OK \<and> entstat = FAT_DIR_ENTRY_FREE then None else Some ());
     if ent + 1 < entries_per_sector (fat_pinfo s) then Some (again s, entstat, cluster, sec_start, sec, ent + 1, buf, s)
     else do {
       (ok, cluster, sec_start, sec, s) \<leftarrow>
         (if sec + 1 \<ge> sectors_per_cluster (fat_pinfo s)
          then do {
            (ok, cluster, s) \<leftarrow> fat_acquire_next_cluster cluster False s;
            Some (ok, cluster, if ok then fat_first_sector_of_cluster (fat_pinfo s) cluster else sec_start, 0, s) }
          else Some (True, cluster, sec_start, sec + 1, s));
       if \<not> ok then Some (Some (), entstat, cluster, sec_start, sec, 0, buf, s)
       else do {
         (ok, buf, s) \<leftarrow> fat_read_single_block (sec_start + sec) buf s;
         Some (if ok then (again s, entstat, cluster, sec_start, 0, 0, buf, s)
               else (Some (), entstat, cluster, sec_start, sec, 0, buf, s)) }}})"

definition fat_rmdir :: "u8 list \<Rightarrow> fat_state \<Rightarrow> (int \<times> fat_state) option" where
  "fat_rmdir path s =
     (if \<not> fat_initialized s then Some (FAT_FAIL, set_errno EPERM s)
      else do {
        (ok, sector, dir_idx, s) \<leftarrow> fat_resolve_path path (sector_buffer s) no_entry (set_errno OK s);
        s \<leftarrow> (if \<not> ok then Some (set_errno ENOENT s)
          else if fat_attrib_of_dir_entry sector (unat (dir_index dir_idx)) AND FAT_DIRECTORY = 0 then Some (set_errno ENOTDIR s)
          else do {
            let cluster = fat_cluster_of_dir_entry sector (unat (dir_index dir_idx));
            let sec_start = fat_first_sector_of_cluster (fat_pinfo s) cluster;
            (ok, chksector, s) \<leftarrow> fat_read_single_block sec_start (sector_buffer s) s;
            (u, entstat, cluster, sec_start, sec, ent, chksector, s) \<leftarrow>
              loop_until empty_step (FAT_DIR_ENTRY_FREE, cluster, sec_start, 0, 0, chksector, s);
            if fat_errno s = OK \<and> entstat \<noteq> FAT_DIR_ENTRY_LAST then Some (set_errno ENOTEMPTY s)
            else if fat_errno s = OK then map_option (\<lambda>(ok, sector, s). s) (fat_delete path sector s)
            else Some s });
        Some (if fat_errno s = OK then FAT_SUCCESS else FAT_FAIL, s) })"

end
