(* ===== verification/Fat_Chain.thy ===== *)
theory Fat_Chain
  imports Fat_Table
begin

text \<open>
  The file allocation table as a function from clusters to values: what the operations of
  \<open>Fat_Table\<close> compute on it, and the chains of clusters in it.
\<close>

section \<open>The table\<close>

text \<open>
  The partitions considered: sectors of 512 bytes, as the disk has them, a number of sectors per
  cluster that fits its byte in the volume, and a table and clusters that lie behind each other on
  the disk. The clusters have numbers below 2^28 that are no marks.
\<close>

definition geometry :: "fat_partition_info \<Rightarrow> bool" where
  "geometry p \<longleftrightarrow> bytes_per_sector p = 512 \<and> sectors_per_cluster p \<noteq> 0 \<and> unat (sectors_per_cluster p) < 256 \<and>
     sectors_per_fat p \<noteq> 0 \<and>
     unat (sectors_per_fat p) < 2 ^ 21 \<and>
     unat (fat_begin_addr p) + unat (sectors_per_fat p) \<le> unat (cluster_begin_addr p) \<and>
     unat (cluster_begin_addr p) + 128 * unat (sectors_per_fat p) * unat (sectors_per_cluster p) \<le> 2 ^ 32"

definition table_size :: "fat_partition_info \<Rightarrow> nat" where
  "table_size p = 128 * unat (sectors_per_fat p)"

definition fat_sector :: "fat_partition_info \<Rightarrow> u32 \<Rightarrow> u32" where
  "fat_sector p c = fat_begin_addr p + c div 128"

definition entry_offset :: "u32 \<Rightarrow> nat" where
  "entry_offset c = 4 * unat (c mod 128)"

definition fat_entry :: "fat_partition_info \<Rightarrow> blocks \<Rightarrow> u32 \<Rightarrow> u32" where
  "fat_entry p B c = table_value (B (fat_sector p c)) (entry_offset c)"

definition put_entry :: "fat_partition_info \<Rightarrow> u32 \<Rightarrow> u32 \<Rightarrow> blocks \<Rightarrow> blocks" where
  "put_entry p v c B = B(fat_sector p c := fat_set_uint32 v (B (fat_sector p c)) (entry_offset c))"

text \<open>A library whose disk works.\<close>

definition fat_holds :: "blocks \<Rightarrow> fat_state \<Rightarrow> bool" where
  "fat_holds B s \<longleftrightarrow> disk_holds B (dev s) \<and> geometry (fat_pinfo s)"

text \<open>The library after calls of the disk that succeeded.\<close>

definition fat_after :: "blocks \<Rightarrow> fat_state \<Rightarrow> fat_state \<Rightarrow> bool" where
  "fat_after B s s' \<longleftrightarrow> (\<exists>d. s' = s\<lparr>dev := d\<rparr> \<and> disk_holds B d)"

lemma fat_after_holds: "fat_after B s s' \<Longrightarrow> geometry (fat_pinfo s) \<Longrightarrow> fat_holds B s'"
  by (auto simp: fat_after_def fat_holds_def)

lemma fat_after_trans: "fat_after B s s' \<Longrightarrow> fat_after B' s' s'' \<Longrightarrow> fat_after B' s s''"
  by (auto simp: fat_after_def)

lemma fat_after_fields [state_simps]:
  "fat_after B s s' \<Longrightarrow> fat_pinfo s' = fat_pinfo s"
  "fat_after B s s' \<Longrightarrow> fat_open_files s' = fat_open_files s"
  "fat_after B s s' \<Longrightarrow> fat_initialized s' = fat_initialized s"
  "fat_after B s s' \<Longrightarrow> sector_buffer s' = sector_buffer s"
  by (auto simp: fat_after_def sector_buffer_def)

lemma set_errno_fields [simp]:
  "fat_pinfo (set_errno e s) = fat_pinfo s" "fat_open_files (set_errno e s) = fat_open_files s"
  "fat_initialized (set_errno e s) = fat_initialized s" "fat_errno (set_errno e s) = e"
  "sector_buffer (set_errno e s) = sector_buffer s"
  by (simp_all add: set_errno_def fat_errno_def sector_buffer_def)

lemma disk_holds_errno [simp]: "disk_holds B (d\<lparr>errno := e\<rparr>) = disk_holds B d"
  by (simp add: disk_holds_def)

lemma fat_holds_errno [simp]: "fat_holds B (set_errno e s) = fat_holds B s"
  by (simp add: fat_holds_def set_errno_def)

lemma fat_after_errno: "fat_after B s s' \<Longrightarrow> fat_after B s (set_errno e s')"
  by (auto simp: fat_after_def set_errno_def)

lemma fat_after_refl: "fat_holds B s \<Longrightarrow> fat_after B s s"
  by (auto simp: fat_after_def fat_holds_def intro!: exI [of _ "dev s"])

lemma holds_length: "fat_holds B s \<Longrightarrow> length (B a) = 512"
  by (auto simp: fat_holds_def intro: disk.block_length)

lemma fat_read_block:
  assumes "fat_holds B s" and "512 \<le> length buf"
  obtains s' where "fat_read_single_block a buf s = Some (True, B a @ drop 512 buf, s')"
    and "fat_after B s s'" and "fat_holds B s'" and "fat_errno s' = OK"
proof -
  from assms obtain d where "disk_read a buf 1 (dev s) = Some (0, B a @ drop 512 buf, d)" "disk_holds B d" "errno d = OK"
    using disk_read_block [of B "dev s" buf a] by (auto simp: fat_holds_def disk_clean_def)
  with assms that [of "s\<lparr>dev := d\<rparr>"] show ?thesis
    by (auto simp: fat_read_single_block_def fat_after_def fat_holds_def fat_errno_def)
qed

lemma fat_read_sector:
  assumes "fat_holds B s" and "length buf = 512"
  obtains s' where "fat_read_single_block a buf s = Some (True, B a, s')"
    and "fat_after B s s'" and "fat_holds B s'" and "fat_errno s' = OK"
  using fat_read_block [OF assms(1), of buf a] assms(2) by auto

lemma fat_write_block:
  assumes "fat_holds B s" and "512 \<le> length b"
  obtains s' where "fat_write_single_block a b s = Some (True, s')"
    and "fat_after (B(a := take 512 b)) s s'" and "fat_holds (B(a := take 512 b)) s'" and "fat_errno s' = OK"
proof -
  from assms obtain d where "disk_write a b 1 (dev s) = Some (0, d)" "disk_holds (B(a := take 512 b)) d" "errno d = OK"
    using disk_write_block [of B "dev s" b a] by (auto simp: fat_holds_def disk_clean_def)
  with assms that [of "s\<lparr>dev := d\<rparr>"] show ?thesis
    by (auto simp: fat_write_single_block_def fat_after_def fat_holds_def fat_errno_def simp del: fun_upd_apply)
qed

lemma fat_write_sector:
  assumes "fat_holds B s" and "length b = 512"
  obtains s' where "fat_write_single_block a b s = Some (True, s')"
    and "fat_after (B(a := b)) s s'" and "fat_holds (B(a := b)) s'" and "fat_errno s' = OK"
  using fat_write_block [OF assms(1), of b a] assms(2) by auto

lemma length_sector_buffer: "fat_holds B s \<Longrightarrow> length (sector_buffer s) = 512"
  by (simp add: fat_holds_def geometry_def sector_buffer_def)

section \<open>Entries\<close>

lemma four_bytes:
  fixes v :: u32
  shows "ucast (ucast v :: u8) + push_bit 8 (ucast (ucast (drop_bit 8 v) :: u8)) +
    push_bit 16 (ucast (ucast (drop_bit 16 v) :: u8)) + push_bit 24 (ucast (ucast (drop_bit 24 v) :: u8)) = v"
    (is "?a + ?b + ?c + ?d = v")
proof -
  have ab: "?a + ?b = ?a OR ?b" by (rule disjunctive_add) (auto simp: bit_simps)
  have abc: "(?a OR ?b) + ?c = ?a OR ?b OR ?c" by (rule disjunctive_add [THEN trans]) (auto simp: bit_simps ac_simps)
  have abcd: "(?a OR ?b OR ?c) + ?d = ?a OR ?b OR ?c OR ?d"
    by (rule disjunctive_add [THEN trans]) (auto simp: bit_simps ac_simps)
  have "?a OR ?b OR ?c OR ?d = v"
  proof (rule bit_word_eqI)
    fix n assume "n < LENGTH(32)"
    then consider "n < 8" | "8 \<le> n \<and> n < 16" | "16 \<le> n \<and> n < 24" | "24 \<le> n \<and> n < 32" by fastforce
    then show "bit (?a OR ?b OR ?c OR ?d) n = bit v n" by cases (auto simp: bit_simps)
  qed
  with ab abc abcd show ?thesis by simp
qed

lemma get_set_uint32:
  assumes "k + 4 \<le> length buf"
  shows "fat_get_uint32 (fat_set_uint32 v buf k) k = v"
  using assms four_bytes [of v] by (simp add: fat_get_uint32_def fat_set_uint32_def)

lemma get_set_uint32_other:
  assumes "k + 4 \<le> j \<or> j + 4 \<le> k"
  shows "fat_get_uint32 (fat_set_uint32 v buf k) j = fat_get_uint32 buf j"
  using assms by (auto simp: fat_get_uint32_def fat_set_uint32_def)

lemma length_set_uint32 [simp]: "length (fat_set_uint32 v buf k) = length buf"
  by (simp add: fat_set_uint32_def)

lemma entry_offset_less: "entry_offset c + 4 \<le> 512"
  by (simp add: entry_offset_def unat_mod)

lemma entry_offset_inj: "c div 128 = d div 128 \<Longrightarrow> entry_offset c = entry_offset d \<Longrightarrow> c = (d :: u32)"
proof -
  assume d: "c div 128 = d div 128" and "entry_offset c = entry_offset d"
  then have "c mod 128 = d mod 128" by (simp add: entry_offset_def word_unat_eq_iff)
  with d show "c = d" using div_mult_mod_eq [of c 128] div_mult_mod_eq [of d 128] by metis
qed

lemma fat_entry_put:
  assumes "\<And>a. length (B a) = 512"
  shows "fat_entry p (put_entry p v c B) = (fat_entry p B)(c := v AND 0x0FFFFFFF)"
proof
  fix d
  have len: "entry_offset c + 4 \<le> length (B a)" for a using assms entry_offset_less by simp
  have apart: "entry_offset c + 4 \<le> entry_offset d \<or> entry_offset d + 4 \<le> entry_offset c"
    if "entry_offset c \<noteq> entry_offset d"
    using that by (simp add: entry_offset_def) arith
  show "fat_entry p (put_entry p v c B) d = ((fat_entry p B)(c := v AND 0x0FFFFFFF)) d"
  proof (cases "fat_sector p d = fat_sector p c")
    case True
    then have s: "d div 128 = c div 128" by (simp add: fat_sector_def)
    show ?thesis
    proof (cases "d = c")
      case True
      then show ?thesis by (simp add: fat_entry_def put_entry_def table_value_def get_set_uint32 len)
    next
      case False
      with s have "entry_offset c \<noteq> entry_offset d" using entry_offset_inj by metis
      with False True apart show ?thesis
        by (simp add: fat_entry_def put_entry_def table_value_def get_set_uint32_other)
    qed
  next
    case False
    then show ?thesis by (auto simp: fat_entry_def put_entry_def)
  qed
qed

lemma put_entry_length: "(\<And>a. length (B a) = 512) \<Longrightarrow> length (put_entry p v c B a) = 512"
  by (simp add: put_entry_def)

lemma put_entry_other: "a \<noteq> fat_sector p c \<Longrightarrow> put_entry p v c B a = B a"
  by (simp add: put_entry_def)

text \<open>The address computations of the code.\<close>

lemma cluster_times_4:
  assumes "unat c < 2 ^ 28"
  shows "c * 4 div 512 = (c :: u32) div 128" and "unat (c * 4 mod 512) = entry_offset c"
proof -
  have c4: "unat (c * 4) = unat c * 4" using assms by (subst unat_mult_lem [THEN iffD1]) auto
  show "c * 4 div 512 = c div 128" by (simp add: word_unat_eq_iff unat_div c4)
  have "unat (c * 4 mod 512) = unat c * 4 mod 512" by (simp add: unat_mod c4)
  also have "\<dots> = 4 * (unat c mod 128)" using mult_mod_right [of 4 "unat c" 128] by (simp add: ac_simps)
  finally show "unat (c * 4 mod 512) = entry_offset c" by (simp add: entry_offset_def unat_mod)
qed

lemma table_size_less: "geometry p \<Longrightarrow> unat c < table_size p \<Longrightarrow> unat c < 2 ^ 28"
  by (simp add: geometry_def table_size_def)

lemma get_table_value:
  assumes "fat_holds B s" and "unat c < table_size (fat_pinfo s)"
  obtains s' where "fat_get_table_value c s = Some (Some (fat_entry (fat_pinfo s) B c), s')"
    and "fat_after B s s'" and "fat_holds B s'" and "fat_errno s' = OK"
proof -
  from assms have c: "unat c < 2 ^ 28" using table_size_less by (auto simp: fat_holds_def)
  have g: "bytes_per_sector (fat_pinfo s) = 512" using assms(1) by (simp add: fat_holds_def geometry_def)
  obtain s' where "fat_read_single_block (fat_begin_addr (fat_pinfo s) + c div 128) (sector_buffer s) s =
      Some (True, B (fat_sector (fat_pinfo s) c), s')" "fat_after B s s'" "fat_holds B s'" "fat_errno s' = OK"
    using fat_read_sector [OF assms(1) length_sector_buffer [OF assms(1)]] by (metis fat_sector_def)
  then show ?thesis
    by (intro that [of s']) (simp_all add: fat_get_table_value_def g cluster_times_4 [OF c] fat_entry_def)
qed

section \<open>Searching a free entry\<close>

lemma around: \<comment> \<open>counting around from anywhere reaches everything\<close>
  fixes k m n :: nat
  assumes "m < n" and "k < n"
  shows "\<exists>j < n. (k + j) mod n = m"
proof (cases "k \<le> m")
  case True
  with assms show ?thesis by (intro exI [of _ "m - k"]) auto
next
  case False
  with assms show ?thesis by (intro exI [of _ "n + m - k"]) auto
qed

lemma around_word:
  assumes "unat (m :: u32) < unat n" and "unat k < unat n" and "unat n \<le> 2 ^ 21"
  shows "\<exists>j < unat n. (k + of_nat j) mod n = m"
proof -
  from around [OF assms(1,2)] obtain j where j: "j < unat n" "(unat k + j) mod unat n = unat m" by blast
  with assms have "unat (k + of_nat j) = unat k + j"
    by (subst unat_add_lem [THEN iffD1]) (auto simp: unat_of_nat_word)
  with j have "(k + of_nat j) mod n = m" by (simp add: word_unat_eq_iff unat_mod)
  with j show ?thesis by blast
qed

lemma compose_cluster:
  assumes "unat (sec :: u32) \<le> 2 ^ 21" and "unat e < 128"
  shows "(sec * 128 + e) div 128 = sec" and "(sec * 128 + e) mod 128 = e" and "unat (sec * 128 + e) = 128 * unat sec + unat e"
proof -
  have m: "unat (sec * 128) = 128 * unat sec" using assms(1) by (subst unat_mult_lem [THEN iffD1]) auto
  show s: "unat (sec * 128 + e) = 128 * unat sec + unat e"
    using assms m by (subst unat_add_lem [THEN iffD1]) auto
  show "(sec * 128 + e) div 128 = sec" "(sec * 128 + e) mod 128 = e"
    using assms by (simp_all add: word_unat_eq_iff unat_div unat_mod s)
qed

lemma free_entry_Some:
  assumes "free_entry buf 128 first sec = Some e"
  shows "unat e < 128" and "FAT_TV_FREE (table_value buf (4 * unat e))" and "sec * 128 + e \<noteq> 0"
  using assms by (auto simp: free_entry_def find_Some_iff unat_mod)

lemma free_entry_None:
  assumes "free_entry buf 128 first sec = None" and "unat first < 128" and "unat e < 128" and "sec * 128 + e \<noteq> 0"
  shows "\<not> FAT_TV_FREE (table_value buf (4 * unat e))"
proof -
  obtain j where "j < 128" "(first + of_nat j) mod 128 = e"
    using around_word [of e 128 first] assms(2,3) by auto
  with assms(1,4) show ?thesis by (auto simp: free_entry_def find_None_iff)
qed

text \<open>The disk after a cluster was claimed: marked as the last one, and linked from the old last one.\<close>

definition claimed :: "fat_partition_info \<Rightarrow> bool \<Rightarrow> u32 \<Rightarrow> u32 \<Rightarrow> blocks \<Rightarrow> blocks" where
  "claimed p link c new B = put_entry p 0x0FFFFFFF new (if link then put_entry p new c B else B)"

lemma geometryD:
  "geometry p \<Longrightarrow> bytes_per_sector p = 512"
  "geometry p \<Longrightarrow> unat (sectors_per_fat p) \<le> 2 ^ 21"
  by (auto simp: geometry_def)

text \<open>A step of the search claims a free entry of a sector, the whole search one of the table.\<close>

lemma claim_entry_result:
  assumes holds: "fat_holds B s" and p: "p = fat_pinfo s"
    and orig: "orig = B (fat_sector p c)" and buf: "buf = B (fat_begin_addr p + cur)"
    and cur: "unat cur < unat (sectors_per_fat p)" and e: "unat e < 128"
  shows "\<exists>s'. claim_entry c link orig cur e buf s = Some (True, cur * 128 + e, s') \<and>
    fat_after (claimed p link c (cur * 128 + e) B) s s' \<and> fat_errno s' = OK"
proof -
  let ?new = "cur * 128 + e"
  let ?B = "if link then put_entry p ?new c B else B"
  have g: "geometry p" using holds p by (simp add: fat_holds_def)
  have eps: "bytes_per_sector p div 4 = 128" using geometryD(1) [OF g] by simp
  have small: "unat cur \<le> 2 ^ 21" using cur geometryD(2) [OF g] by simp
  note new = compose_cluster [OF small e]
  have at_new: "fat_sector p ?new = fat_begin_addr p + cur" "entry_offset ?new = 4 * unat e"
    by (simp_all add: fat_sector_def entry_offset_def new)
  have off: "entry_offset c = 4 * unat (c mod 128)" by (simp add: entry_offset_def)
  have len: "length (B a) = 512" for a using holds by (rule holds_length)
  define marked where "marked = fat_set_uint32 ?new (if c div 128 = cur then buf else orig) (4 * unat (c mod 128))"
  have marked: "marked = fat_set_uint32 ?new (B (fat_sector p c)) (entry_offset c)"
    using orig buf by (auto simp: marked_def off fat_sector_def)
  obtain s1 where s1: "(if link then fat_write_single_block (fat_begin_addr p + c div 128) marked s else Some (True, s)) = Some (True, s1)"
    "fat_after ?B s s1" "fat_holds ?B s1"
  proof (cases link)
    case True
    have "length marked = 512" using marked len by simp
    with fat_write_sector [OF holds this, of "fat_sector p c"] True that show ?thesis
      by (auto simp: put_entry_def marked fat_sector_def simp del: fun_upd_apply)
  next
    case False
    with holds that fat_after_refl show ?thesis by simp
  qed
  have buf': "(if link \<and> c div 128 = cur then marked else buf) = ?B (fat_begin_addr p + cur)"
    using buf marked by (auto simp: put_entry_def fat_sector_def)
  have "length (fat_set_uint32 0x0FFFFFFF (?B (fat_begin_addr p + cur)) (4 * unat e)) = 512"
    using s1(3) by (simp add: holds_length)
  from fat_write_sector [OF s1(3) this, of "fat_begin_addr p + cur"]
  obtain s2 where s2: "fat_write_single_block (fat_begin_addr p + cur)
        (fat_set_uint32 0x0FFFFFFF (?B (fat_begin_addr p + cur)) (4 * unat e)) s1 = Some (True, s2)"
    "fat_after (claimed p link c ?new B) s1 s2" "fat_errno s2 = OK"
    unfolding claimed_def put_entry_def [of p "0x0FFFFFFF"] at_new by blast
  have "claim_entry c link orig cur e buf s = Some (True, ?new, s2)"
    unfolding claim_entry_def Let_def eps p [symmetric] marked_def [symmetric] buf' s1(1)
    using s2(1) by simp
  with s1(2) s2 fat_after_trans show ?thesis by blast
qed

definition free_cluster :: "fat_partition_info \<Rightarrow> blocks \<Rightarrow> u32 \<Rightarrow> bool" where
  "free_cluster p B c \<longleftrightarrow> c \<noteq> 0 \<and> unat c < table_size p \<and> fat_entry p B c = 0"

lemma sector_of_table:
  fixes c :: u32
  assumes "geometry p" and "unat c < table_size p"
  shows "unat (c div 128) < unat (sectors_per_fat p)" and "unat (c div 128) \<le> 2 ^ 21" and "unat (c mod 128) < 128"
    and "(c div 128) * 128 + c mod 128 = c"
proof -
  show "unat (c div 128) < unat (sectors_per_fat p)" using assms by (simp add: unat_div table_size_def)
  with geometryD(2) [OF assms(1)] show "unat (c div 128) \<le> 2 ^ 21" by simp
  show "unat (c mod 128) < 128" by (simp add: unat_mod)
qed (rule div_mult_mod_eq)

lemma search_sectors_result:
  assumes holds: "fat_holds B s" and p: "p = fat_pinfo s" and c: "unat c < table_size p"
    and orig: "orig = B (fat_sector p c)"
    and n: "i + n = unat (sectors_per_fat p)"
    and none: "\<And>k new. k < i \<Longrightarrow> free_cluster p B new \<Longrightarrow> new div 128 \<noteq> (c div 128 + of_nat k) mod sectors_per_fat p"
  shows "\<exists>s' B' ok new. search_sectors c link orig i n s = Some (ok, new, s') \<and> fat_after B' s s' \<and>
    (if ok then free_cluster p B new \<and> B' = claimed p link c new B \<and> fat_errno s' = OK
     else new = c \<and> B' = B \<and> (\<forall>new. \<not> free_cluster p B new) \<and> fat_errno s' = ENOSPC)"
  using holds p n none
proof (induction n arbitrary: i s)
  case 0
  have g: "geometry p" using "0.prems"(1,2) by (simp add: fat_holds_def)
  have "\<not> free_cluster p B new" for new
  proof
    assume f: "free_cluster p B new"
    then have "unat (new div 128) < unat (sectors_per_fat p)"
      using sector_of_table(1) [OF g] unfolding free_cluster_def by blast
    then obtain k where "k < unat (sectors_per_fat p)" "(c div 128 + of_nat k) mod sectors_per_fat p = new div 128"
      using around_word sector_of_table [OF g c] geometryD(2) [OF g] by metis
    with "0.prems"(3) "0.prems"(4) [of k new] f show False by simp
  qed
  with "0.prems"(1) show ?case
    by (intro exI [of _ "set_errno ENOSPC s"] exI [of _ B] exI [of _ False] exI [of _ c])
      (simp add: fat_after_errno fat_after_refl)
next
  case (Suc n)
  have g: "geometry p" using Suc.prems(1,2) by (simp add: fat_holds_def)
  have eps: "bytes_per_sector p div 4 = 128" using geometryD(1) [OF g] by simp
  define sec where "sec = (c div 128 + of_nat i) mod sectors_per_fat p"
  have sec: "unat sec < unat (sectors_per_fat p)"
    using g by (simp add: sec_def unat_mod geometry_def word_unat_eq_iff)
  obtain s1 where s1: "fat_read_single_block (fat_begin_addr p + sec) (sector_buffer s) s =
      Some (True, B (fat_begin_addr p + sec), s1)" "fat_after B s s1" "fat_holds B s1"
    using fat_read_sector [OF Suc.prems(1) length_sector_buffer [OF Suc.prems(1)]] by metis
  have p1: "fat_pinfo s1 = p" using s1(2) Suc.prems(2) by (simp add: state_simps)
  show ?case
  proof (cases "free_entry (B (fat_begin_addr p + sec)) 128 (c mod 128) sec")
    case None
    have "new div 128 \<noteq> sec" if "free_cluster p B new" for new
    proof
      assume n: "new div 128 = sec"
      have "unat new < table_size p" using that by (simp add: free_cluster_def)
      note t = sector_of_table [OF g this]
      have "\<not> FAT_TV_FREE (table_value (B (fat_begin_addr p + sec)) (4 * unat (new mod 128)))"
        using free_entry_None [OF None, of "new mod 128"] t that n sector_of_table(3) [OF g c]
        by (simp add: free_cluster_def)
      with that n show False by (simp add: free_cluster_def fat_entry_def fat_sector_def entry_offset_def FAT_TV_FREE_def)
    qed
    with Suc.prems(4) have later: "new div 128 \<noteq> (c div 128 + of_nat k) mod sectors_per_fat p"
      if "k < Suc i" "free_cluster p B new" for k new
      using that by (auto simp: sec_def less_Suc_eq)
    have "Suc i + n = unat (sectors_per_fat p)" using Suc.prems(3) by simp
    from Suc.IH [OF s1(3) p1 [symmetric] this later] obtain s2 B' ok new where
      "search_sectors c link orig (Suc i) n s1 = Some (ok, new, s2)" "fat_after B' s1 s2"
      "if ok then free_cluster p B new \<and> B' = claimed p link c new B \<and> fat_errno s2 = OK
       else new = c \<and> B' = B \<and> (\<forall>new. \<not> free_cluster p B new) \<and> fat_errno s2 = ENOSPC"
      by blast
    moreover have "search_sectors c link orig i (Suc n) s = search_sectors c link orig (Suc i) n s1"
      unfolding search_sectors.simps Let_def eps Suc.prems(2) [symmetric] sec_def [symmetric] s1(1) using None by simp
    ultimately show ?thesis using fat_after_trans [OF s1(2)] by metis
  next
    case (Some e)
    note f = free_entry_Some [OF Some]
    have "unat sec \<le> 2 ^ 21" using sec geometryD(2) [OF g] by simp
    note new = compose_cluster [OF this f(1)]
    have "free_cluster p B (sec * 128 + e)"
      using f sec new by (simp add: free_cluster_def fat_entry_def fat_sector_def entry_offset_def table_size_def FAT_TV_FREE_def)
    moreover obtain s2 where "claim_entry c link orig sec e (B (fat_begin_addr p + sec)) s1 = Some (True, sec * 128 + e, s2)"
      "fat_after (claimed p link c (sec * 128 + e) B) s1 s2" "fat_errno s2 = OK"
      using claim_entry_result [OF s1(3) p1 [symmetric] orig refl sec f(1)] by blast
    moreover have "search_sectors c link orig i (Suc n) s = claim_entry c link orig sec e (B (fat_begin_addr p + sec)) s1"
      unfolding search_sectors.simps Let_def eps Suc.prems(2) [symmetric] sec_def [symmetric] s1(1) using Some by simp
    ultimately show ?thesis using fat_after_trans [OF s1(2)]
      by (intro exI [of _ s2] exI [of _ "claimed p link c (sec * 128 + e) B"] exI [of _ True] exI [of _ "sec * 128 + e"]) simp
  qed
qed

section \<open>Following, extending and freeing chains\<close>

lemma acquire_next_cluster_result:
  assumes holds: "fat_holds B s" and p: "p = fat_pinfo s" and c: "unat c < table_size p"
  shows "\<exists>s' B' ok new. fat_acquire_next_cluster c link s = Some (ok, new, s') \<and> fat_after B' s s' \<and>
    (let tv = fat_entry p B c in
     if FAT_TV_BAD tv \<or> FAT_TV_FREE tv then \<not> ok \<and> new = c \<and> B' = B \<and> fat_errno s' = EBADF
     else if \<not> FAT_TV_LAST tv then ok \<and> new = tv \<and> B' = B \<and> fat_errno s' = OK
     else if ok then free_cluster p B new \<and> B' = claimed p link c new B \<and> fat_errno s' = OK
     else new = c \<and> B' = B \<and> (\<forall>new. \<not> free_cluster p B new) \<and> fat_errno s' = ENOSPC)"
proof -
  obtain s1 where s1: "fat_get_table_value c s = Some (Some (fat_entry p B c), s1)"
    "fat_after B s s1" "fat_holds B s1" "fat_errno s1 = OK"
    using get_table_value [OF holds c [unfolded p]] p by metis
  have p1: "p = fat_pinfo s1" using s1(2) p by (simp add: state_simps)
  have eps: "bytes_per_sector p div 4 = 128" using s1(3) p1 by (simp add: fat_holds_def geometry_def)
  note step = s1(1) fat_acquire_next_cluster_def Let_def
  consider (corrupt) "FAT_TV_BAD (fat_entry p B c) \<or> FAT_TV_FREE (fat_entry p B c)"
    | (follow) "\<not> FAT_TV_BAD (fat_entry p B c)" "\<not> FAT_TV_FREE (fat_entry p B c)" "\<not> FAT_TV_LAST (fat_entry p B c)"
    | (extend) "\<not> FAT_TV_BAD (fat_entry p B c)" "\<not> FAT_TV_FREE (fat_entry p B c)" "FAT_TV_LAST (fat_entry p B c)"
    by blast
  then show ?thesis
  proof cases
    case corrupt
    then have "fat_acquire_next_cluster c link s = Some (False, c, set_errno EBADF s1)" by (auto simp: step)
    with corrupt fat_after_errno [OF s1(2)] show ?thesis by (auto simp: Let_def)
  next
    case follow
    then have "fat_acquire_next_cluster c link s = Some (True, fat_entry p B c, s1)" by (auto simp: step)
    with follow s1 show ?thesis by (auto simp: Let_def)
  next
    case extend
    obtain s2 where s2: "fat_read_single_block (fat_begin_addr p + c div 128) (sector_buffer s1) s1 =
        Some (True, B (fat_sector p c), s2)" "fat_after B s1 s2" "fat_holds B s2"
      using fat_read_sector [OF s1(3) length_sector_buffer [OF s1(3)]] by (metis fat_sector_def)
    have p2: "p = fat_pinfo s2" using s2(2) p1 by (simp add: state_simps)
    have "fat_acquire_next_cluster c link s =
        search_sectors c link (B (fat_sector p c)) 0 (unat (sectors_per_fat p)) s2"
      using extend s2(1) by (simp add: step p1 [symmetric] eps)
    moreover obtain s3 B' ok new where
      "search_sectors c link (B (fat_sector p c)) 0 (unat (sectors_per_fat p)) s2 = Some (ok, new, s3)" "fat_after B' s2 s3"
      "if ok then free_cluster p B new \<and> B' = claimed p link c new B \<and> fat_errno s3 = OK
       else new = c \<and> B' = B \<and> (\<forall>new. \<not> free_cluster p B new) \<and> fat_errno s3 = ENOSPC"
      using search_sectors_result [OF s2(3) p2 c refl, of 0 "unat (sectors_per_fat p)" link] by auto
    moreover have "fat_after B' s s3" using s1(2) s2(2) calculation(3) fat_after_trans by blast
    ultimately show ?thesis using extend
      by (intro exI [of _ s3] exI [of _ B'] exI [of _ ok] exI [of _ new]) (simp add: Let_def)
  qed
qed

text \<open>A chain: every cluster leads to the next, the last one carries an end mark.\<close>

fun chain :: "(u32 \<Rightarrow> u32) \<Rightarrow> u32 list \<Rightarrow> bool" where
  "chain h [] \<longleftrightarrow> False"
| "chain h [c] \<longleftrightarrow> FAT_TV_LAST (h c)"
| "chain h (c # d # cs) \<longleftrightarrow> h c = d \<and> \<not> FAT_TV_LAST d \<and> \<not> FAT_TV_BAD d \<and> \<not> FAT_TV_FREE d \<and> chain h (d # cs)"

fun_cases chain_singleE: "chain h [c]" and chain_stepE: "chain h (c # d # cs)"

lemma chain_unique: "chain h (c # cs) \<Longrightarrow> chain h (c # ds) \<Longrightarrow> cs = ds"
proof (induction cs arbitrary: c ds)
  case Nil
  then show ?case by (cases ds) (auto elim: chain_stepE chain_singleE)
next
  case (Cons d cs)
  then show ?case by (cases ds) (auto elim: chain_stepE chain_singleE)
qed

lemma chain_suffix: "chain h (xs @ c # cs) \<Longrightarrow> chain h (c # cs)"
proof (induction xs)
  case (Cons x xs)
  then show ?case by (cases "xs @ c # cs") auto
qed simp

lemma chain_distinct: "chain h cs \<Longrightarrow> distinct cs"
proof (induction h cs rule: chain.induct)
  case (3 h c d cs)
  then have rest: "distinct (d # cs)" by (metis chain_stepE)
  have "c \<notin> set (d # cs)"
  proof
    assume "c \<in> set (d # cs)"
    then obtain xs ys where dcs: "d # cs = xs @ c # ys" by (metis in_set_conv_decomp)
    have "chain h ((c # xs) @ c # ys)" unfolding append_Cons dcs [symmetric] by (rule "3.prems")
    then have "chain h (c # ys)" by (rule chain_suffix)
    with "3.prems" have "d # cs = ys" by (metis chain_unique)
    moreover have "length (d # cs) = length xs + Suc (length ys)" unfolding dcs by simp
    ultimately show False by (metis less_add_Suc2 less_irrefl)
  qed
  with rest show ?case by simp
qed simp_all

lemma chain_frame: "(\<And>c. c \<in> set cs \<Longrightarrow> h' c = h c) \<Longrightarrow> chain h cs \<Longrightarrow> chain h' cs"
  by (induction h cs rule: chain.induct) auto

lemma mask_28: "unat (v :: u32) < 2 ^ 28 \<Longrightarrow> v AND 0x0FFFFFFF = v"
proof -
  assume "unat v < 2 ^ 28"
  then have "unat (take_bit 28 v) = unat v" by (simp only: unsigned_take_bit_eq take_bit_nat_eq_self)
  moreover have "v AND 0x0FFFFFFF = take_bit 28 v" by (simp add: take_bit_eq_mask mask_eq_exp_minus_1)
  ultimately show ?thesis by (simp add: word_unat_eq_iff)
qed

text \<open>The table after an extension.\<close>

lemma fat_entry_claimed:
  assumes "\<And>a. length (B a) = 512" and "geometry p" and "free_cluster p B new"
  shows "fat_entry p (claimed p link c new B) =
    (if link then (fat_entry p B)(c := new, new := 0x0FFFFFFF) else (fat_entry p B)(new := 0x0FFFFFFF))"
proof -
  have "new AND 0x0FFFFFFF = new"
    using assms(2,3) table_size_less by (intro mask_28) (auto simp: free_cluster_def)
  then show ?thesis using assms(1) by (simp add: claimed_def fat_entry_put put_entry_length)
qed

lemma chain_entry: "chain h cs \<Longrightarrow> c \<in> set cs \<Longrightarrow> \<not> FAT_TV_FREE (h c) \<and> \<not> FAT_TV_BAD (h c)"
  by (induction h cs rule: chain.induct) (auto simp: FAT_TV_LAST_def FAT_TV_FREE_def FAT_TV_BAD_def)

lemma chain_extend:
  assumes "chain h (cs @ [c])" and "h new = 0" and "new \<noteq> 0" and "new < 0x0FFFFFF7"
  shows "chain (h(c := new, new := 0x0FFFFFFF)) (cs @ [c, new])"
  using assms chain_distinct [OF assms(1)]
proof (induction cs)
  case Nil
  then show ?case by (auto simp: FAT_TV_LAST_def FAT_TV_FREE_def FAT_TV_BAD_def word_less_nat_alt word_le_nat_alt)
next
  case (Cons x cs)
  have "new \<notin> set (x # cs @ [c])" using chain_entry [OF Cons.prems(1)] Cons.prems(2) by (auto simp: FAT_TV_FREE_def)
  moreover from Cons.prems(1) have "chain h (cs @ [c])" by (cases cs) auto
  ultimately show ?case using Cons by (cases cs) auto
qed

lemma free_step_result:
  assumes holds: "fat_holds B s" and p: "p = fat_pinfo s" and c: "unat c < table_size p" and "length buf = 512"
    and ok: "\<not> FAT_TV_BAD (fat_entry p B c)" "\<not> FAT_TV_FREE (fat_entry p B c)"
  obtains buf' s' where "free_step (c, buf, s) =
      Some (if FAT_TV_LAST (fat_entry p B c) then Some () else None, fat_entry p B c, buf', s')"
    and "fat_after (put_entry p 0 c B) s s'" and "fat_holds (put_entry p 0 c B) s'" and "length buf' = 512"
    and "fat_errno s' = OK"
proof -
  have g: "geometry p" using holds p by (simp add: fat_holds_def)
  note c4 = cluster_times_4 [OF table_size_less [OF g c]]
  obtain s1 where s1: "fat_read_single_block (fat_sector p c) buf s = Some (True, B (fat_sector p c), s1)"
    "fat_after B s s1" "fat_holds B s1"
    using fat_read_sector [OF holds assms(4)] by metis
  let ?buf = "fat_set_uint32 0 (B (fat_sector p c)) (entry_offset c)"
  have len: "length ?buf = 512" using holds_length [OF holds] by simp
  obtain s2 where s2: "fat_write_single_block (fat_sector p c) ?buf s1 = Some (True, s2)"
    "fat_after (put_entry p 0 c B) s1 s2" "fat_holds (put_entry p 0 c B) s2" "fat_errno s2 = OK"
    using fat_write_sector [OF s1(3) len] unfolding put_entry_def by metis
  have "free_step (c, buf, s) = Some (if FAT_TV_LAST (fat_entry p B c) then Some () else None, fat_entry p B c, ?buf, s2)"
    using s1(1) s2(1) ok geometryD(1) [OF g]
    by (simp add: free_step_def p [symmetric] c4 fat_sector_def [symmetric] fat_entry_def [symmetric])
  with that s2 len fat_after_trans [OF s1(2) s2(2)] show ?thesis by blast
qed

lemma fat_free_cluster_chain_result:
  assumes "fat_holds B s" and "p = fat_pinfo s" and "chain (fat_entry p B) (c # cs)"
    and "\<And>x. x \<in> set (c # cs) \<Longrightarrow> unat x < table_size p"
  shows "\<exists>s'. fat_free_cluster_chain c s = Some (True, s') \<and> fat_after (fold (put_entry p 0) (c # cs) B) s s' \<and> fat_errno s' = OK"
proof -
  have loop: "\<exists>tv buf' s'. loop_until free_step (c, buf, s) = Some ((), tv, buf', s') \<and>
      fat_after (fold (put_entry p 0) (c # cs) B) s s' \<and> fat_errno s' = OK"
    if "fat_holds B s" "p = fat_pinfo s" "chain (fat_entry p B) (c # cs)"
      "\<And>x. x \<in> set (c # cs) \<Longrightarrow> unat x < table_size p" "length buf = 512" for B s c cs buf
    using that
  proof (induction cs arbitrary: B s c buf)
    case Nil
    then have last: "FAT_TV_LAST (fat_entry p B c)" and ok: "\<not> FAT_TV_BAD (fat_entry p B c)" "\<not> FAT_TV_FREE (fat_entry p B c)"
      by (auto simp: FAT_TV_LAST_def FAT_TV_BAD_def FAT_TV_FREE_def)
    have c: "unat c < table_size p" using Nil.prems(4) by simp
    obtain buf' s' where "free_step (c, buf, s) = Some (Some (), fat_entry p B c, buf', s')"
      "fat_after (put_entry p 0 c B) s s'" "fat_errno s' = OK"
      by (rule free_step_result [OF Nil.prems(1,2) c Nil.prems(5) ok, unfolded if_P [OF last]]) blast
    then show ?case by (auto intro!: loop_until_exit)
  next
    case (Cons d cs)
    note link = Cons.prems(3) [unfolded chain.simps]
    have c: "unat c < table_size p" using Cons.prems(4) by simp
    from link have ok: "\<not> FAT_TV_BAD (fat_entry p B c)" "\<not> FAT_TV_FREE (fat_entry p B c)" and d: "fat_entry p B c = d"
      and go: "\<not> FAT_TV_LAST (fat_entry p B c)" and rest: "chain (fat_entry p B) (d # cs)" by auto
    obtain buf' s' where step: "free_step (c, buf, s) = Some (None, d, buf', s')" "fat_after (put_entry p 0 c B) s s'"
      "fat_holds (put_entry p 0 c B) s'" "length buf' = 512"
      by (rule free_step_result [OF Cons.prems(1,2) c Cons.prems(5) ok, unfolded d if_not_P [OF go [unfolded d]]]) blast
    have "c \<notin> set (d # cs)" using chain_distinct [OF Cons.prems(3)] by simp
    then have "chain (fat_entry p (put_entry p 0 c B)) (d # cs)"
      by (intro chain_frame [OF _ rest]) (auto simp: fat_entry_put holds_length [OF Cons.prems(1)])
    moreover have "p = fat_pinfo s'" using step(2) Cons.prems(2) by (simp add: state_simps)
    moreover have "unat x < table_size p" if "x \<in> set (d # cs)" for x using Cons.prems(4) that by simp
    ultimately obtain tv buf'' s'' where s'': "loop_until free_step (d, buf', s') = Some ((), tv, buf'', s'')"
      "fat_after (fold (put_entry p 0) (d # cs) (put_entry p 0 c B)) s' s''" "fat_errno s'' = OK"
      using Cons.IH [OF step(3) _ _ _ step(4)] by blast
    have "fat_after (fold (put_entry p 0) (c # d # cs) B) s s''"
      using fat_after_trans [OF step(2) s''(2)] by simp
    with s'' loop_until_next [where round = free_step, OF step(1)] show ?case by metis
  qed
  have "length (sector_buffer s) = 512" using length_sector_buffer [OF assms(1)] .
  with loop [of B "set_errno OK s" c cs "sector_buffer s"] assms obtain tv buf' s' where
    "loop_until free_step (c, sector_buffer s, set_errno OK s) = Some ((), tv, buf', s')"
    "fat_after (fold (put_entry p 0) (c # cs) B) (set_errno OK s) s'" "fat_errno s' = OK"
    by auto
  then show ?thesis by (auto simp: fat_free_cluster_chain_def fat_after_def set_errno_def)
qed

end
