(* ===== verification/Fat_Content.thy ===== *)
theory Fat_Content
  imports Fat_Chain Fat_File
begin

text \<open>
  The contents of a file: the bytes of the sectors of its clusters, in the order of its chain. The
  theory shows what a read delivers, and which file position it really reads from.
\<close>

lemma unat_plus_u32: "unat a + unat b < 2 ^ 32 \<Longrightarrow> unat (a + b :: u32) = unat a + unat b"
  by (subst unat_add_lem [THEN iffD1]) simp_all

lemma unat_times_u32: "unat a * unat b < 2 ^ 32 \<Longrightarrow> unat (a * b :: u32) = unat a * unat b"
  by (subst unat_mult_lem [THEN iffD1]) simp_all

section \<open>Sectors of clusters\<close>

definition data_cluster :: "fat_partition_info \<Rightarrow> u32 \<Rightarrow> bool" where
  "data_cluster p c \<longleftrightarrow> 2 \<le> unat c \<and> unat c < table_size p"

definition spc :: "fat_partition_info \<Rightarrow> nat" where
  "spc p = unat (sectors_per_cluster p)"

text \<open>Sector number \<open>m\<close> of a file with the clusters \<open>cs\<close>, and its byte number \<open>i\<close>.\<close>

definition sector_at :: "fat_partition_info \<Rightarrow> u32 list \<Rightarrow> nat \<Rightarrow> u32" where
  "sector_at p cs m = fat_first_sector_of_cluster p (cs ! (m div spc p)) + of_nat (m mod spc p)"

definition file_byte :: "fat_partition_info \<Rightarrow> blocks \<Rightarrow> u32 list \<Rightarrow> nat \<Rightarrow> u8" where
  "file_byte p B cs i = B (sector_at p cs (i div 512)) ! (i mod 512)"

definition file_bytes :: "fat_partition_info \<Rightarrow> blocks \<Rightarrow> u32 list \<Rightarrow> nat \<Rightarrow> nat \<Rightarrow> u8 list" where
  "file_bytes p B cs from n = map (file_byte p B cs) [from..<from + n]"

definition capacity :: "fat_partition_info \<Rightarrow> u32 list \<Rightarrow> nat" where
  "capacity p cs = 512 * (spc p * length cs)"

lemma spc_pos: "geometry p \<Longrightarrow> 0 < spc p"
  by (simp add: geometry_def spc_def word_unat_eq_iff)

lemma unat_data_sector:
  assumes g: "geometry p" and c: "data_cluster p c" and k: "k < spc p"
  shows "unat (fat_first_sector_of_cluster p c + of_nat k) =
    unat (cluster_begin_addr p) + ((unat c - 2) * spc p + k)"
    and "(unat c - 2) * spc p + k < table_size p * spc p"
proof -
  have "(unat c - 2) * spc p + k < (unat c - 2) * spc p + spc p" using k by simp
  also have "\<dots> = Suc (unat c - 2) * spc p" by simp
  also have "\<dots> \<le> table_size p * spc p" using c by (intro mult_right_mono) (auto simp: data_cluster_def)
  finally show less: "(unat c - 2) * spc p + k < table_size p * spc p" .
  have fits: "unat (cluster_begin_addr p) + table_size p * spc p \<le> 2 ^ 32"
    using g by (simp add: geometry_def table_size_def spc_def)
  have c2: "unat (c - 2) = unat c - 2" using c by (subst unat_sub) (auto simp: data_cluster_def word_le_nat_alt)
  define n where "n = (unat c - 2) * spc p"
  have n: "n + k < table_size p * spc p" using less by (simp add: n_def)
  have prod: "unat ((c - 2) * sectors_per_cluster p) = n"
    unfolding n_def spc_def c2 [symmetric] by (rule unat_times_u32) (use n fits in \<open>simp add: n_def spc_def c2\<close>)
  have "unat (cluster_begin_addr p + (c - 2) * sectors_per_cluster p) = unat (cluster_begin_addr p) + n"
    by (subst unat_plus_u32) (use n fits prod in simp_all)
  moreover have "unat (of_nat k :: u32) = k" using n fits by (intro unat_of_nat_word) simp
  ultimately show "unat (fat_first_sector_of_cluster p c + of_nat k) =
      unat (cluster_begin_addr p) + ((unat c - 2) * spc p + k)"
    unfolding fat_first_sector_of_cluster_def n_def [symmetric]
    by (subst unat_plus_u32) (use n fits in simp_all)
qed

lemma data_sector_inj:
  assumes "geometry p" and "data_cluster p c" and "data_cluster p d" and "k < spc p" and "j < spc p"
    and "fat_first_sector_of_cluster p c + of_nat k = fat_first_sector_of_cluster p d + of_nat j"
  shows "c = d \<and> k = j"
proof -
  have eq: "(unat c - 2) * spc p + k = (unat d - 2) * spc p + j"
    using unat_data_sector(1) [OF assms(1,2,4)] unat_data_sector(1) [OF assms(1,3,5)] assms(6) by simp
  then have "((unat c - 2) * spc p + k) div spc p = ((unat d - 2) * spc p + j) div spc p"
    and "((unat c - 2) * spc p + k) mod spc p = ((unat d - 2) * spc p + j) mod spc p" by simp_all
  with assms(4,5) have "unat c - 2 = unat d - 2 \<and> k = j" by simp
  with assms(2,3) show ?thesis by (auto simp: data_cluster_def word_unat_eq_iff)
qed

lemma unat_fat_sector:
  assumes "geometry p" and "unat c < table_size p"
  shows "unat (fat_sector p c) < unat (cluster_begin_addr p)"
proof -
  have "unat (c div 128) < unat (sectors_per_fat p)" using sector_of_table(1) [OF assms] .
  moreover have "unat (cluster_begin_addr p) < 2 ^ 32" using unsigned_less [of "cluster_begin_addr p"] by simp
  ultimately show ?thesis using assms(1) unfolding fat_sector_def
    by (subst unat_add_lem [THEN iffD1]) (auto simp: geometry_def)
qed

lemma data_sector_not_table:
  assumes "geometry p" and "data_cluster p c" and "k < spc p" and "unat d < table_size p"
  shows "fat_first_sector_of_cluster p c + of_nat k \<noteq> fat_sector p d"
  using unat_data_sector(1) [OF assms(1-3)] unat_fat_sector [OF assms(1,4)] by auto

section \<open>One round of reading\<close>

lemma length_file_bytes [simp]: "length (file_bytes p B cs q n) = n"
  by (simp add: file_bytes_def)

lemma file_bytes_append: "file_bytes p B cs q (m + n) = file_bytes p B cs q m @ file_bytes p B cs (q + m) n"
  by (simp add: file_bytes_def upt_add_eq_append [of q "q + m"] flip: add.assoc)

lemma same_sector: "q mod 512 + i < 512 \<Longrightarrow> (q + i) div 512 = q div 512 \<and> (q + i) mod 512 = q mod 512 + (i :: nat)"
proof -
  assume r: "q mod 512 + i < 512"
  have "q + i = 512 * (q div 512) + (q mod 512 + i)" by simp
  then have "(q + i) div 512 = (512 * (q div 512) + (q mod 512 + i)) div 512"
    and "(q + i) mod 512 = (512 * (q div 512) + (q mod 512 + i)) mod 512" by simp_all
  with r show ?thesis by (simp only: div_mult_self4 mod_mult_self4 div_less mod_less) simp
qed

lemma sector_bytes:
  assumes "q mod 512 + n \<le> 512" and "length (B (sector_at p cs (q div 512))) = 512"
  shows "take n (drop (q mod 512) (B (sector_at p cs (q div 512)))) = file_bytes p B cs q n"
proof (rule nth_equalityI)
  fix i assume "i < length (take n (drop (q mod 512) (B (sector_at p cs (q div 512)))))"
  with assms have i: "i < n" "q mod 512 + i < 512" by auto
  show "take n (drop (q mod 512) (B (sector_at p cs (q div 512)))) ! i = file_bytes p B cs q n ! i"
    using i assms same_sector [OF i(2)] by (simp add: file_bytes_def file_byte_def)
qed (use assms in simp)

lemma read_chunk_result:
  assumes holds: "fat_holds B s" and n: "0 < n" "q mod 512 + n \<le> 512" and "got + n \<le> length buf"
    and "length buf < 2 ^ 32"
  obtains s' where "read_chunk a (of_nat (q mod 512)) (of_nat n) (of_nat got) buf s =
      Some (True, take got buf @ take n (drop (q mod 512) (B a)) @ drop (got + n) buf, s')"
    and "fat_after B s s'" and "fat_holds B s'" and "fat_errno s' = OK"
proof -
  have bps: "bytes_per_sector (fat_pinfo s) = 512" using holds by (simp add: fat_holds_def geometry_def)
  have len: "length (B a) = 512" using holds by (rule holds_length)
  have nats: "unat (of_nat n :: u32) = n" "unat (of_nat got :: u32) = got" "unat (of_nat (q mod 512) :: u32) = q mod 512"
    using assms by (auto intro!: unat_of_nat_word)
  have part: "(of_nat n :: u32) < 512 \<longleftrightarrow> n < 512" by (simp add: word_less_nat_alt nats)
  show thesis
  proof (cases "n < 512")
    case True
    obtain s' where s': "fat_read_single_block a (sector_buffer s) s = Some (True, B a, s')"
      "fat_after B s s'" "fat_holds B s'" "fat_errno s' = OK"
      using fat_read_sector [OF holds length_sector_buffer [OF holds]] by metis
    have "memcpy buf got (B a) (q mod 512) n = Some (take got buf @ take n (drop (q mod 512) (B a)) @ drop (got + n) buf)"
      using assms len by (simp add: memcpy_def)
    with True s' that show thesis by (simp add: read_chunk_def bps part nats)
  next
    case False
    with n have n: "n = 512" "q mod 512 = 0" by auto
    obtain s' where "fat_read_single_block a (drop got buf) s = Some (True, B a @ drop 512 (drop got buf), s')"
      "fat_after B s s'" "fat_holds B s'" "fat_errno s' = OK"
      by (rule fat_read_block [OF holds, of "drop got buf" a]) (use assms(4) n in simp_all)
    with n that len nats show thesis by (simp add: read_chunk_def bps add.commute)
  qed
qed

section \<open>Reading\<close>

text \<open>The file table is as it was, but the file of the descriptor has the current cluster \<open>c\<close>.\<close>

definition cursor_at :: "int \<Rightarrow> u32 \<Rightarrow> blocks \<Rightarrow> fat_state \<Rightarrow> fat_state \<Rightarrow> bool" where
  "cursor_at fd c B s s' \<longleftrightarrow>
     (\<exists>d. s' = update_file fd (\<lambda>f. f\<lparr>current_cluster := c\<rparr>) (s\<lparr>dev := d\<rparr>) \<and> disk_holds B d)"

definition valid_fd :: "int \<Rightarrow> fat_state \<Rightarrow> bool" where
  "valid_fd fd s \<longleftrightarrow> file_index fd < length (fat_open_files s)"

lemma open_update [simp]: "valid_fd fd s \<Longrightarrow> open_file fd (update_file fd g s) = g (open_file fd s)"
  by (simp add: valid_fd_def open_file_def update_file_def)

lemma update_file_fields [simp]:
  "fat_pinfo (update_file fd g s) = fat_pinfo s" "dev (update_file fd g s) = dev s"
  "valid_fd fd' (update_file fd g s) = valid_fd fd' s" "fat_initialized (update_file fd g s) = fat_initialized s"
  "fat_errno (update_file fd g s) = fat_errno s" "fat_holds B (update_file fd g s) = fat_holds B s"
  by (simp_all add: update_file_def valid_fd_def fat_errno_def fat_holds_def)

lemma cursor_at_file: "cursor_at fd c B s s' \<Longrightarrow> valid_fd fd s \<Longrightarrow> open_file fd s' = (open_file fd s)\<lparr>current_cluster := c\<rparr>"
  by (auto simp: cursor_at_def valid_fd_def open_file_def update_file_def)

lemma cursor_at_fields:
  "cursor_at fd c B s s' \<Longrightarrow> fat_pinfo s' = fat_pinfo s"
  "cursor_at fd c B s s' \<Longrightarrow> valid_fd fd s' = valid_fd fd s"
  "cursor_at fd c B s s' \<Longrightarrow> fat_initialized s' = fat_initialized s"
  by (auto simp: cursor_at_def valid_fd_def update_file_def)

lemma cursor_at_holds: "cursor_at fd c B s s' \<Longrightarrow> geometry (fat_pinfo s) \<Longrightarrow> fat_holds B s'"
  by (auto simp: cursor_at_def fat_holds_def)

lemma cursor_at_start: "fat_holds B s \<Longrightarrow> valid_fd fd s \<Longrightarrow> cursor_at fd (current_cluster (open_file fd s)) B s (set_errno e s)"
  unfolding cursor_at_def fat_holds_def valid_fd_def
  by (intro exI [of _ "(dev s)\<lparr>errno := e\<rparr>"]) (simp add: update_file_def open_file_def set_errno_def)

lemma state_updates: "s\<lparr>fat_open_files := x, dev := d\<rparr> = s\<lparr>dev := d, fat_open_files := x\<rparr>"
  by (cases s) simp

lemma cursor_at_after: "cursor_at fd c B s s' \<Longrightarrow> fat_after B' s' s'' \<Longrightarrow> cursor_at fd c B' s s''"
  by (auto simp: cursor_at_def fat_after_def update_file_def open_file_def state_updates)

lemma cursor_at_update:
  "cursor_at fd c B s s' \<Longrightarrow> valid_fd fd s \<Longrightarrow> cursor_at fd c' B s (update_file fd (\<lambda>f. f\<lparr>current_cluster := c'\<rparr>) s')"
  by (auto simp: cursor_at_def update_file_def valid_fd_def open_file_def)

text \<open>The counters of a loop that stands at byte \<open>q\<close> of a file.\<close>

definition counts_at :: "fat_partition_info \<Rightarrow> u32 list \<Rightarrow> nat \<Rightarrow> counters \<Rightarrow> bool" where
  "counts_at p cs q k \<longleftrightarrow> byteoff k = of_nat (q mod 512) \<and> secoff k = of_nat (q div 512 mod spc p) \<and>
     secfirst k = fat_first_sector_of_cluster p (cs ! (q div 512 div spc p))"

definition file_chain :: "fat_partition_info \<Rightarrow> blocks \<Rightarrow> u32 list \<Rightarrow> bool" where
  "file_chain p B cs \<longleftrightarrow> chain (fat_entry p B) cs \<and> (\<forall>c \<in> set cs. data_cluster p c)"

lemma chain_nth: "chain h cs \<Longrightarrow> Suc j < length cs \<Longrightarrow>
    h (cs ! j) = cs ! Suc j \<and> \<not> FAT_TV_LAST (cs ! Suc j) \<and> \<not> FAT_TV_BAD (cs ! Suc j) \<and> \<not> FAT_TV_FREE (cs ! Suc j)"
proof (induction h cs arbitrary: j rule: chain.induct)
  case (3 h c d cs)
  then show ?case by (cases j) auto
qed simp_all

lemma file_chain_nth:
  assumes "file_chain p B cs" and "Suc j < length cs"
  shows "fat_entry p B (cs ! j) = cs ! Suc j" and "\<not> FAT_TV_LAST (cs ! Suc j)" and "\<not> FAT_TV_BAD (cs ! Suc j)"
    and "\<not> FAT_TV_FREE (cs ! Suc j)"
  using assms chain_nth [of "fat_entry p B" cs j] by (auto simp: file_chain_def)

lemma file_chain_data: "file_chain p B cs \<Longrightarrow> j < length cs \<Longrightarrow> data_cluster p (cs ! j)"
  by (simp add: file_chain_def)

lemma next_sector:
  fixes m n :: nat
  assumes "0 < n"
  shows "Suc (m mod n) < n \<Longrightarrow> Suc m mod n = Suc (m mod n) \<and> Suc m div n = m div n"
    and "\<not> Suc (m mod n) < n \<Longrightarrow> Suc m mod n = 0 \<and> Suc m div n = Suc (m div n)"
  using assms mod_less_divisor [OF assms, of m] by (cases "Suc (m mod n) = n"; simp add: mod_Suc div_Suc)+

lemma spc_word: "of_nat (spc p) = sectors_per_cluster p" and spc_less: "spc p < 2 ^ 32"
  using unsigned_less [of "sectors_per_cluster p"] by (simp_all add: spc_def)

lemma last_sector_word:
  assumes "0 < spc p"
  shows "sectors_per_cluster p \<le> 1 + (of_nat (m mod spc p) :: u32) \<longleftrightarrow> \<not> Suc (m mod spc p) < spc p"
proof -
  have "Suc (m mod spc p) \<le> spc p" using mod_less_divisor [OF assms, of m] by simp
  then have "unat (of_nat (Suc (m mod spc p)) :: u32) = Suc (m mod spc p)"
    using spc_less [of p] by (intro unat_of_nat_word) simp
  then show ?thesis by (auto simp: word_le_nat_alt spc_def [symmetric])
qed

lemma capacity_index:
  assumes "q < capacity p cs"
  shows "q div 512 div spc p < length cs"
proof -
  have "q div 512 < spc p * length cs" using assms by (simp add: capacity_def less_mult_imp_div_less ac_simps)
  then show ?thesis by (simp add: less_mult_imp_div_less ac_simps)
qed

text \<open>Going on to the next sector, which may be in the next cluster.\<close>

lemma read_advance_result:
  assumes cur: "cursor_at fd (cs ! (q div 512 div spc p)) B s0 s" and p: "p = fat_pinfo s0" and g: "geometry p"
    and fd: "valid_fd fd s0" and cs: "file_chain p B cs"
    and k: "secoff k = of_nat (q div 512 mod spc p)" "secfirst k = fat_first_sector_of_cluster p (cs ! (q div 512 div spc p))"
    and q': "q' div 512 = Suc (q div 512)" "q' < capacity p cs" and "fat_errno s = OK"
  shows "\<exists>k' s'. read_advance fd k s = Some (None, k', s') \<and> moved k' = moved k \<and> left_over k' = left_over k \<and>
    secoff k' = of_nat (q' div 512 mod spc p) \<and> secfirst k' = fat_first_sector_of_cluster p (cs ! (q' div 512 div spc p)) \<and>
    cursor_at fd (cs ! (q' div 512 div spc p)) B s0 s' \<and> fat_errno s' = OK"
proof -
  let ?m = "q div 512"
  have ps: "fat_pinfo s = p" using cur p by (simp add: cursor_at_fields)
  note spc = spc_pos [OF g]
  show ?thesis
  proof (cases "Suc (?m mod spc p) < spc p")
    case True
    note m = next_sector(1) [OF spc True]
    have "read_advance fd k s = Some (None, k\<lparr>secoff := secoff k + 1\<rparr>, s)"
      using True k by (simp add: read_advance_def ps last_sector_word [OF spc] add.commute)
    with m k cur assms(10) show ?thesis by (simp add: q'(1) add.commute)
  next
    case False
    note m = next_sector(2) [OF spc False]
    let ?j = "?m div spc p"
    have j: "Suc ?j < length cs" using capacity_index [OF q'(2)] by (simp add: q'(1) m)
    note nth = file_chain_nth [OF cs j]
    have "unat (cs ! ?j) < table_size (fat_pinfo s)"
      using file_chain_data [OF cs, of ?j] j ps by (simp add: data_cluster_def)
    moreover have holds: "fat_holds B s" using cursor_at_holds [OF cur] g p by simp
    ultimately obtain s1 where s1: "fat_get_table_value (cs ! ?j) s = Some (Some (cs ! Suc ?j), s1)"
      "fat_after B s s1" "fat_errno s1 = OK"
      using get_table_value [OF holds] ps nth(1) by metis
    have "current_cluster (open_file fd s) = cs ! ?j" using cursor_at_file [OF cur fd] by simp
    with s1 nth k False have "read_advance fd k s = Some (None, k\<lparr>secoff := 0, secfirst := fat_first_sector_of_cluster p (cs ! Suc ?j)\<rparr>,
        update_file fd (\<lambda>f. f\<lparr>current_cluster := cs ! Suc ?j\<rparr>) s1)"
      by (simp add: read_advance_def ps last_sector_word [OF spc] add.commute)
    moreover have "cursor_at fd (cs ! Suc ?j) B s0 (update_file fd (\<lambda>f. f\<lparr>current_cluster := cs ! Suc ?j\<rparr>) s1)"
      by (rule cursor_at_update [OF cursor_at_after [OF cur s1(2)] fd])
    ultimately show ?thesis using s1(3) by (simp add: q'(1) m)
  qed
qed

lemma umin_words:
  assumes "a \<le> 512" and "b < 2 ^ 32"
  shows "umin (512 - of_nat a) (of_nat b) = of_nat (min (512 - a) b)"
proof -
  have a: "(512 - of_nat a :: u32) = of_nat (512 - a)" using assms(1) by (simp add: of_nat_diff)
  have "unat (of_nat (512 - a) :: u32) = 512 - a" by (rule unat_of_nat_word) simp
  moreover have "unat (of_nat b :: u32) = b" using assms(2) by (intro unat_of_nat_word) simp
  ultimately show ?thesis unfolding a umin_def by (auto simp: word_less_nat_alt min_def)
qed

lemma counts_moved:
  assumes "moved k = of_nat got" and "left_over k = of_nat left" and "n \<le> left"
  shows "moved (count_moved (of_nat n) k) = of_nat (got + n)" and "left_over (count_moved (of_nat n) k) = of_nat (left - n)"
  using assms by (simp_all add: count_moved_def of_nat_diff)

lemma positive_word: "0 < n \<Longrightarrow> n < 2 ^ 32 \<Longrightarrow> (of_nat n :: u32) \<noteq> 0"
  by (auto simp: word_of_nat_eq_0_iff dest: dvd_imp_le)

lemma sector_end:
  assumes "0 < n" and "q mod 512 + n = (512 :: nat)"
  shows "(q + n) mod 512 = 0" and "(q + n) div 512 = Suc (q div 512)"
proof -
  have "q + n = 512 * Suc (q div 512)" 
  proof -
    define a b where "a = q div 512" and "b = q mod 512"
    then have "q = 512 * a + b" by simp
    moreover have "b + n = 512" using assms(2) b_def by simp
    ultimately have "q + n = 512 * Suc a" by simp
    then show ?thesis by (simp add: a_def)
  qed
  then show "(q + n) mod 512 = 0" and "(q + n) div 512 = Suc (q div 512)"
    by (metis mod_mult_self1_is_0) (metis \<open>q + n = 512 * Suc (q div 512)\<close> nonzero_mult_div_cancel_left zero_neq_numeral)
qed

lemma read_step_result:
  assumes cur: "cursor_at fd (cs ! (q div 512 div spc p)) B s0 s" and p: "p = fat_pinfo s0" and g: "geometry p"
    and fd: "valid_fd fd s0" and cs: "file_chain p B cs"
    and k: "counts_at p cs q k" "moved k = of_nat got" "left_over k = of_nat left"
    and left: "0 < left" "q + left \<le> capacity p cs" "got + left \<le> length buf" "length buf < 2 ^ 32"
    and n: "n = min (512 - q mod 512) left"
  shows "\<exists>k' s'. read_step fd (k, buf, s) = Some (None, k', take got buf @ file_bytes p B cs q n @ drop (got + n) buf, s') \<and>
    moved k' = of_nat (got + n) \<and> left_over k' = of_nat (left - n) \<and> fat_errno s' = OK \<and>
    (if n < left then counts_at p cs (q + n) k' \<and> cursor_at fd (cs ! ((q + n) div 512 div spc p)) B s0 s'
     else cursor_at fd (cs ! (q div 512 div spc p)) B s0 s')"
proof -
  have ps: "fat_pinfo s = p" using cur p by (simp add: cursor_at_fields)
  have bps: "bytes_per_sector p = 512" using g by (rule geometryD)
  have holds: "fat_holds B s" using cursor_at_holds [OF cur] g p by simp
  have n': "0 < n" "q mod 512 + n \<le> 512" "n \<le> left" using n left(1) mod_less_divisor [of 512 q] by auto
  have rdsz: "umin (512 - byteoff k) (left_over k) = of_nat n"
    using k left umin_words [of "q mod 512" left] by (simp add: counts_at_def n)
  have sector: "secfirst k + secoff k = sector_at p cs (q div 512)" using k(1) by (simp add: counts_at_def sector_at_def)
  obtain s1 where s1: "read_chunk (secfirst k + secoff k) (byteoff k) (of_nat n) (moved k) buf s =
      Some (True, take got buf @ file_bytes p B cs q n @ drop (got + n) buf, s1)" "fat_after B s s1" "fat_errno s1 = OK"
    using read_chunk_result [OF holds n'(1,2), of got buf "sector_at p cs (q div 512)"] left n' k
      sector_bytes [of q n B p cs] n'(2) holds_length [OF holds] by (auto simp: sector counts_at_def)
  define k1 where "k1 = count_moved (of_nat n) k"
  have k1: "moved k1 = of_nat (got + n)" "left_over k1 = of_nat (left - n)" "secoff k1 = secoff k" "secfirst k1 = secfirst k"
    using counts_moved [OF k(2,3) n'(3)] by (simp_all add: k1_def count_moved_def)
  have cur1: "cursor_at fd (cs ! (q div 512 div spc p)) B s0 s1" by (rule cursor_at_after [OF cur s1(2)])
  have nz: "left_over k \<noteq> 0" using positive_word [of left] left k(3) by simp
  let ?x = "if left_over k1 > 0 \<and> byteoff k + of_nat n \<ge> 512 then read_advance fd k1 s1 else Some (None, k1, s1)"
  have step: "read_step fd (k, buf, s) = do { (x, k', s) \<leftarrow> ?x;
      Some (x, k'\<lparr>byteoff := 0\<rparr>, take got buf @ file_bytes p B cs q n @ drop (got + n) buf, s) }"
    using s1(1) nz rdsz by (simp add: read_step_def ps bps Let_def k1_def)
  show ?thesis
  proof (cases "n < left")
    case True
    then have end': "q mod 512 + n = 512" using n n' by simp
    note q' = sector_end [OF n'(1) end']
    have q2: "q + n < capacity p cs" using True left(2) by simp
    have "left_over k1 \<noteq> 0" using positive_word [of "left - n"] True left k1(2) by simp
    moreover have "byteoff k + of_nat n = 512"
    proof -
      have "byteoff k + of_nat n = (of_nat (q mod 512 + n) :: u32)" using k(1) by (simp add: counts_at_def)
      then show ?thesis unfolding end' by simp
    qed
    ultimately have "?x = read_advance fd k1 s1" by (simp add: word_neq_0_conv)
    moreover obtain k2 s2 where "read_advance fd k1 s1 = Some (None, k2, s2)" "moved k2 = moved k1" "left_over k2 = left_over k1"
      "secoff k2 = of_nat ((q + n) div 512 mod spc p)" "secfirst k2 = fat_first_sector_of_cluster p (cs ! ((q + n) div 512 div spc p))"
      "cursor_at fd (cs ! ((q + n) div 512 div spc p)) B s0 s2" "fat_errno s2 = OK"
      using read_advance_result [OF cur1 p g fd cs _ _ q'(2) q2 s1(3), of k1] k(1) k1 by (auto simp: counts_at_def)
    ultimately show ?thesis using True k1 q'(1) by (simp add: step counts_at_def)
  next
    case False
    then have "n = left" using n'(3) by simp
    then have "?x = Some (None, k1, s1)" using k1(2) by simp
    with False k1 cur1 s1(3) show ?thesis by (simp add: step)
  qed
qed

lemma splice_file_bytes:
  assumes "got + (m + n) \<le> length buf" and "buf' = take got buf @ file_bytes p B cs q m @ drop (got + m) buf"
  shows "take (got + m) buf' @ file_bytes p B cs (q + m) n @ drop (got + m + n) buf' =
    take got buf @ file_bytes p B cs q (m + n) @ drop (got + (m + n)) buf"
  using assms by (simp add: file_bytes_append min_def ac_simps)

lemma read_loop:
  assumes "cursor_at fd (cs ! (q div 512 div spc p)) B s0 s" and p: "p = fat_pinfo s0" and g: "geometry p"
    and fd: "valid_fd fd s0" and cs: "file_chain p B cs"
    and "counts_at p cs q k" "moved k = of_nat got" "left_over k = of_nat left"
    and "q + left \<le> capacity p cs" "got + left \<le> length buf" "length buf < 2 ^ 32" and "fat_errno s = OK"
  shows "\<exists>k' s'. loop_until (read_step fd) (k, buf, s) =
      Some ((), k', take got buf @ file_bytes p B cs q left @ drop (got + left) buf, s') \<and>
    moved k' = of_nat (got + left) \<and> fat_errno s' = OK \<and>
    cursor_at fd (cs ! ((if left = 0 then q else q + left - 1) div 512 div spc p)) B s0 s'"
  using assms(1,6-)
proof (induction left arbitrary: q got k buf s rule: less_induct)
  case (less left)
  note cur = less.prems(1) and k = less.prems(2-4) and fits = less.prems(5-7)
  have exit: "loop_until (read_step fd) (k, buf, s) = Some ((), k, buf, s)" if "left_over k = 0" for k buf s
    using that by (intro loop_until_exit) (simp add: read_step_def Let_def)
  show ?case
  proof (cases "left = 0")
    case True
    with less.prems show ?thesis by (simp add: exit file_bytes_def)
  next
    case False
    define n where "n = min (512 - q mod 512) left"
    have n: "0 < n" "n \<le> left" "q mod 512 + n \<le> 512"
      using False mod_less_divisor [of 512 q] by (auto simp: n_def)
    define buf' where "buf' = take got buf @ file_bytes p B cs q n @ drop (got + n) buf"
    have len': "length buf' = length buf" using n fits by (simp add: buf'_def)
    have left: "0 < left" using False by simp
    obtain k' s' where step: "read_step fd (k, buf, s) = Some (None, k', buf', s')"
      and k': "moved k' = of_nat (got + n)" "left_over k' = of_nat (left - n)" and ok: "fat_errno s' = OK"
      and cur': "if n < left then counts_at p cs (q + n) k' \<and> cursor_at fd (cs ! ((q + n) div 512 div spc p)) B s0 s'
        else cursor_at fd (cs ! (q div 512 div spc p)) B s0 s'"
      using read_step_result [OF cur p g fd cs k left fits n_def] unfolding buf'_def by blast
    note go = loop_until_next [where round = "read_step fd", OF step]
    show ?thesis
    proof (cases "n < left")
      case True
      with cur' obtain k'' s'' where
        "loop_until (read_step fd) (k', buf', s') = Some ((), k'',
           take (got + n) buf' @ file_bytes p B cs (q + n) (left - n) @ drop (got + n + (left - n)) buf', s'')"
        "moved k'' = of_nat (got + n + (left - n))" "fat_errno s'' = OK"
        "cursor_at fd (cs ! ((if left - n = 0 then q + n else q + n + (left - n) - 1) div 512 div spc p)) B s0 s''"
        using less.IH [of "left - n" "q + n" s' k' "got + n" buf'] k' ok n fits len' by auto
      moreover have "got + (n + (left - n)) \<le> length buf" using True fits by simp
      note splice_file_bytes [OF this buf'_def]
      ultimately show ?thesis using True n by (simp add: go)
    next
      case False
      then have l: "left = n" using n by simp
      with cur' have "cursor_at fd (cs ! (q div 512 div spc p)) B s0 s'" by simp
      moreover have "(q + left - 1) div 512 = q div 512"
        using same_sector [of q "n - 1"] n l by simp
      moreover have "loop_until (read_step fd) (k', buf', s') = Some ((), k', buf', s')" using k' l by (intro exit) simp
      ultimately show ?thesis using l k' ok left by (simp add: go buf'_def)
    qed
  qed
qed

text \<open>
  The byte of the chain the cursor stands at, when the current cluster is number \<open>j\<close>. It is the file
  position when \<open>j\<close> is the cluster of the position.
\<close>

definition cursor_byte :: "fat_partition_info \<Rightarrow> nat \<Rightarrow> nat \<Rightarrow> nat" where
  "cursor_byte p j pos = 512 * (j * spc p + pos div 512 mod spc p) + pos mod 512"

lemma cursor_byte_div:
  assumes "0 < spc p"
  shows "cursor_byte p j pos div 512 = j * spc p + pos div 512 mod spc p"
    and "cursor_byte p j pos div 512 div spc p = j" and "cursor_byte p j pos div 512 mod spc p = pos div 512 mod spc p"
    and "cursor_byte p j pos mod 512 = pos mod 512"
proof -
  have split: "(512 * a + c) div 512 = a \<and> (512 * a + c) mod 512 = c" if "c < 512" for a c :: nat using that by simp
  note s = split [of "pos mod 512" "j * spc p + pos div 512 mod spc p"]
  then show d: "cursor_byte p j pos div 512 = j * spc p + pos div 512 mod spc p" by (simp add: cursor_byte_def)
  show "cursor_byte p j pos mod 512 = pos mod 512" using s by (simp add: cursor_byte_def)
  show "cursor_byte p j pos div 512 div spc p = j" "cursor_byte p j pos div 512 mod spc p = pos div 512 mod spc p"
    using assms unfolding d by simp_all
qed

lemma cursor_byte_pos: "cursor_byte p (pos div 512 div spc p) pos = pos"
  by (simp add: cursor_byte_def)

lemma counts_at_start:
  assumes "geometry p" and "current_cluster f = cs ! j"
  shows "counts_at p cs (cursor_byte p j (unat (file_pos f))) (start_counters p f sz)"
proof -
  have u: "w = of_nat (unat w)" for w :: u32 by simp
  have "file_pos f div 512 mod sectors_per_cluster p = of_nat (unat (file_pos f) div 512 mod spc p)"
    by (subst u) (simp only: unat_mod unat_div spc_def unsigned_numeral, simp)
  moreover have "file_pos f mod 512 = of_nat (unat (file_pos f) mod 512)"
    by (subst u) (simp only: unat_mod unsigned_numeral, simp)
  ultimately show ?thesis
    using assms geometryD(1) [OF assms(1)] cursor_byte_div [OF spc_pos [OF assms(1)]]
    by (simp add: counts_at_def start_counters_def)
qed

text \<open>An open file: its clusters, and where its cursor stands in them.\<close>

definition file_at :: "int \<Rightarrow> blocks \<Rightarrow> u32 list \<Rightarrow> nat \<Rightarrow> fat_state \<Rightarrow> bool" where
  "file_at fd B cs j s \<longleftrightarrow>
     (let p = fat_pinfo s; f = open_file fd s in
      fat_holds B s \<and> length (fat_open_files s) = FAT_MAX_FILES \<and> fd_error fd s = None \<and> file_chain p B cs \<and>
      start_cluster f = hd cs \<and> j < length cs \<and> current_cluster f = cs ! j \<and>
      unat (file_size f) \<le> capacity p cs \<and> file_pos f \<le> file_size f)"

lemma fd_error_valid: "fd_error fd s = None \<Longrightarrow> length (fat_open_files s) = FAT_MAX_FILES \<Longrightarrow> valid_fd fd s"
  by (auto simp: fd_error_def valid_fd_def file_index_def FAT_FD_OFFSET_def FAT_MAX_FILES_def split: if_splits)

lemma fat_read_result:
  assumes opened: "file_at fd B cs j s" and f: "f = open_file fd s" and p: "p = fat_pinfo s"
    and nowrap: "unat (file_pos f) + unat sz < 2 ^ 32"
    and n: "n = min (unat sz) (unat (file_size f) - unat (file_pos f))"
    and q: "q = cursor_byte p j (unat (file_pos f))" and "q + n \<le> capacity p cs"
    and buf: "n \<le> length buf" "length buf < 2 ^ 31"
  shows "\<exists>s'. fat_read fd buf sz s = Some (int n, file_bytes p B cs q n @ drop n buf, s') \<and> fat_errno s' = OK \<and>
    (\<exists>d. disk_holds B d \<and> s' = update_file fd (\<lambda>f. f\<lparr>
       current_cluster := cs ! ((if n = 0 then q else q + n - 1) div 512 div spc p), file_pos := file_pos f + of_nat n\<rparr>) (s\<lparr>dev := d\<rparr>))"
proof -
  note h = opened [unfolded file_at_def Let_def, folded f p]
  have holds: "fat_holds B s" and chain: "file_chain p B cs" and err: "fd_error fd s = None"
    and cluster: "current_cluster f = cs ! j" using h by auto
  have g: "geometry p" using holds p by (simp add: fat_holds_def)
  have fd: "valid_fd fd s" using h fd_error_valid by blast
  have le: "unat (file_pos f) \<le> unat (file_size f)" using h by (simp add: word_le_nat_alt)
  define sz' where "sz' = (if file_pos f + sz > file_size f then file_size f - file_pos f else sz)"
  have sz': "sz' = of_nat n"
  proof -
    have "unat (file_size f - file_pos f) = unat (file_size f) - unat (file_pos f)"
      using le by (intro unat_sub) (simp add: word_le_nat_alt)
    then have "unat sz' = n" using unat_plus_u32 [OF nowrap] n le by (auto simp: sz'_def word_less_nat_alt min_def)
    then show ?thesis by auto
  qed
  have start: "counts_at p cs q (start_counters p f sz')" unfolding q by (rule counts_at_start [OF g cluster])
  have qj: "q div 512 div spc p = j" unfolding q by (rule cursor_byte_div(2) [OF spc_pos [OF g]])
  have "cursor_at fd (cs ! (q div 512 div spc p)) B s (set_errno OK s)"
    unfolding qj cluster [symmetric] f by (rule cursor_at_start [OF holds fd])
  then obtain k' s1 where loop: "loop_until (read_step fd) (start_counters p f sz', buf, set_errno OK s) =
      Some ((), k', file_bytes p B cs q n @ drop n buf, s1)" "moved k' = of_nat n" "fat_errno s1 = OK"
    "cursor_at fd (cs ! ((if n = 0 then q else q + n - 1) div 512 div spc p)) B s s1"
    using read_loop [OF _ p g fd chain start, of "set_errno OK s" 0 n buf] buf assms(7)
    by (auto simp: start_counters_def sz')
  have moved: "sint (moved k') = int n"
  proof -
    have "n < 2 ^ 31" using buf by simp
    then show ?thesis unfolding loop(2) by (simp add: signed_of_nat signed_take_bit_int_eq_self)
  qed
  have "fat_read fd buf sz s = Some (int n, file_bytes p B cs q n @ drop n buf,
      update_file fd (\<lambda>f. f\<lparr>file_pos := file_pos f + moved k'\<rparr>) s1)"
    using loop(1) moved by (simp add: fat_read_def err f [symmetric] p [symmetric] sz'_def [symmetric])
  moreover obtain d where "disk_holds B d" "s1 = update_file fd (\<lambda>f. f\<lparr>current_cluster :=
      cs ! ((if n = 0 then q else q + n - 1) div 512 div spc p)\<rparr>) (s\<lparr>dev := d\<rparr>)"
    using loop(4) by (auto simp: cursor_at_def)
  ultimately show ?thesis using loop(2,3) fd
    by (intro exI [of _ "update_file fd (\<lambda>f. f\<lparr>file_pos := file_pos f + moved k'\<rparr>) s1"])
      (auto simp: update_file_def open_file_def valid_fd_def fat_errno_def intro!: exI [of _ d])
qed

section \<open>Seeking\<close>

lemma seek_clusters_result:
  assumes "fat_holds B s" and "p = fat_pinfo s" and "file_chain p B cs" and "j + n < length cs" and "fat_errno s = OK"
  shows "\<exists>s'. seek_clusters n (cs ! j) s = Some (True, cs ! (j + n), s') \<and> fat_after B s s' \<and> fat_errno s' = OK"
  using assms
proof (induction n arbitrary: j s)
  case 0
  then show ?case by (simp add: fat_after_refl)
next
  case (Suc n)
  note nth = file_chain_nth [OF Suc.prems(3), of j]
  have j: "Suc j < length cs" using Suc.prems(4) by simp
  have "unat (cs ! j) < table_size (fat_pinfo s)"
    using file_chain_data [OF Suc.prems(3), of j] j Suc.prems(2) by (simp add: data_cluster_def)
  then obtain s1 where s1: "fat_get_table_value (cs ! j) s = Some (Some (cs ! Suc j), s1)"
    "fat_after B s s1" "fat_holds B s1" "fat_errno s1 = OK"
    using get_table_value [OF Suc.prems(1)] Suc.prems(2) nth(1) [OF j] by metis
  have "p = fat_pinfo s1" using s1(2) Suc.prems(2) by (simp add: state_simps)
  then obtain s2 where "seek_clusters n (cs ! Suc j) s1 = Some (True, cs ! (Suc j + n), s2)" "fat_after B s1 s2" "fat_errno s2 = OK"
    using Suc.IH [OF s1(3) _ Suc.prems(3), of "Suc j"] Suc.prems(4) s1(4) by auto
  with s1 nth [OF j] fat_after_trans [OF s1(2)] show ?case by auto
qed

lemma seek_clusters_end:
  assumes "fat_holds B s" and "p = fat_pinfo s" and "file_chain p B cs" and "j < length cs" and "length cs \<le> j + n"
  shows "\<exists>c s'. seek_clusters n (cs ! j) s = Some (False, c, s') \<and> fat_after B s s' \<and> fat_errno s' = OK"
  using assms
proof (induction n arbitrary: j s)
  case (Suc n)
  have "unat (cs ! j) < table_size (fat_pinfo s)"
    using file_chain_data [OF Suc.prems(3,4)] Suc.prems(2) by (simp add: data_cluster_def)
  then obtain s1 where s1: "fat_get_table_value (cs ! j) s = Some (Some (fat_entry p B (cs ! j)), s1)"
    "fat_after B s s1" "fat_holds B s1" "fat_errno s1 = OK"
    using get_table_value [OF Suc.prems(1)] Suc.prems(2) by metis
  have p1: "p = fat_pinfo s1" using s1(2) Suc.prems(2) by (simp add: state_simps)
  show ?case
  proof (cases "Suc j < length cs")
    case True
    note nth = file_chain_nth [OF Suc.prems(3) True]
    from Suc.IH [OF s1(3) p1 Suc.prems(3) True] Suc.prems(5) obtain c s2 where
      "seek_clusters n (cs ! Suc j) s1 = Some (False, c, s2)" "fat_after B s1 s2" "fat_errno s2 = OK" by auto
    with s1(1) nth fat_after_trans [OF s1(2)] show ?thesis by auto
  next
    case False
    with Suc.prems(4) have "cs ! j = last cs" by (metis Suc_lessI diff_Suc_1 last_conv_nth length_0_conv not_less_zero)
    moreover have "FAT_TV_LAST (fat_entry p B (last cs))"
    proof -
      have "chain h cs \<Longrightarrow> FAT_TV_LAST (h (last cs))" for h by (induction h cs rule: chain.induct) auto
      with Suc.prems(3) show ?thesis by (auto simp: file_chain_def)
    qed
    ultimately have "FAT_TV_LAST (fat_entry p B (cs ! j))" by simp
    then have "\<not> FAT_TV_BAD (fat_entry p B (cs ! j))" "FAT_TV_LAST (fat_entry p B (cs ! j))"
      by (auto simp: FAT_TV_LAST_def FAT_TV_BAD_def)
    with s1 show ?thesis by auto
  qed
qed simp

lemma cluster_bytes:
  assumes "geometry p"
  shows "unat (bytes_per_sector p * sectors_per_cluster p) = 512 * spc p"
  using assms by (subst unat_times_u32) (auto simp: geometry_def spc_def)

lemma pos_cluster: "pos div 512 div spc p = pos div (512 * spc p)"
  by (simp add: div_mult2_eq)

lemma forward_clusters:
  fixes a b m :: nat
  assumes "a \<le> b" and "0 < m"
  shows "a div m + (a mod m + (b - a)) div m = b div m"
proof -
  have "b = a div m * m + (a mod m + (b - a))" using assms(1) by simp
  then have "b div m = (a div m * m + (a mod m + (b - a))) div m" by simp
  also have "\<dots> = a div m + (a mod m + (b - a)) div m" using assms(2) by (subst div_mult_self3) simp_all
  finally show ?thesis by simp
qed

text \<open>The walk a seek makes: from the current cluster forward, or from the first one.\<close>

lemma seek_walk:
  assumes opened: "file_at fd B cs j s" and f: "f = open_file fd s" and p: "p = fat_pinfo s"
    and right: "a \<le> file_pos f \<or> j = unat (file_pos f) div 512 div spc p"
    and w: "w = (let m = bytes_per_sector p * sectors_per_cluster p in
      if a > file_pos f then ((file_pos f mod m + (a - file_pos f)) div m, current_cluster f) else (a div m, start_cluster f))"
  shows "\<exists>i. snd w = cs ! i \<and> i < length cs \<and> i + unat (fst w) = unat a div 512 div spc p"
proof -
  note h = opened [unfolded file_at_def Let_def, folded f p]
  have g: "geometry p" using h by (simp add: fat_holds_def p)
  have ne: "cs \<noteq> []" using h by auto
  define m where "m = bytes_per_sector p * sectors_per_cluster p"
  have m: "unat m = 512 * spc p" "0 < unat m" using cluster_bytes [OF g] spc_pos [OF g] by (simp_all add: m_def)
  show ?thesis
  proof (cases "a > file_pos f")
    case True
    then have "\<not> a \<le> file_pos f" by simp
    then have j: "j = unat (file_pos f) div (unat m)" using right by (simp add: m pos_cluster)
    have less: "unat (file_pos f) < unat a" using True by (simp add: word_less_nat_alt)
    then have diff: "unat (a - file_pos f) = unat a - unat (file_pos f)" by (intro unat_sub) (simp add: word_le_nat_alt)
    have "unat (file_pos f) mod unat m + (unat a - unat (file_pos f)) \<le> unat a"
      using less by (metis add.commute add_le_cancel_left le_add_diff_inverse2 less_imp_le_nat mod_less_eq_dividend)
    moreover have "unat a < 2 ^ 32" using unsigned_less [of a] by simp
    ultimately have "unat (file_pos f mod m + (a - file_pos f)) = unat (file_pos f) mod unat m + (unat a - unat (file_pos f))"
      by (subst unat_plus_u32) (simp_all add: unat_mod diff)
    then have "j + unat ((file_pos f mod m + (a - file_pos f)) div m) = unat a div unat m"
      using forward_clusters [of "unat (file_pos f)" "unat a" "unat m"] less m(2) by (simp add: unat_div j)
    with h True show ?thesis unfolding w Let_def m_def [symmetric] by (intro exI [of _ j]) (simp add: m pos_cluster)
  next
    case False
    with h ne show ?thesis unfolding w Let_def m_def [symmetric]
      by (intro exI [of _ 0]) (simp add: unat_div m pos_cluster hd_conv_nth)
  qed
qed

lemma fat_lseek_result:
  assumes opened: "file_at fd B cs j s" and f: "f = open_file fd s" and p: "p = fat_pinfo s"
    and target: "seek_target f pos whence = Some a" "0 \<le> sint a" "a \<le> file_size f"
    and right: "a \<le> file_pos f \<or> j = unat (file_pos f) div 512 div spc p"
    and t: "t = unat a div 512 div spc p"
  shows "if t < length cs
    then \<exists>s'. fat_lseek fd pos whence s = Some (sint a, s') \<and> fat_errno s' = OK \<and> file_at fd B cs t s' \<and>
      open_file fd s' = f\<lparr>current_cluster := cs ! t, file_pos := a\<rparr> \<and>
      (\<exists>d. s' = update_file fd (\<lambda>f. f\<lparr>current_cluster := cs ! t, file_pos := a\<rparr>) (s\<lparr>dev := d\<rparr>))
    else \<exists>s'. fat_lseek fd pos whence s = Some (FAT_FAIL, s') \<and> fat_errno s' = OK \<and> fat_after B s s'"
proof -
  note h = opened [unfolded file_at_def Let_def, folded f p]
  have holds: "fat_holds B s" and chain: "file_chain p B cs" and err: "fd_error fd s = None" using h by auto
  have fd: "valid_fd fd s" using h fd_error_valid by blast
  obtain n c where w: "(n, c) = (let m = bytes_per_sector p * sectors_per_cluster p in
      if a > file_pos f then ((file_pos f mod m + (a - file_pos f)) div m, current_cluster f) else (a div m, start_cluster f))"
    by (metis surj_pair)
  obtain i where i: "c = cs ! i" "i < length cs" "i + unat n = t"
    using seek_walk [OF opened f p right w] t by auto
  have holds0: "fat_holds B (set_errno OK s)" and p0: "p = fat_pinfo (set_errno OK s)" using holds p by simp_all
  have lseek: "fat_lseek fd pos whence s = do {
      (go_on, c, s) \<leftarrow> seek_clusters (unat n) c (set_errno OK s);
      Some (if \<not> go_on then (FAT_FAIL, s)
            else (sint a, set_errno OK (update_file fd (\<lambda>f. f\<lparr>current_cluster := c, file_pos := a\<rparr>) s))) }"
    using target(1) target(2,3) [THEN leD] w
    by (simp add: fat_lseek_def err f [symmetric] p [symmetric] Let_def split: if_splits)
  show ?thesis
  proof (cases "t < length cs")
    case True
    then obtain s1 where s1: "seek_clusters (unat n) (cs ! i) (set_errno OK s) = Some (True, cs ! t, s1)"
      "fat_after B (set_errno OK s) s1" "fat_errno s1 = OK"
      using seek_clusters_result [OF holds0 p0 chain, of i "unat n"] i by auto
    then obtain d where d: "s1 = s\<lparr>dev := d\<rparr>" "disk_holds B d" by (auto simp: fat_after_def set_errno_def)
    define s2 where "s2 = set_errno OK (update_file fd (\<lambda>f. f\<lparr>current_cluster := cs ! t, file_pos := a\<rparr>) s1)"
    have "open_file fd s2 = f\<lparr>current_cluster := cs ! t, file_pos := a\<rparr>"
      using fd by (simp add: s2_def d f open_file_def update_file_def set_errno_def valid_fd_def)
    moreover from this have "file_at fd B cs t s2"
      using h True target(3) d unfolding file_at_def Let_def
      by (simp add: s2_def p [symmetric] f [symmetric] fd_error_def fat_holds_def set_errno_def update_file_def split: if_splits)
    moreover have "s2 = update_file fd (\<lambda>f. f\<lparr>current_cluster := cs ! t, file_pos := a\<rparr>) (s\<lparr>dev := d\<lparr>errno := OK\<rparr>\<rparr>)"
      by (simp add: s2_def d update_file_def set_errno_def open_file_def state_updates)
    ultimately show ?thesis using True s1 i unfolding lseek s2_def by (auto simp: i(1) fat_errno_def)
  next
    case False
    then obtain c' s1 where "seek_clusters (unat n) (cs ! i) (set_errno OK s) = Some (False, c', s1)"
      "fat_after B (set_errno OK s) s1" "fat_errno s1 = OK"
      using seek_clusters_end [OF holds0 p0 chain, of i "unat n"] i by auto
    with False i show ?thesis unfolding lseek by (auto simp: i(1) fat_after_def set_errno_def)
  qed
qed

end
