(* ===== verification/Fat_Write.thy ===== *)
theory Fat_Write
  imports Fat_Content
begin

text \<open>
  Writing to a file: the bytes arrive where the position is, the chain grows as needed, and nothing
  else on the disk changes but the entry of the file in its directory.
\<close>

section \<open>What a write may change\<close>

text \<open>
  The blocks outside the clusters \<open>cs\<close>, and their entries in the table, are as before; \<open>D\<close> is a block
  that may differ.
\<close>

definition agrees :: "fat_partition_info \<Rightarrow> u32 list \<Rightarrow> u32 set \<Rightarrow> blocks \<Rightarrow> blocks \<Rightarrow> bool" where
  "agrees p cs D B B' \<longleftrightarrow>
     (\<forall>c. unat c < table_size p \<and> c \<notin> set cs \<longrightarrow> fat_entry p B' c = fat_entry p B c) \<and>
     (\<forall>c k. data_cluster p c \<and> c \<notin> set cs \<and> k < spc p \<and> fat_first_sector_of_cluster p c + of_nat k \<notin> D \<longrightarrow>
        B' (fat_first_sector_of_cluster p c + of_nat k) = B (fat_first_sector_of_cluster p c + of_nat k))"

text \<open>The bytes from \<open>from\<close> on are those of \<open>buf\<close>, up to \<open>n\<close>, the other ones as before.\<close>

definition overwritten ::
  "fat_partition_info \<Rightarrow> nat \<Rightarrow> nat \<Rightarrow> u8 list \<Rightarrow> u32 list \<Rightarrow> blocks \<Rightarrow> u32 list \<Rightarrow> blocks \<Rightarrow> bool" where
  "overwritten p from n buf cs B cs' B' \<longleftrightarrow>
     (\<forall>i < n. file_byte p B' cs' (from + i) = buf ! i) \<and>
     (\<forall>i < capacity p cs. i < from \<or> from + n \<le> i \<longrightarrow> file_byte p B' cs' i = file_byte p B cs i)"

text \<open>Two sectors of a file are different, and different from those of the table and of other clusters.\<close>

lemma sector_at_data:
  assumes "geometry p" and "file_chain p B cs" and "m < spc p * length cs"
  shows "data_cluster p (cs ! (m div spc p))" and "m div spc p < length cs" and "m mod spc p < spc p"
proof -
  show l: "m div spc p < length cs" using assms(3) by (simp add: less_mult_imp_div_less ac_simps)
  then show "data_cluster p (cs ! (m div spc p))" using file_chain_data [OF assms(2)] by blast
  show "m mod spc p < spc p" using spc_pos [OF assms(1)] by simp
qed

lemma sector_at_inj:
  assumes "geometry p" and "file_chain p B cs" and "m < spc p * length cs" and "l < spc p * length cs"
    and "sector_at p cs m = sector_at p cs l"
  shows "m = l"
proof -
  note m = sector_at_data [OF assms(1-3)] and l = sector_at_data [OF assms(1,2,4)]
  have "cs ! (m div spc p) = cs ! (l div spc p) \<and> m mod spc p = l mod spc p"
    using data_sector_inj [OF assms(1) m(1) l(1) m(3) l(3)] assms(5) by (simp add: sector_at_def)
  moreover have "distinct cs" using assms(2) chain_distinct by (auto simp: file_chain_def)
  ultimately have "m div spc p = l div spc p" and "m mod spc p = l mod spc p"
    using m(2) l(2) nth_eq_iff_index_eq by auto
  then show ?thesis by (metis div_mult_mod_eq)
qed

lemma sector_at_not_table:
  assumes "geometry p" and "file_chain p B cs" and "m < spc p * length cs" and "unat c < table_size p"
  shows "sector_at p cs m \<noteq> fat_sector p c"
  using data_sector_not_table [OF assms(1) sector_at_data(1,3) [OF assms(1-3)] assms(4)]
  by (simp add: sector_at_def)

lemma sector_at_other:
  assumes "geometry p" and "file_chain p B cs" and "m < spc p * length cs" and "data_cluster p c" and "c \<notin> set cs"
    and "k < spc p"
  shows "fat_first_sector_of_cluster p c + of_nat k \<noteq> sector_at p cs m"
proof
  assume "fat_first_sector_of_cluster p c + of_nat k = sector_at p cs m"
  with data_sector_inj [OF assms(1,4) sector_at_data(1) [OF assms(1-3)] assms(6) sector_at_data(3) [OF assms(1-3)]]
  have "c = cs ! (m div spc p)" by (simp add: sector_at_def)
  with sector_at_data(2) [OF assms(1-3)] assms(5) show False by simp
qed

lemma fat_entry_other_block:
  assumes "\<And>c. unat c < table_size p \<Longrightarrow> a \<noteq> fat_sector p c" and "unat c < table_size p"
  shows "fat_entry p (B(a := b)) c = fat_entry p B c"
  using assms by (auto simp: fat_entry_def)

lemma file_chain_cong:
  assumes "\<And>c. c \<in> set cs \<Longrightarrow> fat_entry p B' c = fat_entry p B c" and "file_chain p B cs"
  shows "file_chain p B' cs"
  using assms chain_frame [of cs "fat_entry p B'" "fat_entry p B"] by (auto simp: file_chain_def)

lemma file_chain_table: "file_chain p B cs \<Longrightarrow> c \<in> set cs \<Longrightarrow> unat c < table_size p"
  by (auto simp: file_chain_def data_cluster_def)

section \<open>Writing a part of a sector\<close>

definition spliced :: "nat \<Rightarrow> u8 list \<Rightarrow> u8 list \<Rightarrow> u8 list" where
  "spliced k new b = take k b @ new @ drop (k + length new) b"

lemma spliced_nth:
  "k + length new \<le> length b \<Longrightarrow> i < length b \<Longrightarrow>
    spliced k new b ! i = (if k \<le> i \<and> i < k + length new then new ! (i - k) else b ! i)"
  by (auto simp: spliced_def nth_append min_def)

lemma length_spliced [simp]: "k + length new \<le> length b \<Longrightarrow> length (spliced k new b) = length b"
  by (simp add: spliced_def)

text \<open>The bytes of the file after one of its sectors was changed.\<close>

lemma file_byte_put:
  assumes g: "geometry p" and cs: "file_chain p B cs" and len: "\<And>a. length (B a) = 512"
    and q: "q < capacity p cs" and new: "q mod 512 + length new \<le> 512" and i: "i < capacity p cs"
  shows "file_byte p (B(sector_at p cs (q div 512) := spliced (q mod 512) new (B (sector_at p cs (q div 512))))) cs i =
    (if q \<le> i \<and> i < q + length new then new ! (i - q) else file_byte p B cs i)"
proof -
  have small: "q div 512 < spc p * length cs" "i div 512 < spc p * length cs"
    using q i by (simp_all add: capacity_def less_mult_imp_div_less ac_simps)
  have split: "q = 512 * (q div 512) + q mod 512" "i = 512 * (i div 512) + i mod 512" by simp_all
  show ?thesis
  proof (cases "i div 512 = q div 512")
    case True
    then have "q \<le> i \<and> i < q + length new \<longleftrightarrow> q mod 512 \<le> i mod 512 \<and> i mod 512 < q mod 512 + length new"
      using split by linarith
    moreover have "i - q = i mod 512 - q mod 512" using split True by linarith
    ultimately show ?thesis using True new len by (simp add: file_byte_def spliced_nth)
  next
    case False
    then have "sector_at p cs (i div 512) \<noteq> sector_at p cs (q div 512)"
      using sector_at_inj [OF g cs small(2,1)] by auto
    moreover have "\<not> (q \<le> i \<and> i < q + length new)"
    proof
      assume "q \<le> i \<and> i < q + length new"
      then have "q mod 512 + (i - q) < 512" "i = q + (i - q)" using new by auto
      with same_sector [of q "i - q"] False show False by simp
    qed
    ultimately show ?thesis by (auto simp: file_byte_def)
  qed
qed

lemma write_chunk_result:
  assumes holds: "fat_holds B s" and n: "0 < n" "q mod 512 + n \<le> 512" and "got + n \<le> length buf" and "length buf < 2 ^ 32"
  obtains s' where "write_chunk a (of_nat (q mod 512)) (of_nat n) (of_nat got) buf s = Some (True, s')"
    and "fat_after (B(a := spliced (q mod 512) (take n (drop got buf)) (B a))) s s'"
    and "fat_holds (B(a := spliced (q mod 512) (take n (drop got buf)) (B a))) s'" and "fat_errno s' = OK"
proof -
  have bps: "bytes_per_sector (fat_pinfo s) = 512" using holds by (simp add: fat_holds_def geometry_def)
  have len: "length (B a) = 512" using holds by (rule holds_length)
  have nats: "unat (of_nat n :: u32) = n" "unat (of_nat got :: u32) = got" "unat (of_nat (q mod 512) :: u32) = q mod 512"
    using assms by (auto intro!: unat_of_nat_word)
  have part: "(of_nat n :: u32) < 512 \<longleftrightarrow> n < 512" by (simp add: word_less_nat_alt nats)
  let ?new = "spliced (q mod 512) (take n (drop got buf)) (B a)"
  have new: "length ?new = 512" using n assms(4) len by simp
  show thesis
  proof (cases "n < 512")
    case True
    obtain s1 where s1: "fat_read_single_block a (sector_buffer s) s = Some (True, B a, s1)" "fat_after B s s1" "fat_holds B s1"
      using fat_read_sector [OF holds length_sector_buffer [OF holds]] by metis
    obtain s2 where s2: "fat_write_single_block a ?new s1 = Some (True, s2)" "fat_after (B(a := ?new)) s1 s2"
      "fat_holds (B(a := ?new)) s2" "fat_errno s2 = OK"
      using fat_write_sector [OF s1(3) new] by metis
    have "memcpy (B a) (q mod 512) buf got n = Some ?new"
      using n assms(4) len by (simp add: memcpy_def spliced_def)
    with True s1(1) s2(1) have "write_chunk a (of_nat (q mod 512)) (of_nat n) (of_nat got) buf s = Some (True, s2)"
      by (simp add: write_chunk_def bps part nats)
    with that s2 fat_after_trans [OF s1(2) s2(2)] show thesis by blast
  next
    case False
    with n have n: "n = 512" "q mod 512 = 0" by auto
    have new': "?new = take 512 (drop got buf)" using n assms(4) len by (simp add: spliced_def)
    obtain s2 where "fat_write_single_block a (drop got buf) s = Some (True, s2)" "fat_after (B(a := ?new)) s s2"
      "fat_holds (B(a := ?new)) s2" "fat_errno s2 = OK"
      by (rule fat_write_block [OF holds, of "drop got buf" a]) (use assms(4) n new' in simp_all)
    with n that nats show thesis by (simp add: write_chunk_def bps)
  qed
qed

section \<open>Going on, and growing\<close>

text \<open>
  The state of the loop after \<open>got\<close> bytes: the chain may have grown by clusters that were free, the
  bytes are in place, nothing else has changed.
\<close>

definition grown :: "fat_partition_info \<Rightarrow> blocks \<Rightarrow> u32 list \<Rightarrow> u32 list \<Rightarrow> bool" where
  "grown p B cs cs' \<longleftrightarrow> (\<exists>new. cs' = cs @ new \<and> (\<forall>c \<in> set new. free_cluster p B c))"

definition writing ::
  "fat_partition_info \<Rightarrow> nat \<Rightarrow> u8 list \<Rightarrow> u32 list \<Rightarrow> blocks \<Rightarrow> nat \<Rightarrow> u32 list \<Rightarrow> blocks \<Rightarrow> bool" where
  "writing p from buf cs B got cs' B' \<longleftrightarrow>
     file_chain p B' cs' \<and> grown p B cs cs' \<and> agrees p cs' {} B B' \<and> overwritten p from got buf cs B cs' B'"

lemma grown_refl: "grown p B cs cs"
  by (simp add: grown_def)

lemma grown_length: "grown p B cs cs' \<Longrightarrow> length cs \<le> length cs'"
  by (auto simp: grown_def)

text \<open>Entry 1 of the table is reserved, so no file gets the cluster 1.\<close>

lemma free_data_cluster: "free_cluster p B c \<Longrightarrow> fat_entry p B 1 \<noteq> 0 \<Longrightarrow> data_cluster p c"
proof -
  assume c: "free_cluster p B c" "fat_entry p B 1 \<noteq> 0"
  then have "c \<noteq> 0" "c \<noteq> 1" by (auto simp: free_cluster_def)
  then have "2 \<le> unat c" by (auto simp: word_unat_eq_iff)
  with c show ?thesis by (simp add: data_cluster_def free_cluster_def)
qed

lemma sector_room:
  fixes q n c :: nat
  assumes "q < 512 * c" and "q mod 512 + n \<le> 512"
  shows "q + n \<le> 512 * c"
proof -
  define a b where "a = q div 512" and "b = q mod 512"
  have "a < c" using assms(1) by (simp add: a_def less_mult_imp_div_less ac_simps)
  moreover have "q = 512 * a + b" by (simp add: a_def b_def)
  moreover have "b + n \<le> 512" using assms(2) by (simp add: b_def)
  ultimately show ?thesis by simp
qed

lemma writing_put:
  assumes w: "writing p from buf cs B got cs' B'" and g: "geometry p" and len: "\<And>a. length (B' a) = 512"
    and q: "q = from + got" "q < capacity p cs'" and n: "q mod 512 + n \<le> 512" "got + n \<le> length buf"
  shows "writing p from buf cs B (got + n) cs'
    (B'(sector_at p cs' (q div 512) := spliced (q mod 512) (take n (drop got buf)) (B' (sector_at p cs' (q div 512)))))"
    (is "writing p from buf cs B (got + n) cs' ?B")
proof -
  note w' = w [unfolded writing_def]
  have cs': "file_chain p B' cs'" and gr: "grown p B cs cs'" using w' by auto
  have small: "q div 512 < spc p * length cs'" using q(2) by (simp add: capacity_def less_mult_imp_div_less ac_simps)
  have entry: "fat_entry p ?B c = fat_entry p B' c" if "unat c < table_size p" for c
    using fat_entry_other_block [OF sector_at_not_table [OF g cs' small] that] .
  have new: "length (take n (drop got buf)) = n" using n(2) by simp
  have byte: "file_byte p ?B cs' i = (if q \<le> i \<and> i < q + n then buf ! (got + (i - q)) else file_byte p B' cs' i)"
    if "i < capacity p cs'" for i
    using file_byte_put [OF g cs' len q(2) _ that, of "take n (drop got buf)"] n that by (auto simp: new)
  have room: "q + n \<le> capacity p cs'" using sector_room [of q "spc p * length cs'" n] q(2) n(1) by (simp add: capacity_def)
  have cap: "capacity p cs \<le> capacity p cs'" using grown_length [OF gr] by (simp add: capacity_def)
  have "file_chain p ?B cs'" using file_chain_cong [OF entry cs'] file_chain_table [OF cs'] by blast
  moreover have "agrees p cs' {} B ?B"
    using w' entry sector_at_other [OF g cs' small] by (auto simp: agrees_def)
  moreover have "overwritten p from (got + n) buf cs B cs' ?B"
    unfolding overwritten_def
  proof (intro conjI allI impI)
    fix i assume i: "i < got + n"
    then have here: "from + i < capacity p cs'" using room q(1) by simp
    show "file_byte p ?B cs' (from + i) = buf ! i"
      unfolding byte [OF here] using i w' q(1) by (auto simp: overwritten_def)
  next
    fix i assume i: "i < capacity p cs" and "i < from \<or> from + (got + n) \<le> i"
    moreover from i cap have "i < capacity p cs'" by simp
    ultimately show "file_byte p ?B cs' i = file_byte p B cs i"
      unfolding byte [OF \<open>i < capacity p cs'\<close>] using w' q(1) by (auto simp: overwritten_def)
  qed
  ultimately show ?thesis using gr by (simp add: writing_def)
qed

lemma file_byte_claimed:
  assumes g: "geometry p" and cs: "file_chain p B cs" and i: "i < capacity p cs"
    and c: "unat c < table_size p" and new: "unat new < table_size p"
  shows "file_byte p (claimed p True c new B) (cs @ [new]) i = file_byte p B cs i"
proof -
  have small: "i div 512 < spc p * length cs" using i by (simp add: capacity_def less_mult_imp_div_less ac_simps)
  have "sector_at p (cs @ [new]) (i div 512) = sector_at p cs (i div 512)"
    using sector_at_data(2) [OF g cs small] by (simp add: sector_at_def nth_append)
  with sector_at_not_table [OF g cs small c] sector_at_not_table [OF g cs small new]
  show ?thesis by (simp add: file_byte_def claimed_def put_entry_other)
qed

lemma writing_extend:
  assumes w: "writing p from buf cs B got cs' B'" and g: "geometry p" and len: "\<And>a. length (B' a) = 512"
    and q: "from + got \<le> capacity p cs'" and c: "c = last cs'" and new: "free_cluster p B' new" "fat_entry p B' 1 \<noteq> 0"
  shows "writing p from buf cs B got (cs' @ [new]) (claimed p True c new B')" and "file_chain p (claimed p True c new B') (cs' @ [new])"
proof -
  note w' = w [unfolded writing_def]
  let ?B = "claimed p True c new B'"
  have cs': "file_chain p B' cs'" and gr: "grown p B cs cs'" and ag: "agrees p cs' {} B B'" using w' by auto
  have ne: "cs' \<noteq> []" using cs' by (auto simp: file_chain_def)
  then have c': "c \<in> set cs'" "unat c < table_size p" using c file_chain_table [OF cs'] by simp_all
  have nt: "unat new < table_size p" "fat_entry p B' new = 0" "new \<noteq> 0" using new(1) by (auto simp: free_cluster_def)
  have out: "new \<notin> set cs'" using chain_entry [of "fat_entry p B'" cs' new] cs' nt(2) by (auto simp: file_chain_def FAT_TV_FREE_def)
  have entries: "fat_entry p ?B = (fat_entry p B')(c := new, new := 0x0FFFFFFF)"
    using fat_entry_claimed [OF len g new(1), of True c] by simp
  have less: "new < 0x0FFFFFF7"
    using nt(1) g by (simp add: word_less_nat_alt table_size_def geometry_def)
  obtain xs where xs: "cs' = xs @ [c]" using ne c by (metis append_butlast_last_id)
  have chain: "file_chain p ?B (cs' @ [new])"
    using chain_extend [of "fat_entry p B'" xs c new] cs' nt less free_data_cluster [OF new]
    by (auto simp: file_chain_def entries xs)
  have "free_cluster p B new" using ag out nt by (simp add: free_cluster_def agrees_def)
  with gr have grown': "grown p B cs (cs' @ [new])" by (auto simp: grown_def)
  have "agrees p (cs' @ [new]) {} B ?B"
    unfolding agrees_def
  proof (intro conjI allI impI; elim conjE)
    fix d assume "unat d < table_size p" "d \<notin> set (cs' @ [new])"
    with ag c' show "fat_entry p ?B d = fat_entry p B d" by (auto simp: entries agrees_def)
  next
    fix d k assume d: "data_cluster p d" "d \<notin> set (cs' @ [new])" "k < spc p"
    then have "fat_first_sector_of_cluster p d + of_nat k \<noteq> fat_sector p c"
      "fat_first_sector_of_cluster p d + of_nat k \<noteq> fat_sector p new"
      using data_sector_not_table [OF g] c' nt by blast+
    with ag d show "?B (fat_first_sector_of_cluster p d + of_nat k) = B (fat_first_sector_of_cluster p d + of_nat k)"
      by (simp add: claimed_def put_entry_other agrees_def)
  qed
  moreover have "overwritten p from got buf cs B (cs' @ [new]) ?B"
  proof -
    have cap: "capacity p cs \<le> capacity p cs'" using grown_length [OF gr] by (simp add: capacity_def)
    have "file_byte p ?B (cs' @ [new]) i = file_byte p B' cs' i" if "i < capacity p cs'" for i
      using file_byte_claimed [OF g cs' that c'(2) nt(1)] .
    with w' q cap show ?thesis by (simp add: writing_def overwritten_def)
  qed
  ultimately show "writing p from buf cs B got (cs' @ [new]) ?B" using chain grown' by (simp add: writing_def)
  show "file_chain p ?B (cs' @ [new])" by (rule chain)
qed

lemma writing_reserved:
  assumes "writing p from buf cs B got cs' B'" and "geometry p"
  shows "fat_entry p B' 1 = fat_entry p B 1"
proof -
  have "1 \<notin> set cs'" using assms(1) by (auto simp: writing_def file_chain_def data_cluster_def)
  moreover have "unat (1 :: u32) < table_size p" using assms(2) by (simp add: geometry_def table_size_def word_unat_eq_iff)
  ultimately show ?thesis using assms(1) by (simp add: writing_def agrees_def)
qed

lemma chain_last: "chain h cs \<Longrightarrow> FAT_TV_LAST (h (last cs))"
  by (induction h cs rule: chain.induct) auto

lemma cursor_at_errno:
  assumes "cursor_at fd c B s s'"
  shows "cursor_at fd c B s (set_errno e s')"
proof -
  obtain d where "s' = update_file fd (\<lambda>f. f\<lparr>current_cluster := c\<rparr>) (s\<lparr>dev := d\<rparr>)" "disk_holds B d"
    using assms by (auto simp: cursor_at_def)
  then show ?thesis unfolding cursor_at_def
    by (intro exI [of _ "d\<lparr>errno := e\<rparr>"]) (simp add: set_errno_def update_file_def open_file_def state_updates)
qed

text \<open>Along a chain the next cluster is the next one; at its end a free one, or none.\<close>

lemma acquire_along:
  assumes holds: "fat_holds B s" and p: "p = fat_pinfo s" and cs: "file_chain p B cs" and j: "j < length cs"
  shows "\<exists>s' B' ok new. fat_acquire_next_cluster (cs ! j) True s = Some (ok, new, s') \<and> fat_after B' s s' \<and>
    (if Suc j < length cs then ok \<and> new = cs ! Suc j \<and> B' = B \<and> fat_errno s' = OK
     else if ok then free_cluster p B new \<and> B' = claimed p True (last cs) new B \<and> fat_errno s' = OK
     else new = last cs \<and> B' = B \<and> (\<forall>c. \<not> free_cluster p B c))"
proof -
  have "unat (cs ! j) < table_size p" using file_chain_data [OF cs j] by (simp add: data_cluster_def)
  note res = acquire_next_cluster_result [OF holds p this, of True]
  show ?thesis
  proof (cases "Suc j < length cs")
    case True
    note nth = file_chain_nth [OF cs True]
    from res nth True show ?thesis by (simp add: Let_def)
  next
    case False
    then have "cs ! j = last cs" using j by (metis Suc_lessI diff_Suc_1 last_conv_nth length_0_conv not_less_zero)
    moreover have "FAT_TV_LAST (fat_entry p B (last cs))" using chain_last cs by (auto simp: file_chain_def)
    moreover from this have "\<not> FAT_TV_BAD (fat_entry p B (last cs))" "\<not> FAT_TV_FREE (fat_entry p B (last cs))"
      by (auto simp: FAT_TV_LAST_def FAT_TV_BAD_def FAT_TV_FREE_def)
    ultimately show ?thesis using res False by (simp add: Let_def) metis
  qed
qed

lemma sector_boundary:
  fixes m n q' :: nat
  assumes "q' div 512 = Suc m" and "q' mod 512 = 0" and "0 < n"
  shows "q' = 512 * Suc m" and "Suc m div n < l \<Longrightarrow> q' < 512 * (n * l)"
proof -
  show "q' = 512 * Suc m" using assms(1,2) by (metis mult_div_mod_eq add.right_neutral)
  then show "q' < 512 * (n * l)" if "Suc m div n < l"
    using that assms(3) by (simp add: div_less_iff_less_mult ac_simps)
qed

text \<open>The next sector of the file that is being written, in the same cluster or another.\<close>

lemma write_advance_result:
  assumes w: "writing p from buf cs B got cs' B'" and cur: "cursor_at fd (cs' ! (q div 512 div spc p)) B' s0 s"
    and p: "p = fat_pinfo s0" and g: "geometry p" and fd: "valid_fd fd s0" and one: "fat_entry p B 1 \<noteq> 0"
    and k: "secoff k = of_nat (q div 512 mod spc p)" "secfirst k = fat_first_sector_of_cluster p (cs' ! (q div 512 div spc p))"
    and q': "q' = from + got" "q' div 512 = Suc (q div 512)" "q' mod 512 = 0" "q < capacity p cs'" and ok: "fat_errno s = OK"
  shows "\<exists>x k' s' cs'' B''. write_advance fd k s = Some (x, k', s') \<and> moved k' = moved k \<and> left_over k' = left_over k \<and>
    writing p from buf cs B got cs'' B'' \<and>
    (if x = None
     then secoff k' = of_nat (q' div 512 mod spc p) \<and> secfirst k' = fat_first_sector_of_cluster p (cs'' ! (q' div 512 div spc p)) \<and>
       cursor_at fd (cs'' ! (q' div 512 div spc p)) B'' s0 s' \<and> q' < capacity p cs'' \<and> fat_errno s' = OK
     else q' = capacity p cs'' \<and> (\<forall>c. \<not> free_cluster p B'' c) \<and> cursor_at fd (last cs'') B'' s0 s')"
proof (cases "Suc (q div 512 mod spc p) < spc p")
  case True
  have ps: "fat_pinfo s = p" using cur p by (simp add: cursor_at_fields)
  note spc = spc_pos [OF g] and m = next_sector(1) [OF spc_pos [OF g] True]
  have "write_advance fd k s = Some (None, k\<lparr>secoff := secoff k + 1\<rparr>, s)"
    using True k by (simp add: write_advance_def ps last_sector_word [OF spc] add.commute)
  moreover have "q' < capacity p cs'"
    unfolding capacity_def using sector_boundary(2) [OF q'(2,3) spc] capacity_index [OF q'(4)] m by simp
  ultimately show ?thesis using m k cur ok w
    by (intro exI [of _ None] exI [of _ "k\<lparr>secoff := secoff k + 1\<rparr>"] exI [of _ s] exI [of _ cs'] exI [of _ B'])
      (simp add: q'(2) add.commute)
next
  case False
  let ?j = "q div 512 div spc p"
  have ps: "fat_pinfo s = p" using cur p by (simp add: cursor_at_fields)
  note spc = spc_pos [OF g] and m = next_sector(2) [OF spc_pos [OF g] False]
  have cs': "file_chain p B' cs'" using w by (simp add: writing_def)
  have j: "?j < length cs'" using capacity_index [OF q'(4)] .
  have holds: "fat_holds B' s" using cursor_at_holds [OF cur] g p by simp
  have at: "current_cluster (open_file fd s) = cs' ! ?j" using cursor_at_file [OF cur fd] by simp
  obtain s1 B1 found new where acq: "fat_acquire_next_cluster (cs' ! ?j) True s = Some (found, new, s1)" and B1: "fat_after B1 s s1"
    and res: "if Suc ?j < length cs' then found \<and> new = cs' ! Suc ?j \<and> B1 = B' \<and> fat_errno s1 = OK
     else if found then free_cluster p B' new \<and> B1 = claimed p True (last cs') new B' \<and> fat_errno s1 = OK
     else new = last cs' \<and> B1 = B' \<and> (\<forall>c. \<not> free_cluster p B' c)"
    using acquire_along [OF holds ps [symmetric] cs' j] by blast
  define s2 where "s2 = update_file fd (\<lambda>f. f\<lparr>current_cluster := new\<rparr>) s1"
  have cur2: "cursor_at fd new B1 s0 s2" unfolding s2_def by (rule cursor_at_update [OF cursor_at_after [OF cur B1] fd])
  define k2 where "k2 = k\<lparr>secoff := 0, secfirst := fat_first_sector_of_cluster p new\<rparr>"
  have adv: "write_advance fd k s = Some (if \<not> found then (Some (), k\<lparr>secoff := secoff k + 1\<rparr>, set_errno ENOSPC s2) else (None, k2, s2))"
    using False k acq at by (simp add: write_advance_def ps last_sector_word [OF spc] add.commute s2_def k2_def)
  have err: "fat_errno s2 = fat_errno s1" by (simp add: s2_def)
  have at_q': "q' div 512 div spc p = Suc ?j" "q' div 512 mod spc p = 0" using m q'(2) by simp_all
  have room: "q' < capacity p cs'" if "Suc ?j < length cs'" for cs'
    unfolding capacity_def using sector_boundary(2) [OF q'(2,3) spc] m that by simp
  consider (follow) "Suc ?j < length cs'" | (extend) "length cs' = Suc ?j" "found" | (full) "length cs' = Suc ?j" "\<not> found"
    using Suc_lessI [OF j] by metis
  then show ?thesis
  proof cases
    case follow
    with res adv cur2 w err room [OF follow] show ?thesis
      by (intro exI [of _ None] exI [of _ k2] exI [of _ s2] exI [of _ cs'] exI [of _ B']) (simp add: at_q' k2_def)
  next
    case extend
    with res have new: "free_cluster p B' new" "B1 = claimed p True (last cs') new B'" "fat_errno s1 = OK" by simp_all
    have "fat_entry p B' 1 \<noteq> 0" using writing_reserved [OF w g] one by simp
    moreover have "q' \<le> capacity p cs'"
      using sector_boundary(1) [OF q'(2,3) spc] m extend(1) by (metis capacity_def div_mult_mod_eq add.right_neutral le_refl mult.commute)
    ultimately have "writing p from buf cs B got (cs' @ [new]) B1"
      unfolding new(2) using writing_extend(1) [OF w g holds_length [OF holds] _ refl new(1)] q'(1) by simp
    moreover have "(cs' @ [new]) ! Suc ?j = new" using extend(1) by (simp add: nth_append)
    ultimately show ?thesis using extend adv cur2 new(3) err room [of "cs' @ [new]"]
      by (intro exI [of _ None] exI [of _ k2] exI [of _ s2] exI [of _ "cs' @ [new]"] exI [of _ B1]) (simp add: at_q' k2_def)
  next
    case full
    with res have r: "new = last cs'" "B1 = B'" "\<forall>c. \<not> free_cluster p B' c" by simp_all
    have "q' = capacity p cs'"
      using sector_boundary(1) [OF q'(2,3) spc] m full(1) by (metis capacity_def div_mult_mod_eq add.right_neutral mult.commute)
    moreover have "cursor_at fd (last cs') B' s0 (set_errno ENOSPC s2)"
      using cur2 r by (simp add: cursor_at_errno)
    ultimately show ?thesis using full adv w r
      by (intro exI [of _ "Some ()"] exI [of _ "k\<lparr>secoff := secoff k + 1\<rparr>"] exI [of _ "set_errno ENOSPC s2"]
          exI [of _ cs'] exI [of _ B']) simp
  qed
qed

section \<open>The loop\<close>

text \<open>Where a round or the whole loop leaves the disk: at byte \<open>q\<close> of the file, or at the end of a full disk.\<close>

definition stands_at :: "int \<Rightarrow> fat_partition_info \<Rightarrow> nat \<Rightarrow> u32 list \<Rightarrow> blocks \<Rightarrow> fat_state \<Rightarrow> fat_state \<Rightarrow> bool" where
  "stands_at fd p q cs B s0 s \<longleftrightarrow> q < capacity p cs \<and> cursor_at fd (cs ! (q div 512 div spc p)) B s0 s"

definition disk_full :: "int \<Rightarrow> fat_partition_info \<Rightarrow> nat \<Rightarrow> u32 list \<Rightarrow> blocks \<Rightarrow> fat_state \<Rightarrow> fat_state \<Rightarrow> bool" where
  "disk_full fd p q cs B s0 s \<longleftrightarrow> q = capacity p cs \<and> (\<forall>c. \<not> free_cluster p B c) \<and> cursor_at fd (last cs) B s0 s"

lemma write_step_result:
  assumes w: "writing p from buf cs B got cs' B'" and at: "stands_at fd p q cs' B' s0 s"
    and p: "p = fat_pinfo s0" and g: "geometry p" and fd: "valid_fd fd s0" and one: "fat_entry p B 1 \<noteq> 0"
    and k: "counts_at p cs' q k" "moved k = of_nat got" "left_over k = of_nat left"
    and q: "q = from + got" and left: "0 < left" "got + left \<le> length buf" "length buf < 2 ^ 32"
    and n: "n = min (512 - q mod 512) left"
  shows "\<exists>x k1 s1 cs1 B1. write_step fd buf (k, s) = Some (x, k1, s1) \<and>
    moved k1 = of_nat (got + n) \<and> left_over k1 = of_nat (left - n) \<and> writing p from buf cs B (got + n) cs1 B1 \<and>
    (if x = None then (n < left \<longrightarrow> counts_at p cs1 (q + n) k1) \<and> stands_at fd p (q + n) cs1 B1 s0 s1 \<and> fat_errno s1 = OK
     else disk_full fd p (q + n) cs1 B1 s0 s1)"
proof -
  have cur: "cursor_at fd (cs' ! (q div 512 div spc p)) B' s0 s" and cap: "q < capacity p cs'"
    using at by (auto simp: stands_at_def)
  have ps: "fat_pinfo s = p" using cur p by (simp add: cursor_at_fields)
  have bps: "bytes_per_sector p = 512" using g by (rule geometryD)
  have holds: "fat_holds B' s" using cursor_at_holds [OF cur] g p by simp
  have n': "0 < n" "q mod 512 + n \<le> 512" "n \<le> left" using n left(1) mod_less_divisor [of 512 q] by auto
  have wrsz: "umin (512 - byteoff k) (left_over k) = of_nat n"
    using k left umin_words [of "q mod 512" left] by (simp add: counts_at_def n)
  have sector: "secfirst k + secoff k = sector_at p cs' (q div 512)" using k(1) by (simp add: counts_at_def sector_at_def)
  define B1 where "B1 = B'(sector_at p cs' (q div 512) := spliced (q mod 512) (take n (drop got buf)) (B' (sector_at p cs' (q div 512))))"
  have gn: "got + n \<le> length buf" using n'(3) left by simp
  obtain s1 where s1: "write_chunk (secfirst k + secoff k) (byteoff k) (of_nat n) (moved k) buf s = Some (True, s1)"
    "fat_after B1 s s1" "fat_errno s1 = OK"
    using write_chunk_result [OF holds n'(1,2) gn left(3), of "sector_at p cs' (q div 512)"] k
    by (auto simp: sector counts_at_def B1_def)
  have w1: "writing p from buf cs B (got + n) cs' B1"
    unfolding B1_def by (rule writing_put [OF w g holds_length [OF holds] q cap n'(2) gn])
  define k1 where "k1 = count_moved (of_nat n) k"
  have k1: "moved k1 = of_nat (got + n)" "left_over k1 = of_nat (left - n)" "secoff k1 = secoff k" "secfirst k1 = secfirst k"
    using counts_moved [OF k(2,3) n'(3)] by (simp_all add: k1_def count_moved_def)
  have cur1: "cursor_at fd (cs' ! (q div 512 div spc p)) B1 s0 s1" by (rule cursor_at_after [OF cur s1(2)])
  have nz: "left_over k \<noteq> 0" using positive_word [of left] left k(3) by simp
  have end': "byteoff k + of_nat n \<ge> (512 :: u32) \<longleftrightarrow> q mod 512 + n = 512"
  proof -
    have "byteoff k + of_nat n = (of_nat (q mod 512 + n) :: u32)" using k(1) by (simp add: counts_at_def)
    moreover have "unat (of_nat (q mod 512 + n) :: u32) = q mod 512 + n" using n'(2) by (intro unat_of_nat_word) simp
    ultimately show ?thesis using n'(2) by (auto simp: word_le_nat_alt)
  qed
  have step: "write_step fd buf (k, s) = do { (x, k', s) \<leftarrow> (if q mod 512 + n = 512 then write_advance fd k1 s1 else Some (None, k1, s1));
      Some (x, k'\<lparr>byteoff := 0\<rparr>, s) }"
    using s1(1) nz wrsz end' by (simp add: write_step_def ps bps Let_def k1_def)
  show ?thesis
  proof (cases "q mod 512 + n = 512")
    case True
    note q' = sector_end [OF n'(1) True]
    obtain x k2 s2 cs2 B2 where adv: "write_advance fd k1 s1 = Some (x, k2, s2)" "moved k2 = moved k1" "left_over k2 = left_over k1"
      and w2: "writing p from buf cs B (got + n) cs2 B2"
      and res: "if x = None
       then secoff k2 = of_nat ((q + n) div 512 mod spc p) \<and> secfirst k2 = fat_first_sector_of_cluster p (cs2 ! ((q + n) div 512 div spc p)) \<and>
         cursor_at fd (cs2 ! ((q + n) div 512 div spc p)) B2 s0 s2 \<and> q + n < capacity p cs2 \<and> fat_errno s2 = OK
       else q + n = capacity p cs2 \<and> (\<forall>c. \<not> free_cluster p B2 c) \<and> cursor_at fd (last cs2) B2 s0 s2"
      using write_advance_result [OF w1 cur1 p g fd one _ _ _ q'(2,1) cap s1(3), of k1] k(1) k1 q by (auto simp: counts_at_def)
    show ?thesis
      by (intro exI [of _ x] exI [of _ "k2\<lparr>byteoff := 0\<rparr>"] exI [of _ s2] exI [of _ cs2] exI [of _ B2])
        (use adv k1 w2 res True q'(1) in \<open>simp add: step counts_at_def stands_at_def disk_full_def\<close>)
  next
    case False
    then have "q mod 512 + n < 512" "n = left" using n n' by auto
    with same_sector [of q n] cur1 sector_room [of q "spc p * length cs'" "Suc n"] cap
    have "stands_at fd p (q + n) cs' B1 s0 s1" by (simp add: stands_at_def capacity_def)
    with False \<open>n = left\<close> k1 w1 s1(3) show ?thesis
      by (intro exI [of _ None] exI [of _ "k1\<lparr>byteoff := 0\<rparr>"] exI [of _ s1] exI [of _ cs'] exI [of _ B1]) (simp add: step)
  qed
qed

lemma write_rounds:
  assumes "writing p from buf cs B got cs' B'" and "stands_at fd p q cs' B' s0 s"
    and p: "p = fat_pinfo s0" and g: "geometry p" and fd: "valid_fd fd s0" and one: "fat_entry p B 1 \<noteq> 0"
    and "0 < left \<longrightarrow> counts_at p cs' q k" "moved k = of_nat got" "left_over k = of_nat left"
    and "q = from + got" and "got + left \<le> length buf" "length buf < 2 ^ 32"
  shows "\<exists>k1 s1 m cs1 B1. loop_until (write_step fd buf) (k, s) = Some ((), k1, s1) \<and> moved k1 = of_nat m \<and>
    got \<le> m \<and> m \<le> got + left \<and> writing p from buf cs B m cs1 B1 \<and>
    (m = got + left \<and> stands_at fd p (from + m) cs1 B1 s0 s1 \<or> disk_full fd p (from + m) cs1 B1 s0 s1)"
  using assms(1,2,7-)
proof (induction left arbitrary: q got k cs' B' s rule: less_induct)
  case (less left)
  show ?case
  proof (cases "left = 0")
    case True
    then have "loop_until (write_step fd buf) (k, s) = Some ((), k, s)"
      using less.prems(5) by (intro loop_until_exit) (simp add: write_step_def Let_def)
    with True less.prems show ?thesis
      by (intro exI [of _ k] exI [of _ s] exI [of _ got] exI [of _ cs'] exI [of _ B']) auto
  next
    case False
    define n where "n = min (512 - q mod 512) left"
    have n: "0 < n" "n \<le> left" using False mod_less_divisor [of 512 q] by (auto simp: n_def)
    have left: "0 < left" and k: "counts_at p cs' q k" using False less.prems(3) by simp_all
    obtain x k1 s1 cs1 B1 where step: "write_step fd buf (k, s) = Some (x, k1, s1)"
      and k1: "moved k1 = of_nat (got + n)" "left_over k1 = of_nat (left - n)" and w1: "writing p from buf cs B (got + n) cs1 B1"
      and res: "if x = None then (n < left \<longrightarrow> counts_at p cs1 (q + n) k1) \<and> stands_at fd p (q + n) cs1 B1 s0 s1 \<and> fat_errno s1 = OK
       else disk_full fd p (q + n) cs1 B1 s0 s1"
      using write_step_result [OF less.prems(1,2) p g fd one k less.prems(4-6) left less.prems(7,8) n_def] by blast
    show ?thesis
    proof (cases x)
      case None
      with res have r: "0 < left - n \<longrightarrow> counts_at p cs1 (q + n) k1" "stands_at fd p (q + n) cs1 B1 s0 s1" by simp_all
      have "left - n < left" "q + n = from + (got + n)" "got + n + (left - n) \<le> length buf"
        using n less.prems(6,7) by simp_all
      from less.IH [OF this(1) w1 r(2,1) k1 this(2,3) less.prems(8)] obtain k2 s2 m cs2 B2 where
        "loop_until (write_step fd buf) (k1, s1) = Some ((), k2, s2)" "moved k2 = of_nat m" "got + n \<le> m"
        "m \<le> got + n + (left - n)" "writing p from buf cs B m cs2 B2"
        "m = got + n + (left - n) \<and> stands_at fd p (from + m) cs2 B2 s0 s2 \<or> disk_full fd p (from + m) cs2 B2 s0 s2"
        by blast
      with n show ?thesis
        by (intro exI [of _ k2] exI [of _ s2] exI [of _ m] exI [of _ cs2] exI [of _ B2])
          (simp add: loop_until_next [where round = "write_step fd buf", OF step [unfolded None]])
    next
      case (Some u)
      with res have "disk_full fd p (from + (got + n)) cs1 B1 s0 s1" using less.prems(6) by (simp add: add.assoc)
      with Some step k1 w1 n show ?thesis
        by (intro exI [of _ k1] exI [of _ s1] exI [of _ "got + n"] exI [of _ cs1] exI [of _ B1]) (simp add: loop_until_exit)
    qed
  qed
qed

section \<open>The directory entry\<close>

definition dir_block :: "fat_partition_info \<Rightarrow> fat_dir_entry_idx \<Rightarrow> u32" where
  "dir_block p i = dir_sector i + fat_first_sector_of_cluster p (dir_cluster i)"

text \<open>A directory entry in a cluster of its own, which is in use.\<close>

definition dir_entry_ok :: "fat_partition_info \<Rightarrow> blocks \<Rightarrow> u32 list \<Rightarrow> fat_dir_entry_idx \<Rightarrow> bool" where
  "dir_entry_ok p B cs i \<longleftrightarrow> data_cluster p (dir_cluster i) \<and> unat (dir_sector i) < spc p \<and> unat (dir_index i) < 16 \<and>
     dir_cluster i \<notin> set cs \<and> fat_entry p B (dir_cluster i) \<noteq> 0"

lemma dir_block_sector: "dir_block p i = fat_first_sector_of_cluster p (dir_cluster i) + of_nat (unat (dir_sector i))"
  by (simp add: dir_block_def)

lemma dir_block_apart:
  assumes g: "geometry p" and cs: "file_chain p B' cs'" and dir: "dir_entry_ok p B cs i" and gr: "grown p B cs cs'"
  shows "unat c < table_size p \<Longrightarrow> dir_block p i \<noteq> fat_sector p c"
    and "m < spc p * length cs' \<Longrightarrow> dir_block p i \<noteq> sector_at p cs' m"
proof -
  note d = dir [unfolded dir_entry_ok_def]
  show "dir_block p i \<noteq> fat_sector p c" if "unat c < table_size p"
    unfolding dir_block_sector using data_sector_not_table [OF g _ _ that] d by blast
  have "dir_cluster i \<notin> set cs'" using d gr by (auto simp: grown_def free_cluster_def)
  then show "dir_block p i \<noteq> sector_at p cs' m" if "m < spc p * length cs'"
    unfolding dir_block_sector using sector_at_other [OF g cs that] d by blast
qed

definition size_recorded :: "fat_dir_entry_idx \<Rightarrow> u32 \<Rightarrow> u8 list \<Rightarrow> u8 list" where
  "size_recorded i sz b = fat_set_uint32 sz b (unat (dir_index i) * FAT_DIR_ENTRY_WIDTH + 0x1C)"

lemma length_size_recorded [simp]: "length (size_recorded i sz b) = length b"
  by (simp add: size_recorded_def)

lemma grow_file_result:
  assumes holds: "fat_holds B s" and p: "p = fat_pinfo s" and i: "i = file_dir_idx (open_file fd s)"
  shows "\<exists>d. grow_file fd sz s = Some (update_file fd (\<lambda>f. f\<lparr>file_size := sz\<rparr>) (s\<lparr>dev := d\<rparr>)) \<and>
    disk_holds (B(dir_block p i := size_recorded i sz (B (dir_block p i)))) d"
proof -
  obtain s1 where s1: "fat_read_single_block (dir_block p i) (sector_buffer s) s = Some (True, B (dir_block p i), s1)"
    "fat_after B s s1" "fat_holds B s1" "fat_errno s1 = OK"
    using fat_read_sector [OF holds length_sector_buffer [OF holds]] by metis
  define b where "b = size_recorded i sz (B (dir_block p i))"
  have len: "length b = 512" using holds_length [OF holds] by (simp add: b_def)
  obtain s2 where s2: "fat_write_single_block (dir_block p i) b s1 = Some (True, s2)" "fat_after (B(dir_block p i := b)) s1 s2"
    using fat_write_sector [OF s1(3) len] by metis
  have "grow_file fd sz s = Some (update_file fd (\<lambda>f. f\<lparr>file_size := sz\<rparr>) s2)"
    using s1 s2 by (simp add: grow_file_def Let_def dir_block_def p [symmetric] i [symmetric] b_def size_recorded_def)
  moreover obtain d where "s2 = s\<lparr>dev := d\<rparr>" "disk_holds (B(dir_block p i := b)) d"
    using fat_after_trans [OF s1(2) s2(2)] by (auto simp: fat_after_def)
  ultimately show ?thesis by (auto simp: b_def)
qed

text \<open>Changing the block of the directory entry leaves the file as it was written.\<close>

lemma writing_dir:
  fixes b :: "u8 list"
  assumes w: "writing p from buf cs B m cs' B'" and g: "geometry p" and dir: "dir_entry_ok p B cs i"
    and q: "from + m \<le> capacity p cs'"
  defines "B2 \<equiv> B'(dir_block p i := b)"
  shows "file_chain p B2 cs'" and "agrees p cs' {dir_block p i} B B2" and "overwritten p from m buf cs B cs' B2"
    and "free_cluster p B2 c = free_cluster p B' c"
proof -
  note w' = w [unfolded writing_def]
  have cs': "file_chain p B' cs'" and gr: "grown p B cs cs'" using w' by auto
  note apart = dir_block_apart [OF g cs' dir gr]
  have entry: "fat_entry p B2 c = fat_entry p B' c" if "unat c < table_size p" for c
    unfolding B2_def using fat_entry_other_block [OF apart(1) that] .
  show "file_chain p B2 cs'" using file_chain_cong [OF entry cs'] file_chain_table [OF cs'] by blast
  show "agrees p cs' {dir_block p i} B B2" using w' entry by (auto simp: agrees_def B2_def)
  show "free_cluster p B2 c = free_cluster p B' c" using entry by (auto simp: free_cluster_def)
  have byte: "file_byte p B2 cs' i = file_byte p B' cs' i" if "i < capacity p cs'" for i
    using apart(2) [of "i div 512"] that
    by (simp add: file_byte_def B2_def capacity_def less_mult_imp_div_less ac_simps)
  have "capacity p cs \<le> capacity p cs'" using grown_length [OF gr] by (simp add: capacity_def)
  with w' q show "overwritten p from m buf cs B cs' B2" by (simp add: overwritten_def byte)
qed

lemma writing_agrees: "writing p from buf cs B m cs' B' \<Longrightarrow> agrees p cs' D B B'"
  by (simp add: writing_def agrees_def)

lemma writing_start: "file_chain p B cs \<Longrightarrow> writing p from buf cs B 0 cs B"
  by (simp add: writing_def grown_refl agrees_def overwritten_def)

lemma writing_dir_block:
  assumes w: "writing p from buf cs B m cs' B'" and dir: "dir_entry_ok p B cs i"
  shows "B' (dir_block p i) = B (dir_block p i)"
proof -
  have "dir_cluster i \<notin> set cs'" using w dir by (auto simp: writing_def grown_def dir_entry_ok_def free_cluster_def)
  with w dir show ?thesis unfolding writing_def agrees_def dir_entry_ok_def dir_block_sector by blast
qed

section \<open>The call\<close>

text \<open>The state after a write of \<open>m\<close> bytes: the file with a new size, if it has grown, and its position behind them.\<close>

definition file_written :: "u32 \<Rightarrow> nat \<Rightarrow> fat_file \<Rightarrow> fat_file" where
  "file_written c m f = f\<lparr>current_cluster := c, file_pos := file_pos f + of_nat m,
     file_size := (if file_pos f + of_nat m > file_size f then file_pos f + of_nat m else file_size f)\<rparr>"

text \<open>Where the loop has stopped.\<close>

lemma write_stops:
  assumes "m = n \<and> stands_at fd p (pos + m) cs' B' s0 s \<or> disk_full fd p (pos + m) cs' B' s0 s"
    and w: "writing p pos buf cs B m cs' B'" and g: "geometry p" and "j < length cs"
  shows "\<exists>j'. j' < length cs' \<and> cursor_at fd (cs' ! j') B' s0 s \<and> pos + m \<le> capacity p cs' \<and>
    (m = n \<and> j' = (pos + m) div 512 div spc p \<or>
     pos + m = capacity p cs' \<and> j' = length cs' - 1 \<and> (\<forall>c. \<not> free_cluster p B' c))"
  using assms(1)
proof
  assume at: "m = n \<and> stands_at fd p (pos + m) cs' B' s0 s"
  then have "(pos + m) div 512 div spc p < length cs'"
    using spc_pos [OF g] by (simp add: stands_at_def capacity_def div_less_iff_less_mult ac_simps)
  with at show ?thesis by (intro exI [of _ "(pos + m) div 512 div spc p"]) (auto simp: stands_at_def)
next
  assume full: "disk_full fd p (pos + m) cs' B' s0 s"
  have "length cs \<le> length cs'" using w grown_length by (auto simp: writing_def)
  with assms(4) have "cs' \<noteq> []" by auto
  with full show ?thesis by (intro exI [of _ "length cs' - 1"]) (simp add: disk_full_def last_conv_nth)
qed

lemma valid_fd_dev [simp]:
  "valid_fd fd (s\<lparr>dev := d\<rparr>) = valid_fd fd s" "valid_fd fd (update_file fd g s) = valid_fd fd s"
  by (simp_all add: valid_fd_def update_file_def)

lemma update_update:
  assumes "valid_fd fd s"
  shows "update_file fd g ((update_file fd h s)\<lparr>dev := d\<rparr>) = update_file fd (g \<circ> h) (s\<lparr>dev := d\<rparr>)"
    and "update_file fd g (update_file fd h s) = update_file fd (g \<circ> h) s"
  using assms by (simp_all add: update_file_def open_file_def valid_fd_def state_updates)

lemma update_cong:
  "g (open_file fd s) = h (open_file fd s) \<Longrightarrow> update_file fd g (s\<lparr>dev := d\<rparr>) = update_file fd h (s\<lparr>dev := d\<rparr>)"
  by (simp add: update_file_def open_file_def)

lemma file_at_written:
  assumes opened: "file_at fd B cs j s" and s': "s' = update_file fd (file_written (cs' ! j') m) (s\<lparr>dev := d\<rparr>)"
    and "disk_holds B' d" and cs': "file_chain p B' cs'" "grown p B cs cs'" "j' < length cs'" and p: "p = fat_pinfo s"
    and q: "unat (file_pos f) + m \<le> capacity p cs'" "unat (file_pos f) + m < 2 ^ 32" and f: "f = open_file fd s"
  shows "file_at fd B' cs' j' s'" and "open_file fd s' = file_written (cs' ! j') m f"
proof -
  note h = opened [unfolded file_at_def Let_def, folded f p]
  have fd: "valid_fd fd s" using h fd_error_valid by blast
  have "cs \<noteq> []" using h by auto
  then have hd: "hd cs' = hd cs" using cs'(2) by (auto simp: grown_def)
  have cap: "capacity p cs \<le> capacity p cs'" using grown_length [OF cs'(2)] by (simp add: capacity_def)
  have "unat (of_nat m :: u32) = m" using q(2) by (intro unat_of_nat_word) simp
  then have new: "unat (file_pos f + of_nat m) = unat (file_pos f) + m" using q(2) by (subst unat_plus_u32) simp_all
  show written: "open_file fd s' = file_written (cs' ! j') m f"
    using fd by (simp add: s' f open_file_def update_file_def valid_fd_def)
  have "fd_error fd s' = None"
    using h fd by (simp add: fd_error_def s' f file_written_def update_file_def open_file_def valid_fd_def split: if_splits)
  moreover have "fat_holds B' s'" "length (fat_open_files s') = FAT_MAX_FILES" "fat_pinfo s' = p"
    using h assms(3) by (simp_all add: s' fat_holds_def update_file_def p)
  ultimately show "file_at fd B' cs' j' s'"
    using h hd cap q cs' new by (simp add: file_at_def written file_written_def word_le_nat_alt word_less_nat_alt)
qed

lemma fat_write_result:
  assumes opened: "file_at fd B cs j s" and f: "f = open_file fd s" and p: "p = fat_pinfo s"
    and right: "j = unat (file_pos f) div 512 div spc p"
    and dir: "dir_entry_ok p B cs (file_dir_idx f)" and one: "fat_entry p B 1 \<noteq> 0"
    and nowrap: "unat (file_pos f) + unat sz < 2 ^ 32" and buf: "unat sz \<le> length buf" "length buf < 2 ^ 31"
  shows "\<exists>m s' cs' B' j'. fat_write fd buf sz s = Some (int m, s') \<and> m \<le> unat sz \<and>
    (m < unat sz \<longrightarrow> (\<forall>c. \<not> free_cluster p B' c)) \<and> (m = unat sz \<and> j' = (unat (file_pos f) + m) div 512 div spc p \<or>
      unat (file_pos f) + m = capacity p cs' \<and> j' = length cs' - 1) \<and>
    file_at fd B' cs' j' s' \<and> open_file fd s' = file_written (cs' ! j') m f \<and>
    (\<exists>d. s' = update_file fd (file_written (cs' ! j') m) (s\<lparr>dev := d\<rparr>)) \<and>
    grown p B cs cs' \<and> agrees p cs' {dir_block p (file_dir_idx f)} B B' \<and> overwritten p (unat (file_pos f)) m buf cs B cs' B' \<and>
    B' (dir_block p (file_dir_idx f)) = (if file_pos f + of_nat m > file_size f
      then size_recorded (file_dir_idx f) (file_pos f + of_nat m) (B (dir_block p (file_dir_idx f)))
      else B (dir_block p (file_dir_idx f)))"
proof -
  note h = opened [unfolded file_at_def Let_def, folded f p]
  have holds: "fat_holds B s" and chain: "file_chain p B cs" and err: "fd_error fd s = None"
    and cluster: "current_cluster f = cs ! j" and j: "j < length cs" using h by auto
  have g: "geometry p" using holds p by (simp add: fat_holds_def)
  have fd: "valid_fd fd s" using h fd_error_valid by blast
  define pos where "pos = unat (file_pos f)"
  define i where "i = file_dir_idx f"
  have cap: "pos < capacity p cs"
    using j spc_pos [OF g] by (simp add: right pos_def capacity_def div_less_iff_less_mult ac_simps)
  have start: "counts_at p cs pos (start_counters p f sz)"
    using counts_at_start [OF g cluster] by (simp add: right cursor_byte_pos pos_def)
  have "cursor_at fd (cs ! (pos div 512 div spc p)) B s (set_errno OK s)"
    using cursor_at_start [OF holds fd, of OK] unfolding f [symmetric] cluster right by (simp add: pos_def)
  then have at: "stands_at fd p pos cs B s (set_errno OK s)" using cap by (simp add: stands_at_def)
  obtain k s1 m cs1 B1 where loop: "loop_until (write_step fd buf) (start_counters p f sz, set_errno OK s) = Some ((), k, s1)"
    and m: "moved k = of_nat m" "m \<le> unat sz" and w: "writing p pos buf cs B m cs1 B1"
    and res: "m = unat sz \<and> stands_at fd p (pos + m) cs1 B1 s s1 \<or> disk_full fd p (pos + m) cs1 B1 s s1"
  proof -
    have "moved (start_counters p f sz) = of_nat 0" "left_over (start_counters p f sz) = of_nat (unat sz)"
      by (simp_all add: start_counters_def)
    moreover have "pos = pos + 0" "0 + unat sz \<le> length buf" "length buf < 2 ^ 32" using buf by simp_all
    ultimately show thesis
      using write_rounds [OF writing_start [OF chain] at p g fd one impI [OF start]] that unfolding add_0 by blast
  qed
  obtain j' where j': "j' < length cs1" "cursor_at fd (cs1 ! j') B1 s s1" "pos + m \<le> capacity p cs1"
    and stop: "m = unat sz \<and> j' = (pos + m) div 512 div spc p \<or>
      pos + m = capacity p cs1 \<and> j' = length cs1 - 1 \<and> (\<forall>c. \<not> free_cluster p B1 c)"
    using write_stops [OF res w g j] by blast
  then obtain d1 where d1: "s1 = update_file fd (\<lambda>f. f\<lparr>current_cluster := cs1 ! j'\<rparr>) (s\<lparr>dev := d1\<rparr>)" "disk_holds B1 d1"
    by (auto simp: cursor_at_def)
  define new where "new = file_pos f + of_nat m"
  have file1: "open_file fd s1 = f\<lparr>current_cluster := cs1 ! j'\<rparr>" using cursor_at_file [OF j'(2) fd] f by simp
  define dev' where "dev' d B' \<longleftrightarrow> disk_holds B' d \<and>
    B' = (if new > file_size f then B1(dir_block p i := size_recorded i new (B1 (dir_block p i))) else B1)" for d B'
  have written: "file_written c m f = f\<lparr>current_cluster := c, file_pos := new, file_size := if new > file_size f then new else file_size f\<rparr>" for c
    by (simp add: file_written_def new_def)
  have "sint (moved k) = int m"
    using buf m(2) unfolding m(1) by (simp add: signed_of_nat signed_take_bit_int_eq_self)
  then have call: "fat_write fd buf sz s = do {
      s \<leftarrow> (if new > file_size f then grow_file fd new s1 else Some s1);
      Some (int m, update_file fd (\<lambda>f. f\<lparr>file_pos := file_pos f + of_nat m\<rparr>) s) }"
    by (simp add: fat_write_def err f [symmetric] p [symmetric] loop m(1) new_def)
  have "\<exists>d B'. fat_write fd buf sz s = Some (int m, update_file fd (file_written (cs1 ! j') m) (s\<lparr>dev := d\<rparr>)) \<and> dev' d B'"
  proof (cases "new > file_size f")
    case True
    have "fat_holds B1 s1" "p = fat_pinfo s1" "i = file_dir_idx (open_file fd s1)"
      using cursor_at_holds [OF j'(2)] cursor_at_fields(1) [OF j'(2)] g p file1 by (simp_all add: i_def)
    from grow_file_result [OF this] obtain d where
      "grow_file fd new s1 = Some (update_file fd (\<lambda>f. f\<lparr>file_size := new\<rparr>) (s1\<lparr>dev := d\<rparr>))"
      "disk_holds (B1(dir_block p i := size_recorded i new (B1 (dir_block p i)))) d" by blast
    moreover have "update_file fd ((\<lambda>f. f\<lparr>file_pos := file_pos f + of_nat m\<rparr>) \<circ> ((\<lambda>f. f\<lparr>file_size := new\<rparr>) \<circ> (\<lambda>f. f\<lparr>current_cluster := cs1 ! j'\<rparr>)))
        (s\<lparr>dev := d\<rparr>) = update_file fd (file_written (cs1 ! j') m) (s\<lparr>dev := d\<rparr>)"
      using True by (intro update_cong) (simp add: f [symmetric] written new_def [symmetric])
    ultimately show ?thesis using True by (auto simp: call d1 update_update fd dev'_def)
  next
    case False
    have "update_file fd ((\<lambda>f. f\<lparr>file_pos := file_pos f + of_nat m\<rparr>) \<circ> (\<lambda>f. f\<lparr>current_cluster := cs1 ! j'\<rparr>)) (s\<lparr>dev := d1\<rparr>) =
        update_file fd (file_written (cs1 ! j') m) (s\<lparr>dev := d1\<rparr>)"
      using False by (intro update_cong) (simp add: f [symmetric] written new_def [symmetric])
    with False d1(2) show ?thesis by (auto simp: call d1 update_update fd dev'_def)
  qed
  then obtain d B' where call': "fat_write fd buf sz s = Some (int m, update_file fd (file_written (cs1 ! j') m) (s\<lparr>dev := d\<rparr>))"
    and d: "dev' d B'" by blast
  note d = d [unfolded dev'_def]
  have cs': "grown p B cs cs1" using w by (simp add: writing_def)
  have same: "B1 (dir_block p i) = B (dir_block p i)" using writing_dir_block [OF w dir [folded i_def]] .
  have w2: "file_chain p B' cs1" "agrees p cs1 {dir_block p i} B B'" "overwritten p pos m buf cs B cs1 B'"
    and free: "free_cluster p B' c = free_cluster p B1 c" for c
    using d writing_dir [OF w g dir [folded i_def] j'(3)] writing_agrees [OF w] w by (auto simp: writing_def)
  have "pos + m < 2 ^ 32" using nowrap m(2) by (simp add: pos_def)
  with file_at_written [OF opened refl _ w2(1) cs' j'(1) p, where m = m and f = f and d = d] j'(3) f d
  have "file_at fd B' cs1 j' (update_file fd (file_written (cs1 ! j') m) (s\<lparr>dev := d\<rparr>))"
    "open_file fd (update_file fd (file_written (cs1 ! j') m) (s\<lparr>dev := d\<rparr>)) = file_written (cs1 ! j') m f"
    by (auto simp: pos_def)
  moreover have "B' (dir_block p i) = (if new > file_size f then size_recorded i new (B (dir_block p i)) else B (dir_block p i))"
    using d same by simp
  moreover have "m < unat sz \<longrightarrow> (\<forall>c. \<not> free_cluster p B' c)"
    "m = unat sz \<and> j' = (pos + m) div 512 div spc p \<or> pos + m = capacity p cs1 \<and> j' = length cs1 - 1"
    using stop free by auto
  ultimately show ?thesis using call' m(2) cs' w2 unfolding i_def pos_def new_def
    by (intro exI [of _ m] exI [of _ "update_file fd (file_written (cs1 ! j') m) (s\<lparr>dev := d\<rparr>)"] exI [of _ cs1] exI [of _ B'] exI [of _ j']
      conjI exI [of _ d]) simp_all
qed

end
