(* ===== verification/Fat_Path.thy ===== *)
theory Fat_Path
  imports Fat_Name Fat_Write
begin

text \<open>
  Directories as lists of entries, and the path resolution as a search in them: the first entry with
  the name of a part of the path, then the directory it names. The theory covers directories without
  long names.
\<close>

section \<open>Entries\<close>

text \<open>Entry number \<open>n\<close> of a directory with the clusters \<open>cs\<close>, and its index.\<close>

definition dir_entry :: "fat_partition_info \<Rightarrow> blocks \<Rightarrow> u32 list \<Rightarrow> nat \<Rightarrow> u8 list" where
  "dir_entry p B cs n = take 32 (drop (n mod 16 * 32) (B (sector_at p cs (n div 16))))"

definition idx_at :: "fat_partition_info \<Rightarrow> u32 list \<Rightarrow> nat \<Rightarrow> fat_dir_entry_idx" where
  "idx_at p cs n = \<lparr>dir_cluster = cs ! (n div 16 div spc p), dir_sector = of_nat (n div 16 mod spc p), dir_index = of_nat (n mod 16)\<rparr>"

definition dir_size :: "fat_partition_info \<Rightarrow> u32 list \<Rightarrow> nat" where
  "dir_size p cs = 16 * (spc p * length cs)"

definition entry_name :: "u8 list \<Rightarrow> u8 list" where
  "entry_name e = takeWhile (\<lambda>c. \<not> path_delim c) (short_name_text (take 11 e))"

definition short_entry :: "u8 list \<Rightarrow> bool" where
  "short_entry e \<longleftrightarrow> empty_entry e 0 \<or> \<not> first_long_entry e 0"

text \<open>Names are compared without regard to case.\<close>

definition named :: "u8 list \<Rightarrow> u8 list \<Rightarrow> bool" where
  "named part e \<longleftrightarrow> \<not> empty_entry e 0 \<and> map toupper (entry_name e) = map toupper part"

definition short_names :: "fat_partition_info \<Rightarrow> blocks \<Rightarrow> u32 list \<Rightarrow> bool" where
  "short_names p B cs \<longleftrightarrow> (\<forall>n < dir_size p cs. short_entry (dir_entry p B cs n))"

definition dir_lookup :: "fat_partition_info \<Rightarrow> blocks \<Rightarrow> u32 list \<Rightarrow> u8 list \<Rightarrow> nat option" where
  "dir_lookup p B cs part = List.find (\<lambda>n. named part (dir_entry p B cs n)) [0..<dir_size p cs]"

lemma find_first_hit:
  assumes "\<exists>x \<in> set xs. P x"
  shows "List.find (\<lambda>i. P (xs ! i)) [0..<length xs] = Some (length (takeWhile (\<lambda>x. \<not> P x) xs))"
proof -
  let ?n = "length (takeWhile (\<lambda>x. \<not> P x) xs)"
  have n: "?n < length xs" using assms
    by (metis (mono_tags, lifting) length_takeWhile_le order_le_imp_less_or_eq takeWhile_eq_all_conv takeWhile_eq_take take_all_iff le_refl)
  have hit: "P (xs ! ?n)" using nth_length_takeWhile [OF n] by simp
  have "\<not> P (xs ! i)" if "i < ?n" for i using that by (metis nth_mem set_takeWhileD takeWhile_nth)
  with n hit show ?thesis by (auto simp: find_Some_iff intro!: exI [of _ ?n])
qed

lemma length_short_name_text: "length (short_name_text sn) \<le> 12"
proof -
  have "length (takeWhile P (take n xs)) \<le> n" for P n and xs :: "u8 list"
    by (metis length_takeWhile_le length_take min.bounded_iff)
  from this [of "\<lambda>c. c \<noteq> 0x20" 8 sn] this [of "\<lambda>c. c \<noteq> 0x20" 3 "drop 8 sn"] show ?thesis
    by (simp add: short_name_text_def)
qed

lemma compare_entry:
  assumes len: "length sec = 512" and k: "k < 16" "dir_index idx = of_nat k" and e: "e = take 32 (drop (k * 32) sec)"
    and short: "short_entry e" and room: "13 \<le> length (long_name8 s)"
    and path: "pmin \<le> pmax" "pmax \<le> length path" and part: "part = take (pmax - pmin) (drop pmin path)"
  shows "\<exists>nm. fat_compare_entry_name path pmin pmax sec idx s = Some (named part e, sec, idx, s\<lparr>long_name8 := nm\<rparr>) \<and>
    length nm = length (long_name8 s)"
proof -
  have start: "entry_start idx = k * 32" using k by (simp add: entry_start_def FAT_DIR_ENTRY_WIDTH_def unat_of_nat_word)
  have byte: "e ! i = sec ! (k * 32 + i)" if "i < 32" for i using that len k by (simp add: e)
  have empty: "empty_entry sec (k * 32) \<longleftrightarrow> empty_entry e 0" and long: "first_long_entry sec (k * 32) \<longleftrightarrow> first_long_entry e 0"
    using byte [of 0] byte [of 11] by (simp_all add: empty_entry_def first_long_entry_def)
  show ?thesis
  proof (cases "empty_entry e 0")
    case True
    then show ?thesis
      by (intro exI [of _ "long_name8 s"])
        (simp add: fat_compare_entry_name_def fat_get_long_name_uint8_def start empty named_def)
  next
    case False
    define t where "t = short_name_text (take 11 (drop (k * 32) sec))"
    define nm where "nm = t @ 0 # drop (length t + 1) (long_name8 s)"
    have t12: "length t \<le> 12" unfolding t_def by (rule length_short_name_text)
    then have lenm: "length nm = length (long_name8 s)" using room by (simp add: nm_def)
    have get: "fat_get_long_name_uint8 sec idx s = Some (True, sec, idx, s\<lparr>long_name8 := nm\<rparr>)"
      using False short t12 room
      by (simp add: fat_get_long_name_uint8_def start empty long short_entry_def store_bytes_def t_def [symmetric] nm_def)
    have "take 11 e = take 11 (drop (k * 32) sec)" by (simp add: e min_def)
    then have name: "entry_name e = takeWhile (\<lambda>c. \<not> path_delim c) t" by (simp add: entry_name_def t_def)
    have "path_delim 0" by (simp add: path_delim_def)
    then have "takeWhile (\<lambda>c. \<not> path_delim c) nm = takeWhile (\<lambda>c. \<not> path_delim c) t" and "\<exists>x \<in> set nm. path_delim x"
      by (auto simp: nm_def takeWhile_append intro!: takeWhile_eq_all_conv [THEN iffD2, symmetric])
    then have idx: "fat_idx_of_next_path_delim nm 0 = Some (length (entry_name e))"
      unfolding fat_idx_of_next_path_delim_def name by (simp add: find_first_hit)
    have nth: "nm ! i = entry_name e ! i" if "i < length (entry_name e)" for i
      using that by (simp add: name nm_def takeWhile_nth nth_append)
        (metis length_takeWhile_le order_less_le_trans)
    have "(length (entry_name e) = pmax - pmin \<and> (\<forall>i < length (entry_name e). toupper (nm ! i) = toupper (path ! (pmin + i)))) \<longleftrightarrow>
        named part e"
      using False path nth by (auto simp: named_def part list_eq_iff_nth_eq)
    then show ?thesis using get idx lenm by (intro exI [of _ nm]) (simp add: fat_compare_entry_name_def)
  qed
qed

section \<open>Searching a directory\<close>

text \<open>The library after searches: the device and the name buffer have changed.\<close>

definition searched :: "blocks \<Rightarrow> fat_state \<Rightarrow> fat_state \<Rightarrow> bool" where
  "searched B s s' \<longleftrightarrow> (\<exists>d nm. s' = s\<lparr>dev := d, long_name8 := nm\<rparr> \<and> disk_holds B d \<and> length nm = length (long_name8 s))"

lemma searched_fields [state_simps]:
  "searched B s s' \<Longrightarrow> fat_pinfo s' = fat_pinfo s" "searched B s s' \<Longrightarrow> fat_open_files s' = fat_open_files s"
  "searched B s s' \<Longrightarrow> fat_initialized s' = fat_initialized s" "searched B s s' \<Longrightarrow> length (long_name8 s') = length (long_name8 s)"
  "searched B s s' \<Longrightarrow> sector_buffer s' = sector_buffer s"
  by (auto simp: searched_def sector_buffer_def)

lemma searched_holds: "searched B s s' \<Longrightarrow> geometry (fat_pinfo s) \<Longrightarrow> fat_holds B s'"
  by (auto simp: searched_def fat_holds_def)

lemma searched_refl: "fat_holds B s \<Longrightarrow> searched B s s"
  by (auto simp: searched_def fat_holds_def intro!: exI [of _ "dev s"] exI [of _ "long_name8 s"])

lemma name8_dev: "s\<lparr>long_name8 := nm, dev := d\<rparr> = s\<lparr>dev := d, long_name8 := nm\<rparr>"
  by (cases s) simp

lemma searched_after: "searched B s s' \<Longrightarrow> fat_after B s' s'' \<Longrightarrow> searched B s s''"
  unfolding searched_def fat_after_def by (elim exE conjE) (simp add: name8_dev, blast)

lemma searched_name: "searched B s s' \<Longrightarrow> length nm = length (long_name8 s') \<Longrightarrow> searched B s (s'\<lparr>long_name8 := nm\<rparr>)"
  unfolding searched_def by (elim exE conjE) (simp, blast)

text \<open>Where a search has found the entry \<open>n\<close>.\<close>

definition found_at :: "fat_partition_info \<Rightarrow> blocks \<Rightarrow> u32 list \<Rightarrow> nat \<Rightarrow> u8 list \<Rightarrow> fat_dir_entry_idx \<Rightarrow> fat_state \<Rightarrow> fat_state \<Rightarrow> bool" where
  "found_at p B cs n sec idx s s' \<longleftrightarrow> sec = B (sector_at p cs (n div 16)) \<and> idx = idx_at p cs n \<and> searched B s s'"

text \<open>The conditions of all searches.\<close>

definition search_ok :: "blocks \<Rightarrow> u32 list \<Rightarrow> u8 list \<Rightarrow> nat \<Rightarrow> nat \<Rightarrow> u8 list \<Rightarrow> fat_state \<Rightarrow> bool" where
  "search_ok B cs path pmin pmax part s \<longleftrightarrow> fat_holds B s \<and> 13 \<le> length (long_name8 s) \<and> file_chain (fat_pinfo s) B cs \<and>
     short_names (fat_pinfo s) B cs \<and> pmin \<le> pmax \<and> pmax \<le> length path \<and> part = take (pmax - pmin) (drop pmin path)"

lemma find_in_sector_result:
  assumes ok: "search_ok B cs path pmin pmax part s0" and p: "p = fat_pinfo s0" and q: "q < spc p * length cs"
    and idx: "dir_cluster idx = cs ! (q div spc p)" "dir_sector idx = of_nat (q mod spc p)" "dir_index idx = 0" and s: "searched B s0 s"
  shows "(\<exists>n sec' idx' s'. n div 16 = q \<and> named part (dir_entry p B cs n) \<and>
      (\<forall>i. i div 16 = q \<and> i < n \<longrightarrow> \<not> named part (dir_entry p B cs i)) \<and>
      loop_until (find_in_sector path pmin pmax) (B (sector_at p cs q), idx, s) = Some (True, sec', idx', s') \<and>
      found_at p B cs n sec' idx' s0 s') \<or>
    (\<forall>i. i div 16 = q \<longrightarrow> \<not> named part (dir_entry p B cs i)) \<and>
      (\<exists>sec' idx' s'. loop_until (find_in_sector path pmin pmax) (B (sector_at p cs q), idx, s) = Some (False, sec', idx', s') \<and>
       length sec' = 512 \<and> idx' = idx\<lparr>dir_index := 16\<rparr> \<and> searched B s0 s')"
proof -
  note o = ok [unfolded search_ok_def, folded p]
  have g: "geometry p" using o p by (simp add: fat_holds_def)
  have len: "length (B a) = 512" for a using o holds_length by blast
  have eps: "entries_in_sector s' = 16" if "searched B s0 s'" for s'
    using that g by (simp add: entries_in_sector_def state_simps p [symmetric] geometryD FAT_DIR_ENTRY_WIDTH_def)
  define I where "I k x \<longleftrightarrow> k \<le> 16 \<and> (\<exists>s'. x = (B (sector_at p cs q), idx\<lparr>dir_index := of_nat k\<rparr>, s') \<and> searched B s0 s')" for k x
  define J where "J k x \<longleftrightarrow> k < 16 \<and> (\<exists>s'. x = (B (sector_at p cs q), idx\<lparr>dir_index := of_nat k\<rparr>, s') \<and> searched B s0 s')" for k x
  define hit where "hit k \<longleftrightarrow> k < 16 \<and> named part (dir_entry p B cs (16 * q + k))" for k
  have step: "\<exists>x'. if hit k then find_in_sector path pmin pmax x = Some (Some True, x') \<and> J k x'
      else if Suc k < 17 then find_in_sector path pmin pmax x = Some (None, x') \<and> I (Suc k) x'
      else find_in_sector path pmin pmax x = Some (Some False, x') \<and> I 16 x'" if Ik: "I k x" and k17: "k < 17" for k x
  proof -
    obtain s' where x: "x = (B (sector_at p cs q), idx\<lparr>dir_index := of_nat k\<rparr>, s')" "searched B s0 s'"
      using Ik unfolding I_def by blast
    show ?thesis
    proof (cases "k < 16")
      case True
      have "short_entry (dir_entry p B cs (16 * q + k))"
      proof -
        have "16 * q + k < dir_size p cs" using q True by (simp add: dir_size_def) 
        then show ?thesis using o by (simp add: short_names_def)
      qed
      then obtain nm where nm: "fat_compare_entry_name path pmin pmax (B (sector_at p cs q)) (idx\<lparr>dir_index := of_nat k\<rparr>) s' =
          Some (named part (dir_entry p B cs (16 * q + k)), B (sector_at p cs q), idx\<lparr>dir_index := of_nat k\<rparr>, s'\<lparr>long_name8 := nm\<rparr>)"
        "length nm = length (long_name8 s')"
        using compare_entry [OF len True, of "idx\<lparr>dir_index := of_nat k\<rparr>" _ "sector_at p cs q" s' pmin pmax path part] o x(2) True
        by (auto simp: dir_entry_def state_simps)
      have "(of_nat k :: u32) < 16" using True by (simp add: word_less_nat_alt unat_of_nat_word)
      then have "find_in_sector path pmin pmax x = Some (if hit k then Some True else None, B (sector_at p cs q),
          if hit k then idx\<lparr>dir_index := of_nat k\<rparr> else idx\<lparr>dir_index := of_nat (Suc k)\<rparr>, s'\<lparr>long_name8 := nm\<rparr>)"
        using nm True by (simp add: find_in_sector_def x eps [OF x(2)] hit_def add.commute)
      moreover have "searched B s0 (s'\<lparr>long_name8 := nm\<rparr>)" using searched_name [OF x(2) nm(2)] .
      ultimately show ?thesis using True by (cases "hit k") (simp_all add: I_def J_def)
    next
      case False
      then have "k = 16" using k17 by simp
      then show ?thesis using Ik x eps [OF x(2)] by (auto simp: find_in_sector_def hit_def)
    qed
  qed
  have "I 0 (B (sector_at p cs q), idx, s)" using s idx(3) by (auto simp: I_def intro!: exI [of _ s])
  from loop_until_search [where round = "find_in_sector path pmin pmax" and hit = hit and I = I and J = J and K = "I 16" and N = 17, OF this _ step]
  have "(\<exists>k x'. k < 17 \<and> hit k \<and> (\<forall>i < k. \<not> hit i) \<and>
      loop_until (find_in_sector path pmin pmax) (B (sector_at p cs q), idx, s) = Some (True, x') \<and> J k x') \<or>
    (\<forall>i < 17. \<not> hit i) \<and> (\<exists>x'. loop_until (find_in_sector path pmin pmax) (B (sector_at p cs q), idx, s) = Some (False, x') \<and> I 16 x')"
    by simp
  then show ?thesis
  proof (elim disjE exE conjE)
    fix k x' assume k: "k < 17" "hit k" "\<forall>i < k. \<not> hit i" "J k x'"
      and loop: "loop_until (find_in_sector path pmin pmax) (B (sector_at p cs q), idx, s) = Some (True, x')"
    obtain s' where x': "x' = (B (sector_at p cs q), idx\<lparr>dir_index := of_nat k\<rparr>, s')" "searched B s0 s'" "k < 16"
      using k(4) unfolding J_def by blast
    have n: "(16 * q + k) div 16 = q" "(16 * q + k) mod 16 = k" using x'(3) by simp_all
    have "found_at p B cs (16 * q + k) (B (sector_at p cs q)) (idx\<lparr>dir_index := of_nat k\<rparr>) s0 s'"
      using x'(2,3) idx by (cases idx) (simp add: found_at_def idx_at_def n)
    moreover have "\<not> named part (dir_entry p B cs i)" if "i div 16 = q" "i < 16 * q + k" for i
    proof -
      have "i = 16 * q + i mod 16" using that(1) by (metis mult_div_mod_eq)
      then show ?thesis using that(2) k(3) by (metis add_less_cancel_left hit_def mod_less_divisor zero_less_numeral)
    qed
    ultimately show ?thesis using loop n k(2) x'(1)
      by (intro disjI1 exI [of _ "16 * q + k"] exI [of _ "B (sector_at p cs q)"] exI [of _ "idx\<lparr>dir_index := of_nat k\<rparr>"] exI [of _ s'])
        (auto simp: hit_def)
  next
    fix x' assume none: "\<forall>i < 17. \<not> hit i" "I 16 x'"
      and loop: "loop_until (find_in_sector path pmin pmax) (B (sector_at p cs q), idx, s) = Some (False, x')"
    have "\<not> named part (dir_entry p B cs i)" if "i div 16 = q" for i
    proof -
      have "i = 16 * q + i mod 16" "i mod 16 < 16" using that by (metis mult_div_mod_eq, simp)
      moreover have "\<not> hit (i mod 16)" using none(1) by simp
      ultimately show ?thesis by (metis hit_def)
    qed
    with none(2) loop len show ?thesis by (auto simp: I_def)
  qed
qed

lemma find_in_cluster_result:
  assumes ok: "search_ok B cs path pmin pmax part s0" and p: "p = fat_pinfo s0" and j: "j < length cs"
    and idx: "dir_cluster idx = cs ! j" "dir_sector idx = 0" and s: "searched B s0 s" and sec: "length sec = 512"
    and first: "first = fat_first_sector_of_cluster p (cs ! j)"
  shows "(\<exists>n sec' idx' s'. n div 16 div spc p = j \<and> named part (dir_entry p B cs n) \<and>
      (\<forall>i. i div 16 div spc p = j \<and> i < n \<longrightarrow> \<not> named part (dir_entry p B cs i)) \<and>
      loop_until (find_in_cluster path pmin pmax first) (sec, idx, s) = Some (True, sec', idx', s') \<and>
      found_at p B cs n sec' idx' s0 s') \<or>
    (\<forall>i. i div 16 div spc p = j \<longrightarrow> \<not> named part (dir_entry p B cs i)) \<and>
      (\<exists>sec' idx' s'. loop_until (find_in_cluster path pmin pmax first) (sec, idx, s) = Some (False, sec', idx', s') \<and>
       length sec' = 512 \<and> searched B s0 s')"
proof -
  note o = ok [unfolded search_ok_def, folded p]
  have g: "geometry p" using o p by (simp add: fat_holds_def)
  note spc = spc_pos [OF g]
  have small: "spc p < 256" using g by (simp add: geometry_def spc_def)
  have len: "length (B a) = 512" for a using o holds_length by blast
  define I :: "nat \<Rightarrow> u8 list \<times> fat_dir_entry_idx \<times> fat_state \<Rightarrow> bool" where "I m x \<longleftrightarrow> m \<le> spc p \<and> (\<exists>sec' idx' s'. x = (sec', idx', s') \<and> dir_cluster idx' = cs ! j \<and>
    dir_sector idx' = of_nat m \<and> length sec' = 512 \<and> searched B s0 s')" for m x
  define J :: "nat \<Rightarrow> u8 list \<times> fat_dir_entry_idx \<times> fat_state \<Rightarrow> bool" where "J m x \<longleftrightarrow> (\<exists>n sec' idx' s'. x = (sec', idx', s') \<and> n div 16 = j * spc p + m \<and> named part (dir_entry p B cs n) \<and>
    (\<forall>i. i div 16 = j * spc p + m \<and> i < n \<longrightarrow> \<not> named part (dir_entry p B cs i)) \<and> found_at p B cs n sec' idx' s0 s')" for m x
  define hit where "hit m \<longleftrightarrow> m < spc p \<and> (\<exists>i. i div 16 = j * spc p + m \<and> named part (dir_entry p B cs i))" for m
  have step: "\<exists>x'. if hit m then find_in_cluster path pmin pmax first x = Some (Some True, x') \<and> J m x'
      else if Suc m < Suc (spc p) then find_in_cluster path pmin pmax first x = Some (None, x') \<and> I (Suc m) x'
      else find_in_cluster path pmin pmax first x = Some (Some False, x') \<and> I (spc p) x'"
    if Im: "I m x" and m: "m < Suc (spc p)" for m x
  proof -
    obtain sec' idx' s' where x: "x = (sec', idx', s')" "dir_cluster idx' = cs ! j" "dir_sector idx' = of_nat m"
      "length sec' = 512" "searched B s0 s'" using Im unfolding I_def by blast
    have ps: "fat_pinfo s' = p" using x(5) p by (simp add: state_simps)
    have um: "unat (of_nat m :: u32) = m" using m small by (simp add: unat_of_nat_word)
    have less: "(of_nat m :: u32) < sectors_per_cluster (fat_pinfo s') \<longleftrightarrow> m < spc p"
      by (simp add: ps word_less_nat_alt um spc_def)
    show ?thesis
    proof (cases "m < spc p")
      case True
      have qd: "(j * spc p + m) div spc p = j" "(j * spc p + m) mod spc p = m" using True by simp_all
      then have sector: "sector_at p cs (j * spc p + m) = first + of_nat m" by (simp add: sector_at_def first)
      have q: "j * spc p + m < spc p * length cs"
      proof -
        have "j * spc p + m < Suc j * spc p" using True by simp
        also have "\<dots> \<le> length cs * spc p" using j by (intro mult_right_mono) simp_all
        finally show ?thesis by (simp add: ac_simps)
      qed
      have h: "fat_holds B s'" using searched_holds [OF x(5)] g p by simp
      obtain s'' where s'': "fat_read_single_block (first + of_nat m) sec' s' = Some (True, B (first + of_nat m), s'')" "fat_after B s' s''"
        using fat_read_sector [OF h x(4)] by metis
      have at: "searched B s0 s''" using searched_after [OF x(5) s''(2)] .
      note found = find_in_sector_result [OF ok p q, of "idx'\<lparr>dir_index := 0\<rparr>" s'', simplified qd, simplified, OF x(2,3) at]
      note unfolded = find_in_cluster_def x(1) less True x(3) s''(1)
      show ?thesis
      proof (cases "hit m")
        case True
        then have "\<not> (\<forall>i. i div 16 = j * spc p + m \<longrightarrow> \<not> named part (dir_entry p B cs i))" by (auto simp: hit_def)
        with found obtain n sec2 idx2 s2 where n: "n div 16 = j * spc p + m" "named part (dir_entry p B cs n)"
          "\<forall>i. i div 16 = j * spc p + m \<and> i < n \<longrightarrow> \<not> named part (dir_entry p B cs i)" "found_at p B cs n sec2 idx2 s0 s2"
          "loop_until (find_in_sector path pmin pmax) (B (sector_at p cs (j * spc p + m)), idx'\<lparr>dir_index := 0\<rparr>, s'') = Some (True, sec2, idx2, s2)"
          by blast
        then have "J m (sec2, idx2, s2)" unfolding J_def by blast
        with True n(5) show ?thesis by (simp add: unfolded sector)
      next
        case False
        with \<open>m < spc p\<close> have "\<forall>i. i div 16 = j * spc p + m \<longrightarrow> \<not> named part (dir_entry p B cs i)" by (auto simp: hit_def)
        with found obtain sec2 s2 where n: "length sec2 = 512" "searched B s0 s2"
          "loop_until (find_in_sector path pmin pmax) (B (sector_at p cs (j * spc p + m)), idx'\<lparr>dir_index := 0\<rparr>, s'') =
            Some (False, sec2, idx'\<lparr>dir_index := 16\<rparr>, s2)"
          by auto
        then have "I (Suc m) (sec2, idx'\<lparr>dir_index := 16, dir_sector := of_nat m + 1\<rparr>, s2)"
          using \<open>m < spc p\<close> x(2) by (simp add: I_def)
        with False n(3) \<open>m < spc p\<close> show ?thesis by (simp add: unfolded sector)
      qed
    next
      case False
      then have "m = spc p" using m by simp
      then show ?thesis using Im x less by (auto simp: find_in_cluster_def hit_def)
    qed
  qed
  have "I 0 (sec, idx, s)" using s idx sec by (simp add: I_def)
  from loop_until_search [where round = "find_in_cluster path pmin pmax first" and hit = hit and I = I and J = J and K = "I (spc p)"
      and N = "Suc (spc p)", OF this _ step]
  have "(\<exists>m x'. m < Suc (spc p) \<and> hit m \<and> (\<forall>i < m. \<not> hit i) \<and>
      loop_until (find_in_cluster path pmin pmax first) (sec, idx, s) = Some (True, x') \<and> J m x') \<or>
    (\<forall>i < Suc (spc p). \<not> hit i) \<and>
      (\<exists>x'. loop_until (find_in_cluster path pmin pmax first) (sec, idx, s) = Some (False, x') \<and> I (spc p) x')"
    by simp
  then show ?thesis
  proof (elim disjE exE conjE)
    fix m x' assume m: "hit m" "\<forall>i < m. \<not> hit i" "J m x'"
      and loop: "loop_until (find_in_cluster path pmin pmax first) (sec, idx, s) = Some (True, x')"
    obtain n sec' idx' s' where x': "x' = (sec', idx', s')" "n div 16 = j * spc p + m" "named part (dir_entry p B cs n)"
      "\<forall>i. i div 16 = j * spc p + m \<and> i < n \<longrightarrow> \<not> named part (dir_entry p B cs i)" "found_at p B cs n sec' idx' s0 s'"
      using m(3) unfolding J_def by blast
    have "m < spc p" using m(1) by (simp add: hit_def)
    then have n: "n div 16 div spc p = j" by (simp add: x'(2))
    moreover have "\<not> named part (dir_entry p B cs i)" if i: "i div 16 div spc p = j" "i < n" for i
    proof -
      have q: "i div 16 = j * spc p + i div 16 mod spc p" using i(1) div_mult_mod_eq [of "i div 16" "spc p"] by simp
      have "i div 16 \<le> n div 16" using i(2) by (simp add: div_le_mono)
      then consider "i div 16 = j * spc p + m" | "i div 16 mod spc p < m" using q x'(2) by linarith
      then show ?thesis
      proof cases
        case 1
        then show ?thesis using x'(4) i(2) by blast
      next
        case 2
        then have "\<not> hit (i div 16 mod spc p)" using m(2) by blast
        with q spc show ?thesis by (auto simp: hit_def)
      qed
    qed
    ultimately show ?thesis using loop x' by blast
  next
    fix x' assume none: "\<forall>i < Suc (spc p). \<not> hit i" "I (spc p) x'"
      and loop: "loop_until (find_in_cluster path pmin pmax first) (sec, idx, s) = Some (False, x')"
    have "\<not> named part (dir_entry p B cs i)" if "i div 16 div spc p = j" for i
    proof -
      have "i div 16 = j * spc p + i div 16 mod spc p" using that div_mult_mod_eq [of "i div 16" "spc p"] by simp
      moreover have "i div 16 mod spc p < spc p" using spc by simp
      moreover from this have "\<not> hit (i div 16 mod spc p)" using none(1) by simp
      ultimately show ?thesis by (auto simp: hit_def)
    qed
    with none(2) loop show ?thesis unfolding I_def by blast
  qed
qed

lemma dir_lookup_Some: "dir_lookup p B cs part = Some n \<longleftrightarrow>
    n < dir_size p cs \<and> named part (dir_entry p B cs n) \<and> (\<forall>i < n. \<not> named part (dir_entry p B cs i))"
  by (auto simp: dir_lookup_def find_Some_iff)

lemma dir_lookup_None: "dir_lookup p B cs part = None \<longleftrightarrow> (\<forall>n < dir_size p cs. \<not> named part (dir_entry p B cs n))"
  by (auto simp: dir_lookup_def find_None_iff)

lemma dir_size_cluster:
  assumes "0 < spc p"
  shows "n < dir_size p cs \<longleftrightarrow> n div 16 div spc p < length cs"
  using assms by (simp add: dir_size_def div_less_iff_less_mult ac_simps)

lemma find_in_directory_result:
  assumes ok: "search_ok B cs path pmin pmax part s0" and p: "p = fat_pinfo s0" and s: "searched B s0 s" and sec: "length sec = 512"
  shows "\<exists>c' sec' idx' s'. loop_until (find_in_directory path pmin pmax) (hd cs, sec, idx, s) =
      Some (dir_lookup p B cs part \<noteq> None, c', sec', idx', s') \<and> searched B s0 s' \<and> length sec' = 512 \<and>
    (\<forall>n. dir_lookup p B cs part = Some n \<longrightarrow> found_at p B cs n sec' idx' s0 s')"
proof -
  note o = ok [unfolded search_ok_def, folded p]
  have g: "geometry p" and chain: "file_chain p B cs" using o p by (simp_all add: fat_holds_def)
  note spc = spc_pos [OF g]
  have ne: "cs \<noteq> []" using chain by (auto simp: file_chain_def)
  have len: "length (B a) = 512" for a using o holds_length by blast
  define I :: "nat \<Rightarrow> u32 \<times> u8 list \<times> fat_dir_entry_idx \<times> fat_state \<Rightarrow> bool"
    where "I j x \<longleftrightarrow> (\<exists>sec' idx' s'. x = (cs ! j, sec', idx', s') \<and> length sec' = 512 \<and> searched B s0 s')" for j x
  define K :: "u32 \<times> u8 list \<times> fat_dir_entry_idx \<times> fat_state \<Rightarrow> bool"
    where "K x \<longleftrightarrow> (\<exists>c sec' idx' s'. x = (c, sec', idx', s') \<and> length sec' = 512 \<and> searched B s0 s')" for x
  define J :: "nat \<Rightarrow> u32 \<times> u8 list \<times> fat_dir_entry_idx \<times> fat_state \<Rightarrow> bool"
    where "J j x \<longleftrightarrow> (\<exists>n c sec' idx' s'. x = (c, sec', idx', s') \<and> n div 16 div spc p = j \<and> named part (dir_entry p B cs n) \<and>
    (\<forall>i. i div 16 div spc p = j \<and> i < n \<longrightarrow> \<not> named part (dir_entry p B cs i)) \<and> found_at p B cs n sec' idx' s0 s')" for j x
  define hit where "hit j \<longleftrightarrow> (\<exists>i. i div 16 div spc p = j \<and> named part (dir_entry p B cs i))" for j
  have step: "\<exists>x'. if hit j then find_in_directory path pmin pmax x = Some (Some True, x') \<and> J j x'
      else if Suc j < length cs then find_in_directory path pmin pmax x = Some (None, x') \<and> I (Suc j) x'
      else find_in_directory path pmin pmax x = Some (Some False, x') \<and> K x'"
    if Ij: "I j x" and j: "j < length cs" for j x
  proof -
    obtain sec' idx' s' where x: "x = (cs ! j, sec', idx', s')" "length sec' = 512" "searched B s0 s'"
      using Ij unfolding I_def by blast
    have ps: "fat_pinfo s' = p" using x(3) p by (simp add: state_simps)
    note found = find_in_cluster_result [OF ok p j, of "idx'\<lparr>dir_cluster := cs ! j, dir_sector := 0\<rparr>", simplified, OF x(3,2) refl]
    show ?thesis
    proof (cases "hit j")
      case True
      then have "\<not> (\<forall>i. i div 16 div spc p = j \<longrightarrow> \<not> named part (dir_entry p B cs i))" by (auto simp: hit_def)
      with found obtain n sec2 idx2 s2 where n: "n div 16 div spc p = j" "named part (dir_entry p B cs n)"
        "\<forall>i. i div 16 div spc p = j \<and> i < n \<longrightarrow> \<not> named part (dir_entry p B cs i)" "found_at p B cs n sec2 idx2 s0 s2"
        "loop_until (find_in_cluster path pmin pmax (fat_first_sector_of_cluster p (cs ! j)))
          (sec', idx'\<lparr>dir_cluster := cs ! j, dir_sector := 0\<rparr>, s') = Some (True, sec2, idx2, s2)"
        by blast
      then have "J j (cs ! j, sec2, idx2, s2)" unfolding J_def by blast
      with True n(5) show ?thesis by (simp add: find_in_directory_def x(1) ps)
    next
      case False
      then have "\<forall>i. i div 16 div spc p = j \<longrightarrow> \<not> named part (dir_entry p B cs i)" by (auto simp: hit_def)
      with found obtain sec2 idx2 s2 where n: "length sec2 = 512" "searched B s0 s2"
        "loop_until (find_in_cluster path pmin pmax (fat_first_sector_of_cluster p (cs ! j)))
          (sec', idx'\<lparr>dir_cluster := cs ! j, dir_sector := 0\<rparr>, s') = Some (False, sec2, idx2, s2)"
        by blast
      have h2: "fat_holds B s2" "fat_pinfo s2 = p" using searched_holds [OF n(2)] g p n(2) by (simp_all add: state_simps)
      have "unat (cs ! j) < table_size (fat_pinfo s2)" using file_chain_data [OF chain j] h2(2) by (simp add: data_cluster_def)
      then obtain s3 where s3: "fat_get_table_value (cs ! j) s2 = Some (Some (fat_entry p B (cs ! j)), s3)" "fat_after B s2 s3"
        using get_table_value [OF h2(1)] h2(2) by metis
      have at3: "searched B s0 s3" using searched_after [OF n(2) s3(2)] .
      have "FAT_TV_LAST (fat_entry p B (cs ! j))" if "\<not> Suc j < length cs"
      proof -
        have "j = length cs - 1" using that j by simp
        then have "cs ! j = last cs" using ne by (simp add: last_conv_nth)
        then show ?thesis using chain_last chain by (simp add: file_chain_def)
      qed
      moreover have "fat_entry p B (cs ! j) = cs ! Suc j \<and> \<not> FAT_TV_LAST (cs ! Suc j) \<and> \<not> FAT_TV_BAD (cs ! Suc j)" if "Suc j < length cs"
        using file_chain_nth [OF chain that] by simp
      ultimately show ?thesis using False n(1,3) s3(1) at3
        by (cases "Suc j < length cs") (simp_all add: find_in_directory_def x(1) ps I_def K_def)
    qed
  qed
  have "I 0 (hd cs, sec, idx, s)" using s sec ne by (simp add: I_def hd_conv_nth)
  from loop_until_search [where round = "find_in_directory path pmin pmax" and hit = hit and I = I and J = J and K = K, OF this _ step] ne
  have "(\<exists>j x'. j < length cs \<and> hit j \<and> (\<forall>i < j. \<not> hit i) \<and>
      loop_until (find_in_directory path pmin pmax) (hd cs, sec, idx, s) = Some (True, x') \<and> J j x') \<or>
    (\<forall>i < length cs. \<not> hit i) \<and>
      (\<exists>x'. loop_until (find_in_directory path pmin pmax) (hd cs, sec, idx, s) = Some (False, x') \<and> K x')"
    by simp
  then show ?thesis
  proof (elim disjE exE conjE)
    fix j x' assume j: "j < length cs" "\<forall>i < j. \<not> hit i" "J j x'"
      and loop: "loop_until (find_in_directory path pmin pmax) (hd cs, sec, idx, s) = Some (True, x')"
    obtain n c sec' idx' s' where x': "x' = (c, sec', idx', s')" "n div 16 div spc p = j" "named part (dir_entry p B cs n)"
      "\<forall>i. i div 16 div spc p = j \<and> i < n \<longrightarrow> \<not> named part (dir_entry p B cs i)" "found_at p B cs n sec' idx' s0 s'"
      using j(3) unfolding J_def by blast
    have "\<not> named part (dir_entry p B cs i)" if "i < n" for i
    proof -
      have "i div 16 div spc p \<le> j" using that x'(2) by (metis div_le_mono less_imp_le)
      then show ?thesis using x'(4) that j(2) by (metis hit_def le_neq_implies_less)
    qed
    then have "dir_lookup p B cs part = Some n" using x'(2,3) j(1) by (simp add: dir_lookup_Some dir_size_cluster [OF spc])
    moreover have "length sec' = 512" "searched B s0 s'" using x'(5) len by (simp_all add: found_at_def)
    ultimately show ?thesis using loop x' by auto
  next
    fix x' assume none: "\<forall>i < length cs. \<not> hit i" "K x'"
      and loop: "loop_until (find_in_directory path pmin pmax) (hd cs, sec, idx, s) = Some (False, x')"
    have "dir_lookup p B cs part = None" using none(1) by (auto simp: dir_lookup_None dir_size_cluster [OF spc] hit_def)
    with none(2) loop show ?thesis by (auto simp: K_def)
  qed
qed

section \<open>Resolving a path\<close>

definition is_directory :: "u8 list \<Rightarrow> bool" where
  "is_directory e \<longleftrightarrow> FAT_DIRECTORY AND fat_attrib_of_dir_entry e 0 \<noteq> 0"

fun path_of :: "u8 list list \<Rightarrow> u8 list" where
  "path_of [] = [0]"
| "path_of [part] = part @ [0]"
| "path_of (part # next # parts) = part @ 0x2F # path_of (next # parts)"

text \<open>
  What a path means, from the directory in cluster \<open>c\<close> on: an error, or the clusters of a directory and
  the number of an entry.
\<close>

inductive resolves ::
  "fat_partition_info \<Rightarrow> blocks \<Rightarrow> u32 \<Rightarrow> u8 list list \<Rightarrow> errno + u32 list \<times> nat \<Rightarrow> bool" for p B where
  missing: "file_chain p B (c # cs) \<Longrightarrow> short_names p B (c # cs) \<Longrightarrow> dir_lookup p B (c # cs) part = None \<Longrightarrow>
    resolves p B c (part # parts) (Inl ENOENT)"
| found: "file_chain p B (c # cs) \<Longrightarrow> short_names p B (c # cs) \<Longrightarrow> dir_lookup p B (c # cs) part = Some n \<Longrightarrow>
    resolves p B c [part] (Inr (c # cs, n))"
| not_dir: "file_chain p B (c # cs) \<Longrightarrow> short_names p B (c # cs) \<Longrightarrow> dir_lookup p B (c # cs) part = Some n \<Longrightarrow>
    \<not> is_directory (dir_entry p B (c # cs) n) \<Longrightarrow> resolves p B c (part # next # parts) (Inl ENOTDIR)"
| descend: "file_chain p B (c # cs) \<Longrightarrow> short_names p B (c # cs) \<Longrightarrow> dir_lookup p B (c # cs) part = Some n \<Longrightarrow>
    is_directory (dir_entry p B (c # cs) n) \<Longrightarrow>
    resolves p B (fat_cluster_of_dir_entry (dir_entry p B (c # cs) n) 0) (next # parts) r \<Longrightarrow>
    resolves p B c (part # next # parts) r"

lemma next_delim:
  assumes "\<forall>c \<in> set part. \<not> path_delim c" and "path_delim d"
  shows "fat_idx_of_next_path_delim (pre @ part @ d # rest) (length pre) = Some (length pre + length part)"
  using assms by (auto simp: fat_idx_of_next_path_delim_def find_Some_iff nth_append intro!: exI [of _ "length part"])

lemma dir_entry_fields:
  assumes "length (B (sector_at p cs (n div 16))) = 512"
  shows "fat_attrib_of_dir_entry (B (sector_at p cs (n div 16))) (n mod 16) = fat_attrib_of_dir_entry (dir_entry p B cs n) 0"
    and "fat_cluster_of_dir_entry (B (sector_at p cs (n div 16))) (n mod 16) = fat_cluster_of_dir_entry (dir_entry p B cs n) 0"
    and "fat_size_of_dir_entry (B (sector_at p cs (n div 16))) (n mod 16) = fat_size_of_dir_entry (dir_entry p B cs n) 0"
  by (simp_all add: dir_entry_def fat_attrib_of_dir_entry_def fat_cluster_of_dir_entry_def fat_size_of_dir_entry_def
      fat_get_uint16_def fat_get_uint32_def FAT_DIR_ENTRY_WIDTH_def Let_def assms
      add.commute [of _ "n mod 16 * 32"])

text \<open>One part of a path.\<close>

lemma resolve_step_result:
  assumes holds: "fat_holds B s0" and room: "13 \<le> length (long_name8 s0)" and p: "p = fat_pinfo s0"
    and cs: "file_chain p B (c # cs)" "short_names p B (c # cs)" and part: "\<forall>x \<in> set part. \<not> path_delim x" "path_delim d"
    and path: "path = pre @ part @ d # rest" and s: "searched B s0 s" and sec: "length sec = 512"
  shows "\<exists>c' sec' idx' s'. length sec' = 512 \<and> searched B s0 s' \<and>
    resolve_step path (length pre, c, sec, idx, s) =
      (case dir_lookup p B (c # cs) part of
         None \<Rightarrow> Some (Some ENOENT, length pre, c', sec', idx', s')
       | Some n \<Rightarrow>
           if d = 0 then Some (Some OK, length pre, c', sec', idx', s')
           else if is_directory (dir_entry p B (c # cs) n)
           then Some (None, length pre + length part + 1, fat_cluster_of_dir_entry (dir_entry p B (c # cs) n) 0, sec', idx', s')
           else Some (Some ENOTDIR, length pre, c', sec', idx', s')) \<and>
    (\<forall>n. dir_lookup p B (c # cs) part = Some n \<longrightarrow> found_at p B (c # cs) n sec' idx' s0 s')"
proof -
  have ok: "search_ok B (c # cs) path (length pre) (length pre + length part) part s0"
    using holds room cs by (simp add: search_ok_def path p)
  obtain c' sec' idx' s' where r: "loop_until (find_in_directory path (length pre) (length pre + length part)) (c, sec, idx, s) =
      Some (dir_lookup p B (c # cs) part \<noteq> None, c', sec', idx', s')" "searched B s0 s'" "length sec' = 512"
    "\<forall>n. dir_lookup p B (c # cs) part = Some n \<longrightarrow> found_at p B (c # cs) n sec' idx' s0 s'"
    using find_in_directory_result [OF ok p s sec, of idx] by auto
  have delim: "fat_idx_of_next_path_delim path (length pre) = Some (length pre + length part)" "path ! (length pre + length part) = d"
    using next_delim [OF part] by (simp_all add: path nth_append)
  have entry: "fat_attrib_of_dir_entry sec' (unat (dir_index idx')) = fat_attrib_of_dir_entry (dir_entry p B (c # cs) n) 0"
    "fat_cluster_of_dir_entry sec' (unat (dir_index idx')) = fat_cluster_of_dir_entry (dir_entry p B (c # cs) n) 0"
    if "dir_lookup p B (c # cs) part = Some n" for n
    using r(4) that dir_entry_fields [OF holds_length [OF holds], where p = p and cs = "c # cs" and n = n]
    by (simp_all add: found_at_def idx_at_def unat_of_nat_word)
  show ?thesis
    by (intro exI [of _ c'] exI [of _ sec'] exI [of _ idx'] exI [of _ s'])
      (use r delim in \<open>simp add: resolve_step_def entry is_directory_def split: option.splits\<close>)
qed

lemma path_of_Cons: "\<exists>d rest. path_of (part # parts) = part @ d # rest \<and> path_delim d \<and> (d = 0 \<longleftrightarrow> parts = []) \<and>
    (\<forall>next more. parts = next # more \<longrightarrow> rest = path_of parts)"
  by (cases parts) (auto simp: path_delim_def)

lemma resolve_loop:
  assumes "resolves p B c parts r" and holds: "fat_holds B s0" and room: "13 \<le> length (long_name8 s0)" and p: "p = fat_pinfo s0"
    and "\<forall>part \<in> set parts. \<forall>x \<in> set part. \<not> path_delim x" and "searched B s0 s" and "length sec = 512"
    and "path = pre @ path_of parts"
  shows "\<exists>k c' sec' idx' s'. loop_until (resolve_step path) (length pre, c, sec, idx, s) =
      Some (case r of Inl e \<Rightarrow> e | Inr _ \<Rightarrow> OK, k, c', sec', idx', s') \<and> searched B s0 s' \<and> length sec' = 512 \<and>
    (\<forall>cs n. r = Inr (cs, n) \<longrightarrow> found_at p B cs n sec' idx' s0 s')"
  using assms(1,5-)
proof (induction arbitrary: s sec idx pre)
  case (missing c cs part parts)
  obtain d rest where path: "path = pre @ part @ d # rest" "path_delim d" using path_of_Cons [of part parts] missing.prems by auto
  obtain c' sec' idx' s' where step: "resolve_step path (length pre, c, sec, idx, s) = Some (Some ENOENT, length pre, c', sec', idx', s')"
    "length sec' = 512" "searched B s0 s'"
    using resolve_step_result [OF holds room p missing.hyps(1,2) _ path(2,1) missing.prems(2,3), of idx] missing.prems(1) missing.hyps(3) by auto
  then show ?case using loop_until_exit [where round = "resolve_step path", OF step(1)] by auto
next
  case (found c cs part n)
  have path: "path = pre @ part @ 0 # []" "path_delim 0" using found.prems by (simp_all add: path_delim_def)
  obtain c' sec' idx' s' where step: "resolve_step path (length pre, c, sec, idx, s) = Some (Some OK, length pre, c', sec', idx', s')"
    "length sec' = 512" "searched B s0 s'" "found_at p B (c # cs) n sec' idx' s0 s'"
    using resolve_step_result [OF holds room p found.hyps(1,2) _ path(2,1) found.prems(2,3), of idx] found.prems(1) found.hyps(3) by auto
  then show ?case using loop_until_exit [where round = "resolve_step path", OF step(1)] by auto
next
  case (not_dir c cs part n "next" parts)
  have path: "path = pre @ part @ 0x2F # path_of (next # parts)" "path_delim 0x2F" using not_dir.prems by (simp_all add: path_delim_def)
  obtain c' sec' idx' s' where step: "resolve_step path (length pre, c, sec, idx, s) = Some (Some ENOTDIR, length pre, c', sec', idx', s')"
    "length sec' = 512" "searched B s0 s'"
    using resolve_step_result [OF holds room p not_dir.hyps(1,2) _ path(2,1) not_dir.prems(2,3), of idx] not_dir.prems(1) not_dir.hyps(3,4) by auto
  then show ?case using loop_until_exit [where round = "resolve_step path", OF step(1)] by auto
next
  case (descend c cs part n "next" parts r)
  have path: "path = pre @ part @ 0x2F # path_of (next # parts)" "path_delim 0x2F" using descend.prems by (simp_all add: path_delim_def)
  obtain sec' idx' s' where step: "resolve_step path (length pre, c, sec, idx, s) = Some (None, length pre + length part + 1,
      fat_cluster_of_dir_entry (dir_entry p B (c # cs) n) 0, sec', idx', s')" "length sec' = 512" "searched B s0 s'"
    using resolve_step_result [OF holds room p descend.hyps(1,2) _ path(2,1) descend.prems(2,3), of idx] descend.prems(1) descend.hyps(3,4)
    by auto
  have "path = (pre @ part @ [0x2F]) @ path_of (next # parts)" using path(1) by simp
  from descend.IH [OF _ step(3,2) this, of idx'] descend.prems(1)
  show ?case by (simp add: loop_until_next [where round = "resolve_step path", OF step(1)])
qed

end
