(* ===== verification/Fat_Access.thy ===== *)
theory Fat_Access
  imports Fat_Write Sd_Model
begin

text \<open>
  What a client of the FAT32 library sees: the contents of a file as a list of bytes, what reads,
  seeks and writes do with it, and a small disk on which the properties are applied.
\<close>

section \<open>Contents\<close>

definition contents :: "blocks \<Rightarrow> u32 list \<Rightarrow> int \<Rightarrow> fat_state \<Rightarrow> u8 list" where
  "contents B cs fd s = file_bytes (fat_pinfo s) B cs 0 (unat (file_size (open_file fd s)))"

text \<open>The cluster the position lies in, which the cursor should stand on.\<close>

definition cluster_of_pos :: "int \<Rightarrow> fat_state \<Rightarrow> nat" where
  "cluster_of_pos fd s = unat (file_pos (open_file fd s)) div 512 div spc (fat_pinfo s)"

lemma file_bytes_part: "q + n \<le> m \<Longrightarrow> file_bytes p B cs q n = take n (drop q (file_bytes p B cs 0 m))"
  by (simp add: file_bytes_def take_map drop_map)

lemma cursor_byte_less:
  assumes "geometry p" and "j < length cs"
  shows "cursor_byte p j pos < capacity p cs"
proof -
  note spc = spc_pos [OF assms(1)]
  have "cursor_byte p j pos div 512 div spc p < length cs" using cursor_byte_div(2) [OF spc] assms(2) by simp
  then show ?thesis using spc by (simp add: capacity_def div_less_iff_less_mult ac_simps)
qed

lemma file_atD:
  assumes "file_at fd B cs j s"
  shows "geometry (fat_pinfo s)" and "valid_fd fd s" and "fd_error fd s = None" and "file_chain (fat_pinfo s) B cs"
    and "j < length cs" and "file_pos (open_file fd s) \<le> file_size (open_file fd s)" and "fat_holds B s"
    and "unat (file_size (open_file fd s)) \<le> capacity (fat_pinfo s) cs"
  using assms fd_error_valid [of fd s] by (auto simp: file_at_def Let_def fat_holds_def)

text \<open>The file after its cursor and its position have moved.\<close>

lemma file_at_moved:
  assumes opened: "file_at fd B cs j s" and "disk_holds B' d" and "file_chain (fat_pinfo s) B' cs"
    and "j' < length cs" and "pos \<le> file_size (open_file fd s)"
  shows "file_at fd B' cs j' (update_file fd (\<lambda>f. f\<lparr>current_cluster := cs ! j', file_pos := pos\<rparr>) (s\<lparr>dev := d\<rparr>))"
  using assms file_atD(2) [OF opened] unfolding file_at_def Let_def
  by (simp add: fat_holds_def fd_error_def update_file_def open_file_def valid_fd_def split: if_splits)

text \<open>A read, from byte \<open>q\<close> on, with the file it leaves.\<close>

lemma fat_read_moves:
  assumes opened: "file_at fd B cs j s" and f: "f = open_file fd s" and p: "p = fat_pinfo s"
    and nowrap: "unat (file_pos f) + unat sz < 2 ^ 32"
    and n: "n = min (unat sz) (unat (file_size f) - unat (file_pos f))"
    and q: "q = cursor_byte p j (unat (file_pos f))" and room: "q + n \<le> capacity p cs"
    and buf: "n \<le> length buf" "length buf < 2 ^ 31"
    and j': "j' = (if n = 0 then q else q + n - 1) div 512 div spc p"
  shows "\<exists>s'. fat_read fd buf sz s = Some (int n, file_bytes p B cs q n @ drop n buf, s') \<and> fat_errno s' = OK \<and>
    file_at fd B cs j' s' \<and> open_file fd s' = f\<lparr>current_cluster := cs ! j', file_pos := file_pos f + of_nat n\<rparr> \<and>
    (\<exists>d. disk_holds B d \<and> s' = update_file fd (\<lambda>f. f\<lparr>current_cluster := cs ! j', file_pos := file_pos f + of_nat n\<rparr>) (s\<lparr>dev := d\<rparr>))"
proof -
  note at = file_atD [OF opened, folded f p]
  have j: "j < length cs" and fd: "valid_fd fd s" using at by blast+
  obtain s' d where s': "fat_read fd buf sz s = Some (int n, file_bytes p B cs q n @ drop n buf, s')" "fat_errno s' = OK"
    "disk_holds B d" "s' = update_file fd (\<lambda>f. f\<lparr>current_cluster := cs ! j', file_pos := file_pos f + of_nat n\<rparr>) (s\<lparr>dev := d\<rparr>)"
    using fat_read_result [OF opened f p nowrap n q room buf] unfolding j' by blast
  have "(if n = 0 then q else q + n - 1) < capacity p cs"
    using cursor_byte_less [OF at(1) j, of "unat (file_pos f)"] room q by auto
  then have less: "j' < length cs"
    using spc_pos [OF at(1)] unfolding j' by (simp add: capacity_def div_less_iff_less_mult ac_simps)
  have le: "unat (file_pos f) \<le> unat (file_size f)" using at(6) by (simp add: word_le_nat_alt)
  have "unat (of_nat n :: u32) = n" using n nowrap by (intro unat_of_nat_word) simp
  then have "unat (file_pos f + of_nat n) = unat (file_pos f) + n" using nowrap n by (subst unat_plus_u32) auto
  then have pos: "file_pos f + of_nat n \<le> file_size (open_file fd s)"
    using le n f by (simp add: word_le_nat_alt)
  have same: "s' = update_file fd (\<lambda>f'. f'\<lparr>current_cluster := cs ! j', file_pos := file_pos f + of_nat n\<rparr>) (s\<lparr>dev := d\<rparr>)"
    unfolding s'(4) f by (rule update_cong) simp
  have "file_at fd B cs j' s'" unfolding same using file_at_moved [OF opened s'(3) _ less pos] at(4) p by simp
  moreover have "open_file fd s' = f\<lparr>current_cluster := cs ! j', file_pos := file_pos f + of_nat n\<rparr>"
    using fd by (simp add: s'(4) f open_file_def update_file_def valid_fd_def)
  ultimately show ?thesis using s' by blast
qed

section \<open>A small disk\<close>

text \<open>
  A partition with one sector of table and clusters of one sector; a file of 1000 bytes with the
  clusters 3 and 4, which hold threes and fours, opened as the first file, and one of 100 fives in
  cluster 5, opened as the second one; their directory is cluster 2, with the names A.TXT and B.
\<close>

definition sample_info :: fat_partition_info where
  "sample_info = \<lparr>vol_begin_addr = 0, bytes_per_sector = 512, sectors_per_cluster = 1, num_res_sectors = 1, num_fats = 1,
     num_dir_entries = 0, num_total_sectors = 136, media_desc_type = 0xF8, sectors_per_fat = 1, root_dir_cluster = 2,
     fat_begin_addr = 1, cluster_begin_addr = 8, entries_per_sector = 16, root_dir_addr = 8\<rparr>"

definition sample_dir_entry :: "u8 list \<Rightarrow> u8 \<Rightarrow> u8 list \<Rightarrow> u8 list" where
  "sample_dir_entry name c sz = name @ [0x20] @ replicate 14 0 @ [c, 0] @ sz"

definition sample_directory :: "u8 list" where
  "sample_directory =
     sample_dir_entry [0x41, 0x20, 0x20, 0x20, 0x20, 0x20, 0x20, 0x20, 0x54, 0x58, 0x54] 3 [0xE8, 0x03, 0, 0] @
     sample_dir_entry [0x42, 0x20, 0x20, 0x20, 0x20, 0x20, 0x20, 0x20, 0x20, 0x20, 0x20] 5 [0x64, 0, 0, 0] @
     replicate 448 0"

definition sample_data :: blocks where
  "sample_data a = (if a = 8 then sample_directory else replicate 512 (if a = 9 then 3 else if a = 10 then 4 else if a = 11 then 5 else 0))"

lemma sample_data_length [simp]: "length (sample_data a) = 512"
  by (simp add: sample_data_def sample_directory_def sample_dir_entry_def)

definition sample_blocks :: blocks where
  "sample_blocks = put_entry sample_info 0x0FFFFFFF 1 (put_entry sample_info 0x0FFFFFFF 2
     (put_entry sample_info 4 3 (put_entry sample_info 0x0FFFFFFF 4 (put_entry sample_info 0x0FFFFFFF 5 sample_data))))"

definition sample_file :: "u32 \<Rightarrow> fat_file" where
  "sample_file pos = \<lparr>file_free = False, file_pos = pos, file_dir_idx = \<lparr>dir_cluster = 2, dir_sector = 0, dir_index = 0\<rparr>,
     start_cluster = 3, current_cluster = 3, file_size = 1000\<rparr>"

definition sample_other :: fat_file where
  "sample_other = \<lparr>file_free = False, file_pos = 0, file_dir_idx = \<lparr>dir_cluster = 2, dir_sector = 0, dir_index = 1\<rparr>,
     start_cluster = 5, current_cluster = 5, file_size = 100\<rparr>"

definition sample_state :: "u32 \<Rightarrow> fat_state" where
  "sample_state pos = \<lparr>dev = model_disk sample_blocks, fat_pinfo = sample_info,
     fat_open_files = sample_file pos # sample_other # replicate 14 ((sample_file 0)\<lparr>file_free := True\<rparr>),
     long_name16 = replicate 255 0, long_name8 = replicate 255 0, fat_initialized = True\<rparr>"

lemma sample_length: "length (sample_blocks a) = 512"
  by (simp add: sample_blocks_def put_entry_length)

lemma sample_entry:
  "fat_entry sample_info sample_blocks = (fat_entry sample_info sample_data)(5 := 0x0FFFFFFF, 4 := 0x0FFFFFFF, 3 := 4, 2 := 0x0FFFFFFF, 1 := 0x0FFFFFFF)"
  by (simp add: sample_blocks_def fat_entry_put put_entry_length)

lemma sample_chain: "file_chain sample_info sample_blocks [3, 4]"
proof -
  have "table_size sample_info = 128" by (simp add: table_size_def sample_info_def)
  then show ?thesis
    by (simp add: file_chain_def sample_entry data_cluster_def FAT_TV_LAST_def FAT_TV_BAD_def FAT_TV_FREE_def)
qed

lemma sample_file_at: "pos \<le> 511 \<Longrightarrow> file_at 3 sample_blocks [3, 4] 0 (sample_state pos)"
  using sample_chain model_disk_holds [OF sample_length]
  by (simp add: file_at_def sample_state_def open_file_def file_index_def FAT_FD_OFFSET_def FAT_MAX_FILES_def fd_error_def
      fat_holds_def sample_file_def capacity_def spc_def geometry_def sample_info_def word_le_nat_alt)

lemma sample_byte: "file_byte sample_info sample_blocks [3, 4] i = (if i < 512 then 3 else 4)" if "i < 1024"
proof -
  have "i div 512 = 0 \<or> i div 512 = 1" using that by auto
  moreover have "i < 512 \<longleftrightarrow> i div 512 = 0" by auto
  moreover have "a \<noteq> fat_sector sample_info 1 \<Longrightarrow> a \<noteq> fat_sector sample_info 2 \<Longrightarrow> a \<noteq> fat_sector sample_info 3 \<Longrightarrow>
      a \<noteq> fat_sector sample_info 4 \<Longrightarrow> a \<noteq> fat_sector sample_info 5 \<Longrightarrow> sample_blocks a = sample_data a" for a
    by (simp add: sample_blocks_def put_entry_other)
  ultimately show ?thesis
    by (auto simp: file_byte_def sector_at_def spc_def fat_first_sector_of_cluster_def fat_sector_def sample_info_def sample_data_def)
qed

lemma sample_fields:
  "open_file 3 (sample_state pos) = sample_file pos" "fat_pinfo (sample_state pos) = sample_info"
  "cluster_of_pos 3 (sample_state pos) = unat pos div 512"
  by (simp_all add: sample_state_def open_file_def file_index_def FAT_FD_OFFSET_def cluster_of_pos_def sample_file_def
      spc_def sample_info_def)

lemma sample_contents:
  assumes "q + n \<le> 1000"
  shows "take n (drop q (contents sample_blocks [3, 4] 3 (sample_state pos))) = map (\<lambda>i. if i < 512 then 3 else 4) [q..<q + n]"
proof -
  have "unat (file_size (sample_file pos)) = 1000" by (simp add: sample_file_def)
  with assms show ?thesis
    by (simp add: contents_def sample_fields file_bytes_part [symmetric]) (simp add: file_bytes_def sample_byte)
qed

section \<open>Reading\<close>

lemma fat_read_part:
  assumes opened: "file_at fd B cs j s" and right: "j = cluster_of_pos fd s \<or> file_pos (open_file fd s) = file_size (open_file fd s)"
    and "unat (file_pos (open_file fd s)) + unat sz < 2 ^ 32" and "unat sz \<le> length buf" and "length buf < 2 ^ 31"
  shows "let f = open_file fd s; n = min (unat sz) (unat (file_size f) - unat (file_pos f)) in
    \<exists>j' s'. fat_read fd buf sz s =
      Some (int n, take n (drop (unat (file_pos f)) (contents B cs fd s)) @ drop n buf, s') \<and> fat_errno s' = OK \<and>
      file_at fd B cs j' s' \<and> open_file fd s' = f\<lparr>current_cluster := cs ! j', file_pos := file_pos f + of_nat n\<rparr>"
proof -
  define f where "f = open_file fd s"
  define p where "p = fat_pinfo s"
  note at = file_atD [OF opened, folded f_def p_def]
  define n where "n = min (unat sz) (unat (file_size f) - unat (file_pos f))"
  define q where "q = cursor_byte p j (unat (file_pos f))"
  have le: "unat (file_pos f) \<le> unat (file_size f)" using at(6) by (simp add: word_le_nat_alt)
  have "q = unat (file_pos f) \<or> n = 0"
    using right cursor_byte_pos by (auto simp: q_def n_def f_def p_def cluster_of_pos_def)
  moreover have "unat (file_pos f) + n \<le> unat (file_size f)" using le by (simp add: n_def)
  ultimately have room: "q + n \<le> capacity p cs"
    and bytes: "file_bytes p B cs q n = take n (drop (unat (file_pos f)) (contents B cs fd s))"
    using at(8) cursor_byte_less [OF at(1,5), of "unat (file_pos f)"]
    by (auto simp: contents_def file_bytes_part q_def f_def [symmetric] p_def [symmetric]) (simp add: file_bytes_def)
  have "unat (file_pos f) + unat sz < 2 ^ 32" "n \<le> length buf" using assms(3,4) by (simp_all add: f_def n_def)
  from fat_read_moves [OF opened f_def p_def this(1) n_def q_def room this(2) assms(5) refl] bytes show ?thesis
    unfolding Let_def f_def [symmetric] n_def [symmetric] by auto
qed

text \<open>C9: A read at a file position whose cluster is the current one returns the next bytes of the
  file, as many as asked for and left, leaves the rest of the buffer alone and moves the position
  behind them.\<close>

theorem fat_read_contents:
  assumes opened: "file_at fd B cs j s" and right: "j = cluster_of_pos fd s \<or> file_pos (open_file fd s) = file_size (open_file fd s)"
    and "unat (file_pos (open_file fd s)) + unat sz < 2 ^ 32" and "unat sz \<le> length buf" and "length buf < 2 ^ 31"
  shows "let f = open_file fd s; n = min (unat sz) (unat (file_size f) - unat (file_pos f)) in
    \<exists>j' s'. fat_read fd buf sz s =
      Some (int n, take n (drop (unat (file_pos f)) (contents B cs fd s)) @ drop n buf, s') \<and> fat_errno s' = OK \<and>
      file_at fd B cs j' s' \<and> open_file fd s' = f\<lparr>current_cluster := cs ! j', file_pos := file_pos f + of_nat n\<rparr>"
  by (rule fat_read_part [OF assms])

theorem fat_read_contents_witness:
  "\<exists>s'. fat_read 3 [0, 0, 9] 2 (sample_state 511) = Some (2, [3, 4, 9], s')"
proof -
  have "take 2 (drop 511 (contents sample_blocks [3, 4] 3 (sample_state 511))) = [3, 4]"
    by (subst sample_contents) simp_all
  then show ?thesis
    using fat_read_contents [OF sample_file_at, of 511 2 "[0, 0, 9]"] by (auto simp: Let_def sample_fields sample_file_def)
qed

lemma sint_u32_small: "unat (w :: u32) < 2 ^ 31 \<Longrightarrow> sint w = int (unat w)"
proof -
  assume w: "unat w < 2 ^ 31"
  have "sint (of_nat n :: u32) = int n" if "n < 2 ^ 31" for n
    using that by (simp add: signed_of_nat signed_take_bit_int_eq_self)
  from this [OF w] show ?thesis by simp
qed

lemma unat_less_u32: "unat (w :: u32) < 2 ^ 32"
  using unsigned_less [where ?'a = nat, of w] by simp

text \<open>The cursor after a read that ends with a cluster: it still stands on that cluster.\<close>

lemma cursor_byte_behind:
  assumes "0 < spc p" and "0 < e" and "e mod (512 * spc p) = 0"
  shows "cursor_byte p ((e - 1) div 512 div spc p) e = e - 512 * spc p"
proof -
  obtain k where "e = 512 * spc p * k" using assms(3) by auto
  with assms(2) obtain k where k: "e = 512 * spc p * Suc k" by (cases k) auto
  have "(e - 1) div (512 * spc p) = k"
  proof -
    have "e - 1 = k * (512 * spc p) + (512 * spc p - 1)" using k assms(1) by (simp add: algebra_simps)
    then show ?thesis using assms(1) by (simp only: div_mult_self3) simp
  qed
  then have "(e - 1) div 512 div spc p = k" by (simp add: div_mult2_eq)
  moreover have "e div 512 = Suc k * spc p" "e mod 512 = 0" by (simp_all add: k)
  ultimately show ?thesis by (simp add: cursor_byte_def k)
qed

text \<open>C39: A read that ends exactly with a cluster leaves the cursor on that cluster: the next read of
  up to a cluster's bytes returns that cluster's bytes a second time, not those at the file position.\<close>

theorem fat_read_stale:
  assumes opened: "file_at fd B cs j s" and right: "j = cluster_of_pos fd s" and f: "f = open_file fd s"
    and e: "e = unat (file_pos f) + unat sz" and m: "m = 512 * spc (fat_pinfo s)"
    and ends: "0 < sz" "e mod m = 0" and second: "unat sz' \<le> m" "e + unat sz' \<le> unat (file_size f)"
    and buf: "unat sz \<le> length buf" "length buf < 2 ^ 31" "unat sz' \<le> length buf'" "length buf' < 2 ^ 31"
  shows "\<exists>s1 s2. fat_read fd buf sz s =
      Some (int (unat sz), take (unat sz) (drop (unat (file_pos f)) (contents B cs fd s)) @ drop (unat sz) buf, s1) \<and>
    unat (file_pos (open_file fd s1)) = e \<and>
    fat_read fd buf' sz' s1 =
      Some (int (unat sz'), take (unat sz') (drop (e - m) (contents B cs fd s)) @ drop (unat sz') buf', s2)"
proof -
  define p where "p = fat_pinfo s"
  note at = file_atD [OF opened, folded f p_def]
  define j' where "j' = (e - 1) div 512 div spc p"
  have spc: "0 < spc p" by (rule spc_pos [OF at(1)])
  have sz: "0 < unat sz" using ends(1) by (simp add: word_less_nat_alt)
  have small: "e < 2 ^ 32" "e + unat sz' < 2 ^ 32" using second(2) unat_less_u32 [of "file_size f"] by simp_all
  have m_le: "m \<le> e" using ends(2) sz e by (intro dvd_imp_le) auto
  define q where "q = unat (file_pos f)"
  have n: "unat sz = min (unat sz) (unat (file_size f) - unat (file_pos f))" using second(2) e by simp
  have q: "q = cursor_byte p j (unat (file_pos f))"
    using right cursor_byte_pos by (simp add: q_def f p_def cluster_of_pos_def)
  have room: "q + unat sz \<le> capacity p cs" using at(8) second(2) e by (simp add: q_def)
  have j': "j' = (if unat sz = 0 then q else q + unat sz - 1) div 512 div spc p" using sz e by (simp add: j'_def q_def)
  obtain s1 d where s1: "fat_read fd buf sz s = Some (int (unat sz), file_bytes p B cs q (unat sz) @ drop (unat sz) buf, s1)"
    "file_at fd B cs j' s1" "open_file fd s1 = f\<lparr>current_cluster := cs ! j', file_pos := file_pos f + of_nat (unat sz)\<rparr>"
    "s1 = update_file fd (\<lambda>f. f\<lparr>current_cluster := cs ! j', file_pos := file_pos f + of_nat (unat sz)\<rparr>) (s\<lparr>dev := d\<rparr>)"
    using fat_read_moves [OF opened f p_def _ n q room buf(1,2) j'] small(1) e by blast
  have p1: "p = fat_pinfo s1" by (simp add: s1(4) p_def update_file_def)
  have pos1: "unat (file_pos (open_file fd s1)) = e" using small(1) e by (simp add: s1(3) unat_plus_u32)
  have size1: "file_size (open_file fd s1) = file_size f" by (simp add: s1(3))
  have n': "unat sz' = min (unat sz') (unat (file_size (open_file fd s1)) - unat (file_pos (open_file fd s1)))"
    using second(2) by (simp add: pos1 size1)
  have q': "e - m = cursor_byte p j' (unat (file_pos (open_file fd s1)))"
    using cursor_byte_behind [of p e] spc ends(2) sz e m by (simp add: pos1 j'_def p_def)
  have room': "e - m + unat sz' \<le> capacity p cs" using room second(1) e m_le by (simp add: q_def)
  have e_small: "unat (file_pos (open_file fd s1)) + unat sz' < 2 ^ 32" using small(2) pos1 by simp
  obtain s2 where "fat_read fd buf' sz' s1 = Some (int (unat sz'), file_bytes p B cs (e - m) (unat sz') @ drop (unat sz') buf', s2)"
    using fat_read_moves [OF s1(2) refl p1 e_small n' q' room' buf(3,4) refl] by blast
  moreover have "e - m + unat sz' \<le> unat (file_size f)" "q + unat sz \<le> unat (file_size f)" using second e by (simp_all add: q_def)
  ultimately show ?thesis using s1(1) pos1
    by (simp add: contents_def f [symmetric] p_def [symmetric] file_bytes_part [symmetric] q_def)
qed

theorem fat_read_stale_witness:
  "\<exists>s1 s2. fat_read 3 (replicate 512 0) 512 (sample_state 0) = Some (512, replicate 512 3, s1) \<and>
    fat_read 3 [0, 0] 2 s1 = Some (2, [3, 3], s2)"
proof -
  have "take 2 (drop 0 (contents sample_blocks [3, 4] 3 (sample_state 0))) = [3, 3]"
    by (subst sample_contents) simp_all
  moreover have "take 512 (drop 0 (contents sample_blocks [3, 4] 3 (sample_state 0))) = replicate 512 3"
    by (subst sample_contents) (simp_all add: list_eq_iff_nth_eq)
  moreover have "spc sample_info = 1" by (simp add: spc_def sample_info_def)
  ultimately show ?thesis
    using fat_read_stale [OF sample_file_at _ refl refl refl, of 0 512 2 "replicate 512 0" "[0, 0]"]
    by (simp add: sample_fields sample_file_def) blast
qed

section \<open>Seeking\<close>

lemma fat_lseek_target:
  assumes opened: "file_at fd B cs j s" and f: "f = open_file fd s"
    and right: "j = cluster_of_pos fd s \<or> (\<forall>a. seek_target f pos whence = Some a \<longrightarrow> a \<le> file_pos f)"
  shows "case seek_target f pos whence of
      None \<Rightarrow> fat_lseek fd pos whence s = Some (FAT_FAIL, set_errno EINVAL s)
    | Some a \<Rightarrow>
        if sint a < 0 \<or> a > file_size f then fat_lseek fd pos whence s = Some (FAT_FAIL, set_errno EPIPE s)
        else if unat a < capacity (fat_pinfo s) cs
        then \<exists>s'. fat_lseek fd pos whence s = Some (sint a, s') \<and> fat_errno s' = OK \<and>
          file_at fd B cs (cluster_of_pos fd s') s' \<and> file_pos (open_file fd s') = a \<and> contents B cs fd s' = contents B cs fd s
        else \<exists>s'. fat_lseek fd pos whence s = Some (FAT_FAIL, s') \<and> fat_errno s' = OK \<and> open_file fd s' = f"
proof (cases "seek_target f pos whence")
  case None
  then show ?thesis using file_atD(3) [OF opened] f by (simp add: fat_lseek_def Let_def set_errno_def)
next
  case (Some a)
  note at = file_atD [OF opened]
  define t where "t = unat a div 512 div spc (fat_pinfo s)"
  have less: "unat a < capacity (fat_pinfo s) cs \<longleftrightarrow> t < length cs"
    using spc_pos [OF at(1)] by (simp add: t_def capacity_def div_less_iff_less_mult ac_simps)
  show ?thesis
  proof (cases "sint a < 0 \<or> a > file_size f")
    case True
    with Some show ?thesis using at(3) f by (auto simp: fat_lseek_def Let_def set_errno_def)
  next
    case False
    have "a \<le> file_pos f \<or> j = unat (file_pos f) div 512 div spc (fat_pinfo s)"
      using right Some f by (auto simp: cluster_of_pos_def)
    from fat_lseek_result [OF opened f refl Some _ _ this t_def] False have
      res: "if t < length cs
      then \<exists>s'. fat_lseek fd pos whence s = Some (sint a, s') \<and> fat_errno s' = OK \<and> file_at fd B cs t s' \<and>
        open_file fd s' = f\<lparr>current_cluster := cs ! t, file_pos := a\<rparr> \<and>
        (\<exists>d. s' = update_file fd (\<lambda>f. f\<lparr>current_cluster := cs ! t, file_pos := a\<rparr>) (s\<lparr>dev := d\<rparr>))
      else \<exists>s'. fat_lseek fd pos whence s = Some (FAT_FAIL, s') \<and> fat_errno s' = OK \<and> fat_after B s s'" by (simp add: not_less)
    show ?thesis
    proof (cases "t < length cs")
      case True
      with res obtain s' d where s': "fat_lseek fd pos whence s = Some (sint a, s')" "fat_errno s' = OK" "file_at fd B cs t s'"
        "open_file fd s' = f\<lparr>current_cluster := cs ! t, file_pos := a\<rparr>"
        "s' = update_file fd (\<lambda>f. f\<lparr>current_cluster := cs ! t, file_pos := a\<rparr>) (s\<lparr>dev := d\<rparr>)" by auto
      have "fat_pinfo s' = fat_pinfo s" by (simp add: s'(5) update_file_def)
      with s'(1-4) True False Some less f show ?thesis by (auto simp: cluster_of_pos_def contents_def t_def)
    next
      case out: False
      with res False Some less show ?thesis by (auto simp: open_file_def f state_simps)
    qed
  qed
qed




section \<open>Writing\<close>

lemma length_contents: "length (contents B cs fd s) = unat (file_size (open_file fd s))"
  by (simp add: contents_def)

lemma contents_overwritten:
  assumes w: "overwritten p pos m buf cs B cs' B'" and "pos \<le> sz" and "sz \<le> capacity p cs" and "m \<le> length buf"
  shows "file_bytes p B' cs' 0 (max sz (pos + m)) =
    take pos (file_bytes p B cs 0 sz) @ take m buf @ drop (pos + m) (file_bytes p B cs 0 sz)"
proof (rule nth_equalityI)
  fix i assume "i < length (file_bytes p B' cs' 0 (max sz (pos + m)))"
  then have i: "i < max sz (pos + m)" by simp
  consider "i < pos" | k where "i = pos + k" "k < m" | "pos + m \<le> i" "i < sz"
    using i by (cases "i < pos"; cases "i < pos + m") (auto simp: max_def not_less le_iff_add split: if_splits)
  then show "file_bytes p B' cs' 0 (max sz (pos + m)) ! i =
      (take pos (file_bytes p B cs 0 sz) @ take m buf @ drop (pos + m) (file_bytes p B cs 0 sz)) ! i"
    using i assms by cases (auto simp: file_bytes_def overwritten_def nth_append)
qed (use assms in \<open>auto simp: max_def\<close>)

lemma size_recorded_read:
  assumes "unat (dir_index i) < 16" and "length b = 512"
  shows "fat_size_of_dir_entry (size_recorded i sz b) (unat (dir_index i)) = sz"
  using assms by (simp add: fat_size_of_dir_entry_def size_recorded_def get_set_uint32 FAT_DIR_ENTRY_WIDTH_def)

text \<open>The situation of a write: a file with a right cursor, and an entry in a directory of its own cluster.\<close>

definition ready_to_write :: "int \<Rightarrow> blocks \<Rightarrow> u32 list \<Rightarrow> nat \<Rightarrow> fat_state \<Rightarrow> bool" where
  "ready_to_write fd B cs j s \<longleftrightarrow> file_at fd B cs j s \<and> j = cluster_of_pos fd s \<and>
     dir_entry_ok (fat_pinfo s) B cs (file_dir_idx (open_file fd s)) \<and> fat_entry (fat_pinfo s) B 1 \<noteq> 0"

text \<open>What is known after such a write of \<open>m\<close> bytes.\<close>

definition write_outcome ::
  "int \<Rightarrow> u8 list \<Rightarrow> u32 \<Rightarrow> blocks \<Rightarrow> u32 list \<Rightarrow> fat_state \<Rightarrow> nat \<Rightarrow> fat_state \<Rightarrow> u32 list \<Rightarrow> blocks \<Rightarrow> nat \<Rightarrow> sd_system \<Rightarrow> bool" where
  "write_outcome fd buf sz B cs s m s' cs' B' j' d \<longleftrightarrow>
     (let f = open_file fd s; p = fat_pinfo s; i = file_dir_idx f; pos = unat (file_pos f) in
      m \<le> unat sz \<and> (m < unat sz \<longrightarrow> (\<forall>c. \<not> free_cluster p B' c) \<and> pos + m = capacity p cs') \<and> file_at fd B' cs' j' s' \<and>
      s' = update_file fd (file_written (cs' ! j') m) (s\<lparr>dev := d\<rparr>) \<and> open_file fd s' = file_written (cs' ! j') m f \<and>
      grown p B cs cs' \<and> agrees p cs' {dir_block p i} B B' \<and>
      contents B' cs' fd s' = take pos (contents B cs fd s) @ take m buf @ drop (pos + m) (contents B cs fd s) \<and>
      unat (file_pos f + of_nat m) = pos + m \<and> pos \<le> unat (file_size f) \<and> pos < capacity p cs \<and>
      B' (dir_block p i) = (if unat (file_size f) < pos + m
        then size_recorded i (of_nat (pos + m)) (B (dir_block p i)) else B (dir_block p i)))"

lemma write_ready:
  assumes ready: "ready_to_write fd B cs j s"
    and nowrap: "unat (file_pos (open_file fd s)) + unat sz < 2 ^ 32" and buf: "unat sz \<le> length buf" "length buf < 2 ^ 31"
  obtains m s' cs' B' j' d where "fat_write fd buf sz s = Some (int m, s')"
    and "write_outcome fd buf sz B cs s m s' cs' B' j' d"
proof -
  define f where "f = open_file fd s"
  define p where "p = fat_pinfo s"
  define i where "i = file_dir_idx f"
  define pos where "pos = unat (file_pos f)"
  note nowrap = nowrap [folded f_def, folded pos_def]
  have opened: "file_at fd B cs j s" and dir: "dir_entry_ok p B cs i" and one: "fat_entry p B 1 \<noteq> 0"
    and right: "j = unat (file_pos f) div 512 div spc p"
    using ready unfolding ready_to_write_def cluster_of_pos_def p_def i_def f_def by blast+
  note at = file_atD [OF opened, folded f_def p_def]
  obtain m s' cs' B' j' d where r: "fat_write fd buf sz s = Some (int m, s')" "m \<le> unat sz"
    "m < unat sz \<longrightarrow> (\<forall>c. \<not> free_cluster p B' c) \<and> pos + m = capacity p cs'" "file_at fd B' cs' j' s'" "open_file fd s' = file_written (cs' ! j') m f"
    "s' = update_file fd (file_written (cs' ! j') m) (s\<lparr>dev := d\<rparr>)" "overwritten p pos m buf cs B cs' B'"
    "B' (dir_block p i) = (if file_pos f + of_nat m > file_size f
       then size_recorded i (file_pos f + of_nat m) (B (dir_block p i)) else B (dir_block p i))"
    "grown p B cs cs'" "agrees p cs' {dir_block p i} B B'"
    using fat_write_result [OF opened f_def p_def right dir [unfolded i_def] one nowrap [unfolded pos_def] buf]
    unfolding i_def pos_def by (metis less_irrefl)
  have new: "unat (file_pos f + of_nat m) = pos + m"
    using nowrap r(2) pos_def by (subst unat_plus_u32) (simp_all add: unat_of_nat_word)
  then have size: "unat (file_size (open_file fd s')) = max (unat (file_size f)) (pos + m)"
    by (auto simp: r(5) file_written_def word_less_nat_alt)
  have le: "pos \<le> unat (file_size f)" using at(6) by (simp add: pos_def word_le_nat_alt)
  with contents_overwritten [OF r(7) this at(8)] r(2) buf(1) size r(6)
  have contents: "contents B' cs' fd s' = take pos (contents B cs fd s) @ take m buf @ drop (pos + m) (contents B cs fd s)"
    by (simp add: contents_def f_def [symmetric] p_def [symmetric] update_file_def)
  have cap: "pos < capacity p cs" using cursor_byte_less [OF at(1,5), of pos] right pos_def cursor_byte_pos by metis
  have dir': "B' (dir_block p i) = (if unat (file_size f) < pos + m
       then size_recorded i (of_nat (pos + m)) (B (dir_block p i)) else B (dir_block p i))"
    using r(8) new by (simp add: word_less_nat_alt pos_def)
  have "write_outcome fd buf sz B cs s m s' cs' B' j' d"
    unfolding write_outcome_def Let_def f_def [symmetric] p_def [symmetric] i_def [symmetric] pos_def [symmetric]
    by (intro conjI r(2-6,9,10) contents new le cap dir')
  with r(1) show thesis by (rule that)
qed

text \<open>C4: A write puts its bytes into the file at the position and leaves the other bytes of the file as
  they were; a file that has grown records its new size in its directory entry. Fewer bytes than
  asked for are written only when they fill the file's clusters and no cluster of the disk is free any more;
  clusters are only added at the end of the file, and were free. This holds for an open file with its cursor on
  the cluster of the position (as a seek leaves it, and a read that ends with a cluster does not), a position in
  one of the file's clusters that does not wrap around, an entry in a directory cluster of its own that is in
  use, and a table whose entry 1 is not taken for a free cluster.\<close>

theorem fat_write_contents:
  assumes ready: "ready_to_write fd B cs j s" and f: "f = open_file fd s" and pos: "pos = unat (file_pos f)"
    and nowrap: "pos + unat sz < 2 ^ 32" and buf: "unat sz \<le> length buf" "length buf < 2 ^ 31"
  shows "\<exists>m s' new B' j'. fat_write fd buf sz s = Some (int m, s') \<and> m \<le> unat sz \<and>
    (m < unat sz \<longrightarrow> pos + m = capacity (fat_pinfo s) (cs @ new) \<and> (\<forall>c. \<not> free_cluster (fat_pinfo s) B' c)) \<and>
    (\<forall>c \<in> set new. free_cluster (fat_pinfo s) B c) \<and> file_at fd B' (cs @ new) j' s' \<and>
    contents B' (cs @ new) fd s' = take pos (contents B cs fd s) @ take m buf @ drop (pos + m) (contents B cs fd s) \<and>
    unat (file_pos (open_file fd s')) = pos + m \<and>
    (unat (file_size f) < pos + m \<longrightarrow> fat_size_of_dir_entry (B' (dir_block (fat_pinfo s) (file_dir_idx f)))
       (unat (dir_index (file_dir_idx f))) = of_nat (pos + m))"
proof -
  obtain m s' cs' B' j' d where w: "fat_write fd buf sz s = Some (int m, s')" "write_outcome fd buf sz B cs s m s' cs' B' j' d"
    using write_ready [OF ready nowrap [unfolded pos f] buf] by blast
  note r = w(2) [unfolded write_outcome_def Let_def, folded f, folded pos]
  have holds: "fat_holds B s" and "unat (dir_index (file_dir_idx f)) < 16"
    using ready f by (auto simp: ready_to_write_def dir_entry_ok_def dest: file_atD(7))
  then have "unat (file_size f) < pos + m \<longrightarrow> fat_size_of_dir_entry (B' (dir_block (fat_pinfo s) (file_dir_idx f)))
       (unat (dir_index (file_dir_idx f))) = of_nat (pos + m)"
    using r size_recorded_read holds_length [OF holds] by simp
  moreover have "open_file fd s' = file_written (cs' ! j') m f" "unat (file_pos f + of_nat m) = pos + m" using r by blast+
  then have "unat (file_pos (open_file fd s')) = pos + m" by (simp add: file_written_def)
  moreover obtain new where "cs' = cs @ new" "\<forall>c \<in> set new. free_cluster (fat_pinfo s) B c"
    using r unfolding grown_def by blast
  ultimately show ?thesis using w(1) r by blast
qed

lemma sample_ready: "ready_to_write 3 sample_blocks [3, 4] 0 (sample_state 511)"
  using sample_file_at [of 511] by (simp add: ready_to_write_def sample_fields sample_file_def dir_entry_ok_def
      data_cluster_def table_size_def spc_def sample_entry) (simp add: sample_info_def)

lemma sample_capacity: "1024 \<le> capacity sample_info ([3, 4] @ new)"
  by (simp add: capacity_def spc_def sample_info_def)

theorem fat_write_contents_witness:
  "\<exists>s'. fat_write 3 [7, 8] 2 (sample_state 511) = Some (2, s') \<and> unat (file_pos (open_file 3 s')) = 513 \<and>
    (\<exists>B' cs'. take 4 (drop 510 (contents B' cs' 3 s')) = [3, 7, 8, 4])"
proof -
  have pos: "unat (file_pos (open_file 3 (sample_state 511))) = 511" by (simp add: sample_fields sample_file_def)
  define old where "old = contents sample_blocks [3, 4] 3 (sample_state 511)"
  have len: "length old = 1000" unfolding old_def by (simp add: contents_def sample_fields sample_file_def)
  have "take 1 (drop 510 old) = [3]" "take 1 (drop 513 old) = [4]"
    unfolding old_def by (simp_all add: sample_contents)
  then have at: "old ! 510 = 3" "old ! 513 = 4" using len by (simp_all add: take_Suc_conv_app_nth [of 0, simplified] hd_drop_conv_nth)
  obtain m s' new B' where w: "fat_write 3 [7, 8] 2 (sample_state 511) = Some (int m, s')" "m \<le> 2"
    "m < 2 \<longrightarrow> 511 + m = capacity sample_info ([3, 4] @ new)" "unat (file_pos (open_file 3 s')) = 511 + m"
    "contents B' ([3, 4] @ new) 3 s' = take 511 old @ take m [7, 8] @ drop (511 + m) old"
    using fat_write_contents [OF sample_ready refl pos [symmetric], of 2 "[7, 8]"] unfolding old_def
    by (auto simp: sample_fields)
  then have m: "m = 2" using sample_capacity [of new] by (cases "m < 2") auto
  have "take 4 (drop 510 (contents B' ([3, 4] @ new) 3 s')) = [3, 7, 8, 4]"
    unfolding w(5) using at len by (simp add: m list_eq_iff_nth_eq nth_append eval_nat_numeral less_Suc_eq)
  with w(1,4) show ?thesis by (auto simp: m)
qed

text \<open>C13: What a write puts into a file, a read delivers after a seek back to where the write began. All bytes
  are written unless they fill the clusters the file had and no cluster of the disk is free. This holds for an
  open file with its cursor on the cluster of the position, a position in one of the file's clusters, a write that
  ends below 2^31 bytes, an entry in a directory cluster of its own that is in use, and a table whose entry 1 is
  not taken for a free cluster.\<close>

theorem fat_write_read_back:
  assumes ready: "ready_to_write fd B cs j s" and f: "f = open_file fd s" and pos: "pos = unat (file_pos f)"
    and nowrap: "pos + unat sz < 2 ^ 31" and buf: "unat sz \<le> length buf" "length buf < 2 ^ 31"
  shows "\<exists>m s1 s2 s3. fat_write fd buf sz s = Some (int m, s1) \<and> m \<le> unat sz \<and>
    (m < unat sz \<longrightarrow> capacity (fat_pinfo s) cs \<le> pos + m \<and>
      (\<exists>B1. fat_holds B1 s1 \<and> (\<forall>c. \<not> free_cluster (fat_pinfo s) B1 c))) \<and>
    fat_lseek fd (file_pos f) SEEK_SET s1 = Some (int pos, s2) \<and>
    fat_read fd (replicate m 0) (of_nat m) s2 = Some (int m, take m buf, s3)"
proof -
  have nowrap': "unat (file_pos (open_file fd s)) + unat sz < 2 ^ 32" using nowrap pos f by simp
  obtain m s1 cs' B' j' d where w: "fat_write fd buf sz s = Some (int m, s1)" "write_outcome fd buf sz B cs s m s1 cs' B' j' d"
    using write_ready [OF ready nowrap' buf] by blast
  note r = w(2) [unfolded write_outcome_def Let_def, folded f, folded pos]
  have at1: "file_at fd B' cs' j' s1" and file1: "open_file fd s1 = file_written (cs' ! j') m f" and m: "m \<le> unat sz"
    and new: "unat (file_pos f + of_nat m) = pos + m" and cap: "pos < capacity (fat_pinfo s) cs" and gr: "grown (fat_pinfo s) B cs cs'"
    and contents1: "contents B' cs' fd s1 = take pos (contents B cs fd s) @ take m buf @ drop (pos + m) (contents B cs fd s)"
    and le: "pos \<le> unat (file_size f)" and s1: "s1 = update_file fd (file_written (cs' ! j') m) (s\<lparr>dev := d\<rparr>)"
    using r by blast+
  have p1: "fat_pinfo s1 = fat_pinfo s" by (simp add: s1 update_file_def)
  have sint: "sint (file_pos f) = int pos" using nowrap pos by (simp add: sint_u32_small)
  have caps: "capacity (fat_pinfo s) cs \<le> capacity (fat_pinfo s) cs'" using grown_length [OF gr] by (simp add: capacity_def)
  have full: "m < unat sz \<longrightarrow> capacity (fat_pinfo s) cs \<le> pos + m \<and>
      (\<exists>B1. fat_holds B1 s1 \<and> (\<forall>c. \<not> free_cluster (fat_pinfo s) B1 c))"
    using r caps file_atD(7) [OF at1] by auto
  from caps have cap1: "pos < capacity (fat_pinfo s1) cs'" using cap p1 by simp
  have le1: "file_pos f \<le> file_size (open_file fd s1)" "file_pos f \<le> file_pos (open_file fd s1)"
    using new le by (auto simp: file1 file_written_def word_le_nat_alt word_less_nat_alt pos)
  obtain s2 where s2: "fat_lseek fd (file_pos f) SEEK_SET s1 = Some (int pos, s2)" "file_at fd B' cs' (cluster_of_pos fd s2) s2"
    "file_pos (open_file fd s2) = file_pos f" "contents B' cs' fd s2 = contents B' cs' fd s1"
    using fat_lseek_target [OF at1 refl, of "file_pos f" SEEK_SET] le1(1) [THEN leD] le1(2) cap1 sint
    by (auto simp: seek_target_def pos not_less)
  have wm: "unat (of_nat m :: u32) = m" using m nowrap by (intro unat_of_nat_word) simp
  have "length (contents B' cs' fd s2) = unat (file_size (open_file fd s2))" by (rule length_contents)
  moreover have len: "length (contents B cs fd s) = unat (file_size f)" by (simp add: length_contents f)
  ultimately have "pos + m \<le> unat (file_size (open_file fd s2))"
    using le m buf by (simp add: s2(4) contents1)
  then have n: "min m (unat (file_size (open_file fd s2)) - pos) = m" by simp
  have "take m (drop pos (contents B' cs' fd s2)) = take m buf" using le m buf len by (simp add: s2(4) contents1)
  moreover have "unat (file_pos (open_file fd s2)) + unat (of_nat m :: u32) < 2 ^ 32" using m nowrap by (simp add: wm s2(3) pos)
  moreover have "m < 2 ^ 31" using m buf by simp
  ultimately obtain s3 where "fat_read fd (replicate m 0) (of_nat m) s2 = Some (int m, take m buf, s3)"
    using fat_read_part [OF s2(2) disjI1 [OF refl], of "of_nat m" "replicate m 0"]
    by (auto simp: Let_def wm n s2(3) pos [symmetric])
  with w(1) m full s2(1) show ?thesis by blast
qed

theorem fat_write_read_back_witness:
  "\<exists>s1 s2 s3. fat_write 3 [7, 8] 2 (sample_state 511) = Some (2, s1) \<and>
    fat_lseek 3 511 SEEK_SET s1 = Some (511, s2) \<and> fat_read 3 [0, 0] 2 s2 = Some (2, [7, 8], s3)"
proof -
  have pos: "unat (file_pos (open_file 3 (sample_state 511))) = 511" "file_pos (open_file 3 (sample_state 511)) = 511"
    by (simp_all add: sample_fields sample_file_def)
  obtain m s1 s2 s3 where w: "fat_write 3 [7, 8] 2 (sample_state 511) = Some (int m, s1)" "m \<le> 2"
    "m < 2 \<longrightarrow> capacity sample_info [3, 4] \<le> 511 + m" "fat_lseek 3 511 SEEK_SET s1 = Some (511, s2)"
    "fat_read 3 (replicate m 0) (of_nat m) s2 = Some (int m, take m [7, 8], s3)"
    using fat_write_read_back [OF sample_ready refl pos(1) [symmetric], of 2 "[7, 8]"] unfolding pos sample_fields(2) by auto
  then have "m = 2" using sample_capacity [of "[]"] by (cases "m < 2") auto
  with w show ?thesis by (auto simp: eval_nat_numeral)
qed

text \<open>C10: A write to a file changes no other file: another open file, whose clusters and whose own
  directory clusters it does not share, keeps its clusters, its cursor and its contents.\<close>

theorem fat_write_isolated:
  assumes ready: "ready_to_write fd B cs j s" and f: "f = open_file fd s"
    and nowrap: "unat (file_pos f) + unat sz < 2 ^ 32" and buf: "unat sz \<le> length buf" "length buf < 2 ^ 31"
    and other: "file_at fd' B ds i s" and apart: "set ds \<inter> set cs = {}" "dir_cluster (file_dir_idx f) \<notin> set ds"
  shows "\<exists>m s' B'. fat_write fd buf sz s = Some (int m, s') \<and> fat_holds B' s' \<and> file_at fd' B' ds i s' \<and>
    open_file fd' s' = open_file fd' s \<and> contents B' ds fd' s' = contents B ds fd' s"
proof -
  obtain m s' cs' B' j' d where w: "fat_write fd buf sz s = Some (int m, s')" "write_outcome fd buf sz B cs s m s' cs' B' j' d"
    using write_ready [OF ready nowrap [unfolded f] buf] by blast
  define p where "p = fat_pinfo s"
  note r = w(2) [unfolded write_outcome_def Let_def, folded f p_def]
  have at': "file_at fd B' cs' j' s'" and gr: "grown p B cs cs'" and agrees: "agrees p cs' {dir_block p (file_dir_idx f)} B B'"
    and s': "s' = update_file fd (file_written (cs' ! j') m) (s\<lparr>dev := d\<rparr>)" using r by blast+
  note o = file_atD [OF other, folded p_def]
  have at: "file_at fd B cs j s" and dir: "data_cluster p (dir_cluster (file_dir_idx f))" "unat (dir_sector (file_dir_idx f)) < spc p"
    using ready f by (auto simp: ready_to_write_def dir_entry_ok_def p_def)
  have ds: "c \<in> set ds \<Longrightarrow> c \<notin> set cs'" for c
    using gr apart(1) chain_entry [of "fat_entry p B" ds c] o(4)
    by (auto simp: grown_def file_chain_def free_cluster_def FAT_TV_FREE_def)
  have entry: "fat_entry p B' c = fat_entry p B c" if "c \<in> set ds" for c
    using agrees ds [OF that] file_chain_table [OF o(4) that] by (simp add: agrees_def)
  have chain: "file_chain p B' ds" by (rule file_chain_cong [OF entry o(4)])
  have byte: "file_byte p B' ds k = file_byte p B ds k" if "k < capacity p ds" for k
  proof -
    have k: "k div 512 < spc p * length ds" using that by (simp add: capacity_def less_mult_imp_div_less ac_simps)
    note sec = sector_at_data [OF o(1,4) k]
    have "ds ! (k div 512 div spc p) \<in> set ds" using sec(2) by simp
    moreover have "sector_at p ds (k div 512) \<noteq> dir_block p (file_dir_idx f)"
      unfolding dir_block_sector using sector_at_other [OF o(1,4) k dir(1) apart(2) dir(2)] by simp
    ultimately show ?thesis using agrees ds sec unfolding file_byte_def agrees_def sector_at_def by simp
  qed
  have "file_index fd' \<noteq> file_index fd"
  proof
    assume "file_index fd' = file_index fd"
    then have "hd ds = hd cs" using other at by (simp add: file_at_def Let_def open_file_def)
    with apart(1) o(5) file_atD(5) [OF at] show False by (metis disjoint_iff hd_in_set length_0_conv not_less_zero)
  qed
  then have same: "open_file fd' s' = open_file fd' s" by (simp add: s' open_file_def update_file_def)
  have fields: "fat_pinfo s' = fat_pinfo s" "length (fat_open_files s') = length (fat_open_files s)" "fat_initialized s' = fat_initialized s"
    by (simp_all add: s' update_file_def)
  then have err: "fd_error fd' s' = fd_error fd' s" by (simp add: fd_error_def same)
  have "fat_holds B' s'" using at' by (rule file_atD)
  moreover from this have "file_at fd' B' ds i s'"
    using other chain err fields by (simp add: file_at_def Let_def same p_def)
  moreover have "contents B' ds fd' s' = contents B ds fd' s"
    using byte o(8) fields by (simp add: contents_def same file_bytes_def p_def)
  ultimately show ?thesis using w(1) same by blast
qed

theorem fat_write_isolated_witness:
  "\<exists>m s'. fat_write 3 [7, 8] 2 (sample_state 511) = Some (int m, s') \<and> open_file 4 s' = sample_other"
proof -
  have four: "open_file 4 (sample_state 511) = sample_other"
    by (simp add: sample_state_def open_file_def file_index_def FAT_FD_OFFSET_def)
  have "table_size sample_info = 128" by (simp add: table_size_def sample_info_def)
  then have "file_chain sample_info sample_blocks [5]"
    by (simp add: file_chain_def sample_entry data_cluster_def FAT_TV_LAST_def)
  moreover have "capacity sample_info [5] = 512" by (simp add: capacity_def spc_def sample_info_def)
  ultimately have "file_at 4 sample_blocks [5] 0 (sample_state 511)"
    using sample_file_at [of 511]
    by (simp add: file_at_def Let_def four sample_fields fd_error_def sample_other_def)
      (simp add: FAT_FD_OFFSET_def FAT_MAX_FILES_def split: if_splits)
  moreover have "unat (file_pos (open_file 3 (sample_state 511))) = 511" "dir_cluster (file_dir_idx (sample_file 511)) = 2"
    by (simp_all add: sample_fields sample_file_def)
  ultimately show ?thesis
    using fat_write_isolated [OF sample_ready refl, of 2 "[7, 8]" 4 "[5]" 0] by (auto simp: sample_fields four)
qed

section \<open>The table\<close>

text \<open>C25: Extending a chain of clusters appends one that was free, with an end mark, and changes no
  other entry; it fails only when no cluster is free, and then the disk is as before.\<close>

theorem fat_acquire_extends:
  assumes holds: "fat_holds B s" and p: "p = fat_pinfo s" and cs: "file_chain p B cs" and one: "fat_entry p B 1 \<noteq> 0"
  shows "\<exists>ok new s' B'. fat_acquire_next_cluster (last cs) True s = Some (ok, new, s') \<and> fat_holds B' s' \<and>
    (if ok then free_cluster p B new \<and> file_chain p B' (cs @ [new]) \<and>
       fat_entry p B' = (fat_entry p B)(last cs := new, new := 0x0FFFFFFF)
     else B' = B \<and> new = last cs \<and> (\<forall>c. \<not> free_cluster p B c))"
proof -
  have ne: "cs \<noteq> []" using cs by (auto simp: file_chain_def)
  have g: "geometry p" using holds p by (simp add: fat_holds_def)
  have len: "length (B a) = 512" for a using holds by (rule holds_length)
  have end': "cs ! (length cs - 1) = last cs" "length cs - 1 < length cs" "\<not> Suc (length cs - 1) < length cs"
    using ne by (simp_all add: last_conv_nth)
  obtain s' B' ok new where r: "fat_acquire_next_cluster (last cs) True s = Some (ok, new, s')" "fat_after B' s s'"
    "if ok then free_cluster p B new \<and> B' = claimed p True (last cs) new B \<and> fat_errno s' = OK
     else new = last cs \<and> B' = B \<and> (\<forall>c. \<not> free_cluster p B c)"
    using acquire_along [OF holds p cs end'(2)] unfolding end'(1) using end'(3) by (auto split: if_splits)
  have holds': "fat_holds B' s'" using fat_after_holds [OF r(2)] g p by simp
  show ?thesis
  proof (cases ok)
    case True
    with r(3) have new: "free_cluster p B new" and B': "B' = claimed p True (last cs) new B" by simp_all
    have "writing p 0 [] cs B 0 cs B" using writing_start [OF cs] .
    from writing_extend(2) [OF this g len _ refl new one] have "file_chain p B' (cs @ [new])" by (simp add: B')
    moreover have "fat_entry p B' = (fat_entry p B)(last cs := new, new := 0x0FFFFFFF)"
      using fat_entry_claimed [OF len g new, of True "last cs"] by (simp add: B')
    ultimately show ?thesis using r(1) holds' new True by auto
  next
    case False
    with r holds' show ?thesis by auto
  qed
qed

theorem fat_acquire_extends_witness:
  "\<exists>ok new s' B'. fat_acquire_next_cluster 4 True (sample_state 0) = Some (ok, new, s') \<and> fat_holds B' s' \<and>
    (ok \<longrightarrow> file_chain sample_info B' [3, 4, new])"
proof -
  have "fat_holds sample_blocks (sample_state 0)" "fat_entry sample_info sample_blocks 1 \<noteq> 0"
    using file_atD(7) [OF sample_file_at, of 0] by (simp_all add: sample_entry)
  from fat_acquire_extends [OF this(1) sample_fields(2) [symmetric] sample_chain this(2)] show ?thesis
    by (auto split: if_splits)
qed

lemma fold_put_entry:
  "(\<And>a. length (B a) = 512) \<Longrightarrow> fat_entry p (fold (put_entry p 0) cs B) = (\<lambda>c. if c \<in> set cs then 0 else fat_entry p B c)"
proof (induction cs arbitrary: B)
  case (Cons c cs)
  have "length (put_entry p 0 c B a) = 512" for a using Cons.prems by (simp add: put_entry_length)
  from Cons.IH [OF this] show ?case by (simp add: fun_eq_iff fat_entry_put [OF Cons.prems])
qed simp

lemma fold_put_other: "(\<And>c. c \<in> set cs \<Longrightarrow> a \<noteq> fat_sector p c) \<Longrightarrow> fold (put_entry p 0) cs B a = B a"
  by (induction cs arbitrary: B) (simp_all add: put_entry_other)

text \<open>C26: Freeing a chain of clusters frees exactly them: their entries become 0, the other entries and
  the contents of all clusters stay.\<close>

theorem fat_free_exactly:
  assumes holds: "fat_holds B s" and p: "p = fat_pinfo s" and cs: "file_chain p B cs"
  shows "\<exists>s' B'. fat_free_cluster_chain (hd cs) s = Some (True, s') \<and> fat_holds B' s' \<and>
    fat_entry p B' = (\<lambda>c. if c \<in> set cs then 0 else fat_entry p B c) \<and>
    (\<forall>c k. data_cluster p c \<and> k < spc p \<longrightarrow>
       B' (fat_first_sector_of_cluster p c + of_nat k) = B (fat_first_sector_of_cluster p c + of_nat k))"
proof -
  have g: "geometry p" using holds p by (simp add: fat_holds_def)
  have table: "unat c < table_size p" if "c \<in> set cs" for c using file_chain_table [OF cs that] .
  obtain c cs' where Cons: "cs = c # cs'" using cs by (cases cs) (auto simp: file_chain_def)
  have f: "fat_entry p (fold (put_entry p 0) cs B) = (\<lambda>c. if c \<in> set cs then 0 else fat_entry p B c)"
    by (rule fold_put_entry) (rule holds_length [OF holds])
  obtain s' where s': "fat_free_cluster_chain c s = Some (True, s')" "fat_after (fold (put_entry p 0) cs B) s s'"
    using fat_free_cluster_chain_result [OF holds p, of c cs'] cs table by (auto simp: Cons file_chain_def)
  moreover have "fold (put_entry p 0) cs B (fat_first_sector_of_cluster p c + of_nat k) = B (fat_first_sector_of_cluster p c + of_nat k)"
    if "data_cluster p c" "k < spc p" for c k
    using data_sector_not_table [OF g that] table by (intro fold_put_other) blast
  moreover have "hd cs = c" by (simp add: Cons)
  ultimately show ?thesis using fat_after_holds [OF s'(2)] g p f by blast
qed

theorem fat_free_exactly_witness:
  "\<exists>s' B'. fat_free_cluster_chain 3 (sample_state 0) = Some (True, s') \<and> fat_holds B' s' \<and>
    fat_entry sample_info B' 3 = 0 \<and> fat_entry sample_info B' 4 = 0 \<and> fat_entry sample_info B' 5 = 0x0FFFFFFF"
proof -
  have "fat_holds sample_blocks (sample_state 0)" using file_atD(7) [OF sample_file_at, of 0] by simp
  from fat_free_exactly [OF this sample_fields(2) [symmetric] sample_chain] obtain s' B' where
    "fat_free_cluster_chain 3 (sample_state 0) = Some (True, s')" "fat_holds B' s'"
    "fat_entry sample_info B' = (\<lambda>c. if c \<in> set [3, 4] then 0 else fat_entry sample_info sample_blocks c)" by auto
  then show ?thesis by (intro exI [of _ s'] exI [of _ B']) (simp add: sample_entry)
qed

end
