(* ===== verification/Fat_Open.thy ===== *)
theory Fat_Open
  imports Fat_Delete Fat_Path Fat_Access
begin

text \<open>
  What the calls on paths do: the resolution of paths against their meaning, opening a file and
  reading it, the errors, and what happens to a file that is opened to be overwritten.
\<close>

section \<open>Paths\<close>

lemma searched_errno: "searched B s s' \<Longrightarrow> searched B s (set_errno e s')"
  unfolding searched_def set_errno_def
  by (elim exE conjE) (simp add: name8_dev, metis disk_holds_errno)

lemma errno_searched: "searched B (set_errno e s) s' \<Longrightarrow> searched B s s'"
  by (auto simp: searched_def set_errno_def)

lemma resolves_error: "resolves p B c parts r \<Longrightarrow> r = Inl e \<Longrightarrow> e = ENOENT \<or> e = ENOTDIR"
  by (induction rule: resolves.induct) simp_all

lemma resolve_path_result:
  assumes r: "resolves p B (root_dir_cluster p) parts r" and p: "p = fat_pinfo s" and holds: "fat_holds B s"
    and room: "13 \<le> length (long_name8 s)" and parts: "\<forall>part \<in> set parts. \<forall>x \<in> set part. \<not> path_delim x"
    and sector: "length sector = 512"
  obtains sec' idx' s' where "fat_resolve_path (path_of parts) sector idx s = Some (\<not> isl r, sec', idx', s')"
    and "fat_errno s' = (case r of Inl e \<Rightarrow> e | Inr _ \<Rightarrow> OK)" and "searched B s s'" and "length sec' = 512"
    and "\<And>cs n. r = Inr (cs, n) \<Longrightarrow> sec' = B (sector_at p cs (n div 16)) \<and> idx' = idx_at p cs n"
proof -
  obtain k c' sec' idx' s' where loop: "loop_until (resolve_step (path_of parts)) (0, root_dir_cluster p, sector, idx, s) =
      Some (case r of Inl e \<Rightarrow> e | Inr _ \<Rightarrow> OK, k, c', sec', idx', s')" "searched B s s'" "length sec' = 512"
    "\<forall>cs n. r = Inr (cs, n) \<longrightarrow> found_at p B cs n sec' idx' s s'"
    using resolve_loop [OF r holds room p parts searched_refl [OF holds] sector, of "path_of parts" "[]" idx] by auto
  have "(case r of Inl e \<Rightarrow> e | Inr _ \<Rightarrow> OK) = OK \<longleftrightarrow> \<not> isl r" using r resolves_error by (cases r) force+
  then have "fat_resolve_path (path_of parts) sector idx s = Some (\<not> isl r, sec', if isl r then idx else idx',
      set_errno (case r of Inl e \<Rightarrow> e | Inr _ \<Rightarrow> OK) s')"
    using loop(1) p by (simp add: fat_resolve_path_def)
  with loop(2-4) searched_errno [OF loop(2)] show thesis
    by (intro that [of sec' "if isl r then idx else idx'" "set_errno (case r of Inl e \<Rightarrow> e | Inr _ \<Rightarrow> OK) s'"])
      (auto simp: found_at_def)
qed

text \<open>C21: The resolution of a path finds what the path means: from the root directory on, the first entry
  with the name of each part, compared without regard to case, whose directory is searched for the
  next part. It ends with \<open>ENOENT\<close> when a part is missing, with \<open>ENOTDIR\<close> when a part that is not the
  last one is a file, and changes nothing on the disk. The directories have no long names.\<close>

theorem fat_resolve_path_meaning:
  assumes r: "resolves (fat_pinfo s) B (root_dir_cluster (fat_pinfo s)) parts r" and holds: "fat_holds B s"
    and room: "13 \<le> length (long_name8 s)" and parts: "\<forall>part \<in> set parts. \<forall>x \<in> set part. \<not> path_delim x"
    and sector: "length sector = 512"
  shows "\<exists>sec' idx' s'. fat_resolve_path (path_of parts) sector idx s = Some (\<not> isl r, sec', idx', s') \<and>
    fat_errno s' = (case r of Inl e \<Rightarrow> e | Inr _ \<Rightarrow> OK) \<and> fat_holds B s' \<and> fat_open_files s' = fat_open_files s \<and>
    (\<forall>cs n. r = Inr (cs, n) \<longrightarrow> idx' = idx_at (fat_pinfo s) cs n \<and> sec' = B (sector_at (fat_pinfo s) cs (n div 16)))"
proof -
  have "geometry (fat_pinfo s)" using holds by (simp add: fat_holds_def)
  with resolve_path_result [OF r refl holds room parts sector, of idx] searched_holds show ?thesis
    by (metis searched_fields(2))
qed

text \<open>The directory of the small disk.\<close>

lemma sample_dir_size: "dir_size sample_info [2] = 16"
  by (simp add: dir_size_def spc_def sample_info_def)

lemma sample_entries:
  assumes "n < 16"
  shows "dir_entry sample_info sample_blocks [2] n =
    (if n = 0 then take 32 sample_directory else if n = 1 then take 32 (drop 32 sample_directory) else replicate 32 0)"
proof -
  have "sector_at sample_info [2] (n div 16) = 8"
    using assms by (simp add: sector_at_def fat_first_sector_of_cluster_def sample_info_def spc_def)
  moreover have "sample_blocks 8 = sample_directory"
    by (simp add: sample_blocks_def put_entry_other fat_sector_def sample_info_def sample_data_def)
  ultimately have e: "dir_entry sample_info sample_blocks [2] n = take 32 (drop (n * 32) sample_directory)"
    using assms by (simp add: dir_entry_def)
  consider "n = 0" | "n = 1" | "2 \<le> n" by linarith
  then show ?thesis
  proof cases
    case 1
    then show ?thesis unfolding e by simp
  next
    case 2
    then show ?thesis unfolding e by simp
  next
    case 3
    then have "drop (n * 32) sample_directory = replicate (512 - n * 32) 0"
      by (simp add: sample_directory_def sample_dir_entry_def drop_Cons')
    with 3 assms show ?thesis unfolding e by simp
  qed
qed

definition sample_path :: "u8 list list" where
  "sample_path = [[0x61, 0x2E, 0x74, 0x78, 0x74]]"

lemma sample_root: "file_chain sample_info sample_blocks [2]" "short_names sample_info sample_blocks [2]"
proof -
  have "table_size sample_info = 128" by (simp add: table_size_def sample_info_def)
  then show "file_chain sample_info sample_blocks [2]"
    by (simp add: file_chain_def sample_entry data_cluster_def FAT_TV_LAST_def)
  show "short_names sample_info sample_blocks [2]"
    unfolding short_names_def sample_dir_size
    by (simp add: sample_entries short_entry_def empty_entry_def first_long_entry_def FAT_LONG_NAME_ENTRY_def
        sample_directory_def sample_dir_entry_def)
qed

lemma sample_resolves: "resolves sample_info sample_blocks 2 sample_path (Inr ([2], 0))"
proof -
  have "named [0x61, 0x2E, 0x74, 0x78, 0x74] (dir_entry sample_info sample_blocks [2] 0)"
    by (simp add: sample_entries named_def entry_name_def short_name_text_def empty_entry_def path_delim_def toupper_def
        sample_directory_def sample_dir_entry_def)
  then have "dir_lookup sample_info sample_blocks [2] [0x61, 0x2E, 0x74, 0x78, 0x74] = Some 0"
    by (simp add: dir_lookup_Some sample_dir_size)
  then show ?thesis using found [OF sample_root] by (simp add: sample_path_def)
qed


theorem fat_resolve_path_meaning_witness:
  "\<exists>sec' s'. fat_resolve_path (path_of sample_path) (replicate 512 0) no_entry (sample_state 0) =
    Some (True, sec', \<lparr>dir_cluster = 2, dir_sector = 0, dir_index = 0\<rparr>, s')"
proof -
  have holds: "fat_holds sample_blocks (sample_state 0)" using file_atD(7) [OF sample_file_at, of 0] by simp
  have "resolves (fat_pinfo (sample_state 0)) sample_blocks (root_dir_cluster (fat_pinfo (sample_state 0))) sample_path (Inr ([2], 0))"
    using sample_resolves by (simp add: sample_fields) (simp add: sample_info_def)
  moreover have "13 \<le> length (long_name8 (sample_state 0))" by (simp add: sample_state_def)
  moreover have "\<forall>part \<in> set sample_path. \<forall>x \<in> set part. \<not> path_delim x" by (simp add: sample_path_def path_delim_def)
  ultimately show ?thesis
    using fat_resolve_path_meaning [OF _ holds, of sample_path "Inr ([2], 0)" "replicate 512 0" no_entry]
    by (auto simp: idx_at_def spc_def sample_fields) 
qed

section \<open>Opening a file\<close>

text \<open>Where a path leads in the state of the library.\<close>

definition leads_to :: "blocks \<Rightarrow> u8 list list \<Rightarrow> errno + u32 list \<times> nat \<Rightarrow> fat_state \<Rightarrow> bool" where
  "leads_to B parts r s \<longleftrightarrow> resolves (fat_pinfo s) B (root_dir_cluster (fat_pinfo s)) parts r \<and> fat_holds B s \<and>
     fat_initialized s \<and> length (fat_open_files s) = FAT_MAX_FILES \<and> 13 \<le> length (long_name8 s) \<and>
     (\<forall>part \<in> set parts. \<forall>x \<in> set part. \<not> path_delim x)"

lemma lookup_start:
  assumes "leads_to B parts r s" and p: "p = fat_pinfo s"
  obtains sec' idx' s' where "fat_resolve_path (path_of parts) (sector_buffer s) no_entry (set_errno OK s) = Some (\<not> isl r, sec', idx', s')"
    and "fat_errno s' = (case r of Inl e \<Rightarrow> e | Inr _ \<Rightarrow> OK)" and "searched B s s'"
    and "\<And>cs n. r = Inr (cs, n) \<Longrightarrow> sec' = B (sector_at p cs (n div 16)) \<and> idx' = idx_at p cs n"
proof -
  have h: "fat_holds B (set_errno OK s)" "13 \<le> length (long_name8 (set_errno OK s))" "length (sector_buffer s) = 512"
    using assms(1) by (auto simp: leads_to_def set_errno_def fat_holds_def sector_buffer_def geometryD)
  have r: "resolves (fat_pinfo (set_errno OK s)) B (root_dir_cluster (fat_pinfo (set_errno OK s))) parts r"
    and parts: "\<forall>part \<in> set parts. \<forall>x \<in> set part. \<not> path_delim x" using assms(1) by (simp_all add: leads_to_def)
  show thesis
  proof (rule resolve_path_result [OF r refl h(1,2) parts h(3), of no_entry])
    fix sec' idx' s'
    assume "fat_resolve_path (path_of parts) (sector_buffer s) no_entry (set_errno OK s) = Some (\<not> isl r, sec', idx', s')"
      and "fat_errno s' = (case r of Inl e \<Rightarrow> e | Inr _ \<Rightarrow> OK)" and "searched B (set_errno OK s) s'"
      and "\<And>cs n. r = Inr (cs, n) \<Longrightarrow> sec' = B (sector_at (fat_pinfo (set_errno OK s)) cs (n div 16)) \<and>
        idx' = idx_at (fat_pinfo (set_errno OK s)) cs n"
    with errno_searched show thesis by (intro that) (auto simp: p)
  qed
qed

text \<open>The first free place of the table of open files.\<close>

definition free_slot :: "fat_state \<Rightarrow> nat option" where
  "free_slot s = List.find (\<lambda>i. file_free (fat_open_files s ! i)) [0..<FAT_MAX_FILES]"

definition file_of_entry :: "u8 list \<Rightarrow> fat_dir_entry_idx \<Rightarrow> fat_file" where
  "file_of_entry e idx = \<lparr>file_free = False, file_pos = 0, file_dir_idx = idx, start_cluster = fat_cluster_of_dir_entry e 0,
     current_cluster = fat_cluster_of_dir_entry e 0, file_size = fat_size_of_dir_entry e 0\<rparr>"

lemma open_entry:
  assumes "length (B (sector_at p cs (n div 16))) = 512"
  shows "fat_open_dir_entry (B (sector_at p cs (n div 16))) (idx_at p cs n) s =
    (case free_slot s of None \<Rightarrow> (-1, s)
     | Some i \<Rightarrow> (int i + 3, s\<lparr>fat_open_files := (fat_open_files s)[i := file_of_entry (dir_entry p B cs n) (idx_at p cs n)]\<rparr>))"
proof -
  have "unat (dir_index (idx_at p cs n)) = n mod 16"
    by (simp add: idx_at_def unat_of_nat_word less_trans [OF mod_less_divisor])
  then show ?thesis
    using dir_entry_fields [of B p cs n, OF assms]
    by (simp add: fat_open_dir_entry_def free_slot_def file_of_entry_def FAT_FD_OFFSET_def Let_def split: option.splits)
qed

lemma entry_attrib:
  assumes "length (B (sector_at p cs (n div 16))) = 512"
  shows "fat_attrib_of_dir_entry (B (sector_at p cs (n div 16))) (unat (dir_index (idx_at p cs n))) = fat_attrib_of_dir_entry (dir_entry p B cs n) 0"
proof -
  have "unat (dir_index (idx_at p cs n)) = n mod 16"
    by (simp add: idx_at_def unat_of_nat_word less_trans [OF mod_less_divisor])
  then show ?thesis using dir_entry_fields [of B p cs n, OF assms] by simp
qed

text \<open>The test for exclusive creation never succeeds.\<close>

lemma excl_never: "oflag AND O_CREAT AND O_EXCL = 0"
  by (simp add: O_CREAT_def O_EXCL_def and.assoc)

lemma resolves_found: "resolves p B c parts r \<Longrightarrow> r = Inr (cs, n) \<Longrightarrow> n < dir_size p cs \<and> file_chain p B cs"
  by (induction rule: resolves.induct) (simp_all add: dir_lookup_Some)

text \<open>The result of opening what is there, without and with overwriting.\<close>

lemma open_existing_directory:
  assumes "length (B (sector_at p cs (n div 16))) = 512" and "is_directory (dir_entry p B cs n)" and "free_slot s = Some i"
  shows "open_existing oflag (B (sector_at p cs (n div 16))) (idx_at p cs n) s =
    Some (int i + 3, 0, set_errno EISDIR (s\<lparr>fat_open_files := (fat_open_files s)[i := file_of_entry (dir_entry p B cs n) (idx_at p cs n)]\<rparr>))"
  using assms by (simp add: open_existing_def open_entry entry_attrib is_directory_def excl_never)

lemma open_existing_file:
  assumes "length (B (sector_at p cs (n div 16))) = 512" and e: "e = dir_entry p B cs n" "\<not> is_directory e"
    and "free_slot s = Some i" and s1: "s1 = s\<lparr>fat_open_files := (fat_open_files s)[i := file_of_entry e (idx_at p cs n)]\<rparr>"
    and "oflag AND O_TRUNC = 0" and "i < length (fat_open_files s)"
  shows "open_existing oflag (B (sector_at p cs (n div 16))) (idx_at p cs n) s =
    Some (int i + 3, if oflag AND O_APPEND = 0 then 0 else fat_size_of_dir_entry e 0, s1)"
proof -
  have "open_file (int i + 3) s1 = file_of_entry e (idx_at p cs n)"
    using assms(7) by (simp add: s1 open_file_def file_index_def FAT_FD_OFFSET_def)
  then show ?thesis
    using assms(1-4,6) by (simp add: open_existing_def open_entry entry_attrib is_directory_def excl_never s1 file_of_entry_def)
qed

lemma free_slot_Some: "free_slot s = Some i \<Longrightarrow> i < FAT_MAX_FILES \<and> file_free (fat_open_files s ! i)"
  by (auto simp: free_slot_def find_Some_iff)

lemma free_slot_searched: "searched B s s' \<Longrightarrow> free_slot s' = free_slot s"
  by (simp add: free_slot_def state_simps)

text \<open>An entry whose file lies in the chain of clusters \<open>cs\<close>.\<close>

definition entry_file :: "fat_partition_info \<Rightarrow> blocks \<Rightarrow> u8 list \<Rightarrow> u32 list \<Rightarrow> bool" where
  "entry_file p B e cs \<longleftrightarrow> \<not> is_directory e \<and> file_chain p B cs \<and> hd cs = fat_cluster_of_dir_entry e 0 \<and>
     unat (fat_size_of_dir_entry e 0) \<le> capacity p cs"

text \<open>The state with the entry opened, the cursor at the start.\<close>

lemma opened_at:
  assumes entry: "entry_file (fat_pinfo s) B e cs" and "fat_holds B s'" and fd: "i < FAT_MAX_FILES"
    and s': "fat_pinfo s' = fat_pinfo s" "fat_initialized s'" "fat_open_files s' = files[i := file_of_entry e idx]" "length files = FAT_MAX_FILES"
  shows "file_at (int i + 3) B cs 0 s'" and "open_file (int i + 3) s' = file_of_entry e idx"
proof -
  show f: "open_file (int i + 3) s' = file_of_entry e idx"
    using fd s'(3,4) by (simp add: open_file_def file_index_def FAT_FD_OFFSET_def)
  have "cs \<noteq> []" using entry by (auto simp: entry_file_def file_chain_def)
  then show "file_at (int i + 3) B cs 0 s'"
    using assms f by (simp add: file_at_def fd_error_def entry_file_def file_of_entry_def FAT_FD_OFFSET_def hd_conv_nth)
qed

text \<open>A seek in a file that has just been opened: behind its last cluster it changes nothing.\<close>

lemma seek_opened:
  assumes at: "file_at fd B cs 0 s" and p: "p = fat_pinfo s" and f: "f = open_file fd s" "file_pos f = 0"
    and a: "a \<le> file_size f" "unat a < 2 ^ 31" and q: "q = (if unat a < capacity p cs then a else 0)"
  shows "\<exists>x j s'. fat_lseek fd a SEEK_SET s = Some (x, s') \<and> fat_errno s' = OK \<and> file_at fd B cs j s' \<and>
    open_file fd s' = f\<lparr>current_cluster := cs ! j, file_pos := q\<rparr> \<and> j = cluster_of_pos fd s' \<and>
    (\<forall>k. k \<noteq> file_index fd \<longrightarrow> fat_open_files s' ! k = fat_open_files s ! k)"
proof -
  define t where "t = unat a div 512 div spc p"
  have g: "geometry p" using at p by (simp add: file_at_def fat_holds_def Let_def)
  have cap: "t < length cs \<longleftrightarrow> unat a < capacity p cs"
    using spc_pos [OF g] by (simp add: t_def capacity_def div_less_iff_less_mult ac_simps)
  have "seek_target f a SEEK_SET = Some a" "0 \<le> sint a" using a(2) sint_u32_small by (simp_all add: seek_target_def)
  from fat_lseek_result [OF at f(1) p this a(1) _ t_def] f(2)
  have seek: "if t < length cs
    then \<exists>s'. fat_lseek fd a SEEK_SET s = Some (sint a, s') \<and> fat_errno s' = OK \<and> file_at fd B cs t s' \<and>
      open_file fd s' = f\<lparr>current_cluster := cs ! t, file_pos := a\<rparr> \<and>
      (\<exists>d. s' = update_file fd (\<lambda>f. f\<lparr>current_cluster := cs ! t, file_pos := a\<rparr>) (s\<lparr>dev := d\<rparr>))
    else \<exists>s'. fat_lseek fd a SEEK_SET s = Some (FAT_FAIL, s') \<and> fat_errno s' = OK \<and> fat_after B s s'" by simp
  show ?thesis
  proof (cases "t < length cs")
    case True
    then obtain s' d where "fat_lseek fd a SEEK_SET s = Some (sint a, s')" "fat_errno s' = OK" "file_at fd B cs t s'"
      "open_file fd s' = f\<lparr>current_cluster := cs ! t, file_pos := a\<rparr>"
      and s': "s' = update_file fd (\<lambda>f. f\<lparr>current_cluster := cs ! t, file_pos := a\<rparr>) (s\<lparr>dev := d\<rparr>)"
      using seek by (simp only: if_True) blast
    moreover have "\<forall>k. k \<noteq> file_index fd \<longrightarrow> fat_open_files s' ! k = fat_open_files s ! k" by (simp add: s' update_file_def)
    moreover have "q = a" using True cap q by simp
    moreover from calculation(4) have "t = cluster_of_pos fd s'" using p by (simp add: cluster_of_pos_def t_def s')
    ultimately show ?thesis by blast
  next
    case False
    then obtain s' where s': "fat_lseek fd a SEEK_SET s = Some (FAT_FAIL, s')" "fat_errno s' = OK" "fat_after B s s'"
      using seek by (simp only: if_False) blast
    then obtain d where d: "s' = s\<lparr>dev := d\<rparr>" "disk_holds B d" by (auto simp: fat_after_def)
    have "open_file fd s' = f\<lparr>current_cluster := cs ! 0, file_pos := 0\<rparr>"
      using at f by (cases f) (simp add: d(1) open_file_def file_at_def Let_def)
    moreover have "file_at fd B cs 0 s'" using at d(2) by (auto simp: d(1) file_at_def Let_def open_file_def fat_holds_def fd_error_def split: if_splits)
    moreover have "q = 0" using False cap q by simp
    moreover have "fat_open_files s' = fat_open_files s" by (simp add: d(1))
    moreover from calculation(1) have "cluster_of_pos fd s' = 0" by (simp add: cluster_of_pos_def)
    ultimately show ?thesis using s'(1,2) by (intro exI [of _ FAT_FAIL] exI [of _ 0] exI [of _ s']) simp
  qed
qed

text \<open>Opening a path that leads to an entry.\<close>

lemma fat_open_found:
  assumes path: "leads_to B parts (Inr (dcs, n)) s" and p: "p = fat_pinfo s"
  obtains s1 where "fat_errno s1 = OK" and "searched B s s1"
    and "fat_open (path_of parts) oflag s = do {
      (fd, target_pos, s) \<leftarrow> open_existing oflag (B (sector_at p dcs (n div 16))) (idx_at p dcs n) s1;
      s \<leftarrow> (if fat_errno s = OK then map_option snd (fat_lseek fd target_pos SEEK_SET s) else Some s);
      Some (if fat_errno s \<noteq> OK \<and> fd > 0 then (-1, snd (fat_close fd s)) else (fd, s)) }"
proof (rule lookup_start [OF path p])
  fix sec' idx' s1
  assume look: "fat_resolve_path (path_of parts) (sector_buffer s) no_entry (set_errno OK s) =
      Some (\<not> isl (Inr (dcs, n) :: errno + _), sec', idx', s1)"
    and err: "fat_errno s1 = (case Inr (dcs, n) :: errno + _ of Inl e \<Rightarrow> e | Inr _ \<Rightarrow> OK)" and s1: "searched B s s1"
    and found: "\<And>cs m. (Inr (dcs, n) :: errno + _) = Inr (cs, m) \<Longrightarrow> sec' = B (sector_at p cs (m div 16)) \<and> idx' = idx_at p cs m"
  have "fat_initialized s" using path by (simp add: leads_to_def)
  with look found [OF refl] show thesis by (intro that [OF _ s1]) (use err in \<open>simp_all add: fat_open_def\<close>)
qed

text \<open>C20: Opening the path of a file that exists gives the first free descriptor, with the size of the
  directory entry; the other descriptors and the disk stay. The descriptor stands at the start, and
  with \<open>O_APPEND\<close> at the end of the file, except that it stays at the start when the file fills its
  clusters exactly. \<open>O_CREAT\<close> with \<open>O_EXCL\<close> makes no difference.\<close>

theorem fat_open_existing:
  assumes path: "leads_to B parts (Inr (dcs, n)) s" and p: "p = fat_pinfo s" and free: "free_slot s = Some i"
    and e: "e = dir_entry p B dcs n" "entry_file p B e cs" and small: "unat (fat_size_of_dir_entry e 0) < 2 ^ 31"
    and flags: "oflag AND O_TRUNC = 0"
  shows "\<exists>j s'. fat_open (path_of parts) oflag s = Some (int i + 3, s') \<and> fat_errno s' = OK \<and> file_at (int i + 3) B cs j s' \<and>
    j = cluster_of_pos (int i + 3) s' \<and> open_file (int i + 3) s' = (file_of_entry e (idx_at p dcs n))\<lparr>current_cluster := cs ! j,
      file_pos := if oflag AND O_APPEND \<noteq> 0 \<and> unat (fat_size_of_dir_entry e 0) < capacity p cs then fat_size_of_dir_entry e 0 else 0\<rparr> \<and>
    (\<forall>k. k \<noteq> i \<longrightarrow> fat_open_files s' ! k = fat_open_files s ! k)"
proof -
  define f where "f = file_of_entry e (idx_at p dcs n)"
  define a where "a = (if oflag AND O_APPEND = 0 then 0 else fat_size_of_dir_entry e 0)"
  have holds: "fat_holds B s" and init: "fat_initialized s" and files: "length (fat_open_files s) = FAT_MAX_FILES"
    using path by (simp_all add: leads_to_def)
  have len: "length (B (sector_at p dcs (n div 16))) = 512" using holds_length [OF holds] .
  have i: "i < FAT_MAX_FILES" "file_index (int i + 3) = i"
    using free_slot_Some [OF free] by (simp_all add: file_index_def FAT_FD_OFFSET_def)
  obtain s1 where s1: "fat_errno s1 = OK" "searched B s s1"
    and run: "fat_open (path_of parts) oflag s = do {
      (fd, target_pos, s) \<leftarrow> open_existing oflag (B (sector_at p dcs (n div 16))) (idx_at p dcs n) s1;
      s \<leftarrow> (if fat_errno s = OK then map_option snd (fat_lseek fd target_pos SEEK_SET s) else Some s);
      Some (if fat_errno s \<noteq> OK \<and> fd > 0 then (-1, snd (fat_close fd s)) else (fd, s)) }"
    by (rule fat_open_found [OF path p])
  define s2 where "s2 = s1\<lparr>fat_open_files := (fat_open_files s1)[i := f]\<rparr>"
  have "open_existing oflag (B (sector_at p dcs (n div 16))) (idx_at p dcs n) s1 = Some (int i + 3, a, s2)"
    unfolding a_def using e free i(1) files s1(2) free_slot_searched [OF s1(2)]
    by (intro open_existing_file [OF len e(1) _ _ s2_def [unfolded f_def] flags]) (simp_all add: entry_file_def state_simps)
  moreover have "fat_errno s2 = OK" using s1(1) by (simp add: s2_def fat_errno_def)
  ultimately have run2: "fat_open (path_of parts) oflag s = Some (int i + 3, s')"
    if "fat_lseek (int i + 3) a SEEK_SET s2 = Some (x, s')" "fat_errno s' = OK" for x s'
    using run that by simp
  have "geometry (fat_pinfo s)" using holds by (simp add: fat_holds_def)
  from searched_holds [OF s1(2) this] have "fat_holds B s2" by (simp add: s2_def fat_holds_def)
  note at = opened_at [OF e(2) [unfolded p] this i(1), of "fat_open_files s" "idx_at p dcs n", folded f_def]
  have fields: "fat_pinfo s2 = fat_pinfo s" "fat_initialized s2" "fat_open_files s2 = (fat_open_files s)[i := f]"
    using s1(2) init by (simp_all add: s2_def state_simps)
  note at2 = at [OF fields files]
  have f: "file_pos f = 0" "file_size f = fat_size_of_dir_entry e 0" by (simp_all add: f_def file_of_entry_def)
  have "a \<le> file_size f" "unat a < 2 ^ 31" using small by (simp_all add: a_def f)
  from seek_opened [OF at2(1) refl at2(2) [symmetric] f(1) this refl] obtain x j s' where
    s': "fat_lseek (int i + 3) a SEEK_SET s2 = Some (x, s')" "fat_errno s' = OK" "file_at (int i + 3) B cs j s'"
    "open_file (int i + 3) s' = f\<lparr>current_cluster := cs ! j, file_pos := if unat a < capacity p cs then a else 0\<rparr>"
    "j = cluster_of_pos (int i + 3) s'" "\<forall>k. k \<noteq> i \<longrightarrow> fat_open_files s' ! k = fat_open_files s2 ! k"
    unfolding i(2) fields(1) p by blast
  have "(if unat a < capacity p cs then a else 0) =
      (if oflag AND O_APPEND \<noteq> 0 \<and> unat (fat_size_of_dir_entry e 0) < capacity p cs then fat_size_of_dir_entry e 0 else 0)"
    by (simp add: a_def)
  with s' run2 [OF s'(1,2)] fields(3) show ?thesis unfolding f_def [symmetric] by (intro exI [of _ j] exI [of _ s']) simp
qed

lemma sample_free: "free_slot (sample_state pos) = Some 2"
  by (simp add: free_slot_def sample_state_def FAT_MAX_FILES_def upt_rec sample_file_def sample_other_def)

lemma sample_leads: "leads_to sample_blocks sample_path (Inr ([2], 0)) (sample_state 0)"
proof -
  have holds: "fat_holds sample_blocks (sample_state 0)" using file_atD(7) [OF sample_file_at, of 0] by simp
  have "resolves (fat_pinfo (sample_state 0)) sample_blocks (root_dir_cluster (fat_pinfo (sample_state 0))) sample_path (Inr ([2], 0))"
    using sample_resolves by (simp add: sample_fields) (simp add: sample_info_def)
  with holds show ?thesis
    by (simp add: leads_to_def) (simp add: sample_state_def FAT_MAX_FILES_def sample_path_def path_delim_def)
qed

lemma sample_entry_file: "entry_file sample_info sample_blocks (dir_entry sample_info sample_blocks [2] 0) [3, 4]"
  and sample_entry_size: "fat_size_of_dir_entry (dir_entry sample_info sample_blocks [2] 0) 0 = 1000"
proof -
  have cap: "capacity sample_info [3, 4] = 1024" by (simp add: capacity_def spc_def sample_info_def)
  show size: "fat_size_of_dir_entry (dir_entry sample_info sample_blocks [2] 0) 0 = 1000"
    by (simp add: sample_entries fat_size_of_dir_entry_def fat_get_uint32_def sample_directory_def sample_dir_entry_def FAT_DIR_ENTRY_WIDTH_def nth_append)
  have "fat_cluster_of_dir_entry (dir_entry sample_info sample_blocks [2] 0) 0 = 3"
    by (simp add: sample_entries fat_cluster_of_dir_entry_def fat_get_uint16_def sample_directory_def sample_dir_entry_def FAT_DIR_ENTRY_WIDTH_def nth_append)
  moreover have "\<not> is_directory (dir_entry sample_info sample_blocks [2] 0)"
    by (simp add: sample_entries is_directory_def fat_attrib_of_dir_entry_def sample_directory_def sample_dir_entry_def
        FAT_DIR_ENTRY_WIDTH_def FAT_DIRECTORY_def nth_append)
  ultimately show "entry_file sample_info sample_blocks (dir_entry sample_info sample_blocks [2] 0) [3, 4]"
    using sample_chain by (simp add: entry_file_def size cap)
qed

theorem fat_open_existing_witness:
  "\<exists>s'. fat_open (path_of sample_path) (O_APPEND OR O_WRONLY) (sample_state 0) = Some (5, s') \<and>
    file_pos (open_file 5 s') = 1000 \<and> open_file 3 s' = sample_file 0"
proof -
  have "capacity sample_info [3, 4] = 1024" by (simp add: capacity_def spc_def sample_info_def)
  moreover have "(O_APPEND OR O_WRONLY) AND O_TRUNC = 0" "(O_APPEND OR O_WRONLY) AND O_APPEND \<noteq> 0"
    by (simp_all add: O_APPEND_def O_WRONLY_def O_TRUNC_def)
  moreover have "fat_open_files (sample_state 0) ! 0 = sample_file 0" by (simp add: sample_state_def)
  ultimately show ?thesis
    using fat_open_existing [OF sample_leads sample_fields(2) [symmetric] sample_free refl sample_entry_file, of "O_APPEND OR O_WRONLY"]
    by (auto simp: sample_entry_size open_file_def [of 3] file_index_def [of 3] FAT_FD_OFFSET_def)
qed

section \<open>Failures\<close>

text \<open>The descriptors that are open stay.\<close>

definition same_open :: "fat_state \<Rightarrow> fat_state \<Rightarrow> bool" where
  "same_open s s' \<longleftrightarrow> (\<forall>k < FAT_MAX_FILES. file_free (fat_open_files s' ! k) = file_free (fat_open_files s ! k) \<and>
     (file_free (fat_open_files s ! k) \<or> fat_open_files s' ! k = fat_open_files s ! k))"

lemma searched_same_open: "searched B s s' \<Longrightarrow> same_open s s'"
  by (simp add: same_open_def state_simps)

lemma fat_open_directory:
  assumes path: "leads_to B parts (Inr (dcs, n)) s" and p: "p = fat_pinfo s" and dir: "is_directory (dir_entry p B dcs n)"
    and free: "free_slot s = Some i"
  shows "\<exists>s'. fat_open (path_of parts) oflag s = Some (-1, s') \<and> fat_holds B s' \<and> fat_errno s' = OK \<and> same_open s s'"
proof -
  have holds: "fat_holds B s" and init: "fat_initialized s" and files: "length (fat_open_files s) = FAT_MAX_FILES"
    using path by (simp_all add: leads_to_def)
  have len: "length (B (sector_at p dcs (n div 16))) = 512" using holds_length [OF holds] .
  obtain s1 where s1: "fat_errno s1 = OK" "searched B s s1"
    and run: "fat_open (path_of parts) oflag s = do {
      (fd, target_pos, s) \<leftarrow> open_existing oflag (B (sector_at p dcs (n div 16))) (idx_at p dcs n) s1;
      s \<leftarrow> (if fat_errno s = OK then map_option snd (fat_lseek fd target_pos SEEK_SET s) else Some s);
      Some (if fat_errno s \<noteq> OK \<and> fd > 0 then (-1, snd (fat_close fd s)) else (fd, s)) }"
    by (rule fat_open_found [OF path p])
  define f where "f = file_of_entry (dir_entry p B dcs n) (idx_at p dcs n)"
  define s2 where "s2 = set_errno EISDIR (s1\<lparr>fat_open_files := (fat_open_files s)[i := f]\<rparr>)"
  define s' where "s' = set_errno OK (update_file (int i + 3) (\<lambda>f. f\<lparr>file_free := True\<rparr>) s2)"
  have i: "i < FAT_MAX_FILES" "file_free (fat_open_files s ! i)" "file_index (int i + 3) = i"
    using free_slot_Some [OF free] by (simp_all add: file_index_def FAT_FD_OFFSET_def)
  have fields: "fat_initialized s2" "fat_open_files s2 = (fat_open_files s)[i := f]"
    using init s1(2) by (simp_all add: s2_def state_simps)
  have "open_existing oflag (B (sector_at p dcs (n div 16))) (idx_at p dcs n) s1 = Some (int i + 3, 0, s2)"
    using open_existing_directory [OF len dir, of s1 i] free free_slot_searched [OF s1(2)] s1(2) by (simp add: s2_def f_def state_simps)
  moreover have "snd (fat_close (int i + 3) s2) = s'"
    using i files fields by (simp add: s'_def fat_close_def fd_error_def open_file_def f_def file_of_entry_def FAT_FD_OFFSET_def)
  ultimately have "fat_open (path_of parts) oflag s = Some (-1, s')"
    using run by simp (simp add: s2_def)
  moreover have "fat_holds B s'"
    using searched_holds [OF s1(2)] holds by (simp add: s'_def s2_def fat_holds_def update_file_def set_errno_def)
  moreover have "same_open s s'"
    using i files by (auto simp: s'_def same_open_def update_file_def fields(2) nth_list_update)
  ultimately show ?thesis by (simp add: s'_def)
qed

text \<open>C23: What does not resolve cannot be opened without \<open>O_CREAT\<close>: the error is the one of the path. With
  all descriptors taken it is \<open>EMFILE\<close>. A directory cannot be opened, and this leaves no error code: closing
  the descriptor has cleared it. In all cases the disk and the open descriptors stay as they are.\<close>

theorem fat_open_fails:
  assumes path: "leads_to B parts r s"
    and fails: "case r of Inl e \<Rightarrow> oflag AND O_CREAT = 0
      | Inr (dcs, n) \<Rightarrow> free_slot s = None \<or> is_directory (dir_entry (fat_pinfo s) B dcs n)"
  shows "\<exists>s'. fat_open (path_of parts) oflag s = Some (-1, s') \<and> fat_holds B s' \<and>
    fat_errno s' = (case r of Inl e \<Rightarrow> e | Inr _ \<Rightarrow> if free_slot s = None then EMFILE else OK) \<and> same_open s s'"
proof (cases r)
  case (Inl e)
  have init: "fat_initialized s" and holds: "fat_holds B s" using path by (simp_all add: leads_to_def)
  have e: "e \<noteq> OK" using path Inl resolves_error by (fastforce simp: leads_to_def)
  obtain sec' idx' s' where look: "fat_resolve_path (path_of parts) (sector_buffer s) no_entry (set_errno OK s) = Some (False, sec', idx', s')"
    "fat_errno s' = e" "searched B s s'" using lookup_start [OF path refl] Inl by auto
  then have "fat_open (path_of parts) oflag s = Some (-1, s')" using fails e init by (simp add: fat_open_def Inl)
  moreover have "fat_holds B s'" using searched_holds [OF look(3)] holds by (simp add: fat_holds_def)
  ultimately show ?thesis using look searched_same_open [OF look(3)] by (simp add: Inl)
next
  case (Inr dn)
  obtain dcs n where dn: "dn = (dcs, n)" by (cases dn)
  note found = path [unfolded Inr dn]
  have holds: "fat_holds B s" using path by (simp add: leads_to_def)
  have len: "length (B (sector_at (fat_pinfo s) dcs (n div 16))) = 512" using holds_length [OF holds] .
  show ?thesis
  proof (cases "free_slot s")
    case None
    obtain s1 where s1: "fat_errno s1 = OK" "searched B s s1"
      and run: "fat_open (path_of parts) oflag s = do {
        (fd, target_pos, s) \<leftarrow> open_existing oflag (B (sector_at (fat_pinfo s) dcs (n div 16))) (idx_at (fat_pinfo s) dcs n) s1;
        s \<leftarrow> (if fat_errno s = OK then map_option snd (fat_lseek fd target_pos SEEK_SET s) else Some s);
        Some (if fat_errno s \<noteq> OK \<and> fd > 0 then (-1, snd (fat_close fd s)) else (fd, s)) }"
      by (rule fat_open_found [OF found refl])
    have "fat_open (path_of parts) oflag s = Some (-1, set_errno EMFILE s1)"
      using run open_entry [of B "fat_pinfo s" dcs n s1, OF len] None free_slot_searched [OF s1(2)]
      by (simp add: open_existing_def excl_never)
    moreover have "fat_holds B s1" using searched_holds [OF s1(2)] holds by (simp add: fat_holds_def)
    ultimately show ?thesis using searched_same_open [OF s1(2)] None by (simp add: Inr same_open_def)
  next
    case (Some i)
    then have "is_directory (dir_entry (fat_pinfo s) B dcs n)" using fails by (simp add: Inr dn)
    from fat_open_directory [OF found refl this Some] Some show ?thesis by (simp add: Inr)
  qed
qed

text \<open>A name that is not in the directory of the small disk.\<close>

lemma sample_missing: "leads_to sample_blocks [[0x43]] (Inl ENOENT) (sample_state 0)"
proof -
  have "file_chain sample_info sample_blocks [2]" "short_names sample_info sample_blocks [2]"
    by (rule sample_root)+
  moreover have "dir_lookup sample_info sample_blocks [2] [0x43] = None"
    unfolding dir_lookup_None sample_dir_size
    by (simp add: sample_entries named_def entry_name_def short_name_text_def empty_entry_def path_delim_def toupper_def
        sample_directory_def sample_dir_entry_def)
  ultimately have "resolves sample_info sample_blocks 2 [[0x43]] (Inl ENOENT)" by (rule missing)
  then show ?thesis using sample_leads by (simp add: leads_to_def sample_fields path_delim_def) (simp add: sample_info_def)
qed

theorem fat_open_fails_witness:
  "\<exists>s'. fat_open (path_of [[0x43]]) O_WRONLY (sample_state 0) = Some (-1, s') \<and> fat_errno s' = ENOENT"
  using fat_open_fails [OF sample_missing, of O_WRONLY] by (auto simp: O_WRONLY_def O_CREAT_def)

end
