(* ===== verification/Fat_Overwrite.thy ===== *)
theory Fat_Overwrite
  imports Fat_Open
begin

text \<open>
  What opening a file to overwrite it does to its chain of clusters, and the deletion of a file that
  is open.
\<close>

section \<open>Opening to overwrite\<close>

text \<open>The disk after the rest of a chain was freed and the size in the directory entry was set to 0.\<close>

definition truncated :: "fat_partition_info \<Rightarrow> u32 list \<Rightarrow> nat \<Rightarrow> u32 list \<Rightarrow> blocks \<Rightarrow> blocks" where
  "truncated p dcs n rest B = (fold (put_entry p 0) rest B)
     (sector_at p dcs (n div 16) := fat_set_uint32 0 (B (sector_at p dcs (n div 16))) (28 + n mod 16 * 32))"

lemma fold_put_length: "(\<And>a. length (B a) = 512) \<Longrightarrow> length (fold (put_entry p 0) cs B a) = 512"
  by (induction cs arbitrary: B) (simp_all add: put_entry_length)

lemma truncate_file_result:
  assumes holds: "fat_holds B s" and p: "p = fat_pinfo s" and n: "n div 16 < spc p * length dcs" and dir: "file_chain p B dcs"
    and c: "c = fat_cluster_of_dir_entry (dir_entry p B dcs n) 0" and cs: "file_chain p B (c # rest)"
  shows "\<exists>d. truncate_file fd (idx_at p dcs n) (B (sector_at p dcs (n div 16))) s =
      Some ((update_file fd (\<lambda>f. f\<lparr>file_size := 0\<rparr>) s)\<lparr>dev := d\<rparr>) \<and> disk_holds (truncated p dcs n rest B) d \<and> errno d = OK"
proof -
  let ?a = "sector_at p dcs (n div 16)"
  have g: "geometry p" using holds p by (simp add: fat_holds_def)
  have len: "length (B a) = 512" for a using holds_length [OF holds] .
  have index: "unat (dir_index (idx_at p dcs n)) = n mod 16"
    by (simp add: idx_at_def unat_of_nat_word less_trans [OF mod_less_divisor])
  have cluster: "fat_cluster_of_dir_entry (B ?a) (unat (dir_index (idx_at p dcs n))) = c"
    using dir_entry_fields(2) [of B p dcs n, OF len] by (simp add: index c)
  have table: "unat x < table_size p" if "x \<in> set (c # rest)" for x using file_chain_table [OF cs that] .
  obtain s1 where s1: "fat_get_table_value c s = Some (Some (fat_entry p B c), s1)" "fat_after B s s1" "fat_holds B s1" "fat_errno s1 = OK"
    using get_table_value [OF holds, of c] table [of c] p by auto
  have chain: "chain (fat_entry p B) (c # rest)" using cs by (simp add: file_chain_def)
  have tv: "\<not> FAT_TV_BAD (fat_entry p B c)" "\<not> FAT_TV_FREE (fat_entry p B c)" using chain_entry [OF chain, of c] by simp_all
  have p1: "p = fat_pinfo s1" using s1(2) p by (simp add: state_simps)
  obtain s2 where s2: "(if FAT_TV_LAST (fat_entry p B c) then Some (True, s1) else fat_free_cluster_chain (fat_entry p B c) s1) = Some (True, s2)"
    "fat_after (fold (put_entry p 0) rest B) s1 s2"
  proof (cases rest)
    case Nil
    then show thesis using that chain fat_after_refl [OF s1(3)] by simp
  next
    case (Cons x xs)
    then have "chain (fat_entry p B) (x # xs)" "fat_entry p B c = x" "\<not> FAT_TV_LAST x" using chain by auto
    with fat_free_cluster_chain_result [OF s1(3) p1 this(1)] table that show thesis by (auto simp: Cons)
  qed
  define b where "b = fat_set_uint32 0 (B ?a) (28 + n mod 16 * 32)"
  define s3 where "s3 = update_file fd (\<lambda>f. f\<lparr>file_size := 0\<rparr>) s2"
  have "fat_holds (fold (put_entry p 0) rest B) s2" using fat_after_holds [OF s2(2)] g p1 by simp
  then have holds3: "fat_holds (fold (put_entry p 0) rest B) s3" by (simp add: s3_def fat_holds_def)
  obtain s4 where s4: "fat_write_single_block ?a b s3 = Some (True, s4)"
    "fat_after ((fold (put_entry p 0) rest B)(?a := b)) s3 s4" "fat_errno s4 = OK"
    using fat_write_sector [OF holds3, of b ?a] len by (auto simp: b_def)
  have "fat_pinfo s2 = p" using s1(2) s2(2) p by (simp add: state_simps)
  moreover have "dir_sector (idx_at p dcs n) + fat_first_sector_of_cluster p (dir_cluster (idx_at p dcs n)) = ?a"
    by (simp add: idx_at_def sector_at_def)
  ultimately have "truncate_file fd (idx_at p dcs n) (B ?a) s = Some s4"
    using s1(1) s2(1) s4(1) tv
    by (simp add: truncate_file_def cluster [unfolded index] Let_def s3_def [symmetric] entry_start_def index FAT_DIR_ENTRY_WIDTH_def b_def)
  moreover have "\<exists>d. s4 = (update_file fd (\<lambda>f. f\<lparr>file_size := 0\<rparr>) s)\<lparr>dev := d\<rparr> \<and> disk_holds (truncated p dcs n rest B) d \<and> errno d = OK"
    using s1(2) s2(2) s4(2,3)
    by (auto simp: fat_after_def s3_def update_file_def open_file_def state_updates truncated_def b_def fat_errno_def simp del: fun_upd_apply)
  ultimately show ?thesis by blast
qed

text \<open>What such a disk holds: the first cluster still leads to the next one, which is free.\<close>

lemma truncated_entry:
  assumes holds: "fat_holds B s" and p: "p = fat_pinfo s" and n: "n div 16 < spc p * length dcs" and dir: "file_chain p B dcs"
    and "unat c < table_size p"
  shows "fat_entry p (truncated p dcs n rest B) c = (if c \<in> set rest then 0 else fat_entry p B c)"
proof -
  have "geometry p" using holds p by (simp add: fat_holds_def)
  from fat_entry_other_block [OF sector_at_not_table [OF this dir n] assms(5)] fold_put_entry [OF holds_length [OF holds], of p rest]
  show ?thesis by (simp add: truncated_def)
qed

lemma seek_start:
  assumes "fd_error fd s = None"
  shows "fat_lseek fd 0 SEEK_SET s = Some (0, set_errno OK (update_file fd (\<lambda>f. f\<lparr>current_cluster := start_cluster f, file_pos := 0\<rparr>) (set_errno OK s)))"
  using assms by (simp add: fat_lseek_def seek_target_def open_file_def update_file_def set_errno_def)

lemma truncated_size:
  assumes holds: "fat_holds B s" and p: "p = fat_pinfo s" and n: "n div 16 < spc p * length dcs" and dir: "file_chain p B dcs"
  shows "fat_size_of_dir_entry (dir_entry p (truncated p dcs n rest B) dcs n) 0 = 0"
proof -
  have len: "length (B a) = 512" for a using holds_length [OF holds] .
  have at: "truncated p dcs n rest B (sector_at p dcs (n div 16)) =
      fat_set_uint32 0 (B (sector_at p dcs (n div 16))) (n mod 16 * 32 + 28)" by (simp add: truncated_def add.commute)
  have "n mod 16 * 32 + 28 + 4 \<le> 512" using mod_less_divisor [of 16 n] by simp
  from get_set_uint32 [of "n mod 16 * 32 + 28" "B (sector_at p dcs (n div 16))" 0] this len
  have "fat_size_of_dir_entry (truncated p dcs n rest B (sector_at p dcs (n div 16))) (n mod 16) = 0"
    by (simp add: at fat_size_of_dir_entry_def FAT_DIR_ENTRY_WIDTH_def)
  then show ?thesis
    using dir_entry_fields(3) [of "truncated p dcs n rest B" p dcs n] len by (simp add: at)
qed

lemma truncated_broken:
  assumes holds: "fat_holds B s" and p: "p = fat_pinfo s" and n: "n div 16 < spc p * length dcs" and dir: "file_chain p B dcs"
    and cs: "file_chain p B (c # rest)" and "rest \<noteq> []"
  shows "\<not> file_chain p (truncated p dcs n rest B) (c # cs')"
proof
  assume new: "file_chain p (truncated p dcs n rest B) (c # cs')"
  obtain x xs where rest: "rest = x # xs" using \<open>rest \<noteq> []\<close> by (cases rest) auto
  note entry = truncated_entry [OF holds p n dir, of _ rest]
  have old: "fat_entry p B c = x" "\<not> FAT_TV_LAST x" "c \<notin> set rest"
    using cs chain_distinct [of _ "c # rest"] by (auto simp: rest file_chain_def)
  have "unat c < table_size p" "unat x < table_size p" using file_chain_table [OF cs] by (auto simp: rest)
  then have c: "fat_entry p (truncated p dcs n rest B) c = x" "fat_entry p (truncated p dcs n rest B) x = 0"
    using entry old(1,3) by (simp_all add: rest)
  have "cs' \<noteq> []" using new c(1) old(2) by (auto simp: file_chain_def)
  then obtain ys where "cs' = x # ys" using new c(1) by (cases cs') (auto simp: file_chain_def)
  then have "chain (fat_entry p (truncated p dcs n rest B)) (x # ys)" using new by (simp add: file_chain_def)
  from chain_entry [OF this, of x] c(2) show False by (simp add: FAT_TV_FREE_def)
qed

text \<open>Opening an entry, then overwriting it.\<close>

lemma open_existing_truncates:
  assumes holds: "fat_holds B s" and p: "p = fat_pinfo s" and n: "n div 16 < spc p * length dcs" and dir: "file_chain p B dcs"
    and e: "e = dir_entry p B dcs n" and ent: "entry_file p B e (c # rest)" and "free_slot s = Some i" and flags: "oflag AND O_TRUNC \<noteq> 0"
    and "i < length (fat_open_files s)"
  shows "\<exists>d. open_existing oflag (B (sector_at p dcs (n div 16))) (idx_at p dcs n) s =
      Some (int i + 3, 0, s\<lparr>fat_open_files := (fat_open_files s)[i := (file_of_entry e (idx_at p dcs n))\<lparr>file_size := 0\<rparr>], dev := d\<rparr>) \<and>
    disk_holds (truncated p dcs n rest B) d \<and> errno d = OK"
proof -
  have len: "length (B (sector_at p dcs (n div 16))) = 512" using holds_length [OF holds] .
  define f where "f = file_of_entry e (idx_at p dcs n)"
  define s1 where "s1 = s\<lparr>fat_open_files := (fat_open_files s)[i := f]\<rparr>"
  have "fat_holds B s1" "p = fat_pinfo s1" using holds p by (simp_all add: s1_def fat_holds_def)
  moreover have c: "c = fat_cluster_of_dir_entry (dir_entry p B dcs n) 0" and cs: "file_chain p B (c # rest)"
    and nodir: "\<not> is_directory e" using ent by (auto simp: entry_file_def e)
  ultimately obtain d where d: "truncate_file (int i + 3) (idx_at p dcs n) (B (sector_at p dcs (n div 16))) s1 =
      Some ((update_file (int i + 3) (\<lambda>f. f\<lparr>file_size := 0\<rparr>) s1)\<lparr>dev := d\<rparr>)" "disk_holds (truncated p dcs n rest B) d" "errno d = OK"
    using truncate_file_result [OF _ _ n dir c cs] by blast
  define s2 where "s2 = (update_file (int i + 3) (\<lambda>f. f\<lparr>file_size := 0\<rparr>) s1)\<lparr>dev := d\<rparr>"
  have s2: "s2 = s\<lparr>fat_open_files := (fat_open_files s)[i := f\<lparr>file_size := 0\<rparr>], dev := d\<rparr>"
    using assms(9) by (simp add: s2_def s1_def update_file_def open_file_def file_index_def FAT_FD_OFFSET_def)
  then have "file_size (open_file (int i + 3) s2) = 0"
    using assms(9) by (simp add: open_file_def file_index_def FAT_FD_OFFSET_def)
  then have "open_existing oflag (B (sector_at p dcs (n div 16))) (idx_at p dcs n) s = Some (int i + 3, 0, s2)"
    using flags nodir assms(7) d(1) len
    by (simp add: open_existing_def open_entry entry_attrib excl_never is_directory_def e [symmetric] f_def [symmetric] s1_def [symmetric] s2_def [symmetric])
  with d(2,3) s2 show ?thesis by (auto simp: f_def)
qed

text \<open>C22: Opening a file with \<open>O_TRUNC\<close> frees the clusters of its chain behind the first one and sets its size to
  0, in the descriptor and in the directory. But the entry of the first cluster still points to the
  second one, which is free now: the file has no chain of clusters any more if it had two or more.\<close>

theorem fat_open_truncates:
  assumes path: "leads_to B parts (Inr (dcs, n)) s" and p: "p = fat_pinfo s" and free: "free_slot s = Some i"
    and e: "e = dir_entry p B dcs n" "entry_file p B e (c # rest)" and flags: "oflag AND O_TRUNC \<noteq> 0"
  shows "\<exists>s' B'. fat_open (path_of parts) oflag s = Some (int i + 3, s') \<and> fat_errno s' = OK \<and> fat_holds B' s' \<and>
    open_file (int i + 3) s' = (file_of_entry e (idx_at p dcs n))\<lparr>file_size := 0\<rparr> \<and>
    fat_size_of_dir_entry (dir_entry p B' dcs n) 0 = 0 \<and>
    (\<forall>x. unat x < table_size p \<longrightarrow> fat_entry p B' x = (if x \<in> set rest then 0 else fat_entry p B x)) \<and>
    (rest \<noteq> [] \<longrightarrow> (\<forall>cs. \<not> file_chain p B' (c # cs)))"
proof -
  let ?fd = "int i + 3" and ?B = "truncated p dcs n rest B"
  have holds: "fat_holds B s" and init: "fat_initialized s" and files: "length (fat_open_files s) = FAT_MAX_FILES"
    using path by (simp_all add: leads_to_def)
  have g: "geometry p" using holds p by (simp add: fat_holds_def)
  have n: "n div 16 < spc p * length dcs" and dir: "file_chain p B dcs"
    using path resolves_found by (force simp: leads_to_def p [symmetric] dir_size_def)+
  obtain s1 where s1: "fat_errno s1 = OK" "searched B s s1"
    and run: "fat_open (path_of parts) oflag s = do {
      (fd, target_pos, s) \<leftarrow> open_existing oflag (B (sector_at p dcs (n div 16))) (idx_at p dcs n) s1;
      s \<leftarrow> (if fat_errno s = OK then map_option snd (fat_lseek fd target_pos SEEK_SET s) else Some s);
      Some (if fat_errno s \<noteq> OK \<and> fd > 0 then (-1, snd (fat_close fd s)) else (fd, s)) }"
    by (rule fat_open_found [OF path p])
  have i: "i < FAT_MAX_FILES" "file_index ?fd = i" using free_slot_Some [OF free] by (simp_all add: file_index_def FAT_FD_OFFSET_def)
  have i1: "i < length (fat_open_files s1)" using i files s1(2) by (simp add: state_simps)
  have holds1: "fat_holds B s1" "p = fat_pinfo s1" using searched_holds [OF s1(2)] g p s1(2) by (simp_all add: state_simps)
  define f where "f = (file_of_entry e (idx_at p dcs n))\<lparr>file_size := 0\<rparr>"
  obtain d where d: "open_existing oflag (B (sector_at p dcs (n div 16))) (idx_at p dcs n) s1 =
      Some (?fd, 0, s1\<lparr>fat_open_files := (fat_open_files s1)[i := f], dev := d\<rparr>)" "disk_holds ?B d" "errno d = OK"
    using open_existing_truncates [OF holds1 n dir e _ flags i1] free free_slot_searched [OF s1(2)] by (auto simp: f_def)
  define s2 where "s2 = s1\<lparr>fat_open_files := (fat_open_files s1)[i := f], dev := d\<rparr>"
  have f2: "open_file ?fd s2 = f" using i1 by (simp add: s2_def open_file_def i(2))
  have "fd_error ?fd s2 = None"
    using i(1) init s1(2) by (simp add: fd_error_def f2) (simp add: s2_def f_def file_of_entry_def FAT_FD_OFFSET_def state_simps)
  from seek_start [OF this] obtain s' where s': "fat_lseek ?fd 0 SEEK_SET s2 = Some (0, s')"
    "s' = set_errno OK (update_file ?fd (\<lambda>f. f\<lparr>current_cluster := start_cluster f, file_pos := 0\<rparr>) (set_errno OK s2))" by blast
  have "fat_errno s2 = OK" using d(3) by (simp add: s2_def fat_errno_def)
  then have "fat_open (path_of parts) oflag s = Some (?fd, s')" using run d(1) s' by (simp add: s2_def)
  moreover have "open_file ?fd s' = f"
    using i1 f2 by (simp add: s'(2) open_file_def update_file_def i(2) s2_def f_def file_of_entry_def set_errno_def)
  moreover have "fat_holds ?B s'" using d(2) holds1 g by (simp add: s'(2) s2_def fat_holds_def update_file_def set_errno_def)
  moreover note truncated_entry [OF holds p n dir, of _ rest]
  moreover note truncated_size [OF holds p n dir, of rest] truncated_broken [OF holds p n dir, of c rest]
  moreover have "file_chain p B (c # rest)" using e(2) unfolding entry_file_def by blast
  ultimately show ?thesis using s'(2) unfolding f_def by (intro exI [of _ s'] exI [of _ ?B]) simp
qed

theorem fat_open_truncates_witness:
  "\<exists>s' B'. fat_open (path_of sample_path) (O_TRUNC OR O_WRONLY) (sample_state 0) = Some (5, s') \<and> fat_holds B' s' \<and>
    file_size (open_file 5 s') = 0 \<and> fat_entry sample_info B' 3 = 4 \<and> fat_entry sample_info B' 4 = 0"
proof -
  have size: "table_size sample_info = 128" by (simp add: table_size_def sample_info_def)
  have flags: "(O_TRUNC OR O_WRONLY) AND O_TRUNC \<noteq> 0" by (simp add: O_WRONLY_def O_TRUNC_def)
  obtain s' B' where s': "fat_open (path_of sample_path) (O_TRUNC OR O_WRONLY) (sample_state 0) = Some (int 2 + 3, s')" "fat_holds B' s'"
    "open_file (int 2 + 3) s' = (file_of_entry (dir_entry sample_info sample_blocks [2] 0) (idx_at sample_info [2] 0))\<lparr>file_size := 0\<rparr>"
    "\<forall>x. unat x < table_size sample_info \<longrightarrow> fat_entry sample_info B' x = (if x \<in> set [4] then 0 else fat_entry sample_info sample_blocks x)"
    using fat_open_truncates [OF sample_leads sample_fields(2) [symmetric] sample_free refl sample_entry_file flags] by blast
  have "fat_entry sample_info B' 3 = 4" "fat_entry sample_info B' 4 = 0"
    using s'(4) [rule_format, of 3] s'(4) [rule_format, of 4] by (simp_all add: size sample_entry)
  with s' show ?thesis by (intro exI [of _ s'] exI [of _ B']) simp
qed

section \<open>Deleting a file that is open\<close>

text \<open>A file that is open under any descriptor is not deleted: the call fails with \<open>EBUSY\<close>, and neither the disk
  nor the table of open files changes. A path that does not resolve fails with the error of the path.\<close>

theorem fat_unlink_refused:
  assumes path: "leads_to B parts r s" and p: "p = fat_pinfo s"
    and busy: "case r of Inl e \<Rightarrow> True
      | Inr (dcs, n) \<Rightarrow> \<exists>f \<in> set (fat_open_files s). \<not> file_free f \<and> file_dir_idx f = idx_at p dcs n"
  shows "\<exists>s'. fat_unlink (path_of parts) s = Some (FAT_FAIL, s') \<and> fat_holds B s' \<and> fat_open_files s' = fat_open_files s \<and>
    fat_errno s' = (case r of Inl e \<Rightarrow> e | Inr _ \<Rightarrow> EBUSY)"
proof -
  have init: "fat_initialized s" and g: "geometry (fat_pinfo s)" and files: "length (fat_open_files s) = FAT_MAX_FILES"
    using path by (simp_all add: leads_to_def fat_holds_def)
  obtain sec' idx' s' where look: "fat_resolve_path (path_of parts) (sector_buffer s) no_entry (set_errno OK s) = Some (\<not> isl r, sec', idx', s')"
    "fat_errno s' = (case r of Inl e \<Rightarrow> e | Inr _ \<Rightarrow> OK)" "searched B s s'"
    and found: "\<And>cs n. r = Inr (cs, n) \<Longrightarrow> idx' = idx_at p cs n"
    using lookup_start [OF path p] by metis
  have files': "fat_open_files s' = fat_open_files s" and holds: "fat_holds B s'"
    using look(3) searched_holds [OF look(3) g] by (simp_all add: state_simps)
  show ?thesis
  proof (cases r)
    case (Inl e)
    with look files' holds init show ?thesis by (simp add: fat_unlink_def)
  next
    case (Inr dn)
    obtain dcs n where dn: "dn = (dcs, n)" by (cases dn)
    have "list_ex (\<lambda>f. \<not> file_free f \<and> file_dir_idx f = idx') (take FAT_MAX_FILES (fat_open_files s'))"
      using busy found [of dcs n] files by (simp add: Inr dn list_ex_iff files')
    with look files' holds init Inr show ?thesis by (simp add: fat_unlink_def)
  qed
qed

theorem fat_unlink_refused_witness:
  "\<exists>s'. fat_unlink (path_of sample_path) (sample_state 0) = Some (FAT_FAIL, s') \<and> fat_errno s' = EBUSY"
proof -
  have "sample_file 0 \<in> set (fat_open_files (sample_state 0))" by (simp add: sample_state_def)
  moreover have "\<not> file_free (sample_file 0) \<and> file_dir_idx (sample_file 0) = idx_at sample_info [2] 0"
    by (simp add: sample_file_def idx_at_def spc_def)
  ultimately show ?thesis
    using fat_unlink_refused [OF sample_leads sample_fields(2) [symmetric]] by auto
qed

end
