(* ===== verification/Fat_Calls.thy ===== *)
theory Fat_Calls
  imports Fat_Overwrite
begin

text \<open>
  All calls of the FAT32 library as the steps of a client, and what no sequence of them changes,
  whatever the card answers: the partition and the sizes of the static arrays.
\<close>

section \<open>The shape of the state\<close>

definition fat_shape :: "fat_state \<Rightarrow> fat_partition_info \<times> bool \<times> nat \<times> nat \<times> nat" where
  "fat_shape s = (fat_pinfo s, fat_initialized s, length (fat_open_files s), length (long_name16 s), length (long_name8 s))"

named_theorems shape_keeps \<open>functions that keep the shape\<close>

lemma shape_updates [simp]:
  "fat_shape (set_errno e s) = fat_shape s" "fat_shape (s\<lparr>dev := d\<rparr>) = fat_shape s" "fat_shape (update_file fd g s) = fat_shape s"
  by (simp_all add: fat_shape_def set_errno_def update_file_def)

lemma loop_keeps_shape:
  assumes "loop_until round x = Some (r, y)"
    and "\<And>x r y. round x = Some (r, y) \<Longrightarrow> g y = g x"
  shows "g y = g x"
  using assms(1) by (rule loop_until_rule [where I = "\<lambda>y. g y = g x"]) (use assms(2) in auto)

lemma length_array_store: "array_store xs i v = Some ys \<Longrightarrow> length ys = length xs"
  by (auto simp: array_store_def split: if_splits)

lemma length_store_bytes: "store_bytes dst k xs = Some ys \<Longrightarrow> length ys = length dst"
  by (auto simp: store_bytes_def split: if_splits)

lemmas keeps_simps = Let_def bind_eq_Some_conv map_option_case prod.case_eq_if

section \<open>The table\<close>

lemma read_block_shape [shape_keeps]: "fat_read_single_block a buf s = Some (ok, buf', s') \<Longrightarrow> fat_shape s' = fat_shape s"
  by (auto simp: fat_read_single_block_def bind_eq_Some_conv Let_def split: if_splits)

lemma write_block_shape [shape_keeps]: "fat_write_single_block a buf s = Some (ok, s') \<Longrightarrow> fat_shape s' = fat_shape s"
  by (auto simp: fat_write_single_block_def bind_eq_Some_conv Let_def split: if_splits)

lemma table_value_shape [shape_keeps]: "fat_get_table_value c s = Some (tv, s') \<Longrightarrow> fat_shape s' = fat_shape s"
  by (auto simp: fat_get_table_value_def bind_eq_Some_conv Let_def dest: shape_keeps split: if_splits)

lemma claim_entry_shape [shape_keeps]: "claim_entry c link orig cur e buf s = Some (ok, new, s') \<Longrightarrow> fat_shape s' = fat_shape s"
  by (auto simp: claim_entry_def bind_eq_Some_conv Let_def dest!: shape_keeps split: if_splits)

lemma search_sectors_shape [shape_keeps]: "search_sectors c link orig i n s = Some (ok, new, s') \<Longrightarrow> fat_shape s' = fat_shape s"
  by (induction c link orig i n s arbitrary: ok new s' rule: search_sectors.induct)
    (fastforce simp: bind_eq_Some_conv Let_def dest: shape_keeps split: if_splits option.splits)+

lemma acquire_shape [shape_keeps]: "fat_acquire_next_cluster c link s = Some (ok, new, s') \<Longrightarrow> fat_shape s' = fat_shape s"
  by (auto simp: fat_acquire_next_cluster_def bind_eq_Some_conv Let_def dest!: table_value_shape read_block_shape search_sectors_shape split: if_splits option.splits)

lemma free_step_shape: "free_step x = Some (r, y) \<Longrightarrow> fat_shape (snd (snd y)) = fat_shape (snd (snd x))"
  by (cases x) (auto simp: free_step_def bind_eq_Some_conv Let_def dest!: read_block_shape write_block_shape split: if_splits option.splits)

lemma free_step_loop [shape_keeps]: "loop_until free_step x = Some (r, y) \<Longrightarrow> fat_shape (snd (snd y)) = fat_shape (snd (snd x))"
  by (rule loop_keeps_shape [where g = "\<lambda>x. fat_shape (snd (snd x))", OF _ free_step_shape])

lemma free_chain_shape [shape_keeps]: "fat_free_cluster_chain c s = Some (ok, s') \<Longrightarrow> fat_shape s' = fat_shape s"
  by (auto simp: fat_free_cluster_chain_def bind_eq_Some_conv dest!: shape_keeps)

section \<open>Open files\<close>

lemma read_chunk_shape [shape_keeps]: "read_chunk sector off n got buf s = Some (ok, buf', s') \<Longrightarrow> fat_shape s' = fat_shape s"
  by (auto simp: read_chunk_def bind_eq_Some_conv Let_def dest!: shape_keeps split: if_splits)

lemma read_advance_shape [shape_keeps]: "read_advance fd k s = Some (x, k', s') \<Longrightarrow> fat_shape s' = fat_shape s"
  by (auto simp: read_advance_def bind_eq_Some_conv Let_def dest!: shape_keeps split: if_splits option.splits)

lemma read_step_shape: "read_step fd x = Some (r, y) \<Longrightarrow> fat_shape (snd (snd y)) = fat_shape (snd (snd x))"
  by (cases x) (auto simp: read_step_def bind_eq_Some_conv Let_def dest!: read_chunk_shape read_advance_shape split: if_splits option.splits)

lemma read_step_loop [shape_keeps]: "loop_until (read_step fd) x = Some (r, y) \<Longrightarrow> fat_shape (snd (snd y)) = fat_shape (snd (snd x))"
  by (rule loop_keeps_shape [where g = "\<lambda>x. fat_shape (snd (snd x))", OF _ read_step_shape])

lemma fat_read_shape [shape_keeps]: "fat_read fd buf sz s = Some (n, buf', s') \<Longrightarrow> fat_shape s' = fat_shape s"
  by (auto simp: fat_read_def bind_eq_Some_conv Let_def dest!: shape_keeps split: option.splits)

lemma write_chunk_shape [shape_keeps]: "write_chunk sector off n got buf s = Some (ok, s') \<Longrightarrow> fat_shape s' = fat_shape s"
  by (auto simp: write_chunk_def bind_eq_Some_conv Let_def dest!: shape_keeps split: if_splits)

lemma write_advance_shape [shape_keeps]: "write_advance fd k s = Some (x, k', s') \<Longrightarrow> fat_shape s' = fat_shape s"
  by (auto simp: write_advance_def bind_eq_Some_conv Let_def dest!: shape_keeps split: if_splits)

lemma grow_file_shape [shape_keeps]: "grow_file fd n s = Some s' \<Longrightarrow> fat_shape s' = fat_shape s"
  by (auto simp: grow_file_def bind_eq_Some_conv Let_def dest!: shape_keeps split: if_splits)

lemma write_step_shape: "write_step fd buf x = Some (r, y) \<Longrightarrow> fat_shape (snd y) = fat_shape (snd x)"
  by (cases x) (auto simp: write_step_def bind_eq_Some_conv Let_def dest!: write_chunk_shape write_advance_shape split: if_splits option.splits)

lemma write_step_loop [shape_keeps]: "loop_until (write_step fd buf) x = Some (r, y) \<Longrightarrow> fat_shape (snd y) = fat_shape (snd x)"
  by (rule loop_keeps_shape [where g = "\<lambda>x. fat_shape (snd x)", OF _ write_step_shape])

lemma fat_write_shape [shape_keeps]: "fat_write fd buf sz s = Some (n, s') \<Longrightarrow> fat_shape s' = fat_shape s"
  by (auto simp: fat_write_def bind_eq_Some_conv Let_def dest!: shape_keeps split: option.splits if_splits)

lemma seek_clusters_shape [shape_keeps]: "seek_clusters n c s = Some (ok, c', s') \<Longrightarrow> fat_shape s' = fat_shape s"
  by (induction n c s arbitrary: ok c' s' rule: seek_clusters.induct)
    (fastforce simp: bind_eq_Some_conv dest: shape_keeps split: if_splits option.splits)+

lemma fat_lseek_shape [shape_keeps]: "fat_lseek fd pos whence s = Some (r, s') \<Longrightarrow> fat_shape s' = fat_shape s"
  by (auto simp: fat_lseek_def bind_eq_Some_conv Let_def dest!: shape_keeps split: if_splits option.splits)

lemma fat_close_shape [shape_keeps]: "fat_close fd s = (r, s') \<Longrightarrow> fat_shape s' = fat_shape s"
  by (auto simp: fat_close_def split: option.splits)

lemma open_dir_entry_shape [shape_keeps]: "fat_open_dir_entry sector idx s = (fd, s') \<Longrightarrow> fat_shape s' = fat_shape s"
  by (auto simp: fat_open_dir_entry_def fat_shape_def Let_def split: option.splits)

text \<open>The same as rules for the results of longer calls: what they end with, one call after the other.\<close>

definition ends_at :: "fat_partition_info \<times> bool \<times> nat \<times> nat \<times> nat \<Rightarrow> ('a \<Rightarrow> fat_state) \<Rightarrow> 'a option \<Rightarrow> bool" where
  "ends_at z g m \<longleftrightarrow> (\<forall>x. m = Some x \<longrightarrow> fat_shape (g x) = z)"

lemma ends_at_bind:
  "(\<And>x. m = Some x \<Longrightarrow> ends_at z g (f x)) \<Longrightarrow> ends_at z g (m \<bind> f)"
  by (cases m) (simp_all add: ends_at_def)

lemma ends_at_Some [simp]: "ends_at z g (Some x) \<longleftrightarrow> fat_shape (g x) = z"
  by (simp add: ends_at_def)

lemma ends_at_None [simp]: "ends_at z g None"
  by (simp add: ends_at_def)

lemma ends_at_if: "(b \<Longrightarrow> ends_at z g x) \<Longrightarrow> (\<not> b \<Longrightarrow> ends_at z g y) \<Longrightarrow> ends_at z g (if b then x else y)"
  by simp

lemma ends_at_if_bind:
  "(b \<Longrightarrow> ends_at z g (x \<bind> f)) \<Longrightarrow> (\<not> b \<Longrightarrow> ends_at z g (y \<bind> f)) \<Longrightarrow> ends_at z g ((if b then x else y) \<bind> f)"
  by simp

lemma ends_at_case:
  "(v = None \<Longrightarrow> ends_at z g x) \<Longrightarrow> (\<And>w. v = Some w \<Longrightarrow> ends_at z g (y w)) \<Longrightarrow>
    ends_at z g (case v of None \<Rightarrow> x | Some w \<Rightarrow> y w)"
  by (cases v) simp_all

lemma ends_atI: "(\<And>x. m = Some x \<Longrightarrow> fat_shape (g x) = z) \<Longrightarrow> ends_at z g m"
  by (simp add: ends_at_def)

lemma ends_atD: "ends_at z g m \<Longrightarrow> m = Some x \<Longrightarrow> fat_shape (g x) = z"
  by (simp add: ends_at_def)

lemma read_ends: "fat_shape s = z \<Longrightarrow> (\<And>ok buf' s'. fat_shape s' = z \<Longrightarrow> ends_at z g (f (ok, buf', s'))) \<Longrightarrow>
    ends_at z g (fat_read_single_block a buf s \<bind> f)"
  by (rule ends_at_bind) (auto dest: read_block_shape)

lemma write_ends: "fat_shape s = z \<Longrightarrow> (\<And>ok s'. fat_shape s' = z \<Longrightarrow> ends_at z g (f (ok, s'))) \<Longrightarrow>
    ends_at z g (fat_write_single_block a buf s \<bind> f)"
  by (rule ends_at_bind) (auto dest: write_block_shape)

lemma table_ends: "fat_shape s = z \<Longrightarrow> (\<And>tv s'. fat_shape s' = z \<Longrightarrow> ends_at z g (f (tv, s'))) \<Longrightarrow>
    ends_at z g (fat_get_table_value c s \<bind> f)"
  by (rule ends_at_bind) (auto dest: table_value_shape)

lemma acquire_ends: "fat_shape s = z \<Longrightarrow> (\<And>ok new s'. fat_shape s' = z \<Longrightarrow> ends_at z g (f (ok, new, s'))) \<Longrightarrow>
    ends_at z g (fat_acquire_next_cluster c link s \<bind> f)"
  by (rule ends_at_bind) (auto dest: acquire_shape)

lemma free_ends: "fat_shape s = z \<Longrightarrow> (\<And>ok s'. fat_shape s' = z \<Longrightarrow> ends_at z g (f (ok, s'))) \<Longrightarrow>
    ends_at z g (fat_free_cluster_chain c s \<bind> f)"
  by (rule ends_at_bind) (auto dest: free_chain_shape)

lemmas ends_rules = ends_at_if_bind ends_at_if ends_at_case read_ends write_ends table_ends acquire_ends free_ends

section \<open>Names and paths\<close>

lemma store_name16_shape: "length nm = length (long_name16 s) \<Longrightarrow> fat_shape (s\<lparr>long_name16 := nm\<rparr>) = fat_shape s"
  by (simp add: fat_shape_def)

lemma store_name8_shape: "length nm = length (long_name8 s) \<Longrightarrow> fat_shape (s\<lparr>long_name8 := nm\<rparr>) = fat_shape s"
  by (simp add: fat_shape_def)

lemma long_name_step_length: "long_name_step pmax eps buffer x = Some (r, y) \<Longrightarrow> length (snd (snd y)) = length (snd (snd x))"
  by (cases x) (auto simp: long_name_step_def bind_eq_Some_conv Let_def dest!: length_store_bytes length_array_store split: if_splits)

lemma long_name_loop_length: "loop_until (long_name_step pmax eps buffer) x = Some (r, y) \<Longrightarrow> length (snd (snd y)) = length (snd (snd x))"
  by (rule loop_keeps_shape [where g = "\<lambda>x. length (snd (snd x))", OF _ long_name_step_length])

lemma long_name_sector_shape: "long_name_sector pmax start x = Some (r, y) \<Longrightarrow> fat_shape (snd (snd (snd y))) = fat_shape (snd (snd (snd x)))"
  by (cases x) (auto simp: long_name_sector_def bind_eq_Some_conv Let_def store_name16_shape
    dest!: long_name_loop_length read_block_shape split: if_splits)

lemma long_name_sector_loop: "loop_until (long_name_sector pmax start) x = Some (r, y) \<Longrightarrow>
    fat_shape (snd (snd (snd y))) = fat_shape (snd (snd (snd x)))"
  by (rule loop_keeps_shape [where g = "\<lambda>x. fat_shape (snd (snd (snd x)))", OF _ long_name_sector_shape])

lemma long_name16_shape: "fat_get_long_name_uint16 buffer idx s = Some (ok, buffer', idx', s') \<Longrightarrow> fat_shape s' = fat_shape s"
  by (auto simp: fat_get_long_name_uint16_def bind_eq_Some_conv Let_def dest!: long_name_sector_loop split: if_splits)

lemma long_name8_shape [shape_keeps]: "fat_get_long_name_uint8 buffer idx s = Some (ok, buffer', idx', s') \<Longrightarrow> fat_shape s' = fat_shape s"
  by (auto simp: fat_get_long_name_uint8_def bind_eq_Some_conv Let_def store_name8_shape
    dest!: length_store_bytes long_name16_shape split: if_splits)

lemma compare_name_shape [shape_keeps]: "fat_compare_entry_name path pmin pmax sector idx s = Some (ok, sector', idx', s') \<Longrightarrow> fat_shape s' = fat_shape s"
  by (auto simp: fat_compare_entry_name_def bind_eq_Some_conv Let_def dest!: long_name8_shape split: if_splits option.splits prod.splits)

lemma find_in_sector_shape: "find_in_sector path pmin pmax x = Some (r, y) \<Longrightarrow> fat_shape (snd (snd y)) = fat_shape (snd (snd x))"
  by (cases x) (auto simp: find_in_sector_def bind_eq_Some_conv Let_def dest!: compare_name_shape split: if_splits option.splits prod.splits)

lemma find_in_sector_loop [shape_keeps]: "loop_until (find_in_sector path pmin pmax) x = Some (r, y) \<Longrightarrow> fat_shape (snd (snd y)) = fat_shape (snd (snd x))"
  by (rule loop_keeps_shape [where g = "\<lambda>x. fat_shape (snd (snd x))", OF _ find_in_sector_shape])

lemma find_sector_ends: "fat_shape s = z \<Longrightarrow> (\<And>r sector' idx' s'. fat_shape s' = z \<Longrightarrow> ends_at z g (f (r, sector', idx', s'))) \<Longrightarrow>
    ends_at z g (loop_until (find_in_sector path pmin pmax) (sector, idx, s) \<bind> f)"
  by (rule ends_at_bind) (auto dest: find_in_sector_loop)

lemma find_in_cluster_shape: "find_in_cluster path pmin pmax first x = Some (r, y) \<Longrightarrow> fat_shape (snd (snd y)) = fat_shape (snd (snd x))"
proof -
  obtain sector idx s where x: "x = (sector, idx, s)" by (cases x)
  have "ends_at (fat_shape s) (\<lambda>(r, y). snd (snd y)) (find_in_cluster path pmin pmax first x)"
    unfolding find_in_cluster_def x Let_def prod.case by (auto intro!: ends_rules find_sector_ends split: option.splits)
  then show "find_in_cluster path pmin pmax first x = Some (r, y) \<Longrightarrow> fat_shape (snd (snd y)) = fat_shape (snd (snd x))" by (auto dest: ends_atD simp: x)
qed

lemma find_in_cluster_loop [shape_keeps]: "loop_until (find_in_cluster path pmin pmax first) x = Some (r, y) \<Longrightarrow> fat_shape (snd (snd y)) = fat_shape (snd (snd x))"
  by (rule loop_keeps_shape [where g = "\<lambda>x. fat_shape (snd (snd x))", OF _ find_in_cluster_shape])

lemma find_cluster_ends: "fat_shape s = z \<Longrightarrow> (\<And>r sector' idx' s'. fat_shape s' = z \<Longrightarrow> ends_at z g (f (r, sector', idx', s'))) \<Longrightarrow>
    ends_at z g (loop_until (find_in_cluster path pmin pmax first) (sector, idx, s) \<bind> f)"
  by (rule ends_at_bind) (auto dest: find_in_cluster_loop)

lemma find_in_directory_shape: "find_in_directory path pmin pmax x = Some (r, y) \<Longrightarrow> fat_shape (snd (snd (snd y))) = fat_shape (snd (snd (snd x)))"
proof -
  obtain cluster sector idx s where x: "x = (cluster, sector, idx, s)" by (cases x)
  have "ends_at (fat_shape s) (\<lambda>(r, y). snd (snd (snd y))) (find_in_directory path pmin pmax x)"
    unfolding find_in_directory_def x Let_def prod.case by (auto intro!: ends_rules find_cluster_ends split: option.splits)
  then show "find_in_directory path pmin pmax x = Some (r, y) \<Longrightarrow> fat_shape (snd (snd (snd y))) = fat_shape (snd (snd (snd x)))" by (auto dest: ends_atD simp: x)
qed

lemma find_in_directory_loop [shape_keeps]: "loop_until (find_in_directory path pmin pmax) x = Some (r, y) \<Longrightarrow> fat_shape (snd (snd (snd y))) = fat_shape (snd (snd (snd x)))"
  by (rule loop_keeps_shape [where g = "\<lambda>x. fat_shape (snd (snd (snd x)))", OF _ find_in_directory_shape])

lemma resolve_step_shape: "resolve_step path x = Some (r, y) \<Longrightarrow> fat_shape (snd (snd (snd (snd y)))) = fat_shape (snd (snd (snd (snd x))))"
  by (cases x) (auto simp: resolve_step_def bind_eq_Some_conv Let_def dest!: find_in_directory_loop split: if_splits)

lemma resolve_step_loop [shape_keeps]: "loop_until (resolve_step path) x = Some (r, y) \<Longrightarrow> fat_shape (snd (snd (snd (snd y)))) = fat_shape (snd (snd (snd (snd x))))"
  by (rule loop_keeps_shape [where g = "\<lambda>x. fat_shape (snd (snd (snd (snd x))))", OF _ resolve_step_shape])

lemma resolve_path_shape [shape_keeps]: "fat_resolve_path path sector idx s = Some (ok, sector', idx', s') \<Longrightarrow> fat_shape s' = fat_shape s"
  by (auto simp: fat_resolve_path_def bind_eq_Some_conv Let_def dest!: resolve_step_loop split: if_splits option.splits prod.splits)

lemma resolve_ends: "fat_shape s = z \<Longrightarrow> (\<And>ok sector' idx' s'. fat_shape s' = z \<Longrightarrow> ends_at z g (f (ok, sector', idx', s'))) \<Longrightarrow>
    ends_at z g (fat_resolve_path path sector idx s \<bind> f)"
  by (rule ends_at_bind) (auto dest: resolve_path_shape)

section \<open>Creating and deleting\<close>

lemma resolve_parent_shape [shape_keeps]: "resolve_parent path pmin idx sector s = Some (ok, idx', sector', s') \<Longrightarrow> fat_shape s' = fat_shape s"
  by (auto simp: resolve_parent_def bind_eq_Some_conv Let_def dest!: resolve_path_shape split: if_splits option.splits prod.splits)

lemma scan_cluster_shape [shape_keeps]: "scan_cluster nm c i n x = Some y \<Longrightarrow> fat_shape (snd (snd (snd y))) = fat_shape (snd (snd (snd x)))"
proof (induction n arbitrary: i x)
  case (Suc n)
  obtain stop sector sc s where x: "x = (stop, sector, sc, s)" by (cases x)
  from Suc.prems obtain ok sector' s' where
    read: "fat_read_single_block (fat_first_sector_of_cluster (fat_pinfo s) c + i) sector s = Some (ok, sector', s')"
    by (auto simp: x bind_eq_Some_conv)
  obtain same sc' where sc: "scan_sector nm c i sector' 0 (unat (entries_in_sector s')) sc = (same, sc')" by fastforce
  show ?case using Suc.IH [of "i + 1" "(stop \<or> same, sector', sc', if same then set_errno EEXIST s' else s')"]
      Suc.prems read_block_shape [OF read] by (simp add: x read sc split: if_splits)
qed simp

lemma scan_step_shape:
  assumes "scan_step nm x = Some (r, y)"
  shows "fat_shape (snd (snd (snd y))) = fat_shape (snd (snd (snd x)))"
proof -
  obtain cluster sector sc s where x: "x = (cluster, sector, sc, s)" by (cases x)
  let ?scan = "scan_cluster nm cluster 0 (unat (sectors_per_cluster (fat_pinfo s))) (False, sector, sc, s)"
  obtain stop sector1 sc1 s1 where scan: "?scan = Some (stop, sector1, sc1, s1)"
    using assms by (auto simp: scan_step_def x Let_def bind_eq_Some_conv)
  have s1: "fat_shape s1 = fat_shape s" using scan_cluster_shape [OF scan] by simp
  obtain ok c2 s2 where acq: "fat_acquire_next_cluster cluster True s1 = Some (ok, c2, s2) \<or> found_index sc1"
    by (cases "fat_acquire_next_cluster cluster True s1") (use assms in \<open>auto simp: scan_step_def x scan Let_def split: if_splits\<close>)
  show ?thesis
  proof (cases "found_index sc1")
    case True
    then show ?thesis using assms s1 by (auto simp: scan_step_def x scan)
  next
    case False
    with acq have acq: "fat_acquire_next_cluster cluster True s1 = Some (ok, c2, s2)" by simp
    have s2: "fat_shape s2 = fat_shape s" using acquire_shape [OF acq] s1 by simp
    show ?thesis using assms False s2
      by (auto simp: scan_step_def x scan acq Let_def bind_eq_Some_conv dest!: write_block_shape split: if_splits)
  qed
qed

lemma scan_step_loop [shape_keeps]: "loop_until (scan_step nm) x = Some (r, y) \<Longrightarrow> fat_shape (snd (snd (snd y))) = fat_shape (snd (snd (snd x)))"
  by (rule loop_keeps_shape [where g = "\<lambda>x. fat_shape (snd (snd (snd x)))", OF _ scan_step_shape])

lemma next_place_shape [shape_keeps]: "next_place w s = Some (w', s') \<Longrightarrow> fat_shape s' = fat_shape s"
  by (auto simp: next_place_def bind_eq_Some_conv Let_def dest!: write_block_shape acquire_shape read_block_shape split: if_splits option.splits prod.splits)

lemma write_entries_shape [shape_keeps]: "write_entries cr n off w pdir fd s = Some (w', pdir', fd', s') \<Longrightarrow> fat_shape s' = fat_shape s"
proof (induction n arbitrary: off w pdir fd s)
  case 0
  then show ?case by (auto simp: bind_eq_Some_conv Let_def dest!: write_block_shape split: if_splits)
next
  case (Suc n)
  show ?case
  proof (cases "fat_errno s = OK")
    case False
    then show ?thesis using Suc.prems by simp
  next
    case True
    define b where "b = (if n = 0 then short_entry_bytes (cr_short cr) (cr_isfile cr) (cr_cluster cr) (at_ent w) (at_buffer w)
      else long_entry_bytes (cr_path cr) (nm_max (cr_name cr)) (nm_req (cr_name cr)) (Suc n)
        (name_checksum (cr_short cr)) off (at_ent w) (at_buffer w))"
    obtain fd1 s1 where s1: "(if n = 0 \<and> cr_isfile cr then fat_open_dir_entry b (cr_target cr) s else (fd, s)) = (fd1, s1)" by fastforce
    have "fat_shape s1 = fat_shape s" using s1 open_dir_entry_shape by (auto split: if_splits)
    moreover obtain w2 s2 off2 pdir2 where s2: "next_place (w\<lparr>at_buffer := b\<rparr>) s1 = Some (w2, s2)"
      "write_entries cr n off2 w2 pdir2 fd1 s2 = Some (w', pdir', fd', s')"
      using Suc.prems [unfolded write_entries.simps Let_def, folded b_def] by (auto simp: True s1 bind_eq_Some_conv)
    ultimately show ?thesis using Suc.IH [OF s2(2)] next_place_shape [OF s2(1)] by simp
  qed
qed

lemma create_entries_shape [shape_keeps]:
  "create_entries path nm isfile sc sector pdir fd s = Some (sector', pdir', fd', s') \<Longrightarrow> fat_shape s' = fat_shape s"
  by (auto simp: create_entries_def bind_eq_Some_conv Let_def dest!: acquire_shape read_block_shape write_entries_shape)

lemma fat_create_shape [shape_keeps]:
  "fat_create path pdir sector fd isfile s = Some (ok, pdir', sector', fd', s') \<Longrightarrow> fat_shape s' = fat_shape s"
  by (auto simp: fat_create_def bind_eq_Some_conv Let_def dest!: resolve_parent_shape scan_step_loop create_entries_shape split: if_splits)

lemma delete_entry_step_shape: "delete_entry_step path pmin pmax x = Some (r, y) \<Longrightarrow> fat_shape (snd (snd (snd y))) = fat_shape (snd (snd (snd x)))"
  by (cases x) (auto simp: delete_entry_step_def bind_eq_Some_conv Let_def dest!: compare_name_shape split: if_splits)

lemma delete_entry_step_loop: "loop_until (delete_entry_step path pmin pmax) x = Some (r, y) \<Longrightarrow>
    fat_shape (snd (snd (snd y))) = fat_shape (snd (snd (snd x)))"
  by (rule loop_keeps_shape [where g = "\<lambda>x. fat_shape (snd (snd (snd x)))", OF _ delete_entry_step_shape])

lemma delete_sector_step_shape: "delete_sector_step path pmin pmax first x = Some (r, y) \<Longrightarrow> fat_shape (snd (snd (snd y))) = fat_shape (snd (snd (snd x)))"
  by (cases x) (auto simp: delete_sector_step_def bind_eq_Some_conv dest!: delete_entry_step_loop read_block_shape split: if_splits)

lemma delete_sector_step_loop: "loop_until (delete_sector_step path pmin pmax first) x = Some (r, y) \<Longrightarrow>
    fat_shape (snd (snd (snd y))) = fat_shape (snd (snd (snd x)))"
  by (rule loop_keeps_shape [where g = "\<lambda>x. fat_shape (snd (snd (snd x)))", OF _ delete_sector_step_shape])

lemma delete_cluster_step_shape: "delete_cluster_step path pmin pmax x = Some (r, y) \<Longrightarrow> fat_shape (snd (snd (snd y))) = fat_shape (snd (snd (snd x)))"
  by (cases x) (auto simp: delete_cluster_step_def bind_eq_Some_conv dest!: delete_sector_step_loop acquire_shape split: if_splits)

lemma delete_cluster_step_loop: "loop_until (delete_cluster_step path pmin pmax) x = Some (r, y) \<Longrightarrow>
    fat_shape (snd (snd (snd y))) = fat_shape (snd (snd (snd x)))"
  by (rule loop_keeps_shape [where g = "\<lambda>x. fat_shape (snd (snd (snd x)))", OF _ delete_cluster_step_shape])

lemma mark_step_shape: "mark_step mark target x = Some (r, y) \<Longrightarrow> fat_shape (snd y) = fat_shape (snd x)"
  by (cases x) (auto simp: mark_step_def bind_eq_Some_conv Let_def dest!: write_block_shape next_place_shape split: if_splits)

lemma mark_step_loop: "loop_until (mark_step mark target) x = Some (r, y) \<Longrightarrow> fat_shape (snd y) = fat_shape (snd x)"
  by (rule loop_keeps_shape [where g = "\<lambda>x. fat_shape (snd x)", OF _ mark_step_shape])

lemma unlink_entries_shape: "unlink_entries d sector s = Some (sector', s') \<Longrightarrow> fat_shape s' = fat_shape s"
  by (auto simp: unlink_entries_def bind_eq_Some_conv Let_def dest!: read_block_shape write_block_shape mark_step_loop split: if_splits)

lemma parent_ends: "fat_shape s = z \<Longrightarrow> (\<And>ok idx' sector' s'. fat_shape s' = z \<Longrightarrow> ends_at z g (f (ok, idx', sector', s'))) \<Longrightarrow>
    ends_at z g (resolve_parent path pmin idx sector s \<bind> f)"
  by (rule ends_at_bind) (auto dest: resolve_parent_shape)

lemma delete_loop_ends: "fat_shape s = z \<Longrightarrow> (\<And>sector' idx' d' s'. fat_shape s' = z \<Longrightarrow> ends_at z g (f ((), sector', idx', d', s'))) \<Longrightarrow>
    ends_at z g (loop_until (delete_cluster_step path pmin pmax) (sector, idx, d, s) \<bind> f)"
  by (rule ends_at_bind) (auto dest: delete_cluster_step_loop)

lemma unlink_ends: "fat_shape s = z \<Longrightarrow> (\<And>sector' s'. fat_shape s' = z \<Longrightarrow> ends_at z g (f (sector', s'))) \<Longrightarrow>
    ends_at z g (unlink_entries d sector s \<bind> f)"
  by (rule ends_at_bind) (auto dest: unlink_entries_shape)

lemma last_part_ends: "(\<And>pmin pmax. ends_at z g (f (pmin, pmax))) \<Longrightarrow> ends_at z g (last_part path \<bind> f)"
  by (rule ends_at_bind) auto

lemma fat_delete_shape [shape_keeps]: "fat_delete path sector s = Some (ok, sector', s') \<Longrightarrow> fat_shape s' = fat_shape s"
proof -
  have "ends_at (fat_shape s) (\<lambda>(ok, sector, s). s) (fat_delete path sector s)"
    unfolding fat_delete_def Let_def
    by (auto intro!: ends_rules last_part_ends parent_ends delete_loop_ends unlink_ends)
  then show "fat_delete path sector s = Some (ok, sector', s') \<Longrightarrow> fat_shape s' = fat_shape s" by (auto dest: ends_atD)
qed

section \<open>The calls on paths\<close>

lemma truncate_file_shape: "truncate_file fd idx sector s = Some s' \<Longrightarrow> fat_shape s' = fat_shape s"
proof -
  have "ends_at (fat_shape s) (\<lambda>s. s) (truncate_file fd idx sector s)"
    unfolding truncate_file_def Let_def
    by (auto intro!: ends_rules)
  then show "truncate_file fd idx sector s = Some s' \<Longrightarrow> fat_shape s' = fat_shape s" by (auto dest: ends_atD)
qed

lemma open_existing_shape: "open_existing oflag sector idx s = Some (fd, pos, s') \<Longrightarrow> fat_shape s' = fat_shape s"
  by (auto simp: open_existing_def bind_eq_Some_conv Let_def dest!: open_dir_entry_shape truncate_file_shape split: if_splits prod.splits)

lemma close_shape: "fat_shape (snd (fat_close fd s)) = fat_shape s"
  using fat_close_shape by (metis prod.collapse)

lemma existing_ends: "fat_shape s = z \<Longrightarrow> (\<And>fd pos s'. fat_shape s' = z \<Longrightarrow> ends_at z g (f (fd, pos, s'))) \<Longrightarrow>
    ends_at z g (open_existing oflag sector idx s \<bind> f)"
  by (rule ends_at_bind) (auto dest: open_existing_shape)

lemma create_ends: "fat_shape s = z \<Longrightarrow> (\<And>ok pdir' sector' fd' s'. fat_shape s' = z \<Longrightarrow> ends_at z g (f (ok, pdir', sector', fd', s'))) \<Longrightarrow>
    ends_at z g (fat_create path pdir sector fd isfile s \<bind> f)"
  by (rule ends_at_bind) (auto dest: fat_create_shape)

lemma seek_ends: "fat_shape s = z \<Longrightarrow> (\<And>s'. fat_shape s' = z \<Longrightarrow> ends_at z g (f s')) \<Longrightarrow>
    ends_at z g (map_option snd (fat_lseek fd pos whence s) \<bind> f)"
  by (rule ends_at_bind) (auto dest: fat_lseek_shape)

lemma fat_open_shape: "fat_open path oflag s = Some (fd, s') \<Longrightarrow> fat_shape s' = fat_shape s"
proof -
  have "ends_at (fat_shape s) (\<lambda>(fd, s). s) (fat_open path oflag s)"
    unfolding fat_open_def Let_def
    by (auto intro!: ends_rules resolve_ends existing_ends create_ends seek_ends simp: close_shape)
  then show "fat_open path oflag s = Some (fd, s') \<Longrightarrow> fat_shape s' = fat_shape s" by (auto dest: ends_atD)
qed

lemma fat_creat_shape: "fat_creat path s = Some (fd, s') \<Longrightarrow> fat_shape s' = fat_shape s"
  by (auto simp: fat_creat_def dest: fat_open_shape split: if_splits)

lemma fat_unlink_shape: "fat_unlink path s = Some (r, s') \<Longrightarrow> fat_shape s' = fat_shape s"
  by (auto simp: fat_unlink_def bind_eq_Some_conv dest!: resolve_path_shape fat_delete_shape split: if_splits)

lemma write_snd_ends: "fat_shape s = z \<Longrightarrow> (\<And>s'. fat_shape s' = z \<Longrightarrow> ends_at z g (f s')) \<Longrightarrow>
    ends_at z g (map_option snd (fat_write_single_block a b s) \<bind> f)"
  by (rule ends_at_bind) (auto dest: write_block_shape)

lemma fat_mkdir_shape: "fat_mkdir path s = Some (r, s') \<Longrightarrow> fat_shape s' = fat_shape s"
proof -
  have "ends_at (fat_shape s) (\<lambda>(r, s). s) (fat_mkdir path s)"
    unfolding fat_mkdir_def Let_def
    by (auto intro!: ends_rules resolve_ends create_ends write_snd_ends)
  then show "fat_mkdir path s = Some (r, s') \<Longrightarrow> fat_shape s' = fat_shape s" by (auto dest: ends_atD)
qed

lemma empty_step_shape: "empty_step x = Some (r, y) \<Longrightarrow>
    fat_shape (snd (snd (snd (snd (snd (snd y)))))) = fat_shape (snd (snd (snd (snd (snd (snd x))))))"
  by (cases x) (auto simp: empty_step_def bind_eq_Some_conv Let_def dest!: acquire_shape read_block_shape split: if_splits)

lemma empty_step_loop: "loop_until empty_step x = Some (r, y) \<Longrightarrow>
    fat_shape (snd (snd (snd (snd (snd (snd y)))))) = fat_shape (snd (snd (snd (snd (snd (snd x))))))"
  by (rule loop_keeps_shape [where g = "\<lambda>x. fat_shape (snd (snd (snd (snd (snd (snd x))))))", OF _ empty_step_shape])

lemma fat_rmdir_shape: "fat_rmdir path s = Some (r, s') \<Longrightarrow> fat_shape s' = fat_shape s"
  by (auto simp: fat_rmdir_def bind_eq_Some_conv Let_def
    dest!: resolve_path_shape read_block_shape empty_step_loop fat_delete_shape split: if_splits)

section \<open>Sequences of calls\<close>

datatype fat_call =
    Open_Call "u8 list" u32
  | Creat_Call "u8 list"
  | Close_Call int
  | Read_Call int "u8 list" u32
  | Write_Call int "u8 list" u32
  | Seek_Call int u32 int
  | Unlink_Call "u8 list"
  | Mkdir_Call "u8 list"
  | Rmdir_Call "u8 list"

text \<open>The return value and the state after a call; \<^const>\<open>None\<close> if it does not return or leaves its arrays.\<close>

fun fat_call_result :: "fat_call \<Rightarrow> fat_state \<Rightarrow> (int \<times> fat_state) option" where
  "fat_call_result (Open_Call path oflag) s = fat_open path oflag s"
| "fat_call_result (Creat_Call path) s = fat_creat path s"
| "fat_call_result (Close_Call fd) s = Some (fat_close fd s)"
| "fat_call_result (Read_Call fd buf sz) s = map_option (\<lambda>(n, buf, s). (n, s)) (fat_read fd buf sz s)"
| "fat_call_result (Write_Call fd buf sz) s = fat_write fd buf sz s"
| "fat_call_result (Seek_Call fd pos whence) s = fat_lseek fd pos whence s"
| "fat_call_result (Unlink_Call path) s = fat_unlink path s"
| "fat_call_result (Mkdir_Call path) s = fat_mkdir path s"
| "fat_call_result (Rmdir_Call path) s = fat_rmdir path s"

inductive fat_calls :: "fat_state \<Rightarrow> (fat_call \<times> int) list \<Rightarrow> fat_state \<Rightarrow> bool" where
  no_call: "fat_calls s [] s"
| more_calls: "fat_call_result c s = Some (r, s1) \<Longrightarrow> fat_calls s1 cs s' \<Longrightarrow> fat_calls s ((c, r) # cs) s'"

inductive_simps fat_calls_simps: "fat_calls s [] s'" "fat_calls s ((c, r) # cs) s'"

text \<open>The types of the static variables of the source.\<close>

definition fat_typed :: "fat_partition_info \<Rightarrow> fat_state \<Rightarrow> bool" where
  "fat_typed p s \<longleftrightarrow> fat_pinfo s = p \<and> fat_initialized s \<and> length (fat_open_files s) = FAT_MAX_FILES \<and>
     length (long_name16 s) = FAT_MAX_LONG_NAME \<and> length (long_name8 s) = FAT_MAX_LONG_NAME"

lemma call_shape: "fat_call_result c s = Some (r, s') \<Longrightarrow> fat_shape s' = fat_shape s"
  by (cases c) (auto dest: fat_open_shape fat_creat_shape fat_close_shape fat_read_shape fat_write_shape fat_lseek_shape
    fat_unlink_shape fat_mkdir_shape fat_rmdir_shape)

lemma fat_typed_shape: "fat_shape s' = fat_shape s \<Longrightarrow> fat_typed p s' \<longleftrightarrow> fat_typed p s"
  by (simp add: fat_shape_def fat_typed_def)

text \<open>After any sequence of calls that return, whatever the card has answered, the static variables have
  kept their types: the partition is the one given to \<open>fat_init\<close>, there are 16 places for open files,
  and the two name buffers have their 255 elements.\<close>

theorem fat_calls_keep_types:
  assumes "fat_calls s cs s'" and "fat_typed p s"
  shows "fat_typed p s'"
  using assms by (induction rule: fat_calls.induct) (auto simp: fat_typed_shape [OF call_shape])

theorem fat_calls_keep_types_witness:
  "\<exists>s'. fat_calls (sample_state 0) [(Close_Call 4, 0), (Close_Call 4, -1), (Read_Call 19 [] 0, -1)] s' \<and> fat_typed sample_info s'"
proof -
  define s1 where "s1 = snd (fat_close 4 (sample_state 0))"
  define s2 where "s2 = snd (fat_close 4 s1)"
  have calls: "fat_calls (sample_state 0) [(Close_Call 4, 0), (Close_Call 4, -1), (Read_Call 19 [] 0, -1)] (set_errno EINVAL s2)"
    by (simp add: fat_calls_simps s1_def s2_def fat_close_def fat_read_def fd_error_def sample_state_def sample_other_def open_file_def
        update_file_def file_index_def set_errno_def FAT_FD_OFFSET_def FAT_MAX_FILES_def FAT_SUCCESS_def FAT_FAIL_def)
  have "fat_typed sample_info (sample_state 0)"
    by (simp add: fat_typed_def sample_state_def FAT_MAX_FILES_def FAT_MAX_LONG_NAME_def)
  from fat_calls_keep_types [OF calls this] calls show ?thesis by blast
qed

end
