(* ===== verification/Audio_DSP.thy ===== *)
theory Audio_DSP
  imports C_Prelude "HOL-Library.Signed_Division"
begin

text \<open>
  The signal processing routines of the audio library (libaudio/dsp_algorithms.c). A sample is a
  signed 16-bit number that stands for a fraction of 2^15; products and sums are formed in signed 32-bit
  accumulators. The two channels of a stereo signal are a pair. Reading or writing an array outside its
  bounds is undefined (\<^const>\<open>None\<close>).
\<close>

section \<open>Signed arithmetic of C\<close>

type_synonym stereo = "u16 \<times> u16"

definition c_rem :: "u32 \<Rightarrow> int \<Rightarrow> u32" where
  "c_rem a n = word_of_int (sint a smod n)"

definition arr_rd :: "'a list \<Rightarrow> u32 \<Rightarrow> 'a option" where
  "arr_rd xs i = (if 0 \<le> sint i \<and> sint i < int (length xs) then Some (xs ! nat (sint i)) else None)"

definition arr_wr :: "'a list \<Rightarrow> u32 \<Rightarrow> 'a \<Rightarrow> 'a list option" where
  "arr_wr xs i v = (if 0 \<le> sint i \<and> sint i < int (length xs) then Some (xs[nat (sint i) := v]) else None)"

text \<open>The arithmetic shift to the right by a signed amount.\<close>

definition c_shr :: "u32 \<Rightarrow> u32 \<Rightarrow> u32 option" where
  "c_shr a k = (if 0 \<le> sint k \<and> sint k < 32 then Some (signed_drop_bit (nat (sint k)) a) else None)"

text \<open>Products of two samples, and the narrowing of an accumulator to a sample.\<close>

definition smul :: "u16 \<Rightarrow> u16 \<Rightarrow> u32" where
  "smul a b = scast a * scast b"

definition narrow :: "u32 \<Rightarrow> u16" where
  "narrow a = ucast a"

definition ONE_16b :: u32 where "ONE_16b = 0x7FFF"

section \<open>Filters\<close>

definition saturate :: "u32 \<Rightarrow> u32" where
  "saturate a = (if sint a > 0x7FFFFFF then 0x7FFFFFF else if sint a < -0x8000000 then -0x8000000 else a)"

definition iir_tap :: "u16 \<Rightarrow> u16 \<Rightarrow> u16 \<Rightarrow> u16 \<Rightarrow> u32 \<Rightarrow> u32" where
  "iir_tap b x a y acc = acc + signed_drop_bit 2 (smul b x) - signed_drop_bit 2 (smul a y)"

text \<open>One round of the filter loop, for both channels; the two filters differ in the length of the buffers.\<close>

definition iir_round ::
  "nat \<Rightarrow> u32 \<Rightarrow> stereo list \<Rightarrow> stereo list \<Rightarrow> u16 list \<Rightarrow> u16 list \<Rightarrow> nat \<Rightarrow> u32 \<times> u32 \<Rightarrow> (u32 \<times> u32) option" where
  "iir_round n pnt_i x y B A i acc = do {
     let pnt = c_rem (pnt_i + of_nat i + 1) (int n);
     (x0, x1) \<leftarrow> arr_rd x pnt;
     (y0, y1) \<leftarrow> arr_rd y pnt;
     b \<leftarrow> arr_rd B (of_nat i);
     a \<leftarrow> arr_rd A (of_nat i);
     Some (iir_tap b x0 a y0 (fst acc), iir_tap b x1 a y1 (snd acc)) }"

definition filterIIR ::
  "nat \<Rightarrow> u32 \<Rightarrow> stereo list \<Rightarrow> stereo list \<Rightarrow> u16 list \<Rightarrow> u16 list \<Rightarrow> u32 \<Rightarrow> (stereo list \<times> u32 \<times> u32) option" where
  "filterIIR n pnt_i x y B A shiftLeft = do {
     (acc0, acc1) \<leftarrow> for_loop 0 n (\<lambda>i r. Option.bind r (iir_round n pnt_i x y B A i)) (Some (0, 0));
     let acc0 = saturate acc0;
     let acc1 = saturate acc1;
     y0 \<leftarrow> c_shr acc0 (13 - shiftLeft);
     y1 \<leftarrow> c_shr acc1 (13 - shiftLeft);
     y \<leftarrow> arr_wr y pnt_i (narrow y0, narrow y1);
     Some (y, acc0, acc1) }"

definition filterIIR_1st ::
  "u32 \<Rightarrow> stereo list \<Rightarrow> stereo list \<Rightarrow> u16 list \<Rightarrow> u16 list \<Rightarrow> u32 \<Rightarrow> (stereo list \<times> u32 \<times> u32) option" where
  "filterIIR_1st = filterIIR 2"

definition filterIIR_2nd ::
  "u32 \<Rightarrow> stereo list \<Rightarrow> stereo list \<Rightarrow> u16 list \<Rightarrow> u16 list \<Rightarrow> u32 \<Rightarrow> (stereo list \<times> u32 \<times> u32) option" where
  "filterIIR_2nd = filterIIR 3"

text \<open>
  A comb filter adds delayed samples of a buffer of each channel, at distances \<open>del\<close> from the pointer.
\<close>

definition comb_round ::
  "int \<Rightarrow> u32 \<Rightarrow> u16 list \<times> u16 list \<Rightarrow> u16 list \<Rightarrow> u32 list \<Rightarrow> nat \<Rightarrow> u32 \<times> u32 \<Rightarrow> (u32 \<times> u32) option" where
  "comb_round len pnt bufs g del i acc = do {
     d \<leftarrow> arr_rd del (of_nat i);
     let audio_pnt = c_rem (pnt + d) len;
     gi \<leftarrow> arr_rd g (of_nat i);
     x0 \<leftarrow> arr_rd (fst bufs) audio_pnt;
     x1 \<leftarrow> arr_rd (snd bufs) audio_pnt;
     Some (fst acc + signed_drop_bit 2 (smul gi x0), snd acc + signed_drop_bit 2 (smul gi x1)) }"

definition combFilter ::
  "nat \<Rightarrow> int \<Rightarrow> u32 \<Rightarrow> u16 list \<times> u16 list \<Rightarrow> u16 list \<Rightarrow> u32 list \<Rightarrow> (stereo \<times> u32 \<times> u32) option" where
  "combFilter n len pnt bufs g del = do {
     (acc0, acc1) \<leftarrow> for_loop 0 n (\<lambda>i r. Option.bind r (comb_round len pnt bufs g del i)) (Some (0, 0));
     let acc0 = saturate acc0;
     let acc1 = saturate acc1;
     Some ((narrow (signed_drop_bit 13 acc0), narrow (signed_drop_bit 13 acc1)), acc0, acc1) }"

definition combFilter_1st ::
  "int \<Rightarrow> u32 \<Rightarrow> u16 list \<times> u16 list \<Rightarrow> u16 list \<Rightarrow> u32 list \<Rightarrow> (stereo \<times> u32 \<times> u32) option" where
  "combFilter_1st = combFilter 2"

definition combFilter_2nd ::
  "int \<Rightarrow> u32 \<Rightarrow> u16 list \<times> u16 list \<Rightarrow> u16 list \<Rightarrow> u32 list \<Rightarrow> (stereo \<times> u32 \<times> u32) option" where
  "combFilter_2nd = combFilter 3"

text \<open>The all-pass filter on one channel, and on both.\<close>

definition allpass_channel :: "u32 \<Rightarrow> u32 \<Rightarrow> u16 \<Rightarrow> u16 \<Rightarrow> u16 list \<Rightarrow> (u16 list \<times> u16) option" where
  "allpass_channel pnt ap_pnt g x ap_buffer = do {
     v \<leftarrow> arr_rd ap_buffer ap_pnt;
     let y = narrow (scast v - signed_drop_bit 15 (smul x g));
     let acc = signed_drop_bit 15 (smul y g) + scast x;
     let acc = (if sint acc > sint ONE_16b then ONE_16b else if sint acc < - sint ONE_16b then - ONE_16b else acc);
     ap_buffer \<leftarrow> arr_wr ap_buffer pnt (narrow acc);
     Some (ap_buffer, y) }"

definition allpass_comb ::
  "int \<Rightarrow> u32 \<Rightarrow> u16 list \<times> u16 list \<Rightarrow> stereo \<Rightarrow> u16 \<Rightarrow> ((u16 list \<times> u16 list) \<times> stereo) option" where
  "allpass_comb len pnt bufs x g = do {
     let ap_pnt = c_rem (pnt + word_of_int len - 1) len;
     (b0, y0) \<leftarrow> allpass_channel pnt ap_pnt g (fst x) (fst bufs);
     (b1, y1) \<leftarrow> allpass_channel pnt ap_pnt g (snd x) (snd bufs);
     Some ((b0, b1), (y0, y1)) }"

section \<open>The integers the words stand for\<close>

text \<open>An expression on words is the word of the expression on integers; only shifts need a range.\<close>

named_theorems word_exprs \<open>words as images of integer expressions\<close>

lemma in_i32: "- (2 ^ 31) \<le> z \<Longrightarrow> z < 2 ^ 31 \<Longrightarrow> sint (word_of_int z :: u32) = z"
  by (simp add: signed_of_int signed_take_bit_int_eq_self)

lemma in_i16: "- (2 ^ 15) \<le> z \<Longrightarrow> z < 2 ^ 15 \<Longrightarrow> sint (word_of_int z :: u16) = z"
  by (simp add: signed_of_int signed_take_bit_int_eq_self)

lemma sint_u16_bounds: "- 32768 \<le> sint (h :: u16)" "sint (h :: u16) \<le> 32767"
  using sint_greater_eq [of h] sint_less [of h] by simp_all

lemma sint_u32_bounds: "- (2 ^ 31) \<le> sint (w :: u32)" "sint (w :: u32) < 2 ^ 31"
  using sint_greater_eq [of w] sint_less [of w] by simp_all

lemma scast_word_of_int [word_exprs]: "(scast (h :: u16) :: u32) = word_of_int (sint h)"
  by (rule scast_eq)

lemma narrow_word_of_int [word_exprs]: "narrow (word_of_int z) = word_of_int z"
  unfolding narrow_def by (rule bit_word_eqI) (simp add: bit_simps)

lemma smul_word_of_int [word_exprs]: "smul a b = word_of_int (sint a * sint b)"
  by (simp only: smul_def scast_word_of_int of_int_mult)

lemma shift_word_of_int:
  assumes "- (2 ^ 31) \<le> z" "z < 2 ^ 31"
  shows "signed_drop_bit k (word_of_int z :: u32) = word_of_int (z div 2 ^ k)"
proof -
  have "sint (signed_drop_bit k (word_of_int z :: u32)) = z div 2 ^ k"
    by (simp add: sint_signed_drop_bit_eq in_i32 [OF assms] drop_bit_eq_div)
  then have "word_of_int (sint (signed_drop_bit k (word_of_int z :: u32))) = (word_of_int (z div 2 ^ k) :: u32)" by simp
  then show ?thesis by simp
qed

lemma add_word_of_int: "word_of_int x + word_of_int y = (word_of_int (x + y) :: u32)"
  by simp

lemma diff_word_of_int: "word_of_int x - word_of_int y = (word_of_int (x - y) :: u32)"
  by simp

lemma mul_word_of_int: "word_of_int x * word_of_int y = (word_of_int (x * y) :: u32)"
  by simp

text \<open>The product of two samples, and of a sample with a factor that is not negative.\<close>

lemma sample_product_bounds: "\<bar>sint (a :: u16) * sint (b :: u16)\<bar> \<le> 2 ^ 30"
proof -
  have "\<bar>sint a\<bar> \<le> 2 ^ 15" "\<bar>sint b\<bar> \<le> 2 ^ 15"
    using sint_u16_bounds [of a] sint_u16_bounds [of b] by auto
  then have "\<bar>sint a\<bar> * \<bar>sint b\<bar> \<le> 2 ^ 15 * 2 ^ 15" by (intro mult_mono) auto
  then show ?thesis by (simp add: abs_mult)
qed

lemma tap_bounds: "- (2 ^ 28) \<le> sint (a :: u16) * sint (b :: u16) div 4" "sint a * sint b div 4 \<le> 2 ^ 28"
proof -
  have "- 1073741824 \<le> sint a * sint b" "sint a * sint b \<le> 1073741824"
    using sample_product_bounds [of a b] by (auto simp: abs_le_iff)
  then show "- (2 ^ 28) \<le> sint a * sint b div 4" "sint a * sint b div 4 \<le> 2 ^ 28" by simp_all
qed

lemma shift_smul [word_exprs]: "signed_drop_bit 2 (smul a b) = word_of_int (sint a * sint b div 4)"
proof -
  have "signed_drop_bit 2 (smul a b) = word_of_int (sint a * sint b div 2 ^ 2)"
    unfolding smul_word_of_int using sample_product_bounds [of a b] by (intro shift_word_of_int) auto
  then show ?thesis by simp
qed

lemma shift_smul_15 [word_exprs]: "signed_drop_bit 15 (smul a b) = word_of_int (sint a * sint b div 2 ^ 15)"
  unfolding smul_word_of_int using sample_product_bounds [of a b] by (intro shift_word_of_int) auto

lemma c_rem_nonneg:
  assumes "0 \<le> sint a" "0 < n" "n < 2 ^ 31"
  shows "sint (c_rem a n) = sint a mod n"
proof -
  have "sint a smod n = sint a mod n" using assms by (simp add: signed_modulo_int_def sgn_if)
  then show ?thesis
    unfolding c_rem_def using assms pos_mod_bound [of n "sint a"] pos_mod_sign [of n "sint a"]
    by (simp add: in_i32 del: pos_mod_bound pos_mod_sign)
qed

lemma arr_rd_nat: "i < length xs \<Longrightarrow> sint p = int i \<Longrightarrow> arr_rd xs p = Some (xs ! i)"
  by (simp add: arr_rd_def)

lemma arr_wr_nat: "i < length xs \<Longrightarrow> sint p = int i \<Longrightarrow> arr_wr xs p v = Some (xs[i := v])"
  by (simp add: arr_wr_def)

lemma sint_of_nat_small: "i < 2 ^ 31 \<Longrightarrow> sint (of_nat i :: u32) = int i"
  using in_i32 [of "int i"] by simp

end
