(* ===== verification/Audio_Effects.thy ===== *)
theory Audio_Effects
  imports Audio_DSP
begin

text \<open>
  The audio effects (the per-sample functions of libaudio/audio.c and the structures of audio.h). A
  function takes the state of an effect and one stereo sample and returns the new state and the sample
  it puts out. The tables of sine values and the filter coefficients are computed in floating point by
  other functions; here they are contents of the states.
\<close>

section \<open>States\<close>

definition Fs :: int where "Fs = 52083"
definition VIBRATO_L :: int where "VIBRATO_L = 200"
definition VIBRATO_P :: int where "VIBRATO_P = Fs div 4"
definition DELAY_L :: int where "DELAY_L = Fs div 4"
definition CHORUS_P1 :: int where "CHORUS_P1 = Fs"
definition CHORUS_P2 :: int where "CHORUS_P2 = 4 * Fs div 5"
definition CHORUS_L :: int where "CHORUS_L = 2083"
definition TREMOLO_P :: int where "TREMOLO_P = Fs div 4"

text \<open>Products of integer constants with 0.6, 0.2, 0.8 and so on are cut to integers.\<close>

definition WAHWAH_P :: int where "WAHWAH_P = Fs * 6 div 10"
definition WAHWAH_DRY_GAIN :: u32 where "WAHWAH_DRY_GAIN = word_of_int (0x7FFF * 2 div 10)"
definition WAHWAH_WET_GAIN :: u32 where "WAHWAH_WET_GAIN = word_of_int (0x7FFF * 8 div 10)"

record Filter =
  filt_accum :: "u32 \<times> u32"
  filt_x_buf :: "stereo list"
  filt_y_buf :: "stereo list"
  filt_A :: "u16 list"
  filt_B :: "u16 list"
  filt_pnt :: u32
  filt_sftLft :: u32
  filt_type :: u32

record Vibrato =
  vibr_accum :: "u32 \<times> u32"
  vibr_del :: u32
  vibr_frac :: u16
  vibr_pnt :: u32
  vibr_v_pnt :: u32
  vibr_audio_pnt :: u32
  vibr_n_audio_pnt :: u32
  vibr_audio_buf :: "u16 list \<times> u16 list"
  vibr_sin_array :: "u32 list"
  vibr_frac_array :: "u16 list"

record Overdrive =
  od_accum :: "u32 \<times> u32"

record Distortion =
  dist_accum :: "u32 \<times> u32"
  dist_k :: u32
  dist_kOnePlus :: u32
  dist_sftLft :: u32

record IIRdelay =
  del_accum :: "u32 \<times> u32"
  del_g :: "u16 list"
  del_del :: "u32 list"
  del_pnt :: u32
  del_audio_buf :: "u16 list \<times> u16 list"

record Chorus =
  chor_accum :: "u32 \<times> u32"
  chor_g :: "u16 list"
  chor_del :: "u32 list"
  chor_pnt :: u32
  chor_c1_pnt :: u32
  chor_c2_pnt :: u32
  chor_audio_buf :: "u16 list \<times> u16 list"
  chor_mod_array1 :: "u32 list"
  chor_mod_array2 :: "u32 list"

record Tremolo =
  trem_pnt :: u32
  trem_pnt_n :: u32
  trem_frac :: u16
  trem_frac1Minus :: u16
  trem_mod :: u32
  trem_mod_array :: "u32 list"
  trem_frac_array :: "u16 list"

record WahWah =
  wah_accum :: "u32 \<times> u32"
  wah_x_buf :: "stereo list"
  wah_y_buf :: "stereo list"
  wah_A :: "u16 list"
  wah_B :: "u16 list"
  wah_pnt :: u32
  wah_wah_pnt :: u32
  wah_sftLft :: u32
  wah_a_array :: "u16 list list"
  wah_b_array :: "u16 list list"

section \<open>Effects on one sample\<close>

definition audio_dry :: "stereo \<Rightarrow> stereo" where
  "audio_dry x = (fst x, snd x)"

definition audio_filter :: "Filter \<Rightarrow> stereo \<Rightarrow> (Filter \<times> stereo) option" where
  "audio_filter f x = do {
     let pnt = c_rem (filt_pnt f + 1) 3;
     x_buf \<leftarrow> arr_wr (filt_x_buf f) pnt x;
     (y_buf, accum) \<leftarrow> filterIIR_2nd pnt x_buf (filt_y_buf f) (filt_B f) (filt_A f) (filt_sftLft f);
     (y0, y1) \<leftarrow> arr_rd y_buf pnt;
     let accum = (if filt_type f = 2
                  then (signed_drop_bit 1 (scast (fst x) - scast y0), signed_drop_bit 1 (scast (snd x) - scast y1))
                  else if filt_type f = 3
                  then (signed_drop_bit 1 (scast (fst x) + scast y0), signed_drop_bit 1 (scast (snd x) + scast y1))
                  else (scast y0, scast y1));
     Some (f\<lparr>filt_pnt := pnt, filt_x_buf := x_buf, filt_y_buf := y_buf, filt_accum := accum\<rparr>,
           (narrow (fst accum), narrow (snd accum))) }"

text \<open>One channel of the vibrato: the sample is stored, and the output lies between two delayed samples.\<close>

definition vibrato_channel :: "u32 \<Rightarrow> u32 \<Rightarrow> u32 \<Rightarrow> u16 \<Rightarrow> u16 \<Rightarrow> u16 \<Rightarrow> u16 list \<Rightarrow> (u16 list \<times> u32) option" where
  "vibrato_channel pnt audio_pnt n_audio_pnt frac frac1Minus x buf = do {
     buf \<leftarrow> arr_wr buf pnt x;
     later \<leftarrow> arr_rd buf n_audio_pnt;
     v \<leftarrow> arr_rd buf audio_pnt;
     Some (buf, smul later frac + smul v frac1Minus) }"

text \<open>A pointer that runs downwards in a buffer of \<open>len\<close> places.\<close>

definition step_down :: "int \<Rightarrow> u32 \<Rightarrow> u32" where
  "step_down len pnt = (if pnt = 0 then word_of_int len - 1 else pnt - 1)"

definition audio_vibrato :: "Vibrato \<Rightarrow> stereo \<Rightarrow> (Vibrato \<times> stereo) option" where
  "audio_vibrato v x = do {
     del \<leftarrow> arr_rd (vibr_sin_array v) (vibr_v_pnt v);
     frac \<leftarrow> arr_rd (vibr_frac_array v) (vibr_v_pnt v);
     let frac1Minus = narrow (ONE_16b - scast frac);
     let pnt = vibr_pnt v;
     let audio_pnt = c_rem (pnt + del) VIBRATO_L;
     let n_audio_pnt = c_rem (pnt + del + 1) VIBRATO_L;
     (buf0, acc0) \<leftarrow> vibrato_channel pnt audio_pnt n_audio_pnt frac frac1Minus (fst x) (fst (vibr_audio_buf v));
     (buf1, acc1) \<leftarrow> vibrato_channel pnt audio_pnt n_audio_pnt frac frac1Minus (snd x) (snd (vibr_audio_buf v));
     Some (v\<lparr>vibr_del := del, vibr_frac := frac, vibr_v_pnt := c_rem (vibr_v_pnt v + 1) VIBRATO_P,
             vibr_audio_pnt := audio_pnt, vibr_n_audio_pnt := n_audio_pnt,
             vibr_audio_buf := (buf0, buf1), vibr_accum := (acc0, acc1),
             vibr_pnt := step_down VIBRATO_L pnt\<rparr>,
           (narrow (signed_drop_bit 15 acc0), narrow (signed_drop_bit 15 acc1))) }"

definition wahwah_mix :: "u16 \<Rightarrow> u16 \<Rightarrow> u32" where
  "wahwah_mix x y =
     signed_drop_bit 15 (WAHWAH_WET_GAIN * (scast x - scast y)) + signed_drop_bit 15 (WAHWAH_DRY_GAIN * scast x)"

definition audio_wahwah :: "WahWah \<Rightarrow> stereo \<Rightarrow> (WahWah \<times> stereo) option" where
  "audio_wahwah w x = do {
     b0 \<leftarrow> arr_rd (wah_b_array w ! 2) (wah_wah_pnt w);
     b1 \<leftarrow> arr_rd (wah_b_array w ! 1) (wah_wah_pnt w);
     a1 \<leftarrow> arr_rd (wah_a_array w ! 1) (wah_wah_pnt w);
     a2 \<leftarrow> arr_rd (wah_a_array w ! 0) (wah_wah_pnt w);
     let B = (wah_B w)[2 := b0, 1 := b1];
     let A = (wah_A w)[1 := a1, 0 := a2];
     let pnt = c_rem (wah_pnt w + 1) 3;
     x_buf \<leftarrow> arr_wr (wah_x_buf w) pnt x;
     (y_buf, _) \<leftarrow> filterIIR_2nd pnt x_buf (wah_y_buf w) B A (wah_sftLft w);
     (y0, y1) \<leftarrow> arr_rd y_buf pnt;
     let accum = (wahwah_mix (fst x) y0, wahwah_mix (snd x) y1);
     Some (w\<lparr>wah_B := B, wah_A := A, wah_wah_pnt := c_rem (wah_wah_pnt w + 1) WAHWAH_P, wah_pnt := pnt,
             wah_x_buf := x_buf, wah_y_buf := y_buf, wah_accum := accum\<rparr>,
           (narrow (fst accum), narrow (snd accum))) }"

definition audio_tremolo :: "Tremolo \<Rightarrow> stereo \<Rightarrow> (Tremolo \<times> stereo) option" where
  "audio_tremolo t x = do {
     let pnt = c_rem (trem_pnt t + 1) TREMOLO_P;
     let pnt_n = c_rem (trem_pnt_n t + 1) TREMOLO_P;
     frac \<leftarrow> arr_rd (trem_frac_array t) pnt;
     let frac1Minus = narrow (ONE_16b - scast frac);
     m \<leftarrow> arr_rd (trem_mod_array t) pnt;
     m_n \<leftarrow> arr_rd (trem_mod_array t) pnt_n;
     let md = signed_drop_bit 15 (m * scast frac1Minus + m_n * scast frac);
     Some (t\<lparr>trem_pnt := pnt, trem_pnt_n := pnt_n, trem_frac := frac, trem_frac1Minus := frac1Minus, trem_mod := md\<rparr>,
           (narrow (signed_drop_bit 15 (scast (fst x) * md)), narrow (signed_drop_bit 15 (scast (snd x) * md)))) }"

definition audio_chorus :: "Chorus \<Rightarrow> stereo \<Rightarrow> (Chorus \<times> stereo) option" where
  "audio_chorus c x = do {
     d0 \<leftarrow> arr_rd (chor_mod_array1 c) (chor_c1_pnt c);
     d1 \<leftarrow> arr_rd (chor_mod_array2 c) (chor_c2_pnt c);
     let del = (chor_del c)[0 := d0, 1 := d1];
     let pnt = chor_pnt c;
     buf0 \<leftarrow> arr_wr (fst (chor_audio_buf c)) pnt (fst x);
     buf1 \<leftarrow> arr_wr (snd (chor_audio_buf c)) pnt (snd x);
     (y, accum) \<leftarrow> combFilter_2nd CHORUS_L pnt (buf0, buf1) (chor_g c) del;
     Some (c\<lparr>chor_del := del, chor_c1_pnt := c_rem (chor_c1_pnt c + 1) CHORUS_P1,
             chor_c2_pnt := c_rem (chor_c2_pnt c + 1) CHORUS_P2,
             chor_audio_buf := (buf0, buf1), chor_accum := accum, chor_pnt := step_down CHORUS_L pnt\<rparr>, y) }"

definition audio_delay :: "IIRdelay \<Rightarrow> stereo \<Rightarrow> (IIRdelay \<times> stereo) option" where
  "audio_delay d x = do {
     let pnt = del_pnt d;
     buf0 \<leftarrow> arr_wr (fst (del_audio_buf d)) pnt (fst x);
     buf1 \<leftarrow> arr_wr (snd (del_audio_buf d)) pnt (snd x);
     (y, accum) \<leftarrow> combFilter_1st DELAY_L pnt (buf0, buf1) (del_g d) (del_del d);
     buf0 \<leftarrow> arr_wr buf0 pnt (fst y);
     buf1 \<leftarrow> arr_wr buf1 pnt (snd y);
     Some (d\<lparr>del_audio_buf := (buf0, buf1), del_accum := accum, del_pnt := step_down DELAY_L pnt\<rparr>, y) }"

text \<open>
  The overdrive on one channel, with the accumulator it leaves. The magnitude is an unsigned number, so
  the first product and its shift are unsigned; the square and the last product are signed.
\<close>

definition overdrive_channel :: "u32 \<Rightarrow> u16 \<Rightarrow> u32 \<times> u16" where
  "overdrive_channel acc x =
     (let x_abs = (word_of_int \<bar>sint x\<bar> :: u32) in
      if x_abs > 2 * 0x2AAB then (acc, if sint x > 0 then 0x7FFF else 0x8000)
      else if x_abs > 0x2AAB
      then let acc = drop_bit 15 (0x17FFF * x_abs);
               acc = 0xFFFF - acc;
               acc = signed_drop_bit 15 (acc * acc);
               acc = 0x17FFF - acc;
               acc = signed_drop_bit 15 (acc * 0x2AAB)
           in (acc, if sint x > 0 then (if sint acc > 32767 then 32767 else narrow acc) else narrow (- acc))
      else (acc, narrow (push_bit 1 (scast x))))"

definition audio_overdrive :: "Overdrive \<Rightarrow> stereo \<Rightarrow> Overdrive \<times> stereo" where
  "audio_overdrive od x =
     (let (acc0, y0) = overdrive_channel (fst (od_accum od)) (fst x);
          (acc1, y1) = overdrive_channel (snd (od_accum od)) (snd x)
      in (od\<lparr>od_accum := (acc0, acc1)\<rparr>, (y0, y1)))"

text \<open>
  The distortion divides with truncation; a division by zero is undefined. Both channels use the same
  two accumulators.
\<close>

definition distortion_channel :: "u32 \<Rightarrow> u32 \<Rightarrow> u32 \<Rightarrow> u16 \<Rightarrow> ((u32 \<times> u32) \<times> u16) option" where
  "distortion_channel k kOnePlus sftLft x = do {
     let acc0 = kOnePlus * scast x;
     let acc1 = signed_drop_bit 15 (k * word_of_int \<bar>sint x\<bar>);
     one \<leftarrow> c_shr (ONE_16b + sftLft) sftLft;
     let acc1 = acc1 + one;
     if acc1 = 0 then None
     else do {
       let acc0 = word_of_int (sint acc0 sdiv sint acc1);
       Some ((acc0, acc1), if sint x > 0 then narrow (acc0 - 1) else narrow acc0) } }"

definition audio_distortion :: "Distortion \<Rightarrow> stereo \<Rightarrow> (Distortion \<times> stereo) option" where
  "audio_distortion d x = do {
     (_, y0) \<leftarrow> distortion_channel (dist_k d) (dist_kOnePlus d) (dist_sftLft d) (fst x);
     (accum, y1) \<leftarrow> distortion_channel (dist_k d) (dist_kOnePlus d) (dist_sftLft d) (snd x);
     Some (d\<lparr>dist_accum := accum\<rparr>, (y0, y1)) }"

section \<open>Runs, and effects as machines\<close>

fun run_fx :: "('s \<Rightarrow> stereo \<Rightarrow> ('s \<times> stereo) option) \<Rightarrow> 's \<Rightarrow> stereo list \<Rightarrow> ('s \<times> stereo list) option" where
  "run_fx fx s [] = Some (s, [])"
| "run_fx fx s (x # xs) = do { (s, y) \<leftarrow> fx s x; (s, ys) \<leftarrow> run_fx fx s xs; Some (s, y # ys) }"

text \<open>A machine on integers: from a state and an input, an output and the next state.\<close>

fun mealy :: "('a \<Rightarrow> int \<Rightarrow> int \<times> 'a) \<Rightarrow> 'a \<Rightarrow> int list \<Rightarrow> int list" where
  "mealy m a [] = []"
| "mealy m a (x # xs) = (let (y, a') = m a x in y # mealy m a' xs)"

lemma length_mealy [simp]: "length (mealy m a xs) = length xs"
  by (induction xs arbitrary: a) (auto split: prod.split)

lemma both_channels: "(\<forall>ch \<in> {fst, snd}. P ch) \<longleftrightarrow> P fst \<and> P snd"
  by simp

text \<open>
  What the effects have in common: in a proper state an effect succeeds, and each channel on its own
  makes the step of a machine.
\<close>

locale stereo_effect =
  fixes fx :: "'s \<Rightarrow> stereo \<Rightarrow> ('s \<times> stereo) option" and ok :: "'s \<Rightarrow> bool"
    and chan :: "(stereo \<Rightarrow> u16) \<Rightarrow> 's \<Rightarrow> 'a" and m :: "'a \<Rightarrow> int \<Rightarrow> int \<times> 'a"
  assumes step: "ok s \<Longrightarrow> \<exists>s' y. fx s x = Some (s', y) \<and> ok s' \<and>
    (\<forall>ch \<in> {fst, snd}. m (chan ch s) (sint (ch x)) = (sint (ch y), chan ch s'))"
begin

lemma run:
  assumes "ok s"
  shows "\<exists>s' ys. run_fx fx s xs = Some (s', ys) \<and> ok s' \<and>
    (\<forall>ch \<in> {fst, snd}. map (sint \<circ> ch) ys = mealy m (chan ch s) (map (sint \<circ> ch) xs))"
  using assms
proof (induction xs arbitrary: s)
  case Nil
  then show ?case by simp
next
  case (Cons x xs)
  obtain s' y where y: "fx s x = Some (s', y)" "ok s'"
    and m: "\<forall>ch \<in> {fst, snd}. m (chan ch s) (sint (ch x)) = (sint (ch y), chan ch s')"
    using step [OF Cons.prems] by blast
  obtain s'' ys where ys: "run_fx fx s' xs = Some (s'', ys)" "ok s''"
    and ms: "\<forall>ch \<in> {fst, snd}. map (sint \<circ> ch) ys = mealy m (chan ch s') (map (sint \<circ> ch) xs)"
    using Cons.IH [OF y(2)] by blast
  have "run_fx fx s (x # xs) = Some (s'', y # ys)" using y(1) ys(1) by simp
  moreover have "map (sint \<circ> ch) (y # ys) = mealy m (chan ch s) (map (sint \<circ> ch) (x # xs))" if "ch \<in> {fst, snd}" for ch
    using bspec [OF m that] bspec [OF ms that] by simp
  ultimately show ?case using ys(2) by blast
qed

lemma run_length: "ok s \<Longrightarrow> run_fx fx s xs = Some (s', ys) \<Longrightarrow> length ys = length xs"
proof -
  assume "ok s" "run_fx fx s xs = Some (s', ys)"
  with run [of s xs] have "map (sint \<circ> fst) ys = mealy m (chan fst s) (map (sint \<circ> fst) xs)" by auto
  then have "length (map (sint \<circ> fst) ys) = length xs" by simp
  then show ?thesis by simp
qed

text \<open>What goes into one channel does not come out of the other.\<close>

lemma run_channel:
  assumes "ok s" "ok t" and ch: "ch \<in> {fst, snd}" and eq: "chan ch s = chan ch t" "map ch xs = map ch xs'"
    and r: "run_fx fx s xs = Some (s', ys)" "run_fx fx t xs' = Some (t', ys')"
  shows "map ch ys = map ch ys'"
proof -
  have "map sint (map ch xs) = map sint (map ch xs')" unfolding eq(2) ..
  then have "map (sint \<circ> ch) xs = map (sint \<circ> ch) xs'" by simp
  moreover have "map (sint \<circ> ch) ys = mealy m (chan ch s) (map (sint \<circ> ch) xs)"
    "map (sint \<circ> ch) ys' = mealy m (chan ch t) (map (sint \<circ> ch) xs')"
    using run [OF assms(1), of xs] run [OF assms(2), of xs'] r ch by auto
  ultimately have "map sint (map ch ys) = map sint (map ch ys')" using eq(1) by simp
  then show ?thesis by (rule map_injective) (simp add: inj_on_def signed_word_eqI)
qed

end

end
