(* ===== verification/Audio_Filter.thy ===== *)
theory Audio_Filter
  imports Audio_Effects
begin

text \<open>
  The second-order filters against the difference equation they stand for: the ring buffers of the last
  three samples, their rotating pointer and the fixed-point accumulator compute, sample by sample, the
  saturated weighted sum of the last three inputs and the last two outputs.
\<close>

section \<open>The difference equation\<close>

definition clip :: "int \<Rightarrow> int" where
  "clip z = max (- (2 ^ 27)) (min (2 ^ 27 - 1) z)"

text \<open>The coefficients are numerators over 2^15; the weights of a sample are \<open>b0, b1, b2, a1, a2\<close>.\<close>

type_synonym weights = "int \<times> int \<times> int \<times> int \<times> int"

fun biquad_sum :: "weights \<Rightarrow> int \<Rightarrow> int \<times> int \<times> int \<times> int \<Rightarrow> int" where
  "biquad_sum (b0, b1, b2, a1, a2) x (x1, x2, y1, y2) =
     b0 * x div 4 + b1 * x1 div 4 + b2 * x2 div 4 - a1 * y1 div 4 - a2 * y2 div 4"

definition biquad :: "weights \<Rightarrow> nat \<Rightarrow> int \<Rightarrow> int \<times> int \<times> int \<times> int \<Rightarrow> int" where
  "biquad w sh x h = clip (biquad_sum w x h) div 2 ^ (13 - sh)"

fun biquad_run :: "weights \<Rightarrow> nat \<Rightarrow> int \<times> int \<times> int \<times> int \<Rightarrow> int list \<Rightarrow> int list" where
  "biquad_run w sh h [] = []"
| "biquad_run w sh (x1, x2, y1, y2) (x # xs) =
     (let y = biquad w sh x (x1, x2, y1, y2) in y # biquad_run w sh (x, x1, y, y1) xs)"

text \<open>Band-pass and band-reject take the mean of the input and the negated or plain output.\<close>

definition filter_mix :: "u32 \<Rightarrow> int \<Rightarrow> int \<Rightarrow> int" where
  "filter_mix type x y = (if type = 2 then (x - y) div 2 else if type = 3 then (x + y) div 2 else y)"

section \<open>Abstraction of the state\<close>

definition filter_ok :: "Filter \<Rightarrow> bool" where
  "filter_ok f \<longleftrightarrow> length (filt_x_buf f) = 3 \<and> length (filt_y_buf f) = 3 \<and> length (filt_A f) = 3 \<and>
     length (filt_B f) = 3 \<and> filt_A f ! 2 = 0 \<and> filt_pnt f \<in> {0, 1, 2} \<and> filt_sftLft f \<in> {0, 1}"

text \<open>The weights of two coefficient arrays, and the history of a channel in the two ring buffers.\<close>

definition weights_of :: "u16 list \<Rightarrow> u16 list \<Rightarrow> weights" where
  "weights_of B A = (sint (B ! 2), sint (B ! 1), sint (B ! 0), sint (A ! 1), sint (A ! 0))"

definition ring_hist :: "(stereo \<Rightarrow> u16) \<Rightarrow> stereo list \<Rightarrow> stereo list \<Rightarrow> u32 \<Rightarrow> int \<times> int \<times> int \<times> int" where
  "ring_hist ch x y pnt =
     (let p = unat pnt; q = (p + 2) mod 3 in (sint (ch (x ! p)), sint (ch (x ! q)), sint (ch (y ! p)), sint (ch (y ! q))))"

definition filter_weights :: "Filter \<Rightarrow> weights" where
  "filter_weights f = weights_of (filt_B f) (filt_A f)"

definition filter_shift :: "Filter \<Rightarrow> nat" where
  "filter_shift f = unat (filt_sftLft f)"

definition filter_hist :: "(stereo \<Rightarrow> u16) \<Rightarrow> Filter \<Rightarrow> int \<times> int \<times> int \<times> int" where
  "filter_hist ch f = ring_hist ch (filt_x_buf f) (filt_y_buf f) (filt_pnt f)"

type_synonym biquad_state = "weights \<times> nat \<times> u32 \<times> int \<times> int \<times> int \<times> int"

definition filter_chan :: "(stereo \<Rightarrow> u16) \<Rightarrow> Filter \<Rightarrow> biquad_state" where
  "filter_chan ch f = (filter_weights f, filter_shift f, filt_type f, filter_hist ch f)"

fun filter_machine :: "biquad_state \<Rightarrow> int \<Rightarrow> int \<times> biquad_state" where
  "filter_machine (w, sh, type, x1, x2, y1, y2) x =
     (let y = biquad w sh x (x1, x2, y1, y2) in (filter_mix type x y, (w, sh, type, x, x1, y, y1)))"

lemma mealy_filter_machine:
  "mealy filter_machine (w, sh, type, h) xs = map2 (filter_mix type) xs (biquad_run w sh h xs)"
  by (induction xs arbitrary: h) (auto simp: Let_def)

section \<open>One sample\<close>

lemma clip_bounds: "- (2 ^ 27) \<le> clip z" "clip z \<le> 2 ^ 27 - 1"
  by (auto simp: clip_def)

lemma saturate_word_of_int:
  assumes "- (2 ^ 31) \<le> z" "z < 2 ^ 31"
  shows "saturate (word_of_int z) = word_of_int (clip z)"
  by (simp add: saturate_def in_i32 [OF assms] clip_def min_def max_def)

lemma iir_tap_word_of_int:
  "iir_tap b x a y (word_of_int z) = word_of_int (z + sint b * sint x div 4 - sint a * sint y div 4)"
  by (simp only: iir_tap_def shift_smul add_word_of_int diff_word_of_int)

lemma three_elems: "length xs = 3 \<Longrightarrow> xs = [xs ! 0, xs ! 1, xs ! 2]"
  by (auto simp: numeral_3_eq_3 numeral_2_eq_2 length_Suc_conv)

text \<open>The accumulator after the three taps, from the oldest sample to the newest.\<close>

definition taps :: "(stereo \<Rightarrow> u16) \<Rightarrow> stereo \<Rightarrow> stereo \<Rightarrow> stereo \<Rightarrow> stereo \<Rightarrow> stereo \<Rightarrow> u16 list \<Rightarrow> u16 list \<Rightarrow> int" where
  "taps ch x x1 x2 y1 y2 B A =
     biquad_sum (sint (B ! 2), sint (B ! 1), sint (B ! 0), sint (A ! 1), sint (A ! 0)) (sint (ch x))
       (sint (ch x1), sint (ch x2), sint (ch y1), sint (ch y2))"

lemma taps_bounds: "- (2 ^ 31) \<le> taps ch x x1 x2 y1 y2 B A" "taps ch x x1 x2 y1 y2 B A < 2 ^ 31"
  using tap_bounds [of "B ! 2" "ch x"] tap_bounds [of "B ! 1" "ch x1"] tap_bounds [of "B ! 0" "ch x2"]
    tap_bounds [of "A ! 1" "ch y1"] tap_bounds [of "A ! 0" "ch y2"]
  by (simp_all add: taps_def)

lemma iir_round_word_of_int:
  assumes "sint (c_rem (p + of_nat i + 1) 3) = int j" "j < 3" "i < 3"
    and "length x = 3" "length y = 3" "length B = 3" "length A = 3"
  shows "iir_round 3 p x y B A i (word_of_int u, word_of_int v) =
    Some (word_of_int (u + sint (B ! i) * sint (fst (x ! j)) div 4 - sint (A ! i) * sint (fst (y ! j)) div 4),
          word_of_int (v + sint (B ! i) * sint (snd (x ! j)) div 4 - sint (A ! i) * sint (snd (y ! j)) div 4))"
proof -
  have "sint (of_nat i :: u32) = int i" using assms(3) by (intro sint_of_nat_small) simp
  then show ?thesis
    using assms by (simp add: iir_round_def arr_rd_def iir_tap_word_of_int Let_def split: prod.split)
qed

lemma for_loop_three: "for_loop 0 3 body s = body 2 (body 1 (body 0 s))"
  by (simp add: for_loop_def upt_rec numeral_3_eq_3 numeral_2_eq_2)

lemma filterIIR_2nd_taps:
  assumes p: "p \<in> {0, 1, 2}" and len: "length x = 3" "length y = 3" "length B = 3" "length A = 3" and z: "A ! 2 = 0"
    and sh: "s \<in> {0, 1}"
    and q: "q = unat p" "q1 = (q + 2) mod 3" "q2 = (q + 1) mod 3"
    and t0: "t0 = clip (taps fst (x ! q) (x ! q1) (x ! q2) (y ! q1) (y ! q2) B A)"
    and t1: "t1 = clip (taps snd (x ! q) (x ! q1) (x ! q2) (y ! q1) (y ! q2) B A)"
  shows "filterIIR_2nd p x y B A s =
    Some (y[q := (word_of_int (t0 div 2 ^ (13 - unat s)), word_of_int (t1 div 2 ^ (13 - unat s)))],
          word_of_int t0, word_of_int t1)"
proof -
  have j: "sint (c_rem (p + of_nat 0 + 1) 3) = int q2" "sint (c_rem (p + of_nat 1 + 1) 3) = int q1"
    "sint (c_rem (p + of_nat 2 + 1) 3) = int q" and less: "q < 3" "q1 < 3" "q2 < 3"
    using p q by (auto simp: c_rem_nonneg)
  have k: "c_shr (word_of_int (clip t)) (13 - s) = Some (word_of_int (clip t div 2 ^ (13 - unat s)))" for t
    using sh clip_bounds [of t] by (auto simp: c_shr_def shift_word_of_int)
  have w: "arr_wr y p v = Some (y[q := v])" for v
    using p q len by (auto simp: arr_wr_def)
  note round = iir_round_word_of_int [OF _ _ _ len]
  let ?step = "\<lambda>ch u i j. u + sint (B ! i) * sint (ch (x ! j)) div 4 - sint (A ! i) * sint (ch (y ! j)) div 4"
  have r0: "iir_round 3 p x y B A 0 (0, 0) = Some (word_of_int (?step fst 0 0 q2), word_of_int (?step snd 0 0 q2))"
    using round [OF j(1) less(3), of 0 0] by simp
  have r1: "iir_round 3 p x y B A 1 (word_of_int u, word_of_int v) = Some (word_of_int (?step fst u 1 q1), word_of_int (?step snd v 1 q1))" for u v
    using round [OF j(2) less(2), of u v] by simp
  have r2: "iir_round 3 p x y B A 2 (word_of_int u, word_of_int v) = Some (word_of_int (?step fst u 2 q), word_of_int (?step snd v 2 q))" for u v
    using round [OF j(3) less(1), of u v] by simp
  have s: "?step ch (?step ch (?step ch 0 0 q2) 1 q1) 2 q = taps ch (x ! q) (x ! q1) (x ! q2) (y ! q1) (y ! q2) B A" for ch
    by (simp add: taps_def z)
  have loop: "for_loop 0 3 (\<lambda>i r. Option.bind r (iir_round 3 p x y B A i)) (Some (0, 0)) =
      Some (word_of_int (taps fst (x ! q) (x ! q1) (x ! q2) (y ! q1) (y ! q2) B A),
            word_of_int (taps snd (x ! q) (x ! q1) (x ! q2) (y ! q1) (y ! q2) B A))"
    unfolding for_loop_three by (simp only: bind.bind_lunit r0 r1 r2 s)
  show ?thesis
    unfolding filterIIR_2nd_def filterIIR_def loop
    by (simp add: Let_def saturate_word_of_int [OF taps_bounds] k w t0 t1 narrow_word_of_int)
qed

text \<open>The output of the filter fits a sample, so narrowing keeps its value.\<close>

lemma biquad_bounds: "sh \<le> 1 \<Longrightarrow> - 32768 \<le> biquad w sh x h" "sh \<le> 1 \<Longrightarrow> biquad w sh x h \<le> 32767"
proof -
  assume "sh \<le> 1"
  then consider "sh = 0" | "sh = 1" by linarith
  then show "- 32768 \<le> biquad w sh x h" "biquad w sh x h \<le> 32767"
    using clip_bounds [of "biquad_sum w x h"] by (cases; simp add: biquad_def)+
qed

lemma filter_mix_narrow:
  assumes "- 32768 \<le> b" "b \<le> 32767"
  shows "sint (narrow (if type = 2 then signed_drop_bit 1 (scast x - scast (word_of_int b :: u16))
                       else if type = 3 then signed_drop_bit 1 (scast x + scast (word_of_int b :: u16))
                       else scast (word_of_int b :: u16))) = filter_mix type (sint (x :: u16)) b"
proof -
  have b: "sint (word_of_int b :: u16) = b" using assms by (intro in_i16) simp_all
  note x = sint_u16_bounds [of x]
  have d: "signed_drop_bit 1 (scast x - scast (word_of_int b :: u16)) = (word_of_int ((sint x - b) div 2) :: u32)"
    using shift_word_of_int [of "sint x - b" 1] x assms
    by (simp only: scast_word_of_int b diff_word_of_int) simp
  have a: "signed_drop_bit 1 (scast x + scast (word_of_int b :: u16)) = (word_of_int ((sint x + b) div 2) :: u32)"
    using shift_word_of_int [of "sint x + b" 1] x assms
    by (simp only: scast_word_of_int b add_word_of_int) simp
  have p: "(scast (word_of_int b :: u16) :: u32) = word_of_int b" by (simp only: scast_word_of_int b)
  show ?thesis
    unfolding d a unfolding p using x assms by (auto simp: filter_mix_def narrow_word_of_int in_i16)
qed

text \<open>
  The filter on ring buffers: storing the sample, filtering and reading the result back is one step of
  the difference equation on the histories of the two channels.
\<close>

lemma biquad_buffers:
  assumes pnt: "pnt \<in> {0, 1, 2}" and len: "length x_buf = 3" "length y_buf = 3" "length A = 3" "length B = 3"
    and z: "A ! 2 = 0" and s: "sh \<in> {0, 1}"
  obtains p xb yb acc b where "p = c_rem (pnt + 1) 3" "p \<in> {0, 1, 2}" "arr_wr x_buf p x = Some xb" "length xb = 3" "length yb = 3"
    "filterIIR_2nd p xb y_buf B A sh = Some (yb, acc)" "arr_rd yb p = Some (word_of_int (b fst), word_of_int (b snd))"
    "\<And>ch. - 32768 \<le> b ch" "\<And>ch. b ch \<le> 32767"
    "\<And>ch. b ch = biquad (weights_of B A) (unat sh) (sint (ch x)) (ring_hist ch x_buf y_buf pnt)"
    "\<And>ch. ch \<in> {fst, snd} \<Longrightarrow> ring_hist ch xb yb p =
       (sint (ch x), fst (ring_hist ch x_buf y_buf pnt), b ch, fst (snd (snd (ring_hist ch x_buf y_buf pnt))))"
proof -
  define p where "p = c_rem (pnt + 1) 3"
  define xb where "xb = x_buf[unat p := x]"
  define q1 q2 where "q1 = (unat p + 2) mod 3" and "q2 = (unat p + 1) mod 3"
  have p: "p \<in> {0, 1, 2}" and q1: "q1 = unat pnt" and q2: "q2 = (unat pnt + 2) mod 3"
    using pnt by (auto simp: p_def q1_def q2_def c_rem_def signed_modulo_int_def)
  have less: "unat p < 3" and sp: "0 \<le> sint p" "sint p < 3" "nat (sint p) = unat p" using p by auto
  have ne: "q1 \<noteq> unat p" "q2 \<noteq> unat p" "q1 < 3" "q2 < 3" using p by (auto simp: q1_def q2_def)
  have xs: "xb ! unat p = x" "xb ! q1 = x_buf ! q1" "xb ! q2 = x_buf ! q2"
    using ne less len by (simp_all add: xb_def)
  have h: "ring_hist ch x_buf y_buf pnt = (sint (ch (x_buf ! q1)), sint (ch (x_buf ! q2)), sint (ch (y_buf ! q1)), sint (ch (y_buf ! q2)))" for ch
    by (simp add: ring_hist_def q1 q2 Let_def)
  define b where "b ch = biquad (weights_of B A) (unat sh) (sint (ch x)) (ring_hist ch x_buf y_buf pnt)" for ch :: "stereo \<Rightarrow> u16"
  have t: "clip (taps ch (xb ! unat p) (xb ! q1) (xb ! q2) (y_buf ! q1) (y_buf ! q2) B A) div 2 ^ (13 - unat sh) = b ch" for ch
    using xs by (simp add: b_def biquad_def taps_def weights_of_def h)
  define yb where "yb = y_buf[unat p := (word_of_int (b fst), word_of_int (b snd))]"
  obtain acc where iir: "filterIIR_2nd p xb y_buf B A sh = Some (yb, acc)"
    using filterIIR_2nd_taps [OF p _ len(2,4,3) z s refl q1_def q2_def refl refl, of xb] len
    by (simp add: t yb_def) (simp add: xb_def)
  have wr: "arr_wr x_buf p x = Some xb" and rd: "arr_rd yb p = Some (word_of_int (b fst), word_of_int (b snd))"
    using less sp len by (simp_all add: xb_def yb_def arr_wr_def arr_rd_def)
  have bb: "- 32768 \<le> b ch" "b ch \<le> 32767" for ch
  proof -
    have "unat sh \<le> 1" using s by auto
    then show "- 32768 \<le> b ch" "b ch \<le> 32767" unfolding b_def by (rule biquad_bounds)+
  qed
  have sb: "sint (word_of_int (b ch) :: u16) = b ch" for ch using bb [of ch] by (intro in_i16) simp_all
  have q1': "Suc (Suc (unat p)) mod 3 = q1" by (simp add: q1_def)
  have "ring_hist ch xb yb p = (sint (ch x), sint (ch (x_buf ! q1)), b ch, sint (ch (y_buf ! q1)))"
    if "ch \<in> {fst, snd}" for ch
    using that ne less len xs sb by (auto simp: ring_hist_def Let_def yb_def q1')
  then have hist: "ring_hist ch xb yb p = (sint (ch x), fst (ring_hist ch x_buf y_buf pnt), b ch, fst (snd (snd (ring_hist ch x_buf y_buf pnt))))"
    if "ch \<in> {fst, snd}" for ch
    using that by (simp add: h)
  have l: "length xb = 3" "length yb = 3" using len by (simp_all add: xb_def yb_def)
  show ?thesis by (rule that [OF p_def p wr l iir rd bb b_def hist])
qed

lemma audio_filter_step:
  assumes ok: "filter_ok f"
  shows "\<exists>f' y. audio_filter f x = Some (f', y) \<and> filter_ok f' \<and>
    (\<forall>ch \<in> {fst, snd}. filter_machine (filter_chan ch f) (sint (ch x)) = (sint (ch y), filter_chan ch f'))"
proof -
  from ok have pnt: "filt_pnt f \<in> {0, 1, 2}" and len: "length (filt_x_buf f) = 3" "length (filt_y_buf f) = 3" "length (filt_A f) = 3" "length (filt_B f) = 3"
    and z: "filt_A f ! 2 = 0" and s: "filt_sftLft f \<in> {0, 1}"
    by (auto simp: filter_ok_def)
  obtain p xb yb acc b where p: "p = c_rem (filt_pnt f + 1) 3" "p \<in> {0, 1, 2}" and st: "arr_wr (filt_x_buf f) p x = Some xb"
      "length xb = 3" "length yb = 3" "filterIIR_2nd p xb (filt_y_buf f) (filt_B f) (filt_A f) (filt_sftLft f) = Some (yb, acc)"
      "arr_rd yb p = Some (word_of_int (b fst), word_of_int (b snd))"
    and bb: "\<And>ch. - 32768 \<le> b ch" "\<And>ch. b ch \<le> 32767"
    and b: "\<And>ch. b ch = biquad (weights_of (filt_B f) (filt_A f)) (unat (filt_sftLft f)) (sint (ch x)) (ring_hist ch (filt_x_buf f) (filt_y_buf f) (filt_pnt f))"
    and hist: "\<And>ch. ch \<in> {fst, snd} \<Longrightarrow> ring_hist ch xb yb p = (sint (ch x), fst (ring_hist ch (filt_x_buf f) (filt_y_buf f) (filt_pnt f)),
      b ch, fst (snd (snd (ring_hist ch (filt_x_buf f) (filt_y_buf f) (filt_pnt f)))))"
    using biquad_buffers [OF pnt len z s] by blast
  define accum :: "u32 \<times> u32" where "accum =
    (if filt_type f = 2 then (signed_drop_bit 1 (scast (fst x) - scast (word_of_int (b fst) :: u16)), signed_drop_bit 1 (scast (snd x) - scast (word_of_int (b snd) :: u16)))
     else if filt_type f = 3 then (signed_drop_bit 1 (scast (fst x) + scast (word_of_int (b fst) :: u16)), signed_drop_bit 1 (scast (snd x) + scast (word_of_int (b snd) :: u16)))
     else (scast (word_of_int (b fst) :: u16), scast (word_of_int (b snd) :: u16) :: u32))"
  define f' where "f' = f\<lparr>filt_pnt := p, filt_x_buf := xb, filt_y_buf := yb, filt_accum := accum\<rparr>"
  have run: "audio_filter f x = Some (f', (narrow (fst accum), narrow (snd accum)))"
    by (simp only: audio_filter_def p(1) [symmetric] Let_def st bind.bind_lunit prod.case accum_def [symmetric] f'_def)
  have out: "sint (narrow (fst accum)) = filter_mix (filt_type f) (sint (fst x)) (b fst)"
    "sint (narrow (snd accum)) = filter_mix (filt_type f) (sint (snd x)) (b snd)"
    unfolding filter_mix_narrow [OF bb, symmetric] accum_def by simp_all
  have "filter_ok f'" using ok p st(2,3) by (simp add: filter_ok_def f'_def)
  moreover have "filter_machine (filter_chan ch f) (sint (ch x)) = (sint (ch (narrow (fst accum), narrow (snd accum))), filter_chan ch f')"
    if "ch \<in> {fst, snd}" for ch
  proof -
    have "filter_machine (filter_chan ch f) (sint (ch x)) = (filter_mix (filt_type f) (sint (ch x)) (b ch), filter_chan ch f')"
      using hist [OF that] b [of ch]
      by (cases "filter_hist ch f") (simp add: filter_chan_def Let_def f'_def filter_weights_def filter_shift_def filter_hist_def)
    then show ?thesis using out that by auto
  qed
  ultimately show ?thesis using run by blast
qed

interpretation filt: stereo_effect audio_filter filter_ok filter_chan filter_machine
  by unfold_locales (rule audio_filter_step)

section \<open>A run\<close>

text \<open>
  C30: the second-order filters compute their difference equation. For any coefficients, any contents of
  the buffers and any sequence of samples, the run of the filter never reads outside its buffers, and on
  each channel puts out the sequence of the equation
  y[n] = clip (b0 x[n] + b1 x[n-1] + b2 x[n-2] - a1 y[n-1] - a2 y[n-2]), each product cut to quarters
  and the sum to samples, or its mean with the input for band-pass and band-reject: no accumulator
  overflows and no narrowing changes a value.
\<close>

theorem audio_filter_difference_equation:
  assumes "filter_ok f"
  shows "\<exists>f' ys. run_fx audio_filter f xs = Some (f', ys) \<and> filter_ok f' \<and>
    (\<forall>ch \<in> {fst, snd}. map (sint \<circ> ch) ys =
       map2 (filter_mix (filt_type f)) (map (sint \<circ> ch) xs)
         (biquad_run (filter_weights f) (filter_shift f) (filter_hist ch f) (map (sint \<circ> ch) xs)))"
  using filt.run [OF assms, of xs] unfolding filter_chan_def mealy_filter_machine .

text \<open>
  The pass-through: with b0 next to one and the other weights zero, the sample 0x4000 comes out short of
  itself by one, the loudest sample comes out at half its value.
\<close>

definition pass_filter :: Filter where
  "pass_filter = \<lparr>filt_accum = (0, 0), filt_x_buf = [(0, 0), (0, 0), (0, 0)], filt_y_buf = [(0, 0), (0, 0), (0, 0)],
     filt_A = [0, 0, 0], filt_B = [0, 0, 0x7FFF], filt_pnt = 2, filt_sftLft = 0, filt_type = 0\<rparr>"

lemma audio_filter_difference_equation_witness:
  "\<exists>f' ys. run_fx audio_filter pass_filter [(0x4000, 100), (0x7FFF, 0)] = Some (f', ys) \<and>
     map (sint \<circ> fst) ys = [16383, 16383]"
proof -
  have "filter_ok pass_filter" by (simp add: filter_ok_def pass_filter_def)
  from audio_filter_difference_equation [OF this, of "[(0x4000, 100), (0x7FFF, 0)]"]
  show ?thesis
    by (auto simp: filter_weights_def weights_of_def filter_shift_def filter_hist_def ring_hist_def pass_filter_def filter_mix_def biquad_def clip_def Let_def)
qed

end
