(* ===== verification/Audio_Delay.thy ===== *)
theory Audio_Delay
  imports Audio_Filter
begin

text \<open>
  The effects with a delay line (chorus, delay, vibrato): a buffer whose pointer runs downwards holds
  the recent samples of a channel, the newest behind the pointer, so that an index modulo the length
  reads the sample of that many steps ago.
\<close>

section \<open>Delay lines\<close>

text \<open>The recent samples, the newest first, when \<open>p\<close> is the place of the next one.\<close>

definition recent :: "u16 list \<Rightarrow> nat \<Rightarrow> int list" where
  "recent buf p = map sint (rotate (Suc p) buf)"

lemma length_recent [simp]: "length (recent buf p) = length buf"
  by (simp add: recent_def)

text \<open>A place counted from the pointer is a sample of the past, or the one just stored.\<close>

lemma recent_tap:
  assumes "p < length buf" "d < length buf"
  shows "sint (buf[p := x] ! ((p + d) mod length buf)) = (sint x # recent buf p) ! d"
proof (cases d)
  case 0
  then show ?thesis using assms by simp
next
  case (Suc k)
  have "(p + d) mod length buf = (if p + d < length buf then p + d else p + d - length buf)"
    using assms by (simp add: le_mod_geq)
  then have "(p + d) mod length buf \<noteq> p" using assms Suc by (auto split: if_splits)
  then have "buf[p := x] ! ((p + d) mod length buf) = buf ! ((p + d) mod length buf)" by simp
  also have "\<dots> = rotate (Suc p) buf ! k"
    using assms Suc by (subst nth_rotate) (simp_all add: add.commute del: rotate_Suc)
  finally show ?thesis using assms Suc by (simp add: recent_def)
qed

lemma nth_butlast_Cons: "i < length h \<Longrightarrow> (x # butlast h) ! i = (x # h) ! i"
  by (cases i) (simp_all add: nth_butlast)

lemma recent_next:
  assumes "p < length buf" "Suc q mod length buf = p"
  shows "recent (buf[p := x]) q = sint x # butlast (recent buf p)"
proof (rule nth_equalityI)
  show "length (recent (buf[p := x]) q) = length (sint x # butlast (recent buf p))" using assms(1) by simp
  fix i assume "i < length (recent (buf[p := x]) q)"
  then have i: "i < length buf" by simp
  have "(i + Suc q) mod length buf = (p + i) mod length buf"
    unfolding assms(2) [symmetric] by (simp add: mod_simps add.commute)
  then have "recent (buf[p := x]) q ! i = sint (buf[p := x] ! ((p + i) mod length buf))"
    using i by (simp add: recent_def nth_rotate add.commute del: rotate_Suc)
  then show "recent (buf[p := x]) q ! i = (sint x # butlast (recent buf p)) ! i"
    using recent_tap [OF assms(1) i] i by (simp add: nth_butlast_Cons)
qed

text \<open>The pointer.\<close>

lemma step_down_pnt:
  assumes "sint p = int k" "k < len" "len < 2 ^ 31"
  obtains q where "sint (step_down (int len) p) = int q" "q < len" "Suc q mod len = k"
proof (cases "p = 0")
  case True
  then have k: "k = 0" using assms(1) by simp
  have "sint (step_down (int len) p) = int (len - 1)"
    using True assms(2,3) in_i32 [of "int len - 1"] by (simp add: step_down_def of_nat_diff)
  moreover have "Suc (len - 1) mod len = k" using assms(2) k by simp
  ultimately show ?thesis using that [of "len - 1"] assms(2) by simp
next
  case False
  have "k \<noteq> 0"
  proof
    assume "k = 0"
    then have "word_of_int (sint p) = (0 :: u32)" using assms(1) by simp
    with False show False by simp
  qed
  then have "sint (p - 1) = int (k - 1)"
  proof -
    assume "k \<noteq> 0"
    have "p = word_of_int (int k)" using assms(1) by (metis of_int_sint scast_id)
    then have "p - 1 = word_of_int (int k - 1)" by simp
    then show ?thesis using in_i32 [of "int k - 1"] assms \<open>k \<noteq> 0\<close> by (simp add: of_nat_diff)
  qed
  then show ?thesis using that [of "k - 1"] False \<open>k \<noteq> 0\<close> assms(2) by (simp add: step_down_def)
qed

text \<open>An index computed from the pointer and a delay.\<close>

lemma delay_index:
  assumes "sint p = int k" "k < len" "0 \<le> sint d" "sint d \<le> 2 ^ 30" "len \<le> 2 ^ 30"
  shows "sint (c_rem (p + d) (int len)) = int ((k + nat (sint d)) mod len)"
proof -
  have p: "p = word_of_int (int k)" and d: "d = word_of_int (sint d)"
    using assms(1) by (metis of_int_sint scast_id)+
  have "p + d = word_of_int (int k + sint d)" by (subst p, subst d) simp
  then have s: "sint (p + d) = int k + sint d" using assms in_i32 [of "int k + sint d"] by simp
  have "sint (c_rem (p + d) (int len)) = (int k + sint d) mod int len"
    unfolding s [symmetric] using assms s by (intro c_rem_nonneg) simp_all
  also have "\<dots> = int ((k + nat (sint d)) mod len)"
    using assms(3) by (simp add: zmod_int)
  finally show ?thesis .
qed

text \<open>One of the two buffers of an effect, by the projection of its channel.\<close>

definition lane :: "(stereo \<Rightarrow> u16) \<Rightarrow> u16 list \<times> u16 list \<Rightarrow> u16 list" where
  "lane ch bufs = map ch (zip (fst bufs) (snd bufs))"

lemma lane_fst [simp]: "length b0 = length b1 \<Longrightarrow> lane fst (b0, b1) = b0"
  by (simp add: lane_def)

lemma lane_snd [simp]: "length b0 = length b1 \<Longrightarrow> lane snd (b0, b1) = b1"
  by (simp add: lane_def)

section \<open>Comb filters\<close>

text \<open>The weighted sum of delayed samples of a history, the newest sample at distance 0.\<close>

definition comb_sum :: "int list \<Rightarrow> nat list \<Rightarrow> int list \<Rightarrow> int" where
  "comb_sum g ds h = sum_list (map2 (\<lambda>a d. a * h ! d div 4) g ds)"

definition comb_out :: "int list \<Rightarrow> nat list \<Rightarrow> int list \<Rightarrow> int" where
  "comb_out g ds h = clip (comb_sum g ds h) div 2 ^ 13"

lemma comb_out_bounds: "- 16384 \<le> comb_out g ds h" "comb_out g ds h \<le> 16383"
  using clip_bounds [of "comb_sum g ds h"] by (simp_all add: comb_out_def)

lemma comb_out_sample: "sint (word_of_int (comb_out g ds h) :: u16) = comb_out g ds h"
  using comb_out_bounds [of g ds h] by (intro in_i16) simp_all

lemma comb_round_history:
  assumes p: "sint p = int k" "k < len" "len \<le> 2 ^ 30" and b: "length b0 = len" "length b1 = len"
    and i: "i < length g" "i < length del" "i < 3" and d: "0 \<le> sint (del ! i)" "sint (del ! i) < int len"
  shows "comb_round (int len) p (b0[k := x0], b1[k := x1]) g del i (word_of_int u, word_of_int v) =
    Some (word_of_int (u + sint (g ! i) * (sint x0 # recent b0 k) ! nat (sint (del ! i)) div 4),
          word_of_int (v + sint (g ! i) * (sint x1 # recent b1 k) ! nat (sint (del ! i)) div 4))"
proof -
  let ?d = "nat (sint (del ! i))" and ?j = "(k + nat (sint (del ! i))) mod len"
  have less: "?d < len" "?j < len" using d p by auto
  have j: "sint (c_rem (p + del ! i) (int len)) = int ?j" using p d by (intro delay_index) simp_all
  have si: "sint (of_nat i :: u32) = int i" using i by (intro sint_of_nat_small) simp
  have r: "arr_rd del (of_nat i) = Some (del ! i)" "arr_rd g (of_nat i) = Some (g ! i)"
    using i si by (simp_all add: arr_rd_nat)
  have x: "arr_rd (b0[k := x0]) (c_rem (p + del ! i) (int len)) = Some (b0[k := x0] ! ?j)"
    "arr_rd (b1[k := x1]) (c_rem (p + del ! i) (int len)) = Some (b1[k := x1] ! ?j)"
    using b less j by (simp_all add: arr_rd_nat)
  have s: "sint (b0[k := x0] ! ?j) = (sint x0 # recent b0 k) ! ?d" "sint (b1[k := x1] ! ?j) = (sint x1 # recent b1 k) ! ?d"
    using recent_tap [of k b0 ?d x0] recent_tap [of k b1 ?d x1] b p less by simp_all
  show ?thesis
    by (simp only: comb_round_def r x bind.bind_lunit Let_def fst_conv snd_conv shift_smul add_word_of_int s)
qed

text \<open>The two filters on the buffers into which the newest sample was stored.\<close>

lemma comb_result:
  assumes "- (2 ^ 31) \<le> u" "u < 2 ^ 31"
  shows "saturate (word_of_int u) = word_of_int (clip u)"
    and "narrow (signed_drop_bit 13 (word_of_int (clip u))) = word_of_int (clip u div 2 ^ 13)"
  using assms clip_bounds [of u] by (simp_all add: saturate_word_of_int shift_word_of_int narrow_word_of_int)

lemma history_tap_bounds:
  assumes "d < Suc (length buf)"
  shows "- (2 ^ 28) \<le> sint (g :: u16) * (sint x # recent buf k) ! d div 4"
    and "sint g * (sint (x :: u16) # recent buf k) ! d div 4 \<le> 2 ^ 28"
proof -
  have "(sint x # recent buf k) ! d = sint ((x # rotate (Suc k) buf) ! d)"
    using assms by (cases d) (simp_all add: recent_def del: rotate_Suc)
  then show "- (2 ^ 28) \<le> sint g * (sint x # recent buf k) ! d div 4"
    "sint g * (sint x # recent buf k) ! d div 4 \<le> 2 ^ 28"
    using tap_bounds [of g "(x # rotate (Suc k) buf) ! d"] by simp_all
qed

lemma comb_sum_Suc:
  assumes "i < length g" "length ds = length g"
  shows "comb_sum (take (Suc i) g) (take (Suc i) ds) h = comb_sum (take i g) (take i ds) h + g ! i * h ! (ds ! i) div 4"
  using assms by (simp add: comb_sum_def take_Suc_conv_app_nth)

lemma comb_sum_bounds:
  assumes "length ds = length g" "\<forall>d \<in> set ds. d < Suc (length buf)" "i \<le> length g"
  shows "\<bar>comb_sum (take i (map sint (g :: u16 list))) (take i ds) (sint (x :: u16) # recent buf k)\<bar> \<le> int i * 2 ^ 28"
  using assms(3)
proof (induction i)
  case 0
  then show ?case by (simp add: comb_sum_def)
next
  case (Suc i)
  have "ds ! i < Suc (length buf)" using Suc.prems assms(1,2) by simp
  from history_tap_bounds [OF this, of "g ! i" x k]
  have "\<bar>sint (g ! i) * (sint x # recent buf k) ! (ds ! i) div 4\<bar> \<le> 2 ^ 28" by (simp add: abs_le_iff)
  moreover have "\<bar>comb_sum (take i (map sint g)) (take i ds) (sint x # recent buf k)\<bar> \<le> int i * 2 ^ 28"
    using Suc by simp
  ultimately show ?case
    using Suc.prems assms(1) by (simp add: comb_sum_Suc)
qed

lemma combFilter_history:
  assumes p: "sint p = int k" "k < len" "len \<le> 2 ^ 30" and b: "length b0 = len" "length b1 = len"
    and g: "length g = n" "length del = n" "n \<le> 3" and d: "\<forall>d \<in> set del. 0 \<le> sint d \<and> sint d < int len"
  shows "\<exists>acc. combFilter n (int len) p (b0[k := x0], b1[k := x1]) g del =
    Some ((word_of_int (comb_out (map sint g) (map (\<lambda>d. nat (sint d)) del) (sint x0 # recent b0 k)),
           word_of_int (comb_out (map sint g) (map (\<lambda>d. nat (sint d)) del) (sint x1 # recent b1 k))), acc)"
proof -
  let ?G = "map sint g" and ?D = "map (\<lambda>d. nat (sint d)) del"
  let ?s = "\<lambda>i x b. comb_sum (take i ?G) (take i ?D) (sint x # recent b k)"
  have loop: "for_loop 0 i (\<lambda>i r. Option.bind r (comb_round (int len) p (b0[k := x0], b1[k := x1]) g del i)) (Some (0, 0)) =
      Some (word_of_int (?s i x0 b0), word_of_int (?s i x1 b1))" if "i \<le> n" for i
    using that
  proof (induction i)
    case 0
    then show ?case by (simp add: for_loop_zero comb_sum_def)
  next
    case (Suc i)
    have i: "i < length g" "i < length del" "i < 3" using Suc.prems g by simp_all
    have di: "0 \<le> sint (del ! i)" "sint (del ! i) < int len" using d i by simp_all
    have "for_loop 0 i (\<lambda>i r. Option.bind r (comb_round (int len) p (b0[k := x0], b1[k := x1]) g del i)) (Some (0, 0)) =
      Some (word_of_int (?s i x0 b0), word_of_int (?s i x1 b1))" using Suc by simp
    then show ?case
      using i g by (simp only: for_loop_Suc bind.bind_lunit comb_round_history [OF p b i di])
        (simp add: comb_sum_Suc)
  qed
  have s: "- (2 ^ 31) \<le> ?s n x b" "?s n x b < 2 ^ 31" if "length b = len" for x :: u16 and b
  proof -
    have "\<forall>e \<in> set ?D. e < Suc (length b)" using d that by auto
    from comb_sum_bounds [OF _ this, of g n x k] g
    have "\<bar>?s n x b\<bar> \<le> int n * 2 ^ 28" by simp
    also have "\<dots> \<le> 3 * 2 ^ 28" using g(3) by simp
    finally show "- (2 ^ 31) \<le> ?s n x b" "?s n x b < 2 ^ 31" by (simp_all add: abs_le_iff)
  qed
  have n: "take n ?G = ?G" "take n ?D = ?D" using g by simp_all
  note r0 = comb_result [OF s [OF b(1), of x0], unfolded n] and r1 = comb_result [OF s [OF b(2), of x1], unfolded n]
  show ?thesis
    unfolding combFilter_def loop [OF order.refl]
    by (simp only: bind.bind_lunit prod.case Let_def r0 r1 n comb_out_def) simp
qed

section \<open>The chorus\<close>

definition line_ok :: "nat \<Rightarrow> u16 list \<times> u16 list \<Rightarrow> u32 \<Rightarrow> bool" where
  "line_ok len bufs pnt \<longleftrightarrow> length (fst bufs) = len \<and> length (snd bufs) = len \<and> 0 \<le> sint pnt \<and> sint pnt < int len"

definition table_ok :: "nat \<Rightarrow> 'a list \<Rightarrow> u32 \<Rightarrow> bool" where
  "table_ok n xs pnt \<longleftrightarrow> length xs = n \<and> 0 \<le> sint pnt \<and> sint pnt < int n"

definition chorus_ok :: "Chorus \<Rightarrow> bool" where
  "chorus_ok c \<longleftrightarrow> line_ok 2083 (chor_audio_buf c) (chor_pnt c) \<and>
     length (chor_g c) = 3 \<and> length (chor_del c) = 3 \<and> chor_del c ! 2 = 0 \<and>
     table_ok 52083 (chor_mod_array1 c) (chor_c1_pnt c) \<and> table_ok 41666 (chor_mod_array2 c) (chor_c2_pnt c) \<and>
     (\<forall>d \<in> set (chor_mod_array1 c) \<union> set (chor_mod_array2 c). 0 \<le> sint d \<and> sint d < 2083)"

text \<open>The gains, the two tables of delays with their places, and the recent samples.\<close>

type_synonym chorus_state = "int list \<times> nat list \<times> nat \<times> nat list \<times> nat \<times> int list"

definition chorus_chan :: "(stereo \<Rightarrow> u16) \<Rightarrow> Chorus \<Rightarrow> chorus_state" where
  "chorus_chan ch c =
     (map sint (chor_g c), map (\<lambda>d. nat (sint d)) (chor_mod_array1 c), nat (sint (chor_c1_pnt c)),
      map (\<lambda>d. nat (sint d)) (chor_mod_array2 c), nat (sint (chor_c2_pnt c)),
      recent (lane ch (chor_audio_buf c)) (nat (sint (chor_pnt c))))"

fun chorus_machine :: "chorus_state \<Rightarrow> int \<Rightarrow> int \<times> chorus_state" where
  "chorus_machine (g, m1, c1, m2, c2, h) x =
     (comb_out g [m1 ! c1, m2 ! c2, 0] (x # h),
      (g, m1, (c1 + 1) mod length m1, m2, (c2 + 1) mod length m2, x # butlast h))"

text \<open>A pointer that goes round a table.\<close>

lemma table_next:
  assumes "table_ok n xs pnt" "0 < n" "n < 2 ^ 30"
  shows "arr_rd xs pnt = Some (xs ! nat (sint pnt))" and "nat (sint pnt) < length xs"
    and "table_ok n xs (c_rem (pnt + 1) (int n))"
    and "nat (sint (c_rem (pnt + 1) (int n))) = (nat (sint pnt) + 1) mod n"
proof -
  from assms(1) have p: "0 \<le> sint pnt" "sint pnt < int n" and l: "length xs = n" by (simp_all add: table_ok_def)
  show "arr_rd xs pnt = Some (xs ! nat (sint pnt))" "nat (sint pnt) < length xs"
    using p l by (simp_all add: arr_rd_def)
  have "sint (c_rem (pnt + 1) (int n)) = int ((nat (sint pnt) + nat (sint (1 :: u32))) mod n)"
    using p assms(2,3) by (intro delay_index) simp_all
  then have s: "sint (c_rem (pnt + 1) (int n)) = int ((nat (sint pnt) + 1) mod n)" by simp
  have "int ((nat (sint pnt) + 1) mod n) < int n" using assms(2) by simp
  then show "table_ok n xs (c_rem (pnt + 1) (int n))" using l s by (simp only: table_ok_def) simp
  show "nat (sint (c_rem (pnt + 1) (int n))) = (nat (sint pnt) + 1) mod n" unfolding s by simp
qed

text \<open>Storing a sample and stepping down keeps the line and shifts its history.\<close>

lemma line_store:
  assumes "line_ok len bufs pnt" "len < 2 ^ 30"
  defines "k \<equiv> nat (sint pnt)"
  shows "arr_wr (fst bufs) pnt x0 = Some ((fst bufs)[k := x0])" "arr_wr (snd bufs) pnt x1 = Some ((snd bufs)[k := x1])"
    and "sint pnt = int k" "k < len"
    and "line_ok len ((fst bufs)[k := x0], (snd bufs)[k := x1]) (step_down (int len) pnt)"
    and "ch \<in> {fst, snd} \<Longrightarrow> recent (lane ch ((fst bufs)[k := x0], (snd bufs)[k := x1])) (nat (sint (step_down (int len) pnt))) =
      sint (ch (x0, x1)) # butlast (recent (lane ch bufs) k)"
proof -
  from assms(1) have p: "0 \<le> sint pnt" "sint pnt < int len" and l: "length (fst bufs) = len" "length (snd bufs) = len"
    by (simp_all add: line_ok_def)
  show k: "sint pnt = int k" "k < len" using p by (simp_all add: k_def nat_less_iff)
  show "arr_wr (fst bufs) pnt x0 = Some ((fst bufs)[k := x0])" "arr_wr (snd bufs) pnt x1 = Some ((snd bufs)[k := x1])"
    using l k by (simp_all add: arr_wr_nat)
  obtain q where q: "sint (step_down (int len) pnt) = int q" "q < len" "Suc q mod len = k"
    using step_down_pnt [OF k] assms(2) by auto
  show "line_ok len ((fst bufs)[k := x0], (snd bufs)[k := x1]) (step_down (int len) pnt)"
    using l q by (simp add: line_ok_def)
  assume "ch \<in> {fst, snd}"
  then show "recent (lane ch ((fst bufs)[k := x0], (snd bufs)[k := x1])) (nat (sint (step_down (int len) pnt))) =
      sint (ch (x0, x1)) # butlast (recent (lane ch bufs) k)"
    using recent_next [of k "fst bufs" q x0] recent_next [of k "snd bufs" q x1] l k q
    by (cases bufs) auto
qed

lemma list_three: "length xs = 3 \<Longrightarrow> xs[0 := a, 1 := b] = [a, b, xs ! 2]"
  by (auto simp: numeral_3_eq_3 numeral_2_eq_2 length_Suc_conv)

lemma audio_chorus_step:
  assumes ok: "chorus_ok c"
  shows "\<exists>c' y. audio_chorus c x = Some (c', y) \<and> chorus_ok c' \<and>
    (\<forall>ch \<in> {fst, snd}. chorus_machine (chorus_chan ch c) (sint (ch x)) = (sint (ch y), chorus_chan ch c'))"
proof -
  from ok have line: "line_ok 2083 (chor_audio_buf c) (chor_pnt c)" and g: "length (chor_g c) = 3" "length (chor_del c) = 3" "chor_del c ! 2 = 0"
    and t: "table_ok 52083 (chor_mod_array1 c) (chor_c1_pnt c)" "table_ok 41666 (chor_mod_array2 c) (chor_c2_pnt c)"
    and d: "\<forall>d \<in> set (chor_mod_array1 c) \<union> set (chor_mod_array2 c). 0 \<le> sint d \<and> sint d < 2083"
    by (simp_all add: chorus_ok_def)
  define k where "k = nat (sint (chor_pnt c))"
  have small: "(2083 :: nat) < 2 ^ 30" "(0 :: nat) < 52083" "(52083 :: nat) < 2 ^ 30" "(0 :: nat) < 41666" "(41666 :: nat) < 2 ^ 30"
    by simp_all
  note n1 = table_next [OF t(1) small(2,3), unfolded of_nat_numeral] and n2 = table_next [OF t(2) small(4,5), unfolded of_nat_numeral]
  note st = line_store [OF line small(1), folded k_def, unfolded of_nat_numeral]
  define d0 d1 where "d0 = chor_mod_array1 c ! nat (sint (chor_c1_pnt c))" and "d1 = chor_mod_array2 c ! nat (sint (chor_c2_pnt c))"
  have dr: "\<forall>e \<in> set [d0, d1, 0]. 0 \<le> sint e \<and> sint e < int 2083"
    using d n1(2) n2(2) by (auto simp: d0_def d1_def)
  let ?h = "\<lambda>ch. sint (ch x) # recent (lane ch (chor_audio_buf c)) k"
  let ?y = "\<lambda>ch. comb_out (map sint (chor_g c)) [nat (sint d0), nat (sint d1), 0] (?h ch)"
  have del: "(chor_del c)[0 := d0, 1 := d1] = [d0, d1, 0]" using list_three [OF g(2)] g(3) by simp
  obtain acc where comb: "combFilter_2nd CHORUS_L (chor_pnt c) ((fst (chor_audio_buf c))[k := fst x], (snd (chor_audio_buf c))[k := snd x])
      (chor_g c) [d0, d1, 0] = Some ((word_of_int (?y fst), word_of_int (?y snd)), acc)"
    using combFilter_history [OF st(3,4) _ _ _ g(1) _ _ dr, of "fst (chor_audio_buf c)" "snd (chor_audio_buf c)" "fst x" "snd x"] line
    by (cases "chor_audio_buf c") (auto simp: combFilter_2nd_def CHORUS_L_def line_ok_def)
  define c' where "c' = c\<lparr>chor_del := [d0, d1, 0], chor_c1_pnt := c_rem (chor_c1_pnt c + 1) CHORUS_P1,
      chor_c2_pnt := c_rem (chor_c2_pnt c + 1) CHORUS_P2,
      chor_audio_buf := ((fst (chor_audio_buf c))[k := fst x], (snd (chor_audio_buf c))[k := snd x]), chor_accum := acc,
      chor_pnt := step_down CHORUS_L (chor_pnt c)\<rparr>"
  have run: "audio_chorus c x = Some (c', (word_of_int (?y fst), word_of_int (?y snd)))"
    unfolding audio_chorus_def n1(1) n2(1) d0_def [symmetric] d1_def [symmetric] bind.bind_lunit Let_def st(1,2) del comb
    by (simp add: c'_def)
  have lens: "CHORUS_P1 = 52083" "CHORUS_P2 = 41666" "CHORUS_L = 2083"
    by (simp_all add: CHORUS_P1_def CHORUS_P2_def CHORUS_L_def Fs_def)
  have "chorus_ok c'"
    using st(5) [of "fst x" "snd x"] n1(3) n2(3) g d by (simp add: chorus_ok_def c'_def lens)
  moreover have "chorus_machine (chorus_chan ch c) (sint (ch x)) = (sint (ch (word_of_int (?y fst) :: u16, word_of_int (?y snd) :: u16)), chorus_chan ch c')"
    if "ch \<in> {fst, snd}" for ch
    using st(6) [OF that, of "fst x" "snd x"] n1(2,4) n2(2,4) that comb_out_sample t
    by (auto simp: chorus_chan_def c'_def lens k_def [symmetric] d0_def d1_def table_ok_def)
  ultimately show ?thesis using run by blast
qed

interpretation chor: stereo_effect audio_chorus chorus_ok chorus_chan chorus_machine
  by unfold_locales (rule audio_chorus_step)

section \<open>The delay\<close>

text \<open>
  The feedback delay stores what it puts out. Its first distance reaches to the oldest sample of the
  line, its second is 0.
\<close>

definition delay_ok :: "IIRdelay \<Rightarrow> bool" where
  "delay_ok d \<longleftrightarrow> line_ok 13020 (del_audio_buf d) (del_pnt d) \<and> length (del_g d) = 2 \<and>
     del_del d = [word_of_int (DELAY_L - 1), 0]"

type_synonym delay_state = "int list \<times> int list"

definition delay_chan :: "(stereo \<Rightarrow> u16) \<Rightarrow> IIRdelay \<Rightarrow> delay_state" where
  "delay_chan ch d = (map sint (del_g d), recent (lane ch (del_audio_buf d)) (nat (sint (del_pnt d))))"

fun delay_machine :: "delay_state \<Rightarrow> int \<Rightarrow> int \<times> delay_state" where
  "delay_machine (g, h) x = (let y = comb_out g [13019, 0] (x # h) in (y, (g, y # butlast h)))"

lemma audio_delay_step:
  assumes ok: "delay_ok d"
  shows "\<exists>d' y. audio_delay d x = Some (d', y) \<and> delay_ok d' \<and>
    (\<forall>ch \<in> {fst, snd}. delay_machine (delay_chan ch d) (sint (ch x)) = (sint (ch y), delay_chan ch d'))"
proof -
  from ok have line: "line_ok 13020 (del_audio_buf d) (del_pnt d)" and g: "length (del_g d) = 2"
    and del: "del_del d = [13019, 0]"
    by (simp_all add: delay_ok_def DELAY_L_def Fs_def)
  define k where "k = nat (sint (del_pnt d))"
  have small: "(13020 :: nat) < 2 ^ 30" by simp
  note st = line_store [OF line small, folded k_def, unfolded of_nat_numeral]
  have dr: "\<forall>e \<in> set [13019, 0 :: u32]. 0 \<le> sint e \<and> sint e < int 13020" by simp
  let ?b0 = "fst (del_audio_buf d)" and ?b1 = "snd (del_audio_buf d)"
  let ?y = "\<lambda>ch. comb_out (map sint (del_g d)) [13019, 0] (sint (ch x) # recent (lane ch (del_audio_buf d)) k)"
  have len: "DELAY_L = 13020" by (simp add: DELAY_L_def Fs_def)
  obtain acc where comb: "combFilter_1st DELAY_L (del_pnt d) (?b0[k := fst x], ?b1[k := snd x]) (del_g d) [13019, 0] =
      Some ((word_of_int (?y fst), word_of_int (?y snd)), acc)"
    using combFilter_history [OF st(3,4) _ _ _ g _ _ dr, of ?b0 ?b1 "fst x" "snd x"] line
    by (cases "del_audio_buf d") (auto simp: combFilter_1st_def len line_ok_def)
  let ?w = "\<lambda>ch. word_of_int (?y ch) :: u16"
  define d' where "d' = d\<lparr>del_audio_buf := (?b0[k := ?w fst], ?b1[k := ?w snd]), del_accum := acc,
      del_pnt := step_down 13020 (del_pnt d)\<rparr>"
  have wr: "arr_wr (?b0[k := fst x]) (del_pnt d) v = Some (?b0[k := v])" "arr_wr (?b1[k := snd x]) (del_pnt d) v = Some (?b1[k := v])" for v
    using line st(3,4) by (simp_all add: line_ok_def arr_wr_nat)
  have run: "audio_delay d x = Some (d', (?w fst, ?w snd))"
    unfolding audio_delay_def Let_def st(1,2) bind.bind_lunit del comb
    by (simp add: wr d'_def len)
  have "delay_ok d'"
    using st(5) [of "?w fst" "?w snd"] g del by (simp add: delay_ok_def d'_def len)
  moreover have "delay_machine (delay_chan ch d) (sint (ch x)) = (sint (ch (?w fst, ?w snd)), delay_chan ch d')"
    if "ch \<in> {fst, snd}" for ch
  proof -
    have "sint (ch (?w fst, ?w snd)) = ?y ch" using that comb_out_sample by auto
    then show ?thesis
      using st(6) [OF that, of "?w fst" "?w snd"]
      by (simp add: delay_chan_def d'_def k_def [symmetric] Let_def)
  qed
  ultimately show ?thesis using run by blast
qed

interpretation dly: stereo_effect audio_delay delay_ok delay_chan delay_machine
  by unfold_locales (rule audio_delay_step)

section \<open>The vibrato\<close>

definition vibrato_ok :: "Vibrato \<Rightarrow> bool" where
  "vibrato_ok v \<longleftrightarrow> line_ok 200 (vibr_audio_buf v) (vibr_pnt v) \<and>
     table_ok 13020 (vibr_sin_array v) (vibr_v_pnt v) \<and> length (vibr_frac_array v) = 13020 \<and>
     (\<forall>d \<in> set (vibr_sin_array v). 0 \<le> sint d \<and> sint d < 200) \<and> (\<forall>f \<in> set (vibr_frac_array v). 0 \<le> sint f)"

type_synonym vibrato_state = "nat list \<times> int list \<times> nat \<times> int list"

definition vibrato_chan :: "(stereo \<Rightarrow> u16) \<Rightarrow> Vibrato \<Rightarrow> vibrato_state" where
  "vibrato_chan ch v =
     (map (\<lambda>d. nat (sint d)) (vibr_sin_array v), map sint (vibr_frac_array v), nat (sint (vibr_v_pnt v)),
      recent (lane ch (vibr_audio_buf v)) (nat (sint (vibr_pnt v))))"

text \<open>
  The value between the samples of \<open>d\<close> and \<open>d + 1\<close> steps ago, where a full turn of the buffer is the
  newest sample again.
\<close>

definition between :: "nat \<Rightarrow> nat \<Rightarrow> int \<Rightarrow> int list \<Rightarrow> int" where
  "between len d f h = (h ! ((d + 1) mod len) * f + h ! d * (0x7FFF - f)) div 2 ^ 15"

fun vibrato_machine :: "vibrato_state \<Rightarrow> int \<Rightarrow> int \<times> vibrato_state" where
  "vibrato_machine (s, fr, i, h) x =
     (between 200 (s ! i) (fr ! i) (x # h), (s, fr, (i + 1) mod length s, x # butlast h))"

lemma mix_bounds:
  assumes "- 32768 \<le> a" "a \<le> 32767" "- 32768 \<le> b" "b \<le> 32767" "0 \<le> f" "f \<le> 32767"
  shows "- 1073709056 \<le> (a :: int) * f + b * (32767 - f)" "a * f + b * (32767 - f) \<le> 1073676289"
proof -
  have "- 32768 * f \<le> a * f" "- 32768 * (32767 - f) \<le> b * (32767 - f)"
    using assms by (intro mult_right_mono; simp)+
  then show "- 1073709056 \<le> a * f + b * (32767 - f)" by simp
  have "a * f \<le> 32767 * f" "b * (32767 - f) \<le> 32767 * (32767 - f)"
    using assms by (intro mult_right_mono; simp)+
  then show "a * f + b * (32767 - f) \<le> 1073676289" by simp
qed

lemma history_sample: "d < Suc (length buf) \<Longrightarrow> \<exists>s :: u16. (sint (x :: u16) # recent buf k) ! d = sint s"
  by (cases d) (auto simp: recent_def simp del: rotate_Suc)

lemma between_bounds:
  fixes x :: u16 and k :: nat
  assumes d: "d < len" "length buf = len" and f: "0 \<le> f" "f \<le> 32767"
  defines "h \<equiv> sint x # recent buf k"
  shows "- (2 ^ 31) \<le> h ! ((d + 1) mod len) * f + h ! d * (0x7FFF - f)" "h ! ((d + 1) mod len) * f + h ! d * (0x7FFF - f) < 2 ^ 31"
    and "- 32768 \<le> between len d f h" "between len d f h \<le> 32767"
proof -
  obtain s t :: u16 where st: "h ! ((d + 1) mod len) = sint s" "h ! d = sint t"
    using history_sample [of "(d + 1) mod len" buf x k] history_sample [of d buf x k] d
    unfolding h_def by (metis less_Suc_eq mod_less_divisor not_less_zero neq0_conv)
  note m = mix_bounds [OF sint_u16_bounds [of s] sint_u16_bounds [of t] f]
  show "- (2 ^ 31) \<le> h ! ((d + 1) mod len) * f + h ! d * (0x7FFF - f)" "h ! ((d + 1) mod len) * f + h ! d * (0x7FFF - f) < 2 ^ 31"
    "- 32768 \<le> between len d f h" "between len d f h \<le> 32767"
    unfolding between_def st using m by simp_all
qed

lemma rest_of_one:
  assumes "0 \<le> sint (f :: u16)"
  shows "sint (narrow (ONE_16b - scast f)) = 0x7FFF - sint f"
proof -
  have "ONE_16b = word_of_int 0x7FFF" by (simp add: ONE_16b_def)
  then have "ONE_16b - scast f = word_of_int (0x7FFF - sint f)" unfolding scast_word_of_int by (metis diff_word_of_int)
  then have "narrow (ONE_16b - scast f) = word_of_int (0x7FFF - sint f)" by (simp only: narrow_word_of_int)
  moreover have "sint (word_of_int (0x7FFF - sint f) :: u16) = 0x7FFF - sint f"
    using assms sint_u16_bounds [of f] by (intro in_i16) simp_all
  ultimately show ?thesis by (simp only:)
qed

lemma delay_index_next:
  assumes "sint p = int k" "k < len" "0 \<le> sint d" "sint d < 2 ^ 30" "len \<le> 2 ^ 30"
  shows "sint (c_rem (p + d + 1) (int len)) = int ((k + (nat (sint d) + 1) mod len) mod len)"
proof -
  have "d + 1 = word_of_int (sint d + 1)" by simp
  then have d1: "sint (d + 1) = sint d + 1" using assms in_i32 [of "sint d + 1"] by simp
  have "sint (c_rem (p + (d + 1)) (int len)) = int ((k + nat (sint (d + 1))) mod len)"
    using assms d1 by (intro delay_index) simp_all
  moreover have "nat (sint (d + 1)) = nat (sint d) + 1" unfolding d1 using assms by simp
  ultimately show ?thesis by (simp add: mod_add_right_eq add.assoc)
qed

lemma vibrato_channel_history:
  fixes x f :: u16
  assumes p: "sint p = int k" "k < 200" and l: "length buf = 200" and d: "0 \<le> sint d" "sint d < 200" and f: "0 \<le> sint f"
  defines "h \<equiv> sint x # recent buf k" and "j \<equiv> nat (sint d)"
  shows "\<exists>acc. vibrato_channel p (c_rem (p + d) 200) (c_rem (p + d + 1) 200) f (narrow (ONE_16b - scast f)) x buf = Some (buf[k := x], acc) \<and>
    narrow (signed_drop_bit 15 acc) = word_of_int (between 200 j (sint f) h)"
proof -
  let ?j = "(j + 1) mod 200"
  have j: "j < 200" "?j < 200" using d by (auto simp: j_def)
  have i0: "sint (c_rem (p + d) 200) = int ((k + j) mod 200)" and i1: "sint (c_rem (p + d + 1) 200) = int ((k + ?j) mod 200)"
    using delay_index [OF p d(1)] delay_index_next [OF p d(1)] d by (simp_all add: j_def)
  have v0: "sint (buf[k := x] ! ((k + j) mod 200)) = h ! j" and v1: "sint (buf[k := x] ! ((k + ?j) mod 200)) = h ! ?j"
    using recent_tap [of k buf j x] recent_tap [of k buf ?j x] p j l by (simp_all add: h_def)
  have fb: "sint f \<le> 32767" using sint_u16_bounds [of f] by simp
  note b = between_bounds [OF j(1) l f fb, of x k, folded h_def]
  let ?acc = "word_of_int (h ! ?j * sint f + h ! j * (0x7FFF - sint f)) :: u32"
  have wr: "arr_wr buf p x = Some (buf[k := x])" using p l by (simp add: arr_wr_nat)
  have rd: "arr_rd (buf[k := x]) (c_rem (p + d + 1) 200) = Some (buf[k := x] ! ((k + ?j) mod 200))"
    "arr_rd (buf[k := x]) (c_rem (p + d) 200) = Some (buf[k := x] ! ((k + j) mod 200))"
    by (rule arr_rd_nat [OF _ i1], simp add: l) (rule arr_rd_nat [OF _ i0], simp add: l)
  have "vibrato_channel p (c_rem (p + d) 200) (c_rem (p + d + 1) 200) f (narrow (ONE_16b - scast f)) x buf = Some (buf[k := x], ?acc)"
    unfolding vibrato_channel_def wr rd bind.bind_lunit smul_word_of_int v0 v1 rest_of_one [OF f] by (simp only: add_word_of_int)
  moreover have "signed_drop_bit 15 ?acc = word_of_int (between 200 j (sint f) h)"
    unfolding between_def by (rule shift_word_of_int [OF b(1,2)])
  then have "narrow (signed_drop_bit 15 ?acc) = word_of_int (between 200 j (sint f) h)" by (simp only: narrow_word_of_int)
  ultimately show ?thesis by blast
qed

lemma audio_vibrato_step:
  assumes ok: "vibrato_ok v"
  shows "\<exists>v' y. audio_vibrato v x = Some (v', y) \<and> vibrato_ok v' \<and>
    (\<forall>ch \<in> {fst, snd}. vibrato_machine (vibrato_chan ch v) (sint (ch x)) = (sint (ch y), vibrato_chan ch v'))"
proof -
  from ok have line: "line_ok 200 (vibr_audio_buf v) (vibr_pnt v)" and t: "table_ok 13020 (vibr_sin_array v) (vibr_v_pnt v)"
    and fl: "length (vibr_frac_array v) = 13020"
    and ds: "\<forall>d \<in> set (vibr_sin_array v). 0 \<le> sint d \<and> sint d < 200" and fs: "\<forall>f \<in> set (vibr_frac_array v). 0 \<le> sint f"
    by (simp_all add: vibrato_ok_def)
  define k where "k = nat (sint (vibr_pnt v))"
  have small: "(200 :: nat) < 2 ^ 30" "(0 :: nat) < 13020" "(13020 :: nat) < 2 ^ 30" by simp_all
  note st = line_store [OF line small(1), folded k_def, unfolded of_nat_numeral]
  note n = table_next [OF t small(2,3), unfolded of_nat_numeral]
  define i where "i = nat (sint (vibr_v_pnt v))"
  define d f where "d = vibr_sin_array v ! i" and "f = vibr_frac_array v ! i"
  have tl: "length (vibr_sin_array v) = 13020" and il: "i < 13020" using t n(2) by (simp_all add: table_ok_def i_def)
  have d: "0 \<le> sint d" "sint d < 200" and f: "0 \<le> sint f" using ds fs il tl fl by (auto simp: d_def f_def)
  have rf: "arr_rd (vibr_frac_array v) (vibr_v_pnt v) = Some f"
    using t fl by (simp add: arr_rd_def table_ok_def f_def i_def)
  let ?h = "\<lambda>ch. sint (ch x) # recent (lane ch (vibr_audio_buf v)) k"
  let ?y = "\<lambda>ch. between 200 (nat (sint d)) (sint f) (?h ch)"
  have ll: "length (fst (vibr_audio_buf v)) = 200" "length (snd (vibr_audio_buf v)) = 200" using line by (simp_all add: line_ok_def)
  obtain a0 a1 where c: "vibrato_channel (vibr_pnt v) (c_rem (vibr_pnt v + d) 200) (c_rem (vibr_pnt v + d + 1) 200) f
        (narrow (ONE_16b - scast f)) (fst x) (fst (vibr_audio_buf v)) = Some ((fst (vibr_audio_buf v))[k := fst x], a0)"
      "vibrato_channel (vibr_pnt v) (c_rem (vibr_pnt v + d) 200) (c_rem (vibr_pnt v + d + 1) 200) f
        (narrow (ONE_16b - scast f)) (snd x) (snd (vibr_audio_buf v)) = Some ((snd (vibr_audio_buf v))[k := snd x], a1)"
    and a: "narrow (signed_drop_bit 15 a0) = word_of_int (?y fst)" "narrow (signed_drop_bit 15 a1) = word_of_int (?y snd)"
    using vibrato_channel_history [OF st(3,4) ll(1) d f, of "fst x"] vibrato_channel_history [OF st(3,4) ll(2) d f, of "snd x"] ll
    by (cases "vibr_audio_buf v") auto
  have lens: "VIBRATO_L = 200" "VIBRATO_P = 13020" by (simp_all add: VIBRATO_L_def VIBRATO_P_def Fs_def)
  define v' where "v' = v\<lparr>vibr_del := d, vibr_frac := f, vibr_v_pnt := c_rem (vibr_v_pnt v + 1) 13020,
      vibr_audio_pnt := c_rem (vibr_pnt v + d) 200, vibr_n_audio_pnt := c_rem (vibr_pnt v + d + 1) 200,
      vibr_audio_buf := ((fst (vibr_audio_buf v))[k := fst x], (snd (vibr_audio_buf v))[k := snd x]),
      vibr_accum := (a0, a1), vibr_pnt := step_down 200 (vibr_pnt v)\<rparr>"
  have run: "audio_vibrato v x = Some (v', (word_of_int (?y fst), word_of_int (?y snd)))"
    unfolding audio_vibrato_def Let_def lens n(1) rf i_def [symmetric] d_def [symmetric] bind.bind_lunit c prod.case a
    by (simp only: v'_def)
  have "vibrato_ok v'"
    using st(5) [of "fst x" "snd x"] n(3) fl ds fs by (simp add: vibrato_ok_def v'_def)
  moreover have "vibrato_machine (vibrato_chan ch v) (sint (ch x)) = (sint (ch (word_of_int (?y fst) :: u16, word_of_int (?y snd) :: u16)), vibrato_chan ch v')"
    if ch: "ch \<in> {fst, snd}" for ch
  proof -
    have fb: "sint f \<le> 32767" and jd: "nat (sint d) < 200" using sint_u16_bounds [of f] d by auto
    have "length (lane ch (vibr_audio_buf v)) = 200" using ll by (simp add: lane_def)
    from between_bounds(3,4) [OF jd this f fb, of "ch x" k]
    have "sint (word_of_int (?y ch) :: u16) = ?y ch" by (intro in_i16) simp_all
    then have "sint (ch (word_of_int (?y fst) :: u16, word_of_int (?y snd) :: u16)) = ?y ch" using ch by auto
    then show ?thesis
      using st(6) [OF ch, of "fst x" "snd x"] n(4) ch il tl fl
      by (auto simp: vibrato_chan_def v'_def k_def [symmetric] i_def [symmetric] d_def f_def)
  qed
  ultimately show ?thesis using run by blast
qed

interpretation vibr: stereo_effect audio_vibrato vibrato_ok vibrato_chan vibrato_machine
  by unfold_locales (rule audio_vibrato_step)

section \<open>Closed forms\<close>

text \<open>
  A line that drops its oldest sample still has all samples that a distance within its length reaches:
  the history of a run is the reversed signal in front of the initial line.
\<close>

lemma history_shift:
  assumes "d < length h"
  shows "(us @ x # butlast h) ! d = (us @ x # h) ! d"
  using assms by (auto simp: nth_append nth_butlast nth_Cons split: nat.split)

lemma comb_out_cong:
  assumes "\<And>d. d \<in> set ds \<Longrightarrow> h ! d = h' ! d"
  shows "comb_out g ds h = comb_out g ds h'"
proof -
  have "map2 (\<lambda>a d. a * h ! d div 4) g ds = map2 (\<lambda>a d. a * h' ! d div 4) g ds"
    using assms by (auto dest: set_zip_rightD)
  then show ?thesis by (simp only: comb_out_def comb_sum_def)
qed

lemma nth_table: "\<forall>d \<in> set m. d < k \<Longrightarrow> m \<noteq> [] \<Longrightarrow> m ! (i mod length m) < k"
  by simp

lemma chorus_closed:
  assumes "n < length xs" "\<forall>d \<in> set m1 \<union> set m2. d < length h" "c1 < length m1" "c2 < length m2" "h \<noteq> []"
  shows "mealy chorus_machine (g, m1, c1, m2, c2, h) xs ! n =
    comb_out g [m1 ! ((c1 + n) mod length m1), m2 ! ((c2 + n) mod length m2), 0] (rev (take (Suc n) xs) @ h)"
  using assms
proof (induction xs arbitrary: n c1 c2 h)
  case Nil
  then show ?case by simp
next
  case (Cons x xs)
  show ?case
  proof (cases n)
    case 0
    then show ?thesis using Cons.prems by simp
  next
    case (Suc k)
    let ?c1 = "(c1 + 1) mod length m1" and ?c2 = "(c2 + 1) mod length m2" and ?h = "x # butlast h"
    have h: "length ?h = length h" using Cons.prems(5) by simp
    have m: "m1 \<noteq> []" "m2 \<noteq> []" using Cons.prems(3,4) by auto
    then have c: "?c1 < length m1" "?c2 < length m2" by simp_all
    have "mealy chorus_machine (g, m1, c1, m2, c2, h) (x # xs) ! n = mealy chorus_machine (g, m1, ?c1, m2, ?c2, ?h) xs ! k"
      using Suc by simp
    also have "\<dots> = comb_out g [m1 ! ((?c1 + k) mod length m1), m2 ! ((?c2 + k) mod length m2), 0] (rev (take (Suc k) xs) @ ?h)"
      using Cons.prems(1,2) Suc by (intro Cons.IH) (simp_all only: h c list.distinct(2) not_False_eq_True, simp_all)
    also have "\<dots> = comb_out g [m1 ! ((?c1 + k) mod length m1), m2 ! ((?c2 + k) mod length m2), 0] (rev (take (Suc k) xs) @ x # h)"
      using Cons.prems(2,5) m by (intro comb_out_cong history_shift) auto
    finally show ?thesis by (simp add: Suc mod_add_left_eq)
  qed
qed

lemma delay_closed:
  assumes "n < length xs" "13019 < length h"
  shows "mealy delay_machine (g, h) xs ! n =
    comb_out g [13019, 0] (xs ! n # rev (take n (mealy delay_machine (g, h) xs)) @ h)"
  using assms
proof (induction xs arbitrary: n h)
  case Nil
  then show ?case by simp
next
  case (Cons x xs)
  define y where "y = comb_out g [13019, 0] (x # h)"
  have m: "mealy delay_machine (g, h) (x # xs) = y # mealy delay_machine (g, y # butlast h) xs"
    by (simp add: y_def Let_def)
  show ?case
  proof (cases n)
    case 0
    then show ?thesis unfolding m by (simp add: y_def)
  next
    case (Suc k)
    have "mealy delay_machine (g, y # butlast h) xs ! k =
        comb_out g [13019, 0] (xs ! k # rev (take k (mealy delay_machine (g, y # butlast h) xs)) @ y # butlast h)"
      using Cons.prems Suc by (intro Cons.IH) simp_all
    also have "\<dots> = comb_out g [13019, 0] ((xs ! k # rev (take k (mealy delay_machine (g, y # butlast h) xs))) @ y # h)"
      unfolding append_Cons [symmetric] using Cons.prems(2) by (intro comb_out_cong history_shift) auto
    finally show ?thesis unfolding m Suc by simp
  qed
qed

text \<open>
  The chorus. For any gains and any tables of delays shorter than the line, the run of the chorus
  never reads outside its buffers and tables; the n-th sample it puts out on a channel is the saturated
  sum of the weighted n-th input and the inputs of so many samples earlier as the two tables say at
  their n-th places, round and round. Before the first input stands what the line held at the start.
\<close>

theorem audio_chorus_mixes:
  assumes "chorus_ok c"
  shows "\<exists>c' ys. run_fx audio_chorus c xs = Some (c', ys) \<and> chorus_ok c' \<and> length ys = length xs \<and>
    (\<forall>ch \<in> {fst, snd}. \<forall>n < length xs. sint (ch (ys ! n)) =
       comb_out (map sint (chor_g c))
         [nat (sint (chor_mod_array1 c ! ((nat (sint (chor_c1_pnt c)) + n) mod 52083))),
          nat (sint (chor_mod_array2 c ! ((nat (sint (chor_c2_pnt c)) + n) mod 41666))), 0]
         (rev (take (Suc n) (map (sint \<circ> ch) xs)) @ recent (lane ch (chor_audio_buf c)) (nat (sint (chor_pnt c)))))"
proof -
  obtain c' ys where r: "run_fx audio_chorus c xs = Some (c', ys)" "chorus_ok c'"
    and m: "\<forall>ch \<in> {fst, snd}. map (sint \<circ> ch) ys = mealy chorus_machine (chorus_chan ch c) (map (sint \<circ> ch) xs)"
    using chor.run [OF assms] by blast
  have l: "length ys = length xs" by (rule chor.run_length [OF assms r(1)])
  let ?m1 = "map (\<lambda>d. nat (sint d)) (chor_mod_array1 c)" and ?m2 = "map (\<lambda>d. nat (sint d)) (chor_mod_array2 c)"
  have t: "length ?m1 = 52083" "length ?m2 = 41666" "nat (sint (chor_c1_pnt c)) < 52083" "nat (sint (chor_c2_pnt c)) < 41666"
    using assms by (auto simp: chorus_ok_def table_ok_def)
  have "sint (ch (ys ! n)) =
       comb_out (map sint (chor_g c))
         [nat (sint (chor_mod_array1 c ! ((nat (sint (chor_c1_pnt c)) + n) mod 52083))),
          nat (sint (chor_mod_array2 c ! ((nat (sint (chor_c2_pnt c)) + n) mod 41666))), 0]
         (rev (take (Suc n) (map (sint \<circ> ch) xs)) @ recent (lane ch (chor_audio_buf c)) (nat (sint (chor_pnt c))))"
    if ch: "ch \<in> {fst, snd}" and n: "n < length xs" for ch n
  proof -
    let ?h = "recent (lane ch (chor_audio_buf c)) (nat (sint (chor_pnt c)))"
    have h: "length ?h = 2083" using assms by (simp add: chorus_ok_def line_ok_def lane_def)
    have d: "\<forall>d \<in> set ?m1 \<union> set ?m2. d < length ?h" unfolding h using assms by (auto simp: chorus_ok_def nat_less_iff ball_Un)
    have ne: "?h \<noteq> []" using h by (metis list.size(3) zero_neq_numeral)
    have "sint (ch (ys ! n)) = map (sint \<circ> ch) ys ! n" using n l by simp
    also have "\<dots> = mealy chorus_machine (chorus_chan ch c) (map (sint \<circ> ch) xs) ! n" using bspec [OF m ch] by simp
    also have "\<dots> = comb_out (map sint (chor_g c)) [?m1 ! ((nat (sint (chor_c1_pnt c)) + n) mod length ?m1),
        ?m2 ! ((nat (sint (chor_c2_pnt c)) + n) mod length ?m2), 0] (rev (take (Suc n) (map (sint \<circ> ch) xs)) @ ?h)"
      unfolding chorus_chan_def using n t h d ne by (intro chorus_closed) (auto simp del: set_map)
    finally show ?thesis using t by simp
  qed
  with r l show ?thesis by blast
qed

text \<open>A chorus with constant tables, on which a pulse comes out three times.\<close>

definition uniform :: "nat \<Rightarrow> 'a \<Rightarrow> 'a list" where
  "uniform n v = replicate n v"

lemma uniform_simps [simp]: "length (uniform n v) = n" "i < n \<Longrightarrow> uniform n v ! i = v" "d \<in> set (uniform n v) \<Longrightarrow> d = v"
  by (simp_all add: uniform_def)

definition pulse_chorus :: Chorus where
  "pulse_chorus = \<lparr>chor_accum = (0, 0), chor_g = [0x2000, 0x2000, 0x4000], chor_del = [0, 0, 0], chor_pnt = 2082,
     chor_c1_pnt = 0, chor_c2_pnt = 0, chor_audio_buf = (uniform 2083 0, uniform 2083 0),
     chor_mod_array1 = uniform 52083 1, chor_mod_array2 = uniform 41666 2\<rparr>"

lemma pulse_chorus_ok: "chorus_ok pulse_chorus"
  by (auto simp: chorus_ok_def pulse_chorus_def line_ok_def table_ok_def dest!: uniform_simps(3))

lemma audio_chorus_mixes_witness:
  "\<exists>c' ys. run_fx audio_chorus pulse_chorus [(0x1000, 0), (0, 0), (0, 0), (0, 0)] = Some (c', ys) \<and>
     map (sint \<circ> fst) ys = [0x800, 0x400, 0x400, 0]"
proof -
  let ?xs = "[(0x1000, 0), (0, 0), (0, 0), (0, 0)] :: stereo list"
  let ?h = "recent (uniform 2083 0) 2082"
  obtain c' ys where r: "run_fx audio_chorus pulse_chorus ?xs = Some (c', ys)" "length ys = 4"
    and y: "\<forall>n < 4. sint (fst (ys ! n)) =
       comb_out (map sint (chor_g pulse_chorus))
         [nat (sint (chor_mod_array1 pulse_chorus ! ((nat (sint (chor_c1_pnt pulse_chorus)) + n) mod 52083))),
          nat (sint (chor_mod_array2 pulse_chorus ! ((nat (sint (chor_c2_pnt pulse_chorus)) + n) mod 41666))), 0]
         (rev (take (Suc n) (map (sint \<circ> fst) ?xs)) @ recent (lane fst (chor_audio_buf pulse_chorus)) (nat (sint (chor_pnt pulse_chorus))))"
    using audio_chorus_mixes [OF pulse_chorus_ok, of ?xs] by auto
  have z: "?h ! i = 0" if "i < 2083" for i
    using that by (simp add: recent_def nth_rotate del: rotate_Suc)
  have p: "map sint (chor_g pulse_chorus) = [0x2000, 0x2000, 0x4000]"
    "sint (chor_mod_array1 pulse_chorus ! ((nat (sint (chor_c1_pnt pulse_chorus)) + n) mod 52083)) = 1"
    "sint (chor_mod_array2 pulse_chorus ! ((nat (sint (chor_c2_pnt pulse_chorus)) + n) mod 41666)) = 2"
    "recent (lane fst (chor_audio_buf pulse_chorus)) (nat (sint (chor_pnt pulse_chorus))) = ?h" for n
    by (simp_all add: pulse_chorus_def)
  have "sint (fst (ys ! n)) = [0x800, 0x400, 0x400, 0] ! n" if "n < 4" for n
  proof -
    from that consider "n = 0" | "n = 1" | "n = 2" | "n = 3" by linarith
    then show ?thesis
      using y [rule_format, OF that, unfolded p]
      by cases (simp_all add: comb_out_def comb_sum_def clip_def z nth_append numeral_2_eq_2 numeral_3_eq_3)
  qed
  then have "map (sint \<circ> fst) ys = [0x800, 0x400, 0x400, 0]" using r(2) by (intro nth_equalityI) simp_all
  then show ?thesis by (intro exI conjI) (rule r(1))
qed

text \<open>
  C31: the echo. The n-th sample the delay puts out on a channel is the saturated sum of the weighted n-th
  input and the sample it put out 13019 steps earlier (what the line held at the start, before the first).
  No accumulator overflows, and no sample leaves the lower half of the 16-bit range: an input above half
  scale is cut off there, although the weights are at most one.
\<close>

theorem audio_delay_echoes:
  assumes "delay_ok d"
  shows "\<exists>d' ys. run_fx audio_delay d xs = Some (d', ys) \<and> delay_ok d' \<and> length ys = length xs \<and>
    (\<forall>ch \<in> {fst, snd}. \<forall>n < length xs.
       sint (ch (ys ! n)) =
         comb_out (map sint (del_g d)) [13019, 0]
           (sint (ch (xs ! n)) # rev (map (sint \<circ> ch) (take n ys)) @ recent (lane ch (del_audio_buf d)) (nat (sint (del_pnt d)))) \<and>
       - 16384 \<le> sint (ch (ys ! n)) \<and> sint (ch (ys ! n)) \<le> 16383)"
proof -
  obtain d' ys where r: "run_fx audio_delay d xs = Some (d', ys)" "delay_ok d'"
    and m: "\<forall>ch \<in> {fst, snd}. map (sint \<circ> ch) ys = mealy delay_machine (delay_chan ch d) (map (sint \<circ> ch) xs)"
    using dly.run [OF assms] by blast
  have l: "length ys = length xs" by (rule dly.run_length [OF assms r(1)])
  have "sint (ch (ys ! n)) =
         comb_out (map sint (del_g d)) [13019, 0]
           (sint (ch (xs ! n)) # rev (map (sint \<circ> ch) (take n ys)) @ recent (lane ch (del_audio_buf d)) (nat (sint (del_pnt d))))"
    if ch: "ch \<in> {fst, snd}" and n: "n < length xs" for ch n
  proof -
    let ?h = "recent (lane ch (del_audio_buf d)) (nat (sint (del_pnt d)))"
    have h: "13019 < length ?h" using assms by (simp add: delay_ok_def line_ok_def lane_def)
    have "sint (ch (ys ! n)) = map (sint \<circ> ch) ys ! n" using n l by simp
    also have "\<dots> = mealy delay_machine (delay_chan ch d) (map (sint \<circ> ch) xs) ! n" using bspec [OF m ch] by simp
    also have "\<dots> = comb_out (map sint (del_g d)) [13019, 0]
        (map (sint \<circ> ch) xs ! n # rev (take n (mealy delay_machine (delay_chan ch d) (map (sint \<circ> ch) xs))) @ ?h)"
      unfolding delay_chan_def using n h by (intro delay_closed) simp_all
    also have "mealy delay_machine (delay_chan ch d) (map (sint \<circ> ch) xs) = map (sint \<circ> ch) ys" using bspec [OF m ch] by simp
    finally show ?thesis using n by (simp add: take_map)
  qed
  with r l show ?thesis by (fastforce intro: comb_out_bounds)
qed

text \<open>The delay as it is set up: the loudest sample comes out at half its value.\<close>

definition silent_delay :: IIRdelay where
  "silent_delay = \<lparr>del_accum = (0, 0), del_g = [0x3FFF, 0x7FFF], del_del = [word_of_int (DELAY_L - 1), 0],
     del_pnt = word_of_int (DELAY_L - 1), del_audio_buf = (uniform 13020 0, uniform 13020 0)\<rparr>"

lemma silent_delay_ok: "delay_ok silent_delay"
  by (simp add: delay_ok_def silent_delay_def line_ok_def DELAY_L_def Fs_def)

lemma audio_delay_echoes_witness:
  "\<exists>d' y. run_fx audio_delay silent_delay [(0x7FFF, 0x8000)] = Some (d', [y]) \<and> sint (fst y) = 16383"
proof -
  let ?xs = "[(0x7FFF, 0x8000)] :: stereo list"
  let ?h = "recent (uniform 13020 0) 13019"
  have z: "?h ! 13018 = 0" by (simp add: recent_def nth_rotate del: rotate_Suc)
  have p: "map sint (del_g silent_delay) = [0x3FFF, 0x7FFF]"
    "recent (lane fst (del_audio_buf silent_delay)) (nat (sint (del_pnt silent_delay))) = ?h"
    by (simp_all add: silent_delay_def DELAY_L_def Fs_def)
  obtain d' ys where r: "run_fx audio_delay silent_delay ?xs = Some (d', ys)" "length ys = 1"
    and y: "sint (fst (ys ! 0)) = comb_out (map sint (del_g silent_delay)) [13019, 0]
      (sint (fst (?xs ! 0)) # rev (map (sint \<circ> fst) (take 0 ys)) @ recent (lane fst (del_audio_buf silent_delay)) (nat (sint (del_pnt silent_delay))))"
    using audio_delay_echoes [OF silent_delay_ok, of ?xs] by auto
  from y have "sint (fst (ys ! 0)) = 16383"
    unfolding p by (simp add: comb_out_def comb_sum_def z clip_def)
  moreover have "ys = [ys ! 0]" using r(2) by (cases ys) simp_all
  ultimately show ?thesis using r(1) by (intro exI [of _ d'] exI [of _ "ys ! 0"]) simp
qed

end
