(* ===== verification/Audio_Gain.thy ===== *)
theory Audio_Gain
  imports Audio_Delay
begin

text \<open>
  The effects that shape a sample: overdrive and distortion, the tremolo, and the wah-wah. For the
  overdrive and the tremolo no input wraps around; the distortion and the wah-wah do for loud samples.
\<close>

section \<open>Overdrive\<close>

text \<open>The smooth zone: 3 minus the square of 2 minus three times the magnitude, over 3.\<close>

definition slope :: "int \<Rightarrow> int" where
  "slope m = 65535 - 98303 * m div 2 ^ 15"

definition smooth :: "int \<Rightarrow> int" where
  "smooth m = (98303 - slope m * slope m div 2 ^ 15) * 10923 div 2 ^ 15"

definition overdrive_int :: "int \<Rightarrow> int" where
  "overdrive_int x =
     (let m = \<bar>x\<bar> in
      if m > 21846 then (if x > 0 then 32767 else -32768)
      else if m > 10923 then (if x > 0 then min 32767 (smooth m) else - smooth m)
      else 2 * x)"

lemma slope_bounds:
  assumes "10923 < m" "m \<le> 21846"
  shows "- 2 \<le> slope m" "slope m \<le> 32764"
  using assms by (simp_all add: slope_def)

lemma slope_square:
  assumes "10923 < m" "m \<le> 21846"
  shows "0 \<le> slope m * slope m" "slope m * slope m \<le> 32764 * 32764"
proof -
  note b = slope_bounds [OF assms]
  show "0 \<le> slope m * slope m" by simp
  show "slope m * slope m \<le> 32764 * 32764"
  proof (cases "0 \<le> slope m")
    case True
    then show ?thesis using b by (intro mult_mono) simp_all
  next
    case False
    then have "slope m = -1 \<or> slope m = -2" using b by auto
    then show ?thesis by auto
  qed
qed

lemma square_div:
  assumes "0 \<le> q" "q \<le> 32764 * 32764"
  shows "0 \<le> q div 2 ^ 15" "q div 2 ^ 15 \<le> (32760 :: int)"
  using assms by simp_all

lemma smooth_bounds:
  assumes "10923 < m" "m \<le> 21846"
  shows "21846 \<le> smooth m" "smooth m \<le> 32768"
  using square_div [OF slope_square [OF assms]] by (simp_all add: smooth_def)

lemma smooth_mono:
  assumes "10923 < x" "x \<le> y" "y \<le> 21846"
  shows "smooth x \<le> smooth y"
proof -
  have zx: "10923 < x" "x \<le> 21846" and zy: "10923 < y" "y \<le> 21846" using assms by simp_all
  have "98303 * x div 2 ^ 15 \<le> 98303 * y div 2 ^ 15" using assms(2) by (intro zdiv_mono1) simp_all
  then have le: "slope y \<le> slope x" by (simp add: slope_def)
  have "slope y * slope y div 2 ^ 15 \<le> slope x * slope x div 2 ^ 15"
  proof (cases "0 \<le> slope y")
    case True
    then have "slope y * slope y \<le> slope x * slope x" using le by (intro mult_mono) simp_all
    then show ?thesis by (rule zdiv_mono1) simp
  next
    case False
    then have "slope y = -1 \<or> slope y = -2" using slope_bounds [OF zy] by auto
    then have "slope y * slope y div 2 ^ 15 = 0" by auto
    then show ?thesis using square_div [OF slope_square [OF zx]] by simp
  qed
  then have "(98303 - slope x * slope x div 2 ^ 15) * 10923 \<le> (98303 - slope y * slope y div 2 ^ 15) * 10923"
    by (intro mult_right_mono) simp_all
  then show ?thesis unfolding smooth_def by (rule zdiv_mono1) simp
qed

lemma abs_word_less:
  assumes "0 \<le> m" "m < 2 ^ 31" "0 \<le> k" "k < 2 ^ 31"
  shows "(word_of_int m :: u32) > word_of_int k \<longleftrightarrow> m > k"
  using assms by (simp add: word_less_def uint_word_of_int_eq take_bit_int_eq_self)

lemma drop_bit_word_of_int:
  assumes "0 \<le> z" "z < 2 ^ 32"
  shows "drop_bit k (word_of_int z :: u32) = word_of_int (z div 2 ^ k)"
proof -
  have "uint (word_of_int z :: u32) = z" using assms by (simp add: uint_word_of_int_eq take_bit_int_eq_self)
  then have "uint (drop_bit k (word_of_int z :: u32)) = z div 2 ^ k"
    by (simp only: unsigned_drop_bit_eq) (use assms in \<open>simp add: drop_bit_eq_div [of k "z :: int" for z] take_bit_int_eq_self\<close>)
  then have "word_of_int (uint (drop_bit k (word_of_int z :: u32))) = (word_of_int (z div 2 ^ k) :: u32)" by (simp only:)
  then show ?thesis by simp
qed

text \<open>The chain of operations in the smooth zone, on words and on integers.\<close>

lemma smooth_words:
  assumes m: "10923 < m" "m \<le> 21846"
  shows "signed_drop_bit 15 ((0x17FFF - signed_drop_bit 15 ((0xFFFF - drop_bit 15 (0x17FFF * word_of_int m)) * (0xFFFF - drop_bit 15 (0x17FFF * word_of_int m)))) * 0x2AAB) =
    (word_of_int (smooth m) :: u32)"
proof -
  note q = slope_square [OF m] and c = square_div [OF slope_square [OF m]]
  have "0x17FFF * word_of_int m = (word_of_int (98303 * m) :: u32)" by simp
  moreover have "drop_bit 15 (word_of_int (98303 * m) :: u32) = word_of_int (98303 * m div 2 ^ 15)"
    using m by (intro drop_bit_word_of_int) simp_all
  ultimately have d: "drop_bit 15 (0x17FFF * word_of_int m :: u32) = word_of_int (98303 * m div 2 ^ 15)" by (simp only:)
  have n: "(0xFFFF :: u32) = word_of_int 65535" "(0x17FFF :: u32) = word_of_int 98303" "(0x2AAB :: u32) = word_of_int 10923" by simp_all
  have "- (2 ^ 31) \<le> slope m * slope m" by (rule order.trans [OF _ q(1)]) simp
  moreover have "slope m * slope m < 2 ^ 31" by (rule order.strict_trans1 [OF q(2)]) simp
  ultimately have s: "signed_drop_bit 15 (word_of_int (slope m * slope m) :: u32) = word_of_int (slope m * slope m div 2 ^ 15)"
    by (rule shift_word_of_int)
  have e: "signed_drop_bit 15 (word_of_int ((98303 - slope m * slope m div 2 ^ 15) * 10923) :: u32) = word_of_int (smooth m)"
    unfolding smooth_def by (rule shift_word_of_int) (use c in simp_all)
  show ?thesis
    unfolding d unfolding n diff_word_of_int slope_def [symmetric] mul_word_of_int s e ..
qed

lemma overdrive_channel_int: "sint (snd (overdrive_channel acc x)) = overdrive_int (sint x)"
proof -
  define m where "m = \<bar>sint x\<bar>"
  have m: "0 \<le> m" "m \<le> 32768" using sint_u16_bounds [of x] by (auto simp: m_def)
  have c: "((word_of_int m :: u32) > 2 * 0x2AAB) = (m > 21846)" "((word_of_int m :: u32) > 0x2AAB) = (m > 10923)"
    using abs_word_less [of m 21846] abs_word_less [of m 10923] m by simp_all
  consider "m > 21846" | "10923 < m" "m \<le> 21846" | "m \<le> 10923" by linarith
  then show ?thesis
  proof cases
    case 1
    then show ?thesis
      unfolding overdrive_channel_def overdrive_int_def m_def [symmetric] Let_def c by simp
  next
    case 2
    note z = smooth_bounds [OF 2]
    have e: "sint (word_of_int (smooth m) :: u32) = smooth m" using z by (intro in_i32) simp_all
    have n: "sint (narrow (- (word_of_int (smooth m) :: u32))) = - smooth m"
    proof -
      have "- (word_of_int (smooth m) :: u32) = word_of_int (- smooth m)" by simp
      then have "narrow (- (word_of_int (smooth m) :: u32)) = word_of_int (- smooth m)" by (simp only: narrow_word_of_int)
      moreover have "sint (word_of_int (- smooth m) :: u16) = - smooth m" using z by (intro in_i16) simp_all
      ultimately show ?thesis by (simp only:)
    qed
    have p: "sint (if sint (word_of_int (smooth m) :: u32) > 32767 then 32767 else narrow (word_of_int (smooth m))) = min 32767 (smooth m)"
    proof (cases "smooth m > 32767")
      case True
      then show ?thesis unfolding e by simp
    next
      case False
      then have "sint (word_of_int (smooth m) :: u16) = smooth m" using z by (intro in_i16) simp_all
      with False show ?thesis unfolding e narrow_word_of_int by (simp only: if_False min_def) simp
    qed
    have "snd (overdrive_channel acc x) =
        (if sint x > 0 then (if sint (word_of_int (smooth m) :: u32) > 32767 then 32767 else narrow (word_of_int (smooth m)))
         else narrow (- (word_of_int (smooth m) :: u32)))"
      using 2 unfolding overdrive_channel_def m_def [symmetric] Let_def c smooth_words [OF 2] by simp
    moreover have "overdrive_int (sint x) = (if sint x > 0 then min 32767 (smooth m) else - smooth m)"
      using 2 unfolding overdrive_int_def m_def [symmetric] Let_def by simp
    ultimately show ?thesis using n p by simp
  next
    case 3
    then have x: "- 10923 \<le> sint x" "sint x \<le> 10923" by (auto simp: m_def)
    have "push_bit 1 (scast x :: u32) = word_of_int (2 * sint x)" unfolding scast_word_of_int by (simp add: push_bit_eq_mult mult.commute)
    then have "narrow (push_bit 1 (scast x)) = word_of_int (2 * sint x)" by (simp only: narrow_word_of_int)
    moreover have "sint (word_of_int (2 * sint x) :: u16) = 2 * sint x" using x by (intro in_i16) simp_all
    ultimately have "sint (narrow (push_bit 1 (scast x))) = 2 * sint x" by (simp only:)
    with 3 show ?thesis
      unfolding overdrive_channel_def overdrive_int_def m_def [symmetric] Let_def c by simp
  qed
qed

lemma overdrive_channel_out: "overdrive_channel acc x = (a, y) \<Longrightarrow> sint y = overdrive_int (sint x)"
  using overdrive_channel_int [of acc x] by simp

text \<open>The magnitude of the curve, before the largest value is cut to 16 bits.\<close>

definition magnitude :: "int \<Rightarrow> int" where
  "magnitude m = (if m > 21846 then 32768 else if m > 10923 then smooth m else 2 * m)"

lemma overdrive_int_magnitude: "overdrive_int x = (if x > 0 then min 32767 (magnitude x) else - magnitude (- x))"
  by (auto simp: overdrive_int_def magnitude_def Let_def)

lemma magnitude_mono: "x \<le> y \<Longrightarrow> magnitude x \<le> magnitude y"
proof -
  assume le: "x \<le> y"
  consider "x > 21846" | "y > 21846" "10923 < x" "x \<le> 21846" | "y > 21846" "x \<le> 10923" | "10923 < x" "x \<le> 21846" "y \<le> 21846"
    | "x \<le> 10923" "10923 < y" "y \<le> 21846" | "y \<le> 10923"
    by linarith
  then show ?thesis
  proof cases
    case 2
    then show ?thesis using smooth_bounds [OF 2(2,3)] by (simp add: magnitude_def)
  next
    case 4
    then show ?thesis using smooth_mono [OF 4(1) le 4(3)] le by (simp add: magnitude_def)
  next
    case 5
    then show ?thesis using smooth_bounds [OF 5(2,3)] by (simp add: magnitude_def)
  qed (use le in \<open>simp_all add: magnitude_def\<close>)
qed

lemma magnitude_bounds: "0 \<le> x \<Longrightarrow> 0 \<le> magnitude x" "magnitude x \<le> 32768"
proof -
  show "magnitude x \<le> 32768" using smooth_bounds [of x] by (simp add: magnitude_def)
  show "0 \<le> magnitude x" if "0 \<le> x" using magnitude_mono [OF that] by (simp add: magnitude_def)
qed

lemma overdrive_int_mono:
  assumes "x \<le> y"
  shows "overdrive_int x \<le> overdrive_int y"
proof -
  consider "x > 0" | "x \<le> 0" "y > 0" | "y \<le> 0" using assms by linarith
  then show ?thesis
  proof cases
    case 2
    then show ?thesis using magnitude_bounds(1) [of "- x"] magnitude_bounds(1) [of y] by (simp add: overdrive_int_magnitude)
  qed (use assms magnitude_mono [of x y] magnitude_mono [of "- y" "- x"] in \<open>auto simp: overdrive_int_magnitude\<close>)
qed

lemma overdrive_int_odd:
  assumes "0 \<le> x"
  shows "overdrive_int (- x) = - overdrive_int x \<or> overdrive_int (- x) = -32768 \<and> overdrive_int x = 32767"
  using assms magnitude_bounds(2) [of x] by (auto simp: overdrive_int_magnitude magnitude_def)

interpretation od: stereo_effect "\<lambda>s x. Some (audio_overdrive s x)" "\<lambda>_. True" "\<lambda>_ _. ()" "\<lambda>_ x. (overdrive_int x, ())"
  by unfold_locales (auto simp: audio_overdrive_def Let_def split: prod.splits dest!: overdrive_channel_out)

text \<open>
  The overdrive is a rising curve. For any two samples the larger one is not put out lower than the
  smaller one; a sample of up to a third of the range is doubled, a sample above two thirds is saturated, and the
  curve is odd but for the saturated values, which are the two ends of the 16-bit range.
\<close>

theorem audio_overdrive_curve:
  fixes x x' :: stereo and od :: Overdrive
  assumes "ch \<in> {fst, snd}"
  defines "out \<equiv> \<lambda>x. sint (ch (snd (audio_overdrive od x)))"
  shows "(sint (ch x) \<le> sint (ch x') \<longrightarrow> out x \<le> out x') \<and>
    (\<bar>sint (ch x)\<bar> \<le> 10923 \<longrightarrow> out x = 2 * sint (ch x)) \<and>
    (sint (ch x) > 21846 \<longrightarrow> out x = 32767) \<and> (sint (ch x) < - 21846 \<longrightarrow> out x = - 32768) \<and>
    (0 \<le> sint (ch x) \<and> sint (ch x') = - sint (ch x) \<longrightarrow> out x' = - out x \<or> out x' = - 32768 \<and> out x = 32767)"
proof -
  have "out x = overdrive_int (sint (ch x))" for x :: stereo
    using assms(1) by (auto simp: out_def audio_overdrive_def Let_def split: prod.splits dest!: overdrive_channel_out)
  moreover have "\<bar>z\<bar> \<le> 10923 \<Longrightarrow> overdrive_int z = 2 * z" "z > 21846 \<Longrightarrow> overdrive_int z = 32767"
    "z < - 21846 \<Longrightarrow> overdrive_int z = - 32768" for z
    by (auto simp: overdrive_int_def Let_def)
  ultimately show ?thesis using overdrive_int_mono overdrive_int_odd by auto
qed

lemma audio_overdrive_curve_witness:
  "sint (fst (snd (audio_overdrive \<lparr>od_accum = (0, 0)\<rparr> (0x2000, 0)))) = 0x4000 \<and>
   sint (fst (snd (audio_overdrive \<lparr>od_accum = (0, 0)\<rparr> (0x6000, 0)))) = 32767"
proof -
  have f: "fst \<in> {fst, snd :: stereo \<Rightarrow> u16}" by simp
  from audio_overdrive_curve [OF f, of "(0x2000, 0)" "(0x6000, 0)" "\<lparr>od_accum = (0, 0)\<rparr>"]
    audio_overdrive_curve [OF f, of "(0x6000, 0)" "(0x6000, 0)" "\<lparr>od_accum = (0, 0)\<rparr>"]
  show ?thesis by simp
qed

section \<open>Distortion\<close>

text \<open>
  The two constants belong together: the one is larger by the number 1 in the shifted format. The quotient of
  a sample is taken with truncation.
\<close>

definition distortion_ok :: "Distortion \<Rightarrow> bool" where
  "distortion_ok d \<longleftrightarrow> dist_sftLft d = 5 \<and> 0 \<le> sint (dist_k d) \<and> sint (dist_k d) \<le> 0x7FFF \<and>
     sint (dist_kOnePlus d) = sint (dist_k d) + 1024"

definition distortion_int :: "int \<Rightarrow> int \<Rightarrow> int" where
  "distortion_int k x = (let q = (k + 1024) * x sdiv (k * \<bar>x\<bar> div 2 ^ 15 + 1024) in if x > 0 then q - 1 else q)"

definition divisor :: "int \<Rightarrow> int \<Rightarrow> int" where
  "divisor k x = k * \<bar>x\<bar> div 2 ^ 15 + 1024"

lemma distortion_int_divisor:
  "distortion_int k x = (if x > 0 then (k + 1024) * x sdiv divisor k x - 1 else (k + 1024) * x sdiv divisor k x)"
  unfolding distortion_int_def divisor_def Let_def ..

lemma distortion_products:
  assumes "0 \<le> k" "k \<le> 32767" "\<bar>x\<bar> \<le> 32768"
  shows "0 \<le> k * \<bar>x\<bar>" "k * \<bar>x\<bar> \<le> 1073709056" "\<bar>(k + 1024) * x\<bar> \<le> 1107263488"
    "1024 \<le> divisor k x" "divisor k x \<le> 33791"
proof -
  show p: "0 \<le> k * \<bar>x\<bar>" using assms by simp
  have "k * \<bar>x\<bar> \<le> 32767 * 32768" using assms by (intro mult_mono) simp_all
  then show q: "k * \<bar>x\<bar> \<le> 1073709056" by simp
  have "(k + 1024) * \<bar>x\<bar> \<le> 33791 * 32768" using assms by (intro mult_mono) simp_all
  then show "\<bar>(k + 1024) * x\<bar> \<le> 1107263488" using assms by (simp add: abs_mult)
  have "0 \<le> k * \<bar>x\<bar> div 2 ^ 15" using p by (intro pos_imp_zdiv_nonneg_iff [THEN iffD2]) simp_all
  moreover have "k * \<bar>x\<bar> div 2 ^ 15 \<le> 1073709056 div 2 ^ 15" using q by (rule zdiv_mono1) simp
  ultimately show "1024 \<le> divisor k x" "divisor k x \<le> 33791" by (simp_all add: divisor_def)
qed

lemma div_less_bound:
  assumes "(a :: int) < 32768 * d" "0 < d"
  shows "a div d \<le> 32767"
proof (rule ccontr)
  assume "\<not> a div d \<le> 32767"
  then have "32768 * d \<le> a div d * d" using assms(2) by (intro mult_right_mono) simp_all
  also have "a div d * d \<le> a" using pos_mod_sign [OF assms(2), of a] div_mult_mod_eq [of a d] by linarith
  finally show False using assms(1) by simp
qed

lemma distortion_quotient:
  assumes "0 \<le> k" "k \<le> 32767" "\<bar>x\<bar> \<le> 32736"
  shows "(k + 1024) * \<bar>x\<bar> div divisor k x \<le> 32767" and "x \<noteq> 0 \<Longrightarrow> 1 \<le> (k + 1024) * \<bar>x\<bar> div divisor k x"
proof -
  define u where "u = k * \<bar>x\<bar>"
  have x: "0 \<le> \<bar>x\<bar>" "\<bar>x\<bar> \<le> 32736" using assms(3) by simp_all
  have d: "1024 \<le> divisor k x" using distortion_products(4) [of k x] assms by simp
  have e: "(k + 1024) * \<bar>x\<bar> = u + 1024 * \<bar>x\<bar>" by (simp add: u_def algebra_simps)
  have "u + 1024 * \<bar>x\<bar> < 32768 * divisor k x"
    unfolding divisor_def u_def [symmetric] using x by simp
  then show "(k + 1024) * \<bar>x\<bar> div divisor k x \<le> 32767"
    unfolding e using d by (intro div_less_bound) simp_all
  assume "x \<noteq> 0"
  then have "1 \<le> \<bar>x\<bar>" by simp
  have "0 \<le> u" using assms by (simp add: u_def)
  then have "divisor k x \<le> u + 1024 * \<bar>x\<bar>"
    unfolding divisor_def u_def [symmetric] using \<open>1 \<le> \<bar>x\<bar>\<close> by simp
  then show "1 \<le> (k + 1024) * \<bar>x\<bar> div divisor k x"
    unfolding e using d zdiv_mono1 [of "divisor k x" "u + 1024 * \<bar>x\<bar>" "divisor k x"] by simp
qed

text \<open>The word operations are exact up to the last narrowing.\<close>

lemma distortion_channel_int:
  assumes "sint k = K" "0 \<le> K" "K \<le> 32767" "sint k1 = K + 1024"
  shows "\<exists>acc. distortion_channel k k1 5 x = Some (acc, word_of_int (distortion_int K (sint x)))"
proof -
  define X where "X = sint x"
  have X: "\<bar>X\<bar> \<le> 32768" using sint_u16_bounds [of x] by (auto simp: X_def)
  note b = distortion_products [OF assms(2,3) X]
  have k: "k = word_of_int K" and k1: "k1 = word_of_int (K + 1024)"
    using assms(1,4) by (metis of_int_sint scast_id)+
  have a0: "k1 * scast x = word_of_int ((K + 1024) * X)"
    unfolding k1 X_def scast_word_of_int by (rule mul_word_of_int)
  have m: "k * word_of_int \<bar>sint x\<bar> = word_of_int (K * \<bar>X\<bar>)"
    unfolding k X_def by (rule mul_word_of_int)
  have s: "signed_drop_bit 15 (word_of_int (K * \<bar>X\<bar>) :: u32) = word_of_int (K * \<bar>X\<bar> div 2 ^ 15)"
    by (rule shift_word_of_int) (rule order.trans [OF _ b(1)], simp, rule le_less_trans [OF b(2)], simp)
  have one: "c_shr (ONE_16b + 5) 5 = Some 1024"
    by (simp add: c_shr_def ONE_16b_def shift_word_of_int [of 32772 5, simplified])
  have a1: "word_of_int (K * \<bar>X\<bar> div 2 ^ 15) + 1024 = (word_of_int (divisor K X) :: u32)"
    by (simp add: divisor_def)
  have d: "sint (word_of_int (divisor K X) :: u32) = divisor K X" using b(4,5) by (intro in_i32) simp_all
  have nz: "(word_of_int (divisor K X) :: u32) \<noteq> 0"
  proof
    assume "(word_of_int (divisor K X) :: u32) = 0"
    then have "divisor K X = 0" using d by simp
    with b(4) show False by simp
  qed
  have n: "sint (word_of_int ((K + 1024) * X) :: u32) = (K + 1024) * X" using b(3) by (intro in_i32) simp_all
  let ?q = "(K + 1024) * X sdiv divisor K X"
  have "narrow (word_of_int ?q - 1) = word_of_int (?q - 1)" "narrow (word_of_int ?q) = word_of_int ?q"
    using narrow_word_of_int [of "?q - 1"] narrow_word_of_int [of ?q] by simp_all
  then have "distortion_channel k k1 5 x = Some ((word_of_int ?q, word_of_int (divisor K X)), word_of_int (distortion_int K X))"
    unfolding distortion_channel_def a0 m s one Let_def bind.bind_lunit a1 d n
    unfolding distortion_int_divisor X_def [symmetric] using nz by simp
  then show ?thesis unfolding X_def by blast
qed

text \<open>For all but the loudest samples the result is a sample, with the sign of the input.\<close>

lemma distortion_int_exact:
  assumes "0 \<le> k" "k \<le> 32767" "\<bar>x\<bar> \<le> 32736"
  shows "- 32768 \<le> distortion_int k x" "distortion_int k x \<le> 32767"
    "0 < x \<Longrightarrow> 0 \<le> distortion_int k x" "x < 0 \<Longrightarrow> distortion_int k x < 0"
proof -
  have d: "0 < divisor k x" using distortion_products(4) [of k x] assms by simp
  note q = distortion_quotient [OF assms]
  have s: "(k + 1024) * x sdiv divisor k x = sgn x * ((k + 1024) * \<bar>x\<bar> div divisor k x)"
    using d assms(1) by (simp add: signed_divide_int_def abs_mult sgn_mult)
  have p: "0 \<le> (k + 1024) * \<bar>x\<bar> div divisor k x" using d assms(1) by (intro pos_imp_zdiv_nonneg_iff [THEN iffD2]) simp_all
  have v: "distortion_int k x = (if x > 0 then (k + 1024) * \<bar>x\<bar> div divisor k x - 1 else if x < 0 then - ((k + 1024) * \<bar>x\<bar> div divisor k x) else 0)"
    unfolding distortion_int_divisor s by simp
  show "- 32768 \<le> distortion_int k x" "distortion_int k x \<le> 32767"
    "0 < x \<Longrightarrow> 0 \<le> distortion_int k x" "x < 0 \<Longrightarrow> distortion_int k x < 0"
    unfolding v using q p by auto
qed

text \<open>As a machine: the constant, and the value as it is narrowed to 16 bits.\<close>

lemma audio_distortion_step:
  assumes "distortion_ok d"
  shows "\<exists>d' y. audio_distortion d x = Some (d', y) \<and> distortion_ok d' \<and>
    (\<forall>ch \<in> {fst, snd}. (\<lambda>k x. (sint (word_of_int (distortion_int k x) :: u16), k)) (sint (dist_k d)) (sint (ch x)) =
       (sint (ch y), sint (dist_k d')))"
proof -
  from assms have k: "dist_sftLft d = 5" "0 \<le> sint (dist_k d)" "sint (dist_k d) \<le> 32767" "sint (dist_kOnePlus d) = sint (dist_k d) + 1024"
    by (simp_all add: distortion_ok_def)
  obtain a0 a1 where "distortion_channel (dist_k d) (dist_kOnePlus d) 5 (fst x) = Some (a0, word_of_int (distortion_int (sint (dist_k d)) (sint (fst x))))"
    "distortion_channel (dist_k d) (dist_kOnePlus d) 5 (snd x) = Some (a1, word_of_int (distortion_int (sint (dist_k d)) (sint (snd x))))"
    using distortion_channel_int [OF refl k(2-4)] by metis
  then have "audio_distortion d x = Some (d\<lparr>dist_accum := a1\<rparr>,
      (word_of_int (distortion_int (sint (dist_k d)) (sint (fst x))), word_of_int (distortion_int (sint (dist_k d)) (sint (snd x)))))"
    by (simp add: audio_distortion_def k(1))
  moreover have "distortion_ok (d\<lparr>dist_accum := a1\<rparr>)" using assms by (simp add: distortion_ok_def)
  ultimately show ?thesis by fastforce
qed

interpretation dist: stereo_effect audio_distortion distortion_ok "\<lambda>_ d. sint (dist_k d)"
  "\<lambda>k x. (sint (word_of_int (distortion_int k x) :: u16), k)"
  by unfold_locales (rule audio_distortion_step)

text \<open>
  C34: the distortion. With constants that belong together it never divides by zero, and for all but the
  loudest samples it puts out the quotient it means: a sample with the sign of the input, in both channels, with no
  wrap-around.
\<close>

theorem audio_distortion_exact:
  assumes "distortion_ok d" and "\<bar>sint (fst x)\<bar> \<le> 32736" "\<bar>sint (snd x)\<bar> \<le> 32736"
  shows "\<exists>d' y. audio_distortion d x = Some (d', y) \<and>
    (\<forall>ch \<in> {fst, snd}. sint (ch y) = distortion_int (sint (dist_k d)) (sint (ch x)) \<and>
       (0 < sint (ch x) \<longrightarrow> 0 \<le> sint (ch y)) \<and> (sint (ch x) < 0 \<longrightarrow> sint (ch y) < 0))"
proof -
  from assms(1) have k: "0 \<le> sint (dist_k d)" "sint (dist_k d) \<le> 32767" by (simp_all add: distortion_ok_def)
  obtain d' y where r: "audio_distortion d x = Some (d', y)"
    and o: "\<forall>ch \<in> {fst, snd}. sint (word_of_int (distortion_int (sint (dist_k d)) (sint (ch x))) :: u16) = sint (ch y)"
    using audio_distortion_step [OF assms(1), of x] by auto
  have "sint (ch y) = distortion_int (sint (dist_k d)) (sint (ch x)) \<and>
       (0 < sint (ch x) \<longrightarrow> 0 \<le> sint (ch y)) \<and> (sint (ch x) < 0 \<longrightarrow> sint (ch y) < 0)" if "ch \<in> {fst, snd}" for ch
  proof -
    have "\<bar>sint (ch x)\<bar> \<le> 32736" using that assms(2,3) by auto
    note e = distortion_int_exact [OF k this]
    have "sint (word_of_int (distortion_int (sint (dist_k d)) (sint (ch x))) :: u16) = distortion_int (sint (dist_k d)) (sint (ch x))"
      using e(1,2) by (intro in_i16) simp_all
    then have "sint (ch y) = distortion_int (sint (dist_k d)) (sint (ch x))" using bspec [OF o that] by simp
    with e(3,4) show ?thesis by simp
  qed
  with r show ?thesis by blast
qed

text \<open>The constants of the amount 0.9, in the arithmetic of single precision.\<close>

definition set_distortion :: Distortion where
  "set_distortion = \<lparr>dist_accum = (0, 0), dist_k = 18431, dist_kOnePlus = 19455, dist_sftLft = 5\<rparr>"

lemma set_distortion_ok: "distortion_ok set_distortion"
  by (simp add: distortion_ok_def set_distortion_def)

lemma audio_distortion_exact_witness:
  "\<exists>d' y. audio_distortion set_distortion (16384, word_of_int (- 16384)) = Some (d', y) \<and> sint (fst y) = 31130 \<and> sint (snd y) = - 31131"
  using audio_distortion_exact [OF set_distortion_ok, of "(16384, word_of_int (- 16384))"]
  by (auto simp: set_distortion_def distortion_int_def signed_divide_int_def Let_def)

text \<open>A sample two below the largest is put out as the smallest one.\<close>

lemma audio_distortion_wraps:
  "\<exists>d' y. audio_distortion set_distortion (32766, 0) = Some (d', y) \<and> sint (fst y) = - 32768"
  using audio_distortion_step [OF set_distortion_ok, of "(32766, 0)"]
  by (auto simp: set_distortion_def distortion_int_def signed_divide_int_def Let_def)

section \<open>Tremolo\<close>

definition tremolo_ok :: "Tremolo \<Rightarrow> bool" where
  "tremolo_ok t \<longleftrightarrow> table_ok 13020 (trem_mod_array t) (trem_pnt t) \<and> table_ok 13020 (trem_mod_array t) (trem_pnt_n t) \<and>
     table_ok 13020 (trem_frac_array t) (trem_pnt t) \<and>
     (\<forall>m \<in> set (trem_mod_array t). 0 \<le> sint m \<and> sint m \<le> 0x7FFF) \<and> (\<forall>f \<in> set (trem_frac_array t). 0 \<le> sint f)"

type_synonym tremolo_state = "int list \<times> int list \<times> nat \<times> nat"

definition tremolo_chan :: "Tremolo \<Rightarrow> tremolo_state" where
  "tremolo_chan t = (map sint (trem_mod_array t), map sint (trem_frac_array t), nat (sint (trem_pnt t)), nat (sint (trem_pnt_n t)))"

text \<open>The gain lies between two entries of the table.\<close>

fun tremolo_gain :: "tremolo_state \<Rightarrow> int" where
  "tremolo_gain (m, f, i, j) = (m ! i * (0x7FFF - f ! i) + m ! j * f ! i) div 2 ^ 15"

fun tremolo_next :: "tremolo_state \<Rightarrow> tremolo_state" where
  "tremolo_next (m, f, i, j) = (m, f, (i + 1) mod 13020, (j + 1) mod 13020)"

definition tremolo_machine :: "tremolo_state \<Rightarrow> int \<Rightarrow> int \<times> tremolo_state" where
  "tremolo_machine a x = (x * tremolo_gain (tremolo_next a) div 2 ^ 15, tremolo_next a)"

lemma gain_bounds:
  assumes "0 \<le> a" "a \<le> 32767" "0 \<le> b" "b \<le> 32767" "0 \<le> f" "f \<le> 32767"
  shows "0 \<le> a * (32767 - f) + b * f" "a * (32767 - f) + (b :: int) * f \<le> 1073676289"
proof -
  show "0 \<le> a * (32767 - f) + b * f" using assms by simp
  have "a * (32767 - f) \<le> 32767 * (32767 - f)" "b * f \<le> 32767 * f" using assms by (intro mult_right_mono; simp)+
  then show "a * (32767 - f) + b * f \<le> 1073676289" by simp
qed

lemma scaled_sample:
  assumes "0 \<le> g" "g \<le> 32767" and x: "- 32768 \<le> x" "x \<le> (32767 :: int)"
  shows "\<bar>x * g\<bar> \<le> 1073741824" "- 32768 \<le> x * g div 2 ^ 15" "x * g div 2 ^ 15 \<le> 32767" "\<bar>x * g div 2 ^ 15\<bar> \<le> \<bar>x\<bar>"
proof -
  have "- 32768 * 32767 \<le> x * g" and u: "x * g \<le> 32767 * 32767"
  proof -
    have "x * g \<le> 32767 * g" "- 32768 * g \<le> x * g" using assms by (intro mult_right_mono; simp)+
    then show "- 32768 * 32767 \<le> x * g" "x * g \<le> 32767 * 32767" using assms(1,2) by simp_all
  qed
  then show "\<bar>x * g\<bar> \<le> 1073741824" "- 32768 \<le> x * g div 2 ^ 15" "x * g div 2 ^ 15 \<le> 32767" by simp_all
  show "\<bar>x * g div 2 ^ 15\<bar> \<le> \<bar>x\<bar>"
  proof (cases "0 \<le> x")
    case True
    have p: "0 \<le> x * g" "x * g \<le> x * 32768" using True assms by (simp_all add: mult_left_mono)
    then have "x * g div 2 ^ 15 \<le> x * 32768 div 2 ^ 15" by (intro zdiv_mono1) simp_all
    moreover have "0 \<le> x * g div 2 ^ 15" using p(1) by (intro pos_imp_zdiv_nonneg_iff [THEN iffD2]) simp_all
    ultimately show ?thesis using True by simp
  next
    case False
    then have p: "x * 32768 \<le> x * g" "x * g \<le> 0" using assms by (simp_all add: mult_left_mono_neg mult_nonpos_nonneg)
    then have "x * 32768 div 2 ^ 15 \<le> x * g div 2 ^ 15" by (intro zdiv_mono1) simp_all
    moreover have "x * g div 2 ^ 15 \<le> 0" using p(2) zdiv_mono1 [of "x * g" 0 "2 ^ 15"] by simp
    ultimately show ?thesis using False by simp
  qed
qed

lemma audio_tremolo_step:
  assumes ok: "tremolo_ok t"
  shows "\<exists>t' y. audio_tremolo t x = Some (t', y) \<and> tremolo_ok t' \<and>
    (\<forall>ch \<in> {fst, snd}. tremolo_machine (tremolo_chan t) (sint (ch x)) = (sint (ch y), tremolo_chan t'))"
proof -
  from ok have tb: "table_ok 13020 (trem_mod_array t) (trem_pnt t)" "table_ok 13020 (trem_mod_array t) (trem_pnt_n t)" "table_ok 13020 (trem_frac_array t) (trem_pnt t)"
    and ms: "\<forall>m \<in> set (trem_mod_array t). 0 \<le> sint m \<and> sint m \<le> 0x7FFF" and fs: "\<forall>f \<in> set (trem_frac_array t). 0 \<le> sint f"
    by (simp_all add: tremolo_ok_def)
  have small: "(0 :: nat) < 13020" "(13020 :: nat) < 2 ^ 30" by simp_all
  define p q where "p = c_rem (trem_pnt t + 1) 13020" and "q = c_rem (trem_pnt_n t + 1) 13020"
  note tn = tb [THEN table_next(3) [OF _ small], unfolded of_nat_numeral, folded p_def q_def]
  note pn = tb(1,2) [THEN table_next(4) [OF _ small], unfolded of_nat_numeral, folded p_def q_def]
  note r = tn [THEN table_next(1) [OF _ small]] and l = tn [THEN table_next(2) [OF _ small]]
  define m0 m1 f where "m0 = trem_mod_array t ! nat (sint p)" and "m1 = trem_mod_array t ! nat (sint q)" and "f = trem_frac_array t ! nat (sint p)"
  have b: "0 \<le> sint m0" "sint m0 \<le> 32767" "0 \<le> sint m1" "sint m1 \<le> 32767" "0 \<le> sint f" "sint f \<le> 32767"
    using ms fs l sint_u16_bounds [of f] by (auto simp: m0_def m1_def f_def)
  define G where "G = (sint m0 * (32767 - sint f) + sint m1 * sint f) div 2 ^ 15"
  note gb = gain_bounds [OF b]
  have "0 \<le> G" unfolding G_def using gb(1) by (intro pos_imp_zdiv_nonneg_iff [THEN iffD2]) simp_all
  moreover have "G \<le> 32767" unfolding G_def using zdiv_mono1 [OF gb(2), of "2 ^ 15"] by simp
  ultimately have G: "0 \<le> G" "G \<le> 32767" by simp_all
  have m: "m0 = word_of_int (sint m0)" "m1 = word_of_int (sint m1)" by simp_all
  have s: "scast (narrow (ONE_16b - scast f)) = (word_of_int (32767 - sint f) :: u32)"
    unfolding scast_word_of_int [of "narrow _"] rest_of_one [OF b(5)] ..
  have "m0 * word_of_int (32767 - sint f) + m1 * scast f = word_of_int (sint m0 * (32767 - sint f) + sint m1 * sint f)"
    by (subst m(1), subst m(2), subst scast_word_of_int) (simp only: mul_word_of_int add_word_of_int)
  then have g: "signed_drop_bit 15 (m0 * scast (narrow (ONE_16b - scast f)) + m1 * scast f) = word_of_int G"
    unfolding s G_def using shift_word_of_int [of "sint m0 * (32767 - sint f) + sint m1 * sint f" 15]
      order.trans [OF _ gb(1), of "- (2 ^ 31)"] le_less_trans [OF gb(2), of "2 ^ 31"] by simp
  have o: "narrow (signed_drop_bit 15 (scast h * word_of_int G)) = word_of_int (sint h * G div 2 ^ 15)" for h :: u16
  proof -
    note sc = scaled_sample [OF G sint_u16_bounds [of h]]
    have "scast h * word_of_int G = (word_of_int (sint h * G) :: u32)" unfolding scast_word_of_int by (rule mul_word_of_int)
    then have "signed_drop_bit 15 (scast h * word_of_int G) = (word_of_int (sint h * G div 2 ^ 15) :: u32)"
      using shift_word_of_int [of "sint h * G" 15] sc(1) by (simp only:) (simp add: abs_le_iff)
    then show ?thesis by (simp only: narrow_word_of_int)
  qed
  define t' where "t' = t\<lparr>trem_pnt := p, trem_pnt_n := q, trem_frac := f, trem_frac1Minus := narrow (ONE_16b - scast f), trem_mod := word_of_int G\<rparr>"
  have P: "TREMOLO_P = 13020" by (simp add: TREMOLO_P_def Fs_def)
  have run: "audio_tremolo t x = Some (t', (word_of_int (sint (fst x) * G div 2 ^ 15), word_of_int (sint (snd x) * G div 2 ^ 15)))"
    unfolding audio_tremolo_def Let_def P p_def [symmetric] q_def [symmetric] r m0_def [symmetric] m1_def [symmetric] f_def [symmetric] bind.bind_lunit g o t'_def ..
  have "tremolo_ok t'" using tn ms fs by (simp add: tremolo_ok_def t'_def)
  moreover have "tremolo_machine (tremolo_chan t) (sint (ch x)) =
      (sint (ch (word_of_int (sint (fst x) * G div 2 ^ 15) :: u16, word_of_int (sint (snd x) * G div 2 ^ 15) :: u16)), tremolo_chan t')"
    if ch: "ch \<in> {fst, snd}" for ch
  proof -
    have "sint (word_of_int (sint (ch x) * G div 2 ^ 15) :: u16) = sint (ch x) * G div 2 ^ 15"
      using scaled_sample(2,3) [OF G sint_u16_bounds [of "ch x"]] by (intro in_i16) simp_all
    then have "sint (ch (word_of_int (sint (fst x) * G div 2 ^ 15) :: u16, word_of_int (sint (snd x) * G div 2 ^ 15) :: u16)) = sint (ch x) * G div 2 ^ 15"
      using ch by auto
    moreover have n: "tremolo_next (tremolo_chan t) = tremolo_chan t'"
      by (simp add: tremolo_chan_def t'_def pn)
    moreover have "tremolo_gain (tremolo_chan t') = G"
      using l by (simp add: tremolo_chan_def t'_def G_def m0_def m1_def f_def)
    ultimately show ?thesis by (simp only: tremolo_machine_def)
  qed
  ultimately show ?thesis using run by blast
qed

interpretation trem: stereo_effect audio_tremolo tremolo_ok "\<lambda>_. tremolo_chan" tremolo_machine
  by unfold_locales (rule audio_tremolo_step)

section \<open>Wah-wah\<close>

definition wahwah_ok :: "WahWah \<Rightarrow> bool" where
  "wahwah_ok w \<longleftrightarrow> length (wah_x_buf w) = 3 \<and> length (wah_y_buf w) = 3 \<and> length (wah_A w) = 3 \<and> length (wah_B w) = 3 \<and>
     wah_A w ! 2 = 0 \<and> wah_pnt w \<in> {0, 1, 2} \<and> wah_sftLft w \<in> {0, 1} \<and>
     table_ok 31249 (wah_b_array w ! 2) (wah_wah_pnt w) \<and> table_ok 31249 (wah_b_array w ! 1) (wah_wah_pnt w) \<and>
     table_ok 31249 (wah_a_array w ! 1) (wah_wah_pnt w) \<and> table_ok 31249 (wah_a_array w ! 0) (wah_wah_pnt w)"

text \<open>The band-pass with its dry part; the sum is narrowed to 16 bits.\<close>

definition wahwah_mix_int :: "int \<Rightarrow> int \<Rightarrow> int" where
  "wahwah_mix_int x y = 26213 * (x - y) div 2 ^ 15 + 6553 * x div 2 ^ 15"

lemma wahwah_mix_word_of_int:
  assumes "- 32768 \<le> y" "y \<le> 32767"
  shows "wahwah_mix x (word_of_int y) = word_of_int (wahwah_mix_int (sint x) y)"
proof -
  note x = sint_u16_bounds [of x]
  have y: "sint (word_of_int y :: u16) = y" using assms by (intro in_i16) simp_all
  have g: "WAHWAH_WET_GAIN = word_of_int 26213" "WAHWAH_DRY_GAIN = word_of_int 6553"
    by (simp_all add: WAHWAH_WET_GAIN_def WAHWAH_DRY_GAIN_def)
  have w: "signed_drop_bit 15 (word_of_int (26213 * (sint x - y)) :: u32) = word_of_int (26213 * (sint x - y) div 2 ^ 15)"
    by (rule shift_word_of_int) (use x assms in simp_all)
  have d: "signed_drop_bit 15 (word_of_int (6553 * sint x) :: u32) = word_of_int (6553 * sint x div 2 ^ 15)"
    by (rule shift_word_of_int) (use x in simp_all)
  show ?thesis
    unfolding wahwah_mix_def g scast_word_of_int y diff_word_of_int mul_word_of_int w d wahwah_mix_int_def by (rule add_word_of_int)
qed

type_synonym wahwah_state = "int \<times> (int list \<times> int list \<times> int list \<times> int list) \<times> nat \<times> nat \<times> int \<times> int \<times> int \<times> int"

definition wahwah_chan :: "(stereo \<Rightarrow> u16) \<Rightarrow> WahWah \<Rightarrow> wahwah_state" where
  "wahwah_chan ch w = (sint (wah_B w ! 0),
     (map sint (wah_b_array w ! 2), map sint (wah_b_array w ! 1), map sint (wah_a_array w ! 1), map sint (wah_a_array w ! 0)),
     nat (sint (wah_wah_pnt w)), unat (wah_sftLft w), ring_hist ch (wah_x_buf w) (wah_y_buf w) (wah_pnt w))"

fun wahwah_machine :: "wahwah_state \<Rightarrow> int \<Rightarrow> int \<times> wahwah_state" where
  "wahwah_machine (b2, (b0s, b1s, a1s, a2s), i, sh, x1, x2, y1, y2) x =
     (let y = biquad (b0s ! i, b1s ! i, b2, a1s ! i, a2s ! i) sh x (x1, x2, y1, y2) in
      (sint (word_of_int (wahwah_mix_int x y) :: u16), (b2, (b0s, b1s, a1s, a2s), (i + 1) mod 31249, sh, x, x1, y, y1)))"

lemma audio_wahwah_step:
  assumes ok: "wahwah_ok w"
  shows "\<exists>w' y. audio_wahwah w x = Some (w', y) \<and> wahwah_ok w' \<and>
    (\<forall>ch \<in> {fst, snd}. wahwah_machine (wahwah_chan ch w) (sint (ch x)) = (sint (ch y), wahwah_chan ch w'))"
proof -
  from ok have pnt: "wah_pnt w \<in> {0, 1, 2}" and len: "length (wah_x_buf w) = 3" "length (wah_y_buf w) = 3" "length (wah_A w) = 3" "length (wah_B w) = 3"
    and z: "wah_A w ! 2 = 0" and s: "wah_sftLft w \<in> {0, 1}"
    and tb: "table_ok 31249 (wah_b_array w ! 2) (wah_wah_pnt w)" "table_ok 31249 (wah_b_array w ! 1) (wah_wah_pnt w)"
      "table_ok 31249 (wah_a_array w ! 1) (wah_wah_pnt w)" "table_ok 31249 (wah_a_array w ! 0) (wah_wah_pnt w)"
    by (auto simp: wahwah_ok_def)
  have small: "(0 :: nat) < 31249" "(31249 :: nat) < 2 ^ 30" by simp_all
  note r = tb [THEN table_next(1) [OF _ small]] and l = tb [THEN table_next(2) [OF _ small]]
    and tn = tb [THEN table_next(3) [OF _ small], unfolded of_nat_numeral] and pn = table_next(4) [OF tb(1) small, unfolded of_nat_numeral]
  define i where "i = nat (sint (wah_wah_pnt w))"
  define B where "B = (wah_B w)[2 := wah_b_array w ! 2 ! i, 1 := wah_b_array w ! 1 ! i]"
  define A where "A = (wah_A w)[1 := wah_a_array w ! 1 ! i, 0 := wah_a_array w ! 0 ! i]"
  have AB: "length A = 3" "length B = 3" "A ! 2 = 0" using len z by (simp_all add: A_def B_def)
  have wts: "weights_of B A = (sint (wah_b_array w ! 2 ! i), sint (wah_b_array w ! 1 ! i), sint (wah_B w ! 0), sint (wah_a_array w ! 1 ! i), sint (wah_a_array w ! 0 ! i))"
    using len by (simp add: weights_of_def A_def B_def)
  obtain p xb yb acc b where p: "p = c_rem (wah_pnt w + 1) 3" "p \<in> {0, 1, 2}" and st: "arr_wr (wah_x_buf w) p x = Some xb"
      "length xb = 3" "length yb = 3" "filterIIR_2nd p xb (wah_y_buf w) B A (wah_sftLft w) = Some (yb, acc)"
      "arr_rd yb p = Some (word_of_int (b fst), word_of_int (b snd))"
    and bb: "\<And>ch. - 32768 \<le> b ch" "\<And>ch. b ch \<le> 32767"
    and b: "\<And>ch. b ch = biquad (weights_of B A) (unat (wah_sftLft w)) (sint (ch x)) (ring_hist ch (wah_x_buf w) (wah_y_buf w) (wah_pnt w))"
    and hist: "\<And>ch. ch \<in> {fst, snd} \<Longrightarrow> ring_hist ch xb yb p = (sint (ch x), fst (ring_hist ch (wah_x_buf w) (wah_y_buf w) (wah_pnt w)),
      b ch, fst (snd (snd (ring_hist ch (wah_x_buf w) (wah_y_buf w) (wah_pnt w)))))"
    using biquad_buffers [OF pnt len(1,2) AB s] by blast
  let ?m = "\<lambda>ch. wahwah_mix_int (sint (ch x)) (b ch)"
  have mx: "wahwah_mix (fst x) (word_of_int (b fst)) = word_of_int (?m fst)" "wahwah_mix (snd x) (word_of_int (b snd)) = word_of_int (?m snd)"
    by (rule wahwah_mix_word_of_int [OF bb])+
  define w' where "w' = w\<lparr>wah_B := B, wah_A := A, wah_wah_pnt := c_rem (wah_wah_pnt w + 1) 31249, wah_pnt := p,
      wah_x_buf := xb, wah_y_buf := yb, wah_accum := (word_of_int (?m fst), word_of_int (?m snd))\<rparr>"
  have P: "WAHWAH_P = 31249" by (simp add: WAHWAH_P_def Fs_def)
  have run: "audio_wahwah w x = Some (w', (word_of_int (?m fst), word_of_int (?m snd)))"
    unfolding audio_wahwah_def Let_def r i_def [symmetric] bind.bind_lunit B_def [symmetric] A_def [symmetric] p(1) [symmetric] st prod.case mx P
    by (simp only: w'_def fst_conv snd_conv narrow_word_of_int)
  have "wahwah_ok w'" using ok p(2) st(2,3) AB tn by (simp add: wahwah_ok_def w'_def)
  moreover have "wahwah_machine (wahwah_chan ch w) (sint (ch x)) = (sint (ch (word_of_int (?m fst) :: u16, word_of_int (?m snd) :: u16)), wahwah_chan ch w')"
    if ch: "ch \<in> {fst, snd}" for ch
  proof -
    have "sint (ch (word_of_int (?m fst) :: u16, word_of_int (?m snd) :: u16)) = sint (word_of_int (?m ch) :: u16)" using ch by auto
    moreover have "B ! 0 = wah_B w ! 0" using len by (simp add: B_def)
    ultimately show ?thesis
      using hist [OF ch] b [of ch] l pn
      by (cases "ring_hist ch (wah_x_buf w) (wah_y_buf w) (wah_pnt w)") (simp add: wahwah_chan_def w'_def wts i_def [symmetric] Let_def)
  qed
  ultimately show ?thesis using run by blast
qed

interpretation wah: stereo_effect audio_wahwah wahwah_ok wahwah_chan wahwah_machine
  by unfold_locales (rule audio_wahwah_step)

text \<open>
  Up to about half of the range the mix is exact; where the all-pass turns a loud sample over, in the middle of
  the band, it wraps around.
\<close>

lemma wahwah_mix_exact:
  assumes "\<bar>x\<bar> \<le> 18000" "\<bar>y\<bar> \<le> 18000"
  shows "sint (word_of_int (wahwah_mix_int x y) :: u16) = wahwah_mix_int x y"
  using assms by (intro in_i16) (simp_all add: wahwah_mix_int_def)

lemma wahwah_mix_wraps: "sint (narrow (wahwah_mix 0x7FFF (word_of_int (- 32767)))) = - 6560"
proof -
  have "wahwah_mix 0x7FFF (word_of_int (- 32767)) = word_of_int (wahwah_mix_int (sint (0x7FFF :: u16)) (- 32767))"
    by (rule wahwah_mix_word_of_int) simp_all
  also have "wahwah_mix_int (sint (0x7FFF :: u16)) (- 32767) = 58976" by (simp add: wahwah_mix_int_def)
  finally have "narrow (wahwah_mix 0x7FFF (word_of_int (- 32767))) = word_of_int 58976" by (simp only: narrow_word_of_int)
  then show ?thesis by simp
qed

end
