(* ===== verification/Audio_Setup.thy ===== *)
theory Audio_Setup
  imports Audio_Gain
begin

text \<open>
  Setting up the effects (the alloc functions of libaudio/audio.c). An alloc function gets the previous
  contents of the structure, which lies in uninitialised memory, and the numbers that other functions
  compute in floating point: filter coefficients, sine tables and their fractions. Each establishes the
  proper state of its effect, but for the wah-wah, which sets a wrong pointer.
\<close>

section \<open>The functions\<close>

text \<open>The two functions for filter coefficients return the arrays \<open>B\<close> and \<open>A\<close> and the shift amount.\<close>

definition alloc_filter_vars :: "u32 \<Rightarrow> u16 list \<times> u16 list \<times> u32 \<Rightarrow> Filter \<Rightarrow> Filter" where
  "alloc_filter_vars thisType coeff f =
     (let (B, A, sft) = coeff in
      f\<lparr>filt_type := thisType, filt_B := B, filt_A := A, filt_sftLft := sft, filt_pnt := 2\<rparr>)"

definition alloc_vibrato_vars :: "u32 list \<Rightarrow> u16 list \<Rightarrow> Vibrato \<Rightarrow> Vibrato" where
  "alloc_vibrato_vars sins fracs v =
     v\<lparr>vibr_sin_array := sins, vibr_frac_array := fracs,
       vibr_audio_buf := (replicate (nat VIBRATO_L) 0, replicate (nat VIBRATO_L) 0),
       vibr_pnt := word_of_int VIBRATO_L - 1, vibr_v_pnt := 0\<rparr>"

text \<open>
  The arrays of the wah-wah hold the coefficients for every position of the modulation, and the
  structure keeps the last ones.
\<close>

definition alloc_wahwah_vars :: "(u16 \<times> u16 \<times> u16) list \<Rightarrow> (u16 \<times> u16) list \<Rightarrow> WahWah \<Rightarrow> WahWah" where
  "alloc_wahwah_vars bs as w =
     (let (b0, b1, b2) = last bs; (a0, a1) = last as in
      w\<lparr>wah_sftLft := 1,
        wah_b_array := [map fst bs, map (fst \<circ> snd) bs, map (snd \<circ> snd) bs],
        wah_a_array := [map fst as, map snd as, replicate (length as) 0],
        wah_B := [b0, b1, b2], wah_A := [a0, a1, 0], wah_wah_pnt := 2\<rparr>)"

definition alloc_tremolo_vars :: "u32 list \<Rightarrow> u16 list \<Rightarrow> Tremolo \<Rightarrow> Tremolo" where
  "alloc_tremolo_vars sins fracs t =
     t\<lparr>trem_mod_array := sins, trem_frac_array := fracs, trem_pnt := 0, trem_pnt_n := 1\<rparr>"

text \<open>The gains are 0.45, 0.4 and 0.4 of the largest sample, cut to integers.\<close>

definition alloc_chorus_vars :: "u32 list \<Rightarrow> u32 list \<Rightarrow> Chorus \<Rightarrow> Chorus" where
  "alloc_chorus_vars mod1 mod2 c =
     c\<lparr>chor_g := [word_of_int (0x7FFF * 40 div 100), word_of_int (0x7FFF * 40 div 100), word_of_int (0x7FFF * 45 div 100)],
       chor_del := (chor_del c)[2 := 0], chor_mod_array1 := mod1, chor_mod_array2 := mod2,
       chor_audio_buf := (replicate (nat CHORUS_L) 0, replicate (nat CHORUS_L) 0),
       chor_pnt := word_of_int CHORUS_L - 1, chor_c1_pnt := 0, chor_c2_pnt := 0\<rparr>"

definition alloc_delay_vars :: "IIRdelay \<Rightarrow> IIRdelay" where
  "alloc_delay_vars d =
     d\<lparr>del_g := [word_of_int (0x7FFF * 5 div 10), 0x7FFF], del_del := [word_of_int (DELAY_L - 1), 0],
       del_pnt := word_of_int (DELAY_L - 1), del_audio_buf := (replicate (nat DELAY_L) 0, replicate (nat DELAY_L) 0)\<rparr>"

definition alloc_overdrive_vars :: "Overdrive \<Rightarrow> Overdrive" where
  "alloc_overdrive_vars od = od"

text \<open>
  The constant of the distortion is halved until it is a sample; the other one is shifted as far. Their
  start values come from floating point.
\<close>

function halve_to_sample :: "u32 \<Rightarrow> u32 \<Rightarrow> u32 \<times> u32" where
  "halve_to_sample k sft = (if sint k > sint ONE_16b then halve_to_sample (signed_drop_bit 1 k) (sft + 1) else (k, sft))"
  by auto

termination halve_to_sample
proof (relation "measure (\<lambda>(k, _). nat (sint k))", simp)
  fix k sft :: u32
  assume "sint k > sint ONE_16b"
  then have "0 < sint k" by (simp add: ONE_16b_def)
  moreover have "sint (signed_drop_bit 1 k) = sint k div 2" by (simp add: sint_signed_drop_bit_eq drop_bit_eq_div)
  ultimately show "((signed_drop_bit 1 k, sft + 1), (k, sft)) \<in> measure (\<lambda>(k, _). nat (sint k))" by simp
qed

declare halve_to_sample.simps [simp del]

definition alloc_distortion_vars :: "u32 \<Rightarrow> u32 \<Rightarrow> Distortion \<Rightarrow> Distortion option" where
  "alloc_distortion_vars k0 kOne0 d = do {
     let (k, sft) = halve_to_sample k0 0;
     kOne \<leftarrow> c_shr kOne0 sft;
     Some (d\<lparr>dist_k := k, dist_sftLft := sft, dist_kOnePlus := kOne\<rparr>) }"

section \<open>Proper states\<close>

lemma alloc_filter_ok:
  assumes "length B = 3" "length A = 3" "A ! 2 = 0" "sft \<in> {0, 1}" "length (filt_x_buf f) = 3" "length (filt_y_buf f) = 3"
  shows "filter_ok (alloc_filter_vars thisType (B, A, sft) f)"
  using assms by (simp add: alloc_filter_vars_def filter_ok_def)

lemma alloc_vibrato_ok:
  assumes "length sins = 13020" "length fracs = 13020" "\<forall>d \<in> set sins. 0 \<le> sint d \<and> sint d < 200" "\<forall>f \<in> set fracs. 0 \<le> sint f"
  shows "vibrato_ok (alloc_vibrato_vars sins fracs v)"
proof -
  have "nat VIBRATO_L = 200" by (simp add: VIBRATO_L_def)
  then show ?thesis
    using assms by (simp add: alloc_vibrato_vars_def vibrato_ok_def line_ok_def table_ok_def VIBRATO_L_def)
qed

lemma alloc_tremolo_ok:
  assumes "length sins = 13020" "length fracs = 13020" "\<forall>m \<in> set sins. 0 \<le> sint m \<and> sint m \<le> 0x7FFF" "\<forall>f \<in> set fracs. 0 \<le> sint f"
  shows "tremolo_ok (alloc_tremolo_vars sins fracs t)"
  using assms by (simp add: alloc_tremolo_vars_def tremolo_ok_def table_ok_def)

lemma alloc_chorus_ok:
  assumes "length mod1 = 52083" "length mod2 = 41666" "\<forall>d \<in> set mod1 \<union> set mod2. 0 \<le> sint d \<and> sint d < 2083" "length (chor_del c) = 3"
  shows "chorus_ok (alloc_chorus_vars mod1 mod2 c)"
proof -
  have "nat CHORUS_L = 2083" by (simp add: CHORUS_L_def)
  then show ?thesis
    using assms by (simp add: alloc_chorus_vars_def chorus_ok_def line_ok_def table_ok_def CHORUS_L_def)
qed

lemma alloc_delay_ok: "delay_ok (alloc_delay_vars d)"
proof -
  have "nat DELAY_L = 13020" by (simp add: DELAY_L_def Fs_def)
  then show ?thesis by (simp add: alloc_delay_vars_def delay_ok_def line_ok_def DELAY_L_def Fs_def)
qed

text \<open>The start values of the amount 0.9 give the constants that belong together.\<close>

lemma halve_to_sample_step:
  "sint k > 32767 \<Longrightarrow> halve_to_sample k sft = halve_to_sample (signed_drop_bit 1 k) (sft + 1)"
  "sint k \<le> 32767 \<Longrightarrow> halve_to_sample k sft = (k, sft)"
  by (simp_all add: halve_to_sample.simps [of k] ONE_16b_def)

lemma alloc_distortion_set:
  "\<exists>d'. alloc_distortion_vars 589823 622591 d = Some d' \<and> distortion_ok d' \<and> dist_k d' = 18431"
proof -
  have s: "signed_drop_bit 1 (589823 :: u32) = 294911" "signed_drop_bit 1 (294911 :: u32) = 147455"
    "signed_drop_bit 1 (147455 :: u32) = 73727" "signed_drop_bit 1 (73727 :: u32) = 36863" "signed_drop_bit 1 (36863 :: u32) = 18431"
    using shift_word_of_int [of 589823 1] shift_word_of_int [of 294911 1] shift_word_of_int [of 147455 1]
      shift_word_of_int [of 73727 1] shift_word_of_int [of 36863 1]
    by simp_all
  have "halve_to_sample 589823 0 = (18431, 5)" by (simp add: halve_to_sample_step s)
  moreover have "c_shr 622591 5 = Some 19455" using shift_word_of_int [of 622591 5] by (simp add: c_shr_def)
  ultimately show ?thesis by (simp add: alloc_distortion_vars_def distortion_ok_def)
qed

text \<open>
  The wah-wah is proper only when its pointer happened to be one; it sets the pointer of the modulation
  to 2 instead. With a negative pointer the first sample is stored in front of the buffer.
\<close>

lemma alloc_wahwah_ok:
  assumes "length bs = 31249" "length as = 31249" "length (wah_x_buf w) = 3" "length (wah_y_buf w) = 3" "wah_pnt w \<in> {0, 1, 2}"
  shows "wahwah_ok (alloc_wahwah_vars bs as w)"
  using assms by (simp add: alloc_wahwah_vars_def wahwah_ok_def table_ok_def split: prod.split)

lemma alloc_wahwah_pnt: "wah_pnt (alloc_wahwah_vars bs as w) = wah_pnt w"
  by (simp add: alloc_wahwah_vars_def split: prod.split)

lemma audio_wahwah_bad_pointer:
  assumes "wah_pnt w = word_of_int (- 5)"
  shows "audio_wahwah w x = None"
proof -
  have "sint (c_rem (wah_pnt w + 1) 3) = - 1" by (simp add: assms c_rem_def signed_modulo_int_def)
  then have "arr_wr (wah_x_buf w) (c_rem (wah_pnt w + 1) 3) x = None" by (simp add: arr_wr_def)
  then show ?thesis by (simp add: audio_wahwah_def Let_def bind_eq_None_conv)
qed

end
