(* ===== verification/Audio_Device.thy ===== *)
theory Audio_Device
  imports Audio_DSP
begin

text \<open>
  The registers of the audio interface (libaudio/audio.h) and the functions that use them
  (libaudio/audio.c): the control bus of the codec, the sizes of the sample buffers, and the transfer of
  samples from the converter and to it. The interface is an object that answers register accesses and
  may change with each. The messages printed on the console are left out.
\<close>

section \<open>Registers\<close>

codatatype codec = Codec (codec_rd: "u32 \<Rightarrow> u32 \<times> codec") (codec_wr: "u32 \<Rightarrow> u32 \<Rightarrow> codec")

text \<open>The addresses, from the base of the device.\<close>

definition DACL_ADDR :: u32 where "DACL_ADDR = 0x0000"
definition DACR_ADDR :: u32 where "DACR_ADDR = 0x0010"
definition DACBUFS_ADDR :: u32 where "DACBUFS_ADDR = 0x0040"
definition DACBUFWP_ADDR :: u32 where "DACBUFWP_ADDR = 0x0050"
definition DACBUFFU_ADDR :: u32 where "DACBUFFU_ADDR = 0x0060"
definition ADCL_ADDR :: u32 where "ADCL_ADDR = 0x0080"
definition ADCR_ADDR :: u32 where "ADCR_ADDR = 0x0090"
definition ADCBUFS_ADDR :: u32 where "ADCBUFS_ADDR = 0x00B0"
definition ADCBUFRP_ADDR :: u32 where "ADCBUFRP_ADDR = 0x00C0"
definition ADCBUFEM_ADDR :: u32 where "ADCBUFEM_ADDR = 0x00D0"
definition I2CDATA_ADDR :: u32 where "I2CDATA_ADDR = 0x00E0"
definition I2CADDR_ADDR :: u32 where "I2CADDR_ADDR = 0x00F0"
definition I2CACK_ADDR :: u32 where "I2CACK_ADDR = 0x0100"
definition I2CREQ_ADDR :: u32 where "I2CREQ_ADDR = 0x0110"

text \<open>Polling a register until its value is the one waited for.\<close>

definition codec_wait :: "u32 \<Rightarrow> (u32 \<Rightarrow> bool) \<Rightarrow> codec \<Rightarrow> codec option" where
  "codec_wait a good d =
     map_option snd (loop_until (\<lambda>d. let (v, d) = codec_rd d a in Some (if good v then Some () else None, d)) d)"

section \<open>The control bus\<close>

text \<open>A string of binary digits, of which everything but a 1 counts as 0.\<close>

definition binary_string :: "nat \<Rightarrow> string \<Rightarrow> u32" where
  "binary_string n cs = for_loop 0 n (\<lambda>i v. if cs ! i = CHR ''1'' then v * 2 + 1 else v * 2) 0"

definition i2c_transfer :: "u32 \<Rightarrow> u32 \<Rightarrow> codec \<Rightarrow> codec option" where
  "i2c_transfer addr val d = do {
     let d = codec_wr d I2CDATA_ADDR val;
     let d = codec_wr d I2CADDR_ADDR addr;
     let d = codec_wr d I2CREQ_ADDR 1;
     d \<leftarrow> codec_wait I2CACK_ADDR (\<lambda>v. v \<noteq> 0) d;
     Some (for_loop 0 200 (\<lambda>_ d. codec_wr d I2CREQ_ADDR 0) d) }"

definition writeToI2C :: "string \<Rightarrow> string \<Rightarrow> codec \<Rightarrow> (int \<times> codec) option" where
  "writeToI2C addrC dataC d = do {
     d \<leftarrow> i2c_transfer (binary_string 7 addrC) (binary_string 9 dataC) d;
     Some (0, d) }"

definition audio_setup :: "int \<Rightarrow> codec \<Rightarrow> codec option" where
  "audio_setup guitar d = do {
     (_, d) \<leftarrow> writeToI2C ''0000010'' ''001111001'' d;
     (_, d) \<leftarrow> writeToI2C ''0000011'' ''001111001'' d;
     (_, d) \<leftarrow> writeToI2C ''0000100'' (if guitar = 0 then ''000010010'' else ''000010101'') d;
     (_, d) \<leftarrow> writeToI2C ''0000101'' ''000000001'' d;
     (_, d) \<leftarrow> writeToI2C ''0000111'' ''000010011'' d;
     (_, d) \<leftarrow> writeToI2C ''0001000'' ''000000000'' d;
     Some d }"

definition changeVolume :: "int \<Rightarrow> codec \<Rightarrow> (int \<times> codec) option" where
  "changeVolume vol d =
     (if vol < -73 \<or> vol > 6 then Some (-1, d)
      else do {
        d \<leftarrow> i2c_transfer 2 (word_of_int (vol + 121)) d;
        d \<leftarrow> i2c_transfer 3 (word_of_int (vol + 121)) d;
        Some (0, d) })"

section \<open>Buffer sizes\<close>

function halve :: "u32 \<Rightarrow> u32" where
  "halve x = (if x mod 2 = 0 \<and> x > 1 then halve (x div 2) else x)"
  by auto

lemma unat_half: "unat (x div 2 :: u32) = unat x div 2"
  by (simp add: unat_div)

termination halve
  by (relation "measure unat") (auto simp: unat_half word_less_nat_alt)

declare halve.simps [simp del]

definition isPowerOfTwo :: "u32 \<Rightarrow> bool" where
  "isPowerOfTwo x = (halve x = 1)"

definition setInputBufferSize :: "u32 \<Rightarrow> codec \<Rightarrow> int \<times> codec" where
  "setInputBufferSize bufferSize d =
     (if isPowerOfTwo bufferSize then (0, codec_wr d ADCBUFS_ADDR bufferSize) else (1, d))"

definition setOutputBufferSize :: "u32 \<Rightarrow> codec \<Rightarrow> int \<times> codec" where
  "setOutputBufferSize bufferSize d =
     (if isPowerOfTwo bufferSize then (0, codec_wr d DACBUFS_ADDR bufferSize) else (1, d))"

section \<open>Samples\<close>

definition getInputBufferSPM :: "codec \<Rightarrow> (stereo \<times> codec) option" where
  "getInputBufferSPM d = do {
     d \<leftarrow> codec_wait ADCBUFEM_ADDR (\<lambda>v. v \<noteq> 1) d;
     let d = codec_wr d ADCBUFRP_ADDR 1;
     let d = codec_wr d ADCBUFRP_ADDR 0;
     let (l, d) = codec_rd d ADCL_ADDR;
     let (r, d) = codec_rd d ADCR_ADDR;
     Some ((ucast l, ucast r), d) }"

definition setOutputBufferSPM :: "stereo \<Rightarrow> codec \<Rightarrow> codec option" where
  "setOutputBufferSPM x d = do {
     let d = codec_wr d DACL_ADDR (scast (fst x));
     let d = codec_wr d DACR_ADDR (scast (snd x));
     d \<leftarrow> codec_wait DACBUFFU_ADDR (\<lambda>v. v \<noteq> 1) d;
     let d = codec_wr d DACBUFWP_ADDR 1;
     Some (codec_wr d DACBUFWP_ADDR 0) }"

section \<open>Powers of two\<close>

lemma unat_two_power: "n < 32 \<Longrightarrow> unat (2 ^ n :: u32) = 2 ^ n"
  using unat_of_nat_word [of "2 ^ n", where 'a = 32] power_strict_increasing [of n 32 "2 :: nat"] by simp

lemma halve_power: "n < 32 \<Longrightarrow> halve (2 ^ n) = 1"
proof (induction n)
  case 0
  then show ?case by (simp add: halve.simps [of 1])
next
  case (Suc n)
  have u: "unat (2 ^ Suc n :: u32) = 2 ^ Suc n" using Suc.prems by (simp add: unat_two_power del: power_Suc)
  have v: "unat (2 ^ n :: u32) = 2 ^ n" using Suc.prems by (simp add: unat_two_power)
  have "2 ^ Suc n div 2 = (2 ^ n :: u32)" by (rule word_unat_eq_iff [THEN iffD2]) (simp only: unat_half u v, simp)
  moreover have "2 ^ Suc n mod 2 = (0 :: u32)" by (rule word_unat_eq_iff [THEN iffD2]) (simp only: unat_mod u, simp)
  moreover have "2 ^ Suc n > (1 :: u32)"
  proof -
    have "(1 :: nat) \<le> 2 ^ n" by simp
    then have "(1 :: nat) < 2 ^ Suc n" unfolding power_Suc by linarith
    then show ?thesis unfolding word_less_nat_alt u by simp
  qed
  ultimately show ?case using Suc by (subst halve.simps) (simp del: power_Suc)
qed

lemma halve_one: "halve x = 1 \<Longrightarrow> \<exists>n < 32. x = 2 ^ n"
proof (induction x rule: halve.induct)
  case (1 x)
  show ?case
  proof (cases "x mod 2 = 0 \<and> x > 1")
    case True
    then have "halve (x div 2) = 1" using "1.prems" by (simp add: halve.simps [of x])
    with "1.IH" True obtain n where n: "n < 32" "x div 2 = 2 ^ n" by blast
    have "unat x mod 2 = 0" using True unat_mod [of x 2] by simp
    then have "unat x = 2 * unat (x div 2)" using mult_div_mod_eq [of 2 "unat x"] by (simp only: unat_half)
    also have "unat (x div 2) = 2 ^ n" using n by (simp add: unat_two_power)
    finally have x: "unat x = 2 ^ Suc n" by simp
    have "unat x < 2 ^ 32" by (rule order.strict_trans2 [OF unsigned_less]) simp
    then have "(2 :: nat) ^ Suc n < 2 ^ 32" by (simp only: x)
    then have "Suc n < 32" by (rule power_less_imp_less_exp [rotated]) simp
    moreover from this have "x = 2 ^ Suc n" by (intro word_unat_eq_iff [THEN iffD2]) (simp add: x unat_two_power del: power_Suc)
    ultimately show ?thesis by blast
  next
    case False
    then have "x = 1" using "1.prems" by (simp add: halve.simps [of x] split: if_splits)
    then show ?thesis by (intro exI [of _ 0]) simp
  qed
qed

lemma isPowerOfTwo_iff: "isPowerOfTwo x \<longleftrightarrow> (\<exists>n < 32. x = 2 ^ n)"
  using halve_power halve_one by (auto simp: isPowerOfTwo_def)

section \<open>A model of the interface\<close>

text \<open>
  The interface as its hardware description has it, at the level of register accesses
  (io/AudioADCBuffer.scala, AudioDACBuffer.scala): the two buffers are queues, a read or write pulse
  moves one stereo sample, and the buffers say whether they are empty or full. How often the program
  finds the input empty before a sample arrives, and the output full before there is room, are numbers
  of the model. A request on the control bus is acknowledged at once and noted.
\<close>

record codec_model =
  adc_queue :: "(nat \<times> stereo) list"
  adc_regs :: stereo
  adc_reading :: bool
  dac_waits :: "nat list"
  dac_regs :: stereo
  dac_writing :: bool
  dac_queue :: "stereo list"
  bus_regs :: "u32 \<times> u32"
  bus_log :: "(u32 \<times> u32) list"

definition model_codec_rd :: "u32 \<Rightarrow> codec_model \<Rightarrow> u32 \<times> codec_model" where
  "model_codec_rd a m =
     (if a = ADCBUFEM_ADDR
      then (case adc_queue m of
              [] \<Rightarrow> (1, m) | (0, x) # q \<Rightarrow> (0, m) | (Suc n, x) # q \<Rightarrow> (1, m\<lparr>adc_queue := (n, x) # q\<rparr>))
      else if a = DACBUFFU_ADDR
      then (case dac_waits m of
              [] \<Rightarrow> (0, m) | 0 # q \<Rightarrow> (0, m) | Suc n # q \<Rightarrow> (1, m\<lparr>dac_waits := n # q\<rparr>))
      else if a = ADCL_ADDR then (ucast (fst (adc_regs m)), m)
      else if a = ADCR_ADDR then (ucast (snd (adc_regs m)), m)
      else if a = I2CACK_ADDR then (1, m) else (0, m))"

definition model_codec_wr :: "u32 \<Rightarrow> u32 \<Rightarrow> codec_model \<Rightarrow> codec_model" where
  "model_codec_wr a v m =
     (if a = DACL_ADDR then m\<lparr>dac_regs := (ucast v, snd (dac_regs m))\<rparr>
      else if a = DACR_ADDR then m\<lparr>dac_regs := (fst (dac_regs m), ucast v)\<rparr>
      else if a = ADCBUFRP_ADDR
      then (if v = 1 \<and> \<not> adc_reading m
            then (case adc_queue m of [] \<Rightarrow> m | (_, x) # q \<Rightarrow> m\<lparr>adc_regs := x, adc_reading := True\<rparr>)
            else if v = 0 \<and> adc_reading m then m\<lparr>adc_queue := tl (adc_queue m), adc_reading := False\<rparr> else m)
      else if a = DACBUFWP_ADDR
      then (if v = 1 \<and> \<not> dac_writing m then m\<lparr>dac_queue := dac_queue m @ [dac_regs m], dac_writing := True\<rparr>
            else if v = 0 \<and> dac_writing m then m\<lparr>dac_waits := tl (dac_waits m), dac_writing := False\<rparr> else m)
      else if a = I2CDATA_ADDR then m\<lparr>bus_regs := (fst (bus_regs m), v)\<rparr>
      else if a = I2CADDR_ADDR then m\<lparr>bus_regs := (v, snd (bus_regs m))\<rparr>
      else if a = I2CREQ_ADDR then (if v = 1 then m\<lparr>bus_log := bus_log m @ [bus_regs m]\<rparr> else m)
      else m)"

primcorec make_codec :: "codec_model \<Rightarrow> codec" where
  "make_codec m = Codec (\<lambda>a. (fst (model_codec_rd a m), make_codec (snd (model_codec_rd a m)))) (\<lambda>a v. make_codec (model_codec_wr a v m))"

lemmas codec_addrs = DACL_ADDR_def DACR_ADDR_def DACBUFS_ADDR_def DACBUFWP_ADDR_def DACBUFFU_ADDR_def ADCL_ADDR_def
  ADCR_ADDR_def ADCBUFS_ADDR_def ADCBUFRP_ADDR_def ADCBUFEM_ADDR_def I2CDATA_ADDR_def I2CADDR_ADDR_def I2CACK_ADDR_def I2CREQ_ADDR_def

lemma codec_wait_step:
  "codec_wait a good d = (let (v, d') = codec_rd d a in if good v then Some d' else codec_wait a good d')"
  by (simp add: codec_wait_def loop_until.simps [of _ d] Let_def split: prod.split)

lemma model_wait_input:
  "adc_queue m = (n, x) # q \<Longrightarrow> codec_wait ADCBUFEM_ADDR (\<lambda>v. v \<noteq> 1) (make_codec m) = Some (make_codec (m\<lparr>adc_queue := (0, x) # q\<rparr>))"
proof (induction n arbitrary: m)
  case 0
  then have same: "m\<lparr>adc_queue := (0, x) # q\<rparr> = m" by (cases m) simp
  from 0 show ?case by (subst codec_wait_step) (simp add: model_codec_rd_def same)
next
  case (Suc n)
  from Suc.IH [of "m\<lparr>adc_queue := (n, x) # q\<rparr>"] Suc.prems show ?case
    by (subst codec_wait_step) (simp add: model_codec_rd_def)
qed

lemma model_wait_output:
  "codec_wait DACBUFFU_ADDR (\<lambda>v. v \<noteq> 1) (make_codec m) = Some (make_codec (m\<lparr>dac_waits := (case dac_waits m of [] \<Rightarrow> [] | n # q \<Rightarrow> 0 # q)\<rparr>))"
proof (cases "dac_waits m")
  case Nil
  then have same: "m\<lparr>dac_waits := []\<rparr> = m" by (cases m) simp
  from Nil show ?thesis by (subst codec_wait_step) (simp add: model_codec_rd_def codec_addrs same)
next
  case (Cons n q)
  have "dac_waits m = n # q \<Longrightarrow> codec_wait DACBUFFU_ADDR (\<lambda>v. v \<noteq> 1) (make_codec m) = Some (make_codec (m\<lparr>dac_waits := 0 # q\<rparr>))"
  proof (induction n arbitrary: m)
    case 0
    then have same: "m\<lparr>dac_waits := 0 # q\<rparr> = m" by (cases m) simp
    from 0 show ?case by (subst codec_wait_step) (simp add: model_codec_rd_def codec_addrs same)
  next
    case (Suc n)
    from Suc.IH [of "m\<lparr>dac_waits := n # q\<rparr>"] Suc.prems show ?case
      by (subst codec_wait_step) (simp add: model_codec_rd_def codec_addrs)
  qed
  with Cons show ?thesis by simp
qed

lemma ucast_sample_back: "(ucast (ucast (h :: u16) :: u32) :: u16) = h" "(ucast (scast (h :: u16) :: u32) :: u16) = h"
  by (rule bit_word_eqI, simp add: bit_simps)+

text \<open>Reading takes the sample that arrived first, writing appends one.\<close>

lemma getInputBufferSPM_model:
  assumes "adc_queue m = (n, x) # q" "\<not> adc_reading m"
  shows "getInputBufferSPM (make_codec m) = Some (x, make_codec (m\<lparr>adc_queue := q, adc_regs := x, adc_reading := False\<rparr>))"
  using assms by (cases m) (simp add: getInputBufferSPM_def model_wait_input [unfolded codec_addrs] model_codec_wr_def model_codec_rd_def codec_addrs ucast_sample_back)

lemma setOutputBufferSPM_model:
  assumes "\<not> dac_writing m"
  shows "setOutputBufferSPM x (make_codec m) =
    Some (make_codec (m\<lparr>dac_regs := x, dac_waits := tl (dac_waits m), dac_queue := dac_queue m @ [x], dac_writing := False\<rparr>))"
  using assms by (cases m) (auto simp: setOutputBufferSPM_def model_wait_output [unfolded codec_addrs] model_codec_wr_def codec_addrs ucast_sample_back split: list.split)

text \<open>A transfer on the control bus.\<close>

lemma bus_release: "for_loop 0 n (\<lambda>_ d. codec_wr d I2CREQ_ADDR 0) (make_codec m) = make_codec m"
  by (induction n) (simp_all add: for_loop_zero for_loop_Suc model_codec_wr_def codec_addrs)

lemma i2c_transfer_model:
  "i2c_transfer addr v (make_codec m) = Some (make_codec (m\<lparr>bus_regs := (addr, v), bus_log := bus_log m @ [(addr, v)]\<rparr>))"
proof -
  have "codec_wait I2CACK_ADDR (\<lambda>v. v \<noteq> 0) (make_codec m) = Some (make_codec m)" for m
    by (subst codec_wait_step) (simp add: model_codec_rd_def codec_addrs)
  then show ?thesis
    by (cases m) (simp add: i2c_transfer_def bus_release [unfolded codec_addrs] model_codec_wr_def codec_addrs)
qed

lemma changeVolume_model:
  "changeVolume vol (make_codec m) =
     (if vol < -73 \<or> vol > 6 then Some (-1, make_codec m)
      else Some (0, make_codec (m\<lparr>bus_regs := (3, word_of_int (vol + 121)),
        bus_log := bus_log m @ [(2, word_of_int (vol + 121)), (3, word_of_int (vol + 121))]\<rparr>)))"
  by (cases m) (simp add: changeVolume_def i2c_transfer_model)

end
