(* ===== verification/Audio_Node.thy ===== *)
theory Audio_Node
  imports Audio_Setup Audio_Device Mp_Queue
begin

text \<open>
  The effects as nodes of a signal graph (libaudio/audio.c): the allocation of a node, its connection to
  another node of the core or to a channel, and one round of its work, which receives, processes and
  sends a block of samples. The samples lie in the communication memory of the core, a stereo sample in
  one word with the left channel in the upper half; the scalars the code keeps there are fields of the
  node. A port stands for the pointers to it, so the place of a block that comes from or goes to a
  channel is a buffer of the port. The messages on the console are left out.
\<close>

section \<open>Nodes\<close>

datatype con_t = FIRST | LAST | NOC | SAME
datatype pt_t = XeY | XgY | XlY
datatype fx_t = DRY | DRY_8S | DELAY | OVERDRIVE | WAHWAH | CHORUS | DISTORTION | HP | LP | BP | BR | VIBRATO | TREMOLO

datatype effect_state =
    No_State | Delay_State IIRdelay | Overdrive_State Overdrive | WahWah_State WahWah | Chorus_State Chorus
  | Distortion_State Distortion | Filter_State Filter | Vibrato_State Vibrato | Tremolo_State Tremolo

record AudioFX =
  fx_id :: int
  cpuid :: u32
  in_con :: con_t
  out_con :: con_t
  send_am :: u32
  recv_am :: u32
  x_pnt :: u32
  y_pnt :: "u32 option"
  recvChanP :: "qpd_t option list"
  sendChanP :: "qpd_t option list"
  pt :: pt_t
  node_s :: u32
  Nr :: u32
  Ns :: u32
  Nf :: u32
  xb_size :: u32
  yb_size :: u32
  node_fx :: fx_t
  fx_pnt :: effect_state
  last_init :: bool
  last_count :: u32
  latency :: u32

text \<open>The structures of the effects as they are set up, with the numbers from floating point.\<close>

datatype fx_numbers =
    No_Numbers | Coefficients "u16 list" "u16 list" u32 | Sine_Fraction "u32 list" "u16 list"
  | Wah_Tables "(u16 \<times> u16 \<times> u16) list" "(u16 \<times> u16) list" | Two_Tables "u32 list" "u32 list" | Start_Values u32 u32

definition alloc_fx :: "fx_t \<Rightarrow> fx_numbers \<Rightarrow> effect_state \<Rightarrow> effect_state option" where
  "alloc_fx fx n m =
     (let filter_vars = (\<lambda>type. case (n, m) of
            (Coefficients B A sft, Filter_State f) \<Rightarrow> Some (Filter_State (alloc_filter_vars type (B, A, sft) f)) | _ \<Rightarrow> None)
      in case fx of
        DELAY \<Rightarrow> (case m of Delay_State d \<Rightarrow> Some (Delay_State (alloc_delay_vars d)) | _ \<Rightarrow> None)
      | OVERDRIVE \<Rightarrow> (case m of Overdrive_State d \<Rightarrow> Some (Overdrive_State (alloc_overdrive_vars d)) | _ \<Rightarrow> None)
      | WAHWAH \<Rightarrow> (case (n, m) of
          (Wah_Tables bs as, WahWah_State w) \<Rightarrow> Some (WahWah_State (alloc_wahwah_vars bs as w)) | _ \<Rightarrow> None)
      | CHORUS \<Rightarrow> (case (n, m) of
          (Two_Tables m1 m2, Chorus_State c) \<Rightarrow> Some (Chorus_State (alloc_chorus_vars m1 m2 c)) | _ \<Rightarrow> None)
      | DISTORTION \<Rightarrow> (case (n, m) of
          (Start_Values k k1, Distortion_State d) \<Rightarrow> map_option Distortion_State (alloc_distortion_vars k k1 d) | _ \<Rightarrow> None)
      | HP \<Rightarrow> filter_vars 1
      | LP \<Rightarrow> filter_vars 0
      | BP \<Rightarrow> filter_vars 2
      | BR \<Rightarrow> filter_vars 3
      | VIBRATO \<Rightarrow> (case (n, m) of
          (Sine_Fraction sins fracs, Vibrato_State v) \<Rightarrow> Some (Vibrato_State (alloc_vibrato_vars sins fracs v)) | _ \<Rightarrow> None)
      | TREMOLO \<Rightarrow> (case (n, m) of
          (Sine_Fraction sins fracs, Tremolo_State t) \<Rightarrow> Some (Tremolo_State (alloc_tremolo_vars sins fracs t)) | _ \<Rightarrow> None)
      | DRY \<Rightarrow> Some No_State
      | DRY_8S \<Rightarrow> Some No_State)"

text \<open>The bytes of the structures, with pointers and integers of four bytes.\<close>

fun fx_size :: "fx_t \<Rightarrow> u32" where
  "fx_size DELAY = 28"
| "fx_size OVERDRIVE = 8"
| "fx_size WAHWAH = 72"
| "fx_size CHORUS = 52"
| "fx_size DISTORTION = 20"
| "fx_size HP = 56"
| "fx_size LP = 56"
| "fx_size BP = 56"
| "fx_size BR = 56"
| "fx_size VIBRATO = 44"
| "fx_size TREMOLO = 24"
| "fx_size DRY = 0"
| "fx_size DRY_8S = 0"

section \<open>Allocation\<close>

definition alloc_space :: "u32 \<Rightarrow> u32 \<Rightarrow> mp_core \<Rightarrow> int \<times> mp_core" where
  "alloc_space BASE_ADDR LAST_ADDR c =
     (let (allocret, c) = mp_alloc (LAST_ADDR - BASE_ADDR) c in (if allocret = 0 then 1 else 0, c))"

text \<open>The kind of processing, and how often a round receives, sends and fires.\<close>

definition processing_type :: "u32 \<Rightarrow> u32 \<Rightarrow> pt_t" where
  "processing_type xb yb = (if xb = yb then XeY else if xb > yb then XgY else XlY)"

definition c_udiv :: "u32 \<Rightarrow> u32 \<Rightarrow> u32 option" where
  "c_udiv a b = (if b = 0 then None else Some (a div b))"

definition rates :: "u32 \<Rightarrow> u32 \<Rightarrow> u32 \<Rightarrow> (u32 \<times> u32 \<times> u32) option" where
  "rates xb yb s =
     (case processing_type xb yb of
        XeY \<Rightarrow> do { nf \<leftarrow> c_udiv xb s; Some (1, 1, nf) }
      | XgY \<Rightarrow> do { ns \<leftarrow> c_udiv xb yb; nf \<leftarrow> c_udiv yb s; Some (1, ns, nf) }
      | XlY \<Rightarrow> do { nr \<leftarrow> c_udiv yb xb; nf \<leftarrow> c_udiv xb s; Some (nr, 1, nf) })"

text \<open>
  The addresses in the order of the fields; an input from a channel has no buffer but pointers to ports.
  There is at least one input and one output, as the caller ensures.
\<close>

definition in_end :: "u32 \<Rightarrow> con_t \<Rightarrow> u32 \<Rightarrow> u32 \<Rightarrow> u32" where
  "in_end ADDR_X in_c RECV_AM IN_SIZE =
     (if in_c = SAME \<or> in_c = FIRST then ADDR_X + IN_SIZE * 2 * 2 else ADDR_X + 4 * RECV_AM)"

definition out_end :: "u32 \<Rightarrow> con_t \<Rightarrow> u32 \<Rightarrow> u32 \<Rightarrow> u32" where
  "out_end ADDR_Y out_c SEND_AM OUT_SIZE =
     (if out_c = LAST then ADDR_Y + OUT_SIZE * 2 * 2 + 4 + 4 + 4 else if out_c = NOC then ADDR_Y + 4 * SEND_AM else ADDR_Y)"

definition alloc_audio_vars ::
  "int \<Rightarrow> fx_t \<Rightarrow> con_t \<Rightarrow> con_t \<Rightarrow> u32 \<Rightarrow> u32 \<Rightarrow> u32 \<Rightarrow> u32 \<Rightarrow> u32 \<Rightarrow> u32 \<Rightarrow> fx_numbers \<Rightarrow> effect_state \<Rightarrow> mp_core \<Rightarrow>
     (int \<times> AudioFX \<times> mp_core) option" where
  "alloc_audio_vars FX_ID FX_TYPE in_c out_c RECV_AM SEND_AM IN_SIZE OUT_SIZE S_AMOUNT LAT numbers mem c = do {
     let (BASE_ADDR, c) = mp_alloc 0 c;
     let ADDR_X_PNT = BASE_ADDR + 4 + 4 + 4;
     let ADDR_X = ADDR_X_PNT + 4 * RECV_AM + 4 + 4;
     let ADDR_OUT_CON = in_end ADDR_X in_c RECV_AM IN_SIZE;
     let ADDR_Y = ADDR_OUT_CON + 4 + 4 * SEND_AM + 4 + 4;
     let ADDR_PT = out_end ADDR_Y out_c SEND_AM OUT_SIZE;
     (nr, ns, nf) \<leftarrow> rates IN_SIZE OUT_SIZE S_AMOUNT;
     let ADDR_FX = ADDR_PT + 4 * 5;
     let ADDR_STRUCT = ADDR_FX + 4 + 4;
     st \<leftarrow> alloc_fx FX_TYPE numbers mem;
     let (retval, c) = alloc_space BASE_ADDR (ADDR_STRUCT + fx_size FX_TYPE) c;
     Some (retval,
       \<lparr>fx_id = FX_ID, cpuid = core_id (noc c), in_con = in_c, out_con = out_c, send_am = SEND_AM, recv_am = RECV_AM,
        x_pnt = ADDR_X, y_pnt = (if out_c = LAST then Some ADDR_Y else None),
        recvChanP = replicate (unat RECV_AM) None, sendChanP = replicate (unat SEND_AM) None,
        pt = processing_type IN_SIZE OUT_SIZE, node_s = S_AMOUNT, Nr = nr, Ns = ns, Nf = nf,
        xb_size = IN_SIZE, yb_size = OUT_SIZE, node_fx = FX_TYPE, fx_pnt = st,
        last_init = (LAT \<noteq> 0), last_count = 0, latency = LAT\<rparr>, c) }"

section \<open>Connections\<close>

definition audio_connect_same_core :: "AudioFX \<Rightarrow> AudioFX \<Rightarrow> int \<times> AudioFX" where
  "audio_connect_same_core src dst =
     (if out_con src \<noteq> SAME \<or> in_con dst \<noteq> SAME then (1, src)
      else if yb_size src \<noteq> xb_size dst then (1, src)
      else (0, src\<lparr>y_pnt := Some (x_pnt dst)\<rparr>))"

definition CHAN_BUF_AMOUNT :: "u32 list" where "CHAN_BUF_AMOUNT = [3, 1, 3, 3, 1, 3]"

definition audio_connect_to_core ::
  "AudioFX \<Rightarrow> nat \<Rightarrow> nat \<Rightarrow> mp_core \<Rightarrow> (nat \<Rightarrow> chan_info_t) \<Rightarrow> (int \<times> AudioFX \<times> mp_core \<times> (nat \<Rightarrow> chan_info_t)) option" where
  "audio_connect_to_core src sendChanID s_ind c chans =
     (if out_con src \<noteq> NOC then Some (1, src, c, chans)
      else if sendChanID \<ge> length CHAN_BUF_AMOUNT then None
      else let (thisPort, c, chans) = mp_create_qport sendChanID SOURCE (yb_size src * 4) (CHAN_BUF_AMOUNT ! sendChanID) c chans in
        if thisPort = None then Some (1, src, c, chans)
        else do { ports \<leftarrow> array_store (sendChanP src) s_ind thisPort; Some (0, src\<lparr>sendChanP := ports\<rparr>, c, chans) })"

definition audio_connect_from_core ::
  "nat \<Rightarrow> AudioFX \<Rightarrow> nat \<Rightarrow> mp_core \<Rightarrow> (nat \<Rightarrow> chan_info_t) \<Rightarrow> (int \<times> AudioFX \<times> mp_core \<times> (nat \<Rightarrow> chan_info_t)) option" where
  "audio_connect_from_core recvChanID dst r_ind c chans =
     (if in_con dst \<noteq> NOC then Some (1, dst, c, chans)
      else if recvChanID \<ge> length CHAN_BUF_AMOUNT then None
      else let (thisPort, c, chans) = mp_create_qport recvChanID SINK (xb_size dst * 4) (CHAN_BUF_AMOUNT ! recvChanID) c chans in
        if thisPort = None then Some (1, dst, c, chans)
        else do { ports \<leftarrow> array_store (recvChanP dst) r_ind thisPort; Some (0, dst\<lparr>recvChanP := ports\<rparr>, c, chans) })"

section \<open>Samples in memory\<close>

definition load_sample :: "noc_core \<Rightarrow> u32 \<Rightarrow> stereo" where
  "load_sample c a = (ucast (drop_bit 16 (spm_rd c a)), ucast (spm_rd c a))"

definition store_sample :: "u32 \<Rightarrow> stereo \<Rightarrow> noc_core \<Rightarrow> noc_core" where
  "store_sample a x c = spm_wr a (push_bit 16 (ucast (fst x)) OR ucast (snd x)) c"

definition audioIn :: "AudioFX \<Rightarrow> u32 \<Rightarrow> noc_core \<times> codec \<Rightarrow> (noc_core \<times> codec) option" where
  "audioIn a xP s = for_loop 0 (unat (xb_size a)) (\<lambda>i r. do {
     (c, d) \<leftarrow> r;
     (x, d) \<leftarrow> getInputBufferSPM d;
     Some (store_sample (xP + 4 * of_nat i) x c, d) }) (Some s)"

definition audioOut :: "AudioFX \<Rightarrow> u32 \<Rightarrow> noc_core \<times> codec \<Rightarrow> (noc_core \<times> codec) option" where
  "audioOut a yP s = for_loop 0 (unat (yb_size a)) (\<lambda>i r. do {
     (c, d) \<leftarrow> r;
     d \<leftarrow> setOutputBufferSPM (load_sample c (yP + 4 * of_nat i)) d;
     Some (c, d) }) (Some s)"

definition audio_dry_8samples :: "u32 \<Rightarrow> u32 \<Rightarrow> noc_core \<Rightarrow> noc_core" where
  "audio_dry_8samples xP yP c = for_loop 0 8 (\<lambda>i c. store_sample (yP + 4 * of_nat i) (load_sample c (xP + 4 * of_nat i)) c) c"

section \<open>Processing a block\<close>

text \<open>One step of an effect on a sample. The structure has to be the one of the effect.\<close>

definition step_on :: "('s \<Rightarrow> effect_state) \<Rightarrow> ('s \<Rightarrow> stereo \<Rightarrow> ('s \<times> stereo) option) \<Rightarrow> 's \<Rightarrow> stereo \<Rightarrow> (effect_state \<times> stereo) option" where
  "step_on wrap fx s x = map_option (map_prod wrap id) (fx s x)"

definition fx_step :: "fx_t \<Rightarrow> effect_state \<Rightarrow> stereo \<Rightarrow> (effect_state \<times> stereo) option" where
  "fx_step fx st x =
     (let filter = (case st of Filter_State f \<Rightarrow> step_on Filter_State audio_filter f x | _ \<Rightarrow> None)
      in case fx of
        DRY \<Rightarrow> Some (st, audio_dry x)
      | DRY_8S \<Rightarrow> None
      | DELAY \<Rightarrow> (case st of Delay_State d \<Rightarrow> step_on Delay_State audio_delay d x | _ \<Rightarrow> None)
      | OVERDRIVE \<Rightarrow> (case st of Overdrive_State d \<Rightarrow> step_on Overdrive_State (\<lambda>s x. Some (audio_overdrive s x)) d x | _ \<Rightarrow> None)
      | WAHWAH \<Rightarrow> (case st of WahWah_State w \<Rightarrow> step_on WahWah_State audio_wahwah w x | _ \<Rightarrow> None)
      | CHORUS \<Rightarrow> (case st of Chorus_State h \<Rightarrow> step_on Chorus_State audio_chorus h x | _ \<Rightarrow> None)
      | DISTORTION \<Rightarrow> (case st of Distortion_State d \<Rightarrow> step_on Distortion_State audio_distortion d x | _ \<Rightarrow> None)
      | HP \<Rightarrow> filter
      | LP \<Rightarrow> filter
      | BP \<Rightarrow> filter
      | BR \<Rightarrow> filter
      | VIBRATO \<Rightarrow> (case st of Vibrato_State v \<Rightarrow> step_on Vibrato_State audio_vibrato v x | _ \<Rightarrow> None)
      | TREMOLO \<Rightarrow> (case st of Tremolo_State t \<Rightarrow> step_on Tremolo_State audio_tremolo t x | _ \<Rightarrow> None))"

text \<open>One firing, on the samples at two addresses: only the eightfold copy takes more than one.\<close>

definition fire :: "fx_t \<Rightarrow> effect_state \<Rightarrow> u32 \<Rightarrow> u32 \<Rightarrow> noc_core \<Rightarrow> (effect_state \<times> noc_core) option" where
  "fire fx st xP yP c =
     (if fx = DRY_8S then Some (st, audio_dry_8samples xP yP c)
      else do { (st, y) \<leftarrow> fx_step fx st (load_sample c xP); Some (st, store_sample yP y c) })"

text \<open>The firings of a round. The index is a number of 16-bit values, so of two bytes each.\<close>

definition process_block :: "AudioFX \<Rightarrow> u32 \<Rightarrow> u32 \<Rightarrow> noc_core \<Rightarrow> (AudioFX \<times> noc_core) option" where
  "process_block a xP yP c = do {
     (st, c) \<leftarrow> for_loop 0 (unat (Nf a)) (\<lambda>i r. do {
       (st, c) \<leftarrow> r;
       let ind = 2 * of_nat i * node_s a;
       fire (node_fx a) st (xP + 2 * ind) (yP + 2 * ind) c }) (Some (fx_pnt a, c));
     Some (a\<lparr>fx_pnt := st\<rparr>, c) }"

section \<open>Receiving and sending\<close>

definition TIMEOUT :: u32 where "TIMEOUT = 10000"

definition port_at :: "qpd_t option list \<Rightarrow> nat \<Rightarrow> qpd_t option" where
  "port_at ps i = (if i < length ps then ps ! i else None)"

text \<open>A call on each of the first ports; a call that runs out of time makes the result 1.\<close>

definition each_port ::
  "(qpd_t \<times> noc_core \<Rightarrow> (bool \<times> qpd_t \<times> noc_core) option) \<Rightarrow> nat \<Rightarrow> int \<times> qpd_t option list \<times> noc_core \<Rightarrow>
     (int \<times> qpd_t option list \<times> noc_core) option" where
  "each_port call n s = for_loop 0 n (\<lambda>i r. do {
     (retval, ps, c) \<leftarrow> r;
     p \<leftarrow> port_at ps i;
     (ok, p, c) \<leftarrow> call (p, c);
     Some (if ok then retval else 1, ps[i := Some p], c) }) (Some s)"

text \<open>The signals of all inputs are added into the block of the first, each attenuated.\<close>

definition mix_sample :: "u32 \<Rightarrow> u16 \<Rightarrow> u16 \<Rightarrow> u16 option" where
  "mix_sample shift_am x xnxt = do {
     v \<leftarrow> c_shr (scast x) shift_am;
     w \<leftarrow> c_shr (scast xnxt) shift_am;
     Some (narrow (v + w)) }"

definition mix_inputs :: "AudioFX \<Rightarrow> noc_core \<Rightarrow> noc_core option" where
  "mix_inputs a c = for_loop 1 (unat (recv_am a)) (\<lambda>i r. do {
     c \<leftarrow> r;
     xP \<leftarrow> map_option read_buf (port_at (recvChanP a) 0);
     xnxtP \<leftarrow> map_option read_buf (port_at (recvChanP a) i);
     for_loop 0 (unat (xb_size a)) (\<lambda>j r. do {
       c \<leftarrow> r;
       let x = load_sample c (xP + 4 * of_nat j);
       let xnxt = load_sample c (xnxtP + 4 * of_nat j);
       v0 \<leftarrow> mix_sample (recv_am a - 1) (fst x) (fst xnxt);
       v1 \<leftarrow> mix_sample (recv_am a - 1) (snd x) (snd xnxt);
       Some (store_sample (xP + 4 * of_nat j) (v0, v1) c) }) (Some c) }) (Some c)"

definition copy_outputs :: "AudioFX \<Rightarrow> noc_core \<Rightarrow> noc_core option" where
  "copy_outputs a c = for_loop 1 (unat (send_am a)) (\<lambda>i r. do {
     c \<leftarrow> r;
     yP \<leftarrow> map_option write_buf (port_at (sendChanP a) 0);
     ynxtP \<leftarrow> map_option write_buf (port_at (sendChanP a) i);
     Some (for_loop 0 (unat (yb_size a)) (\<lambda>j c.
       store_sample (ynxtP + 4 * of_nat j) (load_sample c (yP + 4 * of_nat j)) c) c) }) (Some c)"

type_synonym port_clock = "qpd_t \<times> noc_core \<Rightarrow> u64"
type_synonym port_env = "qpd_t \<times> noc_core \<Rightarrow> qpd_t \<times> noc_core"

definition receive_block :: "port_clock \<Rightarrow> port_env \<Rightarrow> int \<times> AudioFX \<times> noc_core \<Rightarrow> (int \<times> AudioFX \<times> noc_core) option" where
  "receive_block clock env s = (let (retval, a, c) = s in
     if in_con a \<noteq> NOC then Some s
     else do {
       (retval, ps, c) \<leftarrow> each_port (mp_recv clock env TIMEOUT) (unat (recv_am a)) (retval, recvChanP a, c);
       let a = a\<lparr>recvChanP := ps\<rparr>;
       c \<leftarrow> mix_inputs a c;
       Some (retval, a, c) })"

definition ack_block :: "port_clock \<Rightarrow> port_env \<Rightarrow> int \<times> AudioFX \<times> noc_core \<Rightarrow> (int \<times> AudioFX \<times> noc_core) option" where
  "ack_block clock env s = (let (retval, a, c) = s in
     if in_con a \<noteq> NOC then Some s
     else do {
       (retval, ps, c) \<leftarrow> each_port (mp_ack clock env TIMEOUT) (unat (recv_am a)) (retval, recvChanP a, c);
       Some (retval, a\<lparr>recvChanP := ps\<rparr>, c) })"

definition send_block :: "port_clock \<Rightarrow> port_env \<Rightarrow> int \<times> AudioFX \<times> noc_core \<Rightarrow> (int \<times> AudioFX \<times> noc_core) option" where
  "send_block clock env s = (let (retval, a, c) = s in
     if out_con a \<noteq> NOC then Some s
     else do {
       c \<leftarrow> copy_outputs a c;
       (retval, ps, c) \<leftarrow> each_port (mp_send clock env TIMEOUT) (unat (send_am a)) (retval, sendChanP a, c);
       Some (retval, a\<lparr>sendChanP := ps\<rparr>, c) })"

text \<open>Where the samples come from and go to.\<close>

definition x_place :: "AudioFX \<Rightarrow> u32 option" where
  "x_place a = (if in_con a = NOC then map_option read_buf (port_at (recvChanP a) 0) else Some (x_pnt a))"

definition y_place :: "AudioFX \<Rightarrow> u32 option" where
  "y_place a = (if out_con a = NOC then map_option write_buf (port_at (sendChanP a) 0) else y_pnt a)"

section \<open>A round of a node\<close>

definition process_XeY ::
  "port_clock \<Rightarrow> port_env \<Rightarrow> AudioFX \<Rightarrow> noc_core \<Rightarrow> codec \<Rightarrow> (int \<times> AudioFX \<times> noc_core \<times> codec) option" where
  "process_XeY clock env a c d =
     (if cpuid a \<noteq> 0 \<or> out_con a = SAME \<or> out_con a = NOC \<or> \<not> last_init a
      then do {
        (retval, a, c) \<leftarrow> receive_block clock env (0, a, c);
        xP \<leftarrow> x_place a;
        yP \<leftarrow> y_place a;
        (c, d) \<leftarrow> (if cpuid a = 0 \<and> in_con a = FIRST then audioIn a xP (c, d) else Some (c, d));
        (a, c) \<leftarrow> process_block a xP yP c;
        (retval, a, c) \<leftarrow> ack_block clock env (retval, a, c);
        (retval, a, c) \<leftarrow> send_block clock env (retval, a, c);
        (c, d) \<leftarrow> (if cpuid a = 0 \<and> out_con a = LAST then audioOut a yP (c, d) else Some (c, d));
        Some (retval, a, c, d) }
      else let a = a\<lparr>last_count := last_count a + 1\<rparr> in
        Some (0, if last_count a = latency a then a\<lparr>last_init := False\<rparr> else a, c, d))"

definition process_XgY :: "port_clock \<Rightarrow> port_env \<Rightarrow> AudioFX \<Rightarrow> noc_core \<Rightarrow> (int \<times> AudioFX \<times> noc_core) option" where
  "process_XgY clock env a c = do {
     (retval, a, c) \<leftarrow> receive_block clock env (0, a, c);
     xP \<leftarrow> x_place a;
     for_loop 0 (unat (Ns a)) (\<lambda>j r. do {
       (retval, a, c) \<leftarrow> r;
       yP \<leftarrow> y_place a;
       let offs = 2 * of_nat j * yb_size a;
       (a, c) \<leftarrow> process_block a (xP + 2 * offs) yP c;
       (retval, a, c) \<leftarrow> (if of_nat j = Ns a - 1 then ack_block clock env (retval, a, c) else Some (retval, a, c));
       send_block clock env (retval, a, c) }) (Some (retval, a, c)) }"

definition process_XlY :: "port_clock \<Rightarrow> port_env \<Rightarrow> AudioFX \<Rightarrow> noc_core \<Rightarrow> (int \<times> AudioFX \<times> noc_core) option" where
  "process_XlY clock env a c = do {
     (retval, a, c) \<leftarrow> for_loop 0 (unat (Nr a)) (\<lambda>j r. do {
       (retval, a, c) \<leftarrow> r;
       (retval, a, c) \<leftarrow> receive_block clock env (retval, a, c);
       xP \<leftarrow> x_place a;
       yP \<leftarrow> y_place a;
       let offs = 2 * of_nat j * xb_size a;
       (a, c) \<leftarrow> process_block a xP (yP + 2 * offs) c;
       ack_block clock env (retval, a, c) }) (Some (0, a, c));
     send_block clock env (retval, a, c) }"

definition audio_process ::
  "port_clock \<Rightarrow> port_env \<Rightarrow> AudioFX \<Rightarrow> noc_core \<Rightarrow> codec \<Rightarrow> (int \<times> AudioFX \<times> noc_core \<times> codec) option" where
  "audio_process clock env a c d =
     (case pt a of
        XeY \<Rightarrow> process_XeY clock env a c d
      | XgY \<Rightarrow> do { (retval, a, c) \<leftarrow> process_XgY clock env a c; Some (retval, a, c, d) }
      | XlY \<Rightarrow> do { (retval, a, c) \<leftarrow> process_XlY clock env a c; Some (retval, a, c, d) })"

end
