(* ===== verification/Spec2Isabelle.thy ===== *)
theory Spec2Isabelle
  imports C_Prelude Eth_Buffer Eth_Device Inet_Checksum Mac_Layer Ipv4_Layer Arp_Layer
    Icmp_Layer Udp_Layer Tcp_Layer Accelerator_HW Accelerator_Inference Accelerator_SW Accelerator_Params
    Task_Queue RM_Scheduler TT_Scheduler Tte_Schedule Tte_Links Tte_Frames Ptp_Layer
    Mp_Lock Mp_Channel Sd_Model Fat_Calls Audio_Graph
begin

text \<open>
  A verification development for the neural network accelerator of the Patmos processor, the software
  that drives it, and the C libraries that run beside it: networking, real-time scheduling, message
  passing between cores, an SD card with a FAT32 file system, and audio effects. All paths are below \<^verbatim>\<open>src/patmos\<close>.

  \<^bold>\<open>Parts and how they interact.\<close>
  \<^item> The accelerator (\<^verbatim>\<open>hardware/src/main/scala/io/Accelerator.scala\<close>, the contribution of this repository)
    keeps a network of 784, 100 and 10 nodes and an image in one memory and computes the digit of the
    image. The processor loads it word by word over the bus, polls a status and reads the result; the
    program (\<^verbatim>\<open>c/accelerator_main.c\<close> with \<^verbatim>\<open>c/accelerator/*.h\<close>) does that for a set of images and counts
    the errors. \<^verbatim>\<open>neuralNetwork.h\<close> has the same network in software.
  \<^item> The Ethernet library (\<^verbatim>\<open>c/ethlib\<close>) keeps frames in a packet buffer that it shares with the controller.
    The driver hands frames over through descriptors; MAC, IPv4, ARP, ICMP, UDP and TCP are stacked on the
    buffer; TTEthernet (\<^verbatim>\<open>tte.c\<close>) sends and receives on a time-triggered schedule, and the Precision Time
    Protocol (\<^verbatim>\<open>ptp1588.c\<close>) runs over UDP.
  \<^item> Two schedulers (\<^verbatim>\<open>c/apps/rmscheduling\<close>, \<^verbatim>\<open>c/apps/ttscheduling\<close>) keep tasks in linked lists on the heap.
  \<^item> The network-on-chip driver (\<^verbatim>\<open>c/libnoc\<close>) starts transfers between the memories of the cores; the
    message passing library (\<^verbatim>\<open>c/libmp\<close>) builds queuing ports and a lock on it.
  \<^item> The SD card driver (\<^verbatim>\<open>c/libsd/sd_spi.c\<close>, \<^verbatim>\<open>sddisk.c\<close>) makes a card a disk of blocks; the file system
    (\<^verbatim>\<open>fat32.c\<close>) keeps a table of open files on it.
  \<^item> The audio library (\<^verbatim>\<open>c/libaudio\<close>) reads samples from the converters, sends them through effects that are
    nodes of a graph, on one core or over the channels of the message passing library, and plays the result.

  \<^bold>\<open>Theories, in the order of dependence.\<close>
  \<^item> \<^verbatim>\<open>C_Prelude\<close>: integer types, counted loops (\<open>for_loop\<close>), polling loops (\<open>loop_until\<close>, which yields
    \<^const>\<open>None\<close> when the loop does not end), array stores with their bounds, word and list lemmas.
  \<^item> \<^verbatim>\<open>Eth_Buffer\<close>, \<^verbatim>\<open>Eth_Device\<close>: \<^verbatim>\<open>eth_patmos_io.c\<close> and \<^verbatim>\<open>eth_mac_driver.c\<close>; the buffer is a function from
    word addresses, the controller and the clocks are an object that answers register accesses.
  \<^item> \<^verbatim>\<open>Eth_Cable\<close>: a concrete controller with a cable, whose frames are what the drivers sent. No definition of
    the program depends on it; properties about exchanges and about what is sent are stated on it.
  \<^item> \<^verbatim>\<open>Inet_Checksum\<close>, \<^verbatim>\<open>Mac_Layer\<close>, \<^verbatim>\<open>Ipv4_Layer\<close>, \<^verbatim>\<open>Arp_Layer\<close>, \<^verbatim>\<open>Icmp_Layer\<close>, \<^verbatim>\<open>Udp_Layer\<close>, \<^verbatim>\<open>Tcp_Layer\<close>,
    \<^verbatim>\<open>Ptp_Layer\<close>: the protocol files of the same name, one definition per function. The states are records
    that extend each other in the order the layers use each other.
  \<^item> \<^verbatim>\<open>Bounded_Queue\<close>: the interface of a bounded first-in-first-out queue, as a locale with its runs.
  \<^item> \<^verbatim>\<open>Tte_Node\<close>, \<^verbatim>\<open>Tte_Schedule\<close>, \<^verbatim>\<open>Tte_Links\<close>, \<^verbatim>\<open>Tte_Frames\<close>: \<^verbatim>\<open>tte.c\<close>: the node, its schedule against the merge
    of all releases, the transmit queues against the queue interface, the frames and the clock.
  \<^item> \<^verbatim>\<open>Accelerator_HW\<close>, \<^verbatim>\<open>Accelerator_Inference\<close>: the accelerator clock by clock (registers, memory, state
    machine), and what a load, an inference and a session of it compute. \<^verbatim>\<open>Accelerator_SW\<close>: the C
    program and the software network over the bus of that device. \<^verbatim>\<open>Accelerator_Params\<close>: the shipped
    weights of the second layer and the biases, as data.
  \<^item> \<^verbatim>\<open>Task_Queue\<close>, \<^verbatim>\<open>RM_Scheduler\<close>, \<^verbatim>\<open>TT_Scheduler\<close>: the lists of tasks on an explicit heap, abstracted to
    lists, and the two schedulers on them.
  \<^item> \<^verbatim>\<open>Noc_Driver\<close>, \<^verbatim>\<open>Mp_Lock\<close>, \<^verbatim>\<open>Mp_Port\<close>, \<^verbatim>\<open>Mp_Queue\<close>, \<^verbatim>\<open>Mp_Channel\<close>: the driver (\<^verbatim>\<open>noc.c\<close>, \<^verbatim>\<open>coreset.h\<close>); the
    lock statement by statement, with the transfers as steps of their own; ports (\<^verbatim>\<open>mp.c\<close>, \<^verbatim>\<open>queuing.c\<close>,
    \<^verbatim>\<open>utils.c\<close>); a channel of two ports as an instance of the queue interface, from its creation on.
  \<^item> \<^verbatim>\<open>Block_Device\<close>: the interface of a disk as a locale. \<^verbatim>\<open>Sd_Card\<close>: driver and disk over any card, the
    promise \<open>serves\<close> of a card, and the interface for such cards; \<^verbatim>\<open>Sd_Model\<close>: a card that keeps it.
  \<^item> \<^verbatim>\<open>Fat_Table\<close>, \<^verbatim>\<open>Fat_File\<close>: the file system's definitions. \<^verbatim>\<open>Fat_Chain\<close>, \<^verbatim>\<open>Fat_Content\<close>, \<^verbatim>\<open>Fat_Write\<close>: the
    table as a function with chains of clusters, the contents of a file, the loops of read and write.
    \<^verbatim>\<open>Fat_Access\<close>: what a client sees of an open file.
  \<^item> \<^verbatim>\<open>Fat_Name\<close>, \<^verbatim>\<open>Fat_Create\<close>, \<^verbatim>\<open>Fat_Delete\<close>: names and the resolution of paths, creation, deletion, and the
    calls on paths (\<open>fat_open\<close>, \<open>fat_creat\<close>, \<open>fat_unlink\<close>, \<open>fat_mkdir\<close>, \<open>fat_rmdir\<close>). \<^verbatim>\<open>Fat_Path\<close>: directories as
    lists of entries and the meaning of a path (\<open>resolves\<close>). \<^verbatim>\<open>Fat_Open\<close>, \<^verbatim>\<open>Fat_Overwrite\<close>: what opening does,
    with its errors. \<^verbatim>\<open>Fat_Calls\<close>: all calls as steps of a client, and the types they keep.
  \<^item> \<^verbatim>\<open>Audio_DSP\<close>, \<^verbatim>\<open>Audio_Effects\<close>: \<^verbatim>\<open>dsp_algorithms.c\<close> and the effects of \<^verbatim>\<open>audio.c\<close>, one sample at a time, on
    words of 16 and 32 bits. \<^verbatim>\<open>Audio_Filter\<close>, \<^verbatim>\<open>Audio_Delay\<close>, \<^verbatim>\<open>Audio_Gain\<close>: the effects as machines on integers,
    each an instance of one interface of effects.
    \<^verbatim>\<open>Audio_Setup\<close>, \<^verbatim>\<open>Audio_Device\<close>, \<^verbatim>\<open>Audio_Node\<close>: start states, converters, and the nodes with one round of their
    work. \<^verbatim>\<open>Audio_Graph\<close>: rates, blocks, and a chain of two nodes.

  \<^bold>\<open>How state and errors are modelled.\<close> A struct is a record, an enumeration a datatype, an integer a word
  of its width with wrap-around; pointers into a buffer are offsets. Calls take and return the state. A
  call that may not return, or that would access an array outside its bounds, has an option as result,
  and what it would do then is \<^const>\<open>None\<close>; theorems that a call works show \<^const>\<open>Some\<close>. Error codes and
  \<^verbatim>\<open>errno\<close> are values. What lies outside the program (controller, card, clock, other cores, called tasks)
  is a parameter or an object that answers accesses, with its documented behaviour as a named
  hypothesis (\<open>serves\<close>, \<open>calm\<close>, \<dots>), each shown to be satisfiable by a witness.

  \<^bold>\<open>What the properties show.\<close> For the accelerator: every session computes the digits of the loaded network,
  the test program returns with the right count, and the software network agrees with the hardware
  exactly on the transposed parameters. For the protocols: frames are read back as they were built,
  checksums verify when they should, exchanges (ARP, ping) reach their goal, and the TCP handshake and the
  synchronisation of PTP do on cables, where each step works on the frames the step before has put
  there; the TCP state machine and the ARP table keep their invariants; a link of TTEthernet puts the frames it accepted
  on the cable in their order. For the schedulers: one step on the heap
  calls the task that is due and puts it back with its next release, and the list stays in order. For message
  passing: a channel is a queue under every interleaving, the lock excludes until its numbers wrap around. For the disk: the driver refines an array of blocks for every card that keeps the
  protocol. For the file system: reads, seeks and writes act on the contents of a file as on a list of
  bytes, other files stay as they are, and chains of clusters are extended and freed exactly; paths are
  resolved to the entries they mean. For the audio library: the filters compute their difference equation, the
  delay and the distortion what they mean to within the bounds stated, and a chain of nodes the composition of
  its effects. Where the
  code does something else than it means to, the property states what it does
  (\<open>fat_read_stale\<close>, \<open>fat_open_truncates\<close>, \<open>ipv4_checksum_roundtrip\<close>).

  \<^bold>\<open>Bounds and assumptions.\<close> The test program of the accelerator is considered with at most 100 cycles
  between two bus accesses, a different number after each, and with memory ports that the design leaves undriven at
  any values that do not write. The releases of TTEthernet fit the 32-bit clock (\<open>clock_fits\<close>). Structures
  of PTP are laid out big-endian and packed as on Patmos. In libmp a call of a port is one step, transfers
  arrive word by word and in order, and the memory of a core has at most 2^14 words. Partitions have
  512-byte sectors, fewer than 256 sectors per cluster, at most 2^21 sectors of table, and areas that lie
  behind each other (\<open>geometry\<close>). The lock excludes as long as no number wraps around, which the theorem
  states. Calls into the run-time library (exceptions, timers) are recorded in a list.

  \<^bold>\<open>Not modelled.\<close> Printing and tracing; functions on floating point numbers (microseconds in PTP and the
  counter of the accelerator program, flight control); \<^verbatim>\<open>loadInfCheck\<close>, which names an array that does not
  exist; the sampling ports and the empty collective operations of libmp, the interrupt handlers and
  start-up synchronisation of libnoc; the functions of libaudio that compute coefficients and tables in floating
  point, whose results are arguments, and the freeing of its heap blocks; the boot and ELF loaders and the vendored ELF library; the configuration port
  of the FPGA; the processor itself, whose registers are modelled by their documentation; demonstration,
  benchmark and test programs. Images and the first-layer weights are arguments, not data.
\<close>

end
